(* ===== verification/Prelude.thy ===== *)
theory Prelude
  imports Main "HOL-Library.Word" "HOL-Library.Sublist" "HOL-Library.Code_Target_Nat"
begin

text \<open>
  The prelude of the rsproxy development: the collections the component proofs use, the
  integer types of the Rust sources, the result type of fallible code, and the generic facts
  on lists, options and words that several components share.

  Rust values are modelled as follows.
  \<^item> \<open>u8\<close>, \<open>u16\<close>, \<open>u64\<close> and \<open>usize\<close> values whose wrap-around matters are words of that
    width; lengths and indices of in-memory data, which the sources only compare and add
    below their documented limits, are natural numbers, with \<open>checked_add\<close> and
    \<open>saturating_add\<close> written out against \<open>USIZE_MAX\<close>.
  \<^item> \<open>Result<T, E>\<close> is the sum \<open>E + T\<close>, so \<open>Inl\<close> is the error; \<open>Option<T>\<close> is \<open>option\<close>.
  \<^item> A panic (an \<open>expect\<close> or an index out of range) is the value \<open>None\<close> of the operation
    that can panic.
\<close>

section \<open>Collections and types\<close>

named_theorems result_simps \<open>inversion of fallible code: what an \<open>Ok\<close> result says of the steps before it\<close>

type_synonym u8 = "8 word"
type_synonym u16 = "16 word"
type_synonym u64 = "64 word"

definition USIZE_MAX :: nat where
  "USIZE_MAX = 2 ^ 64 - 1"

definition checked_add :: "nat \<Rightarrow> nat \<Rightarrow> nat option" where
  "checked_add a b = (if a + b \<le> USIZE_MAX then Some (a + b) else None)"

definition saturating_add :: "nat \<Rightarrow> nat \<Rightarrow> nat" where
  "saturating_add a b = min (a + b) USIZE_MAX"

lemma checked_add_SomeD: "checked_add a b = Some c \<Longrightarrow> c = a + b"
  by (simp add: checked_add_def split: if_splits)

lemma saturating_add_le: "saturating_add a b \<le> a + b"
  by (simp add: saturating_add_def)

lemma saturating_add_mono: "a \<le> USIZE_MAX \<Longrightarrow> a \<le> saturating_add a b"
  by (simp add: saturating_add_def)

text \<open>The \<open>?\<close> operator: propagate the error, continue with the value.\<close>

definition try_bind :: "'e + 'a \<Rightarrow> ('a \<Rightarrow> 'e + 'b) \<Rightarrow> 'e + 'b" where
  "try_bind r f = (case r of Inl e \<Rightarrow> Inl e | Inr x \<Rightarrow> f x)"

lemma try_bind_simps [simp]:
  "try_bind (Inl e) f = Inl e"
  "try_bind (Inr x) f = f x"
  by (simp_all add: try_bind_def)

lemma try_bind_Inr_iff [result_simps]: "try_bind r f = Inr y \<longleftrightarrow> (\<exists>x. r = Inr x \<and> f x = Inr y)"
  by (cases r) auto

lemma try_bind_cong [fundef_cong]:
  "r = r' \<Longrightarrow> (\<And>x. r' = Inr x \<Longrightarrow> f x = g x) \<Longrightarrow> try_bind r f = try_bind r' g"
  by (cases r') auto

text \<open>\<open>iter().map(f).collect::<Result<Vec<_>, _>>()\<close>: the first error wins.\<close>

fun collect_results :: "('a \<Rightarrow> 'e + 'b) \<Rightarrow> 'a list \<Rightarrow> 'e + 'b list" where
  "collect_results f [] = Inr []"
| "collect_results f (x # xs) =
     try_bind (f x) (\<lambda>y. try_bind (collect_results f xs) (\<lambda>ys. Inr (y # ys)))"

lemma collect_results_cong [fundef_cong]:
  "xs = ys \<Longrightarrow> (\<And>x. x \<in> set ys \<Longrightarrow> f x = g x) \<Longrightarrow> collect_results f xs = collect_results g ys"
  by (induction xs arbitrary: ys) (auto intro!: try_bind_cong)

lemma collect_results_Inr_iff:
  "collect_results f xs = Inr ys \<longleftrightarrow> list_all2 (\<lambda>x y. f x = Inr y) xs ys"
proof (induction xs arbitrary: ys)
  case Nil
  then show ?case by auto
next
  case (Cons x xs)
  then show ?case by (auto simp: try_bind_Inr_iff list_all2_Cons1)
qed

lemma collect_results_length: "collect_results f xs = Inr ys \<Longrightarrow> length ys = length xs"
  by (auto simp: collect_results_Inr_iff dest: list_all2_lengthD)

lemma collect_results_set:
  "collect_results f xs = Inr ys \<Longrightarrow> y \<in> set ys \<Longrightarrow> \<exists>x \<in> set xs. f x = Inr y"
  by (fastforce simp: collect_results_Inr_iff list_all2_conv_all_nth in_set_conv_nth)

section \<open>Order-preserving deduplication\<close>

text \<open>
  Several loops of the sources push a value only when a \<open>HashSet\<close> or a linear scan has not
  seen it. \<open>push_unique\<close> is one such step and \<open>dedup_onto\<close> the loop.
\<close>

definition push_unique :: "'a list \<Rightarrow> 'a \<Rightarrow> 'a list" where
  "push_unique acc x = (if x \<in> set acc then acc else acc @ [x])"

definition dedup_onto :: "'a list \<Rightarrow> 'a list \<Rightarrow> 'a list" where
  "dedup_onto acc xs = foldl push_unique acc xs"

lemma dedup_onto_simps [simp]:
  "dedup_onto acc [] = acc"
  "dedup_onto acc (x # xs) = dedup_onto (push_unique acc x) xs"
  by (simp_all add: dedup_onto_def)

lemma set_push_unique [simp]: "set (push_unique acc x) = insert x (set acc)"
  by (auto simp: push_unique_def)

lemma distinct_push_unique: "distinct acc \<Longrightarrow> distinct (push_unique acc x)"
  by (simp add: push_unique_def)

lemma set_dedup_onto [simp]: "set (dedup_onto acc xs) = set acc \<union> set xs"
  by (induction xs arbitrary: acc) auto

lemma distinct_dedup_onto: "distinct acc \<Longrightarrow> distinct (dedup_onto acc xs)"
  by (induction xs arbitrary: acc) (auto intro: distinct_push_unique)

section \<open>Sorting by a Boolean key and an index\<close>

text \<open>
  \<open>sort_by_key(|i| (!flag(i), i))\<close> on distinct indices lists the flagged ones first, each
  group in increasing order: the result depends on the set of indices only.
\<close>

definition flag_sorted :: "(nat \<Rightarrow> bool) \<Rightarrow> nat set \<Rightarrow> nat list" where
  "flag_sorted flag I =
     sorted_list_of_set {i \<in> I. flag i} @ sorted_list_of_set {i \<in> I. \<not> flag i}"

lemma set_flag_sorted [simp]: "finite I \<Longrightarrow> set (flag_sorted flag I) = I"
  by (auto simp: flag_sorted_def)

lemma distinct_flag_sorted: "finite I \<Longrightarrow> distinct (flag_sorted flag I)"
  by (auto simp: flag_sorted_def)

lemma filter_sorted_list_of_set:
  "finite I \<Longrightarrow> filter P (sorted_list_of_set I) = sorted_list_of_set {i \<in> I. P i}"
  by (rule sorted_distinct_set_unique) (auto intro: sorted_wrt_filter)

lemma filter_flag_sorted:
  assumes "finite I"
  shows "filter P (flag_sorted flag I) = flag_sorted flag {i \<in> I. P i}"
proof -
  have "{i \<in> {i \<in> I. flag i}. P i} = {i \<in> {i \<in> I. P i}. flag i}"
    and "{i \<in> {i \<in> I. \<not> flag i}. P i} = {i \<in> {i \<in> I. P i}. \<not> flag i}" by auto
  with assms show ?thesis by (simp add: flag_sorted_def filter_sorted_list_of_set)
qed

section \<open>Checked indexing and fallible folds\<close>

text \<open>\<open>slice.get(i)\<close>, and a loop whose body may panic or return early.\<close>

definition nth_opt :: "'a list \<Rightarrow> nat \<Rightarrow> 'a option" where
  "nth_opt xs i = (if i < length xs then Some (xs ! i) else None)"

primrec fold_option :: "('a \<Rightarrow> 's \<Rightarrow> 's option) \<Rightarrow> 'a list \<Rightarrow> 's \<Rightarrow> 's option" where
  "fold_option f [] = Some"
| "fold_option f (x # xs) = (\<lambda>s. Option.bind (f x s) (fold_option f xs))"

lemma nth_opt_Some_iff: "nth_opt xs i = Some x \<longleftrightarrow> i < length xs \<and> xs ! i = x"
  by (auto simp: nth_opt_def)

lemma nth_opt_append: "nth_opt xs i = Some x \<Longrightarrow> nth_opt (xs @ ys) i = Some x"
  by (auto simp: nth_opt_Some_iff nth_append)

lemma fold_option_append:
  "fold_option f (xs @ ys) = (\<lambda>s. Option.bind (fold_option f xs s) (fold_option f ys))"
  by (induction xs) (simp_all add: Option.bind_assoc)

lemma fold_option_concat_map:
  "fold_option f (concat (map g xs)) = fold_option (\<lambda>x. fold_option f (g x)) xs"
  by (induction xs) (simp_all add: fold_option_append)

lemma fold_option_map: "fold_option f (map g xs) = fold_option (\<lambda>x. f (g x)) xs"
  by (induction xs) simp_all

lemma fold_option_cong [fundef_cong]:
  "xs = ys \<Longrightarrow> s = t \<Longrightarrow> (\<And>x s. x \<in> set ys \<Longrightarrow> f x s = g x s) \<Longrightarrow>
     fold_option f xs s = fold_option g ys t"
proof (induction xs arbitrary: ys s t)
  case (Cons x xs)
  then show ?case by (cases "g x t") auto
qed auto

end
