(* ===== verification/Rust_Str.thy ===== *)
theory Rust_Str
  imports Prelude
begin

text \<open>
  Rust's \<open>str\<close>, as the sources use it. A \<open>str\<close> is modelled by its UTF-8 bytes, a list of
  \<^typ>\<open>char\<close>, so \<open>len\<close> is \<^const>\<open>length\<close> and byte offsets are list positions. Searches
  for ASCII characters and for substrings are the same on bytes and on characters, because
  UTF-8 is self-synchronising; the operations that classify non-ASCII characters
  (\<open>trim\<close>, \<open>char::is_whitespace\<close>, \<open>char::is_control\<close>) decode the multi-byte sequences of the
  characters they recognise.
\<close>

section \<open>ASCII characters\<close>

definition byte :: "char \<Rightarrow> nat" where
  "byte c = of_char c"

definition is_ascii_digit :: "char \<Rightarrow> bool" where
  "is_ascii_digit c \<longleftrightarrow> 48 \<le> byte c \<and> byte c \<le> 57"

definition is_ascii_uppercase :: "char \<Rightarrow> bool" where
  "is_ascii_uppercase c \<longleftrightarrow> 65 \<le> byte c \<and> byte c \<le> 90"

definition is_ascii_lowercase :: "char \<Rightarrow> bool" where
  "is_ascii_lowercase c \<longleftrightarrow> 97 \<le> byte c \<and> byte c \<le> 122"

definition is_ascii_alphabetic :: "char \<Rightarrow> bool" where
  "is_ascii_alphabetic c \<longleftrightarrow> is_ascii_uppercase c \<or> is_ascii_lowercase c"

definition is_ascii_alphanumeric :: "char \<Rightarrow> bool" where
  "is_ascii_alphanumeric c \<longleftrightarrow> is_ascii_alphabetic c \<or> is_ascii_digit c"

definition is_ascii_hexdigit :: "char \<Rightarrow> bool" where
  "is_ascii_hexdigit c \<longleftrightarrow>
     is_ascii_digit c \<or> (65 \<le> byte c \<and> byte c \<le> 70) \<or> (97 \<le> byte c \<and> byte c \<le> 102)"

definition ascii_lower :: "char \<Rightarrow> char" where
  "ascii_lower c = (if is_ascii_uppercase c then char_of (byte c + 32) else c)"

definition ascii_upper :: "char \<Rightarrow> char" where
  "ascii_upper c = (if is_ascii_lowercase c then char_of (byte c - 32) else c)"

definition to_ascii_lowercase :: "string \<Rightarrow> string" where
  "to_ascii_lowercase s = map ascii_lower s"

definition to_ascii_uppercase :: "string \<Rightarrow> string" where
  "to_ascii_uppercase s = map ascii_upper s"

definition eq_ignore_ascii_case :: "string \<Rightarrow> string \<Rightarrow> bool" where
  "eq_ignore_ascii_case a b \<longleftrightarrow> to_ascii_lowercase a = to_ascii_lowercase b"

lemma byte_char_of [simp]: "n < 256 \<Longrightarrow> byte (char_of n) = n"
  by (simp add: byte_def)

lemma byte_less_256 [simp]: "byte c < 256"
  by (simp add: byte_def)

lemma byte_inject: "byte a = byte b \<longleftrightarrow> a = b"
  by (simp add: byte_def)

lemma ascii_lower_not_upper: "\<not> is_ascii_uppercase (ascii_lower c)"
  by (simp add: ascii_lower_def is_ascii_uppercase_def)

lemma ascii_lower_idem [simp]: "ascii_lower (ascii_lower c) = ascii_lower c"
  using ascii_lower_not_upper [of c] by (simp add: ascii_lower_def)

lemma ascii_lower_fixed: "\<not> is_ascii_uppercase c \<Longrightarrow> ascii_lower c = c"
  by (simp add: ascii_lower_def)

lemma ascii_lower_eq_other:
  assumes "\<not> is_ascii_alphabetic d"
  shows "ascii_lower c = d \<longleftrightarrow> c = d"
proof (cases "is_ascii_uppercase c")
  case True
  then have "is_ascii_lowercase (ascii_lower c)"
    by (simp add: ascii_lower_def is_ascii_uppercase_def is_ascii_lowercase_def)
  with True assms show ?thesis by (auto simp: is_ascii_alphabetic_def)
next
  case False
  then show ?thesis by (simp add: ascii_lower_def)
qed

lemma to_ascii_lowercase_simps [simp]:
  "to_ascii_lowercase [] = []"
  "to_ascii_lowercase (c # s) = ascii_lower c # to_ascii_lowercase s"
  "to_ascii_lowercase (s @ t) = to_ascii_lowercase s @ to_ascii_lowercase t"
  by (simp_all add: to_ascii_lowercase_def)

lemma to_ascii_lowercase_idem [simp]:
  "to_ascii_lowercase (to_ascii_lowercase s) = to_ascii_lowercase s"
  by (induction s) simp_all

lemma length_to_ascii_lowercase [simp]: "length (to_ascii_lowercase s) = length s"
  by (simp add: to_ascii_lowercase_def)

lemma to_ascii_lowercase_Nil_iff [simp]: "to_ascii_lowercase s = [] \<longleftrightarrow> s = []"
  by (simp add: to_ascii_lowercase_def)

lemma in_set_to_ascii_lowercase:
  "\<not> is_ascii_alphabetic d \<Longrightarrow> d \<in> set (to_ascii_lowercase s) \<longleftrightarrow> d \<in> set s"
  by (induction s) (simp_all add: ascii_lower_eq_other eq_commute [of d])

lemma eq_ignore_ascii_case_refl [simp]: "eq_ignore_ascii_case s s"
  by (simp add: eq_ignore_ascii_case_def)

lemma eq_ignore_ascii_case_sym: "eq_ignore_ascii_case a b \<longleftrightarrow> eq_ignore_ascii_case b a"
  by (auto simp: eq_ignore_ascii_case_def)

section \<open>Prefixes, suffixes and searches\<close>

definition starts_with :: "string \<Rightarrow> string \<Rightarrow> bool" where
  "starts_with s p \<longleftrightarrow> take (length p) s = p"

definition ends_with :: "string \<Rightarrow> string \<Rightarrow> bool" where
  "ends_with s p \<longleftrightarrow> length p \<le> length s \<and> drop (length s - length p) s = p"

definition strip_prefix :: "string \<Rightarrow> string \<Rightarrow> string option" where
  "strip_prefix s p = (if starts_with s p then Some (drop (length p) s) else None)"

definition strip_suffix :: "string \<Rightarrow> string \<Rightarrow> string option" where
  "strip_suffix s p = (if ends_with s p then Some (take (length s - length p) s) else None)"

text \<open>\<open>find\<close> with a character predicate, and with a string pattern.\<close>

fun find_char :: "(char \<Rightarrow> bool) \<Rightarrow> string \<Rightarrow> nat option" where
  "find_char P [] = None"
| "find_char P (c # s) = (if P c then Some 0 else map_option Suc (find_char P s))"

fun find_str :: "string \<Rightarrow> string \<Rightarrow> nat option" where
  "find_str p [] = (if p = [] then Some 0 else None)"
| "find_str p (c # s) =
     (if starts_with (c # s) p then Some 0 else map_option Suc (find_str p s))"

definition contains_str :: "string \<Rightarrow> string \<Rightarrow> bool" where
  "contains_str s p \<longleftrightarrow> find_str p s \<noteq> None"

definition split_once :: "string \<Rightarrow> string \<Rightarrow> (string \<times> string) option" where
  "split_once s p =
     map_option (\<lambda>i. (take i s, drop (i + length p) s)) (find_str p s)"

text \<open>\<open>rsplit_once\<close> with a character.\<close>

fun rfind_char :: "(char \<Rightarrow> bool) \<Rightarrow> string \<Rightarrow> nat option" where
  "rfind_char P [] = None"
| "rfind_char P (c # s) =
     (case rfind_char P s of Some i \<Rightarrow> Some (Suc i) | None \<Rightarrow> if P c then Some 0 else None)"

definition rsplit_once_char :: "string \<Rightarrow> char \<Rightarrow> (string \<times> string) option" where
  "rsplit_once_char s c =
     map_option (\<lambda>i. (take i s, drop (Suc i) s)) (rfind_char (\<lambda>d. d = c) s)"

text \<open>\<open>split\<close> on a set of characters: always at least one piece.\<close>

fun split_chars :: "(char \<Rightarrow> bool) \<Rightarrow> string \<Rightarrow> string list" where
  "split_chars P [] = [[]]"
| "split_chars P (c # s) =
     (if P c then [] # split_chars P s
      else (case split_chars P s of [] \<Rightarrow> [[c]] | p # ps \<Rightarrow> (c # p) # ps))"

lemma starts_with_iff: "starts_with s p \<longleftrightarrow> (\<exists>t. s = p @ t)"
  by (auto simp: starts_with_def) (metis append_take_drop_id)

lemma strip_prefix_Some_iff: "strip_prefix s p = Some t \<longleftrightarrow> s = p @ t"
  by (auto simp: strip_prefix_def starts_with_iff)

lemma strip_prefix_None_iff: "strip_prefix s p = None \<longleftrightarrow> (\<forall>t. s \<noteq> p @ t)"
  by (auto simp: strip_prefix_def starts_with_iff)

lemma strip_prefix_append [simp]: "strip_prefix (p @ t) p = Some t"
  by (simp add: strip_prefix_Some_iff)

lemma ends_with_iff: "ends_with s p \<longleftrightarrow> (\<exists>t. s = t @ p)"
proof
  assume e: "ends_with s p"
  then have "s = take (length s - length p) s @ p"
    unfolding ends_with_def by (metis append_take_drop_id)
  then show "\<exists>t. s = t @ p" by blast
qed (auto simp: ends_with_def)

lemma strip_suffix_Some_iff: "strip_suffix s p = Some t \<longleftrightarrow> s = t @ p"
  by (auto simp: strip_suffix_def ends_with_iff)

lemma find_char_None_iff: "find_char P s = None \<longleftrightarrow> (\<forall>c \<in> set s. \<not> P c)"
  by (induction s) auto

lemma find_char_SomeD:
  "find_char P s = Some i \<Longrightarrow> i < length s \<and> P (s ! i) \<and> (\<forall>c \<in> set (take i s). \<not> P c)"
  by (induction s arbitrary: i) (auto split: if_splits)

lemma find_str_SomeD: "find_str p s = Some i \<Longrightarrow> i \<le> length s \<and> starts_with (drop i s) p"
proof (induction s arbitrary: i)
  case Nil
  then show ?case by (simp add: starts_with_def split: if_splits)
next
  case (Cons c s)
  show ?case
  proof (cases "starts_with (c # s) p")
    case True
    with Cons.prems show ?thesis by simp
  next
    case False
    with Cons.prems obtain j where "find_str p s = Some j" "i = Suc j" by auto
    with Cons.IH [of j] show ?thesis by simp
  qed
qed

lemma find_str_None_iff: "find_str p s = None \<longleftrightarrow> (\<forall>u t. s \<noteq> u @ p @ t)"
proof (induction s)
  case Nil
  then show ?case by auto
next
  case (Cons c s)
  have "(\<exists>u t. c # s = u @ p @ t) \<longleftrightarrow>
      starts_with (c # s) p \<or> (\<exists>u t. s = u @ p @ t)"
    by (auto simp: starts_with_iff Cons_eq_append_conv)
  with Cons show ?case by auto
qed

lemma contains_str_iff: "contains_str s p \<longleftrightarrow> (\<exists>u t. s = u @ p @ t)"
  using find_str_None_iff [of p s] by (auto simp: contains_str_def)

lemma split_once_SomeD: "split_once s p = Some (a, b) \<Longrightarrow> s = a @ p @ b"
  by (auto simp: split_once_def starts_with_iff add.commute dest!: find_str_SomeD)
    (metis append_take_drop_id drop_drop add.commute append_eq_conv_conj)

lemma rfind_char_None_iff: "rfind_char P s = None \<longleftrightarrow> (\<forall>c \<in> set s. \<not> P c)"
  by (induction s) (auto split: option.splits)

lemma rfind_char_SomeD:
  "rfind_char P s = Some i \<Longrightarrow> i < length s \<and> P (s ! i) \<and> (\<forall>c \<in> set (drop (Suc i) s). \<not> P c)"
proof (induction s arbitrary: i)
  case (Cons c s)
  show ?case
  proof (cases "rfind_char P s")
    case None
    with Cons.prems show ?thesis by (auto simp: rfind_char_None_iff split: if_splits)
  next
    case (Some j)
    with Cons.prems Cons.IH [of j] show ?thesis by auto
  qed
qed simp

lemma rsplit_once_char_SomeD:
  assumes "rsplit_once_char s c = Some (a, b)"
  shows "s = a @ c # b" and "c \<notin> set b"
proof -
  from assms obtain i where i: "rfind_char (\<lambda>d. d = c) s = Some i"
    and ab: "a = take i s" "b = drop (Suc i) s"
    by (auto simp: rsplit_once_char_def)
  from rfind_char_SomeD [OF i] have "i < length s" "s ! i = c" "c \<notin> set (drop (Suc i) s)" by auto
  with ab show "s = a @ c # b" and "c \<notin> set b" by (auto simp: id_take_nth_drop)
qed

lemma split_chars_not_Nil [simp]: "split_chars P s \<noteq> []"
  by (cases s) (auto split: list.splits)

lemma starts_with_char: "starts_with s [c] \<longleftrightarrow> (\<exists>t. s = c # t)"
  by (auto simp: starts_with_iff)

lemma starts_with_char_set: "starts_with s [c] \<Longrightarrow> c \<in> set s"
  by (auto simp: starts_with_char)

lemma starts_with_char_lower:
  "\<not> is_ascii_alphabetic c \<Longrightarrow> starts_with (to_ascii_lowercase s) [c] \<longleftrightarrow> starts_with s [c]"
  by (cases s) (auto simp: starts_with_char ascii_lower_eq_other)

lemma drop_to_ascii_lowercase: "drop n (to_ascii_lowercase s) = to_ascii_lowercase (drop n s)"
  by (simp add: to_ascii_lowercase_def drop_map)

lemma take_to_ascii_lowercase: "take n (to_ascii_lowercase s) = to_ascii_lowercase (take n s)"
  by (simp add: to_ascii_lowercase_def take_map)

section \<open>Trimming\<close>

definition trim_start_chars :: "(char \<Rightarrow> bool) \<Rightarrow> string \<Rightarrow> string" where
  "trim_start_chars P s = dropWhile P s"

definition trim_end_chars :: "(char \<Rightarrow> bool) \<Rightarrow> string \<Rightarrow> string" where
  "trim_end_chars P s = rev (dropWhile P (rev s))"

definition trim_matches :: "(char \<Rightarrow> bool) \<Rightarrow> string \<Rightarrow> string" where
  "trim_matches P s = trim_end_chars P (trim_start_chars P s)"

text \<open>The bytes of the characters with the Unicode property \<open>White_Space\<close>.\<close>

definition is_ascii_ws_byte :: "char \<Rightarrow> bool" where
  "is_ascii_ws_byte c \<longleftrightarrow> (9 \<le> byte c \<and> byte c \<le> 13) \<or> byte c = 32"

definition ws2 :: "nat \<Rightarrow> nat \<Rightarrow> bool" where
  "ws2 a b \<longleftrightarrow> a = 194 \<and> (b = 133 \<or> b = 160)"

definition ws3 :: "nat \<Rightarrow> nat \<Rightarrow> nat \<Rightarrow> bool" where
  "ws3 a b c \<longleftrightarrow>
     a = 225 \<and> b = 154 \<and> c = 128
   \<or> a = 226 \<and> b = 128 \<and> (128 \<le> c \<and> c \<le> 138 \<or> c = 168 \<or> c = 169 \<or> c = 175)
   \<or> a = 226 \<and> b = 129 \<and> c = 159
   \<or> a = 227 \<and> b = 128 \<and> c = 128"

text \<open>The number of bytes of the white-space character a text starts (or ends) with.\<close>

fun ws_len :: "string \<Rightarrow> nat" where
  "ws_len [] = 0"
| "ws_len (a # s) =
     (if is_ascii_ws_byte a then 1
      else if byte a < 128 then 0
      else (case s of
          b # c # _ \<Rightarrow> if ws2 (byte a) (byte b) then 2
                      else if ws3 (byte a) (byte b) (byte c) then 3 else 0
        | [b] \<Rightarrow> if ws2 (byte a) (byte b) then 2 else 0
        | [] \<Rightarrow> 0))"

fun ws_len_rev :: "string \<Rightarrow> nat" where
  "ws_len_rev [] = 0"
| "ws_len_rev (a # s) =
     (if is_ascii_ws_byte a then 1
      else if byte a < 128 then 0
      else (case s of
          b # c # _ \<Rightarrow> if ws2 (byte b) (byte a) then 2
                      else if ws3 (byte c) (byte b) (byte a) then 3 else 0
        | [b] \<Rightarrow> if ws2 (byte b) (byte a) then 2 else 0
        | [] \<Rightarrow> 0))"

lemma ws_len_le: "ws_len s \<le> length s"
  by (cases s) (auto split: list.splits)

lemma ws_len_rev_le: "ws_len_rev s \<le> length s"
  by (cases s) (auto split: list.splits)

lemma ws_len_Nil_iff: "0 < ws_len s \<Longrightarrow> s \<noteq> []"
  by auto

function drop_ws :: "(string \<Rightarrow> nat) \<Rightarrow> string \<Rightarrow> string" where
  "drop_ws f s = (if s \<noteq> [] \<and> 0 < f s then drop_ws f (drop (f s) s) else s)"
  by pat_completeness auto
termination by (relation "measure (\<lambda>(f, s). length s)") auto

declare drop_ws.simps [simp del]

definition trim_start :: "string \<Rightarrow> string" where
  "trim_start s = drop_ws ws_len s"

definition trim_end :: "string \<Rightarrow> string" where
  "trim_end s = rev (drop_ws ws_len_rev (rev s))"

definition trim :: "string \<Rightarrow> string" where
  "trim s = trim_end (trim_start s)"

lemma length_drop_ws: "length (drop_ws f s) \<le> length s"
proof (induction f s rule: drop_ws.induct)
  case (1 f s)
  then show ?case by (subst drop_ws.simps) (auto intro: le_trans)
qed

lemma length_trim: "length (trim s) \<le> length s"
  unfolding trim_def trim_end_def trim_start_def
  by (metis length_drop_ws length_rev le_trans)

lemma set_drop_ws: "set (drop_ws f s) \<subseteq> set s"
proof (induction f s rule: drop_ws.induct)
  case (1 f s)
  then show ?case by (subst drop_ws.simps) (auto dest!: in_set_dropD subsetD)
qed

lemma set_trim: "set (trim s) \<subseteq> set s"
  unfolding trim_def trim_end_def trim_start_def
  by (metis set_drop_ws set_rev subset_trans)

section \<open>Integers as text\<close>

datatype int_error = IntEmpty | IntInvalidDigit | IntPosOverflow | IntNegOverflow

definition digit_value :: "char \<Rightarrow> nat option" where
  "digit_value c = (if is_ascii_digit c then Some (byte c - 48) else None)"

text \<open>
  \<open>str::parse\<close> at an unsigned type whose largest value is \<open>bound\<close>: an optional \<open>+\<close>, then at
  least one digit, each step checked for overflow.
\<close>

fun parse_digits :: "nat \<Rightarrow> nat \<Rightarrow> string \<Rightarrow> int_error + nat" where
  "parse_digits bound acc [] = Inr acc"
| "parse_digits bound acc (c # s) =
     (case digit_value c of
        None \<Rightarrow> Inl IntInvalidDigit
      | Some d \<Rightarrow>
          if bound < acc * 10 + d then Inl IntPosOverflow
          else parse_digits bound (acc * 10 + d) s)"

definition parse_uint :: "nat \<Rightarrow> string \<Rightarrow> int_error + nat" where
  "parse_uint bound s =
     (case s of
        [] \<Rightarrow> Inl IntEmpty
      | c # t \<Rightarrow>
          if t = [] \<and> (c = CHR ''+'' \<or> c = CHR ''-'') then Inl IntInvalidDigit
          else if c = CHR ''+'' then parse_digits bound 0 t
          else parse_digits bound 0 s)"

definition parse_u16 :: "string \<Rightarrow> int_error + u16" where
  "parse_u16 s = (case parse_uint 65535 s of Inl e \<Rightarrow> Inl e | Inr n \<Rightarrow> Inr (of_nat n))"

text \<open>\<open>str::parse::<i32>\<close>: a minus sign is accepted too, with its own overflow error.\<close>

definition parse_i32 :: "string \<Rightarrow> int_error + int" where
  "parse_i32 s =
     (case s of
        [] \<Rightarrow> Inl IntEmpty
      | c # t \<Rightarrow>
          if t = [] \<and> (c = CHR ''+'' \<or> c = CHR ''-'') then Inl IntInvalidDigit
          else if c = CHR ''-'' then
            (case parse_digits (2 ^ 31) 0 t of
               Inl IntPosOverflow \<Rightarrow> Inl IntNegOverflow | Inl e \<Rightarrow> Inl e | Inr n \<Rightarrow> Inr (- int n))
          else
            (case parse_digits (2 ^ 31 - 1) 0 (if c = CHR ''+'' then t else s) of
               Inl e \<Rightarrow> Inl e | Inr n \<Rightarrow> Inr (int n)))"

definition digit_char :: "nat \<Rightarrow> char" where
  "digit_char d = char_of (48 + d)"

fun nat_to_string :: "nat \<Rightarrow> string" where
  "nat_to_string n =
     (if n < 10 then [digit_char n] else nat_to_string (n div 10) @ [digit_char (n mod 10)])"

declare nat_to_string.simps [simp del]

lemma digit_value_digit_char [simp]: "d < 10 \<Longrightarrow> digit_value (digit_char d) = Some d"
  by (simp add: digit_value_def digit_char_def is_ascii_digit_def)

lemma digit_value_bound: "digit_value c = Some d \<Longrightarrow> d < 10"
  by (auto simp: digit_value_def is_ascii_digit_def split: if_splits)

lemma parse_digits_bound: "acc \<le> bound \<Longrightarrow> parse_digits bound acc s = Inr n \<Longrightarrow> n \<le> bound"
  by (induction bound acc s rule: parse_digits.induct) (auto split: option.splits if_splits)

lemma parse_uint_bound: "parse_uint bound s = Inr n \<Longrightarrow> n \<le> bound"
  by (auto simp: parse_uint_def simp del: parse_digits.simps
      intro: parse_digits_bound [of 0] split: list.splits if_splits)

lemma parse_i32_range:
  assumes "parse_i32 s = Inr n"
  shows "- (2 ^ 31) \<le> n \<and> n < 2 ^ 31"
proof -
  consider k t where "n = - int k" "parse_digits (2 ^ 31) 0 t = Inr k"
    | k t where "n = int k" "parse_digits (2 ^ 31 - 1) 0 t = Inr k"
    using assms
    by (auto simp: parse_i32_def simp del: parse_digits.simps split: list.splits if_splits sum.splits int_error.splits)
  then show ?thesis
  proof cases
    case 1
    then show ?thesis using parse_digits_bound [of 0 "2 ^ 31" t k] by simp
  next
    case 2
    then show ?thesis using parse_digits_bound [of 0 "2 ^ 31 - 1" t k] by simp
  qed
qed

lemma parse_digits_append:
  "parse_digits bound acc (s @ t) =
     (case parse_digits bound acc s of Inl e \<Rightarrow> Inl e | Inr n \<Rightarrow> parse_digits bound n t)"
  by (induction bound acc s rule: parse_digits.induct) (auto split: option.splits)

lemma nat_to_string_not_Nil [simp]: "nat_to_string n \<noteq> []"
  by (subst nat_to_string.simps) simp

lemma parse_digits_nat_to_string:
  "n \<le> bound \<Longrightarrow> parse_digits bound 0 (nat_to_string n) = Inr n"
proof (induction n rule: nat_to_string.induct)
  case (1 n)
  show ?case
  proof (cases "n < 10")
    case True
    with "1.prems" show ?thesis by (simp add: nat_to_string.simps [of n])
  next
    case False
    with "1.IH" "1.prems" have "parse_digits bound 0 (nat_to_string (n div 10)) = Inr (n div 10)"
      by simp
    with False "1.prems" show ?thesis
      by (simp add: nat_to_string.simps [of n] parse_digits_append)
  qed
qed

lemma nat_to_string_digits: "c \<in> set (nat_to_string n) \<Longrightarrow> is_ascii_digit c"
proof (induction n rule: nat_to_string.induct)
  case (1 n)
  then show ?case
    by (auto simp: nat_to_string.simps [of n] digit_char_def is_ascii_digit_def split: if_splits)
qed

lemma parse_uint_nat_to_string: "n \<le> bound \<Longrightarrow> parse_uint bound (nat_to_string n) = Inr n"
proof -
  assume n: "n \<le> bound"
  obtain c t where ct: "nat_to_string n = c # t" by (cases "nat_to_string n") auto
  then have "is_ascii_digit c" using nat_to_string_digits [of c n] by simp
  then have "c \<noteq> CHR ''+'' \<and> c \<noteq> CHR ''-''" by (auto simp: is_ascii_digit_def byte_def)
  with parse_digits_nat_to_string [OF n] ct show ?thesis by (simp add: parse_uint_def)
qed

section \<open>Lines\<close>

text \<open>\<open>str::lines\<close>: a line ends at a line feed, with a carriage return before it dropped.\<close>

fun text_lines :: "string \<Rightarrow> string \<Rightarrow> string list" where
  "text_lines cur [] = (if cur = [] then [] else [cur])"
| "text_lines cur (c # s) =
     (if c = CHR 0x0A
      then (if cur \<noteq> [] \<and> last cur = CHR 0x0D then butlast cur else cur) # text_lines [] s
      else text_lines (cur @ [c]) s)"

lemma text_lines_line: "CHR 0x0A \<notin> set l \<Longrightarrow> last (cur @ l) \<noteq> CHR 0x0D \<Longrightarrow>
   text_lines cur (l @ CHR 0x0A # s) = (cur @ l) # text_lines [] s"
  by (induction l arbitrary: cur) auto

text \<open>Texts made of terminated lines have those lines.\<close>

lemma text_lines_concat:
  "list_all (\<lambda>l. l \<noteq> [] \<and> CHR 0x0A \<notin> set l \<and> last l \<noteq> CHR 0x0D) ls \<Longrightarrow>
     text_lines [] (concat (map (\<lambda>l. l @ [CHR 0x0A]) ls)) = ls"
  by (induction ls) (simp_all add: text_lines_line)

end
