(* ===== verification/Http_Semantics.thy ===== *)
theory Http_Semantics
  imports Rust_Str
begin

text \<open>
  The shared HTTP semantics of \<open>rsproxy-http\<close>: which responses carry a body, which may send
  content, and which fields a trailer section may not hold.
\<close>

definition response_has_framed_body :: "string \<Rightarrow> u16 \<Rightarrow> bool" where
  "response_has_framed_body method status \<longleftrightarrow>
     \<not> eq_ignore_ascii_case method ''HEAD'' \<and>
     \<not> (eq_ignore_ascii_case method ''CONNECT'' \<and> 200 \<le> status \<and> status < 300) \<and>
     \<not> ((100 \<le> status \<and> status \<le> 199) \<or> status = 204 \<or> status = 304)"

definition status_can_send_content :: "u16 \<Rightarrow> bool" where
  "status_can_send_content status \<longleftrightarrow>
     \<not> ((100 \<le> status \<and> status \<le> 199) \<or> status = 204 \<or> status = 205 \<or> status = 304)"

definition response_can_send_content :: "string \<Rightarrow> u16 \<Rightarrow> bool" where
  "response_can_send_content method status \<longleftrightarrow>
     \<not> eq_ignore_ascii_case method ''HEAD'' \<and>
     \<not> (eq_ignore_ascii_case method ''CONNECT'' \<and> 200 \<le> status \<and> status < 300) \<and>
     status_can_send_content status"

definition FORBIDDEN_TRAILERS :: "string list" where
  "FORBIDDEN_TRAILERS =
     [''age'', ''authorization'', ''cache-control'', ''connection'', ''content-encoding'',
      ''content-length'', ''content-range'', ''content-type'', ''date'', ''expect'', ''expires'',
      ''host'', ''keep-alive'', ''location'', ''max-forwards'', ''pragma'', ''proxy-authenticate'',
      ''proxy-authorization'', ''proxy-connection'', ''range'', ''retry-after'', ''te'', ''trailer'',
      ''transfer-encoding'', ''upgrade'', ''vary'', ''warning'', ''www-authenticate'']"

definition is_forbidden_trailer_name :: "string \<Rightarrow> bool" where
  "is_forbidden_trailer_name name = list_ex (eq_ignore_ascii_case name) FORBIDDEN_TRAILERS"

text \<open>
  Content the proxy sends is always framed; the converse fails for status 205 only, whose
  framed bytes a proxy has to consume.
\<close>

lemma sent_content_is_framed:
  "response_can_send_content method status \<longleftrightarrow> response_has_framed_body method status \<and> status \<noteq> 205"
  by (auto simp: response_can_send_content_def response_has_framed_body_def status_can_send_content_def)

end
