(* ===== verification/Rule_Error.thy ===== *)
theory Rule_Error
  imports Http_Semantics
begin

text \<open>
  The errors of the rule crate (\<open>error.rs\<close>) and the limits of the language (\<open>language.rs\<close>).
  A \<open>RuleModelError\<close> keeps its variant, its context and, for integers, the rejected token
  and the cause; the human-facing message texts, whose wording \<open>error.rs\<close> declares unstable,
  are left out.
\<close>

section \<open>Model errors\<close>

datatype rule_model_error =
    EmptyInput string
  | MissingArgument string
  | InvalidSyntax string
  | InvalidInput string
  | UnsupportedInput string
  | ConstraintViolation string
  | LimitExceeded string
  | InvalidInteger string string int_error
  | InvalidFloat string string
  | InvalidRegex string
  | InvalidRegexMatcher
  | InvalidExactUrlMatcher rule_model_error
  | InvalidTemplate string

type_synonym 'a model_result = "rule_model_error + 'a"

text \<open>\<open>str::parse::<u16>\<close> with the error mapped to \<open>RuleModelError::integer\<close>.\<close>

definition parse_u16_or :: "string \<Rightarrow> string \<Rightarrow> u16 model_result" where
  "parse_u16_or ctx input =
     (case parse_u16 input of Inl e \<Rightarrow> Inl (InvalidInteger ctx input e) | Inr n \<Rightarrow> Inr n)"

section \<open>Diagnostics\<close>

datatype rule_error_code = CodeSyntax | CodeMatcher | CodeAction | CodeCondition | CodeProperty

fun rule_error_code_as_str :: "rule_error_code \<Rightarrow> string" where
  "rule_error_code_as_str CodeSyntax = ''syntax''"
| "rule_error_code_as_str CodeMatcher = ''matcher''"
| "rule_error_code_as_str CodeAction = ''action''"
| "rule_error_code_as_str CodeCondition = ''condition''"
| "rule_error_code_as_str CodeProperty = ''property''"

record rule_source_span =
  span_start :: nat
  span_end :: nat

text \<open>
  What a diagnostic reports; the sources carry it as message text. \<open>ModelMessage\<close> is the
  display form of a model error, the others are the fixed messages of \<open>parse_groups\<close>.
\<close>

datatype diagnostic =
    ModelMessage rule_model_error
  | DiagnosticLimitReached
  | GroupNameLength
  | GroupLimit
  | SourceByteLimit
  | LineByteLimit
  | UnsupportedDirective
  | MissingLanguageHeader
  | MisplacedLanguageHeader
  | RuleLimit
  | BudgetLimit nat string

record rule_error =
  err_code :: rule_error_code
  err_group :: string
  err_line :: nat
  err_span :: "rule_source_span option"
  err_message :: diagnostic

section \<open>Limits of the rule language\<close>

definition RULE_LANGUAGE_VERSION :: u16 where "RULE_LANGUAGE_VERSION = 3"
definition RULE_LANGUAGE_HEADER :: string where "RULE_LANGUAGE_HEADER = ''@language 3''"
definition MAX_RULE_SOURCE_LINE_BYTES :: nat where "MAX_RULE_SOURCE_LINE_BYTES = 64 * 1024"
definition MAX_RULE_SNAPSHOT_SOURCE_BYTES :: nat where
  "MAX_RULE_SNAPSHOT_SOURCE_BYTES = 16 * 1024 * 1024"
definition MAX_RULE_GROUP_NAME_BYTES :: nat where "MAX_RULE_GROUP_NAME_BYTES = 128"
definition MAX_RULE_GROUPS_PER_SNAPSHOT :: nat where "MAX_RULE_GROUPS_PER_SNAPSHOT = 1024"
definition MAX_RULES_PER_SNAPSHOT :: nat where "MAX_RULES_PER_SNAPSHOT = 10000"
definition MAX_RULE_DIAGNOSTICS :: nat where "MAX_RULE_DIAGNOSTICS = 256"
definition MAX_RULE_ACTIONS_PER_RULE :: nat where "MAX_RULE_ACTIONS_PER_RULE = 256"
definition MAX_RULE_ACTIONS_PER_SNAPSHOT :: nat where "MAX_RULE_ACTIONS_PER_SNAPSHOT = 100000"
definition MAX_RULE_CONDITION_NODES_PER_RULE :: nat where
  "MAX_RULE_CONDITION_NODES_PER_RULE = 256"
definition MAX_RULE_CONDITION_NODES_PER_SNAPSHOT :: nat where
  "MAX_RULE_CONDITION_NODES_PER_SNAPSHOT = 100000"
definition MAX_RULE_BODY_CONDITIONS_PER_SNAPSHOT :: nat where
  "MAX_RULE_BODY_CONDITIONS_PER_SNAPSHOT = 256"
definition MAX_RULE_PROPERTIES_PER_RULE :: nat where "MAX_RULE_PROPERTIES_PER_RULE = 64"
definition MAX_RULE_CALL_ARGUMENTS :: nat where "MAX_RULE_CALL_ARGUMENTS = 256"
definition MAX_RULE_LINT_COMPARISONS :: nat where "MAX_RULE_LINT_COMPARISONS = 1000000"
definition MAX_RULE_LINT_COMPARISON_BYTES :: nat where
  "MAX_RULE_LINT_COMPARISON_BYTES = 256 * 1024 * 1024"
definition MAX_RULE_LINT_FINDINGS :: nat where "MAX_RULE_LINT_FINDINGS = 10000"
definition MAX_RULE_LINT_REPORT_BYTES :: nat where "MAX_RULE_LINT_REPORT_BYTES = 4 * 1024 * 1024"
definition MAX_RULE_PARSE_NESTING :: nat where "MAX_RULE_PARSE_NESTING = 32"
definition MAX_RULE_GLOB_CAPTURES :: nat where "MAX_RULE_GLOB_CAPTURES = 9"

definition MIN_HTTP_STATUS :: u16 where "MIN_HTTP_STATUS = 100"
definition MAX_HTTP_STATUS :: u16 where "MAX_HTTP_STATUS = 599"
definition MIN_FINAL_HTTP_STATUS :: u16 where "MIN_FINAL_HTTP_STATUS = 200"
definition REDIRECT_STATUSES :: "u16 list" where "REDIRECT_STATUSES = [301, 302, 303, 307, 308]"

definition status_forbids_body :: "u16 \<Rightarrow> bool" where
  "status_forbids_body status \<longleftrightarrow> \<not> status_can_send_content status"

definition is_http_token_byte :: "char \<Rightarrow> bool" where
  "is_http_token_byte c \<longleftrightarrow>
     is_ascii_alphanumeric c \<or>
     c \<in> set [CHR ''!'', CHR ''#'', CHR ''$'', CHR ''%'', CHR ''&'', CHR 0x27, CHR ''*'',
       CHR ''+'', CHR ''-'', CHR ''.'', CHR ''^'', CHR ''_'', CHR 0x60, CHR ''|'', CHR ''~'']"

end
