(* ===== verification/Rule_Action.thy ===== *)
theory Rule_Action
  imports Rule_Error
begin

text \<open>
  The typed actions of the rule engine (\<open>action.rs\<close> and \<open>action/*.rs\<close>) and the table of
  action families (\<open>matcher/action.rs\<close>): names, phases, resolution policies, and the
  64-bit set of families that \<open>skip\<close> actions and the resolver carry. The bit set refines
  sets of families; the interface \<open>family_sets\<close> states that contract.
\<close>

section \<open>Actions\<close>

datatype rule_value = Inline string | File string | Reference string

definition as_inline :: "rule_value \<Rightarrow> string option" where
  "as_inline v = (case v of Inline s \<Rightarrow> Some s | File _ \<Rightarrow> None | Reference _ \<Rightarrow> None)"

definition value_source :: "rule_value \<Rightarrow> string" where
  "value_source v = (case v of Inline s \<Rightarrow> s | File s \<Rightarrow> s | Reference s \<Rightarrow> s)"

definition valid_value_key :: "string \<Rightarrow> bool" where
  "valid_value_key key \<longleftrightarrow>
     key \<noteq> [] \<and> length key \<le> 128 \<and>
     list_all (\<lambda>c. is_ascii_alphanumeric c \<or> c = CHR ''.'' \<or> c = CHR ''_'' \<or> c = CHR ''-'') key"

text \<open>A regular expression is identified by its text and flag, as its \<open>PartialEq\<close> does.\<close>

record regex_replace_pattern =
  rrp_pattern :: string
  rrp_case_insensitive :: bool

datatype header_op =
    HeaderSet string rule_value
  | HeaderRemove string
  | HeaderReplace string regex_replace_pattern string

datatype query_op = QuerySet string rule_value | QueryRemove string

datatype delete_body_path_segment = PathKey string | PathIndex nat

datatype delete_path_segment = SegmentIndex int | SegmentLast

datatype delete_op =
    DelPathname
  | DelPathSegment delete_path_segment
  | DelUrlParams
  | DelUrlParam string
  | DelReqHeader string
  | DelResHeader string
  | DelReqBody
  | DelResBody
  | DelReqBodyPath "delete_body_path_segment list"
  | DelResBodyPath "delete_body_path_segment list"
  | DelReqType
  | DelResType
  | DelReqCharset
  | DelResCharset
  | DelReqCookie string
  | DelResCookie string
  | DelReqCookies
  | DelResCookies
  | DelTrailer string
  | DelTrailers

record cookie_attr =
  attr_name :: string
  attr_value :: "rule_value option"

datatype cookie_op =
    CookieSet string rule_value "cookie_attr list"
  | CookieRemove string

record mock_inline_op =
  mock_status :: "u16 option"
  mock_headers :: "(string \<times> rule_value) list"
  mock_body :: "rule_value option"

record cors_op =
  cors_origin :: rule_value
  cors_methods :: "rule_value option"
  cors_headers :: "rule_value option"
  cors_credentials :: "bool option"
  cors_expose :: "rule_value option"
  cors_max_age :: "rule_value option"

record cache_directive =
  directive_name :: string
  directive_value :: "rule_value option"

datatype cache_op = CacheOff | CacheDirectives "cache_directive list"

datatype tls_min_version = Tls12 | Tls13

datatype tls_cipher_suite =
    Tls13Aes128GcmSha256
  | Tls13Aes256GcmSha384
  | Tls13Chacha20Poly1305Sha256
  | Tls12EcdheEcdsaAes128GcmSha256
  | Tls12EcdheEcdsaAes256GcmSha384
  | Tls12EcdheEcdsaChacha20Poly1305Sha256
  | Tls12EcdheRsaAes128GcmSha256
  | Tls12EcdheRsaAes256GcmSha384
  | Tls12EcdheRsaChacha20Poly1305Sha256

definition is_tls13 :: "tls_cipher_suite \<Rightarrow> bool" where
  "is_tls13 c \<longleftrightarrow>
     c = Tls13Aes128GcmSha256 \<or> c = Tls13Aes256GcmSha384 \<or> c = Tls13Chacha20Poly1305Sha256"

record tls_op =
  tls_client_cert :: "string option"
  tls_client_key :: "string option"
  tls_min :: "tls_min_version option"
  tls_ciphers :: "tls_cipher_suite list"

datatype body_op =
    BodySet rule_value
  | BodyPrepend rule_value
  | BodyAppend rule_value
  | BodyReplace regex_replace_pattern string

datatype inject_target = TargetHtml | TargetJs | TargetCss

datatype inject_mode = ModeAppend | ModePrepend | ModeReplace

record inject_op =
  inject_target :: inject_target
  inject_value :: rule_value
  inject_mode :: inject_mode

datatype url_rewrite_pattern = RewritePlain rule_value | RewriteRegex regex_replace_pattern

datatype phase = Req | Res

text \<open>The family set of a \<open>skip\<close> action is a \<open>u64\<close>, one bit per family (below).\<close>

type_synonym action_family_set = u64

text \<open>
  \<open>Action::Host\<close> carries the addresses of its pool; two pools are equal when their
  addresses are. The shared round-robin cursor of a pool is modelled in \<open>Host_Pool\<close>.
\<close>

datatype action =
    Host "rule_value list"
  | Upstream rule_value
  | Direct
  | Mock rule_value
  | MockRaw rule_value
  | MockInline mock_inline_op
  | Status u16
  | Redirect rule_value u16
  | ReqHeader header_op
  | ResHeader header_op
  | ResStatus u16
  | ReqMethod rule_value
  | ReqCookie cookie_op
  | ResCookie cookie_op
  | ReqUa rule_value
  | ReqReferer rule_value
  | ReqAuth rule_value
  | ReqForwarded rule_value
  | ReqType rule_value
  | ReqCharset rule_value
  | ResCors cors_op
  | ResType rule_value
  | ResCharset rule_value
  | ResMerge rule_value
  | ResTrailer header_op
  | Attachment "rule_value option"
  | Cache cache_op
  | Tls tls_op
  | MapRemote rule_value
  | UrlRewrite url_rewrite_pattern rule_value
  | UrlQuery "query_op list"
  | Delete "delete_op list"
  | ReqBody body_op
  | ResBody body_op
  | Inject inject_op
  | Delay phase u64
  | Throttle phase u64
  | Bypass
  | Hide
  | Tag rule_value
  | Skip action_family_set

section \<open>Action families\<close>

datatype resolution_policy = FirstWins | Stackable

definition REQUEST_PHASES :: "phase list" where "REQUEST_PHASES = [Req]"
definition RESPONSE_PHASES :: "phase list" where "RESPONSE_PHASES = [Res]"
definition BOTH_PHASES :: "phase list" where "BOTH_PHASES = [Req, Res]"

datatype action_family =
    FamHost | FamUpstream | FamDirect | FamMock | FamMapRemote | FamStatus | FamRedirect
  | FamReqHeader | FamResHeader | FamResStatus | FamReqMethod | FamReqCookie | FamResCookie
  | FamReqUa | FamReqReferer | FamReqAuth | FamReqForwarded | FamReqType | FamReqCharset
  | FamResCors | FamResType | FamResCharset | FamResMerge | FamResTrailer | FamAttachment
  | FamCache | FamTls | FamUrlRewrite | FamUrlQuery | FamDelete | FamReqBodySet
  | FamReqBodyPrepend | FamReqBodyAppend | FamReqBodyReplace | FamResBodySet
  | FamResBodyPrepend | FamResBodyAppend | FamResBodyReplace | FamInject | FamDelayReq
  | FamDelayRes | FamThrottleReq | FamThrottleRes | FamBypass | FamHide | FamTag | FamSkip

definition ALL_FAMILIES :: "action_family list" where
  "ALL_FAMILIES = [FamHost, FamUpstream, FamDirect, FamMock, FamMapRemote, FamStatus,
     FamRedirect, FamReqHeader, FamResHeader, FamResStatus, FamReqMethod, FamReqCookie,
     FamResCookie, FamReqUa, FamReqReferer, FamReqAuth, FamReqForwarded, FamReqType,
     FamReqCharset, FamResCors, FamResType, FamResCharset, FamResMerge, FamResTrailer,
     FamAttachment, FamCache, FamTls, FamUrlRewrite, FamUrlQuery, FamDelete, FamReqBodySet,
     FamReqBodyPrepend, FamReqBodyAppend, FamReqBodyReplace, FamResBodySet,
     FamResBodyPrepend, FamResBodyAppend, FamResBodyReplace, FamInject, FamDelayReq,
     FamDelayRes, FamThrottleReq, FamThrottleRes, FamBypass, FamHide, FamTag, FamSkip]"

text \<open>The discriminant of a family, \<open>self as u8\<close>.\<close>

primrec family_index :: "action_family \<Rightarrow> nat" where
  "family_index FamHost = 0"
| "family_index FamUpstream = 1"
| "family_index FamDirect = 2"
| "family_index FamMock = 3"
| "family_index FamMapRemote = 4"
| "family_index FamStatus = 5"
| "family_index FamRedirect = 6"
| "family_index FamReqHeader = 7"
| "family_index FamResHeader = 8"
| "family_index FamResStatus = 9"
| "family_index FamReqMethod = 10"
| "family_index FamReqCookie = 11"
| "family_index FamResCookie = 12"
| "family_index FamReqUa = 13"
| "family_index FamReqReferer = 14"
| "family_index FamReqAuth = 15"
| "family_index FamReqForwarded = 16"
| "family_index FamReqType = 17"
| "family_index FamReqCharset = 18"
| "family_index FamResCors = 19"
| "family_index FamResType = 20"
| "family_index FamResCharset = 21"
| "family_index FamResMerge = 22"
| "family_index FamResTrailer = 23"
| "family_index FamAttachment = 24"
| "family_index FamCache = 25"
| "family_index FamTls = 26"
| "family_index FamUrlRewrite = 27"
| "family_index FamUrlQuery = 28"
| "family_index FamDelete = 29"
| "family_index FamReqBodySet = 30"
| "family_index FamReqBodyPrepend = 31"
| "family_index FamReqBodyAppend = 32"
| "family_index FamReqBodyReplace = 33"
| "family_index FamResBodySet = 34"
| "family_index FamResBodyPrepend = 35"
| "family_index FamResBodyAppend = 36"
| "family_index FamResBodyReplace = 37"
| "family_index FamInject = 38"
| "family_index FamDelayReq = 39"
| "family_index FamDelayRes = 40"
| "family_index FamThrottleReq = 41"
| "family_index FamThrottleRes = 42"
| "family_index FamBypass = 43"
| "family_index FamHide = 44"
| "family_index FamTag = 45"
| "family_index FamSkip = 46"

primrec family_as_str :: "action_family \<Rightarrow> string" where
  "family_as_str FamHost = ''host''"
| "family_as_str FamUpstream = ''upstream''"
| "family_as_str FamDirect = ''direct''"
| "family_as_str FamMock = ''mock''"
| "family_as_str FamMapRemote = ''map.remote''"
| "family_as_str FamStatus = ''status''"
| "family_as_str FamRedirect = ''redirect''"
| "family_as_str FamReqHeader = ''req.header''"
| "family_as_str FamResHeader = ''res.header''"
| "family_as_str FamResStatus = ''res.status''"
| "family_as_str FamReqMethod = ''req.method''"
| "family_as_str FamReqCookie = ''req.cookie''"
| "family_as_str FamResCookie = ''res.cookie''"
| "family_as_str FamReqUa = ''req.ua''"
| "family_as_str FamReqReferer = ''req.referer''"
| "family_as_str FamReqAuth = ''req.auth''"
| "family_as_str FamReqForwarded = ''req.forwarded''"
| "family_as_str FamReqType = ''req.type''"
| "family_as_str FamReqCharset = ''req.charset''"
| "family_as_str FamResCors = ''res.cors''"
| "family_as_str FamResType = ''res.type''"
| "family_as_str FamResCharset = ''res.charset''"
| "family_as_str FamResMerge = ''res.merge''"
| "family_as_str FamResTrailer = ''res.trailer''"
| "family_as_str FamAttachment = ''attachment''"
| "family_as_str FamCache = ''cache''"
| "family_as_str FamTls = ''tls''"
| "family_as_str FamUrlRewrite = ''url.rewrite''"
| "family_as_str FamUrlQuery = ''url.query''"
| "family_as_str FamDelete = ''delete''"
| "family_as_str FamReqBodySet = ''req.body.set''"
| "family_as_str FamReqBodyPrepend = ''req.body.prepend''"
| "family_as_str FamReqBodyAppend = ''req.body.append''"
| "family_as_str FamReqBodyReplace = ''req.body.replace''"
| "family_as_str FamResBodySet = ''res.body.set''"
| "family_as_str FamResBodyPrepend = ''res.body.prepend''"
| "family_as_str FamResBodyAppend = ''res.body.append''"
| "family_as_str FamResBodyReplace = ''res.body.replace''"
| "family_as_str FamInject = ''inject''"
| "family_as_str FamDelayReq = ''delay.req''"
| "family_as_str FamDelayRes = ''delay.res''"
| "family_as_str FamThrottleReq = ''throttle.req''"
| "family_as_str FamThrottleRes = ''throttle.res''"
| "family_as_str FamBypass = ''bypass''"
| "family_as_str FamHide = ''hide''"
| "family_as_str FamTag = ''tag''"
| "family_as_str FamSkip = ''skip''"

primrec family_phases :: "action_family \<Rightarrow> phase list" where
  "family_phases FamHost = REQUEST_PHASES"
| "family_phases FamUpstream = REQUEST_PHASES"
| "family_phases FamDirect = REQUEST_PHASES"
| "family_phases FamMock = REQUEST_PHASES"
| "family_phases FamMapRemote = REQUEST_PHASES"
| "family_phases FamStatus = REQUEST_PHASES"
| "family_phases FamRedirect = REQUEST_PHASES"
| "family_phases FamReqHeader = REQUEST_PHASES"
| "family_phases FamResHeader = RESPONSE_PHASES"
| "family_phases FamResStatus = RESPONSE_PHASES"
| "family_phases FamReqMethod = REQUEST_PHASES"
| "family_phases FamReqCookie = REQUEST_PHASES"
| "family_phases FamResCookie = RESPONSE_PHASES"
| "family_phases FamReqUa = REQUEST_PHASES"
| "family_phases FamReqReferer = REQUEST_PHASES"
| "family_phases FamReqAuth = REQUEST_PHASES"
| "family_phases FamReqForwarded = REQUEST_PHASES"
| "family_phases FamReqType = REQUEST_PHASES"
| "family_phases FamReqCharset = REQUEST_PHASES"
| "family_phases FamResCors = RESPONSE_PHASES"
| "family_phases FamResType = RESPONSE_PHASES"
| "family_phases FamResCharset = RESPONSE_PHASES"
| "family_phases FamResMerge = RESPONSE_PHASES"
| "family_phases FamResTrailer = RESPONSE_PHASES"
| "family_phases FamAttachment = RESPONSE_PHASES"
| "family_phases FamCache = RESPONSE_PHASES"
| "family_phases FamTls = REQUEST_PHASES"
| "family_phases FamUrlRewrite = REQUEST_PHASES"
| "family_phases FamUrlQuery = REQUEST_PHASES"
| "family_phases FamDelete = BOTH_PHASES"
| "family_phases FamReqBodySet = REQUEST_PHASES"
| "family_phases FamReqBodyPrepend = REQUEST_PHASES"
| "family_phases FamReqBodyAppend = REQUEST_PHASES"
| "family_phases FamReqBodyReplace = REQUEST_PHASES"
| "family_phases FamResBodySet = RESPONSE_PHASES"
| "family_phases FamResBodyPrepend = RESPONSE_PHASES"
| "family_phases FamResBodyAppend = RESPONSE_PHASES"
| "family_phases FamResBodyReplace = RESPONSE_PHASES"
| "family_phases FamInject = RESPONSE_PHASES"
| "family_phases FamDelayReq = REQUEST_PHASES"
| "family_phases FamDelayRes = RESPONSE_PHASES"
| "family_phases FamThrottleReq = REQUEST_PHASES"
| "family_phases FamThrottleRes = RESPONSE_PHASES"
| "family_phases FamBypass = REQUEST_PHASES"
| "family_phases FamHide = BOTH_PHASES"
| "family_phases FamTag = BOTH_PHASES"
| "family_phases FamSkip = BOTH_PHASES"

primrec family_resolution :: "action_family \<Rightarrow> resolution_policy" where
  "family_resolution FamHost = FirstWins"
| "family_resolution FamUpstream = FirstWins"
| "family_resolution FamDirect = FirstWins"
| "family_resolution FamMock = FirstWins"
| "family_resolution FamMapRemote = FirstWins"
| "family_resolution FamStatus = FirstWins"
| "family_resolution FamRedirect = FirstWins"
| "family_resolution FamReqHeader = Stackable"
| "family_resolution FamResHeader = Stackable"
| "family_resolution FamResStatus = FirstWins"
| "family_resolution FamReqMethod = FirstWins"
| "family_resolution FamReqCookie = Stackable"
| "family_resolution FamResCookie = Stackable"
| "family_resolution FamReqUa = FirstWins"
| "family_resolution FamReqReferer = FirstWins"
| "family_resolution FamReqAuth = FirstWins"
| "family_resolution FamReqForwarded = FirstWins"
| "family_resolution FamReqType = FirstWins"
| "family_resolution FamReqCharset = FirstWins"
| "family_resolution FamResCors = FirstWins"
| "family_resolution FamResType = FirstWins"
| "family_resolution FamResCharset = FirstWins"
| "family_resolution FamResMerge = Stackable"
| "family_resolution FamResTrailer = Stackable"
| "family_resolution FamAttachment = FirstWins"
| "family_resolution FamCache = FirstWins"
| "family_resolution FamTls = FirstWins"
| "family_resolution FamUrlRewrite = FirstWins"
| "family_resolution FamUrlQuery = Stackable"
| "family_resolution FamDelete = Stackable"
| "family_resolution FamReqBodySet = Stackable"
| "family_resolution FamReqBodyPrepend = Stackable"
| "family_resolution FamReqBodyAppend = Stackable"
| "family_resolution FamReqBodyReplace = Stackable"
| "family_resolution FamResBodySet = Stackable"
| "family_resolution FamResBodyPrepend = Stackable"
| "family_resolution FamResBodyAppend = Stackable"
| "family_resolution FamResBodyReplace = Stackable"
| "family_resolution FamInject = Stackable"
| "family_resolution FamDelayReq = FirstWins"
| "family_resolution FamDelayRes = FirstWins"
| "family_resolution FamThrottleReq = FirstWins"
| "family_resolution FamThrottleRes = FirstWins"
| "family_resolution FamBypass = FirstWins"
| "family_resolution FamHide = FirstWins"
| "family_resolution FamTag = Stackable"
| "family_resolution FamSkip = Stackable"

text \<open>\<open>ActionFamily::from_name\<close> matches the name against the table, first hit first.\<close>

definition family_from_name :: "string \<Rightarrow> action_family option" where
  "family_from_name name = find (\<lambda>f. family_as_str f = name) ALL_FAMILIES"

definition family_bit :: "action_family \<Rightarrow> u64" where
  "family_bit f = push_bit (family_index f) 1"

definition FS_EMPTY :: action_family_set where
  "FS_EMPTY = 0"

definition FS_ALL :: action_family_set where
  "FS_ALL =
     (if length ALL_FAMILIES = 64 then - 1 else push_bit (length ALL_FAMILIES) 1 - 1)"

definition fs_contains :: "action_family_set \<Rightarrow> action_family \<Rightarrow> bool" where
  "fs_contains s f \<longleftrightarrow> and s (family_bit f) \<noteq> 0"

definition fs_insert :: "action_family_set \<Rightarrow> action_family \<Rightarrow> action_family_set" where
  "fs_insert s f = or s (family_bit f)"

definition fs_is_empty :: "action_family_set \<Rightarrow> bool" where
  "fs_is_empty s \<longleftrightarrow> s = 0"

definition fs_union :: "action_family_set \<Rightarrow> action_family_set \<Rightarrow> action_family_set" where
  "fs_union s t = or s t"

definition fs_iter :: "action_family_set \<Rightarrow> action_family list" where
  "fs_iter s = filter (fs_contains s) ALL_FAMILIES"

definition fs_from_iter :: "action_family list \<Rightarrow> action_family_set" where
  "fs_from_iter families = foldl fs_insert FS_EMPTY families"

definition family_within :: "string \<Rightarrow> string \<Rightarrow> bool" where
  "family_within family pre =
     (case strip_prefix family pre of
        None \<Rightarrow> False
      | Some rest \<Rightarrow> rest = [] \<or> starts_with rest ''.'')"

definition fs_from_prefix :: "string \<Rightarrow> action_family_set option" where
  "fs_from_prefix pre =
     (if pre = ''all'' \<or> pre = ''*'' then Some FS_ALL
      else
        (let set = foldl (\<lambda>s f. if family_within (family_as_str f) pre then fs_insert s f else s)
                     FS_EMPTY ALL_FAMILIES
         in if fs_is_empty set then None else Some set))"

text \<open>The family of an action.\<close>

fun family_of :: "action \<Rightarrow> action_family" where
  "family_of (Host _) = FamHost"
| "family_of (Upstream _) = FamUpstream"
| "family_of Direct = FamDirect"
| "family_of (Mock _) = FamMock"
| "family_of (MockRaw _) = FamMock"
| "family_of (MockInline _) = FamMock"
| "family_of (MapRemote _) = FamMapRemote"
| "family_of (Status _) = FamStatus"
| "family_of (Redirect _ _) = FamRedirect"
| "family_of (ReqHeader _) = FamReqHeader"
| "family_of (ResHeader _) = FamResHeader"
| "family_of (ResStatus _) = FamResStatus"
| "family_of (ReqMethod _) = FamReqMethod"
| "family_of (ReqCookie _) = FamReqCookie"
| "family_of (ResCookie _) = FamResCookie"
| "family_of (ReqUa _) = FamReqUa"
| "family_of (ReqReferer _) = FamReqReferer"
| "family_of (ReqAuth _) = FamReqAuth"
| "family_of (ReqForwarded _) = FamReqForwarded"
| "family_of (ReqType _) = FamReqType"
| "family_of (ReqCharset _) = FamReqCharset"
| "family_of (ResCors _) = FamResCors"
| "family_of (ResType _) = FamResType"
| "family_of (ResCharset _) = FamResCharset"
| "family_of (ResMerge _) = FamResMerge"
| "family_of (ResTrailer _) = FamResTrailer"
| "family_of (Attachment _) = FamAttachment"
| "family_of (Cache _) = FamCache"
| "family_of (Tls _) = FamTls"
| "family_of (UrlRewrite _ _) = FamUrlRewrite"
| "family_of (UrlQuery _) = FamUrlQuery"
| "family_of (Delete _) = FamDelete"
| "family_of (ReqBody (BodySet _)) = FamReqBodySet"
| "family_of (ReqBody (BodyPrepend _)) = FamReqBodyPrepend"
| "family_of (ReqBody (BodyAppend _)) = FamReqBodyAppend"
| "family_of (ReqBody (BodyReplace _ _)) = FamReqBodyReplace"
| "family_of (ResBody (BodySet _)) = FamResBodySet"
| "family_of (ResBody (BodyPrepend _)) = FamResBodyPrepend"
| "family_of (ResBody (BodyAppend _)) = FamResBodyAppend"
| "family_of (ResBody (BodyReplace _ _)) = FamResBodyReplace"
| "family_of (Inject _) = FamInject"
| "family_of (Delay Req _) = FamDelayReq"
| "family_of (Delay Res _) = FamDelayRes"
| "family_of (Throttle Req _) = FamThrottleReq"
| "family_of (Throttle Res _) = FamThrottleRes"
| "family_of Bypass = FamBypass"
| "family_of Hide = FamHide"
| "family_of (Tag _) = FamTag"
| "family_of (Skip _) = FamSkip"

definition is_stackable :: "action \<Rightarrow> bool" where
  "is_stackable a \<longleftrightarrow> family_resolution (family_of a) = Stackable"

definition is_single :: "action \<Rightarrow> bool" where
  "is_single a \<longleftrightarrow> \<not> is_stackable a"

fun delete_operation_applies_in :: "delete_op \<Rightarrow> phase \<Rightarrow> bool" where
  "delete_operation_applies_in DelPathname ph = (ph = Req)"
| "delete_operation_applies_in (DelPathSegment _) ph = (ph = Req)"
| "delete_operation_applies_in DelUrlParams ph = (ph = Req)"
| "delete_operation_applies_in (DelUrlParam _) ph = (ph = Req)"
| "delete_operation_applies_in (DelReqHeader _) ph = (ph = Req)"
| "delete_operation_applies_in DelReqBody ph = (ph = Req)"
| "delete_operation_applies_in (DelReqBodyPath _) ph = (ph = Req)"
| "delete_operation_applies_in DelReqType ph = (ph = Req)"
| "delete_operation_applies_in DelReqCharset ph = (ph = Req)"
| "delete_operation_applies_in (DelReqCookie _) ph = (ph = Req)"
| "delete_operation_applies_in DelReqCookies ph = (ph = Req)"
| "delete_operation_applies_in (DelResHeader _) ph = (ph = Res)"
| "delete_operation_applies_in DelResBody ph = (ph = Res)"
| "delete_operation_applies_in (DelResBodyPath _) ph = (ph = Res)"
| "delete_operation_applies_in DelResType ph = (ph = Res)"
| "delete_operation_applies_in DelResCharset ph = (ph = Res)"
| "delete_operation_applies_in (DelResCookie _) ph = (ph = Res)"
| "delete_operation_applies_in DelResCookies ph = (ph = Res)"
| "delete_operation_applies_in (DelTrailer _) ph = (ph = Res)"
| "delete_operation_applies_in DelTrailers ph = (ph = Res)"

definition applies_in :: "action \<Rightarrow> phase \<Rightarrow> bool" where
  "applies_in a ph =
     (case a of
        Delete operations \<Rightarrow> list_ex (\<lambda>op. delete_operation_applies_in op ph) operations
      | _ \<Rightarrow> ph \<in> set (family_phases (family_of a)))"

definition family_is_stackable :: "action_family \<Rightarrow> bool" where
  "family_is_stackable f \<longleftrightarrow> family_resolution f = Stackable"

definition family_applies_in :: "action_family \<Rightarrow> phase \<Rightarrow> bool" where
  "family_applies_in f ph \<longleftrightarrow> ph \<in> set (family_phases f)"

definition STACKABLE_FAMILIES :: "action_family list" where
  "STACKABLE_FAMILIES =
     [FamReqHeader, FamResHeader, FamReqCookie, FamResCookie, FamResMerge, FamResTrailer,
      FamUrlQuery, FamDelete, FamReqBodySet, FamReqBodyPrepend, FamReqBodyAppend,
      FamReqBodyReplace, FamResBodySet, FamResBodyPrepend, FamResBodyAppend, FamResBodyReplace,
      FamInject, FamTag, FamSkip]"

section \<open>Skip state\<close>

text \<open>\<open>SkipState\<close> is the set of families that earlier \<open>skip\<close> actions suppress.\<close>

definition skip_suppresses :: "action_family_set \<Rightarrow> action_family \<Rightarrow> bool" where
  "skip_suppresses skip f = fs_contains skip f"

definition skip_observe :: "action_family_set \<Rightarrow> action \<Rightarrow> action_family_set" where
  "skip_observe skip a =
     (case a of
        Skip families \<Rightarrow> if fs_is_empty families then FS_ALL else fs_union skip families
      | _ \<Rightarrow> skip)"

unbundle bit_operations_syntax

section \<open>The family table\<close>

lemma set_ALL_FAMILIES: "f \<in> set ALL_FAMILIES"
  unfolding ALL_FAMILIES_def by (cases f) simp_all

lemma family_index_nth: "ALL_FAMILIES ! family_index f = f"
  unfolding ALL_FAMILIES_def by (cases f) simp_all

lemma length_ALL_FAMILIES: "length ALL_FAMILIES = 47"
  by (simp add: ALL_FAMILIES_def)

lemma family_index_less: "family_index f < 47"
  by (cases f) simp_all

lemma family_index_inject: "family_index f = family_index g \<longleftrightarrow> f = g"
  by (metis family_index_nth)

lemma distinct_ALL_FAMILIES: "distinct ALL_FAMILIES"
  by code_simp

lemma map_index_ALL_FAMILIES: "map family_index ALL_FAMILIES = [0..<47]"
  by code_simp

lemma distinct_family_names: "distinct (map family_as_str ALL_FAMILIES)"
  by code_simp

lemma family_as_str_inject: "family_as_str f = family_as_str g \<longleftrightarrow> f = g"
  using distinct_family_names set_ALL_FAMILIES by (auto simp: distinct_map inj_on_def)

text \<open>
  \<open>ActionFamily::from_name\<close> inverts \<open>ActionFamily::as_str\<close>: a name is accepted exactly when
  it is the name of a family, and then gives that family; no two families share a name.
\<close>

lemma family_from_name_iff: "family_from_name name = Some f \<longleftrightarrow> family_as_str f = name"
proof
  assume "family_from_name name = Some f"
  then show "family_as_str f = name"
    by (auto simp: family_from_name_def find_Some_iff)
next
  assume *: "family_as_str f = name"
  have "find (\<lambda>g. family_as_str g = name) ALL_FAMILIES \<noteq> None"
    using * set_ALL_FAMILIES [of f] by (auto simp: find_None_iff)
  then obtain g where "find (\<lambda>g. family_as_str g = name) ALL_FAMILIES = Some g" by auto
  moreover from this have "g = f"
    using * by (auto simp: find_Some_iff family_as_str_inject)
  ultimately show "family_from_name name = Some f" by (simp add: family_from_name_def)
qed

lemma stackable_table:
  "f \<in> set STACKABLE_FAMILIES \<longleftrightarrow> family_is_stackable f"
  unfolding STACKABLE_FAMILIES_def family_is_stackable_def by (cases f) simp_all

lemma bit_family_bit: "bit (family_bit f) n \<longleftrightarrow> n = family_index f"
  using family_index_less [of f] by (auto simp: family_bit_def bit_simps)

lemma fs_contains_bit: "fs_contains s f \<longleftrightarrow> bit s (family_index f)"
proof -
  have "fs_contains s f \<longleftrightarrow> (\<exists>n. bit (s AND family_bit f) n)"
    using bit_eq_iff [of "s AND family_bit f" 0] by (auto simp: fs_contains_def)
  then show ?thesis by (simp add: bit_and_iff bit_family_bit)
qed

lemma FS_ALL_mask: "FS_ALL = mask 47"
  by (simp add: FS_ALL_def length_ALL_FAMILIES mask_eq_exp_minus_1 push_bit_eq_mult)

text \<open>A set is well formed when it has no bit beyond the table.\<close>

definition fs_wf :: "action_family_set \<Rightarrow> bool" where
  "fs_wf s \<longleftrightarrow> s AND NOT FS_ALL = 0"

definition fs_abs :: "action_family_set \<Rightarrow> action_family set" where
  "fs_abs s = {f. fs_contains s f}"

lemma fs_wf_bits: "fs_wf s \<longleftrightarrow> (\<forall>n. bit s n \<longrightarrow> n < 47)"
proof -
  have "fs_wf s \<longleftrightarrow> (\<forall>n. \<not> bit (s AND NOT FS_ALL) n)"
    unfolding fs_wf_def using bit_eq_iff [of "s AND NOT FS_ALL" 0] by auto
  also have "\<dots> \<longleftrightarrow> (\<forall>n. bit s n \<longrightarrow> n < 47)"
    using bit_imp_le_length [of s] by (auto simp: FS_ALL_mask bit_simps)
  finally show ?thesis .
qed

lemma fs_abs_inject:
  assumes "fs_wf s" "fs_wf t" "fs_abs s = fs_abs t"
  shows "s = t"
proof (rule bit_word_eqI)
  fix n
  show "bit s n \<longleftrightarrow> bit t n"
  proof (cases "n < 47")
    case True
    then have "n = family_index (ALL_FAMILIES ! n)"
      using map_index_ALL_FAMILIES by (metis add_0 length_ALL_FAMILIES nth_map nth_upt)
    then show ?thesis
      using assms(3) by (metis fs_abs_def fs_contains_bit mem_Collect_eq)
  next
    case False
    then show ?thesis using assms by (auto simp: fs_wf_bits)
  qed
qed

section \<open>Sets of families as an interface\<close>

locale family_sets =
  fixes wf :: "'s \<Rightarrow> bool" and elems :: "'s \<Rightarrow> 'f set"
    and empty :: 's and full :: 's
    and mem :: "'s \<Rightarrow> 'f \<Rightarrow> bool" and ins :: "'s \<Rightarrow> 'f \<Rightarrow> 's"
    and un :: "'s \<Rightarrow> 's \<Rightarrow> 's" and is_empty :: "'s \<Rightarrow> bool"
  assumes wf_empty: "wf empty" and elems_empty: "elems empty = {}"
    and wf_full: "wf full" and elems_full: "elems full = UNIV"
    and mem_iff: "mem s f \<longleftrightarrow> f \<in> elems s"
    and wf_ins: "wf s \<Longrightarrow> wf (ins s f)" and elems_ins: "elems (ins s f) = insert f (elems s)"
    and wf_un: "wf s \<Longrightarrow> wf t \<Longrightarrow> wf (un s t)" and elems_un: "elems (un s t) = elems s \<union> elems t"
    and is_empty_iff: "wf s \<Longrightarrow> is_empty s \<longleftrightarrow> elems s = {}"
begin

lemma foldl_ins:
  "wf s \<Longrightarrow> wf (foldl ins s fs) \<and> elems (foldl ins s fs) = elems s \<union> set fs"
  by (induction fs arbitrary: s) (auto simp: wf_ins elems_ins)

lemma foldl_ins_if:
  "wf s \<Longrightarrow> wf (foldl (\<lambda>s f. if P f then ins s f else s) s fs) \<and>
     elems (foldl (\<lambda>s f. if P f then ins s f else s) s fs) = elems s \<union> {f \<in> set fs. P f}"
  by (induction fs arbitrary: s) (auto simp: wf_ins elems_ins)

text \<open>Suppression only grows: observing a set, the whole set when it is empty.\<close>

definition observe :: "'s \<Rightarrow> 's \<Rightarrow> 's" where
  "observe skip s = (if is_empty s then full else un skip s)"

lemma elems_observe:
  "wf s \<Longrightarrow> elems (observe skip s) = (if elems s = {} then UNIV else elems skip \<union> elems s)"
  by (simp add: observe_def is_empty_iff elems_full elems_un)

lemma wf_observe: "wf skip \<Longrightarrow> wf s \<Longrightarrow> wf (observe skip s)"
  by (simp add: observe_def wf_full wf_un)

lemma observe_mono: "wf s \<Longrightarrow> mem skip f \<Longrightarrow> mem (observe skip s) f"
  by (auto simp: mem_iff elems_observe)

end

interpretation fs: family_sets fs_wf fs_abs FS_EMPTY FS_ALL fs_contains fs_insert fs_union fs_is_empty
proof (unfold_locales, goal_cases)
  case 1 then show ?case by (simp add: FS_EMPTY_def fs_wf_def)
next
  case 2 then show ?case by (simp add: FS_EMPTY_def fs_abs_def fs_contains_bit)
next
  case 3 then show ?case by (simp add: fs_wf_def)
next
  case 4 then show ?case by (auto simp: fs_abs_def fs_contains_bit FS_ALL_mask bit_simps
    intro: less_le_trans family_index_less)
next
  case (5 s f) then show ?case by (simp add: fs_abs_def)
next
  case (6 s f) then show ?case
    using family_index_less by (auto simp: fs_wf_bits fs_insert_def bit_or_iff bit_family_bit)
next
  case (7 s f) then show ?case
    by (auto simp: fs_abs_def fs_contains_bit fs_insert_def bit_or_iff bit_family_bit family_index_inject)
next
  case (8 s t) then show ?case by (auto simp: fs_wf_bits fs_union_def bit_or_iff)
next
  case (9 s t) then show ?case by (auto simp: fs_abs_def fs_contains_bit fs_union_def bit_or_iff)
next
  case (10 s)
  have "s = 0 \<longleftrightarrow> fs_abs s = fs_abs 0"
    using fs_abs_inject [OF 10, of 0] by (auto simp: fs_wf_def)
  then show ?case by (simp add: fs_is_empty_def fs_abs_def fs_contains_bit)
qed

lemma skip_observe_alt:
  "skip_observe skip a = (case a of Skip families \<Rightarrow> fs.observe skip families | _ \<Rightarrow> skip)"
  by (simp add: skip_observe_def fs.observe_def split: action.splits)

text \<open>
  Collecting families into the bit set and iterating it back gives exactly the collected
  families, each once, and the set is empty exactly when nothing was collected.
\<close>

theorem fs_iter_from_iter:
  "set (fs_iter (fs_from_iter families)) = set families \<and>
   distinct (fs_iter (fs_from_iter families)) \<and>
   (fs_is_empty (fs_from_iter families) \<longleftrightarrow> families = [])"
proof -
  have wf: "fs_wf (fs_from_iter families)" and el: "fs_abs (fs_from_iter families) = set families"
    using fs.foldl_ins [OF fs.wf_empty, of families]
    by (simp_all add: fs_from_iter_def fs.elems_empty)
  show ?thesis
    using el fs.is_empty_iff [OF wf] set_ALL_FAMILIES
    by (auto simp: fs_iter_def fs.mem_iff distinct_ALL_FAMILIES)
qed

lemma family_within_iff:
  "family_within family pre \<longleftrightarrow> family = pre \<or> (\<exists>child. family = pre @ ''.'' @ child)"
proof (cases "strip_prefix family pre")
  case None
  then have "\<forall>t. family \<noteq> pre @ t" by (simp add: strip_prefix_None_iff)
  with None show ?thesis by (auto simp: family_within_def dest: spec [of _ "[]"])
next
  case (Some rest)
  then show ?thesis
    by (auto simp: family_within_def strip_prefix_Some_iff starts_with_iff)
qed

text \<open>
  \<open>ActionFamilySet::from_prefix\<close> accepts a prefix exactly when it is \<open>all\<close>, \<open>*\<close>, or some family is
  named by the prefix or lies below it at a dot, and then gives exactly those families (all
  of them for the two wildcards) as a well-formed non-empty set.
\<close>

theorem fs_from_prefix_spec:
  "(case fs_from_prefix pre of
      Some s \<Rightarrow> fs_wf s \<and> s \<noteq> 0 \<and>
        (\<forall>f. fs_contains s f \<longleftrightarrow>
           pre = ''all'' \<or> pre = ''*'' \<or> family_as_str f = pre \<or>
           (\<exists>child. family_as_str f = pre @ ''.'' @ child))
    | None \<Rightarrow> \<forall>f. family_as_str f \<noteq> pre \<and> (\<forall>child. family_as_str f \<noteq> pre @ ''.'' @ child))"
proof (cases "pre = ''all'' \<or> pre = ''*''")
  case True
  then have "fs_from_prefix pre = Some FS_ALL" by (auto simp: fs_from_prefix_def)
  moreover have "FS_ALL \<noteq> 0" by (simp add: FS_ALL_mask mask_eq_exp_minus_1)
  ultimately show ?thesis
    using True fs.wf_full fs.elems_full by (auto simp: fs.mem_iff)
next
  case False
  define s where "s = foldl (\<lambda>s f. if family_within (family_as_str f) pre then fs_insert s f else s)
    FS_EMPTY ALL_FAMILIES"
  have s: "fs_wf s" "\<And>f. fs_contains s f \<longleftrightarrow> family_within (family_as_str f) pre"
    using fs.foldl_ins_if [OF fs.wf_empty, where P = "\<lambda>f. family_within (family_as_str f) pre"
        and fs = ALL_FAMILIES] set_ALL_FAMILIES
    by (auto simp: s_def fs.elems_empty fs.mem_iff)
  have "fs_from_prefix pre = (if s = 0 then None else Some s)"
    using False by (auto simp: fs_from_prefix_def s_def fs_is_empty_def)
  moreover have "s = 0 \<longleftrightarrow> (\<forall>f. \<not> family_within (family_as_str f) pre)"
    using s fs.is_empty_iff [of s] by (auto simp: fs_is_empty_def fs.mem_iff)
  ultimately show ?thesis
    using s False by (auto simp: family_within_iff)
qed

end
