(* ===== verification/Utf8.thy ===== *)
theory Utf8
  imports Rust_Str
begin

text \<open>
  UTF-8 decoding of the Rust standard library on byte strings: the length of the valid or
  invalid chunk a text starts with, \<open>String::from_utf8\<close> (does every chunk decode) and
  \<open>String::from_utf8_lossy\<close> (every maximal invalid chunk becomes U+FFFD).
\<close>

definition is_continuation :: "char \<Rightarrow> bool" where
  "is_continuation c \<longleftrightarrow> 128 \<le> byte c \<and> byte c \<le> 191"

definition second_byte_ok :: "nat \<Rightarrow> nat \<Rightarrow> bool" where
  "second_byte_ok a b \<longleftrightarrow>
     (if a = 224 then 160 \<le> b \<and> b \<le> 191
      else if a = 237 then 128 \<le> b \<and> b \<le> 159
      else if a = 240 then 144 \<le> b \<and> b \<le> 191
      else if a = 244 then 128 \<le> b \<and> b \<le> 143
      else 128 \<le> b \<and> b \<le> 191)"

definition utf8_width :: "nat \<Rightarrow> nat" where
  "utf8_width a =
     (if a < 128 then 1 else if 194 \<le> a \<and> a \<le> 223 then 2
      else if 224 \<le> a \<and> a \<le> 239 then 3 else if 240 \<le> a \<and> a \<le> 244 then 4 else 0)"

text \<open>The chunk a non-empty text starts with: whether it is a character, and its length.\<close>

definition utf8_chunk :: "string \<Rightarrow> bool \<times> nat" where
  "utf8_chunk s =
     (case s of
        [] \<Rightarrow> (False, 1)
      | c # t \<Rightarrow>
          (let a = byte c; w = utf8_width a in
           if w = 0 then (False, 1)
           else if w = 1 then (True, 1)
           else if t = [] \<or> \<not> second_byte_ok a (byte (hd t)) then (False, 1)
           else
             (let good = Suc (length (takeWhile is_continuation (take (w - 1) t))) in
              (good = w, good))))"

lemma utf8_chunk_pos: "0 < snd (utf8_chunk s)"
  by (auto simp: utf8_chunk_def Let_def split: list.splits)

function utf8_valid :: "string \<Rightarrow> bool" where
  "utf8_valid s \<longleftrightarrow>
     (if s = [] then True
      else fst (utf8_chunk s) \<and> utf8_valid (drop (snd (utf8_chunk s)) s))"
  by pat_completeness auto
termination by (relation "measure length") (auto simp: utf8_chunk_pos)

function utf8_lossy :: "string \<Rightarrow> string" where
  "utf8_lossy s =
     (if s = [] then []
      else
        (let (ok, n) = utf8_chunk s in
         (if ok then take n s else [CHR 0xEF, CHR 0xBF, CHR 0xBD]) @ utf8_lossy (drop n s)))"
  by pat_completeness auto
termination
proof (relation "measure length")
  fix s :: string and x ok n
  assume "s \<noteq> []" "x = utf8_chunk s" "(ok, n) = x"
  then show "(drop n s, s) \<in> measure length"
    using utf8_chunk_pos [of s] by (metis diff_less in_measure length_drop length_greater_0_conv snd_conv)
qed simp

declare utf8_valid.simps [simp del] utf8_lossy.simps [simp del]

lemma utf8_lossy_valid: "utf8_valid s \<Longrightarrow> utf8_lossy s = s"
proof (induction s rule: utf8_valid.induct)
  case (1 s)
  show ?case
  proof (cases "s = []")
    case True
    then show ?thesis by (simp add: utf8_lossy.simps)
  next
    case False
    with "1.prems" have "fst (utf8_chunk s)" "utf8_valid (drop (snd (utf8_chunk s)) s)"
      by (simp_all add: utf8_valid.simps [of s])
    with False 1 show ?thesis
      by (subst utf8_lossy.simps) (simp add: case_prod_unfold Let_def)
  qed
qed

end
