(* ===== verification/Rust_F64.thy ===== *)
theory Rust_F64
  imports Rust_Str
begin

text \<open>
  The part of \<open>f64\<close> the rule parser uses: \<open>str::parse::<f64>\<close>, multiplication, comparison,
  \<open>round\<close> and the saturating cast to an integer. A finite number is its sign and the fraction
  of its magnitude, whose denominator is a power of two; every operation computes the exact
  fraction and rounds it to the nearest binary64 number, ties to even.
\<close>

section \<open>Rounding to binary64\<close>

fun bit_length :: "nat \<Rightarrow> nat" where
  "bit_length n = (if n = 0 then 0 else Suc (bit_length (n div 2)))"

declare bit_length.simps [simp del]

definition div_half_even :: "nat \<Rightarrow> nat \<Rightarrow> nat" where
  "div_half_even n d =
     (let q = n div d; r = n mod d in
      if 2 * r < d then q else if d < 2 * r then Suc q else if even q then q else Suc q)"

text \<open>The exponent \<open>e\<close> with \<open>2\<^sup>e \<le> n / d < 2\<^sup>(\<^sup>e\<^sup>+\<^sup>1\<^sup>)\<close>, for positive \<open>n\<close> and \<open>d\<close>.\<close>

definition ge_pow2 :: "nat \<Rightarrow> nat \<Rightarrow> int \<Rightarrow> bool" where
  "ge_pow2 n d e = (if 0 \<le> e then d * 2 ^ nat e \<le> n else d \<le> n * 2 ^ nat (- e))"

definition binary_exponent :: "nat \<Rightarrow> nat \<Rightarrow> int" where
  "binary_exponent n d =
     (let a = int (bit_length n) - int (bit_length d) in if ge_pow2 n d a then a else a - 1)"

text \<open>The fraction of the nearest number with 53 significant bits and exponents from \<open>-1074\<close>.\<close>

definition round_frac :: "nat \<Rightarrow> nat \<Rightarrow> nat \<times> nat" where
  "round_frac n d =
     (if n = 0 then (0, 1)
      else
        (let k = max (binary_exponent n d - 52) (- 1074) in
         if 0 \<le> k then (div_half_even n (d * 2 ^ nat k) * 2 ^ nat k, 1)
         else (div_half_even (n * 2 ^ nat (- k)) d, 2 ^ nat (- k))))"

datatype f64 = NaN bool | Inf bool | Fin bool nat nat

definition f64_of_frac :: "bool \<Rightarrow> nat \<Rightarrow> nat \<Rightarrow> f64" where
  "f64_of_frac neg n d =
     (let (m, b) = round_frac n d in if 2 ^ 1024 * b \<le> m then Inf neg else Fin neg m b)"

section \<open>Operations\<close>

definition f64_of_nat :: "nat \<Rightarrow> f64" where
  "f64_of_nat n = f64_of_frac False n 1"

fun f64_mul :: "f64 \<Rightarrow> f64 \<Rightarrow> f64" where
  "f64_mul (NaN s) y = NaN s"
| "f64_mul x (NaN s) = NaN s"
| "f64_mul (Inf s) (Inf t) = Inf (s \<noteq> t)"
| "f64_mul (Inf s) (Fin t n d) = (if n = 0 then NaN (s \<noteq> t) else Inf (s \<noteq> t))"
| "f64_mul (Fin s n d) (Inf t) = (if n = 0 then NaN (s \<noteq> t) else Inf (s \<noteq> t))"
| "f64_mul (Fin s n d) (Fin t m b) = f64_of_frac (s \<noteq> t) (n * m) (d * b)"

fun is_finite :: "f64 \<Rightarrow> bool" where
  "is_finite (Fin _ _ _) = True"
| "is_finite _ = False"

fun is_sign_negative :: "f64 \<Rightarrow> bool" where
  "is_sign_negative (NaN s) = s"
| "is_sign_negative (Inf s) = s"
| "is_sign_negative (Fin s _ _) = s"

text \<open>Comparison with a non-negative fraction \<open>n / d\<close>.\<close>

fun f64_ge_frac :: "f64 \<Rightarrow> nat \<Rightarrow> nat \<Rightarrow> bool" where
  "f64_ge_frac (NaN _) n d = False"
| "f64_ge_frac (Inf s) n d = (\<not> s)"
| "f64_ge_frac (Fin s m b) n d = (if s \<and> m \<noteq> 0 then False else n * b \<le> m * d)"

fun f64_le_frac :: "f64 \<Rightarrow> nat \<Rightarrow> nat \<Rightarrow> bool" where
  "f64_le_frac (NaN _) n d = False"
| "f64_le_frac (Inf s) n d = s"
| "f64_le_frac (Fin s m b) n d = (s \<and> m \<noteq> 0 \<or> m * d \<le> n * b)"

definition f64_lt_frac :: "f64 \<Rightarrow> nat \<Rightarrow> nat \<Rightarrow> bool" where
  "f64_lt_frac x n d =
     (case x of NaN _ \<Rightarrow> False | Inf s \<Rightarrow> s | Fin s m b \<Rightarrow> s \<and> m \<noteq> 0 \<or> m * d < n * b)"

text \<open>\<open>x.round() as uN\<close>: half away from zero, then saturating at the type's bounds.\<close>

fun round_to_uint :: "nat \<Rightarrow> f64 \<Rightarrow> nat" where
  "round_to_uint bound (NaN _) = 0"
| "round_to_uint bound (Inf s) = (if s then 0 else bound)"
| "round_to_uint bound (Fin s m b) = (if s then 0 else min bound ((2 * m + b) div (2 * b)))"

section \<open>Parsing\<close>

fun take_digits :: "string \<Rightarrow> nat \<Rightarrow> nat \<Rightarrow> nat \<times> nat \<times> string" where
  "take_digits [] acc n = (acc, n, [])"
| "take_digits (c # s) acc n =
     (case digit_value c of
        Some d \<Rightarrow> take_digits s (acc * 10 + d) (Suc n)
      | None \<Rightarrow> (acc, n, c # s))"

text \<open>The digits of an exponent; accumulation stops at 65536.\<close>

fun exponent_digits :: "string \<Rightarrow> nat \<Rightarrow> nat option" where
  "exponent_digits [] acc = Some acc"
| "exponent_digits (c # s) acc =
     (case digit_value c of
        Some d \<Rightarrow> exponent_digits s (if acc < 65536 then acc * 10 + d else acc)
      | None \<Rightarrow> None)"

definition parse_exponent :: "string \<Rightarrow> int option" where
  "parse_exponent s =
     (case s of
        [] \<Rightarrow> None
      | c # t \<Rightarrow>
          if c = CHR ''-'' \<and> t \<noteq> [] then map_option (\<lambda>n. - int n) (exponent_digits t 0)
          else if c = CHR ''+'' \<and> t \<noteq> [] then map_option int (exponent_digits t 0)
          else map_option int (exponent_digits s 0))"

definition scale_decimal :: "bool \<Rightarrow> nat \<Rightarrow> int \<Rightarrow> f64" where
  "scale_decimal neg m e =
     (if 0 \<le> e then f64_of_frac neg (m * 10 ^ nat e) 1 else f64_of_frac neg m (10 ^ nat (- e)))"

definition parse_decimal :: "bool \<Rightarrow> string \<Rightarrow> f64 option" where
  "parse_decimal neg s =
     (let (whole, n, rest) = take_digits s 0 0;
          (m, k, rest) =
            (case rest of
               c # t \<Rightarrow> if c = CHR ''.'' then take_digits t whole 0 else (whole, 0, rest)
             | [] \<Rightarrow> (whole, 0, rest)) in
      if n + k = 0 then None
      else (case rest of
        [] \<Rightarrow> Some (scale_decimal neg m (- int k))
      | c # t \<Rightarrow>
          if c = CHR ''e'' \<or> c = CHR ''E''
          then map_option (\<lambda>e. scale_decimal neg m (e - int k)) (parse_exponent t)
          else None))"

definition parse_unsigned_f64 :: "bool \<Rightarrow> string \<Rightarrow> f64 option" where
  "parse_unsigned_f64 neg s =
     (case parse_decimal neg s of
        Some x \<Rightarrow> Some x
      | None \<Rightarrow>
          let lower = to_ascii_lowercase s in
          if lower = ''inf'' \<or> lower = ''infinity'' then Some (Inf neg)
          else if lower = ''nan'' then Some (NaN neg) else None)"

definition parse_f64 :: "string \<Rightarrow> f64 option" where
  "parse_f64 s =
     (case s of
        [] \<Rightarrow> None
      | c # t \<Rightarrow>
          if c = CHR ''-'' then parse_unsigned_f64 True t
          else if c = CHR ''+'' then parse_unsigned_f64 False t
          else parse_unsigned_f64 False s)"

section \<open>Bounds of rounding\<close>

lemma div_half_even_le:
  assumes "0 < d" "n \<le> m * d"
  shows "div_half_even n d \<le> m"
proof (cases "n = m * d")
  case True
  with assms(1) show ?thesis by (simp add: div_half_even_def)
next
  case False
  with assms have "n div d < m" by (simp add: div_less_iff_less_mult)
  then show ?thesis by (simp add: div_half_even_def Let_def)
qed

lemma bit_length_bounds: "0 < n \<Longrightarrow> 2 ^ (bit_length n - 1) \<le> n \<and> n < 2 ^ bit_length n"
proof (induction n rule: bit_length.induct)
  case (1 n)
  show ?case
  proof (cases "n div 2 = 0")
    case True
    with "1.prems" have "n = 1" by simp
    then show ?thesis by (simp add: bit_length.simps)
  next
    case False
    with 1 have IH: "2 ^ (bit_length (n div 2) - 1) \<le> n div 2" "n div 2 < 2 ^ bit_length (n div 2)" by auto
    from False have "0 < bit_length (n div 2)" by (simp add: bit_length.simps [of "n div 2"])
    then obtain l where l: "bit_length (n div 2) = Suc l" by (cases "bit_length (n div 2)") auto
    from IH l have "2 * 2 ^ l \<le> n" "n < 2 * 2 ^ Suc l" by auto
    with "1.prems" l show ?thesis by (simp add: bit_length.simps [of n])
  qed
qed

lemma round_frac_denominator: "0 < snd (round_frac n d)"
  by (simp add: round_frac_def Let_def)

lemma ge_pow2_bound:
  assumes "ge_pow2 n d e" "0 < d" "n \<le> m * d" "m < 2 ^ l"
  shows "e < int l"
proof (rule ccontr)
  assume "\<not> e < int l"
  then have e: "0 \<le> e" "l \<le> nat e" by auto
  from assms(2,4) have "m * d < 2 ^ l * d" by simp
  also have "\<dots> \<le> d * 2 ^ nat e" using e(2) by (simp add: mult.commute power_increasing)
  also have "\<dots> \<le> n" using assms(1) e(1) by (simp add: ge_pow2_def)
  finally show False using assms(3) by simp
qed

lemma ge_pow2_below:
  assumes "0 < n" "0 < d"
  shows "ge_pow2 n d (int (bit_length n) - int (bit_length d) - 1)"
proof -
  have n: "2 ^ (bit_length n - 1) \<le> n" and d: "d < 2 ^ bit_length d"
    using bit_length_bounds assms by auto
  have pos: "0 < bit_length n" using assms(1) by (simp add: bit_length.simps [of n])
  show ?thesis
  proof (cases "bit_length d \<le> bit_length n - 1")
    case True
    then have "d * 2 ^ (bit_length n - 1 - bit_length d) \<le> 2 ^ bit_length d * 2 ^ (bit_length n - 1 - bit_length d)"
      using d by (simp add: less_imp_le)
    also have "\<dots> = 2 ^ (bit_length n - 1)" using True by (simp flip: power_add)
    finally have "d * 2 ^ (bit_length n - 1 - bit_length d) \<le> n" using n by linarith
    moreover have "nat (int (bit_length n) - int (bit_length d) - 1) = bit_length n - 1 - bit_length d"
      using True pos by linarith
    ultimately show ?thesis using True pos by (auto simp: ge_pow2_def)
  next
    case False
    then have "d \<le> 2 ^ (bit_length n - 1) * 2 ^ (bit_length d + 1 - bit_length n)"
      using d pos by (simp flip: power_add)
    also have "\<dots> \<le> n * 2 ^ (bit_length d + 1 - bit_length n)" using n by simp
    finally have "d \<le> n * 2 ^ (bit_length d + 1 - bit_length n)" .
    moreover have "nat (- (int (bit_length n) - int (bit_length d) - 1)) = bit_length d + 1 - bit_length n"
      using False pos by linarith
    ultimately show ?thesis using False pos by (auto simp: ge_pow2_def)
  qed
qed

lemma binary_exponent_less:
  assumes "0 < n" "0 < d" "n \<le> m * d" "m < 2 ^ l"
  shows "binary_exponent n d < int l"
  using ge_pow2_below [OF assms(1,2)] ge_pow2_bound [OF _ assms(2,3,4)]
  by (auto simp: binary_exponent_def Let_def)

text \<open>Rounding does not pass an integer below \<open>2\<^sup>5\<^sup>2\<close>, which is itself a binary64 number.\<close>

lemma round_frac_le:
  assumes "0 < d" "n \<le> m * d" "m < 2 ^ 52"
  shows "fst (round_frac n d) \<le> m * snd (round_frac n d)"
proof (cases "n = 0")
  case True
  then show ?thesis by (simp add: round_frac_def)
next
  case False
  define k where "k = max (binary_exponent n d - 52) (- 1074)"
  from False assms have "k < 0" using binary_exponent_less [of n d m 52] by (simp add: k_def)
  then have *: "round_frac n d = (div_half_even (n * 2 ^ nat (- k)) d, 2 ^ nat (- k))"
    using False by (simp add: round_frac_def k_def [symmetric] Let_def)
  have "n * 2 ^ nat (- k) \<le> m * 2 ^ nat (- k) * d"
    using assms(2) by (simp add: mult.assoc mult.left_commute mult.commute)
  from div_half_even_le [OF assms(1) this] show ?thesis by (simp add: *)
qed

definition wf_f64 :: "f64 \<Rightarrow> bool" where
  "wf_f64 x = (case x of Fin s n d \<Rightarrow> 0 < d | _ \<Rightarrow> True)"

lemma wf_f64_of_frac [simp]: "wf_f64 (f64_of_frac neg n d)"
  using round_frac_denominator [of n d] by (auto simp: wf_f64_def f64_of_frac_def split: prod.splits)

lemma wf_scale_decimal [simp]: "wf_f64 (scale_decimal neg m e)"
  by (simp add: scale_decimal_def)

lemma wf_parse_decimal: "parse_decimal neg s = Some x \<Longrightarrow> wf_f64 x"
  unfolding parse_decimal_def Let_def case_prod_unfold
  by (auto split: if_splits list.splits)

lemma wf_parse_unsigned: "parse_unsigned_f64 neg s = Some x \<Longrightarrow> wf_f64 x"
  by (cases "parse_decimal neg s")
     (auto simp: parse_unsigned_f64_def Let_def wf_f64_def [of "Inf neg"] wf_f64_def [of "NaN neg"]
       dest: wf_parse_decimal split: if_splits)

lemma wf_parse_f64: "parse_f64 s = Some x \<Longrightarrow> wf_f64 x"
  by (auto simp: parse_f64_def dest: wf_parse_unsigned split: list.splits if_splits)

lemma f64_of_frac_le:
  assumes "0 < d" "n \<le> m * d" "m < 2 ^ 52"
  obtains p q where "f64_of_frac neg n d = Fin neg p q" "0 < q" "p \<le> m * q"
proof -
  obtain p q where pq: "round_frac n d = (p, q)" by fastforce
  then have q: "0 < q" "p \<le> m * q" using round_frac_denominator [of n d] round_frac_le [OF assms] by auto
  have "m < 2 ^ 1024" using assms(3) by (rule less_trans) simp
  with q have "p < 2 ^ 1024 * q" by (metis le_less_trans mult_less_mono1)
  with pq q that show thesis by (simp add: f64_of_frac_def)
qed

text \<open>A product with an integer factor, rounded and cast, is at most the product of the bounds.\<close>

lemma round_to_uint_mul_le:
  assumes "wf_f64 x" "f64_le_frac x m 1" "m * k < 2 ^ 52" "k < 2 ^ 52"
  shows "round_to_uint bound (f64_mul x (f64_of_nat k)) \<le> m * k"
proof -
  obtain a b where ab: "f64_of_nat k = Fin False a b" "0 < b" "a \<le> k * b"
    unfolding f64_of_nat_def by (rule f64_of_frac_le [of 1 k k False]) (use assms(4) in auto)
  show ?thesis
  proof (cases x)
    case (Fin s n d)
    show ?thesis
    proof (cases "s \<and> n \<noteq> 0")
      case True
      with Fin ab show ?thesis by (auto simp: f64_of_frac_def split: prod.split)
    next
      case False
      with Fin assms have n: "0 < d" "n \<le> m * d" by (auto simp: wf_f64_def)
      with ab have "n * a \<le> m * k * (d * b)" using mult_le_mono [OF n(2) ab(3)] by (simp add: mult_ac)
      then obtain p q where pq: "f64_of_frac (s \<noteq> False) (n * a) (d * b) = Fin (s \<noteq> False) p q" "0 < q"
        "p \<le> m * k * q"
        using f64_of_frac_le [of "d * b" "n * a" "m * k"] n ab assms(3) by (metis nat_0_less_mult_iff)
      from pq(2,3) have "(2 * p + q) div (2 * q) \<le> m * k"
        by (simp add: less_Suc_eq_le [symmetric] div_less_iff_less_mult algebra_simps)
      with Fin ab pq(1) show ?thesis by (auto simp: min_def)
    qed
  qed (use assms(2) ab in \<open>auto\<close>)
qed

end
