(* ===== verification/Rule_Syntax.thy ===== *)
theory Rule_Syntax
  imports Rule_Action Utf8 Rust_F64
begin

text \<open>
  The lexical layer of the rule language: the tokenizer (\<open>parser/lexer.rs\<close>), calls, arguments,
  values, durations, comments and quotes (\<open>parser/syntax.rs\<close>), and the tables of accepted names
  (\<open>language.rs\<close>). Loops of the sources over characters that only test ASCII characters run
  over bytes here: in UTF-8 a byte below 128 is always a whole character.
\<close>

section \<open>Characters\<close>

text \<open>The characters of a text, each as its UTF-8 bytes.\<close>

function chars :: "string \<Rightarrow> string list" where
  "chars s = (if s = [] then []
     else let w = max 1 (utf8_width (byte (hd s))) in take w s # chars (drop w s))"
  by pat_completeness auto
termination by (relation "measure length") (auto simp: Let_def max_def)

declare chars.simps [simp del]

definition is_whitespace :: "string \<Rightarrow> bool" where
  "is_whitespace ch \<longleftrightarrow> ch \<noteq> [] \<and> ws_len ch = length ch"

definition is_control :: "string \<Rightarrow> bool" where
  "is_control ch \<longleftrightarrow>
     (case ch of
        [c] \<Rightarrow> byte c < 32 \<or> byte c = 127
      | [a, b] \<Rightarrow> byte a = 194 \<and> 128 \<le> byte b \<and> byte b \<le> 159
      | _ \<Rightarrow> False)"

abbreviation backslash :: char where "backslash \<equiv> CHR 0x5C"
abbreviation dquote :: char where "dquote \<equiv> CHR 0x22"
abbreviation squote :: char where "squote \<equiv> CHR 0x27"

section \<open>The tokenizer\<close>

record rule_token =
  tok_text :: string
  tok_start :: nat
  tok_end :: nat

record lex_state =
  lx_tokens :: "rule_token list"
  lx_current :: string
  lx_token_start :: "nat option"
  lx_paren_depth :: nat
  lx_quote :: "char option"
  lx_escaped :: bool

definition lex_init :: lex_state where
  "lex_init = \<lparr>lx_tokens = [], lx_current = [], lx_token_start = None, lx_paren_depth = 0,
     lx_quote = None, lx_escaped = False\<rparr>"

text \<open>
  Closing the current token at a byte index. The \<open>expect\<close> of the source, that a non-empty
  token has a start, is the invariant \<open>lex_inv\<close> below.
\<close>

definition lex_flush :: "nat \<Rightarrow> lex_state \<Rightarrow> lex_state" where
  "lex_flush idx st =
     (if lx_current st = [] then st
      else st\<lparr>lx_tokens := lx_tokens st @
               [\<lparr>tok_text = lx_current st,
                 tok_start = (case lx_token_start st of Some i \<Rightarrow> i | None \<Rightarrow> 0), tok_end = idx\<rparr>],
             lx_current := []\<rparr>)"

definition lex_push :: "string \<Rightarrow> lex_state \<Rightarrow> lex_state" where
  "lex_push ch st = st\<lparr>lx_current := lx_current st @ ch\<rparr>"

definition lex_step :: "nat \<Rightarrow> string \<Rightarrow> lex_state \<Rightarrow> lex_state model_result" where
  "lex_step idx ch st =
     (let st = (if lx_token_start st = None \<and> \<not> is_whitespace ch
                then st\<lparr>lx_token_start := Some idx\<rparr> else st) in
      if lx_escaped st then Inr ((lex_push ch st)\<lparr>lx_escaped := False\<rparr>)
      else if ch = [backslash] then Inr ((lex_push ch st)\<lparr>lx_escaped := True\<rparr>)
      else (case lx_quote st of
        Some q \<Rightarrow> Inr ((lex_push ch st)\<lparr>lx_quote := (if ch = [q] then None else Some q)\<rparr>)
      | None \<Rightarrow>
          if ch = [dquote] \<or> ch = [squote] then Inr ((lex_push ch st)\<lparr>lx_quote := Some (hd ch)\<rparr>)
          else if ch = ''('' then
            (if MAX_RULE_PARSE_NESTING < lx_paren_depth st + 1 then Inl (LimitExceeded ''rule nesting'')
             else Inr ((lex_push ch st)\<lparr>lx_paren_depth := lx_paren_depth st + 1\<rparr>))
          else if ch = '')'' then
            (if lx_paren_depth st = 0 then Inl (InvalidSyntax ''rule'')
             else Inr ((lex_push ch st)\<lparr>lx_paren_depth := lx_paren_depth st - 1\<rparr>))
          else if is_whitespace ch \<and> lx_paren_depth st = 0
          then Inr ((lex_flush idx st)\<lparr>lx_token_start := None\<rparr>)
          else Inr (lex_push ch st)))"

fun lex_loop :: "nat \<Rightarrow> string list \<Rightarrow> lex_state \<Rightarrow> lex_state model_result" where
  "lex_loop idx [] st = Inr st"
| "lex_loop idx (ch # chs) st = try_bind (lex_step idx ch st) (lex_loop (idx + length ch) chs)"

definition tokenize :: "string \<Rightarrow> rule_token list model_result" where
  "tokenize input =
     try_bind (lex_loop 0 (chars input) lex_init) (\<lambda>st.
       if lx_quote st \<noteq> None then Inl (InvalidSyntax ''rule'')
       else if lx_paren_depth st \<noteq> 0 then Inl (InvalidSyntax ''rule'')
       else Inr (lx_tokens (lex_flush (length input) st)))"

section \<open>Quotes and comments\<close>

fun strip_comment_loop :: "char option \<Rightarrow> bool \<Rightarrow> string \<Rightarrow> string" where
  "strip_comment_loop quote escaped [] = []"
| "strip_comment_loop quote escaped (c # s) =
     (if escaped then c # strip_comment_loop quote False s
      else if c = backslash then c # strip_comment_loop quote True s
      else (case quote of
        Some q \<Rightarrow> c # strip_comment_loop (if c = q then None else quote) False s
      | None \<Rightarrow>
          if c = dquote \<or> c = squote then c # strip_comment_loop (Some c) False s
          else if c = CHR ''#'' then []
          else c # strip_comment_loop None False s))"

definition strip_comment :: "string \<Rightarrow> string option" where
  "strip_comment input =
     (let out = strip_comment_loop None False input in if trim out \<noteq> [] then Some out else None)"

fun unescape :: "bool \<Rightarrow> string \<Rightarrow> string" where
  "unescape escaped [] = []"
| "unescape escaped (c # s) =
     (if escaped then
        (if c = CHR ''n'' then CHR 0x0A else if c = CHR ''r'' then CHR 0x0D
         else if c = CHR ''t'' then CHR 0x09 else c) # unescape False s
      else if c = backslash then unescape True s
      else c # unescape False s)"

definition unquote :: "string \<Rightarrow> string" where
  "unquote input =
     (let input = trim input;
          is_quoted = (starts_with input [dquote] \<and> ends_with input [dquote]) \<or>
                      (starts_with input [squote] \<and> ends_with input [squote]) in
      if \<not> is_quoted \<or> length input < 2 then input
      else unescape False (butlast (tl input)))"

section \<open>Arguments\<close>

definition last_non_whitespace_before :: "string \<Rightarrow> nat \<Rightarrow> char option" where
  "last_non_whitespace_before input idx =
     (let s = trim_end (take idx input) in if s = [] then None else Some (last s))"

definition begins_file_value :: "string \<Rightarrow> nat \<Rightarrow> bool" where
  "begins_file_value input idx =
     (case last_non_whitespace_before input idx of
        None \<Rightarrow> True | Some c \<Rightarrow> c = CHR '','' \<or> c = CHR ''('' \<or> c = CHR ''='')"

definition begins_regex_value :: "string \<Rightarrow> nat \<Rightarrow> bool" where
  "begins_regex_value input idx =
     (case last_non_whitespace_before input idx of
        None \<Rightarrow> True
      | Some c \<Rightarrow> c = CHR '','' \<or> c = CHR ''('' \<or> c = CHR ''='' \<or> c = CHR ''~'')"

text \<open>The loop runs over the text after the opening slash and returns the offset of the closing one.\<close>

fun regex_end_loop :: "bool \<Rightarrow> bool \<Rightarrow> string \<Rightarrow> nat option" where
  "regex_end_loop escaped character_class [] = None"
| "regex_end_loop escaped character_class (c # s) =
     (if escaped then map_option Suc (regex_end_loop False character_class s)
      else if c = backslash then map_option Suc (regex_end_loop True character_class s)
      else if c = CHR ''['' then map_option Suc (regex_end_loop False True s)
      else if c = CHR '']'' \<and> character_class then map_option Suc (regex_end_loop False False s)
      else if c = CHR ''/'' \<and> \<not> character_class \<and> (trim_start s = [] \<or> hd (trim_start s) = CHR '','')
      then Some 0
      else map_option Suc (regex_end_loop False character_class s))"

definition regex_end_at_argument_boundary :: "string \<Rightarrow> nat \<Rightarrow> nat option" where
  "regex_end_at_argument_boundary input start =
     map_option (\<lambda>offset. start + 1 + offset) (regex_end_loop False False (drop (start + 1) input))"

definition push_argument :: "string list \<Rightarrow> string \<Rightarrow> string list model_result" where
  "push_argument args argument =
     (if argument = [] then Inl (EmptyInput ''call argument'')
      else if length args = MAX_RULE_CALL_ARGUMENTS then Inl (LimitExceeded ''call argument count'')
      else Inr (args @ [argument]))"

record args_state =
  sa_args :: "string list"
  sa_start :: nat
  sa_quote :: "char option"
  sa_angle :: nat
  sa_brace :: nat
  sa_bracket :: nat
  sa_paren :: nat
  sa_escaped :: bool
  sa_regex_end :: "nat option"

definition args_init :: args_state where
  "args_init = \<lparr>sa_args = [], sa_start = 0, sa_quote = None, sa_angle = 0, sa_brace = 0,
     sa_bracket = 0, sa_paren = 0, sa_escaped = False, sa_regex_end = None\<rparr>"

definition sa_depth :: "args_state \<Rightarrow> nat" where
  "sa_depth st = sa_angle st + sa_brace st + sa_bracket st + sa_paren st"

definition check_nesting :: "args_state \<Rightarrow> args_state model_result" where
  "check_nesting st =
     (if MAX_RULE_PARSE_NESTING < sa_depth st then Inl (LimitExceeded ''call nesting'') else Inr st)"

text \<open>The \<open>match\<close> of the loop on an ordinary character, outside quotes, escapes and regexes.\<close>

definition args_char :: "string \<Rightarrow> nat \<Rightarrow> char \<Rightarrow> args_state \<Rightarrow> args_state model_result" where
  "args_char input idx c st =
     (if c = dquote \<or> c = squote then Inr (st\<lparr>sa_quote := Some c\<rparr>)
      else if c = CHR ''('' then check_nesting (st\<lparr>sa_paren := sa_paren st + 1\<rparr>)
      else if c = CHR '')'' then
        (if sa_paren st = 0 then Inl (InvalidSyntax ''call argument'')
         else Inr (st\<lparr>sa_paren := sa_paren st - 1\<rparr>))
      else if c = CHR ''<'' \<and> begins_file_value input idx
      then check_nesting (st\<lparr>sa_angle := sa_angle st + 1\<rparr>)
      else if c = CHR ''>'' \<and> 0 < sa_angle st then Inr (st\<lparr>sa_angle := sa_angle st - 1\<rparr>)
      else if c = CHR ''{'' then check_nesting (st\<lparr>sa_brace := sa_brace st + 1\<rparr>)
      else if c = CHR ''}'' then
        (if sa_brace st = 0 then Inl (InvalidSyntax ''call argument'')
         else Inr (st\<lparr>sa_brace := sa_brace st - 1\<rparr>))
      else if c = CHR ''['' then check_nesting (st\<lparr>sa_bracket := sa_bracket st + 1\<rparr>)
      else if c = CHR '']'' then
        (if sa_bracket st = 0 then Inl (InvalidSyntax ''call argument'')
         else Inr (st\<lparr>sa_bracket := sa_bracket st - 1\<rparr>))
      else if c = CHR '','' \<and> sa_depth st = 0 then
        try_bind (push_argument (sa_args st) (trim (take (idx - sa_start st) (drop (sa_start st) input))))
          (\<lambda>args. Inr (st\<lparr>sa_args := args, sa_start := idx + 1\<rparr>))
      else Inr st)"

definition args_step :: "string \<Rightarrow> nat \<Rightarrow> char \<Rightarrow> args_state \<Rightarrow> args_state model_result" where
  "args_step input idx c st =
     (case sa_regex_end st of
        Some e \<Rightarrow> Inr (if idx = e then st\<lparr>sa_regex_end := None\<rparr> else st)
      | None \<Rightarrow>
          (case (if c = CHR ''/'' \<and> begins_regex_value input idx
                 then regex_end_at_argument_boundary input idx else None) of
             Some e \<Rightarrow> Inr (st\<lparr>sa_regex_end := Some e\<rparr>)
           | None \<Rightarrow>
               if sa_escaped st then Inr (st\<lparr>sa_escaped := False\<rparr>)
               else if c = backslash then Inr (st\<lparr>sa_escaped := True\<rparr>)
               else (case sa_quote st of
                 Some q \<Rightarrow> Inr (if c = q then st\<lparr>sa_quote := None\<rparr> else st)
               | None \<Rightarrow> args_char input idx c st)))"

fun args_loop :: "string \<Rightarrow> nat \<Rightarrow> string \<Rightarrow> args_state \<Rightarrow> args_state model_result" where
  "args_loop input idx [] st = Inr st"
| "args_loop input idx (c # s) st = try_bind (args_step input idx c st) (args_loop input (idx + 1) s)"

definition split_args :: "string \<Rightarrow> string list model_result" where
  "split_args input =
     (if trim input = [] then Inr []
      else try_bind (args_loop input 0 input args_init) (\<lambda>st.
        if sa_quote st \<noteq> None then Inl (InvalidSyntax ''call argument'')
        else if sa_depth st \<noteq> 0 then Inl (InvalidSyntax ''call argument'')
        else push_argument (sa_args st) (trim (drop (sa_start st) input))))"

section \<open>Calls and values\<close>

definition parse_call :: "string \<Rightarrow> (string \<times> string list) model_result" where
  "parse_call input =
     (case find_char (\<lambda>c. c = CHR ''('') input of
        None \<Rightarrow> Inl (InvalidSyntax ''call'')
      | Some open_at \<Rightarrow>
          if \<not> ends_with input '')'' then Inl (InvalidSyntax ''call'')
          else if open_at = 0 then Inl (EmptyInput ''call name'')
          else try_bind (split_args (butlast (drop (open_at + 1) input)))
                 (\<lambda>args. Inr (take open_at input, args)))"

definition require_one :: "string list \<Rightarrow> string model_result" where
  "require_one args =
     (case args of
        [a] \<Rightarrow> if trim a \<noteq> [] then Inr (trim a) else Inl (MissingArgument ''action argument'')
      | _ \<Rightarrow> Inl (MissingArgument ''action argument''))"

definition require_call_body :: "string \<Rightarrow> string model_result" where
  "require_call_body input =
     (case find_char (\<lambda>c. c = CHR ''('') input of
        None \<Rightarrow> Inl (InvalidSyntax ''call'')
      | Some open_at \<Rightarrow>
          let body = trim (butlast (drop (open_at + 1) input)) in
          if body = [] then Inl (MissingArgument ''action argument'') else Inr body)"

definition parse_value :: "string \<Rightarrow> rule_value model_result" where
  "parse_value input =
     (let input = trim input in
      if starts_with input ''<'' \<noteq> ends_with input ''>'' then Inl (InvalidSyntax ''file value'')
      else (case Option.bind (strip_prefix input ''<'') (\<lambda>s. strip_suffix s ''>'') of
        Some path \<Rightarrow>
          if trim path = [] then Inl (EmptyInput ''file value path'')
          else if CHR 0x00 \<in> set path then Inl (InvalidInput ''file value path'')
          else Inr (File path)
      | None \<Rightarrow>
          (case strip_prefix input ''@'' of
             Some key \<Rightarrow>
               if valid_value_key key then Inr (Reference key) else Inl (InvalidInput ''value key'')
           | None \<Rightarrow> Inr (Inline (unquote input)))))"

section \<open>Durations and speeds\<close>

definition U64_MAX :: nat where
  "U64_MAX = 2 ^ 64 - 1"

definition parse_u64_or :: "string \<Rightarrow> string \<Rightarrow> string \<Rightarrow> u64 model_result" where
  "parse_u64_or ctx token s =
     (case parse_uint U64_MAX s of
        Inl e \<Rightarrow> Inl (InvalidInteger ctx token e) | Inr n \<Rightarrow> Inr (of_nat n))"

text \<open>\<open>u64::MAX as f64\<close> is \<open>2\<^sup>6\<^sup>4\<close>.\<close>

definition checked_scaled_number :: "f64 \<Rightarrow> nat \<Rightarrow> string \<Rightarrow> bool \<Rightarrow> u64 model_result" where
  "checked_scaled_number v multiplier ctx allow_zero =
     (let scaled = f64_mul v (f64_of_nat multiplier) in
      if \<not> is_finite v \<or> is_sign_negative v \<or> \<not> is_finite scaled \<or>
         f64_ge_frac scaled (2 ^ 64) 1 \<or> (\<not> allow_zero \<and> f64_lt_frac scaled 1 2)
      then Inl (ConstraintViolation ctx)
      else Inr (of_nat (round_to_uint U64_MAX scaled)))"

definition parse_duration_ms :: "string \<Rightarrow> u64 model_result" where
  "parse_duration_ms input =
     (case strip_suffix input ''ms'' of
        Some ms \<Rightarrow> parse_u64_or ''duration'' input ms
      | None \<Rightarrow>
          (case strip_suffix input ''s'' of
             Some sec \<Rightarrow>
               (case parse_f64 sec of
                  None \<Rightarrow> Inl (InvalidFloat ''duration'' input)
                | Some v \<Rightarrow> checked_scaled_number v 1000 ''duration'' True)
           | None \<Rightarrow> parse_u64_or ''duration'' input input))"

definition speed_unit :: "string \<Rightarrow> string \<times> nat" where
  "speed_unit raw =
     (case strip_suffix raw ''kb'' of Some v \<Rightarrow> (v, 1024)
      | None \<Rightarrow> (case strip_suffix raw ''k'' of Some v \<Rightarrow> (v, 1024)
      | None \<Rightarrow> (case strip_suffix raw ''mb'' of Some v \<Rightarrow> (v, 1024 * 1024)
      | None \<Rightarrow> (case strip_suffix raw ''m'' of Some v \<Rightarrow> (v, 1024 * 1024)
      | None \<Rightarrow> (case strip_suffix raw ''b'' of Some v \<Rightarrow> (v, 1)
      | None \<Rightarrow> (raw, 1))))))"

definition parse_speed_bps :: "string \<Rightarrow> u64 model_result" where
  "parse_speed_bps input =
     (let lower = to_ascii_lowercase input;
          raw = (case strip_suffix lower ''/s'' of Some r \<Rightarrow> r | None \<Rightarrow> lower);
          (number, multiplier) = speed_unit raw in
      case parse_f64 number of
        None \<Rightarrow> Inl (InvalidFloat ''speed'' input)
      | Some v \<Rightarrow>
          try_bind (checked_scaled_number v multiplier ''speed'' False) (\<lambda>bytes.
            if bytes = 0 then Inl (ConstraintViolation ''speed'') else Inr bytes))"

section \<open>Names of the language\<close>

record rule_syntax_spelling =
  sp_canonical :: string
  sp_aliases :: "string list"
  sp_prefix :: bool

definition spelling :: "string \<Rightarrow> string list \<Rightarrow> rule_syntax_spelling" where
  "spelling canonical aliases = \<lparr>sp_canonical = canonical, sp_aliases = aliases, sp_prefix = False\<rparr>"

definition nonempty_suffix :: "string \<Rightarrow> string \<Rightarrow> bool" where
  "nonempty_suffix input p = (case strip_prefix input p of Some suf \<Rightarrow> suf \<noteq> [] | None \<Rightarrow> False)"

definition spelling_accepts :: "rule_syntax_spelling \<Rightarrow> string \<Rightarrow> bool" where
  "spelling_accepts sp input =
     (if sp_prefix sp
      then nonempty_suffix input (sp_canonical sp) \<or> list_ex (nonempty_suffix input) (sp_aliases sp)
      else sp_canonical sp = input \<or> input \<in> set (sp_aliases sp))"

definition ACTION_SYNTAX :: "rule_syntax_spelling list" where
  "ACTION_SYNTAX =
     [spelling ''host'' [], spelling ''upstream'' [], spelling ''direct'' [], spelling ''mock'' [],
      spelling ''mock.raw'' [''mockRaw'', ''mock_raw'', ''mock-raw''],
      spelling ''map.remote'' [''mapRemote'', ''map_remote'', ''map-remote''],
      spelling ''status'' [], spelling ''redirect'' [], spelling ''req.header'' [],
      spelling ''res.header'' [], spelling ''res.status'' [], spelling ''req.method'' [],
      spelling ''req.cookie'' [], spelling ''res.cookie'' [], spelling ''req.ua'' [],
      spelling ''req.referer'' [], spelling ''req.auth'' [], spelling ''req.forwarded'' [],
      spelling ''req.type'' [], spelling ''req.charset'' [], spelling ''res.cors'' [],
      spelling ''res.type'' [], spelling ''res.charset'' [], spelling ''res.merge'' [],
      spelling ''res.trailer'' [], spelling ''attachment'' [], spelling ''cache'' [],
      spelling ''tls'' [], spelling ''url.rewrite'' [], spelling ''url.query'' [],
      spelling ''delete'' [], spelling ''req.body.set'' [], spelling ''req.body.prepend'' [],
      spelling ''req.body.append'' [], spelling ''req.body.replace'' [], spelling ''res.body.set'' [],
      spelling ''res.body.prepend'' [], spelling ''res.body.append'' [],
      spelling ''res.body.replace'' [], spelling ''inject'' [], spelling ''delay'' [],
      spelling ''throttle'' [], spelling ''bypass'' [], spelling ''hide'' [], spelling ''tag'' [],
      spelling ''skip'' []]"

definition CONDITION_SYNTAX :: "rule_syntax_spelling list" where
  "CONDITION_SYNTAX =
     [spelling ''method'' [], spelling ''host'' [], spelling ''url'' [],
      spelling ''client.ip'' [''clientIp'', ''ip'', ''client_ip'', ''client-ip''],
      spelling ''server.ip'' [''serverIp'', ''server_ip'', ''server-ip''],
      spelling ''header'' [],
      spelling ''res.header'' [''resHeader'', ''res_header'', ''res-header''],
      spelling ''body'' [], spelling ''status'' [], spelling ''chance'' [], spelling ''env'' [],
      spelling ''any'' [], spelling ''all'' [], spelling ''not'' []]"

definition PROPERTY_SYNTAX :: "rule_syntax_spelling list" where
  "PROPERTY_SYNTAX =
     [spelling ''@important'' [], spelling ''@disabled'' [],
      \<lparr>sp_canonical = ''@tag:'', sp_aliases = [], sp_prefix = True\<rparr>]"

definition canonical_name :: "rule_syntax_spelling list \<Rightarrow> string \<Rightarrow> string option" where
  "canonical_name spellings input =
     map_option sp_canonical (find (\<lambda>sp. spelling_accepts sp input) spellings)"

definition canonical_v3_name :: "rule_syntax_spelling list \<Rightarrow> string \<Rightarrow> string option" where
  "canonical_v3_name spellings input =
     map_option sp_canonical
       (find (\<lambda>sp. if sp_prefix sp then nonempty_suffix input (sp_canonical sp)
                   else sp_canonical sp = input) spellings)"

definition canonical_action_name :: "string \<Rightarrow> string option" where
  "canonical_action_name input = canonical_name ACTION_SYNTAX input"

definition canonical_v3_action_name :: "string \<Rightarrow> string option" where
  "canonical_v3_action_name input = canonical_v3_name ACTION_SYNTAX input"

definition canonical_condition_name :: "string \<Rightarrow> string option" where
  "canonical_condition_name input = canonical_name CONDITION_SYNTAX input"

definition canonical_v3_condition_name :: "string \<Rightarrow> string option" where
  "canonical_v3_condition_name input = canonical_v3_name CONDITION_SYNTAX input"

definition canonical_property_name :: "string \<Rightarrow> string option" where
  "canonical_property_name input = canonical_name PROPERTY_SYNTAX input"

definition property_of_spelling :: "string \<Rightarrow> rule_syntax_spelling \<Rightarrow> (string \<times> string) option" where
  "property_of_spelling input sp =
     (if sp_prefix sp then
        (case List.map_filter (strip_prefix input) (sp_canonical sp # sp_aliases sp) of
           [] \<Rightarrow> None | suf # _ \<Rightarrow> Some (sp_canonical sp, suf))
      else if sp_canonical sp = input \<or> input \<in> set (sp_aliases sp) then Some (sp_canonical sp, [])
      else None)"

definition canonical_property :: "string \<Rightarrow> (string \<times> string) option" where
  "canonical_property input =
     (case List.map_filter (property_of_spelling input) PROPERTY_SYNTAX of [] \<Rightarrow> None | r # _ \<Rightarrow> Some r)"

datatype syntax_profile = Compatible | CanonicalV3

section \<open>What the tokenizer returns\<close>

lemma concat_chars [simp]: "concat (chars s) = s"
  by (induction s rule: chars.induct) (subst chars.simps, simp add: Let_def)

lemma chars_not_Nil: "ch \<in> set (chars s) \<Longrightarrow> ch \<noteq> []"
  by (induction s rule: chars.induct) (subst (asm) (2) chars.simps, auto simp: Let_def split: if_splits)

text \<open>
  The layout of a rule line: tokens with their byte ranges, separated by white space.
\<close>

inductive token_layout :: "rule_token list \<Rightarrow> string \<Rightarrow> bool" where
  layout_start: "token_layout [] []"
| layout_space: "token_layout ts p \<Longrightarrow> is_whitespace ch \<Longrightarrow> token_layout ts (p @ ch)"
| layout_token: "token_layout ts p \<Longrightarrow> ts = [] \<or> tok_end (last ts) < length p \<Longrightarrow> t \<noteq> [] \<Longrightarrow>
     token_layout (ts @ [\<lparr>tok_text = t, tok_start = length p, tok_end = length p + length t\<rparr>]) (p @ t)"

definition lex_inv :: "string \<Rightarrow> lex_state \<Rightarrow> bool" where
  "lex_inv seen st \<longleftrightarrow>
     (\<exists>p. seen = p @ lx_current st \<and> token_layout (lx_tokens st) p \<and>
        (lx_tokens st = [] \<or> tok_end (last (lx_tokens st)) < length p) \<and>
        (case lx_token_start st of
           None \<Rightarrow> lx_current st = [] \<and> lx_paren_depth st = 0 \<and> lx_quote st = None \<and> \<not> lx_escaped st
         | Some i \<Rightarrow> lx_current st \<noteq> [] \<and> i = length p))"

lemma lex_inv_init: "lex_inv [] lex_init"
  by (simp add: lex_inv_def lex_init_def layout_start)

lemma lex_push_inv:
  assumes "lex_inv seen st" "ch \<noteq> []" "\<not> (lx_token_start st = None \<and> is_whitespace ch)"
  shows "lex_inv (seen @ ch) ((lex_push ch (if lx_token_start st = None then st\<lparr>lx_token_start := Some (length seen)\<rparr> else st))
    \<lparr>lx_paren_depth := n, lx_quote := q, lx_escaped := e\<rparr>)"
  using assms by (auto simp: lex_inv_def lex_push_def split: option.splits)

lemma token_layout_flush:
  assumes "lex_inv seen st" "lx_token_start st = Some i"
  shows "token_layout (lx_tokens (lex_flush (length seen) st)) seen \<and>
    (lx_tokens (lex_flush (length seen) st) \<noteq> [] \<longrightarrow> tok_end (last (lx_tokens (lex_flush (length seen) st))) \<le> length seen)"
proof -
  from assms obtain p where p: "seen = p @ lx_current st" "token_layout (lx_tokens st) p"
    "lx_tokens st = [] \<or> tok_end (last (lx_tokens st)) < length p" "lx_current st \<noteq> []" "i = length p"
    by (auto simp: lex_inv_def)
  from layout_token [OF p(2,3,4)] p assms(2) show ?thesis by (simp add: lex_flush_def)
qed

lemma lex_space_inv:
  assumes "lex_inv seen st" "is_whitespace ch" "lx_quote st = None" "\<not> lx_escaped st" "lx_paren_depth st = 0"
  shows "lex_inv (seen @ ch) ((lex_flush (length seen) st)\<lparr>lx_token_start := None\<rparr>)"
proof (cases "lx_token_start st")
  case None
  with assms show ?thesis by (auto simp: lex_inv_def lex_flush_def intro: layout_space)
next
  case (Some i)
  have "0 < length ch" using assms(2) by (simp add: is_whitespace_def)
  with token_layout_flush [OF assms(1) Some] assms Some show ?thesis
    by (auto simp: lex_inv_def lex_flush_def intro: layout_space)
qed

lemma lex_step_inv:
  assumes inv: "lex_inv seen st" and ch: "ch \<noteq> []" and step: "lex_step (length seen) ch st = Inr st'"
  shows "lex_inv (seen @ ch) st'"
proof (cases "is_whitespace ch \<and> \<not> lx_escaped st \<and> lx_quote st = None \<and> lx_paren_depth st = 0")
  case True
  then have "ch \<noteq> [backslash]" "ch \<noteq> [dquote]" "ch \<noteq> [squote]" "ch \<noteq> ''(''" "ch \<noteq> '')''"
    by (auto simp: is_whitespace_def is_ascii_ws_byte_def byte_def)
  with True step have "st' = (lex_flush (length seen) st)\<lparr>lx_token_start := None\<rparr>"
    by (simp add: lex_step_def)
  with True inv show ?thesis by (simp add: lex_space_inv)
next
  case False
  then have no: "\<not> (lx_token_start st = None \<and> is_whitespace ch)"
    using inv by (auto simp: lex_inv_def)
  let ?st = "lex_push ch (if lx_token_start st = None then st\<lparr>lx_token_start := Some (length seen)\<rparr> else st)"
  have *: "(if lx_token_start st = None \<and> \<not> is_whitespace ch then st\<lparr>lx_token_start := Some (length seen)\<rparr> else st) =
      (if lx_token_start st = None then st\<lparr>lx_token_start := Some (length seen)\<rparr> else st)"
    using no by auto
  have "st' = ?st\<lparr>lx_paren_depth := lx_paren_depth st', lx_quote := lx_quote st', lx_escaped := lx_escaped st'\<rparr>"
    using step False unfolding lex_step_def * Let_def
    by (cases "lx_token_start st"; cases "lx_quote st") (auto simp: lex_push_def split: if_splits)
  then show ?thesis using lex_push_inv [OF inv ch no] by metis
qed

lemma lex_loop_inv:
  "lex_inv seen st \<Longrightarrow> \<forall>ch \<in> set chs. ch \<noteq> [] \<Longrightarrow> lex_loop (length seen) chs st = Inr st' \<Longrightarrow>
     lex_inv (seen @ concat chs) st'"
proof (induction chs arbitrary: seen st)
  case (Cons ch chs)
  from Cons.prems(3) obtain st1 where st1: "lex_step (length seen) ch st = Inr st1"
    "lex_loop (length (seen @ ch)) chs st1 = Inr st'" by (auto simp: try_bind_Inr_iff)
  from lex_step_inv [OF Cons.prems(1) _ st1(1)] Cons.prems(2) have "lex_inv (seen @ ch) st1" by simp
  from Cons.IH [OF this _ st1(2)] Cons.prems(2) show ?case by simp
qed simp

text \<open>
  The lexer loses nothing: the tokens of an accepted line are disjoint pieces of it, in
  order, each with the offsets the diagnostics print, and what lies between them is white
  space only.
\<close>

theorem tokenize_layout:
  assumes "tokenize input = Inr tokens"
  shows "token_layout tokens input"
proof -
  from assms obtain st where st: "lex_loop 0 (chars input) lex_init = Inr st" "lx_quote st = None"
    "lx_paren_depth st = 0" "tokens = lx_tokens (lex_flush (length input) st)"
    by (auto simp: tokenize_def try_bind_Inr_iff split: if_splits)
  have inv: "lex_inv input st"
    using lex_loop_inv [OF lex_inv_init, of "chars input" st] st(1) chars_not_Nil by auto
  show ?thesis
  proof (cases "lx_token_start st")
    case None
    with inv st(4) show ?thesis by (auto simp: lex_inv_def lex_flush_def)
  next
    case (Some i)
    from token_layout_flush [OF inv this] st(4) show ?thesis by simp
  qed
qed

theorem tokenize_layout_witness:
  "tokenize ''a  b(c d)'' =
     Inr [\<lparr>tok_text = ''a'', tok_start = 0, tok_end = 1\<rparr>, \<lparr>tok_text = ''b(c d)'', tok_start = 3, tok_end = 9\<rparr>] \<and>
   token_layout [\<lparr>tok_text = ''a'', tok_start = 0, tok_end = 1\<rparr>, \<lparr>tok_text = ''b(c d)'', tok_start = 3, tok_end = 9\<rparr>]
     ''a  b(c d)''"
proof -
  have t: "tokenize ''a  b(c d)'' =
     Inr [\<lparr>tok_text = ''a'', tok_start = 0, tok_end = 1\<rparr>, \<lparr>tok_text = ''b(c d)'', tok_start = 3, tok_end = 9\<rparr>]"
    by code_simp
  from t tokenize_layout [OF t] show ?thesis by blast
qed

lemma token_layout_spans:
  "token_layout ts p \<Longrightarrow>
     (\<forall>t \<in> set ts. tok_start t < tok_end t \<and> tok_end t \<le> length p \<and>
        tok_text t = take (tok_end t - tok_start t) (drop (tok_start t) p)) \<and>
     sorted_wrt (\<lambda>a b. tok_end a < tok_start b) ts"
proof (induction rule: token_layout.induct)
  case (layout_space ts p ch)
  then show ?case by fastforce
next
  case (layout_token ts p t)
  have "tok_end a < length p" if "a \<in> set ts" for a
  proof -
    from that obtain us where us: "ts = us @ [last ts]" by (metis append_butlast_last_id empty_iff list.set(1))
    have "tok_end a \<le> tok_end (last ts)"
    proof (cases "a = last ts")
      case False
      with that us have "a \<in> set us" by (metis Un_iff empty_iff insert_iff list.set set_append)
      moreover have "sorted_wrt (\<lambda>a b. tok_end a < tok_start b) (us @ [last ts])"
        using layout_token.IH us by simp
      moreover have "tok_start (last ts) < tok_end (last ts)" using layout_token.IH that us by (metis last_in_set snoc_eq_iff_butlast)
      ultimately show ?thesis by (fastforce simp: sorted_wrt_append)
    qed simp
    with layout_token.hyps(2) that show ?thesis by auto
  qed
  with layout_token show ?case by (fastforce simp: sorted_wrt_append)
qed simp

section \<open>What argument splitting returns\<close>

definition args_ok :: "string list \<Rightarrow> bool" where
  "args_ok args \<longleftrightarrow> length args \<le> MAX_RULE_CALL_ARGUMENTS \<and> (\<forall>a \<in> set args. a \<noteq> [] \<and> (\<exists>s. a = trim s))"

definition args_inv :: "args_state \<Rightarrow> bool" where
  "args_inv st \<longleftrightarrow> args_ok (sa_args st) \<and> sa_depth st \<le> MAX_RULE_PARSE_NESTING"

lemma push_argument_ok: "push_argument args (trim s) = Inr args' \<Longrightarrow> args_ok args \<Longrightarrow> args_ok args'"
  by (auto simp: push_argument_def args_ok_def split: if_splits)

lemma check_nesting_inv:
  "check_nesting st = Inr st' \<Longrightarrow> st' = st \<and> sa_depth st \<le> MAX_RULE_PARSE_NESTING"
  by (auto simp: check_nesting_def split: if_splits)

lemma args_char_inv:
  assumes "args_inv st" "args_char input idx c st = Inr st'"
  shows "args_inv st'"
proof -
  from assms(1) have ok: "args_ok (sa_args st)" "sa_depth st \<le> MAX_RULE_PARSE_NESTING"
    by (simp_all add: args_inv_def)
  from assms(2) ok(1) have "args_ok (sa_args st')"
    unfolding args_char_def
    by (auto simp: try_bind_Inr_iff dest!: check_nesting_inv push_argument_ok [OF _ ok(1)] split: if_splits)
  moreover from assms(2) ok(2) have "sa_depth st' \<le> MAX_RULE_PARSE_NESTING"
    unfolding args_char_def
    by (auto simp: try_bind_Inr_iff sa_depth_def dest!: check_nesting_inv split: if_splits)
  ultimately show ?thesis by (simp add: args_inv_def)
qed

lemma args_step_inv:
  assumes "args_inv st" "args_step input idx c st = Inr st'"
  shows "args_inv st'"
proof -
  have same: "args_inv (st\<lparr>sa_regex_end := r, sa_escaped := e, sa_quote := q\<rparr>)" for r e q
    using assms(1) by (simp add: args_inv_def sa_depth_def)
  have "st' = st\<lparr>sa_regex_end := sa_regex_end st', sa_escaped := sa_escaped st', sa_quote := sa_quote st'\<rparr> \<or>
      args_char input idx c st = Inr st'"
    using assms(2) unfolding args_step_def
    by (cases "sa_regex_end st"; cases "sa_quote st") (auto split: if_splits option.splits)
  with same args_char_inv [OF assms(1)] show ?thesis by metis
qed

lemma args_loop_inv:
  "args_inv st \<Longrightarrow> args_loop input idx s st = Inr st' \<Longrightarrow> args_inv st'"
proof (induction s arbitrary: idx st)
  case (Cons c s)
  then obtain st1 where "args_step input idx c st = Inr st1" "args_loop input (idx + 1) s st1 = Inr st'"
    by (auto simp: try_bind_Inr_iff)
  with Cons.IH args_step_inv [OF Cons.prems(1)] show ?case by blast
qed simp

lemma split_args_bounds:
  assumes "split_args input = Inr args"
  shows "args_ok args"
proof (cases "trim input = []")
  case True
  with assms show ?thesis by (auto simp: split_args_def args_ok_def)
next
  case False
  with assms obtain st where st: "args_loop input 0 input args_init = Inr st"
    "push_argument (sa_args st) (trim (drop (sa_start st) input)) = Inr args"
    by (auto simp: split_args_def try_bind_Inr_iff split: if_splits)
  have "args_inv st"
    by (rule args_loop_inv [OF _ st(1)]) (simp add: args_inv_def args_init_def sa_depth_def args_ok_def)
  with push_argument_ok [OF st(2)] show ?thesis by (simp add: args_inv_def)
qed

section \<open>Quoting\<close>

text \<open>A text as a quoted value of the language: backslashes and double quotes escaped.\<close>

definition quote_text :: "string \<Rightarrow> string" where
  "quote_text s =
     dquote # concat (map (\<lambda>c. if c = backslash \<or> c = dquote then [backslash, c] else [c]) s) @ [dquote]"

lemma unescape_quoted:
  "unescape False (concat (map (\<lambda>c. if c = backslash \<or> c = dquote then [backslash, c] else [c]) s)) = s"
  by (induction s) auto

lemma trim_visible:
  assumes "\<not> is_ascii_ws_byte c" "byte c < 128" "\<not> is_ascii_ws_byte d" "byte d < 128"
  shows "trim (c # s @ [d]) = c # s @ [d]"
proof -
  have "ws_len (c # s @ [d]) = 0" "ws_len_rev (d # rev s @ [c]) = 0" using assms by simp_all
  then have "drop_ws ws_len (c # s @ [d]) = c # s @ [d]" "drop_ws ws_len_rev (d # rev s @ [c]) = d # rev s @ [c]"
    by (subst drop_ws.simps, simp)+
  then show ?thesis by (simp add: trim_def trim_start_def trim_end_def)
qed

lemma unquote_quote_text: "unquote (quote_text s) = s"
proof -
  have "trim (quote_text s) = quote_text s"
    unfolding quote_text_def by (rule trim_visible) (simp_all add: is_ascii_ws_byte_def byte_def)
  then show ?thesis
    by (simp add: unquote_def Let_def quote_text_def starts_with_char ends_with_iff unescape_quoted)
qed

text \<open>
  Quoting is inverted by the value parser: any byte string, quoted with the two escapes
  of the language, parses to the inline value it denotes.
\<close>

theorem parse_value_quote_text: "parse_value (quote_text s) = Inr (Inline s)"
proof -
  have t: "trim (quote_text s) = quote_text s"
    unfolding quote_text_def by (rule trim_visible) (simp_all add: is_ascii_ws_byte_def byte_def)
  have "\<not> starts_with (quote_text s) ''<''" "\<not> ends_with (quote_text s) ''>''"
    "strip_prefix (quote_text s) ''<'' = None" "strip_prefix (quote_text s) ''@'' = None"
    by (auto simp: quote_text_def starts_with_char ends_with_iff strip_prefix_None_iff)
  then show ?thesis by (simp add: parse_value_def t unquote_quote_text)
qed

text \<open>
  A comma inside a regular expression that carries flags splits the argument in two: the
  closing slash is looked for at the end of an argument only, and with flags it is not there.
\<close>

lemma regex_flag_comma: "split_args ''/a,b/i'' = Inr [''/a'', ''b/i'']"
  by code_simp

lemma parse_speed_bps_positive: "parse_speed_bps input = Inr n \<Longrightarrow> n \<noteq> 0"
  unfolding parse_speed_bps_def Let_def case_prod_unfold
  by (auto simp: try_bind_Inr_iff split: option.splits if_splits)

end
