(* ===== verification/Net_Addr.thy ===== *)
theory Net_Addr
  imports Rust_Str
begin

text \<open>
  The address parsers of \<open>std::net\<close> that the rule engine calls through \<open>str::parse\<close>
  (\<open>Ipv6Addr\<close> for bracketed hosts, \<open>SocketAddr\<close> for client and server addresses) and the
  \<open>Display\<close> form of an address. A reader takes the remaining text and returns a value with
  the text after it; \<open>None\<close> is a failed read, after which the caller still holds the
  text it had, as \<open>read_atomically\<close> arranges.
\<close>

section \<open>Numbers and separators\<close>

definition hex_value :: "char \<Rightarrow> nat option" where
  "hex_value c =
     (if is_ascii_digit c then Some (byte c - 48)
      else if 65 \<le> byte c \<and> byte c \<le> 70 then Some (byte c - 55)
      else if 97 \<le> byte c \<and> byte c \<le> 102 then Some (byte c - 87)
      else None)"

definition to_digit :: "nat \<Rightarrow> char \<Rightarrow> nat option" where
  "to_digit radix c = (if radix = 10 then digit_value c else hex_value c)"

text \<open>
  The digit loop of \<open>read_number\<close>: with a digit limit the count is checked, without one the
  value is checked against the type's bound at every step.
\<close>

fun read_digits ::
  "nat \<Rightarrow> nat option \<Rightarrow> nat \<Rightarrow> nat \<Rightarrow> nat \<Rightarrow> string \<Rightarrow> (nat \<times> nat \<times> string) option" where
  "read_digits radix maxd bound count acc [] = Some (acc, count, [])"
| "read_digits radix maxd bound count acc (c # s) =
     (case to_digit radix c of
        None \<Rightarrow> Some (acc, count, c # s)
      | Some d \<Rightarrow>
          (case maxd of
             Some m \<Rightarrow> if m < count + 1 then None
                       else read_digits radix maxd bound (count + 1) (acc * radix + d) s
           | None \<Rightarrow> if bound < acc * radix + d then None
                     else read_digits radix maxd bound (count + 1) (acc * radix + d) s))"

definition read_number ::
  "nat \<Rightarrow> nat option \<Rightarrow> bool \<Rightarrow> nat \<Rightarrow> string \<Rightarrow> (nat \<times> string) option" where
  "read_number radix maxd allow_zero_prefix bound s =
     (case read_digits radix maxd bound 0 0 s of
        None \<Rightarrow> None
      | Some (n, count, rest) \<Rightarrow>
          if count = 0 then None
          else if \<not> allow_zero_prefix \<and> starts_with s ''0'' \<and> 1 < count then None
          else if bound < n then None
          else Some (n, rest))"

definition read_given_char :: "char \<Rightarrow> string \<Rightarrow> string option" where
  "read_given_char c s = strip_prefix s [c]"

definition read_separator ::
  "char \<Rightarrow> nat \<Rightarrow> (string \<Rightarrow> ('a \<times> string) option) \<Rightarrow> string \<Rightarrow> ('a \<times> string) option" where
  "read_separator sep index f s =
     (if 0 < index then Option.bind (read_given_char sep s) f else f s)"

section \<open>IPv4 and IPv6 addresses\<close>

fun read_ipv4_octets :: "nat \<Rightarrow> nat \<Rightarrow> string \<Rightarrow> (nat list \<times> string) option" where
  "read_ipv4_octets 0 index s = Some ([], s)"
| "read_ipv4_octets (Suc n) index s =
     (case read_separator CHR ''.'' index (read_number 10 (Some 3) False 255) s of
        None \<Rightarrow> None
      | Some (g, r) \<Rightarrow>
          map_option (\<lambda>(gs, r'). (g # gs, r')) (read_ipv4_octets n (Suc index) r))"

definition read_ipv4_addr :: "string \<Rightarrow> (nat list \<times> string) option" where
  "read_ipv4_addr s = read_ipv4_octets 4 0 s"

definition ipv4_groups :: "nat list \<Rightarrow> nat list" where
  "ipv4_groups octets =
     (case octets of [a, b, c, d] \<Rightarrow> [a * 256 + b, c * 256 + d] | _ \<Rightarrow> [])"

text \<open>\<open>read_groups\<close> with \<open>left\<close> slots left, the next being number \<open>index\<close>.\<close>

fun read_groups :: "nat \<Rightarrow> nat \<Rightarrow> string \<Rightarrow> nat list \<times> bool \<times> string" where
  "read_groups 0 index s = ([], False, s)"
| "read_groups (Suc left) index s =
     (case (if 0 < left then read_separator CHR '':'' index read_ipv4_addr s else None) of
        Some (octets, r) \<Rightarrow> (ipv4_groups octets, True, r)
      | None \<Rightarrow>
          (case read_separator CHR '':'' index (read_number 16 (Some 4) True 65535) s of
             None \<Rightarrow> ([], False, s)
           | Some (g, r) \<Rightarrow>
               (let (gs, v4, r') = read_groups left (Suc index) r in (g # gs, v4, r'))))"

definition read_ipv6_addr :: "string \<Rightarrow> (nat list \<times> string) option" where
  "read_ipv6_addr s =
     (let (hd_groups, v4, r) = read_groups 8 0 s in
      if length hd_groups = 8 then Some (hd_groups, r)
      else if v4 then None
      else
        (case read_given_char CHR '':'' r of
           None \<Rightarrow> None
         | Some r1 \<Rightarrow>
             (case read_given_char CHR '':'' r1 of
                None \<Rightarrow> None
              | Some r2 \<Rightarrow>
                  (let limit = 8 - (length hd_groups + 1);
                       (tl_groups, v4', r3) = read_groups limit 0 r2
                   in Some (hd_groups
                              @ replicate (8 - length hd_groups - length tl_groups) 0
                              @ tl_groups, r3)))))"

definition parse_ipv6_addr :: "string \<Rightarrow> nat list option" where
  "parse_ipv6_addr s =
     (case read_ipv6_addr s of Some (groups, []) \<Rightarrow> Some groups | _ \<Rightarrow> None)"

section \<open>Socket addresses\<close>

datatype ip_addr = IpV4 "nat list" | IpV6 "nat list"

definition read_port :: "string \<Rightarrow> (nat \<times> string) option" where
  "read_port s = Option.bind (read_given_char CHR '':'' s) (read_number 10 None True 65535)"

definition read_scope_id :: "string \<Rightarrow> (nat \<times> string) option" where
  "read_scope_id s =
     Option.bind (read_given_char CHR ''%'' s) (read_number 10 None True (2 ^ 32 - 1))"

definition read_socket_addr_v4 :: "string \<Rightarrow> (ip_addr \<times> string) option" where
  "read_socket_addr_v4 s =
     Option.bind (read_ipv4_addr s) (\<lambda>(octets, r).
     Option.bind (read_port r) (\<lambda>(port, r'). Some (IpV4 octets, r')))"

definition read_socket_addr_v6 :: "string \<Rightarrow> (ip_addr \<times> string) option" where
  "read_socket_addr_v6 s =
     Option.bind (read_given_char CHR ''['' s) (\<lambda>r0.
     Option.bind (read_ipv6_addr r0) (\<lambda>(groups, r1).
     let r2 = (case read_scope_id r1 of Some (_, r) \<Rightarrow> r | None \<Rightarrow> r1) in
     Option.bind (read_given_char CHR '']'' r2) (\<lambda>r3.
     Option.bind (read_port r3) (\<lambda>(port, r4). Some (IpV6 groups, r4)))))"

text \<open>\<open>value.parse::<SocketAddr>().map(|addr| addr.ip())\<close>: the whole text must be read.\<close>

definition parse_socket_addr_ip :: "string \<Rightarrow> ip_addr option" where
  "parse_socket_addr_ip s =
     (case read_socket_addr_v4 s of
        Some (ip, r) \<Rightarrow> if r = [] then Some ip else None
      | None \<Rightarrow>
          (case read_socket_addr_v6 s of
             Some (ip, r) \<Rightarrow> if r = [] then Some ip else None
           | None \<Rightarrow> None))"

section \<open>Display\<close>

definition hex_char :: "nat \<Rightarrow> char" where
  "hex_char d = char_of (if d < 10 then 48 + d else 87 + d)"

fun nat_to_hex :: "nat \<Rightarrow> string" where
  "nat_to_hex n =
     (if n < 16 then [hex_char n] else nat_to_hex (n div 16) @ [hex_char (n mod 16)])"

declare nat_to_hex.simps [simp del]

fun join_with :: "string \<Rightarrow> string list \<Rightarrow> string" where
  "join_with sep [] = []"
| "join_with sep [s] = s"
| "join_with sep (s # t # ts) = s @ sep @ join_with sep (t # ts)"

definition ipv4_to_string :: "nat list \<Rightarrow> string" where
  "ipv4_to_string octets = join_with ''.'' (map nat_to_string octets)"

text \<open>The longest run of zero groups, the first one on a tie: \<open>(start, len)\<close>.\<close>

fun zero_span :: "nat \<Rightarrow> nat \<times> nat \<Rightarrow> nat \<times> nat \<Rightarrow> nat list \<Rightarrow> nat \<times> nat" where
  "zero_span i current longest [] = longest"
| "zero_span i (cs, cl) (ls, ll) (g # gs) =
     (if g = 0 then
        (let cs' = (if cl = 0 then i else cs); cl' = cl + 1 in
         zero_span (Suc i) (cs', cl') (if ll < cl' then (cs', cl') else (ls, ll)) gs)
      else zero_span (Suc i) (0, 0) (ls, ll) gs)"

definition hex_groups :: "nat list \<Rightarrow> string" where
  "hex_groups gs = join_with '':'' (map nat_to_hex gs)"

definition ipv6_to_string :: "nat list \<Rightarrow> string" where
  "ipv6_to_string gs =
     (if length gs = 8 \<and> take 6 gs = [0, 0, 0, 0, 0, 65535] then
        ''::ffff:'' @ ipv4_to_string
          [gs ! 6 div 256, gs ! 6 mod 256, gs ! 7 div 256, gs ! 7 mod 256]
      else
        (let (start, len) = zero_span 0 (0, 0) (0, 0) gs in
         if 1 < len then hex_groups (take start gs) @ ''::'' @ hex_groups (drop (start + len) gs)
         else hex_groups gs))"

fun ip_to_string :: "ip_addr \<Rightarrow> string" where
  "ip_to_string (IpV4 octets) = ipv4_to_string octets"
| "ip_to_string (IpV6 groups) = ipv6_to_string groups"

section \<open>What the IPv6 reader consumes\<close>

text \<open>
  Every reader splits its input into the text it consumed and the rest. The text an IPv6
  address is read from consists of hexadecimal digits, colons and dots.
\<close>

definition addr_char :: "char \<Rightarrow> bool" where
  "addr_char c \<longleftrightarrow> is_ascii_hexdigit c \<or> c = CHR '':'' \<or> c = CHR ''.''"

definition reads_addr_chars :: "(string \<Rightarrow> ('a \<times> string) option) \<Rightarrow> bool" where
  "reads_addr_chars f \<longleftrightarrow>
     (\<forall>s x r. f s = Some (x, r) \<longrightarrow> (\<exists>u. s = u @ r \<and> (\<forall>c \<in> set u. addr_char c)))"

lemma reads_addr_charsD:
  "reads_addr_chars f \<Longrightarrow> f s = Some (x, r) \<Longrightarrow> \<exists>u. s = u @ r \<and> (\<forall>c \<in> set u. addr_char c)"
  by (auto simp: reads_addr_chars_def)

lemma to_digit_addr_char: "to_digit radix c = Some d \<Longrightarrow> addr_char c"
  by (auto simp: to_digit_def digit_value_def hex_value_def addr_char_def is_ascii_hexdigit_def
      split: if_splits)

lemma read_digits_chars:
  "read_digits radix maxd bound count acc s = Some (n, k, r) \<Longrightarrow>
     \<exists>u. s = u @ r \<and> (\<forall>c \<in> set u. addr_char c)"
proof (induction radix maxd bound count acc s rule: read_digits.induct)
  case (2 radix maxd bound count acc c s)
  show ?case
  proof (cases "to_digit radix c")
    case None
    with "2.prems" show ?thesis by auto
  next
    case (Some d)
    then have c: "addr_char c" by (rule to_digit_addr_char)
    from Some 2 obtain u where "s = u @ r" "\<forall>x \<in> set u. addr_char x"
      by (auto split: option.splits if_splits)
    with c show ?thesis by (intro exI [of _ "c # u"]) auto
  qed
qed auto

lemma reads_number: "reads_addr_chars (read_number radix maxd z bound)"
  by (auto simp: reads_addr_chars_def read_number_def dest!: read_digits_chars
      split: option.splits if_splits)

lemma reads_separator:
  assumes f: "reads_addr_chars f" and sep: "addr_char sep"
  shows "reads_addr_chars (read_separator sep index f)"
proof (cases "0 < index")
  case True
  show ?thesis
    unfolding reads_addr_chars_def
  proof (intro allI impI)
    fix s x r
    assume "read_separator sep index f s = Some (x, r)"
    with True obtain t where t: "s = sep # t" "f t = Some (x, r)"
      by (auto simp: read_separator_def read_given_char_def bind_eq_Some_conv
          strip_prefix_Some_iff)
    from reads_addr_charsD [OF f t(2)] obtain u where "t = u @ r" "\<forall>c \<in> set u. addr_char c"
      by blast
    with t(1) sep show "\<exists>u. s = u @ r \<and> (\<forall>c \<in> set u. addr_char c)"
      by (intro exI [of _ "sep # u"]) auto
  qed
next
  case False
  with f show ?thesis by (simp add: read_separator_def reads_addr_chars_def)
qed

lemma addr_char_separators [simp]: "addr_char CHR '':''" "addr_char CHR ''.''"
  by (simp_all add: addr_char_def)

lemma reads_ipv4_octets: "reads_addr_chars (read_ipv4_octets n index)"
proof (induction n arbitrary: index)
  case 0
  then show ?case by (auto simp: reads_addr_chars_def)
next
  case (Suc n)
  let ?sep = "read_separator CHR ''.'' index (read_number 10 (Some 3) False 255)"
  have sep: "reads_addr_chars ?sep" by (rule reads_separator [OF reads_number]) simp
  show ?case
    unfolding reads_addr_chars_def
  proof (intro allI impI)
    fix s x r
    assume "read_ipv4_octets (Suc n) index s = Some (x, r)"
    then obtain g t gs where g: "?sep s = Some (g, t)"
      and gs: "read_ipv4_octets n (Suc index) t = Some (gs, r)"
      by (auto split: option.splits)
    from reads_addr_charsD [OF sep g] reads_addr_charsD [OF Suc.IH gs]
    obtain u v where "s = u @ t" "t = v @ r" "\<forall>c \<in> set (u @ v). addr_char c" by auto
    then show "\<exists>u. s = u @ r \<and> (\<forall>c \<in> set u. addr_char c)"
      by (intro exI [of _ "u @ v"]) auto
  qed
qed

lemma reads_ipv4_addr: "reads_addr_chars read_ipv4_addr"
  using reads_ipv4_octets [of 4 0] by (simp add: reads_addr_chars_def read_ipv4_addr_def)

lemma read_groups_chars:
  "read_groups left index s = (gs, v4, r) \<Longrightarrow> \<exists>u. s = u @ r \<and> (\<forall>c \<in> set u. addr_char c)"
proof (induction left arbitrary: index s gs v4 r)
  case 0
  then show ?case by auto
next
  case (Suc left)
  let ?v4 = "read_separator CHR '':'' index read_ipv4_addr"
  let ?hex = "read_separator CHR '':'' index (read_number 16 (Some 4) True 65535)"
  have v4: "reads_addr_chars ?v4" by (rule reads_separator [OF reads_ipv4_addr]) simp
  have hex: "reads_addr_chars ?hex" by (rule reads_separator [OF reads_number]) simp
  consider
      (embedded) octets where "?v4 s = Some (octets, r)"
    | (stop) "r = s"
    | (group) g t gs' where "?hex s = Some (g, t)" "read_groups left (Suc index) t = (gs', v4, r)"
    using Suc.prems by (auto split: option.splits if_splits prod.splits)
  then show ?case
  proof cases
    case embedded
    then show ?thesis by (rule reads_addr_charsD [OF v4])
  next
    case stop
    then show ?thesis by auto
  next
    case group
    from reads_addr_charsD [OF hex group(1)] Suc.IH [OF group(2)]
    obtain u v where "s = u @ t" "t = v @ r" "\<forall>c \<in> set (u @ v). addr_char c" by auto
    then show ?thesis by (intro exI [of _ "u @ v"]) auto
  qed
qed

lemma parse_ipv6_addr_chars:
  assumes "parse_ipv6_addr s = Some groups"
  shows "\<forall>c \<in> set s. addr_char c"
proof -
  from assms have read: "read_ipv6_addr s = Some (groups, [])"
    by (auto simp: parse_ipv6_addr_def split: option.splits list.splits)
  obtain hd_groups v4 r where h: "read_groups 8 0 s = (hd_groups, v4, r)"
    by (metis prod_cases3)
  from read_groups_chars [OF h] obtain u where u: "s = u @ r" "\<forall>c \<in> set u. addr_char c" by blast
  show ?thesis
  proof (cases "length hd_groups = 8")
    case True
    with h read u show ?thesis by (simp add: read_ipv6_addr_def)
  next
    case False
    with h read obtain r1 r2 where r: "r = CHR '':'' # r1" "r1 = CHR '':'' # r2"
      and t: "\<exists>gs b. read_groups (8 - (length hd_groups + 1)) 0 r2 = (gs, b, [])"
      by (auto simp: read_ipv6_addr_def Let_def read_given_char_def strip_prefix_Some_iff
          split: option.splits if_splits prod.splits)
    from t read_groups_chars have "\<forall>c \<in> set r2. addr_char c" by fastforce
    with u r show ?thesis by auto
  qed
qed

lemma parse_ipv6_addr_Nil: "parse_ipv6_addr [] = None"
  by code_simp

lemma parse_ipv6_addr_not_Nil: "parse_ipv6_addr s = Some groups \<Longrightarrow> s \<noteq> []"
  using parse_ipv6_addr_Nil by auto

section \<open>Case folding and the address readers\<close>

definition fold_rest :: "('a \<times> string) option \<Rightarrow> ('a \<times> string) option" where
  "fold_rest r = map_option (\<lambda>(x, t). (x, to_ascii_lowercase t)) r"

lemma fold_rest_simps [simp]:
  "fold_rest None = None"
  "fold_rest (Some (x, t)) = Some (x, to_ascii_lowercase t)"
  by (simp_all add: fold_rest_def)

lemma digit_value_lower [simp]: "digit_value (ascii_lower c) = digit_value c"
  by (auto simp: digit_value_def is_ascii_digit_def ascii_lower_def is_ascii_uppercase_def)

lemma hex_value_lower [simp]: "hex_value (ascii_lower c) = hex_value c"
  by (auto simp: hex_value_def is_ascii_digit_def ascii_lower_def is_ascii_uppercase_def)

lemma to_digit_lower [simp]: "to_digit radix (ascii_lower c) = to_digit radix c"
  by (simp add: to_digit_def)

lemma read_digits_lower:
  "read_digits radix maxd bound count acc (to_ascii_lowercase s) =
     map_option (\<lambda>(n, k, t). (n, k, to_ascii_lowercase t))
       (read_digits radix maxd bound count acc s)"
  by (induction radix maxd bound count acc s rule: read_digits.induct)
    (auto split: option.splits)

lemma read_number_lower:
  "read_number radix maxd z bound (to_ascii_lowercase s) =
     fold_rest (read_number radix maxd z bound s)"
proof -
  have "\<not> is_ascii_alphabetic CHR ''0''" by code_simp
  then show ?thesis
    by (auto simp: read_number_def read_digits_lower starts_with_char_lower split: option.splits)
qed

lemma read_given_char_lower:
  "\<not> is_ascii_alphabetic c \<Longrightarrow>
     read_given_char c (to_ascii_lowercase s) = map_option to_ascii_lowercase (read_given_char c s)"
  by (auto simp: read_given_char_def strip_prefix_def starts_with_char_lower
      drop_to_ascii_lowercase)

lemma separators_not_alphabetic:
  "\<not> is_ascii_alphabetic CHR '':''" "\<not> is_ascii_alphabetic CHR ''.''"
  by code_simp+

lemma read_separator_lower:
  assumes "\<And>t. f (to_ascii_lowercase t) = fold_rest (f t)" and "\<not> is_ascii_alphabetic sep"
  shows "read_separator sep index f (to_ascii_lowercase s) = fold_rest (read_separator sep index f s)"
  using assms
  by (cases "read_given_char sep s") (auto simp: read_separator_def read_given_char_lower)

lemma read_ipv4_octets_lower:
  "read_ipv4_octets n index (to_ascii_lowercase s) = fold_rest (read_ipv4_octets n index s)"
proof (induction n arbitrary: index s)
  case (Suc n)
  have "read_separator CHR ''.'' index (read_number 10 (Some 3) False 255) (to_ascii_lowercase s)
      = fold_rest (read_separator CHR ''.'' index (read_number 10 (Some 3) False 255) s)"
    by (rule read_separator_lower) (simp_all add: read_number_lower separators_not_alphabetic)
  with Suc.IH show ?case
    by (auto simp: fold_rest_def option.map_comp comp_def case_prod_beta split: option.splits)
qed simp

lemma read_groups_lower:
  "read_groups left index (to_ascii_lowercase s) =
     (case read_groups left index s of (gs, v4, r) \<Rightarrow> (gs, v4, to_ascii_lowercase r))"
proof (induction left arbitrary: index s)
  case (Suc left)
  let ?v4 = "read_separator CHR '':'' index read_ipv4_addr"
  let ?hex = "read_separator CHR '':'' index (read_number 16 (Some 4) True 65535)"
  have v4: "?v4 (to_ascii_lowercase s) = fold_rest (?v4 s)"
    by (rule read_separator_lower)
      (simp_all add: read_ipv4_octets_lower read_ipv4_addr_def separators_not_alphabetic)
  have hex: "?hex (to_ascii_lowercase s) = fold_rest (?hex s)"
    by (rule read_separator_lower) (simp_all add: read_number_lower separators_not_alphabetic)
  show ?case
  proof (cases "0 < left \<and> ?v4 s \<noteq> None")
    case True
    with v4 show ?thesis by (auto split: option.splits)
  next
    case False
    then have none: "(if 0 < left then ?v4 s else None) = None"
      "(if 0 < left then ?v4 (to_ascii_lowercase s) else None) = None"
      using v4 by (cases "?v4 s"; auto)+
    then show ?thesis
      using hex Suc.IH by (cases "?hex s") (auto simp: none split: prod.splits)
  qed
qed simp

lemma parse_ipv6_addr_lower: "parse_ipv6_addr (to_ascii_lowercase s) = parse_ipv6_addr s"
proof -
  have "read_ipv6_addr (to_ascii_lowercase s) = fold_rest (read_ipv6_addr s)"
    unfolding read_ipv6_addr_def read_groups_lower
    by (auto simp: read_given_char_lower separators_not_alphabetic read_groups_lower Let_def
        split: prod.splits option.splits)
  then show ?thesis
    by (cases "read_ipv6_addr s") (auto simp: parse_ipv6_addr_def split: list.splits)
qed

lemma read_groups_no_colon:
  assumes "CHR '':'' \<notin> set s" and "0 < index"
  shows "read_groups left index s = ([], False, s)"
proof -
  have "read_given_char CHR '':'' s = None"
    using assms(1) by (auto simp: read_given_char_def strip_prefix_None_iff)
  with assms(2) show ?thesis by (cases left) (auto simp: read_separator_def)
qed

lemma read_groups_no_colon_length:
  assumes no: "CHR '':'' \<notin> set s" and h: "read_groups (Suc left) 0 s = (gs, v4, r)"
  shows "length gs \<le> 2"
proof -
  let ?hex = "read_number 16 (Some 4) True 65535"
  consider
      (embedded) octets t where "read_ipv4_addr s = Some (octets, t)" "gs = ipv4_groups octets"
    | (stop) "gs = []"
    | (group) g t where "?hex s = Some (g, t)" "gs = g # fst (read_groups left (Suc 0) t)"
    using h by (auto simp: read_separator_def split: option.splits if_splits prod.splits)
  then show ?thesis
  proof cases
    case embedded
    then show ?thesis by (auto simp: ipv4_groups_def split: list.splits)
  next
    case group
    from reads_addr_charsD [OF reads_number group(1)] no have "CHR '':'' \<notin> set t" by auto
    with group(2) show ?thesis by (simp add: read_groups_no_colon)
  qed simp
qed

lemma parse_ipv6_addr_colon:
  assumes "parse_ipv6_addr s = Some groups"
  shows "CHR '':'' \<in> set s"
proof (rule ccontr)
  assume no: "CHR '':'' \<notin> set s"
  obtain gs v4 r where h: "read_groups 8 0 s = (gs, v4, r)" by (metis prod_cases3)
  from read_groups_chars [OF h] no have r: "CHR '':'' \<notin> set r" by auto
  have "length gs \<le> 2" using read_groups_no_colon_length [OF no, of 7] h by simp
  moreover have "read_given_char CHR '':'' r = None"
    using r by (auto simp: read_given_char_def strip_prefix_None_iff)
  ultimately have "read_ipv6_addr s = None" using h by (simp add: read_ipv6_addr_def)
  with assms show False by (simp add: parse_ipv6_addr_def)
qed

end
