(* ===== verification/Rule_Url.thy ===== *)
theory Rule_Url
  imports Net_Addr Rule_Error
begin

text \<open>
  Absolute URLs as the matcher sees them: \<open>matcher/url.rs\<close>. \<open>url_parse\<close> is
  \<open>UrlParts::parse\<close>, with every rejection as a \<open>RuleModelError\<close>. The theorems say which
  shape an accepted URL has, and that printing and parsing are inverse to each other.
\<close>

section \<open>Parsing\<close>

record url_parts =
  url_scheme :: string
  url_host :: string
  url_port :: "u16 option"
  url_path :: string
  url_query :: "string option"

definition is_bracket :: "char \<Rightarrow> bool" where
  "is_bracket c \<longleftrightarrow> c = CHR ''['' \<or> c = CHR '']''"

definition is_scheme_tail :: "char \<Rightarrow> bool" where
  "is_scheme_tail c \<longleftrightarrow>
     is_ascii_alphanumeric c \<or> c = CHR ''+'' \<or> c = CHR ''-'' \<or> c = CHR ''.''"

definition valid_absolute_scheme :: "string \<Rightarrow> bool" where
  "valid_absolute_scheme s =
     (case s of [] \<Rightarrow> False | c # t \<Rightarrow> is_ascii_alphabetic c \<and> list_all is_scheme_tail t)"

definition parse_absolute_port :: "string \<Rightarrow> u16 model_result" where
  "parse_absolute_port input =
     (if input = [] then Inl (EmptyInput ''URL port'')
      else
        try_bind (parse_u16_or ''URL port'' input) (\<lambda>port.
          if port = 0 then Inl (ConstraintViolation ''URL port'') else Inr port))"

definition parse_absolute_authority :: "string \<Rightarrow> (string \<times> u16 option) model_result" where
  "parse_absolute_authority authority =
     (if starts_with authority ''['' then
        (case find_char (\<lambda>c. c = CHR '']'') authority of
           None \<Rightarrow> Inl (InvalidSyntax ''URL IPv6 authority'')
         | Some end \<Rightarrow>
             (let host = drop 1 (take end authority); tail = drop (end + 1) authority in
              if parse_ipv6_addr host = None then Inl (InvalidInput ''URL IPv6 authority'')
              else if tail = [] then Inr (take (end + 1) authority, None)
              else
                (case strip_prefix tail '':'' of
                   None \<Rightarrow> Inl (InvalidInput ''URL authority'')
                 | Some raw \<Rightarrow>
                     try_bind (parse_absolute_port raw)
                       (\<lambda>port. Inr (take (end + 1) authority, Some port)))))
      else if find_char is_bracket authority \<noteq> None then Inl (InvalidInput ''URL authority'')
      else
        (case rsplit_once_char authority CHR '':'' of
           None \<Rightarrow> Inr (authority, None)
         | Some (host, raw_port) \<Rightarrow>
             if CHR '':'' \<in> set host then Inl (InvalidSyntax ''URL IPv6 authority'')
             else if host = [] then Inl (EmptyInput ''URL host'')
             else try_bind (parse_absolute_port raw_port) (\<lambda>port. Inr (host, Some port))))"

text \<open>\<open>char::is_control\<close> and \<open>char::is_whitespace\<close> at the head of a UTF-8 text.\<close>

fun control_head :: "string \<Rightarrow> bool" where
  "control_head [] = False"
| "control_head (a # s) =
     (byte a < 32 \<or> byte a = 127 \<or>
      (byte a = 194 \<and> (case s of [] \<Rightarrow> False | b # _ \<Rightarrow> 128 \<le> byte b \<and> byte b \<le> 159)))"

fun any_suffix :: "(string \<Rightarrow> bool) \<Rightarrow> string \<Rightarrow> bool" where
  "any_suffix P [] = False"
| "any_suffix P (c # s) = (P (c # s) \<or> any_suffix P s)"

definition has_control :: "string \<Rightarrow> bool" where
  "has_control s = any_suffix control_head s"

definition has_whitespace :: "string \<Rightarrow> bool" where
  "has_whitespace s = any_suffix (\<lambda>t. 0 < ws_len t) s"

definition trim_brackets :: "string \<Rightarrow> string" where
  "trim_brackets s = trim_matches is_bracket s"

definition split_path_query :: "string \<Rightarrow> string \<times> string option" where
  "split_path_query path_and_query =
     (case split_once path_and_query ''?'' of
        Some (path, query) \<Rightarrow> (if path = [] then ''/'' else path, Some query)
      | None \<Rightarrow>
          (case strip_prefix path_and_query ''?'' of
             Some query \<Rightarrow> (''/'', Some query)
           | None \<Rightarrow> (path_and_query, None)))"

definition is_slash_or_query :: "char \<Rightarrow> bool" where
  "is_slash_or_query c \<longleftrightarrow> c = CHR ''/'' \<or> c = CHR ''?''"

definition url_parse :: "string \<Rightarrow> url_parts model_result" where
  "url_parse input =
     (case split_once input ''://'' of
        None \<Rightarrow> Inl (InvalidSyntax ''URL'')
      | Some (scheme, rest) \<Rightarrow>
          if \<not> valid_absolute_scheme scheme then Inl (InvalidInput ''URL scheme'')
          else if CHR ''#'' \<in> set input then Inl (InvalidInput ''URL fragment'')
          else
            (let (authority, path_and_query) =
                   (case find_char is_slash_or_query rest of
                      Some idx \<Rightarrow> (take idx rest, drop idx rest)
                    | None \<Rightarrow> (rest, ''/''))
             in
              if authority = [] then Inl (EmptyInput ''URL host'')
              else if CHR ''@'' \<in> set authority then Inl (InvalidInput ''URL authority'')
              else
                try_bind (parse_absolute_authority authority) (\<lambda>(raw_host, port).
                  let host = to_ascii_lowercase (trim_brackets raw_host) in
                  if host = [] then Inl (EmptyInput ''URL host'')
                  else if has_control host \<or> has_whitespace host
                  then Inl (InvalidInput ''URL host'')
                  else
                    (let (path, query) = split_path_query path_and_query in
                     Inr \<lparr>url_scheme = to_ascii_lowercase scheme, url_host = host,
                          url_port = port, url_path = path, url_query = query\<rparr>))))"

definition effective_port :: "url_parts \<Rightarrow> u16 option" where
  "effective_port u =
     (case url_port u of
        Some p \<Rightarrow> Some p
      | None \<Rightarrow>
          if url_scheme u \<in> set [''http'', ''ws''] then Some 80
          else if url_scheme u \<in> set [''https'', ''wss''] then Some 443
          else if url_scheme u = ''tunnel'' then url_port u
          else None)"

definition origin_form :: "url_parts \<Rightarrow> string" where
  "origin_form u =
     (case url_query u of
        Some query \<Rightarrow> if query \<noteq> [] then url_path u @ ''?'' @ query else url_path u
      | None \<Rightarrow> url_path u)"

section \<open>Redirect locations\<close>

fun validate_percent_encoding :: "string \<Rightarrow> unit model_result" where
  "validate_percent_encoding [] = Inr ()"
| "validate_percent_encoding (c # s) =
     (if c \<noteq> CHR ''%'' then validate_percent_encoding s
      else
        (case s of
           a # b # t \<Rightarrow>
             if is_ascii_hexdigit a \<and> is_ascii_hexdigit b then validate_percent_encoding t
             else Inl (InvalidInput ''redirect location'')
         | _ \<Rightarrow> Inl (InvalidInput ''redirect location'')))"

definition validate_redirect_location :: "string \<Rightarrow> unit model_result" where
  "validate_redirect_location value =
     (if value = [] then Inl (EmptyInput ''redirect location'')
      else if \<exists>c \<in> set value. byte c \<le> 32 \<or> byte c = 127 \<or> c = CHR 0x5C
      then Inl (InvalidInput ''redirect location'')
      else
        try_bind (validate_percent_encoding value) (\<lambda>_.
          let reference = (case split_once value ''#'' of Some (base, _) \<Rightarrow> base | None \<Rightarrow> value) in
          if reference = [] then Inr ()
          else
            (let scheme = (case split_once reference '':'' of
                  Some (scheme, _) \<Rightarrow> if valid_absolute_scheme scheme then Some scheme else None
                | None \<Rightarrow> None)
             in
              (case scheme of
                 Some scheme \<Rightarrow>
                   if to_ascii_lowercase scheme \<notin> set [''http'', ''https'']
                   then Inl (UnsupportedInput ''redirect location scheme'')
                   else try_bind (url_parse reference) (\<lambda>_. Inr ())
               | None \<Rightarrow>
                   (case strip_prefix reference ''//'' of
                      Some authority \<Rightarrow>
                        try_bind (url_parse (''http://'' @ authority)) (\<lambda>_. Inr ())
                    | None \<Rightarrow>
                        if CHR '':'' \<in> set (hd (split_chars is_slash_or_query reference))
                        then Inl (InvalidInput ''redirect location'')
                        else Inr ())))))"

section \<open>Printing and parsing\<close>

definition authority_text :: "url_parts \<Rightarrow> string" where
  "authority_text u =
     (if CHR '':'' \<in> set (url_host u) then ''['' @ url_host u @ '']'' else url_host u)
       @ (case url_port u of None \<Rightarrow> [] | Some p \<Rightarrow> CHR '':'' # nat_to_string (unat p))"

definition url_text :: "url_parts \<Rightarrow> string" where
  "url_text u =
     url_scheme u @ ''://'' @ authority_text u @ url_path u
       @ (case url_query u of None \<Rightarrow> [] | Some q \<Rightarrow> CHR ''?'' # q)"

definition plain_host_char :: "char \<Rightarrow> bool" where
  "plain_host_char c \<longleftrightarrow>
     c \<notin> set [CHR ''['', CHR '']'', CHR '':'', CHR ''/'', CHR ''?'', CHR ''#'', CHR ''@'']"

definition wf_host :: "string \<Rightarrow> bool" where
  "wf_host h \<longleftrightarrow>
     h \<noteq> [] \<and> to_ascii_lowercase h = h \<and> \<not> has_control h \<and> \<not> has_whitespace h \<and>
     (parse_ipv6_addr h \<noteq> None \<or> list_all plain_host_char h)"

definition wf_url :: "url_parts \<Rightarrow> bool" where
  "wf_url u \<longleftrightarrow>
     valid_absolute_scheme (url_scheme u) \<and> to_ascii_lowercase (url_scheme u) = url_scheme u \<and>
     wf_host (url_host u) \<and> url_port u \<noteq> Some 0 \<and>
     starts_with (url_path u) ''/'' \<and> CHR ''?'' \<notin> set (url_path u) \<and> CHR ''#'' \<notin> set (url_path u) \<and>
     (case url_query u of None \<Rightarrow> True | Some q \<Rightarrow> CHR ''#'' \<notin> set q)"

lemma trim_matches_id:
  assumes "s \<noteq> [] \<Longrightarrow> \<not> P (hd s) \<and> \<not> P (last s)"
  shows "trim_matches P s = s"
proof (cases s)
  case (Cons c t)
  with assms have "dropWhile P s = s" by (auto simp: dropWhile_eq_self_iff)
  moreover have "dropWhile P (rev s) = rev s"
    using assms Cons by (auto simp: dropWhile_eq_self_iff hd_rev simp del: rev.simps)
  ultimately show ?thesis by (simp add: trim_matches_def trim_start_chars_def trim_end_chars_def)
qed (simp add: trim_matches_def trim_start_chars_def trim_end_chars_def)

lemma trim_brackets_id: "(\<And>c. c \<in> set s \<Longrightarrow> \<not> is_bracket c) \<Longrightarrow> trim_brackets s = s"
  unfolding trim_brackets_def by (rule trim_matches_id) simp

lemma trim_brackets_bracketed:
  assumes "\<And>c. c \<in> set s \<Longrightarrow> \<not> is_bracket c" and "s \<noteq> []"
  shows "trim_brackets (CHR ''['' # s @ [CHR '']'']) = s"
proof -
  have b: "is_bracket CHR ''[''" "is_bracket CHR '']''" by (simp_all add: is_bracket_def)
  have "dropWhile is_bracket (s @ [CHR '']'']) = s @ [CHR '']'']"
    using assms by (cases s) auto
  moreover have "dropWhile is_bracket (rev s) = rev s"
    using assms by (simp add: dropWhile_eq_self_iff hd_rev)
  ultimately show ?thesis
    using b by (simp add: trim_brackets_def trim_matches_def trim_start_chars_def trim_end_chars_def)
qed

lemma split_once_char_first:
  "c \<notin> set a \<Longrightarrow> split_once (a @ c # b) [c] = Some (a, b)"
proof -
  assume "c \<notin> set a"
  then have "find_str [c] (a @ c # b) = Some (length a)"
    by (induction a) (auto simp: starts_with_char)
  then show ?thesis by (simp add: split_once_def)
qed

lemma find_char_first:
  "(\<And>c. c \<in> set a \<Longrightarrow> \<not> P c) \<Longrightarrow> P d \<Longrightarrow> find_char P (a @ d # b) = Some (length a)"
  by (induction a) auto

lemma rsplit_once_char_last: "c \<notin> set b \<Longrightarrow> rsplit_once_char (a @ c # b) c = Some (a, b)"
proof -
  assume "c \<notin> set b"
  then have "rfind_char (\<lambda>d. d = c) (a @ c # b) = Some (length a)"
    by (induction a) (auto simp: rfind_char_None_iff split: option.splits)
  then show ?thesis by (simp add: rsplit_once_char_def)
qed

lemma rsplit_once_char_None_iff: "rsplit_once_char s c = None \<longleftrightarrow> c \<notin> set s"
  by (auto simp: rsplit_once_char_def rfind_char_None_iff)

lemma parse_absolute_port_InrD: "parse_absolute_port s = Inr p \<Longrightarrow> p \<noteq> 0"
  by (auto simp: parse_absolute_port_def try_bind_Inr_iff split: if_splits)

lemma parse_absolute_port_text:
  assumes "p \<noteq> 0"
  shows "parse_absolute_port (nat_to_string (unat p)) = Inr p"
proof -
  have "unat p \<le> 65535" using unsigned_less [of p, where ?'a = nat] by simp
  then show ?thesis
    using assms
    by (simp add: parse_absolute_port_def parse_u16_or_def parse_u16_def parse_uint_nat_to_string)
qed

lemma addr_char_plain: "addr_char c \<Longrightarrow> c \<noteq> CHR '':'' \<Longrightarrow> plain_host_char c"
  by (auto simp: addr_char_def plain_host_char_def is_ascii_hexdigit_def is_ascii_digit_def byte_def)


lemma addr_char_not_bracket: "addr_char c \<Longrightarrow> \<not> is_bracket c"
  by (auto simp: addr_char_def is_bracket_def is_ascii_hexdigit_def is_ascii_digit_def byte_def)

lemma addr_char_delims:
  "addr_char c \<Longrightarrow> \<not> is_slash_or_query c \<and> c \<noteq> CHR ''#'' \<and> c \<noteq> CHR ''@''"
  by (auto simp: addr_char_def is_slash_or_query_def is_ascii_hexdigit_def is_ascii_digit_def
      byte_def)

lemma digit_delims:
  "is_ascii_digit c \<Longrightarrow> \<not> is_slash_or_query c \<and> c \<noteq> CHR ''#'' \<and> c \<noteq> CHR ''@''"
  by (auto simp: is_slash_or_query_def is_ascii_digit_def byte_def)

lemma plain_host_char_lower: "plain_host_char (ascii_lower c) \<longleftrightarrow> plain_host_char c"
proof -
  have "ascii_lower c = d \<longleftrightarrow> c = d"
    if "d \<in> set [CHR ''['', CHR '']'', CHR '':'', CHR ''/'', CHR ''?'', CHR ''#'', CHR ''@'']" for d
    using that by (intro ascii_lower_eq_other) (auto simp: is_ascii_alphabetic_def
        is_ascii_uppercase_def is_ascii_lowercase_def byte_def)
  then show ?thesis by (simp add: plain_host_char_def)
qed

lemma parse_absolute_authority_InrD:
  assumes "parse_absolute_authority a = Inr (raw, port)"
  shows "port \<noteq> Some 0"
    and "(\<exists>h. raw = CHR ''['' # h @ [CHR '']''] \<and> parse_ipv6_addr h \<noteq> None) \<or>
      (\<forall>c \<in> set raw. \<not> is_bracket c \<and> c \<noteq> CHR '':'') \<and> set raw \<subseteq> set a \<and> raw \<noteq> []
        \<or> raw = [] \<and> a = []"
proof -
  show "port \<noteq> Some 0"
    using assms
    by (auto simp: parse_absolute_authority_def try_bind_Inr_iff Let_def
        dest: parse_absolute_port_InrD split: if_splits option.splits prod.splits)
  show "(\<exists>h. raw = CHR ''['' # h @ [CHR '']''] \<and> parse_ipv6_addr h \<noteq> None) \<or>
      (\<forall>c \<in> set raw. \<not> is_bracket c \<and> c \<noteq> CHR '':'') \<and> set raw \<subseteq> set a \<and> raw \<noteq> []
        \<or> raw = [] \<and> a = []"
  proof (cases "starts_with a ''[''")
    case True
    then obtain t where t: "a = CHR ''['' # t" by (auto simp: starts_with_char)
    from assms True obtain e where e: "find_char (\<lambda>c. c = CHR '']'') a = Some e"
      and ip: "parse_ipv6_addr (drop 1 (take e a)) \<noteq> None" and raw: "raw = take (e + 1) a"
      by (auto simp: parse_absolute_authority_def try_bind_Inr_iff Let_def
          split: if_splits option.splits)
    from find_char_SomeD [OF e] have "e < length a" "a ! e = CHR '']''" by auto
    then have "raw = take e a @ [CHR '']'']" by (simp add: raw take_Suc_conv_app_nth)
    moreover from \<open>a ! e = CHR '']''\<close> t obtain k where "e = Suc k" by (cases e) auto
    then have "take e a = CHR ''['' # drop 1 (take e a)" using t by simp
    ultimately have "raw = CHR ''['' # drop 1 (take e a) @ [CHR '']'']" by simp
    with ip show ?thesis by blast
  next
    case False
    with assms have nb: "\<forall>c \<in> set a. \<not> is_bracket c"
      by (auto simp: parse_absolute_authority_def find_char_None_iff split: if_splits)
    show ?thesis
    proof (cases "rsplit_once_char a CHR '':''")
      case None
      with False assms nb have "raw = a"
        by (simp add: parse_absolute_authority_def find_char_None_iff)
      moreover from None have "CHR '':'' \<notin> set a" by (simp add: rsplit_once_char_None_iff)
      ultimately show ?thesis using nb by (cases a) auto
    next
      case (Some p)
      obtain h q where p: "p = (h, q)" by (cases p)
      from False assms nb Some p have "raw = h" "CHR '':'' \<notin> set h" "h \<noteq> []"
        by (simp_all add: parse_absolute_authority_def find_char_None_iff try_bind_Inr_iff
            split: if_splits) blast
      with nb rsplit_once_char_SomeD(1) [OF Some [unfolded p]] show ?thesis by auto
    qed
  qed
qed

lemma wf_host_of_authority:
  assumes auth: "parse_absolute_authority a = Inr (raw, port)"
    and a: "\<forall>c \<in> set a. c \<notin> set [CHR ''/'', CHR ''?'', CHR ''#'', CHR ''@'']"
    and host: "host = to_ascii_lowercase (trim_brackets raw)" "host \<noteq> []"
      "\<not> has_control host" "\<not> has_whitespace host"
  shows "wf_host host"
proof -
  consider (v6) h where "raw = CHR ''['' # h @ [CHR '']'']" "parse_ipv6_addr h \<noteq> None"
    | (plain) "\<forall>c \<in> set raw. \<not> is_bracket c \<and> c \<noteq> CHR '':''" "set raw \<subseteq> set a"
    using parse_absolute_authority_InrD(2) [OF auth] by auto
  then have "parse_ipv6_addr host \<noteq> None \<or> list_all plain_host_char host"
  proof cases
    case v6
    then have "h \<noteq> []" and "\<forall>c \<in> set h. addr_char c"
      using parse_ipv6_addr_not_Nil parse_ipv6_addr_chars by auto
    then have "\<not> is_bracket c" if "c \<in> set h" for c
      using that by (auto dest: addr_char_not_bracket)
    with v6 \<open>h \<noteq> []\<close> have "trim_brackets raw = h" by (simp add: trim_brackets_bracketed)
    with v6 host(1) show ?thesis by (simp add: parse_ipv6_addr_lower)
  next
    case plain
    then have "trim_brackets raw = raw" by (intro trim_brackets_id) auto
    moreover have "list_all plain_host_char raw"
      using plain a by (auto simp: list_all_iff plain_host_char_def is_bracket_def)
    ultimately show ?thesis
      using host(1) by (auto simp: list_all_iff to_ascii_lowercase_def plain_host_char_lower)
  qed
  with host show ?thesis by (simp add: wf_host_def)
qed

lemma split_path_query_wf:
  assumes "split_path_query pq = (path, query)" and "starts_with pq ''/'' \<or> starts_with pq ''?''"
    and "CHR ''#'' \<notin> set pq"
  shows "starts_with path ''/'' \<and> CHR ''?'' \<notin> set path \<and> CHR ''#'' \<notin> set path \<and>
    (case query of None \<Rightarrow> True | Some q \<Rightarrow> CHR ''#'' \<notin> set q)"
proof (cases "CHR ''?'' \<in> set pq")
  case True
  then obtain a b where ab: "pq = a @ CHR ''?'' # b" "CHR ''?'' \<notin> set a"
    by (meson split_list_first)
  then have "path = (if a = [] then ''/'' else a)" "query = Some b"
    using assms(1) by (simp_all add: split_path_query_def split_once_char_first)
  with ab assms(2,3) show ?thesis by (cases a) (auto simp: starts_with_char)
next
  case False
  then have "split_once pq ''?'' = None" "strip_prefix pq ''?'' = None"
    by (auto simp: split_once_def find_str_None_iff strip_prefix_None_iff)
  with False assms show ?thesis by (auto simp: split_path_query_def starts_with_char)
qed

lemma valid_absolute_scheme_lower:
  "valid_absolute_scheme s \<Longrightarrow> valid_absolute_scheme (to_ascii_lowercase s)"
proof -
  have "is_ascii_alphabetic c \<Longrightarrow> is_ascii_alphabetic (ascii_lower c)" for c
    by (auto simp: ascii_lower_def is_ascii_alphabetic_def is_ascii_uppercase_def
        is_ascii_lowercase_def)
  moreover have "is_scheme_tail c \<Longrightarrow> is_scheme_tail (ascii_lower c)" for c
    using calculation [of c]
    by (cases "is_ascii_uppercase c")
      (auto simp: is_scheme_tail_def is_ascii_alphanumeric_def is_ascii_alphabetic_def
        ascii_lower_fixed)
  ultimately show "valid_absolute_scheme s \<Longrightarrow> valid_absolute_scheme (to_ascii_lowercase s)"
    by (cases s) (auto simp: valid_absolute_scheme_def list_all_iff to_ascii_lowercase_def)
qed

lemma url_parse_InrE:
  assumes "url_parse input = Inr u"
  obtains scheme rest authority pq raw port where
    "split_once input ''://'' = Some (scheme, rest)" "valid_absolute_scheme scheme"
    "CHR ''#'' \<notin> set input"
    "(authority, pq) = (case find_char is_slash_or_query rest of
        Some idx \<Rightarrow> (take idx rest, drop idx rest) | None \<Rightarrow> (rest, ''/''))"
    "CHR ''@'' \<notin> set authority" "parse_absolute_authority authority = Inr (raw, port)"
    "url_scheme u = to_ascii_lowercase scheme"
    "url_host u = to_ascii_lowercase (trim_brackets raw)" "url_host u \<noteq> []"
    "\<not> has_control (url_host u)" "\<not> has_whitespace (url_host u)" "url_port u = port"
    "split_path_query pq = (url_path u, url_query u)"
  using assms
  by (auto simp: url_parse_def try_bind_Inr_iff Let_def split: option.splits prod.splits if_splits)

lemma split_authority:
  assumes "(authority, pq) = (case find_char is_slash_or_query rest of
        Some idx \<Rightarrow> (take idx rest, drop idx rest) | None \<Rightarrow> (rest, ''/''))"
    and "CHR ''#'' \<notin> set rest"
  shows "(\<forall>c \<in> set authority. \<not> is_slash_or_query c) \<and> set authority \<subseteq> set rest \<and>
    (starts_with pq ''/'' \<or> starts_with pq ''?'') \<and> CHR ''#'' \<notin> set pq"
proof (cases "find_char is_slash_or_query rest")
  case None
  with assms show ?thesis by (simp add: find_char_None_iff starts_with_char)
next
  case (Some idx)
  from find_char_SomeD [OF Some] have idx: "idx < length rest" "is_slash_or_query (rest ! idx)"
    "\<forall>c \<in> set (take idx rest). \<not> is_slash_or_query c" by auto
  from Some assms(1) have split: "authority = take idx rest" "pq = drop idx rest" by simp_all
  have "pq = rest ! idx # drop (Suc idx) rest" using idx(1) split(2) by (simp add: Cons_nth_drop_Suc)
  then have "starts_with pq ''/'' \<or> starts_with pq ''?''"
    using idx(2) by (simp add: starts_with_char is_slash_or_query_def)
  moreover have "set authority \<subseteq> set rest" "set pq \<subseteq> set rest"
    unfolding split by (rule set_take_subset, rule set_drop_subset)
  ultimately show ?thesis using idx(3) split(1) assms(2) by blast
qed

lemma url_parse_wf:
  assumes "url_parse input = Inr u"
  shows "wf_url u"
  using assms
proof (rule url_parse_InrE)
  fix scheme rest authority pq raw port
  assume *: "split_once input ''://'' = Some (scheme, rest)" "valid_absolute_scheme scheme"
    "CHR ''#'' \<notin> set input"
    "(authority, pq) = (case find_char is_slash_or_query rest of
        Some idx \<Rightarrow> (take idx rest, drop idx rest) | None \<Rightarrow> (rest, ''/''))"
    "CHR ''@'' \<notin> set authority" "parse_absolute_authority authority = Inr (raw, port)"
    "url_scheme u = to_ascii_lowercase scheme"
    "url_host u = to_ascii_lowercase (trim_brackets raw)" "url_host u \<noteq> []"
    "\<not> has_control (url_host u)" "\<not> has_whitespace (url_host u)" "url_port u = port"
    "split_path_query pq = (url_path u, url_query u)"
  from split_once_SomeD [OF *(1)] *(3) have rest: "CHR ''#'' \<notin> set rest" by auto
  have a: "\<forall>c \<in> set authority. \<not> is_slash_or_query c" and "set authority \<subseteq> set rest"
    and pq: "starts_with pq ''/'' \<or> starts_with pq ''?''" and "CHR ''#'' \<notin> set pq"
    using split_authority [OF *(4) rest] by auto
  have "wf_host (url_host u)"
    by (rule wf_host_of_authority [OF *(6) _ *(8,9,10,11)])
      (use a rest \<open>set authority \<subseteq> set rest\<close> *(5) in \<open>auto simp: is_slash_or_query_def\<close>)
  with split_path_query_wf [OF *(13) pq \<open>CHR ''#'' \<notin> set pq\<close>] *
    parse_absolute_authority_InrD(1) [OF *(6)]
  show ?thesis by (simp add: wf_url_def valid_absolute_scheme_lower)
qed


lemma split_once_scheme:
  assumes "valid_absolute_scheme s"
  shows "split_once (s @ ''://'' @ r) ''://'' = Some (s, r)"
proof -
  have no: "CHR '':'' \<notin> set s"
    using assms
    by (cases s) (auto simp: valid_absolute_scheme_def list_all_iff is_scheme_tail_def
        is_ascii_alphanumeric_def is_ascii_alphabetic_def is_ascii_uppercase_def
        is_ascii_lowercase_def is_ascii_digit_def byte_def)
  then have "find_str ''://'' (s @ ''://'' @ r) = Some (length s)"
    by (induction s) (auto simp: starts_with_def)
  then show ?thesis by (simp add: split_once_def)
qed

lemma split_path_query_text:
  assumes "starts_with p ''/''" and "CHR ''?'' \<notin> set p"
  shows "split_path_query (p @ (case q of None \<Rightarrow> [] | Some q \<Rightarrow> CHR ''?'' # q)) = (p, q)"
proof (cases q)
  case None
  have "split_once p ''?'' = None" "strip_prefix p ''?'' = None"
    using assms(2) by (auto simp: split_once_def find_str_None_iff strip_prefix_None_iff)
  with None show ?thesis by (simp add: split_path_query_def)
next
  case (Some t)
  have "p \<noteq> []" using assms(1) by (auto simp: starts_with_char)
  with Some assms(2) show ?thesis by (simp add: split_path_query_def split_once_char_first)
qed

lemma parse_authority_text:
  assumes "wf_host (url_host u)" and "url_port u \<noteq> Some 0"
  shows "\<exists>raw. parse_absolute_authority (authority_text u) = Inr (raw, url_port u) \<and>
    trim_brackets raw = url_host u"
proof (cases "CHR '':'' \<in> set (url_host u)")
  case True
  let ?h = "url_host u"
  let ?p = "case url_port u of None \<Rightarrow> [] | Some p \<Rightarrow> CHR '':'' # nat_to_string (unat p)"
  from True assms(1) have ip: "parse_ipv6_addr ?h \<noteq> None"
    by (auto simp: wf_host_def list_all_iff plain_host_char_def)
  then have nb: "\<not> is_bracket c" if "c \<in> set ?h" for c
    using that parse_ipv6_addr_chars [of ?h] by (auto dest: addr_char_not_bracket)
  let ?a = "CHR ''['' # ?h @ CHR '']'' # ?p"
  have shown: "authority_text u = ?a" using True by (simp add: authority_text_def)
  have "find_char (\<lambda>c. c = CHR '']'') (CHR ''['' # (?h @ CHR '']'' # ?p)) = Some (Suc (length ?h))"
    using nb find_char_first [of ?h "\<lambda>c. c = CHR '']''"] by (simp add: is_bracket_def)
  then have "parse_absolute_authority ?a = Inr (CHR ''['' # ?h @ [CHR '']''], url_port u)"
    using ip assms(2) parse_absolute_port_text
    by (cases "url_port u")
      (auto simp: parse_absolute_authority_def starts_with_char strip_prefix_def Let_def)
  moreover have "trim_brackets (CHR ''['' # ?h @ [CHR '']'']) = ?h"
    using nb assms(1) by (intro trim_brackets_bracketed) (auto simp: wf_host_def)
  ultimately show ?thesis using shown by auto
next
  case False
  let ?h = "url_host u"
  from False assms(1) have plain: "list_all plain_host_char ?h" and ne: "?h \<noteq> []"
    by (auto simp: wf_host_def dest: parse_ipv6_addr_colon)
  then have nb: "\<forall>c \<in> set ?h. \<not> is_bracket c"
    by (auto simp: list_all_iff plain_host_char_def is_bracket_def)
  then have "trim_brackets ?h = ?h" by (intro trim_brackets_id) auto
  moreover have "parse_absolute_authority (authority_text u) = Inr (?h, url_port u)"
  proof (cases "url_port u")
    case None
    have "\<not> starts_with ?h ''[''" using nb starts_with_char_set by (force simp: is_bracket_def)
    moreover have "find_char is_bracket ?h = None" using nb by (simp add: find_char_None_iff)
    ultimately show ?thesis
      using None False
      by (simp add: parse_absolute_authority_def authority_text_def rsplit_once_char_None_iff
          [THEN iffD2])
  next
    case (Some p)
    let ?t = "nat_to_string (unat p)"
    have digits: "\<forall>c \<in> set ?t. is_ascii_digit c" using nat_to_string_digits by blast
    have nt: "\<forall>c \<in> set ?t. \<not> is_bracket c \<and> c \<noteq> CHR '':''"
      using digits by (auto simp: is_bracket_def is_ascii_digit_def byte_def)
    have shown: "authority_text u = ?h @ CHR '':'' # ?t" using Some False by (simp add: authority_text_def)
    have "\<not> starts_with (?h @ CHR '':'' # ?t) ''[''"
      using nb nt starts_with_char_set [of "?h @ CHR '':'' # ?t"] by (auto simp: is_bracket_def)
    moreover have "find_char is_bracket (?h @ CHR '':'' # ?t) = None"
      using nb nt by (auto simp: find_char_None_iff is_bracket_def)
    moreover have "rsplit_once_char (?h @ CHR '':'' # ?t) CHR '':'' = Some (?h, ?t)"
      using nt by (intro rsplit_once_char_last) auto
    ultimately show ?thesis
      using False ne assms(2) Some
      by (simp add: shown parse_absolute_authority_def parse_absolute_port_text)
  qed
  ultimately show ?thesis by blast
qed


lemma authority_text_chars:
  assumes "wf_host (url_host u)" and "c \<in> set (authority_text u)"
  shows "\<not> is_slash_or_query c \<and> c \<noteq> CHR ''#'' \<and> c \<noteq> CHR ''@''"
proof -
  have host: "\<not> is_slash_or_query c \<and> c \<noteq> CHR ''#'' \<and> c \<noteq> CHR ''@''" if "c \<in> set (url_host u)" for c
  proof (cases "parse_ipv6_addr (url_host u)")
    case None
    with assms(1) that show ?thesis
      by (auto simp: wf_host_def list_all_iff plain_host_char_def is_slash_or_query_def)
  next
    case (Some g)
    with that show ?thesis using parse_ipv6_addr_chars addr_char_delims by blast
  qed
  consider "c \<in> set (url_host u)" | "c = CHR ''[''" | "c = CHR '']''" | "c = CHR '':''"
    | "is_ascii_digit c"
    using assms(2) nat_to_string_digits
    by (auto simp: authority_text_def split: if_splits option.splits)
  then show ?thesis
    by cases (auto simp: is_slash_or_query_def dest!: host digit_delims)
qed

lemma url_parse_text:
  assumes "wf_url u"
  shows "url_parse (url_text u) = Inr u"
proof -
  from assms have wf: "valid_absolute_scheme (url_scheme u)"
    "to_ascii_lowercase (url_scheme u) = url_scheme u" "wf_host (url_host u)"
    "url_port u \<noteq> Some 0" "starts_with (url_path u) ''/''" "CHR ''?'' \<notin> set (url_path u)"
    "CHR ''#'' \<notin> set (url_path u)" "\<And>q. url_query u = Some q \<Longrightarrow> CHR ''#'' \<notin> set q"
    by (auto simp: wf_url_def split: option.splits)
  obtain t where path: "url_path u = CHR ''/'' # t" using wf(5) by (auto simp: starts_with_char)
  let ?q = "case url_query u of None \<Rightarrow> [] | Some q \<Rightarrow> CHR ''?'' # q"
  let ?pq = "url_path u @ ?q"
  let ?a = "authority_text u"
  note chars = authority_text_chars [OF wf(3)]
  have find: "find_char is_slash_or_query (?a @ ?pq) = Some (length ?a)"
    unfolding path append_Cons using chars by (intro find_char_first) (auto simp: is_slash_or_query_def)
  have "CHR ''#'' \<notin> set (url_scheme u)"
    using wf(1) by (cases "url_scheme u")
      (auto simp: valid_absolute_scheme_def list_all_iff is_scheme_tail_def byte_def
        is_ascii_alphanumeric_def is_ascii_alphabetic_def is_ascii_uppercase_def
        is_ascii_lowercase_def is_ascii_digit_def)
  then have hash: "CHR ''#'' \<notin> set (url_text u)"
    using chars wf(7,8) by (auto simp: url_text_def split: option.splits)
  have ne: "?a \<noteq> []" using wf(3) by (auto simp: authority_text_def wf_host_def)
  have at: "CHR ''@'' \<notin> set ?a" using chars by blast
  have once: "split_once (url_text u) ''://'' = Some (url_scheme u, ?a @ ?pq)"
    using split_once_scheme [OF wf(1)] by (simp add: url_text_def)
  obtain raw where "parse_absolute_authority ?a = Inr (raw, url_port u)"
    "trim_brackets raw = url_host u"
    using parse_authority_text [OF wf(3,4)] by blast
  with once find hash ne at wf split_path_query_text [OF wf(5,6), of "url_query u"]
  show ?thesis by (simp add: url_parse_def wf_host_def Let_def)
qed

text \<open>
  C37: a URL accepted by \<open>UrlParts::parse\<close> is well formed (a lower-case valid scheme, a
  lower-case host that is a plain name or an IPv6 address, a port other than 0, a path that
  starts with a slash and has no query or fragment) and printing it gives a text that parses
  to the same parts.
\<close>
theorem url_parse_roundtrip:
  assumes "url_parse input = Inr u"
  shows "wf_url u \<and> url_parse (url_text u) = Inr u"
  using url_parse_wf [OF assms] url_parse_text by blast


theorem url_parse_roundtrip_witness:
  "\<exists>u. url_parse ''HTTP://Example.com:8080/a?b=1'' = Inr u \<and> wf_url u \<and>
     url_parse (url_text u) = Inr u \<and> url_text u = ''http://example.com:8080/a?b=1''"
proof -
  define u where "u = \<lparr>url_scheme = ''http'', url_host = ''example.com'', url_port = Some 8080,
    url_path = ''/a'', url_query = Some ''b=1''\<rparr>"
  have parsed: "url_parse ''HTTP://Example.com:8080/a?b=1'' = Inr u"
    unfolding u_def by code_simp
  have "url_text u = ''http://example.com:8080/a?b=1''"
    unfolding u_def by code_simp
  with parsed url_parse_roundtrip [OF parsed] show ?thesis by blast
qed

end
