(* ===== verification/Btree_Map.thy ===== *)
theory Btree_Map
  imports Prelude "HOL-Library.List_Lexorder" "HOL-Library.Char_ord"
begin

text \<open>
  \<open>BTreeMap\<close> and \<open>BTreeSet\<close> of the Rust standard library, as the sources use them: an
  association list sorted by key. The interface \<open>ordered_map\<close> states what a lookup returns
  after an insertion; its clients are the grouping loops of the rule index, which push into
  the bucket of a key (\<open>entry(key).or_default().push(value)\<close>). Keys that are strings compare
  bytewise, as \<open>String\<close> does.
\<close>

section \<open>Sorted association lists\<close>

definition bt_empty :: "('k::linorder \<times> 'v) list" where
  "bt_empty = []"

definition bt_get :: "('k::linorder \<times> 'v) list \<Rightarrow> 'k \<Rightarrow> 'v option" where
  "bt_get m k = map_of m k"

fun bt_insert :: "'k::linorder \<Rightarrow> 'v \<Rightarrow> ('k \<times> 'v) list \<Rightarrow> ('k \<times> 'v) list" where
  "bt_insert k v [] = [(k, v)]"
| "bt_insert k v ((k', v') # m) =
     (if k < k' then (k, v) # (k', v') # m
      else if k = k' then (k, v) # m
      else (k', v') # bt_insert k v m)"

definition bt_inv :: "('k::linorder \<times> 'v) list \<Rightarrow> bool" where
  "bt_inv m \<longleftrightarrow> sorted_wrt (<) (map fst m)"

definition bt_bucket :: "('k::linorder \<times> 'v list) list \<Rightarrow> 'k \<Rightarrow> 'v list" where
  "bt_bucket m k = (case bt_get m k of None \<Rightarrow> [] | Some vs \<Rightarrow> vs)"

definition bt_push :: "'k::linorder \<Rightarrow> 'v \<Rightarrow> ('k \<times> 'v list) list \<Rightarrow> ('k \<times> 'v list) list" where
  "bt_push k v m = bt_insert k (bt_bucket m k @ [v]) m"

fun bs_insert :: "'k::linorder \<Rightarrow> 'k list \<Rightarrow> 'k list" where
  "bs_insert k [] = [k]"
| "bs_insert k (k' # s) =
     (if k < k' then k # k' # s else if k = k' then k' # s else k' # bs_insert k s)"

definition bs_of_list :: "'k::linorder list \<Rightarrow> 'k list" where
  "bs_of_list ks = foldl (\<lambda>s k. bs_insert k s) [] ks"

section \<open>Ordered maps as an interface\<close>

locale ordered_map =
  fixes inv :: "'m \<Rightarrow> bool" and empty :: 'm and get :: "'m \<Rightarrow> 'k \<Rightarrow> 'v option"
    and put :: "'k \<Rightarrow> 'v \<Rightarrow> 'm \<Rightarrow> 'm" and entries :: "'m \<Rightarrow> ('k \<times> 'v) list"
  assumes inv_empty: "inv empty" and get_empty: "get empty k = None"
    and inv_put: "inv m \<Longrightarrow> inv (put k v m)"
    and get_put: "inv m \<Longrightarrow> get (put k v m) k' = (if k' = k then Some v else get m k')"
    and get_entries: "inv m \<Longrightarrow> get m k = Some v \<longleftrightarrow> (k, v) \<in> set (entries m)"
begin

lemma inv_foldl_put: "inv m \<Longrightarrow> inv (foldl (\<lambda>m (k, v). put k v m) m kvs)"
  by (induction kvs arbitrary: m) (auto simp: inv_put)

lemma get_foldl_put:
  "inv m \<Longrightarrow> get (foldl (\<lambda>m (k, v). put k v m) m kvs) k =
     (case map_of (rev kvs) k of None \<Rightarrow> get m k | Some v \<Rightarrow> Some v)"
  by (induction kvs arbitrary: m)
     (auto simp: inv_put get_put map_add_def split: option.splits)

lemma get_put_mono: "inv m \<Longrightarrow> get m k' \<noteq> None \<Longrightarrow> get (put k v m) k' \<noteq> None"
  by (simp add: get_put)

end

locale bucket_map = ordered_map inv empty get put entries
  for inv :: "'m \<Rightarrow> bool" and empty :: 'm and get :: "'m \<Rightarrow> 'k \<Rightarrow> 'a list option"
    and put :: "'k \<Rightarrow> 'a list \<Rightarrow> 'm \<Rightarrow> 'm" and entries :: "'m \<Rightarrow> ('k \<times> 'a list) list" +
  fixes bucket :: "'m \<Rightarrow> 'k \<Rightarrow> 'a list" and push :: "'k \<Rightarrow> 'a \<Rightarrow> 'm \<Rightarrow> 'm"
  assumes bucket_eq: "bucket m k = (case get m k of None \<Rightarrow> [] | Some vs \<Rightarrow> vs)"
    and push_eq: "push k v m = put k (bucket m k @ [v]) m"
begin

lemma inv_push: "inv m \<Longrightarrow> inv (push k v m)"
  by (simp add: push_eq inv_put)

lemma bucket_push:
  "inv m \<Longrightarrow> bucket (push k v m) k' = (if k' = k then bucket m k @ [v] else bucket m k')"
  by (simp add: bucket_eq push_eq get_put)

lemma bucket_empty: "bucket empty k = []"
  by (simp add: bucket_eq get_empty)

lemma bucket_entries: "inv m \<Longrightarrow> (k, vs) \<in> set (entries m) \<Longrightarrow> bucket m k = vs"
  using get_entries [of m k vs] by (simp add: bucket_eq)

lemma bucket_entry: "inv m \<Longrightarrow> v \<in> set (bucket m k) \<Longrightarrow> (k, bucket m k) \<in> set (entries m)"
proof (cases "get m k")
  case (Some vs)
  moreover assume "inv m"
  ultimately show ?thesis using get_entries [of m k vs] by (simp add: bucket_eq)
qed (simp add: bucket_eq)

end

section \<open>The sorted lists provide the interface\<close>

lemma set_keys_bt_insert: "set (map fst (bt_insert k v m)) = insert k (set (map fst m))"
  by (induction k v m rule: bt_insert.induct) (simp_all add: insert_commute)

lemma bt_inv_insert: "bt_inv m \<Longrightarrow> bt_inv (bt_insert k v m)"
proof (induction m)
  case Nil
  then show ?case by (simp add: bt_inv_def)
next
  case (Cons e m)
  obtain k' v' where e: "e = (k', v')" by fastforce
  from Cons.prems have "bt_inv m" and "\<forall>x \<in> set (map fst m). k' < x"
    by (simp_all add: bt_inv_def e)
  with Cons.IH set_keys_bt_insert [of k v m] Cons.prems show ?case
    by (auto simp: bt_inv_def e)
qed

lemma bt_get_insert:
  "bt_inv m \<Longrightarrow> bt_get (bt_insert k v m) k' = (if k' = k then Some v else bt_get m k')"
  by (induction m) (auto simp: bt_inv_def bt_get_def split: if_splits)

interpretation btree: ordered_map bt_inv bt_empty bt_get bt_insert "\<lambda>m. m"
proof (unfold_locales, goal_cases)
  case (5 m k v)
  then have "distinct (map fst m)"
    unfolding bt_inv_def by (metis strict_sorted_iff)
  then show ?case by (simp add: bt_get_def)
qed (simp_all add: bt_inv_insert bt_get_insert, simp_all add: bt_inv_def bt_empty_def bt_get_def)

interpretation buckets: bucket_map bt_inv bt_empty bt_get bt_insert "\<lambda>m. m" bt_bucket bt_push
  by unfold_locales (simp_all add: bt_bucket_def bt_push_def)

lemma bt_empty_simps [simp]: "bt_inv bt_empty" "bt_get bt_empty k = None"
  by (simp_all add: bt_inv_def bt_empty_def bt_get_def)

lemma set_bs_insert [simp]: "set (bs_insert k s) = insert k (set s)"
  by (induction s) auto

lemma set_bs_of_list [simp]: "set (bs_of_list ks) = set ks"
proof -
  have "set (foldl (\<lambda>s k. bs_insert k s) acc ks) = set acc \<union> set ks" for acc
    by (induction ks arbitrary: acc) auto
  then show ?thesis by (simp add: bs_of_list_def)
qed

lemma sorted_bs_insert: "sorted_wrt (<) s \<Longrightarrow> sorted_wrt (<) (bs_insert k s)"
  by (induction s) auto

lemma sorted_bs_of_list: "sorted_wrt (<) (bs_of_list ks)"
proof -
  have "sorted_wrt (<) acc \<Longrightarrow> sorted_wrt (<) (foldl (\<lambda>s k. bs_insert k s) acc ks)" for acc
    by (induction ks arbitrary: acc) (auto simp: sorted_bs_insert)
  then show ?thesis by (simp add: bs_of_list_def)
qed

lemma distinct_bs_of_list: "distinct (bs_of_list ks)"
  using sorted_bs_of_list strict_sorted_iff by blast

end
