(* ===== verification/Rule_Model.thy ===== *)
theory Rule_Model
  imports Rule_Url Rule_Action Btree_Map
begin

text \<open>
  The rule model (\<open>model.rs\<close>): matchers, conditions, rules, request and response snapshots,
  captures and resolution results; and the questions the planner asks of a condition tree
  (\<open>planning.rs\<close>). The code the crate only calls (the regex engines, the regex parser, the
  multi-pattern matcher, the process environment) is the record \<open>ext\<close> that the operations
  take as a parameter, with what the crate relies on as named hypotheses on it.
\<close>

section \<open>External engines\<close>

text \<open>
  A successful regex match: the groups by index, group 0 first, and for every capture name
  of the pattern the text it captured, if any.
\<close>

record rx_match =
  rx_groups :: "string option list"
  rx_names :: "(string \<times> string option) list"

text \<open>One match of an iteration over all matches: its byte range and its captures.\<close>

record rx_found =
  rx_start :: nat
  rx_end :: nat
  rx_captures :: rx_match

text \<open>The high-level intermediate representation that \<open>regex_syntax::parse\<close> returns.\<close>

datatype hir =
    HirEmpty
  | HirLiteral string
  | HirClass "(nat \<times> nat) list"
  | HirLook nat
  | HirRepetition nat "nat option" hir
  | HirCapture hir
  | HirConcat "hir list"
  | HirAlternation "hir list"

record ext =
  is_meta_character :: "char \<Rightarrow> bool"
  glob_new :: "string \<Rightarrow> bool"
  glob_captures :: "string \<Rightarrow> string \<Rightarrow> string option list option"
  linear_new :: "string \<Rightarrow> bool \<Rightarrow> bool"
  linear_captures :: "string \<Rightarrow> bool \<Rightarrow> string \<Rightarrow> rx_match option"
  linear_captures_iter :: "string \<Rightarrow> bool \<Rightarrow> string \<Rightarrow> rx_found list"
  fancy_new :: "string \<Rightarrow> bool"
  fancy_captures :: "string \<Rightarrow> string \<Rightarrow> rx_match option"
  hir_parse :: "string \<Rightarrow> hir option"
  ac_new :: "bool \<Rightarrow> string list \<Rightarrow> bool"
  ac_overlapping :: "bool \<Rightarrow> string list \<Rightarrow> string \<Rightarrow> nat list"
  env_var :: "string \<Rightarrow> string option"

section \<open>Matchers and conditions\<close>

datatype regex_engine = EngineLinear | EngineFancy

record regex_matcher =
  rm_pattern :: string
  rm_case_insensitive :: bool
  rm_engine :: regex_engine

record glob_matcher =
  gm_scheme :: "string option"
  gm_host :: string
  gm_port :: "string option"
  gm_path :: "string option"
  gm_query :: "string option"

datatype matcher =
    MExactUrl string
  | MGlob glob_matcher
  | MPort u16
  | MRegex regex_matcher
  | MNot matcher

datatype url_condition = UrlGlob string | UrlRegex regex_matcher

datatype condition =
    CMethod "string list"
  | CHost string
  | CUrl url_condition
  | CClientIp "string list"
  | CServerIp "string list"
  | CHeaderPresent string
  | CHeaderContains string string
  | CResHeaderPresent string
  | CResHeaderContains string string
  | CBodyContains string
  | CBodyRegex regex_matcher
  | CStatus "u16 list"
  | CChancePermille u16
  | CEnvPresent string
  | CEnvEquals string string
  | CAny "condition list"
  | CAll "condition list"
  | CNot condition

record rule =
  rule_group :: string
  rule_line :: nat
  rule_raw :: string
  rule_matcher :: matcher
  rule_actions :: "action list"
  rule_conditions :: "condition list"
  rule_important :: bool
  rule_disabled :: bool
  rule_tags :: "string list"

section \<open>Requests, responses and results\<close>

text \<open>The values of a request that templates expose, once they are initialised.\<close>

record template_metadata =
  tm_id :: string
  tm_now_ms :: u64
  tm_random :: u64
  tm_random_uuid :: string

record request_meta =
  req_method :: string
  req_url :: string
  req_headers :: "(string \<times> string) list"
  req_body :: string
  req_client_ip :: "string option"
  req_server_ip :: "string option"
  req_template :: template_metadata

record response_meta =
  res_status :: u16
  res_headers :: "(string \<times> string) list"

record captures =
  whole :: "string option"
  indexed :: "string list"
  named :: "(string \<times> string) list"

definition captures_default :: captures where
  "captures_default = \<lparr>whole = None, indexed = [], named = bt_empty\<rparr>"

text \<open>At most nine numbered captures are kept; further ones are dropped.\<close>

definition insert_index :: "string \<Rightarrow> captures \<Rightarrow> captures" where
  "insert_index v c = (if length (indexed c) < 9 then c\<lparr>indexed := indexed c @ [v]\<rparr> else c)"

record matched_rule =
  mr_group :: string
  mr_line :: nat
  mr_raw :: string

record resolved_action =
  ra_action :: action
  ra_rule :: matched_rule
  ra_captures :: captures
  ra_response :: "response_meta option"

record resolve_result =
  rr_actions :: "resolved_action list"
  rr_matched_rules :: "matched_rule list"

section \<open>Compiled resources\<close>

type_synonym glob_id = nat
type_synonym body_literal_id = nat

datatype compiled_matcher_resources =
    NoMatcherResources
  | GlobResources "glob_id option" "glob_id option" "glob_id option" "glob_id option"
  | NotMatcherResources compiled_matcher_resources

datatype compiled_condition_resources =
    NoConditionResources
  | HostResource "glob_id option"
  | UrlGlobResource "glob_id option"
  | ClientIpResource "glob_id option list"
  | ServerIpResource "glob_id option list"
  | BodyContainsResource body_literal_id
  | ChildrenResources "compiled_condition_resources list"
  | NotConditionResources compiled_condition_resources

record compiled_rule_resources =
  crr_matcher :: compiled_matcher_resources
  crr_conditions :: "compiled_condition_resources list"

text \<open>
  A glob program is the regex source it was compiled from. The ids are a map from the
  separator and the pattern, nested as in the source.
\<close>

record compiled_glob_set =
  cgs_ids :: "(char \<times> (string \<times> glob_id) list) list"
  cgs_programs :: "string list"

record compiled_body_contains_set =
  cbs_literals :: "string list"
  cbs_literal_ids :: "(string \<times> nat) list"
  cbs_matcher :: "string list option"

record rule_index =
  domain_exact :: "(string \<times> nat list) list"
  domain_suffix :: "(string \<times> nat list) list"
  global_rules :: "nat list"
  prefilter_literals :: "string list"
  prefilter_literal_rules :: "nat list list"
  prefilter_rule_ids :: "nat list"
  prefilter :: "string list option"
  compiled_globs :: compiled_glob_set
  compiled_body_literals :: compiled_body_contains_set
  compiled_resources :: "compiled_rule_resources list"

record rule_set =
  rs_language_version :: u16
  rs_version :: u64
  rs_rules :: "rule list"
  rs_index :: rule_index

section \<open>Condition trees\<close>

text \<open>The nodes of a condition tree in the order \<open>for_each_node\<close> visits them.\<close>

fun condition_nodes :: "condition \<Rightarrow> condition list" where
  "condition_nodes (CAny cs) = CAny cs # concat (map condition_nodes cs)"
| "condition_nodes (CAll cs) = CAll cs # concat (map condition_nodes cs)"
| "condition_nodes (CNot c) = CNot c # condition_nodes c"
| "condition_nodes c = [c]"

fun depends_on_request_body :: "condition \<Rightarrow> bool" where
  "depends_on_request_body (CBodyContains _) = True"
| "depends_on_request_body (CBodyRegex _) = True"
| "depends_on_request_body (CAny cs) = list_ex depends_on_request_body cs"
| "depends_on_request_body (CAll cs) = list_ex depends_on_request_body cs"
| "depends_on_request_body (CNot c) = depends_on_request_body c"
| "depends_on_request_body _ = False"

fun depends_on_response :: "condition \<Rightarrow> bool" where
  "depends_on_response (CResHeaderPresent _) = True"
| "depends_on_response (CResHeaderContains _ _) = True"
| "depends_on_response (CStatus _) = True"
| "depends_on_response (CAny cs) = list_ex depends_on_response cs"
| "depends_on_response (CAll cs) = list_ex depends_on_response cs"
| "depends_on_response (CNot c) = depends_on_response c"
| "depends_on_response _ = False"

lemma condition_nodes_self: "c \<in> set (condition_nodes c)"
  by (cases c) simp_all

lemma condition_nodes_child:
  "d \<in> set cs \<Longrightarrow> set (condition_nodes d) \<subseteq> set (condition_nodes (CAny cs))"
  "d \<in> set cs \<Longrightarrow> set (condition_nodes d) \<subseteq> set (condition_nodes (CAll cs))"
  "set (condition_nodes c) \<subseteq> set (condition_nodes (CNot c))"
  by auto

lemma indexed_insert_index: "length (indexed c) \<le> 9 \<Longrightarrow> length (indexed (insert_index v c)) \<le> 9"
  by (simp add: insert_index_def)

end
