(* ===== verification/Rule_Glob.thy ===== *)
theory Rule_Glob
  imports Rule_Model Utf8 "HOL-Library.Monad_Syntax"
begin

text \<open>
  Matching primitives of the rule engine (\<open>matching.rs\<close>): the translation of a glob into a
  regex source, the set of glob programs a snapshot compiles once, host and IP patterns,
  path prefixes, header lookup and deterministic sampling. The interface
  \<open>program_store\<close> states what registering patterns promises to the code that later looks
  their programs up by id.
\<close>

section \<open>Globs as regex sources\<close>

definition MAX_GLOB_PATTERN_BYTES :: nat where
  "MAX_GLOB_PATTERN_BYTES = MAX_RULE_SOURCE_LINE_BYTES"

definition regex_literal :: "ext \<Rightarrow> char \<Rightarrow> string" where
  "regex_literal E c = (if is_meta_character E c then [CHR 0x5C, c] else [c])"

text \<open>
  The loop over the pattern's characters, with the number of captures opened so far. An
  escape at the end of the pattern has no character to escape and fails.
\<close>

function glob_body :: "ext \<Rightarrow> char \<Rightarrow> nat \<Rightarrow> string \<Rightarrow> string option" where
  "glob_body E sep n [] = Some []"
| "glob_body E sep n (c # s) =
     (if c = CHR 0x5C then
        (case s of
           [] \<Rightarrow> None
         | d # t \<Rightarrow> map_option (\<lambda>r. regex_literal E d @ r) (glob_body E sep n t))
      else if c \<noteq> CHR ''*'' then
        map_option (\<lambda>r. regex_literal E c @ r) (glob_body E sep n s)
      else
        (let dbl = (s \<noteq> [] \<and> hd s = CHR ''*'');
             capture = n < MAX_RULE_GLOB_CAPTURES in
         map_option
           (\<lambda>r. (if capture then ''('' else ''(?:'') @
                (if dbl then ''.*?'' else ''[^'' @ regex_literal E sep @ '']*?'') @ '')'' @ r)
           (glob_body E sep (if capture then Suc n else n) (if dbl then tl s else s))))"
  by pat_completeness auto
termination by (relation "measure (\<lambda>(E, sep, n, s). length s)") auto

definition glob_source :: "ext \<Rightarrow> string \<Rightarrow> char \<Rightarrow> string option" where
  "glob_source E pattern sep =
     map_option (\<lambda>b. ''(?s)'' @ [CHR 0x5C] @ ''A'' @ b @ [CHR 0x5C] @ ''z'')
       (glob_body E sep 0 pattern)"

definition compile_glob_regex :: "ext \<Rightarrow> string \<Rightarrow> char \<Rightarrow> string option" where
  "compile_glob_regex E pattern sep =
     (case glob_source E pattern sep of
        None \<Rightarrow> None
      | Some source \<Rightarrow> if glob_new E source then Some source else None)"

definition validate_glob_pattern :: "ext \<Rightarrow> string \<Rightarrow> char \<Rightarrow> string \<Rightarrow> unit model_result" where
  "validate_glob_pattern E pattern sep ctx =
     (if MAX_GLOB_PATTERN_BYTES < length pattern then Inl (LimitExceeded ctx)
      else if compile_glob_regex E pattern sep = None then Inl (InvalidInput ctx)
      else Inr ())"

section \<open>Host, IP and path patterns\<close>

definition glob_syntax_is_active :: "string \<Rightarrow> bool" where
  "glob_syntax_is_active pattern = list_ex (\<lambda>c. c = CHR ''*'' \<or> c = CHR 0x5C) pattern"

definition host_pattern_uses_regex :: "string \<Rightarrow> bool" where
  "host_pattern_uses_regex pattern =
     (let pattern = trim_brackets pattern in
      glob_syntax_is_active pattern \<and> pattern \<noteq> ''*'' \<and> pattern \<noteq> ''**'' \<and>
      \<not> starts_with pattern ''*.'' \<and> \<not> starts_with pattern ''**.'')"

definition exact_url_matches :: "string \<Rightarrow> url_parts \<Rightarrow> bool" where
  "exact_url_matches expected url =
     (case url_parse expected of
        Inl _ \<Rightarrow> False
      | Inr expected \<Rightarrow>
          url_scheme expected = url_scheme url \<and> url_host expected = url_host url \<and>
          effective_port expected = effective_port url \<and> url_path expected = url_path url \<and>
          (url_query expected = None \<or> url_query expected = url_query url))"

definition dotted_suffix_prefix :: "string \<Rightarrow> string \<Rightarrow> string option" where
  "dotted_suffix_prefix host base =
     (case strip_suffix host base of None \<Rightarrow> None | Some h \<Rightarrow> strip_suffix h ''.'')"

definition normalize_ip_value :: "string \<Rightarrow> string" where
  "normalize_ip_value v =
     (case parse_socket_addr_ip v of
        Some ip \<Rightarrow> ip_to_string ip
      | None \<Rightarrow> trim_brackets (trim v))"

definition path_prefix_matches :: "string \<Rightarrow> string \<Rightarrow> bool" where
  "path_prefix_matches pattern path \<longleftrightarrow>
     pattern = ''/'' \<or> path = pattern \<or>
     (starts_with path pattern \<and>
      (ends_with pattern ''/'' \<or> nth_opt path (length pattern) = Some (CHR ''/'')))"

definition header :: "(string \<times> string) list \<Rightarrow> string \<Rightarrow> string option" where
  "header headers name =
     map_option snd (find (\<lambda>(k, _). eq_ignore_ascii_case k name) headers)"

section \<open>Deterministic sampling\<close>

definition fnv_step :: "u64 \<Rightarrow> char \<Rightarrow> u64" where
  "fnv_step h c = (xor h (of_nat (byte c))) * 1099511628211"

definition chance_hash :: "request_meta \<Rightarrow> nat \<Rightarrow> u64" where
  "chance_hash req line =
     xor (foldl fnv_step 1469598103934665603 (req_url req @ req_method req)) (of_nat line)"

definition chance :: "request_meta \<Rightarrow> nat \<Rightarrow> u16 \<Rightarrow> bool" where
  "chance req line permille =
     (if 1000 \<le> permille then True
      else if permille = 0 then False
      else chance_hash req line mod 1000 < ucast permille)"

section \<open>The compiled glob set\<close>

definition cgs_default :: compiled_glob_set where
  "cgs_default = \<lparr>cgs_ids = bt_empty, cgs_programs = []\<rparr>"

definition cgs_id :: "compiled_glob_set \<Rightarrow> string \<Rightarrow> char \<Rightarrow> glob_id option" where
  "cgs_id s pattern sep =
     (case bt_get (cgs_ids s) sep of None \<Rightarrow> None | Some patterns \<Rightarrow> bt_get patterns pattern)"

text \<open>\<open>None\<close> is the panic of \<open>expect\<close> on a pattern that does not compile.\<close>

definition cgs_register ::
  "ext \<Rightarrow> string \<Rightarrow> char \<Rightarrow> compiled_glob_set \<Rightarrow> (glob_id \<times> compiled_glob_set) option" where
  "cgs_register E pattern sep s =
     (case cgs_id s pattern sep of
        Some i \<Rightarrow> Some (i, s)
      | None \<Rightarrow>
          (case compile_glob_regex E pattern sep of
             None \<Rightarrow> None
           | Some regex \<Rightarrow>
               (let i = length (cgs_programs s);
                    patterns = (case bt_get (cgs_ids s) sep of None \<Rightarrow> bt_empty | Some ps \<Rightarrow> ps) in
                Some (i, s\<lparr>cgs_ids := bt_insert sep (bt_insert pattern i patterns) (cgs_ids s),
                           cgs_programs := cgs_programs s @ [regex]\<rparr>))))"

definition register_key ::
  "ext \<Rightarrow> string \<times> char \<Rightarrow> compiled_glob_set \<Rightarrow> compiled_glob_set option" where
  "register_key E key s = map_option snd (cgs_register E (fst key) (snd key) s)"

fun register_matcher :: "ext \<Rightarrow> matcher \<Rightarrow> compiled_glob_set \<Rightarrow> compiled_glob_set option" where
  "register_matcher E (MGlob glob) s = do {
     s \<leftarrow> (if host_pattern_uses_regex (gm_host glob)
          then register_key E (gm_host glob, CHR ''.'') s else Some s);
     s \<leftarrow> (case gm_port glob of
            Some port \<Rightarrow> register_key E (port, CHR ''.'') s | None \<Rightarrow> Some s);
     s \<leftarrow> (case gm_path glob of
            Some path \<Rightarrow>
              if glob_syntax_is_active path then register_key E (path, CHR ''/'') s else Some s
          | None \<Rightarrow> Some s);
     (case gm_query glob of
        Some query \<Rightarrow> register_key E (query, CHR ''&'') s | None \<Rightarrow> Some s)
   }"
| "register_matcher E (MNot inner) s = register_matcher E inner s"
| "register_matcher E (MExactUrl _) s = Some s"
| "register_matcher E (MPort _) s = Some s"
| "register_matcher E (MRegex _) s = Some s"

fun register_node :: "ext \<Rightarrow> condition \<Rightarrow> compiled_glob_set \<Rightarrow> compiled_glob_set option" where
  "register_node E (CHost pattern) s =
     (if host_pattern_uses_regex pattern
      then register_key E (to_ascii_lowercase pattern, CHR ''.'') s else Some s)"
| "register_node E (CUrl (UrlGlob pattern)) s =
     (if glob_syntax_is_active pattern then register_key E (pattern, CHR 0x00) s else Some s)"
| "register_node E (CClientIp patterns) s =
     fold_option (\<lambda>p. register_key E (normalize_ip_value p, CHR 0x00))
       (filter (\<lambda>p. glob_syntax_is_active p \<and> p \<noteq> ''*'' \<and> p \<noteq> ''**'') patterns) s"
| "register_node E (CServerIp patterns) s =
     fold_option (\<lambda>p. register_key E (normalize_ip_value p, CHR 0x00))
       (filter (\<lambda>p. glob_syntax_is_active p \<and> p \<noteq> ''*'' \<and> p \<noteq> ''**'') patterns) s"
| "register_node E _ s = Some s"

definition register_condition ::
  "ext \<Rightarrow> condition \<Rightarrow> compiled_glob_set \<Rightarrow> compiled_glob_set option" where
  "register_condition E c s = fold_option (register_node E) (condition_nodes c) s"

definition cgs_build :: "ext \<Rightarrow> rule list \<Rightarrow> compiled_glob_set option" where
  "cgs_build E rules =
     fold_option
       (\<lambda>rule s. Option.bind (register_matcher E (rule_matcher rule) s)
                    (fold_option (register_condition E) (rule_conditions rule)))
       rules cgs_default"

definition glob_match_id :: "ext \<Rightarrow> compiled_glob_set \<Rightarrow> glob_id \<Rightarrow> string \<Rightarrow> bool" where
  "glob_match_id E s i txt =
     (case nth_opt (cgs_programs s) i of
        None \<Rightarrow> False | Some regex \<Rightarrow> glob_captures E regex txt \<noteq> None)"

definition append_matched_glob_captures :: "string option list \<Rightarrow> captures \<Rightarrow> captures" where
  "append_matched_glob_captures groups captures =
     (let remaining = MAX_RULE_GLOB_CAPTURES - length (indexed captures) in
      foldl (\<lambda>c g. insert_index (case g of None \<Rightarrow> [] | Some v \<Rightarrow> v) c) captures
        (take remaining (drop 1 groups)))"

definition append_glob_captures :: "ext \<Rightarrow> string \<Rightarrow> string \<Rightarrow> captures \<Rightarrow> captures option" where
  "append_glob_captures E regex txt captures =
     map_option (\<lambda>groups. append_matched_glob_captures groups captures)
       (glob_captures E regex txt)"

definition glob_match_with_captures_id ::
  "ext \<Rightarrow> compiled_glob_set \<Rightarrow> glob_id \<Rightarrow> string \<Rightarrow> captures \<Rightarrow> captures option" where
  "glob_match_with_captures_id E s i txt captures =
     (case nth_opt (cgs_programs s) i of
        None \<Rightarrow> None | Some regex \<Rightarrow> append_glob_captures E regex txt captures)"

definition host_matches_id ::
  "ext \<Rightarrow> compiled_glob_set \<Rightarrow> string \<Rightarrow> string \<Rightarrow> glob_id option \<Rightarrow> bool" where
  "host_matches_id E s pattern host i =
     (let pattern = to_ascii_lowercase (trim_brackets pattern);
          host = to_ascii_lowercase (trim_brackets host) in
      if pattern = ''**'' \<or> pattern = ''*'' then True
      else (case strip_prefix pattern ''**.'' of
        Some base \<Rightarrow> host = base \<or> dotted_suffix_prefix host base \<noteq> None
      | None \<Rightarrow> (case strip_prefix pattern ''*.'' of
          Some base \<Rightarrow>
            (case dotted_suffix_prefix host base of
               None \<Rightarrow> False
             | Some pre \<Rightarrow> pre \<noteq> [] \<and> CHR ''.'' \<notin> set pre)
        | None \<Rightarrow>
            if glob_syntax_is_active pattern
            then (case i of None \<Rightarrow> False | Some i \<Rightarrow> glob_match_id E s i host)
            else pattern = host)))"

definition host_matches :: "ext \<Rightarrow> compiled_glob_set \<Rightarrow> string \<Rightarrow> string \<Rightarrow> bool" where
  "host_matches E s pattern host =
     host_matches_id E s pattern host
       (cgs_id s (to_ascii_lowercase (trim_brackets pattern)) (CHR ''.''))"

definition ip_matches_id ::
  "ext \<Rightarrow> compiled_glob_set \<Rightarrow> string \<Rightarrow> string \<Rightarrow> glob_id option \<Rightarrow> bool" where
  "ip_matches_id E s pattern actual i =
     (let pattern = normalize_ip_value pattern in
      if pattern = ''*'' \<or> pattern = ''**'' then True
      else if glob_syntax_is_active pattern
      then (case i of None \<Rightarrow> False | Some i \<Rightarrow> glob_match_id E s i actual)
      else eq_ignore_ascii_case pattern actual)"


section \<open>What a snapshot registers\<close>

text \<open>
  The specification of a glob does not mention ids: a pattern denotes the captures of its
  own program. The keys of a matcher or condition are the patterns it registers, in order.
\<close>

definition glob_spec :: "ext \<Rightarrow> string \<Rightarrow> char \<Rightarrow> string \<Rightarrow> string option list option" where
  "glob_spec E pattern sep txt =
     (case compile_glob_regex E pattern sep of
        None \<Rightarrow> None | Some source \<Rightarrow> glob_captures E source txt)"

fun matcher_keys :: "matcher \<Rightarrow> (string \<times> char) list" where
  "matcher_keys (MGlob g) =
     (if host_pattern_uses_regex (gm_host g) then [(gm_host g, CHR ''.'')] else []) @
     (case gm_port g of Some port \<Rightarrow> [(port, CHR ''.'')] | None \<Rightarrow> []) @
     (case gm_path g of
        Some path \<Rightarrow> if glob_syntax_is_active path then [(path, CHR ''/'')] else []
      | None \<Rightarrow> []) @
     (case gm_query g of Some query \<Rightarrow> [(query, CHR ''&'')] | None \<Rightarrow> [])"
| "matcher_keys (MNot m) = matcher_keys m"
| "matcher_keys _ = []"

definition ip_keys :: "string list \<Rightarrow> (string \<times> char) list" where
  "ip_keys patterns = map (\<lambda>p. (normalize_ip_value p, CHR 0x00))
     (filter (\<lambda>p. glob_syntax_is_active p \<and> p \<noteq> ''*'' \<and> p \<noteq> ''**'') patterns)"

fun node_keys :: "condition \<Rightarrow> (string \<times> char) list" where
  "node_keys (CHost pattern) =
     (if host_pattern_uses_regex pattern then [(to_ascii_lowercase pattern, CHR ''.'')] else [])"
| "node_keys (CUrl (UrlGlob pattern)) =
     (if glob_syntax_is_active pattern then [(pattern, CHR 0x00)] else [])"
| "node_keys (CClientIp patterns) = ip_keys patterns"
| "node_keys (CServerIp patterns) = ip_keys patterns"
| "node_keys _ = []"

definition condition_keys :: "condition \<Rightarrow> (string \<times> char) list" where
  "condition_keys c = concat (map node_keys (condition_nodes c))"

definition rule_keys :: "rule \<Rightarrow> (string \<times> char) list" where
  "rule_keys r =
     matcher_keys (rule_matcher r) @ concat (map condition_keys (rule_conditions r))"

lemma register_matcher_keys:
  "register_matcher E m = fold_option (register_key E) (matcher_keys m)"
proof -
  have "register_matcher E m s = fold_option (register_key E) (matcher_keys m) s" for s
  proof (induction E m s rule: register_matcher.induct)
    case (1 E glob s)
    show ?case
      by (cases "gm_port glob"; cases "gm_path glob"; cases "gm_query glob") simp_all
  qed simp_all
  then show ?thesis by (simp add: fun_eq_iff)
qed

lemma register_node_keys: "register_node E = (\<lambda>c. fold_option (register_key E) (node_keys c))"
proof -
  have "register_node E c s = fold_option (register_key E) (node_keys c) s" for c s
    by (induction E c s rule: register_node.induct) (simp_all add: ip_keys_def fold_option_map)
  then show ?thesis by (simp add: fun_eq_iff)
qed

lemma register_condition_keys:
  "register_condition E = (\<lambda>c. fold_option (register_key E) (condition_keys c))"
  by (simp add: fun_eq_iff register_condition_def condition_keys_def fold_option_concat_map
      register_node_keys)

lemma cgs_build_keys:
  "cgs_build E rules = fold_option (register_key E) (concat (map rule_keys rules)) cgs_default"
  by (simp add: cgs_build_def rule_keys_def fold_option_concat_map fold_option_append
      register_matcher_keys register_condition_keys cong: map_cong)

section \<open>Program stores as an interface\<close>

locale program_store =
  fixes inv :: "'s \<Rightarrow> bool" and ident :: "'s \<Rightarrow> 'k \<Rightarrow> nat option"
    and register :: "'k \<Rightarrow> 's \<Rightarrow> (nat \<times> 's) option"
    and compile :: "'k \<Rightarrow> 'p option" and program :: "'s \<Rightarrow> nat \<Rightarrow> 'p option"
  assumes register_inv: "inv s \<Longrightarrow> register k s = Some (i, s') \<Longrightarrow> inv s'"
    and register_ident: "inv s \<Longrightarrow> register k s = Some (i, s') \<Longrightarrow> ident s' k = Some i"
    and register_keeps:
      "inv s \<Longrightarrow> register k s = Some (i, s') \<Longrightarrow> ident s k' = Some j \<Longrightarrow> ident s' k' = Some j"
    and ident_program: "inv s \<Longrightarrow> ident s k = Some i \<Longrightarrow> program s i = compile k \<and> compile k \<noteq> None"
    and register_panics: "register k s = None \<longleftrightarrow> ident s k = None \<and> compile k = None"
begin

lemma register_all:
  assumes "inv s" "fold_option (\<lambda>k s. map_option snd (register k s)) ks s = Some s'"
  shows "inv s' \<and> (\<forall>k j. ident s k = Some j \<longrightarrow> ident s' k = Some j) \<and>
    (\<forall>k \<in> set ks. \<exists>i. ident s' k = Some i \<and> program s' i = compile k)"
  using assms
proof (induction ks arbitrary: s)
  case Nil
  then show ?case by simp
next
  case (Cons k ks)
  from Cons.prems(2) obtain i t where t: "register k s = Some (i, t)"
    and rest: "fold_option (\<lambda>k s. map_option snd (register k s)) ks t = Some s'"
    by (auto simp: bind_eq_Some_conv)
  note t_facts = register_inv [OF Cons.prems(1) t] register_ident [OF Cons.prems(1) t]
    register_keeps [OF Cons.prems(1) t]
  from Cons.IH [OF t_facts(1) rest] t_facts(2,3)
  have *: "inv s'" "\<forall>k j. ident s k = Some j \<longrightarrow> ident s' k = Some j" "ident s' k = Some i"
    "\<forall>k \<in> set ks. \<exists>i. ident s' k = Some i \<and> program s' i = compile k" by blast+
  with ident_program [OF *(1) *(3)] show ?case by auto
qed

lemma register_all_succeeds:
  assumes "inv s" "\<forall>k \<in> set ks. compile k \<noteq> None"
  shows "\<exists>s'. fold_option (\<lambda>k s. map_option snd (register k s)) ks s = Some s'"
  using assms
proof (induction ks arbitrary: s)
  case (Cons k ks)
  then have "register k s \<noteq> None" by (simp add: register_panics)
  then obtain i t where "register k s = Some (i, t)" by fastforce
  with Cons register_inv show ?case by fastforce
qed simp

lemma register_all_panics:
  assumes "inv s" "\<forall>k. ident s k = None"
    "k \<in> set ks" "compile k = None"
  shows "fold_option (\<lambda>k s. map_option snd (register k s)) ks s = None"
proof (rule ccontr)
  assume "\<not> ?thesis"
  then obtain s' where "fold_option (\<lambda>k s. map_option snd (register k s)) ks s = Some s'" by auto
  from register_all [OF assms(1) this] assms(3) obtain i where
    "inv s'" "ident s' k = Some i" by blast
  with ident_program assms(4) show False by blast
qed

end

definition cgs_inv :: "ext \<Rightarrow> compiled_glob_set \<Rightarrow> bool" where
  "cgs_inv E s \<longleftrightarrow>
     bt_inv (cgs_ids s) \<and>
     (\<forall>sep ps. bt_get (cgs_ids s) sep = Some ps \<longrightarrow> bt_inv ps) \<and>
     (\<forall>sep p i. cgs_id s p sep = Some i \<longrightarrow>
        nth_opt (cgs_programs s) i = compile_glob_regex E p sep \<and> compile_glob_regex E p sep \<noteq> None)"

lemma cgs_inv_default: "cgs_inv E cgs_default" "cgs_id cgs_default p sep = None"
  by (simp_all add: cgs_inv_def cgs_default_def cgs_id_def bt_empty_def bt_inv_def bt_get_def)

lemma cgs_register_new:
  assumes inv: "cgs_inv E s" and new: "cgs_id s p sep = None"
    and reg: "cgs_register E p sep s = Some (i, s')"
  shows "cgs_inv E s' \<and> (\<forall>q sep'. cgs_id s' q sep' =
      (if q = p \<and> sep' = sep then Some i else cgs_id s q sep')) \<and> i = length (cgs_programs s)"
proof -
  define ps where "ps = (case bt_get (cgs_ids s) sep of None \<Rightarrow> bt_empty | Some ps \<Rightarrow> ps)"
  from new reg obtain regex where regex: "compile_glob_regex E p sep = Some regex"
    and i: "i = length (cgs_programs s)"
    and s': "s' = s\<lparr>cgs_ids := bt_insert sep (bt_insert p i ps) (cgs_ids s),
                    cgs_programs := cgs_programs s @ [regex]\<rparr>"
    by (auto simp: cgs_register_def Let_def ps_def split: option.splits)
  have ps: "bt_inv ps"
    using inv by (auto simp: ps_def cgs_inv_def bt_empty_def bt_inv_def split: option.splits)
  have ids: "bt_inv (cgs_ids s)" using inv by (simp add: cgs_inv_def)
  have get: "bt_get (cgs_ids s') x = (if x = sep then Some (bt_insert p i ps) else bt_get (cgs_ids s) x)" for x
    by (simp add: s' btree.get_put [OF ids])
  have id: "cgs_id s' q x = (if q = p \<and> x = sep then Some i else cgs_id s q x)" for q x
    by (auto simp: cgs_id_def get btree.get_put [OF ps])
       (auto simp: ps_def bt_empty_def bt_get_def split: option.splits)
  have "bt_inv (cgs_ids s')" by (simp add: s' bt_inv_insert ids)
  moreover have "bt_inv qs" if "bt_get (cgs_ids s') x = Some qs" for x qs
    using that ps inv by (auto simp: get cgs_inv_def bt_inv_insert split: if_splits)
  moreover have "nth_opt (cgs_programs s') j = compile_glob_regex E q x \<and> compile_glob_regex E q x \<noteq> None"
    if "cgs_id s' q x = Some j" for q x j
  proof (cases "q = p \<and> x = sep")
    case True
    with that have "j = i" by (simp add: id)
    with True regex show ?thesis by (simp add: i s' nth_opt_def)
  next
    case False
    with that have "cgs_id s q x = Some j" by (simp add: id split: if_splits)
    with inv obtain r where "nth_opt (cgs_programs s) j = Some r" "compile_glob_regex E q x = Some r"
      by (fastforce simp: cgs_inv_def)
    then show ?thesis by (simp add: s' nth_opt_append)
  qed
  ultimately show ?thesis using id i by (auto simp: cgs_inv_def)
qed

interpretation globs: program_store "cgs_inv E" "\<lambda>s (p, sep). cgs_id s p sep"
  "\<lambda>(p, sep). cgs_register E p sep" "\<lambda>(p, sep). compile_glob_regex E p sep"
  "\<lambda>s i. nth_opt (cgs_programs s) i" for E
proof (unfold_locales, goal_cases)
  case (1 s k i s')
  then show ?case
    by (cases k; cases "cgs_id s (fst k) (snd k)")
       (auto dest: cgs_register_new, auto simp: cgs_register_def)
next
  case (2 s k i s')
  then show ?case
    by (cases k; cases "cgs_id s (fst k) (snd k)")
       (auto dest: cgs_register_new, auto simp: cgs_register_def)
next
  case (3 s k i s' k' j)
  obtain p sep q sep' where k: "k = (p, sep)" "k' = (q, sep')" by (cases k; cases k')
  show ?case
  proof (cases "cgs_id s p sep")
    case None
    with cgs_register_new [OF 3(1) None] 3 show ?thesis by (auto simp: k)
  qed (use 3 in \<open>auto simp: k cgs_register_def\<close>)
next
  case (4 s k i)
  then show ?case by (cases k) (auto simp: cgs_inv_def)
next
  case (5 k s)
  then show ?case by (cases k) (auto simp: cgs_register_def Let_def split: option.splits)
qed

lemma register_key_store:
  "register_key E = (\<lambda>k s. map_option snd ((\<lambda>(p, sep). cgs_register E p sep) k s))"
  by (auto simp: register_key_def fun_eq_iff)

lemma cgs_build_registers:
  assumes "cgs_build E rules = Some s"
  shows "cgs_inv E s"
    and "(p, sep) \<in> set (concat (map rule_keys rules)) \<Longrightarrow>
      \<exists>i. cgs_id s p sep = Some i \<and> nth_opt (cgs_programs s) i = compile_glob_regex E p sep"
  using globs.register_all [OF cgs_inv_default(1), of E "concat (map rule_keys rules)" s]
    assms cgs_inv_default(2)
  by (auto simp: cgs_build_keys register_key_store)

section \<open>Host and IP patterns without ids\<close>

definition host_spec :: "ext \<Rightarrow> string \<Rightarrow> string \<Rightarrow> string \<Rightarrow> bool" where
  "host_spec E pattern key host =
     (let pattern = to_ascii_lowercase (trim_brackets pattern);
          host = to_ascii_lowercase (trim_brackets host) in
      if pattern = ''**'' \<or> pattern = ''*'' then True
      else (case strip_prefix pattern ''**.'' of
        Some base \<Rightarrow> host = base \<or> (\<exists>pre. host = pre @ ''.'' @ base)
      | None \<Rightarrow> (case strip_prefix pattern ''*.'' of
          Some base \<Rightarrow> (\<exists>label. host = label @ ''.'' @ base \<and> label \<noteq> [] \<and> CHR ''.'' \<notin> set label)
        | None \<Rightarrow>
            if glob_syntax_is_active pattern then glob_spec E key (CHR ''.'') host \<noteq> None
            else pattern = host)))"

definition ip_spec :: "ext \<Rightarrow> string \<Rightarrow> string \<Rightarrow> bool" where
  "ip_spec E pattern actual =
     (let pattern = normalize_ip_value pattern in
      if pattern = ''*'' \<or> pattern = ''**'' then True
      else if glob_syntax_is_active pattern then glob_spec E pattern (CHR 0x00) actual \<noteq> None
      else eq_ignore_ascii_case pattern actual)"

text \<open>An id stands for the pattern its program was compiled from.\<close>

definition id_denotes :: "ext \<Rightarrow> compiled_glob_set \<Rightarrow> glob_id option \<Rightarrow> string \<Rightarrow> char \<Rightarrow> bool" where
  "id_denotes E s i pattern sep \<longleftrightarrow>
     (\<exists>j. i = Some j \<and> nth_opt (cgs_programs s) j = compile_glob_regex E pattern sep)"

lemma glob_match_id_spec:
  "id_denotes E s (Some i) pattern sep \<Longrightarrow> glob_match_id E s i txt \<longleftrightarrow> glob_spec E pattern sep txt \<noteq> None"
  by (auto simp: id_denotes_def glob_match_id_def glob_spec_def split: option.splits)

lemma glob_match_with_captures_id_spec:
  "id_denotes E s (Some i) pattern sep \<Longrightarrow>
     glob_match_with_captures_id E s i txt c =
       map_option (\<lambda>groups. append_matched_glob_captures groups c) (glob_spec E pattern sep txt)"
  by (auto simp: id_denotes_def glob_match_with_captures_id_def append_glob_captures_def glob_spec_def
      split: option.splits)

lemma to_ascii_lowercase_eq_other:
  "list_all (\<lambda>c. \<not> is_ascii_alphabetic c) t \<Longrightarrow> to_ascii_lowercase s = t \<longleftrightarrow> s = t"
  by (induction t arbitrary: s)
     (auto simp: to_ascii_lowercase_def ascii_lower_eq_other map_eq_Cons_conv)

lemma starts_with_lower_other:
  "list_all (\<lambda>c. \<not> is_ascii_alphabetic c) p \<Longrightarrow> starts_with (to_ascii_lowercase s) p \<longleftrightarrow> starts_with s p"
  by (simp add: starts_with_def take_to_ascii_lowercase to_ascii_lowercase_eq_other)

lemma glob_chars_not_alphabetic [simp]:
  "\<not> is_ascii_alphabetic (CHR ''*'')" "\<not> is_ascii_alphabetic (CHR 0x5C)" "\<not> is_ascii_alphabetic (CHR ''.'')"
  by code_simp+

lemma glob_syntax_is_active_iff: "glob_syntax_is_active p \<longleftrightarrow> CHR ''*'' \<in> set p \<or> CHR 0x5C \<in> set p"
  by (auto simp: glob_syntax_is_active_def list_ex_iff)

lemma glob_syntax_is_active_lower: "glob_syntax_is_active (to_ascii_lowercase p) = glob_syntax_is_active p"
  by (simp add: glob_syntax_is_active_iff in_set_to_ascii_lowercase)

lemma dotted_suffix_prefix_Some_iff:
  "dotted_suffix_prefix host base = Some pre \<longleftrightarrow> host = pre @ ''.'' @ base"
  by (auto simp: dotted_suffix_prefix_def strip_suffix_Some_iff split: option.splits)
     (metis append.assoc append_Cons append_Nil option.distinct(1) strip_suffix_Some_iff)

lemma host_matches_id_spec:
  assumes "host_pattern_uses_regex pattern \<Longrightarrow> id_denotes E s i key (CHR ''.'')"
  shows "host_matches_id E s pattern host i = host_spec E pattern key host"
proof -
  define p where "p = to_ascii_lowercase (trim_brackets pattern)"
  have special: "p = ''**'' \<or> p = ''*'' \<or> strip_prefix p ''**.'' \<noteq> None \<or> strip_prefix p ''*.'' \<noteq> None \<or>
    \<not> glob_syntax_is_active p \<or> host_pattern_uses_regex pattern"
    by (auto simp: p_def host_pattern_uses_regex_def Let_def to_ascii_lowercase_eq_other
        strip_prefix_def starts_with_lower_other glob_syntax_is_active_lower)
  have dotted: "(dotted_suffix_prefix h base \<noteq> None) = (\<exists>pre. h = pre @ ''.'' @ base)" for h base
    by (simp only: not_None_eq dotted_suffix_prefix_Some_iff)
  have label: "(case dotted_suffix_prefix h base of None \<Rightarrow> False
      | Some pre \<Rightarrow> pre \<noteq> [] \<and> CHR ''.'' \<notin> set pre) =
     (\<exists>label. h = label @ ''.'' @ base \<and> label \<noteq> [] \<and> CHR ''.'' \<notin> set label)" for h base
    unfolding dotted_suffix_prefix_Some_iff [symmetric] by (auto split: option.splits)
  have "(case i of None \<Rightarrow> False | Some i \<Rightarrow> glob_match_id E s i h) = (glob_spec E key (CHR ''.'') h \<noteq> None)"
    if "host_pattern_uses_regex pattern" for h
    using assms [OF that] by (auto simp: id_denotes_def glob_match_id_spec split: option.splits)
  with special show ?thesis
    unfolding host_matches_id_def host_spec_def p_def [symmetric] Let_def dotted label
    by (auto split: option.splits)
qed

lemma nat_to_hex_chars: "c \<in> set (nat_to_hex n) \<Longrightarrow> addr_char c"
proof (induction n rule: nat_to_hex.induct)
  case (1 n)
  have "addr_char (hex_char d)" if "d < 16" for d
    using that by (auto simp: addr_char_def hex_char_def is_ascii_hexdigit_def is_ascii_digit_def)
  with 1 show ?case by (auto simp: nat_to_hex.simps [of n] split: if_splits)
qed

lemma join_with_chars:
  "c \<in> set (join_with sep ss) \<Longrightarrow> c \<in> set sep \<or> (\<exists>s \<in> set ss. c \<in> set s)"
  by (induction sep ss rule: join_with.induct) auto

lemma ip_to_string_chars: "c \<in> set (ip_to_string ip) \<Longrightarrow> addr_char c"
proof -
  have v4: "addr_char c" if "c \<in> set (ipv4_to_string gs)" for c gs
    using join_with_chars [OF that [unfolded ipv4_to_string_def]] nat_to_string_digits
    by (fastforce simp: addr_char_def is_ascii_hexdigit_def)
  have hex: "addr_char c" if "c \<in> set (hex_groups gs)" for c gs
    using join_with_chars [OF that [unfolded hex_groups_def]] nat_to_hex_chars by auto
  have pre: "addr_char c" if "c \<in> set ''::ffff:''" for c
    using that by (auto simp: addr_char_def is_ascii_hexdigit_def byte_def)
  show "c \<in> set (ip_to_string ip) \<Longrightarrow> addr_char c"
    by (cases ip) (auto simp: ipv6_to_string_def Let_def case_prod_unfold intro: v4 hex pre
      split: if_splits)
qed

lemma set_trim_brackets: "set (trim_brackets s) \<subseteq> set s"
  unfolding trim_brackets_def trim_matches_def trim_end_chars_def trim_start_chars_def
  by (auto dest!: set_dropWhileD)

lemma normalize_ip_active:
  assumes "glob_syntax_is_active (normalize_ip_value p)"
  shows "glob_syntax_is_active p"
proof (cases "parse_socket_addr_ip p")
  case None
  with assms set_trim_brackets [of "trim p"] set_trim [of p] show ?thesis
    by (auto simp: normalize_ip_value_def glob_syntax_is_active_iff)
next
  case (Some ip)
  have "\<not> addr_char (CHR ''*'')" "\<not> addr_char (CHR 0x5C)" by code_simp+
  with assms Some ip_to_string_chars [of _ ip] show ?thesis
    by (auto simp: normalize_ip_value_def glob_syntax_is_active_iff)
qed

lemma normalize_ip_star: "normalize_ip_value ''*'' = ''*''" "normalize_ip_value ''**'' = ''**''"
  by code_simp+

lemma ip_key_registered:
  assumes "p \<in> set patterns" "glob_syntax_is_active (normalize_ip_value p)"
    "normalize_ip_value p \<noteq> ''*''" "normalize_ip_value p \<noteq> ''**''"
  shows "(normalize_ip_value p, CHR 0x00) \<in> set (ip_keys patterns)"
  using assms normalize_ip_active [OF assms(2)] normalize_ip_star by (auto simp: ip_keys_def)

lemma ip_matches_id_spec:
  assumes "glob_syntax_is_active (normalize_ip_value p) \<Longrightarrow> normalize_ip_value p \<noteq> ''*'' \<Longrightarrow>
    normalize_ip_value p \<noteq> ''**'' \<Longrightarrow> id_denotes E s i (normalize_ip_value p) (CHR 0x00)"
  shows "ip_matches_id E s p actual i = ip_spec E p actual"
  using assms
  by (auto simp: ip_matches_id_def ip_spec_def Let_def id_denotes_def glob_match_id_spec
      split: option.splits)

section \<open>Sampling is a threshold\<close>

lemma chance_residue:
  "chance req line permille \<longleftrightarrow> unat (chance_hash req line) mod 1000 < unat permille"
proof -
  have m: "unat (chance_hash req line mod 1000) = unat (chance_hash req line) mod 1000"
    by (simp add: unat_mod)
  have u: "unat (ucast permille :: u64) = unat permille"
    using unsigned_less [of permille, where ?'a = nat]
    by (simp add: unsigned_ucast_eq take_bit_nat_eq_self)
  have *: "1000 \<le> permille \<longleftrightarrow> 1000 \<le> unat permille" by (simp add: word_le_nat_alt)
  have z: "permille = 0 \<longleftrightarrow> unat permille = 0" by (simp add: unat_eq_0)
  have lt: "unat (chance_hash req line) mod 1000 < 1000" by simp
  show ?thesis
    unfolding chance_def * z using less_le_trans [OF lt, of "unat permille"]
    by (auto simp: word_less_nat_alt m u)
qed

text \<open>
  A \<open>chance\<close> condition compares one fixed residue of the request and the rule line with
  its threshold, at every threshold, so the requests sampled at a rate are also sampled at
  every higher rate, none at rate 0 and all at rate 1000 and above.
\<close>

lemma chance_threshold:
  "chance req line permille \<longleftrightarrow> unat (chance_hash req line) mod 1000 < unat permille"
  by (rule chance_residue)

section \<open>A validated pattern whose registration panics\<close>

text \<open>
  The IP pattern \<open>*\]\<close> ends in an escaped bracket and has a regex source, so it passes
  validation whenever the regex engine accepts that source; registration trims the bracket
  first, is left with a dangling escape, and building a snapshot with such a condition
  panics, whatever the engine does.
\<close>

lemma escaped_bracket_ip_pattern_panics:
  "glob_source E [CHR ''*'', CHR 0x5C, CHR '']''] (CHR 0x00) \<noteq> None \<and>
   cgs_build E [r\<lparr>rule_matcher := MPort 80,
                  rule_conditions := [CClientIp [[CHR ''*'', CHR 0x5C, CHR '']'']]]\<rparr>] = None"
proof -
  have n: "normalize_ip_value [CHR ''*'', CHR 0x5C, CHR '']''] = [CHR ''*'', CHR 0x5C]"
    by code_simp
  have "compile_glob_regex E [CHR ''*'', CHR 0x5C] (CHR 0x00) = None"
    by (simp add: compile_glob_regex_def glob_source_def)
  moreover have "([CHR ''*'', CHR 0x5C], CHR 0x00) \<in> set (concat (map rule_keys
      [r\<lparr>rule_matcher := MPort 80,
         rule_conditions := [CClientIp [[CHR ''*'', CHR 0x5C, CHR '']'']]]\<rparr>]))"
    by (simp add: rule_keys_def condition_keys_def ip_keys_def n glob_syntax_is_active_def)
  ultimately show ?thesis
    using globs.register_all_panics [OF cgs_inv_default(1)] cgs_inv_default(2)
    by (fastforce simp: cgs_build_keys register_key_store glob_source_def)
qed

end
