(* ===== verification/Rule_Index.thy ===== *)
theory Rule_Index
  imports Rule_Glob
begin

text \<open>
  The candidate index of a snapshot (\<open>index.rs\<close>): host buckets, the literal prefilter of
  regex rules, the body literals compiled for one multi-pattern scan, and the resources
  bound to every matcher and condition of a rule.
\<close>

section \<open>Required literals of a regex\<close>

text \<open>\<open>Iterator::max_by_key(Vec::len)\<close>: the last of the longest elements.\<close>

definition longest_of :: "string list \<Rightarrow> string option" where
  "longest_of parts =
     foldl (\<lambda>best p. case best of
              None \<Rightarrow> Some p
            | Some b \<Rightarrow> if length b \<le> length p then Some p else Some b) None parts"

fun longest_required :: "hir \<Rightarrow> string option" where
  "longest_required (HirLiteral l) = Some l"
| "longest_required (HirCapture sub) = longest_required sub"
| "longest_required (HirConcat parts) = longest_of (List.map_filter (\<lambda>l. l) (map longest_required parts))"
| "longest_required (HirRepetition lo hi sub) = (if 0 < lo then longest_required sub else None)"
| "longest_required HirEmpty = None"
| "longest_required (HirClass _) = None"
| "longest_required (HirLook _) = None"
| "longest_required (HirAlternation _) = None"

definition required_regex_literal :: "ext \<Rightarrow> regex_matcher \<Rightarrow> string option" where
  "required_regex_literal E regex =
     (if rm_case_insensitive regex then None
      else (case hir_parse E (rm_pattern regex) of
        None \<Rightarrow> None
      | Some h \<Rightarrow> (case longest_required h of
          None \<Rightarrow> None
        | Some literal \<Rightarrow>
            if utf8_valid literal \<and> 3 \<le> length literal then Some literal else None)))"

section \<open>Host keys\<close>

datatype index_key = KeyExact string | KeySuffix string | KeyGlobal

definition is_plain_domain :: "string \<Rightarrow> bool" where
  "is_plain_domain host \<longleftrightarrow>
     host \<noteq> [] \<and>
     list_all (\<lambda>c. is_ascii_alphanumeric c \<or> c = CHR ''-'' \<or> c = CHR ''.'' \<or> c = CHR '':'' \<or> c = CHR ''_'') host"

definition glob_index_key :: "glob_matcher \<Rightarrow> index_key" where
  "glob_index_key glob =
     (let host = to_ascii_lowercase (trim_brackets (gm_host glob)) in
      if host = [] \<or> host = ''*'' \<or> CHR ''?'' \<in> set host then KeyGlobal
      else
        (let base = (case strip_prefix host ''**.'' of
             Some b \<Rightarrow> Some b
           | None \<Rightarrow> (case strip_prefix host ''*.'' of
               Some b \<Rightarrow> Some b
             | None \<Rightarrow> strip_prefix host ''.'')) in
         case base of
           Some b \<Rightarrow> if is_plain_domain b then KeySuffix b else KeyGlobal
         | None \<Rightarrow>
             if CHR ''*'' \<in> set host then KeyGlobal
             else if is_plain_domain host then KeyExact host else KeyGlobal))"

fun matcher_index_key :: "matcher \<Rightarrow> index_key" where
  "matcher_index_key (MExactUrl expected) =
     (case url_parse expected of
        Inr url \<Rightarrow> KeyExact (to_ascii_lowercase (trim_brackets (url_host url)))
      | Inl _ \<Rightarrow> KeyGlobal)"
| "matcher_index_key (MGlob glob) = glob_index_key glob"
| "matcher_index_key (MPort _) = KeyGlobal"
| "matcher_index_key (MRegex _) = KeyGlobal"
| "matcher_index_key (MNot _) = KeyGlobal"

function host_suffixes :: "string \<Rightarrow> string list" where
  "host_suffixes host =
     host # (case find_char (\<lambda>c. c = CHR ''.'') host of
               None \<Rightarrow> []
             | Some next_dot \<Rightarrow>
                 if length host \<le> next_dot + 1 then [] else host_suffixes (drop (next_dot + 1) host))"
  by pat_completeness auto
termination by (relation "measure length") auto

declare host_suffixes.simps [simp del]

text \<open>
  \<open>extend_unique\<close> pushes the values its \<open>seen\<close> set does not hold; \<open>seen\<close> always holds the
  elements of \<open>out\<close>, so the model keeps \<open>out\<close> only.
\<close>

definition extend_unique :: "nat list \<Rightarrow> nat list \<Rightarrow> nat list" where
  "extend_unique out values = dedup_onto out values"

section \<open>Body literals\<close>

definition collect_body_literals :: "condition \<Rightarrow> string list \<Rightarrow> string list" where
  "collect_body_literals c literals =
     foldl (\<lambda>ls node. case node of CBodyContains l \<Rightarrow> bs_insert l ls | _ \<Rightarrow> ls)
       literals (condition_nodes c)"

text \<open>
  \<open>None\<close> is a panic: of the \<open>expect\<close> on the multi-pattern matcher, or of the lookup of a
  normalized literal.
\<close>

definition cbs_from_literals :: "ext \<Rightarrow> string list \<Rightarrow> compiled_body_contains_set option" where
  "cbs_from_literals E source_literals =
     (let literals = bs_of_list (map to_ascii_lowercase source_literals);
          normalized_ids = foldl (\<lambda>m (i, l). bt_insert l i m) bt_empty (enumerate 0 literals) in
      Option.bind
        (fold_option
           (\<lambda>l m. map_option (\<lambda>i. bt_insert l i m) (bt_get normalized_ids (to_ascii_lowercase l)))
           source_literals bt_empty)
        (\<lambda>literal_ids.
           if literals = [] then
             Some \<lparr>cbs_literals = literals, cbs_literal_ids = literal_ids, cbs_matcher = None\<rparr>
           else if ac_new E True literals then
             Some \<lparr>cbs_literals = literals, cbs_literal_ids = literal_ids, cbs_matcher = Some literals\<rparr>
           else None))"

definition cbs_build :: "ext \<Rightarrow> rule list \<Rightarrow> compiled_body_contains_set option" where
  "cbs_build E rules =
     cbs_from_literals E
       (foldl (\<lambda>ls rule. foldl (\<lambda>ls c. collect_body_literals c ls) ls (rule_conditions rule)) [] rules)"

definition cbs_id :: "compiled_body_contains_set \<Rightarrow> string \<Rightarrow> body_literal_id option" where
  "cbs_id s literal = bt_get (cbs_literal_ids s) literal"

definition cbs_matches_id :: "body_literal_id \<Rightarrow> bool list \<Rightarrow> bool" where
  "cbs_matches_id i matched = (case nth_opt matched i of None \<Rightarrow> False | Some b \<Rightarrow> b)"

text \<open>
  The scan marks every literal found and stops when none remains. The matcher reports
  pattern ids below the number of literals, so marking never leaves the vector.
\<close>

fun scan_loop :: "nat list \<Rightarrow> bool list \<Rightarrow> nat \<Rightarrow> bool list" where
  "scan_loop [] matched remaining = matched"
| "scan_loop (i # ids) matched remaining =
     (if nth_opt matched i = Some False then
        (if remaining - 1 = 0 then matched[i := True]
         else scan_loop ids (matched[i := True]) (remaining - 1))
      else scan_loop ids matched remaining)"

definition cbs_scan :: "ext \<Rightarrow> compiled_body_contains_set \<Rightarrow> string \<Rightarrow> bool list" where
  "cbs_scan E s txt =
     (let matched = replicate (length (cbs_literals s)) False in
      case cbs_matcher s of
        None \<Rightarrow> matched
      | Some patterns \<Rightarrow> scan_loop (ac_overlapping E True patterns txt) matched (length matched))"

section \<open>Bound resources\<close>

fun bind_matcher_resources :: "matcher \<Rightarrow> compiled_glob_set \<Rightarrow> compiled_matcher_resources" where
  "bind_matcher_resources (MGlob glob) globs =
     GlobResources
       (if host_pattern_uses_regex (gm_host glob) then cgs_id globs (gm_host glob) (CHR ''.'') else None)
       (Option.bind (gm_port glob) (\<lambda>p. cgs_id globs p (CHR ''.'')))
       (Option.bind (gm_path glob)
          (\<lambda>p. if glob_syntax_is_active p then cgs_id globs p (CHR ''/'') else None))
       (Option.bind (gm_query glob) (\<lambda>p. cgs_id globs p (CHR ''&'')))"
| "bind_matcher_resources (MNot inner) globs =
     NotMatcherResources (bind_matcher_resources inner globs)"
| "bind_matcher_resources (MExactUrl _) globs = NoMatcherResources"
| "bind_matcher_resources (MPort _) globs = NoMatcherResources"
| "bind_matcher_resources (MRegex _) globs = NoMatcherResources"

text \<open>\<open>None\<close> is the panic of \<open>expect\<close> on a body literal without an id.\<close>

fun bind_condition_resources ::
  "condition \<Rightarrow> compiled_glob_set \<Rightarrow> compiled_body_contains_set \<Rightarrow> compiled_condition_resources option"
where
  "bind_condition_resources (CHost pattern) globs body =
     Some (HostResource
       (if host_pattern_uses_regex pattern
        then cgs_id globs (to_ascii_lowercase pattern) (CHR ''.'') else None))"
| "bind_condition_resources (CUrl (UrlGlob pattern)) globs body =
     Some (UrlGlobResource
       (if glob_syntax_is_active pattern then cgs_id globs pattern (CHR 0x00) else None))"
| "bind_condition_resources (CClientIp patterns) globs body =
     Some (ClientIpResource (map (\<lambda>p. cgs_id globs (normalize_ip_value p) (CHR 0x00)) patterns))"
| "bind_condition_resources (CServerIp patterns) globs body =
     Some (ServerIpResource (map (\<lambda>p. cgs_id globs (normalize_ip_value p) (CHR 0x00)) patterns))"
| "bind_condition_resources (CBodyContains literal) globs body =
     map_option BodyContainsResource (cbs_id body literal)"
| "bind_condition_resources (CAny children) globs body =
     map_option ChildrenResources (those (map (\<lambda>c. bind_condition_resources c globs body) children))"
| "bind_condition_resources (CAll children) globs body =
     map_option ChildrenResources (those (map (\<lambda>c. bind_condition_resources c globs body) children))"
| "bind_condition_resources (CNot inner) globs body =
     map_option NotConditionResources (bind_condition_resources inner globs body)"
| "bind_condition_resources _ globs body = Some NoConditionResources"

section \<open>Building the index\<close>

definition cbs_default :: compiled_body_contains_set where
  "cbs_default = \<lparr>cbs_literals = [], cbs_literal_ids = bt_empty, cbs_matcher = None\<rparr>"

definition index_default :: rule_index where
  "index_default =
     \<lparr>domain_exact = bt_empty, domain_suffix = bt_empty, global_rules = [],
      prefilter_literals = [], prefilter_literal_rules = [], prefilter_rule_ids = [],
      prefilter = None, compiled_globs = cgs_default, compiled_body_literals = cbs_default,
      compiled_resources = []\<rparr>"

type_synonym literal_buckets = "(string \<times> nat list) list"

definition index_rule :: "ext \<Rightarrow> rule_index \<times> literal_buckets \<Rightarrow> nat \<times> rule \<Rightarrow> rule_index \<times> literal_buckets" where
  "index_rule E = (\<lambda>(index, buckets) (idx, rule).
     (case (case rule_matcher rule of MRegex regex \<Rightarrow> required_regex_literal E regex | _ \<Rightarrow> None) of
        Some literal \<Rightarrow>
          (index\<lparr>prefilter_rule_ids := push_unique (prefilter_rule_ids index) idx\<rparr>,
           bt_push literal idx buckets)
      | None \<Rightarrow>
          ((case matcher_index_key (rule_matcher rule) of
              KeyExact host \<Rightarrow> index\<lparr>domain_exact := bt_push host idx (domain_exact index)\<rparr>
            | KeySuffix host \<Rightarrow> index\<lparr>domain_suffix := bt_push host idx (domain_suffix index)\<rparr>
            | KeyGlobal \<Rightarrow> index\<lparr>global_rules := global_rules index @ [idx]\<rparr>),
           buckets)))"

definition index_prefilter :: "ext \<Rightarrow> rule_index \<times> literal_buckets \<Rightarrow> rule_index" where
  "index_prefilter E = (\<lambda>(index, buckets).
     (let literals = map fst buckets; literal_rules = map snd buckets in
      if literals \<noteq> [] \<and> ac_new E False literals then
        index\<lparr>prefilter_literals := literals, prefilter_literal_rules := literal_rules,
              prefilter := Some literals\<rparr>
      else
        index\<lparr>global_rules := global_rules index @ concat literal_rules,
              prefilter_literals := [], prefilter_literal_rules := [], prefilter_rule_ids := [],
              prefilter := None\<rparr>))"

definition bind_rule_resources ::
  "compiled_glob_set \<Rightarrow> compiled_body_contains_set \<Rightarrow> rule \<Rightarrow> compiled_rule_resources option" where
  "bind_rule_resources globs body rule =
     map_option
       (\<lambda>cs. \<lparr>crr_matcher = bind_matcher_resources (rule_matcher rule) globs, crr_conditions = cs\<rparr>)
       (those (map (\<lambda>c. bind_condition_resources c globs body) (rule_conditions rule)))"

definition index_build :: "ext \<Rightarrow> rule list \<Rightarrow> rule_index option" where
  "index_build E rules =
     (let index = index_prefilter E (foldl (index_rule E) (index_default, bt_empty) (enumerate 0 rules)) in
      Option.bind (cgs_build E rules) (\<lambda>globs.
      Option.bind (cbs_build E rules) (\<lambda>body.
      Option.bind (those (map (bind_rule_resources globs body) rules)) (\<lambda>resources.
        Some (index\<lparr>compiled_globs := globs, compiled_body_literals := body,
                    compiled_resources := resources\<rparr>)))))"

section \<open>Queries\<close>

fun prefilter_loop :: "rule_index \<Rightarrow> nat list \<Rightarrow> nat list \<Rightarrow> nat list" where
  "prefilter_loop index [] out = out"
| "prefilter_loop index (i # ids) out =
     (case nth_opt (prefilter_literal_rules index) i of
        None \<Rightarrow> prefilter_loop index ids out
      | Some rules \<Rightarrow>
          (let out = extend_unique out rules in
           if length out = length (prefilter_rule_ids index) then out
           else prefilter_loop index ids out))"

definition prefilter_matches :: "ext \<Rightarrow> rule_index \<Rightarrow> string \<Rightarrow> nat list" where
  "prefilter_matches E index raw_url =
     (case prefilter index of
        None \<Rightarrow> []
      | Some literals \<Rightarrow> prefilter_loop index (ac_overlapping E False literals raw_url) [])"

record rule_set_stats =
  st_rules :: nat
  st_disabled :: nat
  st_domain_exact_entries :: nat
  st_domain_suffix_entries :: nat
  st_indexed_rules :: nat
  st_global_rules :: nat
  st_prefilter_literals :: nat
  st_prefilter_rules :: nat
  st_compiled_globs :: nat
  st_compiled_body_literals :: nat

definition index_stats :: "rule_index \<Rightarrow> rule list \<Rightarrow> rule_set_stats" where
  "index_stats index rules =
     \<lparr>st_rules = length rules,
      st_disabled = length (filter rule_disabled rules),
      st_domain_exact_entries = length (domain_exact index),
      st_domain_suffix_entries = length (domain_suffix index),
      st_indexed_rules =
        sum_list (map (\<lambda>(_, b). length b) (domain_exact index @ domain_suffix index)),
      st_global_rules = length (global_rules index),
      st_prefilter_literals = length (prefilter_literals index),
      st_prefilter_rules = length (prefilter_rule_ids index),
      st_compiled_globs = length (cgs_programs (compiled_globs index)),
      st_compiled_body_literals = length (cbs_literals (compiled_body_literals index))\<rparr>"

end
