(* ===== verification/Rule_Match.thy ===== *)
theory Rule_Match
  imports Rule_Index
begin

text \<open>
  Matchers (\<open>matcher/pattern.rs\<close>) and conditions (\<open>matcher/condition.rs\<close>) evaluated on the
  resources a snapshot bound for them, and the planner's approximation of a condition before
  the request body is known (\<open>planning.rs\<close>). The reference semantics below mentions neither
  ids nor compiled sets; evaluating bound resources agrees with it.
\<close>

section \<open>Matchers\<close>

definition fancy_pattern :: "string \<Rightarrow> bool \<Rightarrow> string" where
  "fancy_pattern pattern case_insensitive =
     (if case_insensitive then ''(?i:'' @ pattern @ '')'' else pattern)"

definition collect_captures :: "rx_match \<Rightarrow> captures" where
  "collect_captures m =
     (let out = captures_default\<lparr>whole := Option.bind (nth_opt (rx_groups m) 0) (\<lambda>g. g)\<rparr>;
          out = foldl (\<lambda>c i. insert_index (case Option.bind (nth_opt (rx_groups m) i) (\<lambda>g. g) of
                                None \<Rightarrow> [] | Some v \<Rightarrow> v) c)
                  out [1..<min (length (rx_groups m)) 10] in
      foldl (\<lambda>c (name, v). case v of
                None \<Rightarrow> c | Some v \<Rightarrow> c\<lparr>named := bt_insert name v (named c)\<rparr>)
        out (rx_names m))"

definition regex_matches :: "ext \<Rightarrow> regex_matcher \<Rightarrow> string \<Rightarrow> captures option" where
  "regex_matches E regex txt =
     map_option collect_captures
       (case rm_engine regex of
          EngineLinear \<Rightarrow> linear_captures E (rm_pattern regex) (rm_case_insensitive regex) txt
        | EngineFancy \<Rightarrow>
            fancy_captures E (fancy_pattern (rm_pattern regex) (rm_case_insensitive regex)) txt)"

definition resources_match ::
  "ext \<Rightarrow> glob_id option \<Rightarrow> string \<Rightarrow> compiled_glob_set \<Rightarrow> bool" where
  "resources_match E i txt globs = (case i of None \<Rightarrow> False | Some i \<Rightarrow> glob_match_id E globs i txt)"

definition resources_match_with_captures ::
  "ext \<Rightarrow> glob_id option \<Rightarrow> string \<Rightarrow> compiled_glob_set \<Rightarrow> captures \<Rightarrow> captures option" where
  "resources_match_with_captures E i txt globs captures =
     (case i of None \<Rightarrow> None | Some i \<Rightarrow> glob_match_with_captures_id E globs i txt captures)"

definition u16_to_string :: "u16 \<Rightarrow> string" where
  "u16_to_string n = nat_to_string (unat n)"

definition glob_matches_compiled ::
  "ext \<Rightarrow> glob_matcher \<Rightarrow> url_parts \<Rightarrow> compiled_glob_set \<Rightarrow> compiled_matcher_resources \<Rightarrow> captures option"
where
  "glob_matches_compiled E glob url globs resources =
     (case resources of
        GlobResources host_id port_id path_id query_id \<Rightarrow>
          (if (case gm_scheme glob of
                 Some scheme \<Rightarrow> \<not> eq_ignore_ascii_case scheme (url_scheme url) | None \<Rightarrow> False)
           then None
           else if \<not> host_matches_id E globs (gm_host glob) (url_host url) host_id then None
           else if gm_port glob \<noteq> None \<and>
                   (case effective_port url of
                      None \<Rightarrow> True
                    | Some port \<Rightarrow> \<not> resources_match E port_id (u16_to_string port) globs) then None
           else
             Option.bind
               (case gm_path glob of
                  None \<Rightarrow> Some captures_default
                | Some path_pat \<Rightarrow>
                    if glob_syntax_is_active path_pat
                    then resources_match_with_captures E path_id (url_path url) globs captures_default
                    else if path_prefix_matches path_pat (url_path url) then Some captures_default
                    else None)
               (\<lambda>captures.
                  if gm_query glob \<noteq> None
                  then resources_match_with_captures E query_id
                         (case url_query url of None \<Rightarrow> [] | Some q \<Rightarrow> q) globs captures
                  else Some captures))
      | _ \<Rightarrow> None)"

fun matches_compiled ::
  "ext \<Rightarrow> matcher \<Rightarrow> url_parts \<Rightarrow> string \<Rightarrow> compiled_glob_set \<Rightarrow> compiled_matcher_resources \<Rightarrow> captures option"
where
  "matches_compiled E (MExactUrl expected) url raw globs resources =
     (if exact_url_matches expected url then Some captures_default else None)"
| "matches_compiled E (MGlob glob) url raw globs resources =
     glob_matches_compiled E glob url globs resources"
| "matches_compiled E (MPort port) url raw globs resources =
     (if effective_port url = Some port then Some captures_default else None)"
| "matches_compiled E (MRegex regex) url raw globs resources = regex_matches E regex raw"
| "matches_compiled E (MNot inner) url raw globs resources =
     (case resources of
        NotMatcherResources inner_resources \<Rightarrow>
          (if matches_compiled E inner url raw globs inner_resources = None
           then Some captures_default else None)
      | _ \<Rightarrow> None)"

section \<open>Conditions\<close>

record match_context =
  mc_url :: "url_parts option"
  mc_res :: "response_meta option"
  mc_line :: nat
  mc_globs :: compiled_glob_set
  mc_body :: compiled_body_contains_set
  mc_req :: request_meta

text \<open>The cells of the condition cache are initialised once, with these values.\<close>

definition body_text :: "match_context \<Rightarrow> string" where
  "body_text ctx = utf8_lossy (req_body (mc_req ctx))"

definition context_client_ip :: "match_context \<Rightarrow> string option" where
  "context_client_ip ctx = map_option normalize_ip_value (req_client_ip (mc_req ctx))"

definition context_server_ip :: "match_context \<Rightarrow> string option" where
  "context_server_ip ctx = map_option normalize_ip_value (req_server_ip (mc_req ctx))"

definition body_contains :: "ext \<Rightarrow> match_context \<Rightarrow> body_literal_id \<Rightarrow> bool" where
  "body_contains E ctx i = cbs_matches_id i (cbs_scan E (mc_body ctx) (body_text ctx))"

definition contains_ascii_case_insensitive :: "string \<Rightarrow> string \<Rightarrow> bool" where
  "contains_ascii_case_insensitive haystack needle \<longleftrightarrow>
     needle = [] \<or>
     list_ex (\<lambda>i. eq_ignore_ascii_case (take (length needle) (drop i haystack)) needle)
       [0..<Suc (length haystack) - length needle]"

fun url_condition_matches ::
  "ext \<Rightarrow> url_condition \<Rightarrow> string \<Rightarrow> compiled_glob_set \<Rightarrow> compiled_condition_resources \<Rightarrow> bool" where
  "url_condition_matches E (UrlGlob pattern) raw globs resources =
     (if glob_syntax_is_active pattern then
        (case resources of
           UrlGlobResource i \<Rightarrow> (case i of None \<Rightarrow> False | Some i \<Rightarrow> glob_match_id E globs i raw)
         | _ \<Rightarrow> False)
      else pattern = raw)"
| "url_condition_matches E (UrlRegex regex) raw globs resources = (regex_matches E regex raw \<noteq> None)"

definition ip_condition_matches ::
  "ext \<Rightarrow> compiled_glob_set \<Rightarrow> string list \<Rightarrow> glob_id option list \<Rightarrow> string option \<Rightarrow> bool" where
  "ip_condition_matches E globs patterns ids actual =
     (case actual of
        None \<Rightarrow> False
      | Some actual \<Rightarrow> list_ex (\<lambda>(p, i). ip_matches_id E globs p actual i) (zip patterns ids))"

lemma zip_size_estimate:
  "(c, r) \<in> set (zip cs rs) \<Longrightarrow> size c < Suc (size_list size cs)"
  by (meson le_imp_less_Suc order_refl set_zip_leftD size_list_estimation')

function matches_with_compiled ::
  "ext \<Rightarrow> condition \<Rightarrow> compiled_condition_resources \<Rightarrow> match_context \<Rightarrow> bool" where
  "matches_with_compiled E (CMethod methods) resources ctx =
     list_ex (\<lambda>m. eq_ignore_ascii_case m (req_method (mc_req ctx))) methods"
| "matches_with_compiled E (CHost pattern) resources ctx =
     (case resources of
        HostResource i \<Rightarrow>
          (case mc_url ctx of
             None \<Rightarrow> False
           | Some url \<Rightarrow> host_matches_id E (mc_globs ctx) pattern (url_host url) i)
      | _ \<Rightarrow> False)"
| "matches_with_compiled E (CUrl c) resources ctx =
     url_condition_matches E c (req_url (mc_req ctx)) (mc_globs ctx) resources"
| "matches_with_compiled E (CClientIp patterns) resources ctx =
     (case resources of
        ClientIpResource ids \<Rightarrow>
          ip_condition_matches E (mc_globs ctx) patterns ids (context_client_ip ctx)
      | _ \<Rightarrow> False)"
| "matches_with_compiled E (CServerIp patterns) resources ctx =
     (case resources of
        ServerIpResource ids \<Rightarrow>
          ip_condition_matches E (mc_globs ctx) patterns ids (context_server_ip ctx)
      | _ \<Rightarrow> False)"
| "matches_with_compiled E (CHeaderPresent name) resources ctx =
     (header (req_headers (mc_req ctx)) name \<noteq> None)"
| "matches_with_compiled E (CHeaderContains name v) resources ctx =
     (case header (req_headers (mc_req ctx)) name of
        None \<Rightarrow> False | Some actual \<Rightarrow> contains_ascii_case_insensitive actual v)"
| "matches_with_compiled E (CResHeaderPresent name) resources ctx =
     (case mc_res ctx of Some res \<Rightarrow> header (res_headers res) name \<noteq> None | None \<Rightarrow> False)"
| "matches_with_compiled E (CResHeaderContains name v) resources ctx =
     (case mc_res ctx of
        Some res \<Rightarrow>
          (case header (res_headers res) name of
             None \<Rightarrow> False | Some actual \<Rightarrow> contains_ascii_case_insensitive actual v)
      | None \<Rightarrow> False)"
| "matches_with_compiled E (CBodyContains literal) resources ctx =
     (case resources of BodyContainsResource i \<Rightarrow> body_contains E ctx i | _ \<Rightarrow> False)"
| "matches_with_compiled E (CBodyRegex regex) resources ctx =
     (regex_matches E regex (body_text ctx) \<noteq> None)"
| "matches_with_compiled E (CStatus statuses) resources ctx =
     (case mc_res ctx of Some res \<Rightarrow> res_status res \<in> set statuses | None \<Rightarrow> False)"
| "matches_with_compiled E (CChancePermille permille) resources ctx =
     chance (mc_req ctx) (mc_line ctx) permille"
| "matches_with_compiled E (CEnvPresent name) resources ctx = (env_var E name \<noteq> None)"
| "matches_with_compiled E (CEnvEquals name v) resources ctx = (env_var E name = Some v)"
| "matches_with_compiled E (CAny conditions) resources ctx =
     (case resources of
        ChildrenResources children \<Rightarrow>
          list_ex (\<lambda>(c, r). matches_with_compiled E c r ctx) (zip conditions children)
      | _ \<Rightarrow> False)"
| "matches_with_compiled E (CAll conditions) resources ctx =
     (case resources of
        ChildrenResources children \<Rightarrow>
          list_all (\<lambda>(c, r). matches_with_compiled E c r ctx) (zip conditions children)
      | _ \<Rightarrow> False)"
| "matches_with_compiled E (CNot inner) resources ctx =
     (if mc_res ctx = None \<and> depends_on_response inner then False
      else (case resources of
        NotConditionResources inner_resources \<Rightarrow>
          \<not> matches_with_compiled E inner inner_resources ctx
      | _ \<Rightarrow> False))"
  by pat_completeness auto

termination
  by (relation "measure (\<lambda>(E, c, r, ctx). size c)") (auto dest: zip_size_estimate)

text \<open>What a condition can still do before the request body is read.\<close>

function may_match_before_request_body ::
  "ext \<Rightarrow> condition \<Rightarrow> compiled_condition_resources \<Rightarrow> match_context \<Rightarrow> bool" where
  "may_match_before_request_body E c resources ctx =
     (case c of
        CBodyContains _ \<Rightarrow> True
      | CBodyRegex _ \<Rightarrow> True
      | CResHeaderPresent _ \<Rightarrow> True
      | CResHeaderContains _ _ \<Rightarrow> True
      | CStatus _ \<Rightarrow> True
      | CAny conditions \<Rightarrow>
          (case resources of
             ChildrenResources children \<Rightarrow>
               list_ex (\<lambda>(c, r). may_match_before_request_body E c r ctx) (zip conditions children)
           | _ \<Rightarrow> False)
      | CAll conditions \<Rightarrow>
          (case resources of
             ChildrenResources children \<Rightarrow>
               list_all (\<lambda>(c, r). may_match_before_request_body E c r ctx) (zip conditions children)
           | _ \<Rightarrow> False)
      | CNot inner \<Rightarrow>
          if depends_on_request_body inner \<or> depends_on_response inner then True
          else matches_with_compiled E c resources ctx
      | _ \<Rightarrow> matches_with_compiled E c resources ctx)"
  by pat_completeness auto
termination
  by (relation "measure (\<lambda>(E, c, r, ctx). size c)") (auto dest: zip_size_estimate)

declare may_match_before_request_body.simps [simp del]

section \<open>Reference semantics\<close>

definition contains_ci :: "string \<Rightarrow> string \<Rightarrow> bool" where
  "contains_ci txt p \<longleftrightarrow> (\<exists>u w v. txt = u @ w @ v \<and> eq_ignore_ascii_case w p)"

definition glob_matcher_spec :: "ext \<Rightarrow> glob_matcher \<Rightarrow> url_parts \<Rightarrow> captures option" where
  "glob_matcher_spec E g url =
     (if (\<exists>scheme. gm_scheme g = Some scheme \<and> \<not> eq_ignore_ascii_case scheme (url_scheme url)) \<or>
         \<not> host_spec E (gm_host g) (gm_host g) (url_host url) \<or>
         (\<exists>p. gm_port g = Some p \<and>
            \<not> (\<exists>port. effective_port url = Some port \<and>
                 glob_spec E p (CHR ''.'') (u16_to_string port) \<noteq> None))
      then None
      else
        Option.bind
          (case gm_path g of
             None \<Rightarrow> Some captures_default
           | Some p \<Rightarrow>
               if glob_syntax_is_active p
               then map_option (\<lambda>gs. append_matched_glob_captures gs captures_default)
                      (glob_spec E p (CHR ''/'') (url_path url))
               else if path_prefix_matches p (url_path url) then Some captures_default else None)
          (\<lambda>c. case gm_query g of
             None \<Rightarrow> Some c
           | Some q \<Rightarrow>
               map_option (\<lambda>gs. append_matched_glob_captures gs c)
                 (glob_spec E q (CHR ''&'') (case url_query url of None \<Rightarrow> [] | Some x \<Rightarrow> x))))"

fun matcher_spec :: "ext \<Rightarrow> matcher \<Rightarrow> url_parts \<Rightarrow> string \<Rightarrow> captures option" where
  "matcher_spec E (MExactUrl expected) url raw =
     (if exact_url_matches expected url then Some captures_default else None)"
| "matcher_spec E (MGlob g) url raw = glob_matcher_spec E g url"
| "matcher_spec E (MPort port) url raw =
     (if effective_port url = Some port then Some captures_default else None)"
| "matcher_spec E (MRegex regex) url raw = regex_matches E regex raw"
| "matcher_spec E (MNot m) url raw =
     (if matcher_spec E m url raw = None then Some captures_default else None)"

record spec_context =
  sc_url :: "url_parts option"
  sc_res :: "response_meta option"
  sc_line :: nat
  sc_req :: request_meta

definition spec_of :: "match_context \<Rightarrow> spec_context" where
  "spec_of ctx = \<lparr>sc_url = mc_url ctx, sc_res = mc_res ctx, sc_line = mc_line ctx, sc_req = mc_req ctx\<rparr>"

definition ip_list_spec :: "ext \<Rightarrow> string list \<Rightarrow> string option \<Rightarrow> bool" where
  "ip_list_spec E patterns actual \<longleftrightarrow>
     (\<exists>ip. actual = Some ip \<and> (\<exists>p \<in> set patterns. ip_spec E p (normalize_ip_value ip)))"

fun condition_spec :: "ext \<Rightarrow> spec_context \<Rightarrow> condition \<Rightarrow> bool" where
  "condition_spec E x (CMethod ms) = (\<exists>m \<in> set ms. eq_ignore_ascii_case m (req_method (sc_req x)))"
| "condition_spec E x (CHost p) =
     (\<exists>url. sc_url x = Some url \<and> host_spec E p (to_ascii_lowercase p) (url_host url))"
| "condition_spec E x (CUrl (UrlGlob p)) =
     (if glob_syntax_is_active p then glob_spec E p (CHR 0x00) (req_url (sc_req x)) \<noteq> None
      else p = req_url (sc_req x))"
| "condition_spec E x (CUrl (UrlRegex regex)) = (regex_matches E regex (req_url (sc_req x)) \<noteq> None)"
| "condition_spec E x (CClientIp ps) = ip_list_spec E ps (req_client_ip (sc_req x))"
| "condition_spec E x (CServerIp ps) = ip_list_spec E ps (req_server_ip (sc_req x))"
| "condition_spec E x (CHeaderPresent n) = (header (req_headers (sc_req x)) n \<noteq> None)"
| "condition_spec E x (CHeaderContains n v) =
     (\<exists>a. header (req_headers (sc_req x)) n = Some a \<and> contains_ci a v)"
| "condition_spec E x (CResHeaderPresent n) =
     (\<exists>res. sc_res x = Some res \<and> header (res_headers res) n \<noteq> None)"
| "condition_spec E x (CResHeaderContains n v) =
     (\<exists>res a. sc_res x = Some res \<and> header (res_headers res) n = Some a \<and> contains_ci a v)"
| "condition_spec E x (CBodyContains l) = contains_ci (utf8_lossy (req_body (sc_req x))) l"
| "condition_spec E x (CBodyRegex regex) =
     (regex_matches E regex (utf8_lossy (req_body (sc_req x))) \<noteq> None)"
| "condition_spec E x (CStatus ss) = (\<exists>res. sc_res x = Some res \<and> res_status res \<in> set ss)"
| "condition_spec E x (CChancePermille p) = chance (sc_req x) (sc_line x) p"
| "condition_spec E x (CEnvPresent n) = (env_var E n \<noteq> None)"
| "condition_spec E x (CEnvEquals n v) = (env_var E n = Some v)"
| "condition_spec E x (CAny cs) = (\<exists>c \<in> set cs. condition_spec E x c)"
| "condition_spec E x (CAll cs) = (\<forall>c \<in> set cs. condition_spec E x c)"
| "condition_spec E x (CNot c) =
     (\<not> (sc_res x = None \<and> depends_on_response c) \<and> \<not> condition_spec E x c)"

text \<open>
  What the crate relies on from the multi-pattern matcher: it reports a pattern exactly when
  that pattern occurs in the text, ignoring ASCII case when built so.
\<close>

definition ac_exact :: "ext \<Rightarrow> bool" where
  "ac_exact E \<longleftrightarrow>
     (\<forall>ci pats txt i. ac_new E ci pats \<longrightarrow>
        (i \<in> set (ac_overlapping E ci pats txt) \<longleftrightarrow>
           i < length pats \<and>
           (if ci then contains_ci txt (pats ! i) else contains_str txt (pats ! i))))"

section \<open>Substring search\<close>

lemma contains_ascii_case_insensitive_iff:
  "contains_ascii_case_insensitive h n \<longleftrightarrow> contains_ci h n"
proof
  assume "contains_ascii_case_insensitive h n"
  then show "contains_ci h n"
  proof (cases "n = []")
    case True
    then show ?thesis
      unfolding contains_ci_def by (intro exI [of _ "[]"] exI [of _ "[]"] exI [of _ h]) simp
  next
    case False
    with \<open>contains_ascii_case_insensitive h n\<close> obtain i
      where "eq_ignore_ascii_case (take (length n) (drop i h)) n"
      by (auto simp: contains_ascii_case_insensitive_def list_ex_iff)
    moreover have "h = take i h @ take (length n) (drop i h) @ drop (length n) (drop i h)"
      by (metis append_take_drop_id)
    ultimately show ?thesis unfolding contains_ci_def by blast
  qed
next
  assume "contains_ci h n"
  then obtain u w v where h: "h = u @ w @ v" and w: "eq_ignore_ascii_case w n"
    by (auto simp: contains_ci_def)
  from w have len: "length w = length n"
    by (metis eq_ignore_ascii_case_def length_to_ascii_lowercase)
  then have "length u \<in> set [0..<Suc (length h) - length n]" by (simp add: h)
  moreover have "take (length n) (drop (length u) h) = w" by (simp add: h len [symmetric])
  ultimately show "contains_ascii_case_insensitive h n"
    using w unfolding contains_ascii_case_insensitive_def list_ex_iff by metis
qed

section \<open>Body literals\<close>

lemma scan_loop_spec:
  assumes "remaining = length (filter Not matched)"
  shows "length (scan_loop ids matched remaining) = length matched \<and>
    (\<forall>j < length matched. scan_loop ids matched remaining ! j \<longleftrightarrow> matched ! j \<or> j \<in> set ids)"
  using assms
proof (induction ids matched remaining rule: scan_loop.induct)
  case (1 matched remaining)
  then show ?case by simp
next
  case (2 i ids matched remaining)
  show ?case
  proof (cases "nth_opt matched i = Some False")
    case False
    with 2 show ?thesis by (auto simp: nth_opt_def split: if_splits)
  next
    case True
    then have i: "i < length matched" "\<not> matched ! i" by (auto simp: nth_opt_Some_iff)
    have split: "matched = take i matched @ False # drop (Suc i) matched"
      using i by (metis id_take_nth_drop)
    have "length (filter Not matched) =
        length (filter Not (take i matched)) + Suc (length (filter Not (drop (Suc i) matched)))"
      using arg_cong [OF split, of "\<lambda>xs. length (filter Not xs)"] by simp
    then have less: "length (filter Not (matched[i := True])) = remaining - 1"
      using 2(3) by (simp add: upd_conv_take_nth_drop [OF i(1)])
    show ?thesis
    proof (cases "remaining - 1 = 0")
      case True
      with less have "filter Not (matched[i := True]) = []" by simp
      then have all: "\<forall>b \<in> set (matched[i := True]). b" by (simp add: filter_empty_conv)
      then have "\<forall>j < length matched. j \<noteq> i \<longrightarrow> matched ! j"
        by (metis length_list_update nth_list_update_neq nth_mem)
      with True \<open>nth_opt matched i = Some False\<close> i show ?thesis
        by (auto simp: nth_list_update)
    next
      case False
      with 2(1) [OF \<open>nth_opt matched i = Some False\<close> False less [symmetric]]
        \<open>nth_opt matched i = Some False\<close> i show ?thesis
        by (auto simp: nth_list_update)
    qed
  qed
qed

definition literal_bound :: "compiled_body_contains_set \<Rightarrow> string \<Rightarrow> nat \<Rightarrow> bool" where
  "literal_bound s l i \<longleftrightarrow> i < length (cbs_literals s) \<and> cbs_literals s ! i = to_ascii_lowercase l"

lemma eq_ignore_lower: "eq_ignore_ascii_case w (to_ascii_lowercase l) = eq_ignore_ascii_case w l"
  by (simp add: eq_ignore_ascii_case_def)

lemma cbs_scan_spec:
  assumes "ac_exact E" "literal_bound s l i"
    and "cbs_matcher s = Some (cbs_literals s)" "ac_new E True (cbs_literals s)"
  shows "cbs_matches_id i (cbs_scan E s txt) \<longleftrightarrow> contains_ci txt l"
proof -
  have i: "i < length (cbs_literals s)" "cbs_literals s ! i = to_ascii_lowercase l"
    using assms(2) by (simp_all add: literal_bound_def)
  have "cbs_matches_id i (cbs_scan E s txt) \<longleftrightarrow> i \<in> set (ac_overlapping E True (cbs_literals s) txt)"
    using scan_loop_spec [of "length (cbs_literals s)" "replicate (length (cbs_literals s)) False"
        "ac_overlapping E True (cbs_literals s) txt"] i
    by (simp add: cbs_matches_id_def cbs_scan_def Let_def assms(3) nth_opt_def)
  also have "\<dots> \<longleftrightarrow> contains_ci txt l"
    using assms(1,4) i by (simp add: ac_exact_def contains_ci_def eq_ignore_lower)
  finally show ?thesis .
qed

lemma enumerate_map_get:
  "bt_get (foldl (\<lambda>m (i, l). bt_insert l i m) bt_empty (enumerate 0 ls)) l = Some i \<Longrightarrow>
     i < length ls \<and> ls ! i = l"
proof -
  assume *: "bt_get (foldl (\<lambda>m (i, l). bt_insert l i m) bt_empty (enumerate 0 ls)) l = Some i"
  have "foldl (\<lambda>m (i, l). bt_insert l i m) bt_empty (enumerate 0 ls) =
    foldl (\<lambda>m (k, v). bt_insert k v m) bt_empty (map (\<lambda>(i, l). (l, i)) (enumerate 0 ls))"
    by (simp add: foldl_map case_prod_unfold)
  with * have "(case map_of (rev (map (\<lambda>(i, l). (l, i)) (enumerate 0 ls))) l of
      None \<Rightarrow> None | Some v \<Rightarrow> Some v) = Some i"
    using btree.get_foldl_put [OF btree.inv_empty, of "map (\<lambda>(i, l). (l, i)) (enumerate 0 ls)" l]
    by (auto split: option.splits)
  then have "(l, i) \<in> set (map (\<lambda>(i, l). (l, i)) (enumerate 0 ls))"
    by (auto dest!: map_of_SomeD split: option.splits)
  then show ?thesis by (auto simp: in_set_enumerate_eq)
qed

lemma cbs_from_literals_bound:
  assumes "cbs_from_literals E source = Some s"
  shows "cbs_id s l = Some i \<Longrightarrow> literal_bound s l i"
    and "cbs_literals s = [] \<or> cbs_matcher s = Some (cbs_literals s) \<and> ac_new E True (cbs_literals s)"
proof -
  define literals where "literals = bs_of_list (map to_ascii_lowercase source)"
  define norm where "norm = foldl (\<lambda>m (i, l). bt_insert l i m) bt_empty (enumerate 0 literals)"
  from assms obtain ids where
    ids: "fold_option (\<lambda>l m. map_option (\<lambda>i. bt_insert l i m) (bt_get norm (to_ascii_lowercase l)))
       source bt_empty = Some ids"
    and s: "cbs_literals s = literals" "cbs_literal_ids s = ids"
      "literals = [] \<or> cbs_matcher s = Some literals \<and> ac_new E True literals"
    unfolding cbs_from_literals_def Let_def literals_def [symmetric] norm_def [symmetric]
    by (auto simp: bind_eq_Some_conv split: if_splits)
  have "bt_inv m \<Longrightarrow> (\<And>l i. bt_get m l = Some i \<Longrightarrow> i < length literals \<and> literals ! i = to_ascii_lowercase l) \<Longrightarrow>
    fold_option (\<lambda>l m. map_option (\<lambda>i. bt_insert l i m) (bt_get norm (to_ascii_lowercase l))) src m = Some ids \<Longrightarrow>
    bt_get ids l = Some i \<Longrightarrow> i < length literals \<and> literals ! i = to_ascii_lowercase l" for src m l i
  proof (induction src arbitrary: m l i)
    case (Cons x src)
    from Cons.prems(3) obtain j where j: "bt_get norm (to_ascii_lowercase x) = Some j"
      and rest: "fold_option (\<lambda>l m. map_option (\<lambda>i. bt_insert l i m) (bt_get norm (to_ascii_lowercase l)))
        src (bt_insert x j m) = Some ids"
      by (auto simp: bind_eq_Some_conv)
    note jj = enumerate_map_get [OF j [unfolded norm_def]]
    show ?case
      by (rule Cons.IH [OF bt_inv_insert [OF Cons.prems(1)] _ rest Cons.prems(4)])
         (use Cons.prems(2) jj in \<open>auto simp: bt_get_insert [OF Cons.prems(1)] split: if_splits\<close>)
  qed simp
  from this [OF btree.inv_empty _ ids] show "cbs_id s l = Some i \<Longrightarrow> literal_bound s l i"
    by (simp add: cbs_id_def literal_bound_def s)
  show "cbs_literals s = [] \<or> cbs_matcher s = Some (cbs_literals s) \<and> ac_new E True (cbs_literals s)"
    using s by simp
qed

lemma body_contains_spec:
  assumes "ac_exact E" "cbs_from_literals E source = Some (mc_body ctx)" "cbs_id (mc_body ctx) l = Some i"
  shows "body_contains E ctx i \<longleftrightarrow> contains_ci (body_text ctx) l"
  using cbs_from_literals_bound [OF assms(2)] assms(3) cbs_scan_spec [OF assms(1)]
  by (fastforce simp: body_contains_def literal_bound_def)

section \<open>Bound resources agree with the reference semantics\<close>

definition keys_bound :: "ext \<Rightarrow> compiled_glob_set \<Rightarrow> (string \<times> char) list \<Rightarrow> bool" where
  "keys_bound E globs keys \<longleftrightarrow> (\<forall>(p, sep) \<in> set keys. id_denotes E globs (cgs_id globs p sep) p sep)"

lemma keys_bound_append [simp]:
  "keys_bound E g (ks @ ks') \<longleftrightarrow> keys_bound E g ks \<and> keys_bound E g ks'"
  "keys_bound E g [] \<longleftrightarrow> True"
  "keys_bound E g ((p, sep) # ks) \<longleftrightarrow> id_denotes E g (cgs_id g p sep) p sep \<and> keys_bound E g ks"
  by (auto simp: keys_bound_def)

lemma resources_match_spec:
  "id_denotes E g i p sep \<Longrightarrow> resources_match E i txt g \<longleftrightarrow> glob_spec E p sep txt \<noteq> None"
  by (auto simp: resources_match_def id_denotes_def glob_match_id_spec split: option.splits)

lemma resources_match_with_captures_spec:
  "id_denotes E g i p sep \<Longrightarrow> resources_match_with_captures E i txt g c =
     map_option (\<lambda>gs. append_matched_glob_captures gs c) (glob_spec E p sep txt)"
  by (auto simp: resources_match_with_captures_def id_denotes_def glob_match_with_captures_id_spec
      split: option.splits)

lemma glob_matches_compiled_spec:
  assumes "keys_bound E globs (matcher_keys (MGlob g))"
  shows "glob_matches_compiled E g url globs (bind_matcher_resources (MGlob g) globs) =
    glob_matcher_spec E g url"
proof -
  have host: "host_matches_id E globs (gm_host g) h
      (if host_pattern_uses_regex (gm_host g) then cgs_id globs (gm_host g) (CHR ''.'') else None) =
    host_spec E (gm_host g) (gm_host g) h" for h
    by (rule host_matches_id_spec) (use assms in \<open>auto split: if_splits\<close>)
  have port: "resources_match E (cgs_id globs p (CHR ''.'')) t globs = (glob_spec E p (CHR ''.'') t \<noteq> None)"
    if "gm_port g = Some p" for p t
    by (rule resources_match_spec) (use assms that in auto)
  have path: "resources_match_with_captures E (cgs_id globs p (CHR ''/'')) t globs c =
      map_option (\<lambda>gs. append_matched_glob_captures gs c) (glob_spec E p (CHR ''/'') t)"
    if "gm_path g = Some p" "glob_syntax_is_active p" for p t c
    by (rule resources_match_with_captures_spec) (use assms that in auto)
  have query: "resources_match_with_captures E (cgs_id globs p (CHR ''&'')) t globs c =
      map_option (\<lambda>gs. append_matched_glob_captures gs c) (glob_spec E p (CHR ''&'') t)"
    if "gm_query g = Some p" for p t c
    by (rule resources_match_with_captures_spec) (use assms that in auto)
  show ?thesis
    unfolding glob_matches_compiled_def glob_matcher_spec_def bind_matcher_resources.simps
      compiled_matcher_resources.case host
    by (cases "gm_scheme g"; cases "gm_port g"; cases "gm_path g"; cases "gm_query g";
        cases "effective_port url") (simp_all add: port path query)
qed

theorem matches_compiled_spec:
  "keys_bound E globs (matcher_keys m) \<Longrightarrow>
     matches_compiled E m url raw globs (bind_matcher_resources m globs) = matcher_spec E m url raw"
proof (induction m)
  case (MGlob g)
  then show ?case
    using glob_matches_compiled_spec [of E globs g url] by (simp only: matches_compiled.simps matcher_spec.simps)
qed simp_all


lemma those_map_Some_iff:
  "those (map f xs) = Some ys \<longleftrightarrow> list_all2 (\<lambda>x y. f x = Some y) xs ys"
proof (induction xs arbitrary: ys)
  case (Cons x xs)
  then show ?case by (auto simp: list_all2_Cons1 split: option.splits)
qed auto

lemma list_all2_zip_ex:
  assumes "list_all2 R xs ys" "\<And>x y. x \<in> set xs \<Longrightarrow> R x y \<Longrightarrow> f x y \<longleftrightarrow> g x"
  shows "list_ex (\<lambda>(x, y). f x y) (zip xs ys) \<longleftrightarrow> (\<exists>x \<in> set xs. g x)"
    and "list_all (\<lambda>(x, y). f x y) (zip xs ys) \<longleftrightarrow> (\<forall>x \<in> set xs. g x)"
  using assms by (induction rule: list_all2_induct) auto

lemma ip_condition_matches_spec:
  assumes "keys_bound E globs (ip_keys patterns)"
  shows "ip_condition_matches E globs patterns
      (map (\<lambda>p. cgs_id globs (normalize_ip_value p) (CHR 0x00)) patterns)
      (map_option normalize_ip_value actual) \<longleftrightarrow> ip_list_spec E patterns actual"
proof -
  have "ip_matches_id E globs p a (cgs_id globs (normalize_ip_value p) (CHR 0x00)) = ip_spec E p a"
    if "p \<in> set patterns" for p a
    by (rule ip_matches_id_spec)
       (use assms ip_key_registered [OF that] in \<open>auto simp: keys_bound_def\<close>)
  then show ?thesis
    by (auto simp: ip_condition_matches_def ip_list_spec_def list_ex_iff zip_map2 zip_same_conv_map
        split: option.splits)
qed

lemma keys_bound_node:
  "keys_bound E g (condition_keys c) \<Longrightarrow> d \<in> set (condition_nodes c) \<Longrightarrow> keys_bound E g (node_keys d)"
  by (fastforce simp: keys_bound_def condition_keys_def)

lemma keys_bound_children:
  "keys_bound E g (condition_keys (CAny cs)) \<Longrightarrow> c \<in> set cs \<Longrightarrow> keys_bound E g (condition_keys c)"
  "keys_bound E g (condition_keys (CAll cs)) \<Longrightarrow> c \<in> set cs \<Longrightarrow> keys_bound E g (condition_keys c)"
  "keys_bound E g (condition_keys (CNot d)) \<Longrightarrow> keys_bound E g (condition_keys d)"
  by (fastforce simp: keys_bound_def condition_keys_def)+

theorem matches_with_compiled_spec:
  assumes "ac_exact E" "cbs_from_literals E source = Some (mc_body ctx)"
  shows "keys_bound E (mc_globs ctx) (condition_keys c) \<Longrightarrow>
    bind_condition_resources c (mc_globs ctx) (mc_body ctx) = Some r \<Longrightarrow>
    matches_with_compiled E c r ctx \<longleftrightarrow> condition_spec E (spec_of ctx) c"
proof (induction c arbitrary: r)
  case (CHost p)
  then have r: "r = HostResource (if host_pattern_uses_regex p
      then cgs_id (mc_globs ctx) (to_ascii_lowercase p) (CHR ''.'') else None)" by simp
  have "host_matches_id E (mc_globs ctx) p h (if host_pattern_uses_regex p
      then cgs_id (mc_globs ctx) (to_ascii_lowercase p) (CHR ''.'') else None) =
    host_spec E p (to_ascii_lowercase p) h" for h
    by (rule host_matches_id_spec) (use CHost.prems(1) in \<open>auto simp: condition_keys_def\<close>)
  then have "matches_with_compiled E (CHost p) r ctx \<longleftrightarrow>
      (case mc_url ctx of None \<Rightarrow> False | Some url \<Rightarrow> host_spec E p (to_ascii_lowercase p) (url_host url))"
    by (simp only: r matches_with_compiled.simps compiled_condition_resources.case)
  then show ?case by (simp add: spec_of_def split: option.split)
next
  case (CUrl u)
  then show ?case
    by (cases u) (auto simp: spec_of_def condition_keys_def id_denotes_def glob_match_id_spec split: option.splits)
next
  case (CClientIp ps)
  then show ?case
    using ip_condition_matches_spec [of E "mc_globs ctx" ps "req_client_ip (mc_req ctx)"]
    by (auto simp: spec_of_def condition_keys_def context_client_ip_def)
next
  case (CServerIp ps)
  then show ?case
    using ip_condition_matches_spec [of E "mc_globs ctx" ps "req_server_ip (mc_req ctx)"]
    by (auto simp: spec_of_def condition_keys_def context_server_ip_def)
next
  case (CBodyContains l)
  then obtain i where "cbs_id (mc_body ctx) l = Some i" "r = BodyContainsResource i" by auto
  with body_contains_spec [OF assms this(1)] show ?case by (simp add: spec_of_def body_text_def)
next
  case (CAny cs)
  then obtain rs where rs: "r = ChildrenResources rs"
    "list_all2 (\<lambda>c r. bind_condition_resources c (mc_globs ctx) (mc_body ctx) = Some r) cs rs"
    by (auto simp: those_map_Some_iff)
  show ?case
    using list_all2_zip_ex(1) [OF rs(2), of "\<lambda>c r. matches_with_compiled E c r ctx"
        "condition_spec E (spec_of ctx)"] CAny.IH keys_bound_children(1) [OF CAny.prems(1)]
    by (simp add: rs(1))
next
  case (CAll cs)
  then obtain rs where rs: "r = ChildrenResources rs"
    "list_all2 (\<lambda>c r. bind_condition_resources c (mc_globs ctx) (mc_body ctx) = Some r) cs rs"
    by (auto simp: those_map_Some_iff)
  show ?case
    using list_all2_zip_ex(2) [OF rs(2), of "\<lambda>c r. matches_with_compiled E c r ctx"
        "condition_spec E (spec_of ctx)"] CAll.IH keys_bound_children(2) [OF CAll.prems(1)]
    by (simp add: rs(1))
next
  case (CNot c)
  then obtain i where "bind_condition_resources c (mc_globs ctx) (mc_body ctx) = Some i"
    "r = NotConditionResources i" by auto
  with CNot.IH [OF keys_bound_children(3) [OF CNot.prems(1)]] show ?case by (auto simp: spec_of_def)
qed (auto simp: spec_of_def body_text_def list_ex_iff contains_ascii_case_insensitive_iff split: option.splits)

end
