(* ===== verification/Rule_Candidates.thy ===== *)
theory Rule_Candidates
  imports Rule_Match
begin

text \<open>
  Candidate selection (\<open>RuleSet::candidate_rule_indices\<close> in \<open>resolve.rs\<close>) and why the index
  has no false negatives: the literal required of a regex occurs in every URL the regex
  matches, the key a host pattern is filed under finds every host it matches, the prefilter
  reports every rule whose literal occurs, and filing keeps every rule in one bucket.
\<close>

section \<open>Words of a regex\<close>

text \<open>
  The words a parsed regex can match. Classes are left unconstrained and look-around matches
  the empty word, so the hypothesis below asks little of the engines: a match of a pattern
  that \<open>regex_syntax\<close> parses covers a word of its representation.
\<close>

inductive hir_word :: "hir \<Rightarrow> string \<Rightarrow> bool" where
  hw_empty: "hir_word HirEmpty []"
| hw_literal: "hir_word (HirLiteral l) l"
| hw_class: "hir_word (HirClass rs) w"
| hw_look: "hir_word (HirLook n) []"
| hw_repetition:
    "lo \<le> length ws \<Longrightarrow> (\<And>w. w \<in> set ws \<Longrightarrow> hir_word h w) \<Longrightarrow>
       hir_word (HirRepetition lo hi h) (concat ws)"
| hw_capture: "hir_word h w \<Longrightarrow> hir_word (HirCapture h) w"
| hw_concat: "list_all2 hir_word hs ws \<Longrightarrow> hir_word (HirConcat hs) (concat ws)"
| hw_alternation: "h \<in> set hs \<Longrightarrow> hir_word h w \<Longrightarrow> hir_word (HirAlternation hs) w"

inductive_cases hir_word_literalE: "hir_word (HirLiteral l) w"
inductive_cases hir_word_captureE: "hir_word (HirCapture h) w"
inductive_cases hir_word_repetitionE: "hir_word (HirRepetition lo hi h) w"
inductive_cases hir_word_concatE: "hir_word (HirConcat hs) w"

definition regex_hir_sound :: "ext \<Rightarrow> bool" where
  "regex_hir_sound E \<longleftrightarrow>
     (\<forall>p h txt. hir_parse E p = Some h \<longrightarrow>
        (linear_captures E p False txt \<noteq> None \<or> fancy_captures E p txt \<noteq> None) \<longrightarrow>
        (\<exists>u w v. txt = u @ w @ v \<and> hir_word h w))"

lemma longest_of_in:
  assumes "longest_of xs = Some l"
  shows "l \<in> set xs"
proof -
  have "foldl (\<lambda>best p. case best of None \<Rightarrow> Some p
      | Some b \<Rightarrow> if length b \<le> length p then Some p else Some b) acc xs = Some l \<Longrightarrow>
    acc = Some l \<or> l \<in> set xs" for acc :: "string option"
  proof (induction xs arbitrary: acc)
    case (Cons x xs)
    from Cons.IH [OF Cons.prems [unfolded foldl_Cons]] show ?case
      by (cases acc) (auto split: if_splits)
  qed simp
  with assms show ?thesis by (simp add: longest_of_def) blast
qed

lemma contains_str_append: "contains_str w p \<Longrightarrow> contains_str (u @ w @ v) p"
  unfolding contains_str_iff by (metis append.assoc)

lemma contains_str_concat: "w \<in> set ws \<Longrightarrow> contains_str w p \<Longrightarrow> contains_str (concat ws) p"
  by (metis concat.simps(2) concat_append contains_str_append split_list)

lemma longest_required_sound: "hir_word h w \<Longrightarrow> longest_required h = Some l \<Longrightarrow> contains_str w l"
proof (induction h arbitrary: w l)
  case (HirLiteral x)
  then show ?case by (auto elim!: hir_word_literalE simp: contains_str_iff intro: exI [of _ "[]"])
next
  case (HirRepetition lo hi h)
  from HirRepetition.prems(1) show ?case
  proof (rule hir_word_repetitionE)
    fix ws assume w: "w = concat ws" "lo \<le> length ws" "\<And>w. w \<in> set ws \<Longrightarrow> hir_word h w"
    with HirRepetition.prems(2) obtain x where "x \<in> set ws"
      by (cases ws) (auto split: if_splits)
    with w HirRepetition show ?thesis by (auto intro: contains_str_concat split: if_splits)
  qed
next
  case (HirCapture h)
  then show ?case by (auto elim!: hir_word_captureE)
next
  case (HirConcat hs)
  from HirConcat.prems(1) show ?case
  proof (rule hir_word_concatE)
    fix ws assume w: "w = concat ws" "list_all2 hir_word hs ws"
    from HirConcat.prems(2) obtain h where h: "h \<in> set hs" "longest_required h = Some l"
      by (auto dest!: longest_of_in simp: List.map_filter_def)
    from w(2) h(1) obtain x where "x \<in> set ws" "hir_word h x"
      by (metis in_set_conv_nth list_all2_conv_all_nth)
    with HirConcat.IH [OF h(1) _ h(2)] w(1) show ?thesis by (auto intro: contains_str_concat)
  qed
qed simp_all

lemma required_regex_literal_sound:
  assumes "regex_hir_sound E" "required_regex_literal E regex = Some l" "regex_matches E regex raw \<noteq> None"
  shows "contains_str raw l"
proof -
  from assms(2) obtain h where h: "hir_parse E (rm_pattern regex) = Some h" "longest_required h = Some l"
    and ci: "\<not> rm_case_insensitive regex"
    by (auto simp: required_regex_literal_def split: if_splits option.splits)
  from assms(3) ci have "linear_captures E (rm_pattern regex) False raw \<noteq> None \<or>
      fancy_captures E (rm_pattern regex) raw \<noteq> None"
    by (auto simp: regex_matches_def fancy_pattern_def split: regex_engine.splits)
  with assms(1) h(1) obtain u w v where "raw = u @ w @ v" "hir_word h w"
    unfolding regex_hir_sound_def by blast
  with longest_required_sound [OF _ h(2)] show ?thesis by (auto intro: contains_str_append)
qed

section \<open>Host keys cover host matches\<close>

lemma find_char_before: "P c \<Longrightarrow> \<exists>i \<le> length a. find_char P (a @ c # b) = Some i"
  by (induction a) auto

lemma host_suffixes_complete:
  "base \<noteq> [] \<Longrightarrow> h = base \<or> h = pre @ ''.'' @ base \<Longrightarrow> base \<in> set (host_suffixes h)"
proof (induction h arbitrary: pre rule: host_suffixes.induct)
  case (1 h)
  show ?case
  proof (cases "h = base")
    case True
    then show ?thesis by (subst host_suffixes.simps) simp
  next
    case False
    with "1.prems" have h: "h = pre @ ''.'' @ base" by simp
    then obtain i where i: "find_char (\<lambda>c. c = CHR ''.'') h = Some i" and le: "i \<le> length pre"
      using find_char_before [of "\<lambda>c. c = CHR ''.''" "CHR ''.''" pre base] by auto
    have long: "\<not> length h \<le> i + 1" using le "1.prems"(1) by (cases base) (simp_all add: h)
    have "base = drop (i + 1) h \<or> (\<exists>p'. drop (i + 1) h = p' @ ''.'' @ base)"
    proof (cases "i = length pre")
      case True
      then show ?thesis by (simp add: h)
    next
      case False
      with le have "drop (i + 1) h = drop (i + 1) pre @ ''.'' @ base" by (simp add: h)
      then show ?thesis by blast
    qed
    with "1.IH" [OF i long "1.prems"(1)] have "base \<in> set (host_suffixes (drop (i + 1) h))" by blast
    then show ?thesis using i long by (subst host_suffixes.simps) simp
  qed
qed

lemma is_plain_domain_chars:
  "is_plain_domain h \<Longrightarrow> \<not> glob_syntax_is_active h \<and> h \<noteq> []"
proof -
  have "\<not> (is_ascii_alphanumeric (CHR ''*'') \<or> CHR ''*'' = CHR ''-'' \<or> CHR ''*'' = CHR ''.'' \<or> CHR ''*'' = CHR '':'' \<or> CHR ''*'' = CHR ''_'')"
    "\<not> (is_ascii_alphanumeric (CHR 0x5C) \<or> CHR 0x5C = CHR ''-'' \<or> CHR 0x5C = CHR ''.'' \<or> CHR 0x5C = CHR '':'' \<or> CHR 0x5C = CHR ''_'')"
    by code_simp+
  then show "is_plain_domain h \<Longrightarrow> ?thesis"
    unfolding is_plain_domain_def glob_syntax_is_active_iff list_all_iff by blast
qed

text \<open>The key under which a matcher is filed finds every URL host it matches.\<close>

fun key_covers :: "index_key \<Rightarrow> string \<Rightarrow> bool" where
  "key_covers (KeyExact h) host \<longleftrightarrow> host = h"
| "key_covers (KeySuffix b) host \<longleftrightarrow> b \<in> set (host_suffixes host)"
| "key_covers KeyGlobal host \<longleftrightarrow> True"

lemma glob_index_key_covers:
  assumes "host_spec E (gm_host g) k host"
  shows "key_covers (glob_index_key g) (to_ascii_lowercase (trim_brackets host))"
proof -
  define p where "p = to_ascii_lowercase (trim_brackets (gm_host g))"
  define h where "h = to_ascii_lowercase (trim_brackets host)"
  note spec = assms [unfolded host_spec_def p_def [symmetric] h_def [symmetric] Let_def]
  show ?thesis
  proof (cases "glob_index_key g")
    case (KeyExact x)
    then have p: "p = x" "is_plain_domain p" "p \<noteq> ''*''" "strip_prefix p ''**.'' = None" "strip_prefix p ''*.'' = None"
      by (auto simp: glob_index_key_def p_def [symmetric] Let_def split: if_splits option.splits)
    then have "p \<noteq> ''**''" "\<not> glob_syntax_is_active p"
      using is_plain_domain_chars [OF p(2)] by (auto simp: glob_syntax_is_active_def)
    with spec p show ?thesis by (simp add: KeyExact h_def)
  next
    case (KeySuffix b)
    then have b: "is_plain_domain b" "p \<noteq> ''*''"
      and base: "(case strip_prefix p ''**.'' of Some b \<Rightarrow> Some b
        | None \<Rightarrow> (case strip_prefix p ''*.'' of Some b \<Rightarrow> Some b | None \<Rightarrow> strip_prefix p ''.'')) = Some b"
      by (auto simp: glob_index_key_def p_def [symmetric] Let_def split: if_splits option.splits)
    note plain = is_plain_domain_chars [OF b(1)]
    have "h = b \<or> (\<exists>pre. h = pre @ ''.'' @ b)"
    proof (cases "strip_prefix p ''**.''")
      case (Some c)
      with base have "c = b" by simp
      moreover from Some have "p \<noteq> ''**''" by (auto simp: strip_prefix_Some_iff)
      ultimately show ?thesis using spec Some b by auto
    next
      case no2: None
      show ?thesis
      proof (cases "strip_prefix p ''*.''")
        case (Some c)
        with base no2 have "c = b" by simp
        moreover from Some have "p \<noteq> ''**''" by (auto simp: strip_prefix_Some_iff)
        ultimately show ?thesis using spec Some b no2 by auto
      next
        case None
        with base no2 have p: "p = ''.'' @ b" by (simp add: strip_prefix_Some_iff)
        then have "\<not> glob_syntax_is_active p" "p \<noteq> ''**''"
          using plain by (auto simp: glob_syntax_is_active_def)
        with spec None no2 b have "h = ''.'' @ b" by (simp add: p)
        then show ?thesis by (metis append_Nil)
      qed
    qed
    then show ?thesis using host_suffixes_complete [of b h] plain by (auto simp: KeySuffix h_def)
  qed simp
qed

lemma matcher_index_key_covers:
  assumes "matcher_spec E m url raw \<noteq> None"
  shows "key_covers (matcher_index_key m) (to_ascii_lowercase (trim_brackets (url_host url)))"
proof (cases m)
  case (MExactUrl e)
  with assms show ?thesis by (auto simp: exact_url_matches_def split: sum.splits if_splits)
next
  case (MGlob g)
  with assms have "host_spec E (gm_host g) (gm_host g) (url_host url)"
    by (auto simp: glob_matcher_spec_def split: if_splits)
  with MGlob show ?thesis by (simp add: glob_index_key_covers)
qed simp_all


section \<open>Filing rules\<close>

definition filed_literal :: "ext \<Rightarrow> rule \<Rightarrow> string option" where
  "filed_literal E r =
     (case rule_matcher r of MRegex regex \<Rightarrow> required_regex_literal E regex | _ \<Rightarrow> None)"

definition filed :: "ext \<Rightarrow> rule_index \<times> literal_buckets \<Rightarrow> nat \<Rightarrow> rule \<Rightarrow> bool" where
  "filed E st i r =
     (case filed_literal E r of
        Some l \<Rightarrow> i \<in> set (bt_bucket (snd st) l)
      | None \<Rightarrow>
          (case matcher_index_key (rule_matcher r) of
             KeyExact h \<Rightarrow> i \<in> set (bt_bucket (domain_exact (fst st)) h)
           | KeySuffix b \<Rightarrow> i \<in> set (bt_bucket (domain_suffix (fst st)) b)
           | KeyGlobal \<Rightarrow> i \<in> set (global_rules (fst st))))"

definition filing_inv :: "ext \<Rightarrow> (nat \<times> rule) list \<Rightarrow> rule_index \<times> literal_buckets \<Rightarrow> bool" where
  "filing_inv E xs st \<longleftrightarrow>
     bt_inv (domain_exact (fst st)) \<and> bt_inv (domain_suffix (fst st)) \<and> bt_inv (snd st) \<and>
     (\<forall>(i, r) \<in> set xs. filed E st i r) \<and>
     (\<forall>h. set (bt_bucket (domain_exact (fst st)) h) \<subseteq> fst ` set xs) \<and>
     (\<forall>b. set (bt_bucket (domain_suffix (fst st)) b) \<subseteq> fst ` set xs) \<and>
     set (global_rules (fst st)) \<subseteq> fst ` set xs \<and>
     (\<forall>l. set (bt_bucket (snd st) l) \<subseteq> set (prefilter_rule_ids (fst st))) \<and>
     set (prefilter_rule_ids (fst st)) \<subseteq> fst ` set xs \<and>
     distinct (prefilter_rule_ids (fst st))"

lemma index_rule_cases:
  "index_rule E st (i, r) =
     (case filed_literal E r of
        Some l \<Rightarrow> ((fst st)\<lparr>prefilter_rule_ids := push_unique (prefilter_rule_ids (fst st)) i\<rparr>,
                  bt_push l i (snd st))
      | None \<Rightarrow>
          (case matcher_index_key (rule_matcher r) of
             KeyExact h \<Rightarrow> (fst st)\<lparr>domain_exact := bt_push h i (domain_exact (fst st))\<rparr>
           | KeySuffix h \<Rightarrow> (fst st)\<lparr>domain_suffix := bt_push h i (domain_suffix (fst st))\<rparr>
           | KeyGlobal \<Rightarrow> (fst st)\<lparr>global_rules := global_rules (fst st) @ [i]\<rparr>, snd st))"
  unfolding index_rule_def filed_literal_def case_prod_unfold fst_conv snd_conv by (rule refl)

lemma filed_mono:
  assumes "filed E st j q" "bt_inv (domain_exact (fst st))" "bt_inv (domain_suffix (fst st))" "bt_inv (snd st)"
  shows "filed E (index_rule E st (i, r)) j q"
  using assms unfolding filed_def index_rule_cases
  by (auto simp: buckets.bucket_push split: option.splits index_key.splits)

lemma filed_self:
  assumes "bt_inv (domain_exact (fst st))" "bt_inv (domain_suffix (fst st))" "bt_inv (snd st)"
  shows "filed E (index_rule E st (i, r)) i r"
  using assms unfolding filed_def index_rule_cases
  by (auto simp: buckets.bucket_push split: option.splits index_key.splits)

lemma filing_inv_step:
  assumes "filing_inv E xs st"
  shows "filing_inv E (xs @ [(i, r)]) (index_rule E st (i, r))"
proof -
  note inv = assms [unfolded filing_inv_def]
  have ms: "bt_inv (domain_exact (fst st))" "bt_inv (domain_suffix (fst st))" "bt_inv (snd st)"
    using inv by blast+
  have "\<forall>(j, q) \<in> set (xs @ [(i, r)]). filed E (index_rule E st (i, r)) j q"
    using inv filed_mono [OF _ ms] filed_self [OF ms] by fastforce
  moreover have "bt_inv (domain_exact (fst (index_rule E st (i, r))))"
    "bt_inv (domain_suffix (fst (index_rule E st (i, r))))" "bt_inv (snd (index_rule E st (i, r)))"
    using ms unfolding index_rule_cases
    by (auto simp: buckets.inv_push split: option.splits index_key.splits)
  moreover have "set (bt_bucket (domain_exact (fst (index_rule E st (i, r)))) h) \<subseteq> fst ` set (xs @ [(i, r)])"
    "set (bt_bucket (domain_suffix (fst (index_rule E st (i, r)))) h) \<subseteq> fst ` set (xs @ [(i, r)])"
    "set (global_rules (fst (index_rule E st (i, r)))) \<subseteq> fst ` set (xs @ [(i, r)])" for h
    using inv ms unfolding index_rule_cases
    by (auto simp: buckets.bucket_push split: option.splits index_key.splits)
  moreover have "set (bt_bucket (snd (index_rule E st (i, r))) l) \<subseteq>
      set (prefilter_rule_ids (fst (index_rule E st (i, r))))"
    "set (prefilter_rule_ids (fst (index_rule E st (i, r)))) \<subseteq> fst ` set (xs @ [(i, r)])"
    "distinct (prefilter_rule_ids (fst (index_rule E st (i, r))))" for l
    using inv ms unfolding index_rule_cases
    by (auto simp: buckets.bucket_push distinct_push_unique split: option.splits index_key.splits)
  ultimately show ?thesis unfolding filing_inv_def by blast
qed

lemma filing_inv_init: "filing_inv E [] (index_default, bt_empty)"
  by (simp add: filing_inv_def index_default_def bt_bucket_def)

lemma filing_inv_foldl: "filing_inv E xs (foldl (index_rule E) (index_default, bt_empty) xs)"
proof (induction xs rule: rev_induct)
  case Nil
  then show ?case by (simp add: filing_inv_init)
next
  case (snoc x xs)
  then show ?case using filing_inv_step by (cases x) auto
qed

section \<open>The prefilter\<close>

lemma prefilter_loop_bounds:
  assumes "distinct out" "set out \<subseteq> set (prefilter_rule_ids ix)"
    "\<forall>rules \<in> set (prefilter_literal_rules ix). set rules \<subseteq> set (prefilter_rule_ids ix)"
    "distinct (prefilter_rule_ids ix)"
  shows "distinct (prefilter_loop ix ids out) \<and>
    set out \<subseteq> set (prefilter_loop ix ids out) \<and>
    set (prefilter_loop ix ids out) \<subseteq> set (prefilter_rule_ids ix) \<and>
    (\<forall>i \<in> set ids. i < length (prefilter_literal_rules ix) \<longrightarrow>
       set (prefilter_literal_rules ix ! i) \<subseteq> set (prefilter_loop ix ids out))"
  using assms(1,2)
proof (induction ids arbitrary: out)
  case Nil
  then show ?case by simp
next
  case (Cons i ids)
  show ?case
  proof (cases "nth_opt (prefilter_literal_rules ix) i")
    case None
    with Cons show ?thesis by (auto simp: nth_opt_def split: if_splits)
  next
    case (Some rules)
    define out' where "out' = extend_unique out rules"
    from Some have rules: "i < length (prefilter_literal_rules ix)" "prefilter_literal_rules ix ! i = rules"
      by (auto simp: nth_opt_Some_iff)
    then have sub: "set rules \<subseteq> set (prefilter_rule_ids ix)" using assms(3) nth_mem by blast
    have out': "distinct out'" "set out' = set out \<union> set rules"
      by (simp_all add: out'_def extend_unique_def Cons.prems(1) distinct_dedup_onto)
    then have subs: "set out' \<subseteq> set (prefilter_rule_ids ix)" using sub Cons.prems(2) by simp
    show ?thesis
    proof (cases "length out' = length (prefilter_rule_ids ix)")
      case True
      then have "card (set out') = card (set (prefilter_rule_ids ix))"
        using out'(1) assms(4) by (simp add: distinct_card)
      then have "set out' = set (prefilter_rule_ids ix)"
        using subs by (simp add: card_subset_eq)
      with True Some out' assms(3) show ?thesis by (auto simp: out'_def [symmetric] Let_def)
    next
      case False
      with Some have eq: "prefilter_loop ix (i # ids) out = prefilter_loop ix ids out'"
        by (simp add: out'_def Let_def)
      from Cons.IH [OF out'(1) subs] show ?thesis unfolding eq using out'(2) rules by auto
    qed
  qed
qed

section \<open>Candidates\<close>

definition candidate_rule_indices :: "ext \<Rightarrow> rule_set \<Rightarrow> url_parts option \<Rightarrow> string \<Rightarrow> nat list" where
  "candidate_rule_indices E rs url raw_url =
     (case url of
        None \<Rightarrow> [0..<length (rs_rules rs)]
      | Some url \<Rightarrow>
          (let index = rs_index rs;
               host = to_ascii_lowercase (trim_brackets (url_host url));
               indices = (case bt_get (domain_exact index) host of
                   Some exact \<Rightarrow> extend_unique [] exact | None \<Rightarrow> []);
               indices = foldl (\<lambda>out suff. case bt_get (domain_suffix index) suff of
                   Some bucket \<Rightarrow> extend_unique out bucket | None \<Rightarrow> out) indices (host_suffixes host);
               indices = extend_unique indices (global_rules index);
               indices = extend_unique indices (prefilter_matches E index raw_url) in
           if indices = [] \<and> raw_url \<noteq> [] then [] else indices))"

lemma extend_bucket: "(case bt_get m k of Some b \<Rightarrow> extend_unique out b | None \<Rightarrow> out) = extend_unique out (bt_bucket m k)"
  by (auto simp: bt_bucket_def extend_unique_def split: option.splits)

lemma set_extend_buckets:
  "set (foldl (\<lambda>out k. extend_unique out (bt_bucket m k)) out ks) = set out \<union> (\<Union>k \<in> set ks. set (bt_bucket m k))"
  by (induction ks arbitrary: out) (auto simp: extend_unique_def)

lemma distinct_extend_buckets:
  "distinct out \<Longrightarrow> distinct (foldl (\<lambda>out k. extend_unique out (bt_bucket m k)) out ks)"
  by (induction ks arbitrary: out) (auto simp: extend_unique_def distinct_dedup_onto)

lemma candidate_rule_indices_Some:
  defines "host url \<equiv> to_ascii_lowercase (trim_brackets (url_host url))"
  shows "set (candidate_rule_indices E rs (Some url) raw) =
      set (bt_bucket (domain_exact (rs_index rs)) (host url)) \<union>
      (\<Union>k \<in> set (host_suffixes (host url)). set (bt_bucket (domain_suffix (rs_index rs)) k)) \<union>
      set (global_rules (rs_index rs)) \<union> set (prefilter_matches E (rs_index rs) raw)"
    and "distinct (candidate_rule_indices E rs (Some url) raw)"
proof -
  define o1 where "o1 = extend_unique [] (bt_bucket (domain_exact (rs_index rs)) (host url))"
  define o2 where "o2 = foldl (\<lambda>out k. extend_unique out (bt_bucket (domain_suffix (rs_index rs)) k)) o1
    (host_suffixes (host url))"
  have c: "candidate_rule_indices E rs (Some url) raw =
    extend_unique (extend_unique o2 (global_rules (rs_index rs))) (prefilter_matches E (rs_index rs) raw)"
    unfolding candidate_rule_indices_def host_def o1_def o2_def option.case extend_bucket Let_def
    by (simp add: host_def)
  have "distinct o1" by (simp add: o1_def extend_unique_def distinct_dedup_onto)
  then have "distinct o2" unfolding o2_def by (rule distinct_extend_buckets)
  then show "distinct (candidate_rule_indices E rs (Some url) raw)"
    by (simp add: c extend_unique_def distinct_dedup_onto)
  show "set (candidate_rule_indices E rs (Some url) raw) =
      set (bt_bucket (domain_exact (rs_index rs)) (host url)) \<union>
      (\<Union>k \<in> set (host_suffixes (host url)). set (bt_bucket (domain_suffix (rs_index rs)) k)) \<union>
      set (global_rules (rs_index rs)) \<union> set (prefilter_matches E (rs_index rs) raw)"
    by (auto simp: c extend_unique_def o2_def set_extend_buckets [unfolded extend_unique_def] o1_def)
qed


text \<open>
  A snapshot whose index was built from its rules has no false negatives: every rule whose
  matcher accepts the URL is a candidate.
\<close>

definition indexed :: "ext \<Rightarrow> rule_set \<Rightarrow> bool" where
  "indexed E rs \<longleftrightarrow> index_build E (rs_rules rs) = Some (rs_index rs)"

lemma indexed_fields:
  assumes "indexed E rs"
  obtains st where "filing_inv E (enumerate 0 (rs_rules rs)) st"
    "domain_exact (rs_index rs) = domain_exact (index_prefilter E st)"
    "domain_suffix (rs_index rs) = domain_suffix (index_prefilter E st)"
    "global_rules (rs_index rs) = global_rules (index_prefilter E st)"
    "prefilter_literal_rules (rs_index rs) = prefilter_literal_rules (index_prefilter E st)"
    "prefilter_rule_ids (rs_index rs) = prefilter_rule_ids (index_prefilter E st)"
    "prefilter (rs_index rs) = prefilter (index_prefilter E st)"
    "cgs_build E (rs_rules rs) = Some (compiled_globs (rs_index rs))"
    "cbs_build E (rs_rules rs) = Some (compiled_body_literals (rs_index rs))"
    "those (map (bind_rule_resources (compiled_globs (rs_index rs)) (compiled_body_literals (rs_index rs)))
       (rs_rules rs)) = Some (compiled_resources (rs_index rs))"
proof -
  define st where "st = foldl (index_rule E) (index_default, bt_empty) (enumerate 0 (rs_rules rs))"
  from assms obtain g b res where built: "cgs_build E (rs_rules rs) = Some g" "cbs_build E (rs_rules rs) = Some b"
    "those (map (bind_rule_resources g b) (rs_rules rs)) = Some res"
    and eq: "rs_index rs = (index_prefilter E st)\<lparr>compiled_globs := g, compiled_body_literals := b,
       compiled_resources := res\<rparr>"
    by (auto simp: indexed_def index_build_def st_def Let_def bind_eq_Some_conv)
  show thesis
    by (rule that [of st]) (simp_all add: eq built, simp add: st_def filing_inv_foldl)
qed

lemma bucket_entry_position:
  assumes "bt_inv m" "v \<in> set (bt_bucket m k)"
  shows "\<exists>i < length m. map fst m ! i = k \<and> map snd m ! i = bt_bucket m k"
proof -
  from buckets.bucket_entry [OF assms] obtain i where "i < length m" "m ! i = (k, bt_bucket m k)"
    by (auto simp: in_set_conv_nth)
  then show ?thesis by (intro exI [of _ i]) simp
qed

lemma prefilter_matches_complete:
  assumes inv: "filing_inv E xs st" and ac: "ac_exact E"
    and new: "map fst (snd st) \<noteq> []" "ac_new E False (map fst (snd st))"
    and i: "i \<in> set (bt_bucket (snd st) l)" "contains_str raw l"
    and ix: "prefilter_literal_rules ix = map snd (snd st)"
      "prefilter_rule_ids ix = prefilter_rule_ids (fst st)" "prefilter ix = Some (map fst (snd st))"
  shows "i \<in> set (prefilter_matches E ix raw)"
proof -
  from inv have m: "bt_inv (snd st)" by (simp add: filing_inv_def)
  from bucket_entry_position [OF m i(1)] obtain n where n: "n < length (snd st)"
    "map fst (snd st) ! n = l" "map snd (snd st) ! n = bt_bucket (snd st) l" by blast
  have "n \<in> set (ac_overlapping E False (map fst (snd st)) raw)"
    using ac new(2) n(1,2) i(2) by (simp add: ac_exact_def)
  moreover have "\<forall>rules \<in> set (prefilter_literal_rules ix). set rules \<subseteq> set (prefilter_rule_ids ix)"
  proof
    fix rules assume "rules \<in> set (prefilter_literal_rules ix)"
    then obtain k where "(k, rules) \<in> set (snd st)" by (auto simp: ix)
    from buckets.bucket_entries [OF m this] inv show "set rules \<subseteq> set (prefilter_rule_ids ix)"
      by (auto simp: ix filing_inv_def)
  qed
  ultimately have "set (prefilter_literal_rules ix ! n) \<subseteq> set (prefilter_matches E ix raw)"
    using prefilter_loop_bounds [of "[]" ix "ac_overlapping E False (map fst (snd st)) raw"] n(1) inv
    by (simp add: prefilter_matches_def ix filing_inv_def)
  moreover have "i \<in> set (prefilter_literal_rules ix ! n)" using n i(1) by (simp add: ix)
  ultimately show ?thesis by blast
qed

theorem candidates_complete:
  assumes "indexed E rs" "ac_exact E" "regex_hir_sound E"
    and i: "i < length (rs_rules rs)" "matcher_spec E (rule_matcher (rs_rules rs ! i)) url raw \<noteq> None"
  shows "i \<in> set (candidate_rule_indices E rs (Some url) raw)"
proof -
  obtain st where inv: "filing_inv E (enumerate 0 (rs_rules rs)) st"
    and ix: "domain_exact (rs_index rs) = domain_exact (index_prefilter E st)"
      "domain_suffix (rs_index rs) = domain_suffix (index_prefilter E st)"
      "global_rules (rs_index rs) = global_rules (index_prefilter E st)"
      "prefilter_literal_rules (rs_index rs) = prefilter_literal_rules (index_prefilter E st)"
      "prefilter_rule_ids (rs_index rs) = prefilter_rule_ids (index_prefilter E st)"
      "prefilter (rs_index rs) = prefilter (index_prefilter E st)"
    using indexed_fields [OF assms(1)] by metis
  let ?r = "rs_rules rs ! i"
  have filed: "filed E st i ?r"
    using inv i(1) by (auto simp: filing_inv_def in_set_enumerate_eq)
  show ?thesis
  proof (cases "filed_literal E ?r")
    case (Some l)
    then obtain regex where regex: "rule_matcher ?r = MRegex regex" "required_regex_literal E regex = Some l"
      by (auto simp: filed_literal_def split: matcher.splits)
    have raw: "contains_str raw l"
      using required_regex_literal_sound [OF assms(3) regex(2)] i(2) regex(1) by simp
    have b: "i \<in> set (bt_bucket (snd st) l)" using filed Some by (simp add: filed_def)
    show ?thesis
    proof (cases "map fst (snd st) \<noteq> [] \<and> ac_new E False (map fst (snd st))")
      case True
      then have "i \<in> set (prefilter_matches E (rs_index rs) raw)"
        by (intro prefilter_matches_complete [OF inv assms(2) _ _ b raw])
           (auto simp: ix index_prefilter_def Let_def case_prod_unfold)
      then show ?thesis by (simp add: candidate_rule_indices_Some)
    next
      case False
      have "(l, bt_bucket (snd st) l) \<in> set (snd st)"
        using buckets.bucket_entry [OF _ b] inv by (simp add: filing_inv_def)
      then have "i \<in> set (concat (map snd (snd st)))" using b by force
      with False show ?thesis
        by (auto simp: candidate_rule_indices_Some ix index_prefilter_def Let_def case_prod_unfold)
    qed
  next
    case None
    with matcher_index_key_covers [OF i(2)] filed show ?thesis
      unfolding candidate_rule_indices_Some ix
      by (auto simp: filed_def index_prefilter_def Let_def case_prod_unfold split: index_key.splits if_splits)
  qed
qed

lemma candidates_in_range:
  assumes "indexed E rs" "i \<in> set (candidate_rule_indices E rs url raw)"
  shows "i < length (rs_rules rs)"
proof (cases url)
  case None
  with assms(2) show ?thesis by (simp add: candidate_rule_indices_def)
next
  case (Some u)
  obtain st where inv: "filing_inv E (enumerate 0 (rs_rules rs)) st"
    and ix: "domain_exact (rs_index rs) = domain_exact (index_prefilter E st)"
      "domain_suffix (rs_index rs) = domain_suffix (index_prefilter E st)"
      "global_rules (rs_index rs) = global_rules (index_prefilter E st)"
      "prefilter_literal_rules (rs_index rs) = prefilter_literal_rules (index_prefilter E st)"
      "prefilter_rule_ids (rs_index rs) = prefilter_rule_ids (index_prefilter E st)"
      "prefilter (rs_index rs) = prefilter (index_prefilter E st)"
    using indexed_fields [OF assms(1)] by metis
  have xs: "fst ` set (enumerate 0 (rs_rules rs)) = {..<length (rs_rules rs)}"
    using map_fst_enumerate [of 0 "rs_rules rs"] by (metis add_0 atLeast0LessThan list.set_map set_upt)
  have lit: "\<forall>rules \<in> set (map snd (snd st)). set rules \<subseteq> set (prefilter_rule_ids (fst st))"
    using inv buckets.bucket_entries [of "snd st"] by (fastforce simp: filing_inv_def)
  have "set (prefilter_matches E (rs_index rs) raw) \<subseteq> {..<length (rs_rules rs)}"
  proof (cases "map fst (snd st) \<noteq> [] \<and> ac_new E False (map fst (snd st))")
    case True
    then have "set (prefilter_matches E (rs_index rs) raw) \<subseteq> set (prefilter_rule_ids (fst st))"
      using prefilter_loop_bounds [of "[]" "rs_index rs" "ac_overlapping E False (map fst (snd st)) raw"] lit inv
      by (auto simp: prefilter_matches_def ix index_prefilter_def Let_def case_prod_unfold filing_inv_def)
    then show ?thesis using inv xs by (auto simp: filing_inv_def)
  next
    case False
    then show ?thesis
      by (auto simp: prefilter_matches_def ix index_prefilter_def Let_def case_prod_unfold)
  qed
  moreover have "set (global_rules (rs_index rs)) \<subseteq>
      set (global_rules (fst st)) \<union> set (prefilter_rule_ids (fst st))"
    using lit by (auto simp: ix index_prefilter_def Let_def case_prod_unfold)
  then have "set (global_rules (rs_index rs)) \<subseteq> {..<length (rs_rules rs)}"
    using inv unfolding xs [symmetric] filing_inv_def by blast
  moreover have "set (bt_bucket (domain_exact (rs_index rs)) h) \<subseteq> {..<length (rs_rules rs)}"
    "set (bt_bucket (domain_suffix (rs_index rs)) h) \<subseteq> {..<length (rs_rules rs)}" for h
    using inv xs by (auto simp: ix index_prefilter_def Let_def case_prod_unfold filing_inv_def)
  ultimately show ?thesis using assms(2) by (fastforce simp: Some candidate_rule_indices_Some)
qed

lemma candidates_distinct: "distinct (candidate_rule_indices E rs url raw)"
proof (cases url)
  case (Some u)
  then show ?thesis by (simp add: candidate_rule_indices_Some(2))
qed (simp add: candidate_rule_indices_def)

end
