(* ===== verification/Demo_Engine.thy ===== *)
theory Demo_Engine
  imports Rule_Candidates
begin

text \<open>
  A concrete instance of the external engines, for evaluating the model on concrete inputs:
  regexes are literal texts, a glob program matches its own source, and the multi-pattern
  matcher tests every pattern. It satisfies the hypotheses the theorems make on the engines.
\<close>

definition demo_captures :: "string \<Rightarrow> bool \<Rightarrow> string \<Rightarrow> rx_match option" where
  "demo_captures p ci txt =
     (if \<not> ci \<and> contains_str txt p then Some \<lparr>rx_groups = [Some p], rx_names = []\<rparr> else None)"

definition demo_overlapping :: "bool \<Rightarrow> string list \<Rightarrow> string \<Rightarrow> nat list" where
  "demo_overlapping ci pats txt =
     filter (\<lambda>i. if ci then contains_ascii_case_insensitive txt (pats ! i) else contains_str txt (pats ! i))
       [0..<length pats]"

definition demo_ext :: ext where
  "demo_ext =
     \<lparr>is_meta_character = (\<lambda>c. c \<in> set (''.+*?()|[]{}^$#&-~'' @ [CHR 0x5C])),
      glob_new = (\<lambda>source. True),
      glob_captures = (\<lambda>source txt. if source = txt then Some [Some txt] else None),
      linear_new = (\<lambda>p ci. True),
      linear_captures = demo_captures,
      linear_captures_iter = (\<lambda>p ci txt.
        case find_str p txt of
          Some i \<Rightarrow> [\<lparr>rx_start = i, rx_end = i + length p,
                     rx_captures = \<lparr>rx_groups = [Some p], rx_names = []\<rparr>\<rparr>]
        | None \<Rightarrow> []),
      fancy_new = (\<lambda>p. False),
      fancy_captures = (\<lambda>p txt. None),
      hir_parse = (\<lambda>p. Some (HirLiteral p)),
      ac_new = (\<lambda>ci pats. True),
      ac_overlapping = demo_overlapping,
      env_var = (\<lambda>name. None)\<rparr>"

lemma demo_ac_exact: "ac_exact demo_ext"
  by (auto simp: ac_exact_def demo_ext_def demo_overlapping_def contains_ascii_case_insensitive_iff)

lemma demo_regex_hir_sound: "regex_hir_sound demo_ext"
  by (auto simp: regex_hir_sound_def demo_ext_def demo_captures_def contains_str_iff
      intro: hw_literal split: if_splits)

definition demo_rule :: "nat \<Rightarrow> matcher \<Rightarrow> condition list \<Rightarrow> action list \<Rightarrow> rule" where
  "demo_rule line m cs as =
     \<lparr>rule_group = ''demo'', rule_line = line, rule_raw = [], rule_matcher = m, rule_actions = as,
      rule_conditions = cs, rule_important = False, rule_disabled = False, rule_tags = []\<rparr>"

definition demo_host :: "string \<Rightarrow> matcher" where
  "demo_host h = MGlob \<lparr>gm_scheme = None, gm_host = h, gm_port = None, gm_path = None, gm_query = None\<rparr>"

definition demo_regex :: "string \<Rightarrow> matcher" where
  "demo_regex p = MRegex \<lparr>rm_pattern = p, rm_case_insensitive = False, rm_engine = EngineLinear\<rparr>"

definition demo_rules :: "rule list" where
  "demo_rules =
     [demo_rule 1 (demo_host ''**.example.com'') [CMethod [''GET'']] [Tag (Inline ''a''), Status 404],
      demo_rule 2 (demo_regex ''/api'') [CBodyContains ''token''] [ReqBody (BodySet (Inline ''x''))],
      (demo_rule 3 (MPort 80) [CNot (CStatus [200])] [Status 200, Skip (fs_from_iter [FamTag])])
        \<lparr>rule_important := True\<rparr>]"

definition demo_set :: "rule list \<Rightarrow> rule_set" where
  "demo_set rules =
     \<lparr>rs_language_version = RULE_LANGUAGE_VERSION, rs_version = 1, rs_rules = rules,
      rs_index = (case index_build demo_ext rules of Some index \<Rightarrow> index | None \<Rightarrow> index_default)\<rparr>"

definition demo_request :: "string \<Rightarrow> string \<Rightarrow> request_meta" where
  "demo_request url body =
     \<lparr>req_method = ''GET'', req_url = url, req_headers = [], req_body = body, req_client_ip = None,
      req_server_ip = None,
      req_template = \<lparr>tm_id = [], tm_now_ms = 0, tm_random = 0, tm_random_uuid = []\<rparr>\<rparr>"

lemma demo_indexed: "index_build demo_ext rules \<noteq> None \<Longrightarrow> indexed demo_ext (demo_set rules)"
  by (auto simp: indexed_def demo_set_def)

lemma demo_rules_indexed: "indexed demo_ext (demo_set demo_rules)"
  by (rule demo_indexed) code_simp

end
