(* ===== verification/Parse_Condition.thy ===== *)
theory Parse_Condition
  imports Rule_Syntax Rule_Match Demo_Engine
begin

text \<open>
  The parsers of matchers (\<open>parser/matcher.rs\<close>) and conditions (\<open>parser/conditions.rs\<close>). What
  they accept is well formed: nesting is bounded, numbers are in range, names are in the
  case the engine compares, and every glob the snapshot will compile has been compiled once
  by the parser, so that indexing a parsed matcher cannot panic.
\<close>

section \<open>Shared helpers\<close>

definition validate_status_range :: "u16 \<Rightarrow> u16 \<Rightarrow> u16 \<Rightarrow> string \<Rightarrow> unit model_result" where
  "validate_status_range code low high ctx =
     (if low \<le> code \<and> code \<le> high then Inr () else Inl (ConstraintViolation ctx))"

text \<open>The offset of the last slash that is not escaped; the text starts after the first character.\<close>

fun last_slash_loop :: "nat \<Rightarrow> bool \<Rightarrow> nat option \<Rightarrow> string \<Rightarrow> nat option" where
  "last_slash_loop idx escaped e [] = e"
| "last_slash_loop idx escaped e (c # s) =
     (if escaped then last_slash_loop (idx + 1) False e s
      else if c = backslash then last_slash_loop (idx + 1) True e s
      else if c = CHR ''/'' then last_slash_loop (idx + 1) False (Some idx) s
      else last_slash_loop (idx + 1) False e s)"

definition regex_literal_end :: "string \<Rightarrow> nat option" where
  "regex_literal_end input = last_slash_loop 1 False None (drop 1 input)"

section \<open>Matchers\<close>

definition valid_scheme :: "string \<Rightarrow> bool" where
  "valid_scheme s =
     (case s of [] \<Rightarrow> False | c # t \<Rightarrow> is_ascii_alphabetic c \<and> list_all is_scheme_tail t)"

definition parse_port_pattern :: "string \<Rightarrow> string model_result" where
  "parse_port_pattern input =
     (if input = [] then Inl (EmptyInput ''matcher port'')
      else if CHR ''*'' \<in> set input then
        (if list_all (\<lambda>c. is_ascii_digit c \<or> c = CHR ''*'') input then Inr input
         else Inl (InvalidInput ''matcher port pattern''))
      else try_bind (parse_u16_or ''matcher port'' input) (\<lambda>port.
        if port = 0 then Inl (ConstraintViolation ''matcher port'')
        else Inr (nat_to_string (unat port))))"

definition parse_glob_authority :: "string \<Rightarrow> (string \<times> string option) model_result" where
  "parse_glob_authority input =
     (if starts_with input ''['' then
        (case find_char (\<lambda>c. c = CHR '']'') input of
           None \<Rightarrow> Inl (InvalidSyntax ''IPv6 matcher'')
         | Some e \<Rightarrow>
             (let host = take (e + 1) input; tail = drop (e + 1) input in
              if tail = [] then Inr (host, None)
              else (case strip_prefix tail '':'' of
                None \<Rightarrow> Inl (InvalidInput ''matcher authority'')
              | Some raw \<Rightarrow> try_bind (parse_port_pattern raw) (\<lambda>port. Inr (host, Some port)))))
      else if find_char is_bracket input \<noteq> None then Inl (InvalidInput ''matcher authority'')
      else (case rsplit_once_char input CHR '':'' of
        None \<Rightarrow> Inr (input, None)
      | Some (host, raw_port) \<Rightarrow>
          if CHR '':'' \<in> set host then Inl (InvalidSyntax ''IPv6 matcher'')
          else try_bind (parse_port_pattern raw_port) (\<lambda>port. Inr (host, Some port))))"

definition validate_optional_glob :: "ext \<Rightarrow> string option \<Rightarrow> char \<Rightarrow> string \<Rightarrow> unit model_result" where
  "validate_optional_glob E pattern sep ctx =
     (case pattern of None \<Rightarrow> Inr () | Some p \<Rightarrow> validate_glob_pattern E p sep ctx)"

definition matcher_scheme :: "string \<Rightarrow> (string option \<times> string) model_result" where
  "matcher_scheme input =
     (case split_once input ''://'' of
        Some (scheme, rest) \<Rightarrow>
          if valid_scheme scheme then Inr (Some (to_ascii_lowercase scheme), rest)
          else Inl (InvalidInput ''matcher scheme'')
      | None \<Rightarrow> Inr (None, input))"

definition parse_glob_matcher :: "ext \<Rightarrow> string \<Rightarrow> glob_matcher model_result" where
  "parse_glob_matcher E input =
     try_bind (matcher_scheme input) (\<lambda>(scheme, rest).
       let (before_query, query) =
             (case split_once rest ''?'' of Some (l, r) \<Rightarrow> (l, Some r) | None \<Rightarrow> (rest, None));
           (host_port, path) =
             (case find_char (\<lambda>c. c = CHR ''/'') before_query of
                Some idx \<Rightarrow> (take idx before_query, Some (drop idx before_query))
              | None \<Rightarrow> (before_query, None)) in
       if host_port = [] then Inl (EmptyInput ''glob matcher host'')
       else try_bind (parse_glob_authority host_port) (\<lambda>(host, port).
         let host = to_ascii_lowercase (trim_brackets host) in
         if host = [] then Inl (EmptyInput ''glob matcher host'')
         else
           try_bind (validate_glob_pattern E host CHR ''.'' ''matcher host glob'') (\<lambda>_.
           try_bind (validate_optional_glob E port CHR ''.'' ''matcher port glob'') (\<lambda>_.
           try_bind (validate_optional_glob E path CHR ''/'' ''matcher path glob'') (\<lambda>_.
           try_bind (validate_optional_glob E query CHR ''&'' ''matcher query glob'') (\<lambda>_.
             Inr \<lparr>gm_scheme = scheme, gm_host = host, gm_port = port, gm_path = path,
                  gm_query = query\<rparr>))))))"

definition parse_regex_matcher :: "ext \<Rightarrow> string \<Rightarrow> regex_matcher model_result" where
  "parse_regex_matcher E input =
     (case last_slash_loop 1 False None (drop 1 input) of
        None \<Rightarrow> Inl (InvalidSyntax ''regex matcher'')
      | Some e \<Rightarrow>
          (let pattern = take (e - 1) (drop 1 input); flags = drop (e + 1) input in
           if list_ex (\<lambda>c. c \<noteq> CHR ''i'') flags then Inl (UnsupportedInput ''regex flags'')
           else
             (let ci = (CHR ''i'' \<in> set flags) in
              if linear_new E pattern ci
              then Inr \<lparr>rm_pattern = pattern, rm_case_insensitive = ci, rm_engine = EngineLinear\<rparr>
              else if fancy_new E (fancy_pattern pattern ci)
              then Inr \<lparr>rm_pattern = pattern, rm_case_insensitive = ci, rm_engine = EngineFancy\<rparr>
              else Inl InvalidRegexMatcher)))"

definition map_exact_error :: "'a model_result \<Rightarrow> 'a model_result" where
  "map_exact_error r = (case r of Inl e \<Rightarrow> Inl (InvalidExactUrlMatcher e) | Inr x \<Rightarrow> Inr x)"

definition parse_plain_matcher :: "ext \<Rightarrow> string \<Rightarrow> matcher model_result" where
  "parse_plain_matcher E input =
     (case strip_prefix input ''='' of
        Some rest \<Rightarrow>
          if rest = [] then Inl (MissingArgument ''exact matcher'')
          else
            try_bind (map_exact_error (url_parse rest)) (\<lambda>_.
            try_bind (map_exact_error (parse_glob_matcher E rest)) (\<lambda>_. Inr (MExactUrl rest)))
      | None \<Rightarrow>
          if starts_with input ''/'' then
            try_bind (parse_regex_matcher E input) (\<lambda>r. Inr (MRegex r))
          else (case strip_prefix input '':'' of
            Some port \<Rightarrow>
              try_bind (parse_u16_or ''port matcher'' port) (\<lambda>port.
                if port = 0 then Inl (ConstraintViolation ''port matcher'') else Inr (MPort port))
          | None \<Rightarrow> try_bind (parse_glob_matcher E input) (\<lambda>g. Inr (MGlob g))))"

function parse_matcher_at_depth :: "ext \<Rightarrow> string \<Rightarrow> nat \<Rightarrow> matcher model_result" where
  "parse_matcher_at_depth E input depth =
     (if MAX_RULE_PARSE_NESTING < depth then Inl (LimitExceeded ''matcher nesting'')
      else (case strip_prefix input ''!'' of
        Some rest \<Rightarrow> try_bind (parse_matcher_at_depth E rest (depth + 1)) (\<lambda>m. Inr (MNot m))
      | None \<Rightarrow> parse_plain_matcher E input))"
  by pat_completeness auto
termination by (relation "measure (\<lambda>(E, input, depth). Suc MAX_RULE_PARSE_NESTING - depth)") auto

declare parse_matcher_at_depth.simps [simp del]

definition parse_matcher :: "ext \<Rightarrow> string \<Rightarrow> matcher model_result" where
  "parse_matcher E input = parse_matcher_at_depth E input 0"

section \<open>Conditions\<close>

definition condition_node_count :: "condition \<Rightarrow> nat" where
  "condition_node_count c = length (condition_nodes c)"

definition body_condition_count :: "condition \<Rightarrow> nat" where
  "body_condition_count c =
     length (filter (\<lambda>n. case n of CBodyContains _ \<Rightarrow> True | CBodyRegex _ \<Rightarrow> True | _ \<Rightarrow> False) (condition_nodes c))"

definition parse_method_condition :: "string list \<Rightarrow> string list model_result" where
  "parse_method_condition args =
     (if args = [] then Inl (MissingArgument ''method condition'')
      else collect_results (\<lambda>v.
        let v = trim (unquote v) in
        if v = [] \<or> \<not> list_all is_http_token_byte v then Inl (InvalidInput ''method condition'')
        else Inr (to_ascii_uppercase v)) args)"

definition parse_ip_patterns :: "ext \<Rightarrow> string list \<Rightarrow> string list model_result" where
  "parse_ip_patterns E args =
     (if args = [] then Inl (MissingArgument ''IP condition'')
      else collect_results (\<lambda>v.
        let v = trim (unquote v) in
        if v = [] \<or> has_control v then Inl (EmptyInput ''IP condition pattern'')
        else try_bind (validate_glob_pattern E v CHR 0x00 ''IP condition glob'') (\<lambda>_. Inr v)) args)"

definition validate_header_name :: "string \<Rightarrow> string model_result" where
  "validate_header_name input =
     (let name = trim input in
      if name = [] \<or> \<not> list_all is_http_token_byte name then Inl (InvalidInput ''header condition name'')
      else Inr (to_ascii_lowercase name))"

definition parse_header_condition :: "string \<Rightarrow> bool \<Rightarrow> condition model_result" where
  "parse_header_condition input response =
     (case split_once input ''~'' of
        Some (name, v) \<Rightarrow>
          try_bind (validate_header_name name) (\<lambda>name.
            let v = unquote (trim v) in
            if v = [] then Inl (EmptyInput ''header contains condition'')
            else if response then Inr (CResHeaderContains name v)
            else Inr (CHeaderContains name v))
      | None \<Rightarrow>
          try_bind (validate_header_name input) (\<lambda>name.
            if response then Inr (CResHeaderPresent name) else Inr (CHeaderPresent name)))"

definition parse_status_condition :: "string list \<Rightarrow> u16 list model_result" where
  "parse_status_condition args =
     (if args = [] then Inl (MissingArgument ''status condition'')
      else collect_results (\<lambda>v.
        try_bind (parse_u16_or ''status condition'' (trim v)) (\<lambda>status.
        try_bind (validate_status_range status MIN_HTTP_STATUS MAX_HTTP_STATUS ''status condition'')
          (\<lambda>_. Inr status))) args)"

definition validate_env_name :: "string \<Rightarrow> unit model_result" where
  "validate_env_name name =
     (if name = [] \<or> CHR ''='' \<in> set name \<or> CHR 0x00 \<in> set name \<or> has_whitespace name
      then Inl (InvalidInput ''environment condition name'') else Inr ())"

definition parse_env_condition :: "string \<Rightarrow> condition model_result" where
  "parse_env_condition arg =
     (case split_once arg ''='' of
        Some (name, v) \<Rightarrow>
          try_bind (validate_env_name (trim name)) (\<lambda>_. Inr (CEnvEquals (trim name) (unquote (trim v))))
      | None \<Rightarrow> try_bind (validate_env_name (trim arg)) (\<lambda>_. Inr (CEnvPresent (trim arg))))"

definition parse_url_condition :: "ext \<Rightarrow> string \<Rightarrow> url_condition model_result" where
  "parse_url_condition E input =
     (let input = trim input in
      if starts_with input ''/'' \<and> regex_literal_end input \<noteq> None then
        try_bind (parse_regex_matcher E input) (\<lambda>r. Inr (UrlRegex r))
      else
        (let pattern = unquote input in
         try_bind (validate_glob_pattern E pattern CHR 0x00 ''URL condition glob'')
           (\<lambda>_. Inr (UrlGlob pattern))))"

definition parse_body_condition :: "ext \<Rightarrow> string \<Rightarrow> condition model_result" where
  "parse_body_condition E input =
     (let input = trim input in
      if starts_with input ''/'' \<and> regex_literal_end input \<noteq> None then
        try_bind (parse_regex_matcher E input) (\<lambda>r. Inr (CBodyRegex r))
      else
        (let txt = trim (case strip_prefix input ''~'' of Some t \<Rightarrow> t | None \<Rightarrow> input) in
         if txt = [] then Inl (MissingArgument ''body condition'') else Inr (CBodyContains (unquote txt))))"

definition parse_chance_condition :: "string \<Rightarrow> condition model_result" where
  "parse_chance_condition raw =
     (case parse_f64 raw of
        None \<Rightarrow> Inl (InvalidFloat ''chance condition'' raw)
      | Some v \<Rightarrow>
          if \<not> (f64_ge_frac v 0 1 \<and> f64_le_frac v 1 1) then Inl (ConstraintViolation ''chance condition'')
          else Inr (CChancePermille (of_nat (round_to_uint 65535 (f64_mul v (f64_of_nat 1000))))))"

definition parse_host_condition :: "ext \<Rightarrow> string \<Rightarrow> condition model_result" where
  "parse_host_condition E arg =
     (let pattern = unquote arg in
      try_bind (validate_glob_pattern E pattern CHR ''.'' ''host condition glob'') (\<lambda>_. Inr (CHost pattern)))"

text \<open>The conditions without nested conditions.\<close>

definition parse_leaf_condition :: "ext \<Rightarrow> string \<Rightarrow> string list \<Rightarrow> condition model_result" where
  "parse_leaf_condition E name args =
     (if name = ''method'' then try_bind (parse_method_condition args) (\<lambda>ms. Inr (CMethod ms))
      else if name = ''host'' then try_bind (require_one args) (parse_host_condition E)
      else if name = ''url'' then
        try_bind (require_one args) (\<lambda>a. try_bind (parse_url_condition E a) (\<lambda>u. Inr (CUrl u)))
      else if name = ''client.ip'' then try_bind (parse_ip_patterns E args) (\<lambda>ps. Inr (CClientIp ps))
      else if name = ''server.ip'' then try_bind (parse_ip_patterns E args) (\<lambda>ps. Inr (CServerIp ps))
      else if name = ''header'' then try_bind (require_one args) (\<lambda>a. parse_header_condition a False)
      else if name = ''res.header'' then try_bind (require_one args) (\<lambda>a. parse_header_condition a True)
      else if name = ''body'' then try_bind (require_one args) (parse_body_condition E)
      else if name = ''status'' then try_bind (parse_status_condition args) (\<lambda>ss. Inr (CStatus ss))
      else if name = ''chance'' then try_bind (require_one args) parse_chance_condition
      else if name = ''env'' then try_bind (require_one args) parse_env_condition
      else Inl (UnsupportedInput ''condition''))"

definition condition_name :: "syntax_profile \<Rightarrow> string \<Rightarrow> string option" where
  "condition_name profile name =
     (case profile of
        Compatible \<Rightarrow> canonical_condition_name name
      | CanonicalV3 \<Rightarrow> canonical_v3_condition_name name)"

function parse_condition_at_depth :: "ext \<Rightarrow> string \<Rightarrow> nat \<Rightarrow> syntax_profile \<Rightarrow> condition model_result" where
  "parse_condition_at_depth E input depth profile =
     (if MAX_RULE_PARSE_NESTING < depth then Inl (LimitExceeded ''condition nesting'')
      else (case strip_prefix input ''!'' of
        Some rest \<Rightarrow>
          try_bind (parse_condition_at_depth E rest (depth + 1) profile) (\<lambda>c. Inr (CNot c))
      | None \<Rightarrow>
          try_bind (parse_call input) (\<lambda>(input_name, args).
            case condition_name profile input_name of
              None \<Rightarrow> Inl (UnsupportedInput ''condition'')
            | Some name \<Rightarrow>
                if name = ''any'' then
                  (if args = [] then Inl (MissingArgument ''any condition'')
                   else try_bind (collect_results
                          (\<lambda>arg. parse_condition_at_depth E (trim arg) (depth + 1) profile) args)
                          (\<lambda>cs. Inr (CAny cs)))
                else if name = ''all'' then
                  (if args = [] then Inl (MissingArgument ''all condition'')
                   else try_bind (collect_results
                          (\<lambda>arg. parse_condition_at_depth E (trim arg) (depth + 1) profile) args)
                          (\<lambda>cs. Inr (CAll cs)))
                else if name = ''not'' then
                  try_bind (require_one args) (\<lambda>inner.
                  try_bind (parse_condition_at_depth E inner (depth + 1) profile) (\<lambda>c. Inr (CNot c)))
                else parse_leaf_condition E name args)))"
  by pat_completeness auto
termination
  by (relation "measure (\<lambda>(E, input, depth, profile). Suc MAX_RULE_PARSE_NESTING - depth)") auto

declare parse_condition_at_depth.simps [simp del]

definition parse_condition :: "ext \<Rightarrow> string \<Rightarrow> syntax_profile \<Rightarrow> condition model_result" where
  "parse_condition E input profile = parse_condition_at_depth E input 0 profile"

section \<open>Well-formed matchers\<close>

definition glob_ok :: "ext \<Rightarrow> string \<Rightarrow> char \<Rightarrow> bool" where
  "glob_ok E p sep \<longleftrightarrow> length p \<le> MAX_GLOB_PATTERN_BYTES \<and> compile_glob_regex E p sep \<noteq> None"

definition optional_glob_ok :: "ext \<Rightarrow> string option \<Rightarrow> char \<Rightarrow> bool" where
  "optional_glob_ok E p sep = (case p of None \<Rightarrow> True | Some p \<Rightarrow> glob_ok E p sep)"

definition regex_ok :: "ext \<Rightarrow> regex_matcher \<Rightarrow> bool" where
  "regex_ok E r =
     (case rm_engine r of
        EngineLinear \<Rightarrow> linear_new E (rm_pattern r) (rm_case_insensitive r)
      | EngineFancy \<Rightarrow> fancy_new E (fancy_pattern (rm_pattern r) (rm_case_insensitive r)))"

fun wf_matcher :: "ext \<Rightarrow> matcher \<Rightarrow> bool" where
  "wf_matcher E (MExactUrl u) = (case url_parse u of Inl _ \<Rightarrow> False | Inr _ \<Rightarrow> True)"
| "wf_matcher E (MGlob g) =
     (gm_host g \<noteq> [] \<and> to_ascii_lowercase (trim_brackets (gm_host g)) = gm_host g \<and>
      glob_ok E (gm_host g) CHR ''.'' \<and> optional_glob_ok E (gm_port g) CHR ''.'' \<and>
      optional_glob_ok E (gm_path g) CHR ''/'' \<and> optional_glob_ok E (gm_query g) CHR ''&'')"
| "wf_matcher E (MPort p) = (p \<noteq> 0)"
| "wf_matcher E (MRegex r) = regex_ok E r"
| "wf_matcher E (MNot m) = wf_matcher E m"

fun matcher_nesting :: "matcher \<Rightarrow> nat" where
  "matcher_nesting (MNot m) = Suc (matcher_nesting m)"
| "matcher_nesting _ = 0"

lemma validate_glob_pattern_Inr [simp]:
  "validate_glob_pattern E p sep ctx = Inr u \<longleftrightarrow> glob_ok E p sep"
  by (auto simp: validate_glob_pattern_def glob_ok_def)

lemma validate_optional_glob_Inr [simp]:
  "validate_optional_glob E p sep ctx = Inr u \<longleftrightarrow> optional_glob_ok E p sep"
  by (cases p) (auto simp: validate_optional_glob_def optional_glob_ok_def)

lemma is_bracket_lower: "is_bracket (ascii_lower c) \<longleftrightarrow> is_bracket c"
proof -
  have "\<not> is_ascii_alphabetic CHR ''[''" "\<not> is_ascii_alphabetic CHR '']''"
    by (simp_all add: is_ascii_alphabetic_def is_ascii_uppercase_def is_ascii_lowercase_def byte_def)
  then show ?thesis by (simp add: is_bracket_def ascii_lower_eq_other)
qed

lemma dropWhile_lower:
  "dropWhile is_bracket (map ascii_lower s) = map ascii_lower (dropWhile is_bracket s)"
  by (induction s) (simp_all add: is_bracket_lower)

lemma trim_brackets_lower: "trim_brackets (to_ascii_lowercase s) = to_ascii_lowercase (trim_brackets s)"
  by (simp add: trim_brackets_def trim_matches_def trim_start_chars_def trim_end_chars_def
      to_ascii_lowercase_def dropWhile_lower rev_map)

lemma trim_matches_idem: "trim_matches P (trim_matches P s) = trim_matches P s"
proof (rule trim_matches_id)
  define u where "u = dropWhile P s"
  define v where "v = dropWhile P (rev u)"
  assume "trim_matches P s \<noteq> []"
  then have v: "v \<noteq> []" "trim_matches P s = rev v"
    by (simp_all add: trim_matches_def trim_start_chars_def trim_end_chars_def u_def v_def)
  then have "u \<noteq> []" by (auto simp: v_def)
  then have "\<not> P (hd u)" unfolding u_def by (rule hd_dropWhile)
  moreover have "last v = hd u"
    using v(1) \<open>u \<noteq> []\<close> unfolding v_def by (metis append_is_Nil_conv last_appendR last_rev takeWhile_dropWhile_id)
  moreover have "\<not> P (hd v)" using v(1) unfolding v_def by (rule hd_dropWhile)
  ultimately show "\<not> P (hd (trim_matches P s)) \<and> \<not> P (last (trim_matches P s))"
    using v by (simp add: hd_rev last_rev)
qed

lemma parse_glob_matcher_wf: "parse_glob_matcher E input = Inr g \<Longrightarrow> wf_matcher E (MGlob g)"
  unfolding parse_glob_matcher_def
  by (auto simp: try_bind_Inr_iff Let_def trim_brackets_lower trim_matches_idem trim_brackets_def [symmetric]
      trim_matches_idem [of is_bracket, folded trim_brackets_def] split: prod.splits option.splits if_splits)

lemma parse_regex_matcher_ok: "parse_regex_matcher E input = Inr r \<Longrightarrow> regex_ok E r"
  by (auto simp: parse_regex_matcher_def Let_def regex_ok_def split: option.splits if_splits)

lemma parse_plain_matcher_wf:
  "parse_plain_matcher E input = Inr m \<Longrightarrow> wf_matcher E m \<and> matcher_nesting m = 0"
  by (auto simp: parse_plain_matcher_def try_bind_Inr_iff map_exact_error_def
      simp del: wf_matcher.simps(2) dest: parse_glob_matcher_wf parse_regex_matcher_ok
      split: option.splits if_splits sum.splits)

lemma parse_matcher_at_depth_wf:
  "parse_matcher_at_depth E input depth = Inr m \<Longrightarrow>
     wf_matcher E m \<and> depth + matcher_nesting m \<le> MAX_RULE_PARSE_NESTING"
proof (induction E input depth arbitrary: m rule: parse_matcher_at_depth.induct)
  case (1 E input depth)
  from "1.prems" have d: "depth \<le> MAX_RULE_PARSE_NESTING"
    by (auto simp: parse_matcher_at_depth.simps [of E input] split: if_splits)
  show ?case
  proof (cases "strip_prefix input ''!''")
    case None
    with "1.prems" d have "parse_plain_matcher E input = Inr m"
      by (simp add: parse_matcher_at_depth.simps [of E input])
    with parse_plain_matcher_wf d show ?thesis by auto
  next
    case (Some rest)
    with "1.prems" d obtain m' where m': "parse_matcher_at_depth E rest (depth + 1) = Inr m'" "m = MNot m'"
      by (auto simp: parse_matcher_at_depth.simps [of E input] try_bind_Inr_iff)
    with "1.IH" [OF _ Some m'(1)] d show ?thesis by simp
  qed
qed

lemma register_key_glob_ok: "compile_glob_regex E p sep \<noteq> None \<Longrightarrow> register_key E (p, sep) s \<noteq> None"
  by (auto simp: register_key_def cgs_register_def Let_def split: option.splits)

lemma register_optional:
  "optional_glob_ok E p sep \<Longrightarrow>
     (case p of Some p \<Rightarrow> if c p then register_key E (p, sep) s else Some s | None \<Rightarrow> Some s) \<noteq> None"
  by (cases p) (simp_all add: optional_glob_ok_def glob_ok_def register_key_glob_ok del: not_None_eq)

lemma register_wf_matcher: "wf_matcher E m \<Longrightarrow> register_matcher E m s \<noteq> None"
proof (induction m arbitrary: s)
  case (MGlob g)
  then have ok: "glob_ok E (gm_host g) CHR ''.''" "optional_glob_ok E (gm_port g) CHR ''.''"
    "optional_glob_ok E (gm_path g) CHR ''/''" "optional_glob_ok E (gm_query g) CHR ''&''" by simp_all
  have "(if host_pattern_uses_regex (gm_host g) then register_key E (gm_host g, CHR ''.'') s else Some s) \<noteq> None"
    for s using ok(1) by (simp add: glob_ok_def register_key_glob_ok del: not_None_eq)
  with register_optional [OF ok(2), where c = "\<lambda>_. True"] register_optional [OF ok(3), where c = glob_syntax_is_active]
    register_optional [OF ok(4), where c = "\<lambda>_. True"]
  show ?case by (simp only: register_matcher.simps bind_eq_None_conv if_True) (metis option.exhaust)
qed auto

lemma parse_matcher_ok:
  assumes "parse_matcher E input = Inr m"
  shows "wf_matcher E m \<and> matcher_nesting m \<le> MAX_RULE_PARSE_NESTING"
  using parse_matcher_at_depth_wf [of E input 0 m] assms by (simp add: parse_matcher_def)

text \<open>
  An accepted matcher is well formed: ports are non-zero, hosts are in the normal form
  that matching and the lint compare, exact URLs parse, regexes compile on the engine they
  are assigned to and negation is nested at most 32 deep; and registering its globs when the
  snapshot is indexed cannot panic.
\<close>

theorem parse_matcher_wf:
  assumes "parse_matcher E input = Inr m"
  shows "wf_matcher E m \<and> matcher_nesting m \<le> MAX_RULE_PARSE_NESTING \<and> register_matcher E m s \<noteq> None"
  using parse_matcher_ok [OF assms] register_wf_matcher by blast

theorem parse_matcher_wf_witness:
  "parse_matcher demo_ext ''!http://[A].Example.com:8*/x?q=*'' =
     Inl (InvalidInput ''matcher authority'') \<and>
   parse_matcher demo_ext ''!!HTTP://*.Example.com:8*/x?q=*'' =
     Inr (MNot (MNot (MGlob \<lparr>gm_scheme = Some ''http'', gm_host = ''*.example.com'', gm_port = Some ''8*'',
       gm_path = Some ''/x'', gm_query = Some ''q=*''\<rparr>))) \<and>
   register_matcher demo_ext (MNot (MNot (MGlob \<lparr>gm_scheme = Some ''http'', gm_host = ''*.example.com'',
       gm_port = Some ''8*'', gm_path = Some ''/x'', gm_query = Some ''q=*''\<rparr>))) cgs_default \<noteq> None"
proof -
  have p: "parse_matcher demo_ext ''!!HTTP://*.Example.com:8*/x?q=*'' =
     Inr (MNot (MNot (MGlob \<lparr>gm_scheme = Some ''http'', gm_host = ''*.example.com'', gm_port = Some ''8*'',
       gm_path = Some ''/x'', gm_query = Some ''q=*''\<rparr>)))"
    by code_simp
  have e: "parse_matcher demo_ext ''!http://[A].Example.com:8*/x?q=*'' = Inl (InvalidInput ''matcher authority'')"
    by code_simp
  from p e parse_matcher_wf [OF p, of cgs_default] show ?thesis by blast
qed

section \<open>Well-formed conditions\<close>

definition is_token :: "string \<Rightarrow> bool" where
  "is_token s \<longleftrightarrow> s \<noteq> [] \<and> list_all is_http_token_byte s"

definition lower_token :: "string \<Rightarrow> bool" where
  "lower_token s \<longleftrightarrow> is_token s \<and> to_ascii_lowercase s = s"

definition env_name_ok :: "string \<Rightarrow> bool" where
  "env_name_ok name \<longleftrightarrow> name \<noteq> [] \<and> CHR ''='' \<notin> set name \<and> CHR 0x00 \<notin> set name \<and> \<not> has_whitespace name"

definition ip_patterns_ok :: "ext \<Rightarrow> string list \<Rightarrow> bool" where
  "ip_patterns_ok E ps \<longleftrightarrow> ps \<noteq> [] \<and> list_all (\<lambda>p. p \<noteq> [] \<and> \<not> has_control p \<and> glob_ok E p CHR 0x00) ps"

fun wf_condition :: "ext \<Rightarrow> condition \<Rightarrow> bool" where
  "wf_condition E (CMethod ms) \<longleftrightarrow> ms \<noteq> [] \<and> list_all (\<lambda>m. is_token m \<and> to_ascii_uppercase m = m) ms"
| "wf_condition E (CHost p) \<longleftrightarrow> glob_ok E p CHR ''.''"
| "wf_condition E (CUrl (UrlGlob p)) \<longleftrightarrow> glob_ok E p CHR 0x00"
| "wf_condition E (CUrl (UrlRegex r)) \<longleftrightarrow> regex_ok E r"
| "wf_condition E (CClientIp ps) \<longleftrightarrow> ip_patterns_ok E ps"
| "wf_condition E (CServerIp ps) \<longleftrightarrow> ip_patterns_ok E ps"
| "wf_condition E (CHeaderPresent n) \<longleftrightarrow> lower_token n"
| "wf_condition E (CHeaderContains n v) \<longleftrightarrow> lower_token n \<and> v \<noteq> []"
| "wf_condition E (CResHeaderPresent n) \<longleftrightarrow> lower_token n"
| "wf_condition E (CResHeaderContains n v) \<longleftrightarrow> lower_token n \<and> v \<noteq> []"
| "wf_condition E (CBodyContains t) \<longleftrightarrow> True"
| "wf_condition E (CBodyRegex r) \<longleftrightarrow> regex_ok E r"
| "wf_condition E (CStatus ss) \<longleftrightarrow> ss \<noteq> [] \<and> list_all (\<lambda>s. MIN_HTTP_STATUS \<le> s \<and> s \<le> MAX_HTTP_STATUS) ss"
| "wf_condition E (CChancePermille n) \<longleftrightarrow> n \<le> 1000"
| "wf_condition E (CEnvPresent n) \<longleftrightarrow> env_name_ok n"
| "wf_condition E (CEnvEquals n v) \<longleftrightarrow> env_name_ok n"
| "wf_condition E (CAny cs) \<longleftrightarrow> cs \<noteq> [] \<and> list_all (wf_condition E) cs"
| "wf_condition E (CAll cs) \<longleftrightarrow> cs \<noteq> [] \<and> list_all (wf_condition E) cs"
| "wf_condition E (CNot c) \<longleftrightarrow> wf_condition E c"

text \<open>How deep conditions are nested; the arguments of \<open>any\<close> and \<open>all\<close> count by the deepest.\<close>

fun condition_nesting :: "condition \<Rightarrow> nat" where
  "condition_nesting (CAny cs) = Suc (foldr (\<lambda>c. max (condition_nesting c)) cs 0)"
| "condition_nesting (CAll cs) = Suc (foldr (\<lambda>c. max (condition_nesting c)) cs 0)"
| "condition_nesting (CNot c) = Suc (condition_nesting c)"
| "condition_nesting _ = 0"

lemma foldr_max_le: "(\<And>c. c \<in> set cs \<Longrightarrow> f c \<le> n) \<Longrightarrow> foldr (\<lambda>c. max (f c)) cs 0 \<le> (n :: nat)"
  by (induction cs) auto

lemma ascii_upper_idem [simp]: "ascii_upper (ascii_upper c) = ascii_upper c"
  by (auto simp: ascii_upper_def is_ascii_lowercase_def)

lemma to_ascii_uppercase_idem [simp]: "to_ascii_uppercase (to_ascii_uppercase s) = to_ascii_uppercase s"
  by (simp add: to_ascii_uppercase_def)

lemma is_ascii_alphanumeric_case [simp]:
  "is_ascii_alphanumeric (ascii_upper c) = is_ascii_alphanumeric c"
  "is_ascii_alphanumeric (ascii_lower c) = is_ascii_alphanumeric c"
  by (auto simp: ascii_upper_def ascii_lower_def is_ascii_alphanumeric_def is_ascii_alphabetic_def
      is_ascii_digit_def is_ascii_lowercase_def is_ascii_uppercase_def)

lemma case_fixed_or_letter: "ascii_upper c = c \<or> is_ascii_alphanumeric c" "ascii_lower c = c \<or> is_ascii_alphanumeric c"
  by (auto simp: ascii_upper_def ascii_lower_def is_ascii_alphanumeric_def is_ascii_alphabetic_def)

lemma is_http_token_byte_case:
  "is_http_token_byte c \<Longrightarrow> is_http_token_byte (ascii_upper c)"
  "is_http_token_byte c \<Longrightarrow> is_http_token_byte (ascii_lower c)"
  using case_fixed_or_letter [of c] by (auto simp: is_http_token_byte_def)

lemma is_token_case: "is_token s \<Longrightarrow> is_token (to_ascii_uppercase s)" "is_token s \<Longrightarrow> is_token (to_ascii_lowercase s)"
  by (auto simp: is_token_def list_all_iff to_ascii_uppercase_def to_ascii_lowercase_def is_http_token_byte_case)

lemma validate_header_name_ok: "validate_header_name s = Inr n \<Longrightarrow> lower_token n"
  by (auto simp: validate_header_name_def Let_def lower_token_def is_token_def [symmetric] is_token_case
      split: if_splits)

lemma collect_results_all:
  assumes "collect_results f xs = Inr ys" "\<And>x y. x \<in> set xs \<Longrightarrow> f x = Inr y \<Longrightarrow> P y"
  shows "list_all P ys" "xs \<noteq> [] \<Longrightarrow> ys \<noteq> []"
  using collect_results_set [OF assms(1)] assms(2) collect_results_length [OF assms(1)] by (auto simp: list_all_iff)

lemma parse_method_ok:
  assumes "parse_method_condition args = Inr ms"
  shows "wf_condition E (CMethod ms)"
proof -
  from assms obtain f where f: "args \<noteq> []" "collect_results f args = Inr ms"
    "\<And>v. f v = (let v = trim (unquote v) in
      if v = [] \<or> \<not> list_all is_http_token_byte v then Inl (InvalidInput ''method condition'')
      else Inr (to_ascii_uppercase v))"
    unfolding parse_method_condition_def by (auto split: if_splits)
  have "is_token m \<and> to_ascii_uppercase m = m" if "f v = Inr m" for v m
    using that is_token_case(1) [of "trim (unquote v)"]
    by (auto simp: f(3) Let_def is_token_def [of "trim _"] split: if_splits)
  with collect_results_all [OF f(2), of "\<lambda>m. is_token m \<and> to_ascii_uppercase m = m"] f(1)
  show ?thesis by simp
qed

lemma parse_ip_patterns_ok: "parse_ip_patterns E args = Inr ps \<Longrightarrow> ip_patterns_ok E ps"
  unfolding parse_ip_patterns_def ip_patterns_ok_def
  by (auto simp: Let_def try_bind_Inr_iff split: if_splits
      dest: collect_results_all(2) [where P = "\<lambda>_. True"] elim!: collect_results_all(1))

lemma validate_status_range_Inr [simp]:
  "validate_status_range code low high ctx = Inr u \<longleftrightarrow> low \<le> code \<and> code \<le> high"
  by (auto simp: validate_status_range_def)

lemma parse_status_ok: "parse_status_condition args = Inr ss \<Longrightarrow> wf_condition E (CStatus ss)"
  unfolding parse_status_condition_def
  by (auto simp: try_bind_Inr_iff split: if_splits
      dest: collect_results_all(2) [where P = "\<lambda>_. True"] elim!: collect_results_all(1))

lemma validate_env_name_Inr [simp]: "validate_env_name n = Inr u \<longleftrightarrow> env_name_ok n"
  by (auto simp: validate_env_name_def env_name_ok_def)

lemma parse_chance_ok: "parse_chance_condition raw = Inr c \<Longrightarrow> wf_condition E c \<and> condition_nesting c = 0"
proof -
  assume c: "parse_chance_condition raw = Inr c"
  then obtain v where v: "parse_f64 raw = Some v" "f64_le_frac v 1 1"
    "c = CChancePermille (of_nat (round_to_uint 65535 (f64_mul v (f64_of_nat 1000))))"
    by (auto simp: parse_chance_condition_def split: option.splits if_splits)
  then have "round_to_uint 65535 (f64_mul v (f64_of_nat 1000)) \<le> 1 * 1000"
    by (intro round_to_uint_mul_le wf_parse_f64) simp_all
  then have "(of_nat (round_to_uint 65535 (f64_mul v (f64_of_nat 1000))) :: u16) \<le> 1000"
    by (simp add: word_le_nat_alt unat_of_nat)
  with v(3) show ?thesis by simp
qed

lemma parse_header_ok:
  "parse_header_condition input response = Inr c \<Longrightarrow> wf_condition E c \<and> condition_nesting c = 0"
  using validate_header_name_ok
  by (fastforce simp: parse_header_condition_def try_bind_Inr_iff Let_def split: option.splits if_splits prod.splits)

lemmas leaf_condition_ok =
  parse_method_ok parse_ip_patterns_ok parse_status_ok parse_chance_ok parse_header_ok parse_regex_matcher_ok

lemma parse_leaf_condition_ok:
  "parse_leaf_condition E name args = Inr c \<Longrightarrow> wf_condition E c \<and> condition_nesting c = 0"
  by (auto simp: parse_leaf_condition_def try_bind_Inr_iff parse_host_condition_def parse_url_condition_def
      parse_body_condition_def parse_env_condition_def Let_def
      simp del: wf_condition.simps(1,13) dest: leaf_condition_ok split: if_splits option.splits prod.splits)

lemma parse_condition_at_depth_wf:
  "parse_condition_at_depth E input depth profile = Inr c \<Longrightarrow>
     wf_condition E c \<and> depth + condition_nesting c \<le> MAX_RULE_PARSE_NESTING"
proof (induction E input depth profile arbitrary: c rule: parse_condition_at_depth.induct)
  case (1 E input depth profile)
  note parse = "1.prems"
  from parse have d: "\<not> MAX_RULE_PARSE_NESTING < depth"
    by (auto simp: parse_condition_at_depth.simps [of E input] split: if_splits)
  show ?case
  proof (cases "strip_prefix input ''!''")
    case (Some rest)
    with parse d obtain c' where c': "parse_condition_at_depth E rest (depth + 1) profile = Inr c'" "c = CNot c'"
      by (auto simp: parse_condition_at_depth.simps [of E input] try_bind_Inr_iff)
    with "1.IH"(4) [OF d Some c'(1)] show ?thesis by simp
  next
    case None
    from parse d None obtain input_name args name where call: "parse_call input = Inr (input_name, args)"
      "condition_name profile input_name = Some name"
      by (auto simp: parse_condition_at_depth.simps [of E input] try_bind_Inr_iff split: option.splits)
    note step = parse_condition_at_depth.simps [of E input depth profile]
    let ?sub = "\<lambda>arg. parse_condition_at_depth E (trim arg) (depth + 1) profile"
    let ?ok = "\<lambda>c. wf_condition E c \<and> Suc depth + condition_nesting c \<le> MAX_RULE_PARSE_NESTING"
    have children: "cs \<noteq> [] \<and> list_all (wf_condition E) cs \<and>
        Suc depth + foldr (\<lambda>c. max (condition_nesting c)) cs 0 \<le> MAX_RULE_PARSE_NESTING"
      if "collect_results ?sub args = Inr cs" "args \<noteq> []"
        "\<And>arg c. arg \<in> set args \<Longrightarrow> ?sub arg = Inr c \<Longrightarrow> ?ok c" for cs
    proof -
      from collect_results_all [OF that(1), of ?ok] that(2,3) have cs: "cs \<noteq> []" "list_all ?ok cs" by auto
      then have "foldr (\<lambda>c. max (condition_nesting c)) cs 0 \<le> MAX_RULE_PARSE_NESTING - Suc depth"
        by (intro foldr_max_le) (auto simp: list_all_iff)
      moreover from cs have "Suc depth \<le> MAX_RULE_PARSE_NESTING" by (cases cs) auto
      ultimately show ?thesis using cs by (auto simp: list_all_iff)
    qed
    consider "name = ''any''" | "name = ''all''" | "name = ''not''" | "name \<notin> {''any'', ''all'', ''not''}" by blast
    then show ?thesis
    proof cases
      case 1
      with parse d None call obtain cs where "collect_results ?sub args = Inr cs" "args \<noteq> []" "c = CAny cs"
        by (auto simp: step try_bind_Inr_iff split: if_splits)
      with children "1.IH"(1) [OF d None call(1) refl call(2) 1] show ?thesis by fastforce
    next
      case 2
      with parse d None call obtain cs where "collect_results ?sub args = Inr cs" "args \<noteq> []" "c = CAll cs"
        by (auto simp: step try_bind_Inr_iff split: if_splits)
      with children "1.IH"(2) [OF d None call(1) refl call(2) _ 2] 2 show ?thesis by fastforce
    next
      case 3
      with parse d None call obtain a c' where "require_one args = Inr a"
        "parse_condition_at_depth E a (depth + 1) profile = Inr c'" "c = CNot c'"
        by (auto simp: step try_bind_Inr_iff)
      with "1.IH"(3) [OF d None call(1) refl call(2) _ _ 3] 3 show ?thesis by fastforce
    next
      case 4
      with parse d None call have "parse_leaf_condition E name args = Inr c" by (simp add: step)
      with parse_leaf_condition_ok d show ?thesis by fastforce
    qed
  qed
qed

lemma parse_condition_ok:
  assumes "parse_condition E input profile = Inr c"
  shows "wf_condition E c \<and> condition_nesting c \<le> MAX_RULE_PARSE_NESTING"
  using parse_condition_at_depth_wf [of E input 0 profile c] assms by (simp add: parse_condition_def)

text \<open>
  An accepted condition is well formed: methods are upper-case tokens, header names
  lower-case tokens, statuses lie in 100..599, a chance is at most 1000 permille whatever
  decimal text it was written as, globs and regexes compile, \<open>any\<close> and \<open>all\<close> are not empty
  and conditions are nested at most 32 deep.
\<close>

theorem parse_condition_wf:
  assumes "parse_condition E input profile = Inr c"
  shows "wf_condition E c \<and> condition_nesting c \<le> MAX_RULE_PARSE_NESTING"
  using assms by (rule parse_condition_ok)

theorem parse_condition_wf_witness:
  "parse_condition demo_ext ''!any(method(get), header(X-A~b))'' Compatible =
     Inr (CNot (CAny [CMethod [''GET''], CHeaderContains ''x-a'' ''b''])) \<and>
   condition_nesting (CNot (CAny [CMethod [''GET''], CHeaderContains ''x-a'' ''b''])) \<le> MAX_RULE_PARSE_NESTING"
proof -
  have p: "parse_condition demo_ext ''!any(method(get), header(X-A~b))'' Compatible =
     Inr (CNot (CAny [CMethod [''GET''], CHeaderContains ''x-a'' ''b'']))"
    by code_simp
  from p parse_condition_wf [OF p] show ?thesis by blast
qed

end
