(* ===== verification/Rule_Template.thy ===== *)
theory Rule_Template
  imports Demo_Engine Rule_Syntax
begin

text \<open>
  Templates: bounded output and regex replacement (\<open>bounded_replace.rs\<close>), the \<open>replace\<close>
  transform with its per-thread regex cache and template validation (\<open>template/transform.rs\<close>),
  and rendering (\<open>template/render.rs\<close>). Rendering within a byte limit gives exactly the
  concatenation of the template's segments, or a limit error when that does not fit; the
  cache never changes a result and stays within its capacity.
\<close>

section \<open>Bounded output\<close>

definition limit_error :: "string \<Rightarrow> rule_model_error" where
  "limit_error ctx = LimitExceeded ctx"

definition push_bounded :: "string \<Rightarrow> string \<Rightarrow> nat \<Rightarrow> string \<Rightarrow> string model_result" where
  "push_bounded output v limit ctx =
     (case checked_add (length output) (length v) of
        Some n \<Rightarrow> if limit < n then Inl (limit_error ctx) else Inr (output @ v)
      | None \<Rightarrow> Inl (limit_error ctx))"

section \<open>Replacement templates\<close>

datatype replacement_token =
    RepLiteral string
  | RepIndex nat
  | RepName string
  | RepDollar

definition capture_name_or_index :: "string \<Rightarrow> replacement_token" where
  "capture_name_or_index name =
     (case parse_uint USIZE_MAX name of Inr n \<Rightarrow> RepIndex n | Inl _ \<Rightarrow> RepName name)"

definition is_capture_name_byte :: "char \<Rightarrow> bool" where
  "is_capture_name_byte c \<longleftrightarrow> is_ascii_alphanumeric c \<or> c = CHR ''_''"

definition capture_token :: "string \<Rightarrow> (replacement_token \<times> nat) option" where
  "capture_token r =
     (if length r \<le> 1 \<or> r ! 0 \<noteq> CHR ''$'' then None
      else if r ! 1 = CHR ''{'' then
        map_option (\<lambda>p. (capture_name_or_index (take p (drop 2 r)), p + 3))
          (find_char (\<lambda>c. c = CHR ''}'') (drop 2 r))
      else
        (let end_at = (case find_char (\<lambda>c. \<not> is_capture_name_byte c) (drop 1 r) of
                         None \<Rightarrow> length r | Some p \<Rightarrow> p + 1) in
         if end_at = 1 then None
         else Some (capture_name_or_index (take (end_at - 1) (drop 1 r)), end_at)))"

lemma capture_token_progress: "capture_token r = Some (t, n) \<Longrightarrow> 2 \<le> n"
  by (auto simp: capture_token_def Let_def split: if_splits option.splits)

function replacement_parse :: "string \<Rightarrow> replacement_token list" where
  "replacement_parse rest =
     (if rest = [] then []
      else (case find_char (\<lambda>c. c = CHR ''$'') rest of
        None \<Rightarrow> [RepLiteral rest]
      | Some offset \<Rightarrow>
          (let r = drop offset rest in
           (if 0 < offset then [RepLiteral (take offset rest)] else []) @
           (if nth_opt r 1 = Some (CHR ''$'') then RepDollar # replacement_parse (drop 2 r)
            else (case capture_token r of
              None \<Rightarrow> RepLiteral ''$'' # replacement_parse (drop 1 r)
            | Some (t, n) \<Rightarrow> t # replacement_parse (drop n r))))))"
  by pat_completeness auto
termination by (relation "measure length") (auto dest: capture_token_progress)

declare replacement_parse.simps [simp del]

definition token_value :: "rx_match \<Rightarrow> replacement_token \<Rightarrow> string option" where
  "token_value m t =
     (case t of
        RepLiteral s \<Rightarrow> Some s
      | RepIndex i \<Rightarrow> Option.bind (nth_opt (rx_groups m) i) (\<lambda>x. x)
      | RepName n \<Rightarrow> Option.bind (map_of (rx_names m) n) (\<lambda>x. x)
      | RepDollar \<Rightarrow> Some ''$'')"

fun expand_bounded ::
  "replacement_token list \<Rightarrow> rx_match \<Rightarrow> string \<Rightarrow> nat \<Rightarrow> string \<Rightarrow> string model_result" where
  "expand_bounded [] m output limit ctx = Inr output"
| "expand_bounded (t # ts) m output limit ctx =
     (case token_value m t of
        Some v \<Rightarrow> try_bind (push_bounded output v limit ctx) (\<lambda>output. expand_bounded ts m output limit ctx)
      | None \<Rightarrow> expand_bounded ts m output limit ctx)"

fun replace_loop ::
  "replacement_token list \<Rightarrow> string \<Rightarrow> rx_found list \<Rightarrow> nat \<Rightarrow> string \<Rightarrow> nat \<Rightarrow> string \<Rightarrow> string model_result" where
  "replace_loop ts input [] last_end output limit ctx =
     push_bounded output (drop last_end input) limit ctx"
| "replace_loop ts input (f # fs) last_end output limit ctx =
     try_bind (push_bounded output (take (rx_start f - last_end) (drop last_end input)) limit ctx) (\<lambda>output.
     try_bind (expand_bounded ts (rx_captures f) output limit ctx) (\<lambda>output.
       replace_loop ts input fs (rx_end f) output limit ctx))"

definition regex_replace_all ::
  "ext \<Rightarrow> string \<Rightarrow> bool \<Rightarrow> string \<Rightarrow> string \<Rightarrow> nat \<Rightarrow> string \<Rightarrow> string model_result" where
  "regex_replace_all E p ci input replacement limit ctx =
     replace_loop (replacement_parse replacement) input (linear_captures_iter E p ci input) 0 [] limit ctx"

section \<open>The replace transform\<close>

fun template_end_loop :: "nat \<Rightarrow> bool \<Rightarrow> string \<Rightarrow> nat option" where
  "template_end_loop braces escaped [] = None"
| "template_end_loop braces escaped (c # s) =
     (if escaped then map_option Suc (template_end_loop braces False s)
      else if c = backslash then map_option Suc (template_end_loop braces True s)
      else if c = CHR ''{'' then map_option Suc (template_end_loop (braces + 1) False s)
      else if c = CHR ''}'' then
        (if braces = 0 then Some 0 else map_option Suc (template_end_loop (braces - 1) False s))
      else map_option Suc (template_end_loop braces False s))"

definition find_template_end :: "string \<Rightarrow> nat \<Rightarrow> nat option" where
  "find_template_end input start =
     map_option (\<lambda>offset. start + offset) (template_end_loop 0 False (drop start input))"

record replace_transform =
  rt_variable :: string
  rt_pattern :: string
  rt_case_insensitive :: bool
  rt_replacement :: string

fun unescape_slashes :: "string \<Rightarrow> string" where
  "unescape_slashes (c # d # s) =
     (if c = backslash \<and> d = CHR ''/'' then CHR ''/'' # unescape_slashes s
      else c # unescape_slashes (d # s))"
| "unescape_slashes s = s"

definition template_unquote :: "string \<Rightarrow> string" where
  "template_unquote input =
     (if ((starts_with input [dquote] \<and> ends_with input [dquote]) \<or>
          (starts_with input [squote] \<and> ends_with input [squote])) \<and> 2 \<le> length input
      then butlast (tl input) else input)"

text \<open>The flags and the comma after a slash: whether \<open>i\<close> is given, and the text after the comma.\<close>

definition separator_tail :: "string \<Rightarrow> (bool \<times> string) option" where
  "separator_tail tail =
     (let trimmed = trim_start tail;
          (ci, after_flags) =
            (case strip_prefix trimmed ''i'' of Some after \<Rightarrow> (True, trim_start after)
             | None \<Rightarrow> (False, trimmed)) in
      map_option (\<lambda>replacement. (ci, replacement)) (strip_prefix after_flags '',''))"

fun separator_loop :: "nat \<Rightarrow> bool \<Rightarrow> string \<Rightarrow> (nat \<times> bool \<times> string) option" where
  "separator_loop idx escaped [] = None"
| "separator_loop idx escaped (c # s) =
     (if escaped then separator_loop (idx + 1) False s
      else if c = backslash then separator_loop (idx + 1) True s
      else if c \<noteq> CHR ''/'' then separator_loop (idx + 1) False s
      else (case separator_tail s of
        Some (ci, replacement) \<Rightarrow> Some (idx, ci, replacement)
      | None \<Rightarrow> separator_loop (idx + 1) False s))"

definition replace_separator :: "string \<Rightarrow> (nat \<times> bool \<times> nat) model_result" where
  "replace_separator arguments =
     (case separator_loop 1 False (drop 1 arguments) of
        Some (idx, ci, replacement) \<Rightarrow> Inr (idx, ci, length arguments - length replacement)
      | None \<Rightarrow> Inl (InvalidTemplate ''template replace''))"

definition parse_replace_transform :: "string \<Rightarrow> replace_transform option model_result" where
  "parse_replace_transform expression =
     (case split_once expression ''.replace('' of
        None \<Rightarrow> Inr None
      | Some (v, call) \<Rightarrow>
          if trim v = [] \<or> \<not> ends_with call '')'' then Inl (InvalidTemplate ''template replace'')
          else
            (let arguments = butlast call in
             if \<not> starts_with arguments ''/'' then Inl (InvalidTemplate ''template replace regex'')
             else try_bind (replace_separator arguments) (\<lambda>(end_at, ci, start).
               Inr (Some \<lparr>rt_variable = trim v,
                          rt_pattern = unescape_slashes (take (end_at - 1) (drop 1 arguments)),
                          rt_case_insensitive = ci,
                          rt_replacement = template_unquote (trim (drop start arguments))\<rparr>))))"

section \<open>The regex cache\<close>

text \<open>The cached patterns of one thread, least recently used first.\<close>

type_synonym regex_cache = "(string \<times> bool) list"

definition REGEX_CACHE_CAPACITY :: nat where
  "REGEX_CACHE_CAPACITY = 128"

definition replace_cached_bounded ::
  "ext \<Rightarrow> regex_cache \<Rightarrow> string \<Rightarrow> string \<Rightarrow> bool \<Rightarrow> string \<Rightarrow> nat \<Rightarrow> string model_result \<times> regex_cache" where
  "replace_cached_bounded E cache input p ci replacement limit =
     (let output = regex_replace_all E p ci input replacement limit ''template replacement'' in
      if (p, ci) \<in> set cache then (output, remove1 (p, ci) cache @ [(p, ci)])
      else if \<not> linear_new E p ci then (Inl (InvalidRegex ''invalid template replace regex''), cache)
      else (output, (if length cache = REGEX_CACHE_CAPACITY then drop 1 cache else cache) @ [(p, ci)]))"

definition apply_replace_transform_bounded ::
  "ext \<Rightarrow> regex_cache \<Rightarrow> string \<Rightarrow> (string \<Rightarrow> string) \<Rightarrow> nat \<Rightarrow> string model_result option \<times> regex_cache" where
  "apply_replace_transform_bounded E cache expression resolve_var limit =
     (case parse_replace_transform expression of
        Inl e \<Rightarrow> (Some (Inl e), cache)
      | Inr None \<Rightarrow> (None, cache)
      | Inr (Some t) \<Rightarrow>
          (let (output, cache) = replace_cached_bounded E cache (resolve_var (rt_variable t)) (rt_pattern t)
                 (rt_case_insensitive t) (rt_replacement t) limit in
           (Some output, cache)))"

section \<open>Validation\<close>

definition validate_expression :: "ext \<Rightarrow> string \<Rightarrow> unit model_result" where
  "validate_expression E expression =
     try_bind (parse_replace_transform expression) (\<lambda>t.
       case t of
         Some t \<Rightarrow>
           if linear_new E (rt_pattern t) (rt_case_insensitive t) then Inr ()
           else Inl (InvalidRegex ''invalid template replace regex'')
       | None \<Rightarrow> Inr ())"

lemma find_str_length: "find_str p s = Some i \<Longrightarrow> i + length p \<le> length s"
  using find_str_SomeD [of p s i] by (auto simp: starts_with_iff) (metis diff_le_self le_add1 length_append length_drop le_diff_conv2 add.commute)

function validate_template :: "ext \<Rightarrow> string \<Rightarrow> unit model_result" where
  "validate_template E input =
     (case find_str ''${'' input of
        None \<Rightarrow> Inr ()
      | Some i \<Rightarrow>
          (let start = i + 2 in
           case find_template_end input start of
             None \<Rightarrow> Inl (InvalidTemplate ''template variable'')
           | Some end_at \<Rightarrow>
               try_bind (validate_expression E (take (end_at - start) (drop start input)))
                 (\<lambda>_. validate_template E (drop (end_at + 1) input))))"
  by pat_completeness auto
termination
  by (relation "measure (\<lambda>(E, s). length s)") (auto simp: find_template_end_def dest!: find_str_length)

declare validate_template.simps [simp del]

section \<open>Rendering\<close>

definition get_index :: "captures \<Rightarrow> nat \<Rightarrow> string option" where
  "get_index c i = (if i = 0 then whole c else nth_opt (captures.indexed c) (i - 1))"

definition or_empty :: "string option \<Rightarrow> string" where
  "or_empty v = (case v of Some s \<Rightarrow> s | None \<Rightarrow> [])"

definition parsed_url :: "request_meta \<Rightarrow> url_parts option" where
  "parsed_url req = (case url_parse (req_url req) of Inr u \<Rightarrow> Some u | Inl _ \<Rightarrow> None)"

definition cookie_pair :: "string \<Rightarrow> (string \<times> string) option" where
  "cookie_pair part = split_once (trim part) ''=''"

definition find_cookie :: "string \<Rightarrow> string list \<Rightarrow> string option" where
  "find_cookie name parts =
     map_option (\<lambda>(_, v). trim v)
       (find (\<lambda>(n, _). trim n = name) (List.map_filter cookie_pair parts))"

definition request_cookie :: "(string \<times> string) list \<Rightarrow> string \<Rightarrow> string option" where
  "request_cookie headers name =
     find_cookie name (concat (map (\<lambda>(_, v). split_chars (\<lambda>c. c = CHR '';'') v)
       (filter (\<lambda>(n, _). eq_ignore_ascii_case n ''cookie'') headers)))"

definition response_cookie :: "(string \<times> string) list \<Rightarrow> string \<Rightarrow> string option" where
  "response_cookie headers name =
     find_cookie name (map (\<lambda>(_, v). hd (split_chars (\<lambda>c. c = CHR '';'') v))
       (filter (\<lambda>(n, _). eq_ignore_ascii_case n ''set-cookie'') headers))"

definition render_variable ::
  "string \<Rightarrow> request_meta \<Rightarrow> response_meta option \<Rightarrow> captures \<Rightarrow> string" where
  "render_variable key req res caps =
     (if key = ''id'' then tm_id (req_template req)
      else if key = ''now'' then nat_to_string (unat (tm_now_ms (req_template req)))
      else if key = ''random'' then nat_to_string (unat (tm_random (req_template req)))
      else if key = ''randomUUID'' then tm_random_uuid (req_template req)
      else if key = ''url'' then req_url req
      else if key = ''method'' then req_method req
      else if key = ''host'' \<or> key = ''hostname'' then or_empty (map_option url_host (parsed_url req))
      else if key = ''port'' then
        or_empty (map_option (\<lambda>p. nat_to_string (unat p)) (Option.bind (parsed_url req) effective_port))
      else if key = ''path'' \<or> key = ''pathname'' then or_empty (map_option url_path (parsed_url req))
      else if key = ''query'' \<or> key = ''search'' then or_empty (Option.bind (parsed_url req) url_query)
      else if key = ''clientIp'' then or_empty (req_client_ip req)
      else if key = ''serverIp'' then or_empty (req_server_ip req)
      else if key = ''statusCode'' then
        or_empty (map_option (\<lambda>r. nat_to_string (unat (res_status r))) res)
      else if starts_with key ''reqH.'' then or_empty (header (req_headers req) (drop 5 key))
      else if starts_with key ''resH.'' then
        or_empty (Option.bind res (\<lambda>r. header (res_headers r) (drop 5 key)))
      else if starts_with key ''reqCookies.'' then or_empty (request_cookie (req_headers req) (drop 11 key))
      else if starts_with key ''resCookies.'' then
        or_empty (Option.bind res (\<lambda>r. response_cookie (res_headers r) (drop 11 key)))
      else or_empty (bt_get (named caps) key))"

definition RENDER_CONTEXT :: string where
  "RENDER_CONTEXT = ''template rendering''"

definition render_expression_bounded ::
  "ext \<Rightarrow> regex_cache \<Rightarrow> string \<Rightarrow> request_meta \<Rightarrow> response_meta option \<Rightarrow> captures \<Rightarrow> nat \<Rightarrow>
     string model_result \<times> regex_cache" where
  "render_expression_bounded E cache expression req res caps limit =
     (case apply_replace_transform_bounded E cache expression
             (\<lambda>v. render_variable v req res caps) limit of
        (Some result, cache) \<Rightarrow>
          (case result of
             Inr v \<Rightarrow> (Inr v, cache)
           | Inl (LimitExceeded ctx) \<Rightarrow> (Inl (LimitExceeded ctx), cache)
           | Inl _ \<Rightarrow> (Inr [], cache))
      | (None, cache) \<Rightarrow>
          (let v = render_variable expression req res caps in
           if limit < length v then (Inl (limit_error RENDER_CONTEXT), cache) else (Inr v, cache)))"

text \<open>One step of the rendering loop: what the text starts with, and what is left of it.\<close>

datatype segment = SegText string | SegCapture nat | SegExpression string

definition next_segment :: "string \<Rightarrow> segment \<times> string" where
  "next_segment tail =
     (if 2 \<le> length tail \<and> is_ascii_digit (tail ! 1)
      then (SegCapture (byte (tail ! 1) - 48), drop 2 tail)
      else if 2 \<le> length tail \<and> tail ! 1 = CHR ''{'' \<and> find_template_end tail 2 \<noteq> None
      then (case find_template_end tail 2 of
              Some e \<Rightarrow> (SegExpression (take (e - 2) (drop 2 tail)), drop (e + 1) tail)
            | None \<Rightarrow> (SegText ''$'', drop 1 tail))
      else (SegText ''$'', drop 1 tail))"

lemma next_segment_shorter: "s \<noteq> [] \<Longrightarrow> length (snd (next_segment s)) < length s"
  by (auto simp: next_segment_def split: option.splits)

text \<open>The bounded value of a segment; it may use and update the regex cache.\<close>

definition segment_bounded ::
  "ext \<Rightarrow> regex_cache \<Rightarrow> segment \<Rightarrow> request_meta \<Rightarrow> response_meta option \<Rightarrow> captures \<Rightarrow> nat \<Rightarrow>
     string model_result \<times> regex_cache" where
  "segment_bounded E cache seg req res caps remaining =
     (case seg of
        SegText t \<Rightarrow> (Inr t, cache)
      | SegCapture i \<Rightarrow> (Inr (or_empty (get_index caps i)), cache)
      | SegExpression e \<Rightarrow> render_expression_bounded E cache e req res caps remaining)"

function render_loop ::
  "ext \<Rightarrow> regex_cache \<Rightarrow> string \<Rightarrow> request_meta \<Rightarrow> response_meta option \<Rightarrow> captures \<Rightarrow> nat \<Rightarrow> string \<Rightarrow>
     string model_result \<times> regex_cache" where
  "render_loop E cache s req res caps limit output =
     (case find_char (\<lambda>c. c = CHR ''$'') s of
        None \<Rightarrow> (push_bounded output s limit RENDER_CONTEXT, cache)
      | Some i \<Rightarrow>
          (case push_bounded output (take i s) limit RENDER_CONTEXT of
             Inl e \<Rightarrow> (Inl e, cache)
           | Inr output \<Rightarrow>
               (let (seg, rest) = next_segment (drop i s) in
                case segment_bounded E cache seg req res caps (limit - length output) of
                  (Inl e, cache) \<Rightarrow> (Inl e, cache)
                | (Inr v, cache) \<Rightarrow>
                    (case push_bounded output v limit RENDER_CONTEXT of
                       Inl e \<Rightarrow> (Inl e, cache)
                     | Inr output \<Rightarrow> render_loop E cache rest req res caps limit output))))"
  by pat_completeness auto
termination
proof (relation "measure (\<lambda>(E, cache, s, _). length s)", goal_cases)
  case (2 E cache s req res caps limit out0 i out1 x seg rest y)
  then have "i < length s" using find_char_SomeD by blast
  with 2 next_segment_shorter [of "drop i s"] show ?case by auto (metis less_le_trans diff_le_self snd_conv)
qed simp

declare render_loop.simps [simp del]

definition render_with_response_bounded ::
  "ext \<Rightarrow> regex_cache \<Rightarrow> captures \<Rightarrow> string \<Rightarrow> request_meta \<Rightarrow> response_meta option \<Rightarrow> nat \<Rightarrow>
     string model_result \<times> regex_cache" where
  "render_with_response_bounded E cache caps input req res limit =
     render_loop E cache input req res caps limit []"

text \<open>
  The public entry points. Rendering without a limit is rendering with \<open>usize::MAX\<close>; its
  \<open>expect\<close> panics on an error, here \<open>None\<close>.
\<close>

definition render_with_response ::
  "ext \<Rightarrow> regex_cache \<Rightarrow> captures \<Rightarrow> string \<Rightarrow> request_meta \<Rightarrow> response_meta option \<Rightarrow>
     string option \<times> regex_cache" where
  "render_with_response E cache caps input req res =
     (case render_with_response_bounded E cache caps input req res USIZE_MAX of
        (Inr v, cache) \<Rightarrow> (Some v, cache) | (Inl _, cache) \<Rightarrow> (None, cache))"

definition captures_render :: "ext \<Rightarrow> regex_cache \<Rightarrow> captures \<Rightarrow> string \<Rightarrow> request_meta \<Rightarrow> string option \<times> regex_cache" where
  "captures_render E cache caps input req = render_with_response E cache caps input req None"

definition captures_render_bounded ::
  "ext \<Rightarrow> regex_cache \<Rightarrow> captures \<Rightarrow> string \<Rightarrow> request_meta \<Rightarrow> nat \<Rightarrow> string model_result \<times> regex_cache" where
  "captures_render_bounded E cache caps input req limit =
     render_with_response_bounded E cache caps input req None limit"

definition action_render :: "ext \<Rightarrow> regex_cache \<Rightarrow> resolved_action \<Rightarrow> string \<Rightarrow> request_meta \<Rightarrow> string option \<times> regex_cache" where
  "action_render E cache a input req = render_with_response E cache (ra_captures a) input req (ra_response a)"

definition action_render_bounded ::
  "ext \<Rightarrow> regex_cache \<Rightarrow> resolved_action \<Rightarrow> string \<Rightarrow> request_meta \<Rightarrow> nat \<Rightarrow> string model_result \<times> regex_cache" where
  "action_render_bounded E cache a input req limit =
     render_with_response_bounded E cache (ra_captures a) input req (ra_response a) limit"

section \<open>Budgeted output as an interface\<close>

text \<open>
  An operation that appends within a budget: it fails exactly when the result would exceed
  the limit. A sequence of such operations then fails exactly when the whole does.
\<close>

locale bounded_writer =
  fixes ok :: "'q \<Rightarrow> bool" and limit :: "'q \<Rightarrow> nat" and err :: "'q \<Rightarrow> 'e"
    and emit :: "'q \<Rightarrow> 'o \<Rightarrow> 'v \<Rightarrow> 'e + 'o" and put :: "'o \<Rightarrow> 'v \<Rightarrow> 'o"
    and used :: "'o \<Rightarrow> nat" and cost :: "'v \<Rightarrow> nat"
  assumes emit_eq: "ok q \<Longrightarrow> used out \<le> limit q \<Longrightarrow>
      emit q out v = (if used out + cost v \<le> limit q then Inr (put out v) else Inl (err q))"
    and used_put: "used (put out v) = used out + cost v"
begin

fun emit_all :: "'q \<Rightarrow> 'v list \<Rightarrow> 'o \<Rightarrow> 'e + 'o" where
  "emit_all q [] out = Inr out"
| "emit_all q (v # vs) out = try_bind (emit q out v) (emit_all q vs)"

lemma used_foldl_put: "used (foldl put out vs) = used out + sum_list (map cost vs)"
  by (induction vs arbitrary: out) (simp_all add: used_put)

lemma emit_all_eq:
  "ok q \<Longrightarrow> used out \<le> limit q \<Longrightarrow>
     emit_all q vs out =
       (if used out + sum_list (map cost vs) \<le> limit q then Inr (foldl put out vs) else Inl (err q))"
  by (induction vs arbitrary: out) (simp_all add: emit_eq used_put)

lemma emit_all_append: "emit_all q (us @ vs) out = try_bind (emit_all q us out) (emit_all q vs)"
  by (induction us arbitrary: out) (simp_all add: try_bind_def split: sum.split)

end

interpretation text_out: bounded_writer "\<lambda>(limit, ctx). limit \<le> USIZE_MAX" fst "\<lambda>(limit, ctx). LimitExceeded ctx"
  "\<lambda>(limit, ctx) out v. push_bounded out v limit ctx" "(@)" length length
  by unfold_locales (auto simp: push_bounded_def checked_add_def limit_error_def)

lemma foldl_append: "foldl (@) out vs = out @ concat vs"
  by (induction vs arbitrary: out) simp_all

text \<open>What a bounded text operation with the full result \<open>v\<close> returns.\<close>

definition bounded_result :: "nat \<Rightarrow> string \<Rightarrow> string model_result \<Rightarrow> bool" where
  "bounded_result limit v r \<longleftrightarrow>
     (if length v \<le> limit then r = Inr v else \<exists>ctx. r = Inl (LimitExceeded ctx))"

lemma bounded_writes:
  "limit \<le> USIZE_MAX \<Longrightarrow> length out \<le> limit \<Longrightarrow>
     bounded_result limit (out @ concat vs) (text_out.emit_all (limit, ctx) vs out)"
  using text_out.emit_all_eq [of "(limit, ctx)" out vs]
  by (auto simp: bounded_result_def foldl_append length_concat)

section \<open>Replacement is exact\<close>

fun replacement_pieces :: "replacement_token list \<Rightarrow> string \<Rightarrow> rx_found list \<Rightarrow> nat \<Rightarrow> string list" where
  "replacement_pieces ts input [] last_end = [drop last_end input]"
| "replacement_pieces ts input (f # fs) last_end =
     take (rx_start f - last_end) (drop last_end input) #
     List.map_filter (token_value (rx_captures f)) ts @ replacement_pieces ts input fs (rx_end f)"

definition replaced_text :: "ext \<Rightarrow> string \<Rightarrow> bool \<Rightarrow> string \<Rightarrow> string \<Rightarrow> string" where
  "replaced_text E p ci input replacement =
     concat (replacement_pieces (replacement_parse replacement) input (linear_captures_iter E p ci input) 0)"

lemma expand_bounded_writes:
  "expand_bounded ts m out limit ctx = text_out.emit_all (limit, ctx) (List.map_filter (token_value m) ts) out"
  by (induction ts arbitrary: out) (auto simp: map_filter_simps split: option.split intro!: try_bind_cong)

lemma replace_loop_writes:
  "replace_loop ts input fs n out limit ctx = text_out.emit_all (limit, ctx) (replacement_pieces ts input fs n) out"
proof (induction fs arbitrary: n out)
  case Nil
  then show ?case by (cases "push_bounded out (drop n input) limit ctx") simp_all
next
  case (Cons f fs)
  then show ?case
    by (simp add: expand_bounded_writes text_out.emit_all_append cong: try_bind_cong)
qed

lemma regex_replace_all_bounded:
  "limit \<le> USIZE_MAX \<Longrightarrow>
     bounded_result limit (replaced_text E p ci input replacement) (regex_replace_all E p ci input replacement limit ctx)"
  using bounded_writes [of limit "[]"]
  by (simp add: regex_replace_all_def replace_loop_writes replaced_text_def)

section \<open>The cache is transparent\<close>

definition cache_inv :: "ext \<Rightarrow> regex_cache \<Rightarrow> bool" where
  "cache_inv E cache \<longleftrightarrow>
     length cache \<le> REGEX_CACHE_CAPACITY \<and> distinct cache \<and> (\<forall>(p, ci) \<in> set cache. linear_new E p ci)"

lemma cache_inv_empty: "cache_inv E []"
  by (simp add: cache_inv_def)

lemma replace_cached_inv:
  assumes "cache_inv E cache"
  shows "cache_inv E (snd (replace_cached_bounded E cache input p ci replacement limit))"
proof -
  have cap: "0 < REGEX_CACHE_CAPACITY" by (simp add: REGEX_CACHE_CAPACITY_def)
  have len: "0 < length cache" if "(p, ci) \<in> set cache" using that by (cases cache) auto
  show ?thesis
    using assms cap len
    by (auto simp: cache_inv_def replace_cached_bounded_def Let_def length_remove1 distinct_remove1
        dest: set_remove1_subset [THEN subsetD] in_set_dropD)
qed

lemma replace_cached_result:
  assumes "cache_inv E cache"
  shows "fst (replace_cached_bounded E cache input p ci replacement limit) =
    (if linear_new E p ci then regex_replace_all E p ci input replacement limit ''template replacement''
     else Inl (InvalidRegex ''invalid template replace regex''))"
  using assms by (auto simp: cache_inv_def replace_cached_bounded_def Let_def)

section \<open>Rendering is exact\<close>

definition expression_text :: "ext \<Rightarrow> string \<Rightarrow> request_meta \<Rightarrow> response_meta option \<Rightarrow> captures \<Rightarrow> string" where
  "expression_text E expression req res caps =
     (case parse_replace_transform expression of
        Inl _ \<Rightarrow> []
      | Inr None \<Rightarrow> render_variable expression req res caps
      | Inr (Some t) \<Rightarrow>
          if linear_new E (rt_pattern t) (rt_case_insensitive t)
          then replaced_text E (rt_pattern t) (rt_case_insensitive t)
                 (render_variable (rt_variable t) req res caps) (rt_replacement t)
          else [])"

definition segment_text :: "ext \<Rightarrow> request_meta \<Rightarrow> response_meta option \<Rightarrow> captures \<Rightarrow> segment \<Rightarrow> string" where
  "segment_text E req res caps seg =
     (case seg of
        SegText t \<Rightarrow> t
      | SegCapture i \<Rightarrow> or_empty (get_index caps i)
      | SegExpression e \<Rightarrow> expression_text E e req res caps)"

function segments :: "string \<Rightarrow> segment list" where
  "segments s =
     (case find_char (\<lambda>c. c = CHR ''$'') s of
        None \<Rightarrow> [SegText s]
      | Some i \<Rightarrow> SegText (take i s) # fst (next_segment (drop i s)) # segments (snd (next_segment (drop i s))))"
  by pat_completeness auto
termination
proof (relation "measure length", goal_cases)
  case (2 s i)
  then have "i < length s" using find_char_SomeD by blast
  with next_segment_shorter [of "drop i s"] show ?case by simp
qed simp

declare segments.simps [simp del]

definition rendered_text :: "ext \<Rightarrow> captures \<Rightarrow> string \<Rightarrow> request_meta \<Rightarrow> response_meta option \<Rightarrow> string" where
  "rendered_text E caps input req res = concat (map (segment_text E req res caps) (segments input))"

lemma transform_exact:
  assumes "cache_inv E cache" "limit \<le> USIZE_MAX"
  shows "cache_inv E (snd (render_expression_bounded E cache e req res caps limit)) \<and>
    bounded_result limit (expression_text E e req res caps)
      (fst (render_expression_bounded E cache e req res caps limit))"
proof (cases "parse_replace_transform e")
  case (Inl err)
  then show ?thesis
    using assms by (cases err) (auto simp: render_expression_bounded_def apply_replace_transform_bounded_def
      expression_text_def bounded_result_def parse_replace_transform_def replace_separator_def
      try_bind_def Let_def split: option.splits if_splits sum.splits prod.splits)
next
  case (Inr t)
  show ?thesis
  proof (cases t)
    case None
    with Inr assms show ?thesis
      by (auto simp: render_expression_bounded_def apply_replace_transform_bounded_def expression_text_def
          bounded_result_def limit_error_def Let_def)
  next
    case (Some t')
    let ?v = "render_variable (rt_variable t') req res caps"
    obtain r cache' where rc: "replace_cached_bounded E cache ?v (rt_pattern t') (rt_case_insensitive t')
      (rt_replacement t') limit = (r, cache')" by fastforce
    have inv: "cache_inv E cache'" using replace_cached_inv [OF assms(1)] rc by (metis snd_conv)
    have r: "r = (if linear_new E (rt_pattern t') (rt_case_insensitive t')
        then regex_replace_all E (rt_pattern t') (rt_case_insensitive t') ?v (rt_replacement t') limit ''template replacement''
        else Inl (InvalidRegex ''invalid template replace regex''))"
      using replace_cached_result [OF assms(1)] rc by (metis fst_conv)
    show ?thesis
      using Inr Some rc inv r regex_replace_all_bounded [OF assms(2), of E "rt_pattern t'"
          "rt_case_insensitive t'" ?v "rt_replacement t'" "''template replacement''"]
      by (auto simp: render_expression_bounded_def apply_replace_transform_bounded_def expression_text_def
          bounded_result_def split: if_splits)
  qed
qed

lemma segment_exact:
  assumes "cache_inv E cache" "limit \<le> USIZE_MAX"
  shows "cache_inv E (snd (segment_bounded E cache seg req res caps limit)) \<and>
    (fst (segment_bounded E cache seg req res caps limit) = Inr (segment_text E req res caps seg) \<or>
     limit < length (segment_text E req res caps seg) \<and>
       (\<exists>ctx. fst (segment_bounded E cache seg req res caps limit) = Inl (LimitExceeded ctx)))"
proof (cases seg)
  case (SegExpression e)
  with transform_exact [OF assms, of e req res caps] show ?thesis
    by (auto simp: segment_bounded_def segment_text_def bounded_result_def not_le split: if_splits)
qed (use assms(1) in \<open>simp_all add: segment_bounded_def segment_text_def\<close>)

lemma push_bounded_eq:
  "limit \<le> USIZE_MAX \<Longrightarrow> length out \<le> limit \<Longrightarrow>
     push_bounded out v limit ctx =
       (if length out + length v \<le> limit then Inr (out @ v) else Inl (LimitExceeded ctx))"
  using text_out.emit_eq [of "(limit, ctx)" out v] by simp

lemma render_loop_exact:
  assumes "cache_inv E cache" "limit \<le> USIZE_MAX" "length out \<le> limit"
  shows "cache_inv E (snd (render_loop E cache s req res caps limit out)) \<and>
    bounded_result limit (out @ rendered_text E caps s req res) (fst (render_loop E cache s req res caps limit out))"
  using assms
proof (induction E cache s req res caps limit out rule: render_loop.induct)
  case (1 E cache s req res caps limit out)
  note prems = "1.prems"
  show ?case
  proof (cases "find_char (\<lambda>c. c = CHR ''$'') s")
    case None
    with prems show ?thesis
      by (simp add: render_loop.simps [of E cache s] rendered_text_def segments.simps [of s] segment_text_def
          push_bounded_eq bounded_result_def)
  next
    case (Some i)
    obtain seg rest where seg: "next_segment (drop i s) = (seg, rest)" by fastforce
    let ?seg = "segment_text E req res caps seg" and ?rest = "rendered_text E caps rest req res"
    have full: "rendered_text E caps s req res = take i s @ ?seg @ ?rest"
      using Some seg by (simp add: rendered_text_def segments.simps [of s] segment_text_def [of _ _ _ _ "SegText _"])
    show ?thesis
    proof (cases "length out + length (take i s) \<le> limit")
      case False
      with Some prems show ?thesis
        by (simp add: render_loop.simps [of E cache s] push_bounded_eq bounded_result_def full)
    next
      case True
      let ?out = "out @ take i s"
      from True prems have push1: "push_bounded out (take i s) limit RENDER_CONTEXT = Inr ?out"
        by (simp add: push_bounded_eq)
      obtain r cache' where rc: "segment_bounded E cache seg req res caps (limit - length ?out) = (r, cache')"
        by fastforce
      have "limit - length ?out \<le> USIZE_MAX" using prems(2) by simp
      from segment_exact [OF prems(1) this, of seg req res caps, unfolded rc]
      have inv: "cache_inv E cache'" and r: "r = Inr ?seg \<or> limit - length ?out < length ?seg \<and>
          (\<exists>ctx. r = Inl (LimitExceeded ctx))" by simp_all
      show ?thesis
      proof (cases "r = Inr ?seg \<and> length ?out + length ?seg \<le> limit")
        case True
        with prems have push2: "push_bounded ?out ?seg limit RENDER_CONTEXT = Inr (?out @ ?seg)"
          by (simp add: push_bounded_eq)
        from True have "length (?out @ ?seg) \<le> limit" by simp
        from "1.IH" [OF Some push1 refl seg [symmetric] rc [symmetric] True [THEN conjunct1] push2 inv prems(2) this]
        show ?thesis
          using Some push1 seg rc True push2 by (simp add: render_loop.simps [of E cache s] full)
      next
        case False
        with r have "limit < length (out @ rendered_text E caps s req res)" by (auto simp: full)
        moreover have "\<exists>ctx. render_loop E cache s req res caps limit out = (Inl (LimitExceeded ctx), cache')"
          using Some push1 seg rc r False prems True
          by (auto simp: render_loop.simps [of E cache s] push_bounded_eq)
        ultimately show ?thesis using inv by (auto simp: bounded_result_def)
      qed
    qed
  qed
qed

text \<open>
  C10: rendering within a byte limit is exact and independent of the per-thread regex cache.
  The result is the concatenation of the values of the template's segments when that fits
  the limit, and a limit error when it does not; the cache keeps only compiled patterns, each
  once, and at most its capacity.
\<close>

theorem render_bounded_exact:
  assumes "cache_inv E cache" "limit \<le> USIZE_MAX"
  shows "cache_inv E (snd (render_with_response_bounded E cache caps input req res limit)) \<and>
    (if length (rendered_text E caps input req res) \<le> limit
     then fst (render_with_response_bounded E cache caps input req res limit) = Inr (rendered_text E caps input req res)
     else \<exists>ctx. fst (render_with_response_bounded E cache caps input req res limit) = Inl (LimitExceeded ctx))"
  using render_loop_exact [OF assms, of "[]" input req res caps]
  by (simp add: render_with_response_bounded_def bounded_result_def)

theorem render_bounded_exact_witness:
  "cache_inv demo_ext [] \<and> (5::nat) \<le> USIZE_MAX \<and>
   rendered_text demo_ext captures_default ''[${method}]'' (demo_request ''http://a/'' []) None = ''[GET]'' \<and>
   fst (render_with_response_bounded demo_ext [] captures_default ''[${method}]'' (demo_request ''http://a/'' []) None 5) =
     Inr ''[GET]'' \<and>
   (\<exists>ctx. fst (render_with_response_bounded demo_ext [] captures_default ''[${method}]'' (demo_request ''http://a/'' []) None 4) =
     Inl (LimitExceeded ctx))"
proof -
  have t: "rendered_text demo_ext captures_default ''[${method}]'' (demo_request ''http://a/'' []) None = ''[GET]''"
    by code_simp
  have l: "(5::nat) \<le> USIZE_MAX" "(4::nat) \<le> USIZE_MAX" by (simp_all add: USIZE_MAX_def)
  show ?thesis
    using render_bounded_exact [OF cache_inv_empty l(1), of demo_ext captures_default "''[${method}]''"
        "demo_request ''http://a/'' []" None, unfolded t]
      render_bounded_exact [OF cache_inv_empty l(2), of demo_ext captures_default "''[${method}]''"
        "demo_request ''http://a/'' []" None, unfolded t] t l cache_inv_empty [of demo_ext]
    by simp
qed

section \<open>Validated templates\<close>

lemma validate_template_skip:
  assumes "\<not> starts_with (c # s) ''${''"
  shows "validate_template E (c # s) = validate_template E s"
proof (cases "find_str ''${'' s")
  case None
  with assms show ?thesis by (simp add: validate_template.simps [of E "c # s"] validate_template.simps [of E s])
next
  case (Some i)
  with assms show ?thesis
    by (simp add: validate_template.simps [of E "c # s"] validate_template.simps [of E s]
        find_template_end_def Let_def option.map_comp comp_def split: option.split)
qed

lemma validate_template_drop:
  "(\<forall>j < n. \<not> starts_with (drop j s) ''${'') \<Longrightarrow> validate_template E (drop n s) = validate_template E s"
proof (induction n arbitrary: s)
  case (Suc n)
  show ?case
  proof (cases s)
    case (Cons c t)
    have "\<not> starts_with (drop j t) ''${''" if "j < n" for j
      using Suc.prems [rule_format, of "Suc j"] that Cons by simp
    with Suc.IH [of t] Suc.prems [rule_format, of 0] Cons show ?thesis
      by (simp add: validate_template_skip)
  qed simp
qed simp

lemma starts_with_dollar: "starts_with s ''${'' \<longleftrightarrow> 2 \<le> length s \<and> s ! 0 = CHR ''$'' \<and> s ! 1 = CHR ''{''"
  by (cases s; cases "tl s") (auto simp: starts_with_def)

lemma next_segment_valid:
  assumes "validate_template E t = Inr ()" "t \<noteq> []" "t ! 0 = CHR ''$''"
  shows "(fst (next_segment t) = SegExpression e \<longrightarrow> validate_expression E e = Inr ()) \<and>
    validate_template E (snd (next_segment t)) = Inr ()"
proof (cases "starts_with t ''${''")
  case True
  then have t: "2 \<le> length t" "t ! 1 = CHR ''{''" by (auto simp: starts_with_dollar)
  have "find_str ''${'' t = Some 0" using True assms(2) by (cases t) auto
  with assms(1) obtain n where n: "find_template_end t 2 = Some n"
    "validate_expression E (take (n - 2) (drop 2 t)) = Inr ()" "validate_template E (drop (n + 1) t) = Inr ()"
    by (auto simp: validate_template.simps [of E t] Let_def numeral_2_eq_2 [symmetric] try_bind_Inr_iff split: option.splits)
  with t show ?thesis by (auto simp: next_segment_def is_ascii_digit_def byte_def)
next
  case False
  show ?thesis
  proof (cases "2 \<le> length t \<and> is_ascii_digit (t ! 1)")
    case True
    then have "t ! 1 \<noteq> CHR ''$''" by (auto simp: is_ascii_digit_def byte_def)
    with False True have "\<not> starts_with (drop j t) ''${''" if "j < 2" for j
      using that by (cases j) (auto simp: starts_with_dollar less_Suc_eq)
    with validate_template_drop [of 2 t E] True assms(1) show ?thesis by (simp add: next_segment_def)
  next
    case no_digit: False
    with False assms(2,3) have "next_segment t = (SegText ''$'', drop 1 t)"
      by (auto simp: next_segment_def starts_with_dollar)
    moreover have "validate_template E (drop 1 t) = Inr ()"
      using False assms(1) validate_template_drop [of 1 t E] by simp
    ultimately show ?thesis by simp
  qed
qed

lemma validated_segments:
  "validate_template E input = Inr () \<Longrightarrow> SegExpression e \<in> set (segments input) \<Longrightarrow>
     validate_expression E e = Inr ()"
proof (induction input rule: segments.induct)
  case (1 s)
  show ?case
  proof (cases "find_char (\<lambda>c. c = CHR ''$'') s")
    case None
    with "1.prems" show ?thesis by (simp add: segments.simps [of s])
  next
    case (Some i)
    then have i: "i < length s" "s ! i = CHR ''$''" "\<forall>c \<in> set (take i s). c \<noteq> CHR ''$''"
      using find_char_SomeD by blast+
    have before: "\<not> starts_with (drop j s) ''${''" if "j < i" for j
    proof -
      have "s ! j \<in> set (take i s)" using that i(1) by (auto simp: in_set_conv_nth intro!: exI [of _ j])
      with i show ?thesis using that by (auto simp: starts_with_dollar)
    qed
    have valid: "validate_template E (drop i s) = Inr ()"
      using validate_template_drop [of i s E] before "1.prems"(1) by simp
    have "drop i s ! 0 = CHR ''$''" "drop i s \<noteq> []" using i by auto
    with next_segment_valid [OF valid, of e] have
      step: "fst (next_segment (drop i s)) = SegExpression e \<Longrightarrow> validate_expression E e = Inr ()"
        "validate_template E (snd (next_segment (drop i s))) = Inr ()" by auto
    from "1.prems"(2) Some consider "fst (next_segment (drop i s)) = SegExpression e" |
      "SegExpression e \<in> set (segments (snd (next_segment (drop i s))))"
      by (auto simp: segments.simps [of s])
    then show ?thesis using step "1.IH" [OF Some] by cases auto
  qed
qed

text \<open>
  A template that passed validation renders without swallowing an error: every expression
  the renderer finds in it parses, and its regex, if it has one, compiles.
\<close>

theorem validated_expressions:
  assumes "validate_template E input = Inr ()"
  shows "list_all (\<lambda>seg. case seg of SegExpression e \<Rightarrow> validate_expression E e = Inr () | _ \<Rightarrow> True) (segments input)"
  using validated_segments [OF assms] by (auto simp: list_all_iff split: segment.split)

theorem validated_expressions_witness:
  "validate_template demo_ext ''a$1${url.replace(/x/, y)}'' = Inr () \<and>
   list_all (\<lambda>seg. case seg of SegExpression e \<Rightarrow> validate_expression demo_ext e = Inr () | _ \<Rightarrow> True)
     (segments ''a$1${url.replace(/x/, y)}'') \<and>
   SegExpression ''url.replace(/x/, y)'' \<in> set (segments ''a$1${url.replace(/x/, y)}'')"
proof -
  have v: "validate_template demo_ext ''a$1${url.replace(/x/, y)}'' = Inr ()" by code_simp
  have "SegExpression ''url.replace(/x/, y)'' \<in> set (segments ''a$1${url.replace(/x/, y)}'')" by code_simp
  with v validated_expressions [OF v] show ?thesis by blast
qed

end
