(* ===== verification/Rule_Resolve.thy ===== *)
theory Rule_Resolve
  imports Demo_Engine "HOL-Library.Product_Lexorder"
begin

text \<open>
  Resolution (\<open>resolve.rs\<close>, \<open>resolution_api.rs\<close>): the ordered scan of the candidate rules that
  collects the applicable actions under the family rules, and the planner's question
  whether the request body is needed. The reference scan goes over all rules and mentions
  neither the index nor compiled resources; resolution agrees with it.
\<close>

section \<open>Actions without a request body\<close>

fun is_body_delete :: "delete_op \<Rightarrow> bool" where
  "is_body_delete DelReqBody = True"
| "is_body_delete (DelReqBodyPath _) = True"
| "is_body_delete _ = False"

definition action_requires_request_body :: "action \<Rightarrow> bool" where
  "action_requires_request_body a =
     (case a of
        ReqBody _ \<Rightarrow> True
      | Delete operations \<Rightarrow> list_ex is_body_delete operations
      | _ \<Rightarrow> False)"

definition action_for_body_availability :: "action \<Rightarrow> bool \<Rightarrow> action option" where
  "action_for_body_availability a request_body_available =
     (if request_body_available then Some a
      else (case a of
        ReqBody _ \<Rightarrow> None
      | Delete operations \<Rightarrow>
          (let operations = filter (\<lambda>op. \<not> is_body_delete op) operations in
           if operations \<noteq> [] then Some (Delete operations) else None)
      | _ \<Rightarrow> Some a))"

section \<open>The scan\<close>

record resolve_state =
  rst_actions :: "resolved_action list"
  rst_matched_rules :: "matched_rule list"
  rst_seen_rules :: "(string \<times> nat) list"
  rst_single_families :: action_family_set
  rst_skip :: action_family_set

definition resolve_init :: resolve_state where
  "resolve_init =
     \<lparr>rst_actions = [], rst_matched_rules = [], rst_seen_rules = [],
      rst_single_families = FS_EMPTY, rst_skip = FS_EMPTY\<rparr>"

definition resolve_action ::
  "matched_rule \<Rightarrow> captures \<Rightarrow> response_meta option \<Rightarrow> bool \<Rightarrow> resolve_state \<Rightarrow> action \<Rightarrow> resolve_state" where
  "resolve_action brief captures response include_request_body st action =
     (case action_for_body_availability action include_request_body of
        None \<Rightarrow> st
      | Some action \<Rightarrow>
          (let family = family_of action in
           if skip_suppresses (rst_skip st) family then st
           else if is_single action \<and> fs_contains (rst_single_families st) family then st
           else
             (let st = (if is_single action
                        then st\<lparr>rst_single_families := fs_insert (rst_single_families st) family\<rparr>
                        else st);
                  key = (mr_group brief, mr_line brief);
                  st = (if key \<in> set (rst_seen_rules st) then st
                        else st\<lparr>rst_seen_rules := key # rst_seen_rules st,
                                rst_matched_rules := rst_matched_rules st @ [brief]\<rparr>) in
              st\<lparr>rst_skip := skip_observe (rst_skip st) action,
                 rst_actions := rst_actions st @
                   [\<lparr>ra_action = action, ra_rule = brief, ra_captures = captures,
                     ra_response = response\<rparr>]\<rparr>)))"

definition brief_of :: "rule \<Rightarrow> matched_rule" where
  "brief_of r = \<lparr>mr_group = rule_group r, mr_line = rule_line r, mr_raw = rule_raw r\<rparr>"

definition resolve_rule ::
  "ext \<Rightarrow> rule_set \<Rightarrow> request_meta \<Rightarrow> response_meta option \<Rightarrow> bool \<Rightarrow> url_parts option \<Rightarrow>
     resolve_state \<Rightarrow> nat \<Rightarrow> resolve_state" where
  "resolve_rule E rs req res include_request_body parts st idx =
     (let rule = rs_rules rs ! idx;
          resources = compiled_resources (rs_index rs) ! idx in
      if rule_disabled rule then st
      else (case Option.bind parts (\<lambda>url. matches_compiled E (rule_matcher rule) url (req_url req)
                    (compiled_globs (rs_index rs)) (crr_matcher resources)) of
        None \<Rightarrow> st
      | Some captures \<Rightarrow>
          if \<not> include_request_body \<and> list_ex depends_on_request_body (rule_conditions rule) then st
          else
            (let ctx = \<lparr>mc_url = parts, mc_res = res, mc_line = rule_line rule,
                        mc_globs = compiled_globs (rs_index rs),
                        mc_body = compiled_body_literals (rs_index rs), mc_req = req\<rparr> in
             if \<not> list_all (\<lambda>(c, r). matches_with_compiled E c r ctx)
                   (zip (rule_conditions rule) (crr_conditions resources)) then st
             else foldl (resolve_action (brief_of rule) captures res include_request_body)
                    st (rule_actions rule))))"

definition url_ok :: "string \<Rightarrow> url_parts option" where
  "url_ok raw = (case url_parse raw of Inl _ \<Rightarrow> None | Inr url \<Rightarrow> Some url)"

definition resolve_inner ::
  "ext \<Rightarrow> rule_set \<Rightarrow> request_meta \<Rightarrow> response_meta option \<Rightarrow> bool \<Rightarrow> resolve_result" where
  "resolve_inner E rs req res include_request_body =
     (if rs_rules rs = [] then \<lparr>rr_actions = [], rr_matched_rules = []\<rparr>
      else
        (let parts = url_ok (req_url req);
             ordered = sort_key (\<lambda>i. (\<not> rule_important (rs_rules rs ! i), i))
               (candidate_rule_indices E rs parts (req_url req));
             st = foldl (resolve_rule E rs req res include_request_body parts) resolve_init ordered in
         \<lparr>rr_actions = rst_actions st, rr_matched_rules = rst_matched_rules st\<rparr>))"

section \<open>The resolution interface\<close>

definition resolve :: "ext \<Rightarrow> rule_set \<Rightarrow> request_meta \<Rightarrow> resolve_result" where
  "resolve E rs req = resolve_inner E rs req None True"

definition resolve_response :: "ext \<Rightarrow> rule_set \<Rightarrow> request_meta \<Rightarrow> response_meta \<Rightarrow> resolve_result" where
  "resolve_response E rs req res = resolve_inner E rs req (Some res) True"

definition resolve_without_request_body :: "ext \<Rightarrow> rule_set \<Rightarrow> request_meta \<Rightarrow> resolve_result" where
  "resolve_without_request_body E rs req = resolve_inner E rs req None False"

definition resolve_response_without_request_body ::
  "ext \<Rightarrow> rule_set \<Rightarrow> request_meta \<Rightarrow> response_meta \<Rightarrow> resolve_result" where
  "resolve_response_without_request_body E rs req res = resolve_inner E rs req (Some res) False"

definition request_body_required :: "ext \<Rightarrow> rule_set \<Rightarrow> request_meta \<Rightarrow> bool" where
  "request_body_required E rs req =
     (let parts = url_ok (req_url req);
          resources = (\<lambda>i. compiled_resources (rs_index rs) ! i);
          candidates = filter (\<lambda>i. \<not> rule_disabled (rs_rules rs ! i))
            (candidate_rule_indices E rs parts (req_url req));
          candidates = filter (\<lambda>i. Option.bind parts (\<lambda>url.
              matches_compiled E (rule_matcher (rs_rules rs ! i)) url (req_url req)
                (compiled_globs (rs_index rs)) (crr_matcher (resources i))) \<noteq> None) candidates;
          candidates = filter (\<lambda>i.
              list_all (\<lambda>(c, r). may_match_before_request_body E c r
                  \<lparr>mc_url = parts, mc_res = None, mc_line = rule_line (rs_rules rs ! i),
                   mc_globs = compiled_globs (rs_index rs),
                   mc_body = compiled_body_literals (rs_index rs), mc_req = req\<rparr>)
                (zip (rule_conditions (rs_rules rs ! i)) (crr_conditions (resources i)))) candidates in
      list_ex (\<lambda>i. list_ex depends_on_request_body (rule_conditions (rs_rules rs ! i)) \<or>
                   list_ex action_requires_request_body (rule_actions (rs_rules rs ! i))) candidates)"

section \<open>The reference scan\<close>

definition spec_context_of ::
  "request_meta \<Rightarrow> response_meta option \<Rightarrow> rule \<Rightarrow> spec_context" where
  "spec_context_of req res r =
     \<lparr>sc_url = url_ok (req_url req), sc_res = res, sc_line = rule_line r, sc_req = req\<rparr>"

definition rule_captures :: "ext \<Rightarrow> request_meta \<Rightarrow> rule \<Rightarrow> captures option" where
  "rule_captures E req r =
     Option.bind (url_ok (req_url req)) (\<lambda>url. matcher_spec E (rule_matcher r) url (req_url req))"

definition rule_applies ::
  "ext \<Rightarrow> request_meta \<Rightarrow> response_meta option \<Rightarrow> bool \<Rightarrow> rule \<Rightarrow> bool" where
  "rule_applies E req res include_body r \<longleftrightarrow>
     \<not> rule_disabled r \<and> rule_captures E req r \<noteq> None \<and>
     (include_body \<or> \<not> list_ex depends_on_request_body (rule_conditions r)) \<and>
     (\<forall>c \<in> set (rule_conditions r). condition_spec E (spec_context_of req res r) c)"

definition apply_rule ::
  "ext \<Rightarrow> request_meta \<Rightarrow> response_meta option \<Rightarrow> bool \<Rightarrow> resolve_state \<Rightarrow> rule \<Rightarrow> resolve_state" where
  "apply_rule E req res include_body st r =
     (case rule_captures E req r of
        None \<Rightarrow> st
      | Some captures \<Rightarrow>
          foldl (resolve_action (brief_of r) captures res include_body) st (rule_actions r))"

text \<open>All rules, the important ones first, each group in source order.\<close>

definition rule_order :: "rule list \<Rightarrow> rule list" where
  "rule_order rules = filter rule_important rules @ filter (\<lambda>r. \<not> rule_important r) rules"

definition resolve_spec ::
  "ext \<Rightarrow> rule list \<Rightarrow> request_meta \<Rightarrow> response_meta option \<Rightarrow> bool \<Rightarrow> resolve_result" where
  "resolve_spec E rules req res include_body =
     (let st = foldl (apply_rule E req res include_body) resolve_init
                 (filter (rule_applies E req res include_body) (rule_order rules)) in
      \<lparr>rr_actions = rst_actions st, rr_matched_rules = rst_matched_rules st\<rparr>)"

section \<open>Candidate filters as an interface\<close>

locale candidate_filter =
  fixes ok :: "'q \<Rightarrow> bool" and rules :: "'q \<Rightarrow> 'r list" and cands :: "'q \<Rightarrow> nat list"
    and accepts :: "'q \<Rightarrow> 'r \<Rightarrow> bool" and first :: "'r \<Rightarrow> bool"
  assumes complete: "ok q \<Longrightarrow> i < length (rules q) \<Longrightarrow> accepts q (rules q ! i) \<Longrightarrow> i \<in> set (cands q)"
    and in_range: "ok q \<Longrightarrow> i \<in> set (cands q) \<Longrightarrow> i < length (rules q)"
    and no_duplicates: "distinct (cands q)"
begin

lemma sort_cands:
  "sort_key (\<lambda>i. (\<not> first (rules q ! i), i)) (cands q) = flag_sorted (\<lambda>i. first (rules q ! i)) (set (cands q))"
proof (rule map_sorted_distinct_set_unique [where f = "\<lambda>i. (\<not> first (rules q ! i), i)"])
  let ?f = "\<lambda>i. (\<not> first (rules q ! i), i)"
  show "inj_on ?f (set (sort_key ?f (cands q)) \<union> set (flag_sorted (\<lambda>i. first (rules q ! i)) (set (cands q))))"
    by (auto simp: inj_on_def)
  show "sorted (map ?f (sort_key ?f (cands q)))" by simp
  show "distinct (map ?f (sort_key ?f (cands q)))"
    using no_duplicates by (auto simp: distinct_map inj_on_def)
  have "sorted (map ?f (sorted_list_of_set {i \<in> set (cands q). P i}))"
    if "\<And>i. P i \<Longrightarrow> first (rules q ! i) = b" for P b
  proof -
    have "map ?f (sorted_list_of_set {i \<in> set (cands q). P i}) =
      map (Pair (\<not> b)) (sorted_list_of_set {i \<in> set (cands q). P i})" using that by simp
    moreover have "sorted (map (Pair (\<not> b)) (sorted_list_of_set A))" for A :: "nat set"
      using sorted_sorted_list_of_set [of A] by (simp add: sorted_map)
    ultimately show ?thesis by (simp only:)
  qed
  from this [of "\<lambda>i. first (rules q ! i)" True] this [of "\<lambda>i. \<not> first (rules q ! i)" False]
  show "sorted (map ?f (flag_sorted (\<lambda>i. first (rules q ! i)) (set (cands q))))"
    by (auto simp: flag_sorted_def sorted_append less_eq_prod_def)
  show "distinct (map ?f (flag_sorted (\<lambda>i. first (rules q ! i)) (set (cands q))))"
    using distinct_flag_sorted [of "set (cands q)"] by (auto simp: distinct_map inj_on_def)
qed simp

lemma filter_indices:
  "map ((!) xs) (sorted_list_of_set {i. i < length xs \<and> P (xs ! i)}) = filter P xs"
proof -
  have "sorted_list_of_set {i. i < length xs \<and> P (xs ! i)} = filter (\<lambda>i. P (xs ! i)) [0..<length xs]"
    by (rule sorted_distinct_set_unique) (auto intro: sorted_wrt_filter)
  then show ?thesis by (metis (no_types, lifting) comp_apply filter_cong filter_map map_nth)
qed

lemma accepted_in_order:
  assumes "ok q"
  shows "map ((!) (rules q)) (filter (\<lambda>i. accepts q (rules q ! i))
      (sort_key (\<lambda>i. (\<not> first (rules q ! i), i)) (cands q))) =
    filter (accepts q) (filter first (rules q) @ filter (\<lambda>r. \<not> first r) (rules q))"
proof -
  have sets: "{j \<in> {i \<in> set (cands q). accepts q (rules q ! i)}. P (rules q ! j)} =
      {i. i < length (rules q) \<and> (P (rules q ! i) \<and> accepts q (rules q ! i))}" for P
    using complete [OF assms] in_range [OF assms] by auto
  show ?thesis
    unfolding sort_cands filter_flag_sorted [OF finite_set]
    unfolding flag_sorted_def sets map_append
    using sets [of first] sets [of "\<lambda>r. \<not> first r"]
    by (simp add: filter_indices [of _ "\<lambda>r. first r \<and> accepts q r"]
        filter_indices [of _ "\<lambda>r. \<not> first r \<and> accepts q r"] conj_commute)
qed

end


section \<open>Resolution is the reference scan\<close>

definition engines_ok :: "ext \<Rightarrow> bool" where
  "engines_ok E \<longleftrightarrow> ac_exact E \<and> regex_hir_sound E"

interpretation scan: candidate_filter
  "\<lambda>(E, rs, req). indexed E rs \<and> engines_ok E"
  "\<lambda>(E, rs, req). rs_rules rs"
  "\<lambda>(E, rs, req). candidate_rule_indices E rs (url_ok (req_url req)) (req_url req)"
  "\<lambda>(E, rs, req) r. rule_captures E req r \<noteq> None"
  rule_important
proof (unfold_locales, goal_cases)
  case (1 q i)
  obtain E rs req where q: "q = (E, rs, req)" by (cases q)
  show ?case
  proof (cases "url_ok (req_url req)")
    case None
    with 1 show ?thesis by (simp add: q rule_captures_def)
  next
    case (Some url)
    with 1 show ?thesis by (auto simp: q rule_captures_def engines_ok_def intro: candidates_complete)
  qed
next
  case (2 q i)
  then show ?case by (auto intro: candidates_in_range)
next
  case (3 q)
  then show ?case by (cases q) (simp add: candidates_distinct)
qed

lemma indexed_keys_bound:
  assumes "indexed E rs" "r \<in> set (rs_rules rs)"
  shows "keys_bound E (compiled_globs (rs_index rs)) (rule_keys r)"
proof -
  from assms(1) have "cgs_build E (rs_rules rs) = Some (compiled_globs (rs_index rs))"
    by (rule indexed_fields)
  from cgs_build_registers(2) [OF this] assms(2) show ?thesis
    by (fastforce simp: keys_bound_def id_denotes_def)
qed

lemma indexed_resources:
  assumes "indexed E rs" "i < length (rs_rules rs)"
  defines "g \<equiv> compiled_globs (rs_index rs)" and "b \<equiv> compiled_body_literals (rs_index rs)"
    and "x \<equiv> compiled_resources (rs_index rs) ! i"
  shows "crr_matcher x = bind_matcher_resources (rule_matcher (rs_rules rs ! i)) g"
    and "list_all2 (\<lambda>c y. bind_condition_resources c g b = Some y)
      (rule_conditions (rs_rules rs ! i)) (crr_conditions x)"
proof -
  from assms(1) have "those (map (bind_rule_resources g b) (rs_rules rs)) = Some (compiled_resources (rs_index rs))"
    unfolding g_def b_def by (rule indexed_fields)
  with assms(2) have "bind_rule_resources g b (rs_rules rs ! i) = Some x"
    by (auto simp: those_map_Some_iff list_all2_conv_all_nth x_def)
  then obtain cs where "x = \<lparr>crr_matcher = bind_matcher_resources (rule_matcher (rs_rules rs ! i)) g, crr_conditions = cs\<rparr>"
    "list_all2 (\<lambda>c y. bind_condition_resources c g b = Some y) (rule_conditions (rs_rules rs ! i)) cs"
    by (auto simp: bind_rule_resources_def those_map_Some_iff)
  then show "crr_matcher x = bind_matcher_resources (rule_matcher (rs_rules rs ! i)) g"
    "list_all2 (\<lambda>c y. bind_condition_resources c g b = Some y) (rule_conditions (rs_rules rs ! i)) (crr_conditions x)"
    by simp_all
qed

lemma keys_bound_concat:
  "keys_bound E g (concat kss) \<longleftrightarrow> (\<forall>ks \<in> set kss. keys_bound E g ks)"
  by (auto simp: keys_bound_def)

lemma indexed_rule_match:
  assumes "indexed E rs" "ac_exact E" "i < length (rs_rules rs)"
  defines "r \<equiv> rs_rules rs ! i" and "x \<equiv> compiled_resources (rs_index rs) ! i"
  shows "matches_compiled E (rule_matcher r) url raw (compiled_globs (rs_index rs)) (crr_matcher x) =
      matcher_spec E (rule_matcher r) url raw"
    and "mc_globs ctx = compiled_globs (rs_index rs) \<Longrightarrow> mc_body ctx = compiled_body_literals (rs_index rs) \<Longrightarrow>
      list_all (\<lambda>(c, r). matches_with_compiled E c r ctx) (zip (rule_conditions r) (crr_conditions x)) \<longleftrightarrow>
      (\<forall>c \<in> set (rule_conditions r). condition_spec E (spec_of ctx) c)"
proof -
  let ?g = "compiled_globs (rs_index rs)" and ?b = "compiled_body_literals (rs_index rs)"
  have r: "r \<in> set (rs_rules rs)" using assms(3) by (simp add: r_def)
  note keys = indexed_keys_bound [OF assms(1) r, unfolded rule_keys_def keys_bound_append keys_bound_concat]
  note m = indexed_resources(1) [OF assms(1,3), folded r_def x_def]
  note c = indexed_resources(2) [OF assms(1,3), folded r_def x_def]
  show "matches_compiled E (rule_matcher r) url raw ?g (crr_matcher x) = matcher_spec E (rule_matcher r) url raw"
    using keys by (simp add: m matches_compiled_spec)
  from assms(1) have "cbs_build E (rs_rules rs) = Some ?b" by (rule indexed_fields)
  then obtain source where b: "cbs_from_literals E source = Some ?b" by (auto simp: cbs_build_def)
  assume ctx: "mc_globs ctx = ?g" "mc_body ctx = ?b"
  show "list_all (\<lambda>(c, r). matches_with_compiled E c r ctx) (zip (rule_conditions r) (crr_conditions x)) \<longleftrightarrow>
      (\<forall>c \<in> set (rule_conditions r). condition_spec E (spec_of ctx) c)"
    by (rule list_all2_zip_ex(2) [OF c], rule matches_with_compiled_spec [OF assms(2)])
       (use b keys in \<open>auto simp: ctx\<close>)
qed

lemma resolve_rule_spec:
  assumes "indexed E rs" "engines_ok E" "i < length (rs_rules rs)"
  shows "resolve_rule E rs req res incl (url_ok (req_url req)) st i =
    (if rule_applies E req res incl (rs_rules rs ! i) then apply_rule E req res incl st (rs_rules rs ! i) else st)"
proof -
  have ac: "ac_exact E" using assms(2) by (simp add: engines_ok_def)
  note m = indexed_rule_match [OF assms(1) ac assms(3)]
  let ?r = "rs_rules rs ! i"
  have captures: "Option.bind (url_ok (req_url req)) (\<lambda>url. matches_compiled E (rule_matcher ?r) url (req_url req)
      (compiled_globs (rs_index rs)) (crr_matcher (compiled_resources (rs_index rs) ! i))) =
    rule_captures E req ?r"
    by (simp add: rule_captures_def m(1))
  have ctx_eq: "spec_of \<lparr>mc_url = url_ok (req_url req), mc_res = res, mc_line = rule_line ?r,
      mc_globs = compiled_globs (rs_index rs), mc_body = compiled_body_literals (rs_index rs), mc_req = req\<rparr> =
    spec_context_of req res ?r"
    by (simp add: spec_of_def spec_context_of_def)
  show ?thesis
    unfolding resolve_rule_def Let_def captures
    by (auto simp: m(2) ctx_eq rule_applies_def apply_rule_def split: option.splits)
qed

lemma foldl_if: "foldl (\<lambda>s x. if P x then f s x else s) s xs = foldl f s (filter P xs)"
  by (induction xs arbitrary: s) auto

lemma foldl_cong_on: "(\<And>s x. x \<in> set xs \<Longrightarrow> f s x = g s x) \<Longrightarrow> foldl f s xs = foldl g s xs"
  by (induction xs arbitrary: s) auto

lemma resolve_inner_reference:
  assumes "indexed E rs" "engines_ok E"
  shows "resolve_inner E rs req res incl = resolve_spec E (rs_rules rs) req res incl"
proof (cases "rs_rules rs = []")
  case True
  then show ?thesis
    by (simp add: resolve_inner_def resolve_spec_def rule_order_def resolve_init_def)
next
  case False
  let ?order = "sort_key (\<lambda>i. (\<not> rule_important (rs_rules rs ! i), i))
    (candidate_rule_indices E rs (url_ok (req_url req)) (req_url req))"
  let ?accepts = "\<lambda>r. rule_captures E req r \<noteq> None"
  have "foldl (resolve_rule E rs req res incl (url_ok (req_url req))) resolve_init ?order =
    foldl (\<lambda>st i. if rule_applies E req res incl (rs_rules rs ! i)
      then apply_rule E req res incl st (rs_rules rs ! i) else st) resolve_init ?order"
    by (rule foldl_cong_on) (simp add: resolve_rule_spec [OF assms] candidates_in_range [OF assms(1)])
  also have "\<dots> = foldl (apply_rule E req res incl) resolve_init
      (filter (rule_applies E req res incl) (map ((!) (rs_rules rs)) (filter (\<lambda>i. ?accepts (rs_rules rs ! i)) ?order)))"
    by (simp add: foldl_if filter_map comp_def foldl_map)
       (simp add: rule_applies_def conj_comms cong: conj_cong)
  also have "map ((!) (rs_rules rs)) (filter (\<lambda>i. ?accepts (rs_rules rs ! i)) ?order) =
      filter ?accepts (rule_order (rs_rules rs))"
    using scan.accepted_in_order [of "(E, rs, req)"] assms by (simp add: rule_order_def)
  also have "filter (rule_applies E req res incl) (filter ?accepts (rule_order (rs_rules rs))) =
      filter (rule_applies E req res incl) (rule_order (rs_rules rs))"
    by (auto simp: rule_applies_def intro: filter_cong)
  finally show ?thesis using False by (simp add: resolve_inner_def resolve_spec_def Let_def)
qed

text \<open>
  C1: resolution through the index, the compiled glob programs, the multi-pattern body scan
  and the candidate prefilter gives exactly the result of scanning every rule of the
  snapshot in order, important rules first, with each matcher and condition evaluated from
  its definition: actions, their order, their captures, and the matched rules.
\<close>

theorem resolve_inner_spec:
  assumes "indexed E rs" "engines_ok E"
  shows "resolve_inner E rs req res incl = resolve_spec E (rs_rules rs) req res incl"
  using assms by (rule resolve_inner_reference)

lemma demo_engines_ok: "engines_ok demo_ext"
  by (simp add: engines_ok_def demo_ac_exact demo_regex_hir_sound)

theorem resolve_inner_spec_witness:
  "resolve_inner demo_ext (demo_set demo_rules) (demo_request ''http://a.example.com/api'' ''Token'') None True =
     resolve_spec demo_ext demo_rules (demo_request ''http://a.example.com/api'' ''Token'') None True \<and>
   indexed demo_ext (demo_set demo_rules) \<and> engines_ok demo_ext"
  using resolve_inner_spec [OF demo_rules_indexed demo_engines_ok] demo_rules_indexed demo_engines_ok
  by (simp add: demo_set_def)

section \<open>The family rules\<close>

text \<open>Every step of the scan keeps a property, so the result has it.\<close>

lemma resolve_invariant:
  assumes "P resolve_init"
    and step: "\<And>st brief caps a. P st \<Longrightarrow> P (resolve_action brief caps res incl st a)"
  shows "\<exists>st. P st \<and> resolve_inner E rs req res incl =
    \<lparr>rr_actions = rst_actions st, rr_matched_rules = rst_matched_rules st\<rparr>"
proof (cases "rs_rules rs = []")
  case True
  then show ?thesis
    using assms(1) by (auto simp: resolve_inner_def resolve_init_def intro!: exI [of _ resolve_init])
next
  case False
  have actions: "P st \<Longrightarrow> P (foldl (resolve_action brief caps res incl) st as)" for st brief caps as
    by (induction as arbitrary: st) (auto intro: step)
  have rule: "P st \<Longrightarrow> P (resolve_rule E rs req res incl parts st i)" for st parts i
  proof -
    have if_P: "P x \<Longrightarrow> P y \<Longrightarrow> P (if b then x else y)" for b x y by simp
    have case_P: "P x \<Longrightarrow> (\<And>c. P (f c)) \<Longrightarrow> P (case z of None \<Rightarrow> x | Some c \<Rightarrow> f c)"
      for x f and z :: "captures option" by (cases z) simp_all
    show "P st \<Longrightarrow> P (resolve_rule E rs req res incl parts st i)"
      unfolding resolve_rule_def Let_def by (intro if_P case_P actions)
  qed
  have "P st \<Longrightarrow> P (foldl (resolve_rule E rs req res incl parts) st is)" for st parts "is"
    by (induction "is" arbitrary: st) (auto intro: rule)
  with assms(1) False show ?thesis by (auto simp: resolve_inner_def Let_def)
qed

lemma resolve_action_cases:
  obtains (skipped) "resolve_action brief caps res incl st a = st"
  | (kept) b where "action_for_body_availability a incl = Some b"
      "\<not> fs_contains (rst_skip st) (family_of b)"
      "\<not> (is_single b \<and> fs_contains (rst_single_families st) (family_of b))"
      "rst_actions (resolve_action brief caps res incl st a) = rst_actions st @
         [\<lparr>ra_action = b, ra_rule = brief, ra_captures = caps, ra_response = res\<rparr>]"
      "rst_skip (resolve_action brief caps res incl st a) = skip_observe (rst_skip st) b"
      "rst_single_families (resolve_action brief caps res incl st a) =
         (if is_single b then fs_insert (rst_single_families st) (family_of b) else rst_single_families st)"
      "rst_seen_rules (resolve_action brief caps res incl st a) =
         (if (mr_group brief, mr_line brief) \<in> set (rst_seen_rules st) then rst_seen_rules st
          else (mr_group brief, mr_line brief) # rst_seen_rules st)"
      "rst_matched_rules (resolve_action brief caps res incl st a) =
         (if (mr_group brief, mr_line brief) \<in> set (rst_seen_rules st) then rst_matched_rules st
          else rst_matched_rules st @ [brief])"
proof (cases "action_for_body_availability a incl")
  case None
  then show thesis by (intro skipped) (simp add: resolve_action_def)
next
  case (Some b)
  show thesis
  proof (cases "fs_contains (rst_skip st) (family_of b) \<or>
      is_single b \<and> fs_contains (rst_single_families st) (family_of b)")
    case True
    with Some show thesis by (intro skipped) (auto simp: resolve_action_def skip_suppresses_def Let_def)
  next
    case False
    with Some show thesis
      by (intro kept [of b]) (simp_all add: resolve_action_def skip_suppresses_def Let_def)
  qed
qed

text \<open>
  A family with the first-wins policy contributes at most one action to a resolution,
  in both phases, with and without the request body.
\<close>

theorem single_families_once:
  "distinct (map (\<lambda>r. family_of (ra_action r))
     (filter (\<lambda>r. is_single (ra_action r)) (rr_actions (resolve_inner E rs req res incl))))"
proof -
  define P where "P st \<longleftrightarrow>
      distinct (map (\<lambda>r. family_of (ra_action r)) (filter (\<lambda>r. is_single (ra_action r)) (rst_actions st))) \<and>
      (\<forall>r \<in> set (rst_actions st). is_single (ra_action r) \<longrightarrow>
         fs_contains (rst_single_families st) (family_of (ra_action r)))" for st :: resolve_state
  have "\<exists>st. P st \<and> resolve_inner E rs req res incl =
    \<lparr>rr_actions = rst_actions st, rr_matched_rules = rst_matched_rules st\<rparr>"
  proof (rule resolve_invariant)
    show "P resolve_init" by (simp add: P_def resolve_init_def)
  next
    fix st brief caps a
    assume P: "P st"
    show "P (resolve_action brief caps res incl st a)"
    proof (cases rule: resolve_action_cases [of brief caps res incl st a])
      case skipped
      with P show ?thesis by simp
    next
      case (kept b)
      have "fs_contains (if is_single b then fs_insert (rst_single_families st) (family_of b)
          else rst_single_families st) f \<longleftrightarrow>
        fs_contains (rst_single_families st) f \<or> is_single b \<and> f = family_of b" for f
        by (auto simp: fs.mem_iff fs.elems_ins)
      with P kept(3) show ?thesis unfolding P_def kept(4,6) by auto
    qed
  qed
  then show ?thesis by (auto simp: P_def)
qed

definition skip_allows :: "action \<Rightarrow> action \<Rightarrow> bool" where
  "skip_allows a b =
     (case a of Skip families \<Rightarrow> \<not> fs_is_empty families \<and> \<not> fs_contains families (family_of b) | _ \<Rightarrow> True)"

lemma fs_contains_observe:
  "fs_contains skip f \<Longrightarrow> fs_contains (skip_observe skip a) f"
  "a = Skip families \<Longrightarrow> fs_is_empty families \<or> fs_contains families f \<Longrightarrow> fs_contains (skip_observe skip a) f"
  by (auto simp: skip_observe_def fs.mem_iff fs.elems_un fs.elems_full split: action.splits)

text \<open>
  C35: a \<open>skip\<close> action in the result suppresses every later action of a family it names, and
  an empty \<open>skip\<close> every later action.
\<close>

theorem skip_suppresses_later:
  "sorted_wrt skip_allows (map ra_action (rr_actions (resolve_inner E rs req res incl)))"
proof -
  define P where "P st \<longleftrightarrow> sorted_wrt skip_allows (map ra_action (rst_actions st)) \<and>
      (\<forall>a \<in> set (map ra_action (rst_actions st)). \<forall>b.
         \<not> fs_contains (rst_skip st) (family_of b) \<longrightarrow> skip_allows a b)" for st :: resolve_state
  have "\<exists>st. P st \<and> resolve_inner E rs req res incl =
    \<lparr>rr_actions = rst_actions st, rr_matched_rules = rst_matched_rules st\<rparr>"
  proof (rule resolve_invariant)
    show "P resolve_init" by (simp add: P_def resolve_init_def)
  next
    fix st brief caps a
    assume P: "P st"
    show "P (resolve_action brief caps res incl st a)"
    proof (cases rule: resolve_action_cases [of brief caps res incl st a])
      case skipped
      with P show ?thesis by simp
    next
      case (kept b)
      have "skip_allows b c" if "\<not> fs_contains (skip_observe (rst_skip st) b) (family_of c)" for c
        using that fs_contains_observe(2) [of b] by (auto simp: skip_allows_def split: action.splits)
      moreover have "skip_allows d c"
        if "d \<in> set (map ra_action (rst_actions st))" "\<not> fs_contains (skip_observe (rst_skip st) b) (family_of c)" for c d
        using that fs_contains_observe(1) [of "rst_skip st" _ b] P by (auto simp: P_def)
      ultimately show ?thesis
        using P kept(2) unfolding P_def kept(4,5) by (auto simp: sorted_wrt_append)
    qed
  qed
  then show ?thesis by (auto simp: P_def)
qed

definition rule_key :: "matched_rule \<Rightarrow> string \<times> nat" where
  "rule_key m = (mr_group m, mr_line m)"

text \<open>
  The matched rules are the source rules of the returned actions, each rule (identified
  by its group and line) once, in the order of its first action.
\<close>

theorem matched_rules_provenance:
  "map rule_key (rr_matched_rules (resolve_inner E rs req res incl)) =
     dedup_onto [] (map (\<lambda>r. rule_key (ra_rule r)) (rr_actions (resolve_inner E rs req res incl)))"
proof -
  define P where "P st \<longleftrightarrow>
      map rule_key (rst_matched_rules st) = dedup_onto [] (map (\<lambda>r. rule_key (ra_rule r)) (rst_actions st)) \<and>
      set (rst_seen_rules st) = set (map (\<lambda>r. rule_key (ra_rule r)) (rst_actions st))" for st :: resolve_state
  have snoc: "dedup_onto [] (xs @ [x]) = push_unique (dedup_onto [] xs) x" for xs :: "(string \<times> nat) list" and x
    by (simp add: dedup_onto_def)
  have "\<exists>st. P st \<and> resolve_inner E rs req res incl =
    \<lparr>rr_actions = rst_actions st, rr_matched_rules = rst_matched_rules st\<rparr>"
  proof (rule resolve_invariant)
    show "P resolve_init" by (simp add: P_def resolve_init_def)
  next
    fix st brief caps a
    assume P: "P st"
    show "P (resolve_action brief caps res incl st a)"
    proof (cases rule: resolve_action_cases [of brief caps res incl st a])
      case skipped
      with P show ?thesis by simp
    next
      case (kept b)
      with P show ?thesis
        unfolding P_def kept(4,7,8) by (auto simp: snoc push_unique_def rule_key_def)
    qed
  qed
  then show ?thesis by (auto simp: P_def)
qed

section \<open>When the request body is not required\<close>

lemma rule_captures_body [simp]: "rule_captures E (req\<lparr>req_body := b\<rparr>) r = rule_captures E req r"
  by (simp add: rule_captures_def)

lemma chance_body [simp]: "chance (req\<lparr>req_body := b\<rparr>) line p = chance req line p"
  by (simp add: chance_def chance_hash_def)

lemma condition_spec_body:
  "\<not> depends_on_request_body c \<Longrightarrow>
     condition_spec E (x\<lparr>sc_req := (sc_req x)\<lparr>req_body := b\<rparr>\<rparr>) c = condition_spec E x c"
proof (induction c)
  case (CUrl u)
  then show ?case by (cases u) auto
qed (auto simp: list_ex_iff)

lemma condition_spec_response:
  "\<not> depends_on_response c \<Longrightarrow> condition_spec E (x\<lparr>sc_res := res\<rparr>) c = condition_spec E x c"
proof (induction c)
  case (CUrl u)
  then show ?case by (cases u) auto
qed (auto simp: list_ex_iff)

lemma list_all2_zip_member:
  "list_all2 R xs ys \<Longrightarrow> x \<in> set xs \<Longrightarrow> \<exists>y. (x, y) \<in> set (zip xs ys) \<and> R x y"
  by (induction rule: list_all2_induct) auto

lemma may_match_complete:
  assumes "ac_exact E" "cbs_from_literals E source = Some (mc_body ctx)"
  shows "keys_bound E (mc_globs ctx) (condition_keys c) \<Longrightarrow>
    bind_condition_resources c (mc_globs ctx) (mc_body ctx) = Some r \<Longrightarrow>
    condition_spec E (spec_of ctx\<lparr>sc_res := res, sc_req := (mc_req ctx)\<lparr>req_body := b\<rparr>\<rparr>) c \<Longrightarrow>
    may_match_before_request_body E c r ctx"
proof (induction c arbitrary: r)
  case (CAny cs)
  then obtain rs where rs: "r = ChildrenResources rs"
    "list_all2 (\<lambda>c r. bind_condition_resources c (mc_globs ctx) (mc_body ctx) = Some r) cs rs"
    by (auto simp: those_map_Some_iff)
  from CAny.prems(3) obtain c where c: "c \<in> set cs"
    "condition_spec E (spec_of ctx\<lparr>sc_res := res, sc_req := (mc_req ctx)\<lparr>req_body := b\<rparr>\<rparr>) c" by auto
  then obtain r' where "(c, r') \<in> set (zip cs rs)" "bind_condition_resources c (mc_globs ctx) (mc_body ctx) = Some r'"
    using list_all2_zip_member [OF rs(2)] by blast
  with CAny.IH [OF c(1) keys_bound_children(1) [OF CAny.prems(1) c(1)] _ c(2)] show ?case
    by (subst may_match_before_request_body.simps) (auto simp: rs(1) list_ex_iff)
next
  case (CAll cs)
  then obtain rs where rs: "r = ChildrenResources rs"
    "list_all2 (\<lambda>c r. bind_condition_resources c (mc_globs ctx) (mc_body ctx) = Some r) cs rs"
    by (auto simp: those_map_Some_iff)
  have "may_match_before_request_body E c r' ctx" if "(c, r') \<in> set (zip cs rs)" for c r'
  proof -
    from that have c: "c \<in> set cs" by (rule set_zip_leftD)
    moreover have "bind_condition_resources c (mc_globs ctx) (mc_body ctx) = Some r'"
      using that rs(2) by (auto simp: list_all2_iff)
    ultimately show ?thesis
      using CAll.IH keys_bound_children(2) [OF CAll.prems(1)] CAll.prems(3) by simp
  qed
  then show ?case
    by (subst may_match_before_request_body.simps) (auto simp: rs(1) list_all_iff)
next
  case (CNot c)
  show ?case
  proof (cases "depends_on_request_body c \<or> depends_on_response c")
    case True
    then show ?thesis by (simp add: may_match_before_request_body.simps)
  next
    case False
    then have "condition_spec E (spec_of ctx) (CNot c)"
      using CNot.prems(3) condition_spec_body [of "CNot c" E b "spec_of ctx\<lparr>sc_res := res\<rparr>"]
        condition_spec_response [of "CNot c" E res "spec_of ctx"]
      by (simp add: spec_of_def)
    with matches_with_compiled_spec [OF assms CNot.prems(1,2)] False show ?thesis
      by (subst may_match_before_request_body.simps) simp
  qed
qed (use matches_with_compiled_spec [OF assms] condition_spec_body [of _ E b "spec_of ctx\<lparr>sc_res := res\<rparr>"]
       condition_spec_response [of _ E res "spec_of ctx"] in
     \<open>simp add: may_match_before_request_body.simps spec_of_def del: matches_with_compiled.simps condition_spec.simps\<close>)+


lemma action_available:
  "\<not> action_requires_request_body a \<Longrightarrow> a \<noteq> Delete [] \<Longrightarrow> action_for_body_availability a incl = Some a"
  by (auto simp: action_requires_request_body_def action_for_body_availability_def Let_def list_ex_iff
      filter_id_conv split: action.splits)

lemma request_body_required_iff:
  assumes "indexed E rs" "engines_ok E" "\<not> request_body_required E rs req"
    and r: "r \<in> set (rs_rules rs)" "\<not> rule_disabled r" "rule_captures E req r \<noteq> None"
    and conds: "\<forall>c \<in> set (rule_conditions r).
      condition_spec E (spec_context_of (req\<lparr>req_body := b\<rparr>) res r) c"
  shows "\<not> list_ex depends_on_request_body (rule_conditions r) \<and>
    \<not> list_ex action_requires_request_body (rule_actions r)"
proof -
  have ac: "ac_exact E" using assms(2) by (simp add: engines_ok_def)
  from r(1) obtain i where i: "i < length (rs_rules rs)" "rs_rules rs ! i = r" by (auto simp: in_set_conv_nth)
  let ?ctx = "\<lparr>mc_url = url_ok (req_url req), mc_res = None, mc_line = rule_line r,
    mc_globs = compiled_globs (rs_index rs), mc_body = compiled_body_literals (rs_index rs), mc_req = req\<rparr>"
  let ?x = "compiled_resources (rs_index rs) ! i"
  have cand: "i \<in> set (candidate_rule_indices E rs (url_ok (req_url req)) (req_url req))"
    using scan.complete [of "(E, rs, req)" i] assms(1,2) i r(3) by simp
  have m: "Option.bind (url_ok (req_url req)) (\<lambda>url. matches_compiled E (rule_matcher r) url (req_url req)
      (compiled_globs (rs_index rs)) (crr_matcher ?x)) \<noteq> None"
    using r(3) indexed_rule_match(1) [OF assms(1) ac i(1)] i(2) by (simp add: rule_captures_def)
  from assms(1) have "cbs_build E (rs_rules rs) = Some (compiled_body_literals (rs_index rs))"
    by (rule indexed_fields)
  then obtain source where src: "cbs_from_literals E source = Some (mc_body ?ctx)" by (auto simp: cbs_build_def)
  have keys: "keys_bound E (mc_globs ?ctx) (condition_keys c)" if "c \<in> set (rule_conditions r)" for c
    using indexed_keys_bound [OF assms(1) r(1)] that by (auto simp: rule_keys_def keys_bound_concat)
  have bound: "list_all2 (\<lambda>c y. bind_condition_resources c (mc_globs ?ctx) (mc_body ?ctx) = Some y)
      (rule_conditions r) (crr_conditions ?x)"
    using indexed_resources(2) [OF assms(1) i(1)] i(2) by simp
  have spec: "spec_of ?ctx\<lparr>sc_res := res, sc_req := (mc_req ?ctx)\<lparr>req_body := b\<rparr>\<rparr> =
      spec_context_of (req\<lparr>req_body := b\<rparr>) res r"
    by (simp add: spec_of_def spec_context_of_def)
  have may: "list_all (\<lambda>(c, y). may_match_before_request_body E c y ?ctx)
      (zip (rule_conditions r) (crr_conditions ?x))"
  proof (clarsimp simp: list_all_iff)
    fix c y assume z: "(c, y) \<in> set (zip (rule_conditions r) (crr_conditions ?x))"
    then have c: "c \<in> set (rule_conditions r)" by (rule set_zip_leftD)
    from z bound have "bind_condition_resources c (mc_globs ?ctx) (mc_body ?ctx) = Some y"
      by (auto simp: list_all2_iff)
    from may_match_complete [OF ac src keys [OF c] this, of b res, unfolded spec] conds c
    show "may_match_before_request_body E c y ?ctx" by blast
  qed
  from assms(3) cand m may r(2) i(2) show ?thesis
    unfolding request_body_required_def Let_def by (auto simp: list_ex_iff)
qed

text \<open>
  When the planner reports that the request body is not required, resolving in either phase
  with any body gives what resolving without the body gives, so the proxy need not buffer it.
  The rules may be any whose \<open>delete\<close> actions have an operation, as the parser's do.
\<close>

lemma request_body_irrelevant:
  assumes "indexed E rs" "engines_ok E"
    and "\<forall>r \<in> set (rs_rules rs). Delete [] \<notin> set (rule_actions r)"
    and "\<not> request_body_required E rs req"
  shows "resolve_inner E rs (req\<lparr>req_body := b\<rparr>) res True = resolve_inner E rs req res False"
proof -
  let ?req = "req\<lparr>req_body := b\<rparr>"
  have indep: "(\<forall>c \<in> set cs. condition_spec E (spec_context_of ?req res r) c) \<longleftrightarrow>
      (\<forall>c \<in> set cs. condition_spec E (spec_context_of req res r) c)"
    if "\<not> list_ex depends_on_request_body cs" for cs r
    using that condition_spec_body [of _ E b "spec_context_of req res r"]
    by (simp add: list_ex_iff spec_context_of_def)
  have applies: "rule_applies E ?req res True r \<longleftrightarrow> rule_applies E req res False r"
    if "r \<in> set (rs_rules rs)" for r
    using request_body_required_iff [OF assms(1,2,4) that] indep [of "rule_conditions r" r]
    unfolding rule_applies_def rule_captures_body by blast
  have acts: "apply_rule E ?req res True st r = apply_rule E req res False st r"
    if r: "r \<in> set (rs_rules rs)" "rule_applies E ?req res True r" for st r
  proof -
    have "\<not> list_ex action_requires_request_body (rule_actions r)"
      using request_body_required_iff [OF assms(1,2,4) r(1), of b res] r(2) by (auto simp: rule_applies_def)
    then have "resolve_action brief caps res True st a = resolve_action brief caps res False st a"
      if "a \<in> set (rule_actions r)" for st brief caps a
    proof -
      from that assms(3) r(1) \<open>\<not> list_ex action_requires_request_body (rule_actions r)\<close>
      have "\<not> action_requires_request_body a" "a \<noteq> Delete []" by (auto simp: list_ex_iff)
      then show ?thesis by (simp add: resolve_action_def action_available)
    qed
    then have "foldl (resolve_action brief caps res True) st (rule_actions r) =
        foldl (resolve_action brief caps res False) st (rule_actions r)" for st brief caps
      by (rule foldl_cong_on)
    then show ?thesis by (simp add: apply_rule_def split: option.split)
  qed
  have "filter (rule_applies E ?req res True) (rule_order (rs_rules rs)) =
      filter (rule_applies E req res False) (rule_order (rs_rules rs))"
    by (rule filter_cong) (auto simp: applies rule_order_def)
  moreover have "foldl (apply_rule E ?req res True) resolve_init (filter (rule_applies E ?req res True) (rule_order (rs_rules rs))) =
    foldl (apply_rule E req res False) resolve_init (filter (rule_applies E ?req res True) (rule_order (rs_rules rs)))"
    by (rule foldl_cong_on) (auto simp: acts rule_order_def)
  ultimately show ?thesis
    by (simp add: resolve_inner_reference [OF assms(1,2)] resolve_spec_def)
qed

end
