(* ===== verification/Parse_Action.thy ===== *)
theory Parse_Action
  imports Parse_Condition Rule_Template Rule_Resolve
begin

text \<open>
  The parsers of actions: header, cookie, CORS and cache operations (\<open>parser/metadata.rs\<close>),
  deletions (\<open>parser/delete.rs\<close>), mocks (\<open>parser/mock.rs\<close>), TLS options (\<open>parser/tls.rs\<close>),
  rewrites and body operations (\<open>parser/transforms.rs\<close>), the template check
  (\<open>action/template_validation.rs\<close>) and \<open>parse_action\<close> (\<open>parser/mod.rs\<close>), whose \<open>match\<close> on the
  canonical name is a table here.
\<close>

section \<open>Header operations\<close>

definition normalize_header_name :: "string \<Rightarrow> string model_result" where
  "normalize_header_name input =
     (let name = trim input in
      if name = [] \<or> \<not> list_all is_http_token_byte name then Inl (InvalidInput ''header name'')
      else Inr (to_ascii_lowercase name))"

definition header_replace_parts :: "string \<Rightarrow> (string \<times> string) option" where
  "header_replace_parts input =
     (case find_char (\<lambda>c. c = CHR ''~'') input of
        None \<Rightarrow> None
      | Some tilde \<Rightarrow>
          (case find_char (\<lambda>c. c = CHR '':'') input of
             Some colon \<Rightarrow> if colon < tilde then None else Some (take tilde input, drop (tilde + 1) input)
           | None \<Rightarrow> Some (take tilde input, drop (tilde + 1) input)))"

fun first_slash_loop :: "bool \<Rightarrow> string \<Rightarrow> nat option" where
  "first_slash_loop escaped [] = None"
| "first_slash_loop escaped (c # s) =
     (if escaped then map_option Suc (first_slash_loop False s)
      else if c = backslash then map_option Suc (first_slash_loop True s)
      else if c = CHR ''/'' then Some 0
      else map_option Suc (first_slash_loop False s))"

definition first_unescaped_slash :: "string \<Rightarrow> nat \<Rightarrow> nat option" where
  "first_unescaped_slash input start =
     map_option (\<lambda>offset. start + offset) (first_slash_loop False (drop start input))"

definition regex_replace_pattern_new :: "ext \<Rightarrow> string \<Rightarrow> bool \<Rightarrow> string \<Rightarrow> regex_replace_pattern model_result" where
  "regex_replace_pattern_new E p ci ctx =
     (if linear_new E p ci then Inr \<lparr>rrp_pattern = p, rrp_case_insensitive = ci\<rparr>
      else Inl (InvalidRegex ctx))"

definition parse_header_replacement :: "ext \<Rightarrow> string \<Rightarrow> (regex_replace_pattern \<times> string) model_result" where
  "parse_header_replacement E expression =
     (let expression = trim expression in
      if \<not> starts_with expression ''/'' then Inl (InvalidSyntax ''header replacement'')
      else (case first_unescaped_slash expression 1 of
        None \<Rightarrow> Inl (InvalidSyntax ''header replacement'')
      | Some separator \<Rightarrow>
          (let p = unescape_slashes (take (separator - 1) (drop 1 expression));
               replacement = unescape_slashes (drop (separator + 1) expression) in
           try_bind (regex_replace_pattern_new E p False ''invalid header replacement regex'')
             (\<lambda>p. Inr (p, replacement)))))"

definition parse_header_op :: "ext \<Rightarrow> string \<Rightarrow> header_op model_result" where
  "parse_header_op E input =
     (let input = trim input in
      case strip_prefix input ''-'' of
        Some name \<Rightarrow> try_bind (normalize_header_name name) (\<lambda>name. Inr (HeaderRemove name))
      | None \<Rightarrow>
          (case header_replace_parts input of
             Some (name, expression) \<Rightarrow>
               try_bind (normalize_header_name name) (\<lambda>name.
               try_bind (parse_header_replacement E expression) (\<lambda>(p, replacement).
                 Inr (HeaderReplace name p replacement)))
           | None \<Rightarrow>
               (case split_once input '':'' of
                  None \<Rightarrow> Inl (InvalidSyntax ''header operation'')
                | Some (name, v) \<Rightarrow>
                    try_bind (normalize_header_name name) (\<lambda>name.
                    try_bind (parse_value (trim v)) (\<lambda>v. Inr (HeaderSet name v))))))"

definition validate_trailer_op :: "header_op \<Rightarrow> unit model_result" where
  "validate_trailer_op operation =
     (case operation of
        HeaderRemove _ \<Rightarrow> Inr ()
      | HeaderSet name _ \<Rightarrow>
          if is_forbidden_trailer_name name then Inl (ConstraintViolation ''response trailer'') else Inr ()
      | HeaderReplace name _ _ \<Rightarrow>
          if is_forbidden_trailer_name name then Inl (ConstraintViolation ''response trailer'') else Inr ())"

section \<open>Cookie operations\<close>

definition join_with :: "string \<Rightarrow> string list \<Rightarrow> string" where
  "join_with sep parts = concat (case parts of [] \<Rightarrow> [] | p # ps \<Rightarrow> p # concat (map (\<lambda>q. [sep, q]) ps))"

definition capitalize :: "string \<Rightarrow> string" where
  "capitalize part = (case part of [] \<Rightarrow> [] | c # s \<Rightarrow> ascii_upper c # s)"

definition canonical_cookie_attr_name :: "string \<Rightarrow> string" where
  "canonical_cookie_attr_name name =
     (let name = to_ascii_lowercase (trim name) in
      if name = ''path'' then ''Path''
      else if name = ''domain'' then ''Domain''
      else if name = ''expires'' then ''Expires''
      else if name = ''max-age'' \<or> name = ''max_age'' then ''Max-Age''
      else if name = ''http-only'' \<or> name = ''httponly'' then ''HttpOnly''
      else if name = ''secure'' then ''Secure''
      else if name = ''samesite'' \<or> name = ''same-site'' \<or> name = ''same_site'' then ''SameSite''
      else if name = ''partitioned'' then ''Partitioned''
      else if name = ''priority'' then ''Priority''
      else join_with ''-'' (map capitalize (split_chars (\<lambda>c. c = CHR ''-'') name)))"

definition parse_cookie_attr :: "string \<Rightarrow> cookie_attr model_result" where
  "parse_cookie_attr part =
     try_bind (case split_once part ''='' of
         Some (name, v) \<Rightarrow> try_bind (parse_value (trim v)) (\<lambda>v. Inr (trim name, Some v))
       | None \<Rightarrow> Inr (part, None)) (\<lambda>(name, v).
       let name = canonical_cookie_attr_name (trim name) in
       if name = [] then Inl (EmptyInput ''cookie attribute name'')
       else Inr \<lparr>attr_name = name, attr_value = v\<rparr>)"

definition parse_cookie_op :: "string \<Rightarrow> cookie_op model_result" where
  "parse_cookie_op input =
     (let input = trim input in
      case strip_prefix input ''-'' of
        Some name \<Rightarrow>
          if trim name = [] then Inl (MissingArgument ''cookie remove operation'')
          else Inr (CookieRemove (trim name))
      | None \<Rightarrow>
          (let parts = split_chars (\<lambda>c. c = CHR '';'') input; first = trim (hd parts) in
           if first = [] then Inl (InvalidSyntax ''cookie operation'')
           else (case split_once first ''='' of
             None \<Rightarrow> Inl (InvalidSyntax ''cookie operation'')
           | Some (name, v) \<Rightarrow>
               if trim name = [] then Inl (EmptyInput ''cookie name'')
               else
                 try_bind (collect_results parse_cookie_attr (filter (\<lambda>p. p \<noteq> []) (map trim (tl parts)))) (\<lambda>attrs.
                 try_bind (parse_value (trim v)) (\<lambda>v. Inr (CookieSet (trim name) v attrs))))))"

section \<open>CORS and cache operations\<close>

definition parse_bool :: "string \<Rightarrow> bool model_result" where
  "parse_bool input =
     (let v = to_ascii_lowercase (trim input) in
      if v \<in> {''true'', ''yes'', ''1'', ''on''} then Inr True
      else if v \<in> {''false'', ''no'', ''0'', ''off''} then Inr False
      else Inl (InvalidInput ''boolean option''))"

record cors_state =
  cs_origin :: "rule_value option"
  cs_methods :: "rule_value option"
  cs_headers :: "rule_value option"
  cs_credentials :: "bool option"
  cs_expose :: "rule_value option"
  cs_max_age :: "rule_value option"

definition cors_init :: cors_state where
  "cors_init = \<lparr>cs_origin = None, cs_methods = None, cs_headers = None, cs_credentials = None,
     cs_expose = None, cs_max_age = None\<rparr>"

definition cors_field :: "string \<Rightarrow> string \<Rightarrow> cors_state \<Rightarrow> cors_state model_result" where
  "cors_field key v st =
     (if key = ''origin'' \<or> key = ''allow-origin'' then
        try_bind (parse_value (trim v)) (\<lambda>v. Inr (st\<lparr>cs_origin := Some v\<rparr>))
      else if key = ''methods'' \<or> key = ''allow-methods'' then
        try_bind (parse_value (trim v)) (\<lambda>v. Inr (st\<lparr>cs_methods := Some v\<rparr>))
      else if key = ''headers'' \<or> key = ''allow-headers'' then
        try_bind (parse_value (trim v)) (\<lambda>v. Inr (st\<lparr>cs_headers := Some v\<rparr>))
      else if key = ''credentials'' \<or> key = ''allow-credentials'' then
        try_bind (parse_bool (unquote (trim v))) (\<lambda>v. Inr (st\<lparr>cs_credentials := Some v\<rparr>))
      else if key = ''expose'' \<or> key = ''expose-headers'' then
        try_bind (parse_value (trim v)) (\<lambda>v. Inr (st\<lparr>cs_expose := Some v\<rparr>))
      else if key = ''max-age'' \<or> key = ''max_age'' then
        try_bind (parse_value (trim v)) (\<lambda>v. Inr (st\<lparr>cs_max_age := Some v\<rparr>))
      else Inl (UnsupportedInput ''res.cors argument''))"

fun cors_loop :: "nat \<Rightarrow> string list \<Rightarrow> cors_state \<Rightarrow> cors_state model_result" where
  "cors_loop idx [] st = Inr st"
| "cors_loop idx (arg # args) st =
     (let arg = trim arg in
      if arg = [] then cors_loop (idx + 1) args st
      else if idx = 0 \<and> CHR ''='' \<notin> set arg then
        try_bind (parse_value arg) (\<lambda>v. cors_loop (idx + 1) args (st\<lparr>cs_origin := Some v\<rparr>))
      else (case split_once arg ''='' of
        None \<Rightarrow> Inl (InvalidSyntax ''res.cors argument'')
      | Some (key, v) \<Rightarrow>
          try_bind (cors_field (to_ascii_lowercase (trim key)) v st) (cors_loop (idx + 1) args)))"

definition parse_cors_op :: "string list \<Rightarrow> cors_op model_result" where
  "parse_cors_op args =
     (if args = [] then Inl (MissingArgument ''res.cors action'')
      else try_bind (cors_loop 0 args cors_init) (\<lambda>st.
        case cs_origin st of
          None \<Rightarrow> Inl (MissingArgument ''res.cors origin'')
        | Some origin \<Rightarrow>
            Inr \<lparr>cors_origin = origin, cors_methods = cs_methods st, cors_headers = cs_headers st,
                 cors_credentials = cs_credentials st, cors_expose = cs_expose st,
                 cors_max_age = cs_max_age st\<rparr>))"

definition canonical_cache_directive_name :: "string \<Rightarrow> string" where
  "canonical_cache_directive_name name =
     (let name = to_ascii_lowercase (trim name) in
      if name = ''max_age'' then ''max-age''
      else if name = ''s_maxage'' \<or> name = ''s-max-age'' then ''s-maxage''
      else if name = ''stale_while_revalidate'' \<or> name = ''stale-while-revalidate'' then ''stale-while-revalidate''
      else if name = ''stale_if_error'' \<or> name = ''stale-if-error'' then ''stale-if-error''
      else if name = ''must_revalidate'' \<or> name = ''must-revalidate'' then ''must-revalidate''
      else if name = ''proxy_revalidate'' \<or> name = ''proxy-revalidate'' then ''proxy-revalidate''
      else if name = ''no_cache'' \<or> name = ''no-cache'' then ''no-cache''
      else if name = ''no_store'' \<or> name = ''no-store'' then ''no-store''
      else if name = ''no_transform'' \<or> name = ''no-transform'' then ''no-transform''
      else name)"

definition parse_cache_directive :: "string \<Rightarrow> cache_directive model_result" where
  "parse_cache_directive arg =
     (if list_all is_ascii_digit arg
      then Inr \<lparr>directive_name = ''max-age'', directive_value = Some (Inline arg)\<rparr>
      else try_bind (case split_once arg ''='' of
          Some (name, v) \<Rightarrow> try_bind (parse_value (trim v)) (\<lambda>v. Inr (trim name, Some v))
        | None \<Rightarrow> Inr (arg, None)) (\<lambda>(name, v).
        let name = canonical_cache_directive_name name in
        if name = [] then Inl (EmptyInput ''cache directive name'')
        else Inr \<lparr>directive_name = name, directive_value = v\<rparr>))"

definition parse_cache_op :: "string list \<Rightarrow> cache_op model_result" where
  "parse_cache_op args =
     (if args = [] then Inl (MissingArgument ''cache action'')
      else if length args = 1 \<and> eq_ignore_ascii_case (trim (hd args)) ''off'' then Inr CacheOff
      else
        try_bind (collect_results parse_cache_directive (filter (\<lambda>a. a \<noteq> []) (map trim args))) (\<lambda>directives.
          if directives = [] then Inl (MissingArgument ''cache action'')
          else Inr (CacheDirectives directives)))"

section \<open>Deletions\<close>

definition matches_name :: "string \<Rightarrow> string list \<Rightarrow> bool" where
  "matches_name input names = list_ex (eq_ignore_ascii_case input) names"

definition suffix_of :: "string \<Rightarrow> string \<Rightarrow> string option" where
  "suffix_of input p =
     (if length p \<le> length input \<and> eq_ignore_ascii_case (take (length p) input) p
      then Some (drop (length p) input) else None)"

fun find_some :: "('a \<Rightarrow> 'b option) \<Rightarrow> 'a list \<Rightarrow> 'b option" where
  "find_some f [] = None"
| "find_some f (x # xs) = (case f x of Some y \<Rightarrow> Some y | None \<Rightarrow> find_some f xs)"

definition suffix_any :: "string \<Rightarrow> string list \<Rightarrow> string option" where
  "suffix_any input heads = find_some (suffix_of input) heads"

definition valid_name :: "string \<Rightarrow> string model_result" where
  "valid_name v =
     (let v = trim v in
      if v = [] \<or> has_control v then Inl (InvalidInput ''delete property name'') else Inr v)"

definition MAX_BODY_PATH_BYTES :: nat where "MAX_BODY_PATH_BYTES = 16 * 1024"
definition MAX_BODY_PATH_SEGMENTS :: nat where "MAX_BODY_PATH_SEGMENTS = 128"

fun split_body_loop :: "string \<Rightarrow> string \<Rightarrow> string list model_result" where
  "split_body_loop cur [] = Inr [cur]"
| "split_body_loop cur (c # s) =
     (if c = backslash then
        (case s of
           [] \<Rightarrow> Inl (InvalidSyntax ''delete body path'')
         | d # t \<Rightarrow> split_body_loop (cur @ [backslash, d]) t)
      else if c = CHR ''.'' then
        try_bind (split_body_loop [] s) (\<lambda>parts. Inr (cur # parts))
      else split_body_loop (cur @ [c]) s)"

definition split_body_path :: "string \<Rightarrow> string list model_result" where
  "split_body_path input = split_body_loop [] input"

definition decode_escape :: "char \<Rightarrow> char" where
  "decode_escape c =
     (if c = CHR ''n'' then CHR 0x0A else if c = CHR ''r'' then CHR 0x0D
      else if c = CHR ''t'' then CHR 0x09 else if c = CHR ''f'' then CHR 0x0C
      else if c = CHR ''v'' then CHR 0x0B else c)"

fun decode_body_path_component :: "string \<Rightarrow> (char \<times> bool) list model_result" where
  "decode_body_path_component [] = Inr []"
| "decode_body_path_component (c # s) =
     (if c \<noteq> backslash then try_bind (decode_body_path_component s) (\<lambda>ds. Inr ((c, False) # ds))
      else (case s of
        [] \<Rightarrow> Inl (InvalidSyntax ''delete body path'')
      | d # t \<Rightarrow> try_bind (decode_body_path_component t) (\<lambda>ds. Inr ((decode_escape d, True) # ds))))"

definition body_array_index :: "(char \<times> bool) list \<Rightarrow> nat option model_result" where
  "body_array_index cs =
     (if cs = [] \<or> list_ex (\<lambda>(c, escaped). escaped \<or> \<not> is_ascii_digit c) cs \<or>
         (1 < length cs \<and> fst (hd cs) = CHR ''0'')
      then Inr None
      else (case parse_uint USIZE_MAX (map fst cs) of
        Inl e \<Rightarrow> Inl (InvalidInteger ''delete body array index'' (map fst cs) e)
      | Inr n \<Rightarrow> Inr (Some n)))"

lemma find_in_set: "find P xs = Some x \<Longrightarrow> x \<in> set xs"
  by (auto simp: find_Some_iff)

text \<open>The trailing array selectors, last first, and where they begin.\<close>

function body_indexes :: "(char \<times> bool) list \<Rightarrow> nat \<Rightarrow> nat list \<Rightarrow> (nat \<times> nat list) model_result" where
  "body_indexes cs e indexes =
     (if 0 < e \<and> cs ! (e - 1) = (CHR '']'', False) then
        (case find (\<lambda>i. cs ! i = (CHR ''['', False)) (rev [0..<e - 1]) of
           None \<Rightarrow> Inr (e, indexes)
         | Some open_at \<Rightarrow>
             try_bind (body_array_index (take (e - 1 - (open_at + 1)) (drop (open_at + 1) cs))) (\<lambda>index.
               case index of
                 None \<Rightarrow> Inr (e, indexes)
               | Some i \<Rightarrow> body_indexes cs open_at (indexes @ [i])))
      else Inr (e, indexes))"
  by pat_completeness auto
termination
  by (relation "measure (\<lambda>(cs, e, indexes). e)") (auto dest!: find_in_set)

declare body_indexes.simps [simp del]

definition parse_body_path_component ::
  "string \<Rightarrow> delete_body_path_segment list \<Rightarrow> delete_body_path_segment list model_result" where
  "parse_body_path_component input segs =
     try_bind (decode_body_path_component input) (\<lambda>cs.
     try_bind (body_indexes cs (length cs) []) (\<lambda>(e, indexes).
       Inr (segs @ (if 0 < e \<or> indexes = [] then [PathKey (map fst (take e cs))] else []) @
            map PathIndex (rev indexes))))"

fun body_path_loop ::
  "string list \<Rightarrow> delete_body_path_segment list \<Rightarrow> delete_body_path_segment list model_result" where
  "body_path_loop [] segs = Inr segs"
| "body_path_loop (component # components) segs =
     try_bind (parse_body_path_component component segs) (\<lambda>segs.
       if MAX_BODY_PATH_SEGMENTS < length segs then Inl (LimitExceeded ''delete body path'')
       else body_path_loop components segs)"

definition delete_body_path_new :: "delete_body_path_segment list \<Rightarrow> delete_body_path_segment list model_result" where
  "delete_body_path_new segs =
     (if segs = [] then Inl (EmptyInput ''delete body path'') else Inr segs)"

definition parse_body_path :: "string \<Rightarrow> delete_body_path_segment list model_result" where
  "parse_body_path input =
     (if input = [] then Inl (EmptyInput ''delete body path'')
      else if MAX_BODY_PATH_BYTES < length input then Inl (LimitExceeded ''delete body path'')
      else
        try_bind (split_body_path input) (\<lambda>components.
        try_bind (body_path_loop components []) delete_body_path_new))"

definition parse_path_segment :: "string \<Rightarrow> delete_op list model_result" where
  "parse_path_segment segment =
     (let name = to_ascii_lowercase segment in
      if name = ''first'' then Inr [DelPathSegment (SegmentIndex 0)]
      else if name = ''last'' then Inr [DelPathSegment SegmentLast]
      else (case parse_i32 segment of
        Inl e \<Rightarrow> Inl (InvalidInteger ''pathname segment'' segment e)
      | Inr n \<Rightarrow> Inr [DelPathSegment (SegmentIndex n)]))"

text \<open>The tests of \<open>parse_delete_property\<close>, in order: a test yields the result of its branch.\<close>

definition on_names :: "string list \<Rightarrow> delete_op list \<Rightarrow> string \<Rightarrow> delete_op list model_result option" where
  "on_names names ops property = (if matches_name property names then Some (Inr ops) else None)"

definition on_suffix ::
  "string list \<Rightarrow> (string \<Rightarrow> delete_op list model_result) \<Rightarrow> string \<Rightarrow> delete_op list model_result option" where
  "on_suffix heads f property = map_option f (suffix_any property heads)"

definition with_name :: "(string \<Rightarrow> delete_op list) \<Rightarrow> string \<Rightarrow> delete_op list model_result" where
  "with_name ops name = try_bind (valid_name name) (\<lambda>name. Inr (ops name))"

definition with_path :: "(delete_body_path_segment list \<Rightarrow> delete_op) \<Rightarrow> string \<Rightarrow> delete_op list model_result" where
  "with_path f path = try_bind (parse_body_path path) (\<lambda>segs. Inr [f segs])"

definition DELETE_PROPERTIES :: "(string \<Rightarrow> delete_op list model_result option) list" where
  "DELETE_PROPERTIES =
     [on_names [''pathname''] [DelPathname],
      on_suffix [''pathname.''] parse_path_segment,
      on_names [''urlParams'', ''url.params'', ''params'', ''query''] [DelUrlParams],
      on_suffix [''urlParams.'', ''url.params.'', ''params.'', ''query.''] (with_name (\<lambda>n. [DelUrlParam n])),
      on_suffix [''reqHeaders.'', ''reqHeader.'', ''req.headers.'', ''req.header.'', ''reqH.'']
        (with_name (\<lambda>n. [DelReqHeader n])),
      on_suffix [''resHeaders.'', ''resHeader.'', ''res.headers.'', ''res.header.'', ''resH.'']
        (with_name (\<lambda>n. [DelResHeader n])),
      on_suffix [''headers.''] (with_name (\<lambda>n. [DelReqHeader n, DelResHeader n])),
      on_names [''reqBody'', ''req.body''] [DelReqBody],
      on_names [''resBody'', ''res.body''] [DelResBody],
      on_names [''body''] [DelReqBody, DelResBody],
      on_suffix [''reqBody.'', ''req.body.''] (with_path DelReqBodyPath),
      on_suffix [''resBody.'', ''res.body.''] (with_path DelResBodyPath),
      on_names [''reqType'', ''req.type''] [DelReqType],
      on_names [''resType'', ''res.type''] [DelResType],
      on_names [''reqCharset'', ''req.charset''] [DelReqCharset],
      on_names [''resCharset'', ''res.charset''] [DelResCharset],
      on_names [''reqCookies'', ''req.cookies''] [DelReqCookies],
      on_names [''resCookies'', ''res.cookies''] [DelResCookies],
      on_names [''cookies'', ''cookie''] [DelReqCookies, DelResCookies],
      on_suffix [''reqCookies.'', ''reqCookie.'', ''req.cookies.'', ''req.cookie.'', ''reqC.'']
        (with_name (\<lambda>n. [DelReqCookie n])),
      on_suffix [''resCookies.'', ''resCookie.'', ''res.cookies.'', ''res.cookie.'', ''resC.'']
        (with_name (\<lambda>n. [DelResCookie n])),
      on_suffix [''cookies.'', ''cookie.''] (with_name (\<lambda>n. [DelReqCookie n, DelResCookie n])),
      on_suffix [''trailer.''] (with_name (\<lambda>n. [DelTrailer n])),
      on_names [''trailers'', ''trailer''] [DelTrailers]]"

definition parse_delete_property :: "string \<Rightarrow> delete_op list model_result" where
  "parse_delete_property property =
     (case find_some (\<lambda>test. test property) DELETE_PROPERTIES of
        Some r \<Rightarrow> r
      | None \<Rightarrow> Inl (UnsupportedInput ''delete property''))"

definition parse_delete_ops :: "string list \<Rightarrow> delete_op list model_result" where
  "parse_delete_ops args =
     (if args = [] then Inl (MissingArgument ''delete action'')
      else try_bind (collect_results (\<lambda>raw.
             let property = unquote (trim raw) in
             if property = [] then Inl (EmptyInput ''delete property'') else parse_delete_property property) args)
           (\<lambda>ops. Inr (concat ops)))"

section \<open>Mocks and map targets\<close>

definition is_inline_form :: "string list \<Rightarrow> bool" where
  "is_inline_form args \<longleftrightarrow>
     1 < length args \<or>
     (args \<noteq> [] \<and> list_ex (starts_with (trim (hd args))) [''status='', ''body='', ''type='', ''header=''])"

definition mock_argument :: "string \<Rightarrow> mock_inline_op \<Rightarrow> mock_inline_op model_result" where
  "mock_argument arg op =
     (case split_once (trim arg) ''='' of
        None \<Rightarrow> Inl (InvalidInput ''mock argument'')
      | Some (key, v) \<Rightarrow>
          (let key = trim key in
           if key = ''status'' then
             try_bind (parse_u16_or ''mock status'' (trim v)) (\<lambda>code.
             try_bind (validate_status_range code MIN_FINAL_HTTP_STATUS MAX_HTTP_STATUS ''mock status'')
               (\<lambda>_. Inr (op\<lparr>mock_status := Some code\<rparr>)))
           else if key = ''type'' then
             try_bind (parse_value v) (\<lambda>v. Inr (op\<lparr>mock_headers := mock_headers op @ [(''Content-Type'', v)]\<rparr>))
           else if key = ''header'' then
             (case split_once v '':'' of
                None \<Rightarrow> Inl (InvalidInput ''mock header'')
              | Some (name, v) \<Rightarrow>
                  try_bind (normalize_header_name name) (\<lambda>name.
                  try_bind (parse_value (trim_start v)) (\<lambda>v.
                    Inr (op\<lparr>mock_headers := mock_headers op @ [(name, v)]\<rparr>))))
           else if key = ''body'' then try_bind (parse_value v) (\<lambda>v. Inr (op\<lparr>mock_body := Some v\<rparr>))
           else Inl (UnsupportedInput ''mock argument'')))"

fun mock_loop :: "string list \<Rightarrow> mock_inline_op \<Rightarrow> mock_inline_op model_result" where
  "mock_loop [] op = Inr op"
| "mock_loop (arg # args) op = try_bind (mock_argument arg op) (mock_loop args)"

definition parse_mock :: "string list \<Rightarrow> action model_result" where
  "parse_mock args =
     (if \<not> is_inline_form args then
        try_bind (require_one args) (\<lambda>a. try_bind (parse_value a) (\<lambda>v. Inr (Mock v)))
      else
        try_bind (mock_loop args \<lparr>mock_status = None, mock_headers = [], mock_body = None\<rparr>) (\<lambda>op.
          if (case mock_status op of Some s \<Rightarrow> status_forbids_body s | None \<Rightarrow> False) \<and> mock_body op \<noteq> None
          then Inl (ConstraintViolation ''inline mock body'')
          else Inr (MockInline op)))"

definition validate_map_remote_scheme :: "string \<Rightarrow> unit model_result" where
  "validate_map_remote_scheme scheme =
     (if to_ascii_lowercase scheme \<in> {''http'', ''https'', ''ws'', ''wss''} then Inr ()
      else Inl (InvalidInput ''map.remote target''))"

definition validate_map_remote_target :: "rule_value \<Rightarrow> unit model_result" where
  "validate_map_remote_target v =
     (case v of
        Inline target \<Rightarrow>
          (let target = trim target in
           case find_char (\<lambda>c. c = CHR ''$'') target of
             Some template_start \<Rightarrow>
               (case split_once (take template_start target) ''://'' of
                  Some (scheme, _) \<Rightarrow> validate_map_remote_scheme scheme
                | None \<Rightarrow> Inr ())
           | None \<Rightarrow> try_bind (url_parse target) (\<lambda>u. validate_map_remote_scheme (url_scheme u)))
      | _ \<Rightarrow> Inr ())"

section \<open>TLS options\<close>

definition parse_tls_min_version :: "string \<Rightarrow> tls_min_version model_result" where
  "parse_tls_min_version input =
     (let v = to_ascii_lowercase (trim input) in
      if v \<in> {''1.2'', ''tls1.2'', ''tlsv1.2'', ''tls12'', ''tlsv12''} then Inr Tls12
      else if v \<in> {''1.3'', ''tls1.3'', ''tlsv1.3'', ''tls13'', ''tlsv13''} then Inr Tls13
      else Inl (UnsupportedInput ''TLS minimum version''))"

definition CIPHER_NAMES :: "(string \<times> tls_cipher_suite) list" where
  "CIPHER_NAMES =
     [(''TLS_AES_128_GCM_SHA256'', Tls13Aes128GcmSha256),
      (''TLS13_AES_128_GCM_SHA256'', Tls13Aes128GcmSha256),
      (''TLS_AES_256_GCM_SHA384'', Tls13Aes256GcmSha384),
      (''TLS13_AES_256_GCM_SHA384'', Tls13Aes256GcmSha384),
      (''TLS_CHACHA20_POLY1305_SHA256'', Tls13Chacha20Poly1305Sha256),
      (''TLS13_CHACHA20_POLY1305_SHA256'', Tls13Chacha20Poly1305Sha256),
      (''TLS_ECDHE_ECDSA_WITH_AES_128_GCM_SHA256'', Tls12EcdheEcdsaAes128GcmSha256),
      (''ECDHE-ECDSA-AES128-GCM-SHA256'', Tls12EcdheEcdsaAes128GcmSha256),
      (''TLS_ECDHE_ECDSA_WITH_AES_256_GCM_SHA384'', Tls12EcdheEcdsaAes256GcmSha384),
      (''ECDHE-ECDSA-AES256-GCM-SHA384'', Tls12EcdheEcdsaAes256GcmSha384),
      (''TLS_ECDHE_ECDSA_WITH_CHACHA20_POLY1305_SHA256'', Tls12EcdheEcdsaChacha20Poly1305Sha256),
      (''ECDHE-ECDSA-CHACHA20-POLY1305'', Tls12EcdheEcdsaChacha20Poly1305Sha256),
      (''ECDHE-ECDSA-CHACHA20-POLY1305-SHA256'', Tls12EcdheEcdsaChacha20Poly1305Sha256),
      (''TLS_ECDHE_RSA_WITH_AES_128_GCM_SHA256'', Tls12EcdheRsaAes128GcmSha256),
      (''ECDHE-RSA-AES128-GCM-SHA256'', Tls12EcdheRsaAes128GcmSha256),
      (''TLS_ECDHE_RSA_WITH_AES_256_GCM_SHA384'', Tls12EcdheRsaAes256GcmSha384),
      (''ECDHE-RSA-AES256-GCM-SHA384'', Tls12EcdheRsaAes256GcmSha384),
      (''TLS_ECDHE_RSA_WITH_CHACHA20_POLY1305_SHA256'', Tls12EcdheRsaChacha20Poly1305Sha256),
      (''ECDHE-RSA-CHACHA20-POLY1305'', Tls12EcdheRsaChacha20Poly1305Sha256),
      (''ECDHE-RSA-CHACHA20-POLY1305-SHA256'', Tls12EcdheRsaChacha20Poly1305Sha256)]"

definition parse_tls_cipher_suite :: "string \<Rightarrow> tls_cipher_suite model_result" where
  "parse_tls_cipher_suite input =
     (case map_of CIPHER_NAMES (to_ascii_uppercase (trim input)) of
        Some c \<Rightarrow> Inr c | None \<Rightarrow> Inl (UnsupportedInput ''TLS cipher suite''))"

definition normalize_tls_path :: "string \<Rightarrow> string" where
  "normalize_tls_path input =
     (let v = unquote (trim input) in
      case Option.bind (strip_prefix v ''<'') (\<lambda>p. strip_suffix p ''>'') of Some p \<Rightarrow> p | None \<Rightarrow> v)"

definition tls_path :: "string \<Rightarrow> string \<Rightarrow> string model_result" where
  "tls_path ctx v =
     (let v = normalize_tls_path v in
      if v = [] then Inl (EmptyInput ctx)
      else if CHR 0x00 \<in> set v then Inl (InvalidInput ctx)
      else Inr v)"

definition tls_option :: "string \<Rightarrow> tls_op \<Rightarrow> tls_op model_result" where
  "tls_option arg op =
     (case split_once arg ''='' of
        None \<Rightarrow> Inl (InvalidSyntax ''TLS option'')
      | Some (key, v) \<Rightarrow>
          (let key = map (\<lambda>c. if c = CHR ''_'' then CHR ''-'' else c) (to_ascii_lowercase (trim key)) in
           if key = ''client-cert'' then
             try_bind (tls_path ''TLS client certificate'' v) (\<lambda>v. Inr (op\<lparr>tls_client_cert := Some v\<rparr>))
           else if key = ''client-key'' then
             try_bind (tls_path ''TLS client key'' v) (\<lambda>v. Inr (op\<lparr>tls_client_key := Some v\<rparr>))
           else if key = ''min'' \<or> key = ''min-version'' then
             try_bind (parse_tls_min_version (unquote (trim v))) (\<lambda>v. Inr (op\<lparr>tls_min := Some v\<rparr>))
           else if key = ''cipher'' \<or> key = ''ciphers'' then
             (let v = unquote (trim v) in
              if v = [] then Inl (EmptyInput ''TLS ciphers'')
              else try_bind (collect_results parse_tls_cipher_suite
                     (split_chars (\<lambda>c. c = CHR '':'' \<or> c = CHR ''|'' \<or> c = CHR '';'') v))
                     (\<lambda>cs. Inr (op\<lparr>tls_ciphers := dedup_onto (tls_ciphers op) cs\<rparr>)))
           else Inl (UnsupportedInput ''TLS option'')))"

fun tls_loop :: "string list \<Rightarrow> tls_op \<Rightarrow> tls_op model_result" where
  "tls_loop [] op = Inr op"
| "tls_loop (arg # args) op = try_bind (tls_option arg op) (tls_loop args)"

definition parse_tls_op :: "string list \<Rightarrow> tls_op model_result" where
  "parse_tls_op args =
     (if args = [] then Inl (MissingArgument ''TLS action'')
      else
        try_bind (tls_loop args \<lparr>tls_client_cert = None, tls_client_key = None, tls_min = None, tls_ciphers = []\<rparr>)
          (\<lambda>op.
             if (tls_client_cert op \<noteq> None) \<noteq> (tls_client_key op \<noteq> None)
             then Inl (ConstraintViolation ''TLS client identity'')
             else if tls_min op = Some Tls13 \<and> tls_ciphers op \<noteq> [] \<and>
                     list_all (\<lambda>c. \<not> is_tls13 c) (tls_ciphers op)
             then Inl (ConstraintViolation ''TLS ciphers'')
             else Inr op))"

section \<open>Rewrites and body operations\<close>

definition parse_query_op :: "string \<Rightarrow> query_op model_result" where
  "parse_query_op arg =
     (let arg = trim arg in
      case strip_prefix arg ''-'' of
        Some name \<Rightarrow>
          if trim name = [] then Inl (MissingArgument ''url.query remove operation'')
          else Inr (QueryRemove (trim name))
      | None \<Rightarrow>
          (case split_once arg ''='' of
             None \<Rightarrow> Inl (InvalidSyntax ''url.query operation'')
           | Some (name, v) \<Rightarrow>
               if trim name = [] then Inl (EmptyInput ''url.query name'')
               else try_bind (parse_value (trim v)) (\<lambda>v. Inr (QuerySet (trim name) v))))"

definition parse_query_ops :: "string list \<Rightarrow> query_op list model_result" where
  "parse_query_ops args =
     (if args = [] then Inl (MissingArgument ''url.query action'') else collect_results parse_query_op args)"

definition parse_regex_replace_pattern :: "ext \<Rightarrow> string \<Rightarrow> regex_replace_pattern model_result" where
  "parse_regex_replace_pattern E input =
     (let input = trim input in
      if \<not> starts_with input ''/''
      then regex_replace_pattern_new E (unquote input) False ''invalid replacement regex''
      else (case regex_literal_end input of
        None \<Rightarrow> Inl (InvalidSyntax ''body.replace regex'')
      | Some e \<Rightarrow>
          (let flags = drop (e + 1) input in
           if list_ex (\<lambda>c. c \<noteq> CHR ''i'') flags then Inl (UnsupportedInput ''body.replace regex flags'')
           else regex_replace_pattern_new E (take (e - 1) (drop 1 input)) (CHR ''i'' \<in> set flags)
                  ''invalid replacement regex'')))"

definition parse_body_replace :: "ext \<Rightarrow> string list \<Rightarrow> body_op model_result" where
  "parse_body_replace E args =
     (if length args \<noteq> 2 then Inl (MissingArgument ''body replacement'')
      else try_bind (parse_regex_replace_pattern E (args ! 0))
             (\<lambda>p. Inr (BodyReplace p (unquote (args ! 1)))))"

definition parse_inject_target :: "string \<Rightarrow> inject_target model_result" where
  "parse_inject_target t =
     (if t = ''html'' then Inr TargetHtml
      else if t = ''js'' \<or> t = ''javascript'' then Inr TargetJs
      else if t = ''css'' then Inr TargetCss
      else Inl (UnsupportedInput ''inject target''))"

definition parse_inject_mode :: "string option \<Rightarrow> inject_mode model_result" where
  "parse_inject_mode m =
     (if m = None \<or> m = Some ''append'' then Inr ModeAppend
      else if m = Some ''prepend'' then Inr ModePrepend
      else if m = Some ''replace'' then Inr ModeReplace
      else Inl (UnsupportedInput ''inject mode''))"

definition parse_inject_op :: "string list \<Rightarrow> inject_op model_result" where
  "parse_inject_op args =
     (if \<not> (2 \<le> length args \<and> length args \<le> 3) then Inl (MissingArgument ''inject action'')
      else
        try_bind (parse_inject_target (to_ascii_lowercase (trim (args ! 0)))) (\<lambda>target.
        try_bind (parse_inject_mode (map_option (\<lambda>v. to_ascii_lowercase (trim v)) (nth_opt args 2))) (\<lambda>mode.
        try_bind (parse_value (args ! 1)) (\<lambda>v.
          Inr \<lparr>inject_target = target, inject_value = v, inject_mode = mode\<rparr>))))"

definition parse_url_rewrite_pattern :: "ext \<Rightarrow> string \<Rightarrow> url_rewrite_pattern model_result" where
  "parse_url_rewrite_pattern E input =
     (let input = trim input in
      if starts_with input ''/'' \<and> regex_literal_end input \<noteq> None
      then try_bind (parse_regex_replace_pattern E input) (\<lambda>p. Inr (RewriteRegex p))
      else try_bind (parse_value input) (\<lambda>v. Inr (RewritePlain v)))"

section \<open>Template validation\<close>

definition validate_value :: "ext \<Rightarrow> rule_value \<Rightarrow> unit model_result" where
  "validate_value E v =
     (case v of Inline t \<Rightarrow> validate_template E t | File t \<Rightarrow> validate_template E t | Reference _ \<Rightarrow> Inr ())"

fun validate_many :: "ext \<Rightarrow> string list \<Rightarrow> unit model_result" where
  "validate_many E [] = Inr ()"
| "validate_many E (t # ts) = try_bind (validate_template E t) (\<lambda>_. validate_many E ts)"

fun validate_values :: "ext \<Rightarrow> rule_value list \<Rightarrow> unit model_result" where
  "validate_values E [] = Inr ()"
| "validate_values E (v # vs) = try_bind (validate_value E v) (\<lambda>_. validate_values E vs)"

definition validate_header :: "ext \<Rightarrow> header_op \<Rightarrow> unit model_result" where
  "validate_header E operation = (case operation of HeaderSet _ v \<Rightarrow> validate_value E v | _ \<Rightarrow> Inr ())"

definition validate_cookie :: "ext \<Rightarrow> cookie_op \<Rightarrow> unit model_result" where
  "validate_cookie E operation =
     (case operation of
        CookieSet _ v attrs \<Rightarrow>
          try_bind (validate_value E v) (\<lambda>_. validate_values E (List.map_filter attr_value attrs))
      | CookieRemove _ \<Rightarrow> Inr ())"

definition flatten_options :: "'a option list \<Rightarrow> 'a list" where
  "flatten_options os = List.map_filter (\<lambda>x. x) os"

definition validate_cors :: "ext \<Rightarrow> cors_op \<Rightarrow> unit model_result" where
  "validate_cors E operation =
     validate_values E (flatten_options
       [Some (cors_origin operation), cors_methods operation, cors_headers operation, cors_expose operation,
        cors_max_age operation])"

definition validate_body :: "ext \<Rightarrow> body_op \<Rightarrow> unit model_result" where
  "validate_body E operation =
     (case operation of
        BodySet v \<Rightarrow> validate_value E v
      | BodyPrepend v \<Rightarrow> validate_value E v
      | BodyAppend v \<Rightarrow> validate_value E v
      | BodyReplace _ _ \<Rightarrow> Inr ())"

definition validate_regex_replacement_value :: "ext \<Rightarrow> rule_value \<Rightarrow> unit model_result" where
  "validate_regex_replacement_value E v = (case v of File path \<Rightarrow> validate_template E path | _ \<Rightarrow> Inr ())"

definition query_value :: "query_op \<Rightarrow> rule_value option" where
  "query_value operation = (case operation of QuerySet _ v \<Rightarrow> Some v | QueryRemove _ \<Rightarrow> None)"

fun validate_templates :: "ext \<Rightarrow> action \<Rightarrow> unit model_result" where
  "validate_templates E (Host addresses) = validate_values E addresses"
| "validate_templates E (Upstream v) = validate_value E v"
| "validate_templates E (ReqMethod v) = validate_value E v"
| "validate_templates E (ReqUa v) = validate_value E v"
| "validate_templates E (ReqReferer v) = validate_value E v"
| "validate_templates E (ReqAuth v) = validate_value E v"
| "validate_templates E (ReqForwarded v) = validate_value E v"
| "validate_templates E (ReqType v) = validate_value E v"
| "validate_templates E (ReqCharset v) = validate_value E v"
| "validate_templates E (ResType v) = validate_value E v"
| "validate_templates E (ResCharset v) = validate_value E v"
| "validate_templates E (ResMerge v) = validate_value E v"
| "validate_templates E (Tag v) = validate_value E v"
| "validate_templates E (Mock v) = validate_value E v"
| "validate_templates E (MockRaw v) = validate_value E v"
| "validate_templates E (MockInline op) =
     validate_values E (map snd (mock_headers op) @ flatten_options [mock_body op])"
| "validate_templates E (MapRemote v) = validate_value E v"
| "validate_templates E (Redirect url code) = validate_value E url"
| "validate_templates E (ReqHeader op) = validate_header E op"
| "validate_templates E (ResHeader op) = validate_header E op"
| "validate_templates E (ResTrailer op) = validate_header E op"
| "validate_templates E (ReqCookie op) = validate_cookie E op"
| "validate_templates E (ResCookie op) = validate_cookie E op"
| "validate_templates E (ResCors op) = validate_cors E op"
| "validate_templates E (Attachment filename) =
     (case filename of Some v \<Rightarrow> validate_value E v | None \<Rightarrow> Inr ())"
| "validate_templates E (Cache (CacheDirectives ds)) = validate_values E (List.map_filter directive_value ds)"
| "validate_templates E (Tls op) =
     validate_many E (flatten_options [tls_client_cert op, tls_client_key op])"
| "validate_templates E (UrlRewrite from to) =
     (case from of
        RewritePlain from \<Rightarrow> validate_values E [from, to]
      | RewriteRegex _ \<Rightarrow> validate_regex_replacement_value E to)"
| "validate_templates E (UrlQuery ops) = validate_values E (List.map_filter query_value ops)"
| "validate_templates E (ReqBody op) = validate_body E op"
| "validate_templates E (ResBody op) = validate_body E op"
| "validate_templates E (Inject op) = validate_value E (inject_value op)"
| "validate_templates E Direct = Inr ()"
| "validate_templates E (Status _) = Inr ()"
| "validate_templates E (ResStatus _) = Inr ()"
| "validate_templates E (Cache CacheOff) = Inr ()"
| "validate_templates E (Delay _ _) = Inr ()"
| "validate_templates E (Throttle _ _) = Inr ()"
| "validate_templates E Bypass = Inr ()"
| "validate_templates E Hide = Inr ()"
| "validate_templates E (Delete _) = Inr ()"
| "validate_templates E (Skip _) = Inr ()"

section \<open>Hints for foreign syntax\<close>

definition looks_like_host_port :: "string \<Rightarrow> bool" where
  "looks_like_host_port input =
     (case rsplit_once_char input CHR '':'' of
        None \<Rightarrow> False
      | Some (host, port) \<Rightarrow>
          host \<noteq> [] \<and> list_all is_ascii_digit port \<and> port \<noteq> [] \<and>
          list_all (\<lambda>c. is_ascii_alphanumeric c \<or> c = CHR ''.'' \<or> c = CHR ''-'' \<or> c = CHR ''_'') host)"

text \<open>Whether \<open>whistle_syntax_hint\<close> returns a hint; its text is not modelled.\<close>

definition whistle_syntax_hint :: "string \<Rightarrow> bool" where
  "whistle_syntax_hint input \<longleftrightarrow>
     input = ''$0'' \<or>
     list_ex (starts_with input) [''socks://'', ''socks5://''] \<or>
     list_ex (starts_with input) [''proxy://'', ''http-proxy://''] \<or>
     starts_with input ''https-proxy://'' \<or>
     starts_with input ''http://'' \<or> starts_with input ''https://'' \<or>
     (CHR ''('' \<notin> set input \<and> looks_like_host_port input)"

section \<open>Actions\<close>

definition normalize_skip_family :: "string \<Rightarrow> string" where
  "normalize_skip_family family =
     map (\<lambda>c. if c = CHR ''_'' \<or> c = CHR ''-'' then CHR ''.'' else c)
       (to_ascii_lowercase (trim_matches (\<lambda>c. c = dquote \<or> c = squote) (trim family)))"

definition host_pool_new :: "rule_value list \<Rightarrow> rule_value list model_result" where
  "host_pool_new addresses =
     (if addresses = [] then Inl (EmptyInput ''host addresses'')
      else if list_ex (\<lambda>a. trim (value_source a) = []) addresses then Inl (EmptyInput ''host address'')
      else Inr addresses)"

text \<open>
  One parser per canonical name; it sees the engines, the whole call and the arguments.
\<close>

type_synonym action_parser = "ext \<Rightarrow> string \<Rightarrow> string list \<Rightarrow> action model_result"

definition one_value :: "(rule_value \<Rightarrow> action) \<Rightarrow> action_parser" where
  "one_value f = (\<lambda>E input args.
     try_bind (require_one args) (\<lambda>a. try_bind (parse_value a) (\<lambda>v. Inr (f v))))"

definition parse_host_action :: action_parser where
  "parse_host_action = (\<lambda>E input args.
     try_bind (collect_results parse_value args) (\<lambda>vs.
     try_bind (host_pool_new vs) (\<lambda>pool. Inr (Host pool))))"

definition parse_upstream_action :: action_parser where
  "parse_upstream_action = (\<lambda>E input args.
     if args = [] then Inl (MissingArgument ''upstream action'')
     else if length args = 1 then try_bind (parse_value (hd args)) (\<lambda>v. Inr (Upstream v))
     else Inr (Upstream (Inline (join_with '', '' args))))"

definition parse_map_remote_action :: action_parser where
  "parse_map_remote_action = (\<lambda>E input args.
     try_bind (require_one args) (\<lambda>a.
     try_bind (parse_value a) (\<lambda>v.
     try_bind (validate_map_remote_target v) (\<lambda>_. Inr (MapRemote v)))))"

definition parse_status_action :: "string \<Rightarrow> (u16 \<Rightarrow> action) \<Rightarrow> action_parser" where
  "parse_status_action ctx f = (\<lambda>E input args.
     try_bind (require_one args) (\<lambda>raw.
     try_bind (parse_u16_or ctx raw) (\<lambda>code.
     try_bind (validate_status_range code MIN_FINAL_HTTP_STATUS MAX_HTTP_STATUS ctx) (\<lambda>_. Inr (f code)))))"

definition parse_redirect_action :: action_parser where
  "parse_redirect_action = (\<lambda>E input args.
     if args = [] then Inl (MissingArgument ''redirect action'')
     else
       try_bind (if 1 < length args then parse_u16_or ''redirect code'' (args ! 1) else Inr 302) (\<lambda>code.
         if 2 < length args then Inl (ConstraintViolation ''redirect action'')
         else if code \<notin> set REDIRECT_STATUSES then Inl (ConstraintViolation ''redirect code'')
         else
           try_bind (parse_value (hd args)) (\<lambda>url.
           try_bind (case url of
               Inline location \<Rightarrow>
                 if CHR ''$'' \<notin> set location then validate_redirect_location location else Inr ()
             | _ \<Rightarrow> Inr ()) (\<lambda>_. Inr (Redirect url code)))))"

definition parse_header_action :: "(header_op \<Rightarrow> action) \<Rightarrow> action_parser" where
  "parse_header_action f = (\<lambda>E input args.
     try_bind (require_call_body input) (\<lambda>body. try_bind (parse_header_op E body) (\<lambda>op. Inr (f op))))"

definition parse_cookie_action :: "(cookie_op \<Rightarrow> action) \<Rightarrow> action_parser" where
  "parse_cookie_action f = (\<lambda>E input args.
     try_bind (require_one args) (\<lambda>a. try_bind (parse_cookie_op a) (\<lambda>op. Inr (f op))))"

definition parse_trailer_action :: action_parser where
  "parse_trailer_action = (\<lambda>E input args.
     try_bind (require_call_body input) (\<lambda>body.
     try_bind (parse_header_op E body) (\<lambda>op.
     try_bind (validate_trailer_op op) (\<lambda>_. Inr (ResTrailer op)))))"

definition parse_attachment_action :: action_parser where
  "parse_attachment_action = (\<lambda>E input args.
     if 1 < length args then Inl (ConstraintViolation ''attachment action'')
     else
       (case args of
          a # _ \<Rightarrow>
            if trim a = [] then Inr (Attachment None)
            else try_bind (parse_value a) (\<lambda>v. Inr (Attachment (Some v)))
        | [] \<Rightarrow> Inr (Attachment None)))"

definition parse_url_rewrite_action :: action_parser where
  "parse_url_rewrite_action = (\<lambda>E input args.
     if length args \<noteq> 2 then Inl (MissingArgument ''url.rewrite action'')
     else
       try_bind (parse_url_rewrite_pattern E (args ! 0)) (\<lambda>from.
       try_bind (parse_value (args ! 1)) (\<lambda>to. Inr (UrlRewrite from to))))"

definition parse_body_replace_action :: "(body_op \<Rightarrow> action) \<Rightarrow> action_parser" where
  "parse_body_replace_action f = (\<lambda>E input args. try_bind (parse_body_replace E args) (\<lambda>op. Inr (f op)))"

definition parse_phase :: "string \<Rightarrow> string \<Rightarrow> phase model_result" where
  "parse_phase ctx s =
     (if trim s = ''req'' then Inr Req else if trim s = ''res'' then Inr Res else Inl (InvalidInput ctx))"

definition parse_timed_action ::
  "string \<Rightarrow> string \<Rightarrow> (string \<Rightarrow> u64 model_result) \<Rightarrow> (phase \<Rightarrow> u64 \<Rightarrow> action) \<Rightarrow> action_parser" where
  "parse_timed_action ctx phase_ctx parse f = (\<lambda>E input args.
     if length args \<noteq> 2 then Inl (MissingArgument ctx)
     else
       try_bind (parse_phase phase_ctx (args ! 0)) (\<lambda>phase.
       try_bind (parse (trim (args ! 1))) (\<lambda>n. Inr (f phase n))))"

fun skip_loop :: "string list \<Rightarrow> action_family_set \<Rightarrow> action_family_set model_result" where
  "skip_loop [] families = Inr families"
| "skip_loop (a # args) families =
     (case fs_from_prefix (normalize_skip_family (unquote a)) of
        None \<Rightarrow> Inl (UnsupportedInput ''skip action family'')
      | Some selected \<Rightarrow> skip_loop args (fs_union families selected))"

definition parse_skip_action :: action_parser where
  "parse_skip_action = (\<lambda>E input args. try_bind (skip_loop args FS_EMPTY) (\<lambda>families. Inr (Skip families)))"

definition from_args :: "(string list \<Rightarrow> 'a model_result) \<Rightarrow> ('a \<Rightarrow> action) \<Rightarrow> action_parser" where
  "from_args parse f = (\<lambda>E input args. try_bind (parse args) (\<lambda>op. Inr (f op)))"

definition ACTION_PARSERS :: "(string \<times> action_parser) list" where
  "ACTION_PARSERS =
     [(''host'', parse_host_action), (''upstream'', parse_upstream_action),
      (''mock'', \<lambda>E input args. parse_mock args), (''map.remote'', parse_map_remote_action),
      (''mock.raw'', one_value MockRaw), (''status'', parse_status_action ''status code'' Status),
      (''redirect'', parse_redirect_action), (''req.header'', parse_header_action ReqHeader),
      (''res.header'', parse_header_action ResHeader),
      (''res.status'', parse_status_action ''response status code'' ResStatus),
      (''req.method'', one_value ReqMethod), (''req.cookie'', parse_cookie_action ReqCookie),
      (''res.cookie'', parse_cookie_action ResCookie), (''req.ua'', one_value ReqUa),
      (''req.referer'', one_value ReqReferer), (''req.auth'', one_value ReqAuth),
      (''req.forwarded'', one_value ReqForwarded), (''req.type'', one_value ReqType),
      (''req.charset'', one_value ReqCharset), (''res.cors'', from_args parse_cors_op ResCors),
      (''res.type'', one_value ResType), (''res.charset'', one_value ResCharset),
      (''res.merge'', one_value ResMerge), (''res.trailer'', parse_trailer_action),
      (''attachment'', parse_attachment_action), (''cache'', from_args parse_cache_op Cache),
      (''tls'', from_args parse_tls_op Tls), (''url.rewrite'', parse_url_rewrite_action),
      (''url.query'', from_args parse_query_ops UrlQuery), (''delete'', from_args parse_delete_ops Delete),
      (''req.body.set'', one_value (\<lambda>v. ReqBody (BodySet v))),
      (''req.body.prepend'', one_value (\<lambda>v. ReqBody (BodyPrepend v))),
      (''req.body.append'', one_value (\<lambda>v. ReqBody (BodyAppend v))),
      (''req.body.replace'', parse_body_replace_action ReqBody),
      (''res.body.set'', one_value (\<lambda>v. ResBody (BodySet v))),
      (''res.body.prepend'', one_value (\<lambda>v. ResBody (BodyPrepend v))),
      (''res.body.append'', one_value (\<lambda>v. ResBody (BodyAppend v))),
      (''res.body.replace'', parse_body_replace_action ResBody),
      (''inject'', from_args parse_inject_op Inject),
      (''delay'', parse_timed_action ''delay action'' ''delay phase'' parse_duration_ms Delay),
      (''throttle'', parse_timed_action ''throttle action'' ''throttle phase'' parse_speed_bps Throttle),
      (''tag'', one_value Tag), (''skip'', parse_skip_action)]"

definition action_name :: "syntax_profile \<Rightarrow> string \<Rightarrow> string option" where
  "action_name profile name =
     (case profile of Compatible \<Rightarrow> canonical_action_name name | CanonicalV3 \<Rightarrow> canonical_v3_action_name name)"

definition parse_action :: "ext \<Rightarrow> string \<Rightarrow> syntax_profile \<Rightarrow> action model_result" where
  "parse_action E input profile =
     (let name = action_name profile input in
      if name = Some ''direct'' then Inr Direct
      else if name = Some ''bypass'' then Inr Bypass
      else if name = Some ''hide'' then Inr Hide
      else if whistle_syntax_hint input then Inl (UnsupportedInput ''action'')
      else
        try_bind (parse_call input) (\<lambda>(input_name, args).
          case action_name profile input_name of
            None \<Rightarrow> Inl (UnsupportedInput ''action'')
          | Some name \<Rightarrow>
              (case map_of ACTION_PARSERS name of
                 None \<Rightarrow> Inl (UnsupportedInput ''action'')
               | Some parser \<Rightarrow>
                   try_bind (parser E input args) (\<lambda>action.
                   try_bind (validate_templates E action) (\<lambda>_. Inr action)))))"

section \<open>Well-formed actions\<close>

fun header_op_name :: "header_op \<Rightarrow> string" where
  "header_op_name (HeaderSet n _) = n"
| "header_op_name (HeaderRemove n) = n"
| "header_op_name (HeaderReplace n _ _) = n"

definition header_op_ok :: "header_op \<Rightarrow> bool" where
  "header_op_ok op \<longleftrightarrow> lower_token (header_op_name op)"

definition trailer_op_ok :: "header_op \<Rightarrow> bool" where
  "trailer_op_ok op \<longleftrightarrow>
     header_op_ok op \<and>
     (case op of HeaderRemove _ \<Rightarrow> True | _ \<Rightarrow> \<not> is_forbidden_trailer_name (header_op_name op))"

definition cookie_op_ok :: "cookie_op \<Rightarrow> bool" where
  "cookie_op_ok op =
     (case op of
        CookieSet name _ attrs \<Rightarrow> name \<noteq> [] \<and> list_all (\<lambda>a. attr_name a \<noteq> []) attrs
      | CookieRemove name \<Rightarrow> name \<noteq> [])"

definition mock_op_ok :: "mock_inline_op \<Rightarrow> bool" where
  "mock_op_ok op \<longleftrightarrow>
     list_all (\<lambda>(n, _). n = ''Content-Type'' \<or> lower_token n) (mock_headers op) \<and>
     (case mock_status op of
        None \<Rightarrow> True
      | Some s \<Rightarrow>
          MIN_FINAL_HTTP_STATUS \<le> s \<and> s \<le> MAX_HTTP_STATUS \<and>
          (mock_body op = None \<or> status_can_send_content s))"

definition tls_op_ok :: "tls_op \<Rightarrow> bool" where
  "tls_op_ok op \<longleftrightarrow>
     (tls_client_cert op = None \<longleftrightarrow> tls_client_key op = None) \<and> distinct (tls_ciphers op) \<and>
     (tls_min op = Some Tls13 \<longrightarrow> tls_ciphers op = [] \<or> list_ex is_tls13 (tls_ciphers op))"

definition delete_name_ok :: "string \<Rightarrow> bool" where
  "delete_name_ok n \<longleftrightarrow> n \<noteq> [] \<and> \<not> has_control n"

definition body_path_ok :: "delete_body_path_segment list \<Rightarrow> bool" where
  "body_path_ok path \<longleftrightarrow> path \<noteq> [] \<and> length path \<le> MAX_BODY_PATH_SEGMENTS"

fun delete_op_ok :: "delete_op \<Rightarrow> bool" where
  "delete_op_ok (DelPathSegment (SegmentIndex n)) \<longleftrightarrow> - (2 ^ 31) \<le> n \<and> n < 2 ^ 31"
| "delete_op_ok (DelUrlParam n) \<longleftrightarrow> delete_name_ok n"
| "delete_op_ok (DelReqHeader n) \<longleftrightarrow> delete_name_ok n"
| "delete_op_ok (DelResHeader n) \<longleftrightarrow> delete_name_ok n"
| "delete_op_ok (DelReqBodyPath path) \<longleftrightarrow> body_path_ok path"
| "delete_op_ok (DelResBodyPath path) \<longleftrightarrow> body_path_ok path"
| "delete_op_ok (DelReqCookie n) \<longleftrightarrow> delete_name_ok n"
| "delete_op_ok (DelResCookie n) \<longleftrightarrow> delete_name_ok n"
| "delete_op_ok (DelTrailer n) \<longleftrightarrow> delete_name_ok n"
| "delete_op_ok _ \<longleftrightarrow> True"

fun query_op_name :: "query_op \<Rightarrow> string" where
  "query_op_name (QuerySet n _) = n"
| "query_op_name (QueryRemove n) = n"

fun wf_action :: "action \<Rightarrow> bool" where
  "wf_action (Host as) \<longleftrightarrow> as \<noteq> [] \<and> list_all (\<lambda>a. trim (value_source a) \<noteq> []) as"
| "wf_action (Status c) \<longleftrightarrow> MIN_FINAL_HTTP_STATUS \<le> c \<and> c \<le> MAX_HTTP_STATUS"
| "wf_action (ResStatus c) \<longleftrightarrow> MIN_FINAL_HTTP_STATUS \<le> c \<and> c \<le> MAX_HTTP_STATUS"
| "wf_action (Redirect u c) \<longleftrightarrow> c \<in> set REDIRECT_STATUSES"
| "wf_action (MockInline op) \<longleftrightarrow> mock_op_ok op"
| "wf_action (ReqHeader op) \<longleftrightarrow> header_op_ok op"
| "wf_action (ResHeader op) \<longleftrightarrow> header_op_ok op"
| "wf_action (ResTrailer op) \<longleftrightarrow> trailer_op_ok op"
| "wf_action (ReqCookie op) \<longleftrightarrow> cookie_op_ok op"
| "wf_action (ResCookie op) \<longleftrightarrow> cookie_op_ok op"
| "wf_action (Cache (CacheDirectives ds)) \<longleftrightarrow> ds \<noteq> [] \<and> list_all (\<lambda>d. directive_name d \<noteq> []) ds"
| "wf_action (Tls op) \<longleftrightarrow> tls_op_ok op"
| "wf_action (UrlQuery ops) \<longleftrightarrow> ops \<noteq> [] \<and> list_all (\<lambda>op. query_op_name op \<noteq> []) ops"
| "wf_action (Delete ops) \<longleftrightarrow> ops \<noteq> [] \<and> list_all delete_op_ok ops"
| "wf_action (Throttle phase n) \<longleftrightarrow> n \<noteq> 0"
| "wf_action (Skip families) \<longleftrightarrow> fs_wf families"
| "wf_action _ \<longleftrightarrow> True"

lemma normalize_header_name_ok: "normalize_header_name s = Inr n \<Longrightarrow> lower_token n"
  by (auto simp: normalize_header_name_def Let_def lower_token_def is_token_def [symmetric] is_token_case
      split: if_splits)

lemma parse_header_op_ok: "parse_header_op E s = Inr op \<Longrightarrow> header_op_ok op"
  by (auto simp: parse_header_op_def header_op_ok_def Let_def try_bind_Inr_iff
      intro: normalize_header_name_ok split: option.splits prod.splits)

lemma validate_trailer_op_ok: "header_op_ok op \<Longrightarrow> validate_trailer_op op = Inr u \<Longrightarrow> trailer_op_ok op"
  by (auto simp: trailer_op_ok_def validate_trailer_op_def split: header_op.splits if_splits)

lemma parse_cookie_op_ok: "parse_cookie_op s = Inr op \<Longrightarrow> cookie_op_ok op"
  by (auto simp: parse_cookie_op_def cookie_op_ok_def parse_cookie_attr_def Let_def try_bind_Inr_iff
      elim!: collect_results_all(1) split: option.splits prod.splits if_splits)

lemma parse_cache_op_ok: "parse_cache_op args = Inr op \<Longrightarrow> wf_action (Cache op)"
  by (auto simp: parse_cache_op_def parse_cache_directive_def Let_def try_bind_Inr_iff
      elim!: collect_results_all(1) split: option.splits prod.splits if_splits)

lemma parse_query_ops_ok: "parse_query_ops args = Inr ops \<Longrightarrow> wf_action (UrlQuery ops)"
  by (auto simp: parse_query_ops_def parse_query_op_def Let_def try_bind_Inr_iff
      dest: collect_results_all(2) [where P = "\<lambda>_. True"]
      elim!: collect_results_all(1) split: option.splits prod.splits if_splits)

lemma mock_argument_ok:
  assumes "mock_argument arg op = Inr op'"
    and "list_all (\<lambda>(n, _). n = ''Content-Type'' \<or> lower_token n) (mock_headers op)"
    and "case mock_status op of None \<Rightarrow> True | Some s \<Rightarrow> MIN_FINAL_HTTP_STATUS \<le> s \<and> s \<le> MAX_HTTP_STATUS"
  shows "list_all (\<lambda>(n, _). n = ''Content-Type'' \<or> lower_token n) (mock_headers op') \<and>
    (case mock_status op' of None \<Rightarrow> True | Some s \<Rightarrow> MIN_FINAL_HTTP_STATUS \<le> s \<and> s \<le> MAX_HTTP_STATUS)"
  using assms
  by (auto simp: mock_argument_def Let_def try_bind_Inr_iff dest: normalize_header_name_ok
      split: option.splits prod.splits if_splits)

lemma mock_loop_ok:
  assumes "mock_loop args op = Inr op'"
    and "list_all (\<lambda>(n, _). n = ''Content-Type'' \<or> lower_token n) (mock_headers op)"
    and "case mock_status op of None \<Rightarrow> True | Some s \<Rightarrow> MIN_FINAL_HTTP_STATUS \<le> s \<and> s \<le> MAX_HTTP_STATUS"
  shows "list_all (\<lambda>(n, _). n = ''Content-Type'' \<or> lower_token n) (mock_headers op') \<and>
    (case mock_status op' of None \<Rightarrow> True | Some s \<Rightarrow> MIN_FINAL_HTTP_STATUS \<le> s \<and> s \<le> MAX_HTTP_STATUS)"
  using assms
proof (induction args arbitrary: op)
  case (Cons a args)
  from Cons.prems(1) obtain op1 where "mock_argument a op = Inr op1" "mock_loop args op1 = Inr op'"
    by (auto simp: try_bind_Inr_iff)
  with mock_argument_ok [OF this(1) Cons.prems(2,3)] Cons.IH show ?case by blast
qed simp

lemma parse_mock_ok: "parse_mock args = Inr a \<Longrightarrow> wf_action a"
  using mock_loop_ok [of args "\<lparr>mock_status = None, mock_headers = [], mock_body = None\<rparr>"]
  by (fastforce simp: parse_mock_def try_bind_Inr_iff mock_op_ok_def status_forbids_body_def
      split: if_splits option.splits)

lemma tls_loop_distinct: "tls_loop args op = Inr op' \<Longrightarrow> distinct (tls_ciphers op) \<Longrightarrow> distinct (tls_ciphers op')"
proof (induction args arbitrary: op)
  case (Cons a args)
  from Cons.prems(1) obtain op1 where op1: "tls_option a op = Inr op1" "tls_loop args op1 = Inr op'"
    by (auto simp: try_bind_Inr_iff)
  from op1(1) Cons.prems(2) have "distinct (tls_ciphers op1)"
    by (auto simp: tls_option_def Let_def try_bind_Inr_iff intro: distinct_dedup_onto
        split: option.splits prod.splits if_splits)
  with Cons.IH op1(2) show ?case by blast
qed simp

lemma parse_tls_op_ok: "parse_tls_op args = Inr op \<Longrightarrow> tls_op_ok op"
  by (auto simp: parse_tls_op_def tls_op_ok_def try_bind_Inr_iff list_all_iff list_ex_iff
      dest: tls_loop_distinct split: if_splits)

lemma body_path_loop_bound:
  "body_path_loop cs segs = Inr segs' \<Longrightarrow> length segs \<le> MAX_BODY_PATH_SEGMENTS \<Longrightarrow>
     length segs' \<le> MAX_BODY_PATH_SEGMENTS"
  by (induction cs segs rule: body_path_loop.induct) (auto simp: try_bind_Inr_iff split: if_splits)

lemma parse_body_path_ok: "parse_body_path s = Inr path \<Longrightarrow> body_path_ok path"
  using body_path_loop_bound [of _ "[]"]
  by (auto simp: parse_body_path_def body_path_ok_def delete_body_path_new_def try_bind_Inr_iff split: if_splits)

definition delete_ops_ok :: "delete_op list \<Rightarrow> bool" where
  "delete_ops_ok ops \<longleftrightarrow> ops \<noteq> [] \<and> list_all delete_op_ok ops"

lemma delete_ops_ok_simps [simp]:
  "delete_ops_ok [x] \<longleftrightarrow> delete_op_ok x"
  "delete_ops_ok [x, y] \<longleftrightarrow> delete_op_ok x \<and> delete_op_ok y"
  by (simp_all add: delete_ops_ok_def)

definition test_ok :: "(string \<Rightarrow> delete_op list model_result option) \<Rightarrow> bool" where
  "test_ok test \<longleftrightarrow> (\<forall>p ops. test p = Some (Inr ops) \<longrightarrow> delete_ops_ok ops)"

lemma on_names_ok: "delete_ops_ok ops \<Longrightarrow> test_ok (on_names names ops)"
  by (simp add: test_ok_def on_names_def)

lemma on_suffix_ok: "(\<And>s ops. f s = Inr ops \<Longrightarrow> delete_ops_ok ops) \<Longrightarrow> test_ok (on_suffix heads f)"
  by (auto simp: test_ok_def on_suffix_def)

lemma parse_path_segment_ok: "parse_path_segment s = Inr ops \<Longrightarrow> delete_ops_ok ops"
  by (auto simp: parse_path_segment_def Let_def delete_ops_ok_def dest: parse_i32_range split: if_splits sum.splits)

lemma with_name_ok:
  "with_name f s = Inr ops \<Longrightarrow> (\<And>n. delete_name_ok n \<Longrightarrow> delete_ops_ok (f n)) \<Longrightarrow> delete_ops_ok ops"
  by (auto simp: with_name_def valid_name_def Let_def try_bind_Inr_iff delete_name_ok_def split: if_splits)

lemma with_path_ok:
  "with_path f s = Inr ops \<Longrightarrow> (\<And>path. body_path_ok path \<Longrightarrow> delete_op_ok (f path)) \<Longrightarrow> delete_ops_ok ops"
  by (auto simp: with_path_def try_bind_Inr_iff delete_ops_ok_def dest: parse_body_path_ok)

lemma delete_properties_ok: "list_all test_ok DELETE_PROPERTIES"
  unfolding DELETE_PROPERTIES_def list.pred_inject
  by (intro conjI TrueI on_names_ok on_suffix_ok)
     (auto intro: parse_path_segment_ok elim!: with_name_ok with_path_ok)

lemma find_some_in: "find_some f xs = Some y \<Longrightarrow> \<exists>x \<in> set xs. f x = Some y"
  by (induction xs) (auto split: option.splits)

lemma parse_delete_property_ok: "parse_delete_property p = Inr ops \<Longrightarrow> delete_ops_ok ops"
  using delete_properties_ok
  by (auto simp: parse_delete_property_def list_all_iff test_ok_def dest!: find_some_in split: option.splits)

lemma parse_delete_ops_ok: "parse_delete_ops args = Inr ops \<Longrightarrow> delete_ops_ok ops"
proof -
  assume "parse_delete_ops args = Inr ops"
  then obtain f opss where f: "args \<noteq> []" "collect_results f args = Inr opss" "ops = concat opss"
    "\<And>raw. f raw = (let property = unquote (trim raw) in
       if property = [] then Inl (EmptyInput ''delete property'') else parse_delete_property property)"
    unfolding parse_delete_ops_def by (auto simp: try_bind_Inr_iff split: if_splits)
  have "delete_ops_ok ops" if "f raw = Inr ops" for raw ops
    using that parse_delete_property_ok by (auto simp: f(4) Let_def split: if_splits)
  with collect_results_all [OF f(2), of delete_ops_ok] f(1) have "opss \<noteq> []" "list_all delete_ops_ok opss"
    by blast+
  with f(3) show ?thesis by (cases opss) (auto simp: delete_ops_ok_def list_all_iff)
qed

lemma fs_from_prefix_wf: "fs_from_prefix p = Some s \<Longrightarrow> fs_wf s"
  using fs.wf_full fs.foldl_ins_if [OF fs.wf_empty]
  by (auto simp: fs_from_prefix_def Let_def split: if_splits)

lemma skip_loop_wf: "skip_loop args families = Inr families' \<Longrightarrow> fs_wf families \<Longrightarrow> fs_wf families'"
  by (induction args families rule: skip_loop.induct)
     (auto intro: fs.wf_un fs_from_prefix_wf split: option.splits)

section \<open>The table of actions\<close>

definition parser_ok :: "action_parser \<Rightarrow> bool" where
  "parser_ok p \<longleftrightarrow> (\<forall>E input args a. p E input args = Inr a \<longrightarrow> wf_action a)"

lemma one_value_ok: "(\<And>v. wf_action (f v)) \<Longrightarrow> parser_ok (one_value f)"
  by (auto simp: parser_ok_def one_value_def try_bind_Inr_iff)

lemma from_args_ok: "(\<And>args op. parse args = Inr op \<Longrightarrow> wf_action (f op)) \<Longrightarrow> parser_ok (from_args parse f)"
  by (auto simp: parser_ok_def from_args_def try_bind_Inr_iff)

lemma parse_status_action_ok:
  "(\<And>c. MIN_FINAL_HTTP_STATUS \<le> c \<Longrightarrow> c \<le> MAX_HTTP_STATUS \<Longrightarrow> wf_action (f c)) \<Longrightarrow>
     parser_ok (parse_status_action ctx f)"
  by (auto simp: parser_ok_def parse_status_action_def try_bind_Inr_iff)

lemma parse_header_action_ok:
  "(\<And>op. header_op_ok op \<Longrightarrow> wf_action (f op)) \<Longrightarrow> parser_ok (parse_header_action f)"
  by (auto simp: parser_ok_def parse_header_action_def try_bind_Inr_iff dest: parse_header_op_ok)

lemma parse_cookie_action_ok:
  "(\<And>op. cookie_op_ok op \<Longrightarrow> wf_action (f op)) \<Longrightarrow> parser_ok (parse_cookie_action f)"
  by (auto simp: parser_ok_def parse_cookie_action_def try_bind_Inr_iff dest: parse_cookie_op_ok)

lemma parse_body_replace_action_ok: "(\<And>op. wf_action (f op)) \<Longrightarrow> parser_ok (parse_body_replace_action f)"
  by (auto simp: parser_ok_def parse_body_replace_action_def try_bind_Inr_iff)

lemma parse_timed_action_ok:
  "(\<And>s phase n. parse s = Inr n \<Longrightarrow> wf_action (f phase n)) \<Longrightarrow> parser_ok (parse_timed_action ctx pctx parse f)"
  by (auto simp: parser_ok_def parse_timed_action_def try_bind_Inr_iff split: if_splits)

lemma single_parsers_ok:
  "parser_ok parse_host_action" "parser_ok parse_upstream_action" "parser_ok parse_map_remote_action"
  "parser_ok parse_redirect_action" "parser_ok parse_trailer_action" "parser_ok parse_attachment_action"
  "parser_ok parse_url_rewrite_action" "parser_ok parse_skip_action" "parser_ok (\<lambda>E input args. parse_mock args)"
  using skip_loop_wf [OF _ fs.wf_empty] validate_trailer_op_ok parse_header_op_ok parse_mock_ok
  by (auto simp: parser_ok_def parse_host_action_def host_pool_new_def parse_upstream_action_def
      parse_map_remote_action_def parse_redirect_action_def parse_trailer_action_def parse_attachment_action_def
      parse_url_rewrite_action_def parse_skip_action_def try_bind_Inr_iff list_all_iff list_ex_iff
      split: if_splits list.splits)

lemma action_parsers_ok: "list_all (\<lambda>(name, p). parser_ok p) ACTION_PARSERS"
  unfolding ACTION_PARSERS_def list.pred_inject prod.case
  by (intro conjI TrueI single_parsers_ok one_value_ok from_args_ok parse_status_action_ok parse_header_action_ok
      parse_cookie_action_ok parse_body_replace_action_ok parse_timed_action_ok)
     (auto simp: parse_tls_op_ok delete_ops_ok_def [symmetric] parse_delete_ops_ok
       dest: parse_cache_op_ok parse_query_ops_ok parse_speed_bps_positive)

lemma parse_action_ok:
  assumes "parse_action E input profile = Inr a"
  shows "wf_action a \<and> validate_templates E a = Inr ()"
proof -
  consider "a \<in> {Direct, Bypass, Hide}" | args p name where "map_of ACTION_PARSERS name = Some p"
    "p E input args = Inr a" "validate_templates E a = Inr ()"
    using assms
    by (auto simp: parse_action_def Let_def try_bind_Inr_iff split: if_split_asm option.split_asm) blast
  then show ?thesis
  proof cases
    case 2
    with action_parsers_ok have "parser_ok p" by (auto simp: list_all_iff dest!: map_of_SomeD)
    with 2 show ?thesis by (auto simp: parser_ok_def)
  qed auto
qed

text \<open>
  C36: an accepted action is well formed and its templates are valid: final statuses lie in
  200..599, redirects use one of the five redirect statuses, host pools and deletions are not
  empty, header names are lower-case tokens, no forbidden field gets into a trailer, a mock
  without content has no body, client certificates come with their key, throttles are
  positive, and every template in it has passed validation.
\<close>

theorem parse_action_wf:
  assumes "parse_action E input profile = Inr a"
  shows "wf_action a \<and> validate_templates E a = Inr ()"
  using assms by (rule parse_action_ok)

theorem parse_action_wf_witness:
  "parse_action demo_ext ''delete(body, pathname.-1)'' Compatible =
     Inr (Delete [DelReqBody, DelResBody, DelPathSegment (SegmentIndex (- 1))]) \<and>
   wf_action (Delete [DelReqBody, DelResBody, DelPathSegment (SegmentIndex (- 1))])"
proof -
  have p: "parse_action demo_ext ''delete(body, pathname.-1)'' Compatible =
     Inr (Delete [DelReqBody, DelResBody, DelPathSegment (SegmentIndex (- 1))])"
    by code_simp
  from p parse_action_wf [OF p] show ?thesis by blast
qed

end
