(* ===== verification/Rule_Lint.thy ===== *)
theory Rule_Lint
  imports Rule_Resolve
begin

text \<open>
  The shadow lint (\<open>lint.rs\<close>, \<open>family.rs\<close>): which later rules can never win a first-wins
  family because an earlier, condition-free rule with a covering matcher always claims it.
  The findings are sound against resolution, and the report stays within its budgets.
\<close>

section \<open>Effective actions\<close>

fun effective_from :: "action_family_set \<Rightarrow> action list \<Rightarrow> action list" where
  "effective_from skip [] = []"
| "effective_from skip (a # as) =
     (if skip_suppresses skip (family_of a) then effective_from skip as
      else a # effective_from (skip_observe skip a) as)"

definition effective_actions :: "rule \<Rightarrow> action list" where
  "effective_actions r = effective_from FS_EMPTY (rule_actions r)"

definition single_families :: "rule \<Rightarrow> string list" where
  "single_families r =
     dedup_onto [] (map (\<lambda>a. family_as_str (family_of a)) (filter is_single (effective_actions r)))"

section \<open>Subsumption\<close>

definition host_pattern_subsumes :: "ext \<Rightarrow> string \<Rightarrow> string \<Rightarrow> compiled_glob_set \<Rightarrow> bool" where
  "host_pattern_subsumes E a b globs =
     (if a = b \<or> a = ''*'' \<or> a = ''**'' then True
      else if \<not> glob_syntax_is_active b then host_matches E globs a b
      else (case strip_prefix a ''**.'' of
        None \<Rightarrow> False
      | Some base \<Rightarrow>
          (case (case strip_prefix b ''**.'' of Some l \<Rightarrow> Some l | None \<Rightarrow> strip_prefix b ''*.'') of
             None \<Rightarrow> False
           | Some later_base \<Rightarrow>
               \<not> glob_syntax_is_active later_base \<and>
               (later_base = base \<or> dotted_suffix_prefix later_base base \<noteq> None))))"

definition glob_subsumes :: "ext \<Rightarrow> glob_matcher \<Rightarrow> glob_matcher \<Rightarrow> compiled_glob_set \<Rightarrow> bool" where
  "glob_subsumes E a b globs \<longleftrightarrow>
     (gm_scheme a = None \<or> gm_scheme a = gm_scheme b) \<and>
     host_pattern_subsumes E (gm_host a) (gm_host b) globs \<and>
     (gm_port a = None \<or> gm_port a = gm_port b) \<and>
     (gm_path a = None \<or> gm_path a = gm_path b) \<and>
     (gm_query a = None \<or> gm_query a = gm_query b)"

definition matcher_subsumes :: "ext \<Rightarrow> matcher \<Rightarrow> matcher \<Rightarrow> compiled_glob_set \<Rightarrow> bool" where
  "matcher_subsumes E a b globs =
     (case (a, b) of
        (MGlob ga, MGlob gb) \<Rightarrow> glob_subsumes E ga gb globs
      | (MGlob _, MExactUrl url) \<Rightarrow>
          (case url_parse url of
             Inl _ \<Rightarrow> False
           | Inr parts \<Rightarrow>
               matches_compiled E a parts url globs (bind_matcher_resources a globs) \<noteq> None)
      | (MExactUrl ua, MExactUrl ub) \<Rightarrow> ua = ub
      | _ \<Rightarrow> False)"

section \<open>The report\<close>

record lint_finding =
  lf_group :: string
  lf_line :: nat
  lf_raw :: string
  lf_shadowed_by_group :: string
  lf_shadowed_by_line :: nat
  lf_shadowed_by_raw :: string
  lf_families :: "string list"

record lint_report =
  lr_findings :: "lint_finding list"
  lr_complete :: bool
  lr_comparisons :: nat
  lr_comparison_bytes :: nat

definition opt_len :: "string option \<Rightarrow> nat" where
  "opt_len s = (case s of None \<Rightarrow> 0 | Some s \<Rightarrow> length s)"

fun matcher_source_bytes :: "matcher \<Rightarrow> nat" where
  "matcher_source_bytes (MExactUrl url) = length url"
| "matcher_source_bytes (MGlob g) =
     saturating_add (saturating_add (saturating_add (saturating_add (opt_len (gm_scheme g))
       (length (gm_host g))) (opt_len (gm_port g))) (opt_len (gm_path g))) (opt_len (gm_query g))"
| "matcher_source_bytes (MPort _) = 2"
| "matcher_source_bytes (MRegex r) = length (rm_pattern r)"
| "matcher_source_bytes (MNot m) = matcher_source_bytes m"

definition lint_finding_bytes :: "lint_finding \<Rightarrow> nat" where
  "lint_finding_bytes f =
     saturating_add (saturating_add (saturating_add (saturating_add (length (lf_group f))
       (length (lf_raw f))) (length (lf_shadowed_by_group f))) (length (lf_shadowed_by_raw f)))
       (sum_list (map length (lf_families f)))"

record lint_state =
  ls_findings :: "lint_finding list"
  ls_report_bytes :: nat
  ls_comparisons :: nat
  ls_comparison_bytes :: nat
  ls_complete :: bool

definition over_budget :: "nat \<Rightarrow> nat \<Rightarrow> nat \<Rightarrow> bool" where
  "over_budget used cost limit = (case checked_add used cost of None \<Rightarrow> True | Some n \<Rightarrow> limit < n)"

definition make_finding :: "rule \<Rightarrow> rule \<Rightarrow> string list \<Rightarrow> lint_finding" where
  "make_finding later earlier shared =
     \<lparr>lf_group = rule_group later, lf_line = rule_line later, lf_raw = rule_raw later,
      lf_shadowed_by_group = rule_group earlier, lf_shadowed_by_line = rule_line earlier,
      lf_shadowed_by_raw = rule_raw earlier, lf_families = shared\<rparr>"

text \<open>
  The loop over the earlier rules; the Boolean result is the \<open>break 'later\<close> that ends the
  whole lint when a budget is exhausted.
\<close>

fun lint_inner ::
  "ext \<Rightarrow> compiled_glob_set \<Rightarrow> rule \<Rightarrow> rule list \<Rightarrow> string list \<Rightarrow> lint_state \<Rightarrow> lint_state \<times> bool" where
  "lint_inner E globs later [] remaining st = (st, False)"
| "lint_inner E globs later (earlier # es) remaining st =
     (let comparison_size =
            saturating_add (matcher_source_bytes (rule_matcher later))
              (matcher_source_bytes (rule_matcher earlier)) in
      if ls_comparisons st = MAX_RULE_LINT_COMPARISONS then (st\<lparr>ls_complete := False\<rparr>, True)
      else if over_budget (ls_comparison_bytes st) comparison_size MAX_RULE_LINT_COMPARISON_BYTES
      then (st\<lparr>ls_complete := False\<rparr>, True)
      else
        (let st = st\<lparr>ls_comparisons := ls_comparisons st + 1,
                     ls_comparison_bytes := ls_comparison_bytes st + comparison_size\<rparr>;
             shared = filter (\<lambda>f. f \<in> set remaining) (single_families earlier) in
         if rule_conditions earlier \<noteq> [] then lint_inner E globs later es remaining st
         else if shared = [] then lint_inner E globs later es remaining st
         else if \<not> matcher_subsumes E (rule_matcher earlier) (rule_matcher later) globs
         then lint_inner E globs later es remaining st
         else
           (let remaining = filter (\<lambda>f. f \<notin> set shared) remaining;
                finding = make_finding later earlier shared;
                size = lint_finding_bytes finding in
            if length (ls_findings st) = MAX_RULE_LINT_FINDINGS \<or>
               over_budget (ls_report_bytes st) size MAX_RULE_LINT_REPORT_BYTES
            then (st\<lparr>ls_complete := False\<rparr>, True)
            else
              (let st = st\<lparr>ls_report_bytes := ls_report_bytes st + size,
                           ls_findings := ls_findings st @ [finding]\<rparr> in
               if remaining = [] then (st, False)
               else lint_inner E globs later es remaining st))))"

fun lint_outer ::
  "ext \<Rightarrow> compiled_glob_set \<Rightarrow> rule list \<Rightarrow> rule list \<Rightarrow> lint_state \<Rightarrow> lint_state" where
  "lint_outer E globs earlier [] st = st"
| "lint_outer E globs earlier (later # ls) st =
     (if single_families later = [] then lint_outer E globs (earlier @ [later]) ls st
      else (case lint_inner E globs later earlier (single_families later) st of
              (st, stop) \<Rightarrow> if stop then st else lint_outer E globs (earlier @ [later]) ls st))"

definition lint_init :: lint_state where
  "lint_init = \<lparr>ls_findings = [], ls_report_bytes = 0, ls_comparisons = 0, ls_comparison_bytes = 0,
                ls_complete = True\<rparr>"

definition lint_order :: "rule_set \<Rightarrow> nat list" where
  "lint_order rs =
     sort_key (\<lambda>i. (\<not> rule_important (rs_rules rs ! i), i))
       (filter (\<lambda>i. \<not> rule_disabled (rs_rules rs ! i)) [0..<length (rs_rules rs)])"

definition lint_report :: "ext \<Rightarrow> rule_set \<Rightarrow> lint_report" where
  "lint_report E rs =
     (let st = lint_outer E (compiled_globs (rs_index rs)) []
                 (map ((!) (rs_rules rs)) (lint_order rs)) lint_init in
      \<lparr>lr_findings = ls_findings st, lr_complete = ls_complete st,
       lr_comparisons = ls_comparisons st, lr_comparison_bytes = ls_comparison_bytes st\<rparr>)"

section \<open>Budgets\<close>

definition within_budgets :: "lint_state \<Rightarrow> bool" where
  "within_budgets st \<longleftrightarrow>
     length (ls_findings st) \<le> MAX_RULE_LINT_FINDINGS \<and>
     ls_report_bytes st = sum_list (map lint_finding_bytes (ls_findings st)) \<and>
     ls_report_bytes st \<le> MAX_RULE_LINT_REPORT_BYTES \<and>
     ls_comparisons st \<le> MAX_RULE_LINT_COMPARISONS \<and>
     ls_comparison_bytes st \<le> MAX_RULE_LINT_COMPARISON_BYTES"

lemma over_budgetD: "\<not> over_budget used cost limit \<Longrightarrow> used + cost \<le> limit"
  by (auto simp: over_budget_def dest: checked_add_SomeD split: option.splits)

text \<open>What the two loops keep: a property closed under counting a comparison, recording a
  finding and stopping early.\<close>

lemma lint_inner_invariant:
  assumes cmp: "\<And>st n. P st \<Longrightarrow> ls_comparisons st \<noteq> MAX_RULE_LINT_COMPARISONS \<Longrightarrow>
      \<not> over_budget (ls_comparison_bytes st) n MAX_RULE_LINT_COMPARISON_BYTES \<Longrightarrow>
      P (st\<lparr>ls_comparisons := ls_comparisons st + 1, ls_comparison_bytes := ls_comparison_bytes st + n\<rparr>)"
    and found: "\<And>st earlier shared. P st \<Longrightarrow> earlier \<in> set es \<Longrightarrow> rule_conditions earlier = [] \<Longrightarrow>
      set shared \<subseteq> set (single_families earlier) \<inter> set (single_families later) \<Longrightarrow>
      matcher_subsumes E (rule_matcher earlier) (rule_matcher later) globs \<Longrightarrow>
      length (ls_findings st) \<noteq> MAX_RULE_LINT_FINDINGS \<Longrightarrow>
      \<not> over_budget (ls_report_bytes st) (lint_finding_bytes (make_finding later earlier shared))
          MAX_RULE_LINT_REPORT_BYTES \<Longrightarrow>
      P (st\<lparr>ls_report_bytes := ls_report_bytes st + lint_finding_bytes (make_finding later earlier shared),
            ls_findings := ls_findings st @ [make_finding later earlier shared]\<rparr>)"
    and stop: "\<And>st. P st \<Longrightarrow> P (st\<lparr>ls_complete := False\<rparr>)"
  shows "P st \<Longrightarrow> set remaining \<subseteq> set (single_families later) \<Longrightarrow> set fs \<subseteq> set es \<Longrightarrow>
    P (fst (lint_inner E globs later fs remaining st))"
proof (induction fs arbitrary: remaining st)
  case Nil
  then show ?case by simp
next
  case (Cons earlier fs)
  have if_fst: "(b \<Longrightarrow> P (fst x)) \<Longrightarrow> (\<not> b \<Longrightarrow> P (fst y)) \<Longrightarrow> P (fst (if b then x else y))"
    for b and x y :: "lint_state \<times> bool" by simp
  show ?case
    unfolding lint_inner.simps Let_def
    by (intro if_fst; (unfold fst_conv)?; (rule stop found Cons.IH)?; (intro cmp stop found)?)
       (use Cons.prems in auto)
qed

lemma lint_outer_invariant:
  assumes cmp: "\<And>st n. P st \<Longrightarrow> ls_comparisons st \<noteq> MAX_RULE_LINT_COMPARISONS \<Longrightarrow>
      \<not> over_budget (ls_comparison_bytes st) n MAX_RULE_LINT_COMPARISON_BYTES \<Longrightarrow>
      P (st\<lparr>ls_comparisons := ls_comparisons st + 1, ls_comparison_bytes := ls_comparison_bytes st + n\<rparr>)"
    and found: "\<And>st pre earlier mid later post shared. P st \<Longrightarrow> rules = pre @ earlier # mid @ later # post \<Longrightarrow>
      rule_conditions earlier = [] \<Longrightarrow>
      set shared \<subseteq> set (single_families earlier) \<inter> set (single_families later) \<Longrightarrow>
      matcher_subsumes E (rule_matcher earlier) (rule_matcher later) globs \<Longrightarrow>
      length (ls_findings st) \<noteq> MAX_RULE_LINT_FINDINGS \<Longrightarrow>
      \<not> over_budget (ls_report_bytes st) (lint_finding_bytes (make_finding later earlier shared))
          MAX_RULE_LINT_REPORT_BYTES \<Longrightarrow>
      P (st\<lparr>ls_report_bytes := ls_report_bytes st + lint_finding_bytes (make_finding later earlier shared),
            ls_findings := ls_findings st @ [make_finding later earlier shared]\<rparr>)"
    and stop: "\<And>st. P st \<Longrightarrow> P (st\<lparr>ls_complete := False\<rparr>)"
  shows "P st \<Longrightarrow> rules = es @ ls \<Longrightarrow> P (lint_outer E globs es ls st)"
proof (induction ls arbitrary: es st)
  case Nil
  then show ?case by simp
next
  case (Cons later ls)
  have "P (fst (lint_inner E globs later es (single_families later) st))"
  proof (rule lint_inner_invariant [OF cmp _ stop])
    fix st earlier shared
    assume a: "P st" "earlier \<in> set es" "rule_conditions earlier = []"
      "set shared \<subseteq> set (single_families earlier) \<inter> set (single_families later)"
      "matcher_subsumes E (rule_matcher earlier) (rule_matcher later) globs"
      "length (ls_findings st) \<noteq> MAX_RULE_LINT_FINDINGS"
      "\<not> over_budget (ls_report_bytes st) (lint_finding_bytes (make_finding later earlier shared))
          MAX_RULE_LINT_REPORT_BYTES"
    from a(2) obtain pre mid where "es = pre @ earlier # mid" by (meson split_list)
    with Cons.prems(2) have "rules = pre @ earlier # mid @ later # ls" by simp
    from found [OF a(1) this a(3-7)]
    show "P (st\<lparr>ls_report_bytes := ls_report_bytes st + lint_finding_bytes (make_finding later earlier shared),
            ls_findings := ls_findings st @ [make_finding later earlier shared]\<rparr>)" .
  qed (use Cons.prems in simp_all)
  with Cons show ?case by (auto split: prod.split)
qed

text \<open>
  The report of the shadow lint is bounded, whatever the snapshot: at most the
  documented numbers of comparisons, compared bytes and findings, and the findings'
  text within the report limit.
\<close>

theorem lint_report_bounds:
  "lr_comparisons (lint_report E rs) \<le> MAX_RULE_LINT_COMPARISONS \<and>
   lr_comparison_bytes (lint_report E rs) \<le> MAX_RULE_LINT_COMPARISON_BYTES \<and>
   length (lr_findings (lint_report E rs)) \<le> MAX_RULE_LINT_FINDINGS \<and>
   sum_list (map lint_finding_bytes (lr_findings (lint_report E rs))) \<le> MAX_RULE_LINT_REPORT_BYTES"
proof -
  have "within_budgets (lint_outer E (compiled_globs (rs_index rs)) [] (map ((!) (rs_rules rs)) (lint_order rs)) lint_init)"
  proof (rule lint_outer_invariant)
    show "within_budgets lint_init"
      by (simp add: within_budgets_def lint_init_def)
  qed (auto simp: within_budgets_def dest!: over_budgetD)
  then show ?thesis by (simp add: within_budgets_def lint_report_def Let_def)
qed

section \<open>Subsumption is sound\<close>

definition normal_host :: "string \<Rightarrow> bool" where
  "normal_host h \<longleftrightarrow> to_ascii_lowercase (trim_brackets h) = h"

fun normal_matcher :: "matcher \<Rightarrow> bool" where
  "normal_matcher (MGlob g) = normal_host (gm_host g)"
| "normal_matcher _ = True"

text \<open>A glob with a query pattern set against an exact URL without a query.\<close>

definition query_gap :: "matcher \<Rightarrow> matcher \<Rightarrow> bool" where
  "query_gap a b =
     (case (a, b) of
        (MGlob g, MExactUrl e) \<Rightarrow>
          gm_query g \<noteq> None \<and>
          (case url_parse e of Inl _ \<Rightarrow> False | Inr u \<Rightarrow> url_query u = None)
      | _ \<Rightarrow> False)"

lemma host_matches_spec:
  assumes "keys_bound E globs (matcher_keys (MGlob g))" "normal_host (gm_host g)"
  shows "host_matches E globs (gm_host g) h = host_spec E (gm_host g) (gm_host g) h"
  unfolding host_matches_def assms(2) [unfolded normal_host_def]
  by (rule host_matches_id_spec) (use assms(1) in auto)

lemma host_spec_cong:
  "to_ascii_lowercase (trim_brackets h) = to_ascii_lowercase (trim_brackets h') \<Longrightarrow>
     host_spec E p k h = host_spec E p k h'"
  by (simp add: host_spec_def)

lemma trim_brackets_star: "trim_brackets ''*'' = ''*''" "trim_brackets ''**'' = ''**''"
  by code_simp+

lemma strip_prefix_same: "strip_prefix (p @ s) q = Some s \<Longrightarrow> length p = length q \<Longrightarrow> p = q"
  by (auto simp: strip_prefix_Some_iff)

lemma host_pattern_subsumes_sound:
  assumes sub: "host_pattern_subsumes E (gm_host ga) (gm_host gb) globs"
    and keys: "keys_bound E globs (matcher_keys (MGlob ga))"
    and na: "normal_host (gm_host ga)" and nb: "normal_host (gm_host gb)"
    and b: "host_spec E (gm_host gb) (gm_host gb) h"
  shows "host_spec E (gm_host ga) (gm_host ga) h"
proof -
  let ?a = "gm_host ga" and ?b = "gm_host gb"
  define n where "n = to_ascii_lowercase (trim_brackets h)"
  note spec_a = host_spec_def [of E ?a ?a h, folded n_def, unfolded Let_def na [unfolded normal_host_def]]
  note spec_b = b [unfolded host_spec_def, folded n_def, unfolded Let_def nb [unfolded normal_host_def]]
  consider (same) "?a = ?b" | (star) "?a = ''*'' \<or> ?a = ''**''"
    | (literal) "\<not> glob_syntax_is_active ?b" "host_matches E globs ?a ?b"
    | (nested) base later_base where "?a = ''**.'' @ base"
        "?b = ''**.'' @ later_base \<or> ?b = ''*.'' @ later_base"
        "later_base = base \<or> (\<exists>pre. later_base = pre @ ''.'' @ base)"
    using sub unfolding host_pattern_subsumes_def
    by (auto simp: strip_prefix_Some_iff dotted_suffix_prefix_Some_iff split: if_splits option.splits)
  then show ?thesis
  proof cases
    case same
    with b show ?thesis by simp
  next
    case star
    then show ?thesis by (auto simp: spec_a)
  next
    case literal
    have "?b \<noteq> ''**''" "?b \<noteq> ''*''" "strip_prefix ?b ''**.'' = None" "strip_prefix ?b ''*.'' = None"
      using literal(1) by (auto simp: glob_syntax_is_active_iff strip_prefix_None_iff)
    with spec_b literal(1) have "?b = n" by simp
    then have "to_ascii_lowercase (trim_brackets ?b) = to_ascii_lowercase (trim_brackets h)"
      using nb by (simp add: normal_host_def n_def)
    with literal(2) show ?thesis
      using host_matches_spec [OF keys na] host_spec_cong by metis
  next
    case nested
    have "n = later_base \<or> (\<exists>pre. n = pre @ ''.'' @ later_base)"
      using nested(2)
    proof
      assume "?b = ''**.'' @ later_base"
      then have "strip_prefix ?b ''**.'' = Some later_base" "?b \<noteq> ''**''" "?b \<noteq> ''*''"
        by (auto simp: strip_prefix_Some_iff)
      with spec_b show ?thesis by auto
    next
      assume "?b = ''*.'' @ later_base"
      then have "strip_prefix ?b ''*.'' = Some later_base" "?b \<noteq> ''**''" "?b \<noteq> ''*''"
        "strip_prefix ?b ''**.'' = None"
        by (auto simp: strip_prefix_Some_iff strip_prefix_None_iff)
      with spec_b show ?thesis by auto
    qed
    with nested(3) have "n = base \<or> (\<exists>pre. n = pre @ ''.'' @ base)"
      by (metis append.assoc)
    moreover have "strip_prefix ?a ''**.'' = Some base" "?a \<noteq> ''**''" "?a \<noteq> ''*''"
      using nested(1) by (auto simp: strip_prefix_Some_iff)
    ultimately show ?thesis by (simp add: spec_a)
  qed
qed

lemma glob_matcher_spec_parts:
  "glob_matcher_spec E g url \<noteq> None \<longleftrightarrow>
     (\<forall>s. gm_scheme g = Some s \<longrightarrow> eq_ignore_ascii_case s (url_scheme url)) \<and>
     host_spec E (gm_host g) (gm_host g) (url_host url) \<and>
     (\<forall>p. gm_port g = Some p \<longrightarrow> (\<exists>port. effective_port url = Some port \<and>
        glob_spec E p (CHR ''.'') (u16_to_string port) \<noteq> None)) \<and>
     (\<forall>p. gm_path g = Some p \<longrightarrow>
        (if glob_syntax_is_active p then glob_spec E p (CHR ''/'') (url_path url) \<noteq> None
         else path_prefix_matches p (url_path url))) \<and>
     (\<forall>q. gm_query g = Some q \<longrightarrow>
        glob_spec E q (CHR ''&'') (case url_query url of None \<Rightarrow> [] | Some x \<Rightarrow> x) \<noteq> None)"
  unfolding glob_matcher_spec_def
  by (cases "gm_scheme g"; cases "gm_port g"; cases "gm_path g"; cases "gm_query g")
     (auto split: option.splits if_splits Option.bind_splits)

lemma matcher_subsumes_sound:
  assumes sub: "matcher_subsumes E a b globs" and keys: "keys_bound E globs (matcher_keys a)"
    and normal: "normal_matcher a" "normal_matcher b" and gap: "\<not> query_gap a b"
    and b: "matcher_spec E b url raw \<noteq> None"
  shows "matcher_spec E a url raw \<noteq> None"
proof -
  consider (globs) ga gb where "a = MGlob ga" "b = MGlob gb" | (exact) ga e where "a = MGlob ga" "b = MExactUrl e"
    | (same) "a = b"
    using sub by (auto simp: matcher_subsumes_def split: matcher.splits)
  then show ?thesis
  proof cases
    case (globs ga gb)
    note s = sub [unfolded globs matcher_subsumes_def, simplified, unfolded glob_subsumes_def]
    have "host_spec E (gm_host gb) (gm_host gb) (url_host url)"
      using b unfolding globs matcher_spec.simps glob_matcher_spec_parts by blast
    from host_pattern_subsumes_sound [OF _ keys [unfolded globs] _ _ this] s normal globs
    have "host_spec E (gm_host ga) (gm_host ga) (url_host url)" by simp
    with b s show ?thesis
      unfolding globs matcher_spec.simps glob_matcher_spec_parts
      by (intro conjI; elim conjE; metis option.distinct(1))
  next
    case (exact ga e)
    from sub obtain u where u: "url_parse e = Inr u"
      "matches_compiled E a u e globs (bind_matcher_resources a globs) \<noteq> None"
      by (auto simp: matcher_subsumes_def exact split: sum.splits)
    then have m: "glob_matcher_spec E ga u \<noteq> None"
      using matches_compiled_spec [OF keys, of u e] by (simp add: exact)
    from b u(1) have eq: "url_scheme u = url_scheme url" "url_host u = url_host url"
      "effective_port u = effective_port url" "url_path u = url_path url"
      "url_query u = None \<or> url_query u = url_query url"
      by (auto simp: exact exact_url_matches_def split: if_splits)
    have "gm_query ga = None \<or> url_query u = url_query url"
      using gap u(1) eq(5) by (auto simp: query_gap_def exact)
    with m eq show ?thesis unfolding exact matcher_spec.simps glob_matcher_spec_parts by auto
  qed (use b in simp)
qed

section \<open>Claimed families\<close>

definition claimed :: "resolve_state \<Rightarrow> action_family \<Rightarrow> bool" where
  "claimed st f \<longleftrightarrow> fs_contains (rst_skip st) f \<or> fs_contains (rst_single_families st) f"

lemma claimed_mono: "claimed st f \<Longrightarrow> claimed (resolve_action brief caps res incl st a) f"
proof (cases rule: resolve_action_cases [of brief caps res incl st a])
  case (kept b)
  moreover have "fs_contains (fs_insert s g) f \<longleftrightarrow> fs_contains s f \<or> f = g" for s g
    by (auto simp: fs.mem_iff fs.elems_ins)
  moreover assume "claimed st f"
  ultimately show ?thesis using fs_contains_observe(1) [of "rst_skip st" f b] by (auto simp: claimed_def)
qed simp

lemma claimed_mono_foldl:
  "claimed st f \<Longrightarrow> claimed (foldl (resolve_action brief caps res incl) st as) f"
  by (induction as arbitrary: st) (auto intro: claimed_mono)

lemma claimed_mono_rules: "claimed st f \<Longrightarrow> claimed (foldl (apply_rule E req res incl) st rs) f"
  by (induction rs arbitrary: st) (auto simp: apply_rule_def intro: claimed_mono_foldl split: option.split)

lemma single_available:
  "is_single a \<Longrightarrow> action_for_body_availability a incl = Some a"
proof (cases a)
  case (ReqBody op)
  moreover assume "is_single a"
  ultimately show ?thesis by (cases op) (simp_all add: is_single_def is_stackable_def)
qed (auto simp: action_for_body_availability_def is_single_def is_stackable_def)

lemma resolve_action_claims: "is_single a \<Longrightarrow> claimed (resolve_action brief caps res incl st a) (family_of a)"
  by (auto simp: resolve_action_def single_available skip_suppresses_def claimed_def Let_def fs.mem_iff fs.elems_ins)

lemma apply_rule_claims:
  assumes "rule_captures E req r \<noteq> None" "a \<in> set (rule_actions r)" "is_single a"
  shows "claimed (apply_rule E req res incl st r) (family_of a)"
proof -
  from assms(2) obtain as bs where "rule_actions r = as @ a # bs" by (meson split_list)
  with assms(1,3) show ?thesis
    by (auto simp: apply_rule_def intro: claimed_mono_foldl resolve_action_claims split: option.split)
qed

lemma is_single_family: "family_of a = family_of b \<Longrightarrow> is_single a = is_single b"
  by (simp add: is_single_def is_stackable_def)

text \<open>The actions a rule adds to the result come from that rule, and none of a claimed
  first-wins family is among them.\<close>

definition blames :: "rule \<Rightarrow> action_family \<Rightarrow> resolved_action \<Rightarrow> bool" where
  "blames r f x \<longleftrightarrow> mr_group (ra_rule x) = rule_group r \<and> mr_line (ra_rule x) = rule_line r \<and>
     family_of (ra_action x) = f"

lemma resolve_action_added:
  "rst_actions (resolve_action brief caps res incl st a) = rst_actions st \<or>
   (\<exists>x. rst_actions (resolve_action brief caps res incl st a) = rst_actions st @ [x] \<and> ra_rule x = brief \<and>
      (is_single (ra_action x) \<longrightarrow> \<not> claimed st (family_of (ra_action x))))"
  by (cases rule: resolve_action_cases [of brief caps res incl st a]) (auto simp: claimed_def)

lemma apply_rule_no_blame:
  assumes "\<And>x. x \<in> set (rst_actions st) \<Longrightarrow> \<not> blames later f x"
    and "(rule_group r, rule_line r) \<noteq> (rule_group later, rule_line later) \<or>
      claimed st f \<and> family_resolution f = FirstWins"
  shows "x \<in> set (rst_actions (apply_rule E req res incl st r)) \<Longrightarrow> \<not> blames later f x"
proof -
  have "\<forall>x \<in> set (rst_actions (foldl (resolve_action (brief_of r) caps res incl) st as)). \<not> blames later f x" for caps as
    using assms
  proof (induction as arbitrary: st)
    case Nil
    then show ?case by simp
  next
    case (Cons a as)
    have single: "is_single b" if "family_of b = f" "family_resolution f = FirstWins" for b
      using that by (auto simp: is_single_def is_stackable_def)
    have no: "\<not> blames later f x" if x: "x \<in> set (rst_actions (resolve_action (brief_of r) caps res incl st a))" for x
    proof (cases "x \<in> set (rst_actions st)")
      case True
      then show ?thesis by (rule Cons.prems(1))
    next
      case False
      with x resolve_action_added [of "brief_of r" caps res incl st a]
      have "ra_rule x = brief_of r" "is_single (ra_action x) \<longrightarrow> \<not> claimed st (family_of (ra_action x))" by auto
      then show ?thesis using Cons.prems(2) single [of "ra_action x"] by (auto simp: blames_def brief_of_def)
    qed
    have cl: "(rule_group r, rule_line r) \<noteq> (rule_group later, rule_line later) \<or>
      claimed (resolve_action (brief_of r) caps res incl st a) f \<and> family_resolution f = FirstWins"
      using Cons.prems(2) claimed_mono by blast
    show ?case using Cons.IH [OF no cl] by simp
  qed
  then show "x \<in> set (rst_actions (apply_rule E req res incl st r)) \<Longrightarrow> \<not> blames later f x"
    using assms(1) by (auto simp: apply_rule_def split: option.splits)
qed

section \<open>Soundness of the findings\<close>

interpretation lint: candidate_filter
  "\<lambda>rs. True" rs_rules
  "\<lambda>rs. filter (\<lambda>i. \<not> rule_disabled (rs_rules rs ! i)) [0..<length (rs_rules rs)]"
  "\<lambda>rs r. \<not> rule_disabled r" rule_important
  by unfold_locales auto

lemma lint_order_rules:
  "map ((!) (rs_rules rs)) (lint_order rs) = filter (\<lambda>r. \<not> rule_disabled r) (rule_order (rs_rules rs))"
proof -
  have "filter (\<lambda>i. \<not> rule_disabled (rs_rules rs ! i)) (lint_order rs) = lint_order rs"
    by (auto simp: lint_order_def filter_id_conv)
  with lint.accepted_in_order [of rs] show ?thesis by (simp add: lint_order_def rule_order_def)
qed

definition finding_justified :: "ext \<Rightarrow> rule_set \<Rightarrow> lint_finding \<Rightarrow> bool" where
  "finding_justified E rs f \<longleftrightarrow>
     (\<exists>pre earlier mid later post.
        filter (\<lambda>r. \<not> rule_disabled r) (rule_order (rs_rules rs)) = pre @ earlier # mid @ later # post \<and>
        lf_group f = rule_group later \<and> lf_line f = rule_line later \<and>
        rule_conditions earlier = [] \<and>
        set (lf_families f) \<subseteq> set (single_families earlier) \<and>
        matcher_subsumes E (rule_matcher earlier) (rule_matcher later) (compiled_globs (rs_index rs)))"

lemma lint_findings_justified:
  assumes "f \<in> set (lr_findings (lint_report E rs))"
  shows "finding_justified E rs f"
proof -
  let ?st = "lint_outer E (compiled_globs (rs_index rs)) [] (map ((!) (rs_rules rs)) (lint_order rs)) lint_init"
  have "\<forall>f \<in> set (ls_findings ?st). finding_justified E rs f"
  proof (rule lint_outer_invariant [where P = "\<lambda>st. \<forall>f \<in> set (ls_findings st). finding_justified E rs f"])
    fix st :: lint_state and pre earlier mid later post shared
    assume st: "\<forall>f \<in> set (ls_findings st). finding_justified E rs f"
      and a: "map ((!) (rs_rules rs)) (lint_order rs) = pre @ earlier # mid @ later # post"
      "rule_conditions earlier = []" "set shared \<subseteq> set (single_families earlier) \<inter> set (single_families later)"
      "matcher_subsumes E (rule_matcher earlier) (rule_matcher later) (compiled_globs (rs_index rs))"
    from a have "finding_justified E rs (make_finding later earlier shared)"
      unfolding finding_justified_def lint_order_rules
      by (intro exI [of _ pre] exI [of _ earlier] exI [of _ mid] exI [of _ later] exI [of _ post])
         (simp add: make_finding_def)
    with st show "\<forall>f \<in> set (ls_findings (st\<lparr>ls_report_bytes := ls_report_bytes st +
          lint_finding_bytes (make_finding later earlier shared),
        ls_findings := ls_findings st @ [make_finding later earlier shared]\<rparr>)). finding_justified E rs f"
      by auto
  qed (simp_all add: lint_init_def)
  with assms show ?thesis by (simp add: lint_report_def Let_def)
qed

lemma single_families_action:
  assumes "name \<in> set (single_families r)"
  obtains a where "a \<in> set (rule_actions r)" "is_single a" "family_as_str (family_of a) = name"
proof -
  have "set (effective_from skip as) \<subseteq> set as" for skip as
    by (induction skip as rule: effective_from.induct) auto
  with assms that show thesis by (force simp: single_families_def effective_actions_def)
qed

lemma foldl_apply_no_blame:
  assumes "\<And>x. x \<in> set (rst_actions st) \<Longrightarrow> \<not> blames later f x"
    and "(\<forall>r \<in> set rs. (rule_group r, rule_line r) \<noteq> (rule_group later, rule_line later)) \<or>
      claimed st f \<and> family_resolution f = FirstWins"
  shows "x \<in> set (rst_actions (foldl (apply_rule E req res incl) st rs)) \<Longrightarrow> \<not> blames later f x"
  using assms
proof (induction rs arbitrary: st)
  case (Cons r rs)
  have "\<not> blames later f y" if "y \<in> set (rst_actions (apply_rule E req res incl st r))" for y
    by (rule apply_rule_no_blame [OF _ _ that]) (use Cons.prems in auto)
  moreover have "(\<forall>r \<in> set rs. (rule_group r, rule_line r) \<noteq> (rule_group later, rule_line later)) \<or>
      claimed (apply_rule E req res incl st r) f \<and> family_resolution f = FirstWins"
    using Cons.prems(3) claimed_mono_rules [of st f E req res incl "[r]"] by auto
  ultimately show ?case using Cons.IH Cons.prems(1) by simp
qed simp

text \<open>
  A shadow-lint finding is right: in a snapshot whose rules have distinct positions and
  normal hosts, and without the query gap below, a rule reported as shadowed for a family
  contributes no action of that family to any resolution.
\<close>

lemma lint_finding_excludes:
  assumes "indexed E rs" "engines_ok E"
    and "distinct (map (\<lambda>r. (rule_group r, rule_line r)) (rs_rules rs))"
    and "\<forall>r \<in> set (rs_rules rs). normal_matcher (rule_matcher r)"
    and "\<forall>a \<in> set (rs_rules rs). \<forall>b \<in> set (rs_rules rs). \<not> query_gap (rule_matcher a) (rule_matcher b)"
    and f: "f \<in> set (lr_findings (lint_report E rs))"
    and x: "x \<in> set (rr_actions (resolve_inner E rs req res incl))"
      "mr_group (ra_rule x) = lf_group f" "mr_line (ra_rule x) = lf_line f"
  shows "family_as_str (family_of (ra_action x)) \<notin> set (lf_families f)"
proof
  assume fam: "family_as_str (family_of (ra_action x)) \<in> set (lf_families f)"
  let ?f = "family_of (ra_action x)" and ?applies = "rule_applies E req res incl"
  from lint_findings_justified [OF f] obtain pre earlier mid later post where
    order: "filter (\<lambda>r. \<not> rule_disabled r) (rule_order (rs_rules rs)) = pre @ earlier # mid @ later # post"
    and lf: "lf_group f = rule_group later" "lf_line f = rule_line later"
    and ec: "rule_conditions earlier = []" and fs: "set (lf_families f) \<subseteq> set (single_families earlier)"
    and sub: "matcher_subsumes E (rule_matcher earlier) (rule_matcher later) (compiled_globs (rs_index rs))"
    by (auto simp: finding_justified_def)
  have "set (pre @ earlier # mid @ later # post) \<subseteq> set (rs_rules rs)"
    unfolding order [symmetric] by (auto simp: rule_order_def)
  then have mem: "earlier \<in> set (rs_rules rs)" "later \<in> set (rs_rules rs)" by auto
  have "\<not> rule_disabled earlier"
    using arg_cong [OF order, of set] by auto
  from fam fs have "family_as_str ?f \<in> set (single_families earlier)" by blast
  then obtain a where "a \<in> set (rule_actions earlier)" "is_single a"
    "family_as_str (family_of a) = family_as_str ?f"
    by (rule single_families_action)
  then have a: "a \<in> set (rule_actions earlier)" "is_single a" "family_of a = ?f"
    by (simp_all add: family_as_str_inject)
  have covers: "?applies later \<Longrightarrow> ?applies earlier"
  proof -
    assume later: "?applies later"
    then obtain url where url: "url_ok (req_url req) = Some url"
      "matcher_spec E (rule_matcher later) url (req_url req) \<noteq> None"
      by (cases "url_ok (req_url req)") (auto simp: rule_applies_def rule_captures_def)
    have "keys_bound E (compiled_globs (rs_index rs)) (matcher_keys (rule_matcher earlier))"
      using indexed_keys_bound [OF assms(1) mem(1)] by (simp add: rule_keys_def)
    from matcher_subsumes_sound [OF sub this _ _ _ url(2)] assms(4,5) mem
    have "matcher_spec E (rule_matcher earlier) url (req_url req) \<noteq> None" by blast
    then show ?thesis
      using \<open>\<not> rule_disabled earlier\<close> ec url(1) by (simp add: rule_applies_def rule_captures_def)
  qed
  define st where "st rs = foldl (apply_rule E req res incl) resolve_init rs" for rs
  have "filter ?applies (rule_order (rs_rules rs)) =
      filter ?applies (filter (\<lambda>r. \<not> rule_disabled r) (rule_order (rs_rules rs)))"
    by (auto simp: rule_applies_def intro: filter_cong)
  then have result: "rr_actions (resolve_inner E rs req res incl) =
      rst_actions (st (filter ?applies (pre @ earlier # mid @ later # post)))"
    by (simp add: resolve_inner_reference [OF assms(1,2)] resolve_spec_def order st_def Let_def)
  have dist: "distinct (map (\<lambda>r. (rule_group r, rule_line r)) (pre @ earlier # mid @ later # post))"
  proof -
    have "distinct (map (\<lambda>r. (rule_group r, rule_line r)) (rule_order (rs_rules rs)))"
      using assms(3) by (auto simp: rule_order_def distinct_map inj_on_def distinct_filter)
    then show ?thesis unfolding order [symmetric] by (simp add: distinct_map_filter)
  qed
  then have "distinct (map (\<lambda>r. (rule_group r, rule_line r)) ((pre @ earlier # mid) @ later # post))"
    by (simp only: append.assoc append_Cons)
  then have "(rule_group later, rule_line later) \<notin>
      set (map (\<lambda>r. (rule_group r, rule_line r)) ((pre @ earlier # mid) @ post))"
    by (simp only: map_append list.map(2) distinct.simps(2) distinct_append set_append
        list.simps(15)) blast
  then have others: "\<forall>r \<in> set (pre @ earlier # mid) \<union> set post.
      (rule_group r, rule_line r) \<noteq> (rule_group later, rule_line later)"
    by (metis (no_types, lifting) Un_iff image_eqI list.set_map set_append)
  have "\<not> blames later ?f x"
  proof (cases "?applies later")
    case False
    then have "x \<in> set (rst_actions (foldl (apply_rule E req res incl) resolve_init
        (filter ?applies (pre @ earlier # mid @ post))))"
      using x(1) unfolding result st_def filter_append filter.simps by (simp only: if_False)
    then show ?thesis
      by (rule foldl_apply_no_blame [rotated 2]) (use others in \<open>auto simp: resolve_init_def\<close>)
  next
    case True
    let ?before = "filter ?applies (pre @ earlier # mid)"
    have no: "\<not> blames later ?f y" if "y \<in> set (rst_actions (st ?before))" for y
      using that unfolding st_def
      by (rule foldl_apply_no_blame [rotated 2]) (use others in \<open>auto simp: resolve_init_def\<close>)
    have "claimed (apply_rule E req res incl (st (filter ?applies pre)) earlier) ?f"
      using apply_rule_claims [of E req earlier a] covers [OF True] a by (auto simp: rule_applies_def)
    then have cl: "claimed (st ?before) ?f"
      using covers [OF True] claimed_mono_rules by (auto simp: st_def)
    have "x \<in> set (rst_actions (foldl (apply_rule E req res incl) (st ?before) (later # filter ?applies post)))"
      using x(1) True covers [OF True] by (simp add: result st_def)
    then show ?thesis
      by (rule foldl_apply_no_blame [rotated 2])
         (use no cl a in \<open>auto simp: is_single_def is_stackable_def, metis resolution_policy.exhaust\<close>)
  qed
  with x(2,3) lf show False by (simp add: blames_def)
qed

definition gap_ext :: ext where
  "gap_ext = demo_ext\<lparr>glob_captures :=
     (\<lambda>source txt. if CHR ''&'' \<in> set txt then None else Some [Some txt, Some txt])\<rparr>"

definition gap_rules :: "rule list" where
  "gap_rules =
     [demo_rule 1 (MGlob \<lparr>gm_scheme = None, gm_host = ''h'', gm_port = None, gm_path = None,
                           gm_query = Some ''*''\<rparr>) [] [Status 404],
      demo_rule 2 (MExactUrl ''http://h/p'') [] [Status 200]]"

definition gap_set :: rule_set where
  "gap_set = (demo_set gap_rules)\<lparr>rs_index :=
     (case index_build gap_ext gap_rules of Some index \<Rightarrow> index | None \<Rightarrow> index_default)\<rparr>"

text \<open>
  The query gap is real. A glob with query pattern \<open>*\<close>, which does not cross \<open>&\<close>, is taken to
  cover an exact URL without a query, because only the URL as written is tried; the exact URL
  also matches with any query, and for one with two parameters the glob does not, so the
  later rule, reported as shadowed, wins.
\<close>

theorem lint_query_gap_unsound:
  "map lf_line (lr_findings (lint_report gap_ext gap_set)) = [2] \<and>
   map (\<lambda>x. mr_line (ra_rule x))
     (rr_actions (resolve_inner gap_ext gap_set (demo_request ''http://h/p?x=1&y=2'' []) None True)) = [2]"
  by code_simp

end
