(* ===== verification/Semantic_Lint.thy ===== *)
theory Semantic_Lint
  imports Rule_Lint
begin

text \<open>
  The same-rule semantic lint (\<open>semantic_lint.rs\<close> and \<open>semantic_lint/*.rs\<close>): duplicate
  first-wins families, unsatisfiable conditions, request actions behind response
  conditions, actions after a skip, conflicting local responses. The condition analyses are
  sound against the meaning of conditions, and the report stays within its budgets.
\<close>

section \<open>Findings\<close>

datatype semantic_lint_kind =
    DuplicateSingleFamily
  | UnsatisfiableConditions
  | RequestActionRequiresResponse
  | ActionAfterSkip
  | ConflictingTerminalActions
  | ResponseActionWithLocalResponse
  | UpstreamOverriddenByDirect
  | BodyActionWithBodylessStatus

fun kind_as_str :: "semantic_lint_kind \<Rightarrow> string" where
  "kind_as_str DuplicateSingleFamily = ''duplicate-single-family''"
| "kind_as_str UnsatisfiableConditions = ''unsatisfiable-conditions''"
| "kind_as_str RequestActionRequiresResponse = ''request-action-requires-response''"
| "kind_as_str ActionAfterSkip = ''action-after-skip''"
| "kind_as_str ConflictingTerminalActions = ''conflicting-terminal-actions''"
| "kind_as_str ResponseActionWithLocalResponse = ''response-action-with-local-response''"
| "kind_as_str UpstreamOverriddenByDirect = ''upstream-overridden-by-direct''"
| "kind_as_str BodyActionWithBodylessStatus = ''body-action-with-bodyless-status''"

record semantic_finding =
  sf_kind :: semantic_lint_kind
  sf_group :: string
  sf_line :: nat
  sf_raw :: string
  sf_message :: string
  sf_families :: "string list"

record semantic_report =
  sr_findings :: "semantic_finding list"
  sr_complete :: bool

definition finding_of :: "rule \<Rightarrow> semantic_lint_kind \<Rightarrow> string \<Rightarrow> string list \<Rightarrow> semantic_finding" where
  "finding_of r kind message families =
     \<lparr>sf_kind = kind, sf_group = rule_group r, sf_line = rule_line r, sf_raw = rule_raw r,
      sf_message = message, sf_families = families\<rparr>"

definition semantic_finding_bytes :: "semantic_finding \<Rightarrow> nat" where
  "semantic_finding_bytes f =
     saturating_add (saturating_add (saturating_add (length (sf_group f)) (length (sf_raw f)))
       (length (sf_message f))) (sum_list (map length (sf_families f)))"

section \<open>Action analyses\<close>

definition family_names :: "action list \<Rightarrow> string list" where
  "family_names as = bs_of_list (map (\<lambda>a. family_as_str (family_of a)) as)"

fun duplicate_loop :: "action_family list \<Rightarrow> string list \<Rightarrow> action list \<Rightarrow> string list" where
  "duplicate_loop seen dup [] = dup"
| "duplicate_loop seen dup (a # as) =
     (if is_single a then
        (if family_of a \<in> set seen
         then duplicate_loop seen (bs_insert (family_as_str (family_of a)) dup) as
         else duplicate_loop (family_of a # seen) dup as)
      else duplicate_loop seen dup as)"

definition duplicate_single_families :: "action list \<Rightarrow> string list" where
  "duplicate_single_families effective = duplicate_loop [] [] effective"

fun condition_requires_response :: "condition \<Rightarrow> bool" where
  "condition_requires_response (CResHeaderPresent _) = True"
| "condition_requires_response (CResHeaderContains _ _) = True"
| "condition_requires_response (CStatus _) = True"
| "condition_requires_response (CAll cs) = list_ex condition_requires_response cs"
| "condition_requires_response (CAny cs) = list_all condition_requires_response cs"
| "condition_requires_response (CNot c) = depends_on_response c"
| "condition_requires_response _ = False"

definition request_actions_requiring_response :: "rule \<Rightarrow> action list \<Rightarrow> string list" where
  "request_actions_requiring_response r effective =
     (if \<not> list_ex condition_requires_response (rule_conditions r) then []
      else family_names (filter (\<lambda>a. applies_in a Req \<and> \<not> applies_in a Res) effective))"

fun after_skip_loop :: "action_family_set \<Rightarrow> string list \<Rightarrow> action list \<Rightarrow> string list" where
  "after_skip_loop skip out [] = out"
| "after_skip_loop skip out (a # as) =
     (if skip_suppresses skip (family_of a)
      then after_skip_loop skip (bs_insert (family_as_str (family_of a)) out) as
      else after_skip_loop (skip_observe skip a) out as)"

definition actions_after_skip :: "rule \<Rightarrow> string list" where
  "actions_after_skip r = after_skip_loop FS_EMPTY [] (rule_actions r)"

definition has_effective_family :: "action list \<Rightarrow> action_family \<Rightarrow> bool" where
  "has_effective_family effective f = list_ex (\<lambda>a. family_of a = f) effective"

definition terminal_families :: "action list \<Rightarrow> string list" where
  "terminal_families effective =
     map family_as_str (filter (has_effective_family effective) [FamStatus, FamRedirect, FamMock])"

definition response_actions_with_local_response :: "action list \<Rightarrow> string list \<Rightarrow> string list" where
  "response_actions_with_local_response effective terminal =
     (if terminal = [] then []
      else family_names (filter (\<lambda>a. applies_in a Res \<and> \<not> applies_in a Req) effective))"

definition body_actions_with_bodyless_status :: "action list \<Rightarrow> string list" where
  "body_actions_with_bodyless_status effective =
     (if \<not> list_ex (\<lambda>a. case a of ResStatus s \<Rightarrow> status_forbids_body s | _ \<Rightarrow> False) effective then []
      else
        (let families = family_names (filter (\<lambda>a. family_of a \<in>
               {FamResBodySet, FamResBodyPrepend, FamResBodyAppend, FamResBodyReplace, FamInject, FamResMerge})
               effective) in
         if families \<noteq> [] then ''res.status'' # families else families))"

section \<open>Condition analyses\<close>

datatype constant_truth = ConstTrue | ConstFalse | ConstUnknown

fun any_truth :: "bool \<Rightarrow> constant_truth list \<Rightarrow> constant_truth" where
  "any_truth unknown [] = (if unknown then ConstUnknown else ConstFalse)"
| "any_truth unknown (t # ts) =
     (case t of ConstTrue \<Rightarrow> ConstTrue | ConstUnknown \<Rightarrow> any_truth True ts
              | ConstFalse \<Rightarrow> any_truth unknown ts)"

fun all_truth :: "bool \<Rightarrow> constant_truth list \<Rightarrow> constant_truth" where
  "all_truth unknown [] = (if unknown then ConstUnknown else ConstTrue)"
| "all_truth unknown (t # ts) =
     (case t of ConstFalse \<Rightarrow> ConstFalse | ConstUnknown \<Rightarrow> all_truth True ts
              | ConstTrue \<Rightarrow> all_truth unknown ts)"

fun truth_of :: "condition \<Rightarrow> constant_truth" where
  "truth_of (CChancePermille p) =
     (if p = 0 then ConstFalse else if p = 1000 then ConstTrue else ConstUnknown)"
| "truth_of (CAny cs) = any_truth False (map truth_of cs)"
| "truth_of (CAll cs) = all_truth False (map truth_of cs)"
| "truth_of (CNot c) =
     (case truth_of c of ConstTrue \<Rightarrow> ConstFalse | ConstFalse \<Rightarrow> ConstTrue | ConstUnknown \<Rightarrow> ConstUnknown)"
| "truth_of _ = ConstUnknown"

fun flatten_conjunction :: "condition \<Rightarrow> condition list" where
  "flatten_conjunction (CAll cs) = concat (map flatten_conjunction cs)"
| "flatten_conjunction c = [c]"

text \<open>The intersection of the listed sets, \<open>None\<close> when there is none.\<close>

definition value_intersection :: "'a list list \<Rightarrow> 'a list option" where
  "value_intersection sets =
     foldl (\<lambda>acc vs. case acc of None \<Rightarrow> Some vs | Some cur \<Rightarrow> Some (filter (\<lambda>v. v \<in> set vs) cur)) None sets"

definition constraints_are_empty :: "'a list option \<Rightarrow> 'a list \<Rightarrow> bool" where
  "constraints_are_empty positive forbidden =
     (case positive of None \<Rightarrow> False | Some vs \<Rightarrow> list_all (\<lambda>v. v \<in> set forbidden) vs)"

definition string_intersection :: "string list list \<Rightarrow> string list option" where
  "string_intersection sets = value_intersection sets"

definition u16_intersection :: "u16 list list \<Rightarrow> u16 list option" where
  "u16_intersection sets = value_intersection sets"

fun method_values :: "condition \<Rightarrow> string list option" where
  "method_values (CMethod vs) = Some vs"
| "method_values _ = None"

fun status_values :: "condition \<Rightarrow> u16 list option" where
  "status_values (CStatus vs) = Some vs"
| "status_values _ = None"

fun negated :: "(condition \<Rightarrow> 'a option) \<Rightarrow> condition \<Rightarrow> 'a option" where
  "negated f (CNot c) = f c"
| "negated f _ = None"

definition method_constraints_are_empty :: "condition list \<Rightarrow> bool" where
  "method_constraints_are_empty conjunction =
     constraints_are_empty (string_intersection (List.map_filter method_values conjunction))
       (concat (List.map_filter (negated method_values) conjunction))"

definition status_constraints_are_empty :: "condition list \<Rightarrow> bool" where
  "status_constraints_are_empty conjunction =
     constraints_are_empty (u16_intersection (List.map_filter status_values conjunction))
       (concat (List.map_filter (negated status_values) conjunction))"

record env_state =
  es_required :: "(string \<times> string) list"
  es_required_present :: "string list"
  es_forbidden_present :: "string list"
  es_forbidden_values :: "(string \<times> string list) list"

definition quoted :: "string \<Rightarrow> string" where
  "quoted s = ''`'' @ s @ ''`''"

text \<open>One member of the conjunction, and the pass over it; \<open>Inl\<close> is the early return with a message.\<close>

definition environment_step :: "condition \<Rightarrow> env_state \<Rightarrow> string + env_state" where
  "environment_step c st =
     (case c of
        CEnvPresent name \<Rightarrow>
          Inr (st\<lparr>es_required_present := bs_insert name (es_required_present st)\<rparr>)
      | CEnvEquals name v \<Rightarrow>
          (let previous = bt_get (es_required st) name;
               st = st\<lparr>es_required_present := bs_insert name (es_required_present st),
                       es_required := bt_insert name v (es_required st)\<rparr> in
           case previous of
             Some p \<Rightarrow>
               if p \<noteq> v then
                 Inl (''environment variable '' @ quoted name @ '' is required to equal both '' @
                      quoted p @ '' and '' @ quoted v)
               else Inr st
           | None \<Rightarrow> Inr st)
      | CNot (CEnvPresent name) \<Rightarrow>
          Inr (st\<lparr>es_forbidden_present := bs_insert name (es_forbidden_present st)\<rparr>)
      | CNot (CEnvEquals name v) \<Rightarrow>
          Inr (st\<lparr>es_forbidden_values :=
            bt_insert name (bs_insert v (bt_bucket (es_forbidden_values st) name)) (es_forbidden_values st)\<rparr>)
      | _ \<Rightarrow> Inr st)"

fun environment_pass :: "condition list \<Rightarrow> env_state \<Rightarrow> string + env_state" where
  "environment_pass [] st = Inr st"
| "environment_pass (c # cs) st =
     (case environment_step c st of Inl message \<Rightarrow> Inl message | Inr st \<Rightarrow> environment_pass cs st)"

definition environment_contradiction :: "condition list \<Rightarrow> string option" where
  "environment_contradiction conjunction =
     (case environment_pass conjunction
             \<lparr>es_required = bt_empty, es_required_present = [], es_forbidden_present = [],
              es_forbidden_values = bt_empty\<rparr> of
        Inl message \<Rightarrow> Some message
      | Inr st \<Rightarrow>
          (case filter (\<lambda>n. n \<in> set (es_forbidden_present st)) (es_required_present st) of
             name # _ \<Rightarrow>
               Some (''environment variable '' @ quoted name @ '' is required to be both present and absent'')
           | [] \<Rightarrow>
               (case filter (\<lambda>(n, v). v \<in> set (bt_bucket (es_forbidden_values st) n)) (es_required st) of
                  (name, v) # _ \<Rightarrow>
                    Some (''environment variable '' @ quoted name @
                          '' is required to equal and not equal '' @ quoted v)
                | [] \<Rightarrow> None)))"

definition unsatisfiable_conditions :: "condition list \<Rightarrow> string option" where
  "unsatisfiable_conditions conditions =
     (if list_ex (\<lambda>c. truth_of c = ConstFalse) conditions
      then Some ''a constant chance/boolean condition can never match''
      else
        (let conjunction = concat (map flatten_conjunction conditions) in
         if method_constraints_are_empty conjunction
         then Some ''method constraints have no value in common''
         else if status_constraints_are_empty conjunction
         then Some ''response-status constraints have no value in common''
         else environment_contradiction conjunction))"

section \<open>The report\<close>

definition comma_join :: "string list \<Rightarrow> string" where
  "comma_join ss = join_with '', '' ss"

definition rule_findings :: "rule \<Rightarrow> semantic_finding list" where
  "rule_findings r =
     (let effective = effective_actions r;
          duplicate = duplicate_single_families effective;
          phase = request_actions_requiring_response r effective;
          skipped = actions_after_skip r;
          terminal = terminal_families effective;
          response = response_actions_with_local_response effective terminal;
          bodyless = body_actions_with_bodyless_status effective in
      (if duplicate \<noteq> [] then
         [finding_of r DuplicateSingleFamily
            (''later actions can never win single-action families: '' @ comma_join duplicate) duplicate]
       else []) @
      (case unsatisfiable_conditions (rule_conditions r) of
         Some message \<Rightarrow> [finding_of r UnsatisfiableConditions message []] | None \<Rightarrow> []) @
      (if phase \<noteq> [] then
         [finding_of r RequestActionRequiresResponse
            (''request-only actions cannot run after the required response metadata exists: '' @
             comma_join phase) phase]
       else []) @
      (if skipped \<noteq> [] then
         [finding_of r ActionAfterSkip
            (''earlier skip actions suppress later families in this rule: '' @ comma_join skipped) skipped]
       else []) @
      (if 1 < length terminal then
         [finding_of r ConflictingTerminalActions
            (''only one local response can be sent; precedence is status, then redirect, then mock: '' @
             comma_join terminal) terminal]
       else []) @
      (if response \<noteq> [] then
         [finding_of r ResponseActionWithLocalResponse
            (''local response action '' @ comma_join terminal @ '' bypasses response-phase actions: '' @
             comma_join response) response]
       else []) @
      (if has_effective_family effective FamDirect \<and> has_effective_family effective FamUpstream then
         [finding_of r UpstreamOverriddenByDirect
            ''direct routing always overrides the upstream action in this rule'' [''upstream'', ''direct'']]
       else []) @
      (if bodyless \<noteq> [] then
         [finding_of r BodyActionWithBodylessStatus
            (''res.status(204/205/304) suppresses response content actions: '' @ comma_join (tl bodyless))
            bodyless]
       else []))"

fun collect_findings ::
  "semantic_finding list \<Rightarrow> semantic_finding list \<Rightarrow> nat \<Rightarrow> semantic_report" where
  "collect_findings [] findings report_bytes = \<lparr>sr_findings = findings, sr_complete = True\<rparr>"
| "collect_findings (f # fs) findings report_bytes =
     (let size = semantic_finding_bytes f in
      if length findings = MAX_RULE_LINT_FINDINGS \<or>
         over_budget report_bytes size MAX_RULE_LINT_REPORT_BYTES
      then \<lparr>sr_findings = findings, sr_complete = False\<rparr>
      else collect_findings fs (findings @ [f]) (report_bytes + size))"

definition semantic_lint_report :: "rule_set \<Rightarrow> semantic_report" where
  "semantic_lint_report rs =
     collect_findings
       (concat (map rule_findings (filter (\<lambda>r. \<not> rule_disabled r) (rs_rules rs)))) [] 0"

section \<open>Soundness of the condition analyses\<close>

lemma any_truth_cases:
  "any_truth u ts = ConstTrue \<longleftrightarrow> ConstTrue \<in> set ts"
  "any_truth u ts = ConstFalse \<longleftrightarrow> \<not> u \<and> set ts \<subseteq> {ConstFalse}"
  by (induction u ts rule: any_truth.induct) (auto split: constant_truth.splits)

lemma all_truth_cases:
  "all_truth u ts = ConstFalse \<longleftrightarrow> ConstFalse \<in> set ts"
  "all_truth u ts = ConstTrue \<longleftrightarrow> \<not> u \<and> set ts \<subseteq> {ConstTrue}"
  by (induction u ts rule: all_truth.induct) (auto split: constant_truth.splits)

lemma truth_of_sound:
  "(truth_of c = ConstFalse \<longrightarrow> \<not> condition_spec E x c) \<and>
   (truth_of c = ConstTrue \<longrightarrow> condition_spec E x c \<or> sc_res x = None \<and> depends_on_response c)"
proof (induction c)
  case (CChancePermille p)
  then show ?case by (simp add: chance_residue)
next
  case (CAny cs)
  then show ?case by (fastforce simp: any_truth_cases list_ex_iff image_subset_iff)
next
  case (CAll cs)
  then show ?case by (fastforce simp: all_truth_cases list_ex_iff image_subset_iff)
next
  case (CNot c)
  then show ?case by (auto split: constant_truth.splits)
qed (auto split: if_splits)

lemma flatten_conjunction_spec:
  "(\<forall>d \<in> set (flatten_conjunction c). condition_spec E x d) \<longleftrightarrow> condition_spec E x c"
  by (induction c rule: flatten_conjunction.induct) auto

lemma value_intersection_mem:
  assumes "value_intersection sets = Some vs" "\<forall>s \<in> set sets. v \<in> set s"
  shows "v \<in> set vs"
proof -
  have "foldl (\<lambda>acc vs. case acc of None \<Rightarrow> Some vs | Some cur \<Rightarrow> Some (filter (\<lambda>v. v \<in> set vs) cur)) acc sets = Some vs \<Longrightarrow>
      \<forall>s \<in> set sets. v \<in> set s \<Longrightarrow> (case acc of None \<Rightarrow> True | Some cur \<Rightarrow> v \<in> set cur) \<Longrightarrow> v \<in> set vs" for acc
  proof (induction sets arbitrary: acc)
    case (Cons s sets)
    from Cons.prems show ?case
      by (intro Cons.IH [of "case acc of None \<Rightarrow> Some s | Some cur \<Rightarrow> Some (filter (\<lambda>v. v \<in> set s) cur)"])
         (auto split: option.splits)
  qed simp
  from this [of None] assms show ?thesis by (simp add: value_intersection_def)
qed


lemma value_intersection_None: "value_intersection sets = None \<longleftrightarrow> sets = []"
proof -
  have *: "\<exists>b. foldl (\<lambda>acc vs. case acc of None \<Rightarrow> Some vs | Some cur \<Rightarrow> Some (filter (\<lambda>v. v \<in> set vs) cur))
      (Some a) ss = Some b" for a and ss :: "'a list list"
    by (induction ss arbitrary: a) auto
  show ?thesis
  proof (cases sets)
    case (Cons s ss)
    with * [of s ss] show ?thesis by (auto simp: value_intersection_def)
  qed (simp add: value_intersection_def)
qed

lemma constraints_are_empty_sound:
  assumes "constraints_are_empty (value_intersection positive) forbidden" "\<forall>s \<in> set positive. v \<in> set s"
  shows "v \<in> set forbidden \<and> positive \<noteq> []"
  using assms value_intersection_mem [of positive _ v] value_intersection_None [of positive]
  by (auto simp: constraints_are_empty_def list_all_iff split: option.splits)

lemma values_Some_iff [simp]:
  "method_values c = Some vs \<longleftrightarrow> c = CMethod vs"
  "status_values c = Some ws \<longleftrightarrow> c = CStatus ws"
  "negated f c = Some v \<longleftrightarrow> (\<exists>d. c = CNot d \<and> f d = Some v)"
  by (cases c; simp)+

lemma set_map_filter_iff: "v \<in> set (List.map_filter f cs) \<longleftrightarrow> (\<exists>c \<in> set cs. f c = Some v)"
  by (force simp: map_filter_def)

text \<open>
  One empty constraint refutes the conjunction: some value \<open>v\<close> that every positive member
  would have to list is one that a negative member excludes.
\<close>

lemma empty_constraints_refute:
  assumes "constraints_are_empty (value_intersection (List.map_filter f cs))
      (concat (List.map_filter (negated f) cs))"
    and pos: "\<And>vs. \<exists>c \<in> set cs. f c = Some vs \<Longrightarrow> v \<in> set vs"
  shows "\<exists>c vs. CNot c \<in> set cs \<and> f c = Some vs \<and> v \<in> set vs"
proof -
  have "v \<in> set (concat (List.map_filter (negated f) cs))"
    using constraints_are_empty_sound [OF assms(1), of v] pos by (auto simp: set_map_filter_iff)
  then obtain c vs where "c \<in> set cs" "negated f c = Some vs" "v \<in> set vs"
    by (auto simp: set_map_filter_iff simp del: values_Some_iff)
  then show ?thesis by (cases c) auto
qed

lemma status_constraints_sound:
  assumes "status_constraints_are_empty cs"
  shows "\<exists>c \<in> set cs. \<not> condition_spec E x c"
proof (rule ccontr)
  assume "\<not> ?thesis"
  then have all: "condition_spec E x c" if "c \<in> set cs" for c using that by blast
  note e = assms [unfolded status_constraints_are_empty_def u16_intersection_def]
  have "value_intersection (List.map_filter status_values cs) \<noteq> None"
    using e by (auto simp: constraints_are_empty_def split: option.splits)
  then have "List.map_filter status_values cs \<noteq> []" by (simp add: value_intersection_None)
  then have "\<exists>vs. CStatus vs \<in> set cs"
    using set_map_filter_iff [of _ status_values cs] by (cases "List.map_filter status_values cs") auto
  then obtain res where res: "sc_res x = Some res" using all by fastforce
  have "res_status res \<in> set vs" if "\<exists>c \<in> set cs. status_values c = Some vs" for vs
    using that all [of "CStatus vs"] res by auto
  from empty_constraints_refute [OF e this] obtain ws
    where "CNot (CStatus ws) \<in> set cs" "res_status res \<in> set ws" by auto
  with all [of "CNot (CStatus ws)"] res show False by auto
qed

text \<open>Method names in conditions are upper case, as \<open>parse_method_condition\<close> leaves them.\<close>

fun upper_methods :: "condition \<Rightarrow> bool" where
  "upper_methods (CMethod ms) = list_all (\<lambda>m. to_ascii_uppercase m = m) ms"
| "upper_methods (CAny cs) = list_all upper_methods cs"
| "upper_methods (CAll cs) = list_all upper_methods cs"
| "upper_methods (CNot c) = upper_methods c"
| "upper_methods _ = True"

lemma upper_methods_flatten:
  "upper_methods c \<Longrightarrow> d \<in> set (flatten_conjunction c) \<Longrightarrow> upper_methods d"
  by (induction c rule: flatten_conjunction.induct) (auto simp: list_all_iff)

lemma ascii_case_inverses [simp]:
  "ascii_upper (ascii_lower c) = ascii_upper c"
  "ascii_lower (ascii_upper c) = ascii_lower c"
  by (auto simp: byte_inject [symmetric] ascii_upper_def ascii_lower_def is_ascii_uppercase_def
      is_ascii_lowercase_def)

lemma to_ascii_case_inverses [simp]:
  "to_ascii_uppercase (to_ascii_lowercase s) = to_ascii_uppercase s"
  "to_ascii_lowercase (to_ascii_uppercase s) = to_ascii_lowercase s"
  by (simp_all add: to_ascii_uppercase_def to_ascii_lowercase_def)

lemma eq_ignore_case_upper:
  "eq_ignore_ascii_case a b \<longleftrightarrow> to_ascii_uppercase a = to_ascii_uppercase b"
  by (metis eq_ignore_ascii_case_def to_ascii_case_inverses)

lemma method_constraints_sound:
  assumes "method_constraints_are_empty cs" "\<forall>c \<in> set cs. upper_methods c"
  shows "\<exists>c \<in> set cs. \<not> condition_spec E x c"
proof (rule ccontr)
  assume "\<not> ?thesis"
  then have all: "condition_spec E x c" if "c \<in> set cs" for c using that by blast
  let ?m = "to_ascii_uppercase (req_method (sc_req x))"
  note e = assms(1) [unfolded method_constraints_are_empty_def string_intersection_def]
  have "?m \<in> set vs" if "\<exists>c \<in> set cs. method_values c = Some vs" for vs
    using that all [of "CMethod vs"] assms(2) by (fastforce simp: eq_ignore_case_upper list_all_iff)
  from empty_constraints_refute [OF e this] obtain ws
    where ws: "CNot (CMethod ws) \<in> set cs" "?m \<in> set ws" by auto
  have "eq_ignore_ascii_case ?m (req_method (sc_req x))"
    by (simp add: eq_ignore_ascii_case_def)
  with all [OF ws(1)] ws(2) show False by auto
qed

text \<open>What one pass over true conditions collects about the environment is true.\<close>

definition env_state_ok :: "(string \<Rightarrow> string option) \<Rightarrow> env_state \<Rightarrow> bool" where
  "env_state_ok env st \<longleftrightarrow>
     bt_inv (es_required st) \<and> bt_inv (es_forbidden_values st) \<and>
     (\<forall>n v. bt_get (es_required st) n = Some v \<longrightarrow> env n = Some v) \<and>
     (\<forall>n \<in> set (es_required_present st). env n \<noteq> None) \<and>
     (\<forall>n \<in> set (es_forbidden_present st). env n = None) \<and>
     (\<forall>n. \<forall>v \<in> set (bt_bucket (es_forbidden_values st) n). env n \<noteq> Some v)"

lemma environment_step_ok:
  assumes ok: "env_state_ok (env_var E) st" and c: "condition_spec E x c"
  shows "\<exists>st'. environment_step c st = Inr st' \<and> env_state_ok (env_var E) st'"
proof (cases c)
  case (CEnvPresent n)
  with ok c show ?thesis by (simp add: env_state_ok_def environment_step_def)
next
  case (CEnvEquals n v)
  with ok c show ?thesis
    by (auto simp: env_state_ok_def environment_step_def Let_def bt_get_insert bt_inv_insert
        split: option.split)
next
  case (CNot d)
  show ?thesis
  proof (cases d)
    case (CEnvPresent n)
    with CNot ok c show ?thesis by (simp add: env_state_ok_def environment_step_def)
  next
    case (CEnvEquals n v)
    with CNot ok c have "env_var E n \<noteq> Some v" by simp
    with CNot CEnvEquals ok show ?thesis
      by (auto simp: env_state_ok_def environment_step_def bt_get_insert bt_inv_insert bt_bucket_def
          split: option.splits)
  qed (use CNot ok in \<open>simp_all add: environment_step_def\<close>)
qed (use ok in \<open>simp_all add: environment_step_def\<close>)

lemma environment_pass_ok:
  "env_state_ok (env_var E) st \<Longrightarrow> \<forall>c \<in> set cs. condition_spec E x c \<Longrightarrow>
   \<exists>st'. environment_pass cs st = Inr st' \<and> env_state_ok (env_var E) st'"
proof (induction cs arbitrary: st)
  case (Cons c cs)
  then obtain st' where "environment_step c st = Inr st'" "env_state_ok (env_var E) st'"
    using environment_step_ok [of E st x c] by auto
  with Cons.IH [of st'] Cons.prems(2) show ?case by simp
qed simp

lemma environment_contradiction_sound:
  assumes "environment_contradiction cs = Some message"
  shows "\<exists>c \<in> set cs. \<not> condition_spec E x c"
proof (rule ccontr)
  assume "\<not> ?thesis"
  then have all: "\<forall>c \<in> set cs. condition_spec E x c" by blast
  have "env_state_ok (env_var E) \<lparr>es_required = bt_empty, es_required_present = [],
      es_forbidden_present = [], es_forbidden_values = bt_empty\<rparr>"
    by (simp add: env_state_ok_def buckets.bucket_empty)
  from environment_pass_ok [OF this all] obtain st where
    st: "environment_pass cs \<lparr>es_required = bt_empty, es_required_present = [],
      es_forbidden_present = [], es_forbidden_values = bt_empty\<rparr> = Inr st"
    and ok: "env_state_ok (env_var E) st" by blast
  have 1: "filter (\<lambda>n. n \<in> set (es_forbidden_present st)) (es_required_present st) = []"
    using ok by (auto simp: env_state_ok_def filter_empty_conv)
  have "bt_get (es_required st) n = Some v" if "(n, v) \<in> set (es_required st)" for n v
    using that ok btree.get_entries [of "es_required st" n v] by (auto simp: env_state_ok_def)
  then have 2: "filter (\<lambda>(n, v). v \<in> set (bt_bucket (es_forbidden_values st) n)) (es_required st) = []"
    using ok by (force simp: env_state_ok_def filter_empty_conv)
  from assms show False by (simp add: environment_contradiction_def st 1 2)
qed

lemma unsatisfiable_conditions_sound:
  assumes "unsatisfiable_conditions cs = Some message" "\<forall>c \<in> set cs. upper_methods c"
  shows "\<exists>c \<in> set cs. \<not> condition_spec E x c"
proof -
  let ?flat = "concat (map flatten_conjunction cs)"
  have flat: "\<exists>c \<in> set cs. \<not> condition_spec E x c" if "\<exists>c \<in> set ?flat. \<not> condition_spec E x c"
    using that flatten_conjunction_spec [of _ E x] by auto
  have upper: "\<forall>c \<in> set ?flat. upper_methods c" using assms(2) upper_methods_flatten by fastforce
  from assms(1) consider "\<exists>c \<in> set cs. truth_of c = ConstFalse" | "method_constraints_are_empty ?flat"
    | "status_constraints_are_empty ?flat" | "environment_contradiction ?flat = Some message"
    by (auto simp: unsatisfiable_conditions_def Let_def list_ex_iff split: if_splits)
  then show ?thesis
  proof cases
    case 1
    then show ?thesis using truth_of_sound by blast
  next
    case 2
    then show ?thesis by (intro flat method_constraints_sound [OF _ upper])
  next
    case 3
    then show ?thesis by (intro flat status_constraints_sound)
  next
    case 4
    then show ?thesis by (intro flat environment_contradiction_sound)
  qed
qed

lemma requires_response_sound:
  assumes "condition_requires_response c" "sc_res x = None"
  shows "\<not> condition_spec E x c"
  using assms
  by (induction c rule: condition_requires_response.induct) (auto simp: list_ex_iff list_all_iff)

section \<open>What the findings mean for resolution\<close>

lemma inapplicable_rule_silent:
  assumes "indexed E rs" "engines_ok E"
    and "distinct (map (\<lambda>r. (rule_group r, rule_line r)) (rs_rules rs))"
    and r: "r \<in> set (rs_rules rs)" "\<not> rule_applies E req res incl r"
    and x: "x \<in> set (rr_actions (resolve_inner E rs req res incl))"
  shows "(mr_group (ra_rule x), mr_line (ra_rule x)) \<noteq> (rule_group r, rule_line r)"
proof -
  let ?rs = "filter (rule_applies E req res incl) (rule_order (rs_rules rs))"
  have x': "x \<in> set (rst_actions (foldl (apply_rule E req res incl) resolve_init ?rs))"
    using x by (simp add: resolve_inner_reference [OF assms(1,2)] resolve_spec_def Let_def)
  have "(rule_group q, rule_line q) \<noteq> (rule_group r, rule_line r)" if "q \<in> set ?rs" for q
    using that r assms(3) by (auto simp: rule_order_def distinct_map inj_on_def)
  then have "\<not> blames r (family_of (ra_action x)) x"
    by (intro foldl_apply_no_blame [OF _ _ x']) (auto simp: resolve_init_def)
  then show ?thesis by (simp add: blames_def)
qed

text \<open>Every finding of the report is one of some enabled rule's findings.\<close>

lemma collect_findings_prefix:
  "sum_list (map semantic_finding_bytes findings) = bytes \<Longrightarrow> length findings \<le> MAX_RULE_LINT_FINDINGS \<Longrightarrow>
   bytes \<le> MAX_RULE_LINT_REPORT_BYTES \<Longrightarrow>
   \<exists>k. sr_findings (collect_findings fs findings bytes) = findings @ take k fs \<and>
     (sr_complete (collect_findings fs findings bytes) \<longleftrightarrow> length fs \<le> k) \<and>
     length (findings @ take k fs) \<le> MAX_RULE_LINT_FINDINGS \<and>
     sum_list (map semantic_finding_bytes (findings @ take k fs)) \<le> MAX_RULE_LINT_REPORT_BYTES"
proof (induction fs findings bytes rule: collect_findings.induct)
  case (1 findings bytes)
  then show ?case by simp
next
  case (2 f fs findings bytes)
  show ?case
  proof (cases "length findings = MAX_RULE_LINT_FINDINGS \<or>
      over_budget bytes (semantic_finding_bytes f) MAX_RULE_LINT_REPORT_BYTES")
    case True
    with "2.prems" show ?thesis by (intro exI [of _ 0]) (auto simp: Let_def)
  next
    case False
    with "2.prems" obtain k where
      "sr_findings (collect_findings fs (findings @ [f]) (bytes + semantic_finding_bytes f)) = (findings @ [f]) @ take k fs"
      "sr_complete (collect_findings fs (findings @ [f]) (bytes + semantic_finding_bytes f)) \<longleftrightarrow> length fs \<le> k"
      "length ((findings @ [f]) @ take k fs) \<le> MAX_RULE_LINT_FINDINGS"
      "sum_list (map semantic_finding_bytes ((findings @ [f]) @ take k fs)) \<le> MAX_RULE_LINT_REPORT_BYTES"
      using "2.IH" [OF refl False] by (fastforce dest: over_budgetD)
    with False show ?thesis by (intro exI [of _ "Suc k"]) (simp add: Let_def)
  qed
qed

definition all_findings :: "rule_set \<Rightarrow> semantic_finding list" where
  "all_findings rs = concat (map rule_findings (filter (\<lambda>r. \<not> rule_disabled r) (rs_rules rs)))"

lemma semantic_report_prefix:
  obtains k where "sr_findings (semantic_lint_report rs) = take k (all_findings rs)"
    "sr_complete (semantic_lint_report rs) \<longleftrightarrow> length (all_findings rs) \<le> k"
    "length (take k (all_findings rs)) \<le> MAX_RULE_LINT_FINDINGS"
    "sum_list (map semantic_finding_bytes (take k (all_findings rs))) \<le> MAX_RULE_LINT_REPORT_BYTES"
  using collect_findings_prefix [of "[]" 0 "all_findings rs"]
  by (auto simp: semantic_lint_report_def all_findings_def)

lemma rule_findings_source:
  "f \<in> set (rule_findings r) \<Longrightarrow> \<exists>kind message families. f = finding_of r kind message families"
  unfolding rule_findings_def Let_def by (auto split: if_splits option.splits)

lemma finding_rule:
  assumes "f \<in> set (sr_findings (semantic_lint_report rs))"
  obtains r where "r \<in> set (rs_rules rs)" "\<not> rule_disabled r" "f \<in> set (rule_findings r)"
    "sf_group f = rule_group r" "sf_line f = rule_line r"
proof -
  have "f \<in> set (all_findings rs)"
    by (rule semantic_report_prefix [of rs]) (use assms in \<open>auto dest: in_set_takeD\<close>)
  then obtain r where "r \<in> set (rs_rules rs)" "\<not> rule_disabled r" "f \<in> set (rule_findings r)"
    by (auto simp: all_findings_def)
  with that rule_findings_source [of f r] show thesis by (auto simp: finding_of_def)
qed

text \<open>
  The semantic report is bounded in findings and in text, and it is honest about being
  cut: it is an initial segment of the findings of the enabled rules, in rule order, and
  claims to be complete exactly when it is all of them.
\<close>

theorem semantic_report_bounds:
  "\<exists>k. sr_findings (semantic_lint_report rs) =
       take k (concat (map rule_findings (filter (\<lambda>r. \<not> rule_disabled r) (rs_rules rs)))) \<and>
     (sr_complete (semantic_lint_report rs) \<longleftrightarrow>
       sr_findings (semantic_lint_report rs) =
         concat (map rule_findings (filter (\<lambda>r. \<not> rule_disabled r) (rs_rules rs)))) \<and>
     length (sr_findings (semantic_lint_report rs)) \<le> MAX_RULE_LINT_FINDINGS \<and>
     sum_list (map semantic_finding_bytes (sr_findings (semantic_lint_report rs))) \<le> MAX_RULE_LINT_REPORT_BYTES"
proof -
  obtain k where k: "sr_findings (semantic_lint_report rs) = take k (all_findings rs)"
    "sr_complete (semantic_lint_report rs) \<longleftrightarrow> length (all_findings rs) \<le> k"
    "length (take k (all_findings rs)) \<le> MAX_RULE_LINT_FINDINGS"
    "sum_list (map semantic_finding_bytes (take k (all_findings rs))) \<le> MAX_RULE_LINT_REPORT_BYTES"
    by (rule semantic_report_prefix)
  then show ?thesis
    by (intro exI [of _ k]) (auto simp: all_findings_def [symmetric])
qed

text \<open>
  A rule reported with unsatisfiable conditions never contributes an action to any
  resolution, in either phase and with or without the body, when the rules have distinct
  positions and upper-case method names, as the parser leaves them.
\<close>

lemma unsatisfiable_rule_silent:
  assumes "indexed E rs" "engines_ok E"
    and "distinct (map (\<lambda>r. (rule_group r, rule_line r)) (rs_rules rs))"
    and "\<forall>r \<in> set (rs_rules rs). list_all upper_methods (rule_conditions r)"
    and "f \<in> set (sr_findings (semantic_lint_report rs))" "sf_kind f = UnsatisfiableConditions"
  shows "filter (\<lambda>x. mr_group (ra_rule x) = sf_group f \<and> mr_line (ra_rule x) = sf_line f)
    (rr_actions (resolve_inner E rs req res incl)) = []"
proof -
  obtain r where r: "r \<in> set (rs_rules rs)" "f \<in> set (rule_findings r)"
    "sf_group f = rule_group r" "sf_line f = rule_line r"
    using assms(5) by (rule finding_rule)
  then have "unsatisfiable_conditions (rule_conditions r) \<noteq> None"
    using assms(6)
    by (cases "unsatisfiable_conditions (rule_conditions r)")
       (auto simp: rule_findings_def Let_def finding_of_def split: if_splits)
  then obtain message where "unsatisfiable_conditions (rule_conditions r) = Some message" by blast
  then have "\<not> rule_applies E req res incl r"
    using unsatisfiable_conditions_sound assms(4) r(1) by (fastforce simp: rule_applies_def list_all_iff)
  from inapplicable_rule_silent [OF assms(1-3) r(1) this] r(3,4) show ?thesis
    by (auto simp: filter_empty_conv)
qed

text \<open>
  A rule reported for request actions behind a response condition contributes no action
  at all to a request-phase resolution.
\<close>

theorem semantic_phase_sound:
  assumes "indexed E rs" "engines_ok E"
    and "distinct (map (\<lambda>r. (rule_group r, rule_line r)) (rs_rules rs))"
    and "f \<in> set (sr_findings (semantic_lint_report rs))" "sf_kind f = RequestActionRequiresResponse"
  shows "filter (\<lambda>x. mr_group (ra_rule x) = sf_group f \<and> mr_line (ra_rule x) = sf_line f)
    (rr_actions (resolve_inner E rs req None incl)) = []"
proof -
  obtain r where r: "r \<in> set (rs_rules rs)" "f \<in> set (rule_findings r)"
    "sf_group f = rule_group r" "sf_line f = rule_line r"
    using assms(4) by (rule finding_rule)
  then have "request_actions_requiring_response r (effective_actions r) \<noteq> []"
    using assms(5) by (auto simp: rule_findings_def Let_def finding_of_def split: if_splits option.splits)
  then obtain c where "c \<in> set (rule_conditions r)" "condition_requires_response c"
    by (auto simp: request_actions_requiring_response_def list_ex_iff split: if_splits)
  then have "\<not> rule_applies E req None incl r"
    using requires_response_sound [of c "spec_context_of req None r" E]
    by (auto simp: rule_applies_def spec_context_of_def)
  from inapplicable_rule_silent [OF assms(1-3) r(1) this] r(3,4) show ?thesis
    by (auto simp: filter_empty_conv)
qed

section \<open>Concrete snapshots\<close>

definition semantic_demo_rules :: "rule list" where
  "semantic_demo_rules =
     [demo_rule 1 (demo_host ''a.example.com'') [CMethod [''GET''], CNot (CMethod [''GET'', ''PUT''])] [Status 404],
      demo_rule 2 (demo_host ''a.example.com'') [CStatus [500]] [ReqBody (BodySet (Inline ''x''))]]"

lemma semantic_demo_indexed: "indexed demo_ext (demo_set semantic_demo_rules)"
  by (rule demo_indexed) code_simp

lemma demo_set_rules: "rs_rules (demo_set rules) = rules"
  by (simp add: demo_set_def)

lemma semantic_demo_findings:
  obtains f g where "sr_findings (semantic_lint_report (demo_set semantic_demo_rules)) = [f, g]"
    "sf_line f = 1" "sf_kind f = UnsatisfiableConditions"
    "sf_line g = 2" "sf_kind g = RequestActionRequiresResponse"
proof -
  have "map (\<lambda>f. (sf_line f, sf_kind f))
      (sr_findings (semantic_lint_report (demo_set semantic_demo_rules))) =
    [(1, UnsatisfiableConditions), (2, RequestActionRequiresResponse)]"
    unfolding semantic_lint_report_def demo_set_rules by code_simp
  with that show thesis by (auto simp: map_eq_Cons_conv)
qed

lemma semantic_demo_distinct:
  "distinct (map (\<lambda>r. (rule_group r, rule_line r)) (rs_rules (demo_set semantic_demo_rules)))"
  by (simp add: demo_set_rules semantic_demo_rules_def demo_rule_def)

theorem semantic_phase_sound_witness:
  "\<exists>f. f \<in> set (sr_findings (semantic_lint_report (demo_set semantic_demo_rules))) \<and>
     sf_kind f = RequestActionRequiresResponse \<and> sf_line f = 2 \<and>
     filter (\<lambda>x. mr_group (ra_rule x) = sf_group f \<and> mr_line (ra_rule x) = sf_line f)
       (rr_actions (resolve_inner demo_ext (demo_set semantic_demo_rules)
         (demo_request ''http://a.example.com/'' []) None True)) = []"
proof -
  obtain f g where f: "f \<in> set (sr_findings (semantic_lint_report (demo_set semantic_demo_rules)))"
    "sf_line f = 2" "sf_kind f = RequestActionRequiresResponse"
    by (rule semantic_demo_findings) auto
  from semantic_phase_sound [OF semantic_demo_indexed demo_engines_ok semantic_demo_distinct f(1,3)] f
  show ?thesis by blast
qed

definition skip_skip_rules :: "rule list" where
  "skip_skip_rules =
     [demo_rule 1 (MPort 80) [] [Skip (fs_from_iter [FamSkip])],
      demo_rule 2 (MPort 80) [] [Skip (fs_from_iter [FamTag]), Tag (Inline ''x'')]]"

lemma fs_contains_simps [simp]:
  "\<not> fs_contains FS_EMPTY f"
  "fs_contains (fs_insert s f) g \<longleftrightarrow> g = f \<or> fs_contains s g"
  "fs_contains (fs_union s t) f \<longleftrightarrow> fs_contains s f \<or> fs_contains t f"
  "fs_contains (fs_from_iter families) f \<longleftrightarrow> f \<in> set families"
  "fs_is_empty (fs_from_iter families) \<longleftrightarrow> families = []"
  using fs.foldl_ins [OF fs.wf_empty, of families] fs.is_empty_iff
  by (auto simp: fs.mem_iff fs.elems_empty fs.elems_ins fs.elems_un fs_from_iter_def)

lemma skip_skip_effects:
  "actions_after_skip (skip_skip_rules ! 0) = []" "actions_after_skip (skip_skip_rules ! 1) = [''tag'']"
  by (simp_all add: actions_after_skip_def skip_skip_rules_def demo_rule_def skip_suppresses_def skip_observe_def)

lemma skip_skip_findings:
  "map (\<lambda>f. (sf_line f, sf_kind f, sf_families f)) (rule_findings (skip_skip_rules ! 0)) = []"
  "map (\<lambda>f. (sf_line f, sf_kind f, sf_families f)) (rule_findings (skip_skip_rules ! 1)) =
     [(2, ActionAfterSkip, [''tag''])]"
  using skip_skip_effects
  by (simp_all add: rule_findings_def skip_skip_rules_def demo_rule_def Let_def effective_actions_def
    duplicate_single_families_def is_single_def is_stackable_def unsatisfiable_conditions_def
    method_constraints_are_empty_def status_constraints_are_empty_def environment_contradiction_def
    string_intersection_def u16_intersection_def value_intersection_def constraints_are_empty_def map_filter_def
    request_actions_requiring_response_def terminal_families_def has_effective_family_def
    response_actions_with_local_response_def body_actions_with_bodyless_status_def skip_suppresses_def skip_observe_def
    finding_of_def bt_empty_def)

lemma skip_skip_indexed: "indexed demo_ext (demo_set skip_skip_rules)"
  by (rule demo_indexed) code_simp

lemma port_rule_captures:
  "rule_captures demo_ext (demo_request ''http://a.example.com/'' []) (demo_rule n (MPort 80) cs as) \<noteq> None"
proof -
  have "Option.bind (url_ok ''http://a.example.com/'') effective_port = Some 80" by code_simp
  then show ?thesis by (auto simp: rule_captures_def demo_rule_def demo_request_def bind_eq_Some_conv)
qed

text \<open>
  The after-skip analysis looks at one rule alone. A first rule that skips \<open>skip\<close> actions
  suppresses the second rule's \<open>skip(tag)\<close>, so its tag is resolved, though the analysis says that
  the skip suppresses it.
\<close>

theorem after_skip_ignores_earlier_rules:
  "map (\<lambda>f. (sf_line f, sf_kind f, sf_families f)) (rule_findings (skip_skip_rules ! 1)) =
     [(2, ActionAfterSkip, [''tag''])] \<and>
   map (\<lambda>x. (mr_line (ra_rule x), ra_action x))
     (rr_actions (resolve_inner demo_ext (demo_set skip_skip_rules)
       (demo_request ''http://a.example.com/'' []) None True)) =
     [(1, Skip (fs_from_iter [FamSkip])), (2, Tag (Inline ''x''))]"
proof (rule conjI)
  obtain c1 c2 where
    "rule_captures demo_ext (demo_request ''http://a.example.com/'' []) (skip_skip_rules ! 0) = Some c1"
    "rule_captures demo_ext (demo_request ''http://a.example.com/'' []) (skip_skip_rules ! 1) = Some c2"
    using port_rule_captures by (fastforce simp: skip_skip_rules_def)
  then show "map (\<lambda>x. (mr_line (ra_rule x), ra_action x))
     (rr_actions (resolve_inner demo_ext (demo_set skip_skip_rules)
       (demo_request ''http://a.example.com/'' []) None True)) =
     [(1, Skip (fs_from_iter [FamSkip])), (2, Tag (Inline ''x''))]"
    unfolding resolve_inner_reference [OF skip_skip_indexed demo_engines_ok] resolve_spec_def demo_set_rules
    by (simp add: skip_skip_rules_def rule_order_def rule_applies_def apply_rule_def resolve_init_def
        demo_rule_def resolve_action_def action_for_body_availability_def skip_suppresses_def
        skip_observe_def is_single_def is_stackable_def Let_def brief_of_def)
qed (rule skip_skip_findings)

end
