(* ===== verification/Parse_Groups.thy ===== *)
theory Parse_Groups
  imports Parse_Action Semantic_Lint
begin

text \<open>
  Rules and snapshots: \<open>parse_rule\<close> (\<open>parser/mod.rs\<close>), the diagnostics and their limit
  (\<open>snapshot_support.rs\<close>), and \<open>RuleSet::parse_groups\<close> with its budgets (\<open>resolve.rs\<close>). A
  snapshot is published only when every line parsed; it then has only well-formed rules,
  source and rules keep the limits of the language specification, and it meets what the theorems on resolution, planning and
  linting assume.
\<close>

section \<open>Rules\<close>

record parse_rule_error =
  pe_code :: rule_error_code
  pe_source :: rule_model_error
  pe_span :: "rule_source_span option"

definition rule_parse_error :: "rule_error_code \<Rightarrow> rule_model_error \<Rightarrow> parse_rule_error" where
  "rule_parse_error code source = \<lparr>pe_code = code, pe_source = source, pe_span = None\<rparr>"

definition with_span :: "parse_rule_error \<Rightarrow> nat \<Rightarrow> nat \<Rightarrow> parse_rule_error" where
  "with_span e a b = e\<lparr>pe_span := Some \<lparr>span_start = a, span_end = b\<rparr>\<rparr>"

definition at_token :: "parse_rule_error \<Rightarrow> rule_token \<Rightarrow> parse_rule_error" where
  "at_token e t = with_span e (tok_start t) (tok_end t)"

definition map_error :: "('e \<Rightarrow> 'f) \<Rightarrow> 'e + 'a \<Rightarrow> 'f + 'a" where
  "map_error f r = (case r of Inl e \<Rightarrow> Inl (f e) | Inr x \<Rightarrow> Inr x)"

record rule_state =
  ru_actions :: "action list"
  ru_conditions :: "condition list"
  ru_condition_nodes :: nat
  ru_important :: bool
  ru_disabled :: bool
  ru_tags :: "string list"
  ru_properties :: nat

definition rule_init :: rule_state where
  "rule_init = \<lparr>ru_actions = [], ru_conditions = [], ru_condition_nodes = 0, ru_important = False,
     ru_disabled = False, ru_tags = [], ru_properties = 0\<rparr>"

definition rule_condition :: "ext \<Rightarrow> syntax_profile \<Rightarrow> rule_token \<Rightarrow> rule_state \<Rightarrow> parse_rule_error + rule_state" where
  "rule_condition E profile t st =
     try_bind (map_error (\<lambda>e. at_token (rule_parse_error CodeCondition e) t)
         (parse_condition E (tok_text t) profile)) (\<lambda>c.
       let nodes = saturating_add (ru_condition_nodes st) (condition_node_count c) in
       if MAX_RULE_CONDITION_NODES_PER_RULE < nodes
       then Inl (rule_parse_error CodeCondition (LimitExceeded ''condition count''))
       else Inr (st\<lparr>ru_condition_nodes := nodes, ru_conditions := ru_conditions st @ [c]\<rparr>))"

definition rule_property :: "rule_token \<Rightarrow> rule_state \<Rightarrow> parse_rule_error + rule_state" where
  "rule_property t st =
     (let st = st\<lparr>ru_properties := ru_properties st + 1\<rparr> in
      if MAX_RULE_PROPERTIES_PER_RULE < ru_properties st
      then Inl (rule_parse_error CodeProperty (LimitExceeded ''property count''))
      else (case canonical_property (tok_text t) of
        None \<Rightarrow> Inl (rule_parse_error CodeProperty (UnsupportedInput ''rule property''))
      | Some (name, sfx) \<Rightarrow>
          if name = ''@important'' then Inr (st\<lparr>ru_important := True\<rparr>)
          else if name = ''@disabled'' then Inr (st\<lparr>ru_disabled := True\<rparr>)
          else if name = ''@tag:'' then
            (if sfx = [] then Inl (rule_parse_error CodeProperty (MissingArgument ''rule tag''))
             else Inr (st\<lparr>ru_tags := ru_tags st @ [sfx]\<rparr>))
          else Inl (rule_parse_error CodeProperty (UnsupportedInput ''rule property''))))"

definition rule_action :: "ext \<Rightarrow> syntax_profile \<Rightarrow> rule_token \<Rightarrow> rule_state \<Rightarrow> parse_rule_error + rule_state" where
  "rule_action E profile t st =
     (if length (ru_actions st) = MAX_RULE_ACTIONS_PER_RULE
      then Inl (rule_parse_error CodeAction (LimitExceeded ''action count''))
      else
        try_bind (map_error (\<lambda>e. at_token (rule_parse_error CodeAction e) t)
            (parse_action E (tok_text t) profile))
          (\<lambda>a. Inr (st\<lparr>ru_actions := ru_actions st @ [a]\<rparr>)))"

fun rule_loop ::
  "ext \<Rightarrow> syntax_profile \<Rightarrow> rule_token list \<Rightarrow> rule_state \<Rightarrow> parse_rule_error + rule_state" where
  "rule_loop E profile [] st = Inr st"
| "rule_loop E profile (t # ts) st =
     (if tok_text t = ''when'' then
        (case ts of
           [] \<Rightarrow> Inl (rule_parse_error CodeCondition (MissingArgument ''when property''))
         | c # ts \<Rightarrow> try_bind (rule_condition E profile c st) (rule_loop E profile ts))
      else if starts_with (tok_text t) ''@'' then
        try_bind (rule_property t st) (rule_loop E profile ts)
      else try_bind (rule_action E profile t st) (rule_loop E profile ts))"

definition parse_rule ::
  "ext \<Rightarrow> string \<Rightarrow> nat \<Rightarrow> string \<Rightarrow> syntax_profile \<Rightarrow> parse_rule_error + rule" where
  "parse_rule E grp line input profile =
     try_bind (map_error (\<lambda>e. with_span (rule_parse_error CodeSyntax e) 0 (length input)) (tokenize input)) (\<lambda>tokens.
       case tokens of
         [] \<Rightarrow> Inl (rule_parse_error CodeSyntax (EmptyInput ''rule''))
       | first # rest \<Rightarrow>
           try_bind (map_error (\<lambda>e. at_token (rule_parse_error CodeMatcher e) first)
               (parse_matcher E (tok_text first))) (\<lambda>matcher.
           try_bind (rule_loop E profile rest rule_init) (\<lambda>st.
             if ru_actions st = [] then Inl (rule_parse_error CodeAction (MissingArgument ''rule action''))
             else
               Inr \<lparr>rule_group = grp, rule_line = line, rule_raw = input, rule_matcher = matcher,
                    rule_actions = ru_actions st, rule_conditions = ru_conditions st,
                    rule_important = ru_important st, rule_disabled = ru_disabled st,
                    rule_tags = ru_tags st\<rparr>)))"

section \<open>Diagnostics\<close>

text \<open>The result says whether parsing has to stop.\<close>

definition push_parse_diagnostic :: "rule_error list \<Rightarrow> rule_error \<Rightarrow> bool \<times> rule_error list" where
  "push_parse_diagnostic errors error =
     (if length errors < MAX_RULE_DIAGNOSTICS - 1 then (False, errors @ [error])
      else if length errors < MAX_RULE_DIAGNOSTICS
      then (True, errors @ [error\<lparr>err_code := CodeSyntax, err_message := DiagnosticLimitReached\<rparr>])
      else (True, errors))"

definition group_error :: "rule_error_code \<Rightarrow> string \<Rightarrow> nat \<Rightarrow> diagnostic \<Rightarrow> rule_error" where
  "group_error code grp line message =
     \<lparr>err_code = code, err_group = grp, err_line = line, err_span = None, err_message = message\<rparr>"

section \<open>Groups\<close>

definition is_language_directive :: "string \<Rightarrow> bool" where
  "is_language_directive line \<longleftrightarrow>
     line = ''@language'' \<or>
     (case strip_prefix line ''@language'' of Some sfx \<Rightarrow> 0 < ws_len sfx | None \<Rightarrow> False)"

record snapshot_state =
  ss_rules :: "rule list"
  ss_errors :: "rule_error list"
  ss_source_bytes :: nat
  ss_rule_lines :: nat
  ss_actions :: nat
  ss_condition_nodes :: nat
  ss_body_conditions :: nat

definition snapshot_init :: snapshot_state where
  "snapshot_init = \<lparr>ss_rules = [], ss_errors = [], ss_source_bytes = 0, ss_rule_lines = 0,
     ss_actions = 0, ss_condition_nodes = 0, ss_body_conditions = 0\<rparr>"

text \<open>How a loop goes on: with the next item, after leaving the group, or not at all.\<close>

datatype flow = Continue | LeaveGroup | LeaveAll

text \<open>Reporting an error: whether the loop then stops depends on the caller.\<close>

definition report :: "rule_error \<Rightarrow> snapshot_state \<Rightarrow> bool \<times> snapshot_state" where
  "report e st = (let (stop, errors) = push_parse_diagnostic (ss_errors st) e in (stop, st\<lparr>ss_errors := errors\<rparr>))"

definition report_and :: "flow \<Rightarrow> rule_error \<Rightarrow> snapshot_state \<Rightarrow> flow \<times> snapshot_state" where
  "report_and fl e st = (fl, snd (report e st))"

definition report_unless_full :: "rule_error \<Rightarrow> snapshot_state \<Rightarrow> flow \<times> snapshot_state" where
  "report_unless_full e st = (let (stop, st) = report e st in (if stop then LeaveAll else Continue, st))"

definition charge :: "nat \<Rightarrow> nat \<Rightarrow> nat \<Rightarrow> bool \<times> nat" where
  "charge counter cost limit = (let c = saturating_add counter cost in (limit < c, c))"

definition accept_rule :: "string \<Rightarrow> nat \<Rightarrow> rule \<Rightarrow> snapshot_state \<Rightarrow> flow \<times> snapshot_state" where
  "accept_rule grp line rule st =
     (let nodes = sum_list (map condition_node_count (rule_conditions rule));
          body = sum_list (map body_condition_count (rule_conditions rule));
          (over, n) = charge (ss_actions st) (length (rule_actions rule)) MAX_RULE_ACTIONS_PER_SNAPSHOT;
          st = st\<lparr>ss_actions := n\<rparr> in
      if over then
        report_and LeaveAll (group_error CodeAction grp line (BudgetLimit MAX_RULE_ACTIONS_PER_SNAPSHOT ''action'')) st
      else
        (let (over, n) = charge (ss_condition_nodes st) nodes MAX_RULE_CONDITION_NODES_PER_SNAPSHOT;
             st = st\<lparr>ss_condition_nodes := n\<rparr> in
         if over then
           report_and LeaveAll (group_error CodeCondition grp line
             (BudgetLimit MAX_RULE_CONDITION_NODES_PER_SNAPSHOT ''condition-node'')) st
         else
           (let (over, n) = charge (ss_body_conditions st) body MAX_RULE_BODY_CONDITIONS_PER_SNAPSHOT;
                st = st\<lparr>ss_body_conditions := n\<rparr> in
            if over then
              report_and LeaveAll (group_error CodeCondition grp line
                (BudgetLimit MAX_RULE_BODY_CONDITIONS_PER_SNAPSHOT ''body-condition'')) st
            else (Continue, st\<lparr>ss_rules := ss_rules st @ [rule]\<rparr>))))"

text \<open>A source line that holds a rule.\<close>

definition rule_line_step ::
  "ext \<Rightarrow> string \<Rightarrow> nat \<Rightarrow> string \<Rightarrow> syntax_profile \<Rightarrow> snapshot_state \<Rightarrow> flow \<times> snapshot_state" where
  "rule_line_step E grp line_no line profile st =
     (if ss_rule_lines st = MAX_RULES_PER_SNAPSHOT
      then report_and LeaveAll (group_error CodeSyntax grp line_no RuleLimit) st
      else
        (let st = st\<lparr>ss_rule_lines := ss_rule_lines st + 1\<rparr> in
         case parse_rule E grp line_no line profile of
           Inr rule \<Rightarrow> accept_rule grp line_no rule st
         | Inl e \<Rightarrow>
             report_unless_full \<lparr>err_code = pe_code e, err_group = grp, err_line = line_no,
               err_span = pe_span e, err_message = ModelMessage (pe_source e)\<rparr> st))"

record group_state =
  gs_first_seen :: bool
  gs_profile :: syntax_profile

definition line_step ::
  "ext \<Rightarrow> bool \<Rightarrow> string \<Rightarrow> nat \<Rightarrow> string \<Rightarrow> group_state \<Rightarrow> snapshot_state \<Rightarrow>
     flow \<times> group_state \<times> snapshot_state" where
  "line_step E require_header grp line_no raw_line gs st =
     (if MAX_RULE_SOURCE_LINE_BYTES < length raw_line then
        (let (fl, st) = report_unless_full (group_error CodeSyntax grp line_no LineByteLimit) st in (fl, gs, st))
      else (case strip_comment raw_line of
        None \<Rightarrow> (Continue, gs, st)
      | Some line \<Rightarrow>
          (let line = trim line in
           if line = [] then (Continue, gs, st)
           else if \<not> gs_first_seen gs then
             (let gs = gs\<lparr>gs_first_seen := True\<rparr> in
              if is_language_directive line then
                (if line \<noteq> RULE_LANGUAGE_HEADER then
                   (let (fl, st) = report_and LeaveGroup (group_error CodeProperty grp line_no UnsupportedDirective) st in
                    (fl, gs, st))
                 else (Continue, gs\<lparr>gs_profile := CanonicalV3\<rparr>, st))
              else if require_header then
                (let (fl, st) = report_and LeaveGroup (group_error CodeProperty grp line_no MissingLanguageHeader) st in
                 (fl, gs, st))
              else
                (let (fl, st) = rule_line_step E grp line_no line (gs_profile gs) st in (fl, gs, st)))
           else if is_language_directive line then
             (let (fl, st) = report_unless_full (group_error CodeProperty grp line_no MisplacedLanguageHeader) st in
              (fl, gs, st))
           else
             (let (fl, st) = rule_line_step E grp line_no line (gs_profile gs) st in (fl, gs, st)))))"

fun lines_loop ::
  "ext \<Rightarrow> bool \<Rightarrow> string \<Rightarrow> nat \<Rightarrow> string list \<Rightarrow> group_state \<Rightarrow> snapshot_state \<Rightarrow> flow \<times> snapshot_state" where
  "lines_loop E require_header grp line_no [] gs st = (Continue, st)"
| "lines_loop E require_header grp line_no (l # ls) gs st =
     (case line_step E require_header grp line_no l gs st of
        (Continue, gs, st) \<Rightarrow> lines_loop E require_header grp (line_no + 1) ls gs st
      | (LeaveGroup, gs, st) \<Rightarrow> (Continue, st)
      | (LeaveAll, gs, st) \<Rightarrow> (LeaveAll, st))"

definition group_name_valid :: "string \<Rightarrow> bool" where
  "group_name_valid grp \<longleftrightarrow> grp \<noteq> [] \<and> length grp \<le> MAX_RULE_GROUP_NAME_BYTES"

definition group_step ::
  "ext \<Rightarrow> bool \<Rightarrow> nat \<Rightarrow> string \<Rightarrow> string \<Rightarrow> snapshot_state \<Rightarrow> flow \<times> snapshot_state" where
  "group_step E require_header group_index grp txt st =
     (let diagnostic_group = (if group_name_valid grp then grp else ''<invalid-group>'') in
      if MAX_RULE_GROUPS_PER_SNAPSHOT \<le> group_index then
        report_and LeaveAll (group_error CodeSyntax diagnostic_group 1 GroupLimit) st
      else (case checked_add (ss_source_bytes st) (length txt) of
        Some bytes \<Rightarrow>
          if bytes \<le> MAX_RULE_SNAPSHOT_SOURCE_BYTES then
            (let st = st\<lparr>ss_source_bytes := bytes\<rparr> in
             if \<not> group_name_valid grp then
               report_unless_full (group_error CodeSyntax diagnostic_group 1 GroupNameLength) st
             else
               lines_loop E require_header grp 1 (text_lines [] txt)
                 \<lparr>gs_first_seen = False, gs_profile = Compatible\<rparr> st)
          else report_and LeaveAll (group_error CodeSyntax diagnostic_group 1 SourceByteLimit) st
      | None \<Rightarrow> report_and LeaveAll (group_error CodeSyntax diagnostic_group 1 SourceByteLimit) st))"

fun groups_loop ::
  "ext \<Rightarrow> bool \<Rightarrow> nat \<Rightarrow> (string \<times> string) list \<Rightarrow> snapshot_state \<Rightarrow> snapshot_state" where
  "groups_loop E require_header i [] st = st"
| "groups_loop E require_header i ((grp, txt) # groups) st =
     (case group_step E require_header i grp txt st of
        (LeaveAll, st) \<Rightarrow> st
      | (_, st) \<Rightarrow> groups_loop E require_header (i + 1) groups st)"

text \<open>
  \<open>version\<close> is what \<open>next_ruleset_version\<close> returns (see \<open>Snapshot_Version\<close>). \<open>None\<close> is a panic
  while the index is built.
\<close>

definition parse_groups_with_profile ::
  "ext \<Rightarrow> u64 \<Rightarrow> (string \<times> string) list \<Rightarrow> bool \<Rightarrow> (rule_error list + rule_set) option" where
  "parse_groups_with_profile E version groups require_header =
     (let st = groups_loop E require_header 0 groups snapshot_init in
      if ss_errors st = [] then
        map_option (\<lambda>index. Inr \<lparr>rs_language_version = RULE_LANGUAGE_VERSION, rs_version = version,
            rs_rules = ss_rules st, rs_index = index\<rparr>)
          (index_build E (ss_rules st))
      else Some (Inl (ss_errors st)))"

definition parse_groups :: "ext \<Rightarrow> u64 \<Rightarrow> (string \<times> string) list \<Rightarrow> (rule_error list + rule_set) option" where
  "parse_groups E version groups = parse_groups_with_profile E version groups False"

definition parse_versioned_groups ::
  "ext \<Rightarrow> u64 \<Rightarrow> (string \<times> string) list \<Rightarrow> (rule_error list + rule_set) option" where
  "parse_versioned_groups E version groups = parse_groups_with_profile E version groups True"

definition ruleset_parse :: "ext \<Rightarrow> u64 \<Rightarrow> string \<Rightarrow> string \<Rightarrow> (rule_error list + rule_set) option" where
  "ruleset_parse E version grp txt = parse_groups E version [(grp, txt)]"

definition parse_versioned :: "ext \<Rightarrow> u64 \<Rightarrow> string \<Rightarrow> string \<Rightarrow> (rule_error list + rule_set) option" where
  "parse_versioned E version grp txt = parse_versioned_groups E version [(grp, txt)]"

definition ruleset_empty :: "u64 \<Rightarrow> rule_set" where
  "ruleset_empty version =
     \<lparr>rs_language_version = RULE_LANGUAGE_VERSION, rs_version = version, rs_rules = [],
      rs_index = index_default\<rparr>"

section \<open>Well-formed rules\<close>

definition wf_rule :: "ext \<Rightarrow> rule \<Rightarrow> bool" where
  "wf_rule E r \<longleftrightarrow>
     wf_matcher E (rule_matcher r) \<and> matcher_nesting (rule_matcher r) \<le> MAX_RULE_PARSE_NESTING \<and>
     rule_actions r \<noteq> [] \<and> length (rule_actions r) \<le> MAX_RULE_ACTIONS_PER_RULE \<and>
     list_all (\<lambda>a. wf_action a \<and> validate_templates E a = Inr ()) (rule_actions r) \<and>
     list_all (\<lambda>c. wf_condition E c \<and> condition_nesting c \<le> MAX_RULE_PARSE_NESTING) (rule_conditions r) \<and>
     sum_list (map condition_node_count (rule_conditions r)) \<le> MAX_RULE_CONDITION_NODES_PER_RULE"

definition rule_state_inv :: "ext \<Rightarrow> rule_state \<Rightarrow> bool" where
  "rule_state_inv E st \<longleftrightarrow>
     length (ru_actions st) \<le> MAX_RULE_ACTIONS_PER_RULE \<and>
     list_all (\<lambda>a. wf_action a \<and> validate_templates E a = Inr ()) (ru_actions st) \<and>
     list_all (\<lambda>c. wf_condition E c \<and> condition_nesting c \<le> MAX_RULE_PARSE_NESTING) (ru_conditions st) \<and>
     sum_list (map condition_node_count (ru_conditions st)) = ru_condition_nodes st \<and>
     ru_condition_nodes st \<le> MAX_RULE_CONDITION_NODES_PER_RULE"

lemma map_error_Inr [simp]: "map_error f r = Inr x \<longleftrightarrow> r = Inr x"
  by (cases r) (simp_all add: map_error_def)

lemma saturating_add_small: "saturating_add a b \<le> n \<Longrightarrow> n < USIZE_MAX \<Longrightarrow> saturating_add a b = a + b"
  by (auto simp: saturating_add_def min_def split: if_splits)

lemma parsed_action_ok: "parse_action E input profile = Inr a \<Longrightarrow> wf_action a \<and> validate_templates E a = Inr ()"
  by (rule parse_action_ok)

lemma rule_condition_inv:
  assumes "rule_condition E profile t st = Inr st'" "rule_state_inv E st"
  shows "rule_state_inv E st'"
proof -
  from assms(1) obtain c where c: "parse_condition E (tok_text t) profile = Inr c"
    "saturating_add (ru_condition_nodes st) (condition_node_count c) \<le> MAX_RULE_CONDITION_NODES_PER_RULE"
    "st' = st\<lparr>ru_condition_nodes := saturating_add (ru_condition_nodes st) (condition_node_count c),
       ru_conditions := ru_conditions st @ [c]\<rparr>"
    by (auto simp: rule_condition_def try_bind_Inr_iff Let_def split: if_splits)
  have "MAX_RULE_CONDITION_NODES_PER_RULE < USIZE_MAX"
    by (simp add: MAX_RULE_CONDITION_NODES_PER_RULE_def USIZE_MAX_def)
  with saturating_add_small [OF c(2)] c assms(2) parse_condition_ok [OF c(1)] show ?thesis
    by (simp add: rule_state_inv_def)
qed

lemma rule_property_inv: "rule_property t st = Inr st' \<Longrightarrow> rule_state_inv E st \<Longrightarrow> rule_state_inv E st'"
  by (auto simp: rule_property_def rule_state_inv_def Let_def split: if_splits option.splits prod.splits)

lemma rule_action_inv: "rule_action E profile t st = Inr st' \<Longrightarrow> rule_state_inv E st \<Longrightarrow> rule_state_inv E st'"
  by (auto simp: rule_action_def rule_state_inv_def try_bind_Inr_iff dest: parsed_action_ok split: if_splits)

lemma rule_loop_inv: "rule_loop E profile ts st = Inr st' \<Longrightarrow> rule_state_inv E st \<Longrightarrow> rule_state_inv E st'"
proof (induction E profile ts st rule: rule_loop.induct)
  case (2 E profile t ts st)
  then show ?case
    by (auto simp: try_bind_Inr_iff split: if_splits list.splits
        dest: rule_condition_inv rule_property_inv rule_action_inv)
qed simp

lemma parse_rule_ok:
  assumes "parse_rule E g n input profile = Inr r"
  shows "wf_rule E r \<and> rule_group r = g \<and> rule_line r = n \<and> rule_raw r = input"
proof -
  obtain first rest m st where parts: "tokenize input = Inr (first # rest)"
    "parse_matcher E (tok_text first) = Inr m" "rule_loop E profile rest rule_init = Inr st" "ru_actions st \<noteq> []"
    "r = \<lparr>rule_group = g, rule_line = n, rule_raw = input, rule_matcher = m, rule_actions = ru_actions st,
       rule_conditions = ru_conditions st, rule_important = ru_important st, rule_disabled = ru_disabled st,
       rule_tags = ru_tags st\<rparr>"
    using assms by (cases "tokenize input"; cases "projr (tokenize input)")
      (auto simp: parse_rule_def map_error_def try_bind_Inr_iff split: if_splits sum.splits)
  have "rule_state_inv E rule_init" by (simp add: rule_state_inv_def rule_init_def)
  with rule_loop_inv [OF parts(3)] have "rule_state_inv E st" .
  with parts parse_matcher_ok [OF parts(2)] show ?thesis by (simp add: wf_rule_def rule_state_inv_def)
qed

section \<open>The limits of a rule's source\<close>

text \<open>
  A reference for the limits that the parsed rule does not show. Of the tokens after the matcher,
  \<open>when\<close> takes the next one as its condition; of the others those that begin with \<open>@\<close> are
  properties and the rest are actions.
\<close>

fun property_count :: "rule_token list \<Rightarrow> nat" where
  "property_count [] = 0"
| "property_count (t # ts) =
     (if tok_text t = ''when'' then (case ts of [] \<Rightarrow> 0 | _ # ts \<Rightarrow> property_count ts)
      else if starts_with (tok_text t) ''@'' then property_count ts + 1
      else property_count ts)"

fun action_texts :: "rule_token list \<Rightarrow> string list" where
  "action_texts [] = []"
| "action_texts (t # ts) =
     (if tok_text t = ''when'' then (case ts of [] \<Rightarrow> [] | _ # ts \<Rightarrow> action_texts ts)
      else if starts_with (tok_text t) ''@'' then action_texts ts
      else tok_text t # action_texts ts)"

text \<open>The deepest nesting of parentheses outside quotes and escapes.\<close>

fun paren_nesting :: "char option \<Rightarrow> bool \<Rightarrow> nat \<Rightarrow> string list \<Rightarrow> nat" where
  "paren_nesting quote escaped depth [] = depth"
| "paren_nesting quote escaped depth (ch # chs) =
     max depth
       (if escaped then paren_nesting quote False depth chs
        else if ch = [backslash] then paren_nesting quote True depth chs
        else (case quote of
          Some q \<Rightarrow> paren_nesting (if ch = [q] then None else Some q) False depth chs
        | None \<Rightarrow>
            if ch = [dquote] \<or> ch = [squote] then paren_nesting (Some (hd ch)) False depth chs
            else if ch = ''('' then paren_nesting None False (depth + 1) chs
            else if ch = '')'' then paren_nesting None False (depth - 1) chs
            else paren_nesting None False depth chs))"

text \<open>An action is one of the three that take no arguments, or a call with a bounded number of them.\<close>

definition action_call_ok :: "syntax_profile \<Rightarrow> string \<Rightarrow> bool" where
  "action_call_ok profile s \<longleftrightarrow>
     action_name profile s \<in> {Some ''direct'', Some ''bypass'', Some ''hide''} \<or>
     (\<exists>name args. parse_call s = Inr (name, args) \<and> length args \<le> MAX_RULE_CALL_ARGUMENTS)"

definition rule_source_limits :: "rule \<Rightarrow> bool" where
  "rule_source_limits r \<longleftrightarrow>
     (\<exists>matcher ts profile. tokenize (rule_raw r) = Inr (matcher # ts) \<and>
        property_count ts \<le> MAX_RULE_PROPERTIES_PER_RULE \<and> list_all (action_call_ok profile) (action_texts ts)) \<and>
     paren_nesting None False 0 (chars (rule_raw r)) \<le> MAX_RULE_PARSE_NESTING"

text \<open>
  The limits of every call, of an action, a condition or inside a condition: the number of its
  arguments, and at every place of its text the parentheses, brackets, braces and angle brackets that
  are open there.
\<close>

definition call_limits :: "string \<Rightarrow> string list \<Rightarrow> bool" where
  "call_limits input args \<longleftrightarrow>
     length args \<le> MAX_RULE_CALL_ARGUMENTS \<and>
     (trim input \<noteq> [] \<longrightarrow>
       (\<forall>k. \<exists>st. args_loop input 0 (take k input) args_init = Inr st \<and> sa_depth st \<le> MAX_RULE_PARSE_NESTING))"

lemma parsed_action_call:
  assumes "parse_action E s profile = Inr a"
  shows "action_call_ok profile s"
proof (cases "action_name profile s \<in> {Some ''direct'', Some ''bypass'', Some ''hide''}")
  case False
  with assms obtain name args where call: "parse_call s = Inr (name, args)"
    by (auto simp: parse_action_def Let_def try_bind_Inr_iff split: if_splits)
  then obtain body where "split_args body = Inr args"
    by (auto simp: parse_call_def try_bind_Inr_iff split: option.splits if_splits)
  from split_args_bounds [OF this] call show ?thesis by (auto simp: action_call_ok_def args_ok_def)
qed (simp add: action_call_ok_def)

lemma rule_loop_source:
  assumes "rule_loop E profile ts st = Inr st'" "ru_properties st \<le> MAX_RULE_PROPERTIES_PER_RULE"
  shows "ru_properties st' = ru_properties st + property_count ts \<and> ru_properties st' \<le> MAX_RULE_PROPERTIES_PER_RULE \<and>
    list_all (action_call_ok profile) (action_texts ts)"
  using assms
proof (induction E profile ts st rule: rule_loop.induct)
  case (2 E profile t ts st)
  have p: "ru_properties st1 = ru_properties st + 1 \<and> ru_properties st1 \<le> MAX_RULE_PROPERTIES_PER_RULE"
    if "rule_property t st = Inr st1" for st1
    using that by (auto simp: rule_property_def Let_def split: if_splits option.splits prod.splits)
  have a: "ru_properties st1 = ru_properties st \<and> action_call_ok profile (tok_text t)" if "rule_action E profile t st = Inr st1" for st1
    using that parsed_action_call by (auto simp: rule_action_def try_bind_Inr_iff split: if_splits)
  have c: "ru_properties st1 = ru_properties st" if "rule_condition E profile c st = Inr st1" for c st1
    using that by (auto simp: rule_condition_def try_bind_Inr_iff Let_def split: if_splits)
  show ?case
  proof (cases "tok_text t = ''when''")
    case True
    with "2.prems"(1) obtain u us st1 where u: "ts = u # us" "rule_condition E profile u st = Inr st1" "rule_loop E profile us st1 = Inr st'"
      by (auto simp: try_bind_Inr_iff split: list.splits)
    from "2.IH"(1) [OF True u] c [OF u(2)] "2.prems"(2) True u(1) show ?thesis by simp
  next
    case no_when: False
    show ?thesis
    proof (cases "starts_with (tok_text t) ''@''")
      case True
      with no_when "2.prems"(1) obtain st1 where "rule_property t st = Inr st1" "rule_loop E profile ts st1 = Inr st'"
        by (auto simp: try_bind_Inr_iff)
      with "2.IH"(2) [OF no_when True] p no_when True show ?thesis by fastforce
    next
      case False
      with no_when "2.prems"(1) obtain st1 where "rule_action E profile t st = Inr st1" "rule_loop E profile ts st1 = Inr st'"
        by (auto simp: try_bind_Inr_iff)
      with "2.IH"(3) [OF no_when False] a no_when False "2.prems"(2) show ?thesis by fastforce
    qed
  qed
qed simp

lemma lex_loop_nesting:
  "lex_loop idx chs st = Inr st' \<Longrightarrow> lx_paren_depth st \<le> MAX_RULE_PARSE_NESTING \<Longrightarrow>
     paren_nesting (lx_quote st) (lx_escaped st) (lx_paren_depth st) chs \<le> MAX_RULE_PARSE_NESTING"
proof (induction chs arbitrary: idx st)
  case (Cons ch chs)
  then obtain st1 where st1: "lex_step idx ch st = Inr st1" "lex_loop (idx + length ch) chs st1 = Inr st'"
    by (auto simp: try_bind_Inr_iff)
  have d: "lx_paren_depth st1 \<le> MAX_RULE_PARSE_NESTING"
    using st1(1) Cons.prems(2)
    by (cases "lx_quote st") (auto simp: lex_step_def lex_push_def lex_flush_def Let_def split: if_splits)
  have "paren_nesting (lx_quote st) (lx_escaped st) (lx_paren_depth st) (ch # chs) =
      max (lx_paren_depth st) (paren_nesting (lx_quote st1) (lx_escaped st1) (lx_paren_depth st1) chs)"
    using st1(1)
    by (cases "lx_quote st") (auto simp: lex_step_def lex_push_def lex_flush_def Let_def split: if_splits)
  with Cons.IH [OF st1(2) d] Cons.prems(2) show ?case by simp
qed simp

lemma parse_rule_source:
  assumes "parse_rule E g n input profile = Inr r"
  shows "rule_source_limits r"
proof -
  from assms obtain first rest st where t: "tokenize input = Inr (first # rest)" "rule_loop E profile rest rule_init = Inr st"
    by (cases "tokenize input"; cases "projr (tokenize input)")
      (auto simp: parse_rule_def map_error_def try_bind_Inr_iff split: if_splits sum.splits)
  obtain lx where lx: "lex_loop 0 (chars input) lex_init = Inr lx"
    using t(1) by (auto simp: tokenize_def try_bind_Inr_iff)
  have "rule_raw r = input" using parse_rule_ok [OF assms] by blast
  with lex_loop_nesting [OF lx] rule_loop_source [OF t(2)] t(1) show ?thesis
    by (auto simp: rule_source_limits_def rule_init_def lex_init_def)
qed

lemma args_loop_take: "args_loop input idx s st = Inr st' \<Longrightarrow> \<exists>st1. args_loop input idx (take k s) st = Inr st1"
proof (induction s arbitrary: idx st k)
  case (Cons c s)
  then show ?case by (cases k) (auto simp: try_bind_Inr_iff)
qed simp

lemma split_args_limits:
  assumes "split_args input = Inr args"
  shows "call_limits input args"
  unfolding call_limits_def
proof (intro conjI impI allI)
  show "length args \<le> MAX_RULE_CALL_ARGUMENTS" using split_args_bounds [OF assms] by (simp add: args_ok_def)
  fix k
  assume "trim input \<noteq> []"
  with assms obtain st where "args_loop input 0 input args_init = Inr st"
    by (auto simp: split_args_def try_bind_Inr_iff)
  from args_loop_take [OF this] obtain st1 where st1: "args_loop input 0 (take k input) args_init = Inr st1" by blast
  have "args_inv st1"
    by (rule args_loop_inv [OF _ st1]) (simp add: args_inv_def args_init_def sa_depth_def args_ok_def)
  with st1 show "\<exists>st. args_loop input 0 (take k input) args_init = Inr st \<and> sa_depth st \<le> MAX_RULE_PARSE_NESTING"
    by (auto simp: args_inv_def)
qed

section \<open>What a snapshot is made of\<close>

text \<open>The effective lines of a group with their numbers, and its rules: a reference.\<close>

definition effective :: "string \<Rightarrow> string option" where
  "effective l = (case strip_comment l of Some t \<Rightarrow> if trim t = [] then None else Some (trim t) | None \<Rightarrow> None)"

fun effective_lines :: "nat \<Rightarrow> string list \<Rightarrow> (nat \<times> string) list" where
  "effective_lines n [] = []"
| "effective_lines n (l # ls) =
     (case effective l of Some t \<Rightarrow> [(n, t)] | None \<Rightarrow> []) @ effective_lines (n + 1) ls"

definition rules_of_lines ::
  "ext \<Rightarrow> string \<Rightarrow> syntax_profile \<Rightarrow> (nat \<times> string) list \<Rightarrow> parse_rule_error + rule list" where
  "rules_of_lines E g profile lines = collect_results (\<lambda>(n, t). parse_rule E g n t profile) lines"

definition group_rules :: "ext \<Rightarrow> string \<Rightarrow> string \<Rightarrow> parse_rule_error + rule list" where
  "group_rules E g txt =
     (case effective_lines 1 (text_lines [] txt) of
        [] \<Rightarrow> Inr []
      | (n, t) # rest \<Rightarrow>
          if t = RULE_LANGUAGE_HEADER then rules_of_lines E g CanonicalV3 rest
          else rules_of_lines E g Compatible ((n, t) # rest))"

lemma report_not_empty: "ss_errors (snd (report e st)) \<noteq> []"
  by (auto simp: report_def push_parse_diagnostic_def Let_def MAX_RULE_DIAGNOSTICS_def)

lemma report_unless_full_not_empty: "ss_errors (snd (report_unless_full e st)) \<noteq> []"
  using report_not_empty [of e st] by (auto simp: report_unless_full_def Let_def split: prod.split)

lemma report_and_not_empty: "ss_errors (snd (report_and fl e st)) \<noteq> []"
  using report_not_empty by (simp add: report_and_def)

lemmas reported = report_not_empty report_unless_full_not_empty report_and_not_empty

text \<open>What one source line does.\<close>

lemma line_step_cases:
  obtains (blank) "effective l = None" "line_step E h g n l gs st = (Continue, gs, st)"
  | (header) "effective l = Some RULE_LANGUAGE_HEADER" "\<not> gs_first_seen gs"
      "line_step E h g n l gs st = (Continue, gs\<lparr>gs_first_seen := True, gs_profile := CanonicalV3\<rparr>, st)"
  | (failed) fl gs' st' where "line_step E h g n l gs st = (fl, gs', st')" "ss_errors st' \<noteq> []"
  | (rule) t where "effective l = Some t" "t \<noteq> RULE_LANGUAGE_HEADER"
      "line_step E h g n l gs st =
         (fst (rule_line_step E g n t (gs_profile gs) st), gs\<lparr>gs_first_seen := True\<rparr>,
          snd (rule_line_step E g n t (gs_profile gs) st))"
proof -
  have is_header: "is_language_directive RULE_LANGUAGE_HEADER" by code_simp
  have unless: "\<exists>fl gs' st'. (case report_unless_full e st of (fl, st) \<Rightarrow> (fl, gs, st)) = (fl, gs', st') \<and> ss_errors st' \<noteq> []"
    for e gs using reported(2) [of e st] by (cases "report_unless_full e st") auto
  have and_leave: "\<exists>fl gs' st'. (case report_and LeaveGroup e st of (fl, st) \<Rightarrow> (fl, gs, st)) = (fl, gs', st') \<and> ss_errors st' \<noteq> []"
    for e gs using reported(3) [of LeaveGroup e st] by (cases "report_and LeaveGroup e st") auto
  show thesis
  proof (cases "MAX_RULE_SOURCE_LINE_BYTES < length l")
    case True
    then have "line_step E h g n l gs st = (case report_unless_full (group_error CodeSyntax g n LineByteLimit) st of
        (fl, st) \<Rightarrow> (fl, gs, st))" by (simp add: line_step_def)
    with unless failed show thesis by metis
  next
    case short: False
    show thesis
    proof (cases "effective l")
      case None
      with short have "line_step E h g n l gs st = (Continue, gs, st)"
        by (auto simp: line_step_def effective_def Let_def split: option.splits if_splits)
      with None blank show thesis by blast
    next
      case (Some t)
      then obtain u where u: "strip_comment l = Some u" "trim u = t" "t \<noteq> []"
        by (auto simp: effective_def split: option.splits if_splits)
      show thesis
      proof (cases "is_language_directive t")
        case directive: True
        show thesis
        proof (cases "t = RULE_LANGUAGE_HEADER \<and> \<not> gs_first_seen gs")
          case True
          with directive short u Some show thesis
            by (intro header) (simp_all add: line_step_def Let_def)
        next
          case False
          with directive short u have "line_step E h g n l gs st =
              (if gs_first_seen gs
               then (case report_unless_full (group_error CodeProperty g n MisplacedLanguageHeader) st of (fl, st) \<Rightarrow> (fl, gs, st))
               else (case report_and LeaveGroup (group_error CodeProperty g n UnsupportedDirective) st of
                  (fl, st) \<Rightarrow> (fl, gs\<lparr>gs_first_seen := True\<rparr>, st)))"
            by (auto simp: line_step_def Let_def)
          with unless and_leave failed show thesis by metis
        qed
      next
        case no_directive: False
        show thesis
        proof (cases "\<not> gs_first_seen gs \<and> h")
          case True
          with no_directive short u have "line_step E h g n l gs st =
              (case report_and LeaveGroup (group_error CodeProperty g n MissingLanguageHeader) st of
                  (fl, st) \<Rightarrow> (fl, gs\<lparr>gs_first_seen := True\<rparr>, st))"
            by (auto simp: line_step_def Let_def)
          with and_leave failed show thesis by metis
        next
          case False
          moreover have "gs\<lparr>gs_first_seen := True\<rparr> = gs" if "gs_first_seen gs" using that by (cases gs) simp
          ultimately have "line_step E h g n l gs st =
              (fst (rule_line_step E g n t (gs_profile gs) st), gs\<lparr>gs_first_seen := True\<rparr>,
               snd (rule_line_step E g n t (gs_profile gs) st))"
            using no_directive short u by (auto simp: line_step_def Let_def split: prod.split)
          with rule no_directive is_header Some show thesis by metis
        qed
      qed
    qed
  qed
qed

text \<open>The counters of a snapshot that has no diagnostics.\<close>

definition total_actions :: "rule list \<Rightarrow> nat" where
  "total_actions rules = sum_list (map (\<lambda>r. length (rule_actions r)) rules)"

definition total_condition_nodes :: "rule list \<Rightarrow> nat" where
  "total_condition_nodes rules =
     sum_list (map (\<lambda>r. sum_list (map condition_node_count (rule_conditions r))) rules)"

definition total_body_conditions :: "rule list \<Rightarrow> nat" where
  "total_body_conditions rules =
     sum_list (map (\<lambda>r. sum_list (map body_condition_count (rule_conditions r))) rules)"

definition budget_inv :: "snapshot_state \<Rightarrow> bool" where
  "budget_inv st \<longleftrightarrow>
     ss_rule_lines st = length (ss_rules st) \<and> length (ss_rules st) \<le> MAX_RULES_PER_SNAPSHOT \<and>
     ss_actions st = total_actions (ss_rules st) \<and> ss_actions st \<le> MAX_RULE_ACTIONS_PER_SNAPSHOT \<and>
     ss_condition_nodes st = total_condition_nodes (ss_rules st) \<and>
     ss_condition_nodes st \<le> MAX_RULE_CONDITION_NODES_PER_SNAPSHOT \<and>
     ss_body_conditions st = total_body_conditions (ss_rules st) \<and>
     ss_body_conditions st \<le> MAX_RULE_BODY_CONDITIONS_PER_SNAPSHOT"

lemma charge_ok:
  assumes "charge counter cost limit = (False, n)" "limit < USIZE_MAX"
  shows "n = counter + cost" "n \<le> limit"
  using assms saturating_add_small [of counter cost limit] by (auto simp: charge_def Let_def)

lemma budgets_small:
  "MAX_RULE_ACTIONS_PER_SNAPSHOT < USIZE_MAX" "MAX_RULE_CONDITION_NODES_PER_SNAPSHOT < USIZE_MAX"
  "MAX_RULE_BODY_CONDITIONS_PER_SNAPSHOT < USIZE_MAX"
  by (simp_all add: USIZE_MAX_def MAX_RULE_ACTIONS_PER_SNAPSHOT_def MAX_RULE_CONDITION_NODES_PER_SNAPSHOT_def
      MAX_RULE_BODY_CONDITIONS_PER_SNAPSHOT_def)

lemma accept_rule_ok:
  assumes "accept_rule g n rule st = (fl, st')" "ss_errors st' = []"
  shows "fl = Continue \<and> ss_errors st = [] \<and> ss_source_bytes st' = ss_source_bytes st \<and>
    ss_rules st' = ss_rules st @ [rule] \<and> ss_rule_lines st' = ss_rule_lines st \<and>
    ss_actions st' = ss_actions st + length (rule_actions rule) \<and> ss_actions st' \<le> MAX_RULE_ACTIONS_PER_SNAPSHOT \<and>
    ss_condition_nodes st' = ss_condition_nodes st + sum_list (map condition_node_count (rule_conditions rule)) \<and>
    ss_condition_nodes st' \<le> MAX_RULE_CONDITION_NODES_PER_SNAPSHOT \<and>
    ss_body_conditions st' = ss_body_conditions st + sum_list (map body_condition_count (rule_conditions rule)) \<and>
    ss_body_conditions st' \<le> MAX_RULE_BODY_CONDITIONS_PER_SNAPSHOT"
proof -
  have no_report: "report_and LeaveAll e st1 \<noteq> (fl, st')" for e st1
    using reported(3) [of LeaveAll e st1] assms(2) by auto
  show ?thesis
    using assms no_report
    by (auto simp: accept_rule_def Let_def dest: charge_ok [OF _ budgets_small(1)] charge_ok [OF _ budgets_small(2)]
        charge_ok [OF _ budgets_small(3)] split: prod.splits if_splits)
qed

lemma rule_line_step_ok:
  assumes "rule_line_step E g n t profile st = (fl, st')" "ss_errors st' = []"
  obtains r where "parse_rule E g n t profile = Inr r" "fl = Continue" "ss_errors st = []"
    "ss_source_bytes st' = ss_source_bytes st" "ss_rules st' = ss_rules st @ [r]"
    "budget_inv st \<Longrightarrow> budget_inv st'"
proof -
  have no_report: "report_and LeaveAll e st1 \<noteq> (fl, st')" "report_unless_full e st1 \<noteq> (fl, st')" for e st1
    using reported(3) [of LeaveAll e st1] reported(2) [of e st1] assms(2) by auto
  from assms(1) no_report obtain r where r: "parse_rule E g n t profile = Inr r"
    "accept_rule g n r (st\<lparr>ss_rule_lines := ss_rule_lines st + 1\<rparr>) = (fl, st')"
    "ss_rule_lines st \<noteq> MAX_RULES_PER_SNAPSHOT"
    by (auto simp: rule_line_step_def Let_def split: if_splits sum.splits)
  from accept_rule_ok [OF r(2) assms(2)] r(1,3) show thesis
    by (intro that [of r]) (auto simp: budget_inv_def total_actions_def total_condition_nodes_def total_body_conditions_def)
qed

section \<open>Groups of lines\<close>

text \<open>The rules a loop over the remaining lines of a group adds.\<close>

definition lines_rules ::
  "ext \<Rightarrow> string \<Rightarrow> group_state \<Rightarrow> (nat \<times> string) list \<Rightarrow> parse_rule_error + rule list" where
  "lines_rules E g gs lines =
     (if gs_first_seen gs then rules_of_lines E g (gs_profile gs) lines
      else (case lines of
        [] \<Rightarrow> Inr []
      | (n, t) # rest \<Rightarrow>
          if t = RULE_LANGUAGE_HEADER then rules_of_lines E g CanonicalV3 rest
          else rules_of_lines E g (gs_profile gs) ((n, t) # rest)))"

lemma lines_loop_ok:
  assumes "lines_loop E h g n ls gs st = (fl, st')" "ss_errors st' = []"
  obtains rs where "lines_rules E g gs (effective_lines n ls) = Inr rs" "fl = Continue" "ss_errors st = []"
    "ss_source_bytes st' = ss_source_bytes st" "ss_rules st' = ss_rules st @ rs" "budget_inv st \<Longrightarrow> budget_inv st'"
  using assms
proof (induction ls arbitrary: n gs st thesis)
  case Nil
  then show ?case by (auto simp: lines_rules_def rules_of_lines_def)
next
  case (Cons l ls)
  show ?case
  proof (cases rule: line_step_cases [of l E h g n gs st])
    case blank
    with Cons.prems(2,3) show ?thesis by (intro Cons.IH [OF Cons.prems(1)]) auto
  next
    case header
    let ?gs = "gs\<lparr>gs_first_seen := True, gs_profile := CanonicalV3\<rparr>"
    from header Cons.prems(2) have "lines_loop E h g (n + 1) ls ?gs st = (fl, st')" by simp
    from Cons.IH [OF _ this Cons.prems(3)] obtain rs where
      "lines_rules E g ?gs (effective_lines (n + 1) ls) = Inr rs" "fl = Continue" "ss_errors st = []"
      "ss_source_bytes st' = ss_source_bytes st" "ss_rules st' = ss_rules st @ rs" "budget_inv st \<Longrightarrow> budget_inv st'"
      by blast
    with header show ?thesis by (intro Cons.prems(1) [of rs]) (simp_all add: lines_rules_def)
  next
    case (failed fl1 gs1 st1)
    have "ss_errors st' \<noteq> []"
    proof (cases fl1)
      case Continue
      with failed Cons.prems(2) have loop: "lines_loop E h g (n + 1) ls gs1 st1 = (fl, st')" by simp
      show ?thesis
      proof
        assume "ss_errors st' = []"
        from Cons.IH [OF _ loop this] failed(2) show False by blast
      qed
    qed (use failed Cons.prems(2) in auto)
    with Cons.prems(3) show ?thesis by simp
  next
    case (rule t)
    obtain fl1 st1 where step: "rule_line_step E g n t (gs_profile gs) st = (fl1, st1)" by fastforce
    let ?gs = "gs\<lparr>gs_first_seen := True\<rparr>"
    have ok1: "fl1 = Continue \<and> ss_errors st1 = []"
    proof (cases "ss_errors st1 = []")
      case True
      with rule_line_step_ok [OF step] show ?thesis by blast
    next
      case False
      have "ss_errors st' \<noteq> []"
      proof (cases fl1)
        case Continue
        with rule step Cons.prems(2) have loop: "lines_loop E h g (n + 1) ls ?gs st1 = (fl, st')" by simp
        show ?thesis
        proof
          assume "ss_errors st' = []"
          from Cons.IH [OF _ loop this] False show False by blast
        qed
      qed (use rule step Cons.prems(2) False in auto)
      with Cons.prems(3) show ?thesis by simp
    qed
    obtain r where r: "parse_rule E g n t (gs_profile gs) = Inr r" "ss_errors st = []"
      "ss_source_bytes st1 = ss_source_bytes st" "ss_rules st1 = ss_rules st @ [r]" "budget_inv st \<Longrightarrow> budget_inv st1"
      using rule_line_step_ok [OF step] ok1 by blast
    from rule step ok1 Cons.prems(2) have "lines_loop E h g (n + 1) ls ?gs st1 = (fl, st')" by simp
    from Cons.IH [OF _ this Cons.prems(3)] obtain rs where
      "lines_rules E g ?gs (effective_lines (n + 1) ls) = Inr rs" "fl = Continue"
      "ss_source_bytes st' = ss_source_bytes st1" "ss_rules st' = ss_rules st1 @ rs" "budget_inv st1 \<Longrightarrow> budget_inv st'"
      by blast
    with r rule show ?thesis
      by (intro Cons.prems(1) [of "r # rs"]) (simp_all add: lines_rules_def rules_of_lines_def)
  qed
qed

text \<open>A source line over the limit is reported, so in a published snapshot there is none.\<close>

definition lines_within :: "string list \<Rightarrow> bool" where
  "lines_within ls \<longleftrightarrow> list_all (\<lambda>l. length l \<le> MAX_RULE_SOURCE_LINE_BYTES) ls"

lemma long_line_reported:
  assumes "line_step E h g n l gs st = (fl, gs', st')" "MAX_RULE_SOURCE_LINE_BYTES < length l"
  shows "ss_errors st' \<noteq> []"
  using assms reported(2) [of "group_error CodeSyntax g n LineByteLimit" st]
  by (auto simp: line_step_def split: prod.splits)

lemma left_lines_reported:
  assumes "line_step E h g n l gs st = (fl, gs', st')" "fl \<noteq> Continue"
  shows "ss_errors st' \<noteq> []"
proof (cases rule: line_step_cases [of l E h g n gs st])
  case (rule t)
  with assms have "rule_line_step E g n t (gs_profile gs) st = (fl, st')" by (simp add: prod_eq_iff)
  with rule_line_step_ok [OF this] assms(2) show ?thesis by blast
qed (use assms in auto)

lemma lines_loop_within:
  "lines_loop E h g n ls gs st = (fl, st') \<Longrightarrow> ss_errors st' = [] \<Longrightarrow> lines_within ls"
proof (induction ls arbitrary: n gs st)
  case (Cons l ls)
  obtain fl1 gs1 st1 where step: "line_step E h g n l gs st = (fl1, gs1, st1)" by (metis prod_cases3)
  have c: "fl1 = Continue"
  proof (rule ccontr)
    assume "fl1 \<noteq> Continue"
    with left_lines_reported [OF step] step Cons.prems show False by (cases fl1) auto
  qed
  with step Cons.prems(1) have loop: "lines_loop E h g (n + 1) ls gs1 st1 = (fl, st')" by simp
  from lines_loop_ok [OF loop Cons.prems(2)] have "ss_errors st1 = []" by blast
  with long_line_reported [OF step] Cons.IH [OF loop Cons.prems(2)] show ?case by (fastforce simp: lines_within_def)
qed (simp add: lines_within_def)

lemma group_step_ok:
  assumes "group_step E h i g txt st = (fl, st')" "ss_errors st' = []"
  obtains rs where "group_rules E g txt = Inr rs" "fl = Continue" "ss_errors st = []"
    "i < MAX_RULE_GROUPS_PER_SNAPSHOT" "group_name_valid g"
    "ss_source_bytes st' = ss_source_bytes st + length txt" "ss_source_bytes st' \<le> MAX_RULE_SNAPSHOT_SOURCE_BYTES"
    "ss_rules st' = ss_rules st @ rs" "budget_inv st \<Longrightarrow> budget_inv st'" "lines_within (text_lines [] txt)"
proof -
  have no_report: "report_and LeaveAll e st1 \<noteq> (fl, st')" "report_unless_full e st1 \<noteq> (fl, st')" for e st1
    using reported(3) [of LeaveAll e st1] reported(2) [of e st1] assms(2) by auto
  define st1 where "st1 = st\<lparr>ss_source_bytes := ss_source_bytes st + length txt\<rparr>"
  from assms(1) no_report have g: "i < MAX_RULE_GROUPS_PER_SNAPSHOT" "group_name_valid g"
    "ss_source_bytes st + length txt \<le> MAX_RULE_SNAPSHOT_SOURCE_BYTES"
    and loop: "lines_loop E h g 1 (text_lines [] txt) \<lparr>gs_first_seen = False, gs_profile = Compatible\<rparr> st1 = (fl, st')"
    by (auto simp: group_step_def Let_def st1_def dest!: checked_add_SomeD split: if_splits option.splits)
  from lines_loop_ok [OF loop assms(2)] obtain rs where
    rs: "lines_rules E g \<lparr>gs_first_seen = False, gs_profile = Compatible\<rparr> (effective_lines 1 (text_lines [] txt)) = Inr rs"
      "fl = Continue" "ss_errors st1 = []" "ss_source_bytes st' = ss_source_bytes st1" "ss_rules st' = ss_rules st1 @ rs"
      "budget_inv st1 \<Longrightarrow> budget_inv st'" by blast
  from rs(1) have "group_rules E g txt = Inr rs"
    unfolding lines_rules_def group_rules_def group_state.select_convs if_False .
  with rs g lines_loop_within [OF loop assms(2)] show thesis by (intro that [of rs]) (auto simp: st1_def budget_inv_def)
qed

lemma groups_loop_ok:
  assumes "groups_loop E h i groups st = st'" "ss_errors st' = []"
  obtains rss where "collect_results (\<lambda>(g, txt). group_rules E g txt) groups = Inr rss" "ss_errors st = []"
    "groups \<noteq> [] \<Longrightarrow> i + length groups \<le> MAX_RULE_GROUPS_PER_SNAPSHOT" "list_all (\<lambda>(g, _). group_name_valid g) groups"
    "ss_source_bytes st' = ss_source_bytes st + sum_list (map (\<lambda>(_, txt). length txt) groups)"
    "groups \<noteq> [] \<Longrightarrow> ss_source_bytes st' \<le> MAX_RULE_SNAPSHOT_SOURCE_BYTES"
    "ss_rules st' = ss_rules st @ concat rss" "budget_inv st \<Longrightarrow> budget_inv st'"
    "list_all (\<lambda>(_, txt). lines_within (text_lines [] txt)) groups"
  using assms
proof (induction groups arbitrary: i st thesis)
  case Nil
  then show ?case by simp
next
  case (Cons gt groups)
  obtain g src where gt: "gt = (g, src)" by fastforce
  obtain fl st1 where step: "group_step E h i g src st = (fl, st1)" by fastforce
  have ok1: "fl = Continue \<and> ss_errors st1 = []"
  proof (cases "ss_errors st1 = []")
    case True
    with group_step_ok [OF step] show ?thesis by blast
  next
    case False
    have "ss_errors st' \<noteq> []"
    proof (cases "fl = LeaveAll")
      case True
      with gt step Cons.prems(2) False show ?thesis by simp
    next
      case no_leave: False
      with gt step Cons.prems(2) have loop: "groups_loop E h (i + 1) groups st1 = st'"
        by (cases fl) simp_all
      show ?thesis
      proof
        assume "ss_errors st' = []"
        from Cons.IH [OF _ loop this] False show False by blast
      qed
    qed
    with Cons.prems(3) show ?thesis by simp
  qed
  obtain rs where rs: "group_rules E g src = Inr rs" "ss_errors st = []"
    "i < MAX_RULE_GROUPS_PER_SNAPSHOT" "group_name_valid g"
    "ss_source_bytes st1 = ss_source_bytes st + length src" "ss_source_bytes st1 \<le> MAX_RULE_SNAPSHOT_SOURCE_BYTES"
    "ss_rules st1 = ss_rules st @ rs" "budget_inv st \<Longrightarrow> budget_inv st1" "lines_within (text_lines [] src)"
    using group_step_ok [OF step] ok1 by blast
  from gt step ok1 Cons.prems(2) have "groups_loop E h (i + 1) groups st1 = st'" by simp
  from Cons.IH [OF _ this Cons.prems(3)] obtain rss where
    rss: "collect_results (\<lambda>(g, txt). group_rules E g txt) groups = Inr rss"
    "groups \<noteq> [] \<Longrightarrow> i + 1 + length groups \<le> MAX_RULE_GROUPS_PER_SNAPSHOT" "list_all (\<lambda>(g, _). group_name_valid g) groups"
    "ss_source_bytes st' = ss_source_bytes st1 + sum_list (map (\<lambda>(_, txt). length txt) groups)"
    "groups \<noteq> [] \<Longrightarrow> ss_source_bytes st' \<le> MAX_RULE_SNAPSHOT_SOURCE_BYTES"
    "ss_rules st' = ss_rules st1 @ concat rss" "budget_inv st1 \<Longrightarrow> budget_inv st'"
    "list_all (\<lambda>(_, txt). lines_within (text_lines [] txt)) groups" by blast
  from rs rss gt show ?case by (intro Cons.prems(1) [of "rs # rss"]) (cases "groups = []"; simp)+
qed

section \<open>Published snapshots\<close>

lemma snapshot_budget_init: "budget_inv snapshot_init"
  by (simp add: budget_inv_def snapshot_init_def total_actions_def total_condition_nodes_def total_body_conditions_def)

text \<open>
  C7: a snapshot is published exactly as the reference says and never partially: it holds, in
  group and line order, the rule of every effective source line that is not a language
  header, each line parsed with its group's profile, and its index is the index of those
  rules.
\<close>

theorem parse_groups_published:
  assumes "parse_groups_with_profile E version groups h = Some (Inr rs)"
  shows "map_option concat (case collect_results (\<lambda>(g, txt). group_rules E g txt) groups of
      Inl _ \<Rightarrow> None | Inr rss \<Rightarrow> Some rss) = Some (rs_rules rs) \<and>
    index_build E (rs_rules rs) = Some (rs_index rs) \<and> rs_version rs = version \<and>
    rs_language_version rs = RULE_LANGUAGE_VERSION"
proof -
  let ?st = "groups_loop E h 0 groups snapshot_init"
  from assms have e: "ss_errors ?st = []" and rs: "rs_rules rs = ss_rules ?st" "index_build E (rs_rules rs) = Some (rs_index rs)"
    "rs_version rs = version" "rs_language_version rs = RULE_LANGUAGE_VERSION"
    by (auto simp: parse_groups_with_profile_def Let_def split: if_splits)
  from groups_loop_ok [OF refl e] obtain rss where
    "collect_results (\<lambda>(g, txt). group_rules E g txt) groups = Inr rss" "ss_rules ?st = ss_rules snapshot_init @ concat rss"
    by blast
  with rs show ?thesis by (simp add: snapshot_init_def)
qed

lemma effective_lines_numbers:
  "sorted_wrt (<) (map fst (effective_lines n ls)) \<and> (\<forall>k \<in> set (map fst (effective_lines n ls)). n \<le> k)"
proof (induction ls arbitrary: n)
  case (Cons l ls)
  from Cons [of "n + 1"] show ?case by (fastforce split: option.split)
qed simp

lemma rules_of_lines_ok:
  assumes "rules_of_lines E g profile lines = Inr rs"
  shows "list_all (\<lambda>r. wf_rule E r \<and> rule_source_limits r) rs \<and> map (\<lambda>r. (rule_group r, rule_line r)) rs = map (\<lambda>(n, _). (g, n)) lines"
  using assms unfolding rules_of_lines_def
proof (induction lines arbitrary: rs)
  case (Cons l lines)
  then show ?case by (cases l) (auto simp: try_bind_Inr_iff dest: parse_rule_ok parse_rule_source)
qed simp

lemma group_rules_ok:
  assumes "group_rules E g txt = Inr rs"
  shows "list_all (\<lambda>r. wf_rule E r \<and> rule_source_limits r) rs" "distinct (map (\<lambda>r. (rule_group r, rule_line r)) rs)"
    "\<And>r. r \<in> set rs \<Longrightarrow> rule_group r = g"
proof -
  let ?lines = "effective_lines 1 (text_lines [] txt)"
  obtain profile lines where l: "rules_of_lines E g profile lines = Inr rs" "lines = [] \<or> lines = ?lines \<or> lines = tl ?lines"
    using assms that [of Compatible "[]"]
    by (cases ?lines) (auto simp: group_rules_def rules_of_lines_def [of _ _ _ "[]"] split: if_splits)
  have "distinct (map fst ?lines)"
    using effective_lines_numbers [of 1 "text_lines [] txt"] by (simp add: strict_sorted_iff)
  then have d: "distinct (map fst lines)" using l(2) by (auto simp: map_tl distinct_tl)
  have pos: "map (\<lambda>r. (rule_group r, rule_line r)) rs = map (Pair g) (map fst lines)"
    using rules_of_lines_ok [OF l(1)] by (simp add: case_prod_unfold)
  show "list_all (\<lambda>r. wf_rule E r \<and> rule_source_limits r) rs" using rules_of_lines_ok [OF l(1)] by blast
  show "distinct (map (\<lambda>r. (rule_group r, rule_line r)) rs)"
    unfolding pos using d by (simp add: distinct_map inj_on_def)
  show "rule_group r = g" if "r \<in> set rs" for r
    using arg_cong [OF pos, of set] that by fastforce
qed

lemma concat_group_rules_ok:
  assumes "collect_results (\<lambda>(g, txt). group_rules E g txt) groups = Inr rss"
  shows "list_all (\<lambda>r. wf_rule E r \<and> rule_source_limits r) (concat rss) \<and> (\<forall>r \<in> set (concat rss). rule_group r \<in> set (map fst groups)) \<and>
    (distinct (map fst groups) \<longrightarrow> distinct (map (\<lambda>r. (rule_group r, rule_line r)) (concat rss)))"
  using assms
proof (induction groups arbitrary: rss)
  case (Cons gt groups)
  obtain g src where gt: "gt = (g, src)" by fastforce
  from Cons.prems gt obtain rs rss' where rs: "group_rules E g src = Inr rs" "rss = rs # rss'"
    "collect_results (\<lambda>(g, txt). group_rules E g txt) groups = Inr rss'"
    by (auto simp: try_bind_Inr_iff)
  from Cons.IH [OF rs(3)] group_rules_ok [OF rs(1)] gt rs(2) show ?case by fastforce
qed simp

lemma published_limits:
  assumes "parse_groups_with_profile E version groups h = Some (Inr rs)"
  shows "list_all (wf_rule E) (rs_rules rs) \<and> list_all rule_source_limits (rs_rules rs) \<and>
    length groups \<le> MAX_RULE_GROUPS_PER_SNAPSHOT \<and> list_all (\<lambda>(g, _). group_name_valid g) groups \<and>
    sum_list (map (\<lambda>(_, txt). length txt) groups) \<le> MAX_RULE_SNAPSHOT_SOURCE_BYTES \<and>
    list_all (\<lambda>(_, txt). lines_within (text_lines [] txt)) groups \<and>
    length (rs_rules rs) \<le> MAX_RULES_PER_SNAPSHOT \<and>
    total_actions (rs_rules rs) \<le> MAX_RULE_ACTIONS_PER_SNAPSHOT \<and>
    total_condition_nodes (rs_rules rs) \<le> MAX_RULE_CONDITION_NODES_PER_SNAPSHOT \<and>
    total_body_conditions (rs_rules rs) \<le> MAX_RULE_BODY_CONDITIONS_PER_SNAPSHOT \<and>
    (distinct (map fst groups) \<longrightarrow> distinct (map (\<lambda>r. (rule_group r, rule_line r)) (rs_rules rs)))"
proof -
  let ?st = "groups_loop E h 0 groups snapshot_init"
  from assms have e: "ss_errors ?st = []" and rs: "rs_rules rs = ss_rules ?st"
    by (auto simp: parse_groups_with_profile_def Let_def split: if_splits)
  obtain rss where rss: "collect_results (\<lambda>(g, txt). group_rules E g txt) groups = Inr rss"
    "groups \<noteq> [] \<Longrightarrow> 0 + length groups \<le> MAX_RULE_GROUPS_PER_SNAPSHOT" "list_all (\<lambda>(g, _). group_name_valid g) groups"
    "ss_source_bytes ?st = ss_source_bytes snapshot_init + sum_list (map (\<lambda>(_, txt). length txt) groups)"
    "groups \<noteq> [] \<Longrightarrow> ss_source_bytes ?st \<le> MAX_RULE_SNAPSHOT_SOURCE_BYTES"
    "ss_rules ?st = ss_rules snapshot_init @ concat rss" "budget_inv snapshot_init \<Longrightarrow> budget_inv ?st"
    "list_all (\<lambda>(_, txt). lines_within (text_lines [] txt)) groups"
    using groups_loop_ok [OF refl e] by blast
  have st: "ss_rules ?st = concat rss" "budget_inv ?st"
    using rss(6,7) snapshot_budget_init by (simp_all add: snapshot_init_def)
  have sizes: "length groups \<le> MAX_RULE_GROUPS_PER_SNAPSHOT"
    "sum_list (map (\<lambda>(_, txt). length txt) groups) \<le> MAX_RULE_SNAPSHOT_SOURCE_BYTES"
    using rss(2,4,5) by (cases "groups = []"; simp add: snapshot_init_def)+
  from concat_group_rules_ok [OF rss(1)] st(1) rs have
    "list_all (\<lambda>r. wf_rule E r \<and> rule_source_limits r) (rs_rules rs)"
    "distinct (map fst groups) \<longrightarrow> distinct (map (\<lambda>r. (rule_group r, rule_line r)) (rs_rules rs))"
    by simp_all
  with sizes rss(3,8) st(2) rs show ?thesis by (simp add: budget_inv_def list_all_iff)
qed

text \<open>
  C34: the rules of a published snapshot are all well formed, and it keeps the limits that the
  language specification gives for sources: the number of groups and the length of their names,
  the source bytes, the bytes of every physical line, the number of rules, and for the snapshot the
  numbers of actions, condition nodes and body conditions. Every rule keeps its own limits: its
  actions, its condition nodes and the nesting of its matcher and conditions (as part of being
  well formed), its property tokens, the arguments of its actions, and the nesting of parentheses in its
  line. No call whatever, also inside a condition, is accepted with more arguments or deeper
  delimiters. With distinct group names no two rules have the same group and line, so a
  diagnostic or a finding names one rule.
\<close>

theorem parse_groups_limits:
  assumes "parse_groups_with_profile E version groups h = Some (Inr rs)"
  shows "list_all (wf_rule E) (rs_rules rs) \<and> list_all rule_source_limits (rs_rules rs) \<and>
    length groups \<le> MAX_RULE_GROUPS_PER_SNAPSHOT \<and> list_all (\<lambda>(g, _). group_name_valid g) groups \<and>
    sum_list (map (\<lambda>(_, txt). length txt) groups) \<le> MAX_RULE_SNAPSHOT_SOURCE_BYTES \<and>
    list_all (\<lambda>(_, txt). list_all (\<lambda>l. length l \<le> MAX_RULE_SOURCE_LINE_BYTES) (text_lines [] txt)) groups \<and>
    length (rs_rules rs) \<le> MAX_RULES_PER_SNAPSHOT \<and>
    total_actions (rs_rules rs) \<le> MAX_RULE_ACTIONS_PER_SNAPSHOT \<and>
    total_condition_nodes (rs_rules rs) \<le> MAX_RULE_CONDITION_NODES_PER_SNAPSHOT \<and>
    total_body_conditions (rs_rules rs) \<le> MAX_RULE_BODY_CONDITIONS_PER_SNAPSHOT \<and>
    (distinct (map fst groups) \<longrightarrow> distinct (map (\<lambda>r. (rule_group r, rule_line r)) (rs_rules rs))) \<and>
    (\<forall>input args. split_args input = Inr args \<longrightarrow> call_limits input args)"
  using published_limits [OF assms] split_args_limits by (auto simp: lines_within_def)

section \<open>Diagnostics are bounded\<close>

text \<open>The limit message is the last of a full list and stands nowhere else.\<close>

definition errors_inv :: "rule_error list \<Rightarrow> bool" where
  "errors_inv es \<longleftrightarrow>
     length es \<le> MAX_RULE_DIAGNOSTICS \<and>
     list_all (\<lambda>i. err_message (es ! i) = DiagnosticLimitReached \<longleftrightarrow> i = MAX_RULE_DIAGNOSTICS - 1) [0..<length es]"

lemma push_parse_diagnostic_inv:
  "errors_inv es \<Longrightarrow> err_message e \<noteq> DiagnosticLimitReached \<Longrightarrow> errors_inv (snd (push_parse_diagnostic es e))"
  by (auto simp: errors_inv_def push_parse_diagnostic_def list_all_iff nth_append MAX_RULE_DIAGNOSTICS_def less_Suc_eq)

lemma report_inv:
  assumes "errors_inv (ss_errors st)" "err_message e \<noteq> DiagnosticLimitReached"
  shows "errors_inv (ss_errors (snd (report e st)))" "errors_inv (ss_errors (snd (report_and fl e st)))"
    "errors_inv (ss_errors (snd (report_unless_full e st)))"
  using push_parse_diagnostic_inv [OF assms]
  by (auto simp: report_def report_and_def report_unless_full_def Let_def split: prod.splits)

lemma group_error_message [simp]: "err_message (group_error code g n m) = m"
  by (simp add: group_error_def)

lemma rule_line_step_inv:
  "errors_inv (ss_errors st) \<Longrightarrow> errors_inv (ss_errors (snd (rule_line_step E g n t profile st)))"
  by (simp add: rule_line_step_def accept_rule_def Let_def charge_def report_inv split: sum.split)

lemma line_step_inv:
  "errors_inv (ss_errors st) \<Longrightarrow> errors_inv (ss_errors (snd (snd (line_step E h g n l gs st))))"
  by (simp add: line_step_def Let_def case_prod_unfold report_inv rule_line_step_inv split: option.split)

lemma lines_loop_inv: "errors_inv (ss_errors st) \<Longrightarrow> errors_inv (ss_errors (snd (lines_loop E h g n ls gs st)))"
proof (induction ls arbitrary: n gs st)
  case (Cons l ls)
  obtain fl gs' st' where step: "line_step E h g n l gs st = (fl, gs', st')" by (metis prod_cases3)
  with line_step_inv [OF Cons.prems, of E h g n l gs] have "errors_inv (ss_errors st')" by simp
  with step Cons.IH show ?case by (cases fl) simp_all
qed simp

lemma group_step_inv: "errors_inv (ss_errors st) \<Longrightarrow> errors_inv (ss_errors (snd (group_step E h i g txt st)))"
  by (simp add: group_step_def Let_def report_inv lines_loop_inv split: option.split)

lemma groups_loop_inv: "errors_inv (ss_errors st) \<Longrightarrow> errors_inv (ss_errors (groups_loop E h i groups st))"
proof (induction E h i groups st rule: groups_loop.induct)
  case (2 E h i g src groups st)
  obtain fl st' where step: "group_step E h i g src st = (fl, st')" by fastforce
  with group_step_inv [OF "2.prems", of E h i g src] have "errors_inv (ss_errors st')" by simp
  with step "2.IH" show ?case by (cases fl) simp_all
qed simp

text \<open>
  A rejected source reports at least one and at most 256 diagnostics; the message that
  parsing stopped early is the 256th and appears only there.
\<close>

theorem parse_groups_diagnostics:
  assumes "parse_groups_with_profile E version groups h = Some (Inl errors)"
  shows "errors \<noteq> [] \<and> errors_inv errors"
proof -
  have "errors_inv (ss_errors snapshot_init)" by (simp add: errors_inv_def snapshot_init_def)
  from groups_loop_inv [OF this] assms show ?thesis
    by (auto simp: parse_groups_with_profile_def Let_def split: if_splits)
qed

theorem parse_groups_diagnostics_witness:
  "parse_groups_with_profile demo_ext 1 [(''g'', ''a.com'')] False =
     Some (Inl [group_error CodeAction ''g'' 1 (ModelMessage (MissingArgument ''rule action''))]) \<and>
   errors_inv [group_error CodeAction ''g'' 1 (ModelMessage (MissingArgument ''rule action''))]"
proof -
  have p: "parse_groups_with_profile demo_ext 1 [(''g'', ''a.com'')] False =
     Some (Inl [group_error CodeAction ''g'' 1 (ModelMessage (MissingArgument ''rule action''))])"
    by code_simp
  from p parse_groups_diagnostics [OF p] show ?thesis by blast
qed

text \<open>
  A source that every check of the parser accepts can still abort the process: for a
  client address pattern that ends in an escaped bracket, indexing the parsed snapshot
  panics.
\<close>

theorem parse_ip_pattern_panics:
  "ruleset_parse demo_ext 1 ''g'' ([CHR ''a''] @ '' direct when client.ip(*'' @ [backslash] @ ''])'') = None"
  by code_simp

section \<open>A concrete source\<close>

definition demo_source :: "(string \<times> string) list" where
  "demo_source = [(''g'', ''**.a.com status(404)'' @ [CHR 0x0A] @ ''b.a.com delete(body) when method(get)''), (''h'', ''# none'')]"

definition demo_parsed :: rule_set where
  "demo_parsed =
     (case parse_groups_with_profile demo_ext 1 demo_source False of
        Some (Inr rs) \<Rightarrow> rs | _ \<Rightarrow> ruleset_empty 0)"

lemma demo_source_parses: "parse_groups_with_profile demo_ext 1 demo_source False = Some (Inr demo_parsed)"
proof -
  have "case parse_groups_with_profile demo_ext 1 demo_source False of Some (Inr rs) \<Rightarrow> True | _ \<Rightarrow> False"
    by code_simp
  then show ?thesis by (simp add: demo_parsed_def split: option.splits sum.splits)
qed

lemma demo_parsed_lines: "map rule_line (rs_rules demo_parsed) = [1, 2]"
  by code_simp

theorem parse_groups_published_witness:
  "map rule_line (rs_rules demo_parsed) = [1, 2] \<and>
   map_option concat (case collect_results (\<lambda>(g, txt). group_rules demo_ext g txt) demo_source of
      Inl _ \<Rightarrow> None | Inr rss \<Rightarrow> Some rss) = Some (rs_rules demo_parsed)"
  using parse_groups_published [OF demo_source_parses] demo_parsed_lines by blast

theorem parse_groups_limits_witness:
  "map rule_line (rs_rules demo_parsed) = [1, 2] \<and> list_all (wf_rule demo_ext) (rs_rules demo_parsed) \<and>
   distinct (map (\<lambda>r. (rule_group r, rule_line r)) (rs_rules demo_parsed))"
  using parse_groups_limits [OF demo_source_parses] demo_parsed_lines by (simp add: demo_source_def)

end
