(* ===== verification/Template_Metadata.thy ===== *)
theory Template_Metadata
  imports Rule_Model
begin

text \<open>
  The generated values of a request (\<open>template/metadata.rs\<close>): the identifier, the random
  number and the UUID, drawn from operating-system entropy with a counter-based fallback.
  The clock, the process id and the entropy source are parameters. The generated texts have
  the documented shapes, and the fallback gives two requests of a process different
  identifiers as long as their counters and clock readings do not cancel out.
\<close>

unbundle bit_operations_syntax

section \<open>Hexadecimal texts\<close>

definition hex_digit :: "nat \<Rightarrow> char" where
  "hex_digit n = ''0123456789abcdef'' ! n"

definition hex_byte :: "u8 \<Rightarrow> string" where
  "hex_byte b = [hex_digit (unat b div 16), hex_digit (unat b mod 16)]"

definition encode_hex :: "u8 list \<Rightarrow> string" where
  "encode_hex bytes = concat (map hex_byte bytes)"

definition encode_uuid :: "u8 list \<Rightarrow> string" where
  "encode_uuid bytes =
     (let encoded = encode_hex bytes in
      take 8 encoded @ ''-'' @ take 4 (drop 8 encoded) @ ''-'' @ take 4 (drop 12 encoded) @ ''-'' @
      take 4 (drop 16 encoded) @ ''-'' @ take 12 (drop 20 encoded))"

section \<open>The fallback generator\<close>

definition splitmix64 :: "u64 \<Rightarrow> u64" where
  "splitmix64 v =
     (let v = v + 0x9e3779b97f4a7c15;
          v = (v XOR drop_bit 30 v) * 0xbf58476d1ce4e5b9;
          v = (v XOR drop_bit 27 v) * 0x94d049bb133111eb in
      v XOR drop_bit 31 v)"

definition to_le_bytes :: "u64 \<Rightarrow> u8 list" where
  "to_le_bytes w = map (\<lambda>i. ucast (drop_bit (8 * i) w)) [0..<8]"

definition from_le_bytes :: "u8 list \<Rightarrow> u64" where
  "from_le_bytes bs = foldr (\<lambda>b w. ucast b OR push_bit 8 w) bs 0"

text \<open>The chunks of an output of the given length, eight bytes each, the last one cut.\<close>

fun fallback_chunks :: "nat \<Rightarrow> u64 \<Rightarrow> u8 list" where
  "fallback_chunks n st =
     (if n = 0 then []
      else (let st = splitmix64 st in take n (to_le_bytes st) @ fallback_chunks (n - 8) st))"

declare fallback_chunks.simps [simp del]

definition fallback_seed :: "u64 \<Rightarrow> u64 \<Rightarrow> 32 word \<Rightarrow> u64" where
  "fallback_seed now_ms counter pid = now_ms XOR word_rotl 23 counter XOR ucast pid"

text \<open>The bytes, and the global counter after \<open>fetch_add\<close>, which wraps.\<close>

definition fill_fallback_entropy :: "nat \<Rightarrow> u64 \<Rightarrow> 32 word \<Rightarrow> u64 \<Rightarrow> u8 list \<times> u64" where
  "fill_fallback_entropy len now_ms pid counter =
     (fallback_chunks len (fallback_seed now_ms counter pid), counter + 1)"

section \<open>Generation\<close>

definition values_of_entropy :: "u64 \<Rightarrow> u8 list \<Rightarrow> template_metadata" where
  "values_of_entropy now_ms entropy =
     (let random = from_le_bytes (take 8 (drop 16 entropy));
          entropy = entropy[24 + 6 := (entropy ! (24 + 6) AND 0x0f) OR 0x40];
          entropy = entropy[24 + 8 := (entropy ! (24 + 8) AND 0x3f) OR 0x80] in
      \<lparr>tm_id = encode_hex (take 16 entropy), tm_now_ms = now_ms, tm_random = random,
       tm_random_uuid = encode_uuid (take 16 (drop 24 entropy))\<rparr>)"

text \<open>\<open>getrandom\<close> is what the entropy source answered: forty bytes, or a failure.\<close>

definition generate_values ::
  "u8 list option \<Rightarrow> u64 \<Rightarrow> 32 word \<Rightarrow> u64 \<Rightarrow> template_metadata \<times> u64" where
  "generate_values getrandom now_ms pid counter =
     (case getrandom of
        Some entropy \<Rightarrow> (values_of_entropy now_ms entropy, counter)
      | None \<Rightarrow>
          (let (entropy, counter) = fill_fallback_entropy 40 now_ms pid counter in
           (values_of_entropy now_ms entropy, counter)))"

text \<open>
  The lazily initialised cell that clones of a request share: the first access generates,
  every later one returns what is stored.
\<close>

definition metadata_values ::
  "u8 list option \<Rightarrow> u64 \<Rightarrow> 32 word \<Rightarrow> template_metadata option \<times> u64 \<Rightarrow>
     template_metadata \<times> (template_metadata option \<times> u64)" where
  "metadata_values getrandom now_ms pid cell_counter =
     (case cell_counter of
        (Some v, counter) \<Rightarrow> (v, (Some v, counter))
      | (None, counter) \<Rightarrow>
          (let (v, counter) = generate_values getrandom now_ms pid counter in (v, (Some v, counter))))"

section \<open>Injectivity\<close>

lemma xorshift_inj:
  assumes "0 < k" "v XOR drop_bit k v = w XOR drop_bit k w"
  shows "v = (w :: u64)"
proof -
  have step: "bit v n \<noteq> bit v (n + k) \<longleftrightarrow> bit w n \<noteq> bit w (n + k)" for n
    using arg_cong [OF assms(2), of "\<lambda>x. bit x n"] by (simp add: bit_simps add.commute)
  have "bit v n = bit w n" for n
  proof (induction "64 - n" arbitrary: n rule: less_induct)
    case less
    show ?case
    proof (cases "n < 64")
      case True
      with less [of "n + k"] assms(1) step [of n] show ?thesis by simp blast
    next
      case False
      then have "\<not> bit x n" for x :: u64 using bit_imp_le_length [of x n] by auto
      then show ?thesis by simp
    qed
  qed
  then show ?thesis by (simp add: bit_eq_iff)
qed

lemma mult_inj_word: "c * d = (1 :: u64) \<Longrightarrow> v * c = w * c \<Longrightarrow> v = w"
proof -
  assume cd: "c * d = 1" and eq: "v * c = w * c"
  have "v = v * (c * d)" by (simp add: cd)
  also have "\<dots> = (v * c) * d" by (simp only: mult.assoc)
  also have "\<dots> = w * (c * d)" by (simp only: eq mult.assoc)
  finally show "v = w" by (simp add: cd)
qed

lemma splitmix64_inj: "splitmix64 v = splitmix64 w \<Longrightarrow> v = w"
proof -
  assume eq: "splitmix64 v = splitmix64 w"
  have c1: "(0xbf58476d1ce4e5b9 :: u64) * 10871156337175269513 = 1" by simp
  have c2: "(0x94d049bb133111eb :: u64) * 3573116690164977347 = 1" by simp
  from eq show "v = w"
    unfolding splitmix64_def Let_def
    by (auto dest!: xorshift_inj [rotated] mult_inj_word [OF c1] mult_inj_word [OF c2])
qed

lemma to_le_bytes_inj: "to_le_bytes v = to_le_bytes w \<Longrightarrow> v = w"
proof (rule bit_word_eqI)
  fix n
  assume eq: "to_le_bytes v = to_le_bytes w" and "n < LENGTH(64)"
  then have n: "n div 8 < 8" "8 * (n div 8) + n mod 8 = n" by simp_all
  from arg_cong [OF eq, of "\<lambda>xs. xs ! (n div 8)"] n(1)
  have "(ucast (drop_bit (8 * (n div 8)) v) :: u8) = ucast (drop_bit (8 * (n div 8)) w)"
    by (simp add: to_le_bytes_def)
  from arg_cong [OF this, of "\<lambda>x. bit x (n mod 8)"] n(2) show "bit v n = bit w n"
    by (simp add: bit_simps)
qed

lemma hex_digit_inj: "m < 16 \<Longrightarrow> n < 16 \<Longrightarrow> hex_digit m = hex_digit n \<Longrightarrow> m = n"
proof -
  have d: "distinct ''0123456789abcdef''" "length ''0123456789abcdef'' = 16" by simp_all
  assume "m < 16" "n < 16" "hex_digit m = hex_digit n"
  with d show "m = n" by (simp add: hex_digit_def nth_eq_iff_index_eq del: distinct.simps)
qed

lemma unat_u8: "unat (b :: u8) < 256"
  using unsigned_less [of b] by simp

lemma hex_byte_inj:
  assumes "hex_byte a = hex_byte b"
  shows "a = b"
proof -
  have "unat a div 16 = unat b div 16" "unat a mod 16 = unat b mod 16"
    using assms unat_u8 [of a] unat_u8 [of b] by (auto simp: hex_byte_def intro!: hex_digit_inj)
  then have "unat a = unat b" by (metis div_mult_mod_eq)
  then show ?thesis by (simp add: word_unat_eq_iff)
qed

lemma encode_hex_Cons: "encode_hex (b # bs) = hex_byte b @ encode_hex bs"
  by (simp add: encode_hex_def)

lemma length_hex_byte: "length (hex_byte b) = 2"
  by (simp add: hex_byte_def)

lemma length_encode_hex: "length (encode_hex bs) = 2 * length bs"
  by (induction bs) (simp_all add: encode_hex_def length_hex_byte)

lemma encode_hex_inj: "encode_hex as = encode_hex bs \<Longrightarrow> as = bs"
proof (induction as arbitrary: bs)
  case Nil
  then show ?case by (cases bs) (simp_all add: encode_hex_def hex_byte_def)
next
  case (Cons a as)
  then show ?case
    by (cases bs) (auto simp: encode_hex_Cons length_hex_byte dest: hex_byte_inj, auto simp: encode_hex_def hex_byte_def)
qed

lemma fallback_seed_inj: "fallback_seed now a pid = fallback_seed now b pid \<Longrightarrow> a = b"
proof -
  assume "fallback_seed now a pid = fallback_seed now b pid"
  then have "now XOR fallback_seed now a pid XOR ucast pid = now XOR fallback_seed now b pid XOR ucast pid" by simp
  then have "word_rotl 23 a = word_rotl 23 b"
    by (simp add: fallback_seed_def xor.assoc xor.left_commute [of _ now] xor.left_commute)
  then show "a = b" by (metis word_rot_lr)
qed

lemma length_to_le_bytes [simp]: "length (to_le_bytes w) = 8"
  by (simp add: to_le_bytes_def)

lemma length_fallback_chunks [simp]: "length (fallback_chunks n st) = n"
  by (induction n st rule: fallback_chunks.induct) (subst fallback_chunks.simps, auto simp: Let_def min_def)

lemma take_fallback_chunks: "8 \<le> n \<Longrightarrow> take 8 (fallback_chunks n st) = to_le_bytes (splitmix64 st)"
  by (subst fallback_chunks.simps) (simp add: Let_def)

lemma id_of_entropy: "tm_id (values_of_entropy now entropy) = encode_hex (take 16 entropy)"
  by (simp add: values_of_entropy_def Let_def)

text \<open>
  In the fallback mode two requests of one process in the same millisecond get different
  identifiers whenever their counter values differ, so identifiers repeat only after the
  64-bit counter has wrapped.
\<close>

theorem fallback_ids_differ:
  assumes "a \<noteq> b"
  shows "tm_id (fst (generate_values None now_ms pid a)) \<noteq> tm_id (fst (generate_values None now_ms pid b))"
proof
  assume "tm_id (fst (generate_values None now_ms pid a)) = tm_id (fst (generate_values None now_ms pid b))"
  then have "take 16 (fallback_chunks 40 (fallback_seed now_ms a pid)) =
      take 16 (fallback_chunks 40 (fallback_seed now_ms b pid))"
    by (auto simp: generate_values_def fill_fallback_entropy_def id_of_entropy dest: encode_hex_inj)
  from arg_cong [OF this, of "take 8"] have "splitmix64 (fallback_seed now_ms a pid) = splitmix64 (fallback_seed now_ms b pid)"
    by (simp add: take_fallback_chunks to_le_bytes_inj)
  with assms show False by (auto dest!: splitmix64_inj fallback_seed_inj)
qed

theorem fallback_ids_differ_witness:
  "(1 :: u64) \<noteq> 2 \<and> tm_id (fst (generate_values None 1700000000000 4242 1)) \<noteq> tm_id (fst (generate_values None 1700000000000 4242 2))"
  using fallback_ids_differ [of 1 2 1700000000000 4242] by simp

section \<open>Shapes\<close>

definition is_lower_hex :: "char \<Rightarrow> bool" where
  "is_lower_hex c \<longleftrightarrow> c \<in> set ''0123456789abcdef''"

text \<open>The RFC 4122 text of a version 4 UUID.\<close>

definition is_uuid_v4 :: "string \<Rightarrow> bool" where
  "is_uuid_v4 s \<longleftrightarrow>
     length s = 36 \<and>
     list_all (\<lambda>i. if i \<in> {8, 13, 18, 23} then s ! i = CHR ''-'' else is_lower_hex (s ! i)) [0..<36] \<and>
     s ! 14 = CHR ''4'' \<and> s ! 19 \<in> set ''89ab''"

lemma hex_digit_lower: "n < 16 \<Longrightarrow> is_lower_hex (hex_digit n)"
proof -
  have l: "length ''0123456789abcdef'' = 16" by simp
  assume "n < 16"
  with l show ?thesis unfolding is_lower_hex_def hex_digit_def by (metis nth_mem)
qed

lemma hex_byte_lower: "list_all is_lower_hex (hex_byte b)"
  using unat_u8 [of b] by (simp add: hex_byte_def hex_digit_lower)

lemma encode_hex_lower: "list_all is_lower_hex (encode_hex bs)"
  by (induction bs) (simp_all add: encode_hex_Cons hex_byte_lower, simp add: encode_hex_def)

lemma nth_encode_hex:
  "i < length bs \<Longrightarrow> encode_hex bs ! (2 * i) = hex_digit (unat (bs ! i) div 16)"
proof (induction bs arbitrary: i)
  case (Cons b bs)
  then show ?case by (cases i) (simp_all add: encode_hex_Cons hex_byte_def)
qed simp

lemma unat_div_pow2: "unat w div 2 ^ n = unat (drop_bit n (w :: u8))"
  unfolding unat_drop_bit_eq by (rule drop_bit_eq_div [symmetric])

lemma version_nibble: "unat ((b AND 0x0f) OR 0x40 :: u8) div 16 = 4"
proof -
  have "drop_bit 4 ((b AND 0x0f) OR 0x40 :: u8) = 4"
    by (rule bit_word_eqI) (auto simp: bit_simps nat_less_le)
  with unat_div_pow2 [of "(b AND 0x0f) OR 0x40" 4] show ?thesis by (simp only: power_numeral) simp
qed

lemma variant_nibble: "unat ((b AND 0x3f) OR 0x80 :: u8) div 16 \<in> {8, 9, 10, 11}"
proof -
  have "drop_bit 6 ((b AND 0x3f) OR 0x80 :: u8) = 2"
    by (rule bit_word_eqI) (auto simp: bit_simps nat_less_le)
  then have q: "unat ((b AND 0x3f) OR 0x80 :: u8) div 2 ^ 6 = 2"
    by (simp only: unat_div_pow2) simp
  have "n div 16 \<in> {8, 9, 10, 11}" if "n div 2 ^ 6 = (2 :: nat)" for n using that by auto
  from this [OF q] show ?thesis .
qed

lemma variant_digit: "n \<in> {8, 9, 10, 11} \<Longrightarrow> hex_digit n \<in> set ''89ab''"
  by (auto simp: hex_digit_def)

lemma uuid_digits:
  assumes "length bs = 16"
  shows "length (encode_uuid bs) = 36"
    and "encode_uuid bs ! 8 = CHR ''-''" "encode_uuid bs ! 13 = CHR ''-''"
    and "encode_uuid bs ! 18 = CHR ''-''" "encode_uuid bs ! 23 = CHR ''-''"
    and "encode_uuid bs ! 14 = encode_hex bs ! 12" "encode_uuid bs ! 19 = encode_hex bs ! 16"
    and "i < 36 \<Longrightarrow> i \<notin> {8, 13, 18, 23} \<Longrightarrow> encode_uuid bs ! i \<in> set (encode_hex bs)"
  using assms
  by (auto simp: encode_uuid_def Let_def length_encode_hex nth_append nth_Cons')

text \<open>
  Whatever the entropy source answers, a generated identifier is 32 lowercase hexadecimal
  characters and a generated UUID is an RFC 4122 version 4 UUID.
\<close>

theorem generated_shapes:
  assumes "case getrandom of Some entropy \<Rightarrow> length entropy = 40 | None \<Rightarrow> True"
  shows "length (tm_id (fst (generate_values getrandom now_ms pid counter))) = 32 \<and>
    list_all is_lower_hex (tm_id (fst (generate_values getrandom now_ms pid counter))) \<and>
    is_uuid_v4 (tm_random_uuid (fst (generate_values getrandom now_ms pid counter)))"
proof -
  define entropy where "entropy = (case getrandom of Some e \<Rightarrow> e
    | None \<Rightarrow> fst (fill_fallback_entropy 40 now_ms pid counter))"
  then have e: "length entropy = 40"
    "fst (generate_values getrandom now_ms pid counter) = values_of_entropy now_ms entropy"
    using assms by (auto simp: generate_values_def fill_fallback_entropy_def split: option.splits)
  let ?bs = "take 16 (drop 24 (entropy[30 := (entropy ! 30 AND 0x0f) OR 0x40, 32 := (entropy ! 32 AND 0x3f) OR 0x80]))"
  have u: "tm_random_uuid (values_of_entropy now_ms entropy) = encode_uuid ?bs"
    by (simp add: values_of_entropy_def Let_def)
  have len: "length ?bs = 16" using e(1) by simp
  have "unat (?bs ! 6) div 16 = 4" using e(1) version_nibble by simp
  with nth_encode_hex [of 6 ?bs] len have d12: "encode_hex ?bs ! 12 = hex_digit 4" by simp
  have "unat (?bs ! 8) div 16 \<in> {8, 9, 10, 11}" using e(1) variant_nibble by simp
  with nth_encode_hex [of 8 ?bs] len have d16: "encode_hex ?bs ! 16 \<in> set ''89ab''"
    using variant_digit [of "unat (?bs ! 8) div 16"] by simp
  from d12 d16 uuid_digits [OF len] encode_hex_lower [of ?bs] have "is_uuid_v4 (encode_uuid ?bs)"
    by (auto simp: is_uuid_v4_def list_all_iff hex_digit_def)
  moreover have "length (encode_hex (take 16 entropy)) = 32" using e(1) by (simp add: length_encode_hex)
  ultimately show ?thesis by (simp add: e(2) u id_of_entropy encode_hex_lower)
qed

theorem generated_shapes_witness:
  "length (replicate 40 (0xA7 :: u8)) = 40 \<and>
   is_uuid_v4 (tm_random_uuid (fst (generate_values (Some (replicate 40 0xA7)) 0 1 1))) \<and>
   is_uuid_v4 (tm_random_uuid (fst (generate_values None 0 1 1)))"
  using generated_shapes [of "Some (replicate 40 0xA7)" 0 1 1] generated_shapes [of None 0 1 1] by simp

section \<open>Stability across phases\<close>

text \<open>Once read, the cell answers the same values whatever the clock and the entropy source say later.\<close>

lemma metadata_values_stable:
  assumes "metadata_values g now pid cell = (v, cell')"
  shows "metadata_values g' now' pid' cell' = (v, cell')"
  using assms by (auto simp: metadata_values_def split: prod.splits option.splits)

end
