(* ===== verification/Trace_Model.thy ===== *)
theory Trace_Model
  imports Rule_Model
begin

text \<open>
  Trace sessions and lifecycle events (\<open>rsproxy-trace/src/model.rs\<close> and \<open>event.rs\<close>), and the
  byte estimates the collector charges for them (\<open>estimate_session_bytes\<close> of
  \<open>store/memory.rs\<close>).

  The estimates add up buffer capacities and type sizes, which the compiler and the allocator
  choose: they are the fields of the parameter \<open>alloc\<close>, a capacity being a function of the
  contents of the buffer. Integers of 64 bits are natural numbers with the saturation and the
  wrap-around of the sources written out; \<open>iter().sum()\<close> wraps, as in a release build.
\<close>

section \<open>Sessions\<close>

datatype session_kind = KindHttp | KindTunnel | KindSse | KindWebSocket

datatype frame_direction = ClientToServer | ServerToClient

datatype frame_data_encoding = FrameUtf8 | FrameHex

record tls_record =
  tls_phase :: string
  tls_host :: string
  tls_handshake_ms :: nat
  tls_peer_certificates :: nat
  tls_protocol :: "string option"
  tls_cipher_suite :: "string option"
  tls_alpn :: "string option"
  tls_error :: "string option"

record frame_record =
  fr_direction :: frame_direction
  fr_at_ms :: nat
  fr_opcode :: string
  fr_fin :: bool
  fr_payload_len :: nat
  fr_data_encoding :: frame_data_encoding
  fr_data :: string
  fr_truncated :: bool

type_synonym headers = "(string \<times> string) list"

record session =
  se_id :: nat
  se_kind :: session_kind
  se_started_ms :: nat
  se_duration_ms :: nat
  se_pool_wait_ms :: nat
  se_dns_ms :: nat
  se_connect_ms :: nat
  se_ttfb_ms :: nat
  se_request_send_ms :: "nat option"
  se_response_receive_ms :: "nat option"
  se_method :: string
  se_url :: string
  se_status :: "u16 option"
  se_client :: string
  se_upstream :: "string option"
  se_request_bytes :: nat
  se_response_bytes :: nat
  se_matched_rules :: "matched_rule list"
  se_flags :: "string list"
  se_error :: "string option"
  se_req_headers :: headers
  se_req_trailers :: headers
  se_req_body_head :: string
  se_res_headers :: headers
  se_res_trailers :: headers
  se_res_body_head :: string
  se_frames :: "frame_record list"
  se_tls :: "tls_record list"

definition frame_new ::
  "frame_direction \<Rightarrow> nat \<Rightarrow> string \<Rightarrow> bool \<Rightarrow> string \<Rightarrow> nat \<Rightarrow> frame_data_encoding \<Rightarrow> frame_record" where
  "frame_new direction at_ms opcode fin payload preview_limit encoding =
     \<lparr>fr_direction = direction, fr_at_ms = at_ms, fr_opcode = opcode, fr_fin = fin,
      fr_payload_len = length payload, fr_data_encoding = encoding,
      fr_data = take preview_limit payload, fr_truncated = preview_limit < length payload\<rparr>"

definition frame_encoding_name :: "frame_data_encoding \<Rightarrow> string" where
  "frame_encoding_name encoding = (case encoding of FrameUtf8 \<Rightarrow> ''utf8'' | FrameHex \<Rightarrow> ''hex'')"

text \<open>\<open>Session::new\<close> reads the clock for \<open>started_ms\<close>: here the argument \<open>now\<close>.\<close>

definition session_new :: "nat \<Rightarrow> session_kind \<Rightarrow> string \<Rightarrow> string \<Rightarrow> string \<Rightarrow> session" where
  "session_new now kind method url client =
     \<lparr>se_id = 0, se_kind = kind, se_started_ms = now, se_duration_ms = 0, se_pool_wait_ms = 0,
      se_dns_ms = 0, se_connect_ms = 0, se_ttfb_ms = 0, se_request_send_ms = None,
      se_response_receive_ms = None, se_method = method, se_url = url, se_status = None,
      se_client = client, se_upstream = None, se_request_bytes = 0, se_response_bytes = 0,
      se_matched_rules = [], se_flags = [], se_error = None, se_req_headers = [],
      se_req_trailers = [], se_req_body_head = [], se_res_headers = [], se_res_trailers = [],
      se_res_body_head = [], se_frames = [], se_tls = []\<rparr>"

definition session_finish :: "nat \<Rightarrow> session \<Rightarrow> session" where
  "session_finish now s = s\<lparr>se_duration_ms := now - se_started_ms s\<rparr>"

section \<open>Events\<close>

record session_start =
  ss_kind :: session_kind
  ss_started_ms :: nat
  ss_method :: string
  ss_url :: string
  ss_client :: string

datatype body_direction = BodyRequest | BodyResponse

record end_info =
  ei_kind :: session_kind
  ei_duration_ms :: nat
  ei_pool_wait_ms :: nat
  ei_dns_ms :: nat
  ei_connect_ms :: nat
  ei_ttfb_ms :: nat
  ei_request_send_ms :: "nat option"
  ei_response_receive_ms :: "nat option"
  ei_upstream :: "string option"
  ei_flags :: "string list"
  ei_error :: "string option"

text \<open>
  \<open>TraceEvent\<close>; the fields of its variant \<open>End\<close> beside the identifier are the record
  \<open>end_info\<close>.
\<close>

datatype trace_event =
    EvStart nat session_start
  | EvRequest nat "string option" "string option" headers headers "matched_rule list"
  | EvResponse nat "u16 option" headers headers
  | EvBodyChunk nat body_direction string nat
  | EvBodySnapshot nat body_direction string nat
  | EvFrame nat frame_record
  | EvTls nat tls_record
  | EvEnd nat end_info
  | EvAbort nat

fun session_id :: "trace_event \<Rightarrow> nat" where
  "session_id (EvStart i _) = i"
| "session_id (EvRequest i _ _ _ _ _) = i"
| "session_id (EvResponse i _ _ _) = i"
| "session_id (EvBodyChunk i _ _ _) = i"
| "session_id (EvBodySnapshot i _ _ _) = i"
| "session_id (EvFrame i _) = i"
| "session_id (EvTls i _) = i"
| "session_id (EvEnd i _) = i"
| "session_id (EvAbort i) = i"

definition start_from_session :: "session \<Rightarrow> session_start" where
  "start_from_session s =
     \<lparr>ss_kind = se_kind s, ss_started_ms = se_started_ms s, ss_method = se_method s,
      ss_url = se_url s, ss_client = se_client s\<rparr>"

definition end_from_session :: "session \<Rightarrow> end_info" where
  "end_from_session s =
     \<lparr>ei_kind = se_kind s, ei_duration_ms = se_duration_ms s, ei_pool_wait_ms = se_pool_wait_ms s,
      ei_dns_ms = se_dns_ms s, ei_connect_ms = se_connect_ms s, ei_ttfb_ms = se_ttfb_ms s,
      ei_request_send_ms = se_request_send_ms s, ei_response_receive_ms = se_response_receive_ms s,
      ei_upstream = se_upstream s, ei_flags = se_flags s, ei_error = se_error s\<rparr>"

definition events_from_session :: "session \<Rightarrow> trace_event list" where
  "events_from_session s =
     (let i = se_id s in
      [EvStart i (start_from_session s),
       EvRequest i None None (se_req_headers s) (se_req_trailers s) (se_matched_rules s)] @
      (if 0 < se_request_bytes s \<or> se_req_body_head s \<noteq> []
       then [EvBodySnapshot i BodyRequest (se_req_body_head s) (se_request_bytes s)] else []) @
      [EvResponse i (se_status s) (se_res_headers s) (se_res_trailers s)] @
      (if 0 < se_response_bytes s \<or> se_res_body_head s \<noteq> []
       then [EvBodySnapshot i BodyResponse (se_res_body_head s) (se_response_bytes s)] else []) @
      map (EvFrame i) (se_frames s) @
      map (EvTls i) (se_tls s) @
      [EvEnd i (end_from_session s)])"

text \<open>\<open>events.remove(0)\<close> on a list that is never empty.\<close>

definition continuation_from_session :: "session \<Rightarrow> trace_event list" where
  "continuation_from_session s = tl (events_from_session s)"

section \<open>Byte estimates\<close>

record alloc =
  string_capacity :: "string \<Rightarrow> nat"
  vec_capacity :: "nat \<Rightarrow> nat"
  size_of_session :: nat
  size_of_event :: nat
  size_of_header :: nat
  size_of_string :: nat
  size_of_matched_rule :: nat
  size_of_frame :: nat
  size_of_tls :: nat

definition saturating_mul :: "nat \<Rightarrow> nat \<Rightarrow> nat" where
  "saturating_mul a b = min (a * b) USIZE_MAX"

definition usize_sum :: "nat list \<Rightarrow> nat" where
  "usize_sum xs = sum_list xs mod (USIZE_MAX + 1)"

text \<open>A chain \<open>a.saturating_add(b).saturating_add(c)\<close>.\<close>

definition saturating_chain :: "nat \<Rightarrow> nat list \<Rightarrow> nat" where
  "saturating_chain a bs = foldl saturating_add a bs"

definition option_string_bytes :: "alloc \<Rightarrow> string option \<Rightarrow> nat" where
  "option_string_bytes A v = (case v of Some s \<Rightarrow> string_capacity A s | None \<Rightarrow> 0)"

definition vector_storage_bytes :: "nat \<Rightarrow> nat \<Rightarrow> nat" where
  "vector_storage_bytes bytes capacity = saturating_mul capacity bytes"

definition headers_bytes :: "alloc \<Rightarrow> headers \<Rightarrow> nat" where
  "headers_bytes A hs =
     saturating_add (vector_storage_bytes (size_of_header A) (vec_capacity A (length hs)))
       (usize_sum (map (\<lambda>(n, v). saturating_add (string_capacity A n) (string_capacity A v)) hs))"

definition rules_bytes :: "alloc \<Rightarrow> matched_rule list \<Rightarrow> nat" where
  "rules_bytes A rules =
     saturating_add (vector_storage_bytes (size_of_matched_rule A) (vec_capacity A (length rules)))
       (usize_sum (map (\<lambda>r. saturating_add (length (mr_group r)) (length (mr_raw r))) rules))"

definition frame_bytes :: "alloc \<Rightarrow> frame_record \<Rightarrow> nat" where
  "frame_bytes A f = saturating_add (string_capacity A (fr_opcode f)) (string_capacity A (fr_data f))"

definition tls_bytes :: "alloc \<Rightarrow> tls_record \<Rightarrow> nat" where
  "tls_bytes A r =
     saturating_chain (string_capacity A (tls_phase r))
       [string_capacity A (tls_host r), option_string_bytes A (tls_protocol r),
        option_string_bytes A (tls_cipher_suite r), option_string_bytes A (tls_alpn r),
        option_string_bytes A (tls_error r)]"

definition flags_bytes :: "alloc \<Rightarrow> string list \<Rightarrow> nat list" where
  "flags_bytes A flags =
     [vector_storage_bytes (size_of_string A) (vec_capacity A (length flags)),
      usize_sum (map (string_capacity A) flags)]"

definition estimate_session_bytes :: "alloc \<Rightarrow> session \<Rightarrow> nat" where
  "estimate_session_bytes A s =
     saturating_chain (size_of_session A)
       ([string_capacity A (se_method s), string_capacity A (se_url s), string_capacity A (se_client s),
         option_string_bytes A (se_upstream s), option_string_bytes A (se_error s),
         headers_bytes A (se_req_headers s), headers_bytes A (se_req_trailers s),
         headers_bytes A (se_res_headers s), headers_bytes A (se_res_trailers s),
         string_capacity A (se_req_body_head s), string_capacity A (se_res_body_head s)] @
        flags_bytes A (se_flags s) @
        [vector_storage_bytes (size_of_matched_rule A) (vec_capacity A (length (se_matched_rules s))),
         usize_sum (map (\<lambda>r. saturating_add (length (mr_group r)) (length (mr_raw r))) (se_matched_rules s)),
         vector_storage_bytes (size_of_frame A) (vec_capacity A (length (se_frames s))),
         usize_sum (map (frame_bytes A) (se_frames s)),
         vector_storage_bytes (size_of_tls A) (vec_capacity A (length (se_tls s))),
         usize_sum (map (tls_bytes A) (se_tls s))])"

fun dynamic_bytes :: "alloc \<Rightarrow> trace_event \<Rightarrow> nat" where
  "dynamic_bytes A (EvStart _ st) =
     saturating_chain (string_capacity A (ss_method st))
       [string_capacity A (ss_url st), string_capacity A (ss_client st)]"
| "dynamic_bytes A (EvRequest _ method url hs ts rules) =
     saturating_chain (option_string_bytes A method)
       [option_string_bytes A url, headers_bytes A hs, headers_bytes A ts, rules_bytes A rules]"
| "dynamic_bytes A (EvResponse _ _ hs ts) = saturating_add (headers_bytes A hs) (headers_bytes A ts)"
| "dynamic_bytes A (EvBodyChunk _ _ data observed) = max (length data) observed"
| "dynamic_bytes A (EvBodySnapshot _ _ data _) = length data"
| "dynamic_bytes A (EvFrame _ f) = frame_bytes A f"
| "dynamic_bytes A (EvTls _ r) = tls_bytes A r"
| "dynamic_bytes A (EvEnd _ info) =
     saturating_chain (option_string_bytes A (ei_upstream info))
       (option_string_bytes A (ei_error info) # flags_bytes A (ei_flags info))"
| "dynamic_bytes A (EvAbort _) = 0"

definition estimated_bytes :: "alloc \<Rightarrow> trace_event \<Rightarrow> nat" where
  "estimated_bytes A e = saturating_add (size_of_event A) (dynamic_bytes A e)"

lemma saturating_chain_le: "a \<le> USIZE_MAX \<Longrightarrow> saturating_chain a bs \<le> USIZE_MAX"
  unfolding saturating_chain_def by (induction bs arbitrary: a) (auto simp: saturating_add_def)

lemma estimate_session_bytes_le: "size_of_session A \<le> USIZE_MAX \<Longrightarrow> estimate_session_bytes A s \<le> USIZE_MAX"
  unfolding estimate_session_bytes_def by (rule saturating_chain_le)

lemma session_id_events: "e \<in> set (events_from_session s) \<Longrightarrow> session_id e = se_id s"
  by (auto simp: events_from_session_def Let_def split: if_splits)

end
