(* ===== verification/Trace_Memory.thy ===== *)
theory Trace_Memory
  imports Trace_Model
begin

text \<open>
  The bounded history of completed sessions (\<open>rsproxy-trace/src/store/memory.rs\<close>). Its
  contract is a queue of sessions that loses its oldest members to make room; the invariant is
  that the accounted bytes are the sum of the stored estimates and within the budget.
\<close>

section \<open>The store\<close>

record stored_session =
  st_session :: session
  st_bytes :: nat

record memory_store =
  ms_max_sessions :: nat
  ms_budget :: nat
  ms_bytes :: nat
  ms_evicted :: nat
  ms_sessions :: "stored_session list"

definition memory_new :: "nat \<Rightarrow> nat \<Rightarrow> memory_store" where
  "memory_new max_sessions budget =
     \<lparr>ms_max_sessions = max_sessions, ms_budget = budget, ms_bytes = 0, ms_evicted = 0, ms_sessions = []\<rparr>"

definition evict_oldest :: "memory_store \<Rightarrow> memory_store" where
  "evict_oldest m =
     (case ms_sessions m of
        [] \<Rightarrow> m
      | s # rest \<Rightarrow> m\<lparr>ms_sessions := rest, ms_bytes := ms_bytes m - st_bytes s,
                      ms_evicted := saturating_add (ms_evicted m) 1\<rparr>)"

text \<open>\<open>while !self.sessions.is_empty() && cond { self.evict_oldest() }\<close>\<close>

function evict_while :: "(memory_store \<Rightarrow> bool) \<Rightarrow> memory_store \<Rightarrow> memory_store" where
  "evict_while cond m =
     (if ms_sessions m \<noteq> [] \<and> cond m then evict_while cond (evict_oldest m) else m)"
  by pat_completeness auto
termination
  by (relation "measure (\<lambda>(_, m). length (ms_sessions m))") (auto simp: evict_oldest_def split: list.split)

declare evict_while.simps [simp del]

definition memory_insert :: "alloc \<Rightarrow> session \<Rightarrow> memory_store \<Rightarrow> memory_store" where
  "memory_insert A s m =
     (let bytes = estimate_session_bytes A s in
      if ms_max_sessions m = 0 \<or> ms_budget m = 0 \<or> ms_budget m < bytes
      then m\<lparr>ms_evicted := saturating_add (ms_evicted m) 1\<rparr>
      else
        (let m = evict_while (\<lambda>m. ms_max_sessions m \<le> length (ms_sessions m) \<or>
                                 ms_budget m < saturating_add (ms_bytes m) bytes) m in
         m\<lparr>ms_bytes := saturating_add (ms_bytes m) bytes,
           ms_sessions := ms_sessions m @ [\<lparr>st_session = s, st_bytes = bytes\<rparr>]\<rparr>))"

definition evict_to_budget :: "nat \<Rightarrow> memory_store \<Rightarrow> memory_store" where
  "evict_to_budget budget m = evict_while (\<lambda>m. budget < ms_bytes m) m"

definition memory_clear :: "memory_store \<Rightarrow> memory_store" where
  "memory_clear m = m\<lparr>ms_sessions := [], ms_bytes := 0\<rparr>"

definition memory_list :: "nat \<Rightarrow> memory_store \<Rightarrow> session list" where
  "memory_list limit m =
     map st_session (take (min limit (length (ms_sessions m))) (rev (ms_sessions m)))"

definition list_after :: "nat \<Rightarrow> nat \<Rightarrow> memory_store \<Rightarrow> session list" where
  "list_after after limit m =
     map st_session (take limit (filter (\<lambda>st. after < se_id (st_session st)) (ms_sessions m)))"

definition memory_get :: "nat \<Rightarrow> memory_store \<Rightarrow> session option" where
  "memory_get i m = map_option st_session (find (\<lambda>st. se_id (st_session st) = i) (ms_sessions m))"

section \<open>Eviction\<close>

definition mem_abs :: "memory_store \<Rightarrow> session list" where
  "mem_abs m = map st_session (ms_sessions m)"

definition mem_inv :: "alloc \<Rightarrow> memory_store \<Rightarrow> bool" where
  "mem_inv A m \<longleftrightarrow>
     ms_bytes m = sum_list (map st_bytes (ms_sessions m)) \<and>
     list_all (\<lambda>st. st_bytes st = estimate_session_bytes A (st_session st)) (ms_sessions m) \<and>
     ms_bytes m \<le> ms_budget m \<and> length (ms_sessions m) \<le> ms_max_sessions m"

lemma mem_inv_bytes: "mem_inv A m \<Longrightarrow> ms_bytes m = sum_list (map (estimate_session_bytes A) (mem_abs m))"
proof -
  assume "mem_inv A m"
  then have "map (estimate_session_bytes A) (mem_abs m) = map st_bytes (ms_sessions m)"
    by (auto simp: mem_inv_def mem_abs_def list_all_iff)
  with \<open>mem_inv A m\<close> show ?thesis by (simp add: mem_inv_def)
qed

lemma evict_oldest_inv: "mem_inv A m \<Longrightarrow> mem_inv A (evict_oldest m)"
  by (auto simp: mem_inv_def evict_oldest_def split: list.split)

text \<open>The loop drops some of the oldest sessions and stops at an empty store or a false condition.\<close>

definition evicted_to :: "(memory_store \<Rightarrow> bool) \<Rightarrow> memory_store \<Rightarrow> memory_store \<Rightarrow> bool" where
  "evicted_to cond m m' \<longleftrightarrow>
     suffix (ms_sessions m') (ms_sessions m) \<and> (ms_sessions m' = [] \<or> \<not> cond m') \<and>
     ms_max_sessions m' = ms_max_sessions m \<and> ms_budget m' = ms_budget m"

lemma evict_oldest_fields:
  "suffix (ms_sessions (evict_oldest m)) (ms_sessions m)" "ms_max_sessions (evict_oldest m) = ms_max_sessions m"
  "ms_budget (evict_oldest m) = ms_budget m"
  by (auto simp: evict_oldest_def suffix_ConsI split: list.split)

lemma evict_while_result:
  "evicted_to cond m (evict_while cond m) \<and> (mem_inv A m \<longrightarrow> mem_inv A (evict_while cond m))"
proof (induction cond m rule: evict_while.induct)
  case (1 cond m)
  show ?case
  proof (cases "ms_sessions m \<noteq> [] \<and> cond m")
    case True
    then have e: "evict_while cond m = evict_while cond (evict_oldest m)" by (simp add: evict_while.simps)
    from "1.IH" [OF True] evict_oldest_fields [of m] evict_oldest_inv [of A m] show ?thesis
      unfolding e evicted_to_def by (metis suffix_order.trans)
  next
    case False
    then have "evict_while cond m = m" by (subst evict_while.simps) (rule if_not_P)
    with False show ?thesis by (auto simp: evicted_to_def)
  qed
qed

lemma suffix_mem_abs: "suffix (ms_sessions m') (ms_sessions m) \<Longrightarrow> suffix (mem_abs m') (mem_abs m)"
  by (auto simp: mem_abs_def suffix_def)

lemma memory_new_inv: "mem_inv A (memory_new max_sessions budget)"
  by (simp add: mem_inv_def memory_new_def)

lemma memory_clear_inv: "mem_inv A m \<Longrightarrow> mem_inv A (memory_clear m)"
  by (simp add: mem_inv_def memory_clear_def)

lemma evict_to_budget_inv:
  assumes "mem_inv A m"
  shows "mem_inv A (evict_to_budget budget m) \<and> ms_bytes (evict_to_budget budget m) \<le> budget \<and>
    ms_budget (evict_to_budget budget m) = ms_budget m \<and> ms_max_sessions (evict_to_budget budget m) = ms_max_sessions m \<and>
    suffix (mem_abs (evict_to_budget budget m)) (mem_abs m)"
proof -
  let ?m = "evict_to_budget budget m"
  from evict_while_result [of "\<lambda>m. budget < ms_bytes m" m A] assms
  have n: "evicted_to (\<lambda>m. budget < ms_bytes m) m ?m" "mem_inv A ?m" by (simp_all add: evict_to_budget_def)
  then have "ms_bytes ?m \<le> budget" by (auto simp: evicted_to_def mem_inv_def)
  with n show ?thesis by (auto simp: evicted_to_def suffix_mem_abs)
qed

text \<open>
  What an insertion does: a session that can never fit is refused, and otherwise the newest
  sessions that fit beside it are kept and it becomes the newest.
\<close>

lemma memory_insert_result:
  assumes "mem_inv A m" "ms_budget m < USIZE_MAX"
  shows "mem_inv A (memory_insert A s m) \<and> ms_budget (memory_insert A s m) = ms_budget m \<and>
    ms_max_sessions (memory_insert A s m) = ms_max_sessions m \<and>
    (if ms_max_sessions m = 0 \<or> ms_budget m = 0 \<or> ms_budget m < estimate_session_bytes A s
     then mem_abs (memory_insert A s m) = mem_abs m
     else \<exists>kept. suffix kept (mem_abs m) \<and> mem_abs (memory_insert A s m) = kept @ [s])"
proof (cases "ms_max_sessions m = 0 \<or> ms_budget m = 0 \<or> ms_budget m < estimate_session_bytes A s")
  case True
  with assms(1) show ?thesis by (auto simp: memory_insert_def mem_inv_def mem_abs_def)
next
  case False
  define bytes where "bytes = estimate_session_bytes A s"
  define cond :: "memory_store \<Rightarrow> bool" where
    "cond = (\<lambda>m. ms_max_sessions m \<le> length (ms_sessions m) \<or> ms_budget m < saturating_add (ms_bytes m) bytes)"
  define m' where "m' = evict_while cond m"
  from evict_while_result [of cond m A] assms(1)
  have n: "mem_inv A m'" "suffix (ms_sessions m') (ms_sessions m)" "ms_sessions m' = [] \<or> \<not> cond m'"
    "ms_max_sessions m' = ms_max_sessions m" "ms_budget m' = ms_budget m"
    by (simp_all add: m'_def evicted_to_def)
  have ins: "memory_insert A s m = m'\<lparr>ms_bytes := saturating_add (ms_bytes m') bytes,
      ms_sessions := ms_sessions m' @ [\<lparr>st_session = s, st_bytes = bytes\<rparr>]\<rparr>"
    using False by (simp add: memory_insert_def Let_def m'_def cond_def bytes_def)
  have fit: "ms_bytes m' + bytes \<le> ms_budget m \<and> length (ms_sessions m') < ms_max_sessions m"
  proof (cases "ms_sessions m' = []")
    case True
    with n(1) False show ?thesis by (auto simp: mem_inv_def bytes_def)
  next
    case nonempty: False
    with n(3) assms(2) n(4,5) show ?thesis by (auto simp: cond_def saturating_add_def)
  qed
  then have "mem_inv A (memory_insert A s m)"
    using n assms(2) by (auto simp: ins mem_inv_def saturating_add_def bytes_def)
  moreover have "mem_abs (memory_insert A s m) = mem_abs m' @ [s]" by (simp add: ins mem_abs_def)
  moreover have "suffix (mem_abs m') (mem_abs m)" using n(2) by (rule suffix_mem_abs)
  ultimately show ?thesis using False n(4,5) by (auto simp: ins)
qed

lemma list_after_spec:
  "list_after after limit m = take limit (filter (\<lambda>s. after < se_id s) (mem_abs m))"
  by (simp add: list_after_def mem_abs_def filter_map comp_def take_map)

lemma memory_list_spec: "memory_list limit m = take limit (rev (mem_abs m))"
  by (simp add: memory_list_def mem_abs_def rev_map take_map min_def)

end
