(* ===== verification/Trace_Pending.thy ===== *)
theory Trace_Pending
  imports Trace_Memory "HOL-Library.AList"
begin

text \<open>
  Assembly of sessions from lifecycle events (\<open>rsproxy-trace/src/store/pending.rs\<close>). The hash
  map of pending sessions is an association list with distinct keys; its order is never
  observed. Times are milliseconds of the monotonic clock: an operation is given the instant
  at which it runs, the readings within one operation being one instant.
\<close>

section \<open>Pending sessions\<close>

definition PENDING_TTL :: nat where "PENDING_TTL = 300000"
definition CLEANUP_INTERVAL :: nat where "CLEANUP_INTERVAL = 1000"

record pending_session =
  pe_session :: session
  pe_touched :: nat

record pending_sessions =
  pn_sessions :: "(nat \<times> pending_session) list"
  pn_body_limit :: nat
  pn_incomplete :: nat
  pn_orphans :: nat
  pn_bytes :: nat
  pn_last_cleanup :: nat

definition pending_new :: "nat \<Rightarrow> nat \<Rightarrow> pending_sessions" where
  "pending_new now body_limit =
     \<lparr>pn_sessions = [], pn_body_limit = body_limit, pn_incomplete = 0, pn_orphans = 0, pn_bytes = 0,
      pn_last_cleanup = now\<rparr>"

definition append_preview :: "string \<Rightarrow> string \<Rightarrow> nat \<Rightarrow> string" where
  "append_preview target data body_limit = target @ take (min (length data) (body_limit - length target)) data"

definition expire_stale :: "alloc \<Rightarrow> nat \<Rightarrow> pending_sessions \<Rightarrow> pending_sessions" where
  "expire_stale A now p =
     (if now - pn_last_cleanup p < CLEANUP_INTERVAL then p
      else
        (let fresh = (\<lambda>(_, e). now - pe_touched e < PENDING_TTL);
             kept = filter fresh (pn_sessions p);
             removed = foldl (\<lambda>n (_, e). saturating_add n (estimate_session_bytes A (pe_session e))) 0
               (filter (\<lambda>x. \<not> fresh x) (pn_sessions p)) in
         p\<lparr>pn_last_cleanup := now, pn_sessions := kept, pn_bytes := pn_bytes p - removed,
           pn_incomplete := saturating_add (pn_incomplete p) (length (pn_sessions p) - length kept)\<rparr>))"

definition orphaned :: "pending_sessions \<Rightarrow> pending_sessions" where
  "orphaned p = p\<lparr>pn_orphans := saturating_add (pn_orphans p) 1\<rparr>"

definition pending_update ::
  "alloc \<Rightarrow> nat \<Rightarrow> nat \<Rightarrow> (session \<Rightarrow> session) \<Rightarrow> pending_sessions \<Rightarrow> pending_sessions" where
  "pending_update A now i f p =
     (case map_of (pn_sessions p) i of
        None \<Rightarrow> orphaned p
      | Some e \<Rightarrow>
          (let s = f (pe_session e);
               before = estimate_session_bytes A (pe_session e);
               after = estimate_session_bytes A s in
           p\<lparr>pn_bytes := saturating_add (pn_bytes p - before) after,
             pn_sessions := AList.update i \<lparr>pe_session = s, pe_touched = now\<rparr> (pn_sessions p)\<rparr>))"

definition pending_start :: "alloc \<Rightarrow> nat \<Rightarrow> nat \<Rightarrow> session_start \<Rightarrow> pending_sessions \<Rightarrow> pending_sessions" where
  "pending_start A now i start p =
     (let s = (session_new now (ss_kind start) (ss_method start) (ss_url start) (ss_client start))
                \<lparr>se_id := i, se_started_ms := ss_started_ms start\<rparr>;
          bytes = estimate_session_bytes A s;
          replaced = map_of (pn_sessions p) i;
          p = p\<lparr>pn_sessions := AList.update i \<lparr>pe_session = s, pe_touched = now\<rparr> (pn_sessions p)\<rparr>;
          p = (case replaced of
                 Some e \<Rightarrow> p\<lparr>pn_bytes := pn_bytes p - estimate_session_bytes A (pe_session e),
                             pn_incomplete := saturating_add (pn_incomplete p) 1\<rparr>
               | None \<Rightarrow> p) in
      p\<lparr>pn_bytes := saturating_add (pn_bytes p) bytes\<rparr>)"

definition pending_remove :: "alloc \<Rightarrow> nat \<Rightarrow> session \<Rightarrow> pending_sessions \<Rightarrow> pending_sessions" where
  "pending_remove A i s p =
     p\<lparr>pn_sessions := AList.delete i (pn_sessions p), pn_bytes := pn_bytes p - estimate_session_bytes A s\<rparr>"

definition abort_for_budget :: "alloc \<Rightarrow> nat \<Rightarrow> pending_sessions \<Rightarrow> pending_sessions" where
  "abort_for_budget A i p =
     (case map_of (pn_sessions p) i of
        None \<Rightarrow> p
      | Some e \<Rightarrow> (pending_remove A i (pe_session e) p)\<lparr>pn_incomplete := saturating_add (pn_incomplete p) 1\<rparr>)"

definition request_update ::
  "string option \<Rightarrow> string option \<Rightarrow> headers \<Rightarrow> headers \<Rightarrow> matched_rule list \<Rightarrow> session \<Rightarrow> session" where
  "request_update method url hs ts rules s =
     (let s = (case method of Some m \<Rightarrow> s\<lparr>se_method := m\<rparr> | None \<Rightarrow> s);
          s = (case url of Some u \<Rightarrow> s\<lparr>se_url := u\<rparr> | None \<Rightarrow> s) in
      s\<lparr>se_req_headers := hs, se_req_trailers := ts, se_matched_rules := rules\<rparr>)"

definition response_update :: "u16 option \<Rightarrow> headers \<Rightarrow> headers \<Rightarrow> session \<Rightarrow> session" where
  "response_update status hs ts s = s\<lparr>se_status := status, se_res_headers := hs, se_res_trailers := ts\<rparr>"

definition body_chunk_update :: "nat \<Rightarrow> body_direction \<Rightarrow> string \<Rightarrow> nat \<Rightarrow> session \<Rightarrow> session" where
  "body_chunk_update body_limit direction data observed s =
     (case direction of
        BodyRequest \<Rightarrow> s\<lparr>se_request_bytes := saturating_add (se_request_bytes s) observed,
                         se_req_body_head := append_preview (se_req_body_head s) data body_limit\<rparr>
      | BodyResponse \<Rightarrow> s\<lparr>se_response_bytes := saturating_add (se_response_bytes s) observed,
                          se_res_body_head := append_preview (se_res_body_head s) data body_limit\<rparr>)"

definition body_snapshot_update :: "nat \<Rightarrow> body_direction \<Rightarrow> string \<Rightarrow> nat \<Rightarrow> session \<Rightarrow> session" where
  "body_snapshot_update body_limit direction data observed s =
     (case direction of
        BodyRequest \<Rightarrow> s\<lparr>se_request_bytes := observed, se_req_body_head := append_preview [] data body_limit\<rparr>
      | BodyResponse \<Rightarrow> s\<lparr>se_response_bytes := observed, se_res_body_head := append_preview [] data body_limit\<rparr>)"

definition end_update :: "end_info \<Rightarrow> session \<Rightarrow> session" where
  "end_update info s =
     s\<lparr>se_kind := ei_kind info, se_duration_ms := ei_duration_ms info, se_pool_wait_ms := ei_pool_wait_ms info,
       se_dns_ms := ei_dns_ms info, se_connect_ms := ei_connect_ms info, se_ttfb_ms := ei_ttfb_ms info,
       se_request_send_ms := ei_request_send_ms info, se_response_receive_ms := ei_response_receive_ms info,
       se_upstream := ei_upstream info, se_flags := ei_flags info, se_error := ei_error info\<rparr>"

fun apply_now :: "alloc \<Rightarrow> nat \<Rightarrow> trace_event \<Rightarrow> pending_sessions \<Rightarrow> session option \<times> pending_sessions" where
  "apply_now A now (EvStart i start) p = (None, pending_start A now i start p)"
| "apply_now A now (EvRequest i method url hs ts rules) p =
     (None, pending_update A now i (request_update method url hs ts rules) p)"
| "apply_now A now (EvResponse i status hs ts) p =
     (None, pending_update A now i (response_update status hs ts) p)"
| "apply_now A now (EvBodyChunk i direction data observed) p =
     (None, pending_update A now i (body_chunk_update (pn_body_limit p) direction data observed) p)"
| "apply_now A now (EvBodySnapshot i direction data observed) p =
     (None, pending_update A now i (body_snapshot_update (pn_body_limit p) direction data observed) p)"
| "apply_now A now (EvFrame i f) p =
     (None, pending_update A now i (\<lambda>s. s\<lparr>se_frames := se_frames s @ [f]\<rparr>) p)"
| "apply_now A now (EvTls i r) p =
     (None, pending_update A now i (\<lambda>s. s\<lparr>se_tls := se_tls s @ [r]\<rparr>) p)"
| "apply_now A now (EvEnd i info) p =
     (case map_of (pn_sessions p) i of
        None \<Rightarrow> (None, orphaned p)
      | Some e \<Rightarrow> (Some (end_update info (pe_session e)), pending_remove A i (pe_session e) p))"
| "apply_now A now (EvAbort i) p = (None, abort_for_budget A i p)"

definition pending_apply ::
  "alloc \<Rightarrow> nat \<Rightarrow> trace_event \<Rightarrow> pending_sessions \<Rightarrow> session option \<times> pending_sessions" where
  "pending_apply A now e p = apply_now A now e (expire_stale A now p)"

definition pending_clear :: "pending_sessions \<Rightarrow> pending_sessions" where
  "pending_clear p = p\<lparr>pn_sessions := [], pn_bytes := 0\<rparr>"

section \<open>Exact accounting\<close>

text \<open>Weights of association lists with distinct keys: one key against the others.\<close>

definition alist_weight :: "('v \<Rightarrow> nat) \<Rightarrow> ('k \<times> 'v) list \<Rightarrow> nat" where
  "alist_weight w al = sum_list (map (\<lambda>(_, v). w v) al)"

definition weight_at :: "('v \<Rightarrow> nat) \<Rightarrow> 'k \<Rightarrow> ('k \<times> 'v) list \<Rightarrow> nat" where
  "weight_at w k al = (case map_of al k of Some v \<Rightarrow> w v | None \<Rightarrow> 0)"

lemma alist_weight_split:
  "distinct (map fst al) \<Longrightarrow> alist_weight w al = weight_at w k al + alist_weight w (AList.delete k al)"
proof (induction al)
  case (Cons kv al)
  obtain k' v where kv: "kv = (k', v)" by fastforce
  show ?case
  proof (cases "k' = k")
    case True
    with Cons.prems kv have "k \<notin> fst ` set al" by simp
    then have "AList.delete k al = al" "map_of al k = None"
      by (simp_all add: map_of_eq_None_iff)
    with True kv show ?thesis by (simp add: alist_weight_def weight_at_def AList.delete_eq)
  next
    case False
    with Cons kv show ?thesis by (simp add: alist_weight_def weight_at_def AList.delete_eq)
  qed
qed (simp add: alist_weight_def weight_at_def)

lemma alist_weight_delete:
  assumes "distinct (map fst al)"
  shows "alist_weight w (AList.delete k al) = alist_weight w al - weight_at w k al"
    and "weight_at w k al \<le> alist_weight w al"
  using alist_weight_split [OF assms, of w k] by simp_all

lemma alist_weight_update:
  assumes "distinct (map fst al)"
  shows "alist_weight w (AList.update k v al) = alist_weight w al - weight_at w k al + w v"
proof -
  have "alist_weight w (AList.update k v al) =
      weight_at w k (AList.update k v al) + alist_weight w (AList.delete k (AList.update k v al))"
    by (rule alist_weight_split) (simp add: distinct_update assms)
  also have "\<dots> = w v + alist_weight w (AList.delete k al)"
    by (simp add: weight_at_def update_conv AList.delete_update_same)
  finally show ?thesis by (simp add: alist_weight_delete [OF assms])
qed

lemma alist_weight_partition:
  "alist_weight w (filter P al) + alist_weight w (filter (\<lambda>x. \<not> P x) al) = alist_weight w al"
  by (induction al) (auto simp: alist_weight_def)

definition entry_bytes :: "alloc \<Rightarrow> pending_session \<Rightarrow> nat" where
  "entry_bytes A e = estimate_session_bytes A (pe_session e)"

definition pending_total :: "alloc \<Rightarrow> pending_sessions \<Rightarrow> nat" where
  "pending_total A p = alist_weight (entry_bytes A) (pn_sessions p)"

definition pend_inv :: "alloc \<Rightarrow> pending_sessions \<Rightarrow> bool" where
  "pend_inv A p \<longleftrightarrow>
     distinct (map fst (pn_sessions p)) \<and> pn_bytes p = pending_total A p \<and> pn_bytes p \<le> USIZE_MAX \<and>
     (\<forall>i e. map_of (pn_sessions p) i = Some e \<longrightarrow> se_id (pe_session e) = i)"

text \<open>What the sessions other than \<open>i\<close> weigh.\<close>

definition others :: "alloc \<Rightarrow> nat \<Rightarrow> pending_sessions \<Rightarrow> nat" where
  "others A i p = alist_weight (entry_bytes A) (AList.delete i (pn_sessions p))"

lemma pend_inv_new: "pend_inv A (pending_new now limit)"
  by (simp add: pend_inv_def pending_new_def pending_total_def alist_weight_def)

lemma pend_inv_clear: "pend_inv A p \<Longrightarrow> pend_inv A (pending_clear p)"
  by (simp add: pend_inv_def pending_clear_def pending_total_def alist_weight_def)

lemma saturating_foldl:
  "n + sum_list (map f xs) \<le> USIZE_MAX \<Longrightarrow>
     foldl (\<lambda>n x. saturating_add n (f x)) n xs = n + sum_list (map f xs)"
  by (induction xs arbitrary: n) (auto simp: saturating_add_def)

lemma expire_stale_inv:
  assumes "pend_inv A p"
  shows "pend_inv A (expire_stale A now p) \<and> others A i (expire_stale A now p) \<le> others A i p \<and>
    pending_total A (expire_stale A now p) \<le> pending_total A p \<and>
    pn_body_limit (expire_stale A now p) = pn_body_limit p"
proof (cases "now - pn_last_cleanup p < CLEANUP_INTERVAL")
  case True
  with assms show ?thesis by (simp add: expire_stale_def)
next
  case False
  let ?fresh = "\<lambda>(_, e). now - pe_touched e < PENDING_TTL"
  let ?w = "alist_weight (entry_bytes A)"
  let ?kept = "filter ?fresh (pn_sessions p)" and ?gone = "filter (\<lambda>x. \<not> ?fresh x) (pn_sessions p)"
  have part: "?w ?kept + ?w ?gone = pending_total A p"
    unfolding pending_total_def by (rule alist_weight_partition)
  have "foldl (\<lambda>n x. saturating_add n ((\<lambda>(_, e). entry_bytes A e) x)) 0 ?gone = ?w ?gone"
    using part assms unfolding alist_weight_def by (subst saturating_foldl) (auto simp: pend_inv_def)
  then have e: "expire_stale A now p = p\<lparr>pn_last_cleanup := now, pn_sessions := ?kept,
      pn_bytes := pn_bytes p - ?w ?gone,
      pn_incomplete := saturating_add (pn_incomplete p) (length (pn_sessions p) - length ?kept)\<rparr>"
    using False by (simp add: expire_stale_def Let_def entry_bytes_def case_prod_unfold)
  have "AList.delete i ?kept = filter ?fresh (AList.delete i (pn_sessions p))"
    by (simp add: AList.delete_eq conj_commute case_prod_unfold)
  then have "others A i (expire_stale A now p) \<le> others A i p"
    using alist_weight_partition [of "entry_bytes A" ?fresh "AList.delete i (pn_sessions p)"]
    by (simp add: e others_def)
  moreover have "pend_inv A (expire_stale A now p)"
    using assms part
    by (auto simp: e pend_inv_def pending_total_def distinct_map_filter map_of_eq_Some_iff distinct_map_filter)
  ultimately show ?thesis using part by (simp add: e pending_total_def)
qed

text \<open>An event for session \<open>i\<close> changes nothing of the others; the total stays exact while it is addressable.\<close>

definition step_ok :: "alloc \<Rightarrow> nat \<Rightarrow> pending_sessions \<Rightarrow> pending_sessions \<Rightarrow> bool" where
  "step_ok A i p p' \<longleftrightarrow>
     others A i p' = others A i p \<and> pn_body_limit p' = pn_body_limit p \<and>
     (pending_total A p' \<le> USIZE_MAX \<longrightarrow> pend_inv A p')"

lemma others_total: "pend_inv A p \<Longrightarrow> others A i p \<le> pending_total A p"
  using alist_weight_split [of "pn_sessions p" "entry_bytes A" i] by (simp add: pend_inv_def others_def pending_total_def)

lemma orphaned_ok: "pend_inv A p \<Longrightarrow> step_ok A i p (orphaned p)"
  by (simp add: step_ok_def orphaned_def others_def pend_inv_def pending_total_def)

lemma stored_ok:
  assumes "pend_inv A p" "se_id s = i"
    "pn_sessions p' = AList.update i \<lparr>pe_session = s, pe_touched = now\<rparr> (pn_sessions p)"
    "pn_bytes p' = saturating_add (pn_bytes p - weight_at (entry_bytes A) i (pn_sessions p)) (estimate_session_bytes A s)"
    "pn_body_limit p' = pn_body_limit p"
  shows "step_ok A i p p'"
proof -
  have d: "distinct (map fst (pn_sessions p))" using assms(1) by (simp add: pend_inv_def)
  have total: "pending_total A p' = pn_bytes p - weight_at (entry_bytes A) i (pn_sessions p) + estimate_session_bytes A s"
    using assms(1) by (simp add: pending_total_def assms(3) alist_weight_update [OF d] entry_bytes_def pend_inv_def)
  have "pend_inv A p'" if "pending_total A p' \<le> USIZE_MAX"
    using that assms(1,2) d total
    by (simp add: pend_inv_def assms(3,4) distinct_update saturating_add_def update_conv')
  then show ?thesis by (simp add: step_ok_def others_def assms(3,5) AList.delete_update_same)
qed

lemma pending_update_ok:
  assumes "pend_inv A p" "\<And>s. se_id (f s) = se_id s"
  shows "step_ok A i p (pending_update A now i f p)"
proof (cases "map_of (pn_sessions p) i")
  case None
  with orphaned_ok [OF assms(1)] show ?thesis by (simp add: pending_update_def)
next
  case (Some e)
  with assms have "se_id (f (pe_session e)) = i" by (simp add: pend_inv_def)
  from stored_ok [OF assms(1) this] Some show ?thesis
    by (simp add: pending_update_def Let_def weight_at_def entry_bytes_def)
qed

lemma pending_start_ok: "pend_inv A p \<Longrightarrow> step_ok A i p (pending_start A now i start p)"
  by (rule stored_ok [where s = "(session_new now (ss_kind start) (ss_method start) (ss_url start) (ss_client start))
        \<lparr>se_id := i, se_started_ms := ss_started_ms start\<rparr>" and now = now])
     (simp_all add: pending_start_def Let_def weight_at_def entry_bytes_def split: option.split)

lemma pending_remove_ok:
  assumes "pend_inv A p" "map_of (pn_sessions p) i = Some e"
  shows "step_ok A i p (pending_remove A i (pe_session e) p) \<and>
    pending_total A (pending_remove A i (pe_session e) p) = others A i p"
proof -
  have d: "distinct (map fst (pn_sessions p))" using assms(1) by (simp add: pend_inv_def)
  have "weight_at (entry_bytes A) i (pn_sessions p) = estimate_session_bytes A (pe_session e)"
    by (simp add: weight_at_def assms(2) entry_bytes_def)
  then have "alist_weight (entry_bytes A) (AList.delete i (pn_sessions p)) =
      pending_total A p - estimate_session_bytes A (pe_session e)"
    using alist_weight_delete(1) [OF d] by (simp add: pending_total_def)
  with assms(1) d show ?thesis
    by (auto simp: step_ok_def pend_inv_def pending_remove_def others_def pending_total_def distinct_delete
        AList.delete_idem delete_conv' split: if_splits)
qed

lemma abort_for_budget_ok:
  assumes "pend_inv A p"
  shows "step_ok A i p (abort_for_budget A i p) \<and> pending_total A (abort_for_budget A i p) = others A i p"
proof (cases "map_of (pn_sessions p) i")
  case None
  then have "AList.delete i (pn_sessions p) = pn_sessions p" by (simp add: map_of_eq_None_iff)
  with None assms show ?thesis by (simp add: abort_for_budget_def step_ok_def others_def pending_total_def)
next
  case (Some e)
  from pending_remove_ok [OF assms Some] Some show ?thesis
    by (simp add: abort_for_budget_def step_ok_def others_def pend_inv_def pending_total_def)
qed

lemma update_ids [simp]:
  "se_id (request_update method url hs ts rules s) = se_id s"
  "se_id (response_update status hs ts s) = se_id s"
  "se_id (body_chunk_update limit direction data observed s) = se_id s"
  "se_id (body_snapshot_update limit direction data observed s) = se_id s"
  "se_id (end_update info s) = se_id s"
  by (simp_all add: request_update_def response_update_def body_chunk_update_def body_snapshot_update_def
      end_update_def Let_def split: option.split body_direction.split)

lemma apply_now_ok:
  assumes "pend_inv A p"
  shows "step_ok A (session_id e) p (snd (apply_now A now e p))"
proof (cases e)
  case (EvEnd i info)
  with pending_remove_ok [OF assms, of i] orphaned_ok [OF assms, of i] show ?thesis
    by (cases "map_of (pn_sessions p) i") auto
qed (use assms in \<open>simp_all add: pending_start_ok pending_update_ok abort_for_budget_ok\<close>)

lemma pending_apply_ok:
  assumes "pend_inv A p" "pending_total A (snd (pending_apply A now e p)) \<le> USIZE_MAX"
  shows "pend_inv A (snd (pending_apply A now e p)) \<and>
    others A (session_id e) (snd (pending_apply A now e p)) \<le> pending_total A p \<and>
    pn_body_limit (snd (pending_apply A now e p)) = pn_body_limit p"
proof -
  let ?p = "expire_stale A now p"
  have x: "pend_inv A ?p" "others A (session_id e) ?p \<le> others A (session_id e) p" "pn_body_limit ?p = pn_body_limit p"
    using expire_stale_inv [OF assms(1)] by auto
  from apply_now_ok [OF x(1), of e now] x others_total [OF assms(1), of "session_id e"] assms(2) show ?thesis
    by (simp add: step_ok_def pending_apply_def)
qed

section \<open>Replaying a session\<close>

text \<open>The events of one command, in order: the sessions they complete and the state they leave.\<close>

fun pending_run ::
  "alloc \<Rightarrow> nat \<Rightarrow> trace_event list \<Rightarrow> pending_sessions \<Rightarrow> session list \<times> pending_sessions" where
  "pending_run A now [] p = ([], p)"
| "pending_run A now (e # es) p =
     (let (completed, p) = pending_apply A now e p; (rest, p) = pending_run A now es p in
      (case completed of None \<Rightarrow> rest | Some s \<Rightarrow> s # rest, p))"

lemma pending_run_append:
  "pending_run A now (es @ fs) p =
     (let (xs, p) = pending_run A now es p; (ys, p) = pending_run A now fs p in (xs @ ys, p))"
  by (induction es arbitrary: p) (auto simp: Let_def split: prod.split option.split)

text \<open>Session \<open>s\<close> is being assembled under \<open>i\<close>, beside the other sessions of \<open>q\<close>.\<close>

definition assembling :: "nat \<Rightarrow> nat \<Rightarrow> pending_sessions \<Rightarrow> session \<Rightarrow> pending_sessions \<Rightarrow> bool" where
  "assembling now i q s p \<longleftrightarrow>
     now - pn_last_cleanup p < CLEANUP_INTERVAL \<and> pn_body_limit p = pn_body_limit q \<and>
     map_of (pn_sessions p) i = Some \<lparr>pe_session = s, pe_touched = now\<rparr> \<and>
     AList.delete i (pn_sessions p) = AList.delete i (pn_sessions q)"

lemma expire_clean: "now - pn_last_cleanup p < CLEANUP_INTERVAL \<Longrightarrow> expire_stale A now p = p"
  by (simp add: expire_stale_def)

lemma assembling_start:
  assumes "s = (session_new now (ss_kind start) (ss_method start) (ss_url start) (ss_client start))
    \<lparr>se_id := i, se_started_ms := ss_started_ms start\<rparr>"
  obtains p' where "pending_apply A now (EvStart i start) p = (None, p')" "assembling now i (expire_stale A now p) s p'"
proof -
  have "now - pn_last_cleanup (expire_stale A now p) < CLEANUP_INTERVAL"
    by (simp add: expire_stale_def Let_def CLEANUP_INTERVAL_def)
  with assms that show thesis
    by (simp add: pending_apply_def pending_start_def Let_def assembling_def update_conv' AList.delete_update_same
        split: option.split)
qed

lemma assembling_update:
  assumes "assembling now i q s p"
  shows "assembling now i q (f s) (pending_update A now i f p)"
  using assms by (simp add: assembling_def pending_update_def Let_def update_conv' AList.delete_update_same)

text \<open>What an event that neither opens nor closes a session does to its session.\<close>

fun event_update :: "nat \<Rightarrow> trace_event \<Rightarrow> session \<Rightarrow> session" where
  "event_update limit (EvRequest i method url hs ts rules) = request_update method url hs ts rules"
| "event_update limit (EvResponse i status hs ts) = response_update status hs ts"
| "event_update limit (EvBodyChunk i direction data observed) = body_chunk_update limit direction data observed"
| "event_update limit (EvBodySnapshot i direction data observed) = body_snapshot_update limit direction data observed"
| "event_update limit (EvFrame i f) = (\<lambda>s. s\<lparr>se_frames := se_frames s @ [f]\<rparr>)"
| "event_update limit (EvTls i r) = (\<lambda>s. s\<lparr>se_tls := se_tls s @ [r]\<rparr>)"
| "event_update limit _ = id"

fun is_update :: "trace_event \<Rightarrow> bool" where
  "is_update (EvStart _ _) = False"
| "is_update (EvEnd _ _) = False"
| "is_update (EvAbort _) = False"
| "is_update _ = True"

lemma apply_now_update:
  "is_update e \<Longrightarrow> apply_now A now e p = (None, pending_update A now (session_id e) (event_update (pn_body_limit p) e) p)"
  by (cases e) simp_all

lemma assembling_run:
  assumes "assembling now i q s p" "list_all (\<lambda>e. is_update e \<and> session_id e = i) es"
  obtains p' where "pending_run A now es p = ([], p')" "assembling now i q (fold (event_update (pn_body_limit q)) es s) p'"
  using assms
proof (induction es arbitrary: s p thesis)
  case (Cons e es)
  let ?p = "pending_update A now i (event_update (pn_body_limit q) e) p"
  from Cons.prems(2,3) have "pending_apply A now e p = (None, ?p)"
    by (simp add: pending_apply_def expire_clean apply_now_update assembling_def)
  moreover have "assembling now i q (event_update (pn_body_limit q) e s) ?p"
    using Cons.prems(2) by (rule assembling_update)
  from Cons.IH [OF _ this] Cons.prems(3) obtain p' where
    "pending_run A now es ?p = ([], p')"
    "assembling now i q (fold (event_update (pn_body_limit q)) es (event_update (pn_body_limit q) e s)) p'" by auto
  ultimately show ?case by (intro Cons.prems(1) [of p']) simp_all
qed simp

lemma assembling_end:
  assumes "assembling now i q s p"
  obtains p' where "pending_apply A now (EvEnd i info) p = (Some (end_update info s), p')"
    "pn_sessions p' = AList.delete i (pn_sessions q)" "pn_body_limit p' = pn_body_limit q"
  using that assms by (simp add: pending_apply_def expire_clean assembling_def pending_remove_def)

lemma fold_frames: "fold (event_update limit) (map (EvFrame i) fs) s = s\<lparr>se_frames := se_frames s @ fs\<rparr>"
  by (induction fs arbitrary: s) simp_all

lemma fold_tls: "fold (event_update limit) (map (EvTls i) fs) s = s\<lparr>se_tls := se_tls s @ fs\<rparr>"
  by (induction fs arbitrary: s) simp_all

definition truncate_bodies :: "nat \<Rightarrow> session \<Rightarrow> session" where
  "truncate_bodies limit s =
     s\<lparr>se_req_body_head := take limit (se_req_body_head s), se_res_body_head := take limit (se_res_body_head s)\<rparr>"

text \<open>The events between the first and the last one of a session.\<close>

definition middle_events :: "session \<Rightarrow> trace_event list" where
  "middle_events s = butlast (continuation_from_session s)"

lemma middle_events_eq:
  "middle_events s =
     EvRequest (se_id s) None None (se_req_headers s) (se_req_trailers s) (se_matched_rules s) #
      (if 0 < se_request_bytes s \<or> se_req_body_head s \<noteq> []
       then [EvBodySnapshot (se_id s) BodyRequest (se_req_body_head s) (se_request_bytes s)] else []) @
      [EvResponse (se_id s) (se_status s) (se_res_headers s) (se_res_trailers s)] @
      (if 0 < se_response_bytes s \<or> se_res_body_head s \<noteq> []
       then [EvBodySnapshot (se_id s) BodyResponse (se_res_body_head s) (se_response_bytes s)] else []) @
      map (EvFrame (se_id s)) (se_frames s) @ map (EvTls (se_id s)) (se_tls s)"
  by (simp add: middle_events_def continuation_from_session_def events_from_session_def Let_def butlast_append)

lemma events_from_session_parts:
  "events_from_session s =
     EvStart (se_id s) (start_from_session s) # middle_events s @ [EvEnd (se_id s) (end_from_session s)]"
  "continuation_from_session s = middle_events s @ [EvEnd (se_id s) (end_from_session s)]"
  by (simp_all add: middle_events_eq continuation_from_session_def events_from_session_def Let_def)

lemma middle_events_update: "list_all (\<lambda>e. is_update e \<and> session_id e = se_id s) (middle_events s)"
  by (auto simp: middle_events_eq list_all_iff)

lemma take_min_length: "take (min (length xs) n) xs = take n xs"
  by (simp add: min_def)

lemma replayed_session:
  "end_update (end_from_session s) (fold (event_update limit) (middle_events s)
     ((session_new now (se_kind s) (se_method s) (se_url s) (se_client s))
        \<lparr>se_id := se_id s, se_started_ms := se_started_ms s\<rparr>)) = truncate_bodies limit s"
  by (cases s)
     (simp add: middle_events_eq fold_frames fold_tls truncate_bodies_def session_new_def request_update_def
        response_update_def body_snapshot_update_def end_update_def end_from_session_def append_preview_def
        take_min_length Let_def)

text \<open>
  Replaying the events of a session assembles that session, with its body previews cut to the
  limit, and leaves the other pending sessions as they were.
\<close>

lemma replay_session:
  obtains p' where "pending_run A now (events_from_session s) p = ([truncate_bodies (pn_body_limit p) s], p')"
    "pn_sessions p' = AList.delete (se_id s) (pn_sessions (expire_stale A now p))"
    "pn_body_limit p' = pn_body_limit p"
proof -
  let ?q = "expire_stale A now p" and ?i = "se_id s"
  let ?s = "(session_new now (se_kind s) (se_method s) (se_url s) (se_client s))
    \<lparr>se_id := ?i, se_started_ms := se_started_ms s\<rparr>"
  have limit: "pn_body_limit ?q = pn_body_limit p" by (simp add: expire_stale_def Let_def)
  obtain p1 where p1: "pending_apply A now (EvStart ?i (start_from_session s)) p = (None, p1)" "assembling now ?i ?q ?s p1"
    by (rule assembling_start [OF refl, of A now ?i "start_from_session s" p]) (simp add: start_from_session_def)
  obtain p2 where p2: "pending_run A now (middle_events s) p1 = ([], p2)"
    "assembling now ?i ?q (fold (event_update (pn_body_limit ?q)) (middle_events s) ?s) p2"
    by (rule assembling_run [OF p1(2) middle_events_update])
  obtain p3 where p3: "pending_apply A now (EvEnd ?i (end_from_session s)) p2 = (Some (truncate_bodies (pn_body_limit p) s), p3)"
    "pn_sessions p3 = AList.delete ?i (pn_sessions ?q)" "pn_body_limit p3 = pn_body_limit ?q"
    by (rule assembling_end [OF p2(2), of A "end_from_session s"]) (simp add: replayed_session limit)
  from p1(1) p2(1) p3 limit show thesis
    by (intro that [of p3]) (simp_all add: events_from_session_parts pending_run_append)
qed

end
