(* ===== verification/Rule_Redact.thy ===== *)
theory Rule_Redact
  imports Rule_Syntax
begin

text \<open>
  Redaction of SOCKS credentials in rule texts (\<open>redact.rs\<close>), which the explain output and the
  trace serializer apply before a rule leaves the process.
\<close>

definition authority_stop :: "string \<Rightarrow> bool" where
  "authority_stop ch \<longleftrightarrow> is_whitespace ch \<or> ch \<in> set ['')'', '','', '']'']"

text \<open>\<open>str::find\<close> with a predicate on characters: the byte offset of the first one that satisfies it.\<close>

fun find_ch :: "(string \<Rightarrow> bool) \<Rightarrow> string list \<Rightarrow> nat option" where
  "find_ch P [] = None"
| "find_ch P (ch # chs) = (if P ch then Some 0 else map_option ((+) (length ch)) (find_ch P chs))"

lemma find_at_position:
  assumes "find_char P (drop start out) = Some i"
  shows "start + i < length out"
  using find_char_SomeD [OF assms] by (auto simp: less_diff_conv add.commute)

function redact_loop :: "string \<Rightarrow> string \<Rightarrow> nat \<Rightarrow> string" where
  "redact_loop scheme out search_from =
     (case find_str scheme (drop search_from out) of
        None \<Rightarrow> out
      | Some rel \<Rightarrow>
          (let start = search_from + rel + length scheme in
           case find_char (\<lambda>c. c = CHR ''@'') (drop start out) of
             None \<Rightarrow> out
           | Some at_rel \<Rightarrow>
               (let at = start + at_rel;
                    credentials = take at_rel (drop start out);
                    authority_end = (case find_ch authority_stop (chars (drop start out)) of
                        Some i \<Rightarrow> start + i | None \<Rightarrow> length out) in
                if at < authority_end \<and> CHR '':'' \<in> set credentials \<and> CHR ''/'' \<notin> set credentials
                then redact_loop scheme (take start out @ ''auth'' @ drop at out) (start + length ''auth@'')
                else redact_loop scheme out (at + 1))))"
  by pat_completeness auto
termination
proof (relation "measure (\<lambda>(_, out, search_from). length out - search_from)", goal_cases)
  case (2 scheme out search_from rel start at_rel at credentials authority_end)
  from find_at_position [OF 2(3)] 2(2,4) have "at < length out" "search_from \<le> at" "start \<le> at" by simp_all
  then show ?case by simp
next
  case (3 scheme out search_from rel start at_rel at credentials authority_end)
  from find_at_position [OF 3(3)] 3(2,4) have "at < length out" "search_from \<le> at" by simp_all
  then show ?case by simp
qed simp

declare redact_loop.simps [simp del]

definition redact_secrets :: "string \<Rightarrow> string" where
  "redact_secrets input = foldl (\<lambda>out scheme. redact_loop scheme out 0) input [''socks5://'', ''socks://'']"

section \<open>What is redacted\<close>

lemma redact_loop_shift: "redact_loop scheme (a @ b) (length a) = a @ redact_loop scheme b 0"
proof (induction "length b" arbitrary: a b rule: less_induct)
  case less
  show ?case
  proof (cases "find_str scheme b")
    case None
    then show ?thesis by (simp add: redact_loop.simps [of scheme b] redact_loop.simps [of scheme "a @ b"])
  next
    case (Some rel)
    define start where "start = rel + length scheme"
    have drop: "drop (length a + rel + length scheme) (a @ b) = drop start b" by (simp add: start_def add.assoc)
    show ?thesis
    proof (cases "find_char (\<lambda>c. c = CHR ''@'') (drop start b)")
      case None
      with Some show ?thesis
        by (simp add: redact_loop.simps [of scheme b] redact_loop.simps [of scheme "a @ b"] drop start_def [symmetric])
    next
      case at: (Some at_rel)
      define pos where "pos = start + at_rel"
      have pos: "pos < length b" using find_at_position [OF at] by (simp add: pos_def)
      let ?cred = "take at_rel (drop start b)"
      let ?stop = "\<lambda>n base. case find_ch authority_stop (chars (drop start b)) of Some i \<Rightarrow> base + i | None \<Rightarrow> n"
      have bound: "length a + start + at_rel < ?stop (length (a @ b)) (length a + start) \<longleftrightarrow>
          start + at_rel < ?stop (length b) start"
        by (auto split: option.split)
      have keep: "redact_loop scheme (a @ b) (length a + pos + 1) = a @ redact_loop scheme b (pos + 1)"
      proof -
        have "redact_loop scheme (a @ b) (length (a @ take (pos + 1) b)) = (a @ take (pos + 1) b) @ redact_loop scheme (drop (pos + 1) b) 0"
          using less [of "drop (pos + 1) b" "a @ take (pos + 1) b"] pos by simp
        moreover have "redact_loop scheme b (length (take (pos + 1) b)) = take (pos + 1) b @ redact_loop scheme (drop (pos + 1) b) 0"
          using less [of "drop (pos + 1) b" "take (pos + 1) b"] pos by simp
        moreover have "length (take (pos + 1) b) = pos + 1" using pos by simp
        ultimately show ?thesis by (simp only: length_append append_assoc add.assoc)
      qed
      let ?out = "take start b @ ''auth'' @ drop pos b"
      have auth: "redact_loop scheme (a @ ?out) (length a + start + 5) = a @ redact_loop scheme ?out (start + 5)"
      proof -
        have "b ! pos = CHR ''@''" using find_char_SomeD [OF at] pos by (simp add: pos_def)
        then have d: "drop pos b = CHR ''@'' # drop (pos + 1) b"
          using Cons_nth_drop_Suc [OF pos] by simp
        let ?pre = "take start b @ ''auth@''"
        have o: "?out = ?pre @ drop (pos + 1) b" by (simp add: d)
        have l: "length (take start b) + length ''auth@'' = start + 5" using pos by (simp add: pos_def)
        have "redact_loop scheme ((a @ ?pre) @ drop (pos + 1) b) (length (a @ ?pre)) = (a @ ?pre) @ redact_loop scheme (drop (pos + 1) b) 0"
          using less [of "drop (pos + 1) b" "a @ ?pre"] pos by simp
        moreover have "redact_loop scheme (?pre @ drop (pos + 1) b) (length ?pre) = ?pre @ redact_loop scheme (drop (pos + 1) b) 0"
          using less [of "drop (pos + 1) b" ?pre] pos by simp
        ultimately show ?thesis unfolding o length_append add.assoc l by (simp only: append_assoc)
      qed
      define cond where "cond \<longleftrightarrow> pos < ?stop (length b) start \<and> CHR '':'' \<in> set ?cred \<and> CHR ''/'' \<notin> set ?cred"
      have "redact_loop scheme b 0 = (if cond then redact_loop scheme ?out (start + 5) else redact_loop scheme b (pos + 1))"
        unfolding cond_def
        by (subst redact_loop.simps) (simp add: Some at start_def [symmetric] pos_def [symmetric] Let_def eval_nat_numeral)
      moreover have "redact_loop scheme (a @ b) (length a) =
          (if cond then redact_loop scheme (a @ ?out) (length a + start + 5) else redact_loop scheme (a @ b) (length a + pos + 1))"
      proof -
        have st: "length a + rel + length scheme = length a + start" by (simp add: start_def)
        show ?thesis
          using bound unfolding cond_def pos_def
          by (subst redact_loop.simps) (simp add: Some st at Let_def eval_nat_numeral, simp add: add.assoc)
      qed
      ultimately show ?thesis using keep auth by simp
    qed
  qed
qed

text \<open>
  Credentials in the plain position are replaced: for the first SOCKS authority of a text,
  whose credentials hold a colon and no slash, at sign or end of an authority, only \<open>auth\<close>
  remains, and the rest of the text is redacted in turn.
\<close>

definition credential_char :: "char \<Rightarrow> bool" where
  "credential_char c \<longleftrightarrow> byte c < 128 \<and> \<not> authority_stop [c] \<and> c \<noteq> CHR ''@'' \<and> c \<noteq> CHR ''/''"

lemma find_char_first_in: "x \<notin> set cred \<Longrightarrow> find_char (\<lambda>c. c = x) (cred @ x # rest) = Some (length cred)"
  by (induction cred) auto

lemma find_ch_ascii:
  "byte c < 128 \<Longrightarrow> \<not> authority_stop [c] \<Longrightarrow>
     find_ch authority_stop (chars (c # s)) = map_option Suc (find_ch authority_stop (chars s))"
  by (subst chars.simps) (cases "find_ch authority_stop (chars s)"; simp add: utf8_width_def Let_def)

lemma find_ch_credentials:
  "list_all credential_char cred \<Longrightarrow>
     find_ch authority_stop (chars (cred @ s)) = map_option ((+) (length cred)) (find_ch authority_stop (chars s))"
  by (induction cred; cases "find_ch authority_stop (chars s)")
     (simp_all add: find_ch_ascii credential_char_def)

lemma redact_credentials:
  assumes "find_str scheme (pre @ scheme @ cred @ CHR ''@'' # rest) = Some (length pre)"
    and cred: "list_all credential_char cred" and "CHR '':'' \<in> set cred"
  shows "redact_loop scheme (pre @ scheme @ cred @ CHR ''@'' # rest) 0 =
    pre @ scheme @ ''auth@'' @ redact_loop scheme rest 0"
proof -
  let ?out = "pre @ scheme @ cred @ CHR ''@'' # rest"
  have c: "CHR ''@'' \<notin> set cred" "CHR ''/'' \<notin> set cred" using cred by (auto simp: list_all_iff credential_char_def)
  have "\<not> authority_stop ''@''" by code_simp
  then have stop: "find_ch authority_stop (chars (cred @ CHR ''@'' # rest)) =
      map_option ((+) (Suc (length cred))) (find_ch authority_stop (chars rest))"
    by (cases "find_ch authority_stop (chars rest)")
       (simp_all add: find_ch_credentials [OF cred] find_ch_ascii byte_def)
  have drop: "drop (length pre + length scheme) ?out = cred @ CHR ''@'' # rest" by simp
  have "redact_loop scheme ?out 0 =
      redact_loop scheme ((pre @ scheme @ ''auth@'') @ rest) (length (pre @ scheme @ ''auth@''))"
    using assms(3) c
    by (subst redact_loop.simps)
       (simp add: assms(1) drop find_char_first_in stop Let_def add.assoc split: option.split)
  then show ?thesis unfolding redact_loop_shift by (simp only: append_assoc)
qed

text \<open>
  Redaction misses credentials. The end of an authority is looked for only after the first
  at sign that follows, so when a SOCKS URL without credentials stands before one with
  credentials, the search skips past the credentials and they stay in the text; and the
  credentials end at the first at sign although the proxy reads them up to the last one, so
  the tail of a password with an at sign stays too.
\<close>

theorem redact_leaks_credentials:
  "redact_secrets ''socks5://h1 socks5://u:secret@h2'' = ''socks5://h1 socks5://u:secret@h2'' \<and>
   redact_secrets ''socks5://u:p@ss@h'' = ''socks5://auth@ss@h''"
  by code_simp

end
