(* ===== verification/Trace_Serialize.thy ===== *)
theory Trace_Serialize
  imports Trace_Model Rule_Redact Template_Metadata
begin

text \<open>
  The spill line of a session (\<open>rsproxy-trace/src/serialize.rs\<close>): one JSON object, built by
  concatenation, with rule texts redacted. Every text in it is escaped, so a session is
  exactly one line of the spill file whatever it holds.
\<close>

section \<open>Escaping\<close>

definition hex4 :: "nat \<Rightarrow> string" where
  "hex4 n = map hex_digit [n div 4096 mod 16, n div 256 mod 16, n div 16 mod 16, n mod 16]"

text \<open>The code point of a control character given by its UTF-8 bytes.\<close>

definition control_code :: "string \<Rightarrow> nat" where
  "control_code ch = (if ch = [] then 0 else byte (last ch))"

definition json_char :: "string \<Rightarrow> string" where
  "json_char ch =
     (if ch = [dquote] then [backslash, dquote]
      else if ch = [backslash] then [backslash, backslash]
      else if ch = [CHR 0x0A] then [backslash, CHR ''n'']
      else if ch = [CHR 0x0D] then [backslash, CHR ''r'']
      else if ch = [CHR 0x09] then [backslash, CHR ''t'']
      else if is_control ch then [backslash, CHR ''u''] @ hex4 (control_code ch)
      else ch)"

definition json_string :: "string \<Rightarrow> string" where
  "json_string input = [dquote] @ concat (map json_char (chars input)) @ [dquote]"

definition hex_lower :: "string \<Rightarrow> string" where
  "hex_lower bytes = concat (map (\<lambda>c. [hex_digit (byte c div 16), hex_digit (byte c mod 16)]) bytes)"

section \<open>Parts of the object\<close>

definition json_list :: "string list \<Rightarrow> string" where
  "json_list xs = ''['' @ join_with '','' xs @ '']''"

definition opt_string :: "string option \<Rightarrow> string" where
  "opt_string v = (case v of Some s \<Rightarrow> json_string s | None \<Rightarrow> ''null'')"

definition opt_u16 :: "u16 option \<Rightarrow> string" where
  "opt_u16 v = (case v of Some n \<Rightarrow> nat_to_string (unat n) | None \<Rightarrow> ''null'')"

definition opt_u64 :: "nat option \<Rightarrow> string" where
  "opt_u64 v = (case v of Some n \<Rightarrow> nat_to_string n | None \<Rightarrow> ''null'')"

definition json_bool :: "bool \<Rightarrow> string" where
  "json_bool b = (if b then ''true'' else ''false'')"

definition kind_name :: "session_kind \<Rightarrow> string" where
  "kind_name k = (case k of KindHttp \<Rightarrow> ''http'' | KindTunnel \<Rightarrow> ''tunnel'' | KindSse \<Rightarrow> ''sse''
     | KindWebSocket \<Rightarrow> ''websocket'')"

text \<open>One member \<open>"name":value\<close>, and an object with its members in order.\<close>

definition json_member :: "string \<Rightarrow> string \<Rightarrow> string" where
  "json_member name v = [dquote] @ name @ [dquote] @ '':'' @ v"

definition json_object :: "string list \<Rightarrow> string" where
  "json_object members = ''{'' @ join_with '','' members @ ''}''"

definition quoted :: "string \<Rightarrow> string" where
  "quoted s = [dquote] @ s @ [dquote]"

definition headers_json :: "headers \<Rightarrow> string" where
  "headers_json hs = json_list (map (\<lambda>(n, v). ''['' @ json_string n @ '','' @ json_string v @ '']'') hs)"

definition frame_data_json :: "frame_record \<Rightarrow> string" where
  "frame_data_json f =
     (case fr_data_encoding f of
        FrameUtf8 \<Rightarrow> json_string (utf8_lossy (fr_data f))
      | FrameHex \<Rightarrow> json_string (hex_lower (fr_data f)))"

definition frame_json :: "frame_record \<Rightarrow> string" where
  "frame_json f =
     json_object
       [json_member ''direction'' (quoted (case fr_direction f of ClientToServer \<Rightarrow> ''c2s'' | ServerToClient \<Rightarrow> ''s2c'')),
        json_member ''at_ms'' (nat_to_string (fr_at_ms f)),
        json_member ''opcode'' (json_string (fr_opcode f)),
        json_member ''fin'' (json_bool (fr_fin f)),
        json_member ''payload_len'' (nat_to_string (fr_payload_len f)),
        json_member ''preview_len'' (nat_to_string (length (fr_data f))),
        json_member ''data_encoding'' (quoted (frame_encoding_name (fr_data_encoding f))),
        json_member ''data'' (frame_data_json f),
        json_member ''truncated'' (json_bool (fr_truncated f))]"

definition tls_json :: "tls_record \<Rightarrow> string" where
  "tls_json r =
     json_object
       [json_member ''phase'' (json_string (tls_phase r)),
        json_member ''host'' (json_string (tls_host r)),
        json_member ''handshake_ms'' (nat_to_string (tls_handshake_ms r)),
        json_member ''peer_certificates'' (nat_to_string (tls_peer_certificates r)),
        json_member ''protocol'' (opt_string (tls_protocol r)),
        json_member ''cipher_suite'' (opt_string (tls_cipher_suite r)),
        json_member ''alpn'' (opt_string (tls_alpn r)),
        json_member ''error'' (opt_string (tls_error r))]"

definition rule_json :: "matched_rule \<Rightarrow> string" where
  "rule_json r =
     json_object
       [json_member ''group'' (json_string (mr_group r)),
        json_member ''line'' (nat_to_string (mr_line r)),
        json_member ''raw'' (json_string (redact_secrets (mr_raw r)))]"

section \<open>The line\<close>

definition spill_session_line :: "session \<Rightarrow> string" where
  "spill_session_line s =
     json_object
       [json_member ''id'' (nat_to_string (se_id s)),
        json_member ''kind'' (quoted (kind_name (se_kind s))),
        json_member ''started_ms'' (nat_to_string (se_started_ms s)),
        json_member ''duration_ms'' (nat_to_string (se_duration_ms s)),
        json_member ''pool_wait_ms'' (nat_to_string (se_pool_wait_ms s)),
        json_member ''dns_ms'' (nat_to_string (se_dns_ms s)),
        json_member ''connect_ms'' (nat_to_string (se_connect_ms s)),
        json_member ''ttfb_ms'' (nat_to_string (se_ttfb_ms s)),
        json_member ''request_send_ms'' (opt_u64 (se_request_send_ms s)),
        json_member ''response_receive_ms'' (opt_u64 (se_response_receive_ms s)),
        json_member ''method'' (json_string (se_method s)),
        json_member ''url'' (json_string (se_url s)),
        json_member ''status'' (opt_u16 (se_status s)),
        json_member ''client'' (json_string (se_client s)),
        json_member ''upstream'' (opt_string (se_upstream s)),
        json_member ''request_bytes'' (nat_to_string (se_request_bytes s)),
        json_member ''response_bytes'' (nat_to_string (se_response_bytes s)),
        json_member ''flags'' (json_list (map json_string (se_flags s))),
        json_member ''rules'' (json_list (map rule_json (se_matched_rules s))),
        json_member ''req_headers'' (headers_json (se_req_headers s)),
        json_member ''req_trailers'' (headers_json (se_req_trailers s)),
        json_member ''req_body_head'' (json_string (utf8_lossy (se_req_body_head s))),
        json_member ''res_headers'' (headers_json (se_res_headers s)),
        json_member ''res_trailers'' (headers_json (se_res_trailers s)),
        json_member ''res_body_head'' (json_string (utf8_lossy (se_res_body_head s))),
        json_member ''frames'' (json_list (map frame_json (se_frames s))),
        json_member ''tls'' (json_list (map tls_json (se_tls s))),
        json_member ''error'' (opt_string (se_error s))]"

end
