(* ===== verification/Trace_Spill.thy ===== *)
theory Trace_Spill
  imports Trace_Serialize "HOL-Library.AList"
begin

text \<open>
  Persistent spill segments (\<open>rsproxy-trace/src/spill.rs\<close> and \<open>spill/\<close>): completed sessions are
  appended as records to numbered data files, each with an index file of offsets and checksums,
  and a verified reader gives the records back.

  The spill directory is a map from file names to contents. Every call into the operating
  system may fail: \<open>dk_fault\<close> says which calls do and with what error, and \<open>dk_torn\<close> how much of
  a failing write reaches the file. The compressor is a parameter. Operations return their
  result beside the state they leave, since the sources keep the changes made before an error.
\<close>

unbundle bit_operations_syntax

section \<open>The disk\<close>

datatype io_error = NotFound | OtherError string

datatype io_call =
    CreateDir
  | ReadDir
  | DirEntry string
  | Metadata string
  | ReadFile string
  | OpenAppend string
  | WriteAll string
  | RemoveFile string
  | OpenRead string

record disk =
  dk_files :: "(string \<times> string) list"
  dk_fault :: "io_call \<Rightarrow> io_error option"
  dk_torn :: "string \<Rightarrow> nat"

record compressor =
  zstd_encode :: "int \<Rightarrow> string \<Rightarrow> io_error + string"
  zstd_decode :: "string \<Rightarrow> io_error + string"

datatype compression = NoCompression | Zstd int

record spill_segment =
  sg_index :: nat
  sg_name :: string
  sg_compression :: compression
  sg_bytes :: nat
  sg_idx_name :: string
  sg_index_bytes :: nat
  sg_records :: nat

record spill_state =
  sp_segment_bytes :: nat
  sp_disk_budget :: nat
  sp_compression :: compression
  sp_next_segment :: nat
  sp_segments :: "spill_segment list"
  sp_bytes_on_disk :: nat
  sp_evicted :: nat
  sp_initialized :: bool

definition spill_new :: "nat \<Rightarrow> nat \<Rightarrow> compression \<Rightarrow> spill_state" where
  "spill_new segment_bytes disk_budget cmp =
     \<lparr>sp_segment_bytes = max segment_bytes 1, sp_disk_budget = disk_budget, sp_compression = cmp,
      sp_next_segment = 1, sp_segments = [], sp_bytes_on_disk = 0, sp_evicted = 0, sp_initialized = False\<rparr>"

section \<open>Fallible operations on the spill state and the disk\<close>

type_synonym 'a spill_io = "spill_state \<times> disk \<Rightarrow> (io_error + 'a) \<times> spill_state \<times> disk"

definition io_return :: "'a \<Rightarrow> 'a spill_io" where
  "io_return x = (\<lambda>w. (Inr x, w))"

definition io_bind :: "'a spill_io \<Rightarrow> ('a \<Rightarrow> 'b spill_io) \<Rightarrow> 'b spill_io" where
  "io_bind m f = (\<lambda>w. case m w of (Inl e, w) \<Rightarrow> (Inl e, w) | (Inr x, w) \<Rightarrow> f x w)"

definition io_update :: "(spill_state \<Rightarrow> spill_state) \<Rightarrow> unit spill_io" where
  "io_update f = (\<lambda>(s, d). (Inr (), f s, d))"

fun io_each :: "('a \<Rightarrow> 'b spill_io) \<Rightarrow> 'a list \<Rightarrow> 'b list spill_io" where
  "io_each f [] = io_return []"
| "io_each f (x # xs) = io_bind (f x) (\<lambda>y. io_bind (io_each f xs) (\<lambda>ys. io_return (y # ys)))"

definition io_lift :: "(io_error + 'a) \<Rightarrow> 'a spill_io" where
  "io_lift r = (\<lambda>w. (r, w))"

text \<open>One call into the operating system that fails or has an effect on the disk.\<close>

definition os_call :: "io_call \<Rightarrow> (disk \<Rightarrow> io_error + 'a \<times> disk) \<Rightarrow> 'a spill_io" where
  "os_call call f = (\<lambda>(s, d).
     case dk_fault d call of
       Some e \<Rightarrow> (Inl e, s, d)
     | None \<Rightarrow> (case f d of Inl e \<Rightarrow> (Inl e, s, d) | Inr (x, d) \<Rightarrow> (Inr x, s, d)))"

definition file_content :: "disk \<Rightarrow> string \<Rightarrow> string option" where
  "file_content d name = map_of (dk_files d) name"

definition create_dir_all :: "unit spill_io" where
  "create_dir_all = os_call CreateDir (\<lambda>d. Inr ((), d))"

definition read_dir :: "string list spill_io" where
  "read_dir = os_call ReadDir (\<lambda>d. Inr (map fst (dk_files d), d))"

definition dir_entry :: "string \<Rightarrow> string spill_io" where
  "dir_entry name = os_call (DirEntry name) (\<lambda>d. Inr (name, d))"

definition file_metadata_len :: "string \<Rightarrow> nat spill_io" where
  "file_metadata_len name = os_call (Metadata name) (\<lambda>d.
     case file_content d name of None \<Rightarrow> Inl NotFound | Some c \<Rightarrow> Inr (length c, d))"

definition read_file :: "string \<Rightarrow> string spill_io" where
  "read_file name = os_call (ReadFile name) (\<lambda>d.
     case file_content d name of None \<Rightarrow> Inl NotFound | Some c \<Rightarrow> Inr (c, d))"

definition open_read :: "string \<Rightarrow> string spill_io" where
  "open_read name = os_call (OpenRead name) (\<lambda>d.
     case file_content d name of None \<Rightarrow> Inl NotFound | Some c \<Rightarrow> Inr (c, d))"

definition remove_file :: "string \<Rightarrow> unit spill_io" where
  "remove_file name = os_call (RemoveFile name) (\<lambda>d.
     case file_content d name of
       None \<Rightarrow> Inl NotFound
     | Some _ \<Rightarrow> Inr ((), d\<lparr>dk_files := AList.delete name (dk_files d)\<rparr>))"

text \<open>\<open>OpenOptions::new().create(true).append(true).open\<close> and \<open>write_all\<close>.\<close>

definition open_append :: "string \<Rightarrow> unit spill_io" where
  "open_append name = os_call (OpenAppend name) (\<lambda>d.
     Inr ((), case file_content d name of
       None \<Rightarrow> d\<lparr>dk_files := AList.update name [] (dk_files d)\<rparr> | Some _ \<Rightarrow> d))"

definition append_bytes :: "string \<Rightarrow> string \<Rightarrow> disk \<Rightarrow> disk" where
  "append_bytes name bytes d =
     d\<lparr>dk_files := AList.update name ((case file_content d name of None \<Rightarrow> [] | Some c \<Rightarrow> c) @ bytes) (dk_files d)\<rparr>"

definition write_all :: "string \<Rightarrow> string \<Rightarrow> unit spill_io" where
  "write_all name bytes = (\<lambda>(s, d).
     case dk_fault d (WriteAll name) of
       Some e \<Rightarrow> (Inl e, s, append_bytes name (take (dk_torn d name) bytes) d)
     | None \<Rightarrow> (Inr (), s, append_bytes name bytes d))"

section \<open>File names\<close>

definition pad12 :: "nat \<Rightarrow> string" where
  "pad12 n = (let s = nat_to_string n in replicate (12 - length s) CHR ''0'' @ s)"

definition segment_name :: "nat \<Rightarrow> compression \<Rightarrow> string" where
  "segment_name index cmp =
     (case cmp of
        NoCompression \<Rightarrow> ''seg-'' @ pad12 index @ ''.ndjson''
      | Zstd _ \<Rightarrow> ''seg-'' @ pad12 index @ ''.ndjson.zst'')"

definition index_name_for_segment :: "string \<Rightarrow> string" where
  "index_name_for_segment name = name @ ''.idx''"

definition parse_u64_ok :: "string \<Rightarrow> nat option" where
  "parse_u64_ok s = (case parse_uint USIZE_MAX s of Inr n \<Rightarrow> Some n | Inl _ \<Rightarrow> None)"

definition parse_segment_name :: "string \<Rightarrow> (nat \<times> compression) option" where
  "parse_segment_name name =
     (case strip_suffix name ''.ndjson.zst'' of
        Some stem \<Rightarrow>
          map_option (\<lambda>i. (i, Zstd 1)) (Option.bind (strip_prefix stem ''seg-'') parse_u64_ok)
      | None \<Rightarrow>
          map_option (\<lambda>i. (i, NoCompression))
            (Option.bind (strip_prefix name ''seg-'') (\<lambda>rest. Option.bind (strip_suffix rest ''.ndjson'') parse_u64_ok)))"

definition active_or_next_name :: "spill_state \<Rightarrow> string" where
  "active_or_next_name s =
     (if sp_segments s = [] then segment_name (sp_next_segment s) (sp_compression s)
      else sg_name (last (sp_segments s)))"

section \<open>Records and checksums\<close>

definition encode_spill_record :: "compressor \<Rightarrow> string \<Rightarrow> compression \<Rightarrow> io_error + string" where
  "encode_spill_record Z line cmp =
     (case cmp of NoCompression \<Rightarrow> Inr (line @ [CHR 0x0A]) | Zstd level \<Rightarrow> zstd_encode Z level (line @ [CHR 0x0A]))"

definition decode_indexed_record :: "compressor \<Rightarrow> compression \<Rightarrow> string \<Rightarrow> io_error + string" where
  "decode_indexed_record Z cmp record =
     (case cmp of
        NoCompression \<Rightarrow> Inr record
      | Zstd _ \<Rightarrow>
          try_bind (zstd_decode Z record) (\<lambda>decoded.
            case strip_suffix decoded [CHR 0x0A] of
              Some payload \<Rightarrow> Inr payload
            | None \<Rightarrow> Inl (OtherError ''compressed spill record is missing trailing newline'')))"

definition crc_bit :: "32 word \<Rightarrow> 32 word" where
  "crc_bit crc = drop_bit 1 crc XOR (0xedb88320 AND (0 - (crc AND 1)))"

definition crc_byte :: "32 word \<Rightarrow> char \<Rightarrow> 32 word" where
  "crc_byte crc c = (crc_bit ^^ 8) (crc XOR of_nat (byte c))"

definition crc32 :: "string \<Rightarrow> 32 word" where
  "crc32 bytes = NOT (foldl crc_byte 0xffffffff bytes)"

definition hex08 :: "32 word \<Rightarrow> string" where
  "hex08 w = map (\<lambda>k. hex_digit (unat w div 16 ^ k mod 16)) (rev [0..<8])"

definition index_line :: "nat \<Rightarrow> nat \<Rightarrow> nat \<Rightarrow> 32 word \<Rightarrow> string" where
  "index_line offset len i crc =
     nat_to_string offset @ '' '' @ nat_to_string len @ '' '' @ nat_to_string i @ '' '' @ hex08 crc @ [CHR 0x0A]"

record index_entry =
  ie_offset :: nat
  ie_len :: nat
  ie_crc :: "32 word"

text \<open>\<open>u32::from_str_radix(s, 16)\<close>\<close>

fun parse_hex_digits :: "nat \<Rightarrow> nat \<Rightarrow> string \<Rightarrow> nat option" where
  "parse_hex_digits bound acc [] = Some acc"
| "parse_hex_digits bound acc (c # s) =
     (case to_digit 16 c of
        None \<Rightarrow> None
      | Some d \<Rightarrow> if bound < acc * 16 + d then None else parse_hex_digits bound (acc * 16 + d) s)"

definition parse_hex_u32 :: "string \<Rightarrow> nat option" where
  "parse_hex_u32 s =
     (case s of
        [] \<Rightarrow> None
      | c # t \<Rightarrow>
          if t = [] \<and> (c = CHR ''+'' \<or> c = CHR ''-'') then None
          else parse_hex_digits (2 ^ 32 - 1) 0 (if c = CHR ''+'' then t else s))"

text \<open>\<open>str::split_whitespace\<close>\<close>

fun split_ws :: "string \<Rightarrow> string list \<Rightarrow> string list" where
  "split_ws cur [] = (if cur = [] then [] else [cur])"
| "split_ws cur (ch # chs) =
     (if is_whitespace ch then (if cur = [] then split_ws [] chs else cur # split_ws [] chs)
      else split_ws (cur @ ch) chs)"

definition parse_index_entry :: "string \<Rightarrow> index_entry option" where
  "parse_index_entry line =
     (case split_ws [] (chars line) of
        offset # len # i # crc # _ \<Rightarrow>
          (case (parse_u64_ok offset, parse_u64_ok len, parse_u64_ok i, parse_hex_u32 crc) of
             (Some offset, Some len, Some _, Some crc) \<Rightarrow>
               Some \<lparr>ie_offset = offset, ie_len = len, ie_crc = of_nat crc\<rparr>
           | _ \<Rightarrow> None)
      | _ \<Rightarrow> None)"

section \<open>Opening, appending, evicting and clearing\<close>

definition start_spill_segment :: "spill_state \<Rightarrow> spill_state" where
  "start_spill_segment s =
     (let index = sp_next_segment s in
      s\<lparr>sp_next_segment := index + 1,
        sp_segments := sp_segments s @
          [\<lparr>sg_index = index, sg_name = segment_name index (sp_compression s), sg_compression = sp_compression s,
            sg_bytes = 0, sg_idx_name = index_name_for_segment (segment_name index (sp_compression s)),
            sg_index_bytes = 0, sg_records = 0\<rparr>]\<rparr>)"

text \<open>Removing a file, a missing one counting as removed.\<close>

definition remove_if_present :: "string \<Rightarrow> string \<Rightarrow> unit spill_io" where
  "remove_if_present verb name = (\<lambda>w.
     case remove_file name w of
       (Inr _, w) \<Rightarrow> (Inr (), w)
     | (Inl NotFound, w) \<Rightarrow> (Inr (), w)
     | (Inl (OtherError e), w) \<Rightarrow> (Inl (OtherError (verb @ '' '' @ name @ '': '' @ e)), w))"

definition evict_segment :: "spill_segment \<Rightarrow> unit spill_io" where
  "evict_segment seg =
     io_bind (io_update (\<lambda>s. s\<lparr>sp_segments := tl (sp_segments s)\<rparr>)) (\<lambda>_.
     io_bind (remove_if_present ''remove'' (sg_name seg)) (\<lambda>_.
     io_bind (remove_if_present ''remove'' (sg_idx_name seg)) (\<lambda>_.
     io_update (\<lambda>s. s\<lparr>sp_bytes_on_disk := sp_bytes_on_disk s - (sg_bytes seg + sg_index_bytes seg),
                      sp_evicted := sp_evicted s + 1\<rparr>))))"

text \<open>\<open>while bytes_on_disk > budget && segments.len() > 1\<close>, on the segments not yet visited.\<close>

fun evict_segments :: "spill_segment list \<Rightarrow> unit spill_io" where
  "evict_segments (seg # next # rest) = (\<lambda>(s, d).
     if sp_disk_budget s < sp_bytes_on_disk s
     then io_bind (evict_segment seg) (\<lambda>_. evict_segments (next # rest)) (s, d)
     else (Inr (), s, d))"
| "evict_segments _ = io_return ()"

definition enforce_spill_budget :: "unit spill_io" where
  "enforce_spill_budget = (\<lambda>(s, d).
     if sp_disk_budget s = 0 then (Inr (), s, d) else evict_segments (sp_segments s) (s, d))"

definition index_metadata :: "string \<Rightarrow> (nat \<times> nat) spill_io" where
  "index_metadata name = (\<lambda>w.
     case file_metadata_len name w of
       (Inl NotFound, w) \<Rightarrow> (Inr (0, 0), w)
     | (Inl e, w) \<Rightarrow> (Inl e, w)
     | (Inr len, w) \<Rightarrow>
         io_bind (read_file name) (\<lambda>body.
           io_return (len, length (filter (\<lambda>c. c = CHR 0x0A) body))) w)"

definition scan_entry :: "string \<Rightarrow> spill_segment option spill_io" where
  "scan_entry entry =
     io_bind (dir_entry entry) (\<lambda>name.
       case parse_segment_name name of
         None \<Rightarrow> io_return None
       | Some (index, cmp) \<Rightarrow>
           io_bind (file_metadata_len name) (\<lambda>bytes.
           io_bind (index_metadata (index_name_for_segment name)) (\<lambda>(index_bytes, records).
           io_return (Some \<lparr>sg_index = index, sg_name = name, sg_compression = cmp, sg_bytes = bytes,
             sg_idx_name = index_name_for_segment name, sg_index_bytes = index_bytes, sg_records = records\<rparr>))))"

definition loaded_state :: "spill_segment list \<Rightarrow> spill_state \<Rightarrow> spill_state" where
  "loaded_state segs s =
     s\<lparr>sp_bytes_on_disk := sum_list (map (\<lambda>g. sg_bytes g + sg_index_bytes g) segs),
       sp_next_segment := (if segs = [] then 1 else saturating_add (sg_index (last segs)) 1),
       sp_segments := segs, sp_initialized := True\<rparr>"

definition ensure_spill_initialized :: "unit spill_io" where
  "ensure_spill_initialized = (\<lambda>(s, d).
     if sp_initialized s then (Inr (), s, d)
     else
       io_bind create_dir_all (\<lambda>_.
       io_bind read_dir (\<lambda>entries.
       io_bind (io_each scan_entry entries) (\<lambda>found.
       io_bind (io_update (loaded_state (sort_key sg_index (List.map_filter id found)))) (\<lambda>_.
       enforce_spill_budget)))) (s, d))"

definition needs_new_segment :: "nat \<Rightarrow> spill_state \<Rightarrow> bool" where
  "needs_new_segment record_bytes s \<longleftrightarrow>
     sp_segments s = [] \<or>
     (let g = last (sp_segments s) in
      sg_compression g \<noteq> sp_compression s \<or>
      (0 < sg_bytes g \<and> sp_segment_bytes s < sg_bytes g + record_bytes))"

definition charge_segment :: "nat \<Rightarrow> nat \<Rightarrow> spill_state \<Rightarrow> spill_state" where
  "charge_segment record_bytes index_bytes s =
     (let g = last (sp_segments s) in
      s\<lparr>sp_segments := butlast (sp_segments s) @
          [g\<lparr>sg_bytes := sg_bytes g + record_bytes, sg_index_bytes := sg_index_bytes g + index_bytes,
             sg_records := sg_records g + 1\<rparr>],
        sp_bytes_on_disk := sp_bytes_on_disk s + (record_bytes + index_bytes)\<rparr>)"

text \<open>
  The part of \<open>append_spill\<close> that writes to the active segment. The \<open>expect\<close> that there is one
  never fails: the step before starts a segment when there is none.
\<close>

definition write_record :: "nat \<Rightarrow> string \<Rightarrow> string \<Rightarrow> unit spill_io" where
  "write_record i line record = (\<lambda>(s, d).
     let g = last (sp_segments s);
         index_len = (case sp_compression s of NoCompression \<Rightarrow> length line | Zstd _ \<Rightarrow> length record);
         entry = index_line (sg_bytes g) index_len i (crc32 line) in
     io_bind (open_append (sg_name g)) (\<lambda>_.
     io_bind (write_all (sg_name g) record) (\<lambda>_.
     io_bind (open_append (sg_idx_name g)) (\<lambda>_.
     io_bind (write_all (sg_idx_name g) entry) (\<lambda>_.
     io_bind (io_update (charge_segment (length record) (length entry))) (\<lambda>_.
     enforce_spill_budget))))) (s, d))"

definition append_spill :: "compressor \<Rightarrow> session \<Rightarrow> unit spill_io" where
  "append_spill Z session =
     io_bind ensure_spill_initialized (\<lambda>_ (s, d).
       let line = spill_session_line session in
       case encode_spill_record Z line (sp_compression s) of
         Inl e \<Rightarrow> (Inl e, s, d)
       | Inr record \<Rightarrow>
           write_record (se_id session) line record
             (if needs_new_segment (length record) s then start_spill_segment s else s, d))"

definition is_spill_name :: "string \<Rightarrow> bool" where
  "is_spill_name name \<longleftrightarrow>
     parse_segment_name name \<noteq> None \<or>
     parse_segment_name (case strip_suffix name ''.idx'' of Some s \<Rightarrow> s | None \<Rightarrow> name) \<noteq> None \<or>
     name = ''sessions.ndjson''"

definition clear_entry :: "string \<Rightarrow> unit spill_io" where
  "clear_entry entry =
     io_bind (dir_entry entry) (\<lambda>name.
       if is_spill_name name then remove_if_present ''clear'' name else io_return ())"

definition clear_spill :: "unit spill_io" where
  "clear_spill =
     io_bind create_dir_all (\<lambda>_.
     io_bind read_dir (\<lambda>entries.
     io_bind (io_each clear_entry entries) (\<lambda>_.
     io_update (\<lambda>s. s\<lparr>sp_next_segment := 1, sp_segments := [], sp_bytes_on_disk := 0, sp_evicted := 0,
                      sp_initialized := True\<rparr>))))"

section \<open>The verified reader\<close>

record read_segment =
  rd_data :: string
  rd_index :: "string option"
  rd_compression :: compression
  rd_data_len :: nat
  rd_index_len :: nat

definition open_segment :: "spill_segment \<Rightarrow> read_segment spill_io" where
  "open_segment seg =
     io_bind (open_read (sg_name seg)) (\<lambda>data w.
       case open_read (sg_idx_name seg) w of
         (Inl (OtherError e), w) \<Rightarrow> (Inl (OtherError e), w)
       | (r, w) \<Rightarrow>
           (Inr \<lparr>rd_data = data, rd_index = (case r of Inr c \<Rightarrow> Some c | Inl _ \<Rightarrow> None),
                 rd_compression = sg_compression seg, rd_data_len = sg_bytes seg,
                 rd_index_len = sg_index_bytes seg\<rparr>, w))"

definition spill_read_snapshot :: "read_segment list spill_io" where
  "spill_read_snapshot =
     io_bind ensure_spill_initialized (\<lambda>_ (s, d). io_each open_segment (sp_segments s) (s, d))"

definition valid_bounds :: "compression \<Rightarrow> string \<Rightarrow> nat \<Rightarrow> bool" where
  "valid_bounds cmp data stop \<longleftrightarrow>
     stop \<le> length data \<and>
     (case cmp of
        NoCompression \<Rightarrow> (case nth_opt data stop of Some c \<Rightarrow> c = CHR 0x0A | None \<Rightarrow> stop = length data)
      | Zstd _ \<Rightarrow> True)"

text \<open>What one index line contributes: the payload of a verified record, or nothing.\<close>

definition read_entry :: "compressor \<Rightarrow> compression \<Rightarrow> string \<Rightarrow> string \<Rightarrow> string option" where
  "read_entry Z cmp data line =
     Option.bind (parse_index_entry line) (\<lambda>e.
       let stop = saturating_add (ie_offset e) (ie_len e) in
       if \<not> valid_bounds cmp data stop then None
       else (case decode_indexed_record Z cmp (take (stop - ie_offset e) (drop (ie_offset e) data)) of
               Inl _ \<Rightarrow> None
             | Inr payload \<Rightarrow> if crc32 payload \<noteq> ie_crc e then None else Some payload))"

definition read_entries :: "compressor \<Rightarrow> compression \<Rightarrow> string \<Rightarrow> string list \<Rightarrow> string \<times> nat" where
  "read_entries Z cmp data lines =
     foldl (\<lambda>(body, corrupt) line.
       case read_entry Z cmp data line of
         None \<Rightarrow> (body, saturating_add corrupt 1)
       | Some payload \<Rightarrow> (body @ payload @ [CHR 0x0A], corrupt)) ([], 0) lines"

definition read_snapshot_segment :: "compressor \<Rightarrow> read_segment \<Rightarrow> io_error + string \<times> nat" where
  "read_snapshot_segment Z seg =
     (let data = take (rd_data_len seg) (rd_data seg) in
      case rd_index seg of
        None \<Rightarrow>
          (case rd_compression seg of
             NoCompression \<Rightarrow> Inr (data, 0)
           | Zstd _ \<Rightarrow> try_bind (zstd_decode Z data) (\<lambda>body. Inr (body, 0)))
      | Some index \<Rightarrow>
          (let index = take (rd_index_len seg) index in
           if utf8_valid index then Inr (read_entries Z (rd_compression seg) data (text_lines [] index))
           else Inl (OtherError ''invalid utf-8 sequence'')))"

definition read_verified_snapshot :: "compressor \<Rightarrow> read_segment list \<Rightarrow> io_error + string \<times> nat" where
  "read_verified_snapshot Z segs =
     try_bind (collect_results (read_snapshot_segment Z) segs) (\<lambda>parts.
       Inr (concat (map fst parts), foldl (\<lambda>n (_, c). saturating_add n c) 0 parts))"

end
