(* ===== verification/Spill_Index.thy ===== *)
theory Spill_Index
  imports Trace_Spill
begin

text \<open>
  Index lines of spill segments read back: an entry printed by \<open>append_spill\<close> parses to the
  offset, the length and the checksum it was printed with, and segment names identify
  segments.
\<close>

section \<open>ASCII texts\<close>

definition ascii :: "string \<Rightarrow> bool" where
  "ascii s \<longleftrightarrow> list_all (\<lambda>c. byte c < 128) s"

lemma ascii_simps [simp]:
  "ascii []" "ascii (c # s) \<longleftrightarrow> byte c < 128 \<and> ascii s" "ascii (s @ t) \<longleftrightarrow> ascii s \<and> ascii t"
  by (simp_all add: ascii_def)

lemma chars_ascii: "ascii s \<Longrightarrow> chars s = map (\<lambda>c. [c]) s"
proof (induction s)
  case Nil
  then show ?case by (simp add: chars.simps)
next
  case (Cons c s)
  then show ?case by (subst chars.simps) (simp add: utf8_width_def Let_def)
qed

lemma utf8_valid_ascii: "ascii s \<Longrightarrow> utf8_valid s"
proof (induction s)
  case Nil
  then show ?case by (simp add: utf8_valid.simps)
next
  case (Cons c s)
  then show ?case by (subst utf8_valid.simps) (simp add: utf8_chunk_def utf8_width_def Let_def)
qed

text \<open>The characters of numbers.\<close>

definition plain_char :: "char \<Rightarrow> bool" where
  "plain_char c \<longleftrightarrow> \<not> is_whitespace [c] \<and> byte c < 128 \<and> c \<notin> {CHR ''+'', CHR 0x0D, CHR 0x0A}"

definition is_word :: "string \<Rightarrow> bool" where
  "is_word s \<longleftrightarrow> s \<noteq> [] \<and> list_all plain_char s"

lemma split_ws_word:
  "list_all plain_char s \<Longrightarrow> cur @ s \<noteq> [] \<Longrightarrow>
     split_ws cur (map (\<lambda>c. [c]) (s @ CHR '' '' # t)) = (cur @ s) # split_ws [] (map (\<lambda>c. [c]) t)"
proof (induction s arbitrary: cur)
  case Nil
  have "is_whitespace '' ''" by code_simp
  with Nil show ?case by simp
next
  case (Cons c s)
  then show ?case by (simp add: plain_char_def)
qed

lemma split_ws_last: "list_all plain_char s \<Longrightarrow> cur @ s \<noteq> [] \<Longrightarrow> split_ws cur (map (\<lambda>c. [c]) s) = [cur @ s]"
  by (induction s arbitrary: cur) (simp_all add: plain_char_def)

lemma hex_digit_plain: "n < 16 \<Longrightarrow> plain_char (hex_digit n)"
proof -
  have "list_all (\<lambda>n. plain_char (hex_digit n)) [0..<16]" by code_simp
  then show "n < 16 \<Longrightarrow> ?thesis" by (simp add: list_all_iff)
qed

lemma digit_plain: "is_ascii_digit c \<Longrightarrow> plain_char c"
proof -
  assume c: "is_ascii_digit c"
  have "list_all (\<lambda>n. digit_char n = hex_digit n) [0..<10]" by code_simp
  then have "digit_char (byte c - 48) = hex_digit (byte c - 48)"
    using c by (auto simp: list_all_iff is_ascii_digit_def)
  moreover have "digit_char (byte c - 48) = c" using c by (simp add: digit_char_def is_ascii_digit_def byte_def)
  moreover have "byte c - 48 < 16" using c by (auto simp: is_ascii_digit_def)
  ultimately show ?thesis using hex_digit_plain [of "byte c - 48"] by simp
qed

lemma nat_to_string_word: "is_word (nat_to_string n)"
  using nat_to_string_digits by (auto simp: is_word_def list_all_iff intro: digit_plain)

lemma is_word_ascii: "is_word s \<Longrightarrow> ascii s"
  by (auto simp: is_word_def ascii_def list_all_iff plain_char_def)

section \<open>Checksums in hexadecimal\<close>

lemma hex_digit_value: "n < 16 \<Longrightarrow> to_digit 16 (hex_digit n) = Some n"
proof -
  have "list_all (\<lambda>n. to_digit 16 (hex_digit n) = Some n) [0..<16]" by code_simp
  then show "n < 16 \<Longrightarrow> ?thesis" by (simp add: list_all_iff)
qed

lemma parse_hex_digits_hex:
  "acc * 16 ^ k + n mod 16 ^ k \<le> bound \<Longrightarrow>
     parse_hex_digits bound acc (map (\<lambda>k. hex_digit (n div 16 ^ k mod 16)) (rev [0..<k])) = Some (acc * 16 ^ k + n mod 16 ^ k)"
proof (induction k arbitrary: acc)
  case (Suc k)
  let ?d = "n div 16 ^ k mod 16"
  have split: "n mod 16 ^ Suc k = ?d * 16 ^ k + n mod 16 ^ k"
    using mod_mult2_eq [of n "16 ^ k" 16] by (simp add: mult.commute add.commute)
  have b: "(acc * 16 + ?d) * 16 ^ k + n mod 16 ^ k \<le> bound"
    using Suc.prems unfolding split by (simp add: algebra_simps)
  have "acc * 16 + ?d \<le> bound"
  proof -
    have "acc * 16 + ?d \<le> (acc * 16 + ?d) * 16 ^ k" by simp
    with b show ?thesis by linarith
  qed
  with Suc.IH [OF b] show ?case
    unfolding split by (simp add: hex_digit_value algebra_simps)
qed simp

lemma unat_lt_32: "unat (w :: 32 word) < 2 ^ 32"
  using unsigned_less [of w] by simp

lemma parse_hex_u32_hex08: "parse_hex_u32 (hex08 w) = Some (unat w)"
proof -
  have w: "unat w < 16 ^ 8" using unat_lt_32 [of w] by simp
  then have "parse_hex_digits (2 ^ 32 - 1) 0 (hex08 w) = Some (unat w)"
    using parse_hex_digits_hex [of 0 8 "unat w" "2 ^ 32 - 1"] by (simp add: hex08_def)
  moreover obtain c t where ct: "hex08 w = c # t" "t \<noteq> []" "c = hex_digit (unat w div 16 ^ 7 mod 16)"
    by (simp add: hex08_def upt_rec)
  moreover have "c \<noteq> CHR ''+''"
    using hex_digit_plain [of "unat w div 16 ^ 7 mod 16"] ct(3) by (simp add: plain_char_def)
  ultimately show ?thesis unfolding ct(1) parse_hex_u32_def by simp
qed

lemma hex08_word: "is_word (hex08 w)"
  by (auto simp: hex08_def is_word_def list_all_iff intro: hex_digit_plain)

section \<open>Index lines\<close>

definition index_text :: "nat \<Rightarrow> nat \<Rightarrow> nat \<Rightarrow> 32 word \<Rightarrow> string" where
  "index_text offset len i crc =
     nat_to_string offset @ CHR '' '' # nat_to_string len @ CHR '' '' # nat_to_string i @ CHR '' '' # hex08 crc"

lemma index_line_text: "index_line offset len i crc = index_text offset len i crc @ [CHR 0x0A]"
  by (simp add: index_line_def index_text_def)

lemma index_text_chars:
  "ascii (index_text offset len i crc)" "index_text offset len i crc \<noteq> []"
  "CHR 0x0A \<notin> set (index_text offset len i crc)" "last (index_text offset len i crc) \<noteq> CHR 0x0D"
proof -
  have w: "list_all plain_char (nat_to_string n)" for n using nat_to_string_word by (simp add: is_word_def)
  have h: "list_all plain_char (hex08 crc)" "hex08 crc \<noteq> []" using hex08_word by (simp_all add: is_word_def)
  show "ascii (index_text offset len i crc)" "index_text offset len i crc \<noteq> []"
    using is_word_ascii [OF nat_to_string_word] is_word_ascii [OF hex08_word] by (simp_all add: index_text_def byte_def)
  have nl: "CHR 0x0A \<notin> set s" if "list_all plain_char s" for s
    using that by (auto simp: list_all_iff plain_char_def)
  show "CHR 0x0A \<notin> set (index_text offset len i crc)"
    using nl [OF w] nl [OF h(1)] by (simp add: index_text_def)
  have "last (index_text offset len i crc) = last (hex08 crc)" using h(2) by (simp add: index_text_def)
  moreover have "plain_char (last (hex08 crc))" using h by (simp add: list_all_iff)
  ultimately show "last (index_text offset len i crc) \<noteq> CHR 0x0D" by (simp add: plain_char_def)
qed

lemma parse_index_text:
  assumes "offset \<le> USIZE_MAX" "len \<le> USIZE_MAX" "i \<le> USIZE_MAX"
  shows "parse_index_entry (index_text offset len i crc) = Some \<lparr>ie_offset = offset, ie_len = len, ie_crc = crc\<rparr>"
proof -
  have w: "list_all plain_char (nat_to_string n)" for n using nat_to_string_word by (simp add: is_word_def)
  have h: "list_all plain_char (hex08 crc)" "hex08 crc \<noteq> []" using hex08_word by (simp_all add: is_word_def)
  have "split_ws [] (chars (index_text offset len i crc)) =
      [nat_to_string offset, nat_to_string len, nat_to_string i, hex08 crc]"
    unfolding chars_ascii [OF index_text_chars(1)] unfolding index_text_def
    using h by (simp only: split_ws_word [OF w] split_ws_last append_Nil nat_to_string_not_Nil not_False_eq_True)
  with assms show ?thesis
    by (simp add: parse_index_entry_def parse_u64_ok_def parse_uint_nat_to_string parse_hex_u32_hex08)
qed

section \<open>Segment names\<close>

lemma parse_digits_zeros: "parse_digits bound 0 (replicate k CHR ''0'' @ s) = parse_digits bound 0 s"
proof -
  have "digit_value CHR ''0'' = Some 0" by code_simp
  then show ?thesis by (induction k) simp_all
qed

lemma parse_pad12: "n \<le> bound \<Longrightarrow> parse_digits bound 0 (pad12 n) = Inr n"
  by (simp add: pad12_def Let_def parse_digits_zeros parse_digits_nat_to_string)

lemma pad12_inj:
  assumes "pad12 m = pad12 n"
  shows "m = n"
proof -
  have "parse_digits (max m n) 0 (pad12 m) = Inr m" "parse_digits (max m n) 0 (pad12 n) = Inr n"
    by (rule parse_pad12; simp)+
  with assms show ?thesis by (metis sum.inject(2))
qed

definition same_kind :: "compression \<Rightarrow> compression \<Rightarrow> bool" where
  "same_kind c c' \<longleftrightarrow> (c = NoCompression \<longleftrightarrow> c' = NoCompression)"

lemma segment_name_inj: "segment_name i c = segment_name j c' \<longleftrightarrow> i = j \<and> same_kind c c'"
proof
  assume e: "segment_name i c = segment_name j c'"
  have "last (segment_name k d) = (if d = NoCompression then CHR ''n'' else CHR ''t'')" for k d
    by (simp add: segment_name_def split: compression.split)
  from this [of i c] this [of j c'] e have "same_kind c c'" by (auto simp: same_kind_def split: if_splits)
  with e have "pad12 i = pad12 j" by (cases c; cases c') (auto simp: segment_name_def same_kind_def)
  with pad12_inj \<open>same_kind c c'\<close> show "i = j \<and> same_kind c c'" by blast
qed (auto simp: segment_name_def same_kind_def split: compression.split)

lemma index_name_inj: "index_name_for_segment a = index_name_for_segment b \<longleftrightarrow> a = b"
  by (simp add: index_name_for_segment_def)

lemma index_name_not_segment: "index_name_for_segment a \<noteq> segment_name i c"
proof
  assume "index_name_for_segment a = segment_name i c"
  then have "last (index_name_for_segment a) = last (segment_name i c)" by simp
  then show False by (simp add: index_name_for_segment_def segment_name_def split: compression.splits)
qed

end
