(* ===== verification/Spill_Log.thy ===== *)
theory Spill_Log
  imports Spill_Index
begin

text \<open>
  The spill segments as a log: what \<open>append_spill\<close> wrote is what the verified reader returns, in
  order and without loss, as long as the disk does not fail; segments leave the log whole,
  the oldest first, to keep the disk budget.
\<close>

section \<open>What a segment holds\<close>

record spill_rec =
  er_id :: nat
  er_line :: string
  er_record :: string

definition rec_ok :: "compressor \<Rightarrow> compression \<Rightarrow> spill_rec \<Rightarrow> bool" where
  "rec_ok Z cmp r \<longleftrightarrow> encode_spill_record Z (er_line r) cmp = Inr (er_record r) \<and> er_id r \<le> USIZE_MAX"

definition data_of :: "spill_rec list \<Rightarrow> string" where
  "data_of recs = concat (map er_record recs)"

definition index_len :: "compression \<Rightarrow> spill_rec \<Rightarrow> nat" where
  "index_len cmp r = (case cmp of NoCompression \<Rightarrow> length (er_line r) | Zstd _ \<Rightarrow> length (er_record r))"

fun index_lines :: "compression \<Rightarrow> nat \<Rightarrow> spill_rec list \<Rightarrow> string list" where
  "index_lines cmp offset [] = []"
| "index_lines cmp offset (r # rs) =
     index_text offset (index_len cmp r) (er_id r) (crc32 (er_line r)) #
     index_lines cmp (offset + length (er_record r)) rs"

definition index_file :: "compression \<Rightarrow> spill_rec list \<Rightarrow> string" where
  "index_file cmp recs = concat (map (\<lambda>l. l @ [CHR 0x0A]) (index_lines cmp 0 recs))"

lemma data_of_simps [simp]: "data_of [] = []" "data_of (r # rs) = er_record r @ data_of rs"
  "data_of (rs @ ss) = data_of rs @ data_of ss"
  by (simp_all add: data_of_def)

lemma index_lines_snoc:
  "index_lines cmp offset (rs @ [r]) =
     index_lines cmp offset rs @
     [index_text (offset + length (data_of rs)) (index_len cmp r) (er_id r) (crc32 (er_line r))]"
  by (induction rs arbitrary: offset) (simp_all add: add.assoc)

lemma index_file_snoc:
  "index_file cmp (rs @ [r]) =
     index_file cmp rs @ index_line (length (data_of rs)) (index_len cmp r) (er_id r) (crc32 (er_line r))"
  by (simp add: index_file_def index_lines_snoc index_line_text)

lemma index_lines_chars:
  "list_all (\<lambda>l. l \<noteq> [] \<and> CHR 0x0A \<notin> set l \<and> last l \<noteq> CHR 0x0D) (index_lines cmp offset rs)"
  "ascii (concat (map (\<lambda>l. l @ [CHR 0x0A]) (index_lines cmp offset rs)))"
  by (induction rs arbitrary: offset) (simp_all add: index_text_chars byte_def)

text \<open>Decompression inverts compression, the one law the log needs of the compressor.\<close>

definition lossless :: "compressor \<Rightarrow> bool" where
  "lossless Z \<longleftrightarrow> (\<forall>level bytes out. zstd_encode Z level bytes = Inr out \<longrightarrow> zstd_decode Z out = Inr bytes)"

section \<open>Reading a segment\<close>

lemma strip_suffix_append: "strip_suffix (s @ t) t = Some s"
  by (simp add: strip_suffix_Some_iff)

lemma read_entry_record:
  assumes "lossless Z" "rec_ok Z cmp r" "length (pre @ er_record r @ post) \<le> USIZE_MAX"
  shows "read_entry Z cmp (pre @ er_record r @ post)
     (index_text (length pre) (index_len cmp r) (er_id r) (crc32 (er_line r))) = Some (er_line r)"
proof (cases cmp)
  case NoCompression
  with assms(2) have r: "er_record r = er_line r @ [CHR 0x0A]" by (simp add: rec_ok_def encode_spill_record_def)
  have p: "parse_index_entry (index_text (length pre) (length (er_line r)) (er_id r) (crc32 (er_line r))) =
      Some \<lparr>ie_offset = length pre, ie_len = length (er_line r), ie_crc = crc32 (er_line r)\<rparr>"
    by (rule parse_index_text) (use assms r in \<open>simp_all add: rec_ok_def\<close>)
  have s: "saturating_add (length pre) (length (er_line r)) = length pre + length (er_line r)"
    using assms(3) r by (simp add: saturating_add_def)
  show ?thesis
    using NoCompression
    by (simp add: read_entry_def index_len_def p s Let_def valid_bounds_def nth_opt_def r nth_append
        decode_indexed_record_def)
next
  case (Zstd level)
  with assms(1,2) have z: "zstd_decode Z (er_record r) = Inr (er_line r @ [CHR 0x0A])"
    by (auto simp: rec_ok_def encode_spill_record_def lossless_def)
  have p: "parse_index_entry (index_text (length pre) (length (er_record r)) (er_id r) (crc32 (er_line r))) =
      Some \<lparr>ie_offset = length pre, ie_len = length (er_record r), ie_crc = crc32 (er_line r)\<rparr>"
    by (rule parse_index_text) (use assms in \<open>simp_all add: rec_ok_def\<close>)
  have s: "saturating_add (length pre) (length (er_record r)) = length pre + length (er_record r)"
    using assms(3) by (simp add: saturating_add_def)
  show ?thesis
    using Zstd
    by (simp add: read_entry_def index_len_def p s Let_def valid_bounds_def z decode_indexed_record_def
        strip_suffix_append)
qed

lemma read_entries_step:
  "foldl (\<lambda>(body, corrupt) line.
       case read_entry Z cmp data line of
         None \<Rightarrow> (body, saturating_add corrupt 1)
       | Some payload \<Rightarrow> (body @ payload @ [CHR 0x0A], corrupt)) (body, n) (index_lines cmp (length pre) rs) =
     (body @ concat (map (\<lambda>r. er_line r @ [CHR 0x0A]) rs), n)"
  if "lossless Z" "list_all (rec_ok Z cmp) rs" "data = pre @ data_of rs" "length data \<le> USIZE_MAX"
  using that(2-4)
proof (induction rs arbitrary: pre body)
  case (Cons r rs)
  have "read_entry Z cmp data (index_text (length pre) (index_len cmp r) (er_id r) (crc32 (er_line r))) = Some (er_line r)"
    using read_entry_record [OF that(1), of cmp r pre "data_of rs"] Cons.prems by simp
  moreover note Cons.IH [of "pre @ er_record r" "body @ er_line r @ [CHR 0x0A]"]
  ultimately show ?case using Cons.prems by simp
qed simp

lemma read_entries_all:
  assumes "lossless Z" "list_all (rec_ok Z cmp) recs" "length (data_of recs) \<le> USIZE_MAX"
  shows "read_entries Z cmp (data_of recs) (index_lines cmp 0 recs) =
    (concat (map (\<lambda>r. er_line r @ [CHR 0x0A]) recs), 0)"
  using read_entries_step [OF assms(1,2), of "data_of recs" "[]" "[]" 0] assms(3) by (simp add: read_entries_def)

section \<open>The invariant of the log\<close>

definition faultless :: "disk \<Rightarrow> bool" where
  "faultless d \<longleftrightarrow> (\<forall>call. dk_fault d call = None)"

definition seg_holds :: "compressor \<Rightarrow> disk \<Rightarrow> spill_segment \<Rightarrow> spill_rec list \<Rightarrow> bool" where
  "seg_holds Z d g recs \<longleftrightarrow>
     recs \<noteq> [] \<and> list_all (rec_ok Z (sg_compression g)) recs \<and>
     sg_name g = segment_name (sg_index g) (sg_compression g) \<and>
     sg_idx_name g = index_name_for_segment (sg_name g) \<and>
     file_content d (sg_name g) = Some (data_of recs) \<and>
     file_content d (sg_idx_name g) = Some (index_file (sg_compression g) recs) \<and>
     sg_bytes g = length (data_of recs) \<and> sg_index_bytes g = length (index_file (sg_compression g) recs) \<and>
     sg_records g = length recs \<and> length (data_of recs) \<le> USIZE_MAX"

definition fresh_names :: "disk \<Rightarrow> nat \<Rightarrow> bool" where
  "fresh_names d next \<longleftrightarrow>
     (\<forall>i \<ge> next. \<forall>c. file_content d (segment_name i c) = None \<and>
        file_content d (index_name_for_segment (segment_name i c)) = None)"

definition spill_inv :: "compressor \<Rightarrow> spill_state \<Rightarrow> disk \<Rightarrow> spill_rec list list \<Rightarrow> bool" where
  "spill_inv Z s d contents \<longleftrightarrow>
     sp_initialized s \<and> faultless d \<and>
     list_all2 (seg_holds Z d) (sp_segments s) contents \<and>
     sorted_wrt (<) (map sg_index (sp_segments s)) \<and>
     list_all (\<lambda>g. sg_index g < sp_next_segment s) (sp_segments s) \<and>
     fresh_names d (sp_next_segment s) \<and>
     sp_bytes_on_disk s = sum_list (map (\<lambda>g. sg_bytes g + sg_index_bytes g) (sp_segments s))"

definition log_text :: "spill_rec list \<Rightarrow> string" where
  "log_text recs = concat (map (\<lambda>r. er_line r @ [CHR 0x0A]) recs)"

section \<open>The reader returns the log\<close>

lemma open_segment_holds:
  assumes "faultless d" "seg_holds Z d g recs"
  shows "open_segment g (s, d) =
    (Inr \<lparr>rd_data = data_of recs, rd_index = Some (index_file (sg_compression g) recs),
          rd_compression = sg_compression g, rd_data_len = length (data_of recs),
          rd_index_len = length (index_file (sg_compression g) recs)\<rparr>, s, d)"
proof -
  have "file_content d (sg_name g) = Some (data_of recs)"
    "file_content d (sg_idx_name g) = Some (index_file (sg_compression g) recs)"
    "sg_bytes g = length (data_of recs)" "sg_index_bytes g = length (index_file (sg_compression g) recs)"
    using assms(2) unfolding seg_holds_def by blast+
  with assms(1) show ?thesis
    by (simp add: open_segment_def io_bind_def open_read_def os_call_def faultless_def)
qed

lemma read_segment_holds:
  assumes "lossless Z" "seg_holds Z d g recs"
  shows "read_snapshot_segment Z \<lparr>rd_data = data_of recs, rd_index = Some (index_file (sg_compression g) recs),
      rd_compression = sg_compression g, rd_data_len = length (data_of recs),
      rd_index_len = length (index_file (sg_compression g) recs)\<rparr> = Inr (log_text recs, 0)"
proof -
  have "utf8_valid (index_file (sg_compression g) recs)"
    unfolding index_file_def by (rule utf8_valid_ascii) (rule index_lines_chars)
  moreover have "text_lines [] (index_file (sg_compression g) recs) = index_lines (sg_compression g) 0 recs"
    unfolding index_file_def by (rule text_lines_concat) (rule index_lines_chars)
  ultimately show ?thesis
    using read_entries_all [OF assms(1), of "sg_compression g" recs] assms(2)
    by (simp add: read_snapshot_segment_def seg_holds_def log_text_def)
qed

definition snapshot_of :: "spill_segment \<Rightarrow> spill_rec list \<Rightarrow> read_segment" where
  "snapshot_of g recs =
     \<lparr>rd_data = data_of recs, rd_index = Some (index_file (sg_compression g) recs),
      rd_compression = sg_compression g, rd_data_len = length (data_of recs),
      rd_index_len = length (index_file (sg_compression g) recs)\<rparr>"

lemma open_segments_hold:
  assumes "faultless d" "list_all2 (seg_holds Z d) gs contents"
  shows "io_each open_segment gs (s, d) = (Inr (map2 snapshot_of gs contents), s, d)"
  using assms(2)
  by (induction rule: list_all2_induct)
     (simp_all add: io_bind_def io_return_def open_segment_holds [OF assms(1)] snapshot_of_def)

lemma read_segments_hold:
  assumes "lossless Z" "list_all2 (seg_holds Z d) gs contents"
  shows "collect_results (read_snapshot_segment Z) (map2 snapshot_of gs contents) =
    Inr (map (\<lambda>recs. (log_text recs, 0)) contents)"
  using assms(2)
  by (induction rule: list_all2_induct) (simp_all add: read_segment_holds [OF assms(1)] snapshot_of_def)

lemma log_text_concat: "concat (map log_text contents) = log_text (concat contents)"
  by (induction contents) (simp_all add: log_text_def)

lemma read_log:
  assumes "lossless Z" "spill_inv Z s d contents"
  shows "\<exists>snapshot. spill_read_snapshot (s, d) = (Inr snapshot, s, d) \<and>
    read_verified_snapshot Z snapshot = Inr (log_text (concat contents), 0)"
proof -
  have l: "list_all2 (seg_holds Z d) (sp_segments s) contents" "faultless d" "sp_initialized s"
    using assms(2) by (simp_all add: spill_inv_def)
  have zeros: "foldl (\<lambda>n (_, c). saturating_add n c) 0 (map (\<lambda>recs. (log_text recs, 0)) contents) = 0"
    by (induction contents) (simp_all add: saturating_add_def)
  have "spill_read_snapshot (s, d) = (Inr (map2 snapshot_of (sp_segments s) contents), s, d)"
    using open_segments_hold [OF l(2,1), of s] l(3)
    by (simp add: spill_read_snapshot_def io_bind_def ensure_spill_initialized_def)
  moreover have "read_verified_snapshot Z (map2 snapshot_of (sp_segments s) contents) = Inr (log_text (concat contents), 0)"
    using zeros by (simp add: read_verified_snapshot_def read_segments_hold [OF assms(1) l(1)] comp_def log_text_concat)
  ultimately show ?thesis by blast
qed

section \<open>Eviction\<close>

lemma file_content_delete:
  "file_content (d\<lparr>dk_files := AList.delete n (dk_files d)\<rparr>) m = (if m = n then None else file_content d m)"
  by (simp add: file_content_def delete_conv')

lemma remove_present:
  assumes "faultless d" "file_content d n \<noteq> None"
  obtains d' where "remove_if_present verb n (s, d) = (Inr (), s, d')" "faultless d'"
    "\<And>m. file_content d' m = (if m = n then None else file_content d m)"
  using assms that [of "d\<lparr>dk_files := AList.delete n (dk_files d)\<rparr>"]
  by (auto simp: remove_if_present_def remove_file_def os_call_def faultless_def file_content_delete)

text \<open>A segment is affected only by changes to its own two files.\<close>

lemma seg_holds_cong:
  assumes "seg_holds Z d g recs" "file_content d' (sg_name g) = file_content d (sg_name g)"
    "file_content d' (sg_idx_name g) = file_content d (sg_idx_name g)"
  shows "seg_holds Z d' g recs"
  using assms unfolding seg_holds_def by metis

definition own_names :: "spill_segment \<Rightarrow> string set" where
  "own_names g = {segment_name (sg_index g) (sg_compression g),
     index_name_for_segment (segment_name (sg_index g) (sg_compression g))}"

lemma own_names_disjoint: "sg_index g \<noteq> sg_index h \<Longrightarrow> own_names g \<inter> own_names h = {}"
  using index_name_not_segment by (auto simp: own_names_def segment_name_inj index_name_inj dest: sym)

lemma seg_holds_names: "seg_holds Z d g recs \<Longrightarrow> sg_name g \<in> own_names g \<and> sg_idx_name g \<in> own_names g"
  by (auto simp: seg_holds_def own_names_def)

lemma segs_unaffected:
  assumes "list_all2 (seg_holds Z d) gs contents" "\<And>g. g \<in> set gs \<Longrightarrow> sg_index g \<noteq> sg_index h"
    "\<And>m. m \<notin> own_names h \<Longrightarrow> file_content d' m = file_content d m"
  shows "list_all2 (seg_holds Z d') gs contents"
  using assms(1,2)
proof (induction rule: list_all2_induct)
  case (Cons g gs recs contents)
  from Cons.prems [of g] own_names_disjoint [of g h] seg_holds_names [OF Cons.hyps(1)]
  have "sg_name g \<notin> own_names h" "sg_idx_name g \<notin> own_names h" by auto
  with assms(3) seg_holds_cong [OF Cons.hyps(1)] Cons show ?case by auto
qed simp

lemma fresh_unaffected:
  assumes "fresh_names d next" "sg_index h < next"
    "\<And>m. m \<notin> own_names h \<Longrightarrow> file_content d' m = file_content d m"
  shows "fresh_names d' next"
  unfolding fresh_names_def
proof (intro allI impI)
  fix i c
  assume i: "next \<le> i"
  have "segment_name i c \<notin> own_names h" "index_name_for_segment (segment_name i c) \<notin> own_names h"
    using i assms(2) index_name_not_segment by (auto simp: own_names_def segment_name_inj index_name_inj dest: sym)
  with assms(1,3) i show "file_content d' (segment_name i c) = None \<and>
      file_content d' (index_name_for_segment (segment_name i c)) = None"
    by (simp add: fresh_names_def)
qed

lemma evict_segment_ok:
  assumes "spill_inv Z s d contents" "sp_segments s = g # rest"
  obtains s' d' where "evict_segment g (s, d) = (Inr (), s', d')" "spill_inv Z s' d' (tl contents)"
    "sp_segments s' = rest" "sp_disk_budget s' = sp_disk_budget s" "sp_compression s' = sp_compression s"
proof -
  obtain recs contents' where c: "contents = recs # contents'" "seg_holds Z d g recs"
    "list_all2 (seg_holds Z d) rest contents'" and f: "faultless d"
    using assms by (auto simp: spill_inv_def list_all2_Cons1)
  have names: "sg_name g = segment_name (sg_index g) (sg_compression g)" "sg_idx_name g = index_name_for_segment (sg_name g)"
    "file_content d (sg_name g) \<noteq> None" "file_content d (sg_idx_name g) \<noteq> None" "sg_idx_name g \<noteq> sg_name g"
    using c(2) index_name_not_segment unfolding seg_holds_def by auto
  define s1 where "s1 = s\<lparr>sp_segments := rest\<rparr>"
  obtain d1 where d1: "remove_if_present ''remove'' (sg_name g) (s1, d) = (Inr (), s1, d1)" "faultless d1"
    "\<And>m. file_content d1 m = (if m = sg_name g then None else file_content d m)"
    using remove_present [OF f names(3)] by metis
  obtain d2 where d2: "remove_if_present ''remove'' (sg_idx_name g) (s1, d1) = (Inr (), s1, d2)" "faultless d2"
    "\<And>m. file_content d2 m = (if m = sg_idx_name g then None else file_content d1 m)"
    using remove_present [OF d1(2), of "sg_idx_name g"] names(4,5) d1(3) by metis
  have same: "file_content d2 m = file_content d m" if "m \<notin> own_names g" for m
    using that names(1,2) by (auto simp: d2(3) d1(3) own_names_def)
  have others: "sg_index h \<noteq> sg_index g" if "h \<in> set rest" for h
    using assms that by (auto simp: spill_inv_def)
  let ?s = "s1\<lparr>sp_bytes_on_disk := sp_bytes_on_disk s1 - (sg_bytes g + sg_index_bytes g), sp_evicted := sp_evicted s1 + 1\<rparr>"
  have "evict_segment g (s, d) = (Inr (), ?s, d2)"
    using assms(2) d1(1) d2(1) by (simp add: evict_segment_def io_bind_def io_update_def s1_def)
  moreover have "spill_inv Z ?s d2 (tl contents)"
    using assms c segs_unaffected [OF c(3) others same] fresh_unaffected [of d "sp_next_segment s" g d2, OF _ _ same] d2(2)
    by (simp add: spill_inv_def s1_def)
  ultimately show thesis by (intro that [of ?s d2]) (simp_all add: s1_def)
qed

lemma evict_segments_ok:
  assumes "spill_inv Z s d contents" "sp_segments s = gs"
  obtains s' d' n where "evict_segments gs (s, d) = (Inr (), s', d')" "spill_inv Z s' d' (drop n contents)"
    "gs \<noteq> [] \<Longrightarrow> n < length gs" "sp_disk_budget s' = sp_disk_budget s" "sp_compression s' = sp_compression s"
    "sp_bytes_on_disk s' \<le> sp_disk_budget s \<or> length (sp_segments s') \<le> 1"
  using assms
proof (induction gs arbitrary: s d contents thesis rule: evict_segments.induct)
  case (1 g h rest)
  show ?case
  proof (cases "sp_disk_budget s < sp_bytes_on_disk s")
    case True
    obtain s1 d1 where e: "evict_segment g (s, d) = (Inr (), s1, d1)" "spill_inv Z s1 d1 (tl contents)"
      "sp_segments s1 = h # rest" "sp_disk_budget s1 = sp_disk_budget s" "sp_compression s1 = sp_compression s"
      using evict_segment_ok [OF "1.prems"(2,3)] by metis
    obtain s' d' n where r: "evict_segments (h # rest) (s1, d1) = (Inr (), s', d')" "spill_inv Z s' d' (drop n (tl contents))"
      "n < length (h # rest)" "sp_disk_budget s' = sp_disk_budget s1" "sp_compression s' = sp_compression s1"
      "sp_bytes_on_disk s' \<le> sp_disk_budget s1 \<or> length (sp_segments s') \<le> 1"
      using "1.IH" [OF _ _ e(2,3)] True by (metis list.distinct(1))
    show ?thesis
      by (rule "1.prems"(1) [of s' d' "Suc n"]) (use True e r in \<open>simp_all add: io_bind_def drop_Suc\<close>)
  next
    case False
    with "1.prems" show ?thesis by (intro "1.prems"(1) [of s d 0]) simp_all
  qed
next
  case "2_1"
  then show ?case by (intro "2_1.prems"(1) [of s d 0]) (simp_all add: io_return_def)
next
  case "2_2"
  then show ?case by (intro "2_2.prems"(1) [of s d 0]) (simp_all add: io_return_def)
qed

lemma enforce_ok:
  assumes "spill_inv Z s d contents" "sp_segments s \<noteq> []"
  obtains s' d' n where "enforce_spill_budget (s, d) = (Inr (), s', d')" "spill_inv Z s' d' (drop n contents)"
    "n < length contents" "sp_disk_budget s' = sp_disk_budget s" "sp_compression s' = sp_compression s"
    "sp_disk_budget s = 0 \<Longrightarrow> n = 0"
    "sp_disk_budget s = 0 \<or> sp_bytes_on_disk s' \<le> sp_disk_budget s \<or> length (sp_segments s') \<le> 1"
proof (cases "sp_disk_budget s = 0")
  case True
  with assms show thesis
    by (intro that [of s d 0]) (auto simp: enforce_spill_budget_def spill_inv_def dest: list_all2_lengthD)
next
  case False
  have "length contents = length (sp_segments s)" using assms(1) by (auto simp: spill_inv_def dest: list_all2_lengthD)
  with False evict_segments_ok [OF assms(1) refl] that assms(2) show thesis
    by (simp add: enforce_spill_budget_def) metis
qed

section \<open>Appending\<close>

text \<open>The active segment: it holds its records, or is new and has no files yet.\<close>

definition seg_open :: "compressor \<Rightarrow> disk \<Rightarrow> spill_segment \<Rightarrow> spill_rec list \<Rightarrow> bool" where
  "seg_open Z d g recs \<longleftrightarrow>
     list_all (rec_ok Z (sg_compression g)) recs \<and>
     sg_name g = segment_name (sg_index g) (sg_compression g) \<and>
     sg_idx_name g = index_name_for_segment (sg_name g) \<and>
     file_content d (sg_name g) = (if recs = [] then None else Some (data_of recs)) \<and>
     file_content d (sg_idx_name g) = (if recs = [] then None else Some (index_file (sg_compression g) recs)) \<and>
     sg_bytes g = length (data_of recs) \<and> sg_index_bytes g = length (index_file (sg_compression g) recs) \<and>
     sg_records g = length recs"

lemma seg_open_iff: "recs \<noteq> [] \<Longrightarrow> length (data_of recs) \<le> USIZE_MAX \<Longrightarrow> seg_open Z d g recs \<longleftrightarrow> seg_holds Z d g recs"
  unfolding seg_open_def seg_holds_def by simp

definition extend_file :: "string option \<Rightarrow> string \<Rightarrow> string option" where
  "extend_file content bytes = Some ((case content of None \<Rightarrow> [] | Some c \<Rightarrow> c) @ bytes)"

lemma write_file_ok:
  assumes "faultless d"
  obtains d' where "io_bind (open_append n) (\<lambda>_. write_all n bytes) (s, d) = (Inr (), s, d')" "faultless d'"
    "\<And>m. file_content d' m = (if m = n then extend_file (file_content d n) bytes else file_content d m)"
proof (cases "file_content d n")
  case None
  let ?d = "append_bytes n bytes (d\<lparr>dk_files := AList.update n [] (dk_files d)\<rparr>)"
  from None assms show thesis
    by (intro that [of ?d])
       (simp_all add: io_bind_def open_append_def os_call_def write_all_def append_bytes_def faultless_def
          extend_file_def file_content_def update_conv')
next
  case (Some c)
  let ?d = "append_bytes n bytes d"
  from Some assms show thesis
    by (intro that [of ?d])
       (simp_all add: io_bind_def open_append_def os_call_def write_all_def append_bytes_def faultless_def
          extend_file_def file_content_def update_conv')
qed

lemma io_bind_ok: "m w = (Inr x, w') \<Longrightarrow> io_bind m f w = f x w'"
  by (cases w') (simp add: io_bind_def)

lemma io_bind_update: "io_bind (io_update f) k (s, d) = k () (f s, d)"
  by (simp add: io_bind_def io_update_def)

lemma io_bind_assoc: "io_bind (io_bind m f) g = io_bind m (\<lambda>x. io_bind (f x) g)"
  by (auto simp: io_bind_def fun_eq_iff split: prod.split sum.split)

text \<open>Writing a record to the active segment extends its two files and its counters.\<close>

lemma write_record_files:
  assumes "faultless d" "seg_open Z d g recs" "rec_ok Z (sg_compression g) r" "sp_segments s = pre @ [g]"
    "sp_compression s = sg_compression g"
  obtains d' where
    "write_record (er_id r) (er_line r) (er_record r) (s, d) =
       enforce_spill_budget (charge_segment (length (er_record r))
         (length (index_line (sg_bytes g) (index_len (sg_compression g) r) (er_id r) (crc32 (er_line r)))) s, d')"
    "faultless d'"
    "seg_open Z d' (g\<lparr>sg_bytes := sg_bytes g + length (er_record r),
        sg_index_bytes := sg_index_bytes g +
          length (index_line (sg_bytes g) (index_len (sg_compression g) r) (er_id r) (crc32 (er_line r))),
        sg_records := sg_records g + 1\<rparr>) (recs @ [r])"
    "\<And>m. m \<notin> own_names g \<Longrightarrow> file_content d' m = file_content d m"
proof -
  let ?entry = "index_line (sg_bytes g) (index_len (sg_compression g) r) (er_id r) (crc32 (er_line r))"
  have g: "sg_name g = segment_name (sg_index g) (sg_compression g)" "sg_idx_name g = index_name_for_segment (sg_name g)"
    "file_content d (sg_name g) = (if recs = [] then None else Some (data_of recs))"
    "file_content d (sg_idx_name g) = (if recs = [] then None else Some (index_file (sg_compression g) recs))"
    "sg_bytes g = length (data_of recs)"
    using assms(2) unfolding seg_open_def by blast+
  have ne: "sg_idx_name g \<noteq> sg_name g" unfolding g(1,2) by (rule index_name_not_segment)
  obtain d1 where d1: "io_bind (open_append (sg_name g)) (\<lambda>_. write_all (sg_name g) (er_record r)) (s, d) = (Inr (), s, d1)"
    "faultless d1" "\<And>m. file_content d1 m = (if m = sg_name g then extend_file (file_content d (sg_name g)) (er_record r) else file_content d m)"
    by (rule write_file_ok [OF assms(1)]) blast
  obtain d2 where d2: "io_bind (open_append (sg_idx_name g)) (\<lambda>_. write_all (sg_idx_name g) ?entry) (s, d1) = (Inr (), s, d2)"
    "faultless d2" "\<And>m. file_content d2 m = (if m = sg_idx_name g then extend_file (file_content d1 (sg_idx_name g)) ?entry else file_content d1 m)"
    by (rule write_file_ok [OF d1(2)]) blast
  have b1: "io_bind (io_bind (open_append (sg_name g)) (\<lambda>_. write_all (sg_name g) (er_record r))) f (s, d) = f () (s, d1)" for f :: "unit \<Rightarrow> unit spill_io"
    using d1(1) by (rule io_bind_ok)
  have b2: "io_bind (io_bind (open_append (sg_idx_name g)) (\<lambda>_. write_all (sg_idx_name g) ?entry)) f (s, d1) = f () (s, d2)" for f :: "unit \<Rightarrow> unit spill_io"
    using d2(1) by (rule io_bind_ok)
  have len: "(case sp_compression s of NoCompression \<Rightarrow> length (er_line r) | Zstd _ \<Rightarrow> length (er_record r)) =
      index_len (sg_compression g) r"
    by (simp add: index_len_def assms(5))
  have "write_record (er_id r) (er_line r) (er_record r) (s, d) =
      io_bind (io_bind (open_append (sg_name g)) (\<lambda>_. write_all (sg_name g) (er_record r))) (\<lambda>_.
      io_bind (io_bind (open_append (sg_idx_name g)) (\<lambda>_. write_all (sg_idx_name g) ?entry)) (\<lambda>_.
      io_bind (io_update (charge_segment (length (er_record r)) (length ?entry))) (\<lambda>_. enforce_spill_budget))) (s, d)"
    by (simp add: write_record_def Let_def io_bind_assoc assms(4) len)
  also have "\<dots> = enforce_spill_budget (charge_segment (length (er_record r)) (length ?entry) s, d2)"
    by (simp only: b1 b2 io_bind_update)
  finally have w: "write_record (er_id r) (er_line r) (er_record r) (s, d) = \<dots>" .
  have files: "file_content d2 (sg_name g) = Some (data_of (recs @ [r]))"
    "file_content d2 (sg_idx_name g) = Some (index_file (sg_compression g) (recs @ [r]))"
    using ne g(3-5) by (simp_all add: d1(3) d2(3) extend_file_def index_file_snoc) (simp_all add: index_file_def)
  have "seg_open Z d2 (g\<lparr>sg_bytes := sg_bytes g + length (er_record r), sg_index_bytes := sg_index_bytes g + length ?entry,
      sg_records := sg_records g + 1\<rparr>) (recs @ [r])"
    using assms(2,3) files g(5) unfolding seg_open_def by (simp add: index_file_snoc)
  moreover have "file_content d2 m = file_content d m" if "m \<notin> own_names g" for m
    using that g(1,2) by (auto simp: d1(3) d2(3) own_names_def)
  ultimately show thesis using that w d2(2) by blast
qed

text \<open>Before the write: the last segment takes the record, or a new one is started for it.\<close>

lemma active_segment:
  assumes "spill_inv Z s d contents" "n = length record_text"
  obtains s1 pre g prefix_contents recs where
    "s1 = (if needs_new_segment n s then start_spill_segment s else s)"
    "sp_segments s1 = pre @ [g]" "list_all2 (seg_holds Z d) pre prefix_contents" "seg_open Z d g recs"
    "sg_compression g = sp_compression s" "concat contents = concat prefix_contents @ recs"
    "sorted_wrt (<) (map sg_index (pre @ [g]))" "list_all (\<lambda>g. sg_index g < sp_next_segment s1) (pre @ [g])"
    "fresh_names d (sp_next_segment s1)" "sp_initialized s1" "sp_compression s1 = sp_compression s"
    "sp_disk_budget s1 = sp_disk_budget s"
    "sp_bytes_on_disk s1 = sum_list (map (\<lambda>g. sg_bytes g + sg_index_bytes g) (pre @ [g]))"
proof (cases "needs_new_segment n s")
  case True
  let ?g = "\<lparr>sg_index = sp_next_segment s, sg_name = segment_name (sp_next_segment s) (sp_compression s),
    sg_compression = sp_compression s, sg_bytes = 0,
    sg_idx_name = index_name_for_segment (segment_name (sp_next_segment s) (sp_compression s)),
    sg_index_bytes = 0, sg_records = 0\<rparr>"
  have "fresh_names d (sp_next_segment s)" using assms(1) by (simp add: spill_inv_def)
  then have "seg_open Z d ?g []" "fresh_names d (sp_next_segment s + 1)"
    by (simp_all add: seg_open_def fresh_names_def index_file_def)
  with True assms(1) show thesis
    by (intro that [of "start_spill_segment s" "sp_segments s" ?g contents "[]"])
       (auto simp: start_spill_segment_def Let_def spill_inv_def sorted_wrt_append list_all_iff)
next
  case False
  then have ne: "sp_segments s \<noteq> []" "sg_compression (last (sp_segments s)) = sp_compression s"
    by (auto simp: needs_new_segment_def Let_def)
  then obtain pre g where g: "sp_segments s = pre @ [g]" by (metis append_butlast_last_id)
  then obtain prefix_contents recs where c: "contents = prefix_contents @ [recs]"
    "list_all2 (seg_holds Z d) pre prefix_contents" "seg_holds Z d g recs"
    using assms(1) by (auto simp: spill_inv_def list_all2_append1 list_all2_Cons1)
  have "recs \<noteq> []" "length (data_of recs) \<le> USIZE_MAX" using c(3) unfolding seg_holds_def by blast+
  with c(3) seg_open_iff have "seg_open Z d g recs" by blast
  with False assms(1) g c ne show thesis
    by (intro that [of s pre g prefix_contents recs]) (simp_all add: spill_inv_def)
qed

lemma concat_drop: "concat (drop n xs) = drop (length (concat (take n xs))) (concat xs)"
proof -
  have "concat xs = concat (take n xs) @ concat (drop n xs)" by (metis append_take_drop_id concat_append)
  then show ?thesis by simp
qed

lemma append_spill_ok:
  assumes "spill_inv Z s d contents" "rec_ok Z (sp_compression s) r"
    and r: "er_id r = se_id session" "er_line r = spill_session_line session"
    and size: "length (data_of (concat contents @ [r])) \<le> USIZE_MAX"
  obtains s' d' contents' n where "append_spill Z session (s, d) = (Inr (), s', d')" "spill_inv Z s' d' contents'"
    "concat contents' = drop n (concat contents @ [r])" "n \<le> length (concat contents)"
    "sp_disk_budget s = 0 \<Longrightarrow> n = 0" "sp_disk_budget s' = sp_disk_budget s" "sp_compression s' = sp_compression s"
    "sp_disk_budget s = 0 \<or> sp_bytes_on_disk s' \<le> sp_disk_budget s \<or> length (sp_segments s') \<le> 1"
proof -
  obtain s1 pre g pc recs where a: "s1 = (if needs_new_segment (length (er_record r)) s then start_spill_segment s else s)"
    "sp_segments s1 = pre @ [g]" "list_all2 (seg_holds Z d) pre pc" "seg_open Z d g recs"
    "sg_compression g = sp_compression s" "concat contents = concat pc @ recs"
    "sorted_wrt (<) (map sg_index (pre @ [g]))" "list_all (\<lambda>g. sg_index g < sp_next_segment s1) (pre @ [g])"
    "fresh_names d (sp_next_segment s1)" "sp_initialized s1" "sp_compression s1 = sp_compression s"
    "sp_disk_budget s1 = sp_disk_budget s"
    "sp_bytes_on_disk s1 = sum_list (map (\<lambda>g. sg_bytes g + sg_index_bytes g) (pre @ [g]))"
    by (rule active_segment [OF assms(1) refl, of "er_record r"])
  have f: "faultless d" "sp_initialized s" using assms(1) by (simp_all add: spill_inv_def)
  let ?ib = "length (index_line (sg_bytes g) (index_len (sg_compression g) r) (er_id r) (crc32 (er_line r)))"
  let ?g = "g\<lparr>sg_bytes := sg_bytes g + length (er_record r), sg_index_bytes := sg_index_bytes g + ?ib,
      sg_records := sg_records g + 1\<rparr>"
  let ?s = "charge_segment (length (er_record r)) ?ib s1"
  obtain d1 where w: "write_record (er_id r) (er_line r) (er_record r) (s1, d) = enforce_spill_budget (?s, d1)"
    "faultless d1" "seg_open Z d1 ?g (recs @ [r])" "\<And>m. m \<notin> own_names g \<Longrightarrow> file_content d1 m = file_content d m"
    using write_record_files [OF f(1) a(4) _ a(2), of r] assms(2) a(5,11) by metis
  have st: "sp_segments ?s = pre @ [?g]" "sp_next_segment ?s = sp_next_segment s1" "sp_initialized ?s"
    "sp_compression ?s = sp_compression s" "sp_disk_budget ?s = sp_disk_budget s"
    "sp_bytes_on_disk ?s = sum_list (map (\<lambda>g. sg_bytes g + sg_index_bytes g) (pre @ [?g]))"
    using a by (simp_all add: charge_segment_def Let_def)
  have hold: "seg_holds Z d1 ?g (recs @ [r])"
    using w(3) size a(6) by (subst seg_open_iff [symmetric]) simp_all
  have others: "sg_index h \<noteq> sg_index g" if "h \<in> set pre" for h
    using a(7) that by (auto simp: sorted_wrt_append)
  have "fresh_names d1 (sp_next_segment s1)" using fresh_unaffected [of d _ g d1, OF a(9) _ w(4)] a(8) by simp
  then have inv: "spill_inv Z ?s d1 (pc @ [recs @ [r]])"
    using segs_unaffected [OF a(3) others w(4)] hold a(7,8) w(2)
    by (simp add: spill_inv_def st list_all2_appendI sorted_wrt_append)
  obtain s' d' n where e: "enforce_spill_budget (?s, d1) = (Inr (), s', d')" "spill_inv Z s' d' (drop n (pc @ [recs @ [r]]))"
    "n < length (pc @ [recs @ [r]])" "sp_disk_budget s' = sp_disk_budget s" "sp_compression s' = sp_compression s"
    "sp_disk_budget s = 0 \<Longrightarrow> n = 0"
    "sp_disk_budget s = 0 \<or> sp_bytes_on_disk s' \<le> sp_disk_budget s \<or> length (sp_segments s') \<le> 1"
    using enforce_ok [OF inv] st(1,4,5) by (metis append_is_Nil_conv list.distinct(1))
  have "append_spill Z session (s, d) = (Inr (), s', d')"
    using f(2) assms(2) w(1) e(1) a(1)
    by (simp add: append_spill_def io_bind_def ensure_spill_initialized_def rec_ok_def r Let_def)
  moreover have n: "n \<le> length pc" using e(3) by simp
  have "concat (drop n (pc @ [recs @ [r]])) = drop (length (concat (take n pc))) (concat contents @ [r])"
    using concat_drop [of n "pc @ [recs @ [r]]"] n a(6) by simp
  moreover have "length (concat (take n pc)) \<le> length (concat contents)"
    unfolding a(6) by (metis append_take_drop_id concat_append length_append trans_le_add1 le_add1)
  ultimately show thesis
    using e by (intro that [of s' d' "drop n (pc @ [recs @ [r]])" "length (concat (take n pc))"]) simp_all
qed

section \<open>Runs\<close>

text \<open>The worker appends every completed session and carries on after an error.\<close>

definition spill_sessions :: "compressor \<Rightarrow> session list \<Rightarrow> spill_state \<times> disk \<Rightarrow> spill_state \<times> disk" where
  "spill_sessions Z ss w = foldl (\<lambda>w x. snd (append_spill Z x w)) w ss"

definition spillable :: "compressor \<Rightarrow> compression \<Rightarrow> session \<Rightarrow> spill_rec \<Rightarrow> bool" where
  "spillable Z cmp x r \<longleftrightarrow> rec_ok Z cmp r \<and> er_id r = se_id x \<and> er_line r = spill_session_line x"

lemma spill_sessions_ok:
  assumes "spill_inv Z s d contents" "list_all2 (spillable Z cmp) ss rs"
    "length (data_of (concat contents @ rs)) \<le> USIZE_MAX" "sp_compression s = cmp"
  shows "\<exists>s' d' contents' n. spill_sessions Z ss (s, d) = (s', d') \<and> spill_inv Z s' d' contents' \<and>
    concat contents' = drop n (concat contents @ rs) \<and> (sp_disk_budget s = 0 \<longrightarrow> n = 0) \<and>
    (rs \<noteq> [] \<longrightarrow> n < length (concat contents @ rs)) \<and> (rs = [] \<longrightarrow> n = 0)"
  using assms(2,1,3,4)
proof (induction ss rs arbitrary: s d contents rule: list_all2_induct)
  case Nil
  then show ?case by (auto simp: spill_sessions_def intro!: exI [of _ contents])
next
  case (Cons x ss r rs)
  have r: "rec_ok Z (sp_compression s) r" "er_id r = se_id x" "er_line r = spill_session_line x"
    and size: "length (data_of (concat contents @ [r])) \<le> USIZE_MAX"
    using Cons.hyps(1) Cons.prems(2,3) by (simp_all add: spillable_def)
  obtain s1 d1 c1 n1 where a: "append_spill Z x (s, d) = (Inr (), s1, d1)" "spill_inv Z s1 d1 c1"
    "concat c1 = drop n1 (concat contents @ [r])" "n1 \<le> length (concat contents)"
    "sp_disk_budget s = 0 \<Longrightarrow> n1 = 0" "sp_disk_budget s1 = sp_disk_budget s" "sp_compression s1 = sp_compression s"
    by (rule append_spill_ok [OF Cons.prems(1) r size]) (rule that; assumption)
  have cr: "concat c1 @ rs = drop n1 (concat contents @ r # rs)" using a(3,4) by simp
  have "length (data_of (concat c1 @ rs)) \<le> USIZE_MAX"
  proof -
    have "data_of (concat contents @ r # rs) = data_of (take n1 (concat contents @ r # rs)) @ data_of (concat c1 @ rs)"
      unfolding cr data_of_simps(3) [symmetric] append_take_drop_id ..
    from arg_cong [OF this, of length] Cons.prems(2) show ?thesis unfolding length_append by linarith
  qed
  from Cons.IH [OF a(2) this] a(7) Cons.prems(3) obtain s' d' c' n where
    "spill_sessions Z ss (s1, d1) = (s', d')" "spill_inv Z s' d' c'" "concat c' = drop n (concat c1 @ rs)"
    "sp_disk_budget s1 = 0 \<longrightarrow> n = 0" "rs \<noteq> [] \<longrightarrow> n < length (concat c1 @ rs)" "rs = [] \<longrightarrow> n = 0" by auto
  with a cr show ?case
    by (intro exI [of _ s'] exI [of _ d'] exI [of _ c'] exI [of _ "n + n1"])
       (auto simp: spill_sessions_def add.commute)
qed

section \<open>A directory without segments\<close>

definition no_segments :: "disk \<Rightarrow> bool" where
  "no_segments d \<longleftrightarrow> list_all (\<lambda>(name, _). \<not> starts_with name ''seg-'') (dk_files d)"

lemma parse_segment_name_prefix:
  assumes "\<not> starts_with name ''seg-''"
  shows "parse_segment_name name = None"
proof -
  have "strip_prefix stem ''seg-'' = None" if "strip_suffix name ''.ndjson.zst'' = Some stem" for stem
  proof -
    from that have "name = stem @ ''.ndjson.zst''" by (simp add: strip_suffix_Some_iff)
    with assms show ?thesis by (auto simp: strip_prefix_None_iff starts_with_iff)
  qed
  moreover have "strip_prefix name ''seg-'' = None"
    using assms by (simp add: strip_prefix_None_iff starts_with_iff)
  ultimately show ?thesis by (simp add: parse_segment_name_def split: option.split)
qed

lemma scan_none:
  assumes "faultless d" "list_all (\<lambda>name. \<not> starts_with name ''seg-'') names"
  shows "io_each scan_entry names (s, d) = (Inr (map (\<lambda>_. None) names), s, d)"
  using assms(2)
proof (induction names)
  case (Cons name names)
  then have "scan_entry name (s, d) = (Inr None, s, d)"
    using assms(1)
    by (simp add: scan_entry_def io_bind_def dir_entry_def os_call_def faultless_def parse_segment_name_prefix io_return_def)
  with Cons show ?case by (simp add: io_bind_def io_return_def)
qed (simp add: io_return_def)

lemma map_filter_none: "List.map_filter id (map (\<lambda>_. None) xs) = []"
  by (induction xs) (simp_all add: List.map_filter_def)

lemma initialize_empty:
  assumes "faultless d" "no_segments d"
  shows "ensure_spill_initialized (spill_new sb budget cmp, d) = (Inr (), loaded_state [] (spill_new sb budget cmp), d)"
    and "spill_inv Z (loaded_state [] (spill_new sb budget cmp)) d []"
proof -
  have names: "list_all (\<lambda>name. \<not> starts_with name ''seg-'') (map fst (dk_files d))"
    using assms(2) by (auto simp: no_segments_def list_all_iff)
  show "ensure_spill_initialized (spill_new sb budget cmp, d) = (Inr (), loaded_state [] (spill_new sb budget cmp), d)"
    using assms(1)
    by (simp add: ensure_spill_initialized_def io_bind_def create_dir_all_def read_dir_def os_call_def faultless_def
        scan_none [OF assms(1) names] map_filter_none comp_def io_update_def enforce_spill_budget_def loaded_state_def spill_new_def io_return_def)
  have "file_content d name = None" if "starts_with name ''seg-''" for name
    using that assms(2) by (auto simp: file_content_def no_segments_def list_all_iff map_of_eq_None_iff)
  moreover have "starts_with (segment_name i c) ''seg-''" "starts_with (index_name_for_segment (segment_name i c)) ''seg-''" for i c
    by (simp_all add: segment_name_def index_name_for_segment_def starts_with_iff split: compression.split)
  ultimately show "spill_inv Z (loaded_state [] (spill_new sb budget cmp)) d []"
    using assms(1) by (simp add: spill_inv_def loaded_state_def spill_new_def fresh_names_def)
qed

lemma ensure_initialized: "sp_initialized s \<Longrightarrow> ensure_spill_initialized (s, d) = (Inr (), s, d)"
  by (simp add: ensure_spill_initialized_def)

lemma append_spill_first:
  assumes "faultless d" "no_segments d"
  shows "append_spill Z x (spill_new sb budget cmp, d) = append_spill Z x (loaded_state [] (spill_new sb budget cmp), d)"
    and "spill_read_snapshot (spill_new sb budget cmp, d) = spill_read_snapshot (loaded_state [] (spill_new sb budget cmp), d)"
  using initialize_empty(1) [OF assms, of sb budget cmp]
  by (simp_all add: append_spill_def spill_read_snapshot_def io_bind_def ensure_initialized loaded_state_def)

text \<open>
  C9: spilled sessions read back. On a disk that does not fail, starting from a directory
  without segments, with a compressor that decompresses what it compressed and records that
  together fit the address space, the verified reader returns the lines of the sessions
  appended, in order and with no corrupt record, less some of the oldest when the disk
  budget evicted them: none without a budget, and never the newest.
\<close>

theorem spill_roundtrip:
  assumes "lossless Z" "faultless d" "no_segments d" "list_all2 (spillable Z cmp) ss rs"
    "length (data_of rs) \<le> USIZE_MAX"
  shows "\<exists>snapshot w n. spill_read_snapshot (spill_sessions Z ss (spill_new segment_bytes budget cmp, d)) = (Inr snapshot, w) \<and>
    read_verified_snapshot Z snapshot = Inr (concat (map (\<lambda>x. spill_session_line x @ [CHR 0x0A]) (drop n ss)), 0) \<and>
    (budget = 0 \<longrightarrow> n = 0) \<and> (ss \<noteq> [] \<longrightarrow> n < length ss)"
proof -
  let ?s = "loaded_state [] (spill_new segment_bytes budget cmp)"
  have cmp: "sp_compression ?s = cmp" "sp_disk_budget ?s = budget" by (simp_all add: loaded_state_def spill_new_def)
  obtain s' d' c n where run: "spill_sessions Z ss (?s, d) = (s', d')" "spill_inv Z s' d' c" "concat c = drop n rs"
    "budget = 0 \<longrightarrow> n = 0" "rs \<noteq> [] \<longrightarrow> n < length rs" "rs = [] \<longrightarrow> n = 0"
    using spill_sessions_ok [OF initialize_empty(2) [OF assms(2,3)] assms(4) _ cmp(1)] assms(5) cmp(2) by auto
  have read: "spill_read_snapshot (spill_sessions Z ss (spill_new segment_bytes budget cmp, d)) = spill_read_snapshot (s', d')"
    using run(1) append_spill_first [OF assms(2,3)] by (cases ss) (simp_all add: spill_sessions_def)
  have len: "length ss = length rs" using assms(4) by (rule list_all2_lengthD)
  have "map (\<lambda>r. er_line r @ [CHR 0x0A]) rs = map (\<lambda>x. spill_session_line x @ [CHR 0x0A]) ss"
    using assms(4) by (induction rule: list_all2_induct) (simp_all add: spillable_def)
  then have "log_text (concat c) = concat (map (\<lambda>x. spill_session_line x @ [CHR 0x0A]) (drop n ss))"
    unfolding run(3) log_text_def drop_map [symmetric] by simp
  moreover obtain snapshot where "spill_read_snapshot (s', d') = (Inr snapshot, s', d')"
    "read_verified_snapshot Z snapshot = Inr (log_text (concat c), 0)"
    using read_log [OF assms(1) run(2)] by blast
  moreover have "ss \<noteq> [] \<longrightarrow> n < length ss" using run(5) len by auto
  ultimately show ?thesis
    using read run(4) by (intro exI [of _ snapshot] exI [of _ "(s', d')"] exI [of _ n]) simp
qed

section \<open>A failed index write\<close>

definition quiet_disk :: disk where
  "quiet_disk = \<lparr>dk_files = [], dk_fault = (\<lambda>_. None), dk_torn = (\<lambda>_. 0)\<rparr>"

definition plain_compressor :: compressor where
  "plain_compressor = \<lparr>zstd_encode = (\<lambda>_ bytes. Inr bytes), zstd_decode = Inr\<rparr>"

definition spill_session :: "nat \<Rightarrow> string \<Rightarrow> session" where
  "spill_session i url = (session_new 0 KindHttp ''GET'' url ''c'')\<lparr>se_id := i\<rparr>"

definition spilled :: "session \<Rightarrow> spill_rec" where
  "spilled x = \<lparr>er_id = se_id x, er_line = spill_session_line x, er_record = spill_session_line x @ [CHR 0x0A]\<rparr>"

lemma spillable_spilled: "se_id x \<le> USIZE_MAX \<Longrightarrow> spillable Z NoCompression x (spilled x)"
  by (simp add: spillable_def spilled_def rec_ok_def encode_spill_record_def)

theorem spill_roundtrip_witness:
  "\<exists>snapshot w. spill_read_snapshot (spill_sessions plain_compressor [spill_session 1 ''u'', spill_session 2 ''v'']
       (spill_new 1 0 NoCompression, quiet_disk)) = (Inr snapshot, w) \<and>
    read_verified_snapshot plain_compressor snapshot =
      Inr (spill_session_line (spill_session 1 ''u'') @ [CHR 0x0A] @ spill_session_line (spill_session 2 ''v'') @ [CHR 0x0A], 0)"
proof -
  let ?ss = "[spill_session 1 ''u'', spill_session 2 ''v'']"
  have "list_all2 (spillable plain_compressor NoCompression) ?ss (map spilled ?ss)"
    by (simp add: spillable_spilled spill_session_def USIZE_MAX_def)
  moreover have "length (data_of (map spilled ?ss)) \<le> USIZE_MAX" by code_simp
  moreover have "lossless plain_compressor" "faultless quiet_disk" "no_segments quiet_disk"
    by (simp_all add: lossless_def plain_compressor_def faultless_def quiet_disk_def no_segments_def)
  ultimately show ?thesis
    using spill_roundtrip [of plain_compressor quiet_disk NoCompression ?ss "map spilled ?ss" 1 0] by fastforce
qed

text \<open>The index file of the first segment cannot be written, and nothing of a write to it arrives.\<close>

definition first_segment :: string where "first_segment = segment_name 1 NoCompression"

definition index_full_disk :: disk where
  "index_full_disk = quiet_disk\<lparr>dk_fault :=
     (\<lambda>c. if c = WriteAll (index_name_for_segment first_segment) then Some (OtherError ''no space'') else None)\<rparr>"

definition first_state :: "nat \<Rightarrow> nat \<Rightarrow> spill_state" where
  "first_state bytes index_bytes =
     \<lparr>sp_segment_bytes = 1000, sp_disk_budget = 0, sp_compression = NoCompression, sp_next_segment = 2,
      sp_segments = [\<lparr>sg_index = 1, sg_name = first_segment, sg_compression = NoCompression, sg_bytes = bytes,
        sg_idx_name = index_name_for_segment first_segment, sg_index_bytes = index_bytes,
        sg_records = (if bytes = 0 then 0 else 1)\<rparr>],
      sp_bytes_on_disk = bytes + index_bytes, sp_evicted = 0, sp_initialized = True\<rparr>"

lemma names_differ: "index_name_for_segment first_segment \<noteq> first_segment"
  unfolding first_segment_def by (rule index_name_not_segment)

lemma failed_append:
  "append_spill Z a (spill_new 1000 0 NoCompression, index_full_disk) =
     (Inl (OtherError ''no space''), first_state 0 0,
      index_full_disk\<lparr>dk_files := [(first_segment, spill_session_line a @ [CHR 0x0A]),
        (index_name_for_segment first_segment, [])]\<rparr>)"
  using names_differ
  by (simp add: append_spill_def spill_new_def index_full_disk_def quiet_disk_def io_bind_def ensure_spill_initialized_def
      create_dir_all_def read_dir_def os_call_def io_return_def io_update_def loaded_state_def enforce_spill_budget_def
      encode_spill_record_def needs_new_segment_def start_spill_segment_def write_record_def open_append_def write_all_def
      append_bytes_def file_content_def first_state_def first_segment_def List.map_filter_def Let_def)

lemma next_append:
  "append_spill Z b (first_state 0 0, quiet_disk\<lparr>dk_files := [(first_segment, old), (index_name_for_segment first_segment, [])]\<rparr>) =
     (Inr (), first_state (length (spill_session_line b) + 1)
        (length (index_line 0 (length (spill_session_line b)) (se_id b) (crc32 (spill_session_line b)))),
      quiet_disk\<lparr>dk_files := [(first_segment, old @ spill_session_line b @ [CHR 0x0A]),
        (index_name_for_segment first_segment,
         index_line 0 (length (spill_session_line b)) (se_id b) (crc32 (spill_session_line b)))]\<rparr>)"
  using names_differ
  by (simp add: append_spill_def quiet_disk_def io_bind_def ensure_spill_initialized_def os_call_def io_update_def
      enforce_spill_budget_def encode_spill_record_def needs_new_segment_def write_record_def open_append_def write_all_def
      append_bytes_def file_content_def first_state_def charge_segment_def Let_def)

lemma lost_record:
  assumes "length (spill_session_line b) < length (spill_session_line a)"
    "spill_session_line a ! length (spill_session_line b) \<noteq> CHR 0x0A"
    "length (spill_session_line b) \<le> USIZE_MAX" "se_id b \<le> USIZE_MAX"
  shows "\<exists>snapshot w. spill_read_snapshot (first_state (length (spill_session_line b) + 1)
        (length (index_line 0 (length (spill_session_line b)) (se_id b) (crc32 (spill_session_line b)))),
      quiet_disk\<lparr>dk_files := [(first_segment, (spill_session_line a @ [CHR 0x0A]) @ spill_session_line b @ [CHR 0x0A]),
        (index_name_for_segment first_segment,
         index_line 0 (length (spill_session_line b)) (se_id b) (crc32 (spill_session_line b)))]\<rparr>) = (Inr snapshot, w) \<and>
    read_verified_snapshot Z snapshot = Inr ([], 1)"
proof -
  let ?b = "spill_session_line b" and ?a = "spill_session_line a"
  let ?text = "index_text 0 (length ?b) (se_id b) (crc32 ?b)"
  let ?data = "take (length ?b + 1) ((?a @ [CHR 0x0A]) @ ?b @ [CHR 0x0A])"
  have p: "parse_index_entry ?text = Some \<lparr>ie_offset = 0, ie_len = length ?b, ie_crc = crc32 ?b\<rparr>"
    by (rule parse_index_text) (use assms in simp_all)
  have "nth_opt ?data (length ?b) = Some (?a ! length ?b)"
    using assms(1) by (simp add: nth_opt_def nth_append)
  then have "read_entry Z NoCompression ?data ?text = None"
    using assms(2,3) by (simp add: read_entry_def p valid_bounds_def Let_def saturating_add_def)
  moreover have "utf8_valid (?text @ [CHR 0x0A])"
    by (rule utf8_valid_ascii) (simp add: index_text_chars byte_def)
  moreover have "text_lines [] (?text @ [CHR 0x0A]) = [?text]"
    using text_lines_concat [of "[?text]"] index_text_chars by simp
  ultimately have "read_snapshot_segment Z \<lparr>rd_data = (?a @ [CHR 0x0A]) @ ?b @ [CHR 0x0A], rd_index = Some (?text @ [CHR 0x0A]),
      rd_compression = NoCompression, rd_data_len = length ?b + 1, rd_index_len = length (?text @ [CHR 0x0A])\<rparr> = Inr ([], 1)"
    by (simp add: read_snapshot_segment_def Let_def read_entries_def saturating_add_def USIZE_MAX_def)
  then show ?thesis
    using names_differ
    by (simp add: spill_read_snapshot_def io_bind_def ensure_spill_initialized_def first_state_def open_segment_def
        open_read_def os_call_def quiet_disk_def file_content_def io_return_def read_verified_snapshot_def index_line_text
        saturating_add_def USIZE_MAX_def)
qed

text \<open>
  C38: a record can be lost after a failed write. When the index file cannot be written, the
  record is already in the data file but not counted; once the disk works again, the next
  session is appended with success, at an offset where the uncounted record stands, and the
  verified reader drops it as corrupt.
\<close>

theorem append_after_failed_index_write:
  "fst (append_spill Z (spill_session 1 ''longer'') (spill_new 1000 0 NoCompression, index_full_disk)) =
     Inl (OtherError ''no space'') \<and>
   (let (s, d) = snd (append_spill Z (spill_session 1 ''longer'') (spill_new 1000 0 NoCompression, index_full_disk));
        (r, w) = append_spill Z (spill_session 2 ''u'') (s, d\<lparr>dk_fault := (\<lambda>_. None)\<rparr>) in
    r = Inr () \<and>
    (\<exists>snapshot w'. spill_read_snapshot w = (Inr snapshot, w') \<and> read_verified_snapshot Z snapshot = Inr ([], 1)))"
proof -
  let ?a = "spill_session 1 ''longer''" and ?b = "spill_session 2 ''u''"
  have repaired: "index_full_disk\<lparr>dk_files := fs, dk_fault := (\<lambda>_. None)\<rparr> = quiet_disk\<lparr>dk_files := fs\<rparr>" for fs
    by (simp add: index_full_disk_def quiet_disk_def)
  have "length (spill_session_line ?b) < length (spill_session_line ?a)" by code_simp
  moreover have "spill_session_line ?a ! length (spill_session_line ?b) \<noteq> CHR 0x0A" by code_simp
  moreover have "length (spill_session_line ?b) \<le> USIZE_MAX" "se_id ?b \<le> USIZE_MAX" by code_simp+
  ultimately show ?thesis
    using lost_record [of ?b ?a Z] by (simp add: failed_append repaired next_append)
qed

end
