(* ===== verification/Trace_Worker.thy ===== *)
theory Trace_Worker
  imports Trace_Pending Spill_Log
begin

text \<open>
  The collector thread (\<open>rsproxy-trace/src/store/worker.rs\<close>, \<open>follow.rs\<close>, \<open>stats.rs\<close>): the one
  owner of the history, the pending sessions, the spill state and the follow streams, which
  handles commands one after the other. A command is handled at one instant of the clock.

  A follow stream is a bounded channel: its queue, its capacity, whether its receiver is alive
  and whether its liveness token is held.
\<close>

section \<open>The worker\<close>

record follower =
  fo_queue :: "session list"
  fo_capacity :: nat
  fo_connected :: bool
  fo_live :: bool

record trace_worker =
  wk_memory :: memory_store
  wk_pending :: pending_sessions
  wk_total_budget :: nat
  wk_queue_budget :: nat
  wk_spill :: "spill_state option"
  wk_spilled :: nat
  wk_spill_errors :: nat
  wk_last_spill_error :: "string option"
  wk_spill_corrupt :: nat
  wk_generation :: nat
  wk_followers :: "follower list"
  wk_follow_dropped :: nat

record trace_counters =
  tc_next_id :: nat
  tc_queue_dropped :: nat
  tc_queue_memory_dropped :: nat
  tc_queue_bytes :: nat

definition worker_new ::
  "nat \<Rightarrow> nat \<Rightarrow> nat \<Rightarrow> nat \<Rightarrow> nat \<Rightarrow> nat \<Rightarrow> spill_state option \<Rightarrow> trace_worker" where
  "worker_new now max_sessions total_budget resident_budget queue_budget body_limit spill =
     \<lparr>wk_memory = memory_new max_sessions resident_budget, wk_pending = pending_new now body_limit,
      wk_total_budget = total_budget, wk_queue_budget = queue_budget, wk_spill = spill, wk_spilled = 0,
      wk_spill_errors = 0, wk_last_spill_error = None, wk_spill_corrupt = 0, wk_generation = 0,
      wk_followers = [], wk_follow_dropped = 0\<rparr>"

definition io_error_text :: "io_error \<Rightarrow> string" where
  "io_error_text e = (case e of NotFound \<Rightarrow> ''No such file or directory (os error 2)'' | OtherError m \<Rightarrow> m)"

definition record_spill_error :: "io_error \<Rightarrow> trace_worker \<Rightarrow> trace_worker" where
  "record_spill_error e w =
     w\<lparr>wk_spill_errors := saturating_add (wk_spill_errors w) 1, wk_last_spill_error := Some (io_error_text e)\<rparr>"

section \<open>Follow streams\<close>

fun publish_to :: "session \<Rightarrow> follower list \<Rightarrow> nat \<Rightarrow> follower list \<times> nat" where
  "publish_to s [] dropped = ([], dropped)"
| "publish_to s (f # fs) dropped =
     (if \<not> fo_live f then publish_to s fs dropped
      else if \<not> fo_connected f then publish_to s fs dropped
      else if length (fo_queue f) < fo_capacity f
      then (let (fs', dropped') = publish_to s fs dropped in (f\<lparr>fo_queue := fo_queue f @ [s]\<rparr> # fs', dropped'))
      else (let (fs', dropped') = publish_to s fs (saturating_add dropped 1) in (f # fs', dropped')))"

definition publish :: "session \<Rightarrow> trace_worker \<Rightarrow> trace_worker" where
  "publish s w =
     (let (active, dropped) = publish_to s (wk_followers w) (wk_follow_dropped w) in
      w\<lparr>wk_followers := active, wk_follow_dropped := dropped\<rparr>)"

definition prune_followers :: "trace_worker \<Rightarrow> trace_worker" where
  "prune_followers w = w\<lparr>wk_followers := filter fo_live (wk_followers w)\<rparr>"

text \<open>
  A follow command: the backlog is the reply, and the new stream is registered when the reply
  can be delivered.
\<close>

definition follow :: "nat \<Rightarrow> nat \<Rightarrow> nat \<Rightarrow> bool \<Rightarrow> trace_worker \<Rightarrow> session list \<times> trace_worker" where
  "follow after backlog_limit capacity delivered w =
     (list_after after backlog_limit (wk_memory w),
      if delivered
      then w\<lparr>wk_followers := wk_followers w @
        [\<lparr>fo_queue = [], fo_capacity = max capacity 1, fo_connected = True, fo_live = True\<rparr>]\<rparr>
      else w)"

text \<open>\<open>TraceFollow::try_recv\<close> on the backlog kept by the subscriber and its channel.\<close>

definition follow_try_recv :: "session list \<Rightarrow> follower \<Rightarrow> session option \<times> session list \<times> follower" where
  "follow_try_recv backlog f =
     (case backlog of
        s # rest \<Rightarrow> (Some s, rest, f)
      | [] \<Rightarrow>
          (case fo_queue f of
             s # rest \<Rightarrow> (Some s, [], f\<lparr>fo_queue := rest\<rparr>)
           | [] \<Rightarrow> (None, [], f)))"

section \<open>Committing and budgets\<close>

definition commit :: "alloc \<Rightarrow> compressor \<Rightarrow> session \<Rightarrow> trace_worker \<times> disk \<Rightarrow> trace_worker \<times> disk" where
  "commit A Z s = (\<lambda>(w, d).
     let (w, d) =
       (case wk_spill w of
          None \<Rightarrow> (w, d)
        | Some sp \<Rightarrow>
            (case append_spill Z s (sp, d) of
               (Inr _, sp, d) \<Rightarrow>
                 (w\<lparr>wk_spill := Some sp, wk_spilled := saturating_add (wk_spilled w) 1, wk_last_spill_error := None\<rparr>, d)
             | (Inl e, sp, d) \<Rightarrow> (record_spill_error e (w\<lparr>wk_spill := Some sp\<rparr>), d)));
       w = w\<lparr>wk_memory := memory_insert A s (wk_memory w)\<rparr> in
     (if wk_followers w \<noteq> [] then publish s w else w, d))"

definition enforce_memory_budget :: "alloc \<Rightarrow> nat option \<Rightarrow> trace_worker \<Rightarrow> trace_worker" where
  "enforce_memory_budget A current w =
     (let budget = ms_budget (wk_memory w);
          w = (case current of
                 Some i \<Rightarrow> if budget < pn_bytes (wk_pending w)
                           then w\<lparr>wk_pending := abort_for_budget A i (wk_pending w)\<rparr> else w
               | None \<Rightarrow> w) in
      w\<lparr>wk_memory := evict_to_budget (budget - pn_bytes (wk_pending w)) (wk_memory w)\<rparr>)"

definition apply_event ::
  "alloc \<Rightarrow> compressor \<Rightarrow> nat \<Rightarrow> bool \<Rightarrow> trace_event \<Rightarrow> trace_worker \<times> disk \<Rightarrow> trace_worker \<times> disk" where
  "apply_event A Z now enforce e = (\<lambda>(w, d).
     let (completed, p) = pending_apply A now e (wk_pending w);
         w = w\<lparr>wk_pending := p\<rparr>;
         (w, d) = (case completed of Some s \<Rightarrow> commit A Z s (w, d) | None \<Rightarrow> (w, d)) in
     (if enforce then enforce_memory_budget A (Some (session_id e)) w else w, d))"

definition ensure_spill :: "trace_worker \<times> disk \<Rightarrow> trace_worker \<times> disk" where
  "ensure_spill = (\<lambda>(w, d).
     case wk_spill w of
       None \<Rightarrow> (w, d)
     | Some sp \<Rightarrow>
         (case ensure_spill_initialized (sp, d) of
            (Inr _, sp, d) \<Rightarrow> (w\<lparr>wk_spill := Some sp\<rparr>, d)
          | (Inl e, sp, d) \<Rightarrow> (record_spill_error e (w\<lparr>wk_spill := Some sp\<rparr>), d)))"

definition worker_clear :: "trace_worker \<times> disk \<Rightarrow> trace_worker \<times> disk" where
  "worker_clear = (\<lambda>(w, d).
     let w = w\<lparr>wk_memory := memory_clear (wk_memory w), wk_pending := pending_clear (wk_pending w), wk_spilled := 0,
               wk_spill_errors := 0, wk_last_spill_error := None, wk_spill_corrupt := 0,
               wk_generation := (wk_generation w + 1) mod 2 ^ 64\<rparr> in
     case wk_spill w of
       None \<Rightarrow> (w, d)
     | Some sp \<Rightarrow>
         (case clear_spill (sp, d) of
            (Inr _, sp, d) \<Rightarrow> (w\<lparr>wk_spill := Some sp\<rparr>, d)
          | (Inl e, sp, d) \<Rightarrow> (record_spill_error e (w\<lparr>wk_spill := Some sp\<rparr>), d)))"

section \<open>Statistics\<close>

record trace_stats =
  ts_sessions :: nat
  ts_max_sessions :: nat
  ts_dropped :: nat
  ts_queue_dropped :: nat
  ts_queue_capacity :: nat
  ts_queue_bytes :: nat
  ts_queue_budget :: nat
  ts_queue_memory_dropped :: nat
  ts_evicted_sessions :: nat
  ts_memory_bytes :: nat
  ts_completed_bytes :: nat
  ts_pending_bytes :: nat
  ts_resident_budget :: nat
  ts_total_bytes :: nat
  ts_memory_budget :: nat
  ts_next_id :: nat
  ts_pending_sessions :: nat
  ts_incomplete_sessions :: nat
  ts_orphan_events :: nat
  ts_follow_subscribers :: nat
  ts_follow_dropped :: nat
  ts_spilled :: nat
  ts_spill_name :: "string option"
  ts_spill_bytes :: nat
  ts_spill_segments :: nat
  ts_spill_segment_bytes :: nat
  ts_spill_disk_budget :: nat
  ts_spill_compression :: "string option"
  ts_spill_evicted :: nat
  ts_spill_errors :: nat
  ts_last_spill_error :: "string option"
  ts_spill_index_entries :: nat
  ts_spill_corrupt :: nat

definition compression_name :: "compression \<Rightarrow> string" where
  "compression_name c = (case c of NoCompression \<Rightarrow> ''none'' | Zstd _ \<Rightarrow> ''zstd'')"

definition stats_of :: "trace_worker \<Rightarrow> trace_counters \<Rightarrow> nat \<Rightarrow> trace_stats" where
  "stats_of w c queue_capacity =
     (let spill = (\<lambda>f. case wk_spill w of Some sp \<Rightarrow> f sp | None \<Rightarrow> 0);
          memory_bytes = saturating_add (ms_bytes (wk_memory w)) (pn_bytes (wk_pending w)) in
      \<lparr>ts_sessions = length (ms_sessions (wk_memory w)), ts_max_sessions = ms_max_sessions (wk_memory w),
       ts_dropped = tc_queue_dropped c, ts_queue_dropped = tc_queue_dropped c, ts_queue_capacity = queue_capacity,
       ts_queue_bytes = tc_queue_bytes c, ts_queue_budget = wk_queue_budget w,
       ts_queue_memory_dropped = tc_queue_memory_dropped c, ts_evicted_sessions = ms_evicted (wk_memory w),
       ts_memory_bytes = memory_bytes, ts_completed_bytes = ms_bytes (wk_memory w),
       ts_pending_bytes = pn_bytes (wk_pending w), ts_resident_budget = ms_budget (wk_memory w),
       ts_total_bytes = saturating_add memory_bytes (tc_queue_bytes c), ts_memory_budget = wk_total_budget w,
       ts_next_id = tc_next_id c, ts_pending_sessions = length (pn_sessions (wk_pending w)),
       ts_incomplete_sessions = pn_incomplete (wk_pending w), ts_orphan_events = pn_orphans (wk_pending w),
       ts_follow_subscribers = length (wk_followers w), ts_follow_dropped = wk_follow_dropped w,
       ts_spilled = wk_spilled w, ts_spill_name = map_option active_or_next_name (wk_spill w),
       ts_spill_bytes = spill sp_bytes_on_disk, ts_spill_segments = spill (\<lambda>sp. length (sp_segments sp)),
       ts_spill_segment_bytes = spill sp_segment_bytes, ts_spill_disk_budget = spill sp_disk_budget,
       ts_spill_compression = map_option (\<lambda>sp. compression_name (sp_compression sp)) (wk_spill w),
       ts_spill_evicted = spill sp_evicted, ts_spill_errors = wk_spill_errors w,
       ts_last_spill_error = wk_last_spill_error w,
       ts_spill_index_entries = spill (\<lambda>sp. sum_list (map sg_records (sp_segments sp))),
       ts_spill_corrupt = wk_spill_corrupt w\<rparr>)"

definition worker_stats ::
  "trace_counters \<Rightarrow> nat \<Rightarrow> trace_worker \<times> disk \<Rightarrow> trace_stats \<times> trace_worker \<times> disk" where
  "worker_stats c queue_capacity wd =
     (let (w, d) = ensure_spill wd; w = prune_followers w in (stats_of w c queue_capacity, w, d))"

section \<open>Commands\<close>

datatype command =
    CmdEvent trace_event nat
  | CmdEvents "trace_event list" nat
  | CmdList nat
  | CmdListAfter nat nat
  | CmdGet nat
  | CmdClear
  | CmdStats
  | CmdSpillPath
  | CmdSpillPaths
  | CmdSpillSnapshot
  | CmdSpillReadReport nat nat
  | CmdFollow nat nat nat bool
  | CmdShutdown

datatype reply =
    RepNothing
  | RepSessions "session list"
  | RepSession "session option"
  | RepStats trace_stats
  | RepPath "string option"
  | RepPaths "string list"
  | RepSnapshot "io_error + nat \<times> read_segment list"

definition release_queue_bytes :: "nat \<Rightarrow> trace_counters \<Rightarrow> trace_counters" where
  "release_queue_bytes n c = c\<lparr>tc_queue_bytes := tc_queue_bytes c - n\<rparr>"

definition spill_snapshot :: "trace_worker \<times> disk \<Rightarrow> (io_error + nat \<times> read_segment list) \<times> trace_worker \<times> disk" where
  "spill_snapshot = (\<lambda>(w, d).
     case wk_spill w of
       None \<Rightarrow> (Inr (wk_generation w, []), w, d)
     | Some sp \<Rightarrow>
         (case spill_read_snapshot (sp, d) of
            (Inr segs, sp, d) \<Rightarrow> (Inr (wk_generation w, segs), w\<lparr>wk_spill := Some sp\<rparr>, d)
          | (Inl e, sp, d) \<Rightarrow> (Inl e, w\<lparr>wk_spill := Some sp\<rparr>, d)))"

definition spill_read_report :: "nat \<Rightarrow> nat \<Rightarrow> trace_worker \<Rightarrow> trace_worker" where
  "spill_read_report generation corrupt w =
     (if generation = wk_generation w then
        w\<lparr>wk_spill_corrupt := corrupt,
          wk_last_spill_error := (if 0 < corrupt
            then Some (''skipped '' @ nat_to_string corrupt @ '' corrupt spill record(s)'')
            else wk_last_spill_error w)\<rparr>
      else w)"

fun handle :: "alloc \<Rightarrow> compressor \<Rightarrow> nat \<Rightarrow> nat \<Rightarrow> command \<Rightarrow>
    trace_counters \<Rightarrow> trace_worker \<times> disk \<Rightarrow> reply \<times> trace_counters \<times> trace_worker \<times> disk" where
  "handle A Z cap now (CmdEvent e n) c wd = (RepNothing, release_queue_bytes n c, apply_event A Z now True e wd)"
| "handle A Z cap now (CmdEvents es n) c wd =
     (let (w, d) = foldl (\<lambda>wd e. apply_event A Z now False e wd) wd es in
      (RepNothing, release_queue_bytes n c, enforce_memory_budget A None w, d))"
| "handle A Z cap now (CmdList limit) c wd = (RepSessions (memory_list limit (wk_memory (fst wd))), c, wd)"
| "handle A Z cap now (CmdListAfter after limit) c wd =
     (RepSessions (list_after after limit (wk_memory (fst wd))), c, wd)"
| "handle A Z cap now (CmdGet i) c wd = (RepSession (memory_get i (wk_memory (fst wd))), c, wd)"
| "handle A Z cap now CmdClear c wd = (RepNothing, c, worker_clear wd)"
| "handle A Z cap now CmdStats c wd = (let (st, wd) = worker_stats c cap wd in (RepStats st, c, wd))"
| "handle A Z cap now CmdSpillPath c wd =
     (let (w, d) = ensure_spill wd in (RepPath (map_option active_or_next_name (wk_spill w)), c, w, d))"
| "handle A Z cap now CmdSpillPaths c wd =
     (let (w, d) = ensure_spill wd in
      (RepPaths (case wk_spill w of Some sp \<Rightarrow> map sg_name (sp_segments sp) | None \<Rightarrow> []), c, w, d))"
| "handle A Z cap now CmdSpillSnapshot c wd = (let (r, wd) = spill_snapshot wd in (RepSnapshot r, c, wd))"
| "handle A Z cap now (CmdSpillReadReport generation corrupt) c wd =
     (RepNothing, c, spill_read_report generation corrupt (fst wd), snd wd)"
| "handle A Z cap now (CmdFollow after backlog_limit capacity delivered) c wd =
     (let (backlog, w) = follow after backlog_limit capacity delivered (fst wd) in (RepSessions backlog, c, w, snd wd))"
| "handle A Z cap now CmdShutdown c wd = (RepNothing, c, wd)"

end
