(* ===== verification/Trace_Budget.thy ===== *)
theory Trace_Budget
  imports Trace_Worker
begin

text \<open>
  What the collector keeps: the accounted bytes of the history and of the pending sessions are
  exact and together within the resident budget after every command, whatever the producers
  send, and a recorded session becomes the newest of the history.
\<close>

section \<open>Events against pending sessions\<close>

lemma pending_apply_others:
  assumes "pend_inv A p" "session_id e = i"
  shows "others A i (snd (pending_apply A now e p)) \<le> others A i p"
  using expire_stale_inv [OF assms(1), of now i] apply_now_ok [of A "expire_stale A now p" e now] assms(2)
  by (simp add: step_ok_def pending_apply_def)

text \<open>Every intermediate total of a run is addressable.\<close>

fun events_fit :: "alloc \<Rightarrow> nat \<Rightarrow> trace_event list \<Rightarrow> pending_sessions \<Rightarrow> bool" where
  "events_fit A now [] p = True"
| "events_fit A now (e # es) p =
     (let p' = snd (pending_apply A now e p) in pending_total A p' \<le> USIZE_MAX \<and> events_fit A now es p')"

lemma pending_run_inv:
  assumes "pend_inv A p" "events_fit A now es p" "list_all (\<lambda>e. session_id e = i) es"
  shows "pend_inv A (snd (pending_run A now es p)) \<and> others A i (snd (pending_run A now es p)) \<le> others A i p \<and>
    pn_body_limit (snd (pending_run A now es p)) = pn_body_limit p"
  using assms
proof (induction es arbitrary: p)
  case (Cons e es)
  let ?p = "snd (pending_apply A now e p)"
  have "pend_inv A ?p" "pn_body_limit ?p = pn_body_limit p"
    using pending_apply_ok [OF Cons.prems(1), of now e] Cons.prems(2) by (simp_all add: Let_def)
  moreover have "others A i ?p \<le> others A i p" using pending_apply_others [OF Cons.prems(1)] Cons.prems(3) by simp
  ultimately show ?case using Cons.IH [of ?p] Cons.prems(2,3) by (auto simp: Let_def case_prod_unfold)
qed simp

lemma total_absent: "map_of (pn_sessions p) i = None \<Longrightarrow> pending_total A p = others A i p"
  by (simp add: pending_total_def others_def map_of_eq_None_iff)

lemma end_removes: "map_of (pn_sessions (snd (pending_apply A now (EvEnd i info) p))) i = None"
  by (auto simp: pending_apply_def pending_remove_def orphaned_def delete_conv' split: option.split)

lemma closed_run_total:
  assumes "pend_inv A p" "events_fit A now (es @ [EvEnd i info]) p" "list_all (\<lambda>e. session_id e = i) es"
  shows "pend_inv A (snd (pending_run A now (es @ [EvEnd i info]) p)) \<and>
    pending_total A (snd (pending_run A now (es @ [EvEnd i info]) p)) \<le> pending_total A p"
proof -
  let ?p = "snd (pending_run A now (es @ [EvEnd i info]) p)"
  have all: "list_all (\<lambda>e. session_id e = i) (es @ [EvEnd i info])" using assms(3) by simp
  have "map_of (pn_sessions ?p) i = None"
    using end_removes [of A now i info] by (simp add: pending_run_append case_prod_unfold Let_def)
  then have "pending_total A ?p = others A i ?p" by (rule total_absent)
  with pending_run_inv [OF assms(1,2) all] others_total [OF assms(1), of i] show ?thesis by linarith
qed

section \<open>The worker\<close>

definition worker_inv :: "alloc \<Rightarrow> nat \<Rightarrow> trace_worker \<Rightarrow> bool" where
  "worker_inv A R w \<longleftrightarrow>
     mem_inv A (wk_memory w) \<and> pend_inv A (wk_pending w) \<and>
     ms_bytes (wk_memory w) + pn_bytes (wk_pending w) \<le> R \<and> ms_budget (wk_memory w) = R \<and> R < USIZE_MAX"

text \<open>A commit is one insertion into the history, whatever the spill does.\<close>

lemma commit_memory:
  "wk_memory (fst (commit A Z s (w, d))) = memory_insert A s (wk_memory w)"
  "wk_pending (fst (commit A Z s (w, d))) = wk_pending w"
  by (auto simp: commit_def publish_def record_spill_error_def Let_def split: option.split prod.split sum.split)

lemma memory_inserts_inv:
  assumes "mem_inv A m" "ms_budget m < USIZE_MAX"
  shows "mem_inv A (foldl (\<lambda>m s. memory_insert A s m) m cs) \<and>
    ms_budget (foldl (\<lambda>m s. memory_insert A s m) m cs) = ms_budget m"
  using assms by (induction cs arbitrary: m) (use memory_insert_result in auto)

lemma apply_event_parts:
  "wk_pending (fst (apply_event A Z now False e wd)) = snd (pending_apply A now e (wk_pending (fst wd)))"
  "wk_memory (fst (apply_event A Z now False e wd)) =
     (case fst (pending_apply A now e (wk_pending (fst wd))) of
        None \<Rightarrow> wk_memory (fst wd) | Some s \<Rightarrow> memory_insert A s (wk_memory (fst wd)))"
  by (cases wd; auto simp: apply_event_def commit_memory case_prod_unfold Let_def split: option.split)+

lemma apply_events_parts:
  "wk_pending (fst (foldl (\<lambda>wd e. apply_event A Z now False e wd) wd es)) = snd (pending_run A now es (wk_pending (fst wd)))"
  "wk_memory (fst (foldl (\<lambda>wd e. apply_event A Z now False e wd) wd es)) =
     foldl (\<lambda>m s. memory_insert A s m) (wk_memory (fst wd)) (fst (pending_run A now es (wk_pending (fst wd))))"
  by (induction es arbitrary: wd) (simp_all add: apply_event_parts case_prod_unfold Let_def split: option.split)

text \<open>Enforcing the budget restores the invariant when the sessions but the current one fit.\<close>

lemma enforce_memory_budget_inv:
  assumes "mem_inv A (wk_memory w)" "pend_inv A (wk_pending w)" "ms_budget (wk_memory w) = R" "R < USIZE_MAX"
    and "case current of Some i \<Rightarrow> others A i (wk_pending w) \<le> ms_budget (wk_memory w)
      | None \<Rightarrow> pending_total A (wk_pending w) \<le> ms_budget (wk_memory w)"
  shows "worker_inv A R (enforce_memory_budget A current w)"
proof -
  let ?p = "wk_pending (enforce_memory_budget A current w)" and ?b = "ms_budget (wk_memory w)"
  have bytes: "pn_bytes p = pending_total A p" if "pend_inv A p" for p using that by (simp add: pend_inv_def)
  have "pend_inv A ?p \<and> pn_bytes ?p \<le> ?b"
  proof (cases "\<exists>i. current = Some i \<and> ?b < pn_bytes (wk_pending w)")
    case True
    then obtain i where i: "current = Some i" "?b < pn_bytes (wk_pending w)" by blast
    have "others A i (wk_pending w) \<le> USIZE_MAX" using assms(3-5) i(1) by simp
    then have "pend_inv A (abort_for_budget A i (wk_pending w))"
      using abort_for_budget_ok [OF assms(2), of i] by (simp add: step_ok_def)
    with i abort_for_budget_ok [OF assms(2), of i] assms(5) bytes show ?thesis
      by (simp add: enforce_memory_budget_def Let_def)
  next
    case False
    then have "?p = wk_pending w" by (auto simp: enforce_memory_budget_def Let_def split: option.split)
    with False assms(2,5) bytes show ?thesis by (cases current) auto
  qed
  moreover have "wk_memory (enforce_memory_budget A current w) = evict_to_budget (?b - pn_bytes ?p) (wk_memory w)"
    by (simp add: enforce_memory_budget_def Let_def split: option.split)
  moreover note evict_to_budget_inv [OF assms(1), of "?b - pn_bytes ?p"]
  ultimately show ?thesis using assms(3,4) by (auto simp: worker_inv_def)
qed

section \<open>Commands keep the budget\<close>

text \<open>The commands the store submits: single events, or all the remaining events of one session.\<close>

definition submitted :: "command \<Rightarrow> bool" where
  "submitted cmd \<longleftrightarrow>
     (case cmd of
        CmdEvents es n \<Rightarrow> (\<exists>s. es = events_from_session s \<or> es = continuation_from_session s)
      | _ \<Rightarrow> True)"

text \<open>The live sessions stay addressable: a process whose data outgrows its address space has no memory left.\<close>

definition command_fits :: "alloc \<Rightarrow> nat \<Rightarrow> command \<Rightarrow> trace_worker \<Rightarrow> bool" where
  "command_fits A now cmd w \<longleftrightarrow>
     (case cmd of
        CmdEvent e n \<Rightarrow> events_fit A now [e] (wk_pending w)
      | CmdEvents es n \<Rightarrow> events_fit A now es (wk_pending w)
      | _ \<Rightarrow> True)"

lemma apply_event_inv:
  assumes "worker_inv A R w" "events_fit A now [e] (wk_pending w)"
  shows "worker_inv A R (fst (apply_event A Z now True e (w, d)))"
proof -
  let ?w = "fst (apply_event A Z now False e (w, d))"
  have enforce: "fst (apply_event A Z now True e (w, d)) = enforce_memory_budget A (Some (session_id e)) ?w"
    by (simp add: apply_event_def case_prod_unfold Let_def split: option.split)
  have inv: "mem_inv A (wk_memory w)" "pend_inv A (wk_pending w)" "ms_budget (wk_memory w) < USIZE_MAX"
    "pending_total A (wk_pending w) \<le> R" "ms_budget (wk_memory w) = R" "R < USIZE_MAX"
    using assms(1) by (simp_all add: worker_inv_def pend_inv_def)
  have p: "pend_inv A (wk_pending ?w)" "others A (session_id e) (wk_pending ?w) \<le> pending_total A (wk_pending w)"
    using pending_apply_ok [OF inv(2), of now e] assms(2) by (simp_all add: apply_event_parts Let_def)
  have m: "mem_inv A (wk_memory ?w)" "ms_budget (wk_memory ?w) = ms_budget (wk_memory w)"
    using memory_insert_result [OF inv(1,3)] inv(1) by (auto simp: apply_event_parts split: option.split)
  show ?thesis unfolding enforce
    by (rule enforce_memory_budget_inv) (use p m inv in auto)
qed

lemma apply_events_inv:
  assumes "worker_inv A R w" "events_fit A now es (wk_pending w)" "es = events_from_session s \<or> es = continuation_from_session s"
  shows "worker_inv A R (enforce_memory_budget A None (fst (foldl (\<lambda>wd e. apply_event A Z now False e wd) (w, d) es)))"
proof -
  let ?w = "fst (foldl (\<lambda>wd e. apply_event A Z now False e wd) (w, d) es)"
  have inv: "mem_inv A (wk_memory w)" "pend_inv A (wk_pending w)" "ms_budget (wk_memory w) < USIZE_MAX"
    "pending_total A (wk_pending w) \<le> R" "ms_budget (wk_memory w) = R" "R < USIZE_MAX"
    using assms(1) by (simp_all add: worker_inv_def pend_inv_def)
  obtain front where es: "es = front @ [EvEnd (se_id s) (end_from_session s)]" "list_all (\<lambda>e. session_id e = se_id s) front"
    using assms(3) middle_events_update [of s] by (auto simp: events_from_session_parts list_all_iff)
  have p: "pend_inv A (wk_pending ?w)" "pending_total A (wk_pending ?w) \<le> pending_total A (wk_pending w)"
    unfolding apply_events_parts fst_conv es(1)
    using closed_run_total [OF inv(2) assms(2) [unfolded es(1)] es(2)] by blast+
  have m: "mem_inv A (wk_memory ?w)" "ms_budget (wk_memory ?w) = ms_budget (wk_memory w)"
    using memory_inserts_inv [OF inv(1,3)] by (simp_all add: apply_events_parts)
  show ?thesis by (rule enforce_memory_budget_inv) (use p m inv in auto)
qed

lemma spill_keeps_resident:
  "wk_memory (fst (ensure_spill wd)) = wk_memory (fst wd)" "wk_pending (fst (ensure_spill wd)) = wk_pending (fst wd)"
  "wk_memory (fst (snd (spill_snapshot wd))) = wk_memory (fst wd)"
  "wk_pending (fst (snd (spill_snapshot wd))) = wk_pending (fst wd)"
  by (cases wd; simp add: ensure_spill_def spill_snapshot_def record_spill_error_def split: option.split prod.split sum.split)+

lemma worker_clear_resident:
  "wk_memory (fst (worker_clear wd)) = memory_clear (wk_memory (fst wd))"
  "wk_pending (fst (worker_clear wd)) = pending_clear (wk_pending (fst wd))"
  by (cases wd; simp add: worker_clear_def record_spill_error_def Let_def split: option.split prod.split sum.split)+

lemma worker_inv_cong:
  "worker_inv A R w \<Longrightarrow> wk_memory w' = wk_memory w \<Longrightarrow> wk_pending w' = wk_pending w \<Longrightarrow> worker_inv A R w'"
  by (simp add: worker_inv_def)

lemma handle_inv:
  assumes "worker_inv A R w" "submitted cmd" "command_fits A now cmd w"
  shows "worker_inv A R (fst (snd (snd (handle A Z cap now cmd c (w, d)))))"
proof (cases cmd)
  case (CmdEvent e n)
  with assms apply_event_inv [OF assms(1), of now e Z d] show ?thesis by (simp add: command_fits_def)
next
  case (CmdEvents es n)
  with assms obtain s where "es = events_from_session s \<or> es = continuation_from_session s"
    by (auto simp: submitted_def)
  from apply_events_inv [OF assms(1) _ this, of now Z d] assms(3) CmdEvents show ?thesis
    by (simp add: command_fits_def case_prod_unfold Let_def)
next
  case CmdClear
  have "worker_inv A R (fst (worker_clear (w, d)))"
    using assms(1) memory_clear_inv [of A "wk_memory w"] pend_inv_clear [of A "wk_pending w"]
    by (simp add: worker_inv_def worker_clear_resident) (simp add: memory_clear_def pending_clear_def)
  with CmdClear show ?thesis by simp
qed (use assms(1) in \<open>auto simp: worker_stats_def prune_followers_def follow_def spill_read_report_def case_prod_unfold
       Let_def spill_keeps_resident intro: worker_inv_cong\<close>)

text \<open>
  Runs of the collector: commands in any order, and in between whatever subscribers do with
  their streams.
\<close>

inductive collects :: "alloc \<Rightarrow> compressor \<Rightarrow> nat \<Rightarrow> trace_worker \<times> disk \<Rightarrow> trace_worker \<times> disk \<Rightarrow> bool"
  for A Z cap wd0 where
  collects_start: "collects A Z cap wd0 wd0"
| collects_command: "collects A Z cap wd0 (w, d) \<Longrightarrow> submitted cmd \<Longrightarrow> command_fits A now cmd w \<Longrightarrow>
     handle A Z cap now cmd c (w, d) = (r, c', wd') \<Longrightarrow> collects A Z cap wd0 wd'"
| collects_follower: "collects A Z cap wd0 (w, d) \<Longrightarrow> collects A Z cap wd0 (w\<lparr>wk_followers := fs\<rparr>, d)"

inductive_cases collects_cases: "collects A Z cap wd0 wd"

lemma collects_inv:
  assumes "collects A Z cap wd0 wd" "worker_inv A R (fst wd0)"
  shows "worker_inv A R (fst wd)"
  using assms
proof (induction rule: collects.induct)
  case (collects_command w d cmd now c r c' wd')
  from handle_inv [of A R w cmd now Z cap c d] collects_command show ?case by simp
next
  case (collects_follower w d fs)
  then show ?case by (auto intro: worker_inv_cong)
qed

lemma worker_new_inv:
  "resident < USIZE_MAX \<Longrightarrow> worker_inv A resident (worker_new now max_sessions total_budget resident queue_budget body_limit spill)"
  by (simp add: worker_inv_def worker_new_def memory_new_inv pend_inv_new memory_new_def pending_new_def)
     (simp add: mem_inv_def pend_inv_def pending_total_def alist_weight_def)

text \<open>
  The resident memory of the collector stays within its budget. After any sequence of
  commands that the store can submit and any behaviour of subscribers, the bytes accounted
  for the history and for the pending sessions are exactly the sums of the estimates of the
  sessions they hold, their sum is within the resident budget, and the history is within its
  session limit, as long as live sessions are addressable.
\<close>

theorem collector_within_budget:
  assumes "resident < USIZE_MAX"
    and "collects A Z cap (worker_new now max_sessions total_budget resident queue_budget body_limit spill, d0) (w, d)"
  shows "ms_bytes (wk_memory w) = sum_list (map (estimate_session_bytes A) (mem_abs (wk_memory w))) \<and>
    pn_bytes (wk_pending w) = sum_list (map (\<lambda>(_, e). estimate_session_bytes A (pe_session e)) (pn_sessions (wk_pending w))) \<and>
    ms_bytes (wk_memory w) + pn_bytes (wk_pending w) \<le> resident \<and>
    length (mem_abs (wk_memory w)) \<le> ms_max_sessions (wk_memory w)"
proof -
  have inv: "worker_inv A resident w"
    using collects_inv [OF assms(2)] worker_new_inv [OF assms(1)] by simp
  then have m: "mem_inv A (wk_memory w)" and p: "pend_inv A (wk_pending w)"
    and sum: "ms_bytes (wk_memory w) + pn_bytes (wk_pending w) \<le> resident" by (simp_all add: worker_inv_def)
  from m have "length (mem_abs (wk_memory w)) \<le> ms_max_sessions (wk_memory w)"
    by (simp add: mem_inv_def mem_abs_def)
  moreover from p have "pn_bytes (wk_pending w) =
      sum_list (map (\<lambda>(_, e). estimate_session_bytes A (pe_session e)) (pn_sessions (wk_pending w)))"
    by (simp add: pend_inv_def pending_total_def alist_weight_def entry_bytes_def)
  ultimately show ?thesis using mem_inv_bytes [OF m] sum by blast
qed

section \<open>A recorded session is the newest\<close>

lemma evict_keeps_last:
  assumes "mem_inv A m" "ms_sessions m \<noteq> []" "st_bytes (last (ms_sessions m)) \<le> budget"
  shows "ms_sessions (evict_to_budget budget m) \<noteq> []"
  using assms unfolding evict_to_budget_def
proof (induction "\<lambda>m :: memory_store. budget < ms_bytes m" m rule: evict_while.induct)
  case (1 m)
  show ?case
  proof (cases "budget < ms_bytes m")
    case True
    with "1.prems" obtain x y rest where m: "ms_sessions m = x # y # rest"
      by (cases "ms_sessions m"; cases "tl (ms_sessions m)") (auto simp: mem_inv_def)
    have "ms_sessions (evict_oldest m) = y # rest" by (simp add: evict_oldest_def m)
    with "1.hyps" True m evict_oldest_inv [OF "1.prems"(1)] "1.prems"(3) show ?thesis
      by (subst evict_while.simps) simp
  next
    case False
    with "1.prems"(2) show ?thesis by (subst evict_while.simps) simp
  qed
qed

lemma evict_keeps_newest:
  assumes "mem_inv A m" "mem_abs m = xs @ [t]" "estimate_session_bytes A t \<le> budget"
  obtains ys where "mem_abs (evict_to_budget budget m) = ys @ [t]"
proof -
  have "st_bytes (last (ms_sessions m)) = estimate_session_bytes A t" "ms_sessions m \<noteq> []"
  proof -
    have ne: "ms_sessions m \<noteq> []" using assms(2) by (auto simp: mem_abs_def)
    moreover have "st_session (last (ms_sessions m)) = t"
      using assms(2) ne unfolding mem_abs_def by (metis last_map last_snoc)
    ultimately show "st_bytes (last (ms_sessions m)) = estimate_session_bytes A t" "ms_sessions m \<noteq> []"
      using assms(1) by (auto simp: mem_inv_def list_all_iff)
  qed
  then have "mem_abs (evict_to_budget budget m) \<noteq> []"
    using evict_keeps_last [OF assms(1)] assms(3) by (simp add: mem_abs_def)
  moreover have "suffix (mem_abs (evict_to_budget budget m)) (xs @ [t])"
    using evict_to_budget_inv [OF assms(1), of budget] assms(2) by simp
  ultimately show thesis using that by (metis append_butlast_last_id last_snoc suffix_def last_appendR)
qed

lemma recorded_is_newest:
  assumes "worker_inv A R w" "ms_max_sessions (wk_memory w) \<noteq> 0"
    and fits: "events_fit A now (events_from_session s) (wk_pending w)"
    and room: "estimate_session_bytes A (truncate_bodies (pn_body_limit (wk_pending w)) s) + pn_bytes (wk_pending w) \<le> R"
    and pos: "0 < R"
  shows "memory_list 1 (wk_memory (fst (snd (snd (handle A Z cap now (CmdEvents (events_from_session s) n) c (w, d)))))) =
    [truncate_bodies (pn_body_limit (wk_pending w)) s]"
proof -
  let ?t = "truncate_bodies (pn_body_limit (wk_pending w)) s"
  let ?w = "fst (foldl (\<lambda>wd e. apply_event A Z now False e wd) (w, d) (events_from_session s))"
  have inv: "mem_inv A (wk_memory w)" "pend_inv A (wk_pending w)" "ms_budget (wk_memory w) = R" "R < USIZE_MAX"
    using assms(1) by (simp_all add: worker_inv_def)
  have run: "fst (pending_run A now (events_from_session s) (wk_pending w)) = [?t]"
    using replay_session [of A now s "wk_pending w"] by (metis fst_conv)
  have mem: "wk_memory ?w = memory_insert A ?t (wk_memory w)" by (simp add: apply_events_parts run)
  have ins: "mem_inv A (memory_insert A ?t (wk_memory w))" "ms_budget (memory_insert A ?t (wk_memory w)) = R"
    "\<exists>kept. mem_abs (memory_insert A ?t (wk_memory w)) = kept @ [?t]"
    using memory_insert_result [OF inv(1), of ?t] inv(3,4) assms(2) room pos by auto
  let ?front = "EvStart (se_id s) (start_from_session s) # middle_events s"
  have es: "events_from_session s = ?front @ [EvEnd (se_id s) (end_from_session s)]"
    by (simp add: events_from_session_parts)
  have "list_all (\<lambda>e. session_id e = se_id s) ?front"
    using middle_events_update [of s] by (auto simp: list_all_iff)
  from closed_run_total [OF inv(2) fits [unfolded es] this] inv(2)
  have p: "pn_bytes (wk_pending ?w) \<le> pn_bytes (wk_pending w)"
    unfolding apply_events_parts fst_conv es by (simp add: pend_inv_def del: append.simps pending_run.simps)
  obtain kept where kept: "mem_abs (memory_insert A ?t (wk_memory w)) = kept @ [?t]" using ins(3) by blast
  have "estimate_session_bytes A ?t \<le> R - pn_bytes (wk_pending ?w)" using room p by linarith
  from evict_keeps_newest [OF ins(1) kept this]
  obtain ys where "mem_abs (evict_to_budget (R - pn_bytes (wk_pending ?w)) (memory_insert A ?t (wk_memory w))) = ys @ [?t]"
    by blast
  moreover have "wk_memory (fst (snd (snd (handle A Z cap now (CmdEvents (events_from_session s) n) c (w, d))))) =
      evict_to_budget (R - pn_bytes (wk_pending ?w)) (memory_insert A ?t (wk_memory w))"
    by (simp add: case_prod_unfold Let_def enforce_memory_budget_def mem ins(2))
  ultimately show ?thesis by (simp add: memory_list_spec)
qed

text \<open>
  C29: what is recorded is what is listed. A completed session submitted as its events is
  reassembled field by field, with its body previews cut to the configured limit, and is the
  newest session of the history whenever it fits beside the pending sessions.
\<close>

theorem record_then_list:
  assumes "collects A Z cap (worker_new start max_sessions total_budget resident queue_budget body_limit spill, d0) (w, d)"
    and "resident < USIZE_MAX" "ms_max_sessions (wk_memory w) \<noteq> 0" "0 < resident"
    and "events_fit A now (events_from_session s) (wk_pending w)"
    and "estimate_session_bytes A (truncate_bodies (pn_body_limit (wk_pending w)) s) + pn_bytes (wk_pending w) \<le> resident"
  shows "memory_list 1 (wk_memory (fst (snd (snd (handle A Z cap now (CmdEvents (events_from_session s) n) c (w, d)))))) =
    [truncate_bodies (pn_body_limit (wk_pending w)) s]"
proof -
  have "worker_inv A resident w"
    using collects_inv [OF assms(1)] worker_new_inv [OF assms(2)] by simp
  from recorded_is_newest [OF this assms(3,5,6,4)] show ?thesis .
qed

section \<open>A concrete run\<close>

definition demo_alloc :: alloc where
  "demo_alloc = \<lparr>string_capacity = length, vec_capacity = (\<lambda>n. n), size_of_session = 640, size_of_event = 200,
     size_of_header = 48, size_of_string = 24, size_of_matched_rule = 56, size_of_frame = 80, size_of_tls = 160\<rparr>"

definition demo_session :: session where
  "demo_session = (session_new 5 KindHttp ''GET'' ''http://a/'' ''c'')
     \<lparr>se_id := 7, se_request_bytes := 6, se_req_body_head := ''abcdef'', se_status := Some 200,
      se_res_headers := [(''x'', ''y'')], se_flags := [''f'']\<rparr>"

definition demo_worker :: trace_worker where
  "demo_worker = worker_new 0 4 4000 3000 1000 4 None"

definition demo_counters :: trace_counters where
  "demo_counters = \<lparr>tc_next_id = 8, tc_queue_dropped = 0, tc_queue_memory_dropped = 0, tc_queue_bytes = 10\<rparr>"

definition demo_open :: command where
  "demo_open = CmdEvent (EvStart 3 (start_from_session demo_session)) 10"

definition demo_started :: "trace_worker \<times> disk" where
  "demo_started = snd (snd (handle demo_alloc plain_compressor 8 2 demo_open demo_counters (demo_worker, quiet_disk)))"

definition demo_partial :: session where
  "demo_partial = (session_new 2 KindHttp ''GET'' ''http://a/'' ''c'')\<lparr>se_id := 3, se_started_ms := 5\<rparr>"

definition demo_pending :: pending_sessions where
  "demo_pending = \<lparr>pn_sessions = [(3, \<lparr>pe_session = demo_partial, pe_touched = 2\<rparr>)], pn_body_limit = 4,
     pn_incomplete = 0, pn_orphans = 0, pn_bytes = 653, pn_last_cleanup = 0\<rparr>"

lemma demo_estimates:
  "estimate_session_bytes demo_alloc demo_partial = 653"
  "estimate_session_bytes demo_alloc (truncate_bodies 4 demo_session) = 732"
  by code_simp+

lemma demo_pending_eq:
  "pending_apply demo_alloc 2 (EvStart 3 (start_from_session demo_session)) (pending_new 0 4) = (None, demo_pending)"
proof -
  have "start_from_session demo_session = \<lparr>ss_kind = KindHttp, ss_started_ms = 5, ss_method = ''GET'', ss_url = ''http://a/'', ss_client = ''c''\<rparr>"
    by (simp add: start_from_session_def demo_session_def session_new_def)
  then show ?thesis
    using demo_estimates(1)
    by (simp add: pending_apply_def expire_stale_def CLEANUP_INTERVAL_def pending_start_def pending_new_def demo_pending_def
        demo_partial_def [symmetric] saturating_add_def USIZE_MAX_def)
qed

lemma demo_started_eq:
  "wk_pending (fst demo_started) = demo_pending" "wk_memory (fst demo_started) = memory_new 4 3000"
  by (simp_all add: demo_started_def demo_open_def apply_event_def demo_worker_def worker_new_def demo_pending_eq
      enforce_memory_budget_def evict_to_budget_def memory_new_def evict_while.simps demo_pending_def)



text \<open>While session 7 is assembled beside session 3.\<close>

definition demo_at :: "session \<Rightarrow> pending_sessions" where
  "demo_at s = demo_pending\<lparr>pn_sessions := [(3, \<lparr>pe_session = demo_partial, pe_touched = 2\<rparr>), (7, \<lparr>pe_session = s, pe_touched = 9\<rparr>)],
     pn_bytes := 653 + estimate_session_bytes demo_alloc s\<rparr>"

lemma demo_at_start:
  "pending_apply demo_alloc 9 (EvStart 7 (start_from_session demo_session)) demo_pending =
     (None, demo_at ((session_new 9 KindHttp ''GET'' ''http://a/'' ''c'')\<lparr>se_id := 7, se_started_ms := 5\<rparr>))"
proof -
  have "start_from_session demo_session = \<lparr>ss_kind = KindHttp, ss_started_ms = 5, ss_method = ''GET'', ss_url = ''http://a/'', ss_client = ''c''\<rparr>"
    by (simp add: start_from_session_def demo_session_def session_new_def)
  moreover have "estimate_session_bytes demo_alloc ((session_new 9 KindHttp ''GET'' ''http://a/'' ''c'')\<lparr>se_id := 7, se_started_ms := 5\<rparr>) = 653"
    by code_simp
  ultimately show ?thesis
    by (simp add: pending_apply_def expire_stale_def CLEANUP_INTERVAL_def pending_start_def demo_pending_def demo_at_def
        saturating_add_def USIZE_MAX_def)
qed

lemma demo_at_total: "pending_total demo_alloc (demo_at s) = 653 + estimate_session_bytes demo_alloc s"
  by (simp add: pending_total_def alist_weight_def demo_at_def entry_bytes_def demo_estimates(1))

lemma demo_at_update:
  assumes "estimate_session_bytes demo_alloc (f s) \<le> 1000"
  shows "pending_update demo_alloc 9 7 f (demo_at s) = demo_at (f s)"
  using assms by (simp add: pending_update_def demo_at_def saturating_add_def USIZE_MAX_def demo_pending_def Let_def)

lemma demo_at_fresh: "expire_stale demo_alloc 9 (demo_at s) = demo_at s" "pn_body_limit (demo_at s) = 4"
  by (simp_all add: expire_stale_def demo_at_def demo_pending_def CLEANUP_INTERVAL_def)

lemma demo_fits: "events_fit demo_alloc 9 (events_from_session demo_session) demo_pending"
proof -
  let ?s0 = "(session_new 9 KindHttp ''GET'' ''http://a/'' ''c'')\<lparr>se_id := 7, se_started_ms := 5\<rparr>"
  let ?s1 = "request_update None None [] [] [] ?s0"
  let ?s2 = "body_snapshot_update 4 BodyRequest ''abcdef'' 6 ?s1"
  let ?s3 = "response_update (Some 200) [(''x'', ''y'')] [] ?s2"
  have e: "estimate_session_bytes demo_alloc ?s0 \<le> 1000" "estimate_session_bytes demo_alloc ?s1 \<le> 1000"
    "estimate_session_bytes demo_alloc ?s2 \<le> 1000" "estimate_session_bytes demo_alloc ?s3 \<le> 1000"
    by code_simp+
  then have "653 + estimate_session_bytes demo_alloc ?s0 \<le> USIZE_MAX" "653 + estimate_session_bytes demo_alloc ?s1 \<le> USIZE_MAX"
    "653 + estimate_session_bytes demo_alloc ?s2 \<le> USIZE_MAX" "653 + estimate_session_bytes demo_alloc ?s3 \<le> USIZE_MAX"
    by (simp_all add: USIZE_MAX_def)
  moreover have "pending_total demo_alloc (snd (pending_apply demo_alloc 9 (EvEnd 7 (end_from_session demo_session)) (demo_at ?s3))) \<le> USIZE_MAX"
    by (simp add: pending_apply_def demo_at_fresh) (simp add: demo_at_def pending_remove_def pending_total_def alist_weight_def entry_bytes_def demo_estimates(1) USIZE_MAX_def)
  moreover have "events_from_session demo_session =
    [EvStart 7 (start_from_session demo_session), EvRequest 7 None None [] [] [], EvBodySnapshot 7 BodyRequest ''abcdef'' 6,
     EvResponse 7 (Some 200) [(''x'', ''y'')] [], EvEnd 7 (end_from_session demo_session)]"
    by (simp add: events_from_session_def) (simp add: demo_session_def session_new_def)
  ultimately show ?thesis
    using e by (simp add: demo_at_start demo_at_total demo_at_update pending_apply_def [of _ _ "EvRequest _ _ _ _ _ _"]
      pending_apply_def [of _ _ "EvBodySnapshot _ _ _ _"] pending_apply_def [of _ _ "EvResponse _ _ _ _"] demo_at_fresh)
qed

lemma demo_started_run: "collects demo_alloc plain_compressor 8 (demo_worker, quiet_disk) demo_started"
proof -
  let ?h = "handle demo_alloc plain_compressor 8 2 demo_open demo_counters (demo_worker, quiet_disk)"
  have "pending_total demo_alloc demo_pending \<le> USIZE_MAX"
    by (simp add: pending_total_def alist_weight_def demo_pending_def entry_bytes_def demo_estimates(1) USIZE_MAX_def)
  then have f: "command_fits demo_alloc 2 demo_open demo_worker"
    by (simp add: command_fits_def demo_open_def demo_worker_def worker_new_def demo_pending_eq)
  have s: "submitted demo_open" by (simp add: submitted_def demo_open_def)
  have "?h = (fst ?h, fst (snd ?h), snd (snd ?h))" by (simp only: prod.collapse)
  then show ?thesis unfolding demo_started_def by (rule collects_command [OF collects_start s f])
qed

theorem collector_within_budget_witness:
  "pn_bytes (wk_pending (fst demo_started)) = 653 \<and>
   ms_bytes (wk_memory (fst demo_started)) + pn_bytes (wk_pending (fst demo_started)) \<le> 3000"
proof -
  have "(3000 :: nat) < USIZE_MAX" by (simp add: USIZE_MAX_def)
  from collector_within_budget [OF this, of demo_alloc plain_compressor 8 0 4 4000 1000 4 None quiet_disk
      "fst demo_started" "snd demo_started"] demo_started_run
  show ?thesis by (simp add: demo_worker_def demo_started_eq demo_pending_def)
qed

theorem record_then_list_witness:
  "memory_list 1 (wk_memory (fst (snd (snd (handle demo_alloc plain_compressor 8 9
       (CmdEvents (events_from_session demo_session) 0) demo_counters demo_started))))) = [truncate_bodies 4 demo_session] \<and>
   se_req_body_head (truncate_bodies 4 demo_session) = ''abcd''"
proof -
  have "(3000 :: nat) < USIZE_MAX" by (simp add: USIZE_MAX_def)
  moreover have "se_req_body_head (truncate_bodies 4 demo_session) = ''abcd''" by code_simp
  moreover have "pn_body_limit demo_pending = 4" "pn_bytes demo_pending = 653" "ms_max_sessions (memory_new 4 3000) \<noteq> 0"
    by (simp_all add: demo_pending_def memory_new_def)
  moreover have "collects demo_alloc plain_compressor 8 (worker_new 0 4 4000 3000 1000 4 None, quiet_disk) (fst demo_started, snd demo_started)"
    using demo_started_run by (simp add: demo_worker_def)
  ultimately show ?thesis
    using record_then_list [of demo_alloc plain_compressor 8 0 4 4000 3000 1000 4 None quiet_disk
        "fst demo_started" "snd demo_started" 9 demo_session 0 demo_counters] demo_fits demo_estimates(2)
    by (simp add: demo_started_eq del: handle.simps events_fit.simps)
qed

end
