(* ===== verification/Cas_Loop.thy ===== *)
theory Cas_Loop
  imports Prelude
begin

text \<open>
  Compare-exchange loops on one atomic cell, as \<open>next_ruleset_version\<close> and \<open>try_reserve\<close> run
  them: a value is loaded, a new value is proposed from it (or the loop gives up), and a weak
  compare-exchange stores it. The exchange fails when the cell has changed, and may fail
  although it has not; a failed exchange loads the cell again.
\<close>

datatype cas_outcome =
    GaveUp
  | Stored nat
  | Retry nat

definition cas_attempt :: "('a \<Rightarrow> nat \<Rightarrow> nat option) \<Rightarrow> 'a \<Rightarrow> bool \<Rightarrow> nat \<Rightarrow> nat \<Rightarrow> cas_outcome \<times> nat" where
  "cas_attempt propose a spurious current cell =
     (case propose a current of
        None \<Rightarrow> (GaveUp, cell)
      | Some new \<Rightarrow> if cell = current \<and> \<not> spurious then (Stored new, new) else (Retry cell, cell))"

text \<open>
  The contract of a loop body: the values it proposes keep a property of the cell. What follows
  holds for every interleaving, since it speaks of one attempt against the cell as it is then.
\<close>

locale cas_loop =
  fixes propose :: "'a \<Rightarrow> nat \<Rightarrow> nat option" and cell_ok :: "nat \<Rightarrow> bool"
  assumes propose_ok: "cell_ok c \<Longrightarrow> propose a c = Some n \<Longrightarrow> cell_ok n"
begin

lemma attempt_ok: "cas_attempt propose a spurious current cell = (r, cell') \<Longrightarrow> cell_ok cell \<Longrightarrow> cell_ok cell'"
  by (auto simp: cas_attempt_def split: option.splits if_splits intro: propose_ok)

lemma attempt_stored:
  "cas_attempt propose a spurious current cell = (Stored n, cell') \<longleftrightarrow>
     current = cell \<and> \<not> spurious \<and> propose a cell = Some n \<and> cell' = n"
  by (auto simp: cas_attempt_def split: option.splits if_splits)

lemma attempt_other:
  "cas_attempt propose a spurious current cell = (r, cell') \<Longrightarrow> (\<And>n. r \<noteq> Stored n) \<Longrightarrow> cell' = cell"
  by (auto simp: cas_attempt_def split: option.splits if_splits)

text \<open>Without interference a second attempt decides.\<close>

lemma attempt_alone:
  assumes "cas_attempt propose a spurious current cell = (Retry c, cell')"
  shows "c = cell \<and> cell' = cell \<and>
    cas_attempt propose a False c cell' =
      (case propose a cell of None \<Rightarrow> (GaveUp, cell) | Some n \<Rightarrow> (Stored n, n))"
  using assms by (auto simp: cas_attempt_def split: option.splits if_splits)

end

end
