(* ===== verification/Trace_Store.thy ===== *)
theory Trace_Store
  imports Trace_Budget Cas_Loop
begin

text \<open>
  The submitting side of the trace store (\<open>store.rs\<close>, \<open>store/config.rs\<close>,
  \<open>store/counters.rs\<close>). Producers on any threads reserve queue bytes with a
  compare-exchange loop, try to send their command through a bounded channel, and give the
  bytes back when the channel is full or closed; the collector receives commands in order
  and releases their bytes after handling them. The state of the whole store holds the shared
  counters, the channel, the command being handled, the collector and, for every submission
  ever made, how far it has come; steps of different submissions interleave freely.
\<close>

section \<open>Configuration\<close>

record store_config =
  cf_max_sessions :: nat
  cf_queue_capacity :: nat
  cf_memory_budget :: nat
  cf_queue_memory_budget :: "nat option"
  cf_body_limit :: nat
  cf_spill :: "spill_state option"

definition DEFAULT_TRACE_QUEUE_MEMORY_BUDGET :: nat where
  "DEFAULT_TRACE_QUEUE_MEMORY_BUDGET = 64 * 1024 * 1024"

definition memory_partitions :: "store_config \<Rightarrow> nat \<times> nat" where
  "memory_partitions cf =
     (let budget = cf_memory_budget cf;
          automatic = (if budget = 0 then 0 else min (max (budget div 4) 1) DEFAULT_TRACE_QUEUE_MEMORY_BUDGET);
          queue = min (case cf_queue_memory_budget cf of Some q \<Rightarrow> q | None \<Rightarrow> automatic) budget in
      (queue, budget - queue))"

definition counters_new :: trace_counters where
  "counters_new = \<lparr>tc_next_id = 1, tc_queue_dropped = 0, tc_queue_memory_dropped = 0, tc_queue_bytes = 0\<rparr>"

section \<open>Submissions\<close>

text \<open>The body of the loop of \<open>try_reserve\<close>.\<close>

definition propose_reserve :: "nat \<Rightarrow> nat \<Rightarrow> nat \<Rightarrow> nat option" where
  "propose_reserve budget bytes queued =
     (if budget < saturating_add queued bytes then None else Some (saturating_add queued bytes))"

datatype producer =
    Reserving command nat nat
  | Sending command nat
  | Releasing nat
  | Dropping
  | DroppingMemory
  | DroppedMemory
  | Finished bool

record store_sys =
  sy_counters :: trace_counters
  sy_channel :: "command list"
  sy_current :: "command option"
  sy_alive :: bool
  sy_worker :: "trace_worker \<times> disk"
  sy_producers :: "producer list"

definition store_new :: "store_config \<Rightarrow> nat \<Rightarrow> disk \<Rightarrow> store_sys" where
  "store_new cf now d =
     (let (queue, resident) = memory_partitions cf in
      \<lparr>sy_counters = counters_new, sy_channel = [], sy_current = None, sy_alive = True,
       sy_worker = (worker_new now (cf_max_sessions cf) (cf_memory_budget cf) resident queue (cf_body_limit cf) (cf_spill cf), d),
       sy_producers = []\<rparr>)"

definition u64_next :: "nat \<Rightarrow> nat" where
  "u64_next n = (n + 1) mod (USIZE_MAX + 1)"

definition update_counters :: "(trace_counters \<Rightarrow> trace_counters) \<Rightarrow> store_sys \<Rightarrow> store_sys" where
  "update_counters f sy = sy\<lparr>sy_counters := f (sy_counters sy)\<rparr>"

text \<open>\<open>submit\<close> starts with the load of \<open>try_reserve\<close>.\<close>

definition begin_submit :: "command \<Rightarrow> nat \<Rightarrow> store_sys \<Rightarrow> store_sys" where
  "begin_submit cmd bytes sy =
     sy\<lparr>sy_producers := sy_producers sy @ [Reserving cmd bytes (tc_queue_bytes (sy_counters sy))]\<rparr>"

definition take_id :: "store_sys \<Rightarrow> nat \<times> store_sys" where
  "take_id sy = (tc_next_id (sy_counters sy), update_counters (\<lambda>c. c\<lparr>tc_next_id := u64_next (tc_next_id c)\<rparr>) sy)"

definition store_record :: "alloc \<Rightarrow> session \<Rightarrow> store_sys \<Rightarrow> nat \<times> store_sys" where
  "store_record A s sy =
     (let (i, sy) = take_id sy;
          s = s\<lparr>se_id := i\<rparr>;
          bytes = estimate_session_bytes A s in
      (i, begin_submit (CmdEvents (events_from_session s) bytes) bytes sy))"

definition store_start :: "alloc \<Rightarrow> session_start \<Rightarrow> store_sys \<Rightarrow> nat \<times> store_sys" where
  "store_start A start sy =
     (let (i, sy) = take_id sy;
          e = EvStart i start;
          bytes = estimated_bytes A e in
      (i, begin_submit (CmdEvent e bytes) bytes sy))"

definition store_finish :: "alloc \<Rightarrow> session \<Rightarrow> store_sys \<Rightarrow> store_sys" where
  "store_finish A s sy =
     (if se_id s = 0 then sy\<lparr>sy_producers := sy_producers sy @ [Finished False]\<rparr>
      else (let bytes = estimate_session_bytes A s in
            begin_submit (CmdEvents (continuation_from_session s) bytes) bytes sy))"

definition store_emit :: "alloc \<Rightarrow> trace_event \<Rightarrow> store_sys \<Rightarrow> store_sys" where
  "store_emit A e sy = (let bytes = estimated_bytes A e in begin_submit (CmdEvent e bytes) bytes sy)"

definition store_abort :: "alloc \<Rightarrow> nat \<Rightarrow> store_sys \<Rightarrow> store_sys" where
  "store_abort A i sy = store_emit A (EvAbort i) sy"

text \<open>The rest of \<open>submit\<close>: one access to the shared state at a time.\<close>

fun submit_step :: "nat \<Rightarrow> nat \<Rightarrow> bool \<Rightarrow> producer \<Rightarrow> store_sys \<Rightarrow> producer \<times> store_sys" where
  "submit_step capacity budget spurious (Reserving cmd bytes queued) sy =
     (case cas_attempt (propose_reserve budget) bytes spurious queued (tc_queue_bytes (sy_counters sy)) of
        (Stored _, cell) \<Rightarrow> (Sending cmd bytes, update_counters (\<lambda>c. c\<lparr>tc_queue_bytes := cell\<rparr>) sy)
      | (Retry actual, cell) \<Rightarrow> (Reserving cmd bytes actual, sy)
      | (GaveUp, cell) \<Rightarrow> (DroppingMemory, sy))"
| "submit_step capacity budget spurious (Sending cmd bytes) sy =
     (if sy_alive sy \<and> length (sy_channel sy) < capacity
      then (Finished True, sy\<lparr>sy_channel := sy_channel sy @ [cmd]\<rparr>)
      else (Releasing bytes, sy))"
| "submit_step capacity budget spurious (Releasing bytes) sy =
     (Dropping, update_counters (release_queue_bytes bytes) sy)"
| "submit_step capacity budget spurious Dropping sy =
     (Finished False, update_counters (\<lambda>c. c\<lparr>tc_queue_dropped := u64_next (tc_queue_dropped c)\<rparr>) sy)"
| "submit_step capacity budget spurious DroppingMemory sy =
     (DroppedMemory, update_counters (\<lambda>c. c\<lparr>tc_queue_dropped := u64_next (tc_queue_dropped c)\<rparr>) sy)"
| "submit_step capacity budget spurious DroppedMemory sy =
     (Finished False, update_counters (\<lambda>c. c\<lparr>tc_queue_memory_dropped := u64_next (tc_queue_memory_dropped c)\<rparr>) sy)"
| "submit_step capacity budget spurious (Finished r) sy = (Finished r, sy)"

definition producer_step :: "nat \<Rightarrow> nat \<Rightarrow> bool \<Rightarrow> nat \<Rightarrow> store_sys \<Rightarrow> store_sys" where
  "producer_step capacity budget spurious i sy =
     (let (p, sy) = submit_step capacity budget spurious (sy_producers sy ! i) sy in
      sy\<lparr>sy_producers := (sy_producers sy)[i := p]\<rparr>)"

section \<open>Queries and the collector\<close>

fun is_query :: "command \<Rightarrow> bool" where
  "is_query (CmdEvent e n) = False"
| "is_query (CmdEvents es n) = False"
| "is_query _ = True"

text \<open>\<open>query\<close> and the shutdown on drop wait for room in the channel.\<close>

definition send_query :: "command \<Rightarrow> store_sys \<Rightarrow> store_sys" where
  "send_query cmd sy = sy\<lparr>sy_channel := sy_channel sy @ [cmd]\<rparr>"

definition collector_recv :: "store_sys \<Rightarrow> store_sys" where
  "collector_recv sy =
     (case sy_channel sy of
        [] \<Rightarrow> sy
      | cmd # rest \<Rightarrow> sy\<lparr>sy_channel := rest, sy_current := Some cmd\<rparr>)"

definition collector_handle :: "alloc \<Rightarrow> compressor \<Rightarrow> nat \<Rightarrow> nat \<Rightarrow> command \<Rightarrow> store_sys \<Rightarrow> reply \<times> store_sys" where
  "collector_handle A Z capacity now cmd sy =
     (let (r, c, wd) = handle A Z capacity now cmd (sy_counters sy) (sy_worker sy) in
      (r, sy\<lparr>sy_counters := c, sy_worker := wd, sy_current := None, sy_alive := (cmd \<noteq> CmdShutdown)\<rparr>))"

section \<open>Runs of the store\<close>

inductive store_run :: "alloc \<Rightarrow> compressor \<Rightarrow> store_config \<Rightarrow> nat \<Rightarrow> disk \<Rightarrow> store_sys \<Rightarrow> bool"
  for A Z cf now0 d0 where
  run_new: "store_run A Z cf now0 d0 (store_new cf now0 d0)"
| run_record: "store_run A Z cf now0 d0 sy \<Longrightarrow> store_run A Z cf now0 d0 (snd (store_record A s sy))"
| run_start: "store_run A Z cf now0 d0 sy \<Longrightarrow> store_run A Z cf now0 d0 (snd (store_start A start sy))"
| run_finish: "store_run A Z cf now0 d0 sy \<Longrightarrow> store_run A Z cf now0 d0 (store_finish A s sy)"
| run_emit: "store_run A Z cf now0 d0 sy \<Longrightarrow> store_run A Z cf now0 d0 (store_emit A e sy)"
| run_producer: "store_run A Z cf now0 d0 sy \<Longrightarrow> i < length (sy_producers sy) \<Longrightarrow>
     store_run A Z cf now0 d0 (producer_step (max (cf_queue_capacity cf) 1) (fst (memory_partitions cf)) spurious i sy)"
| run_query: "store_run A Z cf now0 d0 sy \<Longrightarrow> is_query cmd \<Longrightarrow> sy_alive sy \<Longrightarrow>
     length (sy_channel sy) < max (cf_queue_capacity cf) 1 \<Longrightarrow> store_run A Z cf now0 d0 (send_query cmd sy)"
| run_recv: "store_run A Z cf now0 d0 sy \<Longrightarrow> sy_alive sy \<Longrightarrow> sy_current sy = None \<Longrightarrow>
     store_run A Z cf now0 d0 (collector_recv sy)"
| run_handle: "store_run A Z cf now0 d0 sy \<Longrightarrow> sy_current sy = Some cmd \<Longrightarrow> command_fits A now cmd (fst (sy_worker sy)) \<Longrightarrow>
     store_run A Z cf now0 d0 (snd (collector_handle A Z (max (cf_queue_capacity cf) 1) now cmd sy))"
| run_follower: "store_run A Z cf now0 d0 sy \<Longrightarrow> sy_worker sy = (w, d) \<Longrightarrow>
     store_run A Z cf now0 d0 (sy\<lparr>sy_worker := (w\<lparr>wk_followers := fs\<rparr>, d)\<rparr>)"

section \<open>The accounting of queued bytes is exact\<close>

fun queued_bytes :: "command \<Rightarrow> nat" where
  "queued_bytes (CmdEvent e n) = n"
| "queued_bytes (CmdEvents es n) = n"
| "queued_bytes _ = 0"

fun held_bytes :: "producer \<Rightarrow> nat" where
  "held_bytes (Sending cmd n) = n"
| "held_bytes (Releasing n) = n"
| "held_bytes _ = 0"

fun producer_ok :: "producer \<Rightarrow> bool" where
  "producer_ok (Reserving cmd n q) \<longleftrightarrow> submitted cmd \<and> queued_bytes cmd = n"
| "producer_ok (Sending cmd n) \<longleftrightarrow> submitted cmd \<and> queued_bytes cmd = n"
| "producer_ok _ \<longleftrightarrow> True"

definition in_flight :: "store_sys \<Rightarrow> nat" where
  "in_flight sy =
     sum_list (map queued_bytes (sy_channel sy)) +
     (case sy_current sy of Some cmd \<Rightarrow> queued_bytes cmd | None \<Rightarrow> 0) +
     sum_list (map held_bytes (sy_producers sy))"

definition store_inv :: "alloc \<Rightarrow> nat \<Rightarrow> nat \<Rightarrow> nat \<Rightarrow> store_sys \<Rightarrow> bool" where
  "store_inv A capacity queue_budget resident sy \<longleftrightarrow>
     tc_queue_bytes (sy_counters sy) = in_flight sy \<and> tc_queue_bytes (sy_counters sy) \<le> queue_budget \<and>
     length (sy_channel sy) \<le> capacity \<and>
     list_all submitted (sy_channel sy) \<and> pred_option submitted (sy_current sy) \<and>
     list_all producer_ok (sy_producers sy) \<and> worker_inv A resident (fst (sy_worker sy))"

lemma sum_list_map_update:
  "i < length xs \<Longrightarrow> sum_list (map f (xs[i := x])) + f (xs ! i) = sum_list (map f xs) + (f x :: nat)"
  by (induction xs arbitrary: i) (auto split: nat.split simp: nth_Cons)

interpretation reserve_loop: cas_loop "propose_reserve budget" "\<lambda>c. c \<le> budget"
  for budget
  by unfold_locales (auto simp: propose_reserve_def split: if_splits)

lemma handle_counters:
  "fst (snd (handle A Z cap now cmd c wd)) = release_queue_bytes (queued_bytes cmd) c"
  by (cases cmd) (simp_all add: case_prod_unfold Let_def release_queue_bytes_def)

lemma store_inv_begin:
  assumes "store_inv A capacity queue_budget resident sy" "submitted cmd" "queued_bytes cmd = n"
  shows "store_inv A capacity queue_budget resident (begin_submit cmd n sy)"
  using assms by (simp add: store_inv_def begin_submit_def in_flight_def)

lemma store_inv_take_id:
  "store_inv A capacity queue_budget resident sy \<Longrightarrow> store_inv A capacity queue_budget resident (snd (take_id sy))"
  by (simp add: store_inv_def take_id_def update_counters_def in_flight_def)

text \<open>A submission moves from \<open>p\<close> to \<open>p'\<close> while the rest of the store changes as it likes.\<close>

lemma store_inv_move:
  assumes inv: "store_inv A capacity queue_budget resident sy" and i: "i < length (sy_producers sy)"
    and p: "sy_producers sy ! i = p" "producer_ok p'"
    and kept: "sy_producers sy' = sy_producers sy" "sy_current sy' = sy_current sy" "sy_worker sy' = sy_worker sy"
    and channel: "length (sy_channel sy') \<le> capacity" "list_all submitted (sy_channel sy')"
    and bytes: "tc_queue_bytes (sy_counters sy') + held_bytes p + sum_list (map queued_bytes (sy_channel sy)) =
      tc_queue_bytes (sy_counters sy) + held_bytes p' + sum_list (map queued_bytes (sy_channel sy'))"
    and budget: "tc_queue_bytes (sy_counters sy') \<le> queue_budget"
  shows "store_inv A capacity queue_budget resident (sy'\<lparr>sy_producers := (sy_producers sy')[i := p']\<rparr>)"
proof -
  have "in_flight (sy'\<lparr>sy_producers := (sy_producers sy')[i := p']\<rparr>) = tc_queue_bytes (sy_counters sy')"
    using sum_list_map_update [OF i, of held_bytes p'] inv bytes
    by (simp add: store_inv_def in_flight_def kept p(1))
  moreover have "list_all producer_ok ((sy_producers sy)[i := p'])"
    using inv p(2) by (auto simp: store_inv_def list_all_iff dest: set_update_subset_insert [THEN subsetD])
  ultimately show ?thesis using inv channel budget by (simp add: store_inv_def kept)
qed

lemma held_in_flight:
  assumes "i < length (sy_producers sy)"
  shows "held_bytes (sy_producers sy ! i) \<le> in_flight sy"
proof -
  have "held_bytes (sy_producers sy ! i) \<le> sum_list (map held_bytes (sy_producers sy))"
    using assms by (intro member_le_sum_list) simp_all
  then show ?thesis by (simp add: in_flight_def)
qed

lemma reserve_attempt:
  assumes "cas_attempt (propose_reserve budget) n spurious q c = (Stored new, c')" "budget < USIZE_MAX"
  shows "c' = c + n \<and> c' \<le> budget"
proof -
  have "propose_reserve budget n c = Some c'" using assms(1) unfolding reserve_loop.attempt_stored by simp
  then show ?thesis using assms(2) by (auto simp: propose_reserve_def saturating_add_def split: if_splits)
qed

lemma producer_step_inv:
  assumes inv: "store_inv A capacity queue_budget resident sy" and i: "i < length (sy_producers sy)" and "queue_budget < USIZE_MAX"
  shows "store_inv A capacity queue_budget resident (producer_step capacity queue_budget spurious i sy)"
proof -
  let ?p = "sy_producers sy ! i"
  obtain p' sy' where step: "submit_step capacity queue_budget spurious ?p sy = (p', sy')" by fastforce
  have ok: "producer_ok ?p" using inv i by (simp add: store_inv_def list_all_length)
  note facts = inv [unfolded store_inv_def] held_in_flight [OF i]
  have "store_inv A capacity queue_budget resident (sy'\<lparr>sy_producers := (sy_producers sy')[i := p']\<rparr>)"
  proof (cases ?p)
    case (Reserving cmd n q)
    obtain r c where r: "cas_attempt (propose_reserve queue_budget) n spurious q (tc_queue_bytes (sy_counters sy)) = (r, c)"
      by fastforce
    show ?thesis
      using step ok facts r
      by (intro store_inv_move [OF inv i Reserving])
         (auto simp: Reserving update_counters_def split: cas_outcome.splits dest: reserve_attempt [OF _ assms(3)])
  next
    case (Releasing n)
    then show ?thesis
      using step ok facts by (intro store_inv_move [OF inv i Releasing])
        (auto simp: Releasing update_counters_def release_queue_bytes_def)
  next
    case (Sending cmd n)
    then show ?thesis
      using step ok facts by (intro store_inv_move [OF inv i Sending]) (auto split: if_splits)
  qed (use step facts ok in \<open>auto simp: update_counters_def intro!: store_inv_move [OF inv i refl]\<close>)
  then show ?thesis by (simp add: producer_step_def step)
qed

lemma collector_handle_inv:
  assumes inv: "store_inv A capacity queue_budget resident sy" and cmd: "sy_current sy = Some cmd"
    and fits: "command_fits A now cmd (fst (sy_worker sy))"
  shows "store_inv A capacity queue_budget resident (snd (collector_handle A Z capacity now cmd sy))"
proof -
  obtain w d where wd: "sy_worker sy = (w, d)" by fastforce
  have "worker_inv A resident (fst (snd (snd (handle A Z capacity now cmd (sy_counters sy) (w, d)))))"
    using handle_inv [of A resident w cmd now] inv cmd fits by (simp add: store_inv_def wd)
  moreover have "fst (snd (handle A Z capacity now cmd (sy_counters sy) (w, d))) = release_queue_bytes (queued_bytes cmd) (sy_counters sy)"
    by (rule handle_counters)
  ultimately show ?thesis
    using inv cmd by (simp add: store_inv_def collector_handle_def in_flight_def wd release_queue_bytes_def case_prod_unfold Let_def)
qed

lemma collector_recv_inv:
  "store_inv A capacity queue_budget resident sy \<Longrightarrow> sy_current sy = None \<Longrightarrow>
     store_inv A capacity queue_budget resident (collector_recv sy)"
  by (auto simp: store_inv_def collector_recv_def in_flight_def split: list.split)

lemma send_query_inv:
  "store_inv A capacity queue_budget resident sy \<Longrightarrow> is_query cmd \<Longrightarrow> length (sy_channel sy) < capacity \<Longrightarrow>
     store_inv A capacity queue_budget resident (send_query cmd sy)"
  by (cases cmd) (auto simp: store_inv_def send_query_def in_flight_def submitted_def)

lemma memory_partitions_sum: "fst (memory_partitions cf) + snd (memory_partitions cf) = cf_memory_budget cf"
  by (simp add: memory_partitions_def Let_def)

lemma store_run_inv:
  assumes "store_run A Z cf now0 d0 sy" "cf_memory_budget cf < USIZE_MAX"
  shows "store_inv A (max (cf_queue_capacity cf) 1) (fst (memory_partitions cf)) (snd (memory_partitions cf)) sy"
  using assms
proof (induction rule: store_run.induct)
  case run_new
  have "snd (memory_partitions cf) < USIZE_MAX" using run_new memory_partitions_sum [of cf] by linarith
  from worker_new_inv [OF this] show ?case
    by (simp add: store_new_def store_inv_def counters_new_def in_flight_def case_prod_unfold Let_def)
next
  case (run_record sy s)
  then show ?case
    by (auto simp: store_record_def case_prod_unfold Let_def submitted_def intro!: store_inv_begin store_inv_take_id)
next
  case (run_start sy start)
  then show ?case
    by (auto simp: store_start_def case_prod_unfold Let_def submitted_def intro!: store_inv_begin store_inv_take_id)
next
  case (run_finish sy s)
  then show ?case
    by (auto simp: store_finish_def Let_def submitted_def intro!: store_inv_begin) (simp add: store_inv_def in_flight_def)
next
  case (run_emit sy e)
  then show ?case by (auto simp: store_emit_def Let_def submitted_def intro!: store_inv_begin)
next
  case (run_producer sy i spurious)
  moreover have "fst (memory_partitions cf) < USIZE_MAX" using run_producer.prems memory_partitions_sum [of cf] by linarith
  ultimately show ?case by (intro producer_step_inv) simp_all
next
  case (run_follower sy w d fs)
  then have "worker_inv A (snd (memory_partitions cf)) w" by (simp add: store_inv_def)
  then have "worker_inv A (snd (memory_partitions cf)) (w\<lparr>wk_followers := fs\<rparr>)" by (auto intro: worker_inv_cong)
  with run_follower show ?case by (simp add: store_inv_def in_flight_def)
qed (simp_all add: send_query_inv collector_recv_inv collector_handle_inv)

text \<open>
  C6: the trace store keeps to its memory budget. However producers, queries, subscribers
  and the collector interleave, the counter of queued bytes is exactly what the queued
  commands, the command being handled and the submissions under way have reserved; it is
  within the queue share, and together with the history and the pending sessions it is within
  the configured budget; the channel holds no more commands than its capacity.
\<close>

theorem store_within_budget:
  assumes "store_run A Z cf now0 d0 sy" "cf_memory_budget cf < USIZE_MAX"
  shows "tc_queue_bytes (sy_counters sy) = in_flight sy \<and>
    tc_queue_bytes (sy_counters sy) \<le> fst (memory_partitions cf) \<and>
    tc_queue_bytes (sy_counters sy) + ms_bytes (wk_memory (fst (sy_worker sy))) + pn_bytes (wk_pending (fst (sy_worker sy)))
      \<le> cf_memory_budget cf \<and>
    length (sy_channel sy) \<le> max (cf_queue_capacity cf) 1"
  using store_run_inv [OF assms] memory_partitions_sum [of cf] by (simp add: store_inv_def worker_inv_def)

section \<open>A concrete run\<close>

text \<open>Two submissions load the counter; the first reserves and sends, the second fails its exchange.\<close>

definition demo_config :: store_config where
  "demo_config = \<lparr>cf_max_sessions = 4, cf_queue_capacity = 2, cf_memory_budget = 4000, cf_queue_memory_budget = Some 1000,
     cf_body_limit = 4, cf_spill = None\<rparr>"

definition demo_submitted :: store_sys where
  "demo_submitted =
     (let step = producer_step (max (cf_queue_capacity demo_config) 1) (fst (memory_partitions demo_config)) False;
          sy = snd (store_start demo_alloc (start_from_session demo_session) (store_new demo_config 0 quiet_disk));
          sy = store_emit demo_alloc (EvAbort 1) sy in
      step 1 (step 0 (step 0 sy)))"

lemma demo_submitted_run: "store_run demo_alloc plain_compressor demo_config 0 quiet_disk demo_submitted"
proof -
  let ?sy = "store_emit demo_alloc (EvAbort 1)
    (snd (store_start demo_alloc (start_from_session demo_session) (store_new demo_config 0 quiet_disk)))"
  have "length (sy_producers ?sy) = 2"
    by (simp add: store_emit_def store_start_def begin_submit_def take_id_def update_counters_def store_new_def Let_def case_prod_unfold)
  moreover have "length (sy_producers (producer_step c b sp i sy)) = length (sy_producers sy)" for c b sp i sy
    by (cases "sy_producers sy ! i")
       (auto simp: producer_step_def update_counters_def split: prod.split cas_outcome.split)
  moreover have "store_run demo_alloc plain_compressor demo_config 0 quiet_disk ?sy" by (intro run_new run_start run_emit)
  ultimately show ?thesis unfolding demo_submitted_def Let_def by (intro run_producer) simp_all
qed

theorem store_within_budget_witness:
  "sy_producers demo_submitted = [Finished True, Reserving (CmdEvent (EvAbort 1) 200) 200 213] \<and>
   tc_queue_bytes (sy_counters demo_submitted) = 213 \<and> in_flight demo_submitted = 213"
proof -
  have "cf_memory_budget demo_config < USIZE_MAX" by (simp add: demo_config_def USIZE_MAX_def)
  from store_within_budget [OF demo_submitted_run this]
  have "in_flight demo_submitted = tc_queue_bytes (sy_counters demo_submitted)" by simp
  moreover have "tc_queue_bytes (sy_counters demo_submitted) = 213" by code_simp
  moreover have "sy_producers demo_submitted = [Finished True, Reserving (CmdEvent (EvAbort 1) 200) 200 213]" by code_simp
  ultimately show ?thesis by simp
qed

end
