(* ===== verification/Snapshot_Version.thy ===== *)
theory Snapshot_Version
  imports Cas_Loop "HOL-Library.Word"
begin

text \<open>
  Snapshot versions (\<open>snapshot_support.rs\<close>): threads that publish rule sets draw versions from
  one atomic cell. The state holds the cell, the calls in progress with the wall clock they
  read and the value they loaded last, and the calls that returned, newest first, with the
  clock they read and their version. Versions are \<open>u64\<close>; the successor saturates.
\<close>

definition propose_version :: "64 word \<Rightarrow> nat \<Rightarrow> nat option" where
  "propose_version wall_clock current = Some (max (unat wall_clock) (saturating_add current 1))"

record version_state =
  vs_last :: nat
  vs_calls :: "nat \<rightharpoonup> 64 word \<times> nat"
  vs_returned :: "(64 word \<times> nat) list"

definition version_start :: version_state where
  "version_start = \<lparr>vs_last = 0, vs_calls = Map.empty, vs_returned = []\<rparr>"

text \<open>A thread reads the clock, takes at least 1, and loads the cell.\<close>

definition version_call :: "nat \<Rightarrow> 64 word \<Rightarrow> version_state \<Rightarrow> version_state" where
  "version_call t now st = st\<lparr>vs_calls := (vs_calls st)(t \<mapsto> (max now 1, vs_last st))\<rparr>"

definition version_attempt :: "nat \<Rightarrow> bool \<Rightarrow> version_state \<Rightarrow> version_state" where
  "version_attempt t spurious st =
     (case vs_calls st t of
        None \<Rightarrow> st
      | Some (wall_clock, current) \<Rightarrow>
          (case cas_attempt propose_version wall_clock spurious current (vs_last st) of
             (Stored new, cell) \<Rightarrow>
               st\<lparr>vs_last := cell, vs_calls := (vs_calls st)(t := None),
                  vs_returned := (wall_clock, new) # vs_returned st\<rparr>
           | (Retry observed, cell) \<Rightarrow> st\<lparr>vs_last := cell, vs_calls := (vs_calls st)(t \<mapsto> (wall_clock, observed))\<rparr>
           | (GaveUp, cell) \<Rightarrow> st\<lparr>vs_last := cell, vs_calls := (vs_calls st)(t := None)\<rparr>))"

inductive version_run :: "version_state \<Rightarrow> bool" where
  version_run_start: "version_run version_start"
| version_run_call: "version_run st \<Longrightarrow> vs_calls st t = None \<Longrightarrow> version_run (version_call t now st)"
| version_run_attempt: "version_run st \<Longrightarrow> version_run (version_attempt t spurious st)"

section \<open>Versions increase\<close>

interpretation version_loop: cas_loop propose_version "\<lambda>c. c \<le> USIZE_MAX"
proof
  fix c n :: nat and a :: "64 word"
  assume "c \<le> USIZE_MAX" "propose_version a c = Some n"
  moreover have "unat a < 2 ^ 64" using unsigned_less [where w = a and 'a = nat] by simp
  ultimately show "n \<le> USIZE_MAX" by (auto simp: propose_version_def USIZE_MAX_def saturating_add_def)
qed

definition version_inv :: "version_state \<Rightarrow> bool" where
  "version_inv st \<longleftrightarrow>
     vs_last st \<le> USIZE_MAX \<and>
     sorted_wrt (\<lambda>later earlier. earlier < later \<or> later = USIZE_MAX) (map snd (vs_returned st)) \<and>
     (\<forall>(wall_clock, v) \<in> set (vs_returned st). unat wall_clock \<le> v \<and> 1 \<le> v \<and> v \<le> vs_last st)"

lemma version_attempt_cases:
  assumes "vs_calls st t = Some (wall_clock, current)"
  obtains (returned) new where "propose_version wall_clock (vs_last st) = Some new" "current = vs_last st" "\<not> spurious"
      "version_attempt t spurious st = st\<lparr>vs_last := new, vs_calls := (vs_calls st)(t := None),
         vs_returned := (wall_clock, new) # vs_returned st\<rparr>"
  | (retried) "version_attempt t spurious st = st\<lparr>vs_calls := (vs_calls st)(t \<mapsto> (wall_clock, vs_last st))\<rparr>"
      "current \<noteq> vs_last st \<or> spurious"
proof -
  obtain r cell where att: "cas_attempt propose_version wall_clock spurious current (vs_last st) = (r, cell)" by fastforce
  show thesis
  proof (cases r)
    case (Stored new)
    have "current = vs_last st \<and> \<not> spurious \<and> propose_version wall_clock (vs_last st) = Some new \<and> cell = new"
      using att unfolding Stored version_loop.attempt_stored .
    with att Stored assms show thesis using returned by (simp add: version_attempt_def)
  next
    case (Retry c)
    have "c = vs_last st" "cell = vs_last st" using version_loop.attempt_alone [OF att [unfolded Retry]] by simp_all
    with att Retry assms show thesis
      using retried by (auto simp: version_attempt_def cas_attempt_def split: option.splits if_splits)
  next
    case GaveUp
    with att show thesis by (simp add: cas_attempt_def propose_version_def split: if_splits)
  qed
qed

lemma version_inv_attempt:
  assumes "version_inv st"
  shows "version_inv (version_attempt t spurious st)"
proof (cases "vs_calls st t")
  case (Some call)
  obtain wall_clock current where call: "vs_calls st t = Some (wall_clock, current)" using Some by (cases call) auto
  from call show ?thesis
  proof (cases rule: version_attempt_cases [where spurious = spurious])
    case (returned new)
    have new: "unat wall_clock \<le> new" "1 \<le> new" "vs_last st < new \<or> new = USIZE_MAX" "vs_last st \<le> new"
      using returned(1) assms by (auto simp: version_inv_def propose_version_def saturating_add_def USIZE_MAX_def max_def)
    moreover have "new \<le> USIZE_MAX" using version_loop.propose_ok [OF _ returned(1)] assms by (simp add: version_inv_def)
    ultimately show ?thesis
      using assms unfolding returned(4) version_inv_def by (fastforce simp: sorted_wrt_map)
  qed (use assms in \<open>simp add: version_inv_def\<close>)
qed (use assms in \<open>simp add: version_attempt_def\<close>)

lemma version_run_inv: "version_run st \<Longrightarrow> version_inv st"
  by (induction rule: version_run.induct)
     (auto simp: version_inv_attempt, auto simp: version_inv_def version_start_def version_call_def)

text \<open>
  C32: published versions increase. However the threads interleave and however often a weak
  exchange fails for no reason, every version handed out is larger than all versions handed
  out before it (until the counter is saturated), positive, and not behind the clock its
  caller read.
\<close>

theorem versions_increase:
  assumes "version_run st"
  shows "sorted_wrt (\<lambda>later earlier. earlier < later \<or> later = USIZE_MAX) (map snd (vs_returned st)) \<and>
    (\<forall>(wall_clock, v) \<in> set (vs_returned st). unat wall_clock \<le> v \<and> 1 \<le> v \<and> v \<le> USIZE_MAX)"
  using version_run_inv [OF assms] by (fastforce simp: version_inv_def)

text \<open>
  Publishing never waits for other threads. From any reachable state a thread that asks
  for a version and is left alone has one after two attempts of which the second does not
  fail spuriously.
\<close>

theorem version_returns_alone:
  assumes "version_run st" "vs_calls st t = Some (wall_clock, current)"
  shows "\<exists>v. vs_returned (version_attempt t False (version_attempt t spurious st)) = (wall_clock, v) # vs_returned st \<and>
    vs_calls (version_attempt t False (version_attempt t spurious st)) t = None"
  using assms(2)
proof (cases rule: version_attempt_cases [where spurious = spurious])
  case (returned new)
  then show ?thesis by (simp add: version_attempt_def [of t False])
next
  case retried
  let ?st = "version_attempt t spurious st"
  have "vs_calls ?st t = Some (wall_clock, vs_last ?st)" "vs_returned ?st = vs_returned st" using retried by simp_all
  from this(1) show ?thesis
    by (cases rule: version_attempt_cases [where spurious = False]) (use \<open>vs_returned ?st = vs_returned st\<close> in auto)
qed

section \<open>A concrete interleaving\<close>

text \<open>Two threads with the same clock: both load, the second thread wins, the first retries.\<close>

definition raced :: version_state where
  "raced = version_attempt 2 False (version_call 2 7 (version_call 1 7 version_start))"

lemma raced_run: "version_run raced" "version_run (version_attempt 1 False (version_attempt 1 False raced))"
proof -
  have "version_run (version_call 1 7 version_start)"
    by (rule version_run_call [OF version_run_start]) (simp add: version_start_def)
  then have "version_run (version_call 2 7 (version_call 1 7 version_start))"
    by (rule version_run_call) (simp add: version_start_def version_call_def)
  then show "version_run raced" unfolding raced_def by (rule version_run_attempt)
  then show "version_run (version_attempt 1 False (version_attempt 1 False raced))" by (intro version_run_attempt)
qed

theorem versions_increase_witness:
  "map snd (vs_returned (version_attempt 1 False (version_attempt 1 False raced))) = [8, 7] \<and> (7 :: nat) < 8"
proof -
  have "map snd (vs_returned (version_attempt 1 False (version_attempt 1 False raced))) = [8, 7]" by code_simp
  with versions_increase [OF raced_run(2)] show ?thesis by (auto simp: USIZE_MAX_def)
qed

theorem version_returns_alone_witness:
  "vs_calls raced 1 = Some (7, 0) \<and>
   (\<exists>v. vs_returned (version_attempt 1 False (version_attempt 1 False raced)) = (7, v) # vs_returned raced)"
proof -
  have "vs_calls raced 1 = Some (7, 0)" by code_simp
  with version_returns_alone [OF raced_run(1) this] show ?thesis by blast
qed

end
