(* ===== verification/Byte_Stream.thy ===== *)
theory Byte_Stream
  imports Rust_Str
begin

text \<open>
  Blocking byte streams as the readers of HTTP heads, bodies and WebSocket frames see them. A
  stream is the bytes that will still arrive, how it ends then (end of file, or an error), and
  the sizes of its next partial reads: a \<open>read\<close> may return fewer bytes than asked for, a
  \<open>read_exact\<close> does not.
\<close>

datatype io_kind =
    UnexpectedEof | ConnectionReset | ConnectionAborted | BrokenPipe | WouldBlock | TimedOut
  | InvalidData | OtherKind nat

record byte_stream =
  str_bytes :: string
  str_close :: "io_kind option"
  str_parts :: "nat list"

definition read_exact :: "nat \<Rightarrow> byte_stream \<Rightarrow> io_kind + string \<times> byte_stream" where
  "read_exact n st =
     (if n \<le> length (str_bytes st) then Inr (take n (str_bytes st), st\<lparr>str_bytes := drop n (str_bytes st)\<rparr>)
      else Inl (case str_close st of None \<Rightarrow> UnexpectedEof | Some e \<Rightarrow> e))"

text \<open>How many bytes the next partial read can give: at least one.\<close>

definition part_size :: "byte_stream \<Rightarrow> nat" where
  "part_size st = (case str_parts st of [] \<Rightarrow> length (str_bytes st) | p # ps \<Rightarrow> max p 1)"

definition read_some :: "nat \<Rightarrow> byte_stream \<Rightarrow> io_kind + string \<times> byte_stream" where
  "read_some n st =
     (if n \<noteq> 0 \<and> str_bytes st = [] then
        (case str_close st of None \<Rightarrow> Inr ([], st) | Some e \<Rightarrow> Inl e)
      else
        (let m = min n (part_size st) in
         Inr (take m (str_bytes st), st\<lparr>str_bytes := drop m (str_bytes st), str_parts := tl (str_parts st)\<rparr>)))"

text \<open>\<open>fill_buf\<close>: the bytes at hand, not yet consumed; the consumer drops what it uses.\<close>

definition fill_buf :: "byte_stream \<Rightarrow> io_kind + string \<times> byte_stream" where
  "fill_buf st =
     (if str_bytes st = [] then (case str_close st of None \<Rightarrow> Inr ([], st) | Some e \<Rightarrow> Inl e)
      else Inr (take (part_size st) (str_bytes st), st\<lparr>str_parts := tl (str_parts st)\<rparr>))"

definition consume :: "nat \<Rightarrow> byte_stream \<Rightarrow> byte_stream" where
  "consume n st = st\<lparr>str_bytes := drop n (str_bytes st)\<rparr>"

lemma part_size_pos: "str_bytes st \<noteq> [] \<Longrightarrow> 0 < part_size st"
  by (auto simp: part_size_def split: list.split)

lemma read_some_Inr:
  assumes "read_some n st = Inr (bs, st')"
  shows "str_bytes st = bs @ str_bytes st' \<and> length bs \<le> n \<and> str_close st' = str_close st \<and>
    (bs = [] \<longrightarrow> n = 0 \<or> str_bytes st = [] \<and> str_close st = None)"
  using assms part_size_pos [of st]
  by (auto simp: read_some_def Let_def min_def split: if_splits option.splits)

lemma read_exact_Inr:
  "read_exact n st = Inr (bs, st') \<longleftrightarrow>
     n \<le> length (str_bytes st) \<and> bs = take n (str_bytes st) \<and> st' = st\<lparr>str_bytes := drop n (str_bytes st)\<rparr>"
  by (auto simp: read_exact_def)

text \<open>
  A stream that bytes are written to: what it has taken, and how many more bytes it takes before
  a write fails (for ever, when there is no bound).
\<close>

record byte_sink =
  snk_out :: string
  snk_room :: "(nat \<times> io_kind) option"

definition sink_write :: "string \<Rightarrow> byte_sink \<Rightarrow> io_kind + byte_sink" where
  "sink_write bs snk =
     (case snk_room snk of
        None \<Rightarrow> Inr (snk\<lparr>snk_out := snk_out snk @ bs\<rparr>)
      | Some (n, e) \<Rightarrow>
          if length bs \<le> n then Inr \<lparr>snk_out = snk_out snk @ bs, snk_room = Some (n - length bs, e)\<rparr>
          else Inl e)"

lemma sink_write_Inr: "sink_write bs snk = Inr snk' \<Longrightarrow> snk_out snk' = snk_out snk @ bs"
  by (auto simp: sink_write_def split: option.splits prod.splits if_splits)

end
