(* ===== verification/Ws_Frame.thy ===== *)
theory Ws_Frame
  imports Trace_Model Utf8 Byte_Stream
begin

text \<open>
  WebSocket frames of the proxy engine (\<open>proxy/websocket_frame.rs\<close>, the decoder of
  \<open>proxy/websocket.rs\<close>): reading one frame from a blocking stream, parsing one from the
  front of a buffer, the incremental decoder, and what is recorded of a frame for the trace.
  Bytes are characters. The main results: both parsers agree, and the decoder gives the same frames however
  the bytes are cut into chunks.
\<close>

unbundle bit_operations_syntax

record ws_frame =
  wf_raw :: string
  wf_payload :: string
  wf_opcode :: nat
  wf_fin :: bool

section \<open>One frame\<close>

definition MAX_FRAME :: nat where "MAX_FRAME = 16 * 1024 * 1024"

definition be_bytes :: "string \<Rightarrow> nat" where
  "be_bytes s = foldl (\<lambda>n c. n * 256 + byte c) 0 s"

definition xor_byte :: "char \<Rightarrow> char \<Rightarrow> char" where
  "xor_byte a b = char_of (byte a XOR byte b)"

definition unmask :: "string option \<Rightarrow> string \<Rightarrow> string" where
  "unmask key_opt payload =
     (case key_opt of
        None \<Rightarrow> payload
      | Some key \<Rightarrow> map (\<lambda>(idx, c). xor_byte c (key ! (idx mod 4))) (List.enumerate 0 payload))"

definition read_length :: "string \<Rightarrow> nat \<Rightarrow> byte_stream \<Rightarrow> io_kind + (string \<times> nat) \<times> byte_stream" where
  "read_length raw len st =
     (if len = 126 then try_bind (read_exact 2 st) (\<lambda>(ext, st). Inr ((raw @ ext, be_bytes ext), st))
      else if len = 127 then try_bind (read_exact 8 st) (\<lambda>(ext, st). Inr ((raw @ ext, be_bytes ext), st))
      else Inr ((raw, len), st))"

definition read_mask :: "bool \<Rightarrow> string \<Rightarrow> byte_stream \<Rightarrow> io_kind + (string \<times> string option) \<times> byte_stream" where
  "read_mask masked raw st =
     (if masked then try_bind (read_exact 4 st) (\<lambda>(key, st). Inr ((raw @ key, Some key), st))
      else Inr ((raw, None), st))"

definition read_ws_frame :: "byte_stream \<Rightarrow> io_kind + (ws_frame \<times> byte_stream) option" where
  "read_ws_frame st =
     (case read_exact 2 st of
        Inl e \<Rightarrow> if e = UnexpectedEof then Inr None else Inl e
      | Inr (first, st) \<Rightarrow>
          (let fin = (byte (first ! 0) AND 0x80 \<noteq> 0);
               opcode = byte (first ! 0) AND 0x0F;
               masked = (byte (first ! 1) AND 0x80 \<noteq> 0);
               len = byte (first ! 1) AND 0x7F in
           try_bind (read_length first len st) (\<lambda>((raw, len), st).
           if MAX_FRAME < len then Inl InvalidData
           else
             try_bind (read_mask masked raw st) (\<lambda>((raw, key_opt), st).
             try_bind (read_exact len st) (\<lambda>(payload, st).
             Inr (Some (\<lparr>wf_raw = raw @ payload, wf_payload = unmask key_opt payload, wf_opcode = opcode, wf_fin = fin\<rparr>, st)))))))"

text \<open>The header of the buffer parser: the payload length, the mask, and where the payload starts.\<close>

definition prefix_length :: "string \<Rightarrow> nat \<Rightarrow> (nat \<times> nat) option" where
  "prefix_length buf len =
     (if len = 126 then if length buf < 2 + 2 then None else Some (be_bytes (take 2 (drop 2 buf)), 2 + 2)
      else if len = 127 then if length buf < 2 + 8 then None else Some (be_bytes (take 8 (drop 2 buf)), 2 + 8)
      else Some (len, 2))"

definition prefix_mask :: "bool \<Rightarrow> nat \<Rightarrow> string \<Rightarrow> (string option \<times> nat) option" where
  "prefix_mask masked pos buf =
     (if masked then if length buf < pos + 4 then None else Some (Some (take 4 (drop pos buf)), pos + 4)
      else Some (None, pos))"

definition parse_ws_frame_prefix :: "string \<Rightarrow> io_kind + (ws_frame \<times> nat) option" where
  "parse_ws_frame_prefix buf =
     (if length buf < 2 then Inr None
      else
        (let fin = (byte (buf ! 0) AND 0x80 \<noteq> 0);
             opcode = byte (buf ! 0) AND 0x0F;
             masked = (byte (buf ! 1) AND 0x80 \<noteq> 0);
             len = byte (buf ! 1) AND 0x7F in
         case prefix_length buf len of
           None \<Rightarrow> Inr None
         | Some (len, pos) \<Rightarrow>
             if MAX_FRAME < len then Inl InvalidData
             else
               (case prefix_mask masked pos buf of
                  None \<Rightarrow> Inr None
                | Some (key_opt, pos) \<Rightarrow>
                    let stop = pos + len in
                    if length buf < stop then Inr None
                    else Inr (Some (\<lparr>wf_raw = take stop buf, wf_payload = unmask key_opt (take (stop - pos) (drop pos buf)),
                                     wf_opcode = opcode, wf_fin = fin\<rparr>, stop)))))"

section \<open>The decoder\<close>

lemma prefix_length_cases:
  "prefix_length buf len = Some (n, pos) \<Longrightarrow> 2 \<le> length buf \<Longrightarrow> 2 \<le> pos \<and> pos \<le> length buf \<and> pos \<le> 10"
  by (auto simp: prefix_length_def split: if_splits)

lemma prefix_mask_cases:
  "prefix_mask masked pos buf = Some (key_opt, pos') \<Longrightarrow> pos \<le> length buf \<Longrightarrow> pos \<le> pos' \<and> pos' \<le> length buf \<and> pos' \<le> pos + 4"
  by (auto simp: prefix_mask_def split: if_splits)

lemma parse_used:
  assumes "parse_ws_frame_prefix buf = Inr (Some (f, n))"
  shows "2 \<le> n \<and> n \<le> length buf \<and> wf_raw f = take n buf"
  using assms
  by (auto simp: parse_ws_frame_prefix_def Let_def split: if_splits option.splits
      dest!: prefix_length_cases prefix_mask_cases)

function decode_loop :: "ws_frame list \<Rightarrow> string \<Rightarrow> (io_kind + ws_frame list) \<times> string" where
  "decode_loop frames buf =
     (case parse_ws_frame_prefix buf of
        Inl e \<Rightarrow> (Inl e, buf)
      | Inr None \<Rightarrow> (Inr frames, buf)
      | Inr (Some (f, used)) \<Rightarrow> decode_loop (frames @ [f]) (drop used buf))"
  by pat_completeness auto
termination by (relation "measure (\<lambda>(frames, buf). length buf)") (auto dest!: parse_used)

declare decode_loop.simps [simp del]

definition decoder_push :: "string \<Rightarrow> string \<Rightarrow> (io_kind + ws_frame list) \<times> string" where
  "decoder_push data buf = decode_loop [] (buf @ data)"

section \<open>Trace records\<close>

definition ws_opcode_name :: "nat \<Rightarrow> string" where
  "ws_opcode_name opcode =
     (if opcode = 0 then ''continuation'' else if opcode = 1 then ''text'' else if opcode = 2 then ''binary''
      else if opcode = 8 then ''close'' else if opcode = 9 then ''ping'' else if opcode = 10 then ''pong''
      else ''unknown'')"

definition ws_frame_encoding :: "nat \<Rightarrow> string \<Rightarrow> frame_data_encoding" where
  "ws_frame_encoding logical_opcode payload =
     (if logical_opcode = 1 then FrameUtf8
      else if 8 \<le> logical_opcode \<and> logical_opcode \<le> 10 \<and> utf8_valid payload then FrameUtf8
      else FrameHex)"

definition update_ws_trace_state :: "ws_frame \<Rightarrow> nat option \<Rightarrow> nat option" where
  "update_ws_trace_state f fragmented =
     (if (wf_opcode f = 1 \<or> wf_opcode f = 2) \<and> \<not> wf_fin f then Some (wf_opcode f)
      else if wf_opcode f = 1 \<or> wf_opcode f = 2 then None
      else if wf_opcode f = 0 \<and> wf_fin f then None
      else fragmented)"

definition record_ws_frame ::
  "nat \<Rightarrow> frame_direction \<Rightarrow> nat \<Rightarrow> ws_frame \<Rightarrow> frame_record list \<times> nat option \<Rightarrow> frame_record list \<times> nat option" where
  "record_ws_frame now direction trace_limit f = (\<lambda>(frames, fragmented).
     if 512 \<le> length frames then (frames, update_ws_trace_state f fragmented)
     else
       (let logical = (if wf_opcode f = 0 then case fragmented of Some k \<Rightarrow> k | None \<Rightarrow> 0 else wf_opcode f) in
        (frames @ [\<lparr>fr_direction = direction, fr_at_ms = now, fr_opcode = ws_opcode_name (wf_opcode f),
           fr_fin = wf_fin f, fr_payload_len = length (wf_payload f),
           fr_data_encoding = ws_frame_encoding logical (wf_payload f),
           fr_data = take trace_limit (wf_payload f), fr_truncated = trace_limit < length (wf_payload f)\<rparr>],
         update_ws_trace_state f fragmented)))"

lemma record_ws_frame_bounded:
  "length (fst t) \<le> 512 \<Longrightarrow> length (fst (record_ws_frame now direction limit f t)) \<le> 512"
  by (auto simp: record_ws_frame_def Let_def case_prod_unfold)

section \<open>Both parsers agree\<close>

definition cut_off :: "byte_stream \<Rightarrow> io_kind" where
  "cut_off st = (case str_close st of None \<Rightarrow> UnexpectedEof | Some e \<Rightarrow> e)"

lemma read_exact_at:
  "pos \<le> length (str_bytes st) \<Longrightarrow> read_exact n (st\<lparr>str_bytes := drop pos (str_bytes st)\<rparr>) =
     (if length (str_bytes st) < pos + n then Inl (cut_off st)
      else Inr (take n (drop pos (str_bytes st)), st\<lparr>str_bytes := drop (pos + n) (str_bytes st)\<rparr>))"
  by (auto simp: read_exact_def cut_off_def add.commute)

lemma read_length_prefix:
  assumes "2 \<le> length (str_bytes st)"
  shows "read_length (take 2 (str_bytes st)) len (st\<lparr>str_bytes := drop 2 (str_bytes st)\<rparr>) =
    (case prefix_length (str_bytes st) len of
       None \<Rightarrow> Inl (cut_off st)
     | Some (n, pos) \<Rightarrow> Inr ((take pos (str_bytes st), n), st\<lparr>str_bytes := drop pos (str_bytes st)\<rparr>))"
  using assms take_add [of 2 2 "str_bytes st"] take_add [of 2 8 "str_bytes st"]
  by (auto simp: read_length_def prefix_length_def read_exact_at)

lemma read_mask_prefix:
  assumes "pos \<le> length (str_bytes st)"
  shows "read_mask masked (take pos (str_bytes st)) (st\<lparr>str_bytes := drop pos (str_bytes st)\<rparr>) =
    (case prefix_mask masked pos (str_bytes st) of
       None \<Rightarrow> Inl (cut_off st)
     | Some (key_opt, pos') \<Rightarrow> Inr ((take pos' (str_bytes st), key_opt), st\<lparr>str_bytes := drop pos' (str_bytes st)\<rparr>))"
  using assms take_add [of pos 4 "str_bytes st"] by (auto simp: read_mask_def prefix_mask_def read_exact_at)

lemma read_ws_frame_prefix:
  "read_ws_frame st =
     (case parse_ws_frame_prefix (str_bytes st) of
        Inl k \<Rightarrow> Inl k
      | Inr (Some (f, n)) \<Rightarrow> Inr (Some (f, st\<lparr>str_bytes := drop n (str_bytes st)\<rparr>))
      | Inr None \<Rightarrow> if length (str_bytes st) < 2 \<and> cut_off st = UnexpectedEof then Inr None else Inl (cut_off st))"
proof (cases "length (str_bytes st) < 2")
  case True
  then show ?thesis by (simp add: read_ws_frame_def read_exact_def cut_off_def parse_ws_frame_prefix_def)
next
  case False
  let ?b = "str_bytes st"
  have nth: "take 2 ?b ! 0 = ?b ! 0" "take 2 ?b ! 1 = ?b ! 1" "2 \<le> length ?b" using False by simp_all
  have two: "read_exact 2 st = Inr (take 2 ?b, st\<lparr>str_bytes := drop 2 ?b\<rparr>)" using nth(3) by (simp add: read_exact_def)
  note unfold = read_ws_frame_def two parse_ws_frame_prefix_def Let_def
  let ?len = "byte (?b ! 1) AND 0x7F" and ?masked = "byte (?b ! 1) AND 0x80 \<noteq> 0"
  show ?thesis
  proof (cases "prefix_length ?b ?len")
    case None
    then show ?thesis unfolding unfold using nth False by (simp add: read_length_prefix)
  next
    case (Some r)
    obtain n pos where len: "prefix_length ?b ?len = Some (n, pos)" using Some by (cases r) simp
    then have pos: "pos \<le> length ?b" using prefix_length_cases nth(3) by blast
    show ?thesis
    proof (cases "prefix_mask ?masked pos ?b")
      case None
      then show ?thesis unfolding unfold using nth False len pos by (simp add: read_length_prefix read_mask_prefix)
    next
      case (Some q)
      obtain key_opt pos' where key: "prefix_mask ?masked pos ?b = Some (key_opt, pos')" using Some by (cases q) simp
      then have "pos' \<le> length ?b" using prefix_mask_cases pos by blast
      then show ?thesis
        unfolding unfold using nth False len pos key
        by (simp add: read_length_prefix read_mask_prefix read_exact_at take_add)
    qed
  qed
qed

section \<open>The decoder does not depend on the chunks\<close>

lemma prefix_length_more: "prefix_length buf len = Some r \<Longrightarrow> 2 \<le> length buf \<Longrightarrow> prefix_length (buf @ tail) len = Some r"
  by (auto simp: prefix_length_def split: if_splits)

lemma prefix_mask_more: "prefix_mask masked pos buf = Some r \<Longrightarrow> pos \<le> length buf \<Longrightarrow> prefix_mask masked pos (buf @ tail) = Some r"
  by (auto simp: prefix_mask_def split: if_splits)

lemma parse_more:
  assumes "parse_ws_frame_prefix buf \<noteq> Inr None"
  shows "parse_ws_frame_prefix (buf @ tail) = parse_ws_frame_prefix buf"
proof -
  have long: "2 \<le> length buf" using assms by (auto simp: parse_ws_frame_prefix_def split: if_splits)
  then have nth: "(buf @ tail) ! 0 = buf ! 0" "(buf @ tail) ! 1 = buf ! 1" by (auto simp: nth_append)
  let ?len = "byte (buf ! 1) AND 0x7F" and ?masked = "byte (buf ! 1) AND 0x80 \<noteq> 0"
  obtain n pos where len: "prefix_length buf ?len = Some (n, pos)"
    using assms long by (auto simp: parse_ws_frame_prefix_def Let_def split: if_splits option.splits)
  note len' = prefix_length_more [OF len long, of tail] prefix_length_cases [OF len long]
  show ?thesis
  proof (cases "MAX_FRAME < n")
    case True
    then show ?thesis unfolding parse_ws_frame_prefix_def Let_def nth using long len len' by simp
  next
    case False
    with assms long len obtain key_opt pos' where key: "prefix_mask ?masked pos buf = Some (key_opt, pos')"
      by (auto simp: parse_ws_frame_prefix_def Let_def split: if_splits option.splits)
    note key' = prefix_mask_more [OF key, of tail] prefix_mask_cases [OF key]
    from False assms long len key have "\<not> length buf < pos' + n"
      by (auto simp: parse_ws_frame_prefix_def Let_def)
    with False long len len' key key' show ?thesis unfolding parse_ws_frame_prefix_def Let_def nth by simp
  qed
qed

lemma decode_loop_cases:
  obtains (wrong) e where "parse_ws_frame_prefix buf = Inl e" "\<And>frames. decode_loop frames buf = (Inl e, buf)"
  | (partial) "parse_ws_frame_prefix buf = Inr None" "\<And>frames. decode_loop frames buf = (Inr frames, buf)"
  | (frame) f n where "parse_ws_frame_prefix buf = Inr (Some (f, n))" "2 \<le> n" "n \<le> length buf" "wf_raw f = take n buf"
      "\<And>frames. decode_loop frames buf = decode_loop (frames @ [f]) (drop n buf)"
proof (cases "parse_ws_frame_prefix buf")
  case (Inl e)
  then show thesis using wrong by (simp add: decode_loop.simps [of _ buf])
next
  case (Inr r)
  show thesis
  proof (cases r)
    case None
    with Inr show thesis using partial by (simp add: decode_loop.simps [of _ buf])
  next
    case (Some fn)
    with Inr show thesis using frame parse_used by (cases fn) (simp add: decode_loop.simps [of _ buf])
  qed
qed

lemma decode_loop_frames:
  "decode_loop frames buf = (map_sum id ((@) frames) (fst (decode_loop [] buf)), snd (decode_loop [] buf))"
proof (induction buf arbitrary: frames rule: length_induct)
  case (1 buf)
  show ?case
  proof (cases buf rule: decode_loop_cases)
    case (frame f n)
    then have "length (drop n buf) < length buf" by simp
    with 1 have "decode_loop fs (drop n buf) =
        (map_sum id ((@) fs) (fst (decode_loop [] (drop n buf))), snd (decode_loop [] (drop n buf)))" for fs by blast
    from this [of "frames @ [f]"] this [of "[f]"] frame(5) [of frames] frame(5) [of "[]"]
    show ?thesis by (cases "fst (decode_loop [] (drop n buf))") simp_all
  qed simp_all
qed

lemma decode_loop_more:
  "decode_loop frames (buf @ tail) =
     (case decode_loop frames buf of
        (Inl e, rest) \<Rightarrow> (Inl e, rest @ tail)
      | (Inr fs, rest) \<Rightarrow> decode_loop fs (rest @ tail))"
proof (induction buf arbitrary: frames rule: length_induct)
  case (1 buf)
  show ?case
  proof (cases buf rule: decode_loop_cases)
    case (wrong e)
    then show ?thesis using parse_more [of buf tail] by (simp add: decode_loop.simps [of _ "buf @ tail"])
  next
    case (frame f n)
    then have "parse_ws_frame_prefix (buf @ tail) = Inr (Some (f, n))" "length (drop n buf) < length buf"
      using parse_more [of buf tail] by simp_all
    with 1 frame show ?thesis by (simp add: decode_loop.simps [of _ "buf @ tail"])
  qed simp
qed

lemma decode_loop_split:
  "decode_loop frames buf = (Inr fs, rest) \<Longrightarrow>
     parse_ws_frame_prefix rest = Inr None \<and> concat (map wf_raw frames) @ buf = concat (map wf_raw fs) @ rest"
proof (induction buf arbitrary: frames rule: length_induct)
  case (1 buf)
  show ?case
  proof (cases buf rule: decode_loop_cases)
    case (frame f n)
    then have "length (drop n buf) < length buf" by simp
    with 1 frame have "parse_ws_frame_prefix rest = Inr None \<and>
        concat (map wf_raw (frames @ [f])) @ drop n buf = concat (map wf_raw fs) @ rest" by metis
    then show ?thesis using frame(4) by simp
  qed (use 1 in simp_all)
qed

lemma parse_partial_short:
  assumes "parse_ws_frame_prefix buf = Inr None"
  shows "length buf < MAX_FRAME + 14"
proof (rule ccontr)
  assume long: "\<not> length buf < MAX_FRAME + 14"
  then have two: "2 \<le> length buf" by simp
  let ?len = "byte (buf ! 1) AND 0x7F" and ?masked = "byte (buf ! 1) AND 0x80 \<noteq> 0"
  obtain n pos where len: "prefix_length buf ?len = Some (n, pos)" "pos \<le> 10"
    using prefix_length_cases [of buf ?len] two long by (fastforce simp: prefix_length_def)
  obtain key_opt pos' where key: "prefix_mask ?masked pos buf = Some (key_opt, pos')" "pos' \<le> pos + 4"
    using long len(2) that by (cases ?masked) (auto simp: prefix_mask_def)
  from assms len(1) key(1) two have "n \<le> MAX_FRAME" "length buf < pos' + n"
    by (auto simp: parse_ws_frame_prefix_def Let_def split: if_splits)
  with long len(2) key(2) show False by linarith
qed

section \<open>A connection's chunks\<close>

text \<open>The pushes of one connection, which ends at the first error.\<close>

fun push_all :: "string list \<Rightarrow> string \<Rightarrow> (io_kind + ws_frame list) \<times> string" where
  "push_all [] buf = (Inr [], buf)"
| "push_all (d # ds) buf =
     (case decoder_push d buf of
        (Inl e, buf) \<Rightarrow> (Inl e, buf)
      | (Inr fs, buf) \<Rightarrow> (case push_all ds buf of (r, buf) \<Rightarrow> (map_sum id ((@) fs) r, buf)))"

lemma push_all_concat:
  assumes "parse_ws_frame_prefix buf = Inr None"
  shows "fst (push_all ds buf) = fst (decoder_push (concat ds) buf) \<and>
    (isl (fst (push_all ds buf)) \<or> snd (push_all ds buf) = snd (decoder_push (concat ds) buf))"
  using assms
proof (induction ds arbitrary: buf)
  case Nil
  then show ?case by (cases buf rule: decode_loop_cases) (simp_all add: decoder_push_def)
next
  case (Cons d ds)
  have all: "decoder_push (concat (d # ds)) buf =
      (case decoder_push d buf of
         (Inl e, rest) \<Rightarrow> (Inl e, rest @ concat ds)
       | (Inr fs, rest) \<Rightarrow> decode_loop fs (rest @ concat ds))"
    using decode_loop_more [of "[]" "buf @ d" "concat ds"] by (simp add: decoder_push_def)
  obtain r rest where push: "decoder_push d buf = (r, rest)" by fastforce
  show ?case
  proof (cases r)
    case (Inr fs)
    then have "parse_ws_frame_prefix rest = Inr None"
      using push decode_loop_split by (simp add: decoder_push_def)
    from Cons.IH [OF this] show ?thesis
      using push Inr all decode_loop_frames [of fs "rest @ concat ds"]
      by (auto simp: decoder_push_def case_prod_unfold isl_map_sum)
  qed (use push all in simp)
qed

text \<open>
  C30: the frame decoder does not see how the network cuts the stream. Whatever chunks the
  bytes of a connection arrive in, the decoder gives the frames, or the error, that it gives
  for all bytes at once; without an error the raw bytes of the frames and the rest it keeps
  are exactly the bytes received, the rest starts no complete frame, and the decoder never
  keeps more than the largest frame with its header.
\<close>

theorem decoder_chunks:
  "fst (push_all ds []) = fst (decoder_push (concat ds) []) \<and>
   (case push_all ds [] of
      (Inl e, buf) \<Rightarrow> True
    | (Inr fs, buf) \<Rightarrow>
        concat (map wf_raw fs) @ buf = concat ds \<and> parse_ws_frame_prefix buf = Inr None \<and>
        length buf < MAX_FRAME + 14)"
proof -
  have "parse_ws_frame_prefix [] = Inr None" by (simp add: parse_ws_frame_prefix_def)
  note all = push_all_concat [OF this, of ds]
  obtain r buf where push: "push_all ds [] = (r, buf)" by fastforce
  show ?thesis
  proof (cases r)
    case (Inr fs)
    with all push have "decode_loop [] (concat ds) = (Inr fs, buf)"
      by (cases "decoder_push (concat ds) []") (simp add: decoder_push_def)
    from decode_loop_split [OF this]
    have "case push_all ds [] of (Inl e, buf) \<Rightarrow> True
      | (Inr fs, buf) \<Rightarrow> concat (map wf_raw fs) @ buf = concat ds \<and> parse_ws_frame_prefix buf = Inr None \<and>
          length buf < MAX_FRAME + 14"
      unfolding push Inr by (simp add: parse_partial_short)
    with all show ?thesis by blast
  next
    case (Inl e)
    have "fst (decoder_push (concat ds) []) = Inl e" using all unfolding push Inl by simp
    then show ?thesis unfolding push Inl by simp
  qed
qed

end
