(* ===== verification/Ws_Tunnel.thy ===== *)
theory Ws_Tunnel
  imports Ws_Frame "HOL-Library.Sublist"
begin

text \<open>
  The WebSocket relay (\<open>proxy/websocket/nonblocking.rs\<close>, the copy loop of
  \<open>proxy/websocket/concurrent.rs\<close>). A peer answers the calls the relay makes: its k-th read
  gives bytes, the end of the stream or an error, its k-th write accepts some bytes or fails,
  its k-th flush succeeds or fails; it also keeps what was read from it and what it accepted.
  Loops that a peer can keep going forever are partial functions: not returning is \<open>None\<close>.
\<close>

section \<open>Peers\<close>

datatype read_result = ReadBytes string | ReadErr io_kind

datatype write_result = Wrote nat | WriteErr io_kind

record ws_peer =
  pe_read :: "nat \<Rightarrow> read_result"
  pe_write :: "nat \<Rightarrow> write_result"
  pe_flush :: "nat \<Rightarrow> io_kind option"
  pe_calls :: nat
  pe_received :: string
  pe_delivered :: string
  pe_shutdown :: bool

definition websocket_end_error :: "io_kind \<Rightarrow> bool" where
  "websocket_end_error k \<longleftrightarrow> k \<in> {UnexpectedEof, ConnectionReset, ConnectionAborted, BrokenPipe}"

definition would_block :: "io_kind \<Rightarrow> bool" where
  "would_block k \<longleftrightarrow> k \<in> {WouldBlock, TimedOut}"

definition READ_BUFFER :: nat where "READ_BUFFER = 8192"

definition peer_read :: "ws_peer \<Rightarrow> read_result \<times> ws_peer" where
  "peer_read pe =
     (let pe' = pe\<lparr>pe_calls := pe_calls pe + 1\<rparr> in
      case pe_read pe (pe_calls pe) of
        ReadBytes bs \<Rightarrow> (ReadBytes (take READ_BUFFER bs), pe'\<lparr>pe_received := pe_received pe @ take READ_BUFFER bs\<rparr>)
      | ReadErr k \<Rightarrow> (ReadErr k, pe'))"

definition peer_write :: "string \<Rightarrow> ws_peer \<Rightarrow> write_result \<times> ws_peer" where
  "peer_write data pe =
     (let pe' = pe\<lparr>pe_calls := pe_calls pe + 1\<rparr> in
      case pe_write pe (pe_calls pe) of
        Wrote n \<Rightarrow> (Wrote (min n (length data)), pe'\<lparr>pe_delivered := pe_delivered pe @ take n data\<rparr>)
      | WriteErr k \<Rightarrow> (WriteErr k, pe'))"

definition peer_flush :: "ws_peer \<Rightarrow> io_kind option \<times> ws_peer" where
  "peer_flush pe = (pe_flush pe (pe_calls pe), pe\<lparr>pe_calls := pe_calls pe + 1\<rparr>)"

section \<open>Reading and flushing without blocking\<close>

partial_function (option) read_frames_loop ::
  "ws_peer \<Rightarrow> string \<Rightarrow> nat \<Rightarrow> ws_frame list \<Rightarrow> ((io_kind + nat \<times> ws_frame list \<times> bool) \<times> string \<times> ws_peer) option" where
  "read_frames_loop pe buf count out =
     (let (r, pe) = peer_read pe in
      case r of
        ReadErr k \<Rightarrow> Some (if would_block k then Inr (count, out, False) else Inl k, buf, pe)
      | ReadBytes bs \<Rightarrow>
          if bs = [] then Some (Inr (count, out, True), buf, pe)
          else
            (let (fs, buf) = decoder_push bs buf in
             case fs of
               Inl k \<Rightarrow> Some (Inl k, buf, pe)
             | Inr fs \<Rightarrow>
                 if length bs < READ_BUFFER then Some (Inr (count + length bs, out @ fs, False), buf, pe)
                 else read_frames_loop pe buf (count + length bs) (out @ fs)))"

definition read_ws_frames_nonblocking ::
  "ws_peer \<Rightarrow> string \<Rightarrow> ((io_kind + nat \<times> ws_frame list \<times> bool) \<times> string \<times> ws_peer) option" where
  "read_ws_frames_nonblocking pe buf = read_frames_loop pe buf 0 []"

function flush_loop :: "ws_peer \<Rightarrow> string \<Rightarrow> nat \<Rightarrow> (io_kind + nat) \<times> string \<times> ws_peer" where
  "flush_loop pe pending written =
     (if pending = [] then (Inr written, pending, pe)
      else
        (case peer_write pending pe of
           (Wrote n, pe) \<Rightarrow>
             if n = 0 then (Inr written, pending, pe) else flush_loop pe (drop n pending) (written + n)
         | (WriteErr k, pe) \<Rightarrow>
             (if would_block k \<or> websocket_end_error k then Inr written else Inl k, pending, pe)))"
  by pat_completeness auto
termination by (relation "measure (\<lambda>(pe, pending, written). length pending)") auto

declare flush_loop.simps [simp del]

definition flush_pending_nonblocking :: "ws_peer \<Rightarrow> string \<Rightarrow> (io_kind + nat) \<times> string \<times> ws_peer" where
  "flush_pending_nonblocking pe pending =
     (case flush_loop pe pending 0 of
        (Inl k, pending, pe) \<Rightarrow> (Inl k, pending, pe)
      | (Inr written, pending, pe) \<Rightarrow>
          if 0 < written then
            (case peer_flush pe of
               (None, pe) \<Rightarrow> (Inr written, pending, pe)
             | (Some k, pe) \<Rightarrow>
                 (if would_block k \<or> websocket_end_error k then Inr written else Inl k, pending, pe))
          else (Inr written, pending, pe))"

section \<open>The relay loop\<close>

text \<open>One direction: the decoder's buffer, what is waiting to be written, and its bookkeeping.\<close>

record lane =
  ln_buf :: string
  ln_pending :: string
  ln_bytes :: nat
  ln_fragmented :: "nat option"
  ln_closed :: bool
  ln_close_seen :: bool

record tunnel =
  tn_client :: ws_peer
  tn_upstream :: ws_peer
  tn_c2s :: lane
  tn_s2c :: lane
  tn_frames :: "frame_record list"

definition lane_new :: lane where
  "lane_new = \<lparr>ln_buf = [], ln_pending = [], ln_bytes = 0, ln_fragmented = None, ln_closed = False, ln_close_seen = False\<rparr>"

definition tunnel_new :: "ws_peer \<Rightarrow> ws_peer \<Rightarrow> tunnel" where
  "tunnel_new client upstream =
     \<lparr>tn_client = client, tn_upstream = upstream, tn_c2s = lane_new, tn_s2c = lane_new, tn_frames = []\<rparr>"

definition append_frame ::
  "(nat \<Rightarrow> nat) \<Rightarrow> frame_direction \<Rightarrow> nat \<Rightarrow> lane \<times> frame_record list \<Rightarrow> ws_frame \<Rightarrow> lane \<times> frame_record list" where
  "append_frame clock direction trace_limit = (\<lambda>(ln, frames) f.
     let (frames', fragmented) = record_ws_frame (clock (length frames)) direction trace_limit f (frames, ln_fragmented ln) in
     (ln\<lparr>ln_bytes := (ln_bytes ln + length (wf_raw f)) mod (USIZE_MAX + 1), ln_pending := ln_pending ln @ wf_raw f,
         ln_fragmented := fragmented, ln_close_seen := (ln_close_seen ln \<or> wf_opcode f = 8)\<rparr>, frames'))"

definition append_frames ::
  "(nat \<Rightarrow> nat) \<Rightarrow> frame_direction \<Rightarrow> nat \<Rightarrow> ws_frame list \<Rightarrow> lane \<times> frame_record list \<Rightarrow> lane \<times> frame_record list" where
  "append_frames clock direction trace_limit parsed target = foldl (append_frame clock direction trace_limit) target parsed"

definition MAX_PENDING :: nat where "MAX_PENDING = 1024 * 1024"

definition pull ::
  "(nat \<Rightarrow> nat) \<Rightarrow> nat \<Rightarrow> frame_direction \<Rightarrow> ws_peer \<Rightarrow> lane \<Rightarrow> frame_record list \<Rightarrow>
     ((io_kind + bool) \<times> ws_peer \<times> lane \<times> frame_record list) option" where
  "pull clock trace_limit direction pe ln frames =
     (if \<not> ln_closed ln \<and> length (ln_pending ln) < MAX_PENDING then
        map_option (\<lambda>(r, buf, pe).
          let ln = ln\<lparr>ln_buf := buf\<rparr> in
          case r of
            Inr (count, parsed, closed) \<Rightarrow>
              (let (ln, frames) = append_frames clock direction trace_limit parsed (ln\<lparr>ln_closed := closed\<rparr>, frames) in
               (Inr (count \<noteq> 0), pe, ln, frames))
          | Inl k \<Rightarrow>
              if websocket_end_error k then (Inr False, pe, ln\<lparr>ln_closed := True\<rparr>, frames)
              else (Inl k, pe, ln, frames))
          (read_ws_frames_nonblocking pe (ln_buf ln))
      else Some (Inr False, pe, ln, frames))"

text \<open>A close frame that has been passed on ends its direction.\<close>

definition close_lane :: "ws_peer \<times> lane \<Rightarrow> ws_peer \<times> lane" where
  "close_lane = (\<lambda>(writer, ln).
     if ln_close_seen ln \<and> ln_pending ln = [] then (writer\<lparr>pe_shutdown := True\<rparr>, ln\<lparr>ln_closed := True\<rparr>) else (writer, ln))"

definition flush_lane :: "ws_peer \<times> lane \<Rightarrow> (io_kind + nat) \<times> ws_peer \<times> lane" where
  "flush_lane = (\<lambda>(writer, ln).
     case flush_pending_nonblocking writer (ln_pending ln) of
       (r, pending, writer) \<Rightarrow> (r, writer, ln\<lparr>ln_pending := pending\<rparr>))"

text \<open>Has the relay finished? The progress flag only decides whether it sleeps.\<close>

definition tunnel_finished :: "tunnel \<Rightarrow> bool" where
  "tunnel_finished tn \<longleftrightarrow>
     ((ln_closed (tn_c2s tn) \<and> ln_closed (tn_s2c tn)) \<or> (ln_close_seen (tn_c2s tn) \<and> ln_close_seen (tn_s2c tn))) \<and>
     ln_pending (tn_c2s tn) = [] \<and> ln_pending (tn_s2c tn) = []"

definition tunnel_flush :: "tunnel \<Rightarrow> (io_kind + bool) \<times> tunnel" where
  "tunnel_flush tn =
     (case flush_lane (tn_upstream tn, tn_c2s tn) of
        (Inl k, up, c2s) \<Rightarrow> (Inl k, tn\<lparr>tn_upstream := up, tn_c2s := c2s\<rparr>)
      | (Inr _, up, c2s) \<Rightarrow>
          (case flush_lane (tn_client tn, tn_s2c tn) of
             (Inl k, cl, s2c) \<Rightarrow> (Inl k, tn\<lparr>tn_upstream := up, tn_c2s := c2s, tn_client := cl, tn_s2c := s2c\<rparr>)
           | (Inr _, cl, s2c) \<Rightarrow>
               (let (up, c2s) = close_lane (up, c2s); (cl, s2c) = close_lane (cl, s2c);
                    tn = tn\<lparr>tn_upstream := up, tn_c2s := c2s, tn_client := cl, tn_s2c := s2c\<rparr> in
                (Inr (tunnel_finished tn), tn))))"

definition tunnel_iter :: "(nat \<Rightarrow> nat) \<Rightarrow> nat \<Rightarrow> tunnel \<Rightarrow> ((io_kind + bool) \<times> tunnel) option" where
  "tunnel_iter clock trace_limit tn =
     Option.bind (pull clock trace_limit ClientToServer (tn_client tn) (tn_c2s tn) (tn_frames tn)) (\<lambda>(r, cl, c2s, frames).
     let tn = tn\<lparr>tn_client := cl, tn_c2s := c2s, tn_frames := frames\<rparr> in
     case r of
       Inl k \<Rightarrow> Some (Inl k, tn)
     | Inr _ \<Rightarrow>
         Option.bind (pull clock trace_limit ServerToClient (tn_upstream tn) (tn_s2c tn) (tn_frames tn)) (\<lambda>(r, up, s2c, frames).
         let tn = tn\<lparr>tn_upstream := up, tn_s2c := s2c, tn_frames := frames\<rparr> in
         case r of
           Inl k \<Rightarrow> Some (Inl k, tn)
         | Inr _ \<Rightarrow> Some (tunnel_flush tn)))"

partial_function (option) tunnel_loop ::
  "(nat \<Rightarrow> nat) \<Rightarrow> nat \<Rightarrow> tunnel \<Rightarrow> ((io_kind + nat \<times> nat \<times> frame_record list) \<times> tunnel) option" where
  "tunnel_loop clock trace_limit tn =
     Option.bind (tunnel_iter clock trace_limit tn) (\<lambda>(r, tn).
     case r of
       Inl k \<Rightarrow> Some (Inl k, tn)
     | Inr finished \<Rightarrow>
         if finished then Some (Inr (ln_bytes (tn_c2s tn), ln_bytes (tn_s2c tn), tn_frames tn), tn)
         else tunnel_loop clock trace_limit tn)"

definition websocket_tunnel_nonblocking_inner ::
  "(nat \<Rightarrow> nat) \<Rightarrow> nat \<Rightarrow> ws_peer \<Rightarrow> ws_peer \<Rightarrow> ((io_kind + nat \<times> nat \<times> frame_record list) \<times> tunnel) option" where
  "websocket_tunnel_nonblocking_inner clock trace_limit client upstream = tunnel_loop clock trace_limit (tunnel_new client upstream)"

section \<open>Bytes are passed on in order\<close>

lemma peer_io:
  "peer_read pe = (r, pe') \<Longrightarrow> pe_delivered pe' = pe_delivered pe \<and>
     pe_received pe' = pe_received pe @ (case r of ReadBytes bs \<Rightarrow> bs | ReadErr k \<Rightarrow> [])"
  "peer_write data pe = (w, pe') \<Longrightarrow> pe_received pe' = pe_received pe \<and>
     pe_delivered pe' = pe_delivered pe @ (case w of Wrote n \<Rightarrow> take n data | WriteErr k \<Rightarrow> [])"
  "peer_flush pe = (e, pe') \<Longrightarrow> pe_received pe' = pe_received pe \<and> pe_delivered pe' = pe_delivered pe"
  by (auto simp: peer_read_def peer_write_def peer_flush_def Let_def min_def split: read_result.splits write_result.splits)

lemma decoder_push_split:
  "decoder_push d buf = (Inr fs, rest) \<Longrightarrow> concat (map wf_raw fs) @ rest = buf @ d"
  using decode_loop_split [of "[]" "buf @ d" fs rest] by (simp add: decoder_push_def)

lemma read_frames_loop_bytes:
  assumes "read_frames_loop pe buf count out = Some (r, buf', pe')"
  shows "pe_delivered pe' = pe_delivered pe \<and> (\<exists>bs. pe_received pe' = pe_received pe @ bs \<and>
    (case r of Inl k \<Rightarrow> True
     | Inr (n, fs, closed) \<Rightarrow> \<exists>gs. fs = out @ gs \<and> concat (map wf_raw gs) @ buf' = buf @ bs))"
proof -
  define P where "P pe buf (count :: nat) out y \<longleftrightarrow> (case y of (r, buf', pe') \<Rightarrow>
    pe_delivered pe' = pe_delivered pe \<and> (\<exists>bs. pe_received pe' = pe_received pe @ bs \<and>
    (case r of Inl k \<Rightarrow> True
     | Inr (n, fs, closed) \<Rightarrow> \<exists>gs. fs = out @ gs \<and> concat (map wf_raw gs) @ buf' = buf @ bs)))"
    for pe :: ws_peer and buf count out and y :: "(io_kind + nat \<times> ws_frame list \<times> bool) \<times> string \<times> ws_peer"
  have "P pe buf count out (r, buf', pe')"
  proof (rule read_frames_loop.raw_induct [OF _ assms])
    fix f pe buf count out y
    assume IH: "\<And>pe buf count out y. f pe buf count out = Some y \<Longrightarrow> P pe buf count out y"
    assume step: "(let (r, pe) = peer_read pe in
      case r of
        ReadErr k \<Rightarrow> Some (if would_block k then Inr (count, out, False) else Inl k, buf, pe)
      | ReadBytes bs \<Rightarrow>
          if bs = [] then Some (Inr (count, out, True), buf, pe)
          else
            (let (fs, buf) = decoder_push bs buf in
             case fs of
               Inl k \<Rightarrow> Some (Inl k, buf, pe)
             | Inr fs \<Rightarrow>
                 if length bs < READ_BUFFER then Some (Inr (count + length bs, out @ fs, False), buf, pe)
                 else f pe buf (count + length bs) (out @ fs))) = Some y"
    obtain r1 pe1 where read: "peer_read pe = (r1, pe1)" by fastforce
    note io = peer_io(1) [OF read]
    show "P pe buf count out y"
    proof (cases r1)
      case (ReadErr k)
      with step read io show ?thesis by (auto simp: P_def)
    next
      case (ReadBytes bs)
      obtain fs b1 where push: "decoder_push bs buf = (fs, b1)" by fastforce
      show ?thesis
      proof (cases "bs \<noteq> [] \<and> \<not> isl fs \<and> \<not> length bs < READ_BUFFER")
        case True
        then obtain gs where gs: "fs = Inr gs" by (cases fs) auto
        with True step read ReadBytes push have "f pe1 b1 (count + length bs) (out @ gs) = Some y" by simp
        from IH [OF this] io ReadBytes decoder_push_split [OF push [unfolded gs]] show ?thesis
          unfolding P_def by (fastforce split: sum.splits)
      next
        case False
        with step read io ReadBytes push show ?thesis
          by (auto simp: P_def decoder_push_split split: if_splits sum.splits)
      qed
    qed
  qed
  then show ?thesis by (simp add: P_def)
qed

lemma flush_loop_bytes:
  "flush_loop pe pending written = (r, pending', pe') \<Longrightarrow>
     pe_received pe' = pe_received pe \<and> pe_delivered pe' @ pending' = pe_delivered pe @ pending"
proof (induction pe pending written rule: flush_loop.induct)
  case (1 pe pending written)
  obtain w pe1 where wr: "peer_write pending pe = (w, pe1)" by fastforce
  note io = peer_io(2) [OF wr]
  show ?case
  proof (cases "pending = []")
    case False
    show ?thesis
    proof (cases w)
      case (Wrote n)
      with 1 False wr io show ?thesis
        by (cases "n = 0") (auto simp: flush_loop.simps [of pe pending written])
    next
      case (WriteErr k)
      with 1 False wr io show ?thesis by (auto simp: flush_loop.simps [of pe pending written])
    qed
  qed (use 1 in \<open>simp add: flush_loop.simps\<close>)
qed

lemma flush_pending_bytes:
  "flush_pending_nonblocking pe pending = (r, pending', pe') \<Longrightarrow>
     pe_received pe' = pe_received pe \<and> pe_delivered pe' @ pending' = pe_delivered pe @ pending"
  by (auto simp: flush_pending_nonblocking_def split: prod.splits sum.splits if_splits option.splits
      dest!: flush_loop_bytes peer_io(3))

text \<open>A lane between its reader and its writer: what has left or is waiting, and the bytes of its reader.\<close>

definition passed :: "ws_peer \<Rightarrow> lane \<Rightarrow> string" where
  "passed writer ln = pe_delivered writer @ ln_pending ln"

definition lane_safe :: "ws_peer \<Rightarrow> lane \<Rightarrow> ws_peer \<Rightarrow> bool" where
  "lane_safe reader ln writer \<longleftrightarrow>
     prefix (passed writer ln) (pe_received reader) \<and> ln_bytes ln = length (passed writer ln) mod (USIZE_MAX + 1)"

definition lane_inv :: "ws_peer \<Rightarrow> lane \<Rightarrow> ws_peer \<Rightarrow> bool" where
  "lane_inv reader ln writer \<longleftrightarrow>
     lane_safe reader ln writer \<and> (ln_closed ln \<or> passed writer ln @ ln_buf ln = pe_received reader)"

lemma append_frames_lane:
  "append_frames clock direction limit fs (ln, frames) = (ln', frames') \<Longrightarrow>
     ln_pending ln' = ln_pending ln @ concat (map wf_raw fs) \<and> ln_buf ln' = ln_buf ln \<and> ln_closed ln' = ln_closed ln \<and>
     (\<forall>n. ln_bytes ln = n mod (USIZE_MAX + 1) \<longrightarrow>
       ln_bytes ln' = (n + length (concat (map wf_raw fs))) mod (USIZE_MAX + 1))"
proof (induction fs arbitrary: ln frames)
  case (Cons f fs)
  obtain ln1 frames1 where one: "append_frame clock direction limit (ln, frames) f = (ln1, frames1)" by fastforce
  then have "ln_pending ln1 = ln_pending ln @ wf_raw f \<and> ln_buf ln1 = ln_buf ln \<and> ln_closed ln1 = ln_closed ln \<and>
      ln_bytes ln1 = (ln_bytes ln + length (wf_raw f)) mod (USIZE_MAX + 1)"
    by (auto simp: append_frame_def Let_def case_prod_unfold)
  moreover have "append_frames clock direction limit fs (ln1, frames1) = (ln', frames')"
    using Cons.prems one by (simp add: append_frames_def)
  moreover note Cons.IH [OF this]
  ultimately show ?case by (auto simp: mod_add_left_eq add.assoc)
qed (simp add: append_frames_def)

lemma pull_inv:
  assumes "pull clock limit direction reader ln frames = Some (r, reader', ln', frames')" "lane_inv reader ln writer"
  shows "lane_safe reader' ln' writer \<and> (isl r \<or> lane_inv reader' ln' writer) \<and> pe_delivered reader' = pe_delivered reader"
proof (cases "\<not> ln_closed ln \<and> length (ln_pending ln) < MAX_PENDING")
  case True
  then obtain r1 buf pe where read: "read_frames_loop reader (ln_buf ln) 0 [] = Some (r1, buf, pe)"
    using assms(1) by (auto simp: pull_def read_ws_frames_nonblocking_def)
  from read_frames_loop_bytes [OF read]
  obtain bs where bs: "pe_delivered pe = pe_delivered reader" "pe_received pe = pe_received reader @ bs"
    "case r1 of Inl k \<Rightarrow> True | Inr (n, fs, closed) \<Rightarrow> \<exists>gs. fs = [] @ gs \<and> concat (map wf_raw gs) @ buf = ln_buf ln @ bs" by blast
  have inv: "prefix (passed writer ln) (pe_received reader)" "passed writer ln @ ln_buf ln = pe_received reader"
    "ln_bytes ln = length (passed writer ln) mod (USIZE_MAX + 1)"
    using assms(2) True by (simp_all add: lane_inv_def lane_safe_def)
  show ?thesis
  proof (cases r1)
    case (Inl k)
    with True assms(1) read have "reader' = pe" "passed writer ln' = passed writer ln" "ln_bytes ln' = ln_bytes ln"
      "ln_closed ln' \<or> isl r"
      by (auto simp: pull_def read_ws_frames_nonblocking_def Let_def passed_def split: if_splits)
    then show ?thesis using inv(1,3) bs(1,2) by (auto simp: lane_inv_def lane_safe_def)
  next
    case (Inr nfs)
    obtain n fs closed where nfs: "nfs = (n, fs, closed)" by (cases nfs) auto
    obtain ln1 frames1 where app: "append_frames clock direction limit fs (ln\<lparr>ln_buf := buf, ln_closed := closed\<rparr>, frames) = (ln1, frames1)"
      by fastforce
    from True assms(1) read Inr nfs app have out: "reader' = pe" "ln' = ln1"
      by (auto simp: pull_def read_ws_frames_nonblocking_def Let_def)
    have new: "passed writer ln1 = passed writer ln @ concat (map wf_raw fs)" "ln_buf ln1 = buf"
      "ln_bytes ln1 = length (passed writer ln1) mod (USIZE_MAX + 1)"
      using append_frames_lane [OF app] inv(3) by (simp_all add: passed_def add.assoc)
    have "passed writer ln1 @ ln_buf ln1 = (passed writer ln @ ln_buf ln) @ bs"
      using bs(3) Inr nfs new(1,2) by simp
    then have "passed writer ln1 @ ln_buf ln1 = pe_received pe" unfolding inv(2) bs(2) .
    with new(3) bs(1) show ?thesis unfolding out lane_inv_def lane_safe_def prefix_def by metis
  qed
qed (use assms in \<open>auto simp: pull_def lane_inv_def\<close>)

lemma flush_lane_inv:
  assumes "flush_lane (writer, ln) = (r, writer', ln')" "lane_inv reader ln writer"
  shows "lane_inv reader ln' writer' \<and> pe_received writer' = pe_received writer"
proof -
  obtain pending where flush: "flush_pending_nonblocking writer (ln_pending ln) = (r, pending, writer')" "ln' = ln\<lparr>ln_pending := pending\<rparr>"
    using assms(1) by (auto simp: flush_lane_def split: prod.splits)
  from flush_pending_bytes [OF flush(1)] flush(2)
  have "passed writer' ln' = passed writer ln" "pe_received writer' = pe_received writer" by (simp_all add: passed_def)
  with assms(2) flush(2) show ?thesis by (simp add: lane_inv_def lane_safe_def)
qed

lemma lane_cong:
  assumes "pe_received reader' = pe_received reader" "pe_delivered writer' = pe_delivered writer"
  shows "lane_safe reader' ln writer' = lane_safe reader ln writer" "lane_inv reader' ln writer' = lane_inv reader ln writer"
  using assms by (simp_all add: lane_inv_def lane_safe_def passed_def)

lemma close_lane_inv:
  assumes "close_lane (writer, ln) = (writer', ln')" "lane_inv reader ln writer"
  shows "lane_inv reader ln' writer'" "pe_received writer' = pe_received writer"
  using assms by (auto simp: close_lane_def lane_inv_def lane_safe_def passed_def split: if_splits)

definition tunnel_safe :: "tunnel \<Rightarrow> bool" where
  "tunnel_safe tn \<longleftrightarrow>
     lane_safe (tn_client tn) (tn_c2s tn) (tn_upstream tn) \<and> lane_safe (tn_upstream tn) (tn_s2c tn) (tn_client tn)"

definition tunnel_inv :: "tunnel \<Rightarrow> bool" where
  "tunnel_inv tn \<longleftrightarrow>
     lane_inv (tn_client tn) (tn_c2s tn) (tn_upstream tn) \<and> lane_inv (tn_upstream tn) (tn_s2c tn) (tn_client tn)"

lemma tunnel_inv_safe: "tunnel_inv tn \<Longrightarrow> tunnel_safe tn"
  by (simp add: tunnel_inv_def tunnel_safe_def lane_inv_def)

lemma tunnel_flush_inv:
  assumes "tunnel_flush tn = (r, tn')" "tunnel_inv tn"
  shows "tunnel_inv tn'"
proof -
  obtain r1 up c2s where f1: "flush_lane (tn_upstream tn, tn_c2s tn) = (r1, up, c2s)" by (metis prod_cases3)
  obtain r2 cl s2c where f2: "flush_lane (tn_client tn, tn_s2c tn) = (r2, cl, s2c)" by (metis prod_cases3)
  obtain up' c2s' where c1: "close_lane (up, c2s) = (up', c2s')" by fastforce
  obtain cl' s2c' where c2: "close_lane (cl, s2c) = (cl', s2c')" by fastforce
  have 1: "lane_inv (tn_client tn) c2s up" "pe_received up = pe_received (tn_upstream tn)"
    using flush_lane_inv [OF f1] assms(2) by (auto simp: tunnel_inv_def)
  have 2: "lane_inv (tn_upstream tn) s2c cl" "pe_received cl = pe_received (tn_client tn)"
    using flush_lane_inv [OF f2] assms(2) by (auto simp: tunnel_inv_def)
  have d: "pe_delivered up' = pe_delivered up" "pe_delivered cl' = pe_delivered cl"
    using c1 c2 by (auto simp: close_lane_def split: if_splits)
  show ?thesis
  proof (cases "isl r1")
    case True
    with assms f1 1 show ?thesis
      by (cases r1) (auto simp: tunnel_flush_def tunnel_inv_def lane_inv_def lane_safe_def)
  next
    case False
    have lanes: "lane_inv cl c2s up" "lane_inv up s2c cl"
      using 1 2 lane_cong(2) [of cl "tn_client tn" up up] lane_cong(2) [of up "tn_upstream tn" cl cl] by simp_all
    show ?thesis
    proof (cases "isl r2")
      case True
      with False assms(1) f1 f2 lanes show ?thesis by (cases r1; cases r2) (auto simp: tunnel_flush_def tunnel_inv_def)
    next
      case r2: False
      have "lane_inv cl c2s' up'" "lane_inv up s2c' cl'" "pe_received up' = pe_received up" "pe_received cl' = pe_received cl"
        using close_lane_inv [OF c1 lanes(1)] close_lane_inv [OF c2 lanes(2)] by simp_all
      then have "lane_inv cl' c2s' up'" "lane_inv up' s2c' cl'"
        using lane_cong(2) [of cl' cl up' up'] lane_cong(2) [of up' up cl' cl'] by simp_all
      with False r2 assms(1) f1 f2 c1 c2 show ?thesis
        by (cases r1; cases r2) (auto simp: tunnel_flush_def tunnel_inv_def Let_def)
    qed
  qed
qed

lemma tunnel_iter_inv:
  assumes "tunnel_iter clock limit tn = Some (r, tn')" "tunnel_inv tn"
  shows "tunnel_safe tn' \<and> (isl r \<or> tunnel_inv tn')"
proof -
  obtain r1 cl c2s frames where p1: "pull clock limit ClientToServer (tn_client tn) (tn_c2s tn) (tn_frames tn) = Some (r1, cl, c2s, frames)"
    using assms(1) by (auto simp: tunnel_iter_def bind_eq_Some_conv)
  let ?tn = "tn\<lparr>tn_client := cl, tn_c2s := c2s, tn_frames := frames\<rparr>"
  have c2s: "lane_safe cl c2s (tn_upstream tn)" "isl r1 \<or> lane_inv cl c2s (tn_upstream tn)"
    and cl: "pe_delivered cl = pe_delivered (tn_client tn)"
    using pull_inv [OF p1] assms(2) by (auto simp: tunnel_inv_def)
  have s2c: "lane_inv (tn_upstream tn) (tn_s2c tn) cl"
    using assms(2) lane_cong(2) [OF refl cl] by (simp add: tunnel_inv_def)
  show ?thesis
  proof (cases r1)
    case (Inl k)
    with assms(1) p1 c2s(1) s2c show ?thesis by (auto simp: tunnel_iter_def Let_def tunnel_safe_def lane_inv_def)
  next
    case (Inr b)
    then obtain r2 up s2c frames' where p2: "pull clock limit ServerToClient (tn_upstream tn) (tn_s2c tn) frames = Some (r2, up, s2c, frames')"
      using assms(1) p1 by (auto simp: tunnel_iter_def Let_def bind_eq_Some_conv)
    note r2 = pull_inv [OF p2 s2c]
    have c2s': "lane_inv cl c2s up" using c2s(2) Inr lane_cong(2) [of cl cl up "tn_upstream tn"] r2 by simp
    let ?tn2 = "?tn\<lparr>tn_upstream := up, tn_s2c := s2c, tn_frames := frames'\<rparr>"
    show ?thesis
    proof (cases r2)
      case (Inl k)
      with assms(1) p1 p2 Inr r2 c2s' show ?thesis by (auto simp: tunnel_iter_def Let_def tunnel_safe_def lane_inv_def)
    next
      case (Inr b2)
      with r2 c2s' have "tunnel_inv ?tn2" by (simp add: tunnel_inv_def)
      moreover have "tunnel_flush ?tn2 = (r, tn')" using assms(1) p1 p2 \<open>r1 = Inr b\<close> Inr by (simp add: tunnel_iter_def Let_def)
      ultimately show ?thesis using tunnel_flush_inv tunnel_inv_safe by blast
    qed
  qed
qed

text \<open>The states of a relay between its iterations, and the state in which it stops.\<close>

inductive relays :: "(nat \<Rightarrow> nat) \<Rightarrow> nat \<Rightarrow> tunnel \<Rightarrow> bool \<Rightarrow> tunnel \<Rightarrow> bool" for clock limit tn0 where
  relays_start: "relays clock limit tn0 False tn0"
| relays_step: "relays clock limit tn0 False tn \<Longrightarrow> tunnel_iter clock limit tn = Some (r, tn') \<Longrightarrow>
     relays clock limit tn0 (r \<noteq> Inr False) tn'"

lemma relays_inv:
  assumes "relays clock limit tn0 over tn" "tunnel_inv tn0"
  shows "tunnel_safe tn \<and> (over \<or> tunnel_inv tn)"
  using assms
proof (induction rule: relays.induct)
  case (relays_step tn r tn')
  then show ?case using tunnel_iter_inv [of clock limit tn r tn'] tunnel_inv_safe by (cases r) auto
qed (simp add: tunnel_inv_safe)

text \<open>
  C31: the relay passes bytes on in order. Whatever the peers answer, after every iteration
  and when it stops, what each side has accepted is a prefix of what the other side has sent,
  nothing added, changed or reordered, and the byte counts are those of the frames accepted
  or still waiting.
\<close>

theorem tunnel_passes_prefix:
  assumes "pe_received client = []" "pe_delivered client = []" "pe_received upstream = []" "pe_delivered upstream = []"
    and "relays clock limit (tunnel_new client upstream) over tn"
  shows "prefix (pe_delivered (tn_upstream tn) @ ln_pending (tn_c2s tn)) (pe_received (tn_client tn)) \<and>
    prefix (pe_delivered (tn_client tn) @ ln_pending (tn_s2c tn)) (pe_received (tn_upstream tn)) \<and>
    ln_bytes (tn_c2s tn) = length (pe_delivered (tn_upstream tn) @ ln_pending (tn_c2s tn)) mod (USIZE_MAX + 1) \<and>
    ln_bytes (tn_s2c tn) = length (pe_delivered (tn_client tn) @ ln_pending (tn_s2c tn)) mod (USIZE_MAX + 1)"
proof -
  have "tunnel_inv (tunnel_new client upstream)"
    using assms(1-4) by (simp add: tunnel_inv_def tunnel_new_def lane_new_def lane_inv_def lane_safe_def passed_def)
  from relays_inv [OF assms(5) this] show ?thesis by (simp add: tunnel_safe_def lane_safe_def passed_def)
qed

section \<open>When the relay ends, and when it does not\<close>

text \<open>
  A peer is tolerated when its writes and flushes fail, if at all, only with errors that the relay
  passes over: the socket is not ready, or the connection is closed. An accepting peer takes at least
  one byte with every write.
\<close>

definition soft_error :: "io_kind \<Rightarrow> bool" where
  "soft_error k \<longleftrightarrow> would_block k \<or> websocket_end_error k"

definition soft_flushes :: "ws_peer \<Rightarrow> bool" where
  "soft_flushes pe \<longleftrightarrow> (\<forall>k e. pe_flush pe k = Some e \<longrightarrow> soft_error e)"

definition tolerated :: "ws_peer \<Rightarrow> bool" where
  "tolerated pe \<longleftrightarrow> soft_flushes pe \<and> (\<forall>k e. pe_write pe k = WriteErr e \<longrightarrow> soft_error e)"

definition accepting :: "ws_peer \<Rightarrow> bool" where
  "accepting pe \<longleftrightarrow> soft_flushes pe \<and> (\<forall>k. \<exists>n. pe_write pe k = Wrote (Suc n))"

lemma peer_write_same: "peer_write data pe = (w, pe') \<Longrightarrow> pe_write pe' = pe_write pe \<and> pe_flush pe' = pe_flush pe"
  by (auto simp: peer_write_def Let_def split: write_result.splits)

lemma flush_loop_soft:
  assumes "tolerated pe"
  shows "\<exists>w pending' pe'. flush_loop pe pending written = (Inr w, pending', pe') \<and> pe_write pe' = pe_write pe \<and>
    pe_flush pe' = pe_flush pe \<and> (accepting pe \<longrightarrow> pending' = [])"
  using assms
proof (induction pe pending written rule: flush_loop.induct)
  case (1 pe pending written)
  show ?case
  proof (cases "pending = []")
    case False
    obtain r pe1 where wr: "peer_write pending pe = (r, pe1)" by fastforce
    note same = peer_write_same [OF wr] and step = flush_loop.simps [of pe pending written]
    have peer: "tolerated pe1" "accepting pe1 = accepting pe"
      using "1.prems" same by (simp_all add: tolerated_def accepting_def soft_flushes_def)
    have acc: "\<exists>n. r = Wrote n \<and> n \<noteq> 0" if a: "accepting pe"
    proof -
      obtain n where "pe_write pe (pe_calls pe) = Wrote (Suc n)" using a unfolding accepting_def by blast
      with wr False show ?thesis by (auto simp: peer_write_def Let_def)
    qed
    show ?thesis
    proof (cases r)
      case (Wrote n)
      show ?thesis
      proof (cases "n = 0")
        case True
        with Wrote wr False same acc show ?thesis by (auto simp: step)
      next
        case n: False
        from "1.IH" [OF False wr [symmetric] Wrote n peer(1)] same peer(2) show ?thesis
          using Wrote n wr False by (simp add: step)
      qed
    next
      case (WriteErr k)
      with wr have "pe_write pe (pe_calls pe) = WriteErr k" by (auto simp: peer_write_def Let_def split: write_result.splits)
      then have "would_block k \<or> websocket_end_error k" using "1.prems" by (auto simp: tolerated_def soft_error_def)
      with WriteErr wr False same acc show ?thesis by (auto simp: step)
    qed
  qed (simp add: flush_loop.simps)
qed

lemma flush_pending_soft:
  assumes "tolerated pe"
  obtains w pending' pe' where "flush_pending_nonblocking pe pending = (Inr w, pending', pe')" "pe_write pe' = pe_write pe"
    "pe_flush pe' = pe_flush pe" "accepting pe \<Longrightarrow> pending' = []" "pe_delivered pe' @ pending' = pe_delivered pe @ pending"
proof -
  obtain w pending1 pe1 where f: "flush_loop pe pending 0 = (Inr w, pending1, pe1)" "pe_write pe1 = pe_write pe"
    "pe_flush pe1 = pe_flush pe" "accepting pe \<longrightarrow> pending1 = []"
    using flush_loop_soft [OF assms] by blast
  have "pe_flush pe1 (pe_calls pe1) = Some k \<longrightarrow> would_block k \<or> websocket_end_error k" for k
    using assms f(3) by (auto simp: tolerated_def soft_flushes_def soft_error_def)
  then have "flush_pending_nonblocking pe pending =
      (Inr w, pending1, if 0 < w then pe1\<lparr>pe_calls := pe_calls pe1 + 1\<rparr> else pe1)"
    by (cases "pe_flush pe1 (pe_calls pe1)"; cases "0 < w") (auto simp: flush_pending_nonblocking_def f(1) peer_flush_def)
  then obtain pe2 where p: "flush_pending_nonblocking pe pending = (Inr w, pending1, pe2)" "pe_write pe2 = pe_write pe1" "pe_flush pe2 = pe_flush pe1"
    by simp
  with f flush_pending_bytes [OF p(1)] that show thesis by metis
qed

text \<open>
  C33: the relay ends. Once both directions are closed, a relay whose peers accept at least
  one byte with every write, and whose flushes fail at most with an error the relay passes over,
  stops in its very next iteration, with the counts and the frames it has: nothing is waiting, and each peer has
  been delivered exactly what it had accepted before followed by all that was waiting for it.
\<close>

theorem tunnel_ends:
  assumes "ln_closed (tn_c2s tn)" "ln_closed (tn_s2c tn)" "accepting (tn_client tn)" "accepting (tn_upstream tn)"
  shows "\<exists>tn'. tunnel_iter clock limit tn = Some (Inr True, tn') \<and>
    tunnel_loop clock limit tn = Some (Inr (ln_bytes (tn_c2s tn), ln_bytes (tn_s2c tn), tn_frames tn), tn') \<and>
    ln_pending (tn_c2s tn') = [] \<and> ln_pending (tn_s2c tn') = [] \<and>
    pe_delivered (tn_upstream tn') = pe_delivered (tn_upstream tn) @ ln_pending (tn_c2s tn) \<and>
    pe_delivered (tn_client tn') = pe_delivered (tn_client tn) @ ln_pending (tn_s2c tn)"
proof -
  have t: "tolerated (tn_client tn)" "tolerated (tn_upstream tn)"
    using assms(3,4) by (auto simp: accepting_def tolerated_def) (metis write_result.distinct(1))+
  obtain w1 up where f1: "flush_pending_nonblocking (tn_upstream tn) (ln_pending (tn_c2s tn)) = (Inr w1, [], up)"
    "pe_delivered up = pe_delivered (tn_upstream tn) @ ln_pending (tn_c2s tn)"
    using assms(4) by (rule_tac flush_pending_soft [OF t(2), of "ln_pending (tn_c2s tn)"]) auto
  obtain w2 cl where f2: "flush_pending_nonblocking (tn_client tn) (ln_pending (tn_s2c tn)) = (Inr w2, [], cl)"
    "pe_delivered cl = pe_delivered (tn_client tn) @ ln_pending (tn_s2c tn)"
    using assms(3) by (rule_tac flush_pending_soft [OF t(1), of "ln_pending (tn_s2c tn)"]) auto
  have "\<exists>tn'. tunnel_iter clock limit tn = Some (Inr True, tn') \<and> tn_frames tn' = tn_frames tn \<and>
      ln_bytes (tn_c2s tn') = ln_bytes (tn_c2s tn) \<and> ln_bytes (tn_s2c tn') = ln_bytes (tn_s2c tn) \<and>
      ln_pending (tn_c2s tn') = [] \<and> ln_pending (tn_s2c tn') = [] \<and>
      pe_delivered (tn_upstream tn') = pe_delivered (tn_upstream tn) @ ln_pending (tn_c2s tn) \<and>
      pe_delivered (tn_client tn') = pe_delivered (tn_client tn) @ ln_pending (tn_s2c tn)"
    using assms(1,2) f1 f2
    by (simp add: tunnel_iter_def pull_def tunnel_flush_def flush_lane_def close_lane_def Let_def tunnel_finished_def)
  then show ?thesis by (subst tunnel_loop.simps) auto
qed

text \<open>
  Both directions are closed, bytes wait for the upstream, which answers every write with an error
  of a closed connection, and no write or flush to the client fails with an error that would end
  the relay. Whether bytes wait for the client does not matter.
\<close>

definition dead_writer :: "tunnel \<Rightarrow> bool" where
  "dead_writer tn \<longleftrightarrow>
     ln_closed (tn_c2s tn) \<and> ln_closed (tn_s2c tn) \<and> ln_pending (tn_c2s tn) \<noteq> [] \<and> tolerated (tn_client tn) \<and>
     (\<forall>k. \<exists>e. pe_write (tn_upstream tn) k = WriteErr e \<and> websocket_end_error e)"

lemma dead_writer_iter:
  assumes "dead_writer tn"
  shows "\<exists>tn'. tunnel_iter clock limit tn = Some (Inr False, tn') \<and> dead_writer tn'"
proof -
  obtain e where e: "pe_write (tn_upstream tn) (pe_calls (tn_upstream tn)) = WriteErr e" "websocket_end_error e"
    using assms by (auto simp: dead_writer_def)
  then have up: "flush_pending_nonblocking (tn_upstream tn) (ln_pending (tn_c2s tn)) =
      (Inr 0, ln_pending (tn_c2s tn), (tn_upstream tn)\<lparr>pe_calls := pe_calls (tn_upstream tn) + 1\<rparr>)"
    using assms by (simp add: flush_pending_nonblocking_def flush_loop.simps peer_write_def dead_writer_def)
  have t: "tolerated (tn_client tn)" using assms by (simp add: dead_writer_def)
  obtain w pending cl where cl: "flush_pending_nonblocking (tn_client tn) (ln_pending (tn_s2c tn)) = (Inr w, pending, cl)"
    "pe_write cl = pe_write (tn_client tn)" "pe_flush cl = pe_flush (tn_client tn)"
    by (rule flush_pending_soft [OF t])
  have "tolerated cl" "tolerated (cl\<lparr>pe_shutdown := True\<rparr>)" using t cl by (simp_all add: tolerated_def soft_flushes_def)
  with up cl(1) assms show ?thesis
    by (simp add: dead_writer_def tunnel_iter_def pull_def tunnel_flush_def flush_lane_def close_lane_def Let_def
        tunnel_finished_def)
qed

text \<open>
  C28: a peer that resets the connection keeps the relay running forever. When both
  directions are closed, bytes wait for the upstream, every write to it ends with an error
  of a closed connection, and no write or flush to the client fails with an error other than an
  unready socket or a closed connection (which would end the relay), the loop never returns: the
  write error is swallowed and the loop ends only once nothing is waiting.
\<close>

theorem tunnel_hangs_on_reset:
  assumes "dead_writer tn"
  shows "tunnel_loop clock limit tn = None"
proof (rule ccontr)
  assume "tunnel_loop clock limit tn \<noteq> None"
  then obtain y where "tunnel_loop clock limit tn = Some y" by blast
  then have "\<not> dead_writer tn"
  proof (rule tunnel_loop.raw_induct [rotated])
    fix f :: "(nat \<Rightarrow> nat) \<Rightarrow> nat \<Rightarrow> tunnel \<Rightarrow> _ option" and clock limit tn y
    assume IH: "\<And>clock limit tn y. f clock limit tn = Some y \<Longrightarrow> \<not> dead_writer tn"
      and step: "Option.bind (tunnel_iter clock limit tn) (\<lambda>(r, tn). case r of Inl k \<Rightarrow> Some (Inl k, tn)
        | Inr finished \<Rightarrow> if finished then Some (Inr (ln_bytes (tn_c2s tn), ln_bytes (tn_s2c tn), tn_frames tn), tn)
            else f clock limit tn) = Some y"
    show "\<not> dead_writer tn"
    proof
      assume "dead_writer tn"
      then obtain tn' where "tunnel_iter clock limit tn = Some (Inr False, tn')" "dead_writer tn'"
        using dead_writer_iter by blast
      with step IH show False by auto
    qed
  qed
  with assms show False by contradiction
qed

section \<open>The copy loop over blocking streams\<close>

datatype write_all_result = AllWritten | WriteFailed nat io_kind

record ws_writer =
  wr_write :: "nat \<Rightarrow> write_all_result"
  wr_flush :: "nat \<Rightarrow> io_kind option"
  wr_calls :: nat
  wr_delivered :: string

definition write_frame_all :: "string \<Rightarrow> ws_writer \<Rightarrow> io_kind option \<times> ws_writer" where
  "write_frame_all data wr =
     (let wr' = wr\<lparr>wr_calls := wr_calls wr + 1\<rparr> in
      case wr_write wr (wr_calls wr) of
        AllWritten \<Rightarrow> (None, wr'\<lparr>wr_delivered := wr_delivered wr @ data\<rparr>)
      | WriteFailed n k \<Rightarrow> (Some k, wr'\<lparr>wr_delivered := wr_delivered wr @ take n data\<rparr>))"

definition flush_writer :: "ws_writer \<Rightarrow> io_kind option \<times> ws_writer" where
  "flush_writer wr = (wr_flush wr (wr_calls wr), wr\<lparr>wr_calls := wr_calls wr + 1\<rparr>)"

lemma read_ws_frame_consumes:
  assumes "read_ws_frame st = Inr (Some (f, st'))"
  shows "str_bytes st = wf_raw f @ str_bytes st' \<and> length (str_bytes st') < length (str_bytes st)"
proof -
  obtain n where "parse_ws_frame_prefix (str_bytes st) = Inr (Some (f, n))"
    "st' = st\<lparr>str_bytes := drop n (str_bytes st)\<rparr>"
    using assms unfolding read_ws_frame_prefix by (auto split: sum.splits option.splits if_splits)
  with parse_used show ?thesis by fastforce
qed

function copy_loop ::
  "(nat \<Rightarrow> nat) \<Rightarrow> frame_direction \<Rightarrow> nat \<Rightarrow> byte_stream \<Rightarrow> ws_writer \<Rightarrow> nat \<Rightarrow> frame_record list \<times> nat option \<Rightarrow>
     (io_kind + nat) \<times> ws_writer \<times> frame_record list" where
  "copy_loop clock direction limit st wr bytes trace =
     (case read_ws_frame st of
        Inl k \<Rightarrow> (if websocket_end_error k then Inr bytes else Inl k, wr, fst trace)
      | Inr None \<Rightarrow> (Inr bytes, wr, fst trace)
      | Inr (Some (f, st')) \<Rightarrow>
          (let bytes = (bytes + length (wf_raw f)) mod (USIZE_MAX + 1) in
           case write_frame_all (wf_raw f) wr of
             (Some k, wr) \<Rightarrow> (if websocket_end_error k then Inr bytes else Inl k, wr, fst trace)
           | (None, wr) \<Rightarrow>
               (case flush_writer wr of
                  (Some k, wr) \<Rightarrow> (if websocket_end_error k then Inr bytes else Inl k, wr, fst trace)
                | (None, wr) \<Rightarrow>
                    (let trace = record_ws_frame (clock (length (fst trace))) direction limit f trace in
                     if wf_opcode f = 8 then (Inr bytes, wr, fst trace)
                     else copy_loop clock direction limit st' wr bytes trace))))"
  by pat_completeness auto
termination
  by (relation "measure (\<lambda>(clock, direction, limit, st, wr, bytes, trace). length (str_bytes st))")
     (auto dest: read_ws_frame_consumes)

declare copy_loop.simps [simp del]

definition websocket_copy_frames_shared ::
  "(nat \<Rightarrow> nat) \<Rightarrow> frame_direction \<Rightarrow> nat \<Rightarrow> byte_stream \<Rightarrow> ws_writer \<Rightarrow> frame_record list \<Rightarrow>
     (io_kind + nat) \<times> ws_writer \<times> frame_record list" where
  "websocket_copy_frames_shared clock direction limit reader writer frames =
     copy_loop clock direction limit reader writer 0 (frames, None)"

lemma write_frame_all_prefix:
  "write_frame_all data wr = (e, wr') \<Longrightarrow> \<exists>sent. prefix sent data \<and> wr_delivered wr' = wr_delivered wr @ sent \<and> (e = None \<longrightarrow> sent = data)"
  by (auto simp: write_frame_all_def Let_def take_is_prefix split: write_all_result.splits)

lemma copy_loop_prefix:
  "prefix (wr_delivered (fst (snd (copy_loop clock direction limit st wr bytes trace)))) (wr_delivered wr @ str_bytes st)"
proof (induction clock direction limit st wr bytes trace rule: copy_loop.induct)
  case (1 clock direction limit st wr bytes trace)
  show ?case
  proof (cases "read_ws_frame st")
    case (Inr r)
    show ?thesis
    proof (cases r)
      case (Some fs)
      obtain f st' where fs: "fs = (f, st')" by fastforce
      obtain e wr1 where wr1: "write_frame_all (wf_raw f) wr = (e, wr1)" by fastforce
      obtain e2 wr2 where wr2: "flush_writer wr1 = (e2, wr2)" by fastforce
      have bytes: "str_bytes st = wf_raw f @ str_bytes st'" using read_ws_frame_consumes Inr Some fs by blast
      have d2: "wr_delivered wr2 = wr_delivered wr1" using wr2 by (auto simp: flush_writer_def)
      obtain sent where sent: "prefix sent (wf_raw f)" "wr_delivered wr1 = wr_delivered wr @ sent" "e = None \<longrightarrow> sent = wf_raw f"
        using write_frame_all_prefix [OF wr1] by blast
      show ?thesis
      proof (cases "e = None \<and> e2 = None \<and> wf_opcode f \<noteq> 8")
        case True
        with "1.IH" [OF Inr Some fs [symmetric] refl wr1 [symmetric] _ wr2 [symmetric]] sent d2 bytes
        show ?thesis by (subst copy_loop.simps) (simp add: Inr Some fs wr1 wr2 Let_def)
      next
        case False
        with sent d2 bytes show ?thesis
          by (subst copy_loop.simps) (auto simp: Inr Some fs wr1 wr2 Let_def split: option.splits)
      qed
    qed (use Inr in \<open>simp add: copy_loop.simps\<close>)
  qed (simp add: copy_loop.simps)
qed

section \<open>A concrete relay\<close>

text \<open>
  A client that sends one text frame and closes; an upstream that closes at once and takes two
  bytes per write; and one that closes and then answers every write with \<open>BrokenPipe\<close>.
\<close>

definition text_frame :: string where
  "text_frame = [CHR 0x81, CHR 0x01, CHR ''a'']"

definition closing_peer :: "read_result \<Rightarrow> write_result \<Rightarrow> ws_peer" where
  "closing_peer first w = \<lparr>pe_read = (\<lambda>k. if k = 0 then first else ReadBytes []), pe_write = (\<lambda>_. w), pe_flush = (\<lambda>_. None),
     pe_calls = 0, pe_received = [], pe_delivered = [], pe_shutdown = False\<rparr>"

definition relay_demo :: "write_result \<Rightarrow> tunnel" where
  "relay_demo w = tunnel_new (closing_peer (ReadBytes text_frame) (Wrote 9)) (closing_peer (ReadBytes []) w)"

lemma text_frame_decodes:
  "decoder_push text_frame [] = (Inr [\<lparr>wf_raw = text_frame, wf_payload = ''a'', wf_opcode = 1, wf_fin = True\<rparr>], [])"
  by code_simp

lemma text_frame_read:
  "read_ws_frames_nonblocking (closing_peer (ReadBytes text_frame) w) [] =
     Some (Inr (3, [\<lparr>wf_raw = text_frame, wf_payload = ''a'', wf_opcode = 1, wf_fin = True\<rparr>], False), [],
       (closing_peer (ReadBytes text_frame) w)\<lparr>pe_calls := 1, pe_received := text_frame\<rparr>)"
  "read_ws_frames_nonblocking (closing_peer (ReadBytes []) w) [] =
     Some (Inr (0, [], True), [], (closing_peer (ReadBytes []) w)\<lparr>pe_calls := 1\<rparr>)"
  "read_ws_frames_nonblocking ((closing_peer (ReadBytes text_frame) w)\<lparr>pe_calls := 1, pe_received := text_frame\<rparr>) [] =
     Some (Inr (0, [], True), [], (closing_peer (ReadBytes text_frame) w)\<lparr>pe_calls := 2, pe_received := text_frame\<rparr>)"
proof -
  have take: "take READ_BUFFER text_frame = text_frame" "length text_frame = 3" "text_frame \<noteq> []"
    by (simp_all add: READ_BUFFER_def text_frame_def)
  show "read_ws_frames_nonblocking (closing_peer (ReadBytes text_frame) w) [] =
     Some (Inr (3, [\<lparr>wf_raw = text_frame, wf_payload = ''a'', wf_opcode = 1, wf_fin = True\<rparr>], False), [],
       (closing_peer (ReadBytes text_frame) w)\<lparr>pe_calls := 1, pe_received := text_frame\<rparr>)"
    by (subst read_ws_frames_nonblocking_def, subst read_frames_loop.simps)
       (simp add: peer_read_def closing_peer_def take text_frame_decodes READ_BUFFER_def)
qed (subst read_ws_frames_nonblocking_def, subst read_frames_loop.simps, simp add: peer_read_def closing_peer_def)+

text \<open>After the first iteration: with \<open>sent\<close> delivered, \<open>rest\<close> waiting, and \<open>calls\<close> made to the upstream.\<close>

definition relay_first :: "write_result \<Rightarrow> nat \<Rightarrow> string \<Rightarrow> string \<Rightarrow> tunnel" where
  "relay_first w calls sent rest =
     \<lparr>tn_client = (closing_peer (ReadBytes text_frame) (Wrote 9))\<lparr>pe_calls := 1, pe_received := text_frame\<rparr>,
      tn_upstream = (closing_peer (ReadBytes []) w)\<lparr>pe_calls := calls, pe_delivered := sent\<rparr>,
      tn_c2s = lane_new\<lparr>ln_pending := rest, ln_bytes := 3\<rparr>, tn_s2c = lane_new\<lparr>ln_closed := True\<rparr>,
      tn_frames = [\<lparr>fr_direction = ClientToServer, fr_at_ms = 0, fr_opcode = ''text'', fr_fin = True, fr_payload_len = 1,
        fr_data_encoding = FrameUtf8, fr_data = ''a'', fr_truncated = False\<rparr>]\<rparr>"

lemma relay_first_iter:
  assumes "flush_pending_nonblocking ((closing_peer (ReadBytes []) w)\<lparr>pe_calls := 1\<rparr>) text_frame =
      (Inr n, rest, (closing_peer (ReadBytes []) w)\<lparr>pe_calls := calls, pe_delivered := sent\<rparr>)"
  shows "tunnel_iter (\<lambda>_. 0) 100 (relay_demo w) = Some (Inr False, relay_first w calls sent rest)"
proof -
  have flush: "flush_pending_nonblocking pe [] = (Inr 0, [], pe)" for pe
    by (simp add: flush_pending_nonblocking_def flush_loop.simps)
  have "length text_frame = 3" by (simp add: text_frame_def)
  then show ?thesis
    using assms
    by (simp add: tunnel_iter_def relay_demo_def tunnel_new_def pull_def lane_new_def MAX_PENDING_def text_frame_read
        append_frames_def append_frame_def record_ws_frame_def ws_opcode_name_def ws_frame_encoding_def update_ws_trace_state_def
        tunnel_flush_def flush_lane_def flush close_lane_def tunnel_finished_def relay_first_def USIZE_MAX_def)
qed

lemma relay_flush:
  "flush_pending_nonblocking ((closing_peer (ReadBytes []) (Wrote 2))\<lparr>pe_calls := 1\<rparr>) text_frame =
     (Inr 3, [], (closing_peer (ReadBytes []) (Wrote 2))\<lparr>pe_calls := 4, pe_delivered := text_frame\<rparr>)"
  "flush_pending_nonblocking ((closing_peer (ReadBytes []) (WriteErr BrokenPipe))\<lparr>pe_calls := 1\<rparr>) text_frame =
     (Inr 0, text_frame, (closing_peer (ReadBytes []) (WriteErr BrokenPipe))\<lparr>pe_calls := 2, pe_delivered := []\<rparr>)"
  by (simp_all add: flush_pending_nonblocking_def flush_loop.simps peer_write_def peer_flush_def closing_peer_def text_frame_def
      websocket_end_error_def)

theorem tunnel_passes_prefix_witness:
  "relays (\<lambda>_. 0) 100 (relay_demo (Wrote 2)) False (relay_first (Wrote 2) 4 text_frame []) \<and>
   prefix text_frame (pe_received (tn_client (relay_first (Wrote 2) 4 text_frame []))) \<and>
   ln_bytes (tn_c2s (relay_first (Wrote 2) 4 text_frame [])) = 3"
proof -
  have run: "relays (\<lambda>_. 0) 100 (relay_demo (Wrote 2)) False (relay_first (Wrote 2) 4 text_frame [])"
    using relays_step [OF relays_start relay_first_iter [OF relay_flush(1)]] by simp
  from tunnel_passes_prefix [OF _ _ _ _ run [unfolded relay_demo_def]] run show ?thesis
    by (simp add: closing_peer_def relay_first_def lane_new_def)
qed

definition drained_demo :: tunnel where
  "drained_demo = (relay_first (Wrote 2) 2 [] text_frame)\<lparr>tn_c2s := lane_new\<lparr>ln_pending := text_frame, ln_bytes := 3, ln_closed := True\<rparr>\<rparr>"

theorem tunnel_ends_witness:
  "\<exists>tn. tunnel_loop (\<lambda>_. 0) 100 drained_demo = Some (Inr (3, 0, tn_frames drained_demo), tn) \<and> ln_pending (tn_c2s tn) = [] \<and>
     pe_delivered (tn_upstream tn) = text_frame"
proof -
  have "accepting (tn_client drained_demo)" "accepting (tn_upstream drained_demo)"
    by (auto simp: accepting_def soft_flushes_def drained_demo_def relay_first_def closing_peer_def numeral_2_eq_2 numeral_eq_Suc)
  moreover have "ln_closed (tn_c2s drained_demo)" "ln_closed (tn_s2c drained_demo)"
    "ln_bytes (tn_c2s drained_demo) = 3" "ln_bytes (tn_s2c drained_demo) = 0"
    "pe_delivered (tn_upstream drained_demo) = []" "ln_pending (tn_c2s drained_demo) = text_frame"
    by (simp_all add: drained_demo_def relay_first_def lane_new_def)
  ultimately show ?thesis using tunnel_ends [of drained_demo "\<lambda>_. 0" 100] by auto
qed

theorem tunnel_hangs_on_reset_witness:
  "websocket_tunnel_nonblocking_inner (\<lambda>_. 0) 100 (closing_peer (ReadBytes text_frame) (Wrote 9))
     (closing_peer (ReadBytes []) (WriteErr BrokenPipe)) = None"
proof -
  let ?tn = "relay_first (WriteErr BrokenPipe) 2 [] text_frame"
  have flush: "flush_pending_nonblocking pe [] = (Inr 0, [], pe)" for pe
    by (simp add: flush_pending_nonblocking_def flush_loop.simps)
  have wait: "flush_pending_nonblocking ((closing_peer (ReadBytes []) (WriteErr BrokenPipe))\<lparr>pe_calls := 2, pe_delivered := []\<rparr>) text_frame =
      (Inr 0, text_frame, (closing_peer (ReadBytes []) (WriteErr BrokenPipe))\<lparr>pe_calls := 3, pe_delivered := []\<rparr>)"
    by (simp add: flush_pending_nonblocking_def flush_loop.simps peer_write_def closing_peer_def text_frame_def websocket_end_error_def)
  have len: "length text_frame = 3" "text_frame \<noteq> []" by (simp_all add: text_frame_def)
  have "\<exists>tn. tunnel_iter (\<lambda>_. 0) 100 ?tn = Some (Inr False, tn) \<and> dead_writer tn"
    by (simp add: tunnel_iter_def relay_first_def pull_def lane_new_def MAX_PENDING_def text_frame_read len wait
        append_frames_def tunnel_flush_def flush_lane_def flush close_lane_def tunnel_finished_def dead_writer_def
        tolerated_def soft_flushes_def del: One_nat_def)
       (simp add: closing_peer_def websocket_end_error_def)
  then obtain tn where second: "tunnel_iter (\<lambda>_. 0) 100 ?tn = Some (Inr False, tn)" "dead_writer tn" by blast
  have "tunnel_loop (\<lambda>_. 0) 100 ?tn = None"
    by (subst tunnel_loop.simps) (simp add: second(1) tunnel_hangs_on_reset [OF second(2)])
  then have "tunnel_loop (\<lambda>_. 0) 100 (relay_demo (WriteErr BrokenPipe)) = None"
    by (subst tunnel_loop.simps) (simp add: relay_first_iter [OF relay_flush(2)])
  then show ?thesis by (simp add: websocket_tunnel_nonblocking_inner_def relay_demo_def)
qed

end
