(* ===== verification/Http1_Head.thy ===== *)
theory Http1_Head
  imports Byte_Stream Trace_Spill
begin

text \<open>
  HTTP/1 message heads of the network layer (\<open>http.rs\<close>, \<open>http/request/head.rs\<close>): the two
  readers of a head (byte by byte, and over a buffered stream with a small string-matching
  automaton), header fields with their limits, and the framing of a request body. Error
  texts are values of \<open>http_error\<close>. The main results: both head readers agree on every stream
  and every way it arrives, and an accepted framing is unambiguous.
\<close>

datatype http_error =
    HttpIo io_kind
  | HeaderSizeLimit
  | HeadersCut
  | HeaderCountLimit nat
  | InvalidRequestLine
  | EmptyResponse
  | BothFramings
  | UnsupportedCoding string
  | InvalidContentLength
  | ConflictingContentLength
  | BodyCut
  | EmptyReadBuffer
  | InvalidChunkSize
  | InvalidChunkEnd
  | ChunkLineLimit nat
  | ChunkLineUtf8
  | TrailerSizeLimit nat
  | TrailerCountLimit nat
  | InvalidTrailer
  | EmptyTrailerName
  | InvalidTrailerName string
  | ForbiddenTrailer string
  | InvalidTrailerValue string

definition CRLF :: string where "CRLF = [CHR 0x0D, CHR 0x0A]"

definition TERMINATOR :: string where "TERMINATOR = [CHR 0x0D, CHR 0x0A, CHR 0x0D, CHR 0x0A]"

section \<open>Reading a head byte by byte\<close>

function read_head_loop :: "nat \<Rightarrow> string \<Rightarrow> byte_stream \<Rightarrow> http_error + (string \<times> byte_stream) option" where
  "read_head_loop max_size buf st =
     (case read_some 1 st of
        Inl k \<Rightarrow> Inl (HttpIo k)
      | Inr (bs, st') \<Rightarrow>
          if bs = [] then (if buf = [] then Inr None else Inl HeadersCut)
          else
            (let buf = buf @ bs in
             if max_size < length buf then Inl HeaderSizeLimit
             else if ends_with buf TERMINATOR then Inr (Some (take (length buf - 4) buf, st'))
             else read_head_loop max_size buf st'))"
  by pat_completeness auto
termination
  by (relation "measure (\<lambda>(max_size, buf, st). length (str_bytes st))") (auto dest!: read_some_Inr)

declare read_head_loop.simps [simp del]

definition read_head :: "nat \<Rightarrow> byte_stream \<Rightarrow> http_error + (string \<times> byte_stream) option" where
  "read_head max_size st = read_head_loop max_size [] st"

section \<open>Reading a head from a buffered stream\<close>

definition PREFIX_TABLE :: "nat list" where "PREFIX_TABLE = [0, 0, 1, 2]"

function fall_back :: "char \<Rightarrow> nat \<Rightarrow> nat" where
  "fall_back c matched =
     (if 0 < matched \<and> matched < 4 \<and> c \<noteq> TERMINATOR ! matched then fall_back c (PREFIX_TABLE ! (matched - 1)) else matched)"
  by pat_completeness auto
termination
proof (relation "measure snd")
  fix c :: char and matched :: nat
  assume "0 < matched \<and> matched < 4 \<and> c \<noteq> TERMINATOR ! matched"
  then have "matched = 1 \<or> matched = 2 \<or> matched = 3" by auto
  then show "((c, PREFIX_TABLE ! (matched - 1)), (c, matched)) \<in> measure snd" by (auto simp: PREFIX_TABLE_def)
qed simp

declare fall_back.simps [simp del]

definition match_byte :: "char \<Rightarrow> nat \<Rightarrow> nat" where
  "match_byte c matched = (let m = fall_back c matched in if c = TERMINATOR ! m then m + 1 else m)"

text \<open>The scan of the bytes at hand: the state of the automaton, and how many bytes end the head.\<close>

fun scan_available :: "nat \<Rightarrow> string \<Rightarrow> nat \<times> nat option" where
  "scan_available matched [] = (matched, None)"
| "scan_available matched (c # cs) =
     (let matched = match_byte c matched in
      if matched = 4 then (matched, Some 1)
      else (let (matched, found) = scan_available matched cs in (matched, map_option Suc found)))"

function read_head_buffered_loop ::
  "nat \<Rightarrow> string \<Rightarrow> nat \<Rightarrow> byte_stream \<Rightarrow> http_error + (string \<times> byte_stream) option" where
  "read_head_buffered_loop max_size buf matched st =
     (case fill_buf st of
        Inl k \<Rightarrow> Inl (HttpIo k)
      | Inr (available, st') \<Rightarrow>
          if available = [] then (if buf = [] then Inr None else Inl HeadersCut)
          else
            (let (matched, found) = scan_available matched available;
                 consumed = (case found of Some n \<Rightarrow> n | None \<Rightarrow> length available);
                 buf = buf @ take consumed available;
                 st' = consume consumed st' in
             if max_size < length buf then Inl HeaderSizeLimit
             else if found \<noteq> None then Inr (Some (take (length buf - 4) buf, st'))
             else read_head_buffered_loop max_size buf matched st'))"
  by pat_completeness auto
termination
  by (relation "measure (\<lambda>(max_size, buf, matched, st). length (str_bytes st))")
     (auto simp: fill_buf_def consume_def part_size_pos split: if_splits option.splits)

declare read_head_buffered_loop.simps [simp del]

definition read_head_buffered :: "nat \<Rightarrow> byte_stream \<Rightarrow> http_error + (string \<times> byte_stream) option" where
  "read_head_buffered max_size st = read_head_buffered_loop max_size [] 0 st"

section \<open>Reading a head with a peek\<close>

definition PEEK_CAPACITY :: nat where "PEEK_CAPACITY = 4 * 1024"

definition peek :: "nat \<Rightarrow> byte_stream \<Rightarrow> io_kind + string" where
  "peek n st =
     (if str_bytes st = [] then (case str_close st of None \<Rightarrow> Inr [] | Some e \<Rightarrow> Inl e)
      else Inr (take (min n (part_size st)) (str_bytes st)))"

definition read_head_tcp :: "nat \<Rightarrow> byte_stream \<Rightarrow> http_error + (string \<times> byte_stream) option" where
  "read_head_tcp max_size st =
     (case peek (max (min PEEK_CAPACITY (saturating_add max_size 1)) 1) st of
        Inl k \<Rightarrow> Inl (HttpIo k)
      | Inr peeked \<Rightarrow>
          if peeked = [] then Inr None
          else
            (case find_str TERMINATOR peeked of
               Some position \<Rightarrow>
                 (let stop = position + 4 in
                  if max_size < stop then Inl HeaderSizeLimit
                  else
                    (case read_exact stop st of
                       Inl k \<Rightarrow> Inl (HttpIo k)
                     | Inr (bs, st') \<Rightarrow> Inr (Some (take (stop - 4) bs, st'))))
             | None \<Rightarrow> read_head max_size st))"

section \<open>Header fields\<close>

fun split_crlf :: "string \<Rightarrow> string \<Rightarrow> string list" where
  "split_crlf cur [] = [cur]"
| "split_crlf cur [c] = [cur @ [c]]"
| "split_crlf cur (c # d # s) =
     (if c = CHR 0x0D \<and> d = CHR 0x0A then cur # split_crlf [] s else split_crlf (cur @ [c]) (d # s))"

fun parse_headers_loop :: "nat \<Rightarrow> nat \<Rightarrow> headers \<Rightarrow> string list \<Rightarrow> http_error + headers" where
  "parse_headers_loop max_count count hs [] = Inr hs"
| "parse_headers_loop max_count count hs (line # lines) =
     (if line = [] then parse_headers_loop max_count count hs lines
      else if max_count < count + 1 then Inl (HeaderCountLimit max_count)
      else parse_headers_loop max_count (count + 1)
        (case split_once line '':'' of Some (name, value) \<Rightarrow> hs @ [(trim name, trim value)] | None \<Rightarrow> hs) lines)"

definition parse_headers_limited :: "nat \<Rightarrow> string list \<Rightarrow> http_error + headers" where
  "parse_headers_limited max_count lines = parse_headers_loop max_count 0 [] lines"

section \<open>Request heads and framing\<close>

datatype body_framing = NoBody | ContentLength nat | Chunked

definition has_body :: "body_framing \<Rightarrow> bool" where
  "has_body f \<longleftrightarrow> f \<noteq> NoBody \<and> f \<noteq> ContentLength 0"

definition field_values :: "string \<Rightarrow> headers \<Rightarrow> string list" where
  "field_values name hs =
     map trim (concat (map (\<lambda>(_, value). split_chars (\<lambda>c. c = CHR '','') value)
       (filter (\<lambda>(n, _). eq_ignore_ascii_case n name) hs)))"

definition content_length :: "headers \<Rightarrow> http_error + nat option" where
  "content_length hs =
     (case field_values ''content-length'' hs of
        [] \<Rightarrow> Inr None
      | first # rest \<Rightarrow>
          (case parse_uint USIZE_MAX first of
             Inl _ \<Rightarrow> Inl InvalidContentLength
           | Inr n \<Rightarrow>
               if list_ex (\<lambda>v. parse_uint USIZE_MAX v \<noteq> Inr n) rest then Inl ConflictingContentLength
               else Inr (Some n)))"

definition transfer_codings :: "headers \<Rightarrow> string list" where
  "transfer_codings hs = map to_ascii_lowercase (filter (\<lambda>v. v \<noteq> []) (field_values ''transfer-encoding'' hs))"

fun join_comma :: "string list \<Rightarrow> string" where
  "join_comma [] = []"
| "join_comma [x] = x"
| "join_comma (x # xs) = x @ '', '' @ join_comma xs"

definition request_framing :: "headers \<Rightarrow> http_error + body_framing" where
  "request_framing hs =
     try_bind (content_length hs) (\<lambda>len.
     let codings = transfer_codings hs in
     if codings \<noteq> [] \<and> len \<noteq> None then Inl BothFramings
     else if codings = [] then Inr (case len of Some n \<Rightarrow> ContentLength n | None \<Rightarrow> NoBody)
     else if length codings = 1 \<and> codings ! 0 = ''chunked'' then Inr Chunked
     else Inl (UnsupportedCoding (join_comma codings)))"

record request_head =
  rh_method :: string
  rh_target :: string
  rh_version :: string
  rh_headers :: headers
  rh_framing :: body_framing

definition parse_request_head :: "nat \<Rightarrow> string \<Rightarrow> http_error + request_head" where
  "parse_request_head max_count head =
     (let lines = split_crlf [] (utf8_lossy head);
          parts = split_ws [] (chars (hd lines));
          method = (case parts of m # _ \<Rightarrow> m | _ \<Rightarrow> []);
          target = (case parts of _ # t # _ \<Rightarrow> t | _ \<Rightarrow> []);
          version = (case parts of _ # _ # v # _ \<Rightarrow> v | _ \<Rightarrow> ''HTTP/1.1'') in
      if method = [] \<or> target = [] then Inl InvalidRequestLine
      else
        try_bind (parse_headers_limited max_count (tl lines)) (\<lambda>hs.
        try_bind (request_framing hs) (\<lambda>framing.
        Inr \<lparr>rh_method = method, rh_target = target, rh_version = version, rh_headers = hs, rh_framing = framing\<rparr>)))"

definition read_request_head :: "nat \<Rightarrow> nat \<Rightarrow> byte_stream \<Rightarrow> http_error + (request_head \<times> byte_stream) option" where
  "read_request_head max_size max_count st =
     try_bind (read_head max_size st) (\<lambda>r.
     case r of
       None \<Rightarrow> Inr None
     | Some (head, st) \<Rightarrow> try_bind (parse_request_head max_count head) (\<lambda>h. Inr (Some (h, st))))"

definition read_request_head_tcp :: "nat \<Rightarrow> nat \<Rightarrow> byte_stream \<Rightarrow> http_error + (request_head \<times> byte_stream) option" where
  "read_request_head_tcp max_size max_count st =
     try_bind (read_head_tcp max_size st) (\<lambda>r.
     case r of
       None \<Rightarrow> Inr None
     | Some (head, st) \<Rightarrow> try_bind (parse_request_head max_count head) (\<lambda>h. Inr (Some (h, st))))"

section \<open>Response heads\<close>

record response_head =
  ph_version :: string
  ph_status :: u16
  ph_reason :: string
  ph_headers :: headers

text \<open>\<open>splitn(3, ' ')\<close>\<close>

definition splitn_space :: "string \<Rightarrow> string list" where
  "splitn_space s =
     (case split_once s '' '' of
        None \<Rightarrow> [s]
      | Some (a, rest) \<Rightarrow> (case split_once rest '' '' of None \<Rightarrow> [a, rest] | Some (b, c) \<Rightarrow> [a, b, c]))"

definition parse_response_head :: "nat \<Rightarrow> string \<Rightarrow> http_error + response_head" where
  "parse_response_head max_count head =
     (let lines = split_crlf [] (utf8_lossy head);
          parts = splitn_space (hd lines);
          status = (case parts of _ # s # _ \<Rightarrow> (case parse_u16 s of Inr n \<Rightarrow> n | Inl _ \<Rightarrow> 502) | _ \<Rightarrow> 502);
          reason = (case parts of [_, _, r] \<Rightarrow> r | _ \<Rightarrow> []) in
      try_bind (parse_headers_limited max_count (tl lines)) (\<lambda>hs.
      Inr \<lparr>ph_version = hd parts, ph_status = status, ph_reason = reason, ph_headers = hs\<rparr>))"

definition response_after_head ::
  "nat \<Rightarrow> http_error + (string \<times> byte_stream) option \<Rightarrow> http_error + response_head \<times> byte_stream" where
  "response_after_head max_count r =
     try_bind r (\<lambda>r.
     case r of
       None \<Rightarrow> Inl EmptyResponse
     | Some (head, st) \<Rightarrow> try_bind (parse_response_head max_count head) (\<lambda>h. Inr (h, st)))"

definition read_response_head :: "nat \<Rightarrow> nat \<Rightarrow> byte_stream \<Rightarrow> http_error + response_head \<times> byte_stream" where
  "read_response_head max_size max_count st = response_after_head max_count (read_head max_size st)"

definition read_response_head_buffered :: "nat \<Rightarrow> nat \<Rightarrow> byte_stream \<Rightarrow> http_error + response_head \<times> byte_stream" where
  "read_response_head_buffered max_size max_count st = response_after_head max_count (read_head_buffered max_size st)"

section \<open>Both head readers agree\<close>

text \<open>The reference: the bytes of the stream one by one, with the rest of the stream as result.\<close>

fun scan_head :: "nat \<Rightarrow> io_kind option \<Rightarrow> string \<Rightarrow> string \<Rightarrow> http_error + (string \<times> string) option" where
  "scan_head max_size close buf [] =
     (case close of
        Some k \<Rightarrow> Inl (HttpIo k)
      | None \<Rightarrow> if buf = [] then Inr None else Inl HeadersCut)"
| "scan_head max_size close buf (c # cs) =
     (let buf = buf @ [c] in
      if max_size < length buf then Inl HeaderSizeLimit
      else if ends_with buf TERMINATOR then Inr (Some (take (length buf - 4) buf, cs))
      else scan_head max_size close buf cs)"

definition arrived :: "http_error + (string \<times> byte_stream) option \<Rightarrow> http_error + (string \<times> string) option" where
  "arrived r = map_sum id (map_option (\<lambda>(head, st). (head, str_bytes st))) r"

lemma read_head_loop_scan:
  "arrived (read_head_loop max_size buf st) = scan_head max_size (str_close st) buf (str_bytes st)"
proof (induction max_size buf st rule: read_head_loop.induct)
  case (1 max_size buf st)
  show ?case
  proof (cases "str_bytes st")
    case Nil
    then show ?thesis
      by (auto simp: read_head_loop.simps [of max_size buf st] read_some_def arrived_def split: option.split)
  next
    case (Cons c cs)
    obtain st' where read: "read_some 1 st = Inr ([c], st')" "str_bytes st' = cs" "str_close st' = str_close st"
    proof -
      have "0 < part_size st" using part_size_pos Cons by simp
      then have "min 1 (part_size st) = 1" by simp
      with Cons that show thesis by (simp add: read_some_def)
    qed
    show ?thesis
    proof (cases "max_size < length (buf @ [c]) \<or> ends_with (buf @ [c]) TERMINATOR")
      case True
      with read Cons show ?thesis by (auto simp: read_head_loop.simps [of max_size buf st] arrived_def Let_def)
    next
      case False
      with 1 [OF read(1) refl] read Cons show ?thesis
        by (simp add: read_head_loop.simps [of max_size buf st])
    qed
  qed
qed

text \<open>The automaton holds the longest beginning of the terminator that ends what was read.\<close>

definition matching :: "string \<Rightarrow> nat" where
  "matching buf =
     (if ends_with buf TERMINATOR then 4
      else if ends_with buf [CHR 0x0D, CHR 0x0A, CHR 0x0D] then 3
      else if ends_with buf [CHR 0x0D, CHR 0x0A] then 2
      else if ends_with buf [CHR 0x0D] then 1
      else 0)"

lemma ends_with_snoc: "ends_with (buf @ [c]) (p @ [d]) \<longleftrightarrow> c = d \<and> ends_with buf p"
  by (auto simp: ends_with_iff)

lemma ends_with_end: "ends_with buf []"
  by (simp add: ends_with_iff)

lemma matching_snoc:
  "matching (buf @ [c]) =
     (if c = CHR 0x0A then (if ends_with buf [CHR 0x0D, CHR 0x0A, CHR 0x0D] then 4 else if ends_with buf [CHR 0x0D] then 2 else 0)
      else if c = CHR 0x0D then (if ends_with buf [CHR 0x0D, CHR 0x0A] then 3 else 1)
      else 0)"
proof -
  have "ends_with (buf @ [c]) TERMINATOR \<longleftrightarrow> c = CHR 0x0A \<and> ends_with buf [CHR 0x0D, CHR 0x0A, CHR 0x0D]"
    "ends_with (buf @ [c]) [CHR 0x0D, CHR 0x0A, CHR 0x0D] \<longleftrightarrow> c = CHR 0x0D \<and> ends_with buf [CHR 0x0D, CHR 0x0A]"
    "ends_with (buf @ [c]) [CHR 0x0D, CHR 0x0A] \<longleftrightarrow> c = CHR 0x0A \<and> ends_with buf [CHR 0x0D]"
    "ends_with (buf @ [c]) [CHR 0x0D] \<longleftrightarrow> c = CHR 0x0D"
    using ends_with_snoc [of buf c "[CHR 0x0D, CHR 0x0A, CHR 0x0D]" "CHR 0x0A"] ends_with_snoc [of buf c "[CHR 0x0D, CHR 0x0A]" "CHR 0x0D"]
      ends_with_snoc [of buf c "[CHR 0x0D]" "CHR 0x0A"] ends_with_snoc [of buf c "[]" "CHR 0x0D"] ends_with_end [of buf]
    unfolding TERMINATOR_def by simp_all
  then show ?thesis unfolding matching_def by auto
qed

lemma ends_with_shorter: "ends_with buf (p @ q) \<Longrightarrow> ends_with buf q"
  by (auto simp: ends_with_iff)

lemma match_byte_matching:
  assumes "matching buf < 4"
  shows "match_byte c (matching buf) = matching (buf @ [c])"
proof -
  let ?cr = "CHR 0x0D" and ?lf = "CHR 0x0A"
  have nest: "ends_with buf [?cr, ?lf, ?cr] \<Longrightarrow> ends_with buf [?cr]"
    using ends_with_shorter [of buf "[?cr, ?lf]" "[?cr]"] by simp
  have excl: "\<not> (ends_with buf [?cr, ?lf] \<and> ends_with buf [?cr])"
    by (cases buf rule: rev_cases)
       (use ends_with_snoc [of _ _ "[?cr]" "?lf"] ends_with_snoc [of _ _ "[]" "?cr"] in \<open>auto simp: ends_with_iff\<close>)
  have fb: "fall_back c 3 = (if c = ?lf then 3 else fall_back c 1)" "fall_back c 2 = (if c = ?cr then 2 else fall_back c 0)"
    "fall_back c 1 = (if c = ?lf then 1 else fall_back c 0)" "fall_back c 0 = 0" for c
    by (subst fall_back.simps, simp add: TERMINATOR_def PREFIX_TABLE_def)+
  have not4: "\<not> ends_with buf TERMINATOR" using assms by (simp add: matching_def split: if_splits)
  have nth: "TERMINATOR ! 0 = ?cr" "TERMINATOR ! 1 = ?lf" "TERMINATOR ! 2 = ?cr" "TERMINATOR ! 3 = ?lf"
    by (simp_all add: TERMINATOR_def)
  show ?thesis
  proof (cases "ends_with buf [?cr, ?lf, ?cr]")
    case True
    with nest excl not4 show ?thesis unfolding matching_snoc by (simp add: matching_def match_byte_def Let_def fb nth del: One_nat_def)
  next
    case no3: False
    show ?thesis
    proof (cases "ends_with buf [?cr, ?lf]")
      case True
      with no3 excl not4 show ?thesis unfolding matching_snoc by (simp add: matching_def match_byte_def Let_def fb nth del: One_nat_def)
    next
      case False
      with no3 not4 show ?thesis unfolding matching_snoc
        by (cases "ends_with buf [?cr]") (simp_all add: matching_def match_byte_def Let_def fb nth del: One_nat_def)
    qed
  qed
qed

lemma ends_matching: "ends_with buf TERMINATOR \<longleftrightarrow> matching buf = 4"
  by (simp add: matching_def)

lemma scan_available_le: "scan_available m av = (m', Some n) \<Longrightarrow> 0 < n \<and> n \<le> length av"
  by (induction av arbitrary: m n) (auto simp: Let_def split: if_splits prod.splits)

lemma scan_available_state:
  "matching buf < 4 \<Longrightarrow> scan_available (matching buf) av = (m, None) \<Longrightarrow> m = matching (buf @ av) \<and> m < 4"
proof (induction av arbitrary: buf)
  case (Cons c cs)
  have m: "match_byte c (matching buf) = matching (buf @ [c])" using match_byte_matching Cons.prems(1) .
  with Cons.prems(2) have rest: "matching (buf @ [c]) \<noteq> 4" "scan_available (matching (buf @ [c])) cs = (m, None)"
    by (auto simp: Let_def split: if_splits prod.splits)
  then have "matching (buf @ [c]) < 4" by (simp add: matching_snoc split: if_splits)
  from Cons.IH [OF this rest(2)] show ?case by simp
qed simp

lemma scan_available_head:
  assumes "matching buf < 4" "length buf \<le> max_size"
  shows "scan_head max_size close buf (av @ rest) =
    (case scan_available (matching buf) av of
       (m, Some n) \<Rightarrow>
         if max_size < length buf + n then Inl HeaderSizeLimit
         else Inr (Some (take (length buf + n - 4) (buf @ take n av), drop n av @ rest))
     | (m, None) \<Rightarrow>
         if max_size < length buf + length av then Inl HeaderSizeLimit else scan_head max_size close (buf @ av) rest)"
  using assms
proof (induction av arbitrary: buf)
  case (Cons c cs)
  have m: "match_byte c (matching buf) = matching (buf @ [c])" using match_byte_matching Cons.prems(1) .
  obtain m' found where scan: "scan_available (matching (buf @ [c])) cs = (m', found)" by fastforce
  show ?case
  proof (cases "matching (buf @ [c]) = 4")
    case True
    then show ?thesis using m by (simp add: ends_matching Let_def)
  next
    case False
    then have lt: "matching (buf @ [c]) < 4" by (simp add: matching_snoc split: if_splits)
    show ?thesis
    proof (cases "max_size < length (buf @ [c])")
      case True
      then show ?thesis using m False scan by (auto simp: ends_matching Let_def split: option.split)
    next
      case fits: False
      with Cons.IH [OF lt] m False scan show ?thesis by (auto simp: ends_matching Let_def split: option.split)
    qed
  qed
qed simp

lemma read_head_buffered_scan:
  assumes "matching buf < 4" "length buf \<le> max_size"
  shows "arrived (read_head_buffered_loop max_size buf (matching buf) st) = scan_head max_size (str_close st) buf (str_bytes st)"
  using assms
proof (induction "length (str_bytes st)" arbitrary: buf st rule: less_induct)
  case less
  show ?case
  proof (cases "str_bytes st = []")
    case True
    then show ?thesis
      by (auto simp: read_head_buffered_loop.simps [of max_size buf] fill_buf_def arrived_def split: option.split)
  next
    case False
    obtain av rest where av: "str_bytes st = av @ rest" "av \<noteq> []"
      "fill_buf st = Inr (av, st\<lparr>str_parts := tl (str_parts st)\<rparr>)"
    proof
      show "str_bytes st = take (part_size st) (str_bytes st) @ drop (part_size st) (str_bytes st)" by simp
    qed (use False part_size_pos [OF False] in \<open>simp_all add: fill_buf_def\<close>)
    obtain m found where scan: "scan_available (matching buf) av = (m, found)" by fastforce
    note head = scan_available_head [OF less.prems, of "str_close st" av rest, unfolded scan, folded av(1)]
    let ?st = "st\<lparr>str_parts := tl (str_parts st)\<rparr>"
    show ?thesis
    proof (cases found)
      case None
      note m = scan_available_state [OF less.prems(1) scan [unfolded None]]
      let ?st' = "consume (length av) ?st"
      have st: "str_bytes ?st' = rest" "str_close ?st' = str_close st" by (simp_all add: consume_def av(1))
      have "length (str_bytes ?st') < length (str_bytes st)" unfolding st(1) using av(1,2) by simp
      note IH = less.hyps [OF this, of "buf @ av"]
      have step: "read_head_buffered_loop max_size buf (matching buf) st =
          (if max_size < length (buf @ av) then Inl HeaderSizeLimit else read_head_buffered_loop max_size (buf @ av) m ?st')"
        using av(2) by (simp add: read_head_buffered_loop.simps [of max_size buf "matching buf" st] av(3) scan None Let_def)
      show ?thesis
        unfolding step head None using IH m st by (auto simp: arrived_def)
    next
      case (Some n)
      note n = scan_available_le [OF scan [unfolded Some]]
      have "read_head_buffered_loop max_size buf (matching buf) st =
          (if max_size < length buf + n then Inl HeaderSizeLimit
           else Inr (Some (take (length buf + n - 4) (buf @ take n av), consume n ?st)))"
        using av(2) n by (simp add: read_head_buffered_loop.simps [of max_size buf "matching buf" st] av(3) scan Some Let_def)
      with n show ?thesis unfolding head Some by (simp add: arrived_def consume_def av(1))
    qed
  qed
qed

lemma scan_head_within:
  assumes "\<And>k. 0 < k \<Longrightarrow> k \<le> length pre \<Longrightarrow> \<not> ends_with (buf @ take k pre) TERMINATOR"
  shows "scan_head max_size close buf (pre @ rest) =
    (if pre \<noteq> [] \<and> max_size < length (buf @ pre) then Inl HeaderSizeLimit else scan_head max_size close (buf @ pre) rest)"
  using assms
proof (induction pre arbitrary: buf)
  case (Cons c cs)
  have "\<not> ends_with (buf @ [c]) TERMINATOR" using Cons.prems [of 1] by simp
  moreover have "0 < k \<Longrightarrow> k \<le> length cs \<Longrightarrow> \<not> ends_with ((buf @ [c]) @ take k cs) TERMINATOR" for k
    using Cons.prems [of "Suc k"] by simp
  note Cons.IH [OF this]
  ultimately show ?case by (auto simp: Let_def)
qed simp

lemma find_str_first: "find_str p s = Some i \<Longrightarrow> j < i \<Longrightarrow> \<not> starts_with (drop j s) p"
  by (induction s arbitrary: i j) (auto split: if_splits option.splits simp: less_Suc_eq_0_disj)

lemma ends_with_at:
  assumes "ends_with (take k s) p" "k \<le> length s"
  shows "length p \<le> k \<and> starts_with (drop (k - length p) s) p"
proof -
  obtain u where u: "take k s = u @ p" using assms(1) by (auto simp: ends_with_iff)
  then have len: "k = length u + length p" using assms(2) by (metis length_append length_take min.absorb2)
  have "s = u @ p @ drop k s" using u append_take_drop_id [of k s] by simp
  then have "drop (length u) s = p @ drop k s" by (metis append_eq_conv_conj)
  with len show ?thesis by (auto simp: starts_with_iff)
qed

lemma read_head_tcp_scan: "arrived (read_head_tcp max_size st) = scan_head max_size (str_close st) [] (str_bytes st)"
proof (cases "str_bytes st = []")
  case True
  then show ?thesis by (auto simp: read_head_tcp_def peek_def arrived_def split: option.split)
next
  case False
  obtain peeked tail where peek: "peek (max (min PEEK_CAPACITY (saturating_add max_size 1)) 1) st = Inr peeked"
    "peeked \<noteq> []" "str_bytes st = peeked @ tail"
  proof
    show "str_bytes st = take (min (max (min PEEK_CAPACITY (saturating_add max_size 1)) 1) (part_size st)) (str_bytes st) @
        drop (min (max (min PEEK_CAPACITY (saturating_add max_size 1)) 1) (part_size st)) (str_bytes st)" by simp
  qed (use False part_size_pos [OF False] in \<open>auto simp: peek_def\<close>)
  show ?thesis
  proof (cases "find_str TERMINATOR peeked")
    case None
    then show ?thesis
      using peek(1,2) read_head_loop_scan [of max_size "[]" st] unfolding read_head_tcp_def read_head_def by simp
  next
    case (Some i)
    obtain u w where w: "peeked = u @ TERMINATOR @ w" "length u = i"
      using find_str_SomeD [OF Some] by (metis append_take_drop_id length_take min.absorb2 starts_with_iff)
    let ?pre = "u @ [CHR 0x0D, CHR 0x0A, CHR 0x0D]"
    have bytes: "str_bytes st = ?pre @ CHR 0x0A # w @ tail" unfolding peek(3) w(1) TERMINATOR_def by simp
    have "\<not> ends_with ([] @ take k ?pre) TERMINATOR" if "0 < k" "k \<le> length ?pre" for k
    proof
      assume "ends_with ([] @ take k ?pre) TERMINATOR"
      moreover have "peeked = ?pre @ CHR 0x0A # w" unfolding w(1) TERMINATOR_def by simp
      then have "take k ?pre = take k peeked" "k \<le> length peeked"
        using that(2) by (metis diff_is_0_eq take0 append_Nil2 take_append, simp)
      moreover have "length TERMINATOR = 4" by (simp add: TERMINATOR_def)
      ultimately have at: "4 \<le> k \<and> starts_with (drop (k - 4) peeked) TERMINATOR"
        using ends_with_at [of k peeked TERMINATOR] by simp
      moreover have "k \<le> i + 3" using that(2) w(2) by simp
      ultimately have "k - 4 < i" by linarith
      with at find_str_first [OF Some] show False by blast
    qed
    note within = scan_head_within [OF this]
    have "ends_with (?pre @ [CHR 0x0A]) TERMINATOR" by (simp add: ends_with_iff TERMINATOR_def)
    then have "scan_head max_size (str_close st) [] (str_bytes st) =
        (if max_size < i + 4 then Inl HeaderSizeLimit else Inr (Some (u, w @ tail)))"
      using within [of max_size "str_close st" "CHR 0x0A # w @ tail"] w(2) unfolding bytes by (simp add: Let_def)
    moreover have "read_exact (i + 4) st = Inr (u @ TERMINATOR, st\<lparr>str_bytes := w @ tail\<rparr>)"
      using w(2) by (simp add: read_exact_Inr bytes TERMINATOR_def)
    ultimately show ?thesis
      using peek(1,2) w(2) unfolding read_head_tcp_def by (simp add: Some Let_def arrived_def)
  qed
qed

text \<open>
  C12: the three readers of a message head agree. On every stream, whatever pieces it arrives
  in, the buffered reader with its matching automaton and the reader that peeks into the socket
  give the head, leave the bytes after it, or fail with the error of the plain reader that
  looks at one byte at a time.
\<close>

theorem head_readers_agree:
  assumes "str_bytes st' = str_bytes st" "str_close st' = str_close st"
  shows "arrived (read_head_buffered max_size st') = arrived (read_head max_size st) \<and>
    arrived (read_head_tcp max_size st') = arrived (read_head max_size st)"
  using read_head_buffered_scan [of "[]" max_size st'] read_head_loop_scan [of max_size "[]" st]
    read_head_tcp_scan [of max_size st'] assms
  by (simp add: read_head_buffered_def read_head_def matching_def ends_with_iff TERMINATOR_def)

theorem head_readers_agree_witness:
  "arrived (read_head_buffered 9 \<lparr>str_bytes = ''GET'' @ TERMINATOR @ ''xy'', str_close = None, str_parts = [4, 2, 5]\<rparr>) =
     Inr (Some (''GET'', ''xy''))"
proof -
  let ?st = "\<lparr>str_bytes = ''GET'' @ TERMINATOR @ ''xy'', str_close = None, str_parts = []\<rparr>"
  have "arrived (read_head 9 ?st) = Inr (Some (''GET'', ''xy''))" by code_simp
  with head_readers_agree [of "\<lparr>str_bytes = ''GET'' @ TERMINATOR @ ''xy'', str_close = None, str_parts = [4, 2, 5]\<rparr>" ?st 9]
  show ?thesis by simp
qed

section \<open>Accepted framings are unambiguous\<close>

text \<open>
  C13: no request body is framed in two ways. When a head is accepted as chunked, chunked is
  its only transfer coding and it has no content length; with a content length, every
  content-length value of the head is that number and there is no transfer coding; otherwise
  it has neither.
\<close>

theorem framing_unambiguous:
  assumes "request_framing hs = Inr f"
  shows "case f of
      Chunked \<Rightarrow> transfer_codings hs = [''chunked''] \<and> field_values ''content-length'' hs = []
    | ContentLength n \<Rightarrow> transfer_codings hs = [] \<and> field_values ''content-length'' hs \<noteq> [] \<and>
        list_all (\<lambda>v. parse_uint USIZE_MAX v = Inr n) (field_values ''content-length'' hs)
    | NoBody \<Rightarrow> transfer_codings hs = [] \<and> field_values ''content-length'' hs = []"
proof -
  obtain len where len: "content_length hs = Inr len" using assms by (auto simp: request_framing_def try_bind_def split: sum.splits)
  have none: "field_values ''content-length'' hs = []" if "len = None"
    using len that by (auto simp: content_length_def split: list.splits sum.splits if_splits)
  have some: "field_values ''content-length'' hs \<noteq> [] \<and> list_all (\<lambda>v. parse_uint USIZE_MAX v = Inr n) (field_values ''content-length'' hs)"
    if "len = Some n" for n
    using len that by (auto simp: content_length_def list_all_iff list_ex_iff split: list.splits sum.splits if_splits)
  show ?thesis
    using assms none some
    by (auto simp: request_framing_def len Let_def length_Suc_conv split: if_splits option.splits)
qed

theorem framing_unambiguous_witness:
  "request_framing [(''Transfer-Encoding'', '' Chunked'')] = Inr Chunked \<and>
   transfer_codings [(''Transfer-Encoding'', '' Chunked'')] = [''chunked'']"
proof -
  have "request_framing [(''Transfer-Encoding'', '' Chunked'')] = Inr Chunked" by code_simp
  from this framing_unambiguous [OF this] show ?thesis by simp
qed

end
