(* ===== verification/Http1_Body.thy ===== *)
theory Http1_Body
  imports Http1_Head Spill_Index Rule_Syntax
begin

text \<open>
  HTTP/1 request bodies (\<open>http/request/body.rs\<close>, \<open>body/collect.rs\<close>, \<open>body/trailers.rs\<close>): the
  incremental reader for bodies with a content length and for chunked bodies, their trailers
  with limits, buffering a whole body, and buffering up to a limit. The main results: what is
  read does not depend on the sizes of the buffers and of the partial reads, a body that
  overflows its limit continues without loss, and chunked bodies are decoded to what was
  encoded.
\<close>

section \<open>Lines and trailers\<close>

definition http_read_exact :: "nat \<Rightarrow> byte_stream \<Rightarrow> http_error + string \<times> byte_stream" where
  "http_read_exact n st = map_sum HttpIo id (read_exact n st)"

function line_loop :: "nat \<Rightarrow> string \<Rightarrow> byte_stream \<Rightarrow> http_error + string \<times> byte_stream" where
  "line_loop limit acc st =
     (case http_read_exact 1 st of
        Inl e \<Rightarrow> Inl e
      | Inr (b, st') \<Rightarrow>
          (let acc = acc @ b in
           if saturating_add limit 2 < length acc then Inl (ChunkLineLimit limit)
           else if ends_with acc CRLF then
             (let line = take (length acc - 2) acc in
              if utf8_valid line then Inr (line, st') else Inl ChunkLineUtf8)
           else line_loop limit acc st'))"
  by pat_completeness auto
termination
  by (relation "measure (\<lambda>(limit, acc, st). length (str_bytes st))")
     (auto simp: http_read_exact_def read_exact_def split: if_splits)

declare line_loop.simps [simp del]

definition read_crlf_line_limited :: "nat \<Rightarrow> byte_stream \<Rightarrow> http_error + string \<times> byte_stream" where
  "read_crlf_line_limited limit st = line_loop limit [] st"

definition is_header_token_byte :: "char \<Rightarrow> bool" where
  "is_header_token_byte c \<longleftrightarrow> is_ascii_alphanumeric c \<or> c \<in> set ''!#$%&*+-.^_`|~'' \<or> c = CHR 0x27"

definition request_trailer_forbidden :: "string \<Rightarrow> bool" where
  "request_trailer_forbidden name \<longleftrightarrow>
     to_ascii_lowercase name \<in> {''authorization'', ''connection'', ''content-length'', ''cookie'', ''host'', ''keep-alive'',
       ''proxy-authorization'', ''proxy-connection'', ''te'', ''trailer'', ''transfer-encoding'', ''upgrade''}"

definition validate_request_trailer :: "string \<Rightarrow> string \<Rightarrow> http_error + unit" where
  "validate_request_trailer name value =
     (if name = [] \<or> \<not> list_all is_header_token_byte name then Inl (InvalidTrailerName name)
      else if request_trailer_forbidden name then Inl (ForbiddenTrailer name)
      else if list_ex (\<lambda>c. c = CHR 0x0D \<or> c = CHR 0x0A \<or> c = CHR 0x00) value then Inl (InvalidTrailerValue name)
      else Inr ())"

fun trailers_size :: "nat \<Rightarrow> headers \<Rightarrow> http_error + nat" where
  "trailers_size sz [] = Inr sz"
| "trailers_size sz ((name, value) # ts) =
     try_bind (validate_request_trailer name value) (\<lambda>_.
     trailers_size (saturating_add (saturating_add (saturating_add sz (length name)) (length value)) 32) ts)"

definition validate_request_trailers :: "nat \<Rightarrow> nat \<Rightarrow> headers \<Rightarrow> http_error + unit" where
  "validate_request_trailers max_size max_count trailers =
     (if max_count < length trailers then Inl (TrailerCountLimit max_count)
      else try_bind (trailers_size 0 trailers) (\<lambda>sz.
        if max_size < sz then Inl (TrailerSizeLimit max_size) else Inr ()))"

definition trailer_line :: "string \<Rightarrow> http_error + string \<times> string" where
  "trailer_line line =
     (case split_once line '':'' of
        None \<Rightarrow> Inl InvalidTrailer
      | Some (name, value) \<Rightarrow>
          (let name = trim name in
           if name = [] then Inl EmptyTrailerName
           else
             (let value = trim value in
              try_bind (validate_request_trailer name value) (\<lambda>_. Inr (name, value)))))"

lemma line_loop_consumes:
  "line_loop limit acc st = Inr (l, st') \<Longrightarrow> length (str_bytes st') < length (str_bytes st) \<and> str_close st' = str_close st"
proof (induction limit acc st rule: line_loop.induct)
  case (1 limit acc st)
  obtain b st1 where b: "http_read_exact 1 st = Inr (b, st1)" "length (str_bytes st1) < length (str_bytes st)" "str_close st1 = str_close st"
    using "1.prems" by (auto simp: line_loop.simps [of limit acc st] http_read_exact_def read_exact_def split: if_splits sum.splits)
  show ?case
  proof (cases "saturating_add limit 2 < length (acc @ b) \<or> ends_with (acc @ b) CRLF")
    case True
    with "1.prems" b show ?thesis by (auto simp: line_loop.simps [of limit acc st] Let_def split: if_splits)
  next
    case False
    with "1.prems" b have "line_loop limit (acc @ b) st1 = Inr (l, st')" by (simp add: line_loop.simps [of limit acc st] Let_def)
    from "1.IH" [OF b(1) refl refl _ _ this] False b show ?thesis by auto
  qed
qed

function trailers_loop :: "nat \<Rightarrow> nat \<Rightarrow> headers \<Rightarrow> nat \<Rightarrow> byte_stream \<Rightarrow> http_error + headers \<times> byte_stream" where
  "trailers_loop max_size max_count trailers total_size st =
     (case read_crlf_line_limited max_size st of
        Inl e \<Rightarrow> Inl e
      | Inr (line, st') \<Rightarrow>
          (let total_size = saturating_add (saturating_add total_size (length line)) 2 in
           if max_size < total_size then Inl (TrailerSizeLimit max_size)
           else if line = [] then Inr (trailers, st')
           else if max_count \<le> length trailers then Inl (TrailerCountLimit max_count)
           else
             (case trailer_line line of
                Inl e \<Rightarrow> Inl e
              | Inr t \<Rightarrow> trailers_loop max_size max_count (trailers @ [t]) total_size st')))"
  by pat_completeness auto
termination
  by (relation "measure (\<lambda>(max_size, max_count, trailers, total_size, st). length (str_bytes st))")
     (auto simp: read_crlf_line_limited_def dest: line_loop_consumes)

declare trailers_loop.simps [simp del]

definition read_trailers :: "nat \<Rightarrow> nat \<Rightarrow> byte_stream \<Rightarrow> http_error + headers \<times> byte_stream" where
  "read_trailers max_size max_count st = trailers_loop max_size max_count [] 0 st"

section \<open>The incremental reader\<close>

datatype body_state = BodyFinished | BodyLength nat | BodyChunked nat

datatype body_event = BodyData string | BodyEnd headers

definition body_reader :: "body_framing \<Rightarrow> body_state" where
  "body_reader framing =
     (case framing of
        NoBody \<Rightarrow> BodyFinished
      | ContentLength n \<Rightarrow> if n = 0 then BodyFinished else BodyLength n
      | Chunked \<Rightarrow> BodyChunked 0)"

text \<open>\<open>usize::from_str_radix(s, 16)\<close>\<close>

definition parse_hex_usize :: "string \<Rightarrow> nat option" where
  "parse_hex_usize s =
     (case s of
        [] \<Rightarrow> None
      | c # t \<Rightarrow>
          if t = [] \<and> (c = CHR ''+'' \<or> c = CHR ''-'') then None
          else parse_hex_digits USIZE_MAX 0 (if c = CHR ''+'' then t else s))"

definition read_chunk_size :: "nat \<Rightarrow> byte_stream \<Rightarrow> http_error + nat \<times> byte_stream" where
  "read_chunk_size max_size st =
     try_bind (read_crlf_line_limited max_size st) (\<lambda>(line, st).
     case parse_hex_usize (trim (hd (split_chars (\<lambda>c. c = CHR '';'') line))) of
       None \<Rightarrow> Inl InvalidChunkSize
     | Some sz \<Rightarrow> Inr (sz, st))"

definition read_chunk_end :: "byte_stream \<Rightarrow> http_error + byte_stream" where
  "read_chunk_end st =
     try_bind (http_read_exact 2 st) (\<lambda>(crlf, st). if crlf \<noteq> CRLF then Inl InvalidChunkEnd else Inr st)"

text \<open>The part of a chunk that fits into a buffer of \<open>n\<close> bytes.\<close>

definition read_chunk_part :: "nat \<Rightarrow> nat \<Rightarrow> byte_stream \<Rightarrow> http_error + body_event \<times> body_state \<times> byte_stream" where
  "read_chunk_part n remaining st =
     (let amount = min remaining n in
      try_bind (http_read_exact amount st) (\<lambda>(data, st).
      let remaining = remaining - amount in
      if remaining = 0 then try_bind (read_chunk_end st) (\<lambda>st. Inr (BodyData data, BodyChunked 0, st))
      else Inr (BodyData data, BodyChunked remaining, st)))"

definition body_read :: "nat \<Rightarrow> nat \<Rightarrow> nat \<Rightarrow> body_state \<Rightarrow> byte_stream \<Rightarrow> http_error + body_event \<times> body_state \<times> byte_stream" where
  "body_read max_size max_count n s st =
     (if n = 0 then Inl EmptyReadBuffer
      else
        (case s of
           BodyFinished \<Rightarrow> Inr (BodyEnd [], BodyFinished, st)
         | BodyLength remaining \<Rightarrow>
             (case read_some (min remaining n) st of
                Inl k \<Rightarrow> Inl (HttpIo k)
              | Inr (data, st) \<Rightarrow>
                  if data = [] then Inl BodyCut
                  else Inr (BodyData data,
                    if remaining - length data = 0 then BodyFinished else BodyLength (remaining - length data), st))
         | BodyChunked remaining \<Rightarrow>
             if remaining = 0 then
               try_bind (read_chunk_size max_size st) (\<lambda>(sz, st).
               if sz = 0 then try_bind (read_trailers max_size max_count st) (\<lambda>(ts, st). Inr (BodyEnd ts, BodyFinished, st))
               else read_chunk_part n sz st)
             else read_chunk_part n remaining st))"

lemma http_read_exact_Inr:
  "http_read_exact n st = Inr (bs, st') \<longleftrightarrow>
     n \<le> length (str_bytes st) \<and> bs = take n (str_bytes st) \<and> st' = st\<lparr>str_bytes := drop n (str_bytes st)\<rparr>"
  by (auto simp: http_read_exact_def read_exact_def)

lemma try_bind_Inr: "try_bind x f = Inr y \<longleftrightarrow> (\<exists>a. x = Inr a \<and> f a = Inr y)"
  by (cases x) auto

lemma try_bind_Inl: "try_bind x f = Inl e \<longleftrightarrow> x = Inl e \<or> (\<exists>a. x = Inr a \<and> f a = Inl e)"
  by (cases x) auto

lemma read_chunk_size_consumes:
  "read_chunk_size max_size st = Inr (n, st') \<Longrightarrow> length (str_bytes st') < length (str_bytes st)"
  by (auto simp: read_chunk_size_def read_crlf_line_limited_def try_bind_Inr dest: line_loop_consumes split: option.splits)

lemma read_chunk_end_consumes:
  "read_chunk_end st = Inr st' \<Longrightarrow> length (str_bytes st') \<le> length (str_bytes st)"
  by (auto simp: read_chunk_end_def try_bind_Inr http_read_exact_Inr split: if_splits)

lemma read_chunk_part_Data:
  assumes "read_chunk_part n remaining st = Inr (ev, s', st')" "0 < n" "0 < remaining"
  shows "length (str_bytes st') < length (str_bytes st)"
  using assms
  by (auto simp: read_chunk_part_def Let_def try_bind_Inr http_read_exact_Inr min_def
      split: if_splits dest!: read_chunk_end_consumes)

text \<open>A reader never waits for zero bytes of a body with a content length.\<close>

fun body_state_wf :: "body_state \<Rightarrow> bool" where
  "body_state_wf (BodyLength n) \<longleftrightarrow> n \<noteq> 0"
| "body_state_wf _ \<longleftrightarrow> True"

lemma body_reader_wf: "body_state_wf (body_reader f)"
  by (auto simp: body_reader_def split: body_framing.split)

lemma body_read_wf:
  "body_state_wf s \<Longrightarrow> body_read max_size max_count n s st = Inr (ev, s', st') \<Longrightarrow> body_state_wf s'"
  by (auto simp: body_read_def read_chunk_part_def try_bind_Inr Let_def split: body_state.splits sum.splits if_splits)

lemma body_read_consumes:
  "body_read max_size max_count n s st = Inr (BodyData d, s', st') \<Longrightarrow> length (str_bytes st') < length (str_bytes st)"
  by (auto simp: body_read_def try_bind_Inr dest!: read_some_Inr dest: read_chunk_part_Data read_chunk_size_consumes
      split: body_state.splits sum.splits if_splits)
     (meson dual_order.strict_trans read_chunk_part_Data read_chunk_size_consumes)?

section \<open>Whole bodies and bounded bodies\<close>

definition REQUEST_BODY_CHUNK_SIZE :: nat where "REQUEST_BODY_CHUNK_SIZE = 16 * 1024"

text \<open>The loop of \<open>read_request_body_all\<close>, for a buffer of \<open>n\<close> bytes.\<close>

function body_all_loop ::
  "nat \<Rightarrow> nat \<Rightarrow> nat \<Rightarrow> string \<Rightarrow> body_state \<Rightarrow> byte_stream \<Rightarrow> http_error + string \<times> headers \<times> byte_stream" where
  "body_all_loop max_size max_count n body s st =
     (case body_read max_size max_count n s st of
        Inl e \<Rightarrow> Inl e
      | Inr (BodyData d, s', st') \<Rightarrow> body_all_loop max_size max_count n (body @ d) s' st'
      | Inr (BodyEnd ts, s', st') \<Rightarrow> Inr (body, ts, st'))"
  by pat_completeness auto
termination
  by (relation "measure (\<lambda>(max_size, max_count, n, body, s, st). length (str_bytes st))") (auto dest: body_read_consumes)

declare body_all_loop.simps [simp del]

definition read_request_body_all ::
  "nat \<Rightarrow> nat \<Rightarrow> body_state \<Rightarrow> byte_stream \<Rightarrow> http_error + string \<times> headers \<times> byte_stream" where
  "read_request_body_all max_size max_count s st = body_all_loop max_size max_count REQUEST_BODY_CHUNK_SIZE [] s st"

datatype bounded_body = Complete string headers | Overflow string body_state

function body_bounded_loop ::
  "nat \<Rightarrow> nat \<Rightarrow> nat \<Rightarrow> string \<Rightarrow> body_state \<Rightarrow> byte_stream \<Rightarrow> http_error + bounded_body \<times> byte_stream" where
  "body_bounded_loop max_size max_count limit body s st =
     (let allowed = saturating_add limit 1 - length body in
      if allowed = 0 then Inr (Overflow body s, st)
      else
        (case body_read max_size max_count (min allowed REQUEST_BODY_CHUNK_SIZE) s st of
           Inl e \<Rightarrow> Inl e
         | Inr (BodyData d, s', st') \<Rightarrow>
             if limit < length (body @ d) then Inr (Overflow (body @ d) s', st')
             else body_bounded_loop max_size max_count limit (body @ d) s' st'
         | Inr (BodyEnd ts, s', st') \<Rightarrow> Inr (Complete body ts, st')))"
  by pat_completeness auto
termination
  by (relation "measure (\<lambda>(max_size, max_count, limit, body, s, st). length (str_bytes st))") (auto dest: body_read_consumes)

declare body_bounded_loop.simps [simp del]

definition read_request_body_bounded ::
  "nat \<Rightarrow> nat \<Rightarrow> body_framing \<Rightarrow> nat \<Rightarrow> byte_stream \<Rightarrow> http_error + bounded_body \<times> byte_stream" where
  "read_request_body_bounded max_size max_count framing limit st =
     (if (case framing of ContentLength n \<Rightarrow> limit < n | _ \<Rightarrow> False) then Inr (Overflow [] (body_reader framing), st)
      else body_bounded_loop max_size max_count limit [] (body_reader framing) st)"

section \<open>What a body is\<close>

text \<open>
  A reference decoder that works on the bytes that arrive and reads every chunk whole, with no
  buffers, no partial reads and no reader state between calls. Its value is the body, the
  trailers and the bytes after the body.
\<close>

definition prepend_body :: "string \<Rightarrow> http_error + string \<times> headers \<times> string \<Rightarrow> http_error + string \<times> headers \<times> string" where
  "prepend_body d r = (case r of Inl e \<Rightarrow> Inl e | Inr (b, ts, rest) \<Rightarrow> Inr (d @ b, ts, rest))"

definition decode_rest :: "nat \<Rightarrow> byte_stream \<Rightarrow> http_error + string \<times> byte_stream" where
  "decode_rest n st =
     try_bind (http_read_exact n st) (\<lambda>(d, st). try_bind (read_chunk_end st) (\<lambda>st. Inr (d, st)))"

function decode_chunks :: "nat \<Rightarrow> nat \<Rightarrow> byte_stream \<Rightarrow> http_error + string \<times> headers \<times> string" where
  "decode_chunks max_size max_count st =
     (case read_chunk_size max_size st of
        Inl e \<Rightarrow> Inl e
      | Inr (n, st') \<Rightarrow>
          if n = 0 then try_bind (read_trailers max_size max_count st') (\<lambda>(ts, st). Inr ([], ts, str_bytes st))
          else
            (case decode_rest n st' of
               Inl e \<Rightarrow> Inl e
             | Inr (d, st'') \<Rightarrow> prepend_body d (decode_chunks max_size max_count st'')))"
  by pat_completeness auto
termination
  by (relation "measure (\<lambda>(max_size, max_count, st). length (str_bytes st))")
     (auto simp: decode_rest_def try_bind_Inr http_read_exact_Inr dest!: read_chunk_size_consumes read_chunk_end_consumes)

declare decode_chunks.simps [simp del]

definition decode_body :: "nat \<Rightarrow> nat \<Rightarrow> body_state \<Rightarrow> byte_stream \<Rightarrow> http_error + string \<times> headers \<times> string" where
  "decode_body max_size max_count s st =
     (case s of
        BodyFinished \<Rightarrow> Inr ([], [], str_bytes st)
      | BodyLength n \<Rightarrow>
          if n \<le> length (str_bytes st) then Inr (take n (str_bytes st), [], drop n (str_bytes st))
          else Inl (case str_close st of None \<Rightarrow> BodyCut | Some e \<Rightarrow> HttpIo e)
      | BodyChunked 0 \<Rightarrow> decode_chunks max_size max_count st
      | BodyChunked n \<Rightarrow>
          (case decode_rest n st of
             Inl e \<Rightarrow> Inl e
           | Inr (d, st') \<Rightarrow> prepend_body d (decode_chunks max_size max_count st')))"

lemma prepend_body_simps [simp]:
  "prepend_body d (Inl e) = Inl e"
  "prepend_body d (Inr (b, ts, rest)) = Inr (d @ b, ts, rest)"
  "prepend_body [] r = r"
  "prepend_body d (prepend_body d' r) = prepend_body (d @ d') r"
  by (auto simp: prepend_body_def split: sum.split)

lemma prepend_body_eq:
  "prepend_body d r = Inl e \<longleftrightarrow> r = Inl e"
  "prepend_body d r = Inr x \<longleftrightarrow> (\<exists>b ts rest. r = Inr (b, ts, rest) \<and> x = (d @ b, ts, rest))"
  by (auto simp: prepend_body_def split: sum.split)

definition after_chunk :: "nat \<Rightarrow> nat \<Rightarrow> nat \<Rightarrow> byte_stream \<Rightarrow> http_error + string \<times> headers \<times> string" where
  "after_chunk max_size max_count n st =
     (case decode_rest n st of
        Inl e \<Rightarrow> Inl e
      | Inr (d, st') \<Rightarrow> prepend_body d (decode_chunks max_size max_count st'))"

lemma decode_body_chunked:
  "decode_body max_size max_count (BodyChunked n) st =
     (if n = 0 then decode_chunks max_size max_count st else after_chunk max_size max_count n st)"
  by (cases n) (auto simp: decode_body_def after_chunk_def)

lemma read_chunk_part_decode:
  assumes "0 < n" "0 < remaining"
  shows "case read_chunk_part n remaining st of
      Inl e \<Rightarrow> after_chunk max_size max_count remaining st = Inl e
    | Inr (ev, s', st') \<Rightarrow> \<exists>d. ev = BodyData d \<and> d \<noteq> [] \<and> length d \<le> n \<and>
        after_chunk max_size max_count remaining st = prepend_body d (decode_body max_size max_count s' st')"
proof (cases "remaining \<le> n")
  case True
  show ?thesis
  proof (cases "http_read_exact remaining st")
    case (Inl e)
    with True show ?thesis by (simp add: read_chunk_part_def after_chunk_def decode_rest_def min_def)
  next
    case (Inr r)
    then obtain d st1 where d: "http_read_exact remaining st = Inr (d, st1)" by (cases r) auto
    then have "d \<noteq> []" "length d = remaining" using assms by (auto simp: http_read_exact_Inr)
    with True d show ?thesis
      by (cases "read_chunk_end st1")
         (auto simp: read_chunk_part_def after_chunk_def decode_rest_def min_def decode_body_chunked)
  qed
next
  case False
  then have min: "min remaining n = n" by simp
  show ?thesis
  proof (cases "n \<le> length (str_bytes st)")
    case less: False
    with False min show ?thesis
      by (auto simp: read_chunk_part_def after_chunk_def decode_rest_def http_read_exact_def read_exact_def)
  next
    case True
    let ?st = "st\<lparr>str_bytes := drop n (str_bytes st)\<rparr>"
    have d: "http_read_exact n st = Inr (take n (str_bytes st), ?st)" using True by (simp add: http_read_exact_Inr)
    have split: "http_read_exact remaining st =
        (case http_read_exact (remaining - n) ?st of Inl e \<Rightarrow> Inl e | Inr (d, st') \<Rightarrow> Inr (take n (str_bytes st) @ d, st'))"
      using False True
      by (auto simp: http_read_exact_def read_exact_def add.commute simp flip: take_add)
    have "after_chunk max_size max_count remaining st =
        prepend_body (take n (str_bytes st)) (after_chunk max_size max_count (remaining - n) ?st)"
      unfolding after_chunk_def decode_rest_def split
      by (cases "http_read_exact (remaining - n) ?st") (auto simp: try_bind_Inr try_bind_Inl split: sum.split)
    with False True assms d min show ?thesis
      by (auto simp: read_chunk_part_def decode_body_chunked)
  qed
qed

text \<open>One read gives the next part of the body, or its end, or the error the body has.\<close>

lemma body_read_decode:
  assumes "body_state_wf s" "0 < n"
  shows "case body_read max_size max_count n s st of
      Inl e \<Rightarrow> decode_body max_size max_count s st = Inl e
    | Inr (BodyData d, s', st') \<Rightarrow> length d \<le> n \<and>
        decode_body max_size max_count s st = prepend_body d (decode_body max_size max_count s' st')
    | Inr (BodyEnd ts, s', st') \<Rightarrow> decode_body max_size max_count s st = Inr ([], ts, str_bytes st')"
proof (cases s)
  case BodyFinished
  with assms show ?thesis by (simp add: body_read_def decode_body_def)
next
  case (BodyLength m)
  with assms have m: "0 < m" by simp
  show ?thesis
  proof (cases "read_some (min m n) st")
    case (Inl k)
    then have "str_bytes st = []" "str_close st = Some k"
      by (auto simp: read_some_def Let_def split: if_splits option.splits)
    with Inl BodyLength assms m show ?thesis by (simp add: body_read_def decode_body_def)
  next
    case (Inr r)
    then obtain d st' where d: "read_some (min m n) st = Inr (d, st')" by (cases r) auto
    from read_some_Inr [OF this] m assms
    have *: "str_bytes st = d @ str_bytes st'" "length d \<le> m" "length d \<le> n" "str_close st' = str_close st"
      "d = [] \<Longrightarrow> str_bytes st = [] \<and> str_close st = None"
      by auto
    show ?thesis
    proof (cases "d = []")
      case True
      with * d BodyLength assms m show ?thesis by (simp add: body_read_def decode_body_def)
    next
      case False
      with * d BodyLength assms m show ?thesis by (auto simp: body_read_def decode_body_def)
    qed
  qed
next
  case (BodyChunked m)
  show ?thesis
  proof (cases "m = 0")
    case False
    with assms BodyChunked read_chunk_part_decode [where n = n and remaining = m and st = st and max_size = max_size and max_count = max_count] show ?thesis
      by (auto simp: body_read_def decode_body_chunked split: sum.splits body_event.splits)
  next
    case True
    show ?thesis
    proof (cases "read_chunk_size max_size st")
      case (Inl e)
      with BodyChunked True assms show ?thesis by (simp add: body_read_def decode_body_chunked decode_chunks.simps [of max_size max_count st])
    next
      case (Inr r)
      then obtain sz st1 where sz: "read_chunk_size max_size st = Inr (sz, st1)" by (cases r) auto
      show ?thesis
      proof (cases "sz = 0")
        case zero: True
        with sz BodyChunked True assms show ?thesis
          by (cases "read_trailers max_size max_count st1")
             (auto simp: body_read_def decode_body_chunked decode_chunks.simps [of max_size max_count st])
      next
        case False
        then have "decode_chunks max_size max_count st = after_chunk max_size max_count sz st1"
          using sz by (simp add: decode_chunks.simps [of max_size max_count st] after_chunk_def)
        with False sz BodyChunked True assms read_chunk_part_decode [where n = n and remaining = sz and st = st1 and max_size = max_size and max_count = max_count] show ?thesis
          by (auto simp: body_read_def decode_body_chunked split: sum.splits body_event.splits)
      qed
    qed
  qed
qed

text \<open>The three cases of a read, as the loops over a body use them.\<close>

lemma body_read_cases:
  assumes "body_state_wf s" "0 < n"
  obtains (error) e where "body_read max_size max_count n s st = Inl e" "decode_body max_size max_count s st = Inl e"
  | (data) d s' st' where "body_read max_size max_count n s st = Inr (BodyData d, s', st')" "length d \<le> n" "body_state_wf s'"
      "decode_body max_size max_count s st = prepend_body d (decode_body max_size max_count s' st')"
  | (finished) ts s' st' where "body_read max_size max_count n s st = Inr (BodyEnd ts, s', st')"
      "decode_body max_size max_count s st = Inr ([], ts, str_bytes st')"
  using body_read_decode [OF assms, of max_size max_count st] body_read_wf [OF assms(1), of max_size max_count n st]
  by (auto split: sum.splits body_event.splits) (metis body_event.exhaust)

lemma body_all_loop_decode:
  "body_state_wf s \<Longrightarrow> 0 < n \<Longrightarrow>
     map_sum id (map_prod id (map_prod id str_bytes)) (body_all_loop max_size max_count n body s st) =
     prepend_body body (decode_body max_size max_count s st)"
proof (induction max_size max_count n body s st rule: body_all_loop.induct)
  case (1 max_size max_count n body s st)
  from "1.prems" show ?case
  proof (cases rule: body_read_cases [of s n max_size max_count st])
    case (data d s' st')
    then show ?thesis
      using "1.IH" [OF data(1) refl refl refl data(3) "1.prems"(2)]
      by (simp add: body_all_loop.simps [of max_size max_count n body s st])
  qed (simp_all add: body_all_loop.simps [of max_size max_count n body s st])
qed

text \<open>
  C15: Buffering a request body gives what the reference decoder finds in the bytes of the
  connection, body, trailers, the bytes left for the next request, or the error: neither the
  partial reads nor the 16 KiB buffer that splits large chunks show.
\<close>

theorem request_body_all_decodes:
  "map_sum id (map_prod id (map_prod id str_bytes)) (read_request_body_all max_size max_count (body_reader framing) st) =
   decode_body max_size max_count (body_reader framing) st"
  unfolding read_request_body_all_def
  using body_all_loop_decode [OF body_reader_wf, where n = REQUEST_BODY_CHUNK_SIZE and body = "[]"]
  by (simp add: REQUEST_BODY_CHUNK_SIZE_def)

lemma body_bounded_loop_decode:
  "body_state_wf s \<Longrightarrow> length body \<le> limit \<Longrightarrow>
     (case body_bounded_loop max_size max_count limit body s st of
        Inl e \<Rightarrow> decode_body max_size max_count s st = Inl e
      | Inr (Complete b ts, st') \<Rightarrow> length b \<le> limit \<and> prepend_body body (decode_body max_size max_count s st) = Inr (b, ts, str_bytes st')
      | Inr (Overflow p s', st') \<Rightarrow> saturating_add limit 1 \<le> length p \<and> length p \<le> limit + 1 \<and> body_state_wf s' \<and>
          prepend_body body (decode_body max_size max_count s st) = prepend_body p (decode_body max_size max_count s' st'))"
proof (induction max_size max_count limit body s st rule: body_bounded_loop.induct)
  case (1 max_size max_count limit body s st)
  let ?allowed = "saturating_add limit 1 - length body"
  note step = body_bounded_loop.simps [of max_size max_count limit body s st]
  show ?case
  proof (cases "?allowed = 0")
    case True
    with "1.prems" show ?thesis by (simp add: step)
  next
    case False
    have n: "0 < min ?allowed REQUEST_BODY_CHUNK_SIZE" using False by (simp add: REQUEST_BODY_CHUNK_SIZE_def)
    from "1.prems"(1) n show ?thesis
    proof (cases rule: body_read_cases [of s _ max_size max_count st])
      case (data d s' st')
      have "length d \<le> ?allowed" using data(2) by simp
      with False have len: "length (body @ d) \<le> saturating_add limit 1" unfolding length_append by linarith
      then have len': "length (body @ d) \<le> limit + 1" by (simp add: saturating_add_def)
      show ?thesis
      proof (cases "limit < length (body @ d)")
        case True
        with False data len' show ?thesis by (auto simp: step saturating_add_def)
      next
        case ok: False
        from "1.IH" [OF refl False data(1) refl refl refl ok data(3)] ok False data show ?thesis
          by (auto simp: step simp del: One_nat_def split: sum.splits bounded_body.splits)
      qed
    qed (use False "1.prems" in \<open>simp_all add: step\<close>)
  qed
qed

text \<open>
  C16: Buffering a request body under a limit. Either the whole body fits and is returned with
  its trailers, or the body has an error, which is the one reported, or the body exceeds the
  limit: then at most one byte more than the limit is kept (nothing is read of a body whose
  content length says so), and decoding from the returned reader gives exactly the rest.
\<close>

theorem bounded_body_resumes:
  assumes "limit < USIZE_MAX"
  shows "case read_request_body_bounded max_size max_count framing limit st of
      Inl e \<Rightarrow> decode_body max_size max_count (body_reader framing) st = Inl e
    | Inr (Complete b ts, st') \<Rightarrow> length b \<le> limit \<and>
        decode_body max_size max_count (body_reader framing) st = Inr (b, ts, str_bytes st')
    | Inr (Overflow p s', st') \<Rightarrow> length p \<le> limit + 1 \<and>
        decode_body max_size max_count (body_reader framing) st = prepend_body p (decode_body max_size max_count s' st') \<and>
        (limit < length p \<or> p = [] \<and> st' = st \<and> (\<exists>n. framing = ContentLength n \<and> limit < n))"
  using body_bounded_loop_decode [where s = "body_reader framing" and body = "[]" and limit = limit and
      max_size = max_size and max_count = max_count and st = st] body_reader_wf [of framing] assms
  by (auto simp: read_request_body_bounded_def saturating_add_def split: sum.splits bounded_body.splits body_framing.splits)

lemma bounded_body_resumes_witness:
  "(3 :: nat) < USIZE_MAX \<and>
   (case read_request_body_bounded 64 4 Chunked 3 \<lparr>str_bytes = ''5'' @ CRLF @ ''hello'' @ CRLF @ ''0'' @ CRLF @ CRLF, str_close = None, str_parts = []\<rparr> of
      Inr (Overflow p s', st') \<Rightarrow> p = ''hell'' \<and> s' = BodyChunked 1
    | _ \<Rightarrow> False)"
proof -
  let ?st = "\<lparr>str_bytes = ''5'' @ CRLF @ ''hello'' @ CRLF @ ''0'' @ CRLF @ CRLF, str_close = None, str_parts = []\<rparr>"
  have l: "(3 :: nat) < USIZE_MAX" by (simp add: USIZE_MAX_def)
  note bounded_body_resumes [OF l, of 64 4 Chunked ?st]
  moreover have "case read_request_body_bounded 64 4 Chunked 3 ?st of
      Inr (Overflow p s', st') \<Rightarrow> p = ''hell'' \<and> s' = BodyChunked 1
    | _ \<Rightarrow> False"
    by code_simp
  ultimately show ?thesis using l by blast
qed

end
