(* ===== verification/Utf8_Split.thy ===== *)
theory Utf8_Split
  imports Spill_Index
begin

text \<open>
  Trimming and splitting UTF-8 texts: a valid text splits where a character starts, trimming a
  valid text leaves a valid text, and trimming twice is trimming once.
\<close>

section \<open>White space and UTF-8\<close>

definition edge_char :: "char \<Rightarrow> bool" where
  "edge_char c \<longleftrightarrow> byte c < 128 \<and> \<not> is_ascii_ws_byte c"

lemma drop_ws_stop: "f s = 0 \<Longrightarrow> drop_ws f s = s"
  by (simp add: drop_ws.simps)

lemma trim_edges: "(s \<noteq> [] \<Longrightarrow> edge_char (hd s) \<and> edge_char (last s)) \<Longrightarrow> trim s = s"
proof (cases "s = []")
  case False
  assume "s \<noteq> [] \<Longrightarrow> edge_char (hd s) \<and> edge_char (last s)"
  with False have e: "edge_char (hd s)" "edge_char (last s)" by simp_all
  with False have "ws_len s = 0" by (cases s) (auto simp: edge_char_def)
  moreover from e False have "ws_len_rev (rev s) = 0" by (cases s rule: rev_cases) (auto simp: edge_char_def)
  ultimately show ?thesis by (simp add: trim_def trim_start_def trim_end_def drop_ws_stop)
qed (simp add: trim_def trim_start_def trim_end_def drop_ws_stop)

lemma trim_space: "trim (CHR '' '' # s) = trim s"
proof -
  have "drop_ws ws_len (CHR '' '' # s) = drop_ws ws_len s"
    by (subst drop_ws.simps) (simp add: is_ascii_ws_byte_def byte_def)
  then show ?thesis by (simp add: trim_def trim_start_def)
qed

lemma drop_ws_done: "f (drop_ws f s) = 0 \<or> drop_ws f s = []"
proof (induction f s rule: drop_ws.induct)
  case (1 f s)
  then show ?case by (cases "s \<noteq> [] \<and> 0 < f s") (auto simp: drop_ws.simps [of f s])
qed

lemma drop_ws_suffix: "\<exists>p. s = p @ drop_ws f s"
proof (induction f s rule: drop_ws.induct)
  case (1 f s)
  show ?case
  proof (cases "s \<noteq> [] \<and> 0 < f s")
    case True
    with 1 obtain p where "drop (f s) s = p @ drop_ws f (drop (f s) s)" by blast
    then have "s = (take (f s) s @ p) @ drop_ws f (drop (f s) s)" by (metis append_assoc append_take_drop_id)
    with True show ?thesis by (metis drop_ws.simps)
  qed (auto simp: drop_ws.simps [of f s])
qed

lemma ws_len_prefix: "ws_len (a @ b) = 0 \<Longrightarrow> ws_len a = 0"
  by (cases a) (auto split: list.splits if_splits)

lemma trim_idem: "trim (trim s) = trim s"
proof -
  define u where "u = drop_ws ws_len s"
  define v where "v = drop_ws ws_len_rev (rev u)"
  obtain p where "rev u = p @ v" unfolding v_def using drop_ws_suffix by blast
  then have "u = rev v @ rev p" by (metis rev_append rev_rev_ident)
  moreover have "ws_len u = 0" unfolding u_def using drop_ws_done [of ws_len s] by auto
  ultimately have "ws_len (rev v) = 0" using ws_len_prefix by metis
  moreover have "ws_len_rev v = 0" unfolding v_def using drop_ws_done [of ws_len_rev "rev u"] by auto
  ultimately show ?thesis
    by (simp add: trim_def trim_start_def trim_end_def drop_ws_stop flip: u_def v_def)
qed

text \<open>A valid text splits where a character starts, and valid texts concatenate.\<close>

lemma second_byte_continuation: "second_byte_ok a (byte c) \<Longrightarrow> is_continuation c"
  by (auto simp: second_byte_ok_def is_continuation_def split: if_splits)

lemma utf8_chunk_length: "s \<noteq> [] \<Longrightarrow> snd (utf8_chunk s) \<le> length s"
proof -
  have "length (takeWhile P (take n t)) \<le> length t" for P n and t :: string
    by (metis length_takeWhile_le length_take min.bounded_iff)
  then show "s \<noteq> [] \<Longrightarrow> ?thesis" by (auto simp: utf8_chunk_def Let_def split: list.splits)
qed

lemma utf8_chunk_extend:
  assumes "fst (utf8_chunk a)"
  shows "utf8_chunk (a @ b) = utf8_chunk a"
proof -
  obtain c t where a: "a = c # t" using assms by (cases a) (auto simp: utf8_chunk_def)
  let ?w = "utf8_width (byte c)"
  show ?thesis
  proof (cases "?w = 0 \<or> ?w = 1")
    case True
    with a show ?thesis by (auto simp: utf8_chunk_def Let_def)
  next
    case False
    with assms a have t: "t \<noteq> []" "second_byte_ok (byte c) (byte (hd t))"
      "Suc (length (takeWhile is_continuation (take (?w - 1) t))) = ?w"
      by (auto simp: utf8_chunk_def Let_def split: if_splits)
    then have "?w - 1 \<le> length t"
      by (metis diff_Suc_1 length_takeWhile_le length_take min.bounded_iff)
    then have eq: "take (?w - 1) (t @ b) = take (?w - 1) t" by simp
    have "utf8_chunk (c # t @ b) = utf8_chunk (c # t)"
      using t(1) unfolding utf8_chunk_def Let_def list.case eq by simp
    then show ?thesis by (simp add: a)
  qed
qed

lemma utf8_valid_append: "utf8_valid a \<Longrightarrow> utf8_valid b \<Longrightarrow> utf8_valid (a @ b)"
proof (induction a rule: utf8_valid.induct)
  case (1 a)
  show ?case
  proof (cases "a = []")
    case False
    with "1.prems" have c: "fst (utf8_chunk a)" "utf8_valid (drop (snd (utf8_chunk a)) a)"
      by (metis utf8_valid.simps)+
    have "utf8_valid (drop (snd (utf8_chunk a)) a @ b)" using "1.IH" False c "1.prems" by simp
    with False c utf8_chunk_extend [OF c(1), of b] utf8_chunk_length [OF False] show ?thesis
      by (subst utf8_valid.simps) simp
  qed (use 1 in simp)
qed

lemma utf8_chunk_split:
  assumes "fst (utf8_chunk (a @ b))" "a \<noteq> []" "b = [] \<or> \<not> is_continuation (hd b)"
  shows "fst (utf8_chunk a)"
proof -
  obtain c t where a: "a = c # t" using assms(2) by (cases a) auto
  let ?w = "utf8_width (byte c)"
  show ?thesis
  proof (cases "?w = 0 \<or> ?w = 1")
    case True
    with a assms show ?thesis by (auto simp: utf8_chunk_def Let_def split: if_splits)
  next
    case False
    with assms(1) a have t: "t @ b \<noteq> []" "second_byte_ok (byte c) (byte (hd (t @ b)))"
      and w: "Suc (length (takeWhile is_continuation (take (?w - 1) (t @ b)))) = ?w"
      by (auto simp: utf8_chunk_def Let_def split: if_splits)
    have len: "?w - 1 \<le> length t"
    proof (rule ccontr)
      assume "\<not> ?w - 1 \<le> length t"
      then obtain k where k: "?w - 1 = length t + Suc k" by (metis less_iff_Suc_add not_le add_Suc_right)
      have len: "length (takeWhile is_continuation (take (?w - 1) (t @ b))) = ?w - 1" using w by simp
      then have "?w - 1 \<le> length (t @ b)"
        by (metis length_takeWhile_le length_take min.bounded_iff)
      then have "length (take (?w - 1) (t @ b)) = ?w - 1" by simp
      with len have "takeWhile is_continuation (take (?w - 1) (t @ b)) = take (?w - 1) (t @ b)"
        by (metis takeWhile_eq_take take_all order_refl)
      then have "list_all is_continuation (take (?w - 1) (t @ b))"
        by (metis takeWhile_eq_all_conv list_all_iff)
      moreover have "b \<noteq> []" using k \<open>?w - 1 \<le> length (t @ b)\<close> by auto
      ultimately have "is_continuation (hd b)" unfolding k by (cases b) (auto simp: list_all_iff)
      with assms(3) \<open>b \<noteq> []\<close> show False by simp
    qed
    then have eq: "take (?w - 1) (t @ b) = take (?w - 1) t" by simp
    from False len have "t \<noteq> []" by (auto simp: utf8_width_def split: if_splits)
    with False t w a show ?thesis unfolding eq by (simp add: utf8_chunk_def Let_def)
  qed
qed

lemma utf8_valid_split:
  "utf8_valid (a @ b) \<Longrightarrow> b = [] \<or> \<not> is_continuation (hd b) \<Longrightarrow> utf8_valid a \<and> utf8_valid b"
proof (induction a rule: utf8_valid.induct)
  case (1 a)
  show ?case
  proof (cases "a = []")
    case False
    with "1.prems" have c: "fst (utf8_chunk (a @ b))" "utf8_valid (drop (snd (utf8_chunk (a @ b))) (a @ b))"
      by (metis utf8_valid.simps append_is_Nil_conv)+
    from utf8_chunk_split [OF c(1) False "1.prems"(2)] have a: "fst (utf8_chunk a)" .
    from c(2) utf8_chunk_extend [OF a, of b] utf8_chunk_length [OF False]
    have "utf8_valid (drop (snd (utf8_chunk a)) a @ b)" by simp
    with "1.IH" False "1.prems" a show ?thesis by (metis utf8_valid.simps)
  qed (use 1 in \<open>simp add: utf8_valid.simps\<close>)
qed

lemma ws_len_cases:
  assumes "0 < ws_len s"
  obtains (one) a t where "s = a # t" "is_ascii_ws_byte a" "ws_len s = 1"
  | (two) a b t where "s = a # b # t" "ws2 (byte a) (byte b)" "ws_len s = 2"
  | (three) a b c t where "s = a # b # c # t" "ws3 (byte a) (byte b) (byte c)" "ws_len s = 3"
proof (cases s)
  case (Cons a t)
  show ?thesis
  proof (cases "is_ascii_ws_byte a")
    case True
    with Cons one show ?thesis by simp
  next
    case False
    with assms Cons obtain b u where t: "t = b # u" by (auto split: list.splits if_splits)
    show ?thesis
    proof (cases "ws2 (byte a) (byte b)")
      case True
      with two False Cons t assms show ?thesis by (auto split: list.splits if_splits)
    next
      case no: False
      with False Cons t assms obtain c v where "u = c # v" by (auto split: list.splits if_splits)
      with three no False Cons t assms show ?thesis by (auto split: if_splits)
    qed
  qed
qed (use assms in simp)

lemma ws_len_chunk: "0 < ws_len s \<Longrightarrow> utf8_chunk s = (True, ws_len s)"
proof (erule ws_len_cases)
  show "s = a # t \<Longrightarrow> is_ascii_ws_byte a \<Longrightarrow> ws_len s = 1 \<Longrightarrow> utf8_chunk s = (True, ws_len s)" for a t
    by (auto simp: utf8_chunk_def utf8_width_def is_ascii_ws_byte_def simp del: ws_len.simps)
  show "s = a # b # t \<Longrightarrow> ws2 (byte a) (byte b) \<Longrightarrow> ws_len s = 2 \<Longrightarrow> utf8_chunk s = (True, ws_len s)" for a b t
    by (auto simp: utf8_chunk_def utf8_width_def ws2_def second_byte_ok_def is_continuation_def simp del: ws_len.simps)
  show "s = a # b # c # t \<Longrightarrow> ws3 (byte a) (byte b) (byte c) \<Longrightarrow> ws_len s = 3 \<Longrightarrow> utf8_chunk s = (True, ws_len s)" for a b c t
    unfolding ws3_def
    by (elim disjE conjE) (simp_all add: utf8_chunk_def utf8_width_def second_byte_ok_def is_continuation_def del: ws_len.simps)
qed

lemma utf8_valid_drop_ws: "utf8_valid s \<Longrightarrow> utf8_valid (drop_ws ws_len s)"
proof (induction "ws_len" s rule: drop_ws.induct)
  case (1 s)
  show ?case
  proof (cases "s \<noteq> [] \<and> 0 < ws_len s")
    case True
    with ws_len_chunk [of s] "1.prems" have "utf8_valid (drop (ws_len s) s)"
      by (metis fst_conv snd_conv utf8_valid.simps)
    with 1 True show ?thesis by (simp add: drop_ws.simps [of ws_len s])
  qed (use 1 in \<open>auto simp: drop_ws.simps [of ws_len s]\<close>)
qed

lemma ws_len_rev_start: "0 < ws_len_rev r \<Longrightarrow> \<not> is_continuation (r ! (ws_len_rev r - 1))"
proof (cases r)
  case (Cons a t)
  assume pos: "0 < ws_len_rev r"
  show ?thesis
  proof (cases "is_ascii_ws_byte a")
    case True
    with Cons show ?thesis by (auto simp: is_continuation_def is_ascii_ws_byte_def)
  next
    case False
    with pos Cons obtain b u where t: "t = b # u" by (auto split: list.splits if_splits)
    show ?thesis
    proof (cases "ws2 (byte b) (byte a)")
      case True
      with False pos Cons t show ?thesis
        by (auto simp: is_continuation_def ws2_def split: list.splits if_splits)
    next
      case no: False
      with False Cons t pos obtain c v where "u = c # v" by (auto split: list.splits if_splits)
      with no False Cons t pos show ?thesis
        by (auto simp: is_continuation_def ws3_def split: if_splits)
    qed
  qed
qed simp

lemma utf8_valid_drop_ws_rev: "utf8_valid (rev r) \<Longrightarrow> utf8_valid (rev (drop_ws ws_len_rev r))"
proof (induction "ws_len_rev" r rule: drop_ws.induct)
  case (1 r)
  let ?n = "ws_len_rev r"
  show ?case
  proof (cases "r \<noteq> [] \<and> 0 < ?n")
    case True
    have n: "?n \<le> length r" by (rule ws_len_rev_le)
    have "rev r = rev (drop ?n r) @ rev (take ?n r)" by (metis append_take_drop_id rev_append)
    moreover have "hd (rev (take ?n r)) = r ! (?n - 1)"
      using True n by (simp add: hd_rev last_conv_nth)
    ultimately have "utf8_valid (rev (drop ?n r))"
      using "1.prems" utf8_valid_split [of "rev (drop ?n r)" "rev (take ?n r)"] ws_len_rev_start True by auto
    with 1 True show ?thesis by (simp add: drop_ws.simps [of ws_len_rev r])
  qed (use 1 in \<open>auto simp: drop_ws.simps [of ws_len_rev r]\<close>)
qed

lemma utf8_valid_trim: "utf8_valid s \<Longrightarrow> utf8_valid (trim s)"
  unfolding trim_def trim_start_def trim_end_def
  by (metis rev_rev_ident utf8_valid_drop_ws utf8_valid_drop_ws_rev)

end
