(* ===== verification/Http1_Relay.thy ===== *)
theory Http1_Relay
  imports Http1_Body Utf8_Split
begin

text \<open>
  Request bodies on their way upstream: the chunked encoding the proxy writes
  (\<open>request_stream.rs\<close>, \<open>transforms/framing.rs\<close>, \<open>h2_bridge/request.rs\<close>), the throttled writer
  (\<open>body.rs\<close>'s \<open>ThrottlePacer\<close> in \<open>request_util.rs\<close>), and the relay of a streamed request body.
  The main results: what the proxy encodes its own decoder reads back, trailers included, and a
  relayed body arrives upstream as the client sent it.
\<close>

section \<open>Reading lines back\<close>

lemma line_loop_line:
  assumes "CHR 0x0A \<notin> set l" "length (acc @ l) \<le> limit" "limit + 2 \<le> USIZE_MAX" "utf8_valid (acc @ l)"
    and "CHR 0x0A \<notin> set acc" "str_bytes st = l @ CRLF @ rest"
  shows "line_loop limit acc st = Inr (acc @ l, st\<lparr>str_bytes := rest\<rparr>)"
  using assms
proof (induction l arbitrary: acc st)
  case Nil
  let ?st = "st\<lparr>str_bytes := CHR 0x0A # rest\<rparr>"
  have sat: "saturating_add limit 2 = limit + 2" using Nil.prems by (simp add: saturating_add_def)
  have "line_loop limit acc st = line_loop limit (acc @ [CHR 0x0D]) ?st"
    using Nil.prems sat
    by (subst line_loop.simps) (simp add: http_read_exact_def read_exact_def CRLF_def ends_with_iff)
  also have "\<dots> = Inr (acc, st\<lparr>str_bytes := rest\<rparr>)"
    using Nil.prems sat
    by (subst line_loop.simps) (simp add: http_read_exact_def read_exact_def CRLF_def ends_with_def)
  finally show ?case by simp
next
  case (Cons c l)
  let ?st = "st\<lparr>str_bytes := l @ CRLF @ rest\<rparr>"
  have "saturating_add limit 2 = limit + 2" using Cons.prems by (simp add: saturating_add_def)
  moreover have "\<not> ends_with (acc @ [c]) CRLF"
    using Cons.prems by (auto simp: ends_with_iff CRLF_def)
  ultimately have "line_loop limit acc st = line_loop limit (acc @ [c]) ?st"
    using Cons.prems by (subst line_loop.simps) (simp add: http_read_exact_def read_exact_def)
  also have "\<dots> = Inr ((acc @ [c]) @ l, ?st\<lparr>str_bytes := rest\<rparr>)"
    using Cons.prems by (intro Cons.IH) auto
  finally show ?case by simp
qed

lemma read_line_back:
  assumes "CHR 0x0A \<notin> set l" "length l \<le> limit" "limit + 2 \<le> USIZE_MAX" "utf8_valid l" "str_bytes st = l @ CRLF @ rest"
  shows "read_crlf_line_limited limit st = Inr (l, st\<lparr>str_bytes := rest\<rparr>)"
  unfolding read_crlf_line_limited_def using line_loop_line [of l "[]" limit st rest] assms by simp

section \<open>The encoder\<close>

definition upper_hex_digit :: "nat \<Rightarrow> char" where
  "upper_hex_digit n = (if n < 10 then char_of (48 + n) else char_of (55 + n))"

text \<open>The format \<open>{:X}\<close> of a \<open>usize\<close>.\<close>

fun upper_hex :: "nat \<Rightarrow> string" where
  "upper_hex n = (if n < 16 then [upper_hex_digit n] else upper_hex (n div 16) @ [upper_hex_digit (n mod 16)])"

declare upper_hex.simps [simp del]

definition chunk_bytes :: "string \<Rightarrow> string" where
  "chunk_bytes data = upper_hex (length data) @ CRLF @ data @ CRLF"

definition trailer_bytes :: "string \<times> string \<Rightarrow> string" where
  "trailer_bytes t = fst t @ '': '' @ snd t @ CRLF"

definition last_chunk :: "headers \<Rightarrow> string" where
  "last_chunk ts = ''0'' @ CRLF @ concat (map trailer_bytes ts) @ CRLF"

lemma upper_hex_digit_facts:
  "n < 16 \<Longrightarrow> to_digit 16 (upper_hex_digit n) = Some n \<and> edge_char (upper_hex_digit n) \<and>
     upper_hex_digit n \<notin> {CHR '';'', CHR ''+'', CHR 0x0A}"
proof -
  have "list_all (\<lambda>n. to_digit 16 (upper_hex_digit n) = Some n \<and> edge_char (upper_hex_digit n) \<and>
     upper_hex_digit n \<notin> set [CHR '';'', CHR ''+'', CHR 0x0A]) [0..<16]" by code_simp
  then show "n < 16 \<Longrightarrow> ?thesis" by (simp add: list_all_iff)
qed

lemma upper_hex_chars:
  "upper_hex n \<noteq> [] \<and> list_all (\<lambda>c. edge_char c \<and> c \<notin> {CHR '';'', CHR ''+'', CHR 0x0A}) (upper_hex n)"
proof (induction n rule: upper_hex.induct)
  case (1 n)
  then show ?case
    using upper_hex_digit_facts [of n] upper_hex_digit_facts [of "n mod 16"] by (auto simp: upper_hex.simps [of n])
qed

lemma parse_hex_digits_append:
  "parse_hex_digits bound acc (a @ b) = Option.bind (parse_hex_digits bound acc a) (\<lambda>acc. parse_hex_digits bound acc b)"
  by (induction a arbitrary: acc) (auto split: option.split)

lemma parse_upper_hex: "n \<le> bound \<Longrightarrow> parse_hex_digits bound 0 (upper_hex n) = Some n"
proof (induction n rule: upper_hex.induct)
  case (1 n)
  show ?case
  proof (cases "n < 16")
    case True
    with "1.prems" upper_hex_digit_facts [of n] show ?thesis by (simp add: upper_hex.simps [of n])
  next
    case False
    with 1 have "parse_hex_digits bound 0 (upper_hex (n div 16)) = Some (n div 16)" by simp
    with False "1.prems" upper_hex_digit_facts [of "n mod 16"] show ?thesis
      by (simp add: upper_hex.simps [of n] parse_hex_digits_append)
  qed
qed

lemma upper_hex_length: "n < 16 ^ k \<Longrightarrow> 0 < k \<Longrightarrow> length (upper_hex n) \<le> k"
proof (induction k arbitrary: n)
  case (Suc k)
  show ?case
  proof (cases "n < 16")
    case False
    with Suc.prems have "n div 16 < 16 ^ k" "0 < k" by (auto intro: ccontr)
    with Suc.IH [of "n div 16"] False show ?thesis by (simp add: upper_hex.simps [of n])
  qed (simp add: upper_hex.simps [of n])
qed simp

lemma split_chars_none: "list_all (\<lambda>c. \<not> P c) s \<Longrightarrow> split_chars P s = [s]"
  by (induction s) auto

lemma parse_hex_usize_upper: "n \<le> USIZE_MAX \<Longrightarrow> parse_hex_usize (upper_hex n) = Some n"
proof -
  assume n: "n \<le> USIZE_MAX"
  obtain c t where ct: "upper_hex n = c # t" using upper_hex_chars [of n] by (cases "upper_hex n") auto
  moreover have "c \<noteq> CHR ''+''" using upper_hex_chars [of n] ct by simp
  moreover have "c \<noteq> CHR ''-''"
  proof
    assume "c = CHR ''-''"
    moreover have "to_digit 16 CHR ''-'' = None" by code_simp
    ultimately have "parse_hex_digits USIZE_MAX 0 (upper_hex n) = None" unfolding ct by simp
    with parse_upper_hex [OF n] show False by simp
  qed
  ultimately show ?thesis using parse_upper_hex [OF n] by (simp add: parse_hex_usize_def)
qed

lemma USIZE_16: "n \<le> USIZE_MAX \<Longrightarrow> n < 16 ^ 16"
  by (simp add: USIZE_MAX_def)

lemma read_chunk_size_back:
  assumes "n \<le> USIZE_MAX" "16 \<le> limit" "limit + 2 \<le> USIZE_MAX" "str_bytes st = upper_hex n @ CRLF @ rest"
  shows "read_chunk_size limit st = Inr (n, st\<lparr>str_bytes := rest\<rparr>)"
proof -
  note c = upper_hex_chars [of n]
  have "length (upper_hex n) \<le> limit" using upper_hex_length [OF USIZE_16] assms by fastforce
  moreover have "utf8_valid (upper_hex n)"
    using c by (intro utf8_valid_ascii) (auto simp: ascii_def list_all_iff edge_char_def)
  moreover have "CHR 0x0A \<notin> set (upper_hex n)" using c by (auto simp: list_all_iff)
  ultimately have "read_crlf_line_limited limit st = Inr (upper_hex n, st\<lparr>str_bytes := rest\<rparr>)"
    using read_line_back assms by blast
  moreover have "split_chars (\<lambda>c. c = CHR '';'') (upper_hex n) = [upper_hex n]"
    using c by (intro split_chars_none) (auto simp: list_all_iff)
  moreover have "trim (upper_hex n) = upper_hex n"
    using c by (intro trim_edges) (auto simp: list_all_iff)
  ultimately show ?thesis using assms(1) by (simp add: read_chunk_size_def parse_hex_usize_upper)
qed

section \<open>Trailers read back\<close>

definition trailer_ok :: "string \<times> string \<Rightarrow> bool" where
  "trailer_ok t \<longleftrightarrow> validate_request_trailer (fst t) (snd t) = Inr () \<and> trim (snd t) = snd t \<and> utf8_valid (snd t)"

definition trailers_length :: "headers \<Rightarrow> nat" where
  "trailers_length ts = sum_list (map (\<lambda>t. length (trailer_bytes t)) ts) + 2"

lemma header_token_edge: "is_header_token_byte c \<Longrightarrow> edge_char c \<and> c \<noteq> CHR '':'' \<and> c \<noteq> CHR 0x0A"
  by (auto simp: is_header_token_byte_def edge_char_def is_ascii_ws_byte_def is_ascii_alphanumeric_def
      is_ascii_alphabetic_def is_ascii_digit_def is_ascii_uppercase_def is_ascii_lowercase_def byte_def)

lemma trailer_okD:
  assumes "trailer_ok (n, v)"
  shows "n \<noteq> []" "trim n = n" "CHR '':'' \<notin> set n" "CHR 0x0A \<notin> set n" "CHR 0x0A \<notin> set v" "utf8_valid (n @ '': '' @ v)"
proof -
  have n: "n \<noteq> []" "list_all is_header_token_byte n" and v: "CHR 0x0A \<notin> set v" "utf8_valid v"
    using assms by (auto simp: trailer_ok_def validate_request_trailer_def list_ex_iff split: if_splits)
  then have e: "list_all (\<lambda>c. edge_char c \<and> c \<noteq> CHR '':'' \<and> c \<noteq> CHR 0x0A) n"
    using header_token_edge by (auto simp: list_all_iff)
  show "n \<noteq> []" "CHR 0x0A \<notin> set v" using n v by simp_all
  show "trim n = n" using e by (intro trim_edges) (auto simp: list_all_iff)
  show "CHR '':'' \<notin> set n" "CHR 0x0A \<notin> set n" using e by (auto simp: list_all_iff)
  have "ascii (n @ '': '')" using e by (auto simp: ascii_def list_all_iff edge_char_def byte_def)
  then have "utf8_valid ((n @ '': '') @ v)" by (intro utf8_valid_append utf8_valid_ascii v)
  then show "utf8_valid (n @ '': '' @ v)" by simp
qed

lemma trailer_line_back: "trailer_ok (n, v) \<Longrightarrow> trailer_line (n @ '': '' @ v) = Inr (n, v)"
  using trailer_okD [of n v] split_once_char_first [of "CHR '':''" n "CHR '' '' # v"]
  by (simp add: trailer_line_def trailer_ok_def trim_space)

lemma trailers_back:
  assumes "list_all trailer_ok ts" "length acc + length ts \<le> max_count" "total_size + trailers_length ts \<le> max_size"
    "max_size + 2 \<le> USIZE_MAX" "str_bytes st = concat (map trailer_bytes ts) @ CRLF @ rest"
  shows "trailers_loop max_size max_count acc total_size st = Inr (acc @ ts, st\<lparr>str_bytes := rest\<rparr>)"
  using assms
proof (induction ts arbitrary: acc total_size st)
  case Nil
  have "read_crlf_line_limited max_size st = Inr ([], st\<lparr>str_bytes := rest\<rparr>)"
    using Nil.prems by (intro read_line_back) (auto simp: utf8_valid.simps)
  with Nil.prems show ?case
    by (subst trailers_loop.simps) (simp add: saturating_add_def trailers_length_def)
next
  case (Cons t ts)
  obtain n v where t: "t = (n, v)" by (cases t)
  let ?l = "n @ '': '' @ v" and ?rest = "concat (map trailer_bytes ts) @ CRLF @ rest"
  have ok: "trailer_ok (n, v)" using Cons.prems t by simp
  have len: "total_size + length ?l + 2 + trailers_length ts \<le> max_size"
    using Cons.prems(3) by (simp add: t trailers_length_def trailer_bytes_def CRLF_def)
  have "read_crlf_line_limited max_size st = Inr (?l, st\<lparr>str_bytes := ?rest\<rparr>)"
    using Cons.prems trailer_okD [OF ok] len by (intro read_line_back) (auto simp: t trailer_bytes_def [of "(n, v)"])
  moreover have "saturating_add (saturating_add total_size (length ?l)) 2 = total_size + length ?l + 2"
    using len Cons.prems(4) by (simp add: saturating_add_def)
  ultimately have "trailers_loop max_size max_count acc total_size st =
      trailers_loop max_size max_count (acc @ [(n, v)]) (total_size + length ?l + 2) (st\<lparr>str_bytes := ?rest\<rparr>)"
    using len Cons.prems(2) trailer_line_back [OF ok] trailer_okD(1) [OF ok]
    by (subst trailers_loop.simps) simp
  also have "\<dots> = Inr ((acc @ [(n, v)]) @ ts, (st\<lparr>str_bytes := ?rest\<rparr>)\<lparr>str_bytes := rest\<rparr>)"
    using Cons.prems len by (intro Cons.IH) auto
  finally show ?case by (simp add: t)
qed

text \<open>
  The reference decoder undoes the encoding of pieces and trailers.
\<close>

lemma decode_encoded:
  assumes "list_all (\<lambda>d. d \<noteq> [] \<and> length d \<le> USIZE_MAX) ds" "list_all trailer_ok ts"
    and "16 \<le> max_size" "trailers_length ts \<le> max_size" "max_size + 2 \<le> USIZE_MAX" "length ts \<le> max_count"
    and "str_bytes st = concat (map chunk_bytes ds) @ last_chunk ts @ rest"
  shows "decode_body max_size max_count (BodyChunked 0) st = Inr (concat ds, ts, rest)"
proof -
  have "decode_chunks max_size max_count st = Inr (concat ds, ts, rest)"
    using assms(1,7)
  proof (induction ds arbitrary: st)
    case Nil
    let ?st = "st\<lparr>str_bytes := concat (map trailer_bytes ts) @ CRLF @ rest\<rparr>"
    have "upper_hex 0 = ''0''" by code_simp
    then have "read_chunk_size max_size st = Inr (0, ?st)"
      using Nil assms(3,5) by (intro read_chunk_size_back) (auto simp: last_chunk_def)
    moreover have "read_trailers max_size max_count ?st = Inr ([] @ ts, ?st\<lparr>str_bytes := rest\<rparr>)"
      unfolding read_trailers_def using assms by (intro trailers_back) auto
    ultimately show ?case by (subst decode_chunks.simps) simp
  next
    case (Cons d ds)
    let ?rest = "concat (map chunk_bytes ds) @ last_chunk ts @ rest"
    let ?st = "st\<lparr>str_bytes := d @ CRLF @ ?rest\<rparr>"
    have "read_chunk_size max_size st = Inr (length d, ?st)"
      using Cons.prems assms(3,5) by (intro read_chunk_size_back) (auto simp: chunk_bytes_def [of d])
    moreover have "decode_rest (length d) ?st = Inr (d, ?st\<lparr>str_bytes := ?rest\<rparr>)"
      by (simp add: decode_rest_def http_read_exact_def read_exact_def read_chunk_end_def CRLF_def)
    moreover have "decode_chunks max_size max_count (?st\<lparr>str_bytes := ?rest\<rparr>) = Inr (concat ds, ts, rest)"
      using Cons.prems by (intro Cons.IH) auto
    ultimately show ?case using Cons.prems by (subst decode_chunks.simps) simp
  qed
  then show ?thesis by (simp add: decode_body_def)
qed

text \<open>Trailers that were read are trailers that can be written.\<close>

lemma line_loop_utf8: "line_loop limit acc st = Inr (l, st') \<Longrightarrow> utf8_valid l"
proof (induction limit acc st rule: line_loop.induct)
  case (1 limit acc st)
  then show ?case
    by (subst (asm) (2) line_loop.simps) (auto simp: Let_def split: sum.splits if_splits)
qed

lemma trailer_line_ok: "utf8_valid l \<Longrightarrow> trailer_line l = Inr t \<Longrightarrow> trailer_ok t"
proof -
  assume l: "utf8_valid l" "trailer_line l = Inr t"
  then obtain a b where ab: "split_once l '':'' = Some (a, b)" "t = (trim a, trim b)"
    "validate_request_trailer (trim a) (trim b) = Inr ()"
    by (auto simp: trailer_line_def Let_def try_bind_Inr split: option.splits if_splits)
  from split_once_SomeD [OF ab(1)] l(1) have "utf8_valid ((a @ '':'') @ b)" "utf8_valid (a @ '':'' @ b)" by simp_all
  then have "utf8_valid ('':'' @ b)" using utf8_valid_split [of a "'':'' @ b"] by (simp add: is_continuation_def byte_def)
  then have "utf8_valid b" by (subst (asm) utf8_valid.simps) (simp add: utf8_chunk_def utf8_width_def byte_def)
  with ab show ?thesis by (simp add: trailer_ok_def trim_idem utf8_valid_trim)
qed

lemma trailers_loop_ok:
  "list_all trailer_ok acc \<Longrightarrow> trailers_loop max_size max_count acc total_size st = Inr (ts, st') \<Longrightarrow> list_all trailer_ok ts"
proof (induction max_size max_count acc total_size st rule: trailers_loop.induct)
  case (1 max_size max_count acc total_size st)
  from "1.prems"(2) obtain l st1 where l: "read_crlf_line_limited max_size st = Inr (l, st1)"
    by (subst (asm) trailers_loop.simps) (auto split: sum.splits)
  then have u: "utf8_valid l" unfolding read_crlf_line_limited_def by (rule line_loop_utf8)
  note step = trailers_loop.simps [of max_size max_count acc total_size st]
  show ?case
  proof (cases "l = []")
    case True
    with "1.prems" l show ?thesis by (simp add: step Let_def split: if_splits)
  next
    case False
    with "1.prems" l obtain t where t: "trailer_line l = Inr t"
      "\<not> max_size < saturating_add (saturating_add total_size (length l)) 2" "\<not> max_count \<le> length acc"
      by (auto simp: step Let_def split: if_splits sum.splits)
    with "1.prems" l False have "trailers_loop max_size max_count (acc @ [t]) (saturating_add (saturating_add total_size (length l)) 2) st1 = Inr (ts, st')"
      by (simp add: step)
    from "1.IH" [OF l refl refl t(2) False t(3,1) _ this] "1.prems"(1) trailer_line_ok [OF u t(1)] show ?thesis by simp
  qed
qed

section \<open>Throttled writes\<close>

text \<open>
  A pacer: its rate, whether a piece has been written, and how many waits the request's deadline
  still allows (the clock is the environment's).
\<close>

record throttle_pacer =
  tp_rate :: "nat option"
  tp_next :: bool
  tp_waits :: "nat option"

definition throttle_new :: "nat option \<Rightarrow> nat option \<Rightarrow> throttle_pacer" where
  "throttle_new rate waits = \<lparr>tp_rate = map_option (\<lambda>r. max r 1) rate, tp_next = False, tp_waits = waits\<rparr>"

definition wait_for_next_chunk :: "throttle_pacer \<Rightarrow> io_kind + throttle_pacer" where
  "wait_for_next_chunk p =
     (if \<not> tp_next p then Inr p
      else (case tp_waits p of
        None \<Rightarrow> Inr p
      | Some 0 \<Rightarrow> Inl TimedOut
      | Some (Suc n) \<Rightarrow> Inr (p\<lparr>tp_waits := Some n\<rparr>)))"

fun write_pieces :: "string list \<Rightarrow> throttle_pacer \<Rightarrow> byte_sink \<Rightarrow> io_kind + throttle_pacer \<times> byte_sink" where
  "write_pieces [] p snk = Inr (p, snk)"
| "write_pieces (c # cs) p snk =
     try_bind (wait_for_next_chunk p) (\<lambda>p.
     try_bind (sink_write c snk) (\<lambda>snk.
     write_pieces cs (p\<lparr>tp_next := True\<rparr>) snk))"

function chunks_of :: "nat \<Rightarrow> string \<Rightarrow> string list" where
  "chunks_of n s = (if n = 0 \<or> s = [] then [] else take n s # chunks_of n (drop n s))"
  by pat_completeness auto
termination by (relation "measure (\<lambda>(n, s). length s)") auto

declare chunks_of.simps [simp del]

definition throttle_write :: "throttle_pacer \<Rightarrow> string \<Rightarrow> byte_sink \<Rightarrow> io_kind + throttle_pacer \<times> byte_sink" where
  "throttle_write p body snk =
     (case tp_rate p of
        None \<Rightarrow> try_bind (sink_write body snk) (\<lambda>snk. Inr (p, snk))
      | Some rate \<Rightarrow> write_pieces (chunks_of (min (max rate 1) (16 * 1024)) body) p snk)"

lemma concat_chunks_of: "0 < n \<Longrightarrow> concat (chunks_of n s) = s"
proof (induction n s rule: chunks_of.induct)
  case (1 n s)
  then show ?case by (subst chunks_of.simps) auto
qed

lemma write_pieces_out: "write_pieces cs p snk = Inr (p', snk') \<Longrightarrow> snk_out snk' = snk_out snk @ concat cs"
  by (induction cs arbitrary: p snk) (auto simp: try_bind_Inr dest!: sink_write_Inr)

lemma throttle_write_out: "throttle_write p body snk = Inr (p', snk') \<Longrightarrow> snk_out snk' = snk_out snk @ body"
  by (auto simp: throttle_write_def try_bind_Inr concat_chunks_of dest: sink_write_Inr write_pieces_out split: option.splits)

section \<open>The relay\<close>

datatype relay_error = ClientBody http_error | RequestWrite io_kind | TimeoutReset io_kind

text \<open>A request body that continues on the client connection.\<close>

record streaming_body =
  sb_prefix :: string
  sb_state :: body_state
  sb_framing :: body_framing
  sb_exceeded :: bool

record stream_summary =
  ss_bytes :: nat
  ss_head :: string
  ss_trailers :: headers
  ss_exceeded :: bool
  ss_completed :: bool

definition summary_new :: "bool \<Rightarrow> stream_summary" where
  "summary_new exceeded = \<lparr>ss_bytes = 0, ss_head = [], ss_trailers = [], ss_exceeded = exceeded, ss_completed = True\<rparr>"

definition observe_request_data :: "nat \<Rightarrow> string \<Rightarrow> stream_summary \<Rightarrow> stream_summary" where
  "observe_request_data trace_limit data sm =
     sm\<lparr>ss_bytes := min (ss_bytes sm + length data) U64_MAX,
        ss_head := ss_head sm @ take (trace_limit - length (ss_head sm)) data\<rparr>"

definition write_request_data ::
  "bool \<Rightarrow> string \<Rightarrow> throttle_pacer \<Rightarrow> byte_sink \<Rightarrow> io_kind + throttle_pacer \<times> byte_sink" where
  "write_request_data chunked data p snk =
     (if data = [] then Inr (p, snk)
      else
        try_bind (if chunked then sink_write (upper_hex (length data) @ CRLF) snk else Inr snk) (\<lambda>snk.
        try_bind (throttle_write p data snk) (\<lambda>(p, snk).
        try_bind (if chunked then sink_write CRLF snk else Inr snk) (\<lambda>snk. Inr (p, snk)))))"

fun write_each :: "string list \<Rightarrow> byte_sink \<Rightarrow> io_kind + byte_sink" where
  "write_each [] snk = Inr snk"
| "write_each (s # ss) snk = try_bind (sink_write s snk) (write_each ss)"

text \<open>Flushing: bytes that were taken into a buffer go out, or the error of a full sink shows.\<close>

definition sink_flush :: "byte_sink \<Rightarrow> io_kind + byte_sink" where
  "sink_flush snk = (case snk_room snk of Some (0, e) \<Rightarrow> Inl e | _ \<Rightarrow> Inr snk)"

definition finish_request_body :: "bool \<Rightarrow> headers \<Rightarrow> byte_sink \<Rightarrow> io_kind + byte_sink" where
  "finish_request_body chunked trailers snk =
     (if chunked then
        try_bind (sink_write (''0'' @ CRLF) snk) (\<lambda>snk.
        try_bind (write_each (map trailer_bytes trailers) snk) (\<lambda>snk.
        try_bind (sink_write CRLF snk) sink_flush))
      else sink_flush snk)"

definition REQUEST_STREAM_CHUNK_SIZE :: nat where "REQUEST_STREAM_CHUNK_SIZE = 16 * 1024"

function relay_loop ::
  "nat \<Rightarrow> nat \<Rightarrow> nat \<Rightarrow> bool \<Rightarrow> stream_summary \<Rightarrow> throttle_pacer \<Rightarrow> body_state \<Rightarrow> byte_stream \<Rightarrow> byte_sink \<Rightarrow>
    relay_error + stream_summary \<times> byte_stream \<times> byte_sink" where
  "relay_loop trace_limit max_size max_count chunked sm p s st snk =
     (case body_read max_size max_count REQUEST_STREAM_CHUNK_SIZE s st of
        Inl e \<Rightarrow> Inl (ClientBody e)
      | Inr (BodyData d, s', st') \<Rightarrow>
          (case write_request_data chunked d p snk of
             Inl e \<Rightarrow> Inl (RequestWrite e)
           | Inr (p', snk') \<Rightarrow>
               relay_loop trace_limit max_size max_count chunked (observe_request_data trace_limit d sm) p' s' st' snk')
      | Inr (BodyEnd ts, s', st') \<Rightarrow>
          (case finish_request_body chunked ts snk of
             Inl e \<Rightarrow> Inl (RequestWrite e)
           | Inr snk' \<Rightarrow> Inr (sm\<lparr>ss_trailers := ts\<rparr>, st', snk')))"
  by pat_completeness auto
termination
  by (relation "measure (\<lambda>(trace_limit, max_size, max_count, chunked, sm, p, s, st, snk). length (str_bytes st))")
     (auto dest: body_read_consumes)

declare relay_loop.simps [simp del]

definition restore_request_timeout :: "io_kind option \<Rightarrow> relay_error + 'a \<Rightarrow> relay_error + 'a" where
  "restore_request_timeout restored result =
     (case result of
        Inl e \<Rightarrow> Inl e
      | Inr v \<Rightarrow> (case restored of Some k \<Rightarrow> Inl (TimeoutReset k) | None \<Rightarrow> Inr v))"

definition relay_request_body ::
  "nat \<Rightarrow> nat \<Rightarrow> nat \<Rightarrow> nat option \<Rightarrow> nat option \<Rightarrow> io_kind option \<Rightarrow> streaming_body \<Rightarrow> byte_stream \<Rightarrow> byte_sink \<Rightarrow>
    relay_error + stream_summary \<times> byte_stream \<times> byte_sink" where
  "relay_request_body trace_limit max_size max_count bytes_per_sec waits restored body st snk =
     (let chunked = (sb_framing body = Chunked);
          sm = summary_new (sb_exceeded body);
          p = throttle_new bytes_per_sec waits in
      restore_request_timeout restored
        (if sb_prefix body \<noteq> [] then
           (case write_request_data chunked (sb_prefix body) p snk of
              Inl e \<Rightarrow> Inl (RequestWrite e)
            | Inr (p, snk) \<Rightarrow>
                relay_loop trace_limit max_size max_count chunked
                  (observe_request_data trace_limit (sb_prefix body) sm) p (sb_state body) st snk)
         else relay_loop trace_limit max_size max_count chunked sm p (sb_state body) st snk))"

text \<open>What the upstream gets for the pieces of a body and its trailers.\<close>

definition relayed_bytes :: "bool \<Rightarrow> string list \<Rightarrow> headers \<Rightarrow> string" where
  "relayed_bytes chunked ds ts = (if chunked then concat (map chunk_bytes ds) @ last_chunk ts else concat ds)"

lemma write_request_data_out:
  "write_request_data chunked d p snk = Inr (p', snk') \<Longrightarrow> d \<noteq> [] \<Longrightarrow>
     snk_out snk' = snk_out snk @ (if chunked then chunk_bytes d else d)"
  by (auto simp: write_request_data_def chunk_bytes_def try_bind_Inr
      dest!: sink_write_Inr throttle_write_out split: if_splits)

lemma write_each_out: "write_each ss snk = Inr snk' \<Longrightarrow> snk_out snk' = snk_out snk @ concat ss"
  by (induction ss arbitrary: snk) (auto simp: try_bind_Inr dest!: sink_write_Inr)

lemma sink_flush_Inr: "sink_flush snk = Inr snk' \<Longrightarrow> snk' = snk"
  by (auto simp: sink_flush_def split: option.splits prod.splits nat.splits)

lemma finish_request_body_out:
  "finish_request_body chunked ts snk = Inr snk' \<Longrightarrow> snk_out snk' = snk_out snk @ (if chunked then last_chunk ts else [])"
  by (auto simp: finish_request_body_def last_chunk_def try_bind_Inr
      dest!: sink_write_Inr write_each_out sink_flush_Inr split: if_splits)

lemma body_read_nonempty:
  "body_read max_size max_count n s st = Inr (BodyData d, s', st') \<Longrightarrow> 0 < length d \<and> length d \<le> n"
  by (auto simp: body_read_def read_chunk_part_def try_bind_Inr http_read_exact_Inr Let_def dest!: read_some_Inr
      split: body_state.splits sum.splits if_splits)

lemma body_read_trailers:
  "body_read max_size max_count n s st = Inr (BodyEnd ts, s', st') \<Longrightarrow> list_all trailer_ok ts"
  by (auto simp: body_read_def read_chunk_part_def try_bind_Inr Let_def read_trailers_def dest: trailers_loop_ok [rotated]
      split: body_state.splits sum.splits if_splits)

lemma observe_twice:
  "observe_request_data l b (observe_request_data l a sm) = observe_request_data l (a @ b) sm"
  by (auto simp: observe_request_data_def min_def)

lemma observe_nothing: "ss_bytes sm \<le> U64_MAX \<Longrightarrow> observe_request_data l [] sm = sm"
  by (simp add: observe_request_data_def)

lemma relay_loop_out:
  assumes "relay_loop trace_limit max_size max_count chunked sm p s st snk = Inr (sm', st', snk')"
    and "body_state_wf s" "ss_bytes sm \<le> U64_MAX"
  shows "\<exists>ds ts. list_all (\<lambda>d. d \<noteq> [] \<and> length d \<le> REQUEST_STREAM_CHUNK_SIZE) ds \<and> list_all trailer_ok ts \<and>
    decode_body max_size max_count s st = Inr (concat ds, ts, str_bytes st') \<and>
    snk_out snk' = snk_out snk @ relayed_bytes chunked ds ts \<and>
    sm' = (observe_request_data trace_limit (concat ds) sm)\<lparr>ss_trailers := ts\<rparr>"
  using assms
proof (induction trace_limit max_size max_count chunked sm p s st snk rule: relay_loop.induct)
  case (1 trace_limit max_size max_count chunked sm p s st snk)
  note step = relay_loop.simps [of trace_limit max_size max_count chunked sm p s st snk]
  have n: "0 < REQUEST_STREAM_CHUNK_SIZE" by (simp add: REQUEST_STREAM_CHUNK_SIZE_def)
  from "1.prems"(2) n show ?case
  proof (cases rule: body_read_cases [of s _ max_size max_count st])
    case (error e)
    with "1.prems"(1) show ?thesis by (simp add: step)
  next
    case (data d s1 st1)
    let ?sm = "observe_request_data trace_limit d sm"
    from "1.prems"(1) data obtain p1 snk1 where w: "write_request_data chunked d p snk = Inr (p1, snk1)"
      and r: "relay_loop trace_limit max_size max_count chunked ?sm p1 s1 st1 snk1 = Inr (sm', st', snk')"
      by (auto simp: step split: sum.splits)
    have sm: "ss_bytes ?sm \<le> U64_MAX" by (simp add: observe_request_data_def)
    from "1.IH" [OF data(1) refl refl refl w refl r data(3) sm] obtain ds ts where
      ds: "list_all (\<lambda>d. d \<noteq> [] \<and> length d \<le> REQUEST_STREAM_CHUNK_SIZE) ds" "list_all trailer_ok ts"
      "decode_body max_size max_count s1 st1 = Inr (concat ds, ts, str_bytes st')"
      "snk_out snk' = snk_out snk1 @ relayed_bytes chunked ds ts"
      "sm' = (observe_request_data trace_limit (concat ds) ?sm)\<lparr>ss_trailers := ts\<rparr>"
      by blast
    have d: "d \<noteq> []" "length d \<le> REQUEST_STREAM_CHUNK_SIZE" using body_read_nonempty [OF data(1)] by auto
    show ?thesis
      by (rule exI [of _ "d # ds"], rule exI [of _ ts])
         (use ds d data(4) write_request_data_out [OF w d(1)] in \<open>simp add: relayed_bytes_def observe_twice\<close>)
  next
    case (finished ts s1 st1)
    from "1.prems"(1) finished have f: "finish_request_body chunked ts snk = Inr snk'" "sm' = sm\<lparr>ss_trailers := ts\<rparr>" "st' = st1"
      by (auto simp: step split: sum.splits)
    show ?thesis
      by (rule exI [of _ "[]"], rule exI [of _ ts])
         (use f finished(2) body_read_trailers [OF finished(1)] finish_request_body_out [OF f(1)] "1.prems"(3) in
           \<open>simp add: relayed_bytes_def observe_nothing\<close>)
  qed
qed

lemma relay_body_decodes:
  assumes "relay_request_body trace_limit max_size max_count bytes_per_sec waits restored body st snk = Inr (sm, st', snk')"
    and "body_state_wf (sb_state body)" "length (sb_prefix body) \<le> USIZE_MAX"
  shows "\<exists>rest ts. decode_body max_size max_count (sb_state body) st = Inr (rest, ts, str_bytes st') \<and>
    (\<exists>out. snk_out snk' = snk_out snk @ out \<and>
      (sb_framing body \<noteq> Chunked \<longrightarrow> out = sb_prefix body @ rest) \<and>
      (sb_framing body = Chunked \<longrightarrow>
        (\<forall>max_size' max_count' next close parts.
          16 \<le> max_size' \<and> trailers_length ts \<le> max_size' \<and> max_size' + 2 \<le> USIZE_MAX \<and> length ts \<le> max_count' \<longrightarrow>
          decode_body max_size' max_count' (BodyChunked 0) \<lparr>str_bytes = out @ next, str_close = close, str_parts = parts\<rparr> =
            Inr (sb_prefix body @ rest, ts, next)))) \<and>
    ss_bytes sm = min (length (sb_prefix body @ rest)) U64_MAX \<and>
    ss_head sm = take trace_limit (sb_prefix body @ rest) \<and> ss_trailers sm = ts"
proof -
  let ?c = "sb_framing body = Chunked" and ?sm = "summary_new (sb_exceeded body)" and ?p = "sb_prefix body"
  have *: "\<exists>ds ts. list_all (\<lambda>d. d \<noteq> [] \<and> length d \<le> USIZE_MAX) ds \<and> list_all trailer_ok ts \<and>
      (\<exists>rest. concat ds = ?p @ rest \<and> decode_body max_size max_count (sb_state body) st = Inr (rest, ts, str_bytes st')) \<and>
      snk_out snk' = snk_out snk @ relayed_bytes ?c ds ts \<and>
      sm = (observe_request_data trace_limit (concat ds) ?sm)\<lparr>ss_trailers := ts\<rparr>"
  proof (cases "?p = []")
    case True
    with assms(1) have "relay_loop trace_limit max_size max_count ?c ?sm (throttle_new bytes_per_sec waits) (sb_state body) st snk = Inr (sm, st', snk')"
      by (auto simp: relay_request_body_def restore_request_timeout_def Let_def split: sum.splits option.splits)
    from relay_loop_out [OF this assms(2)] obtain ds ts where
      "list_all (\<lambda>d. d \<noteq> [] \<and> length d \<le> REQUEST_STREAM_CHUNK_SIZE) ds" "list_all trailer_ok ts"
      "decode_body max_size max_count (sb_state body) st = Inr (concat ds, ts, str_bytes st')"
      "snk_out snk' = snk_out snk @ relayed_bytes ?c ds ts"
      "sm = (observe_request_data trace_limit (concat ds) ?sm)\<lparr>ss_trailers := ts\<rparr>"
      by (auto simp: summary_new_def)
    with True show ?thesis
      by (intro exI [of _ ds] exI [of _ ts]) (auto simp: list_all_iff REQUEST_STREAM_CHUNK_SIZE_def USIZE_MAX_def)
  next
    case False
    let ?sm' = "observe_request_data trace_limit ?p ?sm"
    from False assms(1) obtain p1 snk1 where
      w: "write_request_data ?c ?p (throttle_new bytes_per_sec waits) snk = Inr (p1, snk1)" and
      r: "relay_loop trace_limit max_size max_count ?c ?sm' p1 (sb_state body) st snk1 = Inr (sm, st', snk')"
      by (auto simp: relay_request_body_def restore_request_timeout_def Let_def split: sum.splits option.splits)
    from relay_loop_out [OF r assms(2)] obtain ds ts where
      "list_all (\<lambda>d. d \<noteq> [] \<and> length d \<le> REQUEST_STREAM_CHUNK_SIZE) ds" "list_all trailer_ok ts"
      "decode_body max_size max_count (sb_state body) st = Inr (concat ds, ts, str_bytes st')"
      "snk_out snk' = snk_out snk1 @ relayed_bytes ?c ds ts"
      "sm = (observe_request_data trace_limit (concat ds) ?sm')\<lparr>ss_trailers := ts\<rparr>"
      by (auto simp: observe_request_data_def)
    with False assms(3) write_request_data_out [OF w False] show ?thesis
      by (intro exI [of _ "?p # ds"] exI [of _ ts])
         (auto simp: list_all_iff REQUEST_STREAM_CHUNK_SIZE_def USIZE_MAX_def relayed_bytes_def observe_twice)
  qed
  then obtain ds ts rest where ds: "list_all (\<lambda>d. d \<noteq> [] \<and> length d \<le> USIZE_MAX) ds" "list_all trailer_ok ts"
      "concat ds = ?p @ rest" "decode_body max_size max_count (sb_state body) st = Inr (rest, ts, str_bytes st')"
      "snk_out snk' = snk_out snk @ relayed_bytes ?c ds ts"
      "sm = (observe_request_data trace_limit (concat ds) ?sm)\<lparr>ss_trailers := ts\<rparr>"
    by blast
  show ?thesis
    by (intro exI [of _ rest] exI [of _ ts] conjI exI [of _ "relayed_bytes ?c ds ts"] impI allI)
       (use ds decode_encoded [OF ds(1,2)] in
         \<open>auto simp: relayed_bytes_def observe_request_data_def summary_new_def\<close>)
qed

text \<open>
  C5: A request body that the proxy streams upstream arrives as the client sent it. When the
  relay succeeds, the client connection held a complete body; upstream gets, for a chunked body,
  bytes that decode to the whole body (what was buffered before the relay, then the rest) with
  the client's trailers, and otherwise the bytes of the body; the summary has its length, its
  head up to the trace limit and its trailers.
\<close>

theorem relay_preserves_body:
  assumes "relay_request_body trace_limit max_size max_count bytes_per_sec waits restored body st snk = Inr (sm, st', snk')"
    and "body_state_wf (sb_state body)" "length (sb_prefix body) \<le> USIZE_MAX"
  shows "\<exists>rest ts. decode_body max_size max_count (sb_state body) st = Inr (rest, ts, str_bytes st') \<and>
    (\<exists>out. snk_out snk' = snk_out snk @ out \<and>
      (sb_framing body \<noteq> Chunked \<longrightarrow> out = sb_prefix body @ rest) \<and>
      (sb_framing body = Chunked \<longrightarrow>
        (\<forall>max_size' max_count' next close parts.
          16 \<le> max_size' \<and> trailers_length ts \<le> max_size' \<and> max_size' + 2 \<le> USIZE_MAX \<and> length ts \<le> max_count' \<longrightarrow>
          decode_body max_size' max_count' (BodyChunked 0) \<lparr>str_bytes = out @ next, str_close = close, str_parts = parts\<rparr> =
            Inr (sb_prefix body @ rest, ts, next)))) \<and>
    ss_bytes sm = min (length (sb_prefix body @ rest)) U64_MAX \<and>
    ss_head sm = take trace_limit (sb_prefix body @ rest) \<and> ss_trailers sm = ts"
  using assms by (rule relay_body_decodes)

lemma relay_preserves_body_witness:
  "case relay_request_body 3 64 4 (Some 2) None None
      \<lparr>sb_prefix = ''he'', sb_state = BodyChunked 3, sb_framing = Chunked, sb_exceeded = True\<rparr>
      \<lparr>str_bytes = ''llo'' @ CRLF @ ''0'' @ CRLF @ ''A:b'' @ CRLF @ CRLF @ ''GET'', str_close = None, str_parts = []\<rparr>
      \<lparr>snk_out = [], snk_room = None\<rparr> of
     Inr (sm, st', snk') \<Rightarrow> ss_head sm = ''hel'' \<and> ss_bytes sm = 5 \<and> ss_trailers sm = [(''A'', ''b'')] \<and>
       (\<exists>rest ts. decode_body 64 4 (BodyChunked 3)
          \<lparr>str_bytes = ''llo'' @ CRLF @ ''0'' @ CRLF @ ''A:b'' @ CRLF @ CRLF @ ''GET'', str_close = None, str_parts = []\<rparr>
          = Inr (rest, ts, str_bytes st'))
   | Inl e \<Rightarrow> False"
proof -
  let ?b = "\<lparr>sb_prefix = ''he'', sb_state = BodyChunked 3, sb_framing = Chunked, sb_exceeded = True\<rparr>"
  let ?st = "\<lparr>str_bytes = ''llo'' @ CRLF @ ''0'' @ CRLF @ ''A:b'' @ CRLF @ CRLF @ ''GET'', str_close = None, str_parts = []\<rparr>"
  let ?snk = "\<lparr>snk_out = [], snk_room = None\<rparr>"
  have *: "case relay_request_body 3 64 4 (Some 2) None None ?b ?st ?snk of
      Inr (sm, st', snk') \<Rightarrow> ss_head sm = ''hel'' \<and> ss_bytes sm = 5 \<and> ss_trailers sm = [(''A'', ''b'')]
    | Inl e \<Rightarrow> False"
    by code_simp
  then obtain sm st' snk' where r: "relay_request_body 3 64 4 (Some 2) None None ?b ?st ?snk = Inr (sm, st', snk')"
    by (auto split: sum.splits)
  have "length (sb_prefix ?b) \<le> USIZE_MAX" by (simp add: USIZE_MAX_def)
  with relay_preserves_body [OF r] have "\<exists>rest ts. decode_body 64 4 (BodyChunked 3) ?st = Inr (rest, ts, str_bytes st')"
    by auto
  with * r show ?thesis by simp
qed

section \<open>Buffered bodies with trailers\<close>

definition write_chunked_request_inner ::
  "nat option \<Rightarrow> nat option \<Rightarrow> string \<Rightarrow> headers \<Rightarrow> byte_sink \<Rightarrow> io_kind + byte_sink" where
  "write_chunked_request_inner bytes_per_sec waits body trailers snk =
     try_bind
       (if body \<noteq> [] then
          try_bind (sink_write (upper_hex (length body) @ CRLF) snk) (\<lambda>snk.
          try_bind (throttle_write (throttle_new bytes_per_sec waits) body snk) (\<lambda>(p, snk).
          sink_write CRLF snk))
        else Inr snk) (\<lambda>snk.
     try_bind (sink_write (''0'' @ CRLF) snk) (\<lambda>snk.
     try_bind (write_each (map trailer_bytes trailers) snk) (\<lambda>snk.
     sink_write CRLF snk)))"

lemma write_chunked_out:
  assumes "write_chunked_request_inner bytes_per_sec waits body ts snk = Inr snk'"
  shows "snk_out snk' = snk_out snk @ concat (map chunk_bytes (if body = [] then [] else [body])) @ last_chunk ts"
  using assms
  by (auto simp: write_chunked_request_inner_def chunk_bytes_def last_chunk_def try_bind_Inr
      dest!: sink_write_Inr throttle_write_out write_each_out split: if_splits)

lemma write_chunked_decodes:
  assumes "write_chunked_request_inner bytes_per_sec waits body ts snk = Inr snk'"
    and "length body \<le> USIZE_MAX" "list_all trailer_ok ts" "16 \<le> max_size" "trailers_length ts \<le> max_size"
    and "max_size + 2 \<le> USIZE_MAX" "length ts \<le> max_count"
  shows "\<exists>out. snk_out snk' = snk_out snk @ out \<and> (\<forall>rest close parts.
    decode_body max_size max_count (BodyChunked 0) \<lparr>str_bytes = out @ rest, str_close = close, str_parts = parts\<rparr> = Inr (body, ts, rest))"
proof -
  let ?ds = "if body = [] then [] else [body]"
  have "list_all (\<lambda>d. d \<noteq> [] \<and> length d \<le> USIZE_MAX) ?ds" "concat ?ds = body" using assms(2) by auto
  with decode_encoded [OF this(1) assms(3-7)] write_chunked_out [OF assms(1)] show ?thesis by auto
qed

text \<open>
  C17: A body with trailers that the proxy writes chunked is read back, by its own reader of
  request bodies, as that body with those trailers, whatever follows on the connection. The
  trailers are any that pass the validation and fit into the limits of the reader.
\<close>

theorem chunked_roundtrip:
  assumes "write_chunked_request_inner bytes_per_sec waits body ts \<lparr>snk_out = [], snk_room = room\<rparr> = Inr snk"
    and "length body \<le> USIZE_MAX" "list_all trailer_ok ts" "16 \<le> max_size" "trailers_length ts \<le> max_size"
    and "max_size + 2 \<le> USIZE_MAX" "length ts \<le> max_count"
  shows "\<exists>st'. read_request_body_all max_size max_count (body_reader Chunked)
      \<lparr>str_bytes = snk_out snk @ rest, str_close = close, str_parts = parts\<rparr> = Inr (body, ts, st') \<and> str_bytes st' = rest"
proof -
  let ?st = "\<lparr>str_bytes = snk_out snk @ rest, str_close = close, str_parts = parts\<rparr>"
  have "decode_body max_size max_count (BodyChunked 0) ?st = Inr (body, ts, rest)"
    using write_chunked_decodes [OF assms] by auto
  moreover have "map_sum id (map_prod id (map_prod id str_bytes)) (read_request_body_all max_size max_count (BodyChunked 0) ?st) =
      decode_body max_size max_count (BodyChunked 0) ?st"
    unfolding read_request_body_all_def
    using body_all_loop_decode [where s = "BodyChunked 0" and n = REQUEST_BODY_CHUNK_SIZE and body = "[]"]
    by (simp add: REQUEST_BODY_CHUNK_SIZE_def)
  ultimately show ?thesis
    by (cases "read_request_body_all max_size max_count (BodyChunked 0) ?st") (auto simp: body_reader_def)
qed

lemma chunked_roundtrip_witness:
  "\<exists>snk st'. write_chunked_request_inner (Some 4) None ''hello'' [(''X-Sum'', ''5'')] \<lparr>snk_out = [], snk_room = None\<rparr> = Inr snk \<and>
     read_request_body_all 64 2 (body_reader Chunked) \<lparr>str_bytes = snk_out snk @ ''GET'', str_close = None, str_parts = [1]\<rparr> =
       Inr (''hello'', [(''X-Sum'', ''5'')], st') \<and> str_bytes st' = ''GET''"
proof -
  let ?ts = "[(''X-Sum'', ''5'')]"
  have "case write_chunked_request_inner (Some 4) None ''hello'' ?ts \<lparr>snk_out = [], snk_room = None\<rparr> of Inr s \<Rightarrow> True | Inl _ \<Rightarrow> False"
    by code_simp
  then obtain snk where w: "write_chunked_request_inner (Some 4) None ''hello'' ?ts \<lparr>snk_out = [], snk_room = None\<rparr> = Inr snk"
    by (auto split: sum.splits)
  have "list_all trailer_ok ?ts \<and> trailers_length ?ts \<le> 64" by code_simp
  then have "\<exists>st'. read_request_body_all 64 2 (body_reader Chunked) \<lparr>str_bytes = snk_out snk @ ''GET'', str_close = None, str_parts = [1]\<rparr> =
       Inr (''hello'', ?ts, st') \<and> str_bytes st' = ''GET''"
    by (intro chunked_roundtrip [OF w]) (auto simp: USIZE_MAX_def)
  with w show ?thesis by blast
qed

end
