(* ===== verification/H2_Bridge.thy ===== *)
theory H2_Bridge
  imports Http1_Relay
begin

text \<open>
  Request bodies between HTTP/2 and HTTP/1: the reader that presents the frames of an HTTP/2
  client as a chunked body (\<open>h2_bridge/request.rs\<close>), and the relay of a body to an HTTP/2
  upstream (\<open>request_stream.rs\<close>, \<open>upstream_h2/request_body.rs\<close>). The main results: the reader
  is a byte stream whose bytes decode to the frames' data and trailers, and the relay sends
  upstream exactly the body, then its trailers, then closes the channel.
\<close>

section \<open>HTTP/2 frames as a chunked body\<close>

datatype h2_frame = H2Data string | H2Trailers headers

text \<open>
  The reader: what the channel will deliver (an error for a failed receive), the bytes at hand,
  how many of them were read, and whether the last chunk has been produced.
\<close>

record h2_request_reader =
  hr_receiver :: "(io_kind + h2_frame) list"
  hr_pending :: string
  hr_offset :: nat
  hr_finished :: bool

definition h2_reader_new :: "(io_kind + h2_frame) list \<Rightarrow> h2_request_reader" where
  "h2_reader_new frames = \<lparr>hr_receiver = frames, hr_pending = [], hr_offset = 0, hr_finished = False\<rparr>"

fun refill_loop :: "(io_kind + h2_frame) list \<Rightarrow> io_kind + string \<times> bool \<times> (io_kind + h2_frame) list" where
  "refill_loop [] = Inr (''0'' @ CRLF @ CRLF, True, [])"
| "refill_loop (Inl e # fs) = Inl e"
| "refill_loop (Inr (H2Data d) # fs) =
     (if d = [] then refill_loop fs else Inr (upper_hex (length d) @ CRLF @ d @ CRLF, False, fs))"
| "refill_loop (Inr (H2Trailers ts) # fs) = Inr (''0'' @ CRLF @ concat (map trailer_bytes ts) @ CRLF, True, fs)"

definition refill :: "h2_request_reader \<Rightarrow> io_kind + h2_request_reader" where
  "refill r =
     (if hr_finished r then Inr r
      else
        (case refill_loop (hr_receiver r) of
           Inl e \<Rightarrow> Inl e
         | Inr (pending, finished, fs) \<Rightarrow>
             Inr \<lparr>hr_receiver = fs, hr_pending = pending, hr_offset = 0, hr_finished = finished\<rparr>))"

definition h2_read :: "nat \<Rightarrow> h2_request_reader \<Rightarrow> io_kind + string \<times> h2_request_reader" where
  "h2_read n r =
     (if n = 0 then Inr ([], r)
      else
        try_bind (if hr_offset r = length (hr_pending r) then refill (r\<lparr>hr_pending := [], hr_offset := 0\<rparr>) else Inr r) (\<lambda>r.
        if hr_pending r = [] then Inr ([], r)
        else
          (let sz = min n (length (hr_pending r) - hr_offset r) in
           Inr (take sz (drop (hr_offset r) (hr_pending r)), r\<lparr>hr_offset := hr_offset r + sz\<rparr>))))"

text \<open>The bytes the frames of a channel stand for, and how the stream ends after them.\<close>

fun encode_frames :: "(io_kind + h2_frame) list \<Rightarrow> string \<times> io_kind option" where
  "encode_frames [] = (last_chunk [], None)"
| "encode_frames (Inl e # fs) = ([], Some e)"
| "encode_frames (Inr (H2Data d) # fs) =
     (if d = [] then encode_frames fs else (chunk_bytes d @ fst (encode_frames fs), snd (encode_frames fs)))"
| "encode_frames (Inr (H2Trailers ts) # fs) = (last_chunk ts, None)"

definition h2_stream :: "nat list \<Rightarrow> h2_request_reader \<Rightarrow> byte_stream" where
  "h2_stream parts r =
     \<lparr>str_bytes = drop (hr_offset r) (hr_pending r) @ (if hr_finished r then [] else fst (encode_frames (hr_receiver r))),
      str_close = (if hr_finished r then None else snd (encode_frames (hr_receiver r))),
      str_parts = parts\<rparr>"

definition h2_reader_wf :: "h2_request_reader \<Rightarrow> bool" where
  "h2_reader_wf r \<longleftrightarrow> hr_offset r \<le> length (hr_pending r)"

lemma refill_loop_encode:
  "case refill_loop fs of
     Inl e \<Rightarrow> encode_frames fs = ([], Some e)
   | Inr (pending, finished, fs') \<Rightarrow> pending \<noteq> [] \<and>
       encode_frames fs = (if finished then (pending, None) else (pending @ fst (encode_frames fs'), snd (encode_frames fs')))"
  by (induction fs rule: refill_loop.induct) (auto simp: last_chunk_def chunk_bytes_def split: sum.splits)

lemma h2_read_refines_aux:
  assumes "h2_reader_wf r" "hr_offset r < length (hr_pending r)" "n \<noteq> 0"
  shows "case h2_read n r of Inl e \<Rightarrow> False | Inr (d, r') \<Rightarrow> h2_reader_wf r' \<and>
    (\<forall>parts. read_some n (h2_stream ((length (hr_pending r) - hr_offset r) # parts) r) = Inr (d, h2_stream parts r'))"
proof -
  let ?m = "length (hr_pending r) - hr_offset r"
  let ?sz = "min n ?m"
  have sz: "?sz \<le> ?m" "0 < ?m" using assms by auto
  have read: "h2_read n r = Inr (take ?sz (drop (hr_offset r) (hr_pending r)), r\<lparr>hr_offset := hr_offset r + ?sz\<rparr>)"
    using assms by (auto simp: h2_read_def Let_def)
  have "read_some n (h2_stream (?m # parts) r) = Inr (take ?sz (drop (hr_offset r) (hr_pending r)), h2_stream parts (r\<lparr>hr_offset := hr_offset r + ?sz\<rparr>))" for parts
    using assms sz by (auto simp: read_some_def h2_stream_def part_size_def Let_def max_def add.commute)
  with read sz assms show ?thesis by (auto simp: h2_reader_wf_def)
qed

text \<open>
  C8: The reader of an HTTP/2 client's body is a byte stream: each of its reads is the read of
  the chunked text the frames stand for, with some size of the partial read, empty data frames
  and the borders between frames do not show, and a failed receive is the error the stream
  ends with.
\<close>

theorem h2_read_refines:
  assumes "h2_reader_wf r" "n \<noteq> 0"
  shows "case h2_read n r of
      Inl e \<Rightarrow> (\<forall>parts. read_some n (h2_stream parts r) = Inl e)
    | Inr (d, r') \<Rightarrow> h2_reader_wf r' \<and>
        (\<exists>parts'. \<forall>parts. read_some n (h2_stream (parts' @ parts) r) = Inr (d, h2_stream parts r'))"
proof (cases "hr_offset r = length (hr_pending r)")
  case False
  with assms have "hr_offset r < length (hr_pending r)" by (simp add: h2_reader_wf_def)
  from h2_read_refines_aux [OF assms(1) this assms(2)] show ?thesis
    by (auto split: sum.splits intro!: exI [of _ "[length (hr_pending r) - hr_offset r]"])
next
  case True
  let ?r = "r\<lparr>hr_pending := [], hr_offset := 0\<rparr>"
  have start: "h2_stream parts r = h2_stream parts ?r" for parts using True by (simp add: h2_stream_def)
  show ?thesis
  proof (cases "hr_finished r")
    case fin: True
    with True assms have "h2_read n r = Inr ([], ?r)" by (simp add: h2_read_def refill_def)
    moreover have "read_some n (h2_stream ([] @ parts) r) = Inr ([], h2_stream parts ?r)" for parts
      using fin True assms by (simp add: read_some_def h2_stream_def)
    ultimately show ?thesis by (auto simp: h2_reader_wf_def intro!: exI [of _ "[]"])
  next
    case run: False
    show ?thesis
    proof (cases "refill_loop (hr_receiver r)")
      case (Inl e)
      with refill_loop_encode [of "hr_receiver r"] run True assms show ?thesis
        by (simp add: h2_read_def refill_def read_some_def h2_stream_def)
    next
      case (Inr x)
      then obtain pending finished fs where x: "refill_loop (hr_receiver r) = Inr (pending, finished, fs)" by (cases x) auto
      let ?q = "\<lparr>hr_receiver = fs, hr_pending = pending, hr_offset = 0, hr_finished = finished\<rparr>"
      from refill_loop_encode [of "hr_receiver r"] x have p: "pending \<noteq> []"
        and e: "encode_frames (hr_receiver r) = (if finished then (pending, None) else (pending @ fst (encode_frames fs), snd (encode_frames fs)))"
        by auto
      have same: "h2_stream parts r = h2_stream parts ?q" for parts
        using e run True by (simp add: h2_stream_def)
      have "h2_read n r = h2_read n ?q"
        using x run True assms p by (simp add: h2_read_def refill_def)
      with h2_read_refines_aux [of ?q n] p assms show ?thesis
        unfolding same by (auto simp: h2_reader_wf_def split: sum.splits intro!: exI [of _ "[length pending]"])
    qed
  qed
qed

lemma h2_read_refines_witness:
  "h2_reader_wf (h2_reader_new [Inr (H2Data []), Inr (H2Data ''ab''), Inl TimedOut]) \<and>
   (\<exists>r'. h2_read 4 (h2_reader_new [Inr (H2Data []), Inr (H2Data ''ab''), Inl TimedOut]) = Inr (''2'' @ CRLF @ ''a'', r') \<and>
     (\<exists>parts'. \<forall>parts.
       read_some 4 (h2_stream (parts' @ parts) (h2_reader_new [Inr (H2Data []), Inr (H2Data ''ab''), Inl TimedOut])) =
         Inr (''2'' @ CRLF @ ''a'', h2_stream parts r')))"
proof -
  let ?r = "h2_reader_new [Inr (H2Data []), Inr (H2Data ''ab''), Inl TimedOut]"
  have wf: "h2_reader_wf ?r" by (simp add: h2_reader_wf_def h2_reader_new_def)
  have "upper_hex 2 = ''2''" by code_simp
  then have "\<exists>r'. h2_read 4 ?r = Inr (''2'' @ CRLF @ ''a'', r')"
    by (simp add: h2_read_def h2_reader_new_def refill_def CRLF_def numeral_2_eq_2)
  then obtain r' where r: "h2_read 4 ?r = Inr (''2'' @ CRLF @ ''a'', r')" by blast
  with h2_read_refines [OF wf, of 4] wf show ?thesis by auto
qed

text \<open>The data and the trailers a channel delivers, unless a receive fails.\<close>

fun frames_body :: "(io_kind + h2_frame) list \<Rightarrow> (string list \<times> headers) option" where
  "frames_body [] = Some ([], [])"
| "frames_body (Inl e # fs) = None"
| "frames_body (Inr (H2Data d) # fs) = map_option (\<lambda>(ds, ts). (if d = [] then ds else d # ds, ts)) (frames_body fs)"
| "frames_body (Inr (H2Trailers ts) # fs) = Some ([], ts)"

lemma encode_frames_body:
  "frames_body fs = Some (ds, ts) \<Longrightarrow> encode_frames fs = (relayed_bytes True ds ts, None) \<and> list_all (\<lambda>d. d \<noteq> []) ds"
  by (induction fs arbitrary: ds rule: frames_body.induct) (auto simp: relayed_bytes_def split: if_splits)

lemma h2_body_decodes:
  assumes "frames_body fs = Some (ds, ts)" "list_all (\<lambda>d. length d \<le> USIZE_MAX) ds" "list_all trailer_ok ts"
    and "16 \<le> max_size" "trailers_length ts \<le> max_size" "max_size + 2 \<le> USIZE_MAX" "length ts \<le> max_count"
  shows "decode_body max_size max_count (BodyChunked 0) (h2_stream parts (h2_reader_new fs)) = Inr (concat ds, ts, [])"
  using encode_frames_body [OF assms(1)] assms(2-)
  by (intro decode_encoded) (auto simp: h2_stream_def h2_reader_new_def relayed_bytes_def list_all_iff)

section \<open>The relay to an HTTP/2 upstream\<close>

text \<open>
  The channel to the task that sends the body: whether it is still open on this side, the frames
  sent (or the error that ended the body), and the outcome of the next sends: taken, closed by
  the receiver, or the deadline's error.
\<close>

record h2_upstream =
  hu_open :: bool
  hu_sent :: "(http_error + h2_frame) list"
  hu_outcomes :: "(io_kind + bool) list"

datatype h2_relay_error = H2ClientBody http_error | H2Send io_kind | H2Trailer http_error | H2TrailerMap | H2TimeoutReset io_kind

definition h2_send :: "http_error + h2_frame \<Rightarrow> h2_upstream \<Rightarrow> io_kind + bool \<times> h2_upstream" where
  "h2_send frame u =
     (if \<not> hu_open u then Inr (False, u)
      else
        (case hu_outcomes u of
           [] \<Rightarrow> Inr (True, u\<lparr>hu_sent := hu_sent u @ [frame]\<rparr>)
         | Inl e # outs \<Rightarrow> Inl e
         | Inr True # outs \<Rightarrow> Inr (True, u\<lparr>hu_sent := hu_sent u @ [frame], hu_outcomes := outs\<rparr>)
         | Inr False # outs \<Rightarrow> Inr (False, u\<lparr>hu_outcomes := outs\<rparr>)))"

text \<open>
  Trailers are validated with the limits of the connection and turned into a header map;
  \<open>map_ok\<close> says whether the \<open>http\<close> crate accepts the names and values.
\<close>

definition send_trailers ::
  "(headers \<Rightarrow> bool) \<Rightarrow> nat \<Rightarrow> nat \<Rightarrow> headers \<Rightarrow> h2_upstream \<Rightarrow> h2_relay_error + bool \<times> h2_upstream" where
  "send_trailers map_ok max_size max_count ts u =
     (if \<not> hu_open u then Inr (False, u)
      else
        (case validate_request_trailers max_size max_count ts of
           Inl e \<Rightarrow> Inl (H2Trailer e)
         | Inr _ \<Rightarrow> if \<not> map_ok ts then Inl H2TrailerMap else map_sum H2Send id (h2_send (Inr (H2Trailers ts)) u)))"

text \<open>The loop returns the channel also when it fails, because the caller closes it.\<close>

function h2_relay_loop ::
  "(headers \<Rightarrow> bool) \<Rightarrow> nat \<Rightarrow> nat \<Rightarrow> nat \<Rightarrow> stream_summary \<Rightarrow> body_state \<Rightarrow> byte_stream \<Rightarrow> h2_upstream \<Rightarrow>
    (h2_relay_error + stream_summary) \<times> h2_upstream" where
  "h2_relay_loop map_ok trace_limit max_size max_count sm s st u =
     (case body_read max_size max_count REQUEST_STREAM_CHUNK_SIZE s st of
        Inl e \<Rightarrow> (Inl (H2ClientBody e), case h2_send (Inl e) u of Inl _ \<Rightarrow> u | Inr (_, u') \<Rightarrow> u')
      | Inr (BodyData d, s', st') \<Rightarrow>
          (let sm' = observe_request_data trace_limit d sm in
           case h2_send (Inr (H2Data d)) u of
             Inl e \<Rightarrow> (Inl (H2Send e), u)
           | Inr (ok, u') \<Rightarrow>
               if \<not> ok then (Inr (sm'\<lparr>ss_completed := False\<rparr>), u')
               else h2_relay_loop map_ok trace_limit max_size max_count sm' s' st' u')
      | Inr (BodyEnd ts, s', st') \<Rightarrow>
          (let sm' = sm\<lparr>ss_trailers := ts\<rparr> in
           if ts = [] then (Inr sm', u)
           else
             (case send_trailers map_ok max_size max_count ts u of
                Inl e \<Rightarrow> (Inl e, u)
              | Inr (ok, u') \<Rightarrow> (Inr (if ok then sm' else sm'\<lparr>ss_completed := False\<rparr>), u'))))"
  by pat_completeness auto
termination
  by (relation "measure (\<lambda>(map_ok, trace_limit, max_size, max_count, sm, s, st, u). length (str_bytes st))")
     (auto dest: body_read_consumes)

declare h2_relay_loop.simps [simp del]

definition relay_request_body_to_h2 ::
  "(headers \<Rightarrow> bool) \<Rightarrow> nat \<Rightarrow> nat \<Rightarrow> nat \<Rightarrow> io_kind option \<Rightarrow> streaming_body \<Rightarrow> byte_stream \<Rightarrow> h2_upstream \<Rightarrow>
    (h2_relay_error + stream_summary) \<times> h2_upstream" where
  "relay_request_body_to_h2 map_ok trace_limit max_size max_count restored body st u =
     (let sm = summary_new (sb_exceeded body);
          (result, u) =
            (if sb_prefix body \<noteq> [] then
               (let sm = observe_request_data trace_limit (sb_prefix body) sm in
                case h2_send (Inr (H2Data (sb_prefix body))) u of
                  Inl e \<Rightarrow> (Inl (H2Send e), u)
                | Inr (ok, u) \<Rightarrow>
                    if \<not> ok then (Inr (sm\<lparr>ss_completed := False\<rparr>), u)
                    else h2_relay_loop map_ok trace_limit max_size max_count sm (sb_state body) st u)
             else h2_relay_loop map_ok trace_limit max_size max_count sm (sb_state body) st u)
      in (case result of
            Inl e \<Rightarrow> Inl e
          | Inr sm \<Rightarrow> (case restored of Some k \<Rightarrow> Inl (H2TimeoutReset k) | None \<Rightarrow> Inr sm),
          u\<lparr>hu_open := False\<rparr>))"

text \<open>What was sent upstream: the data, then the trailers if there are any.\<close>

definition sent_frames :: "string list \<Rightarrow> headers \<Rightarrow> (http_error + h2_frame) list" where
  "sent_frames ds ts = map (\<lambda>d. Inr (H2Data d)) ds @ (if ts = [] then [] else [Inr (H2Trailers ts)])"

lemma h2_send_True:
  "h2_send f u = Inr (True, u') \<Longrightarrow> hu_sent u' = hu_sent u @ [f] \<and> hu_open u' = hu_open u"
  by (auto simp: h2_send_def split: if_splits list.splits sum.splits bool.splits)

lemma send_trailers_True:
  "send_trailers map_ok max_size max_count ts u = Inr (True, u') \<Longrightarrow> hu_sent u' = hu_sent u @ [Inr (H2Trailers ts)]"
  by (cases "h2_send (Inr (H2Trailers ts)) u") (auto simp: send_trailers_def dest: h2_send_True split: if_splits sum.splits)

lemma h2_relay_loop_sent:
  assumes "h2_relay_loop map_ok trace_limit max_size max_count sm s st u = (Inr sm', u')"
    and "body_state_wf s" "ss_bytes sm \<le> U64_MAX" "ss_completed sm'"
  shows "\<exists>ds ts rest. decode_body max_size max_count s st = Inr (concat ds, ts, rest) \<and>
    hu_sent u' = hu_sent u @ sent_frames ds ts \<and>
    sm' = (observe_request_data trace_limit (concat ds) sm)\<lparr>ss_trailers := ts\<rparr>"
  using assms
proof (induction map_ok trace_limit max_size max_count sm s st u rule: h2_relay_loop.induct)
  case (1 map_ok trace_limit max_size max_count sm s st u)
  note step = h2_relay_loop.simps [of map_ok trace_limit max_size max_count sm s st u]
  have n: "0 < REQUEST_STREAM_CHUNK_SIZE" by (simp add: REQUEST_STREAM_CHUNK_SIZE_def)
  from "1.prems"(2) n show ?case
  proof (cases rule: body_read_cases [of s _ max_size max_count st])
    case (error e)
    with "1.prems"(1) show ?thesis by (simp add: step)
  next
    case (data d s1 st1)
    let ?sm = "observe_request_data trace_limit d sm"
    from "1.prems"(1,4) data obtain u1 where w: "h2_send (Inr (H2Data d)) u = Inr (True, u1)"
      and r: "h2_relay_loop map_ok trace_limit max_size max_count ?sm s1 st1 u1 = (Inr sm', u')"
      by (auto simp: step Let_def split: sum.splits if_splits)
    have sm: "ss_bytes ?sm \<le> U64_MAX" by (simp add: observe_request_data_def)
    from "1.IH" [OF data(1) refl refl refl refl w refl _ r data(3) sm "1.prems"(4)] obtain ds ts rest where
      "decode_body max_size max_count s1 st1 = Inr (concat ds, ts, rest)"
      "hu_sent u' = hu_sent u1 @ sent_frames ds ts"
      "sm' = (observe_request_data trace_limit (concat ds) ?sm)\<lparr>ss_trailers := ts\<rparr>"
      by auto
    with data(4) h2_send_True [OF w] show ?thesis
      by (intro exI [of _ "d # ds"] exI [of _ ts] exI [of _ rest]) (simp add: sent_frames_def observe_twice)
  next
    case (finished ts s1 st1)
    with "1.prems"(1,4) have "hu_sent u' = hu_sent u @ sent_frames [] ts" "sm' = sm\<lparr>ss_trailers := ts\<rparr>"
      by (auto simp: step Let_def sent_frames_def dest!: send_trailers_True split: if_splits sum.splits)
    with finished(2) "1.prems"(3) show ?thesis
      by (intro exI [of _ "[]"] exI [of _ ts] exI [of _ "str_bytes st1"]) (simp add: observe_nothing)
  qed
qed

text \<open>
  A completed relay to an HTTP/2 upstream sent exactly the client's body: data frames whose
  concatenation is what was buffered followed by the rest of the body, then the trailers if there
  are any, and no error; the summary describes that body. In every case the channel is closed.
\<close>

theorem h2_relay_preserves_body:
  assumes "relay_request_body_to_h2 map_ok trace_limit max_size max_count restored body st u = (result, u')"
    and "body_state_wf (sb_state body)"
  shows "\<not> hu_open u' \<and>
    (\<forall>sm. result = Inr sm \<and> ss_completed sm \<longrightarrow>
      (\<exists>ds ts rest next. concat ds = sb_prefix body @ rest \<and>
        decode_body max_size max_count (sb_state body) st = Inr (rest, ts, next) \<and>
        hu_sent u' = hu_sent u @ sent_frames ds ts \<and>
        ss_bytes sm = min (length (sb_prefix body @ rest)) U64_MAX \<and>
        ss_head sm = take trace_limit (sb_prefix body @ rest) \<and> ss_trailers sm = ts))"
proof (intro conjI allI impI)
  show "\<not> hu_open u'"
    using assms(1) by (auto simp: relay_request_body_to_h2_def Let_def split: prod.splits)
next
  fix sm
  assume ok: "result = Inr sm \<and> ss_completed sm"
  let ?sm = "summary_new (sb_exceeded body)" and ?p = "sb_prefix body"
  show "\<exists>ds ts rest next. concat ds = ?p @ rest \<and>
      decode_body max_size max_count (sb_state body) st = Inr (rest, ts, next) \<and>
      hu_sent u' = hu_sent u @ sent_frames ds ts \<and>
      ss_bytes sm = min (length (?p @ rest)) U64_MAX \<and>
      ss_head sm = take trace_limit (?p @ rest) \<and> ss_trailers sm = ts"
  proof (cases "?p = []")
    case True
    with assms(1) ok obtain u1 where "h2_relay_loop map_ok trace_limit max_size max_count ?sm (sb_state body) st u = (Inr sm, u1)"
      "hu_sent u' = hu_sent u1"
      by (auto simp: relay_request_body_to_h2_def Let_def split: prod.splits sum.splits option.splits)
    with h2_relay_loop_sent [OF this(1) assms(2)] ok True show ?thesis
      by (fastforce simp: summary_new_def observe_request_data_def)
  next
    case False
    let ?sm' = "observe_request_data trace_limit ?p ?sm"
    from False assms(1) ok obtain u0 u1 where w: "h2_send (Inr (H2Data ?p)) u = Inr (True, u0)"
      and r: "h2_relay_loop map_ok trace_limit max_size max_count ?sm' (sb_state body) st u0 = (Inr sm, u1)" "hu_sent u' = hu_sent u1"
      by (auto simp: relay_request_body_to_h2_def Let_def split: prod.splits sum.splits option.splits if_splits)
    have "ss_bytes ?sm' \<le> U64_MAX" by (simp add: observe_request_data_def)
    with h2_relay_loop_sent [OF r(1) assms(2)] ok obtain ds ts rest where
      "decode_body max_size max_count (sb_state body) st = Inr (concat ds, ts, rest)"
      "hu_sent u1 = hu_sent u0 @ sent_frames ds ts"
      "sm = (observe_request_data trace_limit (?p @ concat ds) ?sm)\<lparr>ss_trailers := ts\<rparr>"
      by (auto simp: observe_twice)
    with r(2) h2_send_True [OF w] show ?thesis
      by (intro exI [of _ "?p # ds"] exI [of _ ts] exI [of _ "concat ds"] exI [of _ rest])
         (auto simp: sent_frames_def observe_request_data_def summary_new_def)
  qed
qed

lemma h2_relay_preserves_body_witness:
  "\<exists>sm u'. relay_request_body_to_h2 (\<lambda>_. True) 3 64 4 None
       \<lparr>sb_prefix = ''he'', sb_state = BodyChunked 3, sb_framing = Chunked, sb_exceeded = True\<rparr>
       \<lparr>str_bytes = ''llo'' @ CRLF @ ''0'' @ CRLF @ ''A:b'' @ CRLF @ CRLF, str_close = None, str_parts = []\<rparr>
       \<lparr>hu_open = True, hu_sent = [], hu_outcomes = [Inr True]\<rparr> = (Inr sm, u') \<and>
     \<not> hu_open u' \<and> ss_completed sm \<and> hu_sent u' = [Inr (H2Data ''he''), Inr (H2Data ''llo''), Inr (H2Trailers [(''A'', ''b'')])]"
proof -
  let ?b = "\<lparr>sb_prefix = ''he'', sb_state = BodyChunked 3, sb_framing = Chunked, sb_exceeded = True\<rparr>"
  let ?st = "\<lparr>str_bytes = ''llo'' @ CRLF @ ''0'' @ CRLF @ ''A:b'' @ CRLF @ CRLF, str_close = None, str_parts = []\<rparr>"
  let ?u = "\<lparr>hu_open = True, hu_sent = [], hu_outcomes = [Inr True]\<rparr>"
  have "case relay_request_body_to_h2 (\<lambda>_. True) 3 64 4 None ?b ?st ?u of
      (Inr sm, u') \<Rightarrow> ss_completed sm \<and> hu_sent u' = [Inr (H2Data ''he''), Inr (H2Data ''llo''), Inr (H2Trailers [(''A'', ''b'')])]
    | _ \<Rightarrow> False"
    by code_simp
  then obtain sm u' where r: "relay_request_body_to_h2 (\<lambda>_. True) 3 64 4 None ?b ?st ?u = (Inr sm, u')" "ss_completed sm"
    "hu_sent u' = [Inr (H2Data ''he''), Inr (H2Data ''llo''), Inr (H2Trailers [(''A'', ''b'')])]"
    by (auto split: prod.splits sum.splits)
  from h2_relay_preserves_body [OF r(1)] r show ?thesis by auto
qed

end
