(* ===== verification/Host_Pool.thy ===== *)
theory Host_Pool
  imports Parse_Action
begin

text \<open>
  The round-robin pools of \<open>host(...)\<close> actions (\<open>action/host_pool.rs\<close>). The clones of a pool
  share an atomic cursor; each clone selects once and keeps its selection. Clones are numbered;
  a run is the sequence of clones whose address is asked for, in the order in which the cursor
  serves them. The main results: a clone always gives the same address, and however the calls
  interleave, the clones are spread over the addresses as evenly as possible.
\<close>

record host_pool =
  hp_addresses :: "rule_value list"
  hp_cursor :: nat
  hp_selection :: "nat \<Rightarrow> nat option"

definition pool_start :: "rule_value list \<Rightarrow> host_pool" where
  "pool_start addresses = \<lparr>hp_addresses = addresses, hp_cursor = 0, hp_selection = (\<lambda>_. None)\<rparr>"

text \<open>\<open>Clone\<close>: the clone shares addresses and cursor and has no selection.\<close>

definition pool_clone :: "nat \<Rightarrow> host_pool \<Rightarrow> host_pool" where
  "pool_clone k p = p\<lparr>hp_selection := (hp_selection p)(k := None)\<rparr>"

text \<open>\<open>fetch_add\<close> on a \<open>usize\<close> wraps around.\<close>

definition selected_address :: "nat \<Rightarrow> host_pool \<Rightarrow> rule_value \<times> host_pool" where
  "selected_address k p =
     (case hp_selection p k of
        Some index \<Rightarrow> (hp_addresses p ! (index mod length (hp_addresses p)), p)
      | None \<Rightarrow>
          (let index = hp_cursor p in
           (hp_addresses p ! (index mod length (hp_addresses p)),
            p\<lparr>hp_cursor := (index + 1) mod 2 ^ 64, hp_selection := (hp_selection p)(k \<mapsto> index)\<rparr>)))"

fun select_run :: "nat list \<Rightarrow> host_pool \<Rightarrow> rule_value list \<times> host_pool" where
  "select_run [] p = ([], p)"
| "select_run (k # ks) p =
     (let (v, p') = selected_address k p; (vs, p'') = select_run ks p' in (v # vs, p''))"

text \<open>The clones of a run in the order of their first call.\<close>

fun first_calls :: "nat list \<Rightarrow> nat list \<Rightarrow> nat list" where
  "first_calls seen [] = seen"
| "first_calls seen (k # ks) = first_calls (if k \<in> set seen then seen else seen @ [k]) ks"

text \<open>The turn of a clone: its position in that order.\<close>

definition turn :: "nat list \<Rightarrow> nat \<Rightarrow> nat" where
  "turn seen k = length (takeWhile (\<lambda>x. x \<noteq> k) seen)"

definition pool_inv :: "rule_value list \<Rightarrow> nat list \<Rightarrow> host_pool \<Rightarrow> bool" where
  "pool_inv addresses seen p \<longleftrightarrow>
     hp_addresses p = addresses \<and> distinct seen \<and> hp_cursor p = length seen mod 2 ^ 64 \<and>
     (\<forall>k. hp_selection p k = (if k \<in> set seen then Some (turn seen k) else None))"

lemma turn_append: "turn (seen @ t) k = (if k \<in> set seen then turn seen k else length seen + turn t k)"
  by (auto simp: turn_def takeWhile_append)

lemma turn_nth: "k \<in> set seen \<Longrightarrow> turn seen k < length seen \<and> seen ! turn seen k = k"
proof -
  assume k: "k \<in> set seen"
  have "takeWhile (\<lambda>x. x \<noteq> k) seen \<noteq> seen" using k by (metis (mono_tags, lifting) takeWhile_eq_all_conv)
  then have "length (takeWhile (\<lambda>x. x \<noteq> k) seen) < length seen"
    by (metis length_takeWhile_le order_le_imp_less_or_eq takeWhile_eq_take take_all order_refl)
  with nth_length_takeWhile [of "\<lambda>x. x \<noteq> k" seen] show ?thesis by (simp add: turn_def)
qed

lemma first_calls_prefix: "\<exists>t. first_calls seen ks = seen @ t"
proof (induction ks arbitrary: seen)
  case (Cons k ks)
  from Cons [of "if k \<in> set seen then seen else seen @ [k]"] show ?case by auto
qed simp

lemma first_calls_set: "set (first_calls seen ks) = set seen \<union> set ks"
  by (induction ks arbitrary: seen) auto

lemma select_step:
  assumes "pool_inv addresses seen p" "k \<in> set seen \<or> length seen < 2 ^ 64" "seen' = (if k \<in> set seen then seen else seen @ [k])"
  shows "pool_inv addresses seen' (snd (selected_address k p)) \<and>
    fst (selected_address k p) = addresses ! (turn seen' k mod length addresses)"
proof (cases "k \<in> set seen")
  case True
  with assms show ?thesis by (auto simp: pool_inv_def selected_address_def)
next
  case False
  then have t: "turn (seen @ [k]) k = length seen" by (simp add: turn_append) (simp add: turn_def)
  have c: "hp_cursor p = length seen" using assms False by (simp add: pool_inv_def)
  have sel: "hp_selection p k = None" using assms(1) False by (simp add: pool_inv_def)
  with False assms t c show ?thesis
    by (auto simp: selected_address_def Let_def pool_inv_def turn_append)
qed

lemma select_run_turns:
  assumes "pool_inv addresses seen p" "length (first_calls seen ks) \<le> 2 ^ 64"
  shows "fst (select_run ks p) = map (\<lambda>k. addresses ! (turn (first_calls seen ks) k mod length addresses)) ks \<and>
    pool_inv addresses (first_calls seen ks) (snd (select_run ks p))"
  using assms
proof (induction ks arbitrary: seen p)
  case (Cons k ks)
  let ?seen = "if k \<in> set seen then seen else seen @ [k]"
  obtain t where t: "first_calls ?seen ks = ?seen @ t" using first_calls_prefix by blast
  have "length ?seen \<le> 2 ^ 64" using Cons.prems(2) t by simp
  then have "k \<in> set seen \<or> length seen < 2 ^ 64" by (simp split: if_splits)
  obtain v p' where v: "selected_address k p = (v, p')" by fastforce
  from select_step [OF Cons.prems(1) \<open>k \<in> set seen \<or> _\<close> refl] v
  have step: "pool_inv addresses ?seen p'" "v = addresses ! (turn ?seen k mod length addresses)" by simp_all
  have IH: "fst (select_run ks p') = map (\<lambda>k. addresses ! (turn (first_calls ?seen ks) k mod length addresses)) ks"
    "pool_inv addresses (first_calls ?seen ks) (snd (select_run ks p'))"
    using Cons.IH [OF step(1)] Cons.prems(2) by simp_all
  have "turn (first_calls ?seen ks) k = turn ?seen k" by (simp add: t turn_append)
  with step(2) IH v show ?case by (simp add: Let_def case_prod_unfold)
qed simp

section \<open>Even distribution\<close>

lemma mod_distance: "i < n \<Longrightarrow> (m + (n - i)) mod n = 0 \<longleftrightarrow> m mod n = (i :: nat)"
proof -
  assume i: "i < n"
  let ?r = "m mod n"
  have r: "?r < n" using i by simp
  have "(m + (n - i)) mod n = (?r + (n - i)) mod n" by (simp add: mod_add_left_eq)
  also have "\<dots> = (if i \<le> ?r then ?r - i else ?r + (n - i))"
  proof (cases "i \<le> ?r")
    case True
    then have "?r + (n - i) = (?r - i) + n" using i by simp
    then have "(?r + (n - i)) mod n = (?r - i) mod n" by (metis mod_add_self2)
    with True r show ?thesis by simp
  next
    case False
    then have "?r + (n - i) < n" using i by simp
    with False show ?thesis by simp
  qed
  finally show ?thesis using i r by (auto split: if_splits)
qed

lemma count_mod: "i < n \<Longrightarrow> card {j. j < m \<and> j mod n = i} = (m + (n - 1 - i)) div n"
proof (induction m)
  case 0
  then show ?case by simp
next
  case (Suc m)
  have eq: "{j. j < Suc m \<and> j mod n = i} = (if m mod n = i then insert m {j. j < m \<and> j mod n = i} else {j. j < m \<and> j mod n = i})"
    by (auto simp: less_Suc_eq)
  have "Suc (m + (n - 1 - i)) = m + (n - i)" using Suc.prems by simp
  then have "Suc (m + (n - 1 - i)) mod n = 0 \<longleftrightarrow> m mod n = i" using mod_distance [OF Suc.prems] by presburger
  with Suc show ?case by (simp add: eq div_Suc)
qed

lemma turn_bij:
  assumes "distinct seen"
  shows "bij_betw (turn seen) (set seen) {..<length seen}"
proof (rule bij_betw_byWitness [where f' = "\<lambda>i. seen ! i"])
  show "\<forall>k\<in>set seen. seen ! turn seen k = k" using turn_nth by blast
  show "\<forall>i\<in>{..<length seen}. turn seen (seen ! i) = i"
    using turn_nth assms by (metis lessThan_iff nth_eq_iff_index_eq nth_mem)
  show "turn seen ` set seen \<subseteq> {..<length seen}" using turn_nth by auto
  show "(!) seen ` {..<length seen} \<subseteq> set seen" by auto
qed

text \<open>
  C22: However the clones of a host pool ask for their addresses, in any order and any number of
  times: every call of one clone gives the same address, and of the \<open>m\<close> clones that asked, the
  address at position \<open>i\<close> of the \<open>n\<close> addresses serves exactly \<open>\<lceil>(m - i) / n\<rceil>\<close>, so that no two
  addresses differ by more than one clone.
\<close>

theorem host_pool_round_robin:
  assumes "card (set ks) \<le> 2 ^ 64" "addresses \<noteq> []"
  shows "fst (select_run ks (pool_start addresses)) =
      map (\<lambda>k. addresses ! (turn (first_calls [] ks) k mod length addresses)) ks \<and>
    (\<forall>i<length addresses. card {k \<in> set ks. turn (first_calls [] ks) k mod length addresses = i} =
      (card (set ks) + (length addresses - 1 - i)) div length addresses)"
proof
  let ?seen = "first_calls [] ks" and ?n = "length addresses"
  have start: "pool_inv addresses [] (pool_start addresses)" by (simp add: pool_inv_def pool_start_def)
  have "distinct s \<Longrightarrow> distinct (first_calls s ks)" for s by (induction ks arbitrary: s) auto
  then have d: "distinct ?seen" by simp
  then have len: "length ?seen = card (set ks)" by (metis distinct_card first_calls_set list.set(1) sup_bot_left)
  show "fst (select_run ks (pool_start addresses)) = map (\<lambda>k. addresses ! (turn ?seen k mod ?n)) ks"
    using select_run_turns [OF start] len assms(1) by simp
  show "\<forall>i<?n. card {k \<in> set ks. turn ?seen k mod ?n = i} = (card (set ks) + (?n - 1 - i)) div ?n"
  proof (intro allI impI)
    fix i
    assume i: "i < ?n"
    have s: "set ?seen = set ks" by (simp add: first_calls_set)
    have "bij_betw (turn ?seen) {k \<in> set ks. turn ?seen k mod ?n = i} {j. j < card (set ks) \<and> j mod ?n = i}"
      using turn_bij [OF d] unfolding s len bij_betw_def
      by (auto intro: inj_on_subset simp: image_iff)
    then show "card {k \<in> set ks. turn ?seen k mod ?n = i} = (card (set ks) + (?n - 1 - i)) div ?n"
      using count_mod [OF i] by (simp add: bij_betw_same_card)
  qed
qed

lemma host_pool_round_robin_witness:
  "card (set [7, 3, 7, 5 :: nat]) \<le> 2 ^ 64 \<and>
   fst (select_run [7, 3, 7, 5] (pool_start [Inline ''a'', Inline ''b''])) = [Inline ''a'', Inline ''b'', Inline ''a'', Inline ''a'']"
proof -
  have "card (set [7, 3, 7, 5 :: nat]) \<le> 4" by (rule order_trans [OF card_length]) simp
  then have c: "card (set [7, 3, 7, 5 :: nat]) \<le> 2 ^ 64" by (rule order_trans) simp
  have "map (\<lambda>k. [Inline ''a'', Inline ''b''] ! (turn (first_calls [] [7, 3, 7, 5]) k mod length [Inline ''a'', Inline ''b''])) [7, 3, 7, 5] =
      [Inline ''a'', Inline ''b'', Inline ''a'', Inline ''a'']"
    by code_simp
  with host_pool_round_robin [OF c, of "[Inline ''a'', Inline ''b'']"] c show ?thesis by simp
qed

end
