(* ===== verification/Conn_Pool.thy ===== *)
theory Conn_Pool
  imports Rust_Str
begin

text \<open>
  Admission to the upstream connection pools (\<open>upstream_pool.rs\<close>), the HTTP/2 connection pool
  (\<open>upstream_h2/pool.rs\<close>) and the per-thread pool of the HTTP/1 fast path
  (\<open>h1_forward/pool.rs\<close>). Threads are numbered; a thread that waits for a slot releases the
  lock and sleeps until it is notified or its time is over. The main results: however threads
  interleave, the activity of a key is the number of leases held and within the limit; with
  \<open>notify_all\<close> a thread that sleeps while its slot is free is woken by a thread that is about to
  notify, with \<open>notify_one\<close> it can be left asleep with nobody about to wake it; and the pools keep
  their capacity.
\<close>

section \<open>Activity per key\<close>

type_synonym keyed_activity = "string \<Rightarrow> nat option"

definition active_for :: "keyed_activity \<Rightarrow> string \<Rightarrow> nat" where
  "active_for a key = (case a key of Some n \<Rightarrow> n | None \<Rightarrow> 0)"

definition reserve :: "string \<Rightarrow> keyed_activity \<Rightarrow> keyed_activity" where
  "reserve key a = a(key \<mapsto> active_for a key + 1)"

definition release :: "string \<Rightarrow> keyed_activity \<Rightarrow> keyed_activity" where
  "release key a =
     (case a key of
        None \<Rightarrow> a
      | Some active \<Rightarrow> if active - 1 = 0 then a(key := None) else a(key \<mapsto> active - 1))"

text \<open>What the admission loop relies on: the trait \<open>ActivityStore\<close>.\<close>

locale activity_store =
  fixes active :: "'s \<Rightarrow> string \<Rightarrow> nat" and add :: "string \<Rightarrow> 's \<Rightarrow> 's" and sub :: "string \<Rightarrow> 's \<Rightarrow> 's"
  assumes active_add: "active (add k s) k' = (if k' = k then active s k + 1 else active s k')"
    and active_sub: "active (sub k s) k' = (if k' = k then active s k - 1 else active s k')"
begin

lemma add_sub: "active (sub k (add k s)) k' = active s k'"
  by (simp add: active_add active_sub)

lemma add_within: "active s k < limit \<Longrightarrow> active s k' \<le> limit \<Longrightarrow> active (add k s) k' \<le> limit"
  by (simp add: active_add)

lemma counted_add:
  "(\<And>k. active s k = f k) \<Longrightarrow> active (add k s) k' = (f(k := f k + 1)) k'"
  by (simp add: active_add)

lemma counted_sub:
  "(\<And>k. active s k = f k) \<Longrightarrow> active (sub k s) k' = (f(k := f k - 1)) k'"
  by (simp add: active_sub)

end

interpretation keyed: activity_store active_for reserve release
  by unfold_locales (auto simp: active_for_def reserve_def release_def split: option.splits)

section \<open>Admission\<close>

datatype acquire_error = PoolConfig | PoolWaitTimeout

text \<open>
  What a thread that asks for a slot is doing. Dropping a lease takes two steps: the slot is
  released under the lock, and the condition variable is notified after the lock was given up; in
  between the thread is \<open>Notifying\<close>.
\<close>

datatype pool_phase = Outside | Sleeping string | Notified string | Holding string | Notifying

text \<open>
  The decision of one pass of the loop of \<open>acquire_slot\<close> under the lock: a slot is taken, or the
  thread sleeps, or its time is over. \<open>timed_out\<close> is the result of the wait before the pass
  (\<open>False\<close> for the first), \<open>time_left\<close> whether the timeout has not passed.
\<close>

datatype 's pass_result = Granted 's | Wait | GiveUp

definition acquire_pass ::
  "('s \<Rightarrow> string \<Rightarrow> nat) \<Rightarrow> (string \<Rightarrow> 's \<Rightarrow> 's) \<Rightarrow> string \<Rightarrow> nat \<Rightarrow> bool \<Rightarrow> bool \<Rightarrow> 's \<Rightarrow> 's pass_result" where
  "acquire_pass active add key limit timed_out time_left s =
     (if timed_out \<and> limit \<le> active s key then GiveUp
      else if active s key < limit then Granted (add key s)
      else if time_left then Wait else GiveUp)"

definition acquire_check :: "nat \<Rightarrow> nat \<Rightarrow> acquire_error + unit" where
  "acquire_check limit timeout = (if limit = 0 \<or> timeout = 0 then Inl PoolConfig else Inr ())"

record pool_world =
  pw_activity :: keyed_activity
  pw_phase :: "nat \<Rightarrow> pool_phase"

datatype notify = NotifyAll | NotifyOne

definition after_pass :: "nat \<Rightarrow> string \<Rightarrow> keyed_activity pass_result \<Rightarrow> pool_world \<Rightarrow> pool_world" where
  "after_pass t key r w =
     (case r of
        Granted a \<Rightarrow> w\<lparr>pw_activity := a, pw_phase := (pw_phase w)(t := Holding key)\<rparr>
      | Wait \<Rightarrow> w\<lparr>pw_phase := (pw_phase w)(t := Sleeping key)\<rparr>
      | GiveUp \<Rightarrow> w\<lparr>pw_phase := (pw_phase w)(t := Outside)\<rparr>)"

definition wake_all :: "(nat \<Rightarrow> pool_phase) \<Rightarrow> nat \<Rightarrow> pool_phase" where
  "wake_all ph t = (case ph t of Sleeping k \<Rightarrow> Notified k | p \<Rightarrow> p)"

definition release_slot :: "nat \<Rightarrow> string \<Rightarrow> pool_world \<Rightarrow> pool_world" where
  "release_slot t key w = \<lparr>pw_activity = release key (pw_activity w), pw_phase = (pw_phase w)(t := Notifying)\<rparr>"

text \<open>
  The steps: a thread asks for a slot; a thread that was notified, wakes spuriously or whose wait
  timed out makes its next pass; a lease is dropped under the lock; a thread that dropped its lease
  notifies the condition variable. With \<open>notify_one\<close> the system picks one sleeping thread, if
  there is one.
\<close>

inductive pool_step :: "notify \<Rightarrow> nat \<Rightarrow> pool_world \<Rightarrow> pool_world \<Rightarrow> bool" for n limit where
  ask: "pw_phase w t = Outside \<Longrightarrow>
    pool_step n limit w (after_pass t key (acquire_pass active_for reserve key limit False time_left (pw_activity w)) w)"
| woken: "pw_phase w t = Notified key \<or> pw_phase w t = Sleeping key \<Longrightarrow>
    pool_step n limit w (after_pass t key (acquire_pass active_for reserve key limit False time_left (pw_activity w)) w)"
| timeout: "pw_phase w t = Sleeping key \<Longrightarrow>
    pool_step n limit w (after_pass t key (acquire_pass active_for reserve key limit True time_left (pw_activity w)) w)"
| released: "pw_phase w t = Holding key \<Longrightarrow> pool_step n limit w (release_slot t key w)"
| notify_all: "n = NotifyAll \<Longrightarrow> pw_phase w t = Notifying \<Longrightarrow>
    pool_step n limit w (w\<lparr>pw_phase := wake_all ((pw_phase w)(t := Outside))\<rparr>)"
| notify_one: "n = NotifyOne \<Longrightarrow> pw_phase w t = Notifying \<Longrightarrow> pw_phase w u = Sleeping key' \<Longrightarrow>
    pool_step n limit w (w\<lparr>pw_phase := (pw_phase w)(t := Outside, u := Notified key')\<rparr>)"
| notify_none: "n = NotifyOne \<Longrightarrow> pw_phase w t = Notifying \<Longrightarrow> (\<And>u k. pw_phase w u \<noteq> Sleeping k) \<Longrightarrow>
    pool_step n limit w (w\<lparr>pw_phase := (pw_phase w)(t := Outside)\<rparr>)"

definition pool_init :: pool_world where
  "pool_init = \<lparr>pw_activity = (\<lambda>_. None), pw_phase = (\<lambda>_. Outside)\<rparr>"

inductive pool_reach :: "notify \<Rightarrow> nat \<Rightarrow> pool_world \<Rightarrow> bool" for n limit where
  start: "pool_reach n limit pool_init"
| step: "pool_reach n limit w \<Longrightarrow> pool_step n limit w w' \<Longrightarrow> pool_reach n limit w'"

definition holders :: "pool_world \<Rightarrow> string \<Rightarrow> nat set" where
  "holders w key = {t. pw_phase w t = Holding key}"

definition pool_ok :: "nat \<Rightarrow> pool_world \<Rightarrow> bool" where
  "pool_ok limit w \<longleftrightarrow>
     (\<forall>k. finite (holders w k) \<and> active_for (pw_activity w) k = card (holders w k) \<and> card (holders w k) \<le> limit)"

lemma holders_update:
  "holders (w\<lparr>pw_phase := (pw_phase w)(t := p)\<rparr>) k = (if p = Holding k then insert t (holders w k) else holders w k - {t})"
  by (auto simp: holders_def)

lemma holders_activity: "holders (w\<lparr>pw_activity := a\<rparr>) k = holders w k"
  by (simp add: holders_def)

lemma pass_ok:
  assumes "pool_ok limit w" "\<And>k. t \<notin> holders w k"
  shows "pool_ok limit (after_pass t key (acquire_pass active_for reserve key limit timed_out time_left (pw_activity w)) w)"
proof (cases "active_for (pw_activity w) key < limit")
  case True
  let ?w = "w\<lparr>pw_activity := reserve key (pw_activity w), pw_phase := (pw_phase w)(t := Holding key)\<rparr>"
  have "acquire_pass active_for reserve key limit timed_out time_left (pw_activity w) = Granted (reserve key (pw_activity w))"
    using True by (simp add: acquire_pass_def)
  then have w: "after_pass t key (acquire_pass active_for reserve key limit timed_out time_left (pw_activity w)) w = ?w"
    by (simp add: after_pass_def)
  have h: "holders ?w k = (if k = key then insert t (holders w k) else holders w k)" for k
    using assms(2) by (auto simp: holders_def)
  show ?thesis
    unfolding w pool_ok_def h using assms True by (auto simp: pool_ok_def keyed.active_add)
next
  case False
  then have "acquire_pass active_for reserve key limit timed_out time_left (pw_activity w) \<in> {Wait, GiveUp}"
    by (auto simp: acquire_pass_def)
  then obtain p where p: "p = Sleeping key \<or> p = Outside"
    and w: "after_pass t key (acquire_pass active_for reserve key limit timed_out time_left (pw_activity w)) w = w\<lparr>pw_phase := (pw_phase w)(t := p)\<rparr>"
    using that [of "Sleeping key"] that [of Outside] by (auto simp: after_pass_def)
  have "holders (w\<lparr>pw_phase := (pw_phase w)(t := p)\<rparr>) k = holders w k" for k
    using p assms(2) by (auto simp: holders_update)
  with assms(1) show ?thesis unfolding w by (simp add: pool_ok_def)
qed

lemma release_ok:
  assumes "pool_ok limit w" "pw_phase w t = Holding key"
  shows "pool_ok limit (release_slot t key w)"
proof -
  have h: "holders (release_slot t key w) k = (if k = key then holders w k - {t} else holders w k)" for k
    using assms(2) by (auto simp: holders_def release_slot_def)
  have t: "t \<in> holders w key" using assms(2) by (simp add: holders_def)
  show ?thesis
    unfolding pool_ok_def h using assms(1) t
    by (auto simp: release_slot_def pool_ok_def keyed.active_sub card_Diff_singleton intro: le_trans [OF diff_le_self])
qed

lemma notify_ok:
  assumes "pool_ok limit w" "\<And>u k. (ph u = Holding k) \<longleftrightarrow> pw_phase w u = Holding k"
  shows "pool_ok limit (w\<lparr>pw_phase := ph\<rparr>)"
  using assms by (simp add: pool_ok_def holders_def)

lemma pool_step_ok: "pool_step n limit w w' \<Longrightarrow> pool_ok limit w \<Longrightarrow> pool_ok limit w'"
proof (induction rule: pool_step.induct)
  case (notify_all w t)
  then show ?case by (intro notify_ok) (auto simp: wake_all_def split: pool_phase.splits)
next
  case (notify_one w t u key')
  then show ?case by (intro notify_ok) auto
next
  case (notify_none w t)
  then show ?case by (intro notify_ok) auto
qed (auto intro!: pass_ok release_ok simp: holders_def)

text \<open>
  C20: However threads ask, wait, time out and drop their leases, and whichever way the
  condition variable is notified: the activity recorded for a key is exactly the number of
  leases held for it, and never exceeds the limit.
\<close>

theorem pool_within_limit:
  assumes "pool_reach n limit w"
  shows "active_for (pw_activity w) key = card (holders w key) \<and> card (holders w key) \<le> limit"
proof -
  from assms have "pool_ok limit w"
  proof (induction rule: pool_reach.induct)
    case start
    show ?case by (simp add: pool_ok_def pool_init_def holders_def active_for_def)
  qed (rule pool_step_ok)
  then show ?thesis by (simp add: pool_ok_def)
qed

text \<open>A run in which two leases of one key are held, as the limit allows.\<close>

lemma two_leases:
  "pool_reach n 2 \<lparr>pw_activity = [''a'' \<mapsto> 2], pw_phase = (\<lambda>_. Outside)(0 := Holding ''a'', 1 := Holding ''a'')\<rparr>"
proof -
  let ?w1 = "\<lparr>pw_activity = [''a'' \<mapsto> 1], pw_phase = (\<lambda>_. Outside)(0 := Holding ''a'')\<rparr>"
  have "pool_step n 2 pool_init (after_pass 0 ''a'' (acquire_pass active_for reserve ''a'' 2 False True (pw_activity pool_init)) pool_init)"
    by (rule ask) (simp add: pool_init_def)
  then have 1: "pool_step n 2 pool_init ?w1"
    by (simp add: after_pass_def acquire_pass_def pool_init_def active_for_def reserve_def)
  have "pool_step n 2 ?w1 (after_pass 1 ''a'' (acquire_pass active_for reserve ''a'' 2 False True (pw_activity ?w1)) ?w1)"
    by (rule ask) simp
  then have 2: "pool_step n 2 ?w1 \<lparr>pw_activity = [''a'' \<mapsto> 2], pw_phase = (\<lambda>_. Outside)(0 := Holding ''a'', 1 := Holding ''a'')\<rparr>"
    by (simp add: after_pass_def acquire_pass_def active_for_def reserve_def numeral_2_eq_2)
  show ?thesis by (rule pool_reach.step [OF pool_reach.step [OF pool_reach.start 1] 2])
qed

lemma pool_within_limit_witness:
  "\<exists>w. pool_reach NotifyAll 2 w \<and> active_for (pw_activity w) ''a'' = 2 \<and> card (holders w ''a'') \<le> 2"
proof -
  let ?w = "\<lparr>pw_activity = [''a'' \<mapsto> 2], pw_phase = (\<lambda>_. Outside)(0 := Holding ''a'', 1 := Holding ''a'')\<rparr>"
  have "active_for (pw_activity ?w) ''a'' = 2" by (simp add: active_for_def)
  with pool_within_limit [OF two_leases [of NotifyAll], of "''a''"] two_leases [of NotifyAll] show ?thesis by blast
qed

section \<open>Wake-ups\<close>

text \<open>
  A run of the pool: the states at the instants \<open>0, 1, \<dots>\<close>, each by a step from the one before, or
  the same. A run is fair to the notifiers when each thread that dropped its lease notifies at some
  time: no lock or other thread can hold it up between the two.
\<close>

definition pool_run :: "notify \<Rightarrow> nat \<Rightarrow> (nat \<Rightarrow> pool_world) \<Rightarrow> bool" where
  "pool_run n limit \<sigma> \<longleftrightarrow>
     \<sigma> 0 = pool_init \<and> (\<forall>i. pool_step n limit (\<sigma> i) (\<sigma> (Suc i)) \<or> \<sigma> (Suc i) = \<sigma> i)"

definition notifiers_fair :: "(nat \<Rightarrow> pool_world) \<Rightarrow> bool" where
  "notifiers_fair \<sigma> \<longleftrightarrow> (\<forall>i u. pw_phase (\<sigma> i) u = Notifying \<longrightarrow> (\<exists>j\<ge>i. pw_phase (\<sigma> j) u \<noteq> Notifying))"

definition free_slot_announced :: "nat \<Rightarrow> pool_world \<Rightarrow> bool" where
  "free_slot_announced limit w \<longleftrightarrow>
     (\<forall>t k. pw_phase w t = Sleeping k \<longrightarrow> active_for (pw_activity w) k < limit \<longrightarrow> (\<exists>u. pw_phase w u = Notifying))"

lemma pool_run_reach: "pool_run n limit \<sigma> \<Longrightarrow> pool_reach n limit (\<sigma> i)"
proof (induction i)
  case (Suc i)
  then show ?case by (metis pool_run_def pool_reach.step)
qed (simp add: pool_run_def pool_reach.start)

lemma after_pass_notifying:
  "pw_phase w t \<noteq> Notifying \<Longrightarrow> (pw_phase (after_pass t key r w) u = Notifying) \<longleftrightarrow> (pw_phase w u = Notifying)"
  by (auto simp: after_pass_def split: pass_result.split)

lemma pass_announced:
  assumes "free_slot_announced limit w" "pw_phase w t \<noteq> Notifying"
  shows "free_slot_announced limit (after_pass t key (acquire_pass active_for reserve key limit timed_out time_left (pw_activity w)) w)"
  unfolding free_slot_announced_def after_pass_notifying [OF assms(2)] using assms
  by (auto simp: free_slot_announced_def after_pass_def acquire_pass_def keyed.active_add split: if_splits dest: Suc_lessD)

lemma step_announced:
  assumes "pool_step NotifyAll limit w w'" "free_slot_announced limit w"
  shows "free_slot_announced limit w'"
  using assms(1)
proof (cases rule: pool_step.cases)
  case (released t key)
  then have "pw_phase w' t = Notifying" by (simp add: release_slot_def)
  then show ?thesis by (auto simp: free_slot_announced_def)
next
  case (notify_all t)
  then show ?thesis by (auto simp: free_slot_announced_def wake_all_def split: pool_phase.splits)
qed (use assms(2) in \<open>auto intro: pass_announced\<close>)

lemma reach_announced: "pool_reach NotifyAll limit w \<Longrightarrow> free_slot_announced limit w"
proof (induction rule: pool_reach.induct)
  case start
  show ?case by (simp add: free_slot_announced_def pool_init_def)
qed (rule step_announced)

text \<open>A thread leaves the phase \<open>Notifying\<close> only by notifying, and then nobody sleeps.\<close>

lemma notified_all:
  assumes "pool_step NotifyAll limit w w'" "pw_phase w u = Notifying" "pw_phase w' u \<noteq> Notifying"
  shows "pw_phase w' t \<noteq> Sleeping k"
  using assms(1)
proof (cases rule: pool_step.cases)
  case (notify_all t)
  then show ?thesis by (auto simp: wake_all_def split: pool_phase.splits)
next
  case (released t key)
  then show ?thesis using assms(2,3) by (auto simp: release_slot_def split: if_splits)
qed (use assms(2,3) after_pass_notifying in auto)

lemma notifier_wakes:
  assumes "pool_run NotifyAll limit \<sigma>" "pw_phase (\<sigma> i) u = Notifying" "i \<le> j" "pw_phase (\<sigma> j) u \<noteq> Notifying"
  shows "\<exists>j>i. \<forall>t k. pw_phase (\<sigma> j) t \<noteq> Sleeping k"
  using assms(3,4)
proof (induction j rule: dec_induct)
  case base
  with assms(2) show ?case by simp
next
  case (step j)
  show ?case
  proof (cases "pw_phase (\<sigma> j) u = Notifying")
    case True
    then have "pool_step NotifyAll limit (\<sigma> j) (\<sigma> (Suc j))" using assms(1) step.prems by (metis pool_run_def)
    from notified_all [OF this True step.prems] show ?thesis using step.hyps(1) by (intro exI [of _ "Suc j"]) simp
  qed (rule step.IH)
qed

text \<open>
  C21: With \<open>notify_all\<close>, as the HTTP/2 pool notifies, no thread is left sleeping for a slot that
  is free. In every run of the pool, however threads interleave: when a thread sleeps for a key
  with a free slot, another thread has released a slot and is about to notify; and when the
  threads that released a slot all come to notify, the sleeping thread is awake at a later time
  of the run.
\<close>

theorem notify_all_never_strands:
  assumes "pool_run NotifyAll limit \<sigma>" "notifiers_fair \<sigma>"
    and "pw_phase (\<sigma> i) t = Sleeping key" "active_for (pw_activity (\<sigma> i)) key < limit"
  shows "(\<exists>u. pw_phase (\<sigma> i) u = Notifying) \<and> (\<exists>j>i. pw_phase (\<sigma> j) t \<noteq> Sleeping key)"
proof -
  obtain u where u: "pw_phase (\<sigma> i) u = Notifying"
    using reach_announced [OF pool_run_reach [OF assms(1)], of i] assms(3,4) by (auto simp: free_slot_announced_def)
  with assms(2) obtain j where "i \<le> j" "pw_phase (\<sigma> j) u \<noteq> Notifying" by (auto simp: notifiers_fair_def)
  with notifier_wakes [OF assms(1) u] u show ?thesis by blast
qed

text \<open>Two keys with one slot each: both taken, one thread asleep for each.\<close>

lemma both_keys_awaited:
  "pool_reach n 1 \<lparr>pw_activity = [''a'' \<mapsto> 1, ''b'' \<mapsto> 1],
     pw_phase = (\<lambda>_. Outside)(0 := Holding ''a'', 1 := Holding ''b'', 2 := Sleeping ''a'', 3 := Sleeping ''b'')\<rparr>"
proof -
  let ?ask = "\<lambda>t key w. after_pass t key (acquire_pass active_for reserve key 1 False True (pw_activity w)) w"
  define w1 where "w1 = ?ask 0 ''a'' pool_init"
  define w2 where "w2 = ?ask 1 ''b'' w1"
  define w3 where "w3 = ?ask 2 ''a'' w2"
  define w4 where "w4 = ?ask 3 ''b'' w3"
  have 1: "w1 = \<lparr>pw_activity = [''a'' \<mapsto> 1], pw_phase = (\<lambda>_. Outside)(0 := Holding ''a'')\<rparr>"
    by (simp add: w1_def after_pass_def acquire_pass_def pool_init_def active_for_def reserve_def)
  have 2: "w2 = \<lparr>pw_activity = [''a'' \<mapsto> 1, ''b'' \<mapsto> 1], pw_phase = (\<lambda>_. Outside)(0 := Holding ''a'', 1 := Holding ''b'')\<rparr>"
    by (simp add: w2_def 1 after_pass_def acquire_pass_def active_for_def reserve_def)
  have 3: "w3 = \<lparr>pw_activity = [''a'' \<mapsto> 1, ''b'' \<mapsto> 1], pw_phase = (\<lambda>_. Outside)(0 := Holding ''a'', 1 := Holding ''b'', 2 := Sleeping ''a'')\<rparr>"
    by (simp add: w3_def 2 after_pass_def acquire_pass_def active_for_def)
  have 4: "w4 = \<lparr>pw_activity = [''a'' \<mapsto> 1, ''b'' \<mapsto> 1],
      pw_phase = (\<lambda>_. Outside)(0 := Holding ''a'', 1 := Holding ''b'', 2 := Sleeping ''a'', 3 := Sleeping ''b'')\<rparr>"
    by (simp add: w4_def 3 after_pass_def acquire_pass_def active_for_def)
  have "pool_step n 1 pool_init w1" unfolding w1_def by (rule ask) (simp add: pool_init_def)
  moreover have "pool_step n 1 w1 w2" unfolding w2_def by (rule ask) (simp add: 1)
  moreover have "pool_step n 1 w2 w3" unfolding w3_def by (rule ask) (simp add: 2)
  moreover have "pool_step n 1 w3 w4" unfolding w4_def by (rule ask) (simp add: 3)
  ultimately have "pool_reach n 1 w4" by (meson pool_reach.start pool_reach.step)
  then show ?thesis by (simp add: 4)
qed

text \<open>A run in which a thread falls asleep between the release of its slot and the notification.\<close>

definition demo_run :: "nat \<Rightarrow> pool_world" where
  "demo_run i =
     (let ask = (\<lambda>t w. after_pass t ''a'' (acquire_pass active_for reserve ''a'' 1 False True (pw_activity w)) w);
          w1 = ask 0 pool_init; w2 = ask 1 w1; w3 = release_slot 0 ''a'' w2 in
      if i = 0 then pool_init else if i = 1 then w1 else if i = 2 then w2 else if i = 3 then w3
      else w3\<lparr>pw_phase := wake_all ((pw_phase w3)(0 := Outside))\<rparr>)"

lemma demo_run_states:
  "demo_run 0 = pool_init"
  "demo_run 1 = \<lparr>pw_activity = [''a'' \<mapsto> 1], pw_phase = (\<lambda>_. Outside)(0 := Holding ''a'')\<rparr>"
  "demo_run 2 = \<lparr>pw_activity = [''a'' \<mapsto> 1], pw_phase = (\<lambda>_. Outside)(0 := Holding ''a'', 1 := Sleeping ''a'')\<rparr>"
  "demo_run 3 = \<lparr>pw_activity = (\<lambda>_. None), pw_phase = (\<lambda>_. Outside)(0 := Notifying, 1 := Sleeping ''a'')\<rparr>"
  "3 < i \<Longrightarrow> demo_run i = \<lparr>pw_activity = (\<lambda>_. None), pw_phase = (\<lambda>_. Outside)(1 := Notified ''a'')\<rparr>"
  by (auto simp: demo_run_def Let_def after_pass_def acquire_pass_def pool_init_def active_for_def reserve_def
      release_slot_def release_def wake_all_def fun_eq_iff)

lemma demo_run_runs: "pool_run NotifyAll 1 demo_run"
  unfolding pool_run_def
proof (intro conjI allI)
  show "demo_run 0 = pool_init" by (rule demo_run_states)
  let ?ask = "\<lambda>t w. after_pass t ''a'' (acquire_pass active_for reserve ''a'' 1 False True (pw_activity w)) w"
  have "pool_step NotifyAll 1 pool_init (?ask 0 pool_init)" by (rule ask) (simp add: pool_init_def)
  then have 1: "pool_step NotifyAll 1 (demo_run 0) (demo_run 1)" by (simp add: demo_run_def Let_def)
  have "pool_step NotifyAll 1 (demo_run 1) (?ask 1 (demo_run 1))" by (rule ask) (simp add: demo_run_states(2) del: One_nat_def)
  then have 2: "pool_step NotifyAll 1 (demo_run 1) (demo_run 2)" by (simp add: demo_run_def Let_def)
  have "pool_step NotifyAll 1 (demo_run 2) (release_slot 0 ''a'' (demo_run 2))" by (rule released) (simp add: demo_run_states(3))
  then have 3: "pool_step NotifyAll 1 (demo_run 2) (demo_run 3)" by (simp add: demo_run_def Let_def)
  have "pool_step NotifyAll 1 (demo_run 3) ((demo_run 3)\<lparr>pw_phase := wake_all ((pw_phase (demo_run 3))(0 := Outside))\<rparr>)"
    by (rule notify_all) (simp_all add: demo_run_states(4))
  then have 4: "pool_step NotifyAll 1 (demo_run 3) (demo_run 4)" by (simp add: demo_run_def Let_def)
  fix i :: nat
  consider "i = 0" | "i = 1" | "i = 2" | "i = 3" | "3 < i" by linarith
  then show "pool_step NotifyAll 1 (demo_run i) (demo_run (Suc i)) \<or> demo_run (Suc i) = demo_run i"
    by cases (use 1 2 3 4 demo_run_states(5) in \<open>auto simp: numeral_eq_Suc\<close>)
qed

lemma notify_all_never_strands_witness:
  "pw_phase (demo_run 3) 1 = Sleeping ''a'' \<and> active_for (pw_activity (demo_run 3)) ''a'' < 1 \<and>
   (\<exists>u. pw_phase (demo_run 3) u = Notifying) \<and> (\<exists>j>3. pw_phase (demo_run j) 1 \<noteq> Sleeping ''a'')"
proof -
  have "pw_phase (demo_run (i + 4)) u \<noteq> Notifying" for i u by (simp add: demo_run_states(5))
  then have f: "notifiers_fair demo_run" unfolding notifiers_fair_def by (metis le_add1)
  have "pw_phase (demo_run 3) 1 = Sleeping ''a''" "active_for (pw_activity (demo_run 3)) ''a'' < 1"
    by (simp_all add: demo_run_states(4) active_for_def)
  with notify_all_never_strands [OF demo_run_runs f] show ?thesis by blast
qed

text \<open>
  C40: With \<open>notify_one\<close>, as the fast path of HTTP/1 notifies, a wake-up can be lost, because
  threads that wait for different keys share one condition variable: the slot of key \<open>a\<close> is
  released, the thread that waits for key \<open>b\<close> is woken and sleeps again, and the thread that waits
  for \<open>a\<close> keeps sleeping although its slot is free, no other thread is notified and none is about
  to notify.
\<close>

theorem notify_one_strands:
  "\<exists>w. pool_reach NotifyOne 1 w \<and> pw_phase w 2 = Sleeping ''a'' \<and> active_for (pw_activity w) ''a'' = 0 \<and>
     (\<forall>t k. pw_phase w t \<noteq> Notified k) \<and> (\<forall>t. pw_phase w t \<noteq> Notifying)"
proof -
  let ?w = "\<lparr>pw_activity = [''a'' \<mapsto> 1, ''b'' \<mapsto> 1],
     pw_phase = (\<lambda>_. Outside)(0 := Holding ''a'', 1 := Holding ''b'', 2 := Sleeping ''a'', 3 := Sleeping ''b'')\<rparr>"
  let ?w1 = "release_slot 0 ''a'' ?w"
  let ?w2 = "?w1\<lparr>pw_phase := (pw_phase ?w1)(0 := Outside, 3 := Notified ''b'')\<rparr>"
  let ?w3 = "after_pass 3 ''b'' (acquire_pass active_for reserve ''b'' 1 False True (pw_activity ?w2)) ?w2"
  have 1: "pool_step NotifyOne 1 ?w ?w1" by (rule released) simp
  have 2: "pool_step NotifyOne 1 ?w1 ?w2" by (rule notify_one) (simp_all add: release_slot_def)
  have 3: "pool_step NotifyOne 1 ?w2 ?w3" by (rule woken) simp
  have "pool_reach NotifyOne 1 ?w3"
    by (rule pool_reach.step [OF pool_reach.step [OF pool_reach.step [OF both_keys_awaited 1] 2] 3])
  moreover have "?w3 = \<lparr>pw_activity = [''b'' \<mapsto> 1], pw_phase = (\<lambda>_. Outside)(1 := Holding ''b'', 2 := Sleeping ''a'', 3 := Sleeping ''b'')\<rparr>"
    by (auto simp: release_slot_def after_pass_def acquire_pass_def release_def active_for_def fun_eq_iff)
  ultimately show ?thesis by (intro exI [of _ ?w3]) (auto simp: active_for_def)
qed

section \<open>The HTTP/2 pool\<close>

record pool_entry =
  pe_generation :: nat
  pe_last_used :: nat

record h2_pool =
  h2_entries :: "string \<Rightarrow> pool_entry option"
  h2_order :: "string list"
  h2_activity :: keyed_activity
  h2_connecting :: "string \<Rightarrow> nat option"

definition H2_POOL_IDLE_TTL :: nat where "H2_POOL_IDLE_TTL = 60000"

definition H2_POOL_CAPACITY :: nat where "H2_POOL_CAPACITY = 256"

definition h2_touch :: "string \<Rightarrow> h2_pool \<Rightarrow> h2_pool" where
  "h2_touch key p = p\<lparr>h2_order := filter (\<lambda>s. s \<noteq> key) (h2_order p) @ [key]\<rparr>"

definition h2_forget :: "string \<Rightarrow> h2_pool \<Rightarrow> h2_pool" where
  "h2_forget key p = p\<lparr>h2_entries := (h2_entries p)(key := None), h2_order := filter (\<lambda>s. s \<noteq> key) (h2_order p)\<rparr>"

text \<open>Times are milliseconds of the clock.\<close>

definition h2_get :: "nat \<Rightarrow> string \<Rightarrow> h2_pool \<Rightarrow> pool_entry option \<times> h2_pool" where
  "h2_get now key p =
     (case h2_entries p key of
        None \<Rightarrow> (None, p)
      | Some e \<Rightarrow>
          if H2_POOL_IDLE_TTL \<le> now - pe_last_used e \<and> active_for (h2_activity p) key = 0 then (None, h2_forget key p)
          else
            (let e = e\<lparr>pe_last_used := now\<rparr> in
             (Some e, h2_touch key (p\<lparr>h2_entries := (h2_entries p)(key \<mapsto> e)\<rparr>))))"

function h2_evict_oldest :: "h2_pool \<Rightarrow> h2_pool" where
  "h2_evict_oldest p =
     (if H2_POOL_CAPACITY \<le> card (dom (h2_entries p)) then
        (case h2_order p of
           [] \<Rightarrow> p
         | oldest # order \<Rightarrow> h2_evict_oldest (p\<lparr>h2_order := order, h2_entries := (h2_entries p)(oldest := None)\<rparr>))
      else p)"
  by pat_completeness auto
termination by (relation "measure (\<lambda>p. length (h2_order p))") auto

declare h2_evict_oldest.simps [simp del]

definition h2_insert :: "string \<Rightarrow> pool_entry \<Rightarrow> h2_pool \<Rightarrow> h2_pool" where
  "h2_insert key e p =
     (let p = p\<lparr>h2_connecting := (h2_connecting p)(key := None)\<rparr> in
      if h2_entries p key \<noteq> None then h2_touch key (p\<lparr>h2_entries := (h2_entries p)(key \<mapsto> e)\<rparr>)
      else
        (let p = h2_evict_oldest p in
         p\<lparr>h2_order := h2_order p @ [key], h2_entries := (h2_entries p)(key \<mapsto> e)\<rparr>))"

definition remove_if_generation :: "string \<Rightarrow> nat \<Rightarrow> h2_pool \<Rightarrow> h2_pool" where
  "remove_if_generation key generation p =
     (if (case h2_entries p key of Some e \<Rightarrow> pe_generation e = generation | None \<Rightarrow> False) then h2_forget key p else p)"

definition claim_connector :: "string \<Rightarrow> h2_pool \<times> nat \<Rightarrow> nat option \<times> h2_pool \<times> nat" where
  "claim_connector key w =
     (let (p, next) = w in
      if h2_connecting p key \<noteq> None then (None, p, next)
      else (Some next, p\<lparr>h2_connecting := (h2_connecting p)(key \<mapsto> next)\<rparr>, (next + 1) mod 2 ^ 64))"

definition cancel_connector :: "string \<Rightarrow> nat \<Rightarrow> h2_pool \<Rightarrow> h2_pool" where
  "cancel_connector key generation p =
     (if h2_connecting p key = Some generation then p\<lparr>h2_connecting := (h2_connecting p)(key := None)\<rparr> else p)"

definition h2_reserve :: "string \<Rightarrow> h2_pool \<Rightarrow> h2_pool" where
  "h2_reserve key p = p\<lparr>h2_activity := reserve key (h2_activity p)\<rparr>"

definition h2_release :: "string \<Rightarrow> h2_pool \<Rightarrow> h2_pool" where
  "h2_release key p = p\<lparr>h2_activity := release key (h2_activity p)\<rparr>"

definition drop_lease :: "string \<Rightarrow> nat option \<Rightarrow> h2_pool \<Rightarrow> h2_pool" where
  "drop_lease key connector p =
     (let p = h2_release key p in case connector of Some g \<Rightarrow> cancel_connector key g p | None \<Rightarrow> p)"

text \<open>One turn of the idle eviction task; whether the task ends.\<close>

definition idle_eviction :: "nat \<Rightarrow> string \<Rightarrow> nat \<Rightarrow> h2_pool \<Rightarrow> bool \<times> h2_pool" where
  "idle_eviction now key generation p =
     (case h2_entries p key of
        None \<Rightarrow> (True, p)
      | Some e \<Rightarrow>
          if pe_generation e \<noteq> generation then (True, p)
          else if H2_POOL_IDLE_TTL \<le> now - pe_last_used e \<and> active_for (h2_activity p) key = 0
          then (True, remove_if_generation key generation p)
          else (False, p))"

interpretation h2: activity_store "\<lambda>p. active_for (h2_activity p)" h2_reserve h2_release
  by unfold_locales (simp_all add: h2_reserve_def h2_release_def keyed.active_add keyed.active_sub)

text \<open>The order lists the pooled keys, each once, within the capacity.\<close>

definition h2_pool_inv :: "h2_pool \<Rightarrow> bool" where
  "h2_pool_inv p \<longleftrightarrow> set (h2_order p) = dom (h2_entries p) \<and> distinct (h2_order p) \<and> length (h2_order p) \<le> H2_POOL_CAPACITY"

lemma h2_forget_inv: "h2_pool_inv p \<Longrightarrow> h2_pool_inv (h2_forget key p)"
  by (auto simp: h2_pool_inv_def h2_forget_def intro: le_trans [OF length_filter_le])

lemma h2_touch_inv:
  assumes "h2_pool_inv p" "key \<in> dom (h2_entries p)"
  shows "h2_pool_inv (h2_touch key (p\<lparr>h2_entries := (h2_entries p)(key \<mapsto> e)\<rparr>))"
proof -
  have "length (filter (\<lambda>s. s \<noteq> key) (h2_order p)) < length (h2_order p)"
    using assms by (intro length_filter_less [of key]) (auto simp: h2_pool_inv_def)
  with assms show ?thesis by (auto simp: h2_pool_inv_def h2_touch_def)
qed

lemma h2_evict_oldest_inv:
  "set (h2_order p) = dom (h2_entries p) \<and> distinct (h2_order p) \<Longrightarrow>
     set (h2_order (h2_evict_oldest p)) = dom (h2_entries (h2_evict_oldest p)) \<and> distinct (h2_order (h2_evict_oldest p)) \<and>
     length (h2_order (h2_evict_oldest p)) < H2_POOL_CAPACITY \<and>
     h2_activity (h2_evict_oldest p) = h2_activity p \<and> h2_connecting (h2_evict_oldest p) = h2_connecting p \<and>
     (\<exists>gone. h2_order p = gone @ h2_order (h2_evict_oldest p))"
proof (induction p rule: h2_evict_oldest.induct)
  case (1 p)
  show ?case
  proof (cases "H2_POOL_CAPACITY \<le> card (dom (h2_entries p))")
    case False
    with 1 show ?thesis by (metis append_Nil distinct_card h2_evict_oldest.simps not_le)
  next
    case True
    have "h2_order p \<noteq> []" using True 1(2) by (auto simp: H2_POOL_CAPACITY_def)
    then obtain x xs where x: "h2_order p = x # xs" by (cases "h2_order p") auto
    let ?p = "p\<lparr>h2_order := xs, h2_entries := (h2_entries p)(x := None)\<rparr>"
    have "set (h2_order ?p) = dom (h2_entries ?p) \<and> distinct (h2_order ?p)" using 1(2) x by auto
    note rest = 1(1) [OF True x this]
    then obtain gone where "xs = gone @ h2_order (h2_evict_oldest ?p)" by auto
    then have "\<exists>gone. h2_order p = gone @ h2_order (h2_evict_oldest ?p)" using x by (intro exI [of _ "x # gone"]) simp
    moreover have "h2_evict_oldest p = h2_evict_oldest ?p" using True x by (simp add: h2_evict_oldest.simps [of p])
    ultimately show ?thesis using rest by simp
  qed
qed

text \<open>
  Every operation of the HTTP/2 pool keeps its order of use and its entries in step: the
  order holds each pooled key once, there are never more than 256 connections, and inserting a
  new key evicts the keys that were used longest ago.
\<close>

theorem h2_pool_operations_keep_inv:
  assumes "h2_pool_inv p"
  shows "h2_pool_inv (snd (h2_get now key p)) \<and> h2_pool_inv (h2_insert key e p) \<and>
    h2_pool_inv (remove_if_generation key g p) \<and> h2_pool_inv (fst (snd (claim_connector key (p, next)))) \<and>
    h2_pool_inv (drop_lease key connector p) \<and> h2_pool_inv (snd (idle_eviction now key g p)) \<and>
    h2_entries (h2_insert key e p) key = Some e \<and>
    (h2_entries p key = None \<longrightarrow> (\<exists>gone kept. h2_order p = gone @ kept \<and> h2_order (h2_insert key e p) = kept @ [key]))"
proof (intro conjI)
  show "h2_pool_inv (snd (h2_get now key p))"
    using assms h2_touch_inv [OF assms] h2_forget_inv [OF assms]
    by (auto simp: h2_get_def Let_def split: option.split)
  have e: "let p' = h2_evict_oldest (p\<lparr>h2_connecting := (h2_connecting p)(key := None)\<rparr>) in
      set (h2_order p') = dom (h2_entries p') \<and> distinct (h2_order p') \<and> length (h2_order p') < H2_POOL_CAPACITY \<and>
      (\<exists>gone. h2_order p = gone @ h2_order p')"
    using h2_evict_oldest_inv [of "p\<lparr>h2_connecting := (h2_connecting p)(key := None)\<rparr>"] assms
    by (simp add: h2_pool_inv_def Let_def)
  have c: "h2_pool_inv (p\<lparr>h2_connecting := (h2_connecting p)(key := None)\<rparr>)" using assms by (simp add: h2_pool_inv_def)
  show "h2_pool_inv (h2_insert key e p)"
  proof (cases "h2_entries p key = None")
    case True
    then have "key \<notin> set (h2_order p)" using assms by (auto simp: h2_pool_inv_def)
    with True e show ?thesis by (auto simp: h2_insert_def Let_def h2_pool_inv_def)
  next
    case False
    with h2_touch_inv [OF c, of key e] show ?thesis by (auto simp: h2_insert_def Let_def)
  qed
  show "h2_pool_inv (remove_if_generation key g p)"
    using assms h2_forget_inv by (simp add: remove_if_generation_def)
  show "h2_pool_inv (fst (snd (claim_connector key (p, next))))"
    using assms by (simp add: claim_connector_def h2_pool_inv_def)
  show "h2_pool_inv (drop_lease key connector p)"
    using assms by (simp add: drop_lease_def h2_release_def cancel_connector_def h2_pool_inv_def Let_def split: option.split)
  show "h2_pool_inv (snd (idle_eviction now key g p))"
    using assms h2_forget_inv by (auto simp: idle_eviction_def remove_if_generation_def split: option.split)
  show "h2_entries (h2_insert key e p) key = Some e"
    by (simp add: h2_insert_def Let_def h2_touch_def)
  show "h2_entries p key = None \<longrightarrow> (\<exists>gone kept. h2_order p = gone @ kept \<and> h2_order (h2_insert key e p) = kept @ [key])"
    using e by (auto simp: h2_insert_def Let_def)
qed

lemma h2_pool_operations_keep_inv_witness:
  "h2_pool_inv \<lparr>h2_entries = [''a'' \<mapsto> \<lparr>pe_generation = 1, pe_last_used = 5\<rparr>], h2_order = [''a''], h2_activity = (\<lambda>_. None), h2_connecting = (\<lambda>_. None)\<rparr> \<and>
   h2_pool_inv (h2_insert ''b'' \<lparr>pe_generation = 2, pe_last_used = 7\<rparr>
     \<lparr>h2_entries = [''a'' \<mapsto> \<lparr>pe_generation = 1, pe_last_used = 5\<rparr>], h2_order = [''a''], h2_activity = (\<lambda>_. None), h2_connecting = (\<lambda>_. None)\<rparr>)"
proof -
  let ?p = "\<lparr>h2_entries = [''a'' \<mapsto> \<lparr>pe_generation = 1, pe_last_used = 5\<rparr>], h2_order = [''a''], h2_activity = (\<lambda>_. None), h2_connecting = (\<lambda>_. None)\<rparr>"
  have p: "h2_pool_inv ?p" by (simp add: h2_pool_inv_def H2_POOL_CAPACITY_def)
  from h2_pool_operations_keep_inv [OF p, of 0 "''b''" "\<lparr>pe_generation = 2, pe_last_used = 7\<rparr>" 0 0 None] p show ?thesis by blast
qed

section \<open>The pool of a fast-path thread\<close>

record fast_connection =
  fc_key :: string
  fc_last_used :: nat

definition THREAD_IDLE_CAPACITY :: nat where "THREAD_IDLE_CAPACITY = 8"

definition FAST_POOL_IDLE_TTL :: nat where "FAST_POOL_IDLE_TTL = 90000"

fun remove_first :: "string \<Rightarrow> fast_connection list \<Rightarrow> (fast_connection \<times> fast_connection list) option" where
  "remove_first key [] = None"
| "remove_first key (c # cs) =
     (if fc_key c = key then Some (c, cs)
      else map_option (\<lambda>(d, ds). (d, c # ds)) (remove_first key cs))"

definition checkout :: "nat \<Rightarrow> string \<Rightarrow> fast_connection list \<Rightarrow> fast_connection option \<times> fast_connection list" where
  "checkout now key entries =
     (case remove_first key entries of
        None \<Rightarrow> (None, entries)
      | Some (c, rest) \<Rightarrow> (if FAST_POOL_IDLE_TTL \<le> now - fc_last_used c then None else Some c, rest))"

definition checkin :: "nat \<Rightarrow> string \<Rightarrow> fast_connection \<Rightarrow> fast_connection list \<Rightarrow> fast_connection list" where
  "checkin now key c entries =
     (let kept = filter (\<lambda>d. fc_key d \<noteq> key) entries in
      drop (length kept - (THREAD_IDLE_CAPACITY - 1)) kept @ [c\<lparr>fc_last_used := now\<rparr>])"

definition fast_inv :: "fast_connection list \<Rightarrow> bool" where
  "fast_inv entries \<longleftrightarrow> length entries \<le> THREAD_IDLE_CAPACITY \<and> distinct (map fc_key entries)"

lemma remove_first_Some:
  "remove_first key cs = Some (c, ds) \<Longrightarrow> fc_key c = key \<and> (\<exists>a b. cs = a @ c # b \<and> ds = a @ b)"
proof (induction cs arbitrary: ds)
  case (Cons x cs)
  then show ?case
    by (auto split: if_splits) (metis append_Cons)
qed simp

lemma checkout_inv: "fast_inv entries \<Longrightarrow> fast_inv (snd (checkout now key entries))"
  by (auto simp: checkout_def fast_inv_def dest!: remove_first_Some split: option.split)

lemma checkin_inv:
  assumes "fast_inv entries" "fc_key c = key"
  shows "fast_inv (checkin now key c entries)"
proof -
  define kept where "kept = filter (\<lambda>d. fc_key d \<noteq> key) entries"
  define old where "old = drop (length kept - (THREAD_IDLE_CAPACITY - 1)) kept"
  have "distinct (map fc_key kept)" using assms(1) by (simp add: kept_def fast_inv_def distinct_map_filter)
  then have d: "distinct (map fc_key old)" by (simp add: old_def drop_map [symmetric] distinct_drop)
  have "key \<notin> fc_key ` set kept" by (auto simp: kept_def)
  then have k: "key \<notin> fc_key ` set old" unfolding old_def using set_drop_subset by fastforce
  have "length old \<le> THREAD_IDLE_CAPACITY - 1" by (simp add: old_def)
  with d k assms(2) show ?thesis
    by (simp add: checkin_def fast_inv_def THREAD_IDLE_CAPACITY_def flip: kept_def) (simp add: old_def THREAD_IDLE_CAPACITY_def)
qed

end
