(* ===== verification/Http1_Response.thy ===== *)
theory Http1_Response
  imports Http1_Relay Http_Semantics Rule_Glob
begin

text \<open>
  Bodies of upstream responses: the buffering readers (\<open>proxy/body.rs\<close>), the incremental body
  stream (\<open>h1_forward/body_stream.rs\<close>) and the relays of the fast path
  (\<open>h1_forward/response/body.rs\<close>). The main results: a body that streams completely is the body
  the buffering reader reads, and the fast path relays exactly that body, whatever the sizes of
  its buffers and of the partial reads.
\<close>

datatype response_error =
    RespIo io_kind
  | RespLineLimit
  | RespLineUtf8
  | RespChunkSize
  | RespChunkEnd
  | RespTrailerLimit
  | RespTrailer
  | RespTrailerName
  | RespContentLength
  | RespBodyCut
  | RespWrite io_kind

section \<open>Lines\<close>

definition resp_read_exact :: "nat \<Rightarrow> byte_stream \<Rightarrow> response_error + string \<times> byte_stream" where
  "resp_read_exact n st = map_sum RespIo id (read_exact n st)"

text \<open>The loop of \<open>read_crlf_line\<close> and \<open>read_crlf_line_bounded\<close>: the bytes of the line.\<close>

function crlf_loop :: "nat \<Rightarrow> string \<Rightarrow> byte_stream \<Rightarrow> response_error + string \<times> byte_stream" where
  "crlf_loop limit acc st =
     (case resp_read_exact 1 st of
        Inl e \<Rightarrow> Inl e
      | Inr (b, st') \<Rightarrow>
          (let acc = acc @ b in
           if ends_with acc CRLF then Inr (take (length acc - 2) acc, st')
           else if limit < length acc then Inl RespLineLimit
           else crlf_loop limit acc st'))"
  by pat_completeness auto
termination
  by (relation "measure (\<lambda>(limit, acc, st). length (str_bytes st))")
     (auto simp: resp_read_exact_def read_exact_def split: if_splits)

declare crlf_loop.simps [simp del]

definition read_crlf_line :: "byte_stream \<Rightarrow> response_error + string \<times> byte_stream" where
  "read_crlf_line st = try_bind (crlf_loop 8192 [] st) (\<lambda>(l, st). Inr (utf8_lossy l, st))"

definition read_crlf_line_bounded :: "nat \<Rightarrow> byte_stream \<Rightarrow> response_error + string \<times> byte_stream" where
  "read_crlf_line_bounded limit st =
     try_bind (crlf_loop limit [] st) (\<lambda>(l, st). if utf8_valid l then Inr (l, st) else Inl RespLineUtf8)"

lemma resp_read_exact_Inr:
  "resp_read_exact n st = Inr (bs, st') \<longleftrightarrow>
     n \<le> length (str_bytes st) \<and> bs = take n (str_bytes st) \<and> st' = st\<lparr>str_bytes := drop n (str_bytes st)\<rparr>"
  by (auto simp: resp_read_exact_def read_exact_def)

lemma crlf_loop_consumes: "crlf_loop limit acc st = Inr (l, st') \<Longrightarrow> length (str_bytes st') < length (str_bytes st)"
proof (induction limit acc st rule: crlf_loop.induct)
  case (1 limit acc st)
  from "1.prems" obtain b st1 where b: "resp_read_exact 1 st = Inr (b, st1)"
    by (subst (asm) crlf_loop.simps) (auto split: sum.splits)
  then have less: "length (str_bytes st1) < length (str_bytes st)" by (auto simp: resp_read_exact_Inr)
  show ?case
  proof (cases "ends_with (acc @ b) CRLF")
    case True
    with "1.prems" b less show ?thesis by (simp add: crlf_loop.simps [of limit acc st] Let_def)
  next
    case False
    with "1.prems" b have l: "\<not> limit < length (acc @ b)" "crlf_loop limit (acc @ b) st1 = Inr (l, st')"
      by (auto simp: crlf_loop.simps [of limit acc st] Let_def split: if_splits)
    with "1.IH" [OF b refl refl False] less show ?thesis by simp
  qed
qed

lemma crlf_loop_length: "crlf_loop limit acc st = Inr (l, st') \<Longrightarrow> length acc \<le> length l + 1"
proof (induction limit acc st rule: crlf_loop.induct)
  case (1 limit acc st)
  from "1.prems" obtain b st1 where b: "resp_read_exact 1 st = Inr (b, st1)"
    by (subst (asm) crlf_loop.simps) (auto split: sum.splits)
  then have "length b = 1" by (auto simp: resp_read_exact_Inr)
  moreover have "2 \<le> length (acc @ b)" if "ends_with (acc @ b) CRLF"
    using that by (simp add: ends_with_def CRLF_def)
  ultimately show ?case
    using "1.prems" b "1.IH" [OF b refl refl]
    by (auto simp: crlf_loop.simps [of limit acc st] Let_def split: if_splits)
qed

text \<open>A reader with another limit reads the same line, or the line is over its limit.\<close>

lemma crlf_loop_limit:
  "crlf_loop limit acc st = Inr (l, st') \<Longrightarrow> length acc \<le> limit' \<Longrightarrow>
     crlf_loop limit' acc st = (if length l < limit' then Inr (l, st') else Inl RespLineLimit)"
proof (induction limit acc st rule: crlf_loop.induct)
  case (1 limit acc st)
  from "1.prems" obtain b st1 where b: "resp_read_exact 1 st = Inr (b, st1)"
    by (subst (asm) crlf_loop.simps) (auto split: sum.splits)
  then have b1: "length b = 1" by (auto simp: resp_read_exact_Inr)
  show ?case
  proof (cases "ends_with (acc @ b) CRLF")
    case True
    then have "2 \<le> length (acc @ b)" by (simp add: ends_with_def CRLF_def)
    moreover have "l = take (length (acc @ b) - 2) (acc @ b)" "st' = st1"
      using "1.prems"(1) b True by (simp_all add: crlf_loop.simps [of limit acc st] Let_def)
    ultimately show ?thesis using "1.prems"(2) b b1 True by (simp add: crlf_loop.simps [of limit' acc st] Let_def)
  next
    case False
    with "1.prems" b have l: "\<not> limit < length (acc @ b)" "crlf_loop limit (acc @ b) st1 = Inr (l, st')"
      by (auto simp: crlf_loop.simps [of limit acc st] Let_def split: if_splits)
    from crlf_loop_length [OF l(2)] "1.IH" [OF b refl refl False l] False b b1 show ?thesis
      by (simp add: crlf_loop.simps [of limit' acc st] Let_def)
  qed
qed

lemma read_line_bounded_lossy:
  "read_crlf_line_bounded limit st = Inr (l, st') \<Longrightarrow>
     read_crlf_line st = (if length l < 8192 then Inr (l, st') else Inl RespLineLimit)"
  by (auto simp: read_crlf_line_bounded_def read_crlf_line_def try_bind_Inr utf8_lossy_valid
      dest: crlf_loop_limit [where limit' = 8192] split: if_splits)

lemma read_crlf_line_consumes: "read_crlf_line st = Inr (l, st') \<Longrightarrow> length (str_bytes st') < length (str_bytes st)"
  by (auto simp: read_crlf_line_def try_bind_Inr dest: crlf_loop_consumes)

lemma read_crlf_line_bounded_consumes:
  "read_crlf_line_bounded limit st = Inr (l, st') \<Longrightarrow> length (str_bytes st') < length (str_bytes st)"
  by (auto simp: read_crlf_line_bounded_def try_bind_Inr dest: crlf_loop_consumes split: if_splits)

section \<open>Buffered bodies\<close>

definition chunk_size_of :: "string \<Rightarrow> response_error + nat" where
  "chunk_size_of line =
     (case parse_hex_usize (trim (hd (split_chars (\<lambda>c. c = CHR '';'') line))) of
        None \<Rightarrow> Inl RespChunkSize | Some n \<Rightarrow> Inr n)"

definition chunk_delimiter :: "byte_stream \<Rightarrow> response_error + byte_stream" where
  "chunk_delimiter st = try_bind (resp_read_exact 2 st) (\<lambda>(d, st). if d \<noteq> CRLF then Inl RespChunkEnd else Inr st)"

function skip_trailers :: "headers \<Rightarrow> byte_stream \<Rightarrow> response_error + headers \<times> byte_stream" where
  "skip_trailers ts st =
     (case read_crlf_line st of
        Inl e \<Rightarrow> Inl e
      | Inr (l, st') \<Rightarrow>
          if l = [] then Inr (ts, st')
          else skip_trailers
            (case split_once l '':'' of
               Some (name, value) \<Rightarrow> if trim name \<noteq> [] then ts @ [(trim name, trim value)] else ts
             | None \<Rightarrow> ts) st')"
  by pat_completeness auto
termination
  by (relation "measure (\<lambda>(ts, st). length (str_bytes st))") (auto dest: read_crlf_line_consumes)

declare skip_trailers.simps [simp del]

lemma chunk_delimiter_consumes: "chunk_delimiter st = Inr st' \<Longrightarrow> length (str_bytes st') \<le> length (str_bytes st)"
  by (auto simp: chunk_delimiter_def try_bind_Inr resp_read_exact_Inr split: if_splits)

function read_chunked_loop :: "string \<Rightarrow> byte_stream \<Rightarrow> response_error + string \<times> headers \<times> byte_stream" where
  "read_chunked_loop body st =
     (case read_crlf_line st of
        Inl e \<Rightarrow> Inl e
      | Inr (l, st1) \<Rightarrow>
          (case chunk_size_of l of
             Inl e \<Rightarrow> Inl e
           | Inr n \<Rightarrow>
               if n = 0 then try_bind (skip_trailers [] st1) (\<lambda>(ts, st). Inr (body, ts, st))
               else
                 (case resp_read_exact n st1 of
                    Inl e \<Rightarrow> Inl e
                  | Inr (d, st2) \<Rightarrow>
                      (case chunk_delimiter st2 of
                         Inl e \<Rightarrow> Inl e
                       | Inr st3 \<Rightarrow> read_chunked_loop (body @ d) st3))))"
  by pat_completeness auto
termination
  by (relation "measure (\<lambda>(body, st). length (str_bytes st))")
     (auto simp: resp_read_exact_Inr dest!: read_crlf_line_consumes chunk_delimiter_consumes)

declare read_chunked_loop.simps [simp del]

definition read_chunked_body :: "byte_stream \<Rightarrow> response_error + string \<times> headers \<times> byte_stream" where
  "read_chunked_body st = read_chunked_loop [] st"

definition has_chunked_transfer_encoding :: "headers \<Rightarrow> bool" where
  "has_chunked_transfer_encoding headers =
     (case header headers ''transfer-encoding'' of
        None \<Rightarrow> False
      | Some v \<Rightarrow> list_ex (\<lambda>part. eq_ignore_ascii_case (trim part) ''chunked'') (split_chars (\<lambda>c. c = CHR '','') v))"

text \<open>Whether an error's text names a missing \<open>close_notify\<close> is the TLS library's: a parameter.\<close>

definition tls_close_notify_missing :: "(io_kind \<Rightarrow> bool) \<Rightarrow> io_kind \<Rightarrow> bool" where
  "tls_close_notify_missing msg k \<longleftrightarrow> (k = UnexpectedEof \<or> k = InvalidData) \<and> msg k"

function read_to_eof :: "(io_kind \<Rightarrow> bool) \<Rightarrow> string \<Rightarrow> byte_stream \<Rightarrow> response_error + string \<times> byte_stream" where
  "read_to_eof msg body st =
     (case read_some 8192 st of
        Inl k \<Rightarrow> if tls_close_notify_missing msg k then Inr (body, st) else Inl (RespIo k)
      | Inr (d, st') \<Rightarrow> if d = [] then Inr (body, st') else read_to_eof msg (body @ d) st')"
  by pat_completeness auto
termination
  by (relation "measure (\<lambda>(msg, body, st). length (str_bytes st))") (auto dest!: read_some_Inr)

declare read_to_eof.simps [simp del]

definition parse_usize :: "string \<Rightarrow> nat option" where
  "parse_usize s = (case parse_uint USIZE_MAX s of Inl e \<Rightarrow> None | Inr n \<Rightarrow> Some n)"

definition read_response_body :: "(io_kind \<Rightarrow> bool) \<Rightarrow> headers \<Rightarrow> byte_stream \<Rightarrow> response_error + string \<times> headers \<times> byte_stream" where
  "read_response_body msg headers st =
     (if has_chunked_transfer_encoding headers then read_chunked_body st
      else
        (case Option.bind (header headers ''content-length'') parse_usize of
           Some n \<Rightarrow> try_bind (resp_read_exact n st) (\<lambda>(body, st). Inr (body, [], st))
         | None \<Rightarrow> try_bind (read_to_eof msg [] st) (\<lambda>(body, st). Inr (body, [], st))))"

section \<open>The body stream\<close>

datatype resp_state = RbEmpty | RbLength nat | RbChunkSize | RbChunkData nat | RbChunkEnd | RbClose | RbDone

datatype upstream_frame = UpData string | UpTrailers headers

definition READ_BUFFER_SIZE :: nat where "READ_BUFFER_SIZE = 16 * 1024"

definition body_stream_new :: "string \<Rightarrow> u16 \<Rightarrow> headers \<Rightarrow> response_error + resp_state" where
  "body_stream_new method status headers =
     (if \<not> response_has_framed_body method status then Inr RbEmpty
      else if has_chunked_transfer_encoding headers then Inr RbChunkSize
      else
        (case header headers ''content-length'' of
           Some v \<Rightarrow> (case parse_usize v of None \<Rightarrow> Inl RespContentLength | Some n \<Rightarrow> Inr (RbLength n))
         | None \<Rightarrow> if status = 205 then Inr RbEmpty else Inr RbClose))"

function stream_trailers :: "nat \<Rightarrow> nat \<Rightarrow> headers \<Rightarrow> nat \<Rightarrow> byte_stream \<Rightarrow> response_error + headers \<times> byte_stream" where
  "stream_trailers max_size max_count ts sz st =
     (case read_crlf_line_bounded max_size st of
        Inl e \<Rightarrow> Inl e
      | Inr (l, st') \<Rightarrow>
          if l = [] then Inr (ts, st')
          else
            (let sz = saturating_add sz (length l + 2) in
             if max_size < sz \<or> max_count \<le> length ts then Inl RespTrailerLimit
             else
               (case split_once l '':'' of
                  None \<Rightarrow> Inl RespTrailer
                | Some (name, value) \<Rightarrow>
                    if trim name = [] then Inl RespTrailerName
                    else stream_trailers max_size max_count (ts @ [(trim name, trim value)]) sz st')))"
  by pat_completeness auto
termination
  by (relation "measure (\<lambda>(max_size, max_count, ts, sz, st). length (str_bytes st))")
     (auto dest: read_crlf_line_bounded_consumes)

declare stream_trailers.simps [simp del]

fun resp_rank :: "resp_state \<Rightarrow> nat" where
  "resp_rank RbChunkEnd = 3"
| "resp_rank RbChunkSize = 2"
| "resp_rank (RbChunkData n) = 4"
| "resp_rank (RbLength n) = 1"
| "resp_rank RbClose = 1"
| "resp_rank _ = 0"

fun read_chunk_data :: "nat \<Rightarrow> byte_stream \<Rightarrow> response_error + upstream_frame option \<times> resp_state \<times> byte_stream" where
  "read_chunk_data remaining st =
     (let amount = min remaining READ_BUFFER_SIZE in
      try_bind (resp_read_exact amount st) (\<lambda>(d, st).
      Inr (Some (UpData d), if amount = remaining then RbChunkEnd else RbChunkData (remaining - amount), st)))"

definition at_chunk_size ::
  "nat \<Rightarrow> nat \<Rightarrow> byte_stream \<Rightarrow> response_error + upstream_frame option \<times> resp_state \<times> byte_stream" where
  "at_chunk_size max_size max_count st =
     try_bind (read_crlf_line_bounded max_size st) (\<lambda>(l, st).
     try_bind (chunk_size_of l) (\<lambda>n.
     if n = 0 then
       try_bind (stream_trailers max_size max_count [] 0 st) (\<lambda>(ts, st).
       Inr (if ts = [] then None else Some (UpTrailers ts), RbDone, st))
     else read_chunk_data n st))"

text \<open>
  \<open>next_inner\<close>: the loop over the states is unrolled, since each state that does not return
  continues with one that is known.
\<close>

definition next_inner ::
  "(io_kind \<Rightarrow> bool) \<Rightarrow> nat \<Rightarrow> nat \<Rightarrow> resp_state \<Rightarrow> byte_stream \<Rightarrow>
    response_error + upstream_frame option \<times> resp_state \<times> byte_stream" where
  "next_inner msg max_size max_count s st =
     (case s of
        RbEmpty \<Rightarrow> Inr (None, RbDone, st)
      | RbDone \<Rightarrow> Inr (None, RbDone, st)
      | RbLength n \<Rightarrow>
          if n = 0 then Inr (None, RbDone, st)
          else
            (case read_some (min n READ_BUFFER_SIZE) st of
               Inl k \<Rightarrow> Inl (RespIo k)
             | Inr (d, st) \<Rightarrow>
                 if d = [] then Inl RespBodyCut else Inr (Some (UpData d), RbLength (n - length d), st))
      | RbChunkSize \<Rightarrow> at_chunk_size max_size max_count st
      | RbChunkData n \<Rightarrow> read_chunk_data n st
      | RbChunkEnd \<Rightarrow> try_bind (chunk_delimiter st) (at_chunk_size max_size max_count)
      | RbClose \<Rightarrow>
          (case read_some READ_BUFFER_SIZE st of
             Inl k \<Rightarrow> if tls_close_notify_missing msg k then Inr (None, RbDone, st) else Inl (RespIo k)
           | Inr (d, st) \<Rightarrow> if d = [] then Inr (None, RbDone, st) else Inr (Some (UpData d), RbClose, st)))"

lemma stream_trailers_consumes:
  "stream_trailers max_size max_count ts sz st = Inr (ts', st') \<Longrightarrow> length (str_bytes st') < length (str_bytes st)"
proof (induction max_size max_count ts sz st rule: stream_trailers.induct)
  case (1 max_size max_count ts sz st)
  from "1.prems" obtain l st1 where l: "read_crlf_line_bounded max_size st = Inr (l, st1)"
    by (subst (asm) stream_trailers.simps) (auto split: sum.splits)
  then have less: "length (str_bytes st1) < length (str_bytes st)" by (rule read_crlf_line_bounded_consumes)
  note step = stream_trailers.simps [of max_size max_count ts sz st]
  show ?case
  proof (cases "l = []")
    case True
    with "1.prems" l less show ?thesis by (simp add: step)
  next
    case False
    let ?sz = "saturating_add sz (length l + 2)"
    from "1.prems" l False obtain name v where v: "split_once l '':'' = Some (name, v)" "trim name \<noteq> []"
      "\<not> (max_size < ?sz \<or> max_count \<le> length ts)"
      "stream_trailers max_size max_count (ts @ [(trim name, trim v)]) ?sz st1 = Inr (ts', st')"
      by (auto simp: step Let_def split: if_splits option.splits)
    from "1.IH" [OF l refl False refl v(3,1) refl v(2,4)] less show ?thesis by simp
  qed
qed

lemma at_chunk_size_Some:
  "at_chunk_size max_size max_count st = Inr (Some f, s', st') \<Longrightarrow> length (str_bytes st') < length (str_bytes st)"
  by (auto simp: at_chunk_size_def try_bind_Inr resp_read_exact_Inr Let_def
      dest!: read_crlf_line_bounded_consumes stream_trailers_consumes split: if_splits)

lemma next_inner_progress:
  "next_inner msg max_size max_count s st = Inr (Some f, s', st') \<Longrightarrow>
     length (str_bytes st') < length (str_bytes st) \<or>
     length (str_bytes st') = length (str_bytes st) \<and> resp_rank s' < resp_rank s"
  by (auto simp: next_inner_def try_bind_Inr resp_read_exact_Inr Let_def min_def READ_BUFFER_SIZE_def
      dest!: read_some_Inr at_chunk_size_Some chunk_delimiter_consumes split: resp_state.splits if_splits sum.splits)

text \<open>The consumer's loop over \<open>next_frame\<close>: the frames, and how the body ended.\<close>

function body_frames ::
  "(io_kind \<Rightarrow> bool) \<Rightarrow> nat \<Rightarrow> nat \<Rightarrow> resp_state \<Rightarrow> byte_stream \<Rightarrow> upstream_frame list \<times> (response_error + byte_stream)" where
  "body_frames msg max_size max_count s st =
     (case next_inner msg max_size max_count s st of
        Inl e \<Rightarrow> ([], Inl e)
      | Inr (None, s', st') \<Rightarrow> ([], Inr st')
      | Inr (Some f, s', st') \<Rightarrow>
          (let (fs, r) = body_frames msg max_size max_count s' st' in (f # fs, r)))"
  by pat_completeness auto
termination
  by (relation "measures [\<lambda>(msg, max_size, max_count, s, st). length (str_bytes st),
      \<lambda>(msg, max_size, max_count, s, st). resp_rank s]")
     (auto dest: next_inner_progress)

declare body_frames.simps [simp del]

fun frames_data :: "upstream_frame list \<Rightarrow> string" where
  "frames_data [] = []"
| "frames_data (UpData d # fs) = d @ frames_data fs"
| "frames_data (UpTrailers ts # fs) = frames_data fs"

fun frames_trailers :: "upstream_frame list \<Rightarrow> headers" where
  "frames_trailers [] = []"
| "frames_trailers (UpData d # fs) = frames_trailers fs"
| "frames_trailers (UpTrailers ts # fs) = ts @ frames_trailers fs"

section \<open>Streamed and buffered bodies agree\<close>

text \<open>What the buffering readers read from the place where a stream stands.\<close>

definition resp_prepend :: "string \<Rightarrow> response_error + string \<times> headers \<times> byte_stream \<Rightarrow> response_error + string \<times> headers \<times> byte_stream" where
  "resp_prepend d r = (case r of Inl e \<Rightarrow> Inl e | Inr (b, ts, st) \<Rightarrow> Inr (d @ b, ts, st))"

lemma resp_prepend_simps [simp]:
  "resp_prepend d (Inl e) = Inl e" "resp_prepend d (Inr (b, ts, st)) = Inr (d @ b, ts, st)"
  "resp_prepend [] r = r" "resp_prepend (d @ d') r = resp_prepend d (resp_prepend d' r)"
  by (auto simp: resp_prepend_def split: sum.split)

lemma try_bind_resp_prepend: "try_bind r (\<lambda>x. resp_prepend d (f x)) = resp_prepend d (try_bind r f)"
  by (cases r) simp_all

lemma read_chunked_loop_body: "read_chunked_loop body st = resp_prepend body (read_chunked_body st)"
proof -
  have "read_chunked_loop (p @ body) st = resp_prepend p (read_chunked_loop body st)" for p body st
  proof (induction body st rule: read_chunked_loop.induct)
    case (1 body st)
    show ?case
    proof (cases "read_crlf_line st")
      case (Inl e)
      then show ?thesis by (simp add: read_chunked_loop.simps [of _ st])
    next
      case (Inr r)
      then obtain l st1 where l: "read_crlf_line st = Inr (l, st1)" by (cases r) auto
      show ?thesis
      proof (cases "chunk_size_of l")
        case (Inl e)
        with l show ?thesis by (simp add: read_chunked_loop.simps [of _ st])
      next
        case n: (Inr n)
        show ?thesis
        proof (cases "n = 0")
          case True
          with l n show ?thesis
            by (cases "skip_trailers [] st1") (auto simp: read_chunked_loop.simps [of _ st])
        next
          case False
          with 1 l n show ?thesis
            by (auto simp: read_chunked_loop.simps [of _ st] split: sum.split)
        qed
      qed
    qed
  qed
  from this [of body "[]" st] show ?thesis by (simp add: read_chunked_body_def)
qed

definition rest_of_chunk :: "nat \<Rightarrow> byte_stream \<Rightarrow> response_error + string \<times> headers \<times> byte_stream" where
  "rest_of_chunk n st =
     try_bind (resp_read_exact n st) (\<lambda>(d, st). try_bind (chunk_delimiter st) (\<lambda>st. resp_prepend d (read_chunked_body st)))"

definition buffered_from :: "(io_kind \<Rightarrow> bool) \<Rightarrow> resp_state \<Rightarrow> byte_stream \<Rightarrow> response_error + string \<times> headers \<times> byte_stream" where
  "buffered_from msg s st =
     (case s of
        RbEmpty \<Rightarrow> Inr ([], [], st)
      | RbDone \<Rightarrow> Inr ([], [], st)
      | RbLength n \<Rightarrow> try_bind (resp_read_exact n st) (\<lambda>(d, st). Inr (d, [], st))
      | RbChunkSize \<Rightarrow> read_chunked_body st
      | RbChunkData n \<Rightarrow> rest_of_chunk n st
      | RbChunkEnd \<Rightarrow> try_bind (chunk_delimiter st) read_chunked_body
      | RbClose \<Rightarrow> try_bind (read_to_eof msg [] st) (\<lambda>(d, st). Inr (d, [], st)))"

lemma read_chunked_body_step:
  "read_chunked_body st =
     try_bind (read_crlf_line st) (\<lambda>(l, st).
     try_bind (chunk_size_of l) (\<lambda>n.
     if n = 0 then try_bind (skip_trailers [] st) (\<lambda>(ts, st). Inr ([], ts, st)) else rest_of_chunk n st))"
  unfolding read_chunked_body_def [of st] read_chunked_loop.simps [of "[]" st]
  by (auto simp: read_chunked_loop_body rest_of_chunk_def split: sum.split)

lemma resp_read_exact_split:
  assumes "resp_read_exact m st = Inr (d, st')" "m \<le> n"
  shows "resp_read_exact n st =
    (case resp_read_exact (n - m) st' of Inl e \<Rightarrow> Inl e | Inr (d', st) \<Rightarrow> Inr (d @ d', st))"
  using assms by (auto simp: resp_read_exact_def read_exact_def add.commute split: if_splits simp flip: take_add)

lemma rest_of_chunk_split:
  assumes "resp_read_exact m st = Inr (d, st')" "m \<le> n"
  shows "rest_of_chunk n st = resp_prepend d (rest_of_chunk (n - m) st')"
  unfolding rest_of_chunk_def resp_read_exact_split [OF assms]
  by (auto simp: try_bind_resp_prepend split: sum.split)

text \<open>
  The lines of a chunked body that are not data: the sizes of its chunks and its trailers, up to
  the empty line.
\<close>

function trailer_lines :: "nat \<Rightarrow> byte_stream \<Rightarrow> string list" where
  "trailer_lines max_size st =
     (case read_crlf_line_bounded max_size st of
        Inl _ \<Rightarrow> []
      | Inr (l, st') \<Rightarrow> l # (if l = [] then [] else trailer_lines max_size st'))"
  by pat_completeness auto
termination
  by (relation "measure (\<lambda>(max_size, st). length (str_bytes st))") (auto dest: read_crlf_line_bounded_consumes)

declare trailer_lines.simps [simp del]

definition skip_bytes :: "nat \<Rightarrow> byte_stream \<Rightarrow> byte_stream" where
  "skip_bytes n st = st\<lparr>str_bytes := drop n (str_bytes st)\<rparr>"

function chunk_lines :: "nat \<Rightarrow> byte_stream \<Rightarrow> string list" where
  "chunk_lines max_size st =
     (case read_crlf_line_bounded max_size st of
        Inl _ \<Rightarrow> []
      | Inr (l, st') \<Rightarrow>
          l # (case chunk_size_of l of
                 Inl _ \<Rightarrow> []
               | Inr n \<Rightarrow> if n = 0 then trailer_lines max_size st' else chunk_lines max_size (skip_bytes (n + 2) st')))"
  by pat_completeness auto
termination
  by (relation "measure (\<lambda>(max_size, st). length (str_bytes st))")
     (auto simp: skip_bytes_def dest!: read_crlf_line_bounded_consumes)

declare chunk_lines.simps [simp del]

definition lines_from :: "nat \<Rightarrow> resp_state \<Rightarrow> byte_stream \<Rightarrow> string list" where
  "lines_from max_size s st =
     (case s of
        RbChunkSize \<Rightarrow> chunk_lines max_size st
      | RbChunkData n \<Rightarrow> chunk_lines max_size (skip_bytes (n + 2) st)
      | RbChunkEnd \<Rightarrow> chunk_lines max_size (skip_bytes 2 st)
      | _ \<Rightarrow> [])"

definition short_lines :: "string list \<Rightarrow> bool" where
  "short_lines ls \<longleftrightarrow> list_all (\<lambda>l. length l < 8192) ls"

definition if_short :: "string list \<Rightarrow> response_error + 'a \<Rightarrow> response_error + 'a" where
  "if_short ls r = (if short_lines ls then r else Inl RespLineLimit)"

lemma if_short_simps [simp]:
  "if_short [] r = r" "if_short (l # ls) r = (if length l < 8192 then if_short ls r else Inl RespLineLimit)"
  by (simp_all add: if_short_def short_lines_def)

lemma if_short_bind: "try_bind (if_short ls r) f = if_short ls (try_bind r f)"
  by (simp add: if_short_def)

lemma skip_bytes_exact: "resp_read_exact m st = Inr (d, st') \<Longrightarrow> skip_bytes k st' = skip_bytes (m + k) st"
  by (auto simp: resp_read_exact_Inr skip_bytes_def add.commute)

lemma stream_trailers_buffered:
  "stream_trailers max_size max_count ts sz st = Inr r \<Longrightarrow> skip_trailers ts st = if_short (trailer_lines max_size st) (Inr r)"
proof (induction max_size max_count ts sz st rule: stream_trailers.induct)
  case (1 max_size max_count ts sz st)
  from "1.prems" obtain l st1 where l: "read_crlf_line_bounded max_size st = Inr (l, st1)"
    by (subst (asm) stream_trailers.simps) (auto split: sum.splits)
  note l' = read_line_bounded_lossy [OF l]
  note step = stream_trailers.simps [of max_size max_count ts sz st] and lines = trailer_lines.simps [of max_size st]
  show ?case
  proof (cases "l = []")
    case True
    with "1.prems" l l' show ?thesis by (simp add: step lines skip_trailers.simps [of ts st])
  next
    case False
    let ?sz = "saturating_add sz (length l + 2)"
    from "1.prems" l False obtain name v where v: "split_once l '':'' = Some (name, v)" "trim name \<noteq> []"
      "\<not> (max_size < ?sz \<or> max_count \<le> length ts)"
      "stream_trailers max_size max_count (ts @ [(trim name, trim v)]) ?sz st1 = Inr r"
      by (auto simp: step Let_def split: if_splits option.splits)
    from "1.IH" [OF l refl False refl v(3,1) refl v(2,4)] False v l l' show ?thesis
      by (simp add: lines skip_trailers.simps [of ts st])
  qed
qed

lemma read_chunk_data_buffered:
  assumes "read_chunk_data n st = Inr (f, s', st')"
  shows "\<exists>d. f = Some (UpData d) \<and> rest_of_chunk n st = resp_prepend d (buffered_from msg s' st') \<and>
    lines_from max_size s' st' = chunk_lines max_size (skip_bytes (n + 2) st)"
proof -
  let ?m = "min n READ_BUFFER_SIZE"
  obtain d where d: "resp_read_exact ?m st = Inr (d, st')" "f = Some (UpData d)"
    "s' = (if ?m = n then RbChunkEnd else RbChunkData (n - ?m))"
    using assms by (auto simp: Let_def try_bind_Inr)
  have zero: "rest_of_chunk 0 st' = try_bind (chunk_delimiter st') read_chunked_body"
    by (simp add: rest_of_chunk_def resp_read_exact_def read_exact_def)
  have "lines_from max_size s' st' = chunk_lines max_size (skip_bytes (n - ?m + 2) st')" by (simp add: d(3) lines_from_def numeral_2_eq_2)
  moreover have "skip_bytes (n - ?m + 2) st' = skip_bytes (n + 2) st" by (simp add: skip_bytes_exact [OF d(1)])
  ultimately show ?thesis using rest_of_chunk_split [OF d(1), of n] d(2,3) by (auto simp: buffered_from_def zero)
qed

text \<open>What a frame of the stream means for the buffering reader, given the lines that follow it.\<close>

definition frame_buffered ::
  "(io_kind \<Rightarrow> bool) \<Rightarrow> nat \<Rightarrow> upstream_frame option \<Rightarrow> resp_state \<Rightarrow> byte_stream \<Rightarrow> string list \<Rightarrow>
    response_error + string \<times> headers \<times> byte_stream \<Rightarrow> bool" where
  "frame_buffered msg max_size f s' st' ls r \<longleftrightarrow>
     (case f of
        Some (UpData d) \<Rightarrow> \<exists>l. ls = l @ lines_from max_size s' st' \<and> r = if_short l (resp_prepend d (buffered_from msg s' st'))
      | Some (UpTrailers ts) \<Rightarrow> r = if_short ls (Inr ([], ts, st')) \<and> s' = RbDone
      | None \<Rightarrow> r = if_short ls (Inr ([], [], st')))"

lemma at_chunk_size_buffered:
  assumes "at_chunk_size max_size max_count st = Inr (f, s', st')"
  shows "frame_buffered msg max_size f s' st' (chunk_lines max_size st) (read_chunked_body st)"
proof -
  obtain l st1 n where l: "read_crlf_line_bounded max_size st = Inr (l, st1)" and n: "chunk_size_of l = Inr n"
    using assms by (auto simp: at_chunk_size_def try_bind_Inr)
  note l' = read_line_bounded_lossy [OF l] and lines = chunk_lines.simps [of max_size st]
  show ?thesis
  proof (cases "n = 0")
    case True
    with assms l n obtain ts where "stream_trailers max_size max_count [] 0 st1 = Inr (ts, st')"
      "f = (if ts = [] then None else Some (UpTrailers ts))" "s' = RbDone"
      by (auto simp: at_chunk_size_def try_bind_Inr)
    with stream_trailers_buffered [OF this(1)] True l l' n show ?thesis
      by (auto simp: read_chunked_body_step [of st] frame_buffered_def lines if_short_bind)
  next
    case False
    with assms(1) l n have "read_chunk_data n st1 = Inr (f, s', st')" by (simp add: at_chunk_size_def)
    from read_chunk_data_buffered [OF this, of msg max_size] False l l' n show ?thesis
      by (auto simp: read_chunked_body_step [of st] frame_buffered_def lines if_short_bind)
  qed
qed

lemma read_to_eof_body: "read_to_eof msg (p @ body) st = map_sum id (map_prod (\<lambda>b. p @ b) id) (read_to_eof msg body st)"
proof (induction msg body st rule: read_to_eof.induct)
  case (1 msg body st)
  then show ?case
    by (auto simp: read_to_eof.simps [of msg _ st] split: sum.split)
qed

text \<open>Reading to the end gives all the bytes, however they are split.\<close>

lemma read_to_eof_all:
  "map_sum id (map_prod id str_bytes) (read_to_eof msg body st) =
     (case str_close st of
        None \<Rightarrow> Inr (body @ str_bytes st, [])
      | Some k \<Rightarrow> if tls_close_notify_missing msg k then Inr (body @ str_bytes st, []) else Inl (RespIo k))"
proof (induction msg body st rule: read_to_eof.induct)
  case (1 msg body st)
  show ?case
  proof (cases "str_bytes st = []")
    case True
    then show ?thesis
      by (auto simp: read_to_eof.simps [of msg body st] read_some_def split: option.splits)
  next
    case False
    obtain d st' where d: "read_some 8192 st = Inr (d, st')"
      using False by (auto simp: read_some_def Let_def)
    from read_some_Inr [OF d] False have *: "d \<noteq> []" "str_bytes st = d @ str_bytes st'" "str_close st' = str_close st" by auto
    with 1 [OF d refl] d show ?thesis by (simp add: read_to_eof.simps [of msg body st] split: option.splits)
  qed
qed

definition seen_after :: "string \<Rightarrow> response_error + string \<times> headers \<times> byte_stream \<Rightarrow> response_error + string \<times> headers \<times> string" where
  "seen_after p r = map_sum id (\<lambda>(b, ts, st). (p @ b, ts, str_bytes st)) r"

lemma seen_after_simps [simp]:
  "seen_after p (resp_prepend d r) = seen_after (p @ d) r" "seen_after p (Inl e) = Inl e"
  "seen_after p (Inr (b, ts, st)) = Inr (p @ b, ts, str_bytes st)"
  by (auto simp: seen_after_def resp_prepend_def split: sum.split)

lemma buffered_length_seen:
  "seen_after p (buffered_from msg (RbLength n) st) =
     (if n \<le> length (str_bytes st) then Inr (p @ take n (str_bytes st), [], drop n (str_bytes st))
      else Inl (RespIo (case str_close st of None \<Rightarrow> UnexpectedEof | Some e \<Rightarrow> e)))"
  by (simp add: buffered_from_def resp_read_exact_def read_exact_def)

lemma buffered_close_seen:
  "seen_after p (buffered_from msg RbClose st) =
     (if case str_close st of None \<Rightarrow> True | Some k \<Rightarrow> tls_close_notify_missing msg k then Inr (p @ str_bytes st, [], [])
      else Inl (RespIo (the (str_close st))))"
  using read_to_eof_all [of msg "[]" st]
  by (cases "read_to_eof msg [] st") (auto simp: buffered_from_def split: option.splits if_splits)

text \<open>The same for all states, up to the data read before and the state of the stream.\<close>

definition frame_seen ::
  "(io_kind \<Rightarrow> bool) \<Rightarrow> nat \<Rightarrow> string \<Rightarrow> upstream_frame option \<Rightarrow> resp_state \<Rightarrow> byte_stream \<Rightarrow> string list \<Rightarrow>
    response_error + string \<times> headers \<times> byte_stream \<Rightarrow> bool" where
  "frame_seen msg max_size p f s' st' ls r \<longleftrightarrow>
     (case f of
        Some (UpData d) \<Rightarrow> \<exists>l. ls = l @ lines_from max_size s' st' \<and> seen_after p r = if_short l (seen_after (p @ d) (buffered_from msg s' st'))
      | Some (UpTrailers ts) \<Rightarrow> seen_after p r = if_short ls (Inr (p, ts, str_bytes st')) \<and> s' = RbDone
      | None \<Rightarrow> seen_after p r = if_short ls (Inr (p, [], str_bytes st')))"

lemma seen_if_short: "seen_after p (if_short l r) = if_short l (seen_after p r)"
  by (simp add: if_short_def)

lemma frame_buffered_seen: "frame_buffered msg max_size f s' st' ls r \<Longrightarrow> frame_seen msg max_size p f s' st' ls r"
  by (auto simp: frame_buffered_def frame_seen_def seen_if_short split: option.splits upstream_frame.splits)

lemma next_inner_buffered:
  assumes "next_inner msg max_size max_count s st = Inr (f, s', st')"
  shows "frame_seen msg max_size p f s' st' (lines_from max_size s st) (buffered_from msg s st)"
proof (cases s)
  case (RbLength n)
  show ?thesis
  proof (cases "n = 0")
    case True
    with assms RbLength show ?thesis by (auto simp: next_inner_def buffered_length_seen frame_seen_def lines_from_def)
  next
    case False
    with assms RbLength obtain d where d: "read_some (min n READ_BUFFER_SIZE) st = Inr (d, st')"
      "f = Some (UpData d)" "s' = RbLength (n - length d)"
      by (auto simp: next_inner_def split: sum.splits if_splits)
    from read_some_Inr [OF d(1)] have "str_bytes st = d @ str_bytes st'" "length d \<le> n" "str_close st' = str_close st" by auto
    with d RbLength show ?thesis by (auto simp: buffered_length_seen frame_seen_def lines_from_def)
  qed
next
  case RbClose
  show ?thesis
  proof (cases "read_some READ_BUFFER_SIZE st")
    case (Inl k)
    then have "str_bytes st = []" "str_close st = Some k"
      by (auto simp: read_some_def Let_def split: if_splits option.splits)
    with Inl assms RbClose show ?thesis
      by (auto simp: next_inner_def buffered_close_seen frame_seen_def lines_from_def split: if_splits)
  next
    case (Inr r)
    then obtain d st1 where d: "read_some READ_BUFFER_SIZE st = Inr (d, st1)" by (cases r) auto
    from read_some_Inr [OF d] have *: "str_bytes st = d @ str_bytes st1" "str_close st1 = str_close st"
      "d = [] \<Longrightarrow> str_bytes st = [] \<and> str_close st = None"
      by (auto simp: READ_BUFFER_SIZE_def)
    with d assms RbClose show ?thesis
      by (cases "d = []") (auto simp: next_inner_def buffered_close_seen frame_seen_def lines_from_def)
  qed
next
  case RbChunkSize
  with assms have "at_chunk_size max_size max_count st = Inr (f, s', st')" by (simp add: next_inner_def)
  from frame_buffered_seen [OF at_chunk_size_buffered [OF this]] RbChunkSize show ?thesis
    by (simp add: buffered_from_def lines_from_def)
next
  case (RbChunkData n)
  with assms have "read_chunk_data n st = Inr (f, s', st')" by (simp add: next_inner_def)
  from read_chunk_data_buffered [OF this, of msg max_size] RbChunkData show ?thesis
    by (auto simp: buffered_from_def frame_seen_def lines_from_def [of _ "RbChunkData n"])
next
  case RbChunkEnd
  with assms obtain st1 where c: "chunk_delimiter st = Inr st1" "at_chunk_size max_size max_count st1 = Inr (f, s', st')"
    by (auto simp: next_inner_def try_bind_Inr)
  then have "st1 = skip_bytes 2 st"
    by (auto simp: chunk_delimiter_def try_bind_Inr resp_read_exact_Inr skip_bytes_def split: if_splits)
  with RbChunkEnd c(1) frame_buffered_seen [OF at_chunk_size_buffered [OF c(2)]] show ?thesis
    by (simp add: buffered_from_def lines_from_def)
qed (use assms in \<open>auto simp: next_inner_def buffered_from_def frame_seen_def lines_from_def\<close>)

lemma if_short_append: "if_short (ls @ ms) r = if_short ls (if_short ms r)"
  by (simp add: if_short_def short_lines_def)

lemma body_frames_buffered:
  "body_frames msg max_size max_count s st = (fs, Inr st') \<Longrightarrow>
     seen_after p (buffered_from msg s st) =
       if_short (lines_from max_size s st) (Inr (p @ frames_data fs, frames_trailers fs, str_bytes st'))"
proof (induction msg max_size max_count s st arbitrary: p fs rule: body_frames.induct)
  case (1 msg max_size max_count s st)
  note step = body_frames.simps [of msg max_size max_count s st]
  from "1.prems"(1) obtain f s1 st1 where f: "next_inner msg max_size max_count s st = Inr (f, s1, st1)"
    by (auto simp: step split: sum.splits)
  note n = next_inner_buffered [OF f, of p, unfolded frame_seen_def]
  show ?case
  proof (cases f)
    case None
    with "1.prems" f n show ?thesis by (simp add: step)
  next
    case (Some g)
    obtain gs where gs: "body_frames msg max_size max_count s1 st1 = (gs, Inr st')" "fs = g # gs"
      using "1.prems"(1) f Some by (auto simp: step Let_def split: prod.splits)
    show ?thesis
    proof (cases g)
      case (UpData d)
      with n Some obtain l where "lines_from max_size s st = l @ lines_from max_size s1 st1"
        "seen_after p (buffered_from msg s st) = if_short l (seen_after (p @ d) (buffered_from msg s1 st1))"
        by auto
      with UpData 1(1) [OF f refl Some refl gs(1), of "p @ d"] gs(2) show ?thesis by (simp add: if_short_append)
    next
      case (UpTrailers ts)
      with n Some gs show ?thesis
        by (auto simp: body_frames.simps [of msg max_size max_count RbDone st1] next_inner_def)
    qed
  qed
qed

text \<open>
  C14: A response body that was streamed to its end is the body that the buffering reader reads
  from the same connection, for every response that has a body (not so the answer to a \<open>HEAD\<close> or a
  204, which is empty whatever its head says): the same data, the same trailers, and the same bytes left for the
  next response. The sizes of the partial reads, of the stream's 16 KiB buffer and of the
  reader's 8 KiB buffer do not show. The one difference is the reader's own limit of 8 KiB for
  a line, where the stream has the configured limit: the reader fails, with that limit as its error,
  exactly when a chunk size or trailer line of the body has 8192 bytes or more.
\<close>

theorem streamed_body_is_buffered_body:
  assumes "body_stream_new method status headers = Inr s" "s \<noteq> RbEmpty"
    and "body_frames msg max_size max_count s st = (fs, Inr st')"
  shows "map_sum id (map_prod id (map_prod id str_bytes)) (read_response_body msg headers st) =
    (if s = RbChunkSize \<and> list_ex (\<lambda>l. 8192 \<le> length l) (chunk_lines max_size st) then Inl RespLineLimit
     else Inr (frames_data fs, frames_trailers fs, str_bytes st'))"
proof -
  have b: "read_response_body msg headers st = buffered_from msg s st" "lines_from max_size s st = (if s = RbChunkSize then chunk_lines max_size st else [])"
    using assms(1,2)
    by (auto simp: body_stream_new_def read_response_body_def buffered_from_def lines_from_def split: if_splits option.splits)
  have e: "if_short ls r = (if list_ex (\<lambda>l. 8192 \<le> length l) ls then Inl RespLineLimit else r)" for ls and r :: "response_error + 'a"
    by (auto simp: if_short_def short_lines_def list_all_iff list_ex_iff)
  from body_frames_buffered [OF assms(3), of "[]"] b show ?thesis
    by (cases "buffered_from msg s st") (auto simp: seen_after_def e split: if_splits)
qed

definition demo_chunked :: byte_stream where
  "demo_chunked =
     \<lparr>str_bytes = ''2'' @ CRLF @ ''ok'' @ CRLF @ ''0'' @ CRLF @ ''A:b'' @ CRLF @ CRLF, str_close = None, str_parts = [1]\<rparr>"

lemma streamed_body_is_buffered_body_witness:
  "\<exists>fs st'. body_frames (\<lambda>_. False) 262144 4 RbChunkSize demo_chunked = (fs, Inr st') \<and>
     map_sum id (map_prod id (map_prod id str_bytes))
       (read_response_body (\<lambda>_. False) [(''Transfer-Encoding'', ''chunked'')] demo_chunked) =
       Inr (''ok'', [(''A'', ''b'')], [])"
proof -
  have "case body_frames (\<lambda>_. False) 262144 4 RbChunkSize demo_chunked of
      (fs, Inr st') \<Rightarrow> frames_data fs = ''ok'' \<and> frames_trailers fs = [(''A'', ''b'')] \<and> str_bytes st' = [] | _ \<Rightarrow> False"
    by code_simp
  then obtain fs st' where f: "body_frames (\<lambda>_. False) 262144 4 RbChunkSize demo_chunked = (fs, Inr st')"
    "frames_data fs = ''ok''" "frames_trailers fs = [(''A'', ''b'')]" "str_bytes st' = []"
    by (auto split: prod.splits sum.splits)
  have n: "body_stream_new ''GET'' 200 [(''Transfer-Encoding'', ''chunked'')] = Inr RbChunkSize"
    "\<not> list_ex (\<lambda>l. 8192 \<le> length l) (chunk_lines 262144 demo_chunked)" by code_simp+
  from streamed_body_is_buffered_body [OF n(1) _ f(1)] f n(2) show ?thesis by auto
qed

section \<open>The relays of the fast path\<close>

definition RELAY_BUFFER_SIZE :: nat where "RELAY_BUFFER_SIZE = 16 * 1024"

record body_summary =
  bsum_bytes :: nat
  bsum_head :: string
  bsum_limit :: nat

definition body_summary_new :: "nat \<Rightarrow> body_summary" where
  "body_summary_new limit = \<lparr>bsum_bytes = 0, bsum_head = [], bsum_limit = limit\<rparr>"

definition summary_observe :: "string \<Rightarrow> body_summary \<Rightarrow> body_summary" where
  "summary_observe data sm =
     sm\<lparr>bsum_bytes := min (bsum_bytes sm + length data) U64_MAX,
        bsum_head := bsum_head sm @ take (bsum_limit sm - length (bsum_head sm)) data\<rparr>"

type_synonym relay_state = "byte_stream \<times> byte_sink \<times> body_summary"

definition resp_write :: "string \<Rightarrow> byte_sink \<Rightarrow> response_error + byte_sink" where
  "resp_write bs snk = map_sum RespWrite id (sink_write bs snk)"

text \<open>The inner loop of both relays, with the encoding of a piece as a parameter.\<close>

function relay_pieces :: "(string \<Rightarrow> string) \<Rightarrow> nat \<Rightarrow> relay_state \<Rightarrow> response_error + relay_state" where
  "relay_pieces enc remaining rs =
     (if remaining = 0 then Inr rs
      else
        (let amount = min remaining RELAY_BUFFER_SIZE; (st, snk, sm) = rs in
         case resp_read_exact amount st of
           Inl e \<Rightarrow> Inl e
         | Inr (d, st) \<Rightarrow>
             (case resp_write (enc d) snk of
                Inl e \<Rightarrow> Inl e
              | Inr snk \<Rightarrow> relay_pieces enc (remaining - amount) (st, snk, summary_observe d sm))))"
  by pat_completeness auto
termination by (relation "measure (\<lambda>(enc, remaining, rs). remaining)") (auto simp: RELAY_BUFFER_SIZE_def)

declare relay_pieces.simps [simp del]

definition relay_exact :: "nat \<Rightarrow> relay_state \<Rightarrow> response_error + relay_state" where
  "relay_exact n rs = relay_pieces (\<lambda>d. d) n rs"

function relay_to_eof :: "relay_state \<Rightarrow> response_error + relay_state" where
  "relay_to_eof rs =
     (let (st, snk, sm) = rs in
      case read_some RELAY_BUFFER_SIZE st of
        Inl k \<Rightarrow> Inl (RespIo k)
      | Inr (d, st') \<Rightarrow>
          if d = [] then Inr (st', snk, sm)
          else
            (case resp_write d snk of
               Inl e \<Rightarrow> Inl e
             | Inr snk \<Rightarrow> relay_to_eof (st', snk, summary_observe d sm)))"
  by pat_completeness auto
termination by (relation "measure (\<lambda>(st, snk, sm). length (str_bytes st))") (auto dest!: read_some_Inr)

declare relay_to_eof.simps [simp del]

function relay_trailers :: "nat \<Rightarrow> nat \<Rightarrow> headers \<Rightarrow> nat \<Rightarrow> byte_stream \<Rightarrow> response_error + headers \<times> byte_stream" where
  "relay_trailers max_size max_count ts sz st =
     (case read_crlf_line st of
        Inl e \<Rightarrow> Inl e
      | Inr (l, st') \<Rightarrow>
          if l = [] then Inr (ts, st')
          else
            (let sz = saturating_add sz (length l + 2) in
             if max_size < sz \<or> max_count \<le> length ts then Inl RespTrailerLimit
             else
               (case split_once l '':'' of
                  None \<Rightarrow> Inl RespTrailer
                | Some (name, value) \<Rightarrow>
                    relay_trailers max_size max_count (ts @ [(trim name, trim value)]) sz st')))"
  by pat_completeness auto
termination
  by (relation "measure (\<lambda>(max_size, max_count, ts, sz, st). length (str_bytes st))")
     (auto dest: read_crlf_line_consumes)

declare relay_trailers.simps [simp del]

lemma relay_pieces_consumes:
  "relay_pieces enc n (st, snk, sm) = Inr (st', snk', sm') \<Longrightarrow> length (str_bytes st') \<le> length (str_bytes st)"
proof (induction enc n "(st, snk, sm)" arbitrary: st snk sm rule: relay_pieces.induct)
  case (1 enc n st snk sm)
  show ?case
  proof (cases "n = 0")
    case False
    with "1.prems" obtain d st1 snk1 where d: "resp_read_exact (min n RELAY_BUFFER_SIZE) st = Inr (d, st1)"
      "resp_write (enc d) snk = Inr snk1"
      "relay_pieces enc (n - min n RELAY_BUFFER_SIZE) (st1, snk1, summary_observe d sm) = Inr (st', snk', sm')"
      by (subst (asm) relay_pieces.simps) (auto simp: Let_def split: sum.splits)
    from "1.hyps" [OF False refl refl refl refl d(1) refl d(2,3)] d(1) show ?thesis by (auto simp: resp_read_exact_Inr)
  qed (use "1.prems" in \<open>simp add: relay_pieces.simps [of enc 0]\<close>)
qed

function relay_chunked :: "nat \<Rightarrow> nat \<Rightarrow> relay_state \<Rightarrow> response_error + headers \<times> relay_state" where
  "relay_chunked max_size max_count rs =
     (let (st, snk, sm) = rs in
      case read_crlf_line st of
        Inl e \<Rightarrow> Inl e
      | Inr (l, st1) \<Rightarrow>
          (case chunk_size_of l of
             Inl e \<Rightarrow> Inl e
           | Inr n \<Rightarrow>
               if n = 0 then try_bind (relay_trailers max_size max_count [] 0 st1) (\<lambda>(ts, st). Inr (ts, st, snk, sm))
               else
                 (case relay_pieces chunk_bytes n (st1, snk, sm) of
                    Inl e \<Rightarrow> Inl e
                  | Inr (st2, snk2, sm2) \<Rightarrow>
                      (case chunk_delimiter st2 of
                         Inl e \<Rightarrow> Inl e
                       | Inr st3 \<Rightarrow> relay_chunked max_size max_count (st3, snk2, sm2)))))"
  by pat_completeness auto
termination
  by (relation "measure (\<lambda>(max_size, max_count, st, snk, sm). length (str_bytes st))")
     (auto dest!: read_crlf_line_consumes relay_pieces_consumes chunk_delimiter_consumes)

declare relay_chunked.simps [simp del]

definition write_chunk_end :: "headers \<Rightarrow> byte_sink \<Rightarrow> response_error + byte_sink" where
  "write_chunk_end trailers snk = resp_write (''0'' @ CRLF @ concat (map trailer_bytes trailers) @ CRLF) snk"

lemma summary_observe_twice: "summary_observe b (summary_observe a sm) = summary_observe (a @ b) sm"
  by (auto simp: summary_observe_def min_def)

lemma summary_observe_nothing: "bsum_bytes sm \<le> U64_MAX \<Longrightarrow> summary_observe [] sm = sm"
  by (simp add: summary_observe_def)

lemma summary_observe_bytes: "bsum_bytes (summary_observe d sm) \<le> U64_MAX"
  by (simp add: summary_observe_def)

lemma resp_write_out: "resp_write bs snk = Inr snk' \<Longrightarrow> snk_out snk' = snk_out snk @ bs"
  by (cases "sink_write bs snk") (auto simp: resp_write_def dest: sink_write_Inr)

lemma relay_pieces_out:
  assumes "relay_pieces enc n (st, snk, sm) = Inr (st', snk', sm')" "bsum_bytes sm \<le> U64_MAX"
  shows "\<exists>ds. list_all (\<lambda>d. d \<noteq> [] \<and> length d \<le> RELAY_BUFFER_SIZE) ds \<and> resp_read_exact n st = Inr (concat ds, st') \<and>
    snk_out snk' = snk_out snk @ concat (map enc ds) \<and> sm' = summary_observe (concat ds) sm"
  using assms
proof (induction enc n "(st, snk, sm)" arbitrary: st snk sm rule: relay_pieces.induct)
  case (1 enc n st snk sm)
  show ?case
  proof (cases "n = 0")
    case True
    with "1.prems" show ?thesis
      by (intro exI [of _ "[]"]) (simp add: relay_pieces.simps [of enc 0] resp_read_exact_Inr summary_observe_nothing)
  next
    case False
    let ?m = "min n RELAY_BUFFER_SIZE"
    from False "1.prems" obtain d st1 snk1 where d: "resp_read_exact ?m st = Inr (d, st1)"
      "resp_write (enc d) snk = Inr snk1"
      "relay_pieces enc (n - ?m) (st1, snk1, summary_observe d sm) = Inr (st', snk', sm')"
      by (subst (asm) relay_pieces.simps) (auto simp: Let_def split: sum.splits)
    from "1.hyps" [OF False refl refl refl refl d(1) refl d(2,3) summary_observe_bytes] obtain ds where
      ds: "list_all (\<lambda>d. d \<noteq> [] \<and> length d \<le> RELAY_BUFFER_SIZE) ds" "resp_read_exact (n - ?m) st1 = Inr (concat ds, st')"
      "snk_out snk' = snk_out snk1 @ concat (map enc ds)" "sm' = summary_observe (concat ds) (summary_observe d sm)"
      by blast
    have "d \<noteq> [] \<and> length d \<le> RELAY_BUFFER_SIZE"
      using d(1) False by (auto simp: resp_read_exact_Inr RELAY_BUFFER_SIZE_def)
    with ds resp_read_exact_split [OF d(1), of n] resp_write_out [OF d(2)] show ?thesis
      by (intro exI [of _ "d # ds"]) (simp add: summary_observe_twice)
  qed
qed

lemma relay_trailers_buffered:
  "relay_trailers max_size max_count ts sz st = Inr (ts', st') \<Longrightarrow>
     skip_trailers (filter (\<lambda>t. fst t \<noteq> []) ts) st = Inr (filter (\<lambda>t. fst t \<noteq> []) ts', st')"
proof (induction max_size max_count ts sz st rule: relay_trailers.induct)
  case (1 max_size max_count ts sz st)
  from "1.prems" obtain l st1 where l: "read_crlf_line st = Inr (l, st1)"
    by (subst (asm) relay_trailers.simps) (auto split: sum.splits)
  note step = relay_trailers.simps [of max_size max_count ts sz st]
  show ?case
  proof (cases "l = []")
    case True
    with "1.prems" l show ?thesis by (simp add: step skip_trailers.simps [of _ st])
  next
    case False
    let ?sz = "saturating_add sz (length l + 2)"
    from "1.prems" l False obtain name v where v: "split_once l '':'' = Some (name, v)"
      "\<not> (max_size < ?sz \<or> max_count \<le> length ts)"
      "relay_trailers max_size max_count (ts @ [(trim name, trim v)]) ?sz st1 = Inr (ts', st')"
      by (auto simp: step Let_def split: if_splits option.splits)
    from "1.IH" [OF l refl False refl v(2,1) refl v(3)] False v(1) l show ?thesis
      by (simp add: skip_trailers.simps [of _ st] if_distrib cong: if_cong split: if_splits)
  qed
qed

lemma relay_chunked_out:
  assumes "relay_chunked max_size max_count (st, snk, sm) = Inr (ts, st', snk', sm')" "bsum_bytes sm \<le> U64_MAX"
  shows "\<exists>ds. list_all (\<lambda>d. d \<noteq> [] \<and> length d \<le> RELAY_BUFFER_SIZE) ds \<and>
    read_chunked_body st = Inr (concat ds, filter (\<lambda>t. fst t \<noteq> []) ts, st') \<and>
    snk_out snk' = snk_out snk @ concat (map chunk_bytes ds) \<and> sm' = summary_observe (concat ds) sm"
  using assms
proof (induction max_size max_count "(st, snk, sm)" arbitrary: st snk sm rule: relay_chunked.induct)
  case (1 max_size max_count st snk sm)
  note step = relay_chunked.simps [of max_size max_count "(st, snk, sm)"]
  from "1.prems"(1) obtain l st1 n where l: "read_crlf_line st = Inr (l, st1)" "chunk_size_of l = Inr n"
    by (auto simp: step Let_def split: sum.splits)
  show ?case
  proof (cases "n = 0")
    case True
    with "1.prems" l have "relay_trailers max_size max_count [] 0 st1 = Inr (ts, st')" "snk' = snk" "sm' = sm"
      by (auto simp: step Let_def try_bind_Inr)
    with relay_trailers_buffered [OF this(1)] True l "1.prems"(2) show ?thesis
      by (intro exI [of _ "[]"]) (simp add: read_chunked_body_step [of st] summary_observe_nothing)
  next
    case False
    with "1.prems"(1) l obtain st2 snk2 sm2 st3 where p: "relay_pieces chunk_bytes n (st1, snk, sm) = Inr (st2, snk2, sm2)"
      "chunk_delimiter st2 = Inr st3" "relay_chunked max_size max_count (st3, snk2, sm2) = Inr (ts, st', snk', sm')"
      by (auto simp: step Let_def split: sum.splits)
    from relay_pieces_out [OF p(1) "1.prems"(2)] obtain ds where
      ds: "list_all (\<lambda>d. d \<noteq> [] \<and> length d \<le> RELAY_BUFFER_SIZE) ds" "resp_read_exact n st1 = Inr (concat ds, st2)"
      "snk_out snk2 = snk_out snk @ concat (map chunk_bytes ds)" "sm2 = summary_observe (concat ds) sm"
      by blast
    then have "bsum_bytes sm2 \<le> U64_MAX" using summary_observe_bytes by simp
    from "1.hyps" [OF refl refl refl l(1) refl l(2) False p(1) refl refl p(2,3) this] obtain es where
      es: "list_all (\<lambda>d. d \<noteq> [] \<and> length d \<le> RELAY_BUFFER_SIZE) es"
      "read_chunked_body st3 = Inr (concat es, filter (\<lambda>t. fst t \<noteq> []) ts, st')"
      "snk_out snk' = snk_out snk2 @ concat (map chunk_bytes es)" "sm' = summary_observe (concat es) sm2"
      by blast
    have "read_chunked_body st = Inr (concat (ds @ es), filter (\<lambda>t. fst t \<noteq> []) ts, st')"
      using False l ds(2) p(2) es(2) by (simp add: read_chunked_body_step [of st] rest_of_chunk_def)
    with ds es show ?thesis by (intro exI [of _ "ds @ es"]) (simp add: summary_observe_twice)
  qed
qed

text \<open>
  The fast path relays a chunked response unchanged: when it reaches the end, the body is
  the one the buffering reader reads, the bytes sent to the client followed by the last chunk
  (with any valid trailers) decode to that body with those trailers, and the summary has its
  length and its head.
\<close>

theorem relay_chunked_preserves_body:
  assumes "relay_chunked max_size max_count (st, snk, body_summary_new limit) = Inr (ts, st', snk', sm')"
  shows "\<exists>body out. read_chunked_body st = Inr (body, filter (\<lambda>t. fst t \<noteq> []) ts, st') \<and>
    snk_out snk' = snk_out snk @ out \<and>
    bsum_bytes sm' = min (length body) U64_MAX \<and> bsum_head sm' = take limit body \<and>
    (\<forall>trailers max_size max_count rest close parts.
      list_all trailer_ok trailers \<and> 16 \<le> max_size \<and> trailers_length trailers \<le> max_size \<and>
      max_size + 2 \<le> USIZE_MAX \<and> length trailers \<le> max_count \<longrightarrow>
      decode_body max_size max_count (BodyChunked 0)
        \<lparr>str_bytes = out @ last_chunk trailers @ rest, str_close = close, str_parts = parts\<rparr> = Inr (body, trailers, rest))"
proof -
  from relay_chunked_out [OF assms] obtain ds where
    ds: "list_all (\<lambda>d. d \<noteq> [] \<and> length d \<le> RELAY_BUFFER_SIZE) ds"
    "read_chunked_body st = Inr (concat ds, filter (\<lambda>t. fst t \<noteq> []) ts, st')"
    "snk_out snk' = snk_out snk @ concat (map chunk_bytes ds)" "sm' = summary_observe (concat ds) (body_summary_new limit)"
    by (auto simp: body_summary_new_def)
  have "list_all (\<lambda>d. d \<noteq> [] \<and> length d \<le> USIZE_MAX) ds"
    using ds(1) by (auto simp: list_all_iff RELAY_BUFFER_SIZE_def USIZE_MAX_def)
  note decoded = decode_encoded [OF this]
  show ?thesis
    by (intro exI [of _ "concat ds"] exI [of _ "concat (map chunk_bytes ds)"] conjI allI impI decoded)
       (use ds in \<open>auto simp: summary_observe_def body_summary_new_def\<close>)
qed

lemma relay_chunked_preserves_body_witness:
  "\<exists>ts st' snk' sm' body out. relay_chunked 64 4
       (\<lparr>str_bytes = ''2'' @ CRLF @ ''ok'' @ CRLF @ ''0'' @ CRLF @ '':x'' @ CRLF @ ''A:b'' @ CRLF @ CRLF, str_close = None, str_parts = []\<rparr>,
        \<lparr>snk_out = [], snk_room = None\<rparr>, body_summary_new 1) = Inr (ts, st', snk', sm') \<and>
     read_chunked_body \<lparr>str_bytes = ''2'' @ CRLF @ ''ok'' @ CRLF @ ''0'' @ CRLF @ '':x'' @ CRLF @ ''A:b'' @ CRLF @ CRLF, str_close = None, str_parts = []\<rparr> =
       Inr (body, filter (\<lambda>t. fst t \<noteq> []) ts, st') \<and> snk_out snk' = out \<and> ts = [([], ''x''), (''A'', ''b'')]"
proof -
  let ?st = "\<lparr>str_bytes = ''2'' @ CRLF @ ''ok'' @ CRLF @ ''0'' @ CRLF @ '':x'' @ CRLF @ ''A:b'' @ CRLF @ CRLF, str_close = None, str_parts = []\<rparr>"
  have "case relay_chunked 64 4 (?st, \<lparr>snk_out = [], snk_room = None\<rparr>, body_summary_new 1) of
      Inr (ts, _) \<Rightarrow> ts = [([], ''x''), (''A'', ''b'')] | Inl _ \<Rightarrow> False"
    by code_simp
  then obtain ts st' snk' sm' where r: "relay_chunked 64 4 (?st, \<lparr>snk_out = [], snk_room = None\<rparr>, body_summary_new 1) = Inr (ts, st', snk', sm')"
    "ts = [([], ''x''), (''A'', ''b'')]"
    by (auto split: sum.splits)
  from relay_chunked_preserves_body [OF r(1)] r show ?thesis by auto
qed

end
