(* ===== verification/Http1_Headers.thy ===== *)
theory Http1_Headers
  imports Http1_Response
begin

text \<open>
  Header lists and message framing: lookup, replacement and removal of fields
  (\<open>http/response.rs\<close>), hop-by-hop fields and the framing of upstream requests
  (\<open>transforms/framing.rs\<close>, \<open>forward.rs\<close>). The main results: a streamed request goes upstream with
  the framing of its body, a buffered one too unless the client repeated its content length.
\<close>

section \<open>Fields\<close>

definition capital_first :: "string \<Rightarrow> string" where
  "capital_first part = (case part of [] \<Rightarrow> [] | c # s \<Rightarrow> ascii_upper c # s)"

fun join_dash :: "string list \<Rightarrow> string" where
  "join_dash [] = []"
| "join_dash [s] = s"
| "join_dash (s # t # ts) = s @ ''-'' @ join_dash (t # ts)"

definition canonical_header_name :: "string \<Rightarrow> string" where
  "canonical_header_name name = join_dash (map capital_first (split_chars (\<lambda>c. c = CHR ''-'') name))"

fun set_header :: "string \<Rightarrow> string \<Rightarrow> headers \<Rightarrow> headers" where
  "set_header name value [] = [(canonical_header_name name, value)]"
| "set_header name value ((n, v) # hs) =
     (if eq_ignore_ascii_case n name then (n, value) # hs else (n, v) # set_header name value hs)"

definition remove_header :: "string \<Rightarrow> headers \<Rightarrow> headers" where
  "remove_header name hs = filter (\<lambda>(n, _). \<not> eq_ignore_ascii_case n name) hs"

definition named :: "string \<Rightarrow> headers \<Rightarrow> headers" where
  "named name hs = filter (\<lambda>(n, _). eq_ignore_ascii_case n name) hs"

lemma join_dash_lower: "to_ascii_lowercase (join_dash parts) = join_dash (map to_ascii_lowercase parts)"
  by (induction parts rule: join_dash.induct) (auto simp: to_ascii_lowercase_def ascii_lower_def is_ascii_uppercase_def byte_def)

lemma capital_first_lower: "to_ascii_lowercase (capital_first s) = to_ascii_lowercase s"
  by (cases s) (auto simp: capital_first_def to_ascii_lowercase_def ascii_lower_def ascii_upper_def byte_def
      is_ascii_uppercase_def is_ascii_lowercase_def)

lemma join_dash_split: "join_dash (split_chars (\<lambda>c. c = CHR ''-'') s) = s"
proof (induction s)
  case (Cons c s)
  obtain p ps where p: "split_chars (\<lambda>c. c = CHR ''-'') s = p # ps" by (cases "split_chars (\<lambda>c. c = CHR ''-'') s") auto
  with Cons show ?case by (cases ps) auto
qed simp

lemma canonical_header_name_same: "eq_ignore_ascii_case (canonical_header_name name) name"
proof -
  have "to_ascii_lowercase (canonical_header_name name) = to_ascii_lowercase (join_dash (split_chars (\<lambda>c. c = CHR ''-'') name))"
    unfolding canonical_header_name_def join_dash_lower by (simp add: capital_first_lower comp_def)
  then show ?thesis by (simp add: eq_ignore_ascii_case_def join_dash_split)
qed

lemma eq_ignore_trans: "eq_ignore_ascii_case a b \<Longrightarrow> eq_ignore_ascii_case a c \<longleftrightarrow> eq_ignore_ascii_case b c"
  by (simp add: eq_ignore_ascii_case_def)

lemma named_Nil [simp]: "named name [] = []"
  by (simp add: named_def)

lemma named_remove: "named name (remove_header other hs) = (if eq_ignore_ascii_case name other then [] else named name hs)"
  by (auto simp: named_def remove_header_def filter_empty_conv eq_ignore_ascii_case_def intro!: filter_cong)

lemma named_set_other: "\<not> eq_ignore_ascii_case name other \<Longrightarrow> named name (set_header other value hs) = named name hs"
  using canonical_header_name_same [of other]
  by (induction hs) (auto simp: named_def eq_ignore_ascii_case_def)

lemma named_set_same:
  "eq_ignore_ascii_case name other \<Longrightarrow>
     map snd (named name (set_header other value hs)) = value # map snd (tl (named name hs))"
  using canonical_header_name_same [of other]
  by (induction hs) (auto simp: named_def eq_ignore_ascii_case_def)

lemma header_named: "header hs name = (case named name hs of [] \<Rightarrow> None | (n, v) # _ \<Rightarrow> Some v)"
  by (induction hs) (auto simp: header_def named_def)

lemma field_values_named: "field_values name hs = map trim (concat (map (\<lambda>v. split_chars (\<lambda>c. c = CHR '','') v) (map snd (named name hs))))"
  by (auto simp: field_values_def named_def case_prod_unfold comp_def)

section \<open>Hop-by-hop fields\<close>

definition connection_tokens :: "headers \<Rightarrow> string list" where
  "connection_tokens hs = filter (\<lambda>t. t \<noteq> []) (field_values ''connection'' hs)"

definition remove_all :: "string list \<Rightarrow> headers \<Rightarrow> headers" where
  "remove_all names hs = foldl (\<lambda>hs name. remove_header name hs) hs names"

definition HOP_BY_HOP :: "string list" where
  "HOP_BY_HOP = [''connection'', ''keep-alive'', ''proxy-connection'', ''te'', ''trailer'', ''transfer-encoding'', ''upgrade'']"

definition strip_hop_by_hop_headers :: "headers \<Rightarrow> headers" where
  "strip_hop_by_hop_headers hs = remove_all HOP_BY_HOP (remove_all (connection_tokens hs) hs)"

definition prepare_streaming_body_headers :: "headers \<Rightarrow> headers" where
  "prepare_streaming_body_headers hs = remove_all [''content-length'', ''transfer-encoding'', ''trailer''] hs"

definition prepare_trailer_headers :: "headers \<Rightarrow> headers \<Rightarrow> headers" where
  "prepare_trailer_headers trailers hs =
     set_header ''Trailer'' (join_comma (map fst trailers))
       (set_header ''Transfer-Encoding'' ''chunked'' (remove_all [''content-length'', ''transfer-encoding''] hs))"

definition update_body_headers :: "nat \<Rightarrow> headers \<Rightarrow> headers" where
  "update_body_headers len hs =
     set_header ''Content-Length'' (nat_to_string len) (remove_all [''transfer-encoding'', ''trailer''] hs)"

lemma remove_all_filter:
  "remove_all names hs = filter (\<lambda>(n, _). \<not> list_ex (eq_ignore_ascii_case n) names) hs"
proof (induction names arbitrary: hs)
  case (Cons a names)
  then show ?case by (auto simp: remove_all_def remove_header_def intro!: filter_cong)
qed (simp add: remove_all_def)

text \<open>No hop-by-hop field survives, be it one of the standard ones or one the message names.\<close>

lemma strip_hop_by_hop_fields:
  assumes "(n, v) \<in> set (strip_hop_by_hop_headers hs)"
  shows "(n, v) \<in> set hs \<and> \<not> list_ex (eq_ignore_ascii_case n) HOP_BY_HOP \<and>
    \<not> list_ex (eq_ignore_ascii_case n) (connection_tokens hs)"
  using assms by (auto simp: strip_hop_by_hop_headers_def remove_all_filter)

section \<open>Framing of upstream requests\<close>

definition prepare_upstream_request_framing :: "string \<Rightarrow> headers \<Rightarrow> headers \<Rightarrow> headers" where
  "prepare_upstream_request_framing body trailers hs =
     (let had_content_length = (header hs ''content-length'' \<noteq> None);
          hs = remove_all [''transfer-encoding'', ''trailer''] hs in
      if trailers = [] then
        (if body \<noteq> [] \<or> had_content_length then set_header ''Content-Length'' (nat_to_string (length body)) hs
         else remove_header ''content-length'' hs)
      else
        set_header ''Trailer'' (join_comma (map fst trailers))
          (set_header ''Transfer-Encoding'' ''chunked'' (remove_header ''content-length'' hs)))"

definition prepare_streaming_upstream_request_framing :: "body_framing \<Rightarrow> headers \<Rightarrow> headers" where
  "prepare_streaming_upstream_request_framing framing hs =
     (let hs = remove_all [''content-length'', ''transfer-encoding''] hs in
      case framing of
        NoBody \<Rightarrow> remove_header ''trailer'' hs
      | ContentLength n \<Rightarrow> set_header ''Content-Length'' (nat_to_string n) (remove_header ''trailer'' hs)
      | Chunked \<Rightarrow> set_header ''Transfer-Encoding'' ''chunked'' hs)"

lemma name_facts:
  "\<not> eq_ignore_ascii_case ''content-length'' ''trailer''" "\<not> eq_ignore_ascii_case ''content-length'' ''transfer-encoding''"
  "\<not> eq_ignore_ascii_case ''transfer-encoding'' ''content-length''" "\<not> eq_ignore_ascii_case ''transfer-encoding'' ''trailer''"
  "eq_ignore_ascii_case ''content-length'' ''Content-Length''" "\<not> eq_ignore_ascii_case ''transfer-encoding'' ''Content-Length''"
  "eq_ignore_ascii_case ''transfer-encoding'' ''Transfer-Encoding''" "\<not> eq_ignore_ascii_case ''content-length'' ''Transfer-Encoding''"
  "\<not> eq_ignore_ascii_case ''content-length'' ''Trailer''" "\<not> eq_ignore_ascii_case ''transfer-encoding'' ''Trailer''"
  by code_simp+

lemma remove_all_simps [simp]: "remove_all [] hs = hs" "remove_all (n # ns) hs = remove_all ns (remove_header n hs)"
  by (simp_all add: remove_all_def)

lemma digit_edge: "is_ascii_digit c \<Longrightarrow> edge_char c"
  by (auto simp: edge_char_def is_ascii_digit_def is_ascii_ws_byte_def)

lemma number_values: "map trim (split_chars (\<lambda>c. c = CHR '','') (nat_to_string n)) = [nat_to_string n]"
proof -
  have "split_chars (\<lambda>c. c = CHR '','') (nat_to_string n) = [nat_to_string n]"
    using nat_to_string_digits by (intro split_chars_none) (fastforce simp: list_all_iff is_ascii_digit_def byte_def)
  moreover have "trim (nat_to_string n) = nat_to_string n"
    by (intro trim_edges) (auto intro!: digit_edge nat_to_string_digits [of _ n])
  ultimately show ?thesis by simp
qed

lemma single_number_values:
  "map snd (named ''content-length'' hs) = [nat_to_string n] \<Longrightarrow> field_values ''content-length'' hs = [nat_to_string n]"
  using number_values [of n] by (simp add: field_values_named)

text \<open>The framing that two field lists stand for.\<close>

lemma framing_length:
  assumes "map snd (named ''content-length'' hs) = [nat_to_string n]" "named ''transfer-encoding'' hs = []" "n \<le> USIZE_MAX"
  shows "request_framing hs = Inr (ContentLength n)"
  using single_number_values [OF assms(1)] assms(2,3)
  by (simp add: request_framing_def content_length_def parse_uint_nat_to_string transfer_codings_def field_values_named)

lemma framing_none:
  assumes "named ''content-length'' hs = []" "named ''transfer-encoding'' hs = []"
  shows "request_framing hs = Inr NoBody"
  using assms by (simp add: request_framing_def content_length_def transfer_codings_def field_values_named)

lemma framing_chunked:
  assumes "named ''content-length'' hs = []" "map snd (named ''transfer-encoding'' hs) = [''chunked'']"
  shows "request_framing hs = Inr Chunked"
proof -
  have "map to_ascii_lowercase (filter (\<lambda>v. v \<noteq> []) (map trim (split_chars (\<lambda>c. c = CHR '','') ''chunked''))) = [''chunked'']"
    by code_simp
  then show ?thesis using assms
    by (simp add: request_framing_def content_length_def transfer_codings_def field_values_named)
qed

text \<open>
  The framing fields of a head, exactly those of one framing: the field lists that the proxy
  prepares. The surrounding white space of values and fields of other names do not matter.
\<close>

definition framing_fields :: "body_framing \<Rightarrow> headers \<Rightarrow> bool" where
  "framing_fields framing hs \<longleftrightarrow>
     (case framing of
        NoBody \<Rightarrow> named ''content-length'' hs = [] \<and> named ''transfer-encoding'' hs = []
      | ContentLength n \<Rightarrow> map snd (named ''content-length'' hs) = [nat_to_string n] \<and> named ''transfer-encoding'' hs = []
      | Chunked \<Rightarrow> named ''content-length'' hs = [] \<and> map snd (named ''transfer-encoding'' hs) = [''chunked''])"

lemma framing_fields_read:
  assumes "framing_fields framing hs" "case framing of ContentLength n \<Rightarrow> n \<le> USIZE_MAX | _ \<Rightarrow> True"
  shows "request_framing hs = Inr framing"
  using assms by (auto simp: framing_fields_def framing_none framing_length framing_chunked split: body_framing.splits)

lemma framing_fields_cong:
  "named ''content-length'' hs' = named ''content-length'' hs \<Longrightarrow> named ''transfer-encoding'' hs' = named ''transfer-encoding'' hs \<Longrightarrow>
     framing_fields framing hs' = framing_fields framing hs"
  by (cases framing) (simp_all add: framing_fields_def)

lemma framing_fields_trim: "framing_fields framing hs \<Longrightarrow> framing_fields framing (map (map_prod id trim) hs)"
proof -
  have n: "named name (map (map_prod id trim) hs) = map (map_prod id trim) (named name hs)" for name
    by (induction hs) (auto simp: named_def)
  have t: "trim (nat_to_string k) = nat_to_string k" for k
    by (intro trim_edges) (auto intro!: digit_edge nat_to_string_digits [of _ k])
  have "trim ''chunked'' = ''chunked''" by code_simp
  with t show "framing_fields framing hs \<Longrightarrow> framing_fields framing (map (map_prod id trim) hs)"
    by (auto simp: framing_fields_def n split: body_framing.splits)
qed

lemma streaming_framing_fields: "framing_fields framing (prepare_streaming_upstream_request_framing framing hs)"
  by (cases framing)
     (simp_all add: framing_fields_def prepare_streaming_upstream_request_framing_def named_set_same named_set_other
       named_remove name_facts)

text \<open>The framing of a buffered body: chunked with trailers, its length when there is a body or a length was given.\<close>

definition buffered_framing :: "string \<Rightarrow> headers \<Rightarrow> headers \<Rightarrow> body_framing" where
  "buffered_framing body trailers hs =
     (if trailers \<noteq> [] then Chunked
      else if body \<noteq> [] \<or> named ''content-length'' hs \<noteq> [] then ContentLength (length body)
      else NoBody)"

lemma buffered_framing_fields:
  assumes "length (named ''content-length'' hs) \<le> 1"
  shows "framing_fields (buffered_framing body trailers hs) (prepare_upstream_request_framing body trailers hs)"
proof -
  have tl: "tl (named ''content-length'' hs) = []" using assms(1) by (cases "named ''content-length'' hs") auto
  have had: "header hs ''content-length'' \<noteq> None \<longleftrightarrow> named ''content-length'' hs \<noteq> []"
    by (auto simp: header_named split: list.splits)
  then show ?thesis
    using tl by (auto simp: framing_fields_def buffered_framing_def prepare_upstream_request_framing_def named_set_same named_set_other
        named_remove name_facts)
qed

text \<open>
  C19: A request whose body is streamed goes upstream with exactly the framing of that body,
  whatever framing fields the client or a rule left in its head: the upstream server reads the
  same framing from the head that the relay uses for the body.
\<close>

theorem streaming_framing_exact:
  assumes "case framing of ContentLength n \<Rightarrow> n \<le> USIZE_MAX | _ \<Rightarrow> True"
  shows "request_framing (prepare_streaming_upstream_request_framing framing hs) = Inr framing"
  using streaming_framing_fields assms by (rule framing_fields_read)

lemma streaming_framing_exact_witness:
  "(case Chunked of ContentLength n \<Rightarrow> n \<le> USIZE_MAX | _ \<Rightarrow> True) \<and>
   request_framing (prepare_streaming_upstream_request_framing Chunked [(''Content-Length'', ''7''), (''content-length'', ''9'')]) = Inr Chunked"
  using streaming_framing_exact [of Chunked] by simp

text \<open>
  A buffered request whose head has at most one content-length field goes upstream with the
  framing of the body that is sent: chunked when there are trailers, the length of the body when
  there is a body or the client sent a length, and no framing otherwise.
\<close>

theorem buffered_framing_exact:
  assumes "length (named ''content-length'' hs) \<le> 1" "length body \<le> USIZE_MAX"
  shows "request_framing (prepare_upstream_request_framing body trailers hs) =
    Inr (if trailers \<noteq> [] then Chunked
         else if body \<noteq> [] \<or> named ''content-length'' hs \<noteq> [] then ContentLength (length body)
         else NoBody)"
  using framing_fields_read [OF buffered_framing_fields [OF assms(1)], of body trailers] assms(2) by (simp add: buffered_framing_def)

lemma buffered_framing_exact_witness:
  "length (named ''content-length'' [(''Content-Length'', ''5'')]) \<le> 1 \<and> length ''hi'' \<le> USIZE_MAX \<and>
   request_framing (prepare_upstream_request_framing ''hi'' [] [(''Content-Length'', ''5'')]) = Inr (ContentLength 2)"
proof -
  have n: "length (named ''content-length'' [(''Content-Length'', ''5'')]) \<le> 1" by code_simp
  have l: "length ''hi'' \<le> USIZE_MAX" by (simp add: USIZE_MAX_def)
  from buffered_framing_exact [OF n l, of "[]"] n l show ?thesis by simp
qed

text \<open>The values of all fields but the first: some, when there is more than one field, and all the client's length.\<close>

lemma later_lengths:
  assumes "request_framing hs = Inr (ContentLength n)" "2 \<le> length (named ''content-length'' hs)"
  defines "later \<equiv> map trim (concat (map (\<lambda>v. split_chars (\<lambda>c. c = CHR '','') v) (map snd (tl (named ''content-length'' hs)))))"
  shows "later \<noteq> []" "\<And>v. v \<in> set later \<Longrightarrow> parse_uint USIZE_MAX v = Inr n"
proof -
  obtain a b fs where f: "named ''content-length'' hs = a # b # fs"
    using assms(2) by (cases "named ''content-length'' hs"; cases "tl (named ''content-length'' hs)") auto
  have "split_chars P v \<noteq> []" for P and v :: string by (cases "split_chars P v") auto
  then show "later \<noteq> []" by (simp add: later_def f)
  have "content_length hs = Inr (Some n)"
    using assms(1) by (auto simp: request_framing_def try_bind_Inr_iff Let_def split: if_splits option.splits)
  then have "\<forall>v \<in> set (field_values ''content-length'' hs). parse_uint USIZE_MAX v = Inr n"
    by (auto simp: content_length_def list_ex_iff split: list.splits sum.splits if_splits)
  moreover have "set later \<subseteq> set (field_values ''content-length'' hs)" by (auto simp: later_def field_values_named f)
  ultimately show "v \<in> set later \<Longrightarrow> parse_uint USIZE_MAX v = Inr n" for v by blast
qed

text \<open>
  C39: A client may repeat its content length in several fields of the same value, which the proxy
  accepts as that length. When a rule then gives the request a body of another length, the proxy
  sends a head with two different content lengths, because only the first of the fields is updated:
  for every such head and every such body, the head prepared by the actions and then for the
  upstream has conflicting lengths. It is well framed only when the new body has the old length.
\<close>

theorem repeated_length_conflict:
  assumes "request_framing hs = Inr (ContentLength n)" "2 \<le> length (named ''content-length'' hs)" "length body \<le> USIZE_MAX"
  shows "request_framing (prepare_upstream_request_framing body [] (update_body_headers (length body) hs)) =
    (if length body = n then Inr (ContentLength n) else Inl ConflictingContentLength)"
proof -
  let ?hs = "prepare_upstream_request_framing body [] (update_body_headers (length body) hs)"
  let ?later = "map trim (concat (map (\<lambda>v. split_chars (\<lambda>c. c = CHR '','') v) (map snd (tl (named ''content-length'' hs)))))"
  have u: "map snd (named ''content-length'' (update_body_headers (length body) hs)) = nat_to_string (length body) # map snd (tl (named ''content-length'' hs))"
    by (simp add: update_body_headers_def named_set_same named_remove name_facts)
  then have had: "header (update_body_headers (length body) hs) ''content-length'' \<noteq> None"
    by (auto simp: header_named split: list.splits)
  have named: "map snd (named ''content-length'' ?hs) = nat_to_string (length body) # map snd (tl (named ''content-length'' hs))"
    "named ''transfer-encoding'' ?hs = []"
    using had u by (auto simp: prepare_upstream_request_framing_def named_set_same named_set_other named_remove name_facts map_tl)
  have v: "field_values ''content-length'' ?hs = nat_to_string (length body) # ?later"
    unfolding field_values_named named(1) using number_values [of "length body"] by simp
  obtain w ws where w: "?later = w # ws" using later_lengths(1) [OF assms(1,2)] by (cases ?later) auto
  have "list_ex (\<lambda>v. parse_uint USIZE_MAX v \<noteq> Inr (length body)) ?later \<longleftrightarrow> length body \<noteq> n"
    using later_lengths(2) [OF assms(1,2)] unfolding w by (auto simp: list_ex_iff)
  then have "content_length ?hs = (if length body = n then Inr (Some n) else Inl ConflictingContentLength)"
    using assms(3) by (auto simp: content_length_def v parse_uint_nat_to_string)
  then show ?thesis
    by (simp add: request_framing_def transfer_codings_def field_values_named named(2))
qed

lemma repeated_length_conflict_witness:
  "request_framing [(''Content-Length'', ''5''), (''Content-Length'', ''5'')] = Inr (ContentLength 5) \<and>
   request_framing (prepare_upstream_request_framing ''hi'' []
     (update_body_headers 2 [(''Content-Length'', ''5''), (''Content-Length'', ''5'')])) = Inl ConflictingContentLength"
proof -
  let ?hs = "[(''Content-Length'', ''5''), (''Content-Length'', ''5'')]"
  have f: "request_framing ?hs = Inr (ContentLength 5)" "2 \<le> length (named ''content-length'' ?hs)" "length ''hi'' \<le> USIZE_MAX"
    by code_simp+
  from repeated_length_conflict [OF f] f(1) show ?thesis by (simp add: numeral_2_eq_2)
qed

end
