(* ===== verification/Proxy_Values.thy ===== *)
theory Proxy_Values
  imports Rule_Template Http1_Headers
begin

text \<open>
  The values of actions when a request is served (\<open>proxy/transforms/values.rs\<close>, \<open>bounded_io.rs\<close>),
  the output limits (\<open>transforms/content.rs\<close>) and the operations on header lists and cookies
  (\<open>transforms/headers.rs\<close>, \<open>proxy/cookies.rs\<close>). The file system is an argument: the content of
  each path. A value is rendered with an empty cache of expressions: what rendering returns does
  not depend on the cache (\<open>Rule_Template\<close>).
\<close>

section \<open>State and errors\<close>

datatype file_error = NotFound | FileFailed io_kind

record proxy_state =
  px_ext :: ext
  px_files :: "string \<Rightarrow> file_error + string"
  px_storage :: string
  px_max_header_size :: nat
  px_max_header_count :: nat
  px_body_buffer_limit :: nat

datatype proxy_error =
    MissingHost
  | BadUrl rule_model_error
  | TooManyHops
  | FileError file_error
  | FileTooLarge nat
  | BadValueKey string
  | RenderFailed rule_model_error
  | NotText
  | OutputLimit string nat
  | TooManyHeaders nat
  | BadHeaderName string
  | BadHeaderValue string
  | BadMethod
  | UnsafeUrl
  | BadRemoteTarget string
  | BadFilename
  | BadMerge
  | ForbiddenTrailer string
  | UnsafeSegment string
  | TooManyCandidates
  | BadMockStatus
  | MockContent u16
  | BadRawMock

definition MAX_RULE_RENDERED_VALUE_BYTES :: nat where
  "MAX_RULE_RENDERED_VALUE_BYTES = 8 * 1024 * 1024"

definition MAX_RULE_EXTERNAL_VALUE_BYTES :: nat where
  "MAX_RULE_EXTERNAL_VALUE_BYTES = 8 * 1024 * 1024"

definition MAX_RULE_EXTERNAL_PATH_BYTES :: nat where
  "MAX_RULE_EXTERNAL_PATH_BYTES = 4096"

definition rule_header_limit :: "proxy_state \<Rightarrow> nat" where
  "rule_header_limit st = min (px_max_header_size st) MAX_RULE_RENDERED_VALUE_BYTES"

definition rule_body_limit :: "proxy_state \<Rightarrow> nat" where
  "rule_body_limit st = min (px_body_buffer_limit st) MAX_RULE_RENDERED_VALUE_BYTES"

lemma limits_usize:
  "MAX_RULE_RENDERED_VALUE_BYTES \<le> USIZE_MAX" "MAX_RULE_EXTERNAL_PATH_BYTES \<le> USIZE_MAX"
  "MAX_RULE_EXTERNAL_VALUE_BYTES < USIZE_MAX" "rule_header_limit st \<le> USIZE_MAX" "rule_body_limit st \<le> USIZE_MAX"
  by (simp_all add: MAX_RULE_RENDERED_VALUE_BYTES_def MAX_RULE_EXTERNAL_PATH_BYTES_def MAX_RULE_EXTERNAL_VALUE_BYTES_def
      rule_header_limit_def rule_body_limit_def USIZE_MAX_def)

section \<open>Files\<close>

definition read_value_file :: "proxy_state \<Rightarrow> string \<Rightarrow> nat \<Rightarrow> proxy_error + string" where
  "read_value_file st path limit =
     (case px_files st path of
        Inl e \<Rightarrow> Inl (FileError e)
      | Inr content \<Rightarrow>
          (let bytes = take (min (limit + 1) USIZE_MAX) content in
           if limit < length bytes then Inl (FileTooLarge limit) else Inr bytes))"

text \<open>\<open>Path::join\<close>: an absolute path replaces the base.\<close>

definition path_join :: "string \<Rightarrow> string \<Rightarrow> string" where
  "path_join base p =
     (if starts_with p ''/'' then p else if base = [] \<or> last base = CHR ''/'' then base @ p else base @ ''/'' @ p)"

definition read_external_value :: "proxy_state \<Rightarrow> string \<Rightarrow> nat \<Rightarrow> proxy_error + string" where
  "read_external_value st path limit = read_value_file st path (min limit MAX_RULE_EXTERNAL_VALUE_BYTES)"

definition read_file_bytes :: "proxy_state \<Rightarrow> string \<Rightarrow> nat \<Rightarrow> proxy_error + string" where
  "read_file_bytes st path limit =
     (let r = read_external_value st (path_join (px_storage st) path) limit in
      if r = Inl (FileError NotFound) then read_external_value st path limit else r)"

definition read_reference_bytes_bounded :: "proxy_state \<Rightarrow> string \<Rightarrow> nat \<Rightarrow> proxy_error + string" where
  "read_reference_bytes_bounded st key limit =
     (if \<not> valid_value_key key then Inl (BadValueKey key)
      else read_value_file st (path_join (path_join (px_storage st) ''values'') key) (min limit MAX_RULE_EXTERNAL_VALUE_BYTES))"

definition read_reference_bytes :: "proxy_state \<Rightarrow> string \<Rightarrow> proxy_error + string" where
  "read_reference_bytes st key = read_reference_bytes_bounded st key MAX_RULE_EXTERNAL_VALUE_BYTES"

section \<open>Values\<close>

definition render_action_value ::
  "proxy_state \<Rightarrow> resolved_action \<Rightarrow> request_meta \<Rightarrow> string \<Rightarrow> nat \<Rightarrow> proxy_error + string" where
  "render_action_value st item meta input limit =
     (case fst (action_render_bounded (px_ext st) [] item input meta limit) of
        Inl e \<Rightarrow> Inl (RenderFailed e) | Inr v \<Rightarrow> Inr v)"

definition render_rule_path :: "proxy_state \<Rightarrow> resolved_action \<Rightarrow> request_meta \<Rightarrow> string \<Rightarrow> proxy_error + string" where
  "render_rule_path st item meta path = render_action_value st item meta path MAX_RULE_EXTERNAL_PATH_BYTES"

definition render_text_bytes ::
  "proxy_state \<Rightarrow> resolved_action \<Rightarrow> request_meta \<Rightarrow> string \<Rightarrow> nat \<Rightarrow> proxy_error + string" where
  "render_text_bytes st item meta bytes limit =
     (if utf8_valid bytes then render_action_value st item meta bytes (min limit MAX_RULE_RENDERED_VALUE_BYTES)
      else Inr bytes)"

definition resolve_value_bytes_bounded ::
  "proxy_state \<Rightarrow> resolved_action \<Rightarrow> request_meta \<Rightarrow> rule_value \<Rightarrow> nat \<Rightarrow> proxy_error + string" where
  "resolve_value_bytes_bounded st item meta v limit =
     (let limit = min limit MAX_RULE_RENDERED_VALUE_BYTES in
      case v of
        Inline s \<Rightarrow> render_action_value st item meta s limit
      | File path \<Rightarrow>
          try_bind (render_rule_path st item meta path) (\<lambda>path.
          try_bind (read_file_bytes st path (min limit MAX_RULE_EXTERNAL_VALUE_BYTES)) (\<lambda>bytes.
          render_text_bytes st item meta bytes limit))
      | Reference key \<Rightarrow>
          try_bind (read_reference_bytes_bounded st key limit) (\<lambda>bytes. render_text_bytes st item meta bytes limit))"

definition resolve_value_text_bounded ::
  "proxy_state \<Rightarrow> resolved_action \<Rightarrow> request_meta \<Rightarrow> rule_value \<Rightarrow> nat \<Rightarrow> proxy_error + string" where
  "resolve_value_text_bounded st item meta v limit =
     try_bind (resolve_value_bytes_bounded st item meta v limit) (\<lambda>bytes.
     if utf8_valid bytes then Inr bytes else Inl NotText)"

definition resolve_raw_value_text ::
  "proxy_state \<Rightarrow> resolved_action \<Rightarrow> request_meta \<Rightarrow> rule_value \<Rightarrow> proxy_error + string" where
  "resolve_raw_value_text st item meta v =
     (case v of
        Inline s \<Rightarrow> Inr s
      | File path \<Rightarrow>
          try_bind (render_rule_path st item meta path) (\<lambda>path.
          try_bind (read_file_bytes st path MAX_RULE_EXTERNAL_VALUE_BYTES) (\<lambda>bytes.
          if utf8_valid bytes then Inr bytes else Inl NotText))
      | Reference key \<Rightarrow>
          try_bind (read_reference_bytes st key) (\<lambda>bytes. if utf8_valid bytes then Inr bytes else Inl NotText))"

lemma read_value_file_length: "read_value_file st path limit = Inr bytes \<Longrightarrow> limit < USIZE_MAX \<Longrightarrow> length bytes \<le> limit"
  by (auto simp: read_value_file_def Let_def split: sum.splits if_splits)

lemma read_bytes_length:
  "read_file_bytes st path limit = Inr bytes \<Longrightarrow> length bytes \<le> limit"
  "read_reference_bytes_bounded st key limit = Inr bytes \<Longrightarrow> length bytes \<le> limit"
  using limits_usize(3)
  by (auto simp: read_file_bytes_def read_external_value_def read_reference_bytes_bounded_def Let_def
      dest!: read_value_file_length split: if_splits)

text \<open>The bytes of a key's file are the only ones a reference reads: the key has no separator.\<close>

lemma reference_stays_in_values:
  "read_reference_bytes_bounded st key limit = Inr bytes \<Longrightarrow> CHR ''/'' \<notin> set key"
proof
  assume "read_reference_bytes_bounded st key limit = Inr bytes" "CHR ''/'' \<in> set key"
  then have "is_ascii_alphanumeric (CHR ''/'') \<or> False"
    by (auto simp: read_reference_bytes_bounded_def valid_value_key_def list_all_iff split: if_splits)
  moreover have "\<not> is_ascii_alphanumeric (CHR ''/'')" by code_simp
  ultimately show False by simp
qed

lemma render_length:
  assumes "render_action_value st item meta input limit = Inr v" "limit \<le> USIZE_MAX"
  shows "length v \<le> limit"
  using assms render_loop_exact [OF cache_inv_empty assms(2), of "[]" "px_ext st" input meta "ra_response item" "ra_captures item"]
  by (auto simp: render_action_value_def action_render_bounded_def render_with_response_bounded_def bounded_result_def
      split: sum.splits if_splits)

lemma render_text_length:
  "render_text_bytes st item meta bytes limit = Inr v \<Longrightarrow> length bytes \<le> limit \<Longrightarrow> length v \<le> limit"
  using limits_usize(1)
  by (auto simp: render_text_bytes_def dest!: render_length split: if_splits)

lemma resolve_length:
  assumes "resolve_value_bytes_bounded st item meta v limit = Inr bytes"
  shows "length bytes \<le> min limit MAX_RULE_RENDERED_VALUE_BYTES"
proof -
  let ?l = "min limit MAX_RULE_RENDERED_VALUE_BYTES"
  have l: "?l \<le> USIZE_MAX" using limits_usize(1) by simp
  show ?thesis
  proof (cases v)
    case (Inline s)
    with assms l show ?thesis by (auto simp: resolve_value_bytes_bounded_def Let_def dest!: render_length)
  next
    case (File p)
    with assms obtain path b where "read_file_bytes st path (min ?l MAX_RULE_EXTERNAL_VALUE_BYTES) = Inr b"
      "render_text_bytes st item meta b ?l = Inr bytes"
      by (auto simp: resolve_value_bytes_bounded_def Let_def try_bind_Inr_iff)
    with read_bytes_length(1) render_text_length show ?thesis by (meson le_trans min.cobounded1)
  next
    case (Reference key)
    with assms obtain b where "read_reference_bytes_bounded st key ?l = Inr b" "render_text_bytes st item meta b ?l = Inr bytes"
      by (auto simp: resolve_value_bytes_bounded_def Let_def try_bind_Inr_iff)
    with read_bytes_length(2) render_text_length show ?thesis by blast
  qed
qed

lemma resolve_text:
  assumes "resolve_value_text_bounded st item meta v limit = Inr s"
  shows "length s \<le> limit" "utf8_valid s"
  using assms by (auto simp: resolve_value_text_bounded_def try_bind_Inr_iff dest!: resolve_length split: if_splits)

section \<open>Bounded output\<close>

definition output_limit_error :: "string \<Rightarrow> nat \<Rightarrow> proxy_error" where
  "output_limit_error label limit = OutputLimit label limit"

definition remaining_capacity :: "nat \<Rightarrow> nat \<Rightarrow> string \<Rightarrow> proxy_error + nat" where
  "remaining_capacity current limit label =
     (if limit < current then Inl (output_limit_error label limit) else Inr (limit - current))"

definition ensure_output_limit :: "string \<Rightarrow> nat \<Rightarrow> string \<Rightarrow> proxy_error + unit" where
  "ensure_output_limit v limit label = (if limit < length v then Inl (output_limit_error label limit) else Inr ())"

definition push_text_bounded :: "string \<Rightarrow> string \<Rightarrow> nat \<Rightarrow> string \<Rightarrow> proxy_error + string" where
  "push_text_bounded out v limit label =
     (case checked_add (length out) (length v) of
        None \<Rightarrow> Inl (output_limit_error label limit)
      | Some n \<Rightarrow> if limit < n then Inl (output_limit_error label limit) else Inr (out @ v))"

interpretation pushed: bounded_writer "\<lambda>(limit, label). limit \<le> USIZE_MAX" fst "\<lambda>(limit, label). OutputLimit label limit"
  "\<lambda>(limit, label) out v. push_text_bounded out v limit label" "(@)" length length
  by unfold_locales (auto simp: push_text_bounded_def checked_add_def output_limit_error_def)

section \<open>Header operations\<close>

fun replace_values :: "(string \<Rightarrow> proxy_error + string) \<Rightarrow> string \<Rightarrow> headers \<Rightarrow> proxy_error + headers" where
  "replace_values f name [] = Inr []"
| "replace_values f name ((n, v) # hs) =
     try_bind (if eq_ignore_ascii_case n name then f v else Inr v) (\<lambda>v.
     try_bind (replace_values f name hs) (\<lambda>hs. Inr ((n, v) # hs)))"

definition replace_all_bounded :: "ext \<Rightarrow> regex_replace_pattern \<Rightarrow> string \<Rightarrow> string \<Rightarrow> nat \<Rightarrow> proxy_error + string" where
  "replace_all_bounded E p input replacement limit =
     map_sum RenderFailed id
       (regex_replace_all E (rrp_pattern p) (rrp_case_insensitive p) input replacement limit ''regex replacement'')"

definition apply_header_op ::
  "proxy_state \<Rightarrow> resolved_action \<Rightarrow> request_meta \<Rightarrow> header_op \<Rightarrow> headers \<Rightarrow> proxy_error + headers" where
  "apply_header_op st item meta op hs =
     (case op of
        HeaderSet name v \<Rightarrow>
          try_bind (resolve_value_text_bounded st item meta v (rule_header_limit st)) (\<lambda>v. Inr (set_header name v hs))
      | HeaderRemove name \<Rightarrow> Inr (remove_header name hs)
      | HeaderReplace name pattern replacement \<Rightarrow>
          replace_values (\<lambda>v. replace_all_bounded (px_ext st) pattern v replacement (rule_header_limit st)) name hs)"

definition rule_field_value_byte :: "char \<Rightarrow> bool" where
  "rule_field_value_byte c \<longleftrightarrow> c = CHR 0x09 \<or> (32 \<le> byte c \<and> byte c \<noteq> 127)"

fun check_block :: "nat \<Rightarrow> nat \<Rightarrow> headers \<Rightarrow> proxy_error + unit" where
  "check_block limit bytes [] = Inr ()"
| "check_block limit bytes ((name, v) # hs) =
     (if name = [] \<or> \<not> list_all is_http_token_byte name then Inl (BadHeaderName name)
      else if \<not> list_all rule_field_value_byte v then Inl (BadHeaderValue name)
      else
        (case Option.bind (checked_add bytes (length name)) (\<lambda>n. Option.bind (checked_add n (length v)) (\<lambda>n. checked_add n 4)) of
           None \<Rightarrow> Inl (output_limit_error ''rule-produced header block'' limit)
         | Some n \<Rightarrow>
             if limit < n then Inl (output_limit_error ''rule-produced header block'' limit)
             else check_block limit n hs))"

definition validate_header_block :: "proxy_state \<Rightarrow> headers \<Rightarrow> proxy_error + unit" where
  "validate_header_block st hs =
     (if px_max_header_count st < length hs then Inl (TooManyHeaders (length hs))
      else check_block (rule_header_limit st) 0 hs)"

definition validate_http_method :: "string \<Rightarrow> proxy_error + unit" where
  "validate_http_method m = (if m = [] \<or> \<not> list_all is_http_token_byte m then Inl BadMethod else Inr ())"

definition block_size :: "headers \<Rightarrow> nat" where
  "block_size hs = sum_list (map (\<lambda>(n, v). length n + length v + 4) hs)"

lemma checked_add_three:
  "Option.bind (checked_add bytes a) (\<lambda>n. Option.bind (checked_add n b) (\<lambda>n. checked_add n c)) =
     (if bytes + (a + b + c) \<le> USIZE_MAX then Some (bytes + (a + b + c)) else None)"
  by (auto simp: checked_add_def add.assoc)

lemma check_block_iff:
  assumes "limit \<le> USIZE_MAX" "bytes \<le> limit"
  shows "check_block limit bytes hs = Inr () \<longleftrightarrow>
    list_all (\<lambda>(n, v). n \<noteq> [] \<and> list_all is_http_token_byte n \<and> list_all rule_field_value_byte v) hs \<and>
    bytes + block_size hs \<le> limit"
  using assms
proof (induction hs arbitrary: bytes)
  case (Cons h hs)
  obtain n v where h: "h = (n, v)" by (cases h)
  let ?n = "bytes + (length n + length v + 4)"
  have size: "bytes + block_size (h # hs) = ?n + block_size hs" by (simp add: h block_size_def)
  show ?case
  proof (cases "?n \<le> limit")
    case True
    with Cons.prems have "?n \<le> USIZE_MAX" by simp
    then have "check_block limit bytes (h # hs) = Inr () \<longleftrightarrow>
      n \<noteq> [] \<and> list_all is_http_token_byte n \<and> list_all rule_field_value_byte v \<and> check_block limit ?n hs = Inr ()"
      using True by (simp add: h checked_add_three)
    with Cons.IH [OF Cons.prems(1) True] h show ?thesis unfolding size by simp
  next
    case False
    then have "check_block limit bytes (h # hs) \<noteq> Inr ()" by (auto simp: h checked_add_three split: if_splits)
    with False size show ?thesis by simp
  qed
qed (simp add: block_size_def)

lemma validate_header_block_iff:
  "validate_header_block st hs = Inr () \<longleftrightarrow>
     length hs \<le> px_max_header_count st \<and>
     list_all (\<lambda>(n, v). n \<noteq> [] \<and> list_all is_http_token_byte n \<and> list_all rule_field_value_byte v) hs \<and>
     block_size hs \<le> rule_header_limit st"
  using check_block_iff [OF limits_usize(4), of 0 st hs] by (auto simp: validate_header_block_def)

section \<open>Cookies\<close>

definition parse_cookie :: "string \<Rightarrow> (string \<times> string) option" where
  "parse_cookie part = map_option (\<lambda>(k, v). (trim k, trim v)) (split_once (trim part) ''='')"

definition parse_cookie_header :: "string \<Rightarrow> (string \<times> string) list" where
  "parse_cookie_header input = List.map_filter parse_cookie (split_chars (\<lambda>c. c = CHR '';'') input)"

fun push_pieces :: "nat \<Rightarrow> string \<Rightarrow> string list \<Rightarrow> string \<Rightarrow> proxy_error + string" where
  "push_pieces limit label [] out = Inr out"
| "push_pieces limit label (v # vs) out = try_bind (push_text_bounded out v limit label) (push_pieces limit label vs)"

definition cookie_pieces :: "(string \<times> string) list \<Rightarrow> string list" where
  "cookie_pieces cookies =
     concat (map (\<lambda>(i, name, v). (if 0 < i then [''; ''] else []) @ [name, ''='', v]) (enumerate 0 cookies))"

definition render_request_cookies :: "(string \<times> string) list \<Rightarrow> nat \<Rightarrow> proxy_error + string" where
  "render_request_cookies cookies limit = push_pieces limit ''Cookie header'' (cookie_pieces cookies) []"

fun set_pair :: "string \<Rightarrow> string \<Rightarrow> (string \<times> string) list \<Rightarrow> (string \<times> string) list" where
  "set_pair name v [] = [(name, v)]"
| "set_pair name v ((k, w) # ps) = (if k = name then (k, v) # ps else (k, w) # set_pair name v ps)"

definition request_cookies :: "headers \<Rightarrow> (string \<times> string) list" where
  "request_cookies hs = (case header hs ''cookie'' of None \<Rightarrow> [] | Some v \<Rightarrow> parse_cookie_header v)"

definition apply_req_cookie ::
  "proxy_state \<Rightarrow> resolved_action \<Rightarrow> request_meta \<Rightarrow> cookie_op \<Rightarrow> headers \<Rightarrow> proxy_error + headers" where
  "apply_req_cookie st item meta op hs =
     try_bind
       (case op of
          CookieSet name v _ \<Rightarrow>
            try_bind (resolve_value_text_bounded st item meta v (rule_header_limit st)) (\<lambda>v. Inr (set_pair name v (request_cookies hs)))
        | CookieRemove name \<Rightarrow> Inr (filter (\<lambda>(k, _). k \<noteq> name) (request_cookies hs)))
       (\<lambda>cookies.
         if cookies = [] then Inr (remove_header ''cookie'' hs)
         else try_bind (render_request_cookies cookies (rule_header_limit st)) (\<lambda>v. Inr (set_header ''Cookie'' v hs)))"

fun push_attrs :: "proxy_state \<Rightarrow> resolved_action \<Rightarrow> request_meta \<Rightarrow> cookie_attr list \<Rightarrow> string \<Rightarrow> proxy_error + string" where
  "push_attrs st item meta [] out = Inr out"
| "push_attrs st item meta (attr # attrs) out =
     (let limit = rule_header_limit st in
      try_bind (push_pieces limit ''Set-Cookie value'' [''; '', attr_name attr] out) (\<lambda>out.
      try_bind
        (case attr_value attr of
           None \<Rightarrow> Inr out
         | Some v \<Rightarrow>
             try_bind (push_text_bounded out ''='' limit ''Set-Cookie value'') (\<lambda>out.
             try_bind (remaining_capacity (length out) limit ''Set-Cookie value'') (\<lambda>remaining.
             try_bind (resolve_value_text_bounded st item meta v remaining) (\<lambda>v.
             push_text_bounded out v limit ''Set-Cookie value''))))
        (push_attrs st item meta attrs)))"

definition render_set_cookie ::
  "proxy_state \<Rightarrow> resolved_action \<Rightarrow> request_meta \<Rightarrow> string \<Rightarrow> string \<Rightarrow> cookie_attr list \<Rightarrow> proxy_error + string" where
  "render_set_cookie st item meta name v attrs =
     (let limit = rule_header_limit st in
      try_bind (push_pieces limit ''Set-Cookie value'' [name, ''='', v] []) (\<lambda>out.
      if attrs = [] then push_text_bounded out ''; Path=/'' limit ''Set-Cookie value''
      else push_attrs st item meta attrs out))"

definition remove_response_cookie :: "string \<Rightarrow> headers \<Rightarrow> headers" where
  "remove_response_cookie name hs =
     filter (\<lambda>(k, v). \<not> (eq_ignore_ascii_case k ''set-cookie'' \<and>
       (case split_once v ''='' of None \<Rightarrow> False | Some (cookie, _) \<Rightarrow> trim cookie = name))) hs"

definition apply_res_cookie ::
  "proxy_state \<Rightarrow> resolved_action \<Rightarrow> request_meta \<Rightarrow> cookie_op \<Rightarrow> headers \<Rightarrow> proxy_error + headers" where
  "apply_res_cookie st item meta op hs =
     (case op of
        CookieSet name v attrs \<Rightarrow>
          try_bind (resolve_value_text_bounded st item meta v (rule_header_limit st)) (\<lambda>v.
          try_bind (render_set_cookie st item meta name v attrs) (\<lambda>c. Inr (hs @ [(''Set-Cookie'', c)])))
      | CookieRemove name \<Rightarrow> Inr (remove_response_cookie name hs))"

definition first_part :: "string \<Rightarrow> string" where
  "first_part v = trim (hd (split_chars (\<lambda>c. c = CHR '';'') v))"

definition set_charset :: "string \<Rightarrow> headers \<Rightarrow> headers" where
  "set_charset charset hs =
     (let content_type = (case header hs ''content-type'' of None \<Rightarrow> ''text/plain'' | Some v \<Rightarrow> first_part v) in
      set_header ''Content-Type'' (content_type @ ''; charset='' @ charset) hs)"

lemma push_pieces_eq:
  "limit \<le> USIZE_MAX \<Longrightarrow> length out \<le> limit \<Longrightarrow>
     push_pieces limit label vs out = (if length (out @ concat vs) \<le> limit then Inr (out @ concat vs) else Inl (OutputLimit label limit))"
proof -
  have "push_pieces limit label vs out = pushed.emit_all (limit, label) vs out"
    by (induction vs arbitrary: out) (auto intro!: try_bind_cong)
  then show "limit \<le> USIZE_MAX \<Longrightarrow> length out \<le> limit \<Longrightarrow> ?thesis"
    using pushed.emit_all_eq [of "(limit, label)" out vs] by (simp add: foldl_append length_concat)
qed

section \<open>Cookies read back\<close>

lemma ws_len_stop:
  assumes "byte c < 128" "\<not> is_ascii_ws_byte c"
  shows "ws_len (p @ c # t) = ws_len p" "ws_len_rev (p @ c # t) = ws_len_rev p"
  using assms by (cases p; auto simp: ws2_def ws3_def split: list.splits)+

lemma drop_ws_prefix: "\<exists>u. s = u @ drop_ws f s"
proof (induction f s rule: drop_ws.induct)
  case (1 f s)
  show ?case
  proof (cases "s \<noteq> [] \<and> 0 < f s")
    case True
    with 1 obtain u where "drop (f s) s = u @ drop_ws f (drop (f s) s)" by blast
    then have "s = (take (f s) s @ u) @ drop_ws f (drop (f s) s)" by (metis append_take_drop_id append_assoc)
    moreover have "drop_ws f s = drop_ws f (drop (f s) s)" using True by (subst drop_ws.simps) simp
    ultimately show ?thesis by metis
  qed (auto simp: drop_ws.simps [of f s])
qed

definition trimmed :: "string \<Rightarrow> bool" where
  "trimmed s \<longleftrightarrow> ws_len s = 0 \<and> ws_len_rev (rev s) = 0"

lemma trim_trimmed: "trimmed s \<Longrightarrow> trim s = s"
  by (simp add: trimmed_def trim_def trim_start_def trim_end_def drop_ws.simps)

lemma trimmed_trim: "trimmed (trim s)"
proof -
  let ?t = "trim_start s"
  obtain u where "rev ?t = u @ drop_ws ws_len_rev (rev ?t)" using drop_ws_prefix by blast
  then have "?t = trim s @ rev u" by (metis rev_append rev_rev_ident trim_def trim_end_def)
  moreover have "ws_len ?t = 0" using drop_ws_done [of ws_len s] by (auto simp: trim_start_def)
  ultimately have "ws_len (trim s) = 0" using ws_len_prefix by metis
  moreover have "ws_len_rev (rev (trim s)) = 0"
    using drop_ws_done [of ws_len_rev "rev ?t"] by (auto simp: trim_def trim_end_def)
  ultimately show ?thesis by (simp add: trimmed_def)
qed

definition clean_cookie :: "string \<times> string \<Rightarrow> bool" where
  "clean_cookie c \<longleftrightarrow> trimmed (fst c) \<and> trimmed (snd c) \<and> CHR ''='' \<notin> set (fst c) \<and> CHR '';'' \<notin> set (fst c) \<union> set (snd c)"

definition print_cookie :: "string \<times> string \<Rightarrow> string" where
  "print_cookie c = fst c @ CHR ''='' # snd c"

fun print_cookies :: "(string \<times> string) list \<Rightarrow> string" where
  "print_cookies [] = []"
| "print_cookies [c] = print_cookie c"
| "print_cookies (c # d # cs) = print_cookie c @ ''; '' @ print_cookies (d # cs)"

lemma parse_print_cookie:
  assumes "clean_cookie c"
  shows "parse_cookie (print_cookie c) = Some c" "parse_cookie (CHR '' '' # print_cookie c) = Some c"
proof -
  obtain k v where c: "c = (k, v)" by (cases c)
  have "byte (CHR ''='') < 128 \<and> \<not> is_ascii_ws_byte (CHR ''='')" by code_simp
  then have "trimmed (k @ CHR ''='' # v)"
    using assms ws_len_stop [of "CHR ''=''"] by (simp add: trimmed_def clean_cookie_def c)
  then have t: "trim (print_cookie c) = print_cookie c" by (simp add: print_cookie_def c trim_trimmed)
  have "split_once (k @ CHR ''='' # v) ''='' = Some (k, v)"
    using assms by (intro split_once_char_first) (simp add: clean_cookie_def c)
  with t assms show p: "parse_cookie (print_cookie c) = Some c"
    by (simp add: parse_cookie_def print_cookie_def c clean_cookie_def trim_trimmed)
  with trim_space t show "parse_cookie (CHR '' '' # print_cookie c) = Some c" by (simp add: parse_cookie_def)
qed

lemma split_chars_join:
  "list_all (\<lambda>c. \<not> P c) s \<Longrightarrow> P d \<Longrightarrow> split_chars P (s @ d # t) = s # split_chars P t"
  by (induction s) auto

lemma print_cookie_no_semicolon: "clean_cookie c \<Longrightarrow> list_all (\<lambda>x. x \<noteq> CHR '';'') (print_cookie c)"
  by (auto simp: clean_cookie_def print_cookie_def list_all_iff)

lemma parse_spaced: "split_chars (\<lambda>c. c = CHR '';'') s = p # ps \<Longrightarrow>
    split_chars (\<lambda>c. c = CHR '';'') (CHR '' '' # s) = (CHR '' '' # p) # ps"
  by simp

lemma parse_print_cookies: "list_all clean_cookie cs \<Longrightarrow> parse_cookie_header (print_cookies cs) = cs"
proof (induction cs rule: print_cookies.induct)
  case 1
  have "parse_cookie_header [] = []" by code_simp
  then show ?case by simp
next
  case (2 c)
  then have "split_chars (\<lambda>c. c = CHR '';'') (print_cookie c) = [print_cookie c]"
    by (simp add: split_chars_none print_cookie_no_semicolon)
  with 2 show ?case by (simp add: parse_cookie_header_def parse_print_cookie List.map_filter_simps)
next
  case (3 c d cs)
  let ?P = "\<lambda>c. c = CHR '';''"
  obtain p ps where p: "split_chars ?P (print_cookies (d # cs)) = p # ps" by (cases "split_chars ?P (print_cookies (d # cs))") auto
  have "split_chars ?P (print_cookies (c # d # cs)) = print_cookie c # (CHR '' '' # p) # ps"
    using 3 split_chars_join [of ?P "print_cookie c" "CHR '';''" "CHR '' '' # print_cookies (d # cs)"] parse_spaced [OF p]
    by (simp add: print_cookie_no_semicolon)
  moreover have "parse_cookie (CHR '' '' # p) = parse_cookie p" by (simp add: parse_cookie_def trim_space)
  ultimately show ?case
    using 3 p by (simp add: parse_cookie_header_def parse_print_cookie List.map_filter_simps split: option.splits)
qed

lemma later_pieces:
  "concat (concat (map (\<lambda>(i, name, v). (if 0 < i then [''; ''] else []) @ [name, ''='', v]) (enumerate (Suc n) cs))) =
     (case cs of [] \<Rightarrow> [] | _ \<Rightarrow> ''; '' @ print_cookies cs)"
proof (induction cs arbitrary: n rule: print_cookies.induct)
  case (3 c d cs)
  from "3.IH" [of "Suc n"] show ?case by (simp add: print_cookie_def case_prod_beta)
qed (simp_all add: print_cookie_def case_prod_beta)

lemma render_print_cookies: "concat (cookie_pieces cs) = print_cookies cs"
proof (cases cs)
  case (Cons c ds)
  have "concat (cookie_pieces cs) = print_cookie c @ concat (concat (map (\<lambda>(i, name, v). (if 0 < i then [''; ''] else []) @ [name, ''='', v]) (enumerate (Suc 0) ds)))"
    by (simp add: cookie_pieces_def Cons print_cookie_def case_prod_beta)
  then show ?thesis unfolding later_pieces Cons by (cases ds) simp_all
qed (simp add: cookie_pieces_def)

lemma split_once_char_notin: "split_once s [c] = Some (a, b) \<Longrightarrow> c \<notin> set a"
proof -
  assume "split_once s [c] = Some (a, b)"
  then obtain i where i: "find_str [c] s = Some i" "a = take i s" by (auto simp: split_once_def)
  have "find_str [c] s = Some i \<Longrightarrow> c \<notin> set (take i s)" for i
    by (induction s arbitrary: i) (auto simp: starts_with_char split: if_splits option.splits)
  with i show ?thesis by simp
qed

lemma split_chars_parts: "p \<in> set (split_chars P s) \<Longrightarrow> c \<in> set p \<Longrightarrow> \<not> P c"
proof (induction s arbitrary: p)
  case (Cons a s)
  then show ?case by (cases "split_chars P s") (fastforce split: if_splits)+
qed simp

lemma request_cookies_clean: "list_all clean_cookie (request_cookies hs)"
proof -
  have "clean_cookie c" if c: "parse_cookie part = Some c" and part: "CHR '';'' \<notin> set part" for part c
  proof -
    from c obtain k v where kv: "split_once (trim part) ''='' = Some (k, v)" "c = (trim k, trim v)"
      by (auto simp: parse_cookie_def)
    then have "trim part = k @ ''='' @ v" using split_once_SomeD by blast
    with set_trim [of part] part have "CHR '';'' \<notin> set k \<union> set v" by auto
    moreover have "CHR ''='' \<notin> set k" using kv(1) by (rule split_once_char_notin)
    ultimately show ?thesis using kv(2) set_trim [of k] set_trim [of v] by (auto simp: clean_cookie_def trimmed_trim)
  qed
  then have "list_all clean_cookie (parse_cookie_header v)" for v
    using split_chars_parts [of _ "\<lambda>c. c = CHR '';''" v]
    by (fastforce simp: parse_cookie_header_def list_all_iff List.map_filter_def)
  then show ?thesis by (simp add: request_cookies_def split: option.split)
qed

text \<open>
  What a server reads: the pairs \<open>name=value\<close> of all \<open>Cookie\<close> fields, in order, and those of the fields
  after the first. A request has one such field, unless an HTTP/2 client splits it.
\<close>

definition cookies_read :: "headers \<Rightarrow> (string \<times> string) list" where
  "cookies_read hs = concat (map (\<lambda>h. parse_cookie_header (snd h)) (named ''cookie'' hs))"

definition later_cookies :: "headers \<Rightarrow> (string \<times> string) list" where
  "later_cookies hs = concat (map (\<lambda>h. parse_cookie_header (snd h)) (tl (named ''cookie'' hs)))"

definition other_fields :: "headers \<Rightarrow> headers" where
  "other_fields hs = filter (\<lambda>h. \<not> eq_ignore_ascii_case (fst h) ''cookie'') hs"

lemma cookies_read_first: "cookies_read hs = request_cookies hs @ later_cookies hs"
  by (cases "named ''cookie'' hs") (auto simp: cookies_read_def request_cookies_def later_cookies_def header_named)

lemma cookie_name: "eq_ignore_ascii_case ''cookie'' ''Cookie''"
  by code_simp

lemma cookies_read_set: "cookies_read (set_header ''Cookie'' v hs) = parse_cookie_header v @ later_cookies hs"
proof -
  have m: "map (\<lambda>h. parse_cookie_header (snd h)) fs = map parse_cookie_header (map snd fs)" for fs :: headers by simp
  show ?thesis unfolding cookies_read_def later_cookies_def m named_set_same [OF cookie_name] by simp
qed

lemma other_fields_set: "other_fields (set_header ''Cookie'' v hs) = other_fields hs"
  using canonical_header_name_same [of "''Cookie''"] cookie_name
  by (induction hs) (auto simp: other_fields_def eq_ignore_ascii_case_def)

lemma other_fields_remove: "other_fields (remove_header ''cookie'' hs) = other_fields hs"
  by (auto simp: other_fields_def remove_header_def intro!: filter_cong)

lemma stored_cookies:
  assumes "list_all clean_cookie cs"
    and "(if cs = [] then Inr (remove_header ''cookie'' hs)
      else try_bind (render_request_cookies cs (rule_header_limit st)) (\<lambda>v. Inr (set_header ''Cookie'' v hs))) = Inr hs'"
  shows "cookies_read hs' = (if cs = [] then [] else cs @ later_cookies hs) \<and> other_fields hs' = other_fields hs"
proof (cases "cs = []")
  case True
  with assms(2) have "hs' = remove_header ''cookie'' hs" by simp
  with True show ?thesis by (simp add: cookies_read_def named_remove other_fields_remove)
next
  case False
  with assms(2) obtain v where v: "render_request_cookies cs (rule_header_limit st) = Inr v" "hs' = set_header ''Cookie'' v hs"
    by (auto simp: try_bind_Inr_iff)
  then have "v = print_cookies cs"
    using push_pieces_eq [OF limits_usize(4), of "[]" st _ "cookie_pieces cs"]
    by (auto simp: render_request_cookies_def render_print_cookies split: if_splits)
  with v assms(1) False show ?thesis by (simp add: cookies_read_set other_fields_set parse_print_cookies)
qed

lemma set_pair_clean: "list_all clean_cookie cs \<Longrightarrow> clean_cookie (k, v) \<Longrightarrow> list_all clean_cookie (set_pair k v cs)"
  by (induction cs) (auto simp: clean_cookie_def)

lemma set_pair_others: "filter (\<lambda>(k, _). k \<noteq> name) (set_pair name v cs) = filter (\<lambda>(k, _). k \<noteq> name) cs"
  by (induction cs) auto

lemma set_pair_self: "map_of (set_pair name v cs) name = Some v" "set_pair name v cs \<noteq> []"
  by (induction cs) (auto split: if_splits)

text \<open>
  C27: Setting and removing a cookie of a request, as a server reads the pairs \<open>name=value\<close> of all the
  \<open>Cookie\<close> fields. Setting a cookie to a value that resolves to \<open>w\<close>, where the name and \<open>w\<close> are free of
  separators and of surrounding white space (a value with a semicolon would be read as more
  cookies): the server reads \<open>w\<close> for the name, and all cookies of other names are as they were.
  Removing a cookie from a request with at most one \<open>Cookie\<close> field leaves exactly the cookies of other
  names. With several fields only the first one is rewritten: the cookies of the later ones stay,
  or all go when the first one has none left. No field other than \<open>Cookie\<close> is changed.
\<close>

theorem request_cookie_exact:
  "(\<forall>hs' w. apply_req_cookie st item meta (CookieSet name v attrs) hs = Inr hs' \<longrightarrow>
      resolve_value_text_bounded st item meta v (rule_header_limit st) = Inr w \<longrightarrow> clean_cookie (name, w) \<longrightarrow>
      cookies_read hs' = set_pair name w (request_cookies hs) @ later_cookies hs \<and>
      map_of (cookies_read hs') name = Some w \<and>
      filter (\<lambda>(k, _). k \<noteq> name) (cookies_read hs') = filter (\<lambda>(k, _). k \<noteq> name) (cookies_read hs) \<and>
      other_fields hs' = other_fields hs) \<and>
   (\<forall>hs'. apply_req_cookie st item meta (CookieRemove name) hs = Inr hs' \<longrightarrow>
      (let kept = filter (\<lambda>(k, _). k \<noteq> name) (request_cookies hs) in
       cookies_read hs' = (if kept = [] then [] else kept @ later_cookies hs)) \<and>
      (length (named ''cookie'' hs) \<le> 1 \<longrightarrow> cookies_read hs' = filter (\<lambda>(k, _). k \<noteq> name) (cookies_read hs)) \<and>
      other_fields hs' = other_fields hs)"
proof (intro conjI allI impI)
  fix hs' :: headers and w
  assume a: "apply_req_cookie st item meta (CookieSet name v attrs) hs = Inr hs'"
    "resolve_value_text_bounded st item meta v (rule_header_limit st) = Inr w" "clean_cookie (name, w)"
  then have "list_all clean_cookie (set_pair name w (request_cookies hs))"
    using request_cookies_clean [of hs] by (simp add: set_pair_clean)
  with a have "cookies_read hs' = (if set_pair name w (request_cookies hs) = [] then [] else set_pair name w (request_cookies hs) @ later_cookies hs) \<and>
      other_fields hs' = other_fields hs"
    by (intro stored_cookies) (simp_all add: apply_req_cookie_def)
  then show c: "cookies_read hs' = set_pair name w (request_cookies hs) @ later_cookies hs" and "other_fields hs' = other_fields hs"
    using set_pair_self(2) by simp_all
  show "map_of (cookies_read hs') name = Some w" by (simp add: c set_pair_self(1) map_add_Some_iff)
  show "filter (\<lambda>(k, _). k \<noteq> name) (cookies_read hs') = filter (\<lambda>(k, _). k \<noteq> name) (cookies_read hs)"
    by (simp add: c cookies_read_first [of hs] set_pair_others)
next
  let ?kept = "filter (\<lambda>(k, _). k \<noteq> name) (request_cookies hs)"
  fix hs' :: headers
  assume "apply_req_cookie st item meta (CookieRemove name) hs = Inr hs'"
  moreover have "list_all clean_cookie ?kept" using request_cookies_clean [of hs] by (auto simp: list_all_iff)
  ultimately have k: "cookies_read hs' = (if ?kept = [] then [] else ?kept @ later_cookies hs) \<and> other_fields hs' = other_fields hs"
    by (intro stored_cookies) (simp_all add: apply_req_cookie_def)
  then show "let kept = ?kept in cookies_read hs' = (if kept = [] then [] else kept @ later_cookies hs)"
    and "other_fields hs' = other_fields hs" by (simp_all add: Let_def)
  assume "length (named ''cookie'' hs) \<le> 1"
  then have "later_cookies hs = []" by (cases "named ''cookie'' hs") (simp_all add: later_cookies_def)
  with k show "cookies_read hs' = filter (\<lambda>(k, _). k \<noteq> name) (cookies_read hs)" by (simp add: cookies_read_first [of hs])
qed

definition demo_state :: proxy_state where
  "demo_state =
     \<lparr>px_ext = demo_ext, px_files = (\<lambda>_. Inl NotFound), px_storage = ''/data'', px_max_header_size = 1024,
       px_max_header_count = 16, px_body_buffer_limit = 4096\<rparr>"

definition demo_item :: "action \<Rightarrow> resolved_action" where
  "demo_item a = \<lparr>ra_action = a, ra_rule = \<lparr>mr_group = [], mr_line = 1, mr_raw = []\<rparr>, ra_captures = captures_default, ra_response = None\<rparr>"

lemma request_cookie_exact_witness:
  "\<exists>hs'. apply_req_cookie demo_state (demo_item Direct) (demo_request ''http://a/'' []) (CookieSet ''b'' (Inline ''9'') [])
      [(''cookie'', ''a=1; b=2'')] = Inr hs' \<and> cookies_read hs' = [(''a'', ''1''), (''b'', ''9'')] \<and>
      map_of (cookies_read hs') ''b'' = Some ''9''"
proof -
  let ?s = "demo_state" and ?i = "demo_item Direct" and ?m = "demo_request ''http://a/'' []"
  have r: "resolve_value_text_bounded ?s ?i ?m (Inline ''9'') (rule_header_limit ?s) = Inr ''9''" by code_simp
  have c: "clean_cookie (''b'', ''9'') \<and> later_cookies [(''cookie'', ''a=1; b=2'')] = [] \<and>
      set_pair ''b'' ''9'' (request_cookies [(''cookie'', ''a=1; b=2'')]) = [(''a'', ''1''), (''b'', ''9'')]"
    by code_simp
  have "render_request_cookies [(''a'', ''1''), (''b'', ''9'')] (rule_header_limit ?s) = Inr ''a=1; b=9''" by code_simp
  with r c have a: "apply_req_cookie ?s ?i ?m (CookieSet ''b'' (Inline ''9'') []) [(''cookie'', ''a=1; b=2'')] =
      Inr (set_header ''Cookie'' ''a=1; b=9'' [(''cookie'', ''a=1; b=2'')])"
    by (simp add: apply_req_cookie_def)
  with r c request_cookie_exact [of ?s ?i ?m "''b''" "Inline ''9''" "[]" "[(''cookie'', ''a=1; b=2'')]"]
  show ?thesis by auto
qed

end
