(* ===== verification/Proxy_Json.thy ===== *)
theory Proxy_Json
  imports Proxy_Values Http1_Response
begin

text \<open>
  JSON bodies: merging a patch into a response (\<open>proxy/response_actions.rs\<close>) and deleting a path
  from a body (\<open>proxy/transforms/delete/body.rs\<close>), with the deletion of form fields. Parsing and
  printing of JSON are \<open>serde_json\<close>'s and arguments here. A JSON object is a \<open>BTreeMap\<close>. The main
  results: a merge is the deep union of the two objects and merging again changes nothing, and a
  deletion takes exactly one entry from the parent of the path.
\<close>

datatype json =
    JNull
  | JBool bool
  | JNumber string
  | JString string
  | JArray "json list"
  | JObject "(string \<times> json) list"

text \<open>
  \<open>from_str\<close>, the first value of a stream with the number of bytes read, and \<open>to_vec\<close>.
\<close>

record json_lib =
  js_parse :: "string \<Rightarrow> json option"
  js_first :: "string \<Rightarrow> (json \<times> nat) option"
  js_print :: "json \<Rightarrow> string option"

section \<open>Merging\<close>

fun merge_json :: "json \<Rightarrow> json \<Rightarrow> json"
  and merge_fields :: "(string \<times> json) list \<Rightarrow> (string \<times> json) list \<Rightarrow> (string \<times> json) list" where
  "merge_json (JObject b) (JObject p) = JObject (merge_fields b p)"
| "merge_json b p = p"
| "merge_fields b [] = b"
| "merge_fields b ((k, v) # p) =
     merge_fields (bt_insert k (case bt_get b k of Some e \<Rightarrow> merge_json e v | None \<Rightarrow> v) b) p"

definition is_object :: "json \<Rightarrow> bool" where
  "is_object j = (case j of JObject _ \<Rightarrow> True | _ \<Rightarrow> False)"

definition apply_res_merge :: "json_lib \<Rightarrow> string \<Rightarrow> string \<Rightarrow> nat \<Rightarrow> proxy_error + bool \<times> string" where
  "apply_res_merge J body patch limit =
     (if \<not> utf8_valid body then Inr (False, body)
      else
        (case js_parse J body of
           None \<Rightarrow> Inr (False, body)
         | Some base \<Rightarrow>
             if \<not> is_object base then Inr (False, body)
             else
               (case js_parse J patch of
                  None \<Rightarrow> Inl BadMerge
                | Some p \<Rightarrow>
                    if \<not> is_object p then Inl BadMerge
                    else
                      (case js_print J (merge_json base p) of
                         None \<Rightarrow> Inl BadMerge
                       | Some merged \<Rightarrow>
                           if limit < length merged then Inl (output_limit_error ''merged response body'' limit)
                           else Inr (True, merged)))))"

section \<open>Deleting a path\<close>

definition segment_key :: "delete_body_path_segment \<Rightarrow> string" where
  "segment_key s = (case s of PathKey k \<Rightarrow> k | PathIndex i \<Rightarrow> nat_to_string i)"

definition segment_index :: "delete_body_path_segment \<Rightarrow> nat option" where
  "segment_index s =
     (case s of
        PathIndex i \<Rightarrow> Some i
      | PathKey k \<Rightarrow>
          if k = ''0'' \<or> \<not> starts_with k ''0'' \<and> list_all is_ascii_digit k then parse_usize k else None)"

definition bt_remove :: "'k::linorder \<Rightarrow> ('k \<times> 'v) list \<Rightarrow> ('k \<times> 'v) list" where
  "bt_remove k m = filter (\<lambda>(k', _). k' \<noteq> k) m"

definition remove_nth :: "nat \<Rightarrow> 'a list \<Rightarrow> 'a list" where
  "remove_nth i xs = take i xs @ drop (Suc i) xs"

fun delete_json_path :: "json \<Rightarrow> delete_body_path_segment list \<Rightarrow> json option" where
  "delete_json_path v [] = None"
| "delete_json_path (JObject m) [s] =
     (if bt_get m (segment_key s) = None then None else Some (JObject (bt_remove (segment_key s) m)))"
| "delete_json_path (JArray xs) [s] =
     (case segment_index s of
        Some i \<Rightarrow> if i < length xs then Some (JArray (remove_nth i xs)) else None
      | None \<Rightarrow> None)"
| "delete_json_path (JObject m) (s # t # ss) =
     (case bt_get m (segment_key s) of
        None \<Rightarrow> None
      | Some v \<Rightarrow> map_option (\<lambda>w. JObject (bt_insert (segment_key s) w m)) (delete_json_path v (t # ss)))"
| "delete_json_path (JArray xs) (s # t # ss) =
     (case segment_index s of
        Some i \<Rightarrow> if i < length xs then map_option (\<lambda>w. JArray (xs[i := w])) (delete_json_path (xs ! i) (t # ss)) else None
      | None \<Rightarrow> None)"
| "delete_json_path v ss = None"

definition is_open_bracket :: "char \<Rightarrow> bool" where
  "is_open_bracket c \<longleftrightarrow> c = CHR ''{'' \<or> c = CHR ''[''"

definition first_json_value :: "json_lib \<Rightarrow> string \<Rightarrow> nat \<Rightarrow> (nat \<times> nat \<times> json) option" where
  "first_json_value J txt search_start =
     (case find_char is_open_bracket (drop search_start txt) of
        None \<Rightarrow> None
      | Some offset \<Rightarrow>
          (let start = search_start + offset in
           case js_first J (drop start txt) of
             Some (v, n) \<Rightarrow> (case v of JObject _ \<Rightarrow> Some (start, start + n, v) | JArray _ \<Rightarrow> Some (start, start + n, v) | _ \<Rightarrow> None)
           | None \<Rightarrow> None))"

definition delete_json_field :: "json_lib \<Rightarrow> string \<Rightarrow> delete_body_path_segment list \<Rightarrow> bool \<Rightarrow> bool \<times> string" where
  "delete_json_field J body path jsonp =
     (if \<not> utf8_valid body then (False, body)
      else
        (let search_start = (if jsonp then (case find_char (\<lambda>c. c = CHR ''('') body of Some i \<Rightarrow> i + 1 | None \<Rightarrow> 0) else 0) in
         case first_json_value J body search_start of
           None \<Rightarrow> (False, body)
         | Some (start, stop, v) \<Rightarrow>
             (case delete_json_path v path of
                None \<Rightarrow> (False, body)
              | Some w \<Rightarrow>
                  (case js_print J w of
                     None \<Rightarrow> (False, body)
                   | Some replacement \<Rightarrow> (True, take start body @ replacement @ drop stop body)))))"

section \<open>Deleting a form field\<close>

fun form_name_from :: "nat \<Rightarrow> delete_body_path_segment list \<Rightarrow> string" where
  "form_name_from i [] = []"
| "form_name_from i (PathKey k # ss) = (if 0 < i then ''.'' else []) @ k @ form_name_from (i + 1) ss"
| "form_name_from i (PathIndex n # ss) = ''['' @ nat_to_string n @ '']'' @ form_name_from (i + 1) ss"

definition form_field_name :: "delete_body_path_segment list \<Rightarrow> string" where
  "form_field_name path = form_name_from 0 path"

definition field_key :: "string \<Rightarrow> string" where
  "field_key field = hd (split_chars (\<lambda>c. c = CHR ''='') field)"

fun join_amp :: "string list \<Rightarrow> string" where
  "join_amp [] = []"
| "join_amp [s] = s"
| "join_amp (s # t # ts) = s @ CHR ''&'' # join_amp (t # ts)"

definition delete_form_field :: "string \<Rightarrow> delete_body_path_segment list \<Rightarrow> bool \<times> string" where
  "delete_form_field body path =
     (let fields = split_chars (\<lambda>c. c = CHR ''&'') body;
          kept = filter (\<lambda>field. field_key field \<noteq> form_field_name path) fields in
      if length kept = length fields then (False, body) else (True, join_amp kept))"

section \<open>By content type\<close>

definition plain_body :: "headers \<Rightarrow> bool" where
  "plain_body hs =
     (case header hs ''content-encoding'' of
        None \<Rightarrow> True
      | Some v \<Rightarrow> list_all (\<lambda>e. eq_ignore_ascii_case (trim e) ''identity'') (split_chars (\<lambda>c. c = CHR '','') v))"

definition media_type :: "headers \<Rightarrow> string option" where
  "media_type hs =
     Option.bind (header hs ''content-type'') (\<lambda>v.
     if first_part v = [] then None else Some (to_ascii_lowercase (first_part v)))"

definition json_media_type :: "string \<Rightarrow> bool" where
  "json_media_type m \<longleftrightarrow> m \<in> set [''application/json'', ''text/json''] \<or> ends_with m ''+json''"

definition jsonp_media_type :: "string \<Rightarrow> bool" where
  "jsonp_media_type m \<longleftrightarrow>
     m \<in> set [''application/javascript'', ''text/javascript'', ''application/x-javascript'', ''application/ecmascript'',
       ''text/ecmascript'', ''application/jsonp'']"

definition delete_request_body_path :: "json_lib \<Rightarrow> headers \<Rightarrow> string \<Rightarrow> delete_body_path_segment list \<Rightarrow> bool \<times> string" where
  "delete_request_body_path J hs body path =
     (if \<not> plain_body hs then (False, body)
      else
        (case media_type hs of
           None \<Rightarrow> (False, body)
         | Some m \<Rightarrow>
             if m = ''application/x-www-form-urlencoded'' then delete_form_field body path
             else if json_media_type m then delete_json_field J body path False
             else (False, body)))"

definition delete_response_body_path :: "json_lib \<Rightarrow> headers \<Rightarrow> string \<Rightarrow> delete_body_path_segment list \<Rightarrow> bool \<times> string" where
  "delete_response_body_path J hs body path =
     (if \<not> plain_body hs then (False, body)
      else
        (case media_type hs of
           None \<Rightarrow> delete_json_field J body path False
         | Some m \<Rightarrow>
             if json_media_type m then delete_json_field J body path False
             else if jsonp_media_type m then delete_json_field J body path True
             else (False, body)))"

section \<open>Merging is a deep union\<close>

text \<open>A well-formed value: the keys of every object increase.\<close>

fun json_wf :: "json \<Rightarrow> bool" where
  "json_wf (JArray xs) \<longleftrightarrow> list_all json_wf xs"
| "json_wf (JObject m) \<longleftrightarrow> bt_inv m \<and> list_all (\<lambda>(_, v). json_wf v) m"
| "json_wf _ \<longleftrightarrow> True"

lemma json_wf_get: "json_wf (JObject m) \<Longrightarrow> bt_get m k = Some v \<Longrightarrow> json_wf v"
  by (auto simp: bt_get_def list_all_iff dest!: map_of_SomeD)

lemma bt_ext:
  assumes "bt_inv m" "bt_inv n" "\<And>k. bt_get m k = bt_get n k"
  shows "m = n"
proof -
  have s: "sorted (map fst m) \<and> distinct (map fst m)" "sorted (map fst n) \<and> distinct (map fst n)"
    using assms(1,2) unfolding bt_inv_def by (metis strict_sorted_iff)+
  have "map_of m = map_of n" using assms(3) by (auto simp: bt_get_def)
  with s have e: "set m = set n" by (metis map_of_eqI map_of_inject_set)
  moreover have "inj_on fst (set m)" using s(1) by (simp add: distinct_map)
  ultimately show ?thesis using s by (intro map_sorted_distinct_set_unique [of fst]) auto
qed

lemma merge_fields_get:
  "bt_inv b \<Longrightarrow> distinct (map fst p) \<Longrightarrow>
     bt_inv (merge_fields b p) \<and>
     bt_get (merge_fields b p) k =
       (case map_of p k of
          None \<Rightarrow> bt_get b k
        | Some v \<Rightarrow> Some (case bt_get b k of Some e \<Rightarrow> merge_json e v | None \<Rightarrow> v))"
proof (induction p arbitrary: b)
  case (Cons f p)
  obtain j v where f: "f = (j, v)" by (cases f)
  let ?b = "bt_insert j (case bt_get b j of Some e \<Rightarrow> merge_json e v | None \<Rightarrow> v) b"
  have "bt_inv ?b" using Cons.prems(1) by (rule bt_inv_insert)
  moreover have "map_of p j = None" using Cons.prems(2) by (simp add: f map_of_eq_None_iff image_iff)
  ultimately show ?case
    using Cons.IH [of ?b] Cons.prems by (auto simp: f bt_get_insert [OF Cons.prems(1)] split: option.split)
qed simp

lemma json_wf_keys: "json_wf (JObject m) \<Longrightarrow> distinct (map fst m)"
  using strict_sorted_iff by (auto simp: bt_inv_def)

lemma merge_self: "json_wf p \<Longrightarrow> merge_json p p = p"
proof (induction p)
  case (JObject m)
  have "merge_json v v = v" if "bt_get m k = Some v" for k v
    using that JObject.IH [of "(k, v)" v] json_wf_get [OF JObject.prems that] by (auto simp: bt_get_def dest!: map_of_SomeD)
  then have "bt_get (merge_fields m m) k = bt_get m k" for k
    using merge_fields_get [of m m k] JObject.prems json_wf_keys [OF JObject.prems]
    by (auto simp: bt_get_def split: option.splits)
  moreover have "bt_inv (merge_fields m m) \<and> bt_inv m"
    using merge_fields_get [of m m] JObject.prems json_wf_keys [OF JObject.prems] by simp
  ultimately show ?case using bt_ext by (metis merge_json.simps(1))
qed simp_all

lemma merge_again: "json_wf b \<Longrightarrow> json_wf p \<Longrightarrow> merge_json (merge_json b p) p = merge_json b p"
proof (induction p arbitrary: b)
  case (JObject m)
  show ?case
  proof (cases "is_object b")
    case True
    then obtain o' where b: "b = JObject o'" by (auto simp: is_object_def split: json.splits)
    let ?m = "merge_fields o' m"
    have inv: "bt_inv o'" "distinct (map fst m)" using JObject.prems b json_wf_keys by auto
    then have i: "bt_inv ?m" "bt_inv (merge_fields ?m m)"
      using merge_fields_get by blast+
    have "bt_get (merge_fields ?m m) k = bt_get ?m k" for k
    proof (cases "map_of m k")
      case (Some v)
      then have v: "json_wf v" "(k, v) \<in> set m"
        using json_wf_get [OF JObject.prems(2), of k v] by (auto simp: bt_get_def dest: map_of_SomeD)
      have "merge_json (merge_json e v) v = merge_json e v" if "bt_get o' k = Some e" for e
        using JObject.IH [OF v(2), of v e] json_wf_get [OF JObject.prems(1) [unfolded b] that] v(1) by simp
      with Some v inv i show ?thesis
        by (auto simp: merge_fields_get merge_self split: option.split)
    qed (use inv i in \<open>simp add: merge_fields_get\<close>)
    with i b show ?thesis using bt_ext by fastforce
  next
    case False
    then have "merge_json b (JObject m) = JObject m" by (cases b) (auto simp: is_object_def)
    with JObject.prems show ?thesis by (simp only: merge_self)
  qed
qed simp_all

text \<open>
  C26: Merging a patch into a response object is their deep union: a field that only one of them
  has keeps its value, a field of both takes the merge of the two values, and a patch that is
  not an object replaces what it meets. Applying the same patch again changes nothing.
\<close>

theorem merge_deep_union:
  assumes "json_wf (JObject b)" "json_wf (JObject p)"
  shows "\<exists>m. merge_json (JObject b) (JObject p) = JObject m \<and> merge_json (JObject m) (JObject p) = JObject m \<and> bt_inv m \<and>
      (\<forall>k. bt_get m k =
        (case (bt_get b k, bt_get p k) of
           (Some e, Some v) \<Rightarrow> Some (merge_json e v) | (e, None) \<Rightarrow> e | (None, v) \<Rightarrow> v))"
  using assms merge_fields_get [of b p] json_wf_keys [OF assms(2)] merge_again [OF assms]
  by (auto simp: bt_get_def split: option.splits)

lemma merge_deep_union_witness:
  "json_wf (JObject [(''a'', JObject [(''x'', JNull)])]) \<and> json_wf (JObject [(''a'', JObject [(''y'', JBool True)])]) \<and>
   (\<exists>m. merge_json (JObject [(''a'', JObject [(''x'', JNull)])]) (JObject [(''a'', JObject [(''y'', JBool True)])]) = JObject m \<and>
     bt_get m ''a'' = Some (JObject [(''x'', JNull), (''y'', JBool True)]))"
proof -
  let ?b = "[(''a'', JObject [(''x'', JNull)])]" and ?p = "[(''a'', JObject [(''y'', JBool True)])]"
  have w: "json_wf (JObject ?b)" "json_wf (JObject ?p)" by code_simp+
  have "bt_get ?b ''a'' = Some (JObject [(''x'', JNull)]) \<and> bt_get ?p ''a'' = Some (JObject [(''y'', JBool True)]) \<and>
      merge_json (JObject [(''x'', JNull)]) (JObject [(''y'', JBool True)]) = JObject [(''x'', JNull), (''y'', JBool True)]" by code_simp
  with merge_deep_union [OF w] w show ?thesis by fastforce
qed

section \<open>A deletion takes one entry\<close>

fun json_at :: "json \<Rightarrow> delete_body_path_segment list \<Rightarrow> json option" where
  "json_at v [] = Some v"
| "json_at (JObject m) (s # ss) = Option.bind (bt_get m (segment_key s)) (\<lambda>v. json_at v ss)"
| "json_at (JArray xs) (s # ss) =
     Option.bind (segment_index s) (\<lambda>i. if i < length xs then json_at (xs ! i) ss else None)"
| "json_at _ (s # ss) = None"

lemma bt_get_remove: "bt_get (bt_remove k m) j = (if j = k then None else bt_get m j)"
  by (induction m) (auto simp: bt_get_def bt_remove_def)

lemma delete_fails: "delete_json_path v (ps @ [s]) = None \<longleftrightarrow> json_at v (ps @ [s]) = None"
proof (induction ps arbitrary: v)
  case Nil
  show ?case by (cases v) (auto split: option.splits)
next
  case (Cons p ps)
  obtain t ss where t: "ps @ [s] = t # ss" by (cases ps) auto
  with Cons.IH show ?case by (cases v) (auto split: option.splits)
qed

lemma delete_parent:
  "json_wf v \<Longrightarrow> delete_json_path v (ps @ [s]) = Some v' \<Longrightarrow>
     (case json_at v ps of
        Some (JObject m) \<Rightarrow> json_at v' ps = Some (JObject (bt_remove (segment_key s) m))
      | Some (JArray xs) \<Rightarrow> json_at v' ps = map_option (\<lambda>i. JArray (remove_nth i xs)) (segment_index s)
      | _ \<Rightarrow> False)"
proof (induction ps arbitrary: v v')
  case Nil
  then show ?case by (cases v) (auto split: option.splits if_splits)
next
  case (Cons p ps)
  obtain t ss where t: "ps @ [s] = t # ss" by (cases ps) auto
  show ?case
  proof (cases v)
    case (JArray xs)
    with Cons.prems t obtain i w where i: "segment_index p = Some i" "i < length xs"
      "delete_json_path (xs ! i) (ps @ [s]) = Some w" "v' = JArray (xs[i := w])"
      by (auto split: option.splits if_splits)
    moreover have "json_wf (xs ! i)" using Cons.prems(1) i(2) JArray by (simp add: list_all_length)
    ultimately show ?thesis using Cons.IH [of "xs ! i" w] JArray by (auto split: option.splits json.splits)
  next
    case (JObject m)
    with Cons.prems t obtain u w where u: "bt_get m (segment_key p) = Some u"
      "delete_json_path u (ps @ [s]) = Some w" "v' = JObject (bt_insert (segment_key p) w m)"
      by (auto split: option.splits)
    moreover have "json_wf u" using json_wf_get Cons.prems(1) u(1) JObject by blast
    ultimately show ?thesis using Cons.IH [of u w] Cons.prems(1) JObject
      by (auto simp: bt_get_insert split: option.splits json.splits)
  qed (use Cons.prems t in auto)
qed

lemma delete_elsewhere:
  "json_wf v \<Longrightarrow> delete_json_path v (rs @ r # ws) = Some v' \<Longrightarrow> json_at v rs = Some (JObject m) \<Longrightarrow>
     segment_key t \<noteq> segment_key r \<Longrightarrow> json_at v' (rs @ t # us) = json_at v (rs @ t # us)"
proof (induction rs arbitrary: v v')
  case Nil
  then show ?case by (cases ws) (auto simp: bt_get_remove bt_get_insert split: option.splits if_splits)
next
  case (Cons q rs)
  obtain s ss where s: "rs @ r # ws = s # ss" by (cases rs) auto
  show ?case
  proof (cases v)
    case (JArray xs)
    with Cons.prems s obtain i w where i: "segment_index q = Some i" "i < length xs"
      "delete_json_path (xs ! i) (rs @ r # ws) = Some w" "v' = JArray (xs[i := w])"
      by (auto split: option.splits if_splits)
    moreover have "json_wf (xs ! i)" using Cons.prems(1) i(2) JArray by (simp add: list_all_length)
    ultimately show ?thesis using Cons.IH [of "xs ! i" w] Cons.prems JArray by simp
  next
    case (JObject o')
    with Cons.prems s obtain u w where u: "bt_get o' (segment_key q) = Some u"
      "delete_json_path u (rs @ r # ws) = Some w" "v' = JObject (bt_insert (segment_key q) w o')"
      by (auto split: option.splits)
    moreover have "json_wf u" using json_wf_get Cons.prems(1) u(1) JObject by blast
    ultimately show ?thesis using Cons.IH [of u w] Cons.prems JObject by (simp add: bt_get_insert)
  qed (use Cons.prems s in auto)
qed

text \<open>
  Deleting a path fails exactly when nothing is there. Otherwise the parent of the path loses
  that one entry (a field of an object, an element of an array), and every path that leaves the
  deleted one at a field of an object still leads to the same value.
\<close>

theorem json_deletion_exact:
  assumes "json_wf v"
  shows "(delete_json_path v (ps @ [s]) = None \<longleftrightarrow> json_at v (ps @ [s]) = None) \<and>
    (\<forall>v'. delete_json_path v (ps @ [s]) = Some v' \<longrightarrow>
      (case json_at v ps of
         Some (JObject m) \<Rightarrow> json_at v' ps = Some (JObject (bt_remove (segment_key s) m))
       | Some (JArray xs) \<Rightarrow> json_at v' ps = map_option (\<lambda>i. JArray (remove_nth i xs)) (segment_index s)
       | _ \<Rightarrow> False) \<and>
      (\<forall>rs r ws m t us. ps @ [s] = rs @ r # ws \<longrightarrow> json_at v rs = Some (JObject m) \<longrightarrow>
         segment_key t \<noteq> segment_key r \<longrightarrow> json_at v' (rs @ t # us) = json_at v (rs @ t # us)))"
  using assms delete_fails delete_parent delete_elsewhere by (metis (no_types, lifting))

lemma json_deletion_exact_witness:
  "let v = JObject [(''a'', JArray [JNull, JBool True]), (''b'', JNull)] in
   json_wf v \<and> (\<exists>v'. delete_json_path v [PathKey ''a'', PathIndex 0] = Some v' \<and>
     json_at v' [PathKey ''a''] = Some (JArray [JBool True]) \<and> json_at v' [PathKey ''b''] = Some JNull)"
proof -
  let ?v = "JObject [(''a'', JArray [JNull, JBool True]), (''b'', JNull)]"
  have w: "json_wf ?v" by code_simp
  have d: "delete_json_path ?v ([PathKey ''a''] @ [PathIndex 0]) = Some (JObject [(''a'', JArray [JBool True]), (''b'', JNull)])"
    "json_at ?v [PathKey ''a''] = Some (JArray [JNull, JBool True])" "json_at ?v [PathKey ''b''] = Some JNull"
    "segment_index (PathIndex 0) = Some 0" "remove_nth 0 [JNull, JBool True] = [JBool True]" "segment_key (PathKey ''b'') \<noteq> segment_key (PathKey ''a'')"
    by code_simp+
  have a: "json_at ?v [] = Some ?v" by simp
  let ?w = "JObject [(''a'', JArray [JBool True]), (''b'', JNull)]"
  note all = json_deletion_exact [OF w, of "[PathKey ''a'']" "PathIndex 0", THEN conjunct2, rule_format, OF d(1)]
  have "json_at ?w [PathKey ''a''] = Some (JArray [JBool True])" using conjunct1 [OF all] d by simp
  moreover have "json_at ?w ([] @ [PathKey ''b'']) = json_at ?v ([] @ [PathKey ''b''])"
    by (rule conjunct2 [OF all, rule_format, of "[]" "PathKey ''a''" "[PathIndex 0]"]) (use a d(6) in simp_all)
  ultimately show ?thesis using w d(1,3) by (simp only: Let_def append.simps) blast
qed

end
