(* ===== verification/Proxy_Routing.thy ===== *)
theory Proxy_Routing
  imports Parse_Groups Proxy_Values
begin

text \<open>
  Proxy authentication (\<open>proxy/auth.rs\<close>), addresses and URLs of requests
  (\<open>proxy/request_util.rs\<close>), upstream routes (\<open>proxy/routing.rs\<close>, \<open>routing/model.rs\<close>) and the
  persistence of connections (\<open>proxy/stream.rs\<close>, \<open>h1_forward/response/result.rs\<close>). The main
  results: credentials are accepted exactly when they decode to the configured ones and never
  reach the upstream, an address reads back as what was printed, and every route
  leads to the target of the request.
\<close>

section \<open>Proxy authentication\<close>

definition base64_char :: "nat \<Rightarrow> char" where
  "base64_char n = ''ABCDEFGHIJKLMNOPQRSTUVWXYZabcdefghijklmnopqrstuvwxyz0123456789+/'' ! n"

text \<open>The loop over groups of three bytes; missing bytes count as zero.\<close>

fun base64 :: "string \<Rightarrow> string" where
  "base64 [] = []"
| "base64 [a] =
     [base64_char (byte a div 4), base64_char (byte a mod 4 * 16), CHR ''='', CHR ''='']"
| "base64 [a, b] =
     [base64_char (byte a div 4), base64_char (byte a mod 4 * 16 + byte b div 16), base64_char (byte b mod 16 * 4), CHR ''='']"
| "base64 (a # b # c # s) =
     base64_char (byte a div 4) # base64_char (byte a mod 4 * 16 + byte b div 16) #
     base64_char (byte b mod 16 * 4 + byte c div 64) # base64_char (byte c mod 64) # base64 s"

definition authorized :: "headers \<Rightarrow> string option \<Rightarrow> bool" where
  "authorized hs expected =
     (case expected of
        None \<Rightarrow> True
      | Some e \<Rightarrow>
          (case header hs ''proxy-authorization'' of
             None \<Rightarrow> False
           | Some actual \<Rightarrow>
               (case split_ws [] (chars actual) of
                  [scheme, credentials] \<Rightarrow> eq_ignore_ascii_case scheme ''basic'' \<and> credentials = base64 e
                | _ \<Rightarrow> False)))"

definition authorize_and_strip_proxy_credentials :: "string option \<Rightarrow> headers \<Rightarrow> bool \<times> headers" where
  "authorize_and_strip_proxy_credentials expected hs =
     (if authorized hs expected then (True, remove_header ''proxy-authorization'' hs) else (False, hs))"

text \<open>A reference decoder.\<close>

definition sextet :: "char \<Rightarrow> nat" where
  "sextet c =
     (if is_ascii_uppercase c then byte c - 65 else if is_ascii_lowercase c then byte c - 71
      else if is_ascii_digit c then byte c + 4 else if c = CHR ''+'' then 62 else 63)"

fun base64_decode :: "string \<Rightarrow> string" where
  "base64_decode (p # q # r # s # t) =
     (if r = CHR ''='' then [char_of (sextet p * 4 + sextet q div 16)]
      else if s = CHR ''='' then [char_of (sextet p * 4 + sextet q div 16), char_of (sextet q mod 16 * 16 + sextet r div 4)]
      else char_of (sextet p * 4 + sextet q div 16) # char_of (sextet q mod 16 * 16 + sextet r div 4) #
        char_of (sextet r mod 4 * 64 + sextet s) # base64_decode t)"
| "base64_decode _ = []"

lemma sextet_base64: "n < 64 \<Longrightarrow> sextet (base64_char n) = n \<and> base64_char n \<noteq> CHR ''=''"
proof -
  have "list_all (\<lambda>n. sextet (base64_char n) = n \<and> base64_char n \<noteq> CHR ''='') [0..<64]" by code_simp
  then show "n < 64 \<Longrightarrow> ?thesis" by (simp add: list_all_iff)
qed

lemma char_of_byte [simp]: "char_of (byte c) = c"
  by (simp add: byte_def)

lemma byte_less: "byte c < 256"
  by (simp add: byte_def)

lemma digit_pair: "k < n \<Longrightarrow> (m * n + k) div n = m \<and> (m * n + k) mod n = (k :: nat)"
  by simp

lemma byte_digits: "byte c div 4 < 64" "byte c div 16 < 16" "byte c div 64 < 4"
  using byte_less [of c] by (auto simp: less_mult_imp_div_less)

lemma base64_pieces:
  "byte a mod 4 * 16 + byte b div 16 < 64" "byte b mod 16 * 4 + byte c div 64 < 64"
  "byte c mod 64 < 64" "byte a mod 4 * 16 < 64" "byte b mod 16 * 4 < 64"
proof -
  have m: "byte a mod 4 \<le> 3" "byte b mod 16 \<le> 15" by simp_all
  then show "byte a mod 4 * 16 + byte b div 16 < 64" using byte_digits(2) [of b] by linarith
  show "byte b mod 16 * 4 + byte c div 64 < 64" using m byte_digits(3) [of c] by linarith
  show "byte a mod 4 * 16 < 64" "byte b mod 16 * 4 < 64" using m by linarith+
qed simp

lemma base64_decode_base64: "base64_decode (base64 s) = s"
proof (induction s rule: base64.induct)
  case (4 a b c s)
  let ?q = "byte a mod 4 * 16 + byte b div 16" and ?r = "byte b mod 16 * 4 + byte c div 64"
  have "byte a div 4 * 4 + ?q div 16 = byte a" "?q mod 16 * 16 + ?r div 4 = byte b" "?r mod 4 * 64 + byte c mod 64 = byte c"
    using digit_pair [OF byte_digits(2) [of b], of "byte a mod 4"] digit_pair [OF byte_digits(3) [of c], of "byte b mod 16"] by simp_all
  with 4 sextet_base64 base64_pieces(1) [of a b] base64_pieces(2) [of b c] base64_pieces(3) [of c] byte_digits(1) [of a] show ?case by simp
next
  case (3 a b)
  let ?q = "byte a mod 4 * 16 + byte b div 16"
  have "byte a div 4 * 4 + ?q div 16 = byte a" "?q mod 16 * 16 + byte b mod 16 * 4 div 4 = byte b"
    using digit_pair [OF byte_digits(2) [of b], of "byte a mod 4"] by simp_all
  with sextet_base64 base64_pieces(1) [of a b] base64_pieces(5) [of b] byte_digits(1) [of a] show ?case by simp
next
  case (2 a)
  have "byte a div 4 * 4 + byte a mod 4 * 16 div 16 = byte a" by simp
  with sextet_base64 base64_pieces(4) [of a] byte_digits(1) [of a] show ?case by simp
qed simp

text \<open>
  C24: With configured credentials, a request passes exactly when its first
  \<open>Proxy-Authorization\<close> field consists of the word \<open>Basic\<close> and a text that is the encoding of
  those credentials, and then it decodes to them; no request without such a field passes. A
  request that passes goes on without any \<open>Proxy-Authorization\<close> field.
\<close>

theorem proxy_credentials_exact:
  "(fst (authorize_and_strip_proxy_credentials (Some e) hs) \<longleftrightarrow>
     (\<exists>actual scheme c. header hs ''proxy-authorization'' = Some actual \<and> split_ws [] (chars actual) = [scheme, c] \<and>
       eq_ignore_ascii_case scheme ''basic'' \<and> c = base64 e \<and> base64_decode c = e)) \<and>
   (fst (authorize_and_strip_proxy_credentials expected hs) \<longrightarrow>
     header (snd (authorize_and_strip_proxy_credentials expected hs)) ''proxy-authorization'' = None)"
proof
  show "fst (authorize_and_strip_proxy_credentials (Some e) hs) \<longleftrightarrow>
     (\<exists>actual scheme c. header hs ''proxy-authorization'' = Some actual \<and> split_ws [] (chars actual) = [scheme, c] \<and>
       eq_ignore_ascii_case scheme ''basic'' \<and> c = base64 e \<and> base64_decode c = e)"
    by (auto simp: authorize_and_strip_proxy_credentials_def authorized_def base64_decode_base64
        split: option.splits list.splits)
  show "fst (authorize_and_strip_proxy_credentials expected hs) \<longrightarrow>
     header (snd (authorize_and_strip_proxy_credentials expected hs)) ''proxy-authorization'' = None"
    by (simp add: authorize_and_strip_proxy_credentials_def header_named named_remove)
qed

lemma proxy_credentials_exact_witness:
  "authorize_and_strip_proxy_credentials (Some ''u:p'') [(''proxy-authorization'', ''basic dTpw'')] = (True, [])"
proof -
  have "header [(''proxy-authorization'', ''basic dTpw'')] ''proxy-authorization'' = Some ''basic dTpw'' \<and>
      split_ws [] (chars ''basic dTpw'') = [''basic'', ''dTpw''] \<and> eq_ignore_ascii_case ''basic'' ''basic'' \<and>
      ''dTpw'' = base64 ''u:p'' \<and> base64_decode ''dTpw'' = ''u:p'' \<and> remove_header ''proxy-authorization'' [(''proxy-authorization'', ''basic dTpw'')] = []"
    by code_simp
  with proxy_credentials_exact [of "''u:p''" "[(''proxy-authorization'', ''basic dTpw'')]" "Some ''u:p''"]
  show ?thesis by (auto simp: authorize_and_strip_proxy_credentials_def split: if_splits)
qed

section \<open>Addresses\<close>

definition format_authority_host :: "string \<Rightarrow> string" where
  "format_authority_host host =
     (let host = (case Option.bind (strip_prefix host ''['') (\<lambda>h. strip_suffix h '']'') of Some h \<Rightarrow> h | None \<Rightarrow> host) in
      if CHR '':'' \<in> set host then ''['' @ host @ '']'' else host)"

definition format_host_port :: "string \<Rightarrow> u16 \<Rightarrow> string" where
  "format_host_port host port = format_authority_host host @ '':'' @ nat_to_string (unat port)"

definition split_addr :: "string \<Rightarrow> u16 \<Rightarrow> string \<times> u16" where
  "split_addr input default_port =
     (case rsplit_once_char input (CHR '':'') of
        Some (host, port) \<Rightarrow>
          (case parse_u16 port of Inr p \<Rightarrow> (trim_brackets host, p) | Inl _ \<Rightarrow> (trim_brackets input, default_port))
      | None \<Rightarrow> (trim_brackets input, default_port))"

record socks_auth =
  sa_username :: string
  sa_password :: string

definition split_socks_auth :: "string \<Rightarrow> socks_auth option \<times> string" where
  "split_socks_auth input =
     (case rsplit_once_char input (CHR ''@'') of
        None \<Rightarrow> (None, input)
      | Some (auth, addr) \<Rightarrow>
          (case split_once auth '':'' of
             None \<Rightarrow> (None, input)
           | Some (u, p) \<Rightarrow> (Some \<lparr>sa_username = u, sa_password = p\<rparr>, addr)))"

definition host_header :: "url_parts \<Rightarrow> string" where
  "host_header url =
     (let host = format_authority_host (url_host url) in
      case url_port url of
        None \<Rightarrow> host
      | Some port \<Rightarrow>
          if port = 80 \<and> (url_scheme url = ''http'' \<or> url_scheme url = ''ws'') \<or>
             port = 443 \<and> (url_scheme url = ''https'' \<or> url_scheme url = ''wss'')
          then host else host @ '':'' @ nat_to_string (unat port))"

lemma rsplit_once_last:
  assumes "c \<notin> set b"
  shows "rsplit_once_char (a @ c # b) c = Some (a, b)"
proof -
  have "rfind_char (\<lambda>d. d = c) (a @ c # b) = Some (length a)"
  proof (induction a)
    case Nil
    have "rfind_char (\<lambda>d. d = c) b = None" using assms by (induction b) auto
    then show ?case by simp
  qed simp
  then show ?thesis by (simp add: rsplit_once_char_def)
qed

text \<open>
  A host and a port, printed as the proxy prints an address, read back as that host and
  port, whether the host is a name, an IPv4 address or an IPv6 address, and whatever the default
  port is.
\<close>

theorem address_roundtrip:
  assumes "\<And>c. c \<in> set host \<Longrightarrow> \<not> is_bracket c" "host \<noteq> []"
  shows "split_addr (format_host_port host port) default_port = (host, port)"
proof -
  have "CHR '':'' \<notin> set (nat_to_string (unat port))"
    using nat_to_string_digits [of "CHR '':''" "unat port"] by (auto simp: is_ascii_digit_def byte_def)
  then have r: "rsplit_once_char (a @ '':'' @ nat_to_string (unat port)) (CHR '':'') = Some (a, nat_to_string (unat port))" for a
    using rsplit_once_last [of "CHR '':''" "nat_to_string (unat port)" a] by simp
  have "unat port < 2 ^ 16" using unsigned_less [of port] by simp
  then have p: "parse_u16 (nat_to_string (unat port)) = Inr port"
    by (simp add: parse_u16_def parse_uint_nat_to_string)
  have "Option.bind (strip_prefix host ''['') (\<lambda>h. strip_suffix h '']'') = None"
    using assms by (cases host) (auto simp: strip_prefix_def starts_with_def is_bracket_def)
  then have "format_authority_host host = (if CHR '':'' \<in> set host then CHR ''['' # host @ [CHR '']''] else host)"
    by (simp add: format_authority_host_def)
  moreover have "trim_brackets (CHR ''['' # host @ [CHR '']'']) = host" using assms by (rule trim_brackets_bracketed)
  moreover have "trim_brackets host = host" using assms(1) by (rule trim_brackets_id)
  ultimately show ?thesis by (simp add: split_addr_def format_host_port_def r p del: append.simps)
qed

lemma address_roundtrip_witness:
  "(\<forall>c \<in> set ''::1''. \<not> is_bracket c) \<and> split_addr (format_host_port ''::1'' 8080) 80 = (''::1'', 8080)"
proof -
  have b: "\<forall>c \<in> set ''::1''. \<not> is_bracket c" by code_simp
  with address_roundtrip [of "''::1''" 8080 80] show ?thesis by simp
qed

section \<open>Request URLs\<close>

definition replace_url_scheme :: "(string \<Rightarrow> string option) \<Rightarrow> string \<Rightarrow> string option" where
  "replace_url_scheme replacement url =
     Option.bind (split_once url ''://'') (\<lambda>(scheme, rest).
     map_option (\<lambda>r. r @ ''://'' @ rest) (replacement (to_ascii_lowercase scheme)))"

definition normalize_websocket_transport_scheme :: "string \<Rightarrow> proxy_error + string" where
  "normalize_websocket_transport_scheme url =
     (case url_parse url of
        Inl e \<Rightarrow> Inl (BadUrl e)
      | Inr parsed \<Rightarrow>
          Inr (case replace_url_scheme (\<lambda>_. if url_scheme parsed = ''ws'' then Some ''http''
                 else if url_scheme parsed = ''wss'' then Some ''https'' else None) url of
                 Some u \<Rightarrow> u | None \<Rightarrow> url))"

definition contains_scheme :: "string \<Rightarrow> bool" where
  "contains_scheme target \<longleftrightarrow> find_str ''://'' target \<noteq> None"

definition absolute_url_for :: "string \<Rightarrow> headers \<Rightarrow> string option \<Rightarrow> proxy_error + string" where
  "absolute_url_for target hs https_authority =
     (if contains_scheme target then normalize_websocket_transport_scheme target
      else
        (case https_authority of
           Some authority \<Rightarrow> normalize_websocket_transport_scheme (''https://'' @ authority @ target)
         | None \<Rightarrow>
             (case header hs ''host'' of
                None \<Rightarrow> Inl MissingHost
              | Some host \<Rightarrow> normalize_websocket_transport_scheme (''http://'' @ host @ target))))"

definition connection_has_token :: "headers \<Rightarrow> string \<Rightarrow> bool" where
  "connection_has_token hs token =
     (case header hs ''connection'' of
        None \<Rightarrow> False
      | Some v \<Rightarrow> list_ex (\<lambda>part. eq_ignore_ascii_case (trim part) token) (split_chars (\<lambda>c. c = CHR '','') v))"

definition upgrades_to_websocket :: "headers \<Rightarrow> bool" where
  "upgrades_to_websocket hs \<longleftrightarrow>
     (case header hs ''upgrade'' of None \<Rightarrow> False | Some v \<Rightarrow> eq_ignore_ascii_case v ''websocket'')"

definition is_websocket_request :: "headers \<Rightarrow> bool" where
  "is_websocket_request hs \<longleftrightarrow> upgrades_to_websocket hs \<and> connection_has_token hs ''upgrade''"

definition is_websocket_response :: "headers \<Rightarrow> u16 \<Rightarrow> bool" where
  "is_websocket_response hs status \<longleftrightarrow> status = 101 \<and> upgrades_to_websocket hs \<and> connection_has_token hs ''upgrade''"

definition rule_url_for :: "string \<Rightarrow> headers \<Rightarrow> string" where
  "rule_url_for transport_url hs =
     (if \<not> is_websocket_request hs then transport_url
      else
        (case replace_url_scheme (\<lambda>s. if s = ''http'' then Some ''ws'' else if s = ''https'' then Some ''wss'' else None) transport_url of
           Some u \<Rightarrow> u | None \<Rightarrow> transport_url))"

text \<open>Presenting an upgrade request to the rules and taking the transport URL back are inverse.\<close>

lemma split_once_lower_scheme:
  "split_once (''http'' @ ''://'' @ r) ''://'' = Some (''http'', r)" "split_once (''https'' @ ''://'' @ r) ''://'' = Some (''https'', r)"
proof -
  have "valid_absolute_scheme ''http'' \<and> valid_absolute_scheme ''https''" by code_simp
  then show "split_once (''http'' @ ''://'' @ r) ''://'' = Some (''http'', r)" "split_once (''https'' @ ''://'' @ r) ''://'' = Some (''https'', r)"
    by (simp_all only: split_once_scheme)
qed

lemma rule_url_for_http:
  assumes "is_websocket_request hs"
  shows "rule_url_for (''http'' @ ''://'' @ r) hs = ''ws://'' @ r" "rule_url_for (''https'' @ ''://'' @ r) hs = ''wss://'' @ r"
proof -
  have "to_ascii_lowercase ''http'' = ''http'' \<and> to_ascii_lowercase ''https'' = ''https''" by code_simp
  with assms show "rule_url_for (''http'' @ ''://'' @ r) hs = ''ws://'' @ r" "rule_url_for (''https'' @ ''://'' @ r) hs = ''wss://'' @ r"
    using split_once_lower_scheme [of r]
    by (simp_all only: rule_url_for_def replace_url_scheme_def) simp_all
qed

section \<open>Routes\<close>

datatype proxy_hop =
    HopHttp string u16
  | HopHttps string u16
  | HopSocks5 string u16 "socks_auth option"

datatype proxy_route =
    RouteDirect string u16
  | RouteHttpProxy string u16 string u16
  | RouteProxyChain "proxy_hop list" string u16
  | RouteHttpsProxy string u16 string u16
  | RouteSocks5 string u16 "socks_auth option" string u16

definition MAX_RULE_UPSTREAM_HOPS :: nat where
  "MAX_RULE_UPSTREAM_HOPS = 32"

definition upstream_entries :: "string \<Rightarrow> string list" where
  "upstream_entries v = take (MAX_RULE_UPSTREAM_HOPS + 1) (filter (\<lambda>s. s \<noteq> []) (map trim (split_chars (\<lambda>c. c = CHR '','') v)))"

definition strip_either :: "string \<Rightarrow> string \<Rightarrow> string \<Rightarrow> string option" where
  "strip_either s p q = (case strip_prefix s p of Some r \<Rightarrow> Some r | None \<Rightarrow> strip_prefix s q)"

definition parse_proxy_hop :: "string \<Rightarrow> proxy_hop option" where
  "parse_proxy_hop v =
     (case strip_either v ''proxy://'' ''http://'' of
        Some addr \<Rightarrow> (let (h, p) = split_addr addr 80 in Some (HopHttp h p))
      | None \<Rightarrow>
          (case strip_prefix v ''https-proxy://'' of
             Some addr \<Rightarrow> (let (h, p) = split_addr addr 443 in Some (HopHttps h p))
           | None \<Rightarrow>
               (case strip_either v ''socks://'' ''socks5://'' of
                  Some addr \<Rightarrow>
                    (let (auth, addr) = split_socks_auth addr; (h, p) = split_addr addr 1080 in Some (HopSocks5 h p auth))
                | None \<Rightarrow> None)))"

text \<open>The address of a host pool is the one that the copy of the action selected: an argument \<open>pick\<close>.\<close>

fun upstream_target ::
  "proxy_state \<Rightarrow> request_meta \<Rightarrow> (rule_value list \<Rightarrow> rule_value) \<Rightarrow> url_parts \<Rightarrow> resolved_action list \<Rightarrow> proxy_error + string \<times> u16" where
  "upstream_target st meta pick url [] = Inr (url_host url, case effective_port url of Some p \<Rightarrow> p | None \<Rightarrow> 80)"
| "upstream_target st meta pick url (item # items) =
     (case ra_action item of
        Host pool \<Rightarrow>
          try_bind (resolve_value_text_bounded st item meta (pick pool) (rule_header_limit st)) (\<lambda>rendered.
          Inr (split_addr rendered (case effective_port url of Some p \<Rightarrow> p | None \<Rightarrow> 80)))
      | _ \<Rightarrow> upstream_target st meta pick url items)"

definition route_of_hop :: "proxy_hop \<Rightarrow> string \<Rightarrow> u16 \<Rightarrow> proxy_route" where
  "route_of_hop hop host port =
     (case hop of
        HopHttp h p \<Rightarrow> RouteHttpProxy h p host port
      | HopHttps h p \<Rightarrow> RouteHttpsProxy h p host port
      | HopSocks5 h p auth \<Rightarrow> RouteSocks5 h p auth host port)"

fun route_loop ::
  "proxy_state \<Rightarrow> request_meta \<Rightarrow> string \<Rightarrow> u16 \<Rightarrow> resolved_action list \<Rightarrow> proxy_error + proxy_route" where
  "route_loop st meta host port [] = Inr (RouteDirect host port)"
| "route_loop st meta host port (item # items) =
     (case ra_action item of
        Upstream v \<Rightarrow>
          try_bind (resolve_value_text_bounded st item meta v (rule_header_limit st)) (\<lambda>rendered.
          let entries = upstream_entries rendered;
              hops = map parse_proxy_hop entries in
          if MAX_RULE_UPSTREAM_HOPS < length entries then Inl TooManyHops
          else if 1 < length entries \<and> None \<notin> set hops then Inr (RouteProxyChain (map the hops) host port)
          else
            (case parse_proxy_hop (case entries of e # _ \<Rightarrow> e | [] \<Rightarrow> rendered) of
               Some hop \<Rightarrow> Inr (route_of_hop hop host port)
             | None \<Rightarrow> route_loop st meta host port items))
      | _ \<Rightarrow> route_loop st meta host port items)"

definition upstream_route ::
  "proxy_state \<Rightarrow> request_meta \<Rightarrow> (rule_value list \<Rightarrow> rule_value) \<Rightarrow> url_parts \<Rightarrow> resolved_action list \<Rightarrow> proxy_error + proxy_route" where
  "upstream_route st meta pick url actions =
     try_bind (upstream_target st meta pick url actions) (\<lambda>(host, port).
     if list_ex (\<lambda>item. ra_action item = Direct) actions then Inr (RouteDirect host port)
     else route_loop st meta host port actions)"

definition hop_addr :: "proxy_hop \<Rightarrow> string" where
  "hop_addr hop = (case hop of HopHttp h p \<Rightarrow> format_host_port h p | HopHttps h p \<Rightarrow> format_host_port h p | HopSocks5 h p _ \<Rightarrow> format_host_port h p)"

definition hop_label :: "proxy_hop \<Rightarrow> string" where
  "hop_label hop =
     (case hop of
        HopHttp h p \<Rightarrow> ''proxy://'' @ format_host_port h p
      | HopHttps h p \<Rightarrow> ''https-proxy://'' @ format_host_port h p
      | HopSocks5 h p auth \<Rightarrow> ''socks5://'' @ (if auth = None then [] else ''auth@'') @ format_host_port h p)"

definition hop_host :: "proxy_hop \<Rightarrow> string" where
  "hop_host hop = (case hop of HopHttp h _ \<Rightarrow> h | HopHttps h _ \<Rightarrow> h | HopSocks5 h _ _ \<Rightarrow> h)"

definition connect_addr :: "proxy_route \<Rightarrow> string" where
  "connect_addr r =
     (case r of
        RouteDirect h p \<Rightarrow> format_host_port h p
      | RouteHttpProxy h p _ _ \<Rightarrow> format_host_port h p
      | RouteProxyChain hops _ _ \<Rightarrow> hop_addr (hd hops)
      | RouteHttpsProxy h p _ _ \<Rightarrow> format_host_port h p
      | RouteSocks5 h p _ _ _ \<Rightarrow> format_host_port h p)"

definition tunnel_target_parts :: "proxy_route \<Rightarrow> string \<times> u16" where
  "tunnel_target_parts r =
     (case r of
        RouteDirect h p \<Rightarrow> (h, p)
      | RouteHttpProxy _ _ h p \<Rightarrow> (h, p)
      | RouteProxyChain _ h p \<Rightarrow> (h, p)
      | RouteHttpsProxy _ _ h p \<Rightarrow> (h, p)
      | RouteSocks5 _ _ _ h p \<Rightarrow> (h, p))"

definition session_label :: "proxy_route \<Rightarrow> string" where
  "session_label r =
     (case r of
        RouteDirect h p \<Rightarrow> format_host_port h p
      | RouteHttpProxy h p _ _ \<Rightarrow> ''proxy://'' @ format_host_port h p
      | RouteProxyChain hops _ _ \<Rightarrow> join_with ''->'' (map hop_label hops)
      | RouteHttpsProxy h p _ _ \<Rightarrow> ''https-proxy://'' @ format_host_port h p
      | RouteSocks5 h p auth th tp \<Rightarrow>
          ''socks5://'' @ (if auth = None then [] else ''auth@'') @ format_host_port h p @ ''->'' @ format_host_port th tp)"

definition tls_host :: "proxy_route \<Rightarrow> string" where
  "tls_host r =
     (case r of
        RouteDirect h _ \<Rightarrow> h
      | RouteSocks5 _ _ _ h _ \<Rightarrow> h
      | RouteProxyChain hops _ _ \<Rightarrow> hop_host (hd hops)
      | RouteHttpProxy h _ _ _ \<Rightarrow> h
      | RouteHttpsProxy h _ _ _ \<Rightarrow> h)"

definition uses_tls_to_proxy :: "proxy_route \<Rightarrow> bool" where
  "uses_tls_to_proxy r = (case r of RouteHttpsProxy _ _ _ _ \<Rightarrow> True | _ \<Rightarrow> False)"

definition tunnel_target_addr :: "proxy_route \<Rightarrow> string" where
  "tunnel_target_addr r = (let (h, p) = tunnel_target_parts r in format_host_port h p)"

definition is_direct :: "proxy_route \<Rightarrow> bool" where
  "is_direct r = (case r of RouteDirect _ _ \<Rightarrow> True | _ \<Rightarrow> False)"

definition tunnel_session_label :: "proxy_route \<Rightarrow> string" where
  "tunnel_session_label r =
     (case r of
        RouteDirect _ _ \<Rightarrow> tunnel_target_addr r
      | RouteSocks5 _ _ _ _ _ \<Rightarrow> session_label r
      | _ \<Rightarrow> session_label r @ ''->'' @ tunnel_target_addr r)"

definition uses_absolute_form :: "proxy_route \<Rightarrow> bool" where
  "uses_absolute_form r =
     (case r of
        RouteHttpProxy _ _ _ _ \<Rightarrow> True
      | RouteHttpsProxy _ _ _ _ \<Rightarrow> True
      | RouteProxyChain hops _ _ \<Rightarrow> hops \<noteq> [] \<and> (case last hops of HopSocks5 _ _ _ \<Rightarrow> False | _ \<Rightarrow> True)
      | _ \<Rightarrow> False)"

definition uses_proxy_tunnel_for_https_origin :: "proxy_route \<Rightarrow> url_parts \<Rightarrow> bool" where
  "uses_proxy_tunnel_for_https_origin r url \<longleftrightarrow>
     url_scheme url = ''https'' \<and>
     (case r of RouteHttpProxy _ _ _ _ \<Rightarrow> True | RouteProxyChain _ _ _ \<Rightarrow> True | RouteHttpsProxy _ _ _ _ \<Rightarrow> True | _ \<Rightarrow> False)"

definition uses_absolute_form_for_url :: "proxy_route \<Rightarrow> url_parts \<Rightarrow> bool" where
  "uses_absolute_form_for_url r url \<longleftrightarrow> uses_absolute_form r \<and> \<not> uses_proxy_tunnel_for_https_origin r url"

lemma route_loop_skip:
  "\<nexists>v. ra_action item = Upstream v \<Longrightarrow> route_loop st meta host port (item # items) = route_loop st meta host port items"
  by (cases "ra_action item") auto

lemma route_loop_cases:
  "route_loop st meta host port items = Inr r \<Longrightarrow>
     r = RouteDirect host port \<or> (\<exists>hop. r = route_of_hop hop host port) \<or>
     (\<exists>hops. r = RouteProxyChain hops host port \<and> 2 \<le> length hops \<and> length hops \<le> MAX_RULE_UPSTREAM_HOPS)"
proof (induction items)
  case (Cons item items)
  show ?case
  proof (cases "\<exists>v. ra_action item = Upstream v")
    case True
    then obtain v where "ra_action item = Upstream v" by blast
    with Cons show ?thesis
      by (cases "resolve_value_text_bounded st item meta v (rule_header_limit st)") (auto simp: Let_def try_bind_def split: if_splits option.splits)
  next
    case False
    with Cons show ?thesis using route_loop_skip [OF False] by (simp del: route_loop.simps)
  qed
qed simp

lemma route_of_hop_target: "tunnel_target_parts (route_of_hop hop host port) = (host, port)"
  "route_of_hop hop host port \<noteq> RouteProxyChain hops h p"
  by (cases hop; simp add: tunnel_target_parts_def route_of_hop_def)+

text \<open>
  Every route leads to the target of the request: the host that a \<open>host\<close> action names or
  else the host of the URL. A \<open>direct\<close> action overrides every upstream proxy, a chain has at
  least two hops and no more than the limit, and whether the first hop is plain or not, an HTTPS
  origin is never requested in absolute form, which would send the request to a proxy in clear.
\<close>

theorem route_reaches_target:
  assumes "upstream_route st meta pick url actions = Inr r"
  shows "upstream_target st meta pick url actions = Inr (tunnel_target_parts r) \<and>
    (list_ex (\<lambda>item. ra_action item = Direct) actions \<longrightarrow> (\<exists>h p. r = RouteDirect h p)) \<and>
    (\<forall>hops h p. r = RouteProxyChain hops h p \<longrightarrow> 2 \<le> length hops \<and> length hops \<le> MAX_RULE_UPSTREAM_HOPS) \<and>
    (url_scheme url = ''https'' \<longrightarrow> \<not> uses_absolute_form_for_url r url)"
proof -
  obtain host port where t: "upstream_target st meta pick url actions = Inr (host, port)"
    and r: "(if list_ex (\<lambda>item. ra_action item = Direct) actions then Inr (RouteDirect host port)
      else route_loop st meta host port actions) = Inr r"
    using assms by (auto simp: upstream_route_def try_bind_Inr)
  have "tunnel_target_parts r = (host, port)"
    using r route_loop_cases [of st meta host port actions r] route_of_hop_target(1)
    by (auto simp: tunnel_target_parts_def split: if_splits)
  moreover have "\<forall>hops h p. r = RouteProxyChain hops h p \<longrightarrow> 2 \<le> length hops \<and> length hops \<le> MAX_RULE_UPSTREAM_HOPS"
  proof (intro allI impI)
    fix hops h p
    assume c: "r = RouteProxyChain hops h p"
    with r have "route_loop st meta host port actions = Inr r" by (auto split: if_splits)
    from route_loop_cases [OF this] show "2 \<le> length hops \<and> length hops \<le> MAX_RULE_UPSTREAM_HOPS"
      unfolding c by (auto simp: route_of_hop_target(2) [THEN not_sym])
  qed
  moreover have "url_scheme url = ''https'' \<longrightarrow> \<not> uses_absolute_form_for_url r url"
    by (auto simp: uses_absolute_form_for_url_def uses_absolute_form_def uses_proxy_tunnel_for_https_origin_def split: proxy_route.splits)
  ultimately show ?thesis using t r by auto
qed

definition example_chain :: "resolved_action list" where
  "example_chain = [demo_item (Upstream (Inline ''http://p:3128, socks5://u:w@q''))]"

definition example_origin :: url_parts where
  "example_origin = \<lparr>url_scheme = ''https'', url_host = ''a.test'', url_port = None, url_path = ''/'', url_query = None\<rparr>"

lemma route_reaches_target_witness:
  "\<exists>r. upstream_route demo_state (demo_request ''https://a.test/'' []) hd example_origin example_chain = Inr r \<and>
     tunnel_target_parts r = (''a.test'', 443) \<and> \<not> uses_absolute_form_for_url r example_origin"
proof -
  let ?r = "RouteProxyChain [HopHttp ''p'' 3128, HopSocks5 ''q'' 1080 (Some \<lparr>sa_username = ''u'', sa_password = ''w''\<rparr>)] ''a.test'' 443"
  have "map parse_proxy_hop (upstream_entries ''http://p:3128, socks5://u:w@q'') =
    [Some (HopHttp ''p'' 3128), Some (HopSocks5 ''q'' 1080 (Some \<lparr>sa_username = ''u'', sa_password = ''w''\<rparr>))]" by code_simp
  moreover from arg_cong [OF this, of length] have "length (upstream_entries ''http://p:3128, socks5://u:w@q'') = 2" by simp
  moreover have "effective_port example_origin = Some 443" by code_simp
  moreover have "resolve_value_text_bounded demo_state (demo_item (Upstream (Inline ''http://p:3128, socks5://u:w@q'')))
      (demo_request ''https://a.test/'' []) (Inline ''http://p:3128, socks5://u:w@q'') (rule_header_limit demo_state) =
    Inr ''http://p:3128, socks5://u:w@q''" by code_simp
  ultimately have r: "upstream_route demo_state (demo_request ''https://a.test/'' []) hd example_origin example_chain = Inr ?r"
    by (simp add: upstream_route_def example_chain_def demo_item_def Let_def MAX_RULE_UPSTREAM_HOPS_def example_origin_def)
  moreover have "tunnel_target_parts ?r = (''a.test'', 443)" by (simp add: tunnel_target_parts_def)
  moreover have "\<not> uses_absolute_form_for_url ?r example_origin"
    using route_reaches_target [OF r] by (simp add: example_origin_def)
  ultimately show ?thesis by blast
qed

section \<open>Persistent connections\<close>

definition header_contains_token :: "headers \<Rightarrow> string \<Rightarrow> string \<Rightarrow> bool" where
  "header_contains_token hs name wanted = list_ex (\<lambda>t. eq_ignore_ascii_case t wanted) (field_values name hs)"

datatype client_persistence = Close | KeepAlive

definition requested_client_connection :: "string \<Rightarrow> headers \<Rightarrow> client_persistence" where
  "requested_client_connection version hs =
     (if header_contains_token hs ''connection'' ''close'' \<or> header_contains_token hs ''proxy-connection'' ''close'' then Close
      else if eq_ignore_ascii_case version ''HTTP/1.1'' then KeepAlive
      else if eq_ignore_ascii_case version ''HTTP/1.0'' \<and>
        (header_contains_token hs ''connection'' ''keep-alive'' \<or> header_contains_token hs ''proxy-connection'' ''keep-alive'') then KeepAlive
      else Close)"

definition client_response_version :: "string \<Rightarrow> string" where
  "client_response_version request_version = (if eq_ignore_ascii_case request_version ''HTTP/1.0'' then ''HTTP/1.0'' else ''HTTP/1.1'')"

definition response_is_persistent :: "response_head \<Rightarrow> bool" where
  "response_is_persistent head \<longleftrightarrow>
     \<not> header_contains_token (ph_headers head) ''connection'' ''close'' \<and>
     (eq_ignore_ascii_case (ph_version head) ''HTTP/1.1'' \<or>
      eq_ignore_ascii_case (ph_version head) ''HTTP/1.0'' \<and> header_contains_token (ph_headers head) ''connection'' ''keep-alive'')"

definition upstream_http_version :: "string \<Rightarrow> string" where
  "upstream_http_version v =
     (if eq_ignore_ascii_case v ''HTTP/2'' \<or> eq_ignore_ascii_case v ''HTTP/2.0'' then ''HTTP/1.1'' else v)"

end
