(* ===== verification/Http1_Write.thy ===== *)
theory Http1_Write
  imports Http1_Headers
begin

text \<open>
  Response heads and complete responses as the proxy writes them (\<open>http/response.rs\<close>): the
  checks of version, status, reason and fields, the framing of streamed responses, and the
  fields that the writer manages itself. The main results: a written head is read back as the
  status and the fields it was written from, so no value can add a field or end the head, and
  its framing is never ambiguous.
\<close>

section \<open>Heads read back\<close>

definition field_line :: "string \<times> string \<Rightarrow> string" where
  "field_line t = fst t @ '': '' @ snd t"

definition head_text :: "string \<Rightarrow> headers \<Rightarrow> string" where
  "head_text start hs = start @ concat (map (\<lambda>t. CRLF @ field_line t) hs)"

lemma scan_chars:
  "CHR 0x0A \<notin> set l \<Longrightarrow> length (buf @ l) \<le> max_size \<Longrightarrow>
     scan_head max_size close buf (l @ rest) = scan_head max_size close (buf @ l) rest"
proof (induction l arbitrary: buf)
  case (Cons c l)
  have "\<not> ends_with (buf @ [c]) TERMINATOR" using Cons.prems by (auto simp: ends_with_iff TERMINATOR_def)
  with Cons.IH [of "buf @ [c]"] Cons.prems show ?case by (simp add: Let_def)
qed simp

lemma scan_line:
  assumes "CHR 0x0A \<notin> set l" "l \<noteq> []" "length (buf @ l) + 2 \<le> max_size"
  shows "scan_head max_size close buf (l @ CRLF @ rest) = scan_head max_size close (buf @ l @ CRLF) rest"
proof -
  have "\<not> ends_with (buf @ l @ CRLF) TERMINATOR"
  proof
    assume "ends_with (buf @ l @ CRLF) TERMINATOR"
    then obtain t where t: "buf @ l @ CRLF = t @ TERMINATOR" by (auto simp: ends_with_iff)
    then have "buf @ l = t @ CRLF" by (simp add: TERMINATOR_def CRLF_def)
    then have "last (buf @ l) = CHR 0x0A" by (simp add: CRLF_def)
    with assms(1,2) show False by (metis last_appendR last_in_set)
  qed
  moreover have "scan_head max_size close buf ((l @ [CHR 0x0D]) @ CHR 0x0A # rest) = scan_head max_size close (buf @ l @ [CHR 0x0D]) (CHR 0x0A # rest)"
    using assms by (intro scan_chars) auto
  ultimately show ?thesis using assms(3) by (simp add: CRLF_def)
qed

lemma scan_end:
  assumes "length buf + 4 \<le> max_size"
  shows "scan_head max_size close (buf @ CRLF) (CRLF @ rest) = Inr (Some (buf, rest))"
proof -
  have "\<not> ends_with ((buf @ CRLF) @ [CHR 0x0D]) TERMINATOR" by (auto simp: ends_with_iff TERMINATOR_def)
  moreover have "ends_with (buf @ TERMINATOR) TERMINATOR" by (auto simp: ends_with_iff)
  ultimately show ?thesis using assms by (simp add: CRLF_def TERMINATOR_def Let_def)
qed

lemma scan_fields:
  assumes "list_all (\<lambda>t. CHR 0x0A \<notin> set (field_line t)) hs" "length buf + length (concat (map (\<lambda>t. CRLF @ field_line t) hs)) + 4 \<le> max_size"
  shows "scan_head max_size close (buf @ CRLF) (concat (map (\<lambda>t. field_line t @ CRLF) hs) @ CRLF @ rest) =
    Inr (Some (buf @ concat (map (\<lambda>t. CRLF @ field_line t) hs), rest))"
  using assms
proof (induction hs arbitrary: buf)
  case Nil
  then show ?case using scan_end by simp
next
  case (Cons t hs)
  have "field_line t \<noteq> []" by (simp add: field_line_def)
  with Cons.prems have "scan_head max_size close (buf @ CRLF) (field_line t @ CRLF @ concat (map (\<lambda>t. field_line t @ CRLF) hs) @ CRLF @ rest) =
      scan_head max_size close ((buf @ CRLF) @ field_line t @ CRLF) (concat (map (\<lambda>t. field_line t @ CRLF) hs) @ CRLF @ rest)"
    by (intro scan_line) (auto simp: CRLF_def)
  with Cons.IH [of "buf @ CRLF @ field_line t"] Cons.prems show ?case by simp
qed

lemma read_head_back:
  assumes "CHR 0x0A \<notin> set start" "start \<noteq> []" "list_all (\<lambda>t. CHR 0x0A \<notin> set (field_line t)) hs"
    and "length (head_text start hs) + 4 \<le> max_size"
    and "str_bytes st = start @ CRLF @ concat (map (\<lambda>t. field_line t @ CRLF) hs) @ CRLF @ rest"
  shows "arrived (read_head max_size st) = Inr (Some (head_text start hs, rest))"
proof -
  have "scan_head max_size (str_close st) [] (str_bytes st) =
      scan_head max_size (str_close st) ([] @ start @ CRLF) (concat (map (\<lambda>t. field_line t @ CRLF) hs) @ CRLF @ rest)"
    unfolding assms(5) using assms(1,2,4) by (intro scan_line) (auto simp: head_text_def)
  also have "\<dots> = Inr (Some (head_text start hs, rest))"
    using scan_fields [OF assms(3), of start max_size "str_close st" rest] assms(4) by (simp add: head_text_def)
  finally show ?thesis by (simp add: read_head_def read_head_loop_scan)
qed

lemma split_crlf_line: "CHR 0x0A \<notin> set l \<Longrightarrow> split_crlf cur (l @ CRLF @ s) = (cur @ l) # split_crlf [] s"
proof (induction l arbitrary: cur)
  case Nil
  then show ?case by (simp add: CRLF_def)
next
  case (Cons c l)
  obtain d u where d: "l @ CRLF @ s = d # u" by (cases "l @ CRLF @ s") (auto simp: CRLF_def)
  have "\<not> (c = CHR 0x0D \<and> d = CHR 0x0A)"
  proof
    assume "c = CHR 0x0D \<and> d = CHR 0x0A"
    with d Cons.prems show False by (cases l) (auto simp: CRLF_def)
  qed
  then have "split_crlf cur (c # l @ CRLF @ s) = split_crlf (cur @ [c]) (l @ CRLF @ s)"
    unfolding d by auto
  with Cons.IH [of "cur @ [c]"] Cons.prems show ?case by simp
qed

lemma split_crlf_last: "CHR 0x0A \<notin> set l \<Longrightarrow> split_crlf cur l = [cur @ l]"
proof (induction cur l rule: split_crlf.induct)
  case (3 cur c d s)
  then show ?case by auto
qed auto

lemma split_head:
  "CHR 0x0A \<notin> set start \<Longrightarrow> list_all (\<lambda>t. CHR 0x0A \<notin> set (field_line t)) hs \<Longrightarrow>
     split_crlf [] (head_text start hs) = start # map field_line hs"
proof (induction hs arbitrary: start)
  case Nil
  then show ?case by (simp add: head_text_def split_crlf_last)
next
  case (Cons t hs)
  have "head_text start (t # hs) = start @ CRLF @ head_text (field_line t) hs" by (simp add: head_text_def)
  with Cons show ?case by (simp add: split_crlf_line)
qed

definition field_ok :: "string \<times> string \<Rightarrow> bool" where
  "field_ok t \<longleftrightarrow> fst t \<noteq> [] \<and> list_all is_header_token_byte (fst t) \<and> CHR 0x0A \<notin> set (snd t) \<and> utf8_valid (snd t)"

lemma field_okD:
  assumes "field_ok (n, v)"
  shows "CHR '':'' \<notin> set n" "trim n = n" "CHR 0x0A \<notin> set (field_line (n, v))" "utf8_valid (field_line (n, v))"
proof -
  have e: "list_all (\<lambda>c. edge_char c \<and> c \<noteq> CHR '':'' \<and> c \<noteq> CHR 0x0A) n"
    using assms header_token_edge by (auto simp: field_ok_def list_all_iff)
  show "CHR '':'' \<notin> set n" using e by (auto simp: list_all_iff)
  show "trim n = n" using e by (intro trim_edges) (auto simp: list_all_iff)
  show "CHR 0x0A \<notin> set (field_line (n, v))" using assms e by (auto simp: field_ok_def field_line_def list_all_iff)
  have "ascii (n @ '': '')" using e by (auto simp: ascii_def list_all_iff edge_char_def byte_def)
  then have "utf8_valid ((n @ '': '') @ v)"
    using assms utf8_valid_append [OF utf8_valid_ascii] unfolding field_ok_def snd_conv by blast
  then show "utf8_valid (field_line (n, v))" by (simp add: field_line_def)
qed

lemma parse_fields_back:
  "list_all field_ok hs \<Longrightarrow> count + length hs \<le> max_count \<Longrightarrow>
     parse_headers_loop max_count count acc (map field_line hs) = Inr (acc @ map (map_prod id trim) hs)"
proof (induction hs arbitrary: count acc)
  case (Cons t hs)
  obtain n v where t: "t = (n, v)" by (cases t)
  have ok: "field_ok (n, v)" using Cons.prems t by simp
  have "split_once (n @ CHR '':'' # '' '' @ v) '':'' = Some (n, '' '' @ v)"
    using field_okD(1) [OF ok] by (rule split_once_char_first)
  with Cons.IH [of "count + 1" "acc @ [(n, trim v)]"] Cons.prems t field_okD(2) [OF ok] show ?case
    by (simp add: field_line_def trim_space)
qed simp

lemma utf8_head:
  "utf8_valid start \<Longrightarrow> list_all field_ok hs \<Longrightarrow> utf8_valid (head_text start hs)"
proof (induction hs arbitrary: start)
  case (Cons t hs)
  have "utf8_valid CRLF" by code_simp
  moreover have "utf8_valid (field_line t)" using Cons.prems field_okD(4) by (cases t) auto
  ultimately have "utf8_valid (start @ CRLF @ field_line t)" using Cons.prems by (intro utf8_valid_append)
  from Cons.IH [OF this] Cons.prems show ?case by (simp add: head_text_def)
qed (simp add: head_text_def)

section \<open>Checks\<close>

datatype write_error =
    BadVersion | BadStatus | BadReason | BadFieldName string | BadFieldValue string
  | ContentNotAllowed | BadLength | LengthConflict | LengthAndCoding | WriteFailed io_kind

definition is_response_token_byte :: "char \<Rightarrow> bool" where
  "is_response_token_byte c \<longleftrightarrow> is_ascii_alphanumeric c \<or> c \<in> set ''!#$%&*+-.^_`|~'' \<or> c = CHR 0x27"

definition is_http_field_value_byte :: "char \<Rightarrow> bool" where
  "is_http_field_value_byte c \<longleftrightarrow> c = CHR 0x09 \<or> (32 \<le> byte c \<and> byte c \<noteq> 127)"

fun validate_fields :: "headers \<Rightarrow> write_error + unit" where
  "validate_fields [] = Inr ()"
| "validate_fields ((name, value) # hs) =
     (if name = [] \<or> \<not> list_all is_response_token_byte name then Inl (BadFieldName name)
      else if \<not> list_all is_http_field_value_byte value then Inl (BadFieldValue name)
      else validate_fields hs)"

definition validate_response_parts :: "string \<Rightarrow> u16 \<Rightarrow> string \<Rightarrow> headers \<Rightarrow> write_error + unit" where
  "validate_response_parts version status reason hs =
     (if version \<noteq> ''HTTP/1.0'' \<and> version \<noteq> ''HTTP/1.1'' then Inl BadVersion
      else if \<not> (100 \<le> status \<and> status \<le> 599) then Inl BadStatus
      else if \<not> list_all is_http_field_value_byte reason then Inl BadReason
      else validate_fields hs)"

fun fold_lengths :: "nat option \<Rightarrow> string list \<Rightarrow> write_error + nat option" where
  "fold_lengths len [] = Inr len"
| "fold_lengths len (v # vs) =
     (if v = [] \<or> \<not> list_all is_ascii_digit v then Inl BadLength
      else
        (case parse_uint U64_MAX v of
           Inl _ \<Rightarrow> Inl BadLength
         | Inr n \<Rightarrow>
             if len \<noteq> None \<and> len \<noteq> Some n then Inl LengthConflict else fold_lengths (Some n) vs))"

definition validate_streaming_framing :: "headers \<Rightarrow> write_error + nat option" where
  "validate_streaming_framing hs =
     try_bind (fold_lengths None (field_values ''content-length'' hs)) (\<lambda>len.
     if len \<noteq> None \<and> list_ex (\<lambda>(n, _). eq_ignore_ascii_case n ''transfer-encoding'') hs then Inl LengthAndCoding
     else Inr len)"

definition matches_body_framing_header :: "string \<Rightarrow> bool" where
  "matches_body_framing_header name = list_ex (eq_ignore_ascii_case name) [''content-length'', ''trailer'', ''transfer-encoding'']"

definition is_complete_response_managed_header :: "string \<Rightarrow> bool" where
  "is_complete_response_managed_header name =
     list_ex (eq_ignore_ascii_case name) [''connection'', ''content-length'', ''keep-alive'', ''proxy-connection'',
       ''te'', ''trailer'', ''transfer-encoding'', ''upgrade'']"

definition status_line :: "string \<Rightarrow> u16 \<Rightarrow> string \<Rightarrow> string" where
  "status_line version status reason = version @ '' '' @ nat_to_string (unat status) @ '' '' @ reason"

definition connection_field :: "bool \<Rightarrow> string \<times> string" where
  "connection_field keep_alive = (''Connection'', if keep_alive then ''keep-alive'' else ''close'')"

definition length_field :: "u16 \<Rightarrow> nat option \<Rightarrow> headers" where
  "length_field status len =
     (if status_can_send_content status then (case len of Some n \<Rightarrow> [(''Content-Length'', nat_to_string n)] | None \<Rightarrow> [])
      else if status = 205 then [(''Content-Length'', ''0'')] else [])"

definition head_bytes :: "string \<Rightarrow> headers \<Rightarrow> string" where
  "head_bytes start hs = start @ CRLF @ concat (map (\<lambda>t. field_line t @ CRLF) hs) @ CRLF"

section \<open>Writers\<close>

definition COALESCED_RESPONSE_LIMIT :: nat where "COALESCED_RESPONSE_LIMIT = 64 * 1024"

definition complete_fields :: "u16 \<Rightarrow> headers \<Rightarrow> nat \<Rightarrow> bool \<Rightarrow> headers" where
  "complete_fields status hs len keep_alive =
     filter (\<lambda>(n, _). \<not> is_complete_response_managed_header n) hs @ length_field status (Some len) @ [connection_field keep_alive]"

definition write_response_with_version_and_connection ::
  "string \<Rightarrow> u16 \<Rightarrow> string \<Rightarrow> headers \<Rightarrow> string \<Rightarrow> bool \<Rightarrow> byte_sink \<Rightarrow> write_error + byte_sink" where
  "write_response_with_version_and_connection version status reason hs body keep_alive snk =
     try_bind (validate_response_parts version status reason hs) (\<lambda>_.
     if \<not> status_can_send_content status \<and> body \<noteq> [] then Inl ContentNotAllowed
     else
       (let head = head_bytes (status_line version status reason) (complete_fields status hs (length body) keep_alive) in
        if length body \<le> COALESCED_RESPONSE_LIMIT then map_sum WriteFailed id (sink_write (head @ body) snk)
        else map_sum WriteFailed id (try_bind (sink_write head snk) (sink_write body))))"

text \<open>The standard reason phrases are the \<open>http\<close> crate's: a parameter.\<close>

definition head_reason :: "(u16 \<Rightarrow> string) \<Rightarrow> response_head \<Rightarrow> string" where
  "head_reason reason_phrase head = (if ph_reason head = [] then reason_phrase (ph_status head) else ph_reason head)"

definition streaming_fields :: "u16 \<Rightarrow> headers \<Rightarrow> nat option \<Rightarrow> bool \<Rightarrow> headers" where
  "streaming_fields status hs len keep_alive =
     filter (\<lambda>(n, _). \<not> (eq_ignore_ascii_case n ''connection'' \<or> eq_ignore_ascii_case n ''content-length'' \<or>
         \<not> status_can_send_content status \<and> matches_body_framing_header n)) hs @
     length_field status len @ [connection_field keep_alive]"

definition write_response_head_with_connection ::
  "(u16 \<Rightarrow> string) \<Rightarrow> response_head \<Rightarrow> headers \<Rightarrow> bool \<Rightarrow> byte_sink \<Rightarrow> write_error + byte_sink" where
  "write_response_head_with_connection reason_phrase head hs keep_alive snk =
     (let reason = head_reason reason_phrase head in
      try_bind (validate_response_parts (ph_version head) (ph_status head) reason hs) (\<lambda>_.
      try_bind (validate_streaming_framing hs) (\<lambda>len.
      map_sum WriteFailed id
        (sink_write (head_bytes (status_line (ph_version head) (ph_status head) reason)
           (streaming_fields (ph_status head) hs len keep_alive)) snk))))"

section \<open>No injection\<close>

lemma token_bytes_same: "is_response_token_byte = is_header_token_byte"
  by (auto simp: fun_eq_iff is_response_token_byte_def is_header_token_byte_def)

lemma value_bytes_no_lf: "list_all is_http_field_value_byte v \<Longrightarrow> CHR 0x0A \<notin> set v"
proof
  assume "list_all is_http_field_value_byte v" "CHR 0x0A \<in> set v"
  then have "is_http_field_value_byte (CHR 0x0A)" by (simp only: list_all_iff)
  moreover have "\<not> is_http_field_value_byte (CHR 0x0A)" by code_simp
  ultimately show False by contradiction
qed

lemma validate_fields_ok:
  "validate_fields hs = Inr () \<Longrightarrow> list_all (\<lambda>t. utf8_valid (snd t)) hs \<Longrightarrow> list_all field_ok hs"
  by (induction hs rule: validate_fields.induct)
     (auto simp: field_ok_def token_bytes_same value_bytes_no_lf split: if_splits)

lemma digits_ok: "utf8_valid (nat_to_string n)" "CHR 0x0A \<notin> set (nat_to_string n)" "trim (nat_to_string n) = nat_to_string n"
proof -
  have d: "c \<in> set (nat_to_string n) \<Longrightarrow> is_ascii_digit c" for c by (rule nat_to_string_digits)
  show "utf8_valid (nat_to_string n)"
    using d by (intro utf8_valid_ascii) (fastforce simp: ascii_def list_all_iff is_ascii_digit_def)
  show "CHR 0x0A \<notin> set (nat_to_string n)" using d by (fastforce simp: is_ascii_digit_def byte_def)
  show "trim (nat_to_string n) = nat_to_string n"
    by (intro trim_edges) (auto intro!: digit_edge d)
qed

lemma managed_fields_ok: "field_ok (connection_field k)" "list_all field_ok (length_field status len)"
proof -
  have "field_ok (''Connection'', ''keep-alive'') \<and> field_ok (''Connection'', ''close'') \<and> field_ok (''Content-Length'', ''0'')"
    by code_simp
  then show "field_ok (connection_field k)" by (simp add: connection_field_def)
  have "list_all is_header_token_byte ''Content-Length''" by code_simp
  then have "field_ok (''Content-Length'', nat_to_string n)" for n by (simp add: field_ok_def digits_ok)
  with \<open>_ \<and> _ \<and> field_ok (''Content-Length'', ''0'')\<close> show "list_all field_ok (length_field status len)"
    by (simp add: length_field_def split: option.split)
qed

lemma status_line_parts:
  assumes "version = ''HTTP/1.0'' \<or> version = ''HTTP/1.1''"
  shows "splitn_space (status_line version status reason) = [version, nat_to_string (unat status), reason]"
proof -
  have "CHR '' '' \<notin> set version" using assms by auto
  then have a: "split_once (status_line version status reason) '' '' = Some (version, nat_to_string (unat status) @ '' '' @ reason)"
    using split_once_char_first [of "CHR '' ''" version "nat_to_string (unat status) @ '' '' @ reason"] by (simp add: status_line_def)
  have "CHR '' '' \<notin> set (nat_to_string (unat status))"
    using nat_to_string_digits [of "CHR '' ''" "unat status"] by (auto simp: is_ascii_digit_def byte_def)
  then have "split_once (nat_to_string (unat status) @ CHR '' '' # reason) '' '' = Some (nat_to_string (unat status), reason)"
    by (rule split_once_char_first)
  with a show ?thesis by (simp add: splitn_space_def)
qed

lemma parse_u16_back: "parse_u16 (nat_to_string (unat w)) = Inr w"
proof -
  have "unat w < 2 ^ 16" using unsigned_less [of w] by simp
  then show ?thesis by (simp add: parse_u16_def parse_uint_nat_to_string)
qed

lemma read_written_head:
  assumes "validate_response_parts version status reason hs = Inr ()" "utf8_valid reason" "list_all field_ok fs"
    and "length (head_bytes (status_line version status reason) fs) \<le> max_size" "length fs \<le> max_count"
    and "str_bytes st = head_bytes (status_line version status reason) fs @ rest"
  shows "\<exists>st'. read_response_head max_size max_count st =
      Inr (\<lparr>ph_version = version, ph_status = status, ph_reason = reason, ph_headers = map (map_prod id trim) fs\<rparr>, st') \<and>
    str_bytes st' = rest"
proof -
  let ?s = "status_line version status reason"
  have v: "version = ''HTTP/1.0'' \<or> version = ''HTTP/1.1''" and r: "CHR 0x0A \<notin> set reason"
    using assms(1) value_bytes_no_lf by (auto simp: validate_response_parts_def split: if_splits)
  have s: "CHR 0x0A \<notin> set ?s" "?s \<noteq> []" using v r digits_ok by (auto simp: status_line_def)
  have "utf8_valid ''HTTP/1.0'' \<and> utf8_valid ''HTTP/1.1'' \<and> utf8_valid '' ''" by code_simp
  with v assms(2) have u: "utf8_valid ?s"
    unfolding status_line_def append_assoc [symmetric] by (intro utf8_valid_append digits_ok) auto
  have f: "list_all (\<lambda>t. CHR 0x0A \<notin> set (field_line t)) fs"
    using assms(3) field_okD(3) by (auto simp: list_all_iff)
  have len: "length (head_text ?s fs) + 4 = length (head_bytes ?s fs)"
    by (simp add: head_text_def head_bytes_def CRLF_def length_concat comp_def add.commute)
  from read_head_back [OF s f, of max_size st rest] len assms(4,6)
  have "arrived (read_head max_size st) = Inr (Some (head_text ?s fs, rest))" by (simp add: head_bytes_def)
  then obtain st' where h: "read_head max_size st = Inr (Some (head_text ?s fs, st'))" "str_bytes st' = rest"
    by (cases "read_head max_size st") (auto simp: arrived_def)
  have "parse_response_head max_count (head_text ?s fs) =
      Inr \<lparr>ph_version = version, ph_status = status, ph_reason = reason, ph_headers = map (map_prod id trim) fs\<rparr>"
    using utf8_head [OF u assms(3)] parse_fields_back [OF assms(3), of 0 max_count "[]"] assms(5) status_line_parts [OF v, of status reason]
    by (simp add: parse_response_head_def utf8_lossy_valid split_head [OF s(1) f] parse_headers_limited_def parse_u16_back)
  with h show ?thesis by (simp add: read_response_head_def response_after_head_def)
qed

lemma sink_write_map: "map_sum WriteFailed id (sink_write bs snk) = Inr snk' \<Longrightarrow> snk_out snk' = snk_out snk @ bs"
  by (cases "sink_write bs snk") (auto dest: sink_write_Inr)

text \<open>
  C18: A response head that the proxy writes is read back, by its own reader of response heads,
  as the status and exactly the fields that were written, in order and with surrounding white
  space removed from the values, and the bytes after the head are untouched: no version, reason
  or field value can add a field, end the head or change the status.
\<close>

theorem written_head_reads_back:
  assumes "write_response_head_with_connection reason_phrase head hs keep_alive snk = Inr snk'"
    and "utf8_valid (head_reason reason_phrase head)" "list_all (\<lambda>t. utf8_valid (snd t)) hs"
  shows "\<exists>len out. validate_streaming_framing hs = Inr len \<and> snk_out snk' = snk_out snk @ out \<and>
    (\<forall>max_size max_count rest close parts.
      length out \<le> max_size \<and> length (streaming_fields (ph_status head) hs len keep_alive) \<le> max_count \<longrightarrow>
      (\<exists>st'. read_response_head max_size max_count \<lparr>str_bytes = out @ rest, str_close = close, str_parts = parts\<rparr> =
         Inr (\<lparr>ph_version = ph_version head, ph_status = ph_status head, ph_reason = head_reason reason_phrase head,
               ph_headers = map (map_prod id trim) (streaming_fields (ph_status head) hs len keep_alive)\<rparr>, st') \<and>
       str_bytes st' = rest))"
proof -
  let ?r = "head_reason reason_phrase head"
  let ?s = "status_line (ph_version head) (ph_status head) ?r"
  obtain len where v: "validate_response_parts (ph_version head) (ph_status head) ?r hs = Inr ()"
    and len: "validate_streaming_framing hs = Inr len"
    and w: "snk_out snk' = snk_out snk @ head_bytes ?s (streaming_fields (ph_status head) hs len keep_alive)"
    using assms(1)
    by (auto simp: write_response_head_with_connection_def Let_def try_bind_Inr dest: sink_write_map)
  have "list_all field_ok hs"
    using v assms(3) by (intro validate_fields_ok) (auto simp: validate_response_parts_def split: if_splits)
  then have ok: "list_all field_ok (streaming_fields (ph_status head) hs len keep_alive)"
    using managed_fields_ok by (auto simp: streaming_fields_def list_all_iff)
  show ?thesis
    by (intro exI [of _ len] exI [of _ "head_bytes ?s (streaming_fields (ph_status head) hs len keep_alive)"] conjI len w allI impI)
       (elim conjE, rule read_written_head [OF v assms(2) ok], simp_all)
qed

lemma written_head_reads_back_witness:
  "\<exists>snk' st'. write_response_head_with_connection (\<lambda>_. ''OK'')
       \<lparr>ph_version = ''HTTP/1.1'', ph_status = 200, ph_reason = [], ph_headers = []\<rparr>
       [(''X-A'', ''b ''), (''Content-Length'', ''3'')] True \<lparr>snk_out = [], snk_room = None\<rparr> = Inr snk' \<and>
     read_response_head 200 8 \<lparr>str_bytes = snk_out snk' @ ''abc'', str_close = None, str_parts = []\<rparr> =
       Inr (\<lparr>ph_version = ''HTTP/1.1'', ph_status = 200, ph_reason = ''OK'',
             ph_headers = [(''X-A'', ''b''), (''Content-Length'', ''3''), (''Connection'', ''keep-alive'')]\<rparr>, st') \<and>
     str_bytes st' = ''abc''"
proof -
  let ?h = "\<lparr>ph_version = ''HTTP/1.1'', ph_status = 200, ph_reason = [], ph_headers = []\<rparr>"
  let ?hs = "[(''X-A'', ''b ''), (''Content-Length'', ''3'')]"
  have "case write_response_head_with_connection (\<lambda>_. ''OK'') ?h ?hs True \<lparr>snk_out = [], snk_room = None\<rparr> of
      Inr snk' \<Rightarrow> length (snk_out snk') \<le> 200 | Inl _ \<Rightarrow> False"
    by code_simp
  then obtain snk' where w: "write_response_head_with_connection (\<lambda>_. ''OK'') ?h ?hs True \<lparr>snk_out = [], snk_room = None\<rparr> = Inr snk'"
    "length (snk_out snk') \<le> 200"
    by (auto split: sum.splits)
  have r: "utf8_valid (head_reason (\<lambda>_. ''OK'') ?h) \<and> list_all (\<lambda>t. utf8_valid (snd t)) ?hs" by code_simp
  have f: "validate_streaming_framing ?hs = Inr (Some 3) \<and>
      map (map_prod id trim) (streaming_fields 200 ?hs (Some 3) True) = [(''X-A'', ''b''), (''Content-Length'', ''3''), (''Connection'', ''keep-alive'')] \<and>
      length (streaming_fields 200 ?hs (Some 3) True) \<le> 8 \<and> head_reason (\<lambda>_. ''OK'') ?h = ''OK''"
    by code_simp
  from written_head_reads_back [OF w(1)] r obtain len out where l: "validate_streaming_framing ?hs = Inr len" "snk_out snk' = [] @ out"
    and rd: "\<forall>max_size max_count rest close parts. length out \<le> max_size \<and> length (streaming_fields 200 ?hs len True) \<le> max_count \<longrightarrow>
      (\<exists>st'. read_response_head max_size max_count \<lparr>str_bytes = out @ rest, str_close = close, str_parts = parts\<rparr> =
         Inr (\<lparr>ph_version = ''HTTP/1.1'', ph_status = 200, ph_reason = head_reason (\<lambda>_. ''OK'') ?h,
               ph_headers = map (map_prod id trim) (streaming_fields 200 ?hs len True)\<rparr>, st') \<and> str_bytes st' = rest)"
    unfolding response_head.simps byte_sink.simps by blast
  from l f have "len = Some 3" "out = snk_out snk'" by simp_all
  with rd [THEN spec, THEN spec, THEN spec, THEN spec, THEN spec, of 200 8 "''abc''" None "[]"] f w show ?thesis by simp
qed

text \<open>The framing of a written head: at most one content length, never together with a transfer coding.\<close>

lemma fold_lengths_Some: "fold_lengths len vs = Inr (Some n) \<Longrightarrow> vs \<noteq> [] \<or> len = Some n"
  by (cases vs) auto

lemma fold_lengths_None: "fold_lengths len vs = Inr None \<Longrightarrow> vs = [] \<and> len = None"
  by (induction len vs rule: fold_lengths.induct) (auto split: if_splits sum.splits)

lemma streaming_fields_length:
  "named ''content-length'' (streaming_fields status hs len keep_alive) = length_field status len"
proof -
  have "\<not> eq_ignore_ascii_case ''Connection'' ''content-length'' \<and> eq_ignore_ascii_case ''Content-Length'' ''content-length''" by code_simp
  then show ?thesis
    by (auto simp: named_def streaming_fields_def filter_empty_conv connection_field_def length_field_def split: option.split)
qed

text \<open>
  The framing of every response head the proxy writes is unambiguous: it has at most one
  content-length field, and when it has one that announces content it has no transfer coding.
\<close>

theorem written_framing_unambiguous:
  assumes "validate_streaming_framing hs = Inr len"
  shows "length (named ''content-length'' (streaming_fields status hs len keep_alive)) \<le> 1 \<and>
    (named ''content-length'' (streaming_fields status hs len keep_alive) \<noteq> [] \<longrightarrow>
      named ''transfer-encoding'' (streaming_fields status hs len keep_alive) = [])"
proof
  show "length (named ''content-length'' (streaming_fields status hs len keep_alive)) \<le> 1"
    by (simp add: streaming_fields_length length_field_def split: option.split)
  show "named ''content-length'' (streaming_fields status hs len keep_alive) \<noteq> [] \<longrightarrow>
      named ''transfer-encoding'' (streaming_fields status hs len keep_alive) = []"
  proof
    assume "named ''content-length'' (streaming_fields status hs len keep_alive) \<noteq> []"
    then have *: "status_can_send_content status \<and> len \<noteq> None \<or> \<not> status_can_send_content status"
      by (auto simp: streaming_fields_length length_field_def split: if_splits option.splits)
    have none: "len \<noteq> None \<Longrightarrow> \<not> list_ex (\<lambda>(n, _). eq_ignore_ascii_case n ''transfer-encoding'') hs"
      using assms by (auto simp: validate_streaming_framing_def try_bind_Inr split: if_splits)
    have "named ''transfer-encoding'' (length_field status len @ [connection_field keep_alive]) = []"
    proof -
      have "\<not> eq_ignore_ascii_case ''Connection'' ''transfer-encoding'' \<and> \<not> eq_ignore_ascii_case ''Content-Length'' ''transfer-encoding''" by code_simp
      then show ?thesis by (auto simp: named_def connection_field_def length_field_def split: option.split)
    qed
    moreover have "\<not> status_can_send_content status \<Longrightarrow> eq_ignore_ascii_case n ''transfer-encoding'' \<Longrightarrow> matches_body_framing_header n" for n
      by (simp add: matches_body_framing_header_def)
    ultimately show "named ''transfer-encoding'' (streaming_fields status hs len keep_alive) = []"
      using * none by (auto simp: named_def streaming_fields_def filter_empty_conv list_ex_iff)
  qed
qed

lemma written_framing_unambiguous_witness:
  "validate_streaming_framing [(''content-length'', ''3, 3'')] = Inr (Some 3) \<and>
   length (named ''content-length'' (streaming_fields 200 [(''content-length'', ''3, 3'')] (Some 3) True)) \<le> 1"
proof -
  have v: "validate_streaming_framing [(''content-length'', ''3, 3'')] = Inr (Some 3)" by code_simp
  from written_framing_unambiguous [OF v, of 200 True] v show ?thesis by simp
qed

end
