(* ===== verification/Proxy_Actions.thy ===== *)
theory Proxy_Actions
  imports Proxy_Json Proxy_Routing Http1_Write
begin

text \<open>
  What the actions of the rules do to a message: URL rewriting and body operations
  (\<open>transforms/content.rs\<close>), deletions (\<open>transforms/delete.rs\<close>), and the actions on requests and
  responses (\<open>request_actions.rs\<close>, \<open>response_actions.rs\<close>). The main result: the body operations
  stay within their limit. What is sent upstream for a request is in \<open>Proxy_Upstream\<close>.
\<close>

section \<open>Plain replacement\<close>

lemma after_match_shorter: "find_str p s = Some i \<Longrightarrow> p \<noteq> [] \<Longrightarrow> length s - (i + length p) < length s"
  using find_str_length [of p s i] by (cases p) auto

text \<open>\<open>str::replace\<close> and \<open>match_indices\<close>: an empty pattern matches between characters.\<close>

function str_replace :: "string \<Rightarrow> string \<Rightarrow> string \<Rightarrow> string" where
  "str_replace pat to s =
     (if pat = [] then to @ concat (map (\<lambda>ch. ch @ to) (chars s))
      else
        (case find_str pat s of
           None \<Rightarrow> s
         | Some i \<Rightarrow> take i s @ to @ str_replace pat to (drop (i + length pat) s)))"
  by pat_completeness auto
termination
  by (relation "measure (\<lambda>(pat, to, s). length s)") (auto intro: after_match_shorter)

declare str_replace.simps [simp del]

function count_matches :: "string \<Rightarrow> string \<Rightarrow> nat" where
  "count_matches pat s =
     (if pat = [] then length (chars s) + 1
      else (case find_str pat s of None \<Rightarrow> 0 | Some i \<Rightarrow> 1 + count_matches pat (drop (i + length pat) s)))"
  by pat_completeness auto
termination
  by (relation "measure (\<lambda>(pat, s). length s)") (auto intro: after_match_shorter)

declare count_matches.simps [simp del]

definition checked_mul :: "nat \<Rightarrow> nat \<Rightarrow> nat option" where
  "checked_mul a b = (if a * b \<le> USIZE_MAX then Some (a * b) else None)"

definition replace_plain_bounded :: "string \<Rightarrow> string \<Rightarrow> string \<Rightarrow> nat \<Rightarrow> string \<Rightarrow> proxy_error + string" where
  "replace_plain_bounded input pat to limit label =
     (let matches = count_matches pat input in
      case Option.bind (checked_mul matches (length pat)) (\<lambda>removed.
           Option.bind (checked_mul matches (length to)) (\<lambda>inserted.
           if length input < removed then None else checked_add (length input - removed) inserted)) of
        None \<Rightarrow> Inl (output_limit_error label limit)
      | Some n \<Rightarrow> if limit < n then Inl (output_limit_error label limit) else Inr (str_replace pat to input))"

lemma replace_lengths:
  "count_matches pat s * length pat \<le> length s \<and>
   length (str_replace pat to s) + count_matches pat s * length pat = length s + count_matches pat s * length to"
proof (induction pat to s rule: str_replace.induct)
  case (1 pat to s)
  show ?case
  proof (cases "pat = []")
    case True
    have "length (concat (map (\<lambda>ch. ch @ to) cs)) = length (concat cs) + length cs * length to" for cs :: "string list"
      by (induction cs) auto
    from this [of "chars s"] True show ?thesis
      by (simp add: str_replace.simps [of "[]"] count_matches.simps [of "[]"])
  next
    case ne: False
    show ?thesis
    proof (cases "find_str pat s")
      case None
      with ne show ?thesis by (simp add: str_replace.simps [of pat] count_matches.simps [of pat])
    next
      case (Some i)
      let ?t = "drop (i + length pat) s"
      have "count_matches pat s = 1 + count_matches pat ?t" "str_replace pat to s = take i s @ to @ str_replace pat to ?t"
        using ne Some by (simp_all add: str_replace.simps [of pat to s] count_matches.simps [of pat s])
      moreover have "i + length pat \<le> length s" using Some by (rule find_str_length)
      moreover from 1 [OF ne Some] have "count_matches pat ?t * length pat \<le> length s - (i + length pat)"
        "length (str_replace pat to ?t) + count_matches pat ?t * length pat = length s - (i + length pat) + count_matches pat ?t * length to"
        by simp_all
      ultimately show ?thesis by (simp add: add_mult_distrib) linarith
    qed
  qed
qed

text \<open>The limit is checked before the text is built, and exactly.\<close>

lemma replace_plain_exact:
  assumes "limit \<le> USIZE_MAX" "length input \<le> USIZE_MAX"
  shows "replace_plain_bounded input pat to limit label =
    (if length (str_replace pat to input) \<le> limit then Inr (str_replace pat to input)
     else Inl (output_limit_error label limit))"
proof -
  let ?m = "count_matches pat input" and ?r = "str_replace pat to input"
  have l: "?m * length pat \<le> length input" "length ?r + ?m * length pat = length input + ?m * length to"
    using replace_lengths by blast+
  then have "checked_mul ?m (length pat) = Some (?m * length pat)" using assms(2) by (simp add: checked_mul_def)
  moreover have "length input - ?m * length pat + ?m * length to = length ?r" using l by simp
  ultimately have "replace_plain_bounded input pat to limit label =
      (if ?m * length to \<le> USIZE_MAX \<and> length ?r \<le> USIZE_MAX \<and> length ?r \<le> limit then Inr ?r else Inl (output_limit_error label limit))"
    using l(1) by (simp add: replace_plain_bounded_def Let_def checked_mul_def checked_add_def)
  with assms(1) l show ?thesis by auto
qed

section \<open>URL actions\<close>

definition parse_query_pairs :: "string \<Rightarrow> (string \<times> string) list" where
  "parse_query_pairs query =
     map (\<lambda>part. case split_once part ''='' of Some (k, v) \<Rightarrow> (k, v) | None \<Rightarrow> (part, []))
       (filter (\<lambda>p. p \<noteq> []) (split_chars (\<lambda>c. c = CHR ''&'') query))"

definition url_to_string :: "url_parts \<Rightarrow> string" where
  "url_to_string url =
     url_scheme url @ ''://'' @
     (case url_port url of Some port \<Rightarrow> format_host_port (url_host url) port | None \<Rightarrow> format_authority_host (url_host url)) @
     origin_form url"

definition set_url_origin :: "string \<Rightarrow> url_parts \<Rightarrow> url_parts" where
  "set_url_origin origin url =
     (let origin = (if starts_with origin ''/'' then origin else ''/'' @ origin);
          (path, query) = (case split_once origin ''?'' of Some (p, q) \<Rightarrow> (p, Some q) | None \<Rightarrow> (origin, None)) in
      url\<lparr>url_path := if path = [] then ''/'' else path, url_query := query\<rparr>)"

definition validate_rewritten_url :: "string \<Rightarrow> nat \<Rightarrow> proxy_error + unit" where
  "validate_rewritten_url v limit =
     try_bind (ensure_output_limit v limit ''rewritten URL'') (\<lambda>_.
     if list_ex (\<lambda>c. byte c \<le> 32 \<or> byte c = 127) v then Inl UnsafeUrl else Inr ())"

fun query_length_from :: "nat \<Rightarrow> nat \<Rightarrow> (string \<times> string) list \<Rightarrow> proxy_error + nat" where
  "query_length_from limit n [] = Inr n"
| "query_length_from limit n ((name, v) # ps) =
     (case Option.bind (checked_add n (length name)) (\<lambda>n. Option.bind (checked_add n 1) (\<lambda>n. checked_add n (length v))) of
        None \<Rightarrow> Inl (output_limit_error ''query string'' limit)
      | Some n \<Rightarrow> if limit < n then Inl (output_limit_error ''query string'' limit) else query_length_from limit n ps)"

definition query_pairs_length :: "(string \<times> string) list \<Rightarrow> nat \<Rightarrow> proxy_error + nat" where
  "query_pairs_length pairs limit = query_length_from limit (length pairs - 1) pairs"

definition print_pairs :: "(string \<times> string) list \<Rightarrow> string" where
  "print_pairs pairs = join_amp (map (\<lambda>(k, v). k @ ''='' @ v) pairs)"

definition render_query_pairs :: "(string \<times> string) list \<Rightarrow> nat \<Rightarrow> proxy_error + string" where
  "render_query_pairs pairs limit = try_bind (query_pairs_length pairs limit) (\<lambda>_. Inr (print_pairs pairs))"

fun apply_query_ops ::
  "proxy_state \<Rightarrow> resolved_action \<Rightarrow> request_meta \<Rightarrow> query_op list \<Rightarrow> (string \<times> string) list \<Rightarrow> proxy_error + (string \<times> string) list" where
  "apply_query_ops st item meta [] pairs = Inr pairs"
| "apply_query_ops st item meta (op # ops) pairs =
     try_bind
       (case op of
          QuerySet name v \<Rightarrow>
            try_bind (resolve_value_text_bounded st item meta v (rule_header_limit st)) (\<lambda>v. Inr (set_pair name v pairs))
        | QueryRemove name \<Rightarrow> Inr (filter (\<lambda>(k, _). k \<noteq> name) pairs)) (\<lambda>pairs.
     try_bind (query_pairs_length pairs (rule_header_limit st)) (\<lambda>_. apply_query_ops st item meta ops pairs))"

definition remote_scheme :: "headers \<Rightarrow> string \<Rightarrow> string option" where
  "remote_scheme hs scheme =
     (if scheme = ''http'' \<or> scheme = ''https'' then Some scheme
      else if scheme = ''ws'' \<and> is_websocket_request hs then Some ''http''
      else if scheme = ''wss'' \<and> is_websocket_request hs then Some ''https''
      else None)"

definition explicit_path :: "string \<Rightarrow> bool" where
  "explicit_path rendered =
     (case split_once (trim rendered) ''://'' of
        None \<Rightarrow> False | Some (_, rest) \<Rightarrow> CHR ''/'' \<in> set rest \<or> CHR ''?'' \<in> set rest)"

definition map_remote :: "proxy_state \<Rightarrow> request_meta \<Rightarrow> string \<Rightarrow> url_parts \<Rightarrow> proxy_error + url_parts" where
  "map_remote st meta rendered url =
     (case url_parse (trim rendered) of
        Inl e \<Rightarrow> Inl (BadUrl e)
      | Inr target \<Rightarrow>
          (case remote_scheme (req_headers meta) (url_scheme target) of
             None \<Rightarrow> Inl (BadRemoteTarget rendered)
           | Some scheme \<Rightarrow>
               (let url = url\<lparr>url_scheme := scheme, url_host := url_host target, url_port := url_port target\<rparr>;
                    url = (if explicit_path rendered then url\<lparr>url_path := url_path target, url_query := url_query target\<rparr> else url) in
                try_bind (validate_rewritten_url (url_to_string url) (rule_header_limit st)) (\<lambda>_. Inr url))))"

definition delete_path_segments :: "string \<Rightarrow> delete_path_segment list \<Rightarrow> string" where
  "delete_path_segments path ops =
     (let raw = (case strip_prefix path ''/'' of Some r \<Rightarrow> r | None \<Rightarrow> path);
          parts = split_chars (\<lambda>c. c = CHR ''/'') raw;
          len = int (length parts);
          index = (\<lambda>op. case op of SegmentIndex i \<Rightarrow> if i < 0 then len + i else i | SegmentLast \<Rightarrow> len - 1);
          removed = map index ops;
          kept = map snd (filter (\<lambda>(i, _). int i \<notin> set removed) (enumerate 0 parts));
          kept = (if SegmentLast \<in> set ops \<and> kept \<noteq> [] \<and> last kept \<noteq> [] then kept @ [[]] else kept);
          joined = join_with ''/'' kept in
      if joined = [] then ''/'' else ''/'' @ joined)"

definition path_segment_ops :: "delete_op list \<Rightarrow> delete_path_segment list" where
  "path_segment_ops ops = List.map_filter (\<lambda>op. case op of DelPathSegment s \<Rightarrow> Some s | _ \<Rightarrow> None) ops"

definition delete_query :: "delete_op \<Rightarrow> string option \<Rightarrow> string option" where
  "delete_query op query =
     (case op of
        DelUrlParams \<Rightarrow> None
      | DelUrlParam name \<Rightarrow>
          (let pairs = filter (\<lambda>(k, _). k \<noteq> name) (parse_query_pairs (case query of Some q \<Rightarrow> q | None \<Rightarrow> [])) in
           if pairs = [] then None else Some (print_pairs pairs))
      | _ \<Rightarrow> query)"

definition apply_url_delete :: "delete_op list \<Rightarrow> url_parts \<Rightarrow> url_parts" where
  "apply_url_delete ops url =
     (let path =
        (if DelPathname \<in> set ops then ''/''
         else if path_segment_ops ops \<noteq> [] then delete_path_segments (url_path url) (path_segment_ops ops)
         else url_path url) in
      url\<lparr>url_path := path, url_query := fold delete_query ops (url_query url)\<rparr>)"

definition url_action :: "proxy_state \<Rightarrow> request_meta \<Rightarrow> resolved_action \<Rightarrow> url_parts \<Rightarrow> proxy_error + url_parts" where
  "url_action st meta item url =
     (let limit = rule_header_limit st in
      case ra_action item of
        MapRemote v \<Rightarrow>
          try_bind (resolve_value_text_bounded st item meta v limit) (\<lambda>rendered. map_remote st meta rendered url)
      | UrlRewrite pattern to \<Rightarrow>
          try_bind
            (case pattern of
               RewritePlain pat \<Rightarrow>
                 try_bind (resolve_value_text_bounded st item meta pat limit) (\<lambda>pat.
                 try_bind (resolve_value_text_bounded st item meta to limit) (\<lambda>to.
                 replace_plain_bounded (origin_form url) pat to limit ''rewritten URL''))
             | RewriteRegex p \<Rightarrow>
                 try_bind (resolve_raw_value_text st item meta to) (\<lambda>replacement.
                 replace_all_bounded (px_ext st) p (origin_form url) replacement limit))
            (\<lambda>rewritten. Inr (set_url_origin rewritten url))
      | UrlQuery ops \<Rightarrow>
          try_bind (apply_query_ops st item meta ops (parse_query_pairs (case url_query url of Some q \<Rightarrow> q | None \<Rightarrow> []))) (\<lambda>pairs.
          if pairs = [] then Inr (url\<lparr>url_query := None\<rparr>)
          else try_bind (render_query_pairs pairs limit) (\<lambda>q. Inr (url\<lparr>url_query := Some q\<rparr>)))
      | Delete ops \<Rightarrow> Inr (apply_url_delete ops url)
      | _ \<Rightarrow> Inr url)"

fun url_actions :: "proxy_state \<Rightarrow> request_meta \<Rightarrow> resolved_action list \<Rightarrow> url_parts \<Rightarrow> proxy_error + url_parts" where
  "url_actions st meta [] url = Inr url"
| "url_actions st meta (item # items) url = try_bind (url_action st meta item url) (url_actions st meta items)"

definition apply_url_actions :: "proxy_state \<Rightarrow> request_meta \<Rightarrow> resolved_action list \<Rightarrow> string \<Rightarrow> proxy_error + string" where
  "apply_url_actions st meta actions full_url =
     (case url_parse full_url of
        Inl e \<Rightarrow> Inl (BadUrl e)
      | Inr url \<Rightarrow>
          try_bind (url_actions st meta actions url) (\<lambda>url.
          let out = url_to_string url in
          try_bind (validate_rewritten_url out (rule_header_limit st)) (\<lambda>_. Inr out)))"

section \<open>Bodies\<close>

definition apply_body_op ::
  "proxy_state \<Rightarrow> resolved_action \<Rightarrow> request_meta \<Rightarrow> body_op \<Rightarrow> string \<Rightarrow> proxy_error + string" where
  "apply_body_op st item meta op body =
     (let limit = rule_body_limit st in
      case op of
        BodySet v \<Rightarrow> resolve_value_bytes_bounded st item meta v limit
      | BodyPrepend v \<Rightarrow>
          try_bind (remaining_capacity (length body) limit ''body transformation'') (\<lambda>remaining.
          try_bind (resolve_value_bytes_bounded st item meta v remaining) (\<lambda>next. Inr (next @ body)))
      | BodyAppend v \<Rightarrow>
          try_bind (remaining_capacity (length body) limit ''body transformation'') (\<lambda>remaining.
          try_bind (resolve_value_bytes_bounded st item meta v remaining) (\<lambda>next. Inr (body @ next)))
      | BodyReplace pattern replacement \<Rightarrow>
          if utf8_valid body then replace_all_bounded (px_ext st) pattern body replacement limit else Inr body)"

definition inject_content_type_matches :: "headers \<Rightarrow> inject_target \<Rightarrow> bool" where
  "inject_content_type_matches hs target =
     (case header hs ''content-type'' of
        None \<Rightarrow> False
      | Some v \<Rightarrow>
          (let mime = to_ascii_lowercase (first_part v) in
           case target of
             TargetHtml \<Rightarrow> mime \<in> set [''text/html'', ''application/xhtml+xml'']
           | TargetJs \<Rightarrow> mime \<in> set [''application/javascript'', ''text/javascript'', ''application/x-javascript'']
           | TargetCss \<Rightarrow> mime = ''text/css''))"

definition apply_inject_op ::
  "proxy_state \<Rightarrow> resolved_action \<Rightarrow> request_meta \<Rightarrow> headers \<Rightarrow> inject_op \<Rightarrow> string \<Rightarrow> proxy_error + string" where
  "apply_inject_op st item meta hs op body =
     (let limit = rule_body_limit st in
      if \<not> inject_content_type_matches hs (inject_target op) then Inr body
      else
        (case inject_mode op of
           ModeAppend \<Rightarrow>
             try_bind (remaining_capacity (length body) limit ''body injection'') (\<lambda>remaining.
             try_bind (resolve_value_bytes_bounded st item meta (inject_value op) remaining) (\<lambda>next. Inr (body @ next)))
         | ModePrepend \<Rightarrow>
             try_bind (remaining_capacity (length body) limit ''body injection'') (\<lambda>remaining.
             try_bind (resolve_value_bytes_bounded st item meta (inject_value op) remaining) (\<lambda>next. Inr (next @ body)))
         | ModeReplace \<Rightarrow> resolve_value_bytes_bounded st item meta (inject_value op) limit))"

section \<open>Deletions\<close>

definition remove_request_cookie :: "string \<Rightarrow> headers \<Rightarrow> headers" where
  "remove_request_cookie name hs =
     (let cookies = filter (\<lambda>(k, _). k \<noteq> name) (request_cookies hs) in
      if cookies = [] then remove_header ''cookie'' hs
      else set_header ''Cookie'' (join_with ''; '' (map (\<lambda>(k, v). k @ ''='' @ v) cookies)) hs)"

definition remove_content_type_part :: "bool \<Rightarrow> headers \<Rightarrow> headers" where
  "remove_content_type_part remove_type hs =
     (case header hs ''content-type'' of
        None \<Rightarrow> hs
      | Some v \<Rightarrow>
          (let parts = map trim (split_chars (\<lambda>c. c = CHR '';'') (trim v));
               parts = (if remove_type then [] # tl parts else take 1 parts);
               v = join_with ''; '' parts in
           if v = [] then remove_header ''content-type'' hs else set_header ''Content-Type'' v hs))"

record raw_request =
  rq_method :: string
  rq_target :: string
  rq_version :: string
  rq_headers :: headers
  rq_body :: string
  rq_trailers :: headers

definition request_delete :: "json_lib \<Rightarrow> bool \<Rightarrow> delete_op \<Rightarrow> raw_request \<times> bool \<Rightarrow> raw_request \<times> bool" where
  "request_delete J body_available op s =
     (case s of (req, changed) \<Rightarrow>
      case op of
        DelReqHeader name \<Rightarrow> (req\<lparr>rq_headers := remove_header name (rq_headers req)\<rparr>, changed)
      | DelReqCookie name \<Rightarrow> (req\<lparr>rq_headers := remove_request_cookie name (rq_headers req)\<rparr>, changed)
      | DelReqCookies \<Rightarrow> (req\<lparr>rq_headers := remove_header ''cookie'' (rq_headers req)\<rparr>, changed)
      | DelReqType \<Rightarrow> (req\<lparr>rq_headers := remove_content_type_part True (rq_headers req)\<rparr>, changed)
      | DelReqCharset \<Rightarrow> (req\<lparr>rq_headers := remove_content_type_part False (rq_headers req)\<rparr>, changed)
      | DelReqBody \<Rightarrow> if body_available then (req\<lparr>rq_body := []\<rparr>, True) else s
      | DelReqBodyPath path \<Rightarrow>
          if body_available then
            (let (deleted, body) = delete_request_body_path J (rq_headers req) (rq_body req) path in
             (req\<lparr>rq_body := body\<rparr>, changed \<or> deleted))
          else s
      | _ \<Rightarrow> s)"

definition apply_request_delete :: "json_lib \<Rightarrow> bool \<Rightarrow> delete_op list \<Rightarrow> raw_request \<Rightarrow> raw_request \<times> bool" where
  "apply_request_delete J body_available ops req = fold (request_delete J body_available) ops (req, False)"

definition response_delete :: "json_lib \<Rightarrow> bool \<Rightarrow> delete_op \<Rightarrow> headers \<times> string \<Rightarrow> headers \<times> string" where
  "response_delete J body_available op s =
     (case s of (hs, body) \<Rightarrow>
      case op of
        DelResHeader name \<Rightarrow> (remove_header name hs, body)
      | DelResCookie name \<Rightarrow> (remove_response_cookie name hs, body)
      | DelResCookies \<Rightarrow> (remove_header ''set-cookie'' hs, body)
      | DelResType \<Rightarrow> (remove_content_type_part True hs, body)
      | DelResCharset \<Rightarrow> (remove_content_type_part False hs, body)
      | DelResBody \<Rightarrow> if body_available then (hs, []) else s
      | DelResBodyPath path \<Rightarrow> if body_available then (hs, snd (delete_response_body_path J hs body path)) else s
      | _ \<Rightarrow> s)"

definition apply_response_delete :: "json_lib \<Rightarrow> bool \<Rightarrow> delete_op list \<Rightarrow> headers \<times> string \<Rightarrow> headers \<times> string" where
  "apply_response_delete J body_available ops s = fold (response_delete J body_available) ops s"

definition trailer_delete :: "delete_op \<Rightarrow> headers \<Rightarrow> headers" where
  "trailer_delete op ts = (case op of DelTrailer name \<Rightarrow> remove_header name ts | DelTrailers \<Rightarrow> [] | _ \<Rightarrow> ts)"

definition apply_trailer_delete :: "delete_op list \<Rightarrow> headers \<Rightarrow> headers" where
  "apply_trailer_delete ops ts = fold trailer_delete ops ts"

section \<open>Request actions\<close>

definition forwarded_for_value :: "string \<Rightarrow> string" where
  "forwarded_for_value v = (case parse_socket_addr_ip v of Some ip \<Rightarrow> ip_to_string ip | None \<Rightarrow> v)"

definition on_headers :: "(headers \<Rightarrow> proxy_error + headers) \<Rightarrow> raw_request \<Rightarrow> proxy_error + raw_request" where
  "on_headers f req = try_bind (f (rq_headers req)) (\<lambda>hs. Inr (req\<lparr>rq_headers := hs\<rparr>))"

definition set_from_value ::
  "proxy_state \<Rightarrow> resolved_action \<Rightarrow> request_meta \<Rightarrow> rule_value \<Rightarrow> (string \<Rightarrow> headers \<Rightarrow> headers) \<Rightarrow> headers \<Rightarrow> proxy_error + headers" where
  "set_from_value st item meta v f hs =
     try_bind (resolve_value_text_bounded st item meta v (rule_header_limit st)) (\<lambda>v. Inr (f v hs))"

text \<open>The header field that an action on the request sets, if it is one of those.\<close>

definition request_headers_action ::
  "proxy_state \<Rightarrow> request_meta \<Rightarrow> resolved_action \<Rightarrow> headers \<Rightarrow> proxy_error + headers" where
  "request_headers_action st meta item hs =
     (case ra_action item of
        ReqHeader op \<Rightarrow> apply_header_op st item meta op hs
      | ReqCookie op \<Rightarrow> apply_req_cookie st item meta op hs
      | ReqUa v \<Rightarrow> set_from_value st item meta v (set_header ''User-Agent'') hs
      | ReqReferer v \<Rightarrow> set_from_value st item meta v (set_header ''Referer'') hs
      | ReqAuth v \<Rightarrow> set_from_value st item meta v (\<lambda>v. set_header ''Authorization'' (''Basic '' @ base64 v)) hs
      | ReqForwarded v \<Rightarrow> set_from_value st item meta v (\<lambda>v. set_header ''X-Forwarded-For'' (forwarded_for_value v)) hs
      | ReqType v \<Rightarrow> set_from_value st item meta v (set_header ''Content-Type'') hs
      | ReqCharset v \<Rightarrow> set_from_value st item meta v set_charset hs
      | _ \<Rightarrow> Inr hs)"

definition request_action ::
  "json_lib \<Rightarrow> proxy_state \<Rightarrow> request_meta \<Rightarrow> bool \<Rightarrow> resolved_action \<Rightarrow> raw_request \<times> bool \<Rightarrow> proxy_error + raw_request \<times> bool" where
  "request_action J st meta body_available item s =
     (case s of (req, changed) \<Rightarrow>
      case ra_action item of
        ReqMethod v \<Rightarrow>
          try_bind (resolve_value_text_bounded st item meta v (rule_header_limit st)) (\<lambda>m.
          Inr (req\<lparr>rq_method := to_ascii_uppercase m\<rparr>, changed))
      | ReqBody op \<Rightarrow>
          if body_available then
            try_bind (apply_body_op st item meta op (rq_body req)) (\<lambda>body. Inr (req\<lparr>rq_body := body\<rparr>, True))
          else Inr s
      | Delete ops \<Rightarrow>
          (let (req, deleted) = apply_request_delete J body_available ops req in Inr (req, changed \<or> deleted))
      | _ \<Rightarrow> try_bind (on_headers (request_headers_action st meta item) req) (\<lambda>req. Inr (req, changed)))"

fun request_actions ::
  "json_lib \<Rightarrow> proxy_state \<Rightarrow> request_meta \<Rightarrow> bool \<Rightarrow> resolved_action list \<Rightarrow> raw_request \<times> bool \<Rightarrow> proxy_error + raw_request \<times> bool" where
  "request_actions J st meta body_available [] s = Inr s"
| "request_actions J st meta body_available (item # items) s =
     try_bind (request_action J st meta body_available item s) (request_actions J st meta body_available items)"

definition apply_request_actions_inner ::
  "json_lib \<Rightarrow> proxy_state \<Rightarrow> request_meta \<Rightarrow> resolved_action list \<Rightarrow> bool \<Rightarrow> raw_request \<Rightarrow> proxy_error + raw_request" where
  "apply_request_actions_inner J st meta actions body_available req =
     try_bind (request_actions J st meta body_available actions (req, False)) (\<lambda>(req, changed).
     let req =
       (if body_available \<and> (changed \<or> rq_body req \<noteq> [] \<or> header (rq_headers req) ''content-length'' \<noteq> None)
        then req\<lparr>rq_headers := update_body_headers (length (rq_body req)) (rq_headers req)\<rparr> else req) in
     try_bind (validate_http_method (rq_method req)) (\<lambda>_.
     try_bind (validate_header_block st (rq_headers req)) (\<lambda>_. Inr req)))"

definition apply_request_actions where
  "apply_request_actions J st meta actions req = apply_request_actions_inner J st meta actions True req"

definition apply_streaming_request_actions where
  "apply_streaming_request_actions J st meta actions req = apply_request_actions_inner J st meta actions False req"

section \<open>Response actions\<close>

definition response_actions_require_body :: "resolved_action list \<Rightarrow> bool" where
  "response_actions_require_body actions =
     list_ex (\<lambda>item. case ra_action item of
         ResMerge _ \<Rightarrow> True | Inject _ \<Rightarrow> True | ResBody _ \<Rightarrow> True
       | Delete ops \<Rightarrow> list_ex (\<lambda>op. case op of DelResBody \<Rightarrow> True | DelResBodyPath _ \<Rightarrow> True | _ \<Rightarrow> False) ops
       | _ \<Rightarrow> False) actions"

definition attr_byte :: "char \<Rightarrow> bool" where
  "attr_byte c \<longleftrightarrow> is_ascii_alphanumeric c \<or> c \<in> set ''!#$&+-.^_`|~''"

definition percent_encode :: "string \<Rightarrow> string" where
  "percent_encode s =
     concat (map (\<lambda>c. if attr_byte c then [c] else [CHR ''%'', upper_hex_digit (byte c div 16), upper_hex_digit (byte c mod 16)]) s)"

definition quote_char :: "string \<Rightarrow> string" where
  "quote_char ch =
     (if ch = [CHR 0x22] \<or> ch = [CHR 0x5C] then CHR 0x5C # ch else if ascii ch then ch else ''_'')"

definition content_disposition_attachment :: "string \<Rightarrow> proxy_error + string" where
  "content_disposition_attachment filename =
     (if filename = [] \<or> has_control filename then Inl BadFilename
      else
        Inr (''attachment; filename='' @ [CHR 0x22] @ concat (map quote_char (chars filename)) @ [CHR 0x22] @
          (if ascii filename then [] else ''; filename*=UTF-8'' @ [CHR 0x27, CHR 0x27] @ percent_encode filename)))"

fun push_directives ::
  "proxy_state \<Rightarrow> resolved_action \<Rightarrow> request_meta \<Rightarrow> nat \<Rightarrow> cache_directive list \<Rightarrow> string \<Rightarrow> proxy_error + string" where
  "push_directives st item meta i [] out = Inr out"
| "push_directives st item meta i (d # ds) out =
     (let limit = rule_header_limit st; label = ''Cache-Control value'' in
      try_bind (if 0 < i then push_text_bounded out '', '' limit label else Inr out) (\<lambda>out.
      try_bind (push_text_bounded out (directive_name d) limit label) (\<lambda>out.
      try_bind
        (case directive_value d of
           None \<Rightarrow> Inr out
         | Some v \<Rightarrow>
             try_bind (push_text_bounded out ''='' limit label) (\<lambda>out.
             try_bind (remaining_capacity (length out) limit label) (\<lambda>remaining.
             try_bind (resolve_value_text_bounded st item meta v remaining) (\<lambda>v.
             push_text_bounded out v limit label))))
        (push_directives st item meta (i + 1) ds))))"

definition render_cache_directives ::
  "proxy_state \<Rightarrow> resolved_action \<Rightarrow> request_meta \<Rightarrow> cache_directive list \<Rightarrow> proxy_error + string" where
  "render_cache_directives st item meta ds = push_directives st item meta 0 ds []"

fun ensure_vary_origin :: "headers \<Rightarrow> headers" where
  "ensure_vary_origin [] = [(''Vary'', ''Origin'')]"
| "ensure_vary_origin ((n, v) # hs) =
     (if eq_ignore_ascii_case n ''vary'' then
        (if list_ex (\<lambda>part. eq_ignore_ascii_case (trim part) ''origin'') (split_chars (\<lambda>c. c = CHR '','') v) then (n, v) # hs
         else (n, v @ (if trim v \<noteq> [] then '', '' else []) @ ''Origin'') # hs)
      else (n, v) # ensure_vary_origin hs)"

definition set_optional ::
  "proxy_state \<Rightarrow> resolved_action \<Rightarrow> request_meta \<Rightarrow> string \<Rightarrow> rule_value option \<Rightarrow> string option \<Rightarrow> headers \<Rightarrow> proxy_error + headers" where
  "set_optional st item meta name v preset hs =
     (case v of
        Some v \<Rightarrow> set_from_value st item meta v (set_header name) hs
      | None \<Rightarrow> (case preset of Some d \<Rightarrow> Inr (set_header name d hs) | None \<Rightarrow> Inr hs))"

definition apply_res_cors ::
  "proxy_state \<Rightarrow> resolved_action \<Rightarrow> request_meta \<Rightarrow> cors_op \<Rightarrow> headers \<Rightarrow> proxy_error + headers" where
  "apply_res_cors st item meta op hs =
     try_bind (resolve_value_text_bounded st item meta (cors_origin op) (rule_header_limit st)) (\<lambda>origin.
     try_bind (set_optional st item meta ''Access-Control-Allow-Methods'' (cors_methods op)
       (Some ''GET,POST,PUT,PATCH,DELETE,OPTIONS'') (set_header ''Access-Control-Allow-Origin'' origin hs)) (\<lambda>hs.
     try_bind (set_optional st item meta ''Access-Control-Allow-Headers'' (cors_headers op)
       (Some ''Content-Type,Authorization,*'') hs) (\<lambda>hs.
     let hs = (case cors_credentials op of
         Some True \<Rightarrow> set_header ''Access-Control-Allow-Credentials'' ''true'' hs
       | Some False \<Rightarrow> remove_header ''Access-Control-Allow-Credentials'' hs
       | None \<Rightarrow> hs) in
     try_bind (set_optional st item meta ''Access-Control-Expose-Headers'' (cors_expose op) None hs) (\<lambda>hs.
     try_bind (set_optional st item meta ''Access-Control-Max-Age'' (cors_max_age op) None hs) (\<lambda>hs.
     Inr (if origin \<noteq> ''*'' then ensure_vary_origin hs else hs))))))"

definition response_headers_action ::
  "proxy_state \<Rightarrow> request_meta \<Rightarrow> resolved_action \<Rightarrow> headers \<Rightarrow> proxy_error + headers" where
  "response_headers_action st meta item hs =
     (case ra_action item of
        ResHeader op \<Rightarrow> apply_header_op st item meta op hs
      | ResCookie op \<Rightarrow> apply_res_cookie st item meta op hs
      | ResCors op \<Rightarrow> apply_res_cors st item meta op hs
      | ResType v \<Rightarrow> set_from_value st item meta v (set_header ''Content-Type'') hs
      | ResCharset v \<Rightarrow> set_from_value st item meta v set_charset hs
      | Attachment None \<Rightarrow> Inr (set_header ''Content-Disposition'' ''attachment'' hs)
      | Attachment (Some v) \<Rightarrow>
          try_bind (resolve_value_text_bounded st item meta v (rule_header_limit st)) (\<lambda>name.
          try_bind (content_disposition_attachment name) (\<lambda>v. Inr (set_header ''Content-Disposition'' v hs)))
      | Cache CacheOff \<Rightarrow> Inr (set_header ''Pragma'' ''no-cache'' (set_header ''Cache-Control'' ''no-store'' hs))
      | Cache (CacheDirectives ds) \<Rightarrow>
          try_bind (render_cache_directives st item meta ds) (\<lambda>v. Inr (set_header ''Cache-Control'' v (remove_header ''Pragma'' hs)))
      | _ \<Rightarrow> Inr hs)"

record response_parts =
  rp_status :: u16
  rp_reason :: string
  rp_headers :: headers
  rp_body :: string

definition response_action ::
  "json_lib \<Rightarrow> (u16 \<Rightarrow> string) \<Rightarrow> proxy_state \<Rightarrow> request_meta \<Rightarrow> bool \<Rightarrow> resolved_action \<Rightarrow> response_parts \<Rightarrow> proxy_error + response_parts" where
  "response_action J reason_phrase st meta include_body item r =
     (case ra_action item of
        ResStatus code \<Rightarrow> Inr (r\<lparr>rp_status := code, rp_reason := reason_phrase code\<rparr>)
      | ResMerge v \<Rightarrow>
          if include_body then
            try_bind (resolve_value_text_bounded st item meta v (rule_body_limit st)) (\<lambda>patch.
            try_bind (apply_res_merge J (rp_body r) patch (rule_body_limit st)) (\<lambda>(_, body). Inr (r\<lparr>rp_body := body\<rparr>)))
          else Inr r
      | Inject op \<Rightarrow>
          if include_body then
            try_bind (apply_inject_op st item meta (rp_headers r) op (rp_body r)) (\<lambda>body. Inr (r\<lparr>rp_body := body\<rparr>))
          else Inr r
      | ResBody op \<Rightarrow>
          if include_body then try_bind (apply_body_op st item meta op (rp_body r)) (\<lambda>body. Inr (r\<lparr>rp_body := body\<rparr>)) else Inr r
      | Delete ops \<Rightarrow>
          (let (hs, body) = apply_response_delete J include_body ops (rp_headers r, rp_body r) in
           Inr (r\<lparr>rp_headers := hs, rp_body := body\<rparr>))
      | _ \<Rightarrow> try_bind (response_headers_action st meta item (rp_headers r)) (\<lambda>hs. Inr (r\<lparr>rp_headers := hs\<rparr>)))"

fun response_actions ::
  "json_lib \<Rightarrow> (u16 \<Rightarrow> string) \<Rightarrow> proxy_state \<Rightarrow> request_meta \<Rightarrow> bool \<Rightarrow> resolved_action list \<Rightarrow> response_parts \<Rightarrow> proxy_error + response_parts" where
  "response_actions J reason_phrase st meta include_body [] r = Inr r"
| "response_actions J reason_phrase st meta include_body (item # items) r =
     try_bind (response_action J reason_phrase st meta include_body item r) (response_actions J reason_phrase st meta include_body items)"

definition apply_response_actions_inner where
  "apply_response_actions_inner J reason_phrase st meta actions include_body r =
     try_bind (response_actions J reason_phrase st meta include_body actions r) (\<lambda>r.
     try_bind (validate_header_block st (rp_headers r)) (\<lambda>_. Inr r))"

definition validate_trailer_block :: "proxy_state \<Rightarrow> headers \<Rightarrow> proxy_error + unit" where
  "validate_trailer_block st ts =
     try_bind (validate_header_block st ts) (\<lambda>_.
     case filter (\<lambda>(name, _). is_forbidden_trailer_name name) ts of
       [] \<Rightarrow> Inr () | (name, _) # _ \<Rightarrow> Inl (ForbiddenTrailer name))"

definition trailer_action :: "proxy_state \<Rightarrow> request_meta \<Rightarrow> resolved_action \<Rightarrow> headers \<Rightarrow> proxy_error + headers" where
  "trailer_action st meta item ts =
     (case ra_action item of
        ResTrailer op \<Rightarrow> apply_header_op st item meta op ts
      | Delete ops \<Rightarrow> Inr (apply_trailer_delete ops ts)
      | _ \<Rightarrow> Inr ts)"

fun trailer_actions :: "proxy_state \<Rightarrow> request_meta \<Rightarrow> resolved_action list \<Rightarrow> headers \<Rightarrow> proxy_error + headers" where
  "trailer_actions st meta [] ts = Inr ts"
| "trailer_actions st meta (item # items) ts = try_bind (trailer_action st meta item ts) (trailer_actions st meta items)"

definition apply_response_trailer_actions ::
  "proxy_state \<Rightarrow> request_meta \<Rightarrow> resolved_action list \<Rightarrow> headers \<Rightarrow> proxy_error + headers" where
  "apply_response_trailer_actions st meta actions ts =
     try_bind (trailer_actions st meta actions ts) (\<lambda>ts. try_bind (validate_trailer_block st ts) (\<lambda>_. Inr ts))"

definition sanitize_upstream_trailers :: "headers \<Rightarrow> headers \<Rightarrow> headers \<times> bool" where
  "sanitize_upstream_trailers response_headers ts =
     (let names = map to_ascii_lowercase (connection_tokens response_headers);
          kept = filter (\<lambda>(n, _). \<not> is_forbidden_trailer_name n \<and> \<not> list_ex (eq_ignore_ascii_case n) names) ts in
      (kept, length kept \<noteq> length ts))"

section \<open>Limits of bodies\<close>

lemma replace_all_length: "replace_all_bounded E p input replacement limit = Inr v \<Longrightarrow> limit \<le> USIZE_MAX \<Longrightarrow> length v \<le> limit"
  using regex_replace_all_bounded [of limit E "rrp_pattern p" "rrp_case_insensitive p" input replacement "''regex replacement''"]
  by (auto simp: replace_all_bounded_def bounded_result_def map_sum_def split: sum.splits if_splits)

lemma resolved_fits:
  assumes "remaining_capacity n limit label = Inr remaining" "resolve_value_bytes_bounded st item meta v remaining = Inr b"
  shows "n + length b \<le> limit"
  using assms resolve_length [OF assms(2)] by (auto simp: remaining_capacity_def split: if_splits)

lemma resolved_limit: "resolve_value_bytes_bounded st item meta v limit = Inr b \<Longrightarrow> length b \<le> limit"
  using resolve_length by fastforce

text \<open>
  No operation of a rule on a body makes it exceed the limit: after setting, extending,
  replacing in, injecting into or merging into a body, the result is the old body or fits within
  the limit for bodies of rules.
\<close>

theorem body_operations_bounded:
  "(apply_body_op st item meta op body = Inr body' \<longrightarrow> body' = body \<or> length body' \<le> rule_body_limit st) \<and>
   (apply_inject_op st item meta hs iop body = Inr body' \<longrightarrow> body' = body \<or> length body' \<le> rule_body_limit st) \<and>
   (\<forall>c. apply_res_merge J body patch (rule_body_limit st) = Inr (c, body') \<longrightarrow> body' = body \<or> length body' \<le> rule_body_limit st)"
proof (intro conjI allI impI)
  assume "apply_body_op st item meta op body = Inr body'"
  then show "body' = body \<or> length body' \<le> rule_body_limit st"
    using limits_usize(5) resolved_fits
    by (cases op) (fastforce simp: apply_body_op_def Let_def try_bind_Inr_iff dest: resolved_limit replace_all_length split: if_splits)+
next
  assume "apply_inject_op st item meta hs iop body = Inr body'"
  then show "body' = body \<or> length body' \<le> rule_body_limit st"
    using resolved_fits
    by (cases "inject_mode iop") (fastforce simp: apply_inject_op_def Let_def try_bind_Inr_iff dest: resolved_limit split: if_splits)+
next
  fix c
  assume "apply_res_merge J body patch (rule_body_limit st) = Inr (c, body')"
  then show "body' = body \<or> length body' \<le> rule_body_limit st"
    by (auto simp: apply_res_merge_def split: if_splits option.splits)
qed

definition demo_json :: json_lib where
  "demo_json = \<lparr>js_parse = (\<lambda>_. None), js_first = (\<lambda>_. None), js_print = (\<lambda>_. None)\<rparr>"

lemma body_operations_bounded_witness:
  "\<exists>body'. apply_body_op demo_state (demo_item Direct) (demo_request ''http://a/'' []) (BodyAppend (Inline ''cd'')) ''ab'' = Inr body' \<and>
     length body' \<le> rule_body_limit demo_state"
proof -
  let ?m = "demo_request ''http://a/'' []"
  have r: "apply_body_op demo_state (demo_item Direct) ?m (BodyAppend (Inline ''cd'')) ''ab'' = Inr ''abcd''" by code_simp
  with body_operations_bounded [of demo_state "demo_item Direct" ?m "BodyAppend (Inline ''cd'')" "''ab''" "''abcd''"
      "[]" "\<lparr>inject_target = TargetCss, inject_value = Inline [], inject_mode = ModeAppend\<rparr>" demo_json "[]"]
  show ?thesis by auto
qed

text \<open>Fields that pass the checks of the rules can be written and read back.\<close>

lemma rule_bytes: "is_http_token_byte = is_header_token_byte" "rule_field_value_byte = is_http_field_value_byte"
  by (auto simp: fun_eq_iff is_http_token_byte_def is_header_token_byte_def rule_field_value_byte_def is_http_field_value_byte_def)

lemma block_ok:
  "validate_header_block st hs = Inr () \<Longrightarrow> list_all (\<lambda>t. utf8_valid (snd t)) hs \<Longrightarrow> list_all field_ok hs"
  by (auto simp: validate_header_block_iff list_all_iff field_ok_def rule_bytes dest: value_bytes_no_lf
      intro!: value_bytes_no_lf [unfolded list_all_iff])

end
