(* ===== verification/Proxy_Mock.thy ===== *)
theory Proxy_Mock
  imports Proxy_Actions
begin

text \<open>
  Mock responses (\<open>proxy/mock.rs\<close>): from inline values, references, files, directories and raw
  responses. Directories are opened by \<open>cap_std\<close>, an argument here. The main results: the path
  looked up in a directory never leaves it, whatever the URL, and a mock response is one that
  the writer of responses accepts.
\<close>

section \<open>Files\<close>

record mock_fs =
  fs_is_dir :: "string \<Rightarrow> bool"
  fs_canonicalize :: "string \<Rightarrow> file_error + string"
  fs_open_in :: "string \<Rightarrow> string \<Rightarrow> file_error + string"

definition MAX_RULE_MOCK_FILE_CANDIDATES :: nat where
  "MAX_RULE_MOCK_FILE_CANDIDATES = 32"

text \<open>
  \<open>Path::components\<close> of a segment without separator: one \<open>Normal\<close> component unless it is empty or
  a dot name.
\<close>

definition is_safe_path_segment :: "string \<Rightarrow> bool" where
  "is_safe_path_segment seg \<longleftrightarrow> CHR ''/'' \<notin> set seg \<and> seg \<noteq> [] \<and> seg \<noteq> ''.'' \<and> seg \<noteq> ''..''"

fun push_segments :: "string list \<Rightarrow> string \<Rightarrow> proxy_error + string" where
  "push_segments [] out = Inr out"
| "push_segments (seg # segs) out =
     (let seg = trim seg in
      if seg = [] then push_segments segs out
      else if seg = ''.'' \<or> seg = ''..'' \<or> list_ex (\<lambda>c. c = CHR 0x5C \<or> c = CHR '':'' \<or> c = CHR 0x00) seg \<or> \<not> is_safe_path_segment seg
      then Inl (UnsafeSegment seg)
      else push_segments segs (path_join out seg))"

definition mock_directory_relative_path :: "request_meta \<Rightarrow> proxy_error + string" where
  "mock_directory_relative_path meta =
     (let path = (case url_parse (req_url meta) of Inr url \<Rightarrow> url_path url | Inl _ \<Rightarrow> ''/'') in
      try_bind (push_segments (split_chars (\<lambda>c. c = CHR ''/'') path) []) (\<lambda>out.
      Inr (if out = [] \<or> ends_with path ''/'' then path_join out ''index.html'' else out)))"

definition bounded_content :: "file_error + string \<Rightarrow> nat \<Rightarrow> proxy_error + string" where
  "bounded_content r limit =
     (case r of
        Inl e \<Rightarrow> Inl (FileError e)
      | Inr content \<Rightarrow>
          (let bytes = take (min (limit + 1) USIZE_MAX) content in
           if limit < length bytes then Inl (FileTooLarge limit) else Inr bytes))"

definition read_rule_file_path :: "mock_fs \<Rightarrow> proxy_state \<Rightarrow> request_meta \<Rightarrow> string \<Rightarrow> nat \<Rightarrow> proxy_error + string \<times> string" where
  "read_rule_file_path F st meta path limit =
     (let limit = min limit MAX_RULE_EXTERNAL_VALUE_BYTES in
      if fs_is_dir F path then
        (case fs_canonicalize F path of
           Inl e \<Rightarrow> Inl (FileError e)
         | Inr base \<Rightarrow>
             try_bind (mock_directory_relative_path meta) (\<lambda>relative.
             try_bind (bounded_content (fs_open_in F path relative) limit) (\<lambda>body.
             Inr (body, path_join base relative))))
      else try_bind (bounded_content (px_files st path) limit) (\<lambda>body. Inr (body, path)))"

definition read_rule_file_candidate :: "mock_fs \<Rightarrow> proxy_state \<Rightarrow> request_meta \<Rightarrow> string \<Rightarrow> proxy_error + string \<times> string" where
  "read_rule_file_candidate F st meta path =
     (let r = read_rule_file_path F st meta (path_join (px_storage st) path) (rule_body_limit st) in
      if r = Inl (FileError NotFound) then read_rule_file_path F st meta path (rule_body_limit st) else r)"

definition path_extension :: "string \<Rightarrow> string" where
  "path_extension path =
     (let name = last (split_chars (\<lambda>c. c = CHR ''/'') path) in
      case rsplit_once_char name (CHR ''.'') of
        None \<Rightarrow> [] | Some (stem, extension) \<Rightarrow> if stem = [] \<or> name = ''..'' then [] else extension)"

definition CONTENT_TYPES :: "(string \<times> string) list" where
  "CONTENT_TYPES =
     [(''html'', ''text/html; charset=utf-8''), (''htm'', ''text/html; charset=utf-8''), (''txt'', ''text/plain; charset=utf-8''),
      (''text'', ''text/plain; charset=utf-8''), (''log'', ''text/plain; charset=utf-8''), (''json'', ''application/json''),
      (''js'', ''application/javascript''), (''mjs'', ''application/javascript''), (''css'', ''text/css''), (''xml'', ''application/xml''),
      (''svg'', ''image/svg+xml''), (''png'', ''image/png''), (''jpg'', ''image/jpeg''), (''jpeg'', ''image/jpeg''), (''gif'', ''image/gif''),
      (''webp'', ''image/webp''), (''ico'', ''image/x-icon''), (''pdf'', ''application/pdf''), (''wasm'', ''application/wasm''),
      (''woff'', ''font/woff''), (''woff2'', ''font/woff2''), (''ttf'', ''font/ttf''), (''otf'', ''font/otf'')]"

definition content_type_for_path :: "string \<Rightarrow> string" where
  "content_type_for_path path =
     (case map_of CONTENT_TYPES (to_ascii_lowercase (path_extension path)) of Some t \<Rightarrow> t | None \<Rightarrow> ''application/octet-stream'')"

definition mock_candidates :: "string \<Rightarrow> string list" where
  "mock_candidates rendered =
     take (MAX_RULE_MOCK_FILE_CANDIDATES + 1) (filter (\<lambda>s. s \<noteq> []) (map trim (split_chars (\<lambda>c. c = CHR ''|'') rendered)))"

fun try_candidates ::
  "mock_fs \<Rightarrow> proxy_state \<Rightarrow> resolved_action \<Rightarrow> request_meta \<Rightarrow> string list \<Rightarrow> proxy_error + string \<times> string" where
  "try_candidates F st item meta [] = Inl (FileError NotFound)"
| "try_candidates F st item meta (c # cs) =
     (case read_rule_file_candidate F st meta c of
        Inr (body, path) \<Rightarrow>
          try_bind (render_text_bytes st item meta body (rule_body_limit st)) (\<lambda>body. Inr (body, content_type_for_path path))
      | Inl e \<Rightarrow> if e = FileError NotFound then try_candidates F st item meta cs else Inl e)"

definition resolve_mock_value ::
  "mock_fs \<Rightarrow> proxy_state \<Rightarrow> resolved_action \<Rightarrow> request_meta \<Rightarrow> rule_value \<Rightarrow> proxy_error + string \<times> string" where
  "resolve_mock_value F st item meta v =
     (case v of
        File path \<Rightarrow>
          try_bind (render_rule_path st item meta path) (\<lambda>rendered.
          if MAX_RULE_MOCK_FILE_CANDIDATES < length (mock_candidates rendered) then Inl TooManyCandidates
          else try_candidates F st item meta (mock_candidates rendered))
      | _ \<Rightarrow>
          try_bind (resolve_value_bytes_bounded st item meta v (rule_body_limit st)) (\<lambda>body.
          Inr (body, ''text/plain; charset=utf-8'')))"

section \<open>Raw responses\<close>

definition find_bytes :: "string \<Rightarrow> string \<Rightarrow> nat option" where
  "find_bytes haystack needle = find_str needle haystack"

definition is_cr :: "char \<Rightarrow> bool" where
  "is_cr c \<longleftrightarrow> c = CHR 0x0D"

fun raw_mock_headers :: "string list \<Rightarrow> proxy_error + headers" where
  "raw_mock_headers [] = Inr []"
| "raw_mock_headers (l # ls) =
     (let line = trim_end_chars is_cr l in
      if trim line = [] then raw_mock_headers ls
      else
        (case split_once line '':'' of
           None \<Rightarrow> Inl BadRawMock
         | Some (name, v) \<Rightarrow>
             let name = trim name in
             if name = [] \<or> eq_ignore_ascii_case name ''connection'' then raw_mock_headers ls
             else try_bind (raw_mock_headers ls) (\<lambda>hs. Inr ((name, trim_start v) # hs))))"

record mock_response =
  mk_status :: u16
  mk_reason :: string
  mk_headers :: headers
  mk_body :: string

definition split_raw_mock :: "string \<Rightarrow> (string \<times> string) option" where
  "split_raw_mock bytes =
     (case find_bytes bytes TERMINATOR of
        Some i \<Rightarrow> Some (take i bytes, drop (i + 4) bytes)
      | None \<Rightarrow> map_option (\<lambda>i. (take i bytes, drop (i + 2) bytes)) (find_bytes bytes [CHR 0x0A, CHR 0x0A]))"

definition parse_raw_mock_response :: "(u16 \<Rightarrow> string) \<Rightarrow> string \<Rightarrow> proxy_error + mock_response" where
  "parse_raw_mock_response reason_phrase bytes =
     (case split_raw_mock bytes of
        None \<Rightarrow> Inl BadRawMock
      | Some (head, body) \<Rightarrow>
          (case text_lines [] (utf8_lossy head) of
             [] \<Rightarrow> Inl BadRawMock
           | l # ls \<Rightarrow>
               (case splitn_space (trim_end_chars is_cr l) of
                  version # more_parts \<Rightarrow>
                    if version \<noteq> ''HTTP/1.0'' \<and> version \<noteq> ''HTTP/1.1'' then Inl BadRawMock
                    else
                      (case more_parts of
                         [] \<Rightarrow> Inl BadRawMock
                       | s # r \<Rightarrow>
                           (case parse_u16 s of
                              Inl _ \<Rightarrow> Inl BadRawMock
                            | Inr status \<Rightarrow>
                                try_bind (raw_mock_headers ls) (\<lambda>hs.
                                Inr \<lparr>mk_status = status,
                                     mk_reason = (case r of t # _ \<Rightarrow> if trim t \<noteq> [] then t else reason_phrase status | [] \<Rightarrow> reason_phrase status),
                                     mk_headers = hs, mk_body = body\<rparr>)))
                | [] \<Rightarrow> Inl BadRawMock)))"

section \<open>Mock actions\<close>

definition finalize_mock_response :: "proxy_state \<Rightarrow> mock_response \<Rightarrow> proxy_error + mock_response" where
  "finalize_mock_response st r =
     (if \<not> (MIN_FINAL_HTTP_STATUS \<le> mk_status r \<and> mk_status r \<le> MAX_HTTP_STATUS) then Inl BadMockStatus
      else if \<not> status_can_send_content (mk_status r) \<and> mk_body r \<noteq> [] then Inl (MockContent (mk_status r))
      else
        (let r = r\<lparr>mk_headers := remove_header ''content-length'' (strip_hop_by_hop_headers (mk_headers r))\<rparr> in
         try_bind (validate_header_block st (mk_headers r)) (\<lambda>_. Inr r)))"

fun inline_headers :: "proxy_state \<Rightarrow> resolved_action \<Rightarrow> request_meta \<Rightarrow> (string \<times> rule_value) list \<Rightarrow> proxy_error + headers" where
  "inline_headers st item meta [] = Inr []"
| "inline_headers st item meta ((name, v) # hs) =
     try_bind (resolve_value_text_bounded st item meta v (rule_header_limit st)) (\<lambda>v.
     try_bind (inline_headers st item meta hs) (\<lambda>hs. Inr ((name, v) # hs)))"

definition mock_inline :: "(u16 \<Rightarrow> string) \<Rightarrow> proxy_state \<Rightarrow> resolved_action \<Rightarrow> request_meta \<Rightarrow> mock_inline_op \<Rightarrow> proxy_error + mock_response" where
  "mock_inline reason_phrase st item meta op =
     (let status = (case mock_status op of Some s \<Rightarrow> s | None \<Rightarrow> 200) in
      try_bind (case mock_body op of Some v \<Rightarrow> resolve_value_bytes_bounded st item meta v (rule_body_limit st) | None \<Rightarrow> Inr []) (\<lambda>body.
      try_bind (inline_headers st item meta (mock_headers op)) (\<lambda>hs.
      let hs = (if list_ex (\<lambda>(n, _). eq_ignore_ascii_case n ''content-type'') hs then hs
                else hs @ [(''Content-Type'', ''text/plain; charset=utf-8'')]) in
      finalize_mock_response st \<lparr>mk_status = status, mk_reason = reason_phrase status, mk_headers = hs, mk_body = body\<rparr>)))"

fun first_mock ::
  "(u16 \<Rightarrow> string) \<Rightarrow> mock_fs \<Rightarrow> proxy_state \<Rightarrow> request_meta \<Rightarrow> resolved_action list \<Rightarrow> proxy_error + mock_response option" where
  "first_mock reason_phrase F st meta [] = Inr None"
| "first_mock reason_phrase F st meta (item # items) =
     (case ra_action item of
        Mock v \<Rightarrow>
          try_bind (resolve_mock_value F st item meta v) (\<lambda>(body, content_type).
          map_sum id Some (finalize_mock_response st
            \<lparr>mk_status = 200, mk_reason = ''OK'', mk_headers = [(''Content-Type'', content_type)], mk_body = body\<rparr>))
      | MockRaw v \<Rightarrow>
          try_bind (resolve_value_bytes_bounded st item meta v (rule_body_limit st)) (\<lambda>bytes.
          try_bind (parse_raw_mock_response reason_phrase bytes) (\<lambda>r. map_sum id Some (finalize_mock_response st r)))
      | MockInline op \<Rightarrow> map_sum id Some (mock_inline reason_phrase st item meta op)
      | _ \<Rightarrow> first_mock reason_phrase F st meta items)"

section \<open>A directory is not left\<close>

definition path_parts :: "string \<Rightarrow> string list" where
  "path_parts p = split_chars (\<lambda>c. c = CHR ''/'') p"

definition confined :: "string \<Rightarrow> bool" where
  "confined p \<longleftrightarrow> p \<noteq> [] \<and> list_all (\<lambda>seg. is_safe_path_segment seg \<and> CHR 0x5C \<notin> set seg \<and> CHR 0x00 \<notin> set seg) (path_parts p)"

lemma split_chars_append:
  "split_chars P (s @ d # t) = (if P d then split_chars P s @ split_chars P t else split_chars P (s @ d # t))"
  by (induction s) (auto split: list.splits)

lemma path_parts_join:
  assumes "CHR ''/'' \<notin> set seg" "seg \<noteq> []" "out = [] \<or> confined out"
  shows "path_parts (path_join out seg) = (if out = [] then [seg] else path_parts out @ [seg])"
proof -
  have one: "path_parts seg = [seg]" using assms(1) by (auto simp: path_parts_def list_all_iff intro!: split_chars_none)
  have ns: "\<not> starts_with seg ''/''" using assms(1) by (auto simp: starts_with_char)
  show ?thesis
  proof (cases "out = []")
    case True
    with one ns show ?thesis by (simp add: path_join_def)
  next
    case False
    with assms(3) have c: "confined out" by simp
    have "last out \<noteq> CHR ''/''"
    proof
      assume l: "last out = CHR ''/''"
      with False have "out = butlast out @ [CHR ''/'']" by (metis append_butlast_last_id)
      then have "path_parts out = path_parts (butlast out) @ [[]]"
        unfolding path_parts_def using split_chars_append [of "\<lambda>c. c = CHR ''/''" "butlast out" "CHR ''/''" "[]"] by simp
      with c show False by (simp add: confined_def is_safe_path_segment_def)
    qed
    with False ns have "path_join out seg = out @ CHR ''/'' # seg" by (simp add: path_join_def)
    with one False show ?thesis
      unfolding path_parts_def using split_chars_append [of "\<lambda>c. c = CHR ''/''" out "CHR ''/''" seg] by simp
  qed
qed

lemma path_join_confined:
  assumes "is_safe_path_segment seg" "CHR 0x5C \<notin> set seg" "CHR 0x00 \<notin> set seg" "out = [] \<or> confined out"
  shows "confined (path_join out seg)"
  using assms path_parts_join [of seg out]
  by (auto simp: confined_def is_safe_path_segment_def path_join_def split: if_splits)

lemma push_segments_confined:
  "push_segments segs out = Inr p \<Longrightarrow> out = [] \<or> confined out \<Longrightarrow> p = [] \<or> confined p"
proof (induction segs arbitrary: out)
  case (Cons seg segs)
  show ?case
  proof (cases "trim seg = []")
    case True
    with Cons show ?thesis by simp
  next
    case False
    with Cons.prems(1) have s: "is_safe_path_segment (trim seg)" "CHR 0x5C \<notin> set (trim seg)" "CHR 0x00 \<notin> set (trim seg)"
      "push_segments segs (path_join out (trim seg)) = Inr p"
      by (auto simp: Let_def list_ex_iff split: if_splits)
    with Cons.IH Cons.prems(2) path_join_confined show ?thesis by blast
  qed
qed simp

text \<open>
  C25: The path that a mock directory is asked for stays in that directory, whatever the URL of
  the request: it is relative, and each of its parts is an ordinary name, never empty, a dot
  name, or one with a backslash or a zero byte. It is looked up below the canonical directory.
\<close>

theorem mock_path_confined:
  assumes "mock_directory_relative_path meta = Inr p"
  shows "confined p \<and> \<not> starts_with p ''/'' \<and> path_join base p = (if base = [] \<or> last base = CHR ''/'' then base @ p else base @ ''/'' @ p)"
proof -
  have i: "is_safe_path_segment ''index.html'' \<and> CHR 0x5C \<notin> set ''index.html'' \<and> CHR 0x00 \<notin> set ''index.html''" by code_simp
  obtain segs out where o: "push_segments segs [] = Inr out" "p = path_join out ''index.html'' \<or> out \<noteq> [] \<and> p = out"
    using assms by (auto simp: mock_directory_relative_path_def Let_def try_bind_Inr_iff split: if_splits)
  then have "out = [] \<or> confined out" using push_segments_confined by blast
  with o(2) i path_join_confined have c: "confined p" by blast
  have "\<not> starts_with p ''/''"
  proof
    assume "starts_with p ''/''"
    then obtain t where "p = [] @ CHR ''/'' # t" by (auto simp: starts_with_char)
    then have "[] \<in> set (path_parts p)"
      using split_chars_append [of "\<lambda>c. c = CHR ''/''" "[]" "CHR ''/''" t] by (simp add: path_parts_def)
    with c show False by (auto simp: confined_def list_all_iff is_safe_path_segment_def)
  qed
  with c show ?thesis by (simp add: path_join_def)
qed

lemma mock_path_confined_witness:
  "mock_directory_relative_path (demo_request ''http://a/x/y/'' []) = Inr ''x/y/index.html'' \<and> confined ''x/y/index.html'' \<and>
   mock_directory_relative_path (demo_request ''http://a/x/../y'' []) = Inl (UnsafeSegment ''..'')"
proof -
  have p: "mock_directory_relative_path (demo_request ''http://a/x/y/'' []) = Inr ''x/y/index.html''"
    "mock_directory_relative_path (demo_request ''http://a/x/../y'' []) = Inl (UnsafeSegment ''..'')" by code_simp+
  with mock_path_confined [OF p(1), of "[]"] show ?thesis by simp
qed

text \<open>
  A mock response, whatever the rule and the files behind it hold, is one that the writer of
  responses accepts: a final status, no content for a status that forbids it, and no field that
  the writer rejects or manages itself. Only the reason phrase of a raw response is not checked
  here, and it must consist of allowed bytes.
\<close>

theorem mock_response_writable:
  assumes "finalize_mock_response st r = Inr r'" "list_all is_http_field_value_byte (mk_reason r)"
  shows "validate_response_parts ''HTTP/1.1'' (mk_status r') (mk_reason r') (mk_headers r') = Inr () \<and>
    (status_can_send_content (mk_status r') \<or> mk_body r' = []) \<and>
    header (mk_headers r') ''content-length'' = None \<and> header (mk_headers r') ''transfer-encoding'' = None"
proof -
  let ?hs = "remove_header ''content-length'' (strip_hop_by_hop_headers (mk_headers r))"
  have f: "MIN_FINAL_HTTP_STATUS \<le> mk_status r" "mk_status r \<le> MAX_HTTP_STATUS" "status_can_send_content (mk_status r) \<or> mk_body r = []"
    "validate_header_block st ?hs = Inr ()" "r' = r\<lparr>mk_headers := ?hs\<rparr>"
    using assms(1) by (auto simp: finalize_mock_response_def Let_def try_bind_Inr_iff split: if_splits)
  have "validate_fields hs = Inr ()"
    if "list_all (\<lambda>(n, v). n \<noteq> [] \<and> list_all is_http_token_byte n \<and> list_all rule_field_value_byte v) hs" for hs
    using that by (induction hs rule: validate_fields.induct) (auto simp: rule_bytes token_bytes_same)
  then have "validate_fields ?hs = Inr ()" using f(4) by (simp add: validate_header_block_iff)
  moreover have "100 \<le> mk_status r \<and> mk_status r \<le> 599"
  proof -
    have "(100 :: u16) \<le> MIN_FINAL_HTTP_STATUS \<and> MAX_HTTP_STATUS \<le> (599 :: u16)"
      by (simp add: MIN_FINAL_HTTP_STATUS_def MAX_HTTP_STATUS_def)
    with f(1,2) show ?thesis by (metis order_trans)
  qed
  moreover have "header ?hs ''content-length'' = None" by (simp add: header_named named_remove)
  moreover have "named ''transfer-encoding'' ?hs = []"
  proof -
    have "list_ex (eq_ignore_ascii_case ''transfer-encoding'') HOP_BY_HOP" by code_simp
    then have "(n, v) \<in> set (strip_hop_by_hop_headers (mk_headers r)) \<Longrightarrow> \<not> eq_ignore_ascii_case n ''transfer-encoding''" for n v
      using strip_hop_by_hop_fields [of n v "mk_headers r"] by (auto simp: list_ex_iff eq_ignore_ascii_case_def)
    then show ?thesis by (auto simp: named_def remove_header_def filter_empty_conv)
  qed
  ultimately show ?thesis using assms(2) f(3,5) by (simp add: validate_response_parts_def header_named)
qed

lemma mock_response_writable_witness:
  "let r = \<lparr>mk_status = 204, mk_reason = ''No Content'', mk_headers = [(''Content-Length'', ''7''), (''X-A'', ''b'')], mk_body = []\<rparr> in
   finalize_mock_response demo_state r = Inr (r\<lparr>mk_headers := [(''X-A'', ''b'')]\<rparr>) \<and>
   validate_response_parts ''HTTP/1.1'' 204 ''No Content'' [(''X-A'', ''b'')] = Inr ()"
proof -
  let ?r = "\<lparr>mk_status = 204, mk_reason = ''No Content'', mk_headers = [(''Content-Length'', ''7''), (''X-A'', ''b'')], mk_body = []\<rparr>"
  have f: "finalize_mock_response demo_state ?r = Inr (?r\<lparr>mk_headers := [(''X-A'', ''b'')]\<rparr>)" by code_simp
  have "list_all is_http_field_value_byte (mk_reason ?r)" by code_simp
  with mock_response_writable [OF f] f show ?thesis by (simp add: Let_def)
qed

end
