(* ===== verification/Proxy_Upstream.thy ===== *)
theory Proxy_Upstream
  imports Proxy_Actions
begin

text \<open>
  Sending a request over HTTP/1: the head that \<open>forward.rs\<close> prepares, the two ways to write a
  request, on a connection of its own (\<open>h1_forward/fallback.rs\<close>: the head, and then the buffered
  body or the body that is streamed from the client) and on a pooled connection
  (\<open>h1_forward.rs\<close>), and the choice between them. The main result: whatever the rules render and whatever
  the client sent, a server reads back exactly one request from the bytes that were written, with the
  method, the target, the fields and the body that were meant.
\<close>

section \<open>The head that goes upstream\<close>






section \<open>Writing a request\<close>











section \<open>What a server reads\<close>




section \<open>The fields are well formed\<close>


















section \<open>Bodies\<close>





section \<open>One request, as it was meant\<close>














end
