(* ===== verification/Proxy_Handshake.thy ===== *)
theory Proxy_Handshake
  imports Http1_Response Net_Addr Proxy_Routing
begin

text \<open>
  The handshakes with upstream proxies (\<open>proxy/connect_proxy.rs\<close>): the tunnel of an HTTP proxy
  and the SOCKS5 negotiation. The main results: a completed SOCKS5 handshake asked the proxy for
  exactly the target of the route, the proxy accepted it, and the stream stands right after
  its reply, whose length the standard gives, so every byte of the tunnel is left unread.
\<close>

section \<open>Both directions of a connection\<close>

record duplex =
  dx_in :: byte_stream
  dx_out :: byte_sink

datatype handshake_error =
    HandshakeIo io_kind
  | HeadFailed http_error
  | TunnelRefused u16 string
  | BadGreeting
  | CredentialsRequired
  | UnsupportedMethod nat
  | HostTooLong
  | BadConnectReply
  | BadAddressType nat
  | ConnectRefused nat
  | CredentialsTooLong
  | BadAuthReply
  | AuthRejected

definition dx_write :: "string \<Rightarrow> duplex \<Rightarrow> handshake_error + duplex" where
  "dx_write bs d = (case sink_write bs (dx_out d) of Inl e \<Rightarrow> Inl (HandshakeIo e) | Inr snk \<Rightarrow> Inr (d\<lparr>dx_out := snk\<rparr>))"

definition dx_read :: "nat \<Rightarrow> duplex \<Rightarrow> handshake_error + string \<times> duplex" where
  "dx_read n d = (case read_exact n (dx_in d) of Inl e \<Rightarrow> Inl (HandshakeIo e) | Inr (bs, st) \<Rightarrow> Inr (bs, d\<lparr>dx_in := st\<rparr>))"

function read_exact_discard :: "nat \<Rightarrow> duplex \<Rightarrow> handshake_error + duplex" where
  "read_exact_discard remaining d =
     (if 0 < remaining then
        try_bind (dx_read (min remaining 32) d) (\<lambda>(_, d). read_exact_discard (remaining - min remaining 32) d)
      else Inr d)"
  by pat_completeness auto
termination by (relation "measure fst") auto

declare read_exact_discard.simps [simp del]

section \<open>HTTP proxies\<close>

definition connect_request :: "string \<Rightarrow> string" where
  "connect_request target =
     ''CONNECT '' @ target @ '' HTTP/1.1'' @ CRLF @ ''Host: '' @ target @ CRLF @ ''Connection: close'' @ CRLF @ CRLF"

definition http_proxy_connect_tunnel :: "string \<Rightarrow> nat \<Rightarrow> nat \<Rightarrow> duplex \<Rightarrow> handshake_error + duplex" where
  "http_proxy_connect_tunnel target max_header_size max_header_count d =
     try_bind (dx_write (connect_request target) d) (\<lambda>d.
     case read_response_head max_header_size max_header_count (dx_in d) of
       Inl e \<Rightarrow> Inl (HeadFailed e)
     | Inr (head, st) \<Rightarrow>
         if 200 \<le> ph_status head \<and> ph_status head < 300 then Inr (d\<lparr>dx_in := st\<rparr>)
         else Inl (TunnelRefused (ph_status head) (ph_reason head)))"

section \<open>SOCKS5\<close>

definition parse_ip_addr :: "string \<Rightarrow> ip_addr option" where
  "parse_ip_addr s =
     (case read_ipv4_addr s of
        Some (octets, r) \<Rightarrow> if r = [] then Some (IpV4 octets) else None
      | None \<Rightarrow> map_option IpV6 (parse_ipv6_addr s))"

definition u8_char :: "nat \<Rightarrow> char" where
  "u8_char n = char_of (n mod 256)"

definition be16 :: "nat \<Rightarrow> string" where
  "be16 n = [u8_char (n div 256), u8_char n]"

definition socks5_username_password_auth :: "socks_auth \<Rightarrow> duplex \<Rightarrow> handshake_error + duplex" where
  "socks5_username_password_auth auth d =
     (let u = sa_username auth; p = sa_password auth in
      if 255 < length u \<or> 255 < length p then Inl CredentialsTooLong
      else
        try_bind (dx_write (u8_char 1 # u8_char (length u) # u @ u8_char (length p) # p) d) (\<lambda>d.
        try_bind (dx_read 2 d) (\<lambda>(res, d).
        if byte (res ! 0) \<noteq> 1 then Inl BadAuthReply
        else if byte (res ! 1) \<noteq> 0 then Inl AuthRejected
        else Inr d)))"

definition socks_address :: "string \<Rightarrow> handshake_error + string" where
  "socks_address host =
     (case parse_ip_addr host of
        Some (IpV4 octets) \<Rightarrow> Inr (u8_char 1 # map u8_char octets)
      | Some (IpV6 groups) \<Rightarrow> Inr (u8_char 4 # concat (map be16 groups))
      | None \<Rightarrow> if 255 < length host then Inl HostTooLong else Inr (u8_char 3 # u8_char (length host) # host))"

definition socks_greeting :: "socks_auth option \<Rightarrow> string" where
  "socks_greeting auth = map u8_char (if auth \<noteq> None then [5, 2, 0, 2] else [5, 1, 0])"

definition socks_method :: "socks_auth option \<Rightarrow> nat \<Rightarrow> duplex \<Rightarrow> handshake_error + duplex" where
  "socks_method auth m d =
     (if m = 0 then Inr d
      else if m = 2 then (case auth of Some a \<Rightarrow> socks5_username_password_auth a d | None \<Rightarrow> Inl CredentialsRequired)
      else Inl (UnsupportedMethod m))"

definition socks_bound_address :: "nat \<Rightarrow> duplex \<Rightarrow> handshake_error + duplex" where
  "socks_bound_address atyp d =
     (if atyp = 1 then read_exact_discard 4 d
      else if atyp = 3 then try_bind (dx_read 1 d) (\<lambda>(len, d). read_exact_discard (byte (len ! 0)) d)
      else if atyp = 4 then read_exact_discard 16 d
      else Inl (BadAddressType atyp))"

definition socks5_connect :: "string \<Rightarrow> u16 \<Rightarrow> socks_auth option \<Rightarrow> duplex \<Rightarrow> handshake_error + duplex" where
  "socks5_connect host port auth d =
     try_bind (dx_write (socks_greeting auth) d) (\<lambda>d.
     try_bind (dx_read 2 d) (\<lambda>(m, d).
     if byte (m ! 0) \<noteq> 5 then Inl BadGreeting
     else
       try_bind (socks_method auth (byte (m ! 1)) d) (\<lambda>d.
       try_bind (socks_address host) (\<lambda>address.
       try_bind (dx_write (map u8_char [5, 1, 0] @ address @ be16 (unat port)) d) (\<lambda>d.
       try_bind (dx_read 4 d) (\<lambda>(head, d).
       if byte (head ! 0) \<noteq> 5 then Inl BadConnectReply
       else
         try_bind (socks_bound_address (byte (head ! 3)) d) (\<lambda>d.
         try_bind (read_exact_discard 2 d) (\<lambda>d.
         if byte (head ! 1) \<noteq> 0 then Inl (ConnectRefused (byte (head ! 1))) else Inr d))))))))"

section \<open>What a completed handshake has sent and read\<close>

text \<open>The connection after reading \<open>bs\<close> and writing \<open>ws\<close>.\<close>

definition moved :: "duplex \<Rightarrow> string \<Rightarrow> string \<Rightarrow> duplex \<Rightarrow> bool" where
  "moved d bs ws d' \<longleftrightarrow>
     str_bytes (dx_in d) = bs @ str_bytes (dx_in d') \<and> snk_out (dx_out d') = snk_out (dx_out d) @ ws"

lemma moved_refl: "moved d [] [] d"
  by (simp add: moved_def)

lemma moved_trans: "moved d bs ws d' \<Longrightarrow> moved d' cs vs d'' \<Longrightarrow> moved d (bs @ cs) (ws @ vs) d''"
  by (simp add: moved_def)

lemma dx_write_moved: "dx_write ws d = Inr d' \<Longrightarrow> moved d [] ws d'"
  by (auto simp: dx_write_def moved_def dest: sink_write_Inr split: sum.splits)

lemma dx_read_moved: "dx_read n d = Inr (bs, d') \<Longrightarrow> moved d bs [] d' \<and> length bs = n"
  by (auto simp: dx_read_def moved_def read_exact_Inr split: sum.splits)

lemma discard_moved: "read_exact_discard n d = Inr d' \<Longrightarrow> \<exists>bs. moved d bs [] d' \<and> length bs = n"
proof (induction n d arbitrary: d' rule: read_exact_discard.induct)
  case (1 n d)
  show ?case
  proof (cases "0 < n")
    case True
    with "1.prems" obtain bs e where r: "dx_read (min n 32) d = Inr (bs, e)" "read_exact_discard (n - min n 32) e = Inr d'"
      by (auto simp: read_exact_discard.simps [of n d] try_bind_Inr_iff)
    from 1(1) [OF True r(1) refl r(2)] obtain cs where "moved e cs [] d'" "length cs = n - min n 32" by blast
    with dx_read_moved [OF r(1)] moved_trans show ?thesis by (metis append_Nil le_add_diff_inverse length_append min.cobounded1)
  next
    case False
    with "1.prems" moved_refl show ?thesis by (auto simp: read_exact_discard.simps [of n d])
  qed
qed

datatype socks_dest = SocksIp ip_addr | SocksName string

definition socks_target :: "string \<Rightarrow> socks_dest" where
  "socks_target host = (case parse_ip_addr host of Some ip \<Rightarrow> SocksIp ip | None \<Rightarrow> SocksName host)"

definition read16 :: "string \<Rightarrow> nat" where
  "read16 s = byte (s ! 0) * 256 + byte (s ! 1)"

fun read_all16 :: "string \<Rightarrow> nat list" where
  "read_all16 (a # b # s) = read16 [a, b] # read_all16 s"
| "read_all16 _ = []"

text \<open>How a SOCKS5 server reads a connect request (RFC 1928).\<close>

definition socks_decode :: "string \<Rightarrow> (socks_dest \<times> nat) option" where
  "socks_decode req =
     (if length req < 5 \<or> map byte (take 3 req) \<noteq> [5, 1, 0] then None
      else
        (let t = byte (req ! 3); s = drop 4 req in
         if t = 1 \<and> length s = 6 then Some (SocksIp (IpV4 (map byte (take 4 s))), read16 (drop 4 s))
         else if t = 4 \<and> length s = 18 then Some (SocksIp (IpV6 (read_all16 (take 16 s))), read16 (drop 16 s))
         else if t = 3 \<and> length s = byte (s ! 0) + 3 then
           Some (SocksName (take (byte (s ! 0)) (tl s)), read16 (drop (byte (s ! 0) + 1) s))
         else None))"

text \<open>How a SOCKS5 server reads the credentials (RFC 1929).\<close>

definition credentials_decode :: "string \<Rightarrow> (string \<times> string) option" where
  "credentials_decode msg =
     (if length msg < 2 \<or> byte (msg ! 0) \<noteq> 1 then None
      else
        (let n = byte (msg ! 1); s = drop 2 msg in
         if length s \<le> n \<or> length s \<noteq> n + 1 + byte (s ! n) then None
         else Some (take n s, drop (n + 1) s)))"

text \<open>
  How many bytes follow the first four of a reply to a connect request (RFC 1928): the bound
  address, as long as its type says, and two bytes for the port.
\<close>

definition reply_rest_length :: "nat \<Rightarrow> string \<Rightarrow> nat" where
  "reply_rest_length atyp s = (if atyp = 1 then 4 else if atyp = 3 then 1 + byte (s ! 0) else 16) + 2"

lemma byte_u8 [simp]: "byte (u8_char n) = n mod 256"
  by (simp add: u8_char_def byte_def)

lemma read16_be16: "n < 65536 \<Longrightarrow> read16 (be16 n) = n"
  by (simp add: read16_def be16_def)

lemma map_byte_u8: "list_all (\<lambda>n. n < 256) ns \<Longrightarrow> map (\<lambda>n. byte (u8_char n)) ns = ns"
  by (induction ns) auto

lemma read_all16_be16: "list_all (\<lambda>n. n < 65536) gs \<Longrightarrow> read_all16 (concat (map be16 gs)) = gs"
proof (induction gs)
  case (Cons g gs)
  then show ?case using read16_be16 [of g] by (simp add: be16_def)
qed simp

lemma read_number_bound: "read_number radix maxd z bound s = Some (n, r) \<Longrightarrow> n \<le> bound"
  by (auto simp: read_number_def split: option.splits if_splits)

lemma separator_bound:
  "read_separator c i (read_number radix maxd z bound) s = Some (n, r) \<Longrightarrow> n \<le> bound"
  by (auto simp: read_separator_def bind_eq_Some_conv dest: read_number_bound split: if_splits)

lemma octets_ok: "read_ipv4_octets n i s = Some (os, r) \<Longrightarrow> length os = n \<and> list_all (\<lambda>k. k < 256) os"
proof (induction n arbitrary: i s os r)
  case (Suc n)
  let ?sep = "read_separator CHR ''.'' i (read_number 10 (Some 3) False 255) s"
  from Suc.prems obtain g t gs where g: "?sep = Some (g, t)"
    and gs: "read_ipv4_octets n (Suc i) t = Some (gs, r)" "os = g # gs"
    by (cases ?sep) auto
  from separator_bound [OF g] Suc.IH [OF gs(1)] gs(2) show ?case by simp
qed simp

lemma ipv4_ok: "read_ipv4_addr s = Some (os, r) \<Longrightarrow> length os = 4 \<and> list_all (\<lambda>k. k < 256) os"
  using octets_ok by (simp add: read_ipv4_addr_def)

lemma ipv4_groups_ok:
  assumes "length os = 4" "list_all (\<lambda>k. k < 256) os"
  shows "length (ipv4_groups os) = 2 \<and> list_all (\<lambda>k. k < 65536) (ipv4_groups os)"
proof -
  obtain a b c d where "os = [a, b, c, d]"
  proof -
    have "length os = Suc (Suc (Suc (Suc 0)))" using assms(1) by simp
    with that show thesis by (auto simp only: length_Suc_conv length_0_conv)
  qed
  with assms(2) show ?thesis by (simp add: ipv4_groups_def)
qed

lemma groups_ok: "read_groups left i s = (gs, v4, r) \<Longrightarrow> length gs \<le> left \<and> list_all (\<lambda>k. k < 65536) gs"
proof (induction left arbitrary: i s gs v4 r)
  case (Suc left)
  show ?case
  proof (cases "if 0 < left then read_separator CHR '':'' i read_ipv4_addr s else None")
    case (Some p)
    obtain os r' where p: "p = (os, r')" by (cases p)
    with Some have "0 < left" "\<exists>t. read_ipv4_addr t = Some (os, r')"
      by (auto simp: read_separator_def bind_eq_Some_conv split: if_splits)
    then have "length (ipv4_groups os) = 2 \<and> list_all (\<lambda>k. k < 65536) (ipv4_groups os)" "0 < left"
      using ipv4_ok ipv4_groups_ok by blast+
    with Some p Suc.prems show ?thesis by (auto split: if_splits)
  next
    case None
    show ?thesis
    proof (cases "read_separator CHR '':'' i (read_number 16 (Some 4) True 65535) s")
      case num: (Some p)
      obtain g t where p: "p = (g, t)" by (cases p)
      obtain hs w u where h: "read_groups left (Suc i) t = (hs, w, u)" by (metis prod_cases3)
      have "g \<le> 65535" using separator_bound num p by blast
      with None num p h Suc.prems Suc.IH [OF h] show ?thesis by auto
    qed (use None Suc.prems in auto)
  qed
qed simp

lemma ipv6_ok: "parse_ipv6_addr s = Some gs \<Longrightarrow> length gs = 8 \<and> list_all (\<lambda>k. k < 65536) gs"
proof -
  assume "parse_ipv6_addr s = Some gs"
  then have r: "read_ipv6_addr s = Some (gs, [])" by (auto simp: parse_ipv6_addr_def split: option.splits list.splits)
  obtain a v t where a: "read_groups 8 0 s = (a, v, t)" by (metis prod_cases3)
  show ?thesis
  proof (cases "length a = 8")
    case True
    with r a groups_ok [OF a] show ?thesis by (auto simp: read_ipv6_addr_def Let_def)
  next
    case False
    with r a obtain r2 b w u where b: "read_groups (8 - (length a + 1)) 0 r2 = (b, w, u)"
      "gs = a @ replicate (8 - length a - length b) 0 @ b"
      by (auto simp: read_ipv6_addr_def Let_def split: if_splits option.splits prod.splits)
    with groups_ok [OF a] groups_ok [OF b(1)] False show ?thesis by (auto simp: list_all_iff)
  qed
qed

lemma parse_ip_ok:
  "parse_ip_addr s = Some (IpV4 os) \<Longrightarrow> length os = 4 \<and> list_all (\<lambda>k. k < 256) os"
  "parse_ip_addr s = Some (IpV6 gs) \<Longrightarrow> length gs = 8 \<and> list_all (\<lambda>k. k < 65536) gs"
  by (auto simp: parse_ip_addr_def dest: ipv4_ok ipv6_ok split: option.splits if_splits)

lemma socks_decode_request:
  assumes "socks_address host = Inr address" "p < 65536"
  shows "socks_decode (map u8_char [5, 1, 0] @ address @ be16 p) = Some (socks_target host, p)"
proof (cases "parse_ip_addr host")
  case None
  with assms have "length host \<le> 255" "address = u8_char 3 # u8_char (length host) # host"
    by (auto simp: socks_address_def split: if_splits)
  with None read16_be16 [OF assms(2)] show ?thesis
    by (simp add: socks_decode_def socks_target_def Let_def be16_def)
next
  case (Some ip)
  show ?thesis
  proof (cases ip)
    case (IpV4 os)
    with assms Some have "address = u8_char 1 # map u8_char os" by (simp add: socks_address_def)
    with parse_ip_ok(1) [of host os] Some IpV4 map_byte_u8 [of os] read16_be16 [OF assms(2)] show ?thesis
      by (simp add: socks_decode_def socks_target_def Let_def be16_def comp_def)
  next
    case (IpV6 gs)
    with assms Some have "address = u8_char 4 # concat (map be16 gs)" by (simp add: socks_address_def)
    moreover have "length (concat (map be16 gs)) = 2 * length gs" by (induction gs) (auto simp: be16_def)
    ultimately show ?thesis
      using parse_ip_ok(2) [of host gs] Some IpV6 read_all16_be16 [of gs] read16_be16 [OF assms(2)]
      by (simp add: socks_decode_def socks_target_def Let_def be16_def)
  qed
qed

lemma credentials_decode_message:
  "length u \<le> 255 \<Longrightarrow> length p \<le> 255 \<Longrightarrow>
     credentials_decode (u8_char 1 # u8_char (length u) # u @ u8_char (length p) # p) = Some (u, p)"
  by (simp add: credentials_decode_def Let_def nth_append)

lemma auth_moved:
  assumes "socks5_username_password_auth a d = Inr d'"
  shows "\<exists>bs ws. moved d bs ws d' \<and> map byte bs = [1, 0] \<and> credentials_decode ws = Some (sa_username a, sa_password a)"
proof -
  let ?u = "sa_username a" and ?p = "sa_password a"
  let ?msg = "u8_char 1 # u8_char (length ?u) # ?u @ u8_char (length ?p) # ?p"
  from assms obtain e res where l: "length ?u \<le> 255" "length ?p \<le> 255"
    and e: "dx_write ?msg d = Inr e" "dx_read 2 e = Inr (res, d')" "byte (res ! 0) = 1" "byte (res ! 1) = 0"
    by (auto simp: socks5_username_password_auth_def Let_def try_bind_Inr_iff split: if_splits)
  from dx_read_moved [OF e(2)] have r: "length res = 2" "moved e res [] d'" by simp_all
  from r(1) e(3,4) have "map byte res = [1, 0]" by (auto simp: length_Suc_conv numeral_2_eq_2)
  with moved_trans [OF dx_write_moved [OF e(1)] r(2)] credentials_decode_message [OF l] show ?thesis by (metis append_Nil append_Nil2)
qed

lemma socks_method_moved:
  assumes "socks_method auth m d = Inr d'"
  shows "\<exists>bs ws. moved d bs ws d' \<and> (m = 0 \<and> bs = [] \<and> ws = [] \<or>
    m = 2 \<and> map byte bs = [1, 0] \<and> (\<exists>a. auth = Some a \<and> credentials_decode ws = Some (sa_username a, sa_password a)))"
proof (cases "m = 0")
  case True
  with assms moved_refl show ?thesis by (auto simp: socks_method_def)
next
  case False
  with assms obtain a where a: "m = 2" "auth = Some a" "socks5_username_password_auth a d = Inr d'"
    by (auto simp: socks_method_def split: if_splits option.splits)
  from auth_moved [OF a(3)] obtain bs ws where "moved d bs ws d'" "map byte bs = [1, 0]"
    "credentials_decode ws = Some (sa_username a, sa_password a)" by auto
  with a(1,2) show ?thesis by (intro exI [of _ bs] exI [of _ ws]) simp
qed

lemma bound_address_moved:
  assumes "socks_bound_address t d = Inr d'"
  shows "\<exists>bs. moved d bs [] d' \<and> t \<in> {1, 3, 4} \<and> (\<forall>port. length bs + 2 = reply_rest_length t (bs @ port))"
proof -
  consider "t = 1" | "t = 3" | "t = 4" using assms by (auto simp: socks_bound_address_def split: if_splits)
  then show ?thesis
  proof cases
    case 2
    with assms obtain len e where e: "dx_read 1 d = Inr (len, e)" "read_exact_discard (byte (len ! 0)) e = Inr d'"
      by (auto simp: socks_bound_address_def try_bind_Inr_iff)
    from discard_moved [OF e(2)] obtain cs where cs: "moved e cs [] d'" "length cs = byte (len ! 0)" by blast
    from dx_read_moved [OF e(1)] have "moved d len [] e" "length len = 1" by simp_all
    with moved_trans [OF this(1) cs(1)] cs(2) 2 show ?thesis
      by (intro exI [of _ "len @ cs"]) (simp add: reply_rest_length_def nth_append)
  qed (use assms in \<open>auto simp: socks_bound_address_def reply_rest_length_def dest!: discard_moved\<close>)
qed

text \<open>
  C23: A SOCKS5 handshake that completes has asked the proxy for exactly the target of the route:
  a server that decodes the request by the standard reads that address or name and that port. It
  sent credentials only to a proxy that asked for them, and then a server that decodes them by the
  standard reads exactly the configured name and password. The proxy answered with success, and the
  bytes read are exactly its answers: the choice of a method, the answer to the credentials, and a
  reply of the length the standard gives for its address type with the two bytes of the port. So
  the stream stands at the first byte of the tunnel.
\<close>

theorem socks5_handshake_exact:
  assumes "socks5_connect host port auth d = Inr d'"
  shows "\<exists>m auth_reply sent head bound request.
    moved d ([u8_char 5, m] @ auth_reply @ head @ bound) (socks_greeting auth @ sent @ request) d' \<and>
    (byte m = 0 \<and> auth_reply = [] \<and> sent = [] \<or>
     byte m = 2 \<and> map byte auth_reply = [1, 0] \<and>
       (\<exists>a. auth = Some a \<and> credentials_decode sent = Some (sa_username a, sa_password a))) \<and>
    length head = 4 \<and> byte (head ! 0) = 5 \<and> byte (head ! 1) = 0 \<and> byte (head ! 3) \<in> {1, 3, 4} \<and>
    length bound = reply_rest_length (byte (head ! 3)) bound \<and>
    socks_decode request = Some (socks_target host, unat port)"
proof -
  obtain d1 m d2 d3 address d4 head d5 d6 where
    s: "dx_write (socks_greeting auth) d = Inr d1" "dx_read 2 d1 = Inr (m, d2)" "byte (m ! 0) = 5"
    "socks_method auth (byte (m ! 1)) d2 = Inr d3" "socks_address host = Inr address"
    "dx_write (map u8_char [5, 1, 0] @ address @ be16 (unat port)) d3 = Inr d4"
    "dx_read 4 d4 = Inr (head, d5)" "byte (head ! 0) = 5"
    "socks_bound_address (byte (head ! 3)) d5 = Inr d6" "read_exact_discard 2 d6 = Inr d'" "byte (head ! 1) = 0"
    using assms by (auto simp: socks5_connect_def try_bind_Inr_iff split: if_splits)
  have "unat port < 65536" using unsigned_less [of port] by simp
  from socks_decode_request [OF s(5) this]
  have dec: "socks_decode (map u8_char [5, 1, 0] @ address @ be16 (unat port)) = Some (socks_target host, unat port)" .
  obtain c where m: "m = [u8_char 5, c]"
  proof -
    from dx_read_moved [OF s(2)] obtain b c where bc: "m = [b, c]" by (auto simp: length_Suc_conv numeral_2_eq_2)
    have "u8_char 5 = char_of (byte b)" using s(3) bc by (simp add: u8_char_def del: char_of_byte)
    with bc that show thesis by simp
  qed
  obtain ar sent where am: "moved d2 ar sent d3"
    "byte c = 0 \<and> ar = [] \<and> sent = [] \<or>
     byte c = 2 \<and> map byte ar = [1, 0] \<and> (\<exists>a. auth = Some a \<and> credentials_decode sent = Some (sa_username a, sa_password a))"
    using socks_method_moved [OF s(4)] m by auto
  obtain b1 where b1: "moved d5 b1 [] d6" "byte (head ! 3) \<in> {1, 3, 4}"
    "\<And>port. length b1 + 2 = reply_rest_length (byte (head ! 3)) (b1 @ port)"
    using bound_address_moved [OF s(9)] by blast
  obtain b2 where b2: "moved d6 b2 [] d'" "length b2 = 2" using discard_moved [OF s(10)] by blast
  have "moved d (m @ ar @ head @ b1 @ b2) (socks_greeting auth @ sent @ map u8_char [5, 1, 0] @ address @ be16 (unat port)) d'"
    using dx_write_moved [OF s(1)] dx_read_moved [OF s(2)] am(1) dx_write_moved [OF s(6)] dx_read_moved [OF s(7)] b1(1) b2(1)
    by (auto simp: moved_def)
  moreover have "length (b1 @ b2) = reply_rest_length (byte (head ! 3)) (b1 @ b2)" using b1(3) [of b2] b2(2) by simp
  ultimately show ?thesis using m am(2) dx_read_moved [OF s(7)] s(8,11) dec b1(2)
    by (intro exI [of _ c] exI [of _ ar] exI [of _ sent] exI [of _ head] exI [of _ "b1 @ b2"]
        exI [of _ "map u8_char [5, 1, 0] @ address @ be16 (unat port)"]) simp
qed

definition demo_peer :: "nat list \<Rightarrow> duplex" where
  "demo_peer bs = \<lparr>dx_in = \<lparr>str_bytes = map u8_char bs, str_close = None, str_parts = []\<rparr>, dx_out = \<lparr>snk_out = [], snk_room = None\<rparr>\<rparr>"

lemma socks5_handshake_exact_witness:
  "\<exists>d'. socks5_connect ''a.test'' 443 (Some \<lparr>sa_username = ''u'', sa_password = ''pw''\<rparr>)
       (demo_peer [5, 2, 1, 0, 5, 0, 0, 1, 1, 2, 3, 4, 0, 80, 22, 3]) = Inr d' \<and>
     str_bytes (dx_in d') = map u8_char [22, 3] \<and>
     (\<exists>sent request. snk_out (dx_out d') = map u8_char [5, 2, 0, 2] @ sent @ request \<and>
       credentials_decode sent = Some (''u'', ''pw'') \<and> socks_decode request = Some (SocksName ''a.test'', 443))"
proof -
  let ?a = "\<lparr>sa_username = ''u'', sa_password = ''pw''\<rparr>"
  let ?d = "demo_peer [5, 2, 1, 0, 5, 0, 0, 1, 1, 2, 3, 4, 0, 80, 22, 3]"
  have "case socks5_connect ''a.test'' 443 (Some ?a) ?d of Inr d' \<Rightarrow> str_bytes (dx_in d') = map u8_char [22, 3] | Inl _ \<Rightarrow> False" by code_simp
  then obtain d' where d: "socks5_connect ''a.test'' 443 (Some ?a) ?d = Inr d'" "str_bytes (dx_in d') = map u8_char [22, 3]"
    by (auto split: sum.splits)
  have t: "socks_target ''a.test'' = SocksName ''a.test'' \<and> socks_greeting (Some ?a) = map u8_char [5, 2, 0, 2] \<and>
      snk_out (dx_out ?d) = [] \<and> byte (hd (tl (str_bytes (dx_in ?d)))) = 2"
    by code_simp
  from socks5_handshake_exact [OF d(1)] obtain m ar sent head bound request where
    h: "moved ?d ([u8_char 5, m] @ ar @ head @ bound) (socks_greeting (Some ?a) @ sent @ request) d'"
    "byte m = 0 \<or> credentials_decode sent = Some (sa_username ?a, sa_password ?a)"
    "socks_decode request = Some (socks_target ''a.test'', unat (443 :: u16))"
    by blast
  from h(1) t have "byte m = 2" by (simp add: moved_def)
  with h t d show ?thesis by (auto simp: moved_def)
qed

end
