(* ===== verification/Spec2Isabelle.thy ===== *)
theory Spec2Isabelle
  imports Parse_Groups Template_Metadata Trace_Store Snapshot_Version Ws_Tunnel H2_Bridge
    Host_Pool Conn_Pool Proxy_Mock Proxy_Upstream Proxy_Handshake
begin

text \<open>
  A verification development for rsproxy, an intercepting HTTP proxy whose behaviour is
  programmed by rule files. It models the rule engine (\<open>crates/rsproxy-rules\<close>), the trace store
  (\<open>crates/rsproxy-trace\<close>), the shared HTTP predicates (\<open>crates/rsproxy-http\<close>), the HTTP/1
  messages and the connection pools of the network layer (\<open>crates/rsproxy-net\<close>), and of the proxy
  engine (\<open>crates/rsproxy-engine/src/proxy\<close>) the application of rule actions, routing, handshakes,
  mocks and the relays of bodies and WebSocket frames. Paths below are relative to these crates'
  \<open>src\<close> directories, and to \<open>proxy\<close> for the engine.

  \<^bold>\<open>How the parts interact.\<close> A rule source is parsed into a published snapshot, an immutable rule
  set with a version and an index. The head of a request is read from a client connection; the
  engine asks the snapshot which rules match and gets the actions in order; templates in the
  actions are rendered against the request. The actions rewrite its URL, head and body, answer
  it with a mock, or choose a route. The request goes upstream over a pooled connection or
  through a proxy, its body buffered or streamed, and the response comes back the same way,
  changed by the response actions. Two lints look at a snapshot and report rules that cannot
  take effect. What happens to a request is sent as events to the trace store, whose collector
  assembles sessions, keeps a bounded history, serves followers and appends completed sessions
  to spill files. After an upgrade to WebSocket the relay copies frames between client and
  upstream and records them for the trace.

  \<^bold>\<open>Foundations.\<close> \<open>Prelude\<close> (result type, saturating arithmetic, list facts), \<open>Rust_Str\<close>, \<open>Utf8\<close>
  and \<open>Utf8_Split\<close> (\<open>str\<close> as UTF-8 bytes, lossy decoding, splitting), \<open>Rust_F64\<close> (the \<open>f64\<close>
  operations of the parser), \<open>Btree_Map\<close>, \<open>Net_Addr\<close> (\<open>std::net\<close> address parsing), \<open>Byte_Stream\<close>
  (a connection as the bytes it will deliver, cut into partial reads in any way, and how it
  ends), \<open>Cas_Loop\<close> (compare-exchange loops on one cell, with a locale for what every loop body
  keeps, interpreted for both loops of the program).

  \<^bold>\<open>Rules.\<close>
  \<^item> Data: \<open>Rule_Error\<close> (\<open>error.rs\<close>, limits of \<open>language.rs\<close>), \<open>Rule_Action\<close> (\<open>action.rs\<close>, \<open>action/\<close>,
    \<open>matcher/action.rs\<close>, the 64-bit family sets), \<open>Rule_Url\<close> (\<open>matcher/url.rs\<close>), \<open>Rule_Model\<close>
    (\<open>model.rs\<close>), \<open>Host_Pool\<close> (\<open>action/host_pool.rs\<close>: each clone keeps its address, and addresses
    are served in turn).
  \<^item> Parsing: \<open>Rule_Syntax\<close> (\<open>parser/lexer.rs\<close>, \<open>parser/syntax.rs\<close>), \<open>Parse_Condition\<close>,
    \<open>Parse_Action\<close>, \<open>Parse_Groups\<close> (\<open>parser/\<close>, \<open>RuleSet::parse_groups\<close> in \<open>resolve.rs\<close>). Accepted
    matchers, conditions and actions are well formed. Accepted sources and their snapshots are
    within the limits that the language specification gives for groups, lines, bytes, rules,
    actions, conditions, properties, arguments and nesting; tokens are pieces of the line; a published snapshot holds the rule of every
    effective line and nothing else.
  \<^item> Matching: \<open>Rule_Glob\<close>, \<open>Rule_Match\<close> (\<open>matching.rs\<close>, \<open>matcher/\<close>), \<open>Rule_Index\<close>,
    \<open>Rule_Candidates\<close> (\<open>index.rs\<close>), \<open>Rule_Resolve\<close> (\<open>resolve.rs\<close>, \<open>resolution_api.rs\<close>,
    \<open>planning.rs\<close>). Resolution through the index and the compiled resources equals the plain scan
    with reference semantics; first-wins families occur once, skips suppress what follows, the
    matched rules are those of the actions, and the body planner is sound.
  \<^item> Templates: \<open>Rule_Template\<close>, \<open>Template_Metadata\<close> (\<open>template/\<close>, \<open>bounded_replace.rs\<close>). Bounded
    rendering is exact, validated templates render, generated identifiers have their shape and
    differ.
  \<^item> Analyses: \<open>Rule_Lint\<close> (\<open>lint.rs\<close>), \<open>Semantic_Lint\<close> (\<open>semantic_lint.rs\<close>), \<open>Rule_Redact\<close>
    (\<open>redact.rs\<close>). Reports are sound and within their budgets; the cases where they are not sound
    are stated and shown by concrete snapshots.
  \<^item> \<open>Snapshot_Version\<close> (\<open>snapshot_support.rs\<close>): versions under concurrent callers.

  \<^bold>\<open>HTTP/1 messages.\<close> \<open>Http1_Head\<close> (\<open>http.rs\<close>, \<open>http/request/head.rs\<close>), \<open>Http1_Body\<close>
  (\<open>http/request/body/\<close>), \<open>Http1_Headers\<close> (header lists and \<open>transforms/framing.rs\<close>),
  \<open>Http1_Write\<close> (\<open>http/response.rs\<close>), \<open>Http1_Response\<close> (\<open>body.rs\<close>, \<open>h1_forward/body_stream.rs\<close>,
  \<open>h1_forward/response/body.rs\<close>). The three readers of heads agree; no accepted head is framed in
  two ways; bodies are what a reference decoder finds in the bytes, however they arrive and
  whether they are buffered, buffered under a limit, or streamed; written heads are read back
  as what was written.

  \<^bold>\<open>Relays and pools.\<close> \<open>Http1_Relay\<close> (\<open>request_stream.rs\<close>, the pacer of \<open>request_util.rs\<close>) and
  \<open>H2_Bridge\<close> (\<open>h2_bridge/request.rs\<close>, \<open>upstream_h2/request_body.rs\<close>): a streamed body arrives as it
  was sent, and the reader of an HTTP/2 client refines a byte stream. \<open>Conn_Pool\<close>
  (\<open>upstream_pool.rs\<close>, \<open>upstream_h2/pool.rs\<close>, \<open>h1_forward/pool.rs\<close>): the slots of a pool as a step
  relation over threads that ask, wait on a condition variable, time out, release and, in a
  step of its own after the mutex is unlocked, notify. Limits hold in every reachable state; in
  every run in which threads that have released go on to notify, \<open>notify_all\<close> wakes a thread
  that sleeps while a slot is free, and \<open>notify_one\<close> can leave one asleep. The locale of the activity stores is interpreted for both pools.

  \<^bold>\<open>Rule actions at run time.\<close> \<open>Proxy_Values\<close> (\<open>transforms/values.rs\<close>, \<open>transforms/headers.rs\<close>,
  \<open>cookies.rs\<close>), \<open>Proxy_Json\<close> (JSON merge and deletion, \<open>transforms/delete/body.rs\<close>), \<open>Proxy_Routing\<close>
  (\<open>auth.rs\<close>, \<open>routing.rs\<close>, \<open>routing/model.rs\<close>, addresses of \<open>request_util.rs\<close>), \<open>Proxy_Actions\<close>
  (\<open>transforms/content.rs\<close>, \<open>transforms/delete.rs\<close>, \<open>request_actions.rs\<close>, \<open>response_actions.rs\<close>),
  \<open>Proxy_Upstream\<close> (\<open>forward.rs\<close>, \<open>h1_forward.rs\<close>, \<open>h1_forward/fallback.rs\<close>: the request that is
  written to an HTTP/1 upstream), \<open>Proxy_Mock\<close> (\<open>mock.rs\<close>), \<open>Proxy_Handshake\<close> (\<open>connect_proxy.rs\<close>).
  Outputs stay within their limits, what is written for a request is read back as that one
  request, cookies and JSON are
  changed where the rule says and nowhere else, credentials and targets are exact, and mock
  paths stay in their directory.

  \<^bold>\<open>Traces.\<close> \<open>Trace_Model\<close> (\<open>model.rs\<close>, \<open>event.rs\<close>), \<open>Trace_Memory\<close> (\<open>store/memory.rs\<close>),
  \<open>Trace_Pending\<close> (\<open>store/pending.rs\<close>), \<open>Trace_Serialize\<close> (\<open>serialize.rs\<close>), \<open>Trace_Spill\<close>,
  \<open>Spill_Index\<close>, \<open>Spill_Log\<close> (\<open>spill.rs\<close>, \<open>spill/\<close>), \<open>Trace_Worker\<close>, \<open>Trace_Budget\<close>
  (\<open>store/worker.rs\<close>, \<open>store/follow.rs\<close>, \<open>store/stats.rs\<close>), \<open>Trace_Store\<close> (\<open>store.rs\<close>,
  \<open>store/config.rs\<close>, \<open>store/counters.rs\<close>). Byte accounting is exact and within the budgets under
  every interleaving of producers and collector, a recorded session is what is listed, and
  spilled sessions are read back.

  \<^bold>\<open>WebSocket relay.\<close> \<open>Ws_Frame\<close> (\<open>websocket_frame.rs\<close>, the decoder of \<open>websocket.rs\<close>), \<open>Ws_Tunnel\<close>
  (\<open>websocket/nonblocking.rs\<close>, the copy loop of \<open>websocket/concurrent.rs\<close>). The decoder does not
  depend on chunk boundaries, the relay passes bytes on in order, and it is shown when it ends
  and when it does not.

  \<^bold>\<open>Parameters.\<close> Code outside the repository is an argument of the definitions that use it:
  the regex, glob and multi-pattern engines (with the laws in \<open>Rule_Glob\<close> and their concrete
  instance \<open>Demo_Engine\<close>), the zstd compressor (lossless, in \<open>Spill_Log\<close>), the disk (any call
  may fail, in \<open>Trace_Spill\<close>), the file system of rule values and mocks, the JSON library (\<open>json_lib\<close>
  in \<open>Proxy_Json\<close>), the reason phrases of the \<open>http\<close> crate, allocator capacities and sizes of
  types (\<open>alloc\<close> in \<open>Trace_Model\<close>), entropy and clocks, and the peers of a connection.

  \<^bold>\<open>Bounds.\<close> \<open>usize\<close> and \<open>u64\<close> are 64 bits wide; saturating, checked and wrapping steps are
  written out. Loops are structural or have a measure (readers: the bytes still to come); the
  WebSocket relay loops, which a peer can keep running, are partial functions into \<open>option\<close>. The
  budget theorems assume budgets below \<open>usize::MAX\<close> and that the estimates of live sessions stay
  addressable. A deadline that expires is an error of the stream, failed allocations do not
  occur, and a reader is not used again after an error. The trace collector handles a command
  and gives back its reservation in one step.

  \<^bold>\<open>Not modelled.\<close> The language catalogue for editors (tables of \<open>language.rs\<close>), the explain
  report and the source migration (\<open>explain.rs\<close>, \<open>migration.rs\<close>); of the engine and the network
  layer what drives sockets, TLS and the HTTP/2 library asynchronously, the event-stream
  capture, and the trace events emitted along the way; the control API, platform integration,
  command line and build tasks, which are glue over the operating system and libraries. Texts
  of rule diagnostics are values of a message type.
\<close>

section \<open>Published snapshots meet the laws the analyses rely on\<close>

lemma published_indexed:
  "parse_groups_with_profile E version groups h = Some (Inr rs) \<Longrightarrow> indexed E rs"
  by (auto simp: parse_groups_with_profile_def indexed_def Let_def split: if_splits)

lemma wf_matcher_normal: "wf_matcher E m \<Longrightarrow> normal_matcher m"
  by (cases m) (auto simp: normal_host_def)

lemma wf_condition_upper: "wf_condition E c \<Longrightarrow> upper_methods c"
  by (induction c rule: upper_methods.induct) (auto simp: list_all_iff)

lemma wf_action_delete: "wf_action a \<Longrightarrow> a \<noteq> Delete []"
  by auto

lemma published_rules:
  assumes "parse_groups_with_profile E version groups h = Some (Inr rs)" "r \<in> set (rs_rules rs)"
  shows "normal_matcher (rule_matcher r)" "list_all upper_methods (rule_conditions r)"
    "Delete [] \<notin> set (rule_actions r)"
proof -
  from published_limits [OF assms(1)] assms(2) have "wf_rule E r" by (simp add: list_all_iff)
  then show "normal_matcher (rule_matcher r)" "list_all upper_methods (rule_conditions r)"
    "Delete [] \<notin> set (rule_actions r)"
    by (auto simp: wf_rule_def list_all_iff intro: wf_matcher_normal wf_condition_upper dest!: wf_action_delete)
qed

lemma published_positions:
  assumes "parse_groups_with_profile E version groups h = Some (Inr rs)" "distinct (map fst groups)"
  shows "distinct (map (\<lambda>r. (rule_group r, rule_line r)) (rs_rules rs))"
  using published_limits [OF assms(1)] assms(2) by blast

text \<open>
  C2: the shadow lint is right about every source the parser accepts: with distinct group
  names, and unless a glob with a query pattern meets an exact URL without a query, a rule
  reported as shadowed for a family never contributes an action of that family to any
  resolution of the snapshot.
\<close>

theorem published_lint_sound:
  assumes "parse_groups_with_profile E version groups h = Some (Inr rs)" "engines_ok E"
    and "distinct (map fst groups)"
    and "\<forall>a \<in> set (rs_rules rs). \<forall>b \<in> set (rs_rules rs). \<not> query_gap (rule_matcher a) (rule_matcher b)"
    and "f \<in> set (lr_findings (lint_report E rs))"
  shows "filter (\<lambda>x. mr_group (ra_rule x) = lf_group f \<and> mr_line (ra_rule x) = lf_line f \<and>
      family_as_str (family_of (ra_action x)) \<in> set (lf_families f))
    (rr_actions (resolve_inner E rs req res incl)) = []"
  using lint_finding_excludes [OF published_indexed [OF assms(1)] assms(2) published_positions [OF assms(1,3)] _ assms(4,5)]
    published_rules [OF assms(1)]
  by (auto simp: filter_empty_conv)

text \<open>
  C11: the semantic lint is right about every source the parser accepts: a rule reported with
  unsatisfiable conditions never contributes an action to any resolution, in either phase
  and with or without the body.
\<close>

theorem published_unsatisfiable_sound:
  assumes "parse_groups_with_profile E version groups h = Some (Inr rs)" "engines_ok E"
    and "distinct (map fst groups)"
    and "f \<in> set (sr_findings (semantic_lint_report rs))" "sf_kind f = UnsatisfiableConditions"
  shows "filter (\<lambda>x. mr_group (ra_rule x) = sf_group f \<and> mr_line (ra_rule x) = sf_line f)
    (rr_actions (resolve_inner E rs req res incl)) = []"
  using published_rules [OF assms(1)]
  by (intro unsatisfiable_rule_silent [OF published_indexed [OF assms(1)] assms(2) published_positions [OF assms(1,3)] _ assms(4,5)]) blast

text \<open>
  C3: for every source the parser accepts, when the planner says that the request body is
  not required, resolving with any body gives what resolving without it gives, in both
  phases, so the proxy may stream the body unread.
\<close>

theorem published_body_not_required:
  assumes "parse_groups_with_profile E version groups h = Some (Inr rs)" "engines_ok E"
    and "\<not> request_body_required E rs req"
  shows "resolve_inner E rs (req\<lparr>req_body := b\<rparr>) res True = resolve_inner E rs req res False"
  using published_rules(3) [OF assms(1)]
  by (intro request_body_irrelevant [OF published_indexed [OF assms(1)] assms(2) _ assms(3)]) blast

section \<open>A source with findings\<close>

definition analysed_source :: "(string \<times> string) list" where
  "analysed_source =
     [(''demo'', ''**.a.com status(404)'' @ [CHR 0x0A] @ ''b.a.com status(500)'' @ [CHR 0x0A] @
              ''c.com tag(x) when method(get) when not(method(get, put))'')]"

definition analysed_list :: "rule list" where
  "analysed_list =
     [(demo_rule 1 (demo_host ''**.a.com'') [] [Status 404])\<lparr>rule_raw := ''**.a.com status(404)''\<rparr>,
      (demo_rule 2 (demo_host ''b.a.com'') [] [Status 500])\<lparr>rule_raw := ''b.a.com status(500)''\<rparr>,
      (demo_rule 3 (demo_host ''c.com'') [CMethod [''GET''], CNot (CMethod [''GET'', ''PUT''])] [Tag (Inline ''x'')])
        \<lparr>rule_raw := ''c.com tag(x) when method(get) when not(method(get, put))''\<rparr>]"

lemma analysed_source_parses: "parse_groups_with_profile demo_ext 1 analysed_source False = Some (Inr (demo_set analysed_list))"
proof -
  let ?st = "groups_loop demo_ext False 0 analysed_source snapshot_init"
  have "ss_rules ?st = analysed_list \<and> ss_errors ?st = []" by code_simp
  moreover have "index_build demo_ext analysed_list \<noteq> None" by code_simp
  ultimately show ?thesis
    by (auto simp: parse_groups_with_profile_def demo_set_def Let_def)
qed

lemma analysed_shadowed:
  "map lf_line (lr_findings (lint_report demo_ext (demo_set analysed_list))) = [2]"
  by code_simp

lemma analysed_unsatisfiable:
  "map (\<lambda>f. (sf_line f, sf_kind f)) (sr_findings (semantic_lint_report (demo_set analysed_list))) =
     [(3, UnsatisfiableConditions)]"
  unfolding semantic_lint_report_def demo_set_rules by code_simp

lemma analysed_no_gap:
  "\<forall>a \<in> set (rs_rules (demo_set analysed_list)). \<forall>b \<in> set (rs_rules (demo_set analysed_list)). \<not> query_gap (rule_matcher a) (rule_matcher b)"
proof -
  have "list_all (\<lambda>r. case rule_matcher r of MExactUrl _ \<Rightarrow> False | _ \<Rightarrow> True) (rs_rules (demo_set analysed_list))"
    by code_simp
  then show ?thesis by (fastforce simp: list_all_iff query_gap_def split: matcher.splits)
qed

theorem published_lint_sound_witness:
  "\<exists>f \<in> set (lr_findings (lint_report demo_ext (demo_set analysed_list))). lf_line f = 2 \<and>
     filter (\<lambda>x. mr_group (ra_rule x) = lf_group f \<and> mr_line (ra_rule x) = lf_line f \<and>
       family_as_str (family_of (ra_action x)) \<in> set (lf_families f))
     (rr_actions (resolve_inner demo_ext (demo_set analysed_list) (demo_request ''http://b.a.com/'' []) None True)) = []"
proof -
  obtain f where f: "f \<in> set (lr_findings (lint_report demo_ext (demo_set analysed_list)))" "lf_line f = 2"
    using analysed_shadowed by (auto simp: map_eq_Cons_conv)
  with published_lint_sound [OF analysed_source_parses demo_engines_ok _ analysed_no_gap f(1)] show ?thesis
    by (auto simp: analysed_source_def)
qed

theorem published_unsatisfiable_sound_witness:
  "\<exists>f \<in> set (sr_findings (semantic_lint_report (demo_set analysed_list))). sf_line f = 3 \<and>
     filter (\<lambda>x. mr_group (ra_rule x) = sf_group f \<and> mr_line (ra_rule x) = sf_line f)
     (rr_actions (resolve_inner demo_ext (demo_set analysed_list) (demo_request ''http://c.com/'' []) None True)) = []"
proof -
  obtain f where f: "f \<in> set (sr_findings (semantic_lint_report (demo_set analysed_list)))" "sf_line f = 3"
    "sf_kind f = UnsatisfiableConditions"
    using analysed_unsatisfiable by (auto simp: map_eq_Cons_conv)
  with published_unsatisfiable_sound [OF analysed_source_parses demo_engines_ok _ f(1,3)] show ?thesis
    by (auto simp: analysed_source_def)
qed

theorem published_body_not_required_witness:
  "\<not> request_body_required demo_ext (demo_set analysed_list) (demo_request ''http://b.a.com/'' []) \<and>
   resolve_inner demo_ext (demo_set analysed_list) ((demo_request ''http://b.a.com/'' [])\<lparr>req_body := ''x''\<rparr>) None True =
     resolve_inner demo_ext (demo_set analysed_list) (demo_request ''http://b.a.com/'' []) None False"
proof -
  have "\<not> request_body_required demo_ext (demo_set analysed_list) (demo_request ''http://b.a.com/'' [])" by code_simp
  with published_body_not_required [OF analysed_source_parses demo_engines_ok this] show ?thesis by blast
qed

end
